(* ===== verification/Prelude.thy ===== *)
theory Prelude
  imports Main "HOL-Library.Word"
begin

text \<open>
  Shared vocabulary of the development: the machine-integer types of the Rust code
  (\<open>i64\<close>, \<open>u64\<close>, \<open>u32\<close>, \<open>u8\<close>), byte strings, Rust's wrapping
  division, indexing that panics out of range, \<open>Vec::resize\<close>, and the generic
  lemmas about lists, options and bit lengths that the component theories share.
\<close>

unbundle bit_operations_syntax

named_theorems panic_simps \<open>unfolding of the panicking primitives\<close>
named_theorems heap_simps \<open>reads of a heap after an update of it\<close>

section \<open>Machine types\<close>

type_synonym i64 = "64 word"
type_synonym u64 = "64 word"
type_synonym u32 = "32 word"
type_synonym u16 = "16 word"
type_synonym u8 = "8 word"
type_synonym bytes = "8 word list"
type_synonym addr = nat

abbreviation i64_min :: int where "i64_min \<equiv> - (2 ^ 63)"
abbreviation i64_max :: int where "i64_max \<equiv> 2 ^ 63 - 1"

definition i64_lt :: "i64 \<Rightarrow> i64 \<Rightarrow> bool" where
  "i64_lt a b \<longleftrightarrow> sint a < sint b"

definition i64_le :: "i64 \<Rightarrow> i64 \<Rightarrow> bool" where
  "i64_le a b \<longleftrightarrow> sint a \<le> sint b"

text \<open>Rust's integer division truncates towards zero; the wrapping forms keep the low
  64 bits, so \<open>i64::MIN.wrapping_div(-1)\<close> is \<open>i64::MIN\<close>.\<close>

definition trunc_div :: "int \<Rightarrow> int \<Rightarrow> int" where
  "trunc_div a b = sgn a * sgn b * (\<bar>a\<bar> div \<bar>b\<bar>)"

definition trunc_rem :: "int \<Rightarrow> int \<Rightarrow> int" where
  "trunc_rem a b = a - b * trunc_div a b"

definition wrapping_div :: "i64 \<Rightarrow> i64 \<Rightarrow> i64" where
  "wrapping_div a b = word_of_int (trunc_div (sint a) (sint b))"

definition wrapping_rem :: "i64 \<Rightarrow> i64 \<Rightarrow> i64" where
  "wrapping_rem a b = word_of_int (trunc_rem (sint a) (sint b))"

text \<open>\<open>wrapping_shl\<close> and \<open>wrapping_shr\<close> take the shift amount modulo the
  width; the right shift of an \<open>i64\<close> is arithmetic.\<close>

definition wrapping_shl :: "i64 \<Rightarrow> u32 \<Rightarrow> i64" where
  "wrapping_shl a n = push_bit (unat n mod 64) a"

definition wrapping_shr :: "i64 \<Rightarrow> u32 \<Rightarrow> i64" where
  "wrapping_shr a n = signed_drop_bit (unat n mod 64) a"

lemma sint_i64_range: "i64_min \<le> sint (x :: i64)" "sint (x :: i64) \<le> i64_max"
  using sint_range_size [of x] by (simp_all add: word_size)

lemma sint_of_int_i64:
  "i64_min \<le> i \<Longrightarrow> i \<le> i64_max \<Longrightarrow> sint (word_of_int i :: i64) = i"
  by (simp add: signed_take_bit_int_eq_self sint_uint unsigned_of_int
      signed_take_bit_take_bit)

lemma sint_eq_iff_i64: "sint (a :: i64) = sint b \<longleftrightarrow> a = b"
  by (rule signed_word_eqI[THEN iffI]) auto

section \<open>Panicking primitives\<close>

text \<open>
  A Rust panic is the value \<open>None\<close> of an option. Indexing a slice or a \<open>Vec\<close>
  out of range panics; \<open>Some\<close> is the element.
\<close>

definition idx :: "'a list \<Rightarrow> nat \<Rightarrow> 'a option" where
  "idx xs i = (if i < length xs then Some (xs ! i) else None)"

definition idx_set :: "'a list \<Rightarrow> nat \<Rightarrow> 'a \<Rightarrow> 'a list option" where
  "idx_set xs i v = (if i < length xs then Some (xs[i := v]) else None)"

text \<open>\<open>slice::get\<close>: out of range is an ordinary \<open>None\<close> of the program.\<close>

definition get_at :: "'a list \<Rightarrow> nat \<Rightarrow> 'a option" where
  "get_at xs i = (if i < length xs then Some (xs ! i) else None)"

text \<open>\<open>Vec::resize\<close>, \<open>Vec::truncate\<close>.\<close>

definition resize :: "'a list \<Rightarrow> nat \<Rightarrow> 'a \<Rightarrow> 'a list" where
  "resize xs n v = (if n \<le> length xs then take n xs else xs @ replicate (n - length xs) v)"

lemma idx_Some [panic_simps]: "i < length xs \<Longrightarrow> idx xs i = Some (xs ! i)"
  by (simp add: idx_def)

lemma idx_eq_Some_iff: "idx xs i = Some v \<longleftrightarrow> i < length xs \<and> v = xs ! i"
  by (auto simp: idx_def)

lemma idx_set_Some [panic_simps]: "i < length xs \<Longrightarrow> idx_set xs i v = Some (xs[i := v])"
  by (simp add: idx_set_def)

lemma idx_set_eq_Some_iff: "idx_set xs i v = Some ys \<longleftrightarrow> i < length xs \<and> ys = xs[i := v]"
  by (auto simp: idx_set_def)

lemma length_resize [simp]: "length (resize xs n v) = n"
  by (simp add: resize_def)

lemma nth_resize:
  "i < n \<Longrightarrow> resize xs n v ! i = (if i < length xs then xs ! i else v)"
  by (auto simp: resize_def nth_append)

lemma resize_grow: "length xs \<le> n \<Longrightarrow> resize xs n v = xs @ replicate (n - length xs) v"
  by (auto simp: resize_def)

section \<open>Bit lengths\<close>

fun bitlen :: "nat \<Rightarrow> nat" where
  "bitlen n = (if n = 0 then 0 else Suc (bitlen (n div 2)))"

declare bitlen.simps [simp del]

lemma bitlen_0 [simp]: "bitlen 0 = 0"
  by (simp add: bitlen.simps)

lemma bitlen_pos: "n \<noteq> 0 \<Longrightarrow> bitlen n = Suc (bitlen (n div 2))"
  by (simp add: bitlen.simps)

lemma bitlen_upper: "n < 2 ^ bitlen n"
proof (induction n rule: bitlen.induct)
  case (1 n)
  show ?case
  proof (cases "n = 0")
    case False
    with 1 have "n div 2 < 2 ^ bitlen (n div 2)" by simp
    then show ?thesis using False by (simp add: bitlen_pos)
  qed simp
qed

lemma bitlen_lower: "n \<noteq> 0 \<Longrightarrow> 2 ^ (bitlen n - 1) \<le> n"
proof (induction n rule: bitlen.induct)
  case (1 n)
  show ?case
  proof (cases "n div 2 = 0")
    case True
    then show ?thesis using 1 by (simp add: bitlen_pos)
  next
    case False
    with 1 have "2 ^ (bitlen (n div 2) - 1) \<le> n div 2" by simp
    then have "2 * 2 ^ (bitlen (n div 2) - 1) \<le> n" by linarith
    moreover have "0 < bitlen (n div 2)" using False by (simp add: bitlen_pos)
    ultimately show ?thesis using 1 by (simp add: bitlen_pos flip: power_Suc)
  qed
qed

lemma bitlen_unique:
  assumes "2 ^ k \<le> n" "n < 2 ^ Suc k" shows "bitlen n = Suc k"
proof -
  have "n \<noteq> 0" using assms(1) by (metis le_zero_eq power_not_zero zero_neq_numeral)
  then have "0 < bitlen n" by (simp add: bitlen_pos)
  moreover have "2 ^ (bitlen n - 1) \<le> n" by (rule bitlen_lower) fact
  moreover have "n < 2 ^ bitlen n" by (rule bitlen_upper)
  ultimately have "0 < bitlen n" "2 ^ (bitlen n - 1) \<le> n" "n < 2 ^ bitlen n" .
  then have "(2::nat) ^ (bitlen n - 1) < 2 ^ Suc k" "(2::nat) ^ k < 2 ^ bitlen n"
    using assms by linarith+
  then have "bitlen n - 1 < Suc k" "k < bitlen n"
    by (metis one_less_numeral_iff power_strict_increasing_iff semiring_norm(76))+
  then show ?thesis using \<open>0 < bitlen n\<close> by linarith
qed

lemma bitlen_mult_pow2: "n \<noteq> 0 \<Longrightarrow> bitlen (n * 2 ^ k) = bitlen n + k"
proof (induction k)
  case (Suc k)
  then have "n * 2 ^ Suc k \<noteq> 0" and "n * 2 ^ Suc k div 2 = n * 2 ^ k" by simp_all
  with Suc show ?case using bitlen_pos [of "n * 2 ^ Suc k"] by simp
qed simp

lemma bitlen_le_iff: "bitlen n \<le> k \<longleftrightarrow> n < 2 ^ k"
proof
  assume "bitlen n \<le> k"
  then have "(2::nat) ^ bitlen n \<le> 2 ^ k" by (simp add: power_increasing)
  then show "n < 2 ^ k" using bitlen_upper [of n] by linarith
next
  assume n: "n < 2 ^ k"
  show "bitlen n \<le> k"
  proof (cases "n = 0")
    case False
    then have "(2::nat) ^ (bitlen n - 1) < 2 ^ k" using bitlen_lower [of n] n by linarith
    then have "bitlen n - 1 < k"
      by (metis one_less_numeral_iff power_strict_increasing_iff semiring_norm(76))
    then show ?thesis by linarith
  qed simp
qed

end
