(* ===== verification/F64.thy ===== *)
theory F64
  imports Prelude
begin

text \<open>
  Rust's \<open>f64\<close>: IEEE-754 binary64 as the 64-bit pattern that \<open>f64::to_bits\<close>
  gives, with the arithmetic, comparison and conversions the VM uses. Every finite value is
  an integer number of units of \<open>2 ^ -1074\<close>; the infinities take the value \<open>2 ^ 2098\<close> units,
  above every finite one, so comparison is comparison of units. Results are rounded to
  nearest, ties to even. Rust leaves the sign and payload of a NaN result unspecified; here
  it is the canonical quiet NaN. \<open>powf\<close> is the platform's \<^emph>\<open>libm\<close> and is a parameter
  of the definitions that use it.
\<close>

type_synonym f64 = "64 word"

section \<open>Fields and classes\<close>

definition f64_sign :: "f64 \<Rightarrow> bool" where
  "f64_sign x \<longleftrightarrow> 2 ^ 63 \<le> unat x"

definition f64_expo :: "f64 \<Rightarrow> nat" where
  "f64_expo x = unat x div 2 ^ 52 mod 2 ^ 11"

definition f64_frac :: "f64 \<Rightarrow> nat" where
  "f64_frac x = unat x mod 2 ^ 52"

definition is_nan :: "f64 \<Rightarrow> bool" where
  "is_nan x \<longleftrightarrow> f64_expo x = 2047 \<and> f64_frac x \<noteq> 0"

definition is_inf :: "f64 \<Rightarrow> bool" where
  "is_inf x \<longleftrightarrow> f64_expo x = 2047 \<and> f64_frac x = 0"

definition is_finite :: "f64 \<Rightarrow> bool" where
  "is_finite x \<longleftrightarrow> f64_expo x \<noteq> 2047"

definition mag_units :: "f64 \<Rightarrow> nat" where
  "mag_units x = (if f64_expo x = 0 then f64_frac x
     else (f64_frac x + 2 ^ 52) * 2 ^ (f64_expo x - 1))"

definition units :: "f64 \<Rightarrow> int" where
  "units x = (if f64_sign x then - int (mag_units x) else int (mag_units x))"

definition nan_bits :: f64 where "nan_bits = 0x7FF8000000000000"

definition inf_nat :: nat where "inf_nat = 2047 * 2 ^ 52"

section \<open>Rounding\<close>

text \<open>The magnitude bits of the value \<open>n / d\<close> units, rounded to nearest even.\<close>

definition round_mag :: "nat \<Rightarrow> nat \<Rightarrow> nat" where
  "round_mag n d =
     (let k = bitlen (n div d) - 53;
          dk = d * 2 ^ k;
          q = n div dk;
          r = n mod dk;
          q' = (if dk < 2 * r \<or> (2 * r = dk \<and> odd q) then Suc q else q)
      in min inf_nat (k * 2 ^ 52 + q'))"

definition mk_f64 :: "bool \<Rightarrow> nat \<Rightarrow> f64" where
  "mk_f64 s m = word_of_nat (if s then 2 ^ 63 + m else m)"

definition round_units :: "bool \<Rightarrow> nat \<Rightarrow> nat \<Rightarrow> f64" where
  "round_units s n d = mk_f64 s (round_mag n d)"

definition f64_zero :: "bool \<Rightarrow> f64" where "f64_zero s = mk_f64 s 0"
definition f64_inf :: "bool \<Rightarrow> f64" where "f64_inf s = mk_f64 s inf_nat"

section \<open>Arithmetic\<close>

definition f64_neg :: "f64 \<Rightarrow> f64" where
  "f64_neg x = x XOR 0x8000000000000000"

definition f64_add :: "f64 \<Rightarrow> f64 \<Rightarrow> f64" where
  "f64_add x y =
     (if is_nan x \<or> is_nan y then nan_bits
      else if is_inf x then (if is_inf y \<and> f64_sign x \<noteq> f64_sign y then nan_bits else x)
      else if is_inf y then y
      else let u = units x + units y in
           if u = 0 then f64_zero (f64_sign x \<and> f64_sign y)
           else round_units (u < 0) (nat \<bar>u\<bar>) 1)"

definition f64_sub :: "f64 \<Rightarrow> f64 \<Rightarrow> f64" where
  "f64_sub x y = f64_add x (f64_neg y)"

definition f64_mul :: "f64 \<Rightarrow> f64 \<Rightarrow> f64" where
  "f64_mul x y =
     (let s = (f64_sign x \<noteq> f64_sign y) in
      if is_nan x \<or> is_nan y then nan_bits
      else if is_inf x \<or> is_inf y then
        (if mag_units x = 0 \<or> mag_units y = 0 then nan_bits else f64_inf s)
      else round_units s (mag_units x * mag_units y) (2 ^ 1074))"

definition f64_div :: "f64 \<Rightarrow> f64 \<Rightarrow> f64" where
  "f64_div x y =
     (let s = (f64_sign x \<noteq> f64_sign y) in
      if is_nan x \<or> is_nan y then nan_bits
      else if is_inf x then (if is_inf y then nan_bits else f64_inf s)
      else if is_inf y then f64_zero s
      else if mag_units y = 0 then (if mag_units x = 0 then nan_bits else f64_inf s)
      else round_units s (mag_units x * 2 ^ 1074) (mag_units y))"

text \<open>Rust's \<open>%\<close> on floats is C's \<open>fmod\<close>: exact, with the dividend's sign.\<close>

definition f64_rem :: "f64 \<Rightarrow> f64 \<Rightarrow> f64" where
  "f64_rem x y =
     (if is_nan x \<or> is_nan y \<or> is_inf x \<or> mag_units y = 0 then nan_bits
      else if is_inf y then x
      else round_units (f64_sign x) (mag_units x mod mag_units y) 1)"

section \<open>Comparison\<close>

definition f64_lt :: "f64 \<Rightarrow> f64 \<Rightarrow> bool" where
  "f64_lt x y \<longleftrightarrow> \<not> is_nan x \<and> \<not> is_nan y \<and> units x < units y"

definition f64_le :: "f64 \<Rightarrow> f64 \<Rightarrow> bool" where
  "f64_le x y \<longleftrightarrow> \<not> is_nan x \<and> \<not> is_nan y \<and> units x \<le> units y"

definition f64_eq :: "f64 \<Rightarrow> f64 \<Rightarrow> bool" where
  "f64_eq x y \<longleftrightarrow> \<not> is_nan x \<and> \<not> is_nan y \<and> units x = units y"

section \<open>Integers and floats\<close>

definition f64_of_int :: "int \<Rightarrow> f64" where
  "f64_of_int i = round_units (i < 0) (nat \<bar>i\<bar> * 2 ^ 1074) 1"

text \<open>\<open>i as f64\<close>.\<close>

definition f64_of_i64 :: "i64 \<Rightarrow> f64" where
  "f64_of_i64 w = f64_of_int (sint w)"

text \<open>The integral part towards zero of a value that is not a NaN.\<close>

definition trunc_int :: "f64 \<Rightarrow> int" where
  "trunc_int x = (let m = int (mag_units x div 2 ^ 1074) in if f64_sign x then - m else m)"

text \<open>\<open>f as i64\<close>: truncates, saturates, and maps NaN to 0.\<close>

definition i64_of_f64 :: "f64 \<Rightarrow> i64" where
  "i64_of_f64 x = (if is_nan x then 0
     else word_of_int (max i64_min (min i64_max (trunc_int x))))"

definition f64_trunc :: "f64 \<Rightarrow> f64" where
  "f64_trunc x = (if is_finite x
     then round_units (f64_sign x) (mag_units x div 2 ^ 1074 * 2 ^ 1074) 1 else x)"

definition f64_floor :: "f64 \<Rightarrow> f64" where
  "f64_floor x = (if is_finite x
     then (let q = mag_units x div 2 ^ 1074;
               up = f64_sign x \<and> mag_units x mod 2 ^ 1074 \<noteq> 0
           in round_units (f64_sign x) ((if up then Suc q else q) * 2 ^ 1074) 1)
     else x)"

section \<open>Facts\<close>

lemma unat_mk_f64:
  "m < 2 ^ 63 \<Longrightarrow> unat (mk_f64 s m) = (if s then 2 ^ 63 + m else m)"
  unfolding mk_f64_def by (simp add: unsigned_of_nat take_bit_nat_eq_self)

lemma mk_f64_fields:
  assumes "m \<le> inf_nat"
  shows "f64_sign (mk_f64 s m) = s"
    and "f64_expo (mk_f64 s m) = m div 2 ^ 52"
    and "f64_frac (mk_f64 s m) = m mod 2 ^ 52"
proof -
  have m: "m < 2 ^ 63" using assms by (simp add: inf_nat_def)
  note u = unat_mk_f64 [OF m]
  show "f64_sign (mk_f64 s m) = s"
    using m by (simp add: f64_sign_def u)
  have "(2 ^ 63 + m) div 2 ^ 52 = 2 ^ 11 + m div 2 ^ 52"
    by (simp add: div_add1_eq)
  moreover have "m div 2 ^ 52 < 2 ^ 11"
    using m by (simp add: div_less_iff_less_mult)
  ultimately show "f64_expo (mk_f64 s m) = m div 2 ^ 52"
    by (simp add: f64_expo_def u)
  show "f64_frac (mk_f64 s m) = m mod 2 ^ 52"
    using mod_mult_self1 [of m "2 ^ 11" "2 ^ 52"] by (simp add: f64_frac_def u add.commute)
qed

lemma round_mag_le: "round_mag n d \<le> inf_nat"
  by (simp add: round_mag_def Let_def)

lemma sign_round_units [simp]: "f64_sign (round_units s n d) = s"
  by (simp add: round_units_def mk_f64_fields round_mag_le)

text \<open>A magnitude of at most 53 significant bits within the finite range is exact.\<close>

lemma mag_units_round_exact:
  assumes n: "n = m * 2 ^ k" and m: "m < 2 ^ 53" and k: "bitlen n \<le> 2098"
  shows "mag_units (round_units s n 1) = n"
proof (cases "bitlen n \<le> 53")
  case True
  then have small: "n < 2 ^ 53" by (simp add: bitlen_le_iff)
  then have r: "round_mag n (Suc 0) = n"
    using True by (simp add: round_mag_def Let_def inf_nat_def)
  have le: "n \<le> inf_nat" using small by (simp add: inf_nat_def)
  show ?thesis
  proof (cases "n < 2 ^ 52")
    case True
    then show ?thesis
      by (simp add: mag_units_def round_units_def r mk_f64_fields [OF le])
  next
    case False
    then have "n div 2 ^ 52 = 1" using small
      by (simp add: div_nat_eqI)
    moreover from this have "n mod 2 ^ 52 + 2 ^ 52 = n"
      using div_mult_mod_eq [of n "2 ^ 52"] by simp
    ultimately show ?thesis
      by (simp add: mag_units_def round_units_def r mk_f64_fields [OF le])
  qed
next
  case False
  define j where "j = bitlen n - 53"
  define q where "q = n div 2 ^ j"
  have n0: "n \<noteq> 0" using False by (cases "n = 0") simp_all
  have lo: "2 ^ (bitlen n - 1) \<le> n" and hi: "n < 2 ^ bitlen n"
    using n0 bitlen_lower bitlen_upper by auto
  have b: "bitlen n = 53 + j" using False by (simp add: j_def)
  have "j \<le> k"
  proof -
    have "m \<noteq> 0" using n n0 by auto
    then have "bitlen n = bitlen m + k" by (simp add: n bitlen_mult_pow2)
    moreover have "bitlen m \<le> 53" using m by (simp add: bitlen_le_iff)
    ultimately show ?thesis using b by linarith
  qed
  then have "(2::nat) ^ j dvd n" unfolding n by (simp add: le_imp_power_dvd)
  then have nq: "n = q * 2 ^ j" and r0: "n mod 2 ^ j = 0" by (simp_all add: q_def)
  have qlo: "2 ^ 52 \<le> q"
  proof -
    have "2 ^ (52 + j) \<le> n" using lo b by simp
    then have "2 ^ 52 * 2 ^ j \<le> q * 2 ^ j" unfolding nq power_add .
    then show ?thesis by simp
  qed
  have qhi: "q < 2 ^ 53"
  proof -
    have "n < 2 ^ (53 + j)" using hi b by simp
    then have "q * 2 ^ j < 2 ^ 53 * 2 ^ j" unfolding nq power_add .
    then show ?thesis by simp
  qed
  have j: "j \<le> 2045" using k b by simp
  define M where "M = j * 2 ^ 52 + q"
  have "M \<le> 2045 * 2 ^ 52 + q" using j by (simp add: M_def)
  also have "\<dots> < inf_nat" using qhi by (simp add: inf_nat_def)
  finally have lt: "M \<le> inf_nat" by simp
  have r: "round_mag n (Suc 0) = M"
    using lt r0 by (simp add: round_mag_def Let_def M_def flip: j_def q_def)
  have q52: "q div 2 ^ 52 = 1" using qlo qhi by (simp add: div_nat_eqI)
  have e: "M div 2 ^ 52 = j + 1" using q52 by (simp add: M_def)
  have f: "M mod 2 ^ 52 + 2 ^ 52 = q"
    using q52 div_mult_mod_eq [of q "2 ^ 52"] by (simp add: M_def)
  have "mag_units (mk_f64 s M) = q * 2 ^ j"
    unfolding mag_units_def mk_f64_fields [OF lt] e f by simp
  then show ?thesis unfolding round_units_def One_nat_def r by (simp add: nq [symmetric])
qed

lemma mag_units_of_int:
  assumes "\<bar>i\<bar> \<le> 2 ^ 53"
  shows "mag_units (f64_of_int i) = nat \<bar>i\<bar> * 2 ^ 1074"
proof (cases "\<bar>i\<bar> < 2 ^ 53")
  case True
  then have "nat \<bar>i\<bar> < 2 ^ 53" by (simp add: nat_less_iff)
  moreover from this have "nat \<bar>i\<bar> * 2 ^ 1074 < 2 ^ 53 * 2 ^ 1074" by simp
  then have "nat \<bar>i\<bar> * 2 ^ 1074 < 2 ^ 1127" by (simp flip: power_add)
  then have "bitlen (nat \<bar>i\<bar> * 2 ^ 1074) \<le> 1127" by (simp only: bitlen_le_iff)
  ultimately show ?thesis
    unfolding f64_of_int_def by (intro mag_units_round_exact [OF refl]) linarith+
next
  case False
  with assms have i: "nat \<bar>i\<bar> = 2 ^ 53" by simp
  have "(2::nat) ^ 53 * 2 ^ 1074 = 1 * 2 ^ 1127" by (simp flip: power_add)
  moreover have "bitlen (1 * 2 ^ 1127) \<le> 2098" by (subst bitlen_mult_pow2) (simp_all add: bitlen_pos)
  ultimately show ?thesis
    unfolding f64_of_int_def i by (intro mag_units_round_exact [where m = 1 and k = 1127]) simp_all
qed

lemma units_of_int:
  assumes "\<bar>i\<bar> \<le> 2 ^ 53"
  shows "units (f64_of_int i) = i * 2 ^ 1074"
proof -
  have "f64_sign (f64_of_int i) = (i < 0)" by (simp add: f64_of_int_def)
  then show ?thesis by (simp add: units_def mag_units_of_int [OF assms])
qed

lemma not_nan_round_units [simp]: "\<not> is_nan (round_units s n d)"
proof
  assume "is_nan (round_units s n d)"
  then have e: "round_mag n d div 2 ^ 52 = 2047" and f: "round_mag n d mod 2 ^ 52 \<noteq> 0"
    by (simp_all add: is_nan_def round_units_def mk_f64_fields round_mag_le)
  have "round_mag n d = 2047 * 2 ^ 52 + round_mag n d mod 2 ^ 52"
    using e div_mult_mod_eq [of "round_mag n d" "2 ^ 52"] by simp
  then show False using f round_mag_le [of n d] by (simp add: inf_nat_def)
qed

lemma not_nan_of_int [simp]: "\<not> is_nan (f64_of_int i)"
  by (simp add: f64_of_int_def)

lemma trunc_int_of_int:
  assumes "\<bar>i\<bar> \<le> 2 ^ 53" shows "trunc_int (f64_of_int i) = i"
proof -
  have "mag_units (f64_of_int i) div 2 ^ 1074 = nat \<bar>i\<bar>"
    by (simp only: mag_units_of_int [OF assms] nonzero_mult_div_cancel_right power_not_zero) simp
  moreover have "f64_sign (f64_of_int i) = (i < 0)" by (simp add: f64_of_int_def)
  ultimately show ?thesis by (simp add: trunc_int_def Let_def)
qed

text \<open>Integers of at most 53 bits survive the conversion to a float and back.\<close>

lemma i64_of_f64_of_int:
  assumes "\<bar>i\<bar> \<le> 2 ^ 53" shows "i64_of_f64 (f64_of_int i) = word_of_int i"
proof -
  have "max i64_min (min i64_max i) = i" using assms by simp
  then show ?thesis by (simp add: i64_of_f64_def trunc_int_of_int [OF assms])
qed

lemma sint_i64_of_f64_of_int:
  assumes "\<bar>i\<bar> \<le> 2 ^ 53" shows "sint (i64_of_f64 (f64_of_int i)) = i"
  unfolding i64_of_f64_of_int [OF assms] using assms by (intro sint_of_int_i64) simp_all

lemma f64_eq_refl_of_int [simp]: "f64_eq (f64_of_int i) (f64_of_int i)"
  by (simp add: f64_eq_def)

text \<open>Comparison of floats is a strict order away from NaN.\<close>

lemma f64_lt_irrefl: "\<not> f64_lt x x"
  by (simp add: f64_lt_def)

lemma f64_lt_trans: "f64_lt x y \<Longrightarrow> f64_lt y z \<Longrightarrow> f64_lt x z"
  by (simp add: f64_lt_def)

lemma f64_le_iff_lt_or_eq: "f64_le x y \<longleftrightarrow> f64_lt x y \<or> f64_eq x y"
  by (auto simp: f64_le_def f64_lt_def f64_eq_def)

end
