(* ===== verification/Metrics.thy ===== *)
theory Metrics
  imports F64
begin

text \<open>
  \<open>dmm/metrics.rs\<close>: the counters that pace the collector and the allocation debt computed from
  them. Byte counts are naturals; where the source saturates so does the model, and a
  subtraction below zero, which debug builds trap, is \<open>None\<close>.
\<close>

section \<open>Pacing\<close>

record pacing =
  sleep_factor :: f64
  min_sleep :: nat
  mark_factor :: f64
  trace_factor :: f64
  keep_factor :: f64
  drop_factor :: f64
  free_factor :: f64

text \<open>The decimal literals as the doubles nearest to them.\<close>

definition pacing_default :: pacing where
  "pacing_default = \<lparr>sleep_factor = 0x3FE0000000000000, min_sleep = 4096,
     mark_factor = 0x3FB999999999999A, trace_factor = 0x3FD999999999999A,
     keep_factor = 0x3FA999999999999A, drop_factor = 0x3FC999999999999A,
     free_factor = 0x3FD3333333333333\<rparr>"

definition pacing_stop_the_world :: pacing where
  "pacing_stop_the_world = \<lparr>sleep_factor = 0x3FF0000000000000, min_sleep = 4096,
     mark_factor = f64_zero False, trace_factor = f64_zero False, keep_factor = f64_zero False,
     drop_factor = f64_zero False, free_factor = f64_zero False\<rparr>"

section \<open>Counters\<close>

record metrics =
  mt_pacing :: pacing
  total_gcs :: nat
  total_gc_bytes :: nat
  total_external_bytes :: nat
  wakeup_amount :: f64
  artificial_debt :: f64
  external_bytes_start :: nat
  allocated_gc_bytes :: nat
  dropped_gc_bytes :: nat
  freed_gc_bytes :: nat
  marked_gcs :: nat
  marked_gc_bytes :: nat
  traced_gcs :: nat
  traced_gc_bytes :: nat
  remembered_gcs :: nat
  remembered_gc_bytes :: nat

definition metrics_new :: metrics where
  "metrics_new = \<lparr>mt_pacing = pacing_default, total_gcs = 0, total_gc_bytes = 0,
     total_external_bytes = 0, wakeup_amount = f64_zero False, artificial_debt = f64_zero False,
     external_bytes_start = 0, allocated_gc_bytes = 0, dropped_gc_bytes = 0, freed_gc_bytes = 0,
     marked_gcs = 0, marked_gc_bytes = 0, traced_gcs = 0, traced_gc_bytes = 0,
     remembered_gcs = 0, remembered_gc_bytes = 0\<rparr>"

definition sat_add :: "nat \<Rightarrow> nat \<Rightarrow> nat" where
  "sat_add a b = min (2 ^ 64 - 1) (a + b)"

definition checked_minus :: "nat \<Rightarrow> nat \<Rightarrow> nat option" where
  "checked_minus a b = (if b \<le> a then Some (a - b) else None)"

definition f64_of_usize :: "nat \<Rightarrow> f64" where
  "f64_of_usize n = f64_of_int (int n)"

definition f64_max :: "f64 \<Rightarrow> f64 \<Rightarrow> f64" where
  "f64_max a b = (if is_nan a then b else if is_nan b then a else if f64_lt a b then b else a)"

definition set_pacing :: "pacing \<Rightarrow> metrics \<Rightarrow> metrics" where
  "set_pacing p m = m\<lparr>mt_pacing := p\<rparr>"

definition total_allocation :: "metrics \<Rightarrow> nat" where
  "total_allocation m = sat_add (total_gc_bytes m) (total_external_bytes m)"

definition mark_external_allocation :: "nat \<Rightarrow> metrics \<Rightarrow> metrics" where
  "mark_external_allocation bytes m = m\<lparr>total_external_bytes := sat_add (total_external_bytes m) bytes\<rparr>"

definition mark_external_deallocation :: "nat \<Rightarrow> metrics \<Rightarrow> metrics" where
  "mark_external_deallocation bytes m = m\<lparr>total_external_bytes := total_external_bytes m - bytes\<rparr>"

definition add_debt :: "nat \<Rightarrow> metrics \<Rightarrow> metrics" where
  "add_debt bytes m = m\<lparr>artificial_debt := f64_add (artificial_debt m) (f64_of_usize bytes)\<rparr>"

definition allocation_debt :: "metrics \<Rightarrow> f64" where
  "allocation_debt m =
     (if total_gcs m = 0 then f64_zero False
      else
        let allocated_external_bytes = total_external_bytes m - external_bytes_start m;
            allocated_bytes = f64_add (f64_of_usize (allocated_gc_bytes m)) (f64_of_usize allocated_external_bytes);
            cycle_debits = f64_add (f64_sub allocated_bytes (wakeup_amount m)) (artificial_debt m)
        in if f64_le cycle_debits (f64_zero False) then f64_zero False
           else
             let p = mt_pacing m;
                 cycle_credits =
                   f64_add (f64_add (f64_add (f64_add
                     (f64_mul (f64_of_usize (marked_gc_bytes m)) (mark_factor p))
                     (f64_mul (f64_of_usize (traced_gc_bytes m)) (trace_factor p)))
                     (f64_mul (f64_of_usize (remembered_gc_bytes m)) (keep_factor p)))
                     (f64_mul (f64_of_usize (dropped_gc_bytes m)) (drop_factor p)))
                     (f64_mul (f64_of_usize (freed_gc_bytes m)) (free_factor p))
             in f64_max (f64_sub cycle_debits cycle_credits) (f64_zero False))"

definition in_debt :: "metrics \<Rightarrow> bool" where
  "in_debt m \<longleftrightarrow> f64_lt (f64_zero False) (allocation_debt m)"

definition metrics_finish_cycle :: "bool \<Rightarrow> metrics \<Rightarrow> metrics" where
  "metrics_finish_cycle reset_debt m =
     (let p = mt_pacing m;
          remembered_size = remembered_gc_bytes m;
          wakeup = f64_max (f64_mul (f64_of_usize remembered_size) (sleep_factor p))
                     (f64_of_usize (min_sleep p));
          debt = (if reset_debt then f64_zero False else allocation_debt m)
      in m\<lparr>wakeup_amount := wakeup, artificial_debt := debt,
           external_bytes_start := total_external_bytes m,
           allocated_gc_bytes := 0, dropped_gc_bytes := 0, freed_gc_bytes := 0,
           marked_gcs := 0, marked_gc_bytes := 0, traced_gcs := 0, traced_gc_bytes := 0,
           remembered_gcs := 0, remembered_gc_bytes := 0\<rparr>)"

definition mark_gc_allocated :: "nat \<Rightarrow> metrics \<Rightarrow> metrics" where
  "mark_gc_allocated bytes m = m\<lparr>total_gcs := total_gcs m + 1,
     total_gc_bytes := total_gc_bytes m + bytes,
     allocated_gc_bytes := sat_add (allocated_gc_bytes m) bytes\<rparr>"

definition mark_gc_dropped :: "nat \<Rightarrow> metrics \<Rightarrow> metrics" where
  "mark_gc_dropped bytes m = m\<lparr>dropped_gc_bytes := sat_add (dropped_gc_bytes m) bytes\<rparr>"

definition mark_gc_freed :: "nat \<Rightarrow> metrics \<Rightarrow> metrics option" where
  "mark_gc_freed bytes m =
     (case checked_minus (total_gcs m) 1 of
        None \<Rightarrow> None
      | Some c \<Rightarrow>
          (case checked_minus (total_gc_bytes m) bytes of
             None \<Rightarrow> None
           | Some b \<Rightarrow> Some (m\<lparr>total_gcs := c, total_gc_bytes := b,
               freed_gc_bytes := sat_add (freed_gc_bytes m) bytes\<rparr>)))"

definition mark_gc_marked :: "nat \<Rightarrow> metrics \<Rightarrow> metrics" where
  "mark_gc_marked bytes m = m\<lparr>marked_gcs := marked_gcs m + 1, marked_gc_bytes := marked_gc_bytes m + bytes\<rparr>"

definition mark_gc_traced :: "nat \<Rightarrow> metrics \<Rightarrow> metrics" where
  "mark_gc_traced bytes m = m\<lparr>traced_gcs := traced_gcs m + 1, traced_gc_bytes := traced_gc_bytes m + bytes\<rparr>"

definition mark_gc_untraced :: "nat \<Rightarrow> metrics \<Rightarrow> metrics option" where
  "mark_gc_untraced bytes m =
     (case checked_minus (traced_gcs m) 1 of
        None \<Rightarrow> None
      | Some c \<Rightarrow>
          (case checked_minus (traced_gc_bytes m) bytes of
             None \<Rightarrow> None
           | Some b \<Rightarrow> Some (m\<lparr>traced_gcs := c, traced_gc_bytes := b\<rparr>)))"

definition mark_gc_remembered :: "nat \<Rightarrow> metrics \<Rightarrow> metrics" where
  "mark_gc_remembered bytes m = m\<lparr>remembered_gcs := remembered_gcs m + 1,
     remembered_gc_bytes := remembered_gc_bytes m + bytes\<rparr>"

section \<open>What the operations leave of the totals\<close>

text \<open>The number and the bytes of the allocated boxes, which the collector's invariant tracks.\<close>

definition totals :: "metrics \<Rightarrow> nat \<times> nat" where
  "totals m = (total_gcs m, total_gc_bytes m)"

lemma totals_simps [simp]:
  "totals (mark_gc_allocated n m) = (Suc (total_gcs m), total_gc_bytes m + n)"
  "totals (mark_gc_dropped n m) = totals m" "totals (mark_gc_marked n m) = totals m"
  "totals (mark_gc_traced n m) = totals m" "totals (mark_gc_remembered n m) = totals m"
  "totals (metrics_finish_cycle b m) = totals m"
  by (simp_all add: totals_def mark_gc_allocated_def mark_gc_dropped_def mark_gc_marked_def
      mark_gc_traced_def mark_gc_remembered_def metrics_finish_cycle_def Let_def)

lemma mark_gc_untraced_totals: "mark_gc_untraced n m = Some m' \<Longrightarrow> totals m' = totals m"
  by (auto simp: mark_gc_untraced_def totals_def split: option.splits)

lemma mark_gc_freed_Some:
  assumes "totals m = (Suc c, b + n)"
  shows "\<exists>m'. mark_gc_freed n m = Some m' \<and> totals m' = (c, b)"
  using assms by (auto simp: mark_gc_freed_def totals_def checked_minus_def)

end
