(* ===== verification/Gc.thy ===== *)
theory Gc
  imports Metrics "HOL-Library.Monad_Syntax"
begin

text \<open>
  \<open>dmm/context.rs\<close> and \<open>dmm/types.rs\<close>: the incremental tri-colour collector. A box is a record
  of its header flags, its link in the list of all allocations and the pointers its value's
  \<open>Collect::trace\<close> visits, in order; the memory is a map from addresses to boxes, so reading a
  deallocated box is \<open>None\<close>, as is a violated \<open>debug_assert\<close>. The root object is the list of its
  pointers. The allocator chooses the address of a new box; it is an argument.
\<close>

section \<open>Boxes\<close>

datatype gc_color = White | WhiteWeak | Gray | Black

text \<open>The two kinds of calls of \<open>Trace\<close> a value makes.\<close>

datatype gc_ptr = Strong addr | Weakly addr

record gc_box =
  gb_color :: gc_color
  gb_next :: "addr option"
  gb_needs_trace :: bool
  gb_live :: bool
  gb_size :: nat
  gb_refs :: "gc_ptr list"

text \<open>The two low bits of the tagged vtable pointer that \<open>color\<close> and \<open>set_color\<close> use.\<close>

fun color_bits :: "gc_color \<Rightarrow> nat" where
  "color_bits White = 0"
| "color_bits WhiteWeak = 1"
| "color_bits Gray = 2"
| "color_bits Black = 3"

definition color_of_bits :: "nat \<Rightarrow> gc_color" where
  "color_of_bits n = (if n mod 4 = 0 then White else if n mod 4 = 1 then WhiteWeak
     else if n mod 4 = 2 then Gray else Black)"

lemma color_bits_roundtrip: "color_of_bits (color_bits c) = c" "color_bits c < 4"
  by (cases c; simp add: color_of_bits_def)+

section \<open>The context\<close>

datatype gc_phase = PMark | PSweep | PSleep | PDrop

datatype run_until = PayDebt | StopCondition

datatype gc_stop = FullyMarked | AtSweep | FinishCycle | Full

fun stop_rank :: "gc_stop \<Rightarrow> nat" where
  "stop_rank FullyMarked = 0"
| "stop_rank AtSweep = 1"
| "stop_rank FinishCycle = 2"
| "stop_rank Full = 3"

text \<open>The queues are stacks; the head of the list is the last element pushed.\<close>

record gc_context =
  cx_metrics :: metrics
  cx_phase :: gc_phase
  cx_all :: "addr option"
  cx_sweep :: "addr option"
  cx_sweep_prev :: "addr option"
  cx_root_needs_trace :: bool
  cx_gray :: "addr list"
  cx_gray_again :: "addr list"
  cx_boxes :: "addr \<rightharpoonup> gc_box"

definition context_new :: gc_context where
  "context_new = \<lparr>cx_metrics = metrics_new, cx_phase = PSleep, cx_all = None, cx_sweep = None,
     cx_sweep_prev = None, cx_root_needs_trace = True, cx_gray = [], cx_gray_again = [],
     cx_boxes = Map.empty\<rparr>"

definition header :: "gc_context \<Rightarrow> addr \<Rightarrow> gc_box option" where
  "header cx a = cx_boxes cx a"

definition upd_box :: "addr \<Rightarrow> (gc_box \<Rightarrow> gc_box) \<Rightarrow> gc_context \<Rightarrow> gc_context" where
  "upd_box a f cx = cx\<lparr>cx_boxes := (cx_boxes cx)(a := map_option f (cx_boxes cx a))\<rparr>"

definition set_color :: "addr \<Rightarrow> gc_color \<Rightarrow> gc_context \<Rightarrow> gc_context" where
  "set_color a c = upd_box a (\<lambda>b. b\<lparr>gb_color := c\<rparr>)"

definition upd_metrics :: "(metrics \<Rightarrow> metrics) \<Rightarrow> gc_context \<Rightarrow> gc_context" where
  "upd_metrics f cx = cx\<lparr>cx_metrics := f (cx_metrics cx)\<rparr>"

definition push_gray :: "addr \<Rightarrow> gc_context \<Rightarrow> gc_context" where
  "push_gray a cx = cx\<lparr>cx_gray := a # cx_gray cx\<rparr>"

definition root_barrier :: "gc_context \<Rightarrow> gc_context" where
  "root_barrier cx = (if cx_phase cx = PMark then cx\<lparr>cx_root_needs_trace := True\<rparr> else cx)"

definition gray_remaining :: "gc_context \<Rightarrow> bool" where
  "gray_remaining cx \<longleftrightarrow> cx_gray cx \<noteq> [] \<or> cx_gray_again cx \<noteq> [] \<or> cx_root_needs_trace cx"

section \<open>Allocation\<close>

definition allocate :: "addr \<Rightarrow> nat \<Rightarrow> bool \<Rightarrow> gc_ptr list \<Rightarrow> gc_context \<Rightarrow> gc_context option" where
  "allocate a sz needs_trace refs cx =
     (if cx_boxes cx a \<noteq> None then None
      else
        (let b = \<lparr>gb_color = White, gb_next = cx_all cx, gb_needs_trace = needs_trace,
                  gb_live = True, gb_size = sz, gb_refs = refs\<rparr>;
             cx1 = cx\<lparr>cx_boxes := (cx_boxes cx)(a \<mapsto> b), cx_all := Some a\<rparr>;
             cx2 = (if cx_phase cx = PSweep \<and> cx_sweep_prev cx = None
                    then cx1\<lparr>cx_sweep_prev := Some a\<rparr> else cx1)
         in Some (upd_metrics (mark_gc_allocated sz) cx2)))"

section \<open>Marking\<close>

definition trace :: "addr \<Rightarrow> gc_context \<Rightarrow> gc_context option" where
  "trace a cx = do {
     b \<leftarrow> header cx a;
     if gb_color b = Black \<or> gb_color b = Gray then Some cx
     else do {
       cx1 \<leftarrow> (if gb_needs_trace b
          then (if gb_live b then Some (push_gray a (set_color a Gray cx)) else None)
          else Some (set_color a Black cx));
       Some (if gb_color b = White then upd_metrics (mark_gc_marked (gb_size b)) cx1 else cx1)
     }
   }"

definition trace_weak :: "addr \<Rightarrow> gc_context \<Rightarrow> gc_context option" where
  "trace_weak a cx = do {
     b \<leftarrow> header cx a;
     Some (if gb_color b = White
       then upd_metrics (mark_gc_marked (gb_size b)) (set_color a WhiteWeak cx) else cx)
   }"

definition trace_ptr :: "gc_ptr \<Rightarrow> gc_context \<Rightarrow> gc_context option" where
  "trace_ptr p = (case p of Strong a \<Rightarrow> trace a | Weakly a \<Rightarrow> trace_weak a)"

fun trace_value :: "gc_ptr list \<Rightarrow> gc_context \<Rightarrow> gc_context option" where
  "trace_value [] cx = Some cx"
| "trace_value (p # ps) cx = do { cx' \<leftarrow> trace_ptr p cx; trace_value ps cx' }"

text \<open>A weak pointer upgrades; \<open>None\<close> is a read of a deallocated box.\<close>

definition upgrade :: "addr \<Rightarrow> gc_context \<Rightarrow> bool option" where
  "upgrade a cx = do {
     b \<leftarrow> header cx a;
     if \<not> gb_live b then Some False
     else Some (\<not> (cx_phase cx = PSweep \<and> gb_color b = WhiteWeak))
   }"

definition resurrect :: "addr \<Rightarrow> gc_context \<Rightarrow> gc_context option" where
  "resurrect a cx = do {
     b \<leftarrow> header cx a;
     if cx_phase cx \<noteq> PMark \<or> \<not> gb_live b then None
     else if gb_color b = White \<or> gb_color b = WhiteWeak then
       (let cx1 = push_gray a (set_color a Gray cx)
        in Some (if gb_color b = White then upd_metrics (mark_gc_marked (gb_size b)) cx1 else cx1))
     else Some cx
   }"

text \<open>\<open>GcWeak::resurrect\<close>: only a box that is still live.\<close>

definition weak_resurrect :: "addr \<Rightarrow> gc_context \<Rightarrow> (gc_context \<times> bool) option" where
  "weak_resurrect a cx = do {
     b \<leftarrow> header cx a;
     if gb_live b then do { cx' \<leftarrow> resurrect a cx; Some (cx', True) } else Some (cx, False)
   }"

definition is_dead :: "addr \<Rightarrow> gc_context \<Rightarrow> bool option" where
  "is_dead a cx = do { b \<leftarrow> header cx a; Some (gb_color b = White \<or> gb_color b = WhiteWeak) }"

definition is_dropped :: "addr \<Rightarrow> gc_context \<Rightarrow> bool option" where
  "is_dropped a cx = do { b \<leftarrow> header cx a; Some (\<not> gb_live b) }"

section \<open>Write barriers\<close>

definition make_gray_again :: "addr \<Rightarrow> gc_context \<Rightarrow> gc_context option" where
  "make_gray_again a cx = do {
     b \<leftarrow> header cx a;
     if gb_color b \<noteq> Black then None
     else do {
       m \<leftarrow> mark_gc_untraced (gb_size b) (cx_metrics cx);
       Some ((set_color a Gray cx)\<lparr>cx_gray_again := a # cx_gray_again cx, cx_metrics := m\<rparr>)
     }
   }"

definition is_white :: "gc_color \<Rightarrow> bool" where
  "is_white c \<longleftrightarrow> c = White \<or> c = WhiteWeak"

definition backward_barrier :: "addr \<Rightarrow> addr option \<Rightarrow> gc_context \<Rightarrow> gc_context option" where
  "backward_barrier parent child cx =
     (if cx_phase cx \<noteq> PMark then Some cx
      else do {
        p \<leftarrow> header cx parent;
        if gb_color p \<noteq> Black then Some cx
        else do {
          w \<leftarrow> (case child of
             None \<Rightarrow> Some True
           | Some c \<Rightarrow> do { b \<leftarrow> header cx c; Some (is_white (gb_color b)) });
          if w then make_gray_again parent cx else Some cx
        }
      })"

definition backward_barrier_weak :: "addr \<Rightarrow> addr \<Rightarrow> gc_context \<Rightarrow> gc_context option" where
  "backward_barrier_weak parent child cx =
     (if cx_phase cx \<noteq> PMark then Some cx
      else do {
        p \<leftarrow> header cx parent;
        if gb_color p \<noteq> Black then Some cx
        else do {
          b \<leftarrow> header cx child;
          if gb_color b = White then make_gray_again parent cx else Some cx
        }
      })"

definition parent_black :: "addr option \<Rightarrow> gc_context \<Rightarrow> bool option" where
  "parent_black parent cx = (case parent of
      None \<Rightarrow> Some True
    | Some p \<Rightarrow> do { b \<leftarrow> header cx p; Some (gb_color b = Black) })"

definition forward_barrier :: "addr option \<Rightarrow> addr \<Rightarrow> gc_context \<Rightarrow> gc_context option" where
  "forward_barrier parent child cx =
     (if cx_phase cx \<noteq> PMark then Some cx
      else do {
        black \<leftarrow> parent_black parent cx;
        if black then trace child cx else Some cx
      })"

definition forward_barrier_weak :: "addr option \<Rightarrow> addr \<Rightarrow> gc_context \<Rightarrow> gc_context option" where
  "forward_barrier_weak parent child cx =
     (if cx_phase cx \<noteq> PMark then Some cx
      else do {
        black \<leftarrow> parent_black parent cx;
        if black then trace_weak child cx else Some cx
      })"

section \<open>The collector's steps\<close>

text \<open>\<open>pop_gray\<close>: the normal queue first, then the gray-again queue.\<close>

definition pop_gray :: "gc_context \<Rightarrow> (addr \<times> gc_context) option" where
  "pop_gray cx =
     (case cx_gray cx of
        a # as \<Rightarrow> Some (a, cx\<lparr>cx_gray := as\<rparr>)
      | [] \<Rightarrow> (case cx_gray_again cx of
          a # as \<Rightarrow> Some (a, cx\<lparr>cx_gray_again := as\<rparr>)
        | [] \<Rightarrow> None))"

text \<open>The flag is \<open>ControlFlow::Continue\<close>.\<close>

definition mark_one :: "gc_ptr list \<Rightarrow> gc_context \<Rightarrow> (gc_context \<times> bool) option" where
  "mark_one root cx =
     (case pop_gray cx of
        Some (a, cx1) \<Rightarrow> do {
          b \<leftarrow> header cx1 a;
          let cx2 = set_color a Black (upd_metrics (mark_gc_traced (gb_size b)) cx1);
          if \<not> gb_live b then None
          else do { cx3 \<leftarrow> trace_value (gb_refs b) cx2; Some (cx3, True) }
        }
      | None \<Rightarrow>
          if cx_root_needs_trace cx then do {
            cx1 \<leftarrow> trace_value root cx;
            Some (cx1\<lparr>cx_root_needs_trace := False\<rparr>, True)
          }
          else Some (cx, False))"

definition set_next :: "addr \<Rightarrow> addr option \<Rightarrow> gc_context \<Rightarrow> gc_context" where
  "set_next a n = upd_box a (\<lambda>b. b\<lparr>gb_next := n\<rparr>)"

definition dealloc :: "addr \<Rightarrow> gc_context \<Rightarrow> gc_context" where
  "dealloc a cx = cx\<lparr>cx_boxes := (cx_boxes cx)(a := None)\<rparr>"

text \<open>Unlink a white box, drop its value if it is still live, and free it.\<close>

definition sweep_free :: "addr \<Rightarrow> gc_box \<Rightarrow> gc_context \<Rightarrow> gc_context option" where
  "sweep_free a b cx = do {
     cx1 \<leftarrow> (case cx_sweep_prev cx of
        Some p \<Rightarrow> do { _ \<leftarrow> header cx p; Some (set_next p (gb_next b) cx) }
      | None \<Rightarrow> if cx_all cx = Some a then Some (cx\<lparr>cx_all := gb_next b\<rparr>) else None);
     let cx2 = (if gb_live b then upd_metrics (mark_gc_dropped (gb_size b)) cx1 else cx1);
     m \<leftarrow> mark_gc_freed (gb_size b) (cx_metrics cx2);
     Some ((dealloc a cx2)\<lparr>cx_metrics := m\<rparr>)
   }"

text \<open>Keep a box: it is white again for the next cycle.\<close>

definition sweep_keep :: "addr \<Rightarrow> gc_box \<Rightarrow> gc_context \<Rightarrow> gc_context" where
  "sweep_keep a b cx = upd_metrics (mark_gc_remembered (gb_size b))
     ((set_color a White cx)\<lparr>cx_sweep_prev := Some a\<rparr>)"

definition sweep_drop :: "addr \<Rightarrow> gc_box \<Rightarrow> gc_context \<Rightarrow> gc_context" where
  "sweep_drop a b cx =
     (if gb_live b
      then upd_metrics (mark_gc_dropped (gb_size b))
             (upd_box a (\<lambda>b. b\<lparr>gb_live := False, gb_refs := []\<rparr>) cx)
      else cx)"

definition sweep_one :: "gc_context \<Rightarrow> (gc_context \<times> bool) option" where
  "sweep_one cx =
     (case cx_sweep cx of
        None \<Rightarrow> Some (cx\<lparr>cx_sweep_prev := None\<rparr>, False)
      | Some a \<Rightarrow> do {
          b \<leftarrow> header cx a;
          let cx1 = cx\<lparr>cx_sweep := gb_next b\<rparr>;
          case gb_color b of
            White \<Rightarrow> do { cx2 \<leftarrow> sweep_free a b cx1; Some (cx2, True) }
          | WhiteWeak \<Rightarrow> Some (sweep_keep a b (sweep_drop a b cx1), True)
          | Black \<Rightarrow> Some (sweep_keep a b cx1, True)
          | Gray \<Rightarrow> None
        })"

section \<open>The collection loop\<close>

text \<open>One turn of the loop of \<open>do_collection\<close>: go on, \<open>break\<close> or \<open>return\<close>.\<close>

datatype loop_exit = Continue | Exit

definition collection_turn :: "gc_ptr list \<Rightarrow> gc_stop \<Rightarrow> bool \<Rightarrow> gc_context \<Rightarrow>
    (gc_context \<times> bool \<times> loop_exit) option" where
  "collection_turn root stop has_slept cx =
     (case cx_phase cx of
        PSleep \<Rightarrow> Some (cx\<lparr>cx_phase := PMark\<rparr>, True, Continue)
      | PMark \<Rightarrow> do {
          (cx1, more) \<leftarrow> mark_one root cx;
          if more then Some (cx1, has_slept, Continue)
          else if stop_rank stop \<le> stop_rank FullyMarked then Some (cx1, has_slept, Exit)
          else Some (cx1\<lparr>cx_phase := PSweep, cx_sweep := cx_all cx1\<rparr>, has_slept, Continue)
        }
      | PSweep \<Rightarrow>
          if stop_rank stop \<le> stop_rank AtSweep then Some (cx, has_slept, Exit)
          else do {
            (cx1, more) \<leftarrow> sweep_one cx;
            if more then Some (cx1, has_slept, Continue)
            else do {
              let cx2 = (upd_metrics (metrics_finish_cycle has_slept) cx1)
                \<lparr>cx_root_needs_trace := True, cx_phase := PSleep\<rparr>;
              if stop = FinishCycle then Some (cx2, has_slept, Exit)
              else if has_slept then (if stop = Full then Some (cx2, has_slept, Exit) else None)
              else Some (cx2, has_slept, Continue)
            }
          }
      | PDrop \<Rightarrow> None)"

text \<open>\<open>Some None\<close>: the fuel, one unit per turn, ran out.\<close>

fun collection_loop :: "nat \<Rightarrow> gc_ptr list \<Rightarrow> run_until \<Rightarrow> gc_stop \<Rightarrow> bool \<Rightarrow> gc_context \<Rightarrow>
    gc_context option option" where
  "collection_loop 0 root until stop has_slept cx = Some None"
| "collection_loop (Suc n) root until stop has_slept cx = do {
     (cx1, has_slept1, e) \<leftarrow> collection_turn root stop has_slept cx;
     if e = Exit \<or> (until = PayDebt \<and> \<not> in_debt (cx_metrics cx1)) then Some (Some cx1)
     else collection_loop n root until stop has_slept1 cx1
   }"

definition do_collection :: "nat \<Rightarrow> gc_ptr list \<Rightarrow> run_until \<Rightarrow> gc_stop \<Rightarrow> gc_context \<Rightarrow>
    gc_context option option" where
  "do_collection fuel root until stop cx =
     (if until = PayDebt \<and> \<not> in_debt (cx_metrics cx) then Some (Some cx)
      else collection_loop fuel root until stop False cx)"

section \<open>Dropping the arena\<close>

fun drop_all :: "nat \<Rightarrow> addr option \<Rightarrow> gc_context \<Rightarrow> gc_context option option" where
  "drop_all fuel None cx = Some (Some cx)"
| "drop_all 0 (Some a) cx = Some None"
| "drop_all (Suc n) (Some a) cx = do {
     b \<leftarrow> header cx a;
     let cx1 = (if gb_live b then upd_metrics (mark_gc_dropped (gb_size b)) cx else cx);
     m \<leftarrow> mark_gc_freed (gb_size b) (cx_metrics cx1);
     drop_all n (gb_next b) ((dealloc a cx1)\<lparr>cx_metrics := m\<rparr>)
   }"

definition context_drop :: "nat \<Rightarrow> gc_context \<Rightarrow> gc_context option option" where
  "context_drop fuel cx = drop_all fuel (cx_all cx) (cx\<lparr>cx_phase := PDrop\<rparr>)"

section \<open>The arena\<close>

datatype collection_phase = Marking | Marked | Sweeping | Sleeping

definition collection_phase_of :: "gc_context \<Rightarrow> collection_phase option" where
  "collection_phase_of cx = (case cx_phase cx of
      PMark \<Rightarrow> Some (if gray_remaining cx then Marking else Marked)
    | PSweep \<Rightarrow> Some Sweeping
    | PSleep \<Rightarrow> Some Sleeping
    | PDrop \<Rightarrow> None)"

definition is_marked_arena :: "gc_context \<Rightarrow> bool" where
  "is_marked_arena cx \<longleftrightarrow> cx_phase cx = PMark \<and> \<not> gray_remaining cx"

definition finish_marking :: "nat \<Rightarrow> gc_ptr list \<Rightarrow> gc_context \<Rightarrow> (gc_context \<times> bool) option option" where
  "finish_marking fuel root cx = map_option (map_option (\<lambda>cx'. (cx', is_marked_arena cx')))
     (do_collection fuel root StopCondition FullyMarked cx)"

definition finish_cycle :: "nat \<Rightarrow> gc_ptr list \<Rightarrow> gc_context \<Rightarrow> gc_context option option" where
  "finish_cycle fuel root cx = do_collection fuel root StopCondition FinishCycle cx"

definition collect_debt :: "nat \<Rightarrow> gc_ptr list \<Rightarrow> gc_context \<Rightarrow> gc_context option option" where
  "collect_debt fuel root cx = do_collection fuel root PayDebt Full cx"

definition mark_debt :: "nat \<Rightarrow> gc_ptr list \<Rightarrow> gc_context \<Rightarrow> (gc_context \<times> bool) option option" where
  "mark_debt fuel root cx = map_option (map_option (\<lambda>cx'. (cx', is_marked_arena cx')))
     (do_collection fuel root PayDebt FullyMarked cx)"

definition cycle_debt :: "nat \<Rightarrow> gc_ptr list \<Rightarrow> gc_context \<Rightarrow> gc_context option option" where
  "cycle_debt fuel root cx = do_collection fuel root PayDebt FinishCycle cx"

definition start_sweeping :: "nat \<Rightarrow> gc_ptr list \<Rightarrow> gc_context \<Rightarrow> gc_context option option" where
  "start_sweeping fuel root cx =
     (case do_collection fuel root StopCondition AtSweep cx of
        Some (Some cx') \<Rightarrow> if cx_phase cx' = PSweep then Some (Some cx') else None
      | r \<Rightarrow> r)"

end
