(* ===== verification/GcInv.thy ===== *)
theory GcInv
  imports Gc
begin

text \<open>
  The collector's invariant and its preservation by marking, sweeping and the phase changes. The
  list of all boxes is split into the part \<open>pre\<close> a sweep has passed (and everything allocated
  since) and the part \<open>suf\<close> still to be swept, which is empty outside a sweep.
\<close>

section \<open>The list of boxes\<close>

fun chain :: "(addr \<rightharpoonup> gc_box) \<Rightarrow> addr option \<Rightarrow> addr list \<Rightarrow> bool" where
  "chain bs n [] \<longleftrightarrow> n = None"
| "chain bs n (x # xs) \<longleftrightarrow> n = Some x \<and> (\<exists>b. bs x = Some b \<and> chain bs (gb_next b) xs)"

definition hd_opt :: "'a list \<Rightarrow> 'a option" where
  "hd_opt xs = (case xs of [] \<Rightarrow> None | x # _ \<Rightarrow> Some x)"

definition last_opt :: "'a list \<Rightarrow> 'a option" where
  "last_opt xs = (if xs = [] then None else Some (last xs))"

definition box_bytes :: "(addr \<rightharpoonup> gc_box) \<Rightarrow> addr list \<Rightarrow> nat" where
  "box_bytes bs xs = sum_list (map (\<lambda>a. case bs a of Some b \<Rightarrow> gb_size b | None \<Rightarrow> 0) xs)"

definition lists_ok :: "gc_context \<Rightarrow> addr list \<Rightarrow> addr list \<Rightarrow> bool" where
  "lists_ok cx pre suf \<longleftrightarrow>
     chain (cx_boxes cx) (cx_all cx) (pre @ suf) \<and> distinct (pre @ suf)
   \<and> dom (cx_boxes cx) = set (pre @ suf)
   \<and> totals (cx_metrics cx) = (length (pre @ suf), box_bytes (cx_boxes cx) (pre @ suf))
   \<and> (if cx_phase cx = PSweep then cx_sweep cx = hd_opt suf \<and> cx_sweep_prev cx = last_opt pre
      else suf = [] \<and> cx_sweep cx = None \<and> cx_sweep_prev cx = None)"

section \<open>Which pointers may be held\<close>

text \<open>A strong pointer the program may hold points to a live box that this sweep will not drop; a
  weak one to a box that this sweep will not free.\<close>

definition strong_ok :: "gc_context \<Rightarrow> addr list \<Rightarrow> addr \<Rightarrow> bool" where
  "strong_ok cx suf a \<longleftrightarrow> (\<exists>b. cx_boxes cx a = Some b \<and> gb_live b \<and> (a \<in> set suf \<longrightarrow> gb_color b = Black))"

definition weak_ok :: "gc_context \<Rightarrow> addr list \<Rightarrow> addr \<Rightarrow> bool" where
  "weak_ok cx suf a \<longleftrightarrow> (\<exists>b. cx_boxes cx a = Some b \<and> (a \<in> set suf \<longrightarrow> gb_color b \<noteq> White))"

definition ptr_ok :: "gc_context \<Rightarrow> addr list \<Rightarrow> gc_ptr \<Rightarrow> bool" where
  "ptr_ok cx suf p = (case p of Strong a \<Rightarrow> strong_ok cx suf a | Weakly a \<Rightarrow> weak_ok cx suf a)"

text \<open>What tracing has established about a pointer.\<close>

definition marked :: "gc_context \<Rightarrow> gc_ptr \<Rightarrow> bool" where
  "marked cx p = (case p of
      Strong a \<Rightarrow> (\<exists>b. cx_boxes cx a = Some b \<and> (gb_color b = Gray \<or> gb_color b = Black))
    | Weakly a \<Rightarrow> (\<exists>b. cx_boxes cx a = Some b \<and> gb_color b \<noteq> White))"

section \<open>Colours\<close>

text \<open>The tri-colour invariant, exempting the boxes \<open>E\<close> whose tracing is under way.\<close>

definition mark_colors :: "gc_context \<Rightarrow> addr set \<Rightarrow> bool" where
  "mark_colors cx E \<longleftrightarrow>
     distinct (cx_gray cx @ cx_gray_again cx)
   \<and> (\<forall>a. a \<in> set (cx_gray cx @ cx_gray_again cx)
        \<longleftrightarrow> (\<exists>b. cx_boxes cx a = Some b \<and> gb_color b = Gray))
   \<and> (\<forall>a b. cx_boxes cx a = Some b \<longrightarrow> \<not> is_white (gb_color b) \<longrightarrow> gb_live b)
   \<and> (\<forall>a b. cx_boxes cx a = Some b \<longrightarrow> gb_color b = Black \<longrightarrow> a \<notin> E \<longrightarrow> (\<forall>p \<in> set (gb_refs b). marked cx p))"

definition sweep_colors :: "gc_context \<Rightarrow> addr list \<Rightarrow> addr list \<Rightarrow> bool" where
  "sweep_colors cx pre suf \<longleftrightarrow>
     cx_gray cx = [] \<and> cx_gray_again cx = []
   \<and> (\<forall>a b. a \<in> set pre \<longrightarrow> cx_boxes cx a = Some b \<longrightarrow> gb_color b = White)
   \<and> (\<forall>a b. a \<in> set suf \<longrightarrow> cx_boxes cx a = Some b \<longrightarrow>
        gb_color b \<noteq> Gray \<and> (gb_color b = Black \<longrightarrow> gb_live b))"

definition colors_ok :: "gc_context \<Rightarrow> addr list \<Rightarrow> addr list \<Rightarrow> bool" where
  "colors_ok cx pre suf \<longleftrightarrow> (case cx_phase cx of
      PMark \<Rightarrow> mark_colors cx {}
    | PSweep \<Rightarrow> sweep_colors cx pre suf
    | PSleep \<Rightarrow> sweep_colors cx pre suf \<and> cx_root_needs_trace cx
    | PDrop \<Rightarrow> False)"

definition edges_closed :: "gc_context \<Rightarrow> addr list \<Rightarrow> bool" where
  "edges_closed cx suf \<longleftrightarrow> (\<forall>a b. cx_boxes cx a = Some b \<longrightarrow> strong_ok cx suf a \<longrightarrow>
     (\<forall>p \<in> set (gb_refs b). ptr_ok cx suf p))"

definition leaves_ok :: "gc_context \<Rightarrow> bool" where
  "leaves_ok cx \<longleftrightarrow> (\<forall>a b. cx_boxes cx a = Some b \<longrightarrow> \<not> gb_needs_trace b \<longrightarrow> gb_refs b = [])"

definition root_ok :: "gc_context \<Rightarrow> addr list \<Rightarrow> gc_ptr list \<Rightarrow> bool" where
  "root_ok cx suf root \<longleftrightarrow> (\<forall>p \<in> set root. ptr_ok cx suf p)
     \<and> (cx_phase cx = PMark \<longrightarrow> \<not> cx_root_needs_trace cx \<longrightarrow> (\<forall>p \<in> set root. marked cx p))"

definition gc_ok :: "gc_context \<Rightarrow> gc_ptr list \<Rightarrow> addr list \<Rightarrow> addr list \<Rightarrow> bool" where
  "gc_ok cx root pre suf \<longleftrightarrow> lists_ok cx pre suf \<and> colors_ok cx pre suf \<and> edges_closed cx suf
     \<and> leaves_ok cx \<and> root_ok cx suf root"

definition gc_inv :: "gc_context \<Rightarrow> gc_ptr list \<Rightarrow> bool" where
  "gc_inv cx root \<longleftrightarrow> (\<exists>pre suf. gc_ok cx root pre suf)"

lemma gc_okD:
  assumes "gc_ok cx root pre suf"
  shows "lists_ok cx pre suf" "colors_ok cx pre suf" "edges_closed cx suf" "leaves_ok cx"
    "root_ok cx suf root"
  using assms by (simp_all add: gc_ok_def)

section \<open>Changing colours only\<close>

definition erase :: "gc_box \<Rightarrow> gc_box" where "erase b = b\<lparr>gb_color := White\<rparr>"

definition same_boxes :: "(addr \<rightharpoonup> gc_box) \<Rightarrow> (addr \<rightharpoonup> gc_box) \<Rightarrow> bool" where
  "same_boxes bs bs' \<longleftrightarrow> (\<forall>a. map_option erase (bs' a) = map_option erase (bs a))"

lemma erase_eq_iff:
  "erase b' = erase b \<longleftrightarrow> gb_next b' = gb_next b \<and> gb_needs_trace b' = gb_needs_trace b
     \<and> gb_live b' = gb_live b \<and> gb_size b' = gb_size b \<and> gb_refs b' = gb_refs b"
  by (cases b; cases b') (simp add: erase_def)

lemma same_boxes_Some:
  assumes "same_boxes bs bs'" and "bs' a = Some b'"
  obtains b where "bs a = Some b" and "gb_next b' = gb_next b" and "gb_needs_trace b' = gb_needs_trace b"
    and "gb_live b' = gb_live b" and "gb_size b' = gb_size b" and "gb_refs b' = gb_refs b"
proof -
  have "map_option erase (bs' a) = map_option erase (bs a)" using assms(1) by (simp add: same_boxes_def)
  then obtain b where "bs a = Some b" "erase b' = erase b" using assms(2) by (cases "bs a") auto
  then show ?thesis using that by (simp add: erase_eq_iff)
qed

lemma same_boxes_sym: "same_boxes bs bs' \<Longrightarrow> same_boxes bs' bs"
  by (simp add: same_boxes_def)

lemma same_boxes_trans: "same_boxes bs bs' \<Longrightarrow> same_boxes bs' bs'' \<Longrightarrow> same_boxes bs bs''"
  by (simp add: same_boxes_def)

lemma same_boxes_refl [simp]: "same_boxes bs bs"
  by (simp add: same_boxes_def)

lemma same_boxes_dom: "same_boxes bs bs' \<Longrightarrow> dom bs' = dom bs"
  by (auto simp: same_boxes_def dom_def) (metis option.map_disc_iff option.distinct(1) option.exhaust)+

lemma same_boxes_chain:
  assumes "same_boxes bs bs'" and "chain bs n xs" shows "chain bs' n xs"
  using assms(2)
proof (induction xs arbitrary: n)
  case (Cons x xs)
  then obtain b where b: "n = Some x" "bs x = Some b" "chain bs (gb_next b) xs" by auto
  obtain b' where "bs' x = Some b'" "gb_next b = gb_next b'"
    by (rule same_boxes_Some [OF same_boxes_sym [OF assms(1)] b(2)]) blast
  then show ?case using b Cons.IH by simp
qed simp

lemma same_boxes_size:
  assumes "same_boxes bs bs'" shows "map_option gb_size (bs' a) = map_option gb_size (bs a)"
proof (cases "bs' a")
  case None
  then show ?thesis using same_boxes_dom [OF assms] by (metis domIff)
next
  case (Some b')
  obtain b where "bs a = Some b" "gb_size b' = gb_size b" by (rule same_boxes_Some [OF assms Some]) blast
  then show ?thesis using Some by simp
qed

lemma same_boxes_bytes: "same_boxes bs bs' \<Longrightarrow> box_bytes bs' xs = box_bytes bs xs"
proof -
  assume s: "same_boxes bs bs'"
  have "(case bs' a of Some b \<Rightarrow> gb_size b | None \<Rightarrow> 0) = (case bs a of Some b \<Rightarrow> gb_size b | None \<Rightarrow> 0)" for a
    using same_boxes_size [OF s, of a] by (cases "bs a"; cases "bs' a") auto
  then show ?thesis by (simp add: box_bytes_def)
qed

lemma same_boxes_live:
  assumes "same_boxes bs bs'" and "bs a = Some b"
  shows "\<exists>b'. bs' a = Some b' \<and> gb_live b' = gb_live b \<and> gb_refs b' = gb_refs b
    \<and> gb_needs_trace b' = gb_needs_trace b"
  by (rule same_boxes_Some [OF same_boxes_sym [OF assms(1)] assms(2)]) auto

text \<open>The fields marking leaves alone.\<close>

definition mark_frame :: "gc_context \<Rightarrow> gc_context \<Rightarrow> bool" where
  "mark_frame cx cx' \<longleftrightarrow> same_boxes (cx_boxes cx) (cx_boxes cx') \<and> cx_phase cx' = cx_phase cx
     \<and> cx_all cx' = cx_all cx \<and> cx_sweep cx' = cx_sweep cx \<and> cx_sweep_prev cx' = cx_sweep_prev cx
     \<and> totals (cx_metrics cx') = totals (cx_metrics cx)"

lemma mark_frame_refl [simp]: "mark_frame cx cx"
  by (simp add: mark_frame_def)

lemma mark_frame_trans: "mark_frame cx cx' \<Longrightarrow> mark_frame cx' cx'' \<Longrightarrow> mark_frame cx cx''"
  by (auto simp: mark_frame_def intro: same_boxes_trans)

lemma mark_frame_lists:
  assumes "mark_frame cx cx'" and "lists_ok cx pre suf" shows "lists_ok cx' pre suf"
proof -
  have s: "same_boxes (cx_boxes cx) (cx_boxes cx')" using assms(1) by (simp add: mark_frame_def)
  then show ?thesis
    using assms same_boxes_chain [OF s] same_boxes_dom [OF s] same_boxes_bytes [OF s]
    by (simp add: lists_ok_def mark_frame_def)
qed

lemma mark_frame_strong_ok:
  assumes "mark_frame cx cx'" and "strong_ok cx [] a" shows "strong_ok cx' [] a"
proof -
  have s: "same_boxes (cx_boxes cx) (cx_boxes cx')" using assms(1) by (simp add: mark_frame_def)
  obtain b where "cx_boxes cx a = Some b" "gb_live b" using assms(2) by (auto simp: strong_ok_def)
  then show ?thesis using same_boxes_live [OF s] by (fastforce simp: strong_ok_def)
qed

lemma mark_frame_sym: "mark_frame cx cx' \<Longrightarrow> mark_frame cx' cx"
  by (simp add: mark_frame_def same_boxes_sym)

lemma mark_frame_ptr_ok:
  assumes "mark_frame cx cx'" shows "ptr_ok cx' [] p = ptr_ok cx [] p"
proof -
  have s: "same_boxes (cx_boxes cx) (cx_boxes cx')" using assms by (simp add: mark_frame_def)
  have "weak_ok cx' [] a = weak_ok cx [] a" for a
    using same_boxes_dom [OF s] by (simp add: weak_ok_def) (metis domD domI)
  moreover have "strong_ok cx' [] a = strong_ok cx [] a" for a
    using mark_frame_strong_ok [OF assms] mark_frame_strong_ok [OF mark_frame_sym [OF assms]] by blast
  ultimately show ?thesis by (simp add: ptr_ok_def split: gc_ptr.split)
qed

lemma mark_frame_closed:
  assumes f: "mark_frame cx cx'" and c: "edges_closed cx []" "leaves_ok cx"
  shows "edges_closed cx' []" and "leaves_ok cx'"
proof -
  have s: "same_boxes (cx_boxes cx) (cx_boxes cx')" using f by (simp add: mark_frame_def)
  note p = mark_frame_ptr_ok [OF f]
  have "ptr_ok cx' [] q" if h: "cx_boxes cx' a = Some b'" "strong_ok cx' [] a" "q \<in> set (gb_refs b')" for a b' q
  proof -
    obtain b where b: "cx_boxes cx a = Some b" "gb_refs b' = gb_refs b"
      by (rule same_boxes_Some [OF s h(1)]) blast
    have "strong_ok cx [] a" using h(2) p [of "Strong a"] by (simp add: ptr_ok_def)
    then show ?thesis using c(1) b h(3) p by (simp add: edges_closed_def)
  qed
  then show "edges_closed cx' []" by (simp add: edges_closed_def)
  show "leaves_ok cx'"
    unfolding leaves_ok_def
  proof (intro allI impI)
    fix a b' assume b': "cx_boxes cx' a = Some b'" "\<not> gb_needs_trace b'"
    obtain b where "cx_boxes cx a = Some b" "gb_needs_trace b' = gb_needs_trace b" "gb_refs b' = gb_refs b"
      by (rule same_boxes_Some [OF s b'(1)]) blast
    then show "gb_refs b' = []" using c(2) b'(2) by (simp add: leaves_ok_def)
  qed
qed

end
