(* ===== verification/GcMark.thy ===== *)
theory GcMark
  imports GcInv "HOL-Library.Multiset"
begin

text \<open>
  Marking: tracing a pointer keeps the tri-colour invariant and changes only colours, one step of
  marking keeps the collector's invariant and makes progress, and when marking is complete the
  black boxes are closed under pointers, which is what the sweep relies on.
\<close>

section \<open>Field lemmas\<close>

lemma set_color_boxes:
  "cx_boxes (set_color a c cx) x
   = (if x = a then map_option (\<lambda>b. b\<lparr>gb_color := c\<rparr>) (cx_boxes cx a) else cx_boxes cx x)"
  by (simp add: set_color_def upd_box_def)

lemma set_color_fields [simp]:
  "cx_phase (set_color a c cx) = cx_phase cx" "cx_all (set_color a c cx) = cx_all cx"
  "cx_sweep (set_color a c cx) = cx_sweep cx" "cx_sweep_prev (set_color a c cx) = cx_sweep_prev cx"
  "cx_gray (set_color a c cx) = cx_gray cx" "cx_gray_again (set_color a c cx) = cx_gray_again cx"
  "cx_root_needs_trace (set_color a c cx) = cx_root_needs_trace cx"
  "cx_metrics (set_color a c cx) = cx_metrics cx"
  by (simp_all add: set_color_def upd_box_def)

lemma push_gray_fields [simp]:
  "cx_phase (push_gray a cx) = cx_phase cx" "cx_all (push_gray a cx) = cx_all cx"
  "cx_sweep (push_gray a cx) = cx_sweep cx" "cx_sweep_prev (push_gray a cx) = cx_sweep_prev cx"
  "cx_gray (push_gray a cx) = a # cx_gray cx" "cx_gray_again (push_gray a cx) = cx_gray_again cx"
  "cx_root_needs_trace (push_gray a cx) = cx_root_needs_trace cx"
  "cx_metrics (push_gray a cx) = cx_metrics cx" "cx_boxes (push_gray a cx) = cx_boxes cx"
  by (simp_all add: push_gray_def)

lemma upd_metrics_fields [simp]:
  "cx_phase (upd_metrics f cx) = cx_phase cx" "cx_all (upd_metrics f cx) = cx_all cx"
  "cx_sweep (upd_metrics f cx) = cx_sweep cx" "cx_sweep_prev (upd_metrics f cx) = cx_sweep_prev cx"
  "cx_gray (upd_metrics f cx) = cx_gray cx" "cx_gray_again (upd_metrics f cx) = cx_gray_again cx"
  "cx_root_needs_trace (upd_metrics f cx) = cx_root_needs_trace cx"
  "cx_metrics (upd_metrics f cx) = f (cx_metrics cx)" "cx_boxes (upd_metrics f cx) = cx_boxes cx"
  by (simp_all add: upd_metrics_def)

section \<open>Colours of the boxes\<close>

definition color_of :: "gc_context \<Rightarrow> addr \<Rightarrow> gc_color option" where
  "color_of cx a = map_option gb_color (cx_boxes cx a)"

lemma color_of_Some: "cx_boxes cx a = Some b \<Longrightarrow> color_of cx a = Some (gb_color b)"
  by (simp add: color_of_def)

lemma marked_color:
  "marked cx p = (case p of
      Strong a \<Rightarrow> color_of cx a = Some Gray \<or> color_of cx a = Some Black
    | Weakly a \<Rightarrow> color_of cx a \<noteq> None \<and> color_of cx a \<noteq> Some White)"
  by (auto simp: marked_def color_of_def split: gc_ptr.split)

lemma color_of_upd_metrics [simp]: "color_of (upd_metrics f cx) a = color_of cx a"
  by (simp add: color_of_def)

lemma color_of_push_gray [simp]: "color_of (push_gray x cx) a = color_of cx a"
  by (simp add: color_of_def)

lemma color_of_set_color:
  "cx_boxes cx a = Some b \<Longrightarrow> color_of (set_color a c cx) x = (if x = a then Some c else color_of cx x)"
  by (simp add: color_of_def set_color_boxes)

lemma same_boxes_set_color: "same_boxes (cx_boxes cx) (cx_boxes (set_color a c cx))"
  by (cases "cx_boxes cx a") (simp_all add: same_boxes_def set_color_boxes erase_def)

lemma mark_frame_set_color: "mark_frame cx (set_color a c cx)"
  by (simp add: mark_frame_def same_boxes_set_color)

lemma mark_frame_push_gray: "mark_frame cx (push_gray a cx)"
  by (simp add: mark_frame_def)

lemma mark_frame_upd_marked: "mark_frame cx (upd_metrics (mark_gc_marked n) cx)"
  by (simp add: mark_frame_def)

lemma mark_frame_upd_traced: "mark_frame cx (upd_metrics (mark_gc_traced n) cx)"
  by (simp add: mark_frame_def)

lemmas mark_frames = mark_frame_set_color mark_frame_push_gray mark_frame_upd_marked
  mark_frame_upd_traced

text \<open>The tri-colour invariant over colours.\<close>

lemma mark_colorsI:
  assumes "distinct (cx_gray cx @ cx_gray_again cx)"
    and "\<And>a. a \<in> set (cx_gray cx @ cx_gray_again cx) \<longleftrightarrow> color_of cx a = Some Gray"
    and "\<And>a b. cx_boxes cx a = Some b \<Longrightarrow> \<not> is_white (gb_color b) \<Longrightarrow> gb_live b"
    and "\<And>a b p. cx_boxes cx a = Some b \<Longrightarrow> gb_color b = Black \<Longrightarrow> a \<notin> E \<Longrightarrow> p \<in> set (gb_refs b)
      \<Longrightarrow> marked cx p"
  shows "mark_colors cx E"
proof -
  have "color_of cx a = Some Gray \<longleftrightarrow> (\<exists>b. cx_boxes cx a = Some b \<and> gb_color b = Gray)" for a
    by (auto simp: color_of_def)
  then show ?thesis using assms unfolding mark_colors_def by blast
qed

lemma mark_colorsD:
  assumes "mark_colors cx E"
  shows "distinct (cx_gray cx @ cx_gray_again cx)"
    and "a \<in> set (cx_gray cx @ cx_gray_again cx) \<longleftrightarrow> color_of cx a = Some Gray"
    and "cx_boxes cx a = Some b \<Longrightarrow> \<not> is_white (gb_color b) \<Longrightarrow> gb_live b"
    and "cx_boxes cx a = Some b \<Longrightarrow> gb_color b = Black \<Longrightarrow> a \<notin> E \<Longrightarrow> p \<in> set (gb_refs b) \<Longrightarrow> marked cx p"
proof -
  have "color_of cx a = Some Gray \<longleftrightarrow> (\<exists>b. cx_boxes cx a = Some b \<and> gb_color b = Gray)"
    by (auto simp: color_of_def)
  then show "a \<in> set (cx_gray cx @ cx_gray_again cx) \<longleftrightarrow> color_of cx a = Some Gray"
    using assms unfolding mark_colors_def by blast
qed (use assms in \<open>auto simp: mark_colors_def\<close>)

section \<open>Progress\<close>

text \<open>What a step of tracing adds: nothing is unmarked, no black box changes, and only the
  pointers traced become marked.\<close>

definition advances :: "gc_context \<Rightarrow> gc_context \<Rightarrow> gc_ptr list \<Rightarrow> bool" where
  "advances cx cx' ps \<longleftrightarrow> mark_frame cx cx'
   \<and> cx_root_needs_trace cx' = cx_root_needs_trace cx
   \<and> (\<forall>p. marked cx p \<longrightarrow> marked cx' p)
   \<and> (\<forall>a. color_of cx a = Some Black \<longrightarrow> color_of cx' a = Some Black)
   \<and> (\<forall>a. marked cx' (Strong a) \<longrightarrow> marked cx (Strong a) \<or> Strong a \<in> set ps)
   \<and> (\<forall>a. marked cx' (Weakly a) \<longrightarrow> marked cx (Weakly a) \<or> Strong a \<in> set ps \<or> Weakly a \<in> set ps)"

lemma advances_refl [simp]: "advances cx cx ps"
  by (simp add: advances_def)

lemma advances_trans:
  assumes "advances cx cx' ps" and "advances cx' cx'' qs"
  shows "advances cx cx'' (ps @ qs)"
  using assms mark_frame_trans unfolding advances_def by fastforce

lemma advancesD:
  assumes "advances cx cx' ps"
  shows "mark_frame cx cx'" "cx_root_needs_trace cx' = cx_root_needs_trace cx"
    "marked cx p \<Longrightarrow> marked cx' p" "color_of cx a = Some Black \<Longrightarrow> color_of cx' a = Some Black"
  using assms by (simp_all add: advances_def)

text \<open>Making one box's colour darker.\<close>

lemma advances_recolor:
  assumes b: "cx_boxes cx a = Some b" and w: "is_white (gb_color b)" "c \<noteq> White"
    and cx': "cx_boxes cx' = cx_boxes (set_color a c cx)" "mark_frame cx cx'"
      "cx_root_needs_trace cx' = cx_root_needs_trace cx"
    and c: "c = WhiteWeak \<longrightarrow> gb_color b = White" "c = WhiteWeak \<longrightarrow> Weakly a \<in> set ps"
      "c \<noteq> WhiteWeak \<longrightarrow> Strong a \<in> set ps"
  shows "advances cx cx' ps"
proof -
  have col: "color_of cx' x = (if x = a then Some c else color_of cx x)" for x
    using color_of_set_color [OF b] by (simp add: color_of_def cx'(1))
  have cb: "color_of cx a = Some (gb_color b)" by (rule color_of_Some [OF b])
  have m1: "marked cx p \<Longrightarrow> marked cx' p" for p
    using w c(1) cb by (cases p) (auto simp: marked_color col is_white_def split: if_splits)
  have m2: "marked cx' (Strong x) \<Longrightarrow> marked cx (Strong x) \<or> Strong x \<in> set ps" for x
    using c(3) w(2) by (auto simp: marked_color col split: if_splits)
  have m3: "marked cx' (Weakly x) \<Longrightarrow> marked cx (Weakly x) \<or> Strong x \<in> set ps \<or> Weakly x \<in> set ps" for x
    using c(2,3) by (auto simp: marked_color col split: if_splits)
  have m4: "color_of cx x = Some Black \<Longrightarrow> color_of cx' x = Some Black" for x
    using w(1) cb by (auto simp: col is_white_def)
  show ?thesis
    unfolding advances_def using cx'(2,3) m1 m2 m3 m4 by blast
qed

lemma mark_colors_recolor:
  assumes mc: "mark_colors cx E" and b: "cx_boxes cx a = Some b" and w: "is_white (gb_color b)"
    and c: "c \<noteq> White" and l: "c = WhiteWeak \<or> gb_live b" and r: "c = Black \<longrightarrow> gb_refs b = []"
    and adv: "advances cx cx' ps" and bx: "cx_boxes cx' = cx_boxes (set_color a c cx)"
    and q: "cx_gray cx' = (if c = Gray then a # cx_gray cx else cx_gray cx)"
      "cx_gray_again cx' = cx_gray_again cx"
  shows "mark_colors cx' E"
proof (rule mark_colorsI)
  have col: "color_of cx' x = (if x = a then Some c else color_of cx x)" for x
    using color_of_set_color [OF b] by (simp add: color_of_def bx)
  have na: "a \<notin> set (cx_gray cx @ cx_gray_again cx)"
    using mark_colorsD(2) [OF mc, of a] w color_of_Some [OF b] by (auto simp: is_white_def)
  show "distinct (cx_gray cx' @ cx_gray_again cx')"
    using mark_colorsD(1) [OF mc] na by (simp add: q)
  show "x \<in> set (cx_gray cx' @ cx_gray_again cx') \<longleftrightarrow> color_of cx' x = Some Gray" for x
    using mark_colorsD(2) [OF mc, of x] na by (auto simp: q col)
  show "gb_live y" if "cx_boxes cx' x = Some y" "\<not> is_white (gb_color y)" for x y
    using that mark_colorsD(3) [OF mc, of x y] l b
    by (auto simp: bx set_color_boxes is_white_def split: if_splits)
  show "marked cx' p"
    if h: "cx_boxes cx' x = Some y" "gb_color y = Black" "x \<notin> E" "p \<in> set (gb_refs y)" for x y p
  proof (cases "x = a")
    case True
    then show ?thesis using h r b by (auto simp: bx set_color_boxes)
  next
    case False
    then have "marked cx p" using h mark_colorsD(4) [OF mc] by (simp add: bx set_color_boxes)
    then show ?thesis by (rule advancesD(3) [OF adv])
  qed
qed

section \<open>Tracing\<close>

lemma trace_marks:
  assumes mc: "mark_colors cx E" and lv: "leaves_ok cx" and b: "cx_boxes cx a = Some b" "gb_live b"
  shows "\<exists>cx'. trace a cx = Some cx' \<and> mark_colors cx' E \<and> advances cx cx' [Strong a]
    \<and> marked cx' (Strong a)"
proof (cases "is_white (gb_color b)")
  case False
  then have "gb_color b = Gray \<or> gb_color b = Black" by (cases "gb_color b") (auto simp: is_white_def)
  then have "trace a cx = Some cx" "marked cx (Strong a)"
    using b by (auto simp: trace_def header_def marked_def)
  then show ?thesis using mc by simp
next
  case w: True
  define c where "c = (if gb_needs_trace b then Gray else Black)"
  define cx1 where "cx1 = (if gb_needs_trace b then push_gray a (set_color a c cx) else set_color a c cx)"
  define cx' where "cx' = (if gb_color b = White then upd_metrics (mark_gc_marked (gb_size b)) cx1 else cx1)"
  have t: "trace a cx = Some cx'"
    using w b by (auto simp: trace_def header_def cx'_def cx1_def c_def is_white_def)
  have f: "mark_frame cx cx'"
    by (simp add: mark_frame_def cx'_def cx1_def same_boxes_set_color)
  have bx: "cx_boxes cx' = cx_boxes (set_color a c cx)" by (simp add: cx'_def cx1_def)
  have rt: "cx_root_needs_trace cx' = cx_root_needs_trace cx"
    "cx_gray cx' = (if c = Gray then a # cx_gray cx else cx_gray cx)"
    "cx_gray_again cx' = cx_gray_again cx"
    by (simp_all add: cx'_def cx1_def c_def)
  have adv: "advances cx cx' [Strong a]"
    by (rule advances_recolor [OF b(1) w _ bx f rt(1)]) (auto simp: c_def)
  have r: "c = Black \<longrightarrow> gb_refs b = []"
    using lv b(1) by (auto simp: leaves_ok_def c_def)
  have "mark_colors cx' E"
    by (rule mark_colors_recolor [OF mc b(1) w _ _ r adv bx rt(2,3)]) (auto simp: c_def b(2))
  moreover have "marked cx' (Strong a)"
    using b(1) by (auto simp: marked_color color_of_def bx set_color_boxes c_def)
  ultimately show ?thesis using t adv by blast
qed

lemma trace_weak_marks:
  assumes mc: "mark_colors cx E" and b: "cx_boxes cx a = Some b"
  shows "\<exists>cx'. trace_weak a cx = Some cx' \<and> mark_colors cx' E \<and> advances cx cx' [Weakly a]
    \<and> marked cx' (Weakly a)"
proof (cases "gb_color b = White")
  case False
  then have "trace_weak a cx = Some cx" "marked cx (Weakly a)"
    using b by (auto simp: trace_weak_def header_def marked_def)
  then show ?thesis using mc by simp
next
  case w: True
  define cx' where "cx' = upd_metrics (mark_gc_marked (gb_size b)) (set_color a WhiteWeak cx)"
  have t: "trace_weak a cx = Some cx'"
    using w b by (simp add: trace_weak_def header_def cx'_def)
  have f: "mark_frame cx cx'"
    unfolding cx'_def by (rule mark_frame_trans [OF mark_frame_set_color mark_frame_upd_marked])
  have w': "is_white (gb_color b)" using w by (simp add: is_white_def)
  have adv: "advances cx cx' [Weakly a]"
    by (rule advances_recolor [OF b w' _ _ f, where c = WhiteWeak]) (auto simp: cx'_def w)
  have "mark_colors cx' E"
    by (rule mark_colors_recolor [OF mc b w' _ _ _ adv, where c = WhiteWeak]) (auto simp: cx'_def)
  moreover have "marked cx' (Weakly a)"
    using b by (auto simp: marked_color color_of_def cx'_def set_color_boxes)
  ultimately show ?thesis using t adv by blast
qed

lemma trace_ptr_marks:
  assumes "mark_colors cx E" "leaves_ok cx" "ptr_ok cx [] p"
  shows "\<exists>cx'. trace_ptr p cx = Some cx' \<and> mark_colors cx' E \<and> advances cx cx' [p] \<and> marked cx' p"
proof (cases p)
  case (Strong a)
  then obtain b where "cx_boxes cx a = Some b" "gb_live b"
    using assms(3) by (auto simp: ptr_ok_def strong_ok_def)
  from trace_marks [OF assms(1,2) this] show ?thesis by (simp add: Strong trace_ptr_def)
next
  case (Weakly a)
  then obtain b where "cx_boxes cx a = Some b" using assms(3) by (auto simp: ptr_ok_def weak_ok_def)
  from trace_weak_marks [OF assms(1) this] show ?thesis by (simp add: Weakly trace_ptr_def)
qed

lemma advances_ptr_ok: "advances cx cx' ps \<Longrightarrow> ptr_ok cx' [] p = ptr_ok cx [] p"
  by (rule mark_frame_ptr_ok) (rule advancesD(1))

lemma advances_leaves: "advances cx cx' ps \<Longrightarrow> edges_closed cx [] \<Longrightarrow> leaves_ok cx \<Longrightarrow> leaves_ok cx'"
  using mark_frame_closed(2) advancesD(1) by blast

lemma trace_value_marks:
  assumes "mark_colors cx E" "leaves_ok cx" "edges_closed cx []" "\<forall>p\<in>set ps. ptr_ok cx [] p"
  shows "\<exists>cx'. trace_value ps cx = Some cx' \<and> mark_colors cx' E \<and> advances cx cx' ps
    \<and> (\<forall>p\<in>set ps. marked cx' p)"
  using assms
proof (induction ps arbitrary: cx)
  case (Cons p ps)
  obtain cx1 where c1: "trace_ptr p cx = Some cx1" "mark_colors cx1 E" "advances cx cx1 [p]" "marked cx1 p"
    using trace_ptr_marks [OF Cons.prems(1,2)] Cons.prems(4) by auto
  note f = advancesD(1) [OF c1(3)]
  have "\<exists>cx'. trace_value ps cx1 = Some cx' \<and> mark_colors cx' E \<and> advances cx1 cx' ps
    \<and> (\<forall>p\<in>set ps. marked cx' p)"
    using Cons.prems c1(2) mark_frame_closed [OF f] mark_frame_ptr_ok [OF f] by (intro Cons.IH) auto
  then obtain cx2 where c2: "trace_value ps cx1 = Some cx2" "mark_colors cx2 E" "advances cx1 cx2 ps"
      "\<forall>p\<in>set ps. marked cx2 p" by blast
  then show ?case
    using c1(1) advances_trans [OF c1(3) c2(3)] advancesD(3) [OF c2(3) c1(4)] by auto
qed simp

section \<open>One step of marking\<close>

definition nonblack :: "gc_context \<Rightarrow> addr set" where
  "nonblack cx = {a \<in> dom (cx_boxes cx). color_of cx a \<noteq> Some Black}"

definition mark_measure :: "gc_context \<Rightarrow> nat" where
  "mark_measure cx = 2 * card (nonblack cx) + (if cx_root_needs_trace cx then 1 else 0)"

lemma lists_ok_finite: "lists_ok cx pre suf \<Longrightarrow> finite (dom (cx_boxes cx))"
  by (simp add: lists_ok_def)

lemma gc_ok_mark_suf: "gc_ok cx root pre suf \<Longrightarrow> cx_phase cx = PMark \<Longrightarrow> suf = []"
  by (simp add: gc_ok_def lists_ok_def)

lemma advances_nonblack: "advances cx cx' ps \<Longrightarrow> nonblack cx' \<subseteq> nonblack cx"
  using same_boxes_dom [of "cx_boxes cx" "cx_boxes cx'"]
  by (simp add: advances_def mark_frame_def nonblack_def) blast

text \<open>The invariant after a step of tracing, the queues and colours given.\<close>

lemma gc_ok_advance:
  assumes ok: "gc_ok cx root pre []" "cx_phase cx = PMark" and adv: "advances cx cx' ps"
    and mc: "mark_colors cx' {}"
  shows "gc_ok cx' root pre []" and "cx_phase cx' = PMark"
proof -
  note f = advancesD(1) [OF adv]
  show ph: "cx_phase cx' = PMark" using f ok(2) by (simp add: mark_frame_def)
  have "root_ok cx' [] root"
    using gc_okD(5) [OF ok(1)] advancesD(2) [OF adv] advancesD(3) [OF adv] mark_frame_ptr_ok [OF f] ok(2)
    by (simp add: root_ok_def)
  then show "gc_ok cx' root pre []"
    using mark_frame_lists [OF f gc_okD(1) [OF ok(1)]]
      mark_frame_closed [OF f gc_okD(3) [OF ok(1)] gc_okD(4) [OF ok(1)]] mc ph
    by (simp add: gc_ok_def colors_ok_def)
qed

lemma pop_gray_Some:
  assumes "pop_gray cx = Some (a, cx1)"
  shows "mset (cx_gray cx @ cx_gray_again cx) = add_mset a (mset (cx_gray cx1 @ cx_gray_again cx1))"
    and "cx1 = cx\<lparr>cx_gray := cx_gray cx1, cx_gray_again := cx_gray_again cx1\<rparr>"
    and "a \<in> set (cx_gray cx @ cx_gray_again cx)"
proof -
  have "(\<exists>as. cx_gray cx = a # as \<and> cx1 = cx\<lparr>cx_gray := as\<rparr>)
    \<or> (cx_gray cx = [] \<and> (\<exists>as. cx_gray_again cx = a # as \<and> cx1 = cx\<lparr>cx_gray_again := as\<rparr>))"
    using assms by (auto simp: pop_gray_def split: list.splits)
  then show "mset (cx_gray cx @ cx_gray_again cx) = add_mset a (mset (cx_gray cx1 @ cx_gray_again cx1))"
    "cx1 = cx\<lparr>cx_gray := cx_gray cx1, cx_gray_again := cx_gray_again cx1\<rparr>"
    "a \<in> set (cx_gray cx @ cx_gray_again cx)" by auto
qed

lemma pop_gray_None: "pop_gray cx = None \<longleftrightarrow> cx_gray cx = [] \<and> cx_gray_again cx = []"
  by (auto simp: pop_gray_def split: list.splits)

text \<open>The popped box, blackened before its pointers are traced.\<close>

definition blacken :: "addr \<Rightarrow> nat \<Rightarrow> gc_context \<Rightarrow> gc_context" where
  "blacken a n cx = set_color a Black (upd_metrics (mark_gc_traced n) cx)"

lemma pop_blacken:
  assumes mc: "mark_colors cx {}" and p: "pop_gray cx = Some (a, cx1)"
  shows "\<exists>b. header cx1 a = Some b \<and> cx_boxes cx a = Some b \<and> gb_color b = Gray \<and> gb_live b
    \<and> mark_colors (blacken a (gb_size b) cx1) {a} \<and> advances cx (blacken a (gb_size b) cx1) []
    \<and> color_of (blacken a (gb_size b) cx1) a = Some Black"
proof -
  note q = pop_gray_Some [OF p]
  have cx1: "cx_boxes cx1 = cx_boxes cx" "cx_phase cx1 = cx_phase cx" "cx_all cx1 = cx_all cx"
    "cx_sweep cx1 = cx_sweep cx" "cx_sweep_prev cx1 = cx_sweep_prev cx" "cx_metrics cx1 = cx_metrics cx"
    "cx_root_needs_trace cx1 = cx_root_needs_trace cx"
    by (subst q(2); simp)+
  obtain b where b: "cx_boxes cx a = Some b" "gb_color b = Gray"
    using mark_colorsD(2) [OF mc, of a] q(3) by (auto simp: color_of_def)
  have lb: "gb_live b" using mark_colorsD(3) [OF mc b(1)] b(2) by (simp add: is_white_def)
  let ?cx = "blacken a (gb_size b) cx1"
  have bx: "cx_boxes ?cx = cx_boxes (set_color a Black cx)"
    by (rule ext) (simp add: blacken_def set_color_boxes cx1)
  have col: "color_of ?cx x = (if x = a then Some Black else color_of cx x)" for x
    using color_of_set_color [OF b(1)] by (simp add: color_of_def bx)
  have ca: "color_of cx a = Some Gray" by (simp add: color_of_Some [OF b(1)] b(2))
  have mk: "marked ?cx r = marked cx r" for r
    using ca by (cases r) (auto simp: marked_color col)
  have qs: "cx_gray ?cx = cx_gray cx1" "cx_gray_again ?cx = cx_gray_again cx1"
    by (simp_all add: blacken_def)
  have ds: "distinct (cx_gray cx1 @ cx_gray_again cx1)" "a \<notin> set (cx_gray cx1 @ cx_gray_again cx1)"
    "set (cx_gray cx @ cx_gray_again cx) = insert a (set (cx_gray cx1 @ cx_gray_again cx1))"
  proof -
    have "mset (cx_gray cx @ cx_gray_again cx) = mset (a # cx_gray cx1 @ cx_gray_again cx1)"
      using q(1) by simp
    then have "distinct (a # cx_gray cx1 @ cx_gray_again cx1)"
      "set (cx_gray cx @ cx_gray_again cx) = set (a # cx_gray cx1 @ cx_gray_again cx1)"
      using mark_colorsD(1) [OF mc] by (metis mset_eq_imp_distinct_iff, metis mset_eq_setD)
    then show "distinct (cx_gray cx1 @ cx_gray_again cx1)" "a \<notin> set (cx_gray cx1 @ cx_gray_again cx1)"
      "set (cx_gray cx @ cx_gray_again cx) = insert a (set (cx_gray cx1 @ cx_gray_again cx1))" by simp_all
  qed
  have "mark_colors ?cx {a}"
  proof (rule mark_colorsI)
    show "distinct (cx_gray ?cx @ cx_gray_again ?cx)" using ds(1) by (simp add: qs)
    show "x \<in> set (cx_gray ?cx @ cx_gray_again ?cx) \<longleftrightarrow> color_of ?cx x = Some Gray" for x
      using mark_colorsD(2) [OF mc, of x] ds by (auto simp: qs col)
    show "gb_live y" if "cx_boxes ?cx x = Some y" "\<not> is_white (gb_color y)" for x y
      using that mark_colorsD(3) [OF mc, of x y] lb b(1)
      by (auto simp: bx set_color_boxes split: if_splits)
    show "marked ?cx r" if "cx_boxes ?cx x = Some y" "gb_color y = Black" "x \<notin> {a}" "r \<in> set (gb_refs y)"
      for x y r
      using that mark_colorsD(4) [OF mc, of x y r] by (simp add: mk bx set_color_boxes)
  qed
  moreover have "advances cx ?cx []"
    using same_boxes_set_color [of cx a Black]
    by (simp add: advances_def mk col mark_frame_def bx) (simp add: blacken_def cx1)
  moreover have "header cx1 a = Some b" using b(1) by (simp add: header_def cx1)
  ultimately show ?thesis using b lb col by simp
qed

text \<open>The pointers one step of marking may follow.\<close>

definition mark_sources :: "gc_ptr list \<Rightarrow> gc_context \<Rightarrow> gc_ptr set" where
  "mark_sources root cx = set root \<union> {p. \<exists>a b. cx_boxes cx a = Some b \<and> gb_color b = Gray \<and> p \<in> set (gb_refs b)}"

lemma advances_sources:
  assumes "advances cx cx' ps" and "set ps \<subseteq> S"
  shows "marked cx' (Strong a) \<Longrightarrow> marked cx (Strong a) \<or> Strong a \<in> S"
    and "marked cx' (Weakly a) \<Longrightarrow> marked cx (Weakly a) \<or> Strong a \<in> S \<or> Weakly a \<in> S"
  using assms unfolding advances_def by blast+

lemma mark_one_pop:
  assumes ok: "gc_ok cx root pre []" "cx_phase cx = PMark" and p: "pop_gray cx = Some (a, cx1)"
  shows "\<exists>cx' b. mark_one root cx = Some (cx', True) \<and> gc_ok cx' root pre [] \<and> cx_phase cx' = PMark
    \<and> cx_boxes cx a = Some b \<and> gb_color b = Gray \<and> advances cx cx' (gb_refs b)
    \<and> mark_measure cx' < mark_measure cx"
proof -
  have mc: "mark_colors cx {}" using gc_okD(2) [OF ok(1)] ok(2) by (simp add: colors_ok_def)
  obtain b where b: "header cx1 a = Some b" "cx_boxes cx a = Some b" "gb_color b = Gray" "gb_live b"
      "mark_colors (blacken a (gb_size b) cx1) {a}" "advances cx (blacken a (gb_size b) cx1) []"
      "color_of (blacken a (gb_size b) cx1) a = Some Black"
    using pop_blacken [OF mc p] by blast
  let ?cx = "blacken a (gb_size b) cx1"
  note f = advancesD(1) [OF b(6)]
  have "strong_ok cx [] a" using b(2,4) by (simp add: strong_ok_def)
  then have "\<forall>r\<in>set (gb_refs b). ptr_ok cx [] r"
    using gc_okD(3) [OF ok(1)] b(2) by (simp add: edges_closed_def)
  then have pk: "\<forall>r\<in>set (gb_refs b). ptr_ok ?cx [] r" by (simp add: mark_frame_ptr_ok [OF f])
  note cl = mark_frame_closed [OF f gc_okD(3) [OF ok(1)] gc_okD(4) [OF ok(1)]]
  obtain cx' where t: "trace_value (gb_refs b) ?cx = Some cx'" "mark_colors cx' {a}"
      "advances ?cx cx' (gb_refs b)" "\<forall>r\<in>set (gb_refs b). marked cx' r"
    using trace_value_marks [OF b(5) cl(2,1) pk] by blast
  have adv: "advances cx cx' (gb_refs b)" using advances_trans [OF b(6) t(3)] by simp
  have refs: "gb_refs y = gb_refs b" if h: "cx_boxes cx' a = Some y" for y
  proof -
    have "same_boxes (cx_boxes cx) (cx_boxes cx')" using advancesD(1) [OF adv] by (simp add: mark_frame_def)
    from same_boxes_live [OF this b(2)] h show ?thesis by auto
  qed
  have mc': "mark_colors cx' {}"
  proof (rule mark_colorsI)
    fix x y r assume h: "cx_boxes cx' x = Some y" "gb_color y = Black" "r \<in> set (gb_refs y)"
    show "marked cx' r"
    proof (cases "x = a")
      case True
      then show ?thesis using h refs t(4) by simp
    next
      case False
      then show ?thesis using mark_colorsD(4) [OF t(2) h(1,2)] h(3) by simp
    qed
  qed (use mark_colorsD(1-3) [OF t(2)] in simp_all)
  have "mark_one root cx = Some (cx', True)"
    using p b(1,4) t(1) by (simp add: mark_one_def blacken_def)
  moreover have "mark_measure cx' < mark_measure cx"
  proof -
    have "a \<in> nonblack cx" using b(2,3) by (auto simp: nonblack_def color_of_def)
    moreover have "a \<notin> nonblack cx'" using advancesD(4) [OF t(3) b(7)] by (simp add: nonblack_def)
    ultimately have "nonblack cx' \<subset> nonblack cx" using advances_nonblack [OF adv] by blast
    moreover have "finite (nonblack cx)"
      using lists_ok_finite [OF gc_okD(1) [OF ok(1)]] by (simp add: nonblack_def)
    ultimately have "card (nonblack cx') < card (nonblack cx)" by (simp add: psubset_card_mono)
    then show ?thesis using advancesD(2) [OF adv] by (simp add: mark_measure_def)
  qed
  ultimately show ?thesis using gc_ok_advance [OF ok adv mc'] b(2,3) adv by blast
qed

lemma mark_one_root:
  assumes ok: "gc_ok cx root pre []" "cx_phase cx = PMark" and p: "pop_gray cx = None"
    and r: "cx_root_needs_trace cx"
  shows "\<exists>cx1. mark_one root cx = Some (cx1\<lparr>cx_root_needs_trace := False\<rparr>, True)
    \<and> gc_ok (cx1\<lparr>cx_root_needs_trace := False\<rparr>) root pre [] \<and> cx_phase cx1 = PMark
    \<and> advances cx cx1 root \<and> mark_measure (cx1\<lparr>cx_root_needs_trace := False\<rparr>) < mark_measure cx"
proof -
  have mc: "mark_colors cx {}" using gc_okD(2) [OF ok(1)] ok(2) by (simp add: colors_ok_def)
  have pk: "\<forall>p\<in>set root. ptr_ok cx [] p" using gc_okD(5) [OF ok(1)] by (simp add: root_ok_def)
  obtain cx1 where t: "trace_value root cx = Some cx1" "mark_colors cx1 {}" "advances cx cx1 root"
      "\<forall>p\<in>set root. marked cx1 p"
    using trace_value_marks [OF mc gc_okD(4,3) [OF ok(1)] pk] by blast
  let ?cx = "cx1\<lparr>cx_root_needs_trace := False\<rparr>"
  note g = gc_ok_advance [OF ok t(3,2)]
  have eqs: "marked ?cx = marked cx1" "ptr_ok ?cx [] = ptr_ok cx1 []" "color_of ?cx = color_of cx1"
    "strong_ok ?cx [] = strong_ok cx1 []"
    by (rule ext, simp add: marked_def ptr_ok_def strong_ok_def weak_ok_def color_of_def split: gc_ptr.split)+
  have "gc_ok ?cx root pre []"
    using g t(2,4) unfolding gc_ok_def
    by (simp add: lists_ok_def colors_ok_def edges_closed_def leaves_ok_def root_ok_def mark_colors_def eqs)
  moreover have "mark_measure ?cx < mark_measure cx"
  proof -
    have "nonblack ?cx = nonblack cx1" by (simp add: nonblack_def eqs)
    then have "card (nonblack ?cx) \<le> card (nonblack cx)"
      using advances_nonblack [OF t(3)] lists_ok_finite [OF gc_okD(1) [OF ok(1)]]
      by (auto intro!: card_mono simp: nonblack_def)
    then show ?thesis using r by (simp add: mark_measure_def)
  qed
  ultimately show ?thesis using t(1,3) p r g(2) by (auto simp: mark_one_def)
qed

lemma mark_one_done:
  assumes "pop_gray cx = None" and "\<not> cx_root_needs_trace cx"
  shows "mark_one root cx = Some (cx, False)"
  using assms by (simp add: mark_one_def)

end
