(* ===== verification/GcSweep.thy ===== *)
theory GcSweep
  imports GcMark
begin

text \<open>
  Sweeping: when marking is complete the black boxes are closed under pointers, so the pointers
  that may be held are exactly those to boxes the sweep keeps; every step of the sweep preserves
  that set, unlinks what it frees from the list and keeps the collector's invariant, and the last
  one ends the cycle.
\<close>

section \<open>The list of boxes\<close>

lemma chain_cong:
  "(\<And>x. x \<in> set xs \<Longrightarrow> map_option gb_next (bs' x) = map_option gb_next (bs x)) \<Longrightarrow>
   chain bs n xs \<Longrightarrow> chain bs' n xs"
proof (induction xs arbitrary: n)
  case (Cons x xs)
  then obtain b where b: "bs x = Some b" "n = Some x" "chain bs (gb_next b) xs" by auto
  obtain b' where "bs' x = Some b'" "gb_next b' = gb_next b"
    using Cons.prems(1) [of x] b(1) by (cases "bs' x") auto
  then show ?case using Cons.IH [of "gb_next b"] Cons.prems(1) b by auto
qed simp

lemma chain_hd: "chain bs n xs \<Longrightarrow> n = hd_opt xs"
  by (cases xs) (auto simp: hd_opt_def)

lemma chain_split: "chain bs n (xs @ a # ys) \<Longrightarrow> bs a = Some b \<Longrightarrow> chain bs (gb_next b) ys"
  by (induction xs arbitrary: n) auto

lemma chain_unlink:
  assumes "chain bs n (xs @ p # a # ys)" and "distinct (xs @ p # a # ys)"
    and "bs a = Some b" and "bs p = Some c"
  shows "chain ((bs(p := Some (c\<lparr>gb_next := gb_next b\<rparr>)))(a := None)) n (xs @ p # ys)"
  using assms
proof (induction xs arbitrary: n)
  case Nil
  let ?bs = "(bs(p := Some (c\<lparr>gb_next := gb_next b\<rparr>)))(a := None)"
  have "chain bs (gb_next b) ys" "n = Some p" using Nil by auto
  moreover have "chain ?bs (gb_next b) ys"
    by (rule chain_cong [OF _ \<open>chain bs (gb_next b) ys\<close>]) (use Nil in auto)
  ultimately show ?case using Nil by (auto simp: fun_upd_def)
next
  case (Cons x xs)
  then show ?case by auto
qed

lemma chain_unlink_first:
  assumes "chain bs n (a # ys)" and "distinct (a # ys)" and "bs a = Some b"
  shows "chain (bs(a := None)) (gb_next b) ys"
  by (rule chain_cong [where bs = bs]) (use assms in auto)

lemma box_bytes_cong:
  "(\<And>x. x \<in> set xs \<Longrightarrow> map_option gb_size (bs' x) = map_option gb_size (bs x)) \<Longrightarrow>
   box_bytes bs' xs = box_bytes bs xs"
  unfolding box_bytes_def
  by (intro arg_cong [where f = sum_list] map_cong refl) (force split: option.splits)

lemma box_bytes_split:
  "bs a = Some b \<Longrightarrow> box_bytes bs (xs @ a # ys) = box_bytes bs (xs @ ys) + gb_size b"
  by (simp add: box_bytes_def)

lemma last_opt_snoc [simp]: "last_opt (xs @ [x]) = Some x" "last_opt [] = None"
  by (simp_all add: last_opt_def)

lemma last_opt_Cons [simp]: "last_opt (x # xs) = Some (last (x # xs))"
  by (simp add: last_opt_def)

section \<open>What the sweep looks at\<close>

text \<open>A box but for its link.\<close>

definition view :: "(addr \<rightharpoonup> gc_box) \<Rightarrow> addr \<Rightarrow> gc_box option" where
  "view bs a = map_option (\<lambda>b. b\<lparr>gb_next := None\<rparr>) (bs a)"

lemma strip_eq_iff:
  fixes b b' :: gc_box
  shows "b'\<lparr>gb_next := None\<rparr> = b\<lparr>gb_next := None\<rparr> \<longleftrightarrow> gb_color b' = gb_color b \<and> gb_live b' = gb_live b
     \<and> gb_refs b' = gb_refs b \<and> gb_size b' = gb_size b \<and> gb_needs_trace b' = gb_needs_trace b"
  by (cases b; cases b') auto

lemma view_Some:
  "view bs' x = view bs x \<Longrightarrow> bs x = Some b \<Longrightarrow>
   \<exists>b'. bs' x = Some b' \<and> gb_color b' = gb_color b \<and> gb_live b' = gb_live b \<and> gb_refs b' = gb_refs b
     \<and> gb_size b' = gb_size b \<and> gb_needs_trace b' = gb_needs_trace b"
  by (cases "bs' x") (auto simp: view_def strip_eq_iff)

lemma strong_ok_view:
  assumes "view (cx_boxes cx') x = view (cx_boxes cx) x" and "x \<in> set suf' \<longleftrightarrow> x \<in> set suf"
  shows "strong_ok cx' suf' x = strong_ok cx suf x" and "weak_ok cx' suf' x = weak_ok cx suf x"
proof -
  have e: "cx_boxes cx x = Some b \<Longrightarrow> \<exists>b'. cx_boxes cx' x = Some b' \<and> gb_color b' = gb_color b \<and> gb_live b' = gb_live b"
    "cx_boxes cx' x = Some b \<Longrightarrow> \<exists>b'. cx_boxes cx x = Some b' \<and> gb_color b' = gb_color b \<and> gb_live b' = gb_live b"
    for b
    using view_Some [OF assms(1)] view_Some [OF assms(1) [symmetric]] by blast+
  show "strong_ok cx' suf' x = strong_ok cx suf x" "weak_ok cx' suf' x = weak_ok cx suf x"
    unfolding strong_ok_def weak_ok_def assms(2) by (metis e)+
qed

definition sweep_keeps :: "gc_context \<Rightarrow> addr list \<Rightarrow> gc_context \<Rightarrow> addr list \<Rightarrow> bool" where
  "sweep_keeps cx suf cx' suf' \<longleftrightarrow>
     (\<forall>x. strong_ok cx' suf' x = strong_ok cx suf x) \<and> (\<forall>x. weak_ok cx' suf' x = weak_ok cx suf x)
   \<and> (\<forall>x b. strong_ok cx suf x \<longrightarrow> cx_boxes cx x = Some b \<longrightarrow>
        (\<exists>b'. cx_boxes cx' x = Some b' \<and> gb_refs b' = gb_refs b \<and> gb_size b' = gb_size b))"

lemma sweep_keeps_refl [simp]: "sweep_keeps cx suf cx suf"
  by (simp add: sweep_keeps_def)

lemma sweep_keeps_trans:
  "sweep_keeps cx suf cx' suf' \<Longrightarrow> sweep_keeps cx' suf' cx'' suf'' \<Longrightarrow> sweep_keeps cx suf cx'' suf''"
  unfolding sweep_keeps_def by metis

lemma sweep_keeps_ptr_ok: "sweep_keeps cx suf cx' suf' \<Longrightarrow> ptr_ok cx' suf' p = ptr_ok cx suf p"
  by (simp add: sweep_keeps_def ptr_ok_def split: gc_ptr.split)

text \<open>One box at a time: every other box is as before.\<close>

lemma sweep_keepsI:
  assumes "\<And>x. x \<noteq> a \<Longrightarrow> view (cx_boxes cx') x = view (cx_boxes cx) x"
    and "strong_ok cx' suf a = strong_ok cx (a # suf) a" "weak_ok cx' suf a = weak_ok cx (a # suf) a"
    and "\<And>b. strong_ok cx (a # suf) a \<Longrightarrow> cx_boxes cx a = Some b \<Longrightarrow>
      \<exists>b'. cx_boxes cx' a = Some b' \<and> gb_refs b' = gb_refs b \<and> gb_size b' = gb_size b"
  shows "sweep_keeps cx (a # suf) cx' suf"
proof -
  have "strong_ok cx' suf x = strong_ok cx (a # suf) x" "weak_ok cx' suf x = weak_ok cx (a # suf) x" for x
    using assms(2,3) strong_ok_view [OF assms(1), of x suf "a # suf"] by (cases "x = a"; simp)+
  moreover have "\<exists>b'. cx_boxes cx' x = Some b' \<and> gb_refs b' = gb_refs b \<and> gb_size b' = gb_size b"
    if "strong_ok cx (a # suf) x" "cx_boxes cx x = Some b" for x b
    using that assms(4) view_Some [OF assms(1)] by (cases "x = a") blast+
  ultimately show ?thesis by (simp add: sweep_keeps_def)
qed

lemma gc_ok_sweep_keeps:
  assumes ok: "gc_ok cx root pre suf" and k: "sweep_keeps cx suf cx' suf'"
    and new: "lists_ok cx' pre' suf'" "colors_ok cx' pre' suf'" "leaves_ok cx'" "cx_phase cx' \<noteq> PMark"
  shows "gc_ok cx' root pre' suf'"
proof -
  note p = sweep_keeps_ptr_ok [OF k]
  have "edges_closed cx' suf'"
    unfolding edges_closed_def
  proof (intro allI impI ballI)
    fix x b' r assume h: "cx_boxes cx' x = Some b'" "strong_ok cx' suf' x" "r \<in> set (gb_refs b')"
    have s: "strong_ok cx suf x" using h(2) k by (simp add: sweep_keeps_def)
    then obtain b where b: "cx_boxes cx x = Some b" by (auto simp: strong_ok_def)
    then have "gb_refs b' = gb_refs b" using k s h(1) unfolding sweep_keeps_def by (metis option.inject)
    then show "ptr_ok cx' suf' r" using gc_okD(3) [OF ok] b s h(3) p by (simp add: edges_closed_def)
  qed
  moreover have "root_ok cx' suf' root"
    using gc_okD(5) [OF ok] new(4) p by (simp add: root_ok_def)
  ultimately show ?thesis using new by (simp add: gc_ok_def)
qed

section \<open>Entering the sweep\<close>

definition enter_sweep :: "gc_context \<Rightarrow> gc_context" where
  "enter_sweep cx = cx\<lparr>cx_phase := PSweep, cx_sweep := cx_all cx\<rparr>"

lemma marked_is_black:
  assumes mc: "mark_colors cx {}" and g: "cx_gray cx = []" "cx_gray_again cx = []" and m: "marked cx p"
  shows "ptr_ok (enter_sweep cx) suf p"
proof -
  have ng: "cx_boxes cx a = Some b \<Longrightarrow> gb_color b \<noteq> Gray" for a b
    using mark_colorsD(2) [OF mc, of a] g color_of_Some by fastforce
  have lb: "cx_boxes cx a = Some b \<Longrightarrow> gb_color b = Black \<Longrightarrow> gb_live b" for a b
    using mark_colorsD(3) [OF mc, of a b] by (simp add: is_white_def)
  show ?thesis
    using m ng lb by (auto simp: marked_def ptr_ok_def strong_ok_def weak_ok_def enter_sweep_def
        split: gc_ptr.splits)
qed

lemma gc_ok_enter_sweep:
  assumes ok: "gc_ok cx root pre []" "cx_phase cx = PMark"
    and g: "cx_gray cx = []" "cx_gray_again cx = []" "\<not> cx_root_needs_trace cx"
  shows "gc_ok (enter_sweep cx) root [] pre"
proof -
  have mc: "mark_colors cx {}" using gc_okD(2) [OF ok(1)] ok(2) by (simp add: colors_ok_def)
  have l: "lists_ok (enter_sweep cx) [] pre"
    using gc_okD(1) [OF ok(1)] ok(2) chain_hd by (auto simp: lists_ok_def enter_sweep_def)
  have dm: "cx_boxes cx a = Some b \<Longrightarrow> a \<in> set pre" for a b
    using gc_okD(1) [OF ok(1)] by (auto simp: lists_ok_def)
  have c: "colors_ok (enter_sweep cx) [] pre"
    using mark_colorsD(2,3) [OF mc] g
    by (fastforce simp: colors_ok_def sweep_colors_def enter_sweep_def is_white_def color_of_def)
  have e: "edges_closed (enter_sweep cx) pre"
    unfolding edges_closed_def
  proof (intro allI impI ballI)
    fix a b r assume h: "cx_boxes (enter_sweep cx) a = Some b" "strong_ok (enter_sweep cx) pre a" "r \<in> set (gb_refs b)"
    have b: "cx_boxes cx a = Some b" "gb_color b = Black"
      using h(1,2) dm [of a b] by (auto simp: strong_ok_def enter_sweep_def)
    then have "marked cx r" using mark_colorsD(4) [OF mc] h(3) by blast
    then show "ptr_ok (enter_sweep cx) pre r" by (rule marked_is_black [OF mc g(1,2)])
  qed
  have "root_ok (enter_sweep cx) pre root"
    using gc_okD(5) [OF ok(1)] ok(2) g(3) marked_is_black [OF mc g(1,2)]
    by (simp add: root_ok_def) (simp add: enter_sweep_def)
  then show ?thesis
    using l c e gc_okD(4) [OF ok(1)] by (simp add: gc_ok_def leaves_ok_def enter_sweep_def)
qed

section \<open>One box\<close>

lemma upd_box_fields [simp]:
  "cx_phase (upd_box a f cx) = cx_phase cx" "cx_all (upd_box a f cx) = cx_all cx"
  "cx_sweep (upd_box a f cx) = cx_sweep cx" "cx_sweep_prev (upd_box a f cx) = cx_sweep_prev cx"
  "cx_gray (upd_box a f cx) = cx_gray cx" "cx_gray_again (upd_box a f cx) = cx_gray_again cx"
  "cx_root_needs_trace (upd_box a f cx) = cx_root_needs_trace cx"
  "cx_metrics (upd_box a f cx) = cx_metrics cx"
  "cx_boxes (upd_box a f cx) = (cx_boxes cx)(a := map_option f (cx_boxes cx a))"
  by (simp_all add: upd_box_def)

lemma sweep_colorsD:
  assumes "sweep_colors cx pre suf"
  shows "cx_gray cx = []" "cx_gray_again cx = []"
    "x \<in> set pre \<Longrightarrow> cx_boxes cx x = Some b \<Longrightarrow> gb_color b = White"
    "x \<in> set suf \<Longrightarrow> cx_boxes cx x = Some b \<Longrightarrow> gb_color b \<noteq> Gray"
    "x \<in> set suf \<Longrightarrow> cx_boxes cx x = Some b \<Longrightarrow> gb_color b = Black \<Longrightarrow> gb_live b"
  using assms by (auto simp: sweep_colors_def)

lemma sweep_colorsI:
  assumes "cx_gray cx = []" "cx_gray_again cx = []"
    and "\<And>x b. x \<in> set pre \<Longrightarrow> cx_boxes cx x = Some b \<Longrightarrow> gb_color b = White"
    and "\<And>x b. x \<in> set suf \<Longrightarrow> cx_boxes cx x = Some b \<Longrightarrow>
      gb_color b \<noteq> Gray \<and> (gb_color b = Black \<longrightarrow> gb_live b)"
  shows "sweep_colors cx pre suf"
  using assms by (simp add: sweep_colors_def)

text \<open>Other boxes keep their colours, so the colours of the rest of the list are still fine.\<close>

lemma sweep_colors_step:
  assumes sc: "sweep_colors cx pre (a # suf)" and v: "\<And>x. x \<noteq> a \<Longrightarrow> view (cx_boxes cx') x = view (cx_boxes cx) x"
    and q: "cx_gray cx' = cx_gray cx" "cx_gray_again cx' = cx_gray_again cx"
    and pre': "set pre' \<subseteq> insert a (set pre)" and a: "a \<notin> set suf"
    and w: "\<And>b. a \<in> set pre' \<Longrightarrow> cx_boxes cx' a = Some b \<Longrightarrow> gb_color b = White"
  shows "sweep_colors cx' pre' suf"
proof (rule sweep_colorsI)
  show "cx_gray cx' = []" "cx_gray_again cx' = []" using sweep_colorsD(1,2) [OF sc] q by simp_all
  show "gb_color b = White" if h: "x \<in> set pre'" "cx_boxes cx' x = Some b" for x b
  proof (cases "x = a")
    case True
    then show ?thesis using h w by blast
  next
    case False
    obtain b0 where "cx_boxes cx x = Some b0" "gb_color b0 = gb_color b"
      using view_Some [OF v [OF False, symmetric] h(2)] by blast
    then show ?thesis using sweep_colorsD(3) [OF sc, of x b0] h(1) pre' False by auto
  qed
  show "gb_color b \<noteq> Gray \<and> (gb_color b = Black \<longrightarrow> gb_live b)"
    if h: "x \<in> set suf" "cx_boxes cx' x = Some b" for x b
  proof -
    have "x \<noteq> a" using h(1) a by blast
    obtain b0 where "cx_boxes cx x = Some b0" "gb_color b0 = gb_color b" "gb_live b0 = gb_live b"
      using view_Some [OF v [OF \<open>x \<noteq> a\<close>, symmetric] h(2)] by blast
    then show ?thesis using sweep_colorsD(4,5) [OF sc, of x b0] h(1) by auto
  qed
qed

lemma leaves_ok_step:
  assumes "leaves_ok cx" and v: "\<And>x. x \<noteq> a \<Longrightarrow> view (cx_boxes cx') x = view (cx_boxes cx) x"
    and "\<And>b. cx_boxes cx' a = Some b \<Longrightarrow> \<not> gb_needs_trace b \<Longrightarrow> gb_refs b = []"
  shows "leaves_ok cx'"
  unfolding leaves_ok_def
proof (intro allI impI)
  fix x b assume h: "cx_boxes cx' x = Some b" "\<not> gb_needs_trace b"
  show "gb_refs b = []"
  proof (cases "x = a")
    case False
    obtain b0 where "cx_boxes cx x = Some b0" "gb_refs b0 = gb_refs b" "gb_needs_trace b0 = gb_needs_trace b"
      using view_Some [OF v [OF False, symmetric] h(1)] by blast
    then show ?thesis using assms(1) h(2) by (simp add: leaves_ok_def)
  qed (use h assms(3) in blast)
qed

section \<open>Keeping and dropping a box\<close>

text \<open>Both leave the box in the list, white.\<close>

lemma sweep_stay:
  assumes ok: "gc_ok cx root pre (a # suf)" "cx_phase cx = PSweep" and b: "cx_boxes cx a = Some b"
    and c: "gb_color b = Black \<or> gb_color b = WhiteWeak"
    and bs: "cx_boxes cx' = (cx_boxes cx)(a := Some b')"
    and b': "gb_color b' = White" "gb_next b' = gb_next b" "gb_size b' = gb_size b"
      "gb_needs_trace b' = gb_needs_trace b"
      "gb_color b = Black \<longrightarrow> gb_live b' = gb_live b \<and> gb_refs b' = gb_refs b"
      "gb_color b = WhiteWeak \<longrightarrow> \<not> gb_live b' \<and> (gb_refs b' = gb_refs b \<or> gb_refs b' = [])"
    and fs: "cx_phase cx' = PSweep" "cx_all cx' = cx_all cx" "cx_gray cx' = cx_gray cx"
      "cx_gray_again cx' = cx_gray_again cx" "cx_sweep cx' = gb_next b" "cx_sweep_prev cx' = Some a"
      "totals (cx_metrics cx') = totals (cx_metrics cx)"
  shows "gc_ok cx' root (pre @ [a]) suf" and "sweep_keeps cx (a # suf) cx' suf"
proof -
  note L = gc_okD(1) [OF ok(1)]
  have d: "a \<notin> set pre" "a \<notin> set suf" using L by (simp_all add: lists_ok_def)
  have v: "view (cx_boxes cx') x = view (cx_boxes cx) x" if "x \<noteq> a" for x
    using that by (simp add: view_def bs)
  have lv: "gb_color b = Black \<Longrightarrow> gb_live b"
    using gc_okD(2) [OF ok(1)] ok(2) b sweep_colorsD(5) by (simp add: colors_ok_def sweep_colors_def)
  show k: "sweep_keeps cx (a # suf) cx' suf"
    by (rule sweep_keepsI [OF v])
      (use b b' c d lv in \<open>auto simp: strong_ok_def weak_ok_def bs\<close>)
  have "chain (cx_boxes cx) (cx_all cx) (pre @ a # suf)" using L by (simp add: lists_ok_def)
  then have ch: "chain (cx_boxes cx') (cx_all cx) (pre @ a # suf)"
    by (rule chain_cong [rotated]) (simp add: bs b b')
  have "chain (cx_boxes cx) (gb_next b) suf"
    using \<open>chain (cx_boxes cx) (cx_all cx) (pre @ a # suf)\<close> b by (rule chain_split)
  then have hd: "gb_next b = hd_opt suf" by (rule chain_hd)
  have "box_bytes (cx_boxes cx') (pre @ a # suf) = box_bytes (cx_boxes cx) (pre @ a # suf)"
    by (rule box_bytes_cong) (simp add: bs b b')
  moreover have "dom (cx_boxes cx') = dom (cx_boxes cx)" using b by (auto simp: bs)
  ultimately have "lists_ok cx' (pre @ [a]) suf"
    using L fs ch hd by (simp add: lists_ok_def)
  moreover have "sweep_colors cx' (pre @ [a]) suf"
    by (rule sweep_colors_step [OF _ v, where pre = pre])
      (use gc_okD(2) [OF ok(1)] ok(2) fs d b' in \<open>auto simp: colors_ok_def bs\<close>)
  moreover have "leaves_ok cx'"
    by (rule leaves_ok_step [OF gc_okD(4) [OF ok(1)] v])
      (use gc_okD(4) [OF ok(1)] b b' c in \<open>auto simp: leaves_ok_def bs\<close>)
  ultimately show "gc_ok cx' root (pre @ [a]) suf"
    using fs(1) by (intro gc_ok_sweep_keeps [OF ok(1) k]) (simp_all add: colors_ok_def)
qed

section \<open>Freeing a box\<close>

lemma view_dom: "view bs' x = view bs x \<Longrightarrow> x \<in> dom bs' \<longleftrightarrow> x \<in> dom bs"
  by (cases "bs x"; cases "bs' x") (auto simp: view_def)

lemma view_size: "view bs' x = view bs x \<Longrightarrow> map_option gb_size (bs' x) = map_option gb_size (bs x)"
  by (cases "bs x"; cases "bs' x") (auto simp: view_def strip_eq_iff)

lemma sweep_gone:
  assumes ok: "gc_ok cx root pre (a # suf)" "cx_phase cx = PSweep" and b: "cx_boxes cx a = Some b"
    and c: "gb_color b = White"
    and v: "\<And>x. x \<noteq> a \<Longrightarrow> view (cx_boxes cx') x = view (cx_boxes cx) x" "cx_boxes cx' a = None"
    and ch: "chain (cx_boxes cx') (cx_all cx') (pre @ suf)"
    and fs: "cx_phase cx' = PSweep" "cx_gray cx' = cx_gray cx"
      "cx_gray_again cx' = cx_gray_again cx" "cx_sweep cx' = gb_next b" "cx_sweep_prev cx' = last_opt pre"
    and t: "totals (cx_metrics cx') = (length (pre @ suf), box_bytes (cx_boxes cx) (pre @ suf))"
  shows "gc_ok cx' root pre suf" and "sweep_keeps cx (a # suf) cx' suf"
proof -
  note L = gc_okD(1) [OF ok(1)]
  have d: "a \<notin> set pre" "a \<notin> set suf" "distinct (pre @ suf)"
    "dom (cx_boxes cx) = insert a (set (pre @ suf))" using L by (auto simp: lists_ok_def)
  show k: "sweep_keeps cx (a # suf) cx' suf"
    by (rule sweep_keepsI [OF v(1)]) (use b c v(2) in \<open>auto simp: strong_ok_def weak_ok_def\<close>)
  have "dom (cx_boxes cx') = set (pre @ suf)"
  proof (rule set_eqI)
    fix x show "x \<in> dom (cx_boxes cx') \<longleftrightarrow> x \<in> set (pre @ suf)"
      using view_dom [OF v(1), of x] v(2) d by (cases "x = a") auto
  qed
  moreover have "box_bytes (cx_boxes cx') (pre @ suf) = box_bytes (cx_boxes cx) (pre @ suf)"
    by (rule box_bytes_cong) (rule view_size [OF v(1)], use d in auto)
  moreover have "gb_next b = hd_opt suf"
    using L b chain_split chain_hd unfolding lists_ok_def by blast
  ultimately have "lists_ok cx' pre suf" using fs t ch d(3) by (simp add: lists_ok_def)
  moreover have "sweep_colors cx' pre suf"
    by (rule sweep_colors_step [OF _ v(1), where pre = pre])
      (use gc_okD(2) [OF ok(1)] ok(2) fs d in \<open>auto simp: colors_ok_def\<close>)
  moreover have "leaves_ok cx'"
    by (rule leaves_ok_step [OF gc_okD(4) [OF ok(1)] v(1)]) (use v(2) in auto)
  ultimately show "gc_ok cx' root pre suf"
    using fs(1) by (intro gc_ok_sweep_keeps [OF ok(1) k]) (simp_all add: colors_ok_def)
qed

lemma totals_dropped_if [simp]:
  "totals (cx_metrics (if l then upd_metrics (mark_gc_dropped n) cx else cx)) = totals (cx_metrics cx)"
  by simp

lemma sweep_free_step:
  assumes ok: "gc_ok cx root pre (a # suf)" "cx_phase cx = PSweep" and b: "cx_boxes cx a = Some b"
    and c: "gb_color b = White"
  shows "\<exists>cx'. sweep_free a b (cx\<lparr>cx_sweep := gb_next b\<rparr>) = Some cx' \<and> gc_ok cx' root pre suf
    \<and> cx_phase cx' = PSweep \<and> sweep_keeps cx (a # suf) cx' suf"
proof -
  note L = gc_okD(1) [OF ok(1)]
  let ?cx = "cx\<lparr>cx_sweep := gb_next b\<rparr>"
  have T: "totals (cx_metrics cx) = (Suc (length (pre @ suf)), box_bytes (cx_boxes cx) (pre @ suf) + gb_size b)"
    using L box_bytes_split [of "cx_boxes cx" a b pre suf, OF b] by (simp add: lists_ok_def)
  have ch: "chain (cx_boxes cx) (cx_all cx) (pre @ a # suf)" "distinct (pre @ a # suf)"
    "cx_sweep_prev cx = last_opt pre"
    using L ok(2) by (simp_all add: lists_ok_def)
  have "\<exists>cx1. (case cx_sweep_prev ?cx of
        Some p \<Rightarrow> do { _ \<leftarrow> header ?cx p; Some (set_next p (gb_next b) ?cx) }
      | None \<Rightarrow> if cx_all ?cx = Some a then Some (?cx\<lparr>cx_all := gb_next b\<rparr>) else None) = Some cx1
      \<and> chain ((cx_boxes cx1)(a := None)) (cx_all cx1) (pre @ suf)
      \<and> (\<forall>x. x \<noteq> a \<longrightarrow> view (cx_boxes cx1) x = view (cx_boxes cx) x)
      \<and> cx_phase cx1 = PSweep \<and> cx_gray cx1 = cx_gray cx \<and> cx_gray_again cx1 = cx_gray_again cx
      \<and> cx_sweep cx1 = gb_next b \<and> cx_sweep_prev cx1 = last_opt pre \<and> cx_metrics cx1 = cx_metrics cx"
  proof (cases pre rule: rev_cases)
    case Nil
    have "chain ((cx_boxes cx)(a := None)) (gb_next b) suf"
      by (rule chain_unlink_first [where n = "Some a"]) (use ch b Nil in auto)
    moreover have "cx_all cx = Some a" using ch(1) Nil by simp
    ultimately show ?thesis using ch(3) ok(2) Nil by simp
  next
    case (snoc ps p)
    obtain q where q: "cx_boxes cx p = Some q" using L snoc unfolding lists_ok_def by auto
    have "chain (((cx_boxes cx)(p := Some (q\<lparr>gb_next := gb_next b\<rparr>)))(a := None)) (cx_all cx) (ps @ p # suf)"
      by (rule chain_unlink) (use ch b q snoc in auto)
    moreover have "view ((cx_boxes cx)(p := Some (q\<lparr>gb_next := gb_next b\<rparr>))) x = view (cx_boxes cx) x" for x
      using q by (simp add: view_def)
    ultimately show ?thesis using ch(3) ok(2) snoc q by (simp add: header_def set_next_def)
  qed
  then obtain cx1 where c1: "(case cx_sweep_prev ?cx of
        Some p \<Rightarrow> do { _ \<leftarrow> header ?cx p; Some (set_next p (gb_next b) ?cx) }
      | None \<Rightarrow> if cx_all ?cx = Some a then Some (?cx\<lparr>cx_all := gb_next b\<rparr>) else None) = Some cx1"
      "chain ((cx_boxes cx1)(a := None)) (cx_all cx1) (pre @ suf)"
      "\<And>x. x \<noteq> a \<Longrightarrow> view (cx_boxes cx1) x = view (cx_boxes cx) x"
      "cx_phase cx1 = PSweep" "cx_gray cx1 = cx_gray cx" "cx_gray_again cx1 = cx_gray_again cx"
      "cx_sweep cx1 = gb_next b" "cx_sweep_prev cx1 = last_opt pre" "cx_metrics cx1 = cx_metrics cx"
    by blast
  define cx2 where "cx2 = (if gb_live b then upd_metrics (mark_gc_dropped (gb_size b)) cx1 else cx1)"
  obtain m where m: "mark_gc_freed (gb_size b) (cx_metrics cx2) = Some m"
      "totals m = (length (pre @ suf), box_bytes (cx_boxes cx) (pre @ suf))"
    using mark_gc_freed_Some [of "cx_metrics cx2" "length (pre @ suf)"] T c1(9) by (auto simp: cx2_def)
  let ?cx' = "(dealloc a cx2)\<lparr>cx_metrics := m\<rparr>"
  have e: "sweep_free a b ?cx = Some ?cx'"
    unfolding sweep_free_def c1(1) by (simp add: Let_def m(1) flip: cx2_def)
  have v: "view (cx_boxes ?cx') x = view (cx_boxes cx) x" if "x \<noteq> a" for x
    using c1(3) [OF that] that by (simp add: dealloc_def cx2_def view_def)
  have fs: "cx_boxes ?cx' a = None" "chain (cx_boxes ?cx') (cx_all ?cx') (pre @ suf)" "cx_phase ?cx' = PSweep"
    "cx_gray ?cx' = cx_gray cx" "cx_gray_again ?cx' = cx_gray_again cx" "cx_sweep ?cx' = gb_next b"
    "cx_sweep_prev ?cx' = last_opt pre"
    "totals (cx_metrics ?cx') = (length (pre @ suf), box_bytes (cx_boxes cx) (pre @ suf))"
    using c1 m(2) by (simp_all add: dealloc_def cx2_def)
  note g = sweep_gone [OF ok b c v fs]
  show ?thesis using e g fs(3) by blast
qed

section \<open>One step of the sweep\<close>

lemma sweep_one_step:
  assumes ok: "gc_ok cx root pre (a # suf)" "cx_phase cx = PSweep"
  shows "\<exists>cx' pre'. sweep_one cx = Some (cx', True) \<and> gc_ok cx' root pre' suf \<and> cx_phase cx' = PSweep
    \<and> sweep_keeps cx (a # suf) cx' suf"
proof -
  note L = gc_okD(1) [OF ok(1)]
  have "a \<in> dom (cx_boxes cx)" using L by (simp add: lists_ok_def)
  then obtain b where b: "cx_boxes cx a = Some b" by blast
  have s: "cx_sweep cx = Some a" using L ok(2) by (simp add: lists_ok_def hd_opt_def)
  have sc: "sweep_colors cx pre (a # suf)" using gc_okD(2) [OF ok(1)] ok(2) by (simp add: colors_ok_def)
  note fr = sweep_stay [OF ok b]
  consider (white) "gb_color b = White" | (weak) "gb_color b = WhiteWeak" | (black) "gb_color b = Black"
    using sweep_colorsD(4) [OF sc, of a b] b by (cases "gb_color b") auto
  then show ?thesis
  proof cases
    case white
    from sweep_free_step [OF ok b white] obtain cx' where
      "sweep_free a b (cx\<lparr>cx_sweep := gb_next b\<rparr>) = Some cx'" "gc_ok cx' root pre suf"
      "cx_phase cx' = PSweep" "sweep_keeps cx (a # suf) cx' suf" by blast
    then show ?thesis using white s b by (simp add: sweep_one_def header_def) blast
  next
    case weak
    let ?b = "b\<lparr>gb_color := White, gb_live := False, gb_refs := if gb_live b then [] else gb_refs b\<rparr>"
    let ?cx = "sweep_keep a b (sweep_drop a b (cx\<lparr>cx_sweep := gb_next b\<rparr>))"
    have bs: "cx_boxes ?cx = (cx_boxes cx)(a := Some ?b)"
      using b by (cases b) (auto simp: sweep_keep_def sweep_drop_def set_color_def fun_eq_iff)
    have fs: "cx_phase ?cx = PSweep" "cx_all ?cx = cx_all cx" "cx_gray ?cx = cx_gray cx"
      "cx_gray_again ?cx = cx_gray_again cx" "cx_sweep ?cx = gb_next b" "cx_sweep_prev ?cx = Some a"
      "totals (cx_metrics ?cx) = totals (cx_metrics cx)"
      using ok(2) by (auto simp: sweep_keep_def sweep_drop_def)
    have "gc_ok ?cx root (pre @ [a]) suf" "sweep_keeps cx (a # suf) ?cx suf"
      by (rule fr [OF _ bs _ _ _ _ _ _ fs], use weak in auto)+
    then show ?thesis using weak s b fs(1) by (simp add: sweep_one_def header_def) blast
  next
    case black
    let ?b = "b\<lparr>gb_color := White\<rparr>"
    let ?cx = "sweep_keep a b (cx\<lparr>cx_sweep := gb_next b\<rparr>)"
    have bs: "cx_boxes ?cx = (cx_boxes cx)(a := Some ?b)"
      using b by (auto simp: sweep_keep_def set_color_def)
    have fs: "cx_phase ?cx = PSweep" "cx_all ?cx = cx_all cx" "cx_gray ?cx = cx_gray cx"
      "cx_gray_again ?cx = cx_gray_again cx" "cx_sweep ?cx = gb_next b" "cx_sweep_prev ?cx = Some a"
      "totals (cx_metrics ?cx) = totals (cx_metrics cx)"
      using ok(2) by (auto simp: sweep_keep_def)
    have "gc_ok ?cx root (pre @ [a]) suf" "sweep_keeps cx (a # suf) ?cx suf"
      by (rule fr [OF _ bs _ _ _ _ _ _ fs], use black in auto)+
    then show ?thesis using black s b fs(1) by (simp add: sweep_one_def header_def) blast
  qed
qed

text \<open>At the end of the list the cycle is over.\<close>

definition end_sweep :: "bool \<Rightarrow> gc_context \<Rightarrow> gc_context" where
  "end_sweep s cx = (upd_metrics (metrics_finish_cycle s) (cx\<lparr>cx_sweep_prev := None\<rparr>))
     \<lparr>cx_root_needs_trace := True, cx_phase := PSleep\<rparr>"

lemma sweep_one_end:
  assumes ok: "gc_ok cx root pre []" "cx_phase cx = PSweep"
  shows "sweep_one cx = Some (cx\<lparr>cx_sweep_prev := None\<rparr>, False)"
    and "gc_ok (end_sweep s cx) root pre []" and "sweep_keeps cx [] (end_sweep s cx) []"
proof -
  let ?cx = "end_sweep s cx"
  note L = gc_okD(1) [OF ok(1)]
  have s: "cx_sweep cx = None" using L ok(2) by (simp add: lists_ok_def hd_opt_def)
  then show "sweep_one cx = Some (cx\<lparr>cx_sweep_prev := None\<rparr>, False)" by (simp add: sweep_one_def)
  show k: "sweep_keeps cx [] ?cx []"
    by (auto simp: sweep_keeps_def strong_ok_def weak_ok_def end_sweep_def)
  have "lists_ok ?cx pre []" "colors_ok ?cx pre []" "leaves_ok ?cx"
    using L s ok gc_okD(2,4) [OF ok(1)] by (simp_all add: lists_ok_def colors_ok_def sweep_colors_def
      leaves_ok_def end_sweep_def)
  then show "gc_ok ?cx root pre []"
    by (intro gc_ok_sweep_keeps [OF ok(1) k]) (simp_all add: end_sweep_def)
qed

text \<open>Waking up: every box is white and the root is still to be traced.\<close>

lemma gc_ok_wake:
  assumes ok: "gc_ok cx root pre suf" "cx_phase cx = PSleep"
  shows "gc_ok (cx\<lparr>cx_phase := PMark\<rparr>) root pre suf" and "suf = []"
proof -
  note L = gc_okD(1) [OF ok(1)]
  show s: "suf = []" using L ok(2) by (simp add: lists_ok_def)
  have sc: "sweep_colors cx pre []" "cx_root_needs_trace cx"
    using gc_okD(2) [OF ok(1)] ok(2) s by (simp_all add: colors_ok_def)
  have w: "gb_color b = White" if "cx_boxes cx x = Some b" for x b
    using that sweep_colorsD(3) [OF sc(1)] L s by (auto simp: lists_ok_def)
  have "mark_colors (cx\<lparr>cx_phase := PMark\<rparr>) {}"
    using sweep_colorsD(1,2) [OF sc(1)] w by (fastforce simp: mark_colors_def is_white_def)
  moreover have "ptr_ok (cx\<lparr>cx_phase := PMark\<rparr>) suf = ptr_ok cx suf"
    by (rule ext) (simp add: ptr_ok_def strong_ok_def weak_ok_def split: gc_ptr.split)
  moreover have "strong_ok (cx\<lparr>cx_phase := PMark\<rparr>) suf = strong_ok cx suf"
    by (rule ext) (simp add: strong_ok_def)
  ultimately show "gc_ok (cx\<lparr>cx_phase := PMark\<rparr>) root pre suf"
    using ok s sc(2) by (simp add: gc_ok_def lists_ok_def colors_ok_def edges_closed_def leaves_ok_def root_ok_def)
qed

end
