(* ===== verification/GcRun.thy ===== *)
theory GcRun
  imports GcSweep
begin

text \<open>
  Whole collections: reachability from the root, the work left to a run of \<open>do_collection\<close>, its
  termination within that many turns, what it keeps and, for a cycle begun asleep, what exactly is
  left at its end.
\<close>

section \<open>Reachability\<close>

inductive gc_reach :: "gc_context \<Rightarrow> gc_ptr list \<Rightarrow> gc_ptr \<Rightarrow> bool" for cx root where
  gc_reach_root: "p \<in> set root \<Longrightarrow> gc_reach cx root p"
| gc_reach_edge: "gc_reach cx root (Strong a) \<Longrightarrow> cx_boxes cx a = Some b \<Longrightarrow> p \<in> set (gb_refs b) \<Longrightarrow>
    gc_reach cx root p"

lemma reach_ptr_ok:
  assumes "gc_ok cx root pre suf" and "gc_reach cx root p"
  shows "ptr_ok cx suf p"
  using assms(2)
proof induction
  case (gc_reach_root p)
  then show ?case using gc_okD(5) [OF assms(1)] by (simp add: root_ok_def)
next
  case (gc_reach_edge a b p)
  then show ?case using gc_okD(3) [OF assms(1)] by (simp add: edges_closed_def ptr_ok_def)
qed

section \<open>What a collection keeps\<close>

text \<open>Everything reachable stays, with its pointers and its size.\<close>

definition gc_keeps :: "gc_context \<Rightarrow> gc_ptr list \<Rightarrow> gc_context \<Rightarrow> bool" where
  "gc_keeps cx root cx' \<longleftrightarrow> (\<forall>a b. gc_reach cx root (Strong a) \<longrightarrow> cx_boxes cx a = Some b \<longrightarrow>
     (\<exists>b'. cx_boxes cx' a = Some b' \<and> gb_live b' = gb_live b \<and> gb_refs b' = gb_refs b \<and> gb_size b' = gb_size b))"

lemma gc_keeps_reach:
  assumes "gc_keeps cx root cx'" and "gc_reach cx root p"
  shows "gc_reach cx' root p"
  using assms(2)
proof induction
  case (gc_reach_edge a b p)
  then obtain b' where "cx_boxes cx' a = Some b'" "gb_refs b' = gb_refs b"
    using assms(1) unfolding gc_keeps_def by metis
  then show ?case using gc_reach_edge gc_reach.gc_reach_edge by metis
qed (rule gc_reach.gc_reach_root)

lemma gc_keeps_trans:
  assumes "gc_keeps cx root cx'" and "gc_keeps cx' root cx''"
  shows "gc_keeps cx root cx''"
  unfolding gc_keeps_def
proof (intro allI impI)
  fix a b assume h: "gc_reach cx root (Strong a)" "cx_boxes cx a = Some b"
  obtain b1 where b1: "cx_boxes cx' a = Some b1" "gb_live b1 = gb_live b" "gb_refs b1 = gb_refs b"
      "gb_size b1 = gb_size b"
    using assms(1) h unfolding gc_keeps_def by blast
  then obtain b2 where "cx_boxes cx'' a = Some b2" "gb_live b2 = gb_live b1" "gb_refs b2 = gb_refs b1"
      "gb_size b2 = gb_size b1"
    using assms(2) gc_keeps_reach [OF assms(1) h(1)] unfolding gc_keeps_def by blast
  then show "\<exists>b'. cx_boxes cx'' a = Some b' \<and> gb_live b' = gb_live b \<and> gb_refs b' = gb_refs b
    \<and> gb_size b' = gb_size b" using b1 by simp
qed

lemma same_boxes_keeps:
  assumes "same_boxes (cx_boxes cx) (cx_boxes cx')" shows "gc_keeps cx root cx'"
  unfolding gc_keeps_def
proof (intro allI impI)
  fix a b assume "cx_boxes cx a = Some b"
  from same_boxes_Some [OF same_boxes_sym [OF assms] this]
  show "\<exists>b'. cx_boxes cx' a = Some b' \<and> gb_live b' = gb_live b \<and> gb_refs b' = gb_refs b \<and> gb_size b' = gb_size b"
    by metis
qed

lemma sweep_keeps_keeps:
  assumes ok: "gc_ok cx root pre suf" and k: "sweep_keeps cx suf cx' suf'"
  shows "gc_keeps cx root cx'"
  unfolding gc_keeps_def
proof (intro allI impI)
  fix a b assume h: "gc_reach cx root (Strong a)" "cx_boxes cx a = Some b"
  have s: "strong_ok cx suf a" using reach_ptr_ok [OF ok h(1)] by (simp add: ptr_ok_def)
  then have l: "gb_live b" using h(2) by (simp add: strong_ok_def)
  obtain b' where b': "cx_boxes cx' a = Some b'" "gb_refs b' = gb_refs b" "gb_size b' = gb_size b"
    using k s h(2) unfolding sweep_keeps_def by blast
  have "strong_ok cx' suf' a" using k s by (simp add: sweep_keeps_def)
  then have "gb_live b'" using b'(1) by (simp add: strong_ok_def)
  then show "\<exists>b'. cx_boxes cx' a = Some b' \<and> gb_live b' = gb_live b \<and> gb_refs b' = gb_refs b
    \<and> gb_size b' = gb_size b" using b' l by simp
qed

section \<open>What a cycle has found so far\<close>

text \<open>A cycle begun at \<open>cx0\<close>: marking has reached only what is reachable there, and the sweep
  keeps exactly that.\<close>

definition marking_from :: "gc_context \<Rightarrow> gc_ptr list \<Rightarrow> gc_context \<Rightarrow> bool" where
  "marking_from cx0 root cx \<longleftrightarrow> same_boxes (cx_boxes cx0) (cx_boxes cx)
   \<and> (\<forall>a. marked cx (Strong a) \<longrightarrow> gc_reach cx0 root (Strong a))
   \<and> (\<forall>a. marked cx (Weakly a) \<longrightarrow> gc_reach cx0 root (Strong a) \<or> gc_reach cx0 root (Weakly a))"

definition swept_from :: "gc_context \<Rightarrow> gc_ptr list \<Rightarrow> gc_context \<Rightarrow> addr list \<Rightarrow> bool" where
  "swept_from cx0 root cx suf \<longleftrightarrow> (\<forall>a. strong_ok cx suf a \<longleftrightarrow> gc_reach cx0 root (Strong a))
   \<and> (\<forall>a. weak_ok cx suf a \<longleftrightarrow> gc_reach cx0 root (Strong a) \<or> gc_reach cx0 root (Weakly a))"

definition tracked :: "gc_context \<Rightarrow> gc_ptr list \<Rightarrow> gc_context \<Rightarrow> addr list \<Rightarrow> bool" where
  "tracked cx0 root cx suf \<longleftrightarrow>
     (if cx_phase cx = PMark then marking_from cx0 root cx else swept_from cx0 root cx suf)"

lemma marking_from_advance:
  assumes m: "marking_from cx0 root cx" and adv: "advances cx cx' ps"
    and ps: "\<And>p. p \<in> set ps \<Longrightarrow> gc_reach cx0 root p"
  shows "marking_from cx0 root cx'"
proof -
  have "same_boxes (cx_boxes cx0) (cx_boxes cx')"
    using m adv same_boxes_trans unfolding marking_from_def advances_def mark_frame_def by blast
  then show ?thesis using m adv ps unfolding marking_from_def advances_def by blast
qed

lemma marking_from_gray:
  assumes m: "marking_from cx0 root cx" and b: "cx_boxes cx a = Some b" "gb_color b = Gray"
    and p: "p \<in> set (gb_refs b)"
  shows "gc_reach cx0 root p"
proof -
  have "gc_reach cx0 root (Strong a)" using m b by (auto simp: marking_from_def marked_def)
  moreover have sb: "same_boxes (cx_boxes cx0) (cx_boxes cx)" using m by (simp add: marking_from_def)
  obtain b0 where "cx_boxes cx0 a = Some b0" "gb_refs b = gb_refs b0"
    by (rule same_boxes_Some [OF sb b(1)]) blast
  ultimately show ?thesis using p gc_reach_edge by metis
qed

lemma same_boxes_reach:
  assumes "same_boxes (cx_boxes cx) (cx_boxes cx')"
  shows "gc_reach cx' root p = gc_reach cx root p"
  using gc_keeps_reach same_boxes_keeps assms same_boxes_sym by blast

lemma swept_from_enter:
  assumes ok: "gc_ok cx root pre []" "cx_phase cx = PMark"
    and g: "cx_gray cx = []" "cx_gray_again cx = []" "\<not> cx_root_needs_trace cx"
    and m: "marking_from cx0 root cx"
  shows "swept_from cx0 root (enter_sweep cx) pre"
proof -
  note e = gc_ok_enter_sweep [OF ok g]
  have s: "same_boxes (cx_boxes cx0) (cx_boxes (enter_sweep cx))"
    using m by (simp add: marking_from_def enter_sweep_def)
  have dm: "cx_boxes cx a = Some b \<Longrightarrow> a \<in> set pre" for a b
    using gc_okD(1) [OF ok(1)] by (auto simp: lists_ok_def)
  have "strong_ok (enter_sweep cx) pre a \<Longrightarrow> marked cx (Strong a)"
    "weak_ok (enter_sweep cx) pre a \<Longrightarrow> marked cx (Weakly a)" for a
    using dm [of a] by (auto simp: strong_ok_def weak_ok_def marked_def enter_sweep_def)
  moreover have "gc_reach cx0 root p \<Longrightarrow> ptr_ok (enter_sweep cx) pre p" for p
    using reach_ptr_ok [OF e] same_boxes_reach [OF s] by simp
  moreover have "strong_ok (enter_sweep cx) pre a \<Longrightarrow> weak_ok (enter_sweep cx) pre a" for a
    by (auto simp: strong_ok_def weak_ok_def)
  ultimately show ?thesis
    using m unfolding swept_from_def marking_from_def ptr_ok_def by (metis gc_ptr.simps(5,6))
qed

lemma swept_from_keeps: "swept_from cx0 root cx suf \<Longrightarrow> sweep_keeps cx suf cx' suf' \<Longrightarrow> swept_from cx0 root cx' suf'"
  by (simp add: swept_from_def sweep_keeps_def)

section \<open>One turn of the loop\<close>

lemma sweep_one_dom:
  assumes "sweep_one cx = Some (cx', m)" shows "dom (cx_boxes cx') \<subseteq> dom (cx_boxes cx)"
  using assms
  by (auto simp: sweep_one_def sweep_free_def sweep_keep_def sweep_drop_def header_def set_next_def
      dealloc_def set_color_def Let_def split: option.splits gc_color.splits if_splits bind_splits)

definition cycle_bound :: "gc_context \<Rightarrow> nat" where
  "cycle_bound cx = 3 * card (dom (cx_boxes cx)) + 4"

text \<open>The turns left in the current cycle.\<close>

definition turns_left :: "gc_context \<Rightarrow> addr list \<Rightarrow> nat" where
  "turns_left cx suf = (case cx_phase cx of
      PSleep \<Rightarrow> cycle_bound cx
    | PMark \<Rightarrow> mark_measure cx + card (dom (cx_boxes cx)) + 2
    | PSweep \<Rightarrow> length suf + 1
    | PDrop \<Rightarrow> 0)"

text \<open>A \<open>Full\<close> run that did not begin asleep does another cycle after the current one.\<close>

definition work_left :: "bool \<Rightarrow> gc_context \<Rightarrow> addr list \<Rightarrow> nat" where
  "work_left hs cx suf =
     turns_left cx suf + (if hs \<or> cx_phase cx = PSleep then 0 else cycle_bound cx)"

definition turn_ok :: "gc_ptr list \<Rightarrow> gc_context \<Rightarrow> addr list \<Rightarrow> gc_context \<Rightarrow> addr list \<Rightarrow> bool" where
  "turn_ok root cx suf cx' suf' \<longleftrightarrow> gc_keeps cx root cx' \<and> (\<exists>pre. gc_ok cx' root pre suf')
   \<and> (\<forall>cx0. cx_phase cx \<noteq> PSleep \<longrightarrow> tracked cx0 root cx suf \<longrightarrow> tracked cx0 root cx' suf')
   \<and> (cx_phase cx = PSleep \<longrightarrow> tracked cx root cx' suf')"

lemma turn_sleep:
  assumes ok: "gc_ok cx root pre suf" "cx_phase cx = PSleep"
  shows "turn_ok root cx suf (cx\<lparr>cx_phase := PMark\<rparr>) suf"
    and "work_left True (cx\<lparr>cx_phase := PMark\<rparr>) suf < work_left hs cx suf"
proof -
  let ?cx = "cx\<lparr>cx_phase := PMark\<rparr>"
  note w = gc_ok_wake [OF ok]
  have L: "lists_ok cx pre []" "sweep_colors cx pre []"
    using gc_okD(1,2) [OF ok(1)] ok(2) w(2) by (simp_all add: colors_ok_def)
  have "cx_boxes cx a = Some b \<Longrightarrow> gb_color b = White" for a b
    using sweep_colorsD(3) [OF L(2), of a b] L(1) by (auto simp: lists_ok_def)
  then have "\<not> marked ?cx p" for p by (cases p) (fastforce simp: marked_def)+
  then have "marking_from cx root ?cx" by (simp add: marking_from_def)
  then show "turn_ok root cx suf ?cx suf"
    using w(1) ok(2) same_boxes_keeps [of cx ?cx] by (auto simp: turn_ok_def tracked_def)
  have "card (nonblack ?cx) \<le> card (dom (cx_boxes cx))"
    using lists_ok_finite [OF L(1)] by (intro card_mono) (auto simp: nonblack_def)
  then show "work_left True ?cx suf < work_left hs cx suf"
    using ok(2) by (simp add: work_left_def turns_left_def cycle_bound_def mark_measure_def)
qed

lemma same_boxes_card: "same_boxes (cx_boxes cx) (cx_boxes cx') \<Longrightarrow>
    card (dom (cx_boxes cx')) = card (dom (cx_boxes cx))"
  using same_boxes_dom by metis

lemma work_left_mark:
  assumes "mark_measure cx' < mark_measure cx" "cx_phase cx = PMark" "cx_phase cx' = PMark"
    "same_boxes (cx_boxes cx) (cx_boxes cx')"
  shows "work_left hs cx' suf < work_left hs cx suf"
  using assms(1-3) same_boxes_card [OF assms(4)] by (simp add: work_left_def turns_left_def cycle_bound_def)

lemma turn_mark:
  assumes ok: "gc_ok cx root pre suf" "cx_phase cx = PMark" and m: "mark_one root cx = Some (cx', True)"
  shows "turn_ok root cx suf cx' suf" and "work_left hs cx' suf < work_left hs cx suf"
    and "cx_phase cx' = PMark"
proof -
  have s: "suf = []" by (rule gc_ok_mark_suf [OF ok])
  note ok' = ok [unfolded s]
  have "turn_ok root cx suf cx' suf \<and> work_left hs cx' suf < work_left hs cx suf \<and> cx_phase cx' = PMark"
  proof (cases "pop_gray cx")
    case (Some q)
    obtain a cx1 where q: "pop_gray cx = Some (a, cx1)" using Some by (cases q) auto
    obtain b where b: "gc_ok cx' root pre []" "cx_phase cx' = PMark" "cx_boxes cx a = Some b"
        "gb_color b = Gray" "advances cx cx' (gb_refs b)" "mark_measure cx' < mark_measure cx"
      using mark_one_pop [OF ok' q] m by auto
    have sb: "same_boxes (cx_boxes cx) (cx_boxes cx')"
      using advancesD(1) [OF b(5)] by (simp add: mark_frame_def)
    have "marking_from cx0 root cx'" if h: "marking_from cx0 root cx" for cx0
      by (rule marking_from_advance [OF h b(5)]) (rule marking_from_gray [OF h b(3,4)])
    then show ?thesis
      using b ok(2) s same_boxes_keeps [OF sb] work_left_mark [OF b(6) ok(2) b(2) sb]
      by (auto simp: turn_ok_def tracked_def)
  next
    case None
    then have r: "cx_root_needs_trace cx"
      using m by (auto simp: mark_one_def split: if_splits)
    obtain cx1 where c: "cx' = cx1\<lparr>cx_root_needs_trace := False\<rparr>" "gc_ok cx' root pre []"
        "cx_phase cx1 = PMark" "advances cx cx1 root" "mark_measure cx' < mark_measure cx"
      using mark_one_root [OF ok' None r] m by auto
    have sb: "same_boxes (cx_boxes cx) (cx_boxes cx')"
      using advancesD(1) [OF c(4)] by (simp add: mark_frame_def c(1))
    have "marking_from cx0 root cx'" if h: "marking_from cx0 root cx" for cx0
    proof -
      have "marking_from cx0 root cx1" by (rule marking_from_advance [OF h c(4)]) (rule gc_reach_root)
      then show ?thesis by (simp add: marking_from_def marked_def c(1))
    qed
    then show ?thesis
      using c ok(2) s same_boxes_keeps [OF sb] work_left_mark [OF c(5) ok(2) _ sb]
      by (auto simp: turn_ok_def tracked_def)
  qed
  then show "turn_ok root cx suf cx' suf" "work_left hs cx' suf < work_left hs cx suf"
    "cx_phase cx' = PMark" by blast+
qed

lemma mark_one_total:
  assumes ok: "gc_ok cx root pre suf" "cx_phase cx = PMark"
  shows "(\<exists>cx'. mark_one root cx = Some (cx', True))
    \<or> (mark_one root cx = Some (cx, False) \<and> \<not> gray_remaining cx)"
proof -
  note ok' = ok [unfolded gc_ok_mark_suf [OF ok]]
  show ?thesis
  proof (cases "pop_gray cx")
    case (Some q)
    obtain a cx1 where q: "pop_gray cx = Some (a, cx1)" using Some by (cases q) auto
    show ?thesis using mark_one_pop [OF ok' q] by blast
  next
    case None
    show ?thesis
    proof (cases "cx_root_needs_trace cx")
      case True
      then show ?thesis using mark_one_root [OF ok' None] by blast
    next
      case False
      then show ?thesis
        using mark_one_done [OF None False] pop_gray_None [of cx] None by (simp add: gray_remaining_def)
    qed
  qed
qed

lemma turn_enter:
  assumes ok: "gc_ok cx root pre suf" "cx_phase cx = PMark" and g: "\<not> gray_remaining cx"
  shows "turn_ok root cx suf (enter_sweep cx) pre"
    and "work_left hs (enter_sweep cx) pre < work_left hs cx suf"
proof -
  have s: "suf = []" by (rule gc_ok_mark_suf [OF ok])
  note ok' = ok [unfolded s]
  have g': "cx_gray cx = []" "cx_gray_again cx = []" "\<not> cx_root_needs_trace cx"
    using g by (simp_all add: gray_remaining_def)
  have k: "gc_keeps cx root (enter_sweep cx)" by (rule same_boxes_keeps) (simp add: enter_sweep_def)
  have ph: "cx_phase (enter_sweep cx) = PSweep" by (simp add: enter_sweep_def)
  show "turn_ok root cx suf (enter_sweep cx) pre"
    using gc_ok_enter_sweep [OF ok' g'] swept_from_enter [OF ok' g'] k ph ok(2)
    by (auto simp: turn_ok_def tracked_def)
  have "length pre = card (dom (cx_boxes cx))"
    using gc_okD(1) [OF ok'(1)] by (simp add: lists_ok_def distinct_card)
  then show "work_left hs (enter_sweep cx) pre < work_left hs cx suf"
    using ok(2) ph by (simp add: work_left_def turns_left_def cycle_bound_def) (simp add: enter_sweep_def)
qed

lemma turn_sweep:
  assumes ok: "gc_ok cx root pre (a # suf)" "cx_phase cx = PSweep"
  shows "\<exists>cx'. sweep_one cx = Some (cx', True) \<and> turn_ok root cx (a # suf) cx' suf \<and> cx_phase cx' = PSweep
    \<and> work_left hs cx' suf < work_left hs cx (a # suf)"
proof -
  obtain cx' pre' where c: "sweep_one cx = Some (cx', True)" "gc_ok cx' root pre' suf"
      "cx_phase cx' = PSweep" "sweep_keeps cx (a # suf) cx' suf"
    using sweep_one_step [OF ok] by blast
  have "card (dom (cx_boxes cx')) \<le> card (dom (cx_boxes cx))"
    using sweep_one_dom [OF c(1)] lists_ok_finite [OF gc_okD(1) [OF ok(1)]] by (rule card_mono [rotated])
  then have "work_left hs cx' suf < work_left hs cx (a # suf)"
    using ok(2) c(3) by (simp add: work_left_def turns_left_def cycle_bound_def)
  then show ?thesis
    using c ok(2) sweep_keeps_keeps [OF ok(1) c(4)] swept_from_keeps [OF _ c(4)]
    by (auto simp: turn_ok_def tracked_def)
qed

lemma turn_end:
  assumes ok: "gc_ok cx root pre []" "cx_phase cx = PSweep"
  shows "turn_ok root cx [] (end_sweep s cx) []"
    and "work_left False (end_sweep s cx) [] < work_left False cx []"
proof -
  note e = sweep_one_end [OF ok]
  have ph: "cx_phase (end_sweep s cx) = PSleep" "cx_boxes (end_sweep s cx) = cx_boxes cx"
    by (simp_all add: end_sweep_def)
  show "turn_ok root cx [] (end_sweep s cx) []"
    using e(2,3) ok(2) ph sweep_keeps_keeps [OF ok(1) e(3)] swept_from_keeps [OF _ e(3)]
    by (auto simp: turn_ok_def tracked_def)
  show "work_left False (end_sweep s cx) [] < work_left False cx []"
    using ok(2) ph by (simp add: work_left_def turns_left_def cycle_bound_def)
qed

text \<open>Where a run stops.\<close>

definition exit_state :: "gc_stop \<Rightarrow> gc_context \<Rightarrow> bool" where
  "exit_state stop cx \<longleftrightarrow> (case stop of
      FullyMarked \<Rightarrow> is_marked_arena cx \<or> cx_phase cx = PSweep
    | AtSweep \<Rightarrow> cx_phase cx = PSweep
    | FinishCycle \<Rightarrow> cx_phase cx = PSleep
    | Full \<Rightarrow> cx_phase cx = PSleep)"

lemma turn_ok_refl:
  "gc_ok cx root pre suf \<Longrightarrow> cx_phase cx \<noteq> PSleep \<Longrightarrow> turn_ok root cx suf cx suf"
  by (auto simp: turn_ok_def gc_keeps_def)

lemma gc_ok_not_drop: "gc_ok cx root pre suf \<Longrightarrow> cx_phase cx \<noteq> PDrop"
  by (auto simp: gc_ok_def colors_ok_def)

lemma collection_turn_total:
  assumes ok: "gc_ok cx root pre suf"
  shows "\<exists>cx' hs' e suf'. collection_turn root stop hs cx = Some (cx', hs', e)
    \<and> turn_ok root cx suf cx' suf' \<and> hs' = (hs \<or> cx_phase cx = PSleep)
    \<and> (e = Continue \<longrightarrow> work_left hs' cx' suf' < work_left hs cx suf
        \<and> (cx_phase cx' = PSleep \<longrightarrow> \<not> hs' \<and> stop = Full))
    \<and> (e = Exit \<longrightarrow> exit_state stop cx' \<and> (stop = Full \<longrightarrow> hs))"
proof -
  consider (sleep) "cx_phase cx = PSleep" | (mark) "cx_phase cx = PMark" | (sweep) "cx_phase cx = PSweep"
    using gc_ok_not_drop [OF ok] by (cases "cx_phase cx") auto
  then show ?thesis
  proof cases
    case sleep
    then show ?thesis using turn_sleep [OF ok sleep] by (simp add: collection_turn_def) blast
  next
    case mark
    from mark_one_total [OF ok mark] show ?thesis
    proof (elim disjE exE conjE)
      fix cx' assume m: "mark_one root cx = Some (cx', True)"
      show ?thesis
        using turn_mark [OF ok mark m] m mark by (simp add: collection_turn_def) blast
    next
      assume m: "mark_one root cx = Some (cx, False)" and g: "\<not> gray_remaining cx"
      show ?thesis
      proof (cases stop)
        case FullyMarked
        then show ?thesis
          using m g mark turn_ok_refl [OF ok] by (auto simp: collection_turn_def exit_state_def is_marked_arena_def)
      qed (use m mark turn_enter [OF ok mark g] in
          \<open>auto simp: collection_turn_def enter_sweep_def [symmetric], auto simp: enter_sweep_def\<close>)
    qed
  next
    case sweep
    show ?thesis
    proof (cases "stop_rank stop \<le> stop_rank AtSweep")
      case True
      then show ?thesis
        using sweep turn_ok_refl [OF ok]
        by (cases stop) (auto simp: collection_turn_def exit_state_def)
    next
      case False
      show ?thesis
      proof (cases suf)
        case Nil
        have e: "sweep_one cx = Some (cx\<lparr>cx_sweep_prev := None\<rparr>, False)"
          using sweep_one_end(1) ok sweep Nil by blast
        note t = turn_end [OF ok [unfolded Nil] sweep, of hs]
        have ph: "cx_phase (end_sweep hs cx) = PSleep" by (simp add: end_sweep_def)
        show ?thesis
          using False sweep e t ph Nil
          by (cases stop; cases hs)
            (auto simp: collection_turn_def Let_def exit_state_def simp flip: end_sweep_def)
      next
        case (Cons a suf')
        from turn_sweep [OF ok [unfolded Cons] sweep, of hs] obtain cx' where
          "sweep_one cx = Some (cx', True)" "turn_ok root cx (a # suf') cx' suf'" "cx_phase cx' = PSweep"
          "work_left hs cx' suf' < work_left hs cx (a # suf')" by blast
        then show ?thesis using False sweep Cons by (simp add: collection_turn_def) blast
      qed
    qed
  qed
qed

section \<open>Runs\<close>

lemma collection_loop_unfold:
  "n > 0 \<Longrightarrow> collection_turn root stop hs cx = Some (cx', hs', e) \<Longrightarrow>
   collection_loop n root until stop hs cx =
     (if e = Exit \<or> (until = PayDebt \<and> \<not> in_debt (cx_metrics cx')) then Some (Some cx')
      else collection_loop (n - 1) root until stop hs' cx')"
  by (cases n) simp_all

lemma collection_loop_total:
  assumes "gc_ok cx root pre suf" and "work_left hs cx suf < n"
  shows "\<exists>cx'. collection_loop n root until stop hs cx = Some (Some cx') \<and> gc_keeps cx root cx'
    \<and> gc_inv cx' root \<and> (until = StopCondition \<longrightarrow> exit_state stop cx')"
  using assms
proof (induction n arbitrary: cx pre suf hs)
  case (Suc n)
  obtain cx1 hs1 e suf1 where t: "collection_turn root stop hs cx = Some (cx1, hs1, e)"
      "turn_ok root cx suf cx1 suf1"
      "e = Continue \<longrightarrow> work_left hs1 cx1 suf1 < work_left hs cx suf"
      "e = Exit \<longrightarrow> exit_state stop cx1"
    using collection_turn_total [OF Suc.prems(1)] by blast
  note u = collection_loop_unfold [OF _ t(1), of "Suc n" until]
  obtain pre1 where ok1: "gc_keeps cx root cx1" "gc_ok cx1 root pre1 suf1"
    using t(2) by (auto simp: turn_ok_def)
  show ?case
  proof (cases "e = Exit \<or> (until = PayDebt \<and> \<not> in_debt (cx_metrics cx1))")
    case True
    then have "collection_loop (Suc n) root until stop hs cx = Some (Some cx1)" using u by simp
    then show ?thesis using True t(4) ok1 gc_inv_def by auto
  next
    case False
    then have "work_left hs1 cx1 suf1 < n" using t(3) Suc.prems(2) by (cases e) auto
    from Suc.IH [OF ok1(2) this] show ?thesis
      using u False gc_keeps_trans [OF ok1(1)] by auto
  qed
qed simp

text \<open>A run that begins asleep, or falls asleep and goes on, ends after a whole cycle: exactly what
  was reachable at the start is left alive, and what was only weakly reachable is left allocated.\<close>

definition exactly :: "(gc_ptr \<Rightarrow> bool) \<Rightarrow> gc_context \<Rightarrow> bool" where
  "exactly R cx \<longleftrightarrow> (\<forall>a. strong_ok cx [] a \<longleftrightarrow> R (Strong a))
     \<and> (\<forall>a. a \<in> dom (cx_boxes cx) \<longleftrightarrow> R (Strong a) \<or> R (Weakly a))"

lemma gc_keeps_reach_iff:
  assumes ok: "gc_ok cx root pre suf" and k: "gc_keeps cx root cx'"
  shows "gc_reach cx' root p = gc_reach cx root p"
proof
  assume "gc_reach cx' root p"
  then show "gc_reach cx root p"
  proof induction
    case (gc_reach_edge a b p)
    obtain b0 where "cx_boxes cx a = Some b0"
      using reach_ptr_ok [OF ok gc_reach_edge.IH] by (auto simp: ptr_ok_def strong_ok_def)
    moreover have "gb_refs b = gb_refs b0"
      using k gc_reach_edge.IH calculation gc_reach_edge(2) unfolding gc_keeps_def by fastforce
    ultimately show ?case using gc_reach_edge gc_reach.gc_reach_edge by metis
  qed (rule gc_reach.gc_reach_root)
qed (rule gc_keeps_reach [OF k])

lemma turn_tracked:
  assumes ok: "gc_ok cx root pre suf" and t: "turn_ok root cx suf cx' suf'"
    and h: "cx_phase cx \<noteq> PSleep \<Longrightarrow> \<exists>cx0. gc_reach cx0 root = R \<and> tracked cx0 root cx suf"
    and R: "gc_reach cx root = R"
  shows "\<exists>cx0. gc_reach cx0 root = R \<and> tracked cx0 root cx' suf'" and "gc_reach cx' root = R"
proof -
  show "\<exists>cx0. gc_reach cx0 root = R \<and> tracked cx0 root cx' suf'"
    using t h R unfolding turn_ok_def by blast
  show "gc_reach cx' root = R"
    using gc_keeps_reach_iff [OF ok] t R unfolding turn_ok_def by fastforce
qed

lemma collection_loop_exact:
  assumes "gc_ok cx root pre suf" and "work_left hs cx suf < n" and "gc_reach cx root = R"
    and "hs \<Longrightarrow> cx_phase cx \<noteq> PSleep \<and> (\<exists>cx0. gc_reach cx0 root = R \<and> tracked cx0 root cx suf)"
    and "stop = Full \<or> (stop = FinishCycle \<and> (hs \<or> cx_phase cx = PSleep))"
  shows "\<exists>cx'. collection_loop n root StopCondition stop hs cx = Some (Some cx') \<and> exactly R cx'"
  using assms
proof (induction n arbitrary: cx pre suf hs)
  case (Suc n)
  obtain cx1 hs1 e suf1 where t: "collection_turn root stop hs cx = Some (cx1, hs1, e)"
      "turn_ok root cx suf cx1 suf1" "hs1 = (hs \<or> cx_phase cx = PSleep)"
      "e = Continue \<longrightarrow> work_left hs1 cx1 suf1 < work_left hs cx suf
        \<and> (cx_phase cx1 = PSleep \<longrightarrow> \<not> hs1 \<and> stop = Full)"
      "e = Exit \<longrightarrow> exit_state stop cx1 \<and> (stop = Full \<longrightarrow> hs)"
    using collection_turn_total [OF Suc.prems(1)] by blast
  note u = collection_loop_unfold [OF _ t(1), of "Suc n" StopCondition]
  obtain pre1 where ok1: "gc_ok cx1 root pre1 suf1" using t(2) by (auto simp: turn_ok_def)
  show ?case
  proof (cases e)
    case Exit
    have hs: "hs" if "cx_phase cx \<noteq> PSleep" using t(5) Exit Suc.prems(5) that by auto
    have ph: "cx_phase cx1 = PSleep"
      using t(5) Exit Suc.prems(5) by (auto simp: exit_state_def)
    obtain cx0 where "gc_reach cx0 root = R" "tracked cx0 root cx1 suf1"
      using turn_tracked(1) [OF Suc.prems(1) t(2) _ Suc.prems(3)] hs Suc.prems(4) by blast
    moreover have "suf1 = []" using gc_okD(1) [OF ok1] ph by (simp add: lists_ok_def)
    ultimately have "exactly R cx1"
      using ph by (simp add: tracked_def swept_from_def exactly_def weak_ok_def dom_def)
    then show ?thesis using u Exit by simp
  next
    case Continue
    have "cx_phase cx1 \<noteq> PSleep \<and> (\<exists>cx0. gc_reach cx0 root = R \<and> tracked cx0 root cx1 suf1)" if "hs1"
    proof -
      have "cx_phase cx \<noteq> PSleep \<Longrightarrow> hs" using t(3) that by simp
      then show ?thesis
        using turn_tracked(1) [OF Suc.prems(1) t(2) _ Suc.prems(3)] Suc.prems(4) t(4) Continue that by blast
    qed
    moreover have "gc_reach cx1 root = R"
      using gc_keeps_reach_iff [OF Suc.prems(1)] t(2) Suc.prems(3) unfolding turn_ok_def by fastforce
    moreover have "stop = Full \<or> (stop = FinishCycle \<and> (hs1 \<or> cx_phase cx1 = PSleep))"
      using Suc.prems(5) t(3) by auto
    moreover have "work_left hs1 cx1 suf1 < n" using t(4) Continue Suc.prems(2) by simp
    ultimately have "\<exists>cx'. collection_loop n root StopCondition stop hs1 cx1 = Some (Some cx') \<and> exactly R cx'"
      using Suc.IH [OF ok1] by blast
    then show ?thesis using u Continue by simp
  qed
qed simp

section \<open>The fuel a run needs\<close>

definition run_bound :: "gc_context \<Rightarrow> nat" where
  "run_bound cx = 6 * card (dom (cx_boxes cx)) + 10"

lemma work_left_bound:
  assumes ok: "gc_ok cx root pre suf" shows "work_left hs cx suf < run_bound cx"
proof -
  note L = gc_okD(1) [OF ok]
  have "card (nonblack cx) \<le> card (dom (cx_boxes cx))"
    using lists_ok_finite [OF L] by (intro card_mono) (auto simp: nonblack_def)
  moreover have "card (dom (cx_boxes cx)) = length (pre @ suf)"
    using L unfolding lists_ok_def by (metis distinct_card)
  ultimately show ?thesis
    by (cases "cx_phase cx") (simp_all add: work_left_def turns_left_def run_bound_def cycle_bound_def mark_measure_def)
qed

lemma do_collection_total:
  assumes "gc_inv cx root" and "run_bound cx \<le> fuel"
  shows "\<exists>cx'. do_collection fuel root until stop cx = Some (Some cx') \<and> gc_keeps cx root cx'
    \<and> gc_inv cx' root \<and> (until = StopCondition \<longrightarrow> exit_state stop cx')"
proof -
  obtain pre suf where ok: "gc_ok cx root pre suf" using assms(1) by (auto simp: gc_inv_def)
  have w: "work_left False cx suf < fuel" using work_left_bound [OF ok, of False] assms(2) by simp
  show ?thesis
  proof (cases "until = PayDebt \<and> \<not> in_debt (cx_metrics cx)")
    case True
    then have "do_collection fuel root until stop cx = Some (Some cx)" by (simp add: do_collection_def)
    then show ?thesis using True assms(1) by (auto simp: gc_keeps_def)
  next
    case False
    then have "do_collection fuel root until stop cx = collection_loop fuel root until stop False cx"
      by (auto simp: do_collection_def)
    then show ?thesis using collection_loop_total [OF ok w] by simp
  qed
qed

lemma full_collection_exact:
  assumes inv: "gc_inv cx root" and f: "run_bound cx \<le> fuel"
    and s: "stop = Full \<or> (stop = FinishCycle \<and> cx_phase cx = PSleep)"
  shows "\<exists>cx'. do_collection fuel root StopCondition stop cx = Some (Some cx')
    \<and> exactly (gc_reach cx root) cx'"
proof -
  obtain pre suf where ok: "gc_ok cx root pre suf" using inv by (auto simp: gc_inv_def)
  have "work_left False cx suf < fuel" using work_left_bound [OF ok, of False] f by simp
  from collection_loop_exact [OF ok this refl, of stop] s
  show ?thesis by (auto simp: do_collection_def)
qed

end
