(* ===== verification/GcMutate.thy ===== *)
theory GcMutate
  imports GcRun
begin

text \<open>
  What the mutator does to the collector between two collections, each operation preserving the
  collector's invariant: write barriers and the writes they permit, allocation, the upgrade and
  the resurrection of weak pointers, and changes of the root.
\<close>

section \<open>Operations that only recolour\<close>

text \<open>Between two collections marked pointers stay marked and no box that may hold pointers
  becomes black, so what a barrier has established lasts until the next collection.\<close>

definition settled :: "gc_context \<Rightarrow> gc_context \<Rightarrow> bool" where
  "settled cx cx' \<longleftrightarrow> (\<forall>p. marked cx p \<longrightarrow> marked cx' p)
   \<and> (\<forall>a b. cx_boxes cx a = Some b \<longrightarrow> gb_needs_trace b \<longrightarrow> gb_color b \<noteq> Black \<longrightarrow>
        color_of cx' a \<noteq> Some Black)"

lemma settled_refl [simp]: "settled cx cx"
  by (simp add: settled_def color_of_def)

definition recolors :: "gc_context \<Rightarrow> gc_ptr list \<Rightarrow> addr list \<Rightarrow> addr list \<Rightarrow> gc_context \<Rightarrow> bool" where
  "recolors cx root pre suf cx' \<longleftrightarrow> gc_ok cx' root pre suf \<and> mark_frame cx cx' \<and> settled cx cx'
     \<and> cx_root_needs_trace cx' = cx_root_needs_trace cx \<and> (cx_phase cx \<noteq> PMark \<longrightarrow> cx' = cx)"

lemma recolors_refl: "gc_ok cx root pre suf \<Longrightarrow> recolors cx root pre suf cx"
  by (simp add: recolors_def)

lemma recolors_advance:
  assumes ok: "gc_ok cx root pre []" "cx_phase cx = PMark" and adv: "advances cx cx' ps"
    and mc: "mark_colors cx' {}"
    and nb: "\<And>a b. cx_boxes cx a = Some b \<Longrightarrow> gb_needs_trace b \<Longrightarrow> gb_color b \<noteq> Black \<Longrightarrow>
      color_of cx' a \<noteq> Some Black"
  shows "recolors cx root pre [] cx'"
  using gc_ok_advance(1) [OF ok adv mc] adv nb ok(2)
  by (simp add: recolors_def settled_def advances_def)

lemma mark_phase_colors:
  "gc_ok cx root pre suf \<Longrightarrow> cx_phase cx = PMark \<Longrightarrow> mark_colors cx {}"
  by (simp add: gc_ok_def colors_ok_def)

lemma trace_nonblack:
  assumes t: "trace a cx = Some cx'" and b: "cx_boxes cx x = Some b" "gb_needs_trace b" "gb_color b \<noteq> Black"
  shows "color_of cx' x \<noteq> Some Black"
  using assms
  by (auto simp: trace_def header_def color_of_def set_color_boxes split: bind_splits if_splits)

lemma trace_weak_nonblack:
  assumes t: "trace_weak a cx = Some cx'" and b: "cx_boxes cx x = Some b" "gb_color b \<noteq> Black"
  shows "color_of cx' x \<noteq> Some Black"
  using assms
  by (auto simp: trace_weak_def header_def color_of_def set_color_boxes split: bind_splits if_splits)

lemma trace_recolors:
  assumes ok: "gc_ok cx root pre []" "cx_phase cx = PMark" and a: "strong_ok cx [] a"
  shows "\<exists>cx'. trace a cx = Some cx' \<and> recolors cx root pre [] cx' \<and> marked cx' (Strong a)"
proof -
  obtain b where b: "cx_boxes cx a = Some b" "gb_live b" using a by (auto simp: strong_ok_def)
  obtain cx' where c: "trace a cx = Some cx'" "mark_colors cx' {}" "advances cx cx' [Strong a]"
      "marked cx' (Strong a)"
    using trace_marks [OF mark_phase_colors [OF ok] gc_okD(4) [OF ok(1)] b] by blast
  have "recolors cx root pre [] cx'"
    by (rule recolors_advance [OF ok c(3,2)]) (rule trace_nonblack [OF c(1)])
  then show ?thesis using c(1,4) by blast
qed

lemma trace_weak_recolors:
  assumes ok: "gc_ok cx root pre []" "cx_phase cx = PMark" and a: "weak_ok cx [] a"
  shows "\<exists>cx'. trace_weak a cx = Some cx' \<and> recolors cx root pre [] cx' \<and> marked cx' (Weakly a)"
proof -
  obtain b where b: "cx_boxes cx a = Some b" using a by (auto simp: weak_ok_def)
  obtain cx' where c: "trace_weak a cx = Some cx'" "mark_colors cx' {}" "advances cx cx' [Weakly a]"
      "marked cx' (Weakly a)"
    using trace_weak_marks [OF mark_phase_colors [OF ok] b] by blast
  have "recolors cx root pre [] cx'"
    by (rule recolors_advance [OF ok c(3,2)]) (rule trace_weak_nonblack [OF c(1)])
  then show ?thesis using c(1,4) by blast
qed

text \<open>Resurrection turns a white box gray whether or not it needs tracing.\<close>

lemma resurrect_recolors:
  assumes ok: "gc_ok cx root pre []" "cx_phase cx = PMark" and a: "strong_ok cx [] a"
  shows "\<exists>cx'. resurrect a cx = Some cx' \<and> recolors cx root pre [] cx' \<and> marked cx' (Strong a)"
proof -
  obtain b where b: "cx_boxes cx a = Some b" "gb_live b" using a by (auto simp: strong_ok_def)
  note mc = mark_phase_colors [OF ok]
  show ?thesis
  proof (cases "is_white (gb_color b)")
    case False
    then have c: "gb_color b = Gray \<or> gb_color b = Black" by (cases "gb_color b") (simp_all add: is_white_def)
    then have "resurrect a cx = Some cx" using b ok(2) by (auto simp: resurrect_def header_def)
    moreover have "marked cx (Strong a)" using b c by (simp add: marked_def)
    ultimately show ?thesis using recolors_refl [OF ok(1)] by blast
  next
    case w: True
    define cx1 where "cx1 = push_gray a (set_color a Gray cx)"
    define cx' where "cx' = (if gb_color b = White then upd_metrics (mark_gc_marked (gb_size b)) cx1 else cx1)"
    have t: "resurrect a cx = Some cx'"
      using w b ok(2) by (auto simp: resurrect_def header_def cx'_def cx1_def is_white_def)
    have f: "mark_frame cx cx'" by (simp add: mark_frame_def cx'_def cx1_def same_boxes_set_color)
    have bx: "cx_boxes cx' = cx_boxes (set_color a Gray cx)" by (simp add: cx'_def cx1_def)
    have rt: "cx_root_needs_trace cx' = cx_root_needs_trace cx"
      "cx_gray cx' = a # cx_gray cx" "cx_gray_again cx' = cx_gray_again cx"
      by (simp_all add: cx'_def cx1_def)
    have adv: "advances cx cx' [Strong a]"
      by (rule advances_recolor [OF b(1) w _ bx f rt(1)]) auto
    have mc': "mark_colors cx' {}"
      by (rule mark_colors_recolor [OF mc b(1) w _ _ _ adv bx]) (auto simp: b(2) rt)
    have "recolors cx root pre [] cx'"
      by (rule recolors_advance [OF ok adv mc']) (auto simp: color_of_def bx set_color_boxes)
    moreover have "marked cx' (Strong a)" using b(1) by (simp add: marked_def bx set_color_boxes)
    ultimately show ?thesis using t by blast
  qed
qed

text \<open>Making a black box gray again.\<close>

lemma make_gray_again_recolors:
  assumes ok: "gc_ok cx root pre []" "cx_phase cx = PMark" and m: "make_gray_again a cx = Some cx'"
  shows "recolors cx root pre [] cx'" and "color_of cx' a = Some Gray"
proof -
  obtain b m where b: "cx_boxes cx a = Some b" "gb_color b = Black"
      "mark_gc_untraced (gb_size b) (cx_metrics cx) = Some m"
      "cx' = (set_color a Gray cx)\<lparr>cx_gray_again := a # cx_gray_again cx, cx_metrics := m\<rparr>"
    using m by (auto simp: make_gray_again_def header_def split: bind_splits if_splits)
  note mc = mark_phase_colors [OF ok]
  have bx: "cx_boxes cx' = cx_boxes (set_color a Gray cx)" by (simp add: b(4))
  have col: "color_of cx' x = (if x = a then Some Gray else color_of cx x)" for x
    using color_of_set_color [OF b(1)] by (simp add: color_of_def bx)
  have ca: "color_of cx a = Some Black" by (simp add: color_of_Some [OF b(1)] b(2))
  show "color_of cx' a = Some Gray" by (simp add: col)
  have mk: "marked cx' r = marked cx r" for r
    using ca by (cases r) (auto simp: marked_color col)
  have f: "mark_frame cx cx'"
    using same_boxes_set_color mark_gc_untraced_totals [OF b(3)] by (simp add: mark_frame_def b(4))
  have na: "a \<notin> set (cx_gray cx @ cx_gray_again cx)"
    using mark_colorsD(2) [OF mc, of a] ca by simp
  have mc': "mark_colors cx' {}"
  proof (rule mark_colorsI)
    show "distinct (cx_gray cx' @ cx_gray_again cx')"
      using mark_colorsD(1) [OF mc] na by (simp add: b(4))
    show "x \<in> set (cx_gray cx' @ cx_gray_again cx') \<longleftrightarrow> color_of cx' x = Some Gray" for x
      using mark_colorsD(2) [OF mc, of x] na by (auto simp: b(4) col [unfolded b(4)])
    show "gb_live y" if "cx_boxes cx' x = Some y" "\<not> is_white (gb_color y)" for x y
      using that mark_colorsD(3) [OF mc, of x] b(1,2)
      by (auto simp: bx set_color_boxes is_white_def split: if_splits)
    show "marked cx' r" if "cx_boxes cx' x = Some y" "gb_color y = Black" "r \<in> set (gb_refs y)" for x y r
      using that mark_colorsD(4) [OF mc, of x y r] by (auto simp: mk bx set_color_boxes split: if_splits)
  qed
  have ph: "cx_phase cx' = PMark" using f ok(2) by (simp add: mark_frame_def)
  have "root_ok cx' [] root"
    using gc_okD(5) [OF ok(1)] mark_frame_ptr_ok [OF f] ok(2) mk by (simp add: root_ok_def b(4))
  then have "gc_ok cx' root pre []"
    using mark_frame_lists [OF f gc_okD(1) [OF ok(1)]]
      mark_frame_closed [OF f gc_okD(3) [OF ok(1)] gc_okD(4) [OF ok(1)]] mc' ph
    by (simp add: gc_ok_def colors_ok_def)
  moreover have "settled cx cx'"
    using mk by (auto simp: settled_def color_of_def bx set_color_boxes)
  ultimately show "recolors cx root pre [] cx'" using f ok(2) by (simp add: recolors_def b(4))
qed

section \<open>Write barriers\<close>

text \<open>A barrier call grants a permission: which parent (any, if \<open>None\<close>) may adopt which child.\<close>

type_synonym permit = "addr option \<times> gc_ptr option"

definition permit_ok :: "gc_context \<Rightarrow> permit \<Rightarrow> bool" where
  "permit_ok cx = (\<lambda>(po, co). cx_phase cx = PMark \<longrightarrow>
     (\<exists>p b. po = Some p \<and> cx_boxes cx p = Some b \<and> (gb_needs_trace b \<longrightarrow> gb_color b \<noteq> Black))
   \<or> (\<exists>c. co = Some c \<and> marked cx c))"

lemma permit_ok_mono:
  assumes q: "permit_ok cx q" and ph: "cx_phase cx' = cx_phase cx"
    and m: "\<And>c. marked cx c \<Longrightarrow> marked cx' c"
    and b: "\<And>x b. cx_boxes cx x = Some b \<Longrightarrow> gb_needs_trace b \<longrightarrow> gb_color b \<noteq> Black \<Longrightarrow>
      \<exists>b'. cx_boxes cx' x = Some b' \<and> (gb_needs_trace b' \<longrightarrow> gb_color b' \<noteq> Black)"
  shows "permit_ok cx' q"
proof -
  obtain po co where [simp]: "q = (po, co)" by (cases q)
  show ?thesis
  proof (cases "cx_phase cx = PMark \<and> \<not> (\<exists>c. co = Some c \<and> marked cx' c)")
    case True
    then obtain p b0 where "po = Some p" "cx_boxes cx p = Some b0" "gb_needs_trace b0 \<longrightarrow> gb_color b0 \<noteq> Black"
      using q m by (auto simp: permit_ok_def)
    then show ?thesis using b [of p b0] by (simp add: permit_ok_def)
  qed (use ph in \<open>auto simp: permit_ok_def\<close>)
qed

lemma recolors_permit:
  assumes r: "recolors cx root pre suf cx'" and p: "permit_ok cx q" shows "permit_ok cx' q"
proof (rule permit_ok_mono [OF p])
  show "cx_phase cx' = cx_phase cx" using r by (simp add: recolors_def mark_frame_def)
  have s: "settled cx cx'" "same_boxes (cx_boxes cx) (cx_boxes cx')"
    using r by (simp_all add: recolors_def mark_frame_def)
  show "marked cx c \<Longrightarrow> marked cx' c" for c using s(1) by (simp add: settled_def)
  show "\<exists>b'. cx_boxes cx' x = Some b' \<and> (gb_needs_trace b' \<longrightarrow> gb_color b' \<noteq> Black)"
    if "cx_boxes cx x = Some b" "gb_needs_trace b \<longrightarrow> gb_color b \<noteq> Black" for x b
    using that same_boxes_live [OF s(2) that(1)] s(1) by (fastforce simp: settled_def color_of_def)
qed

text \<open>What a barrier call that succeeds has done.\<close>

definition grants :: "gc_context \<Rightarrow> gc_ptr list \<Rightarrow> addr list \<Rightarrow> addr list \<Rightarrow> permit \<Rightarrow> gc_context \<Rightarrow> bool" where
  "grants cx root pre suf q cx' \<longleftrightarrow> recolors cx root pre suf cx' \<and> permit_ok cx' q"

lemma no_barrier_grants:
  "gc_ok cx root pre suf \<Longrightarrow> cx_phase cx \<noteq> PMark \<Longrightarrow> grants cx root pre suf q cx"
  by (simp add: grants_def recolors_refl permit_ok_def)

lemma backward_barrier_grants:
  assumes ok: "gc_ok cx root pre suf" and b: "backward_barrier p co cx = Some cx'"
  shows "grants cx root pre suf (Some p, map_option Strong co) cx'"
proof (cases "cx_phase cx = PMark")
  case True
  have s: "suf = []" by (rule gc_ok_mark_suf [OF ok True])
  obtain y where y: "cx_boxes cx p = Some y"
    using b True by (auto simp: backward_barrier_def header_def split: bind_splits)
  show ?thesis
  proof (cases "gb_color y = Black")
    case False
    then have "cx' = cx" using b True y by (simp add: backward_barrier_def header_def)
    then show ?thesis using False y recolors_refl [OF ok] by (auto simp: grants_def permit_ok_def)
  next
    case black: True
    have "make_gray_again p cx = Some cx'
      \<or> (\<exists>c z. co = Some c \<and> cx_boxes cx c = Some z \<and> \<not> is_white (gb_color z) \<and> cx' = cx)"
    proof (cases co)
      case None
      then show ?thesis using b True y black by (simp add: backward_barrier_def header_def)
    next
      case (Some c)
      then obtain z where "cx_boxes cx c = Some z"
        using b True y black by (cases "cx_boxes cx c") (simp_all add: backward_barrier_def header_def)
      then show ?thesis
        using Some b True y black
        by (cases "is_white (gb_color z)") (simp_all add: backward_barrier_def header_def)
    qed
    then consider (1) "make_gray_again p cx = Some cx'"
      | (2) c z where "co = Some c" "cx_boxes cx c = Some z" "\<not> is_white (gb_color z)" "cx' = cx"
      by blast
    then show ?thesis
    proof cases
      case 1
      note g = make_gray_again_recolors [OF ok [unfolded s] True 1]
      have "permit_ok cx' (Some p, map_option Strong co)"
        using g(2) by (auto simp: permit_ok_def color_of_def)
      then show ?thesis using g(1) s by (simp add: grants_def)
    next
      case 2
      then have "marked cx (Strong c)" by (cases "gb_color z") (auto simp: is_white_def marked_def)
      then show ?thesis using 2 recolors_refl [OF ok] by (auto simp: grants_def permit_ok_def)
    qed
  qed
qed (use ok b no_barrier_grants in \<open>auto simp: backward_barrier_def\<close>)

lemma backward_barrier_weak_grants:
  assumes ok: "gc_ok cx root pre suf" and b: "backward_barrier_weak p c cx = Some cx'"
  shows "grants cx root pre suf (Some p, Some (Weakly c)) cx'"
proof (cases "cx_phase cx = PMark")
  case True
  have s: "suf = []" by (rule gc_ok_mark_suf [OF ok True])
  obtain y where y: "cx_boxes cx p = Some y"
    using b True by (auto simp: backward_barrier_weak_def header_def split: bind_splits)
  have "(gb_color y \<noteq> Black \<and> cx' = cx) \<or> make_gray_again p cx = Some cx'
    \<or> (\<exists>z. cx_boxes cx c = Some z \<and> gb_color z \<noteq> White \<and> cx' = cx)"
    using b True y
    by (cases "gb_color y = Black"; cases "cx_boxes cx c")
      (simp_all add: backward_barrier_weak_def header_def split: if_split_asm)
  then consider (1) "gb_color y \<noteq> Black" "cx' = cx" | (2) "make_gray_again p cx = Some cx'"
    | (3) z where "cx_boxes cx c = Some z" "gb_color z \<noteq> White" "cx' = cx"
    by blast
  then show ?thesis
  proof cases
    case 2
    note g = make_gray_again_recolors [OF ok [unfolded s] True 2]
    have "permit_ok cx' (Some p, Some (Weakly c))"
      using g(2) by (auto simp: permit_ok_def color_of_def)
    then show ?thesis using g(1) s by (simp add: grants_def)
  qed (use y recolors_refl [OF ok] in \<open>auto simp: grants_def permit_ok_def marked_def\<close>)
qed (use ok b no_barrier_grants in \<open>auto simp: backward_barrier_weak_def\<close>)

lemma forward_barrier_grants:
  assumes ok: "gc_ok cx root pre suf" and c: "strong_ok cx suf c" and b: "forward_barrier po c cx = Some cx'"
  shows "grants cx root pre suf (po, Some (Strong c)) cx'"
proof (cases "cx_phase cx = PMark")
  case True
  have s: "suf = []" by (rule gc_ok_mark_suf [OF ok True])
  obtain k where k0: "parent_black po cx = Some k"
    using b True by (cases "parent_black po cx") (simp_all add: forward_barrier_def)
  have k: "k \<longrightarrow> trace c cx = Some cx'" "\<not> k \<longrightarrow> cx' = cx"
    using b True k0 by (cases k; simp add: forward_barrier_def)+
  show ?thesis
  proof (cases k)
    case True
    obtain cx1 where "trace c cx = Some cx1" "recolors cx root pre [] cx1" "marked cx1 (Strong c)"
      using trace_recolors [OF ok [unfolded s] \<open>cx_phase cx = PMark\<close> c [unfolded s]] by blast
    then show ?thesis using k True s by (auto simp: grants_def permit_ok_def)
  next
    case False
    then obtain p y where "po = Some p" "cx_boxes cx p = Some y" "gb_color y \<noteq> Black"
      using k0 by (auto simp: parent_black_def header_def split: option.splits bind_splits)
    then show ?thesis using k False recolors_refl [OF ok] by (auto simp: grants_def permit_ok_def)
  qed
qed (use ok b no_barrier_grants in \<open>auto simp: forward_barrier_def\<close>)

lemma forward_barrier_weak_grants:
  assumes ok: "gc_ok cx root pre suf" and c: "weak_ok cx suf c" and b: "forward_barrier_weak po c cx = Some cx'"
  shows "grants cx root pre suf (po, Some (Weakly c)) cx'"
proof (cases "cx_phase cx = PMark")
  case True
  have s: "suf = []" by (rule gc_ok_mark_suf [OF ok True])
  obtain k where k0: "parent_black po cx = Some k"
    using b True by (cases "parent_black po cx") (simp_all add: forward_barrier_weak_def)
  have k: "k \<longrightarrow> trace_weak c cx = Some cx'" "\<not> k \<longrightarrow> cx' = cx"
    using b True k0 by (cases k; simp add: forward_barrier_weak_def)+
  show ?thesis
  proof (cases k)
    case True
    obtain cx1 where "trace_weak c cx = Some cx1" "recolors cx root pre [] cx1" "marked cx1 (Weakly c)"
      using trace_weak_recolors [OF ok [unfolded s] \<open>cx_phase cx = PMark\<close> c [unfolded s]] by blast
    then show ?thesis using k True s by (auto simp: grants_def permit_ok_def)
  next
    case False
    then obtain p y where "po = Some p" "cx_boxes cx p = Some y" "gb_color y \<noteq> Black"
      using k0 by (auto simp: parent_black_def header_def split: option.splits bind_splits)
    then show ?thesis using k False recolors_refl [OF ok] by (auto simp: grants_def permit_ok_def)
  qed
qed (use ok b no_barrier_grants in \<open>auto simp: forward_barrier_weak_def\<close>)

section \<open>Writes\<close>

definition write_refs :: "addr \<Rightarrow> gc_ptr list \<Rightarrow> gc_context \<Rightarrow> gc_context" where
  "write_refs p refs = upd_box p (\<lambda>b. b\<lparr>gb_refs := refs\<rparr>)"

text \<open>Which pointers a box may be given: those it has, and held ones some permission covers.\<close>

definition may_adopt :: "permit list \<Rightarrow> addr \<Rightarrow> gc_ptr \<Rightarrow> bool" where
  "may_adopt permits p c \<longleftrightarrow> (\<exists>(po, co) \<in> set permits. (po = None \<or> po = Some p) \<and> (co = None \<or> co = Some c))"

lemma may_adopt_marked:
  assumes ad: "may_adopt permits p c" and pm: "\<forall>q\<in>set permits. permit_ok cx q" and ph: "cx_phase cx = PMark"
    and b: "cx_boxes cx p = Some b" "gb_color b = Black" "gb_needs_trace b"
  shows "marked cx c"
proof -
  obtain po co where q: "(po, co) \<in> set permits" "po = None \<or> po = Some p" "co = None \<or> co = Some c"
    using ad by (auto simp: may_adopt_def)
  have "permit_ok cx (po, co)" using pm q(1) by blast
  then show ?thesis using q(2,3) ph b by (auto simp: permit_ok_def)
qed

lemma write_refs_view:
  "ptr_ok (write_refs p refs cx) suf q = ptr_ok cx suf q"
  "marked (write_refs p refs cx) q = marked cx q"
  "color_of (write_refs p refs cx) a = color_of cx a"
  "strong_ok (write_refs p refs cx) suf a = strong_ok cx suf a"
  by (cases "cx_boxes cx p"; auto simp: write_refs_def ptr_ok_def strong_ok_def weak_ok_def marked_def
      color_of_def split: gc_ptr.split)+

lemma write_refs_boxes:
  "cx_boxes (write_refs p refs cx) x = Some b' \<longleftrightarrow>
   (if x = p then \<exists>b. cx_boxes cx p = Some b \<and> b' = b\<lparr>gb_refs := refs\<rparr> else cx_boxes cx x = Some b')"
  by (auto simp: write_refs_def)

lemma write_refs_fields [simp]:
  "cx_phase (write_refs p refs cx) = cx_phase cx" "cx_all (write_refs p refs cx) = cx_all cx"
  "cx_sweep (write_refs p refs cx) = cx_sweep cx" "cx_sweep_prev (write_refs p refs cx) = cx_sweep_prev cx"
  "cx_gray (write_refs p refs cx) = cx_gray cx" "cx_gray_again (write_refs p refs cx) = cx_gray_again cx"
  "cx_root_needs_trace (write_refs p refs cx) = cx_root_needs_trace cx"
  "cx_metrics (write_refs p refs cx) = cx_metrics cx"
  by (simp_all add: write_refs_def)

lemma write_refs_ok:
  assumes ok: "gc_ok cx root pre suf" and p: "strong_ok cx suf p" "cx_boxes cx p = Some b"
    and leaf: "\<not> gb_needs_trace b \<longrightarrow> refs = []"
    and c: "\<And>c. c \<in> set refs \<Longrightarrow> c \<in> set (gb_refs b) \<or> (ptr_ok cx suf c \<and> may_adopt permits p c)"
    and pm: "\<forall>q\<in>set permits. permit_ok cx q"
  shows "gc_ok (write_refs p refs cx) root pre suf"
proof -
  let ?cx = "write_refs p refs cx"
  note L = gc_okD(1) [OF ok]
  have "map_option gb_next (cx_boxes ?cx x) = map_option gb_next (cx_boxes cx x)" for x
    using p(2) by (simp add: write_refs_def)
  moreover have "map_option gb_size (cx_boxes ?cx x) = map_option gb_size (cx_boxes cx x)" for x
    using p(2) by (simp add: write_refs_def)
  ultimately have "chain (cx_boxes ?cx) (cx_all cx) (pre @ suf)"
    "box_bytes (cx_boxes ?cx) (pre @ suf) = box_bytes (cx_boxes cx) (pre @ suf)"
    using L chain_cong [of "pre @ suf" "cx_boxes ?cx" "cx_boxes cx"]
      box_bytes_cong [of "pre @ suf" "cx_boxes ?cx" "cx_boxes cx"] unfolding lists_ok_def by blast+
  moreover have "dom (cx_boxes ?cx) = dom (cx_boxes cx)" using p(2) by (auto simp: write_refs_def)
  ultimately have l: "lists_ok ?cx pre suf" using L by (simp add: lists_ok_def)
  have pc: "ptr_ok cx suf q" if "q \<in> set refs" for q
    using c [OF that] gc_okD(3) [OF ok] p by (auto simp: edges_closed_def)
  have e: "edges_closed ?cx suf"
    using gc_okD(3) [OF ok] pc
    by (auto simp: edges_closed_def write_refs_boxes write_refs_view split: if_splits)
  have lv: "leaves_ok ?cx"
    using gc_okD(4) [OF ok] leaf p(2) by (auto simp: leaves_ok_def write_refs_boxes split: if_splits)
  have r: "root_ok ?cx suf root"
    using gc_okD(5) [OF ok] by (simp add: root_ok_def write_refs_view)
  have "colors_ok ?cx pre suf"
  proof (cases "cx_phase cx = PMark")
    case True
    note mc = mark_phase_colors [OF ok True]
    have "marked cx q" if "gb_color b = Black" "q \<in> set refs" for q
    proof (cases "q \<in> set (gb_refs b)")
      case True
      then show ?thesis using mark_colorsD(4) [OF mc p(2) that(1)] by simp
    next
      case False
      then have "may_adopt permits p q" "gb_needs_trace b" using c [OF that(2)] leaf that(2) by auto
      then show ?thesis using may_adopt_marked [OF _ pm True p(2) that(1)] by blast
    qed
    then have "mark_colors ?cx {}"
      using mark_colorsD [OF mc] p(2)
      by (intro mark_colorsI) (auto simp: write_refs_boxes write_refs_view split: if_splits)
    then show ?thesis using True by (simp add: colors_ok_def)
  next
    case False
    have "sweep_colors cx pre suf \<Longrightarrow> sweep_colors ?cx pre suf"
      using p(2) by (auto simp: sweep_colors_def write_refs_boxes split: if_splits)
    then show ?thesis
      using gc_okD(2) [OF ok] False by (cases "cx_phase cx") (auto simp: colors_ok_def)
  qed
  then show ?thesis using l e lv r by (simp add: gc_ok_def)
qed

lemma write_refs_permit: "permit_ok cx q \<Longrightarrow> permit_ok (write_refs p refs cx) q"
proof (erule permit_ok_mono)
  show "\<exists>b'. cx_boxes (write_refs p refs cx) x = Some b' \<and> (gb_needs_trace b' \<longrightarrow> gb_color b' \<noteq> Black)"
    if "cx_boxes cx x = Some b" "gb_needs_trace b \<longrightarrow> gb_color b \<noteq> Black" for x b
    using that by (cases "x = p") (auto simp: write_refs_def)
qed (simp_all add: write_refs_view)

section \<open>Allocation\<close>

lemma allocate_ok:
  assumes ok: "gc_ok cx root pre suf" and al: "allocate a sz nt refs cx = Some cx'"
    and refs: "\<forall>c\<in>set refs. ptr_ok cx suf c" "\<not> nt \<longrightarrow> refs = []"
  shows "gc_ok cx' root (a # pre) suf" and "ptr_ok cx' suf (Strong a)"
    and "ptr_ok cx suf q \<Longrightarrow> ptr_ok cx' suf q" and "permit_ok cx m \<Longrightarrow> permit_ok cx' m"
    and "cx_phase cx' = cx_phase cx" and "cx_root_needs_trace cx' = cx_root_needs_trace cx"
proof -
  let ?b = "\<lparr>gb_color = White, gb_next = cx_all cx, gb_needs_trace = nt, gb_live = True, gb_size = sz, gb_refs = refs\<rparr>"
  have fr: "cx_boxes cx a = None" using al by (auto simp: allocate_def split: if_splits)
  have bx: "cx_boxes cx' = (cx_boxes cx)(a \<mapsto> ?b)"
    and fs: "cx_phase cx' = cx_phase cx" "cx_all cx' = Some a" "cx_sweep cx' = cx_sweep cx"
      "cx_sweep_prev cx' = (if cx_phase cx = PSweep \<and> cx_sweep_prev cx = None then Some a else cx_sweep_prev cx)"
      "cx_gray cx' = cx_gray cx" "cx_gray_again cx' = cx_gray_again cx"
      "cx_root_needs_trace cx' = cx_root_needs_trace cx"
      "cx_metrics cx' = mark_gc_allocated sz (cx_metrics cx)"
    using al fr
    by (cases "cx_phase cx = PSweep \<and> cx_sweep_prev cx = None"; auto simp: allocate_def Let_def)+
  then show "cx_phase cx' = cx_phase cx" "cx_root_needs_trace cx' = cx_root_needs_trace cx" by simp_all
  note L = gc_okD(1) [OF ok]
  have na: "a \<notin> set (pre @ suf)" using L fr unfolding lists_ok_def by blast
  have st: "strong_ok cx' suf x \<longleftrightarrow> x = a \<or> strong_ok cx suf x"
    "weak_ok cx' suf x \<longleftrightarrow> x = a \<or> weak_ok cx suf x" for x
    using na fr by (auto simp: strong_ok_def weak_ok_def bx)
  show "ptr_ok cx' suf (Strong a)" using st by (simp add: ptr_ok_def)
  show po: "ptr_ok cx suf q \<Longrightarrow> ptr_ok cx' suf q" for q
    using st by (auto simp: ptr_ok_def split: gc_ptr.splits)
  have mk: "marked cx' q = marked cx q" for q
    using fr by (auto simp: marked_def bx split: gc_ptr.split)
  have neq: "cx_boxes cx p = Some b \<Longrightarrow> p \<noteq> a" for p b using fr by auto
  show "permit_ok cx m \<Longrightarrow> permit_ok cx' m"
  proof (erule permit_ok_mono)
    show "\<exists>b'. cx_boxes cx' x = Some b' \<and> (gb_needs_trace b' \<longrightarrow> gb_color b' \<noteq> Black)"
      if "cx_boxes cx x = Some b" "gb_needs_trace b \<longrightarrow> gb_color b \<noteq> Black" for x b
      using that neq [OF that(1)] by (simp add: bx)
  qed (simp_all add: fs mk)
  have "chain (cx_boxes cx) (cx_all cx) (pre @ suf)" using L by (simp add: lists_ok_def)
  then have "chain (cx_boxes cx') (cx_all cx) (pre @ suf)"
    by (rule chain_cong [rotated]) (use na in \<open>auto simp: bx\<close>)
  moreover have "box_bytes (cx_boxes cx') (pre @ suf) = box_bytes (cx_boxes cx) (pre @ suf)"
    using na by (intro box_bytes_cong) (auto simp: bx)
  moreover have "box_bytes (cx_boxes cx') ((a # pre) @ suf) = box_bytes (cx_boxes cx') (pre @ suf) + sz"
    by (simp add: box_bytes_def bx)
  moreover have "totals (cx_metrics cx) = (length (pre @ suf), box_bytes (cx_boxes cx) (pre @ suf))"
    using L by (simp add: lists_ok_def)
  then have "totals (cx_metrics cx') = (Suc (length (pre @ suf)), box_bytes (cx_boxes cx) (pre @ suf) + sz)"
    by (simp add: fs) (simp add: totals_def)
  ultimately have l: "lists_ok cx' (a # pre) suf"
    using L na by (auto simp: lists_ok_def fs bx last_opt_def split: if_splits)
  have e: "edges_closed cx' suf"
    using gc_okD(3) [OF ok] refs(1) po st neq
    by (auto simp: edges_closed_def bx split: if_splits)
  have lv: "leaves_ok cx'" using gc_okD(4) [OF ok] refs(2) by (auto simp: leaves_ok_def bx)
  have r: "root_ok cx' suf root" using gc_okD(5) [OF ok] po mk by (auto simp: root_ok_def fs)
  have "colors_ok cx' (a # pre) suf"
  proof (cases "cx_phase cx = PMark")
    case True
    note mc = mark_phase_colors [OF ok True]
    have col: "color_of cx' x = (if x = a then Some White else color_of cx x)" for x
      by (simp add: color_of_def bx)
    have "a \<notin> set (cx_gray cx @ cx_gray_again cx)"
      using mark_colorsD(2) [OF mc, of a] fr by (simp add: color_of_def)
    then have "mark_colors cx' {}"
      using mark_colorsD [OF mc]
      by (intro mark_colorsI) (auto simp: fs col mk bx is_white_def split: if_splits)
    then show ?thesis using True fs by (simp add: colors_ok_def)
  next
    case False
    have "sweep_colors cx pre suf \<Longrightarrow> sweep_colors cx' (a # pre) suf"
      using na by (auto simp: sweep_colors_def fs bx split: if_splits)
    then show ?thesis
      using gc_okD(2) [OF ok] False by (cases "cx_phase cx") (auto simp: colors_ok_def fs)
  qed
  then show "gc_ok cx' root (a # pre) suf" using l e lv r by (simp add: gc_ok_def)
qed

section \<open>Weak pointers\<close>

lemma upgrade_strong:
  assumes ok: "gc_ok cx root pre suf" and w: "weak_ok cx suf a" and u: "upgrade a cx = Some True"
  shows "strong_ok cx suf a"
proof -
  obtain b where b: "cx_boxes cx a = Some b" "gb_live b"
      "\<not> (cx_phase cx = PSweep \<and> gb_color b = WhiteWeak)"
    using u by (auto simp: upgrade_def header_def split: bind_splits if_splits)
  have "gb_color b = Black" if s: "a \<in> set suf"
  proof -
    have ph: "cx_phase cx = PSweep" using gc_okD(1) [OF ok] s by (auto simp: lists_ok_def split: if_splits)
    then have "sweep_colors cx pre suf" using gc_okD(2) [OF ok] by (simp add: colors_ok_def)
    then have "gb_color b \<noteq> Gray" using sweep_colorsD(4) s b(1) by blast
    moreover have "gb_color b \<noteq> White" using w b(1) s by (simp add: weak_ok_def)
    ultimately show ?thesis using b(3) ph by (cases "gb_color b") auto
  qed
  then show ?thesis using b by (simp add: strong_ok_def)
qed

lemma upgrade_total: "weak_ok cx suf a \<Longrightarrow> upgrade a cx \<noteq> None"
  by (auto simp: weak_ok_def upgrade_def header_def)

section \<open>The root\<close>

lemma root_barrier_ok:
  assumes "gc_ok cx root pre suf"
  shows "gc_ok (root_barrier cx) root pre suf" and "ptr_ok (root_barrier cx) suf q = ptr_ok cx suf q"
    and "permit_ok (root_barrier cx) m = permit_ok cx m"
    and "cx_phase (root_barrier cx) = cx_phase cx"
    and "cx_phase cx = PMark \<Longrightarrow> cx_root_needs_trace (root_barrier cx)"
proof -
  have e: "ptr_ok (cx\<lparr>cx_root_needs_trace := t\<rparr>) suf = ptr_ok cx suf"
    "strong_ok (cx\<lparr>cx_root_needs_trace := t\<rparr>) suf = strong_ok cx suf"
    "marked (cx\<lparr>cx_root_needs_trace := t\<rparr>) = marked cx" for t
    by (rule ext, simp add: marked_def ptr_ok_def strong_ok_def weak_ok_def split: gc_ptr.split)+
  show "ptr_ok (root_barrier cx) suf q = ptr_ok cx suf q" "permit_ok (root_barrier cx) m = permit_ok cx m"
    by (simp_all add: root_barrier_def e permit_ok_def)
  show "cx_phase (root_barrier cx) = cx_phase cx" "cx_phase cx = PMark \<Longrightarrow> cx_root_needs_trace (root_barrier cx)"
    by (simp_all add: root_barrier_def)
  have p: "lists_ok (cx\<lparr>cx_root_needs_trace := t\<rparr>) pre suf = lists_ok cx pre suf"
    "mark_colors (cx\<lparr>cx_root_needs_trace := t\<rparr>) {} = mark_colors cx {}"
    "edges_closed (cx\<lparr>cx_root_needs_trace := t\<rparr>) suf = edges_closed cx suf"
    "leaves_ok (cx\<lparr>cx_root_needs_trace := t\<rparr>) = leaves_ok cx" for t
    by (simp_all add: lists_ok_def mark_colors_def edges_closed_def leaves_ok_def e)
  show "gc_ok (root_barrier cx) root pre suf"
  proof (cases "cx_phase cx = PMark")
    case True
    then show ?thesis using gc_okD [OF assms] by (simp add: root_barrier_def gc_ok_def p colors_ok_def root_ok_def e)
  qed (use assms in \<open>simp add: root_barrier_def\<close>)
qed

lemma root_write_ok:
  assumes ok: "gc_ok cx root pre suf" and r: "\<forall>q\<in>set root'. ptr_ok cx suf q"
    and t: "cx_phase cx = PMark \<longrightarrow> cx_root_needs_trace cx"
  shows "gc_ok cx root' pre suf"
  using gc_okD [OF ok] r t by (simp add: gc_ok_def root_ok_def)

end
