(* ===== verification/GcWorld.thy ===== *)
theory GcWorld
  imports GcMutate
begin

text \<open>
  The arena as a transition system: the program reads and writes the object graph inside a
  callback through the operations of \<open>Mutation\<close> and \<open>Finalization\<close>, and collections run between
  callbacks, when it holds no pointer but the root. The invariant of every reachable state is that
  no pointer it can get at dangles.
\<close>

section \<open>States and steps\<close>

text \<open>A callback's state: the pointers it holds, the permissions its barrier calls have granted,
  whether the root has been opened for writing and whether this is a finalization.\<close>

record gc_world =
  gw_cx :: gc_context
  gw_root :: "gc_ptr list"
  gw_held :: "gc_ptr list"
  gw_permits :: "permit list"
  gw_root_open :: bool
  gw_final :: bool

definition gc_start :: gc_world where
  "gc_start = \<lparr>gw_cx = context_new, gw_root = [], gw_held = [], gw_permits = [],
     gw_root_open = True, gw_final = False\<rparr>"

definition hold :: "gc_ptr \<Rightarrow> gc_world \<Rightarrow> gc_world" where
  "hold p w = w\<lparr>gw_held := p # gw_held w\<rparr>"

definition grant :: "permit \<Rightarrow> gc_context \<Rightarrow> gc_world \<Rightarrow> gc_world" where
  "grant q cx w = w\<lparr>gw_cx := cx, gw_permits := q # gw_permits w\<rparr>"

definition callback :: "bool \<Rightarrow> gc_context \<Rightarrow> gc_world \<Rightarrow> gc_world" where
  "callback final cx w = w\<lparr>gw_cx := cx, gw_held := [], gw_permits := [], gw_root_open := False,
     gw_final := final\<rparr>"

definition holds :: "gc_world \<Rightarrow> gc_ptr \<Rightarrow> bool" where
  "holds w p \<longleftrightarrow> p \<in> set (gw_held w)"

inductive gc_step :: "gc_world \<Rightarrow> gc_world \<Rightarrow> bool" where
  Mutate: "gc_step w (callback False (gw_cx w) w)"
| Finalize: "is_marked_arena (gw_cx w) \<Longrightarrow> gc_step w (callback True (gw_cx w) w)"
| Collect: "do_collection (run_bound (gw_cx w)) (gw_root w) until stop (gw_cx w) = Some (Some cx') \<Longrightarrow>
    gc_step w (callback False cx' w)"
| ReadRoot: "p \<in> set (gw_root w) \<Longrightarrow> gc_step w (hold p w)"
| ReadBox: "holds w (Strong a) \<Longrightarrow> header (gw_cx w) a = Some b \<Longrightarrow> p \<in> set (gb_refs b) \<Longrightarrow>
    gc_step w (hold p w)"
| Downgrade: "holds w (Strong a) \<Longrightarrow> gc_step w (hold (Weakly a) w)"
| Upgrade: "holds w (Weakly a) \<Longrightarrow> upgrade a (gw_cx w) = Some True \<Longrightarrow> gc_step w (hold (Strong a) w)"
| ResurrectWeak: "gw_final w \<Longrightarrow> holds w (Weakly a) \<Longrightarrow> weak_resurrect a (gw_cx w) = Some (cx', True) \<Longrightarrow>
    gc_step w (hold (Strong a) (w\<lparr>gw_cx := cx'\<rparr>))"
| Resurrect: "gw_final w \<Longrightarrow> holds w (Strong a) \<Longrightarrow> resurrect a (gw_cx w) = Some cx' \<Longrightarrow>
    gc_step w (w\<lparr>gw_cx := cx'\<rparr>)"
| Allocate: "allocate a sz nt refs (gw_cx w) = Some cx' \<Longrightarrow> \<forall>p\<in>set refs. holds w p \<Longrightarrow> \<not> nt \<longrightarrow> refs = [] \<Longrightarrow>
    gc_step w (hold (Strong a) (w\<lparr>gw_cx := cx'\<rparr>))"
| Backward: "holds w (Strong p) \<Longrightarrow> (\<forall>c. co = Some c \<longrightarrow> holds w (Strong c)) \<Longrightarrow>
    backward_barrier p co (gw_cx w) = Some cx' \<Longrightarrow> gc_step w (grant (Some p, map_option Strong co) cx' w)"
| BackwardWeak: "holds w (Strong p) \<Longrightarrow> holds w (Weakly c) \<Longrightarrow>
    backward_barrier_weak p c (gw_cx w) = Some cx' \<Longrightarrow> gc_step w (grant (Some p, Some (Weakly c)) cx' w)"
| Forward: "holds w (Strong c) \<Longrightarrow> forward_barrier po c (gw_cx w) = Some cx' \<Longrightarrow>
    gc_step w (grant (po, Some (Strong c)) cx' w)"
| ForwardWeak: "holds w (Weakly c) \<Longrightarrow> forward_barrier_weak po c (gw_cx w) = Some cx' \<Longrightarrow>
    gc_step w (grant (po, Some (Weakly c)) cx' w)"
| Write: "holds w (Strong p) \<Longrightarrow> header (gw_cx w) p = Some b \<Longrightarrow> \<not> gb_needs_trace b \<longrightarrow> refs = [] \<Longrightarrow>
    \<forall>c\<in>set refs. c \<in> set (gb_refs b) \<or> (holds w c \<and> may_adopt (gw_permits w) p c) \<Longrightarrow>
    gc_step w (w\<lparr>gw_cx := write_refs p refs (gw_cx w)\<rparr>)"
| OpenRoot: "gc_step w (w\<lparr>gw_cx := root_barrier (gw_cx w), gw_root_open := True\<rparr>)"
| WriteRoot: "gw_root_open w \<Longrightarrow> \<forall>p\<in>set root'. holds w p \<or> p \<in> set (gw_root w) \<Longrightarrow>
    gc_step w (w\<lparr>gw_root := root'\<rparr>)"
| Measure: "f \<in> {set_pacing pc, mark_external_allocation n, mark_external_deallocation n, add_debt n} \<Longrightarrow>
    gc_step w (w\<lparr>gw_cx := upd_metrics f (gw_cx w)\<rparr>)"

section \<open>The invariant\<close>

definition world_ok :: "gc_world \<Rightarrow> addr list \<Rightarrow> addr list \<Rightarrow> bool" where
  "world_ok w pre suf \<longleftrightarrow> gc_ok (gw_cx w) (gw_root w) pre suf
   \<and> (\<forall>p\<in>set (gw_held w). ptr_ok (gw_cx w) suf p) \<and> (\<forall>q\<in>set (gw_permits w). permit_ok (gw_cx w) q)
   \<and> (gw_root_open w \<longrightarrow> cx_phase (gw_cx w) = PMark \<longrightarrow> cx_root_needs_trace (gw_cx w))
   \<and> (gw_final w \<longrightarrow> cx_phase (gw_cx w) = PMark)"

definition world_inv :: "gc_world \<Rightarrow> bool" where
  "world_inv w \<longleftrightarrow> (\<exists>pre suf. world_ok w pre suf)"

lemma world_okD:
  assumes "world_ok w pre suf"
  shows "gc_ok (gw_cx w) (gw_root w) pre suf" "holds w p \<Longrightarrow> ptr_ok (gw_cx w) suf p"
    "q \<in> set (gw_permits w) \<Longrightarrow> permit_ok (gw_cx w) q"
    "gw_root_open w \<Longrightarrow> cx_phase (gw_cx w) = PMark \<Longrightarrow> cx_root_needs_trace (gw_cx w)"
    "gw_final w \<Longrightarrow> cx_phase (gw_cx w) = PMark"
  using assms by (simp_all add: world_ok_def holds_def)

lemma world_invI: "world_ok w pre suf \<Longrightarrow> world_inv w"
  by (auto simp: world_inv_def)

lemma start_inv: "world_inv gc_start"
proof -
  have "world_ok gc_start [] []"
    by (simp add: world_ok_def gc_start_def gc_ok_def context_new_def lists_ok_def colors_ok_def
        sweep_colors_def edges_closed_def leaves_ok_def root_ok_def totals_def metrics_new_def
        box_bytes_def hd_opt_def)
  then show ?thesis by (rule world_invI)
qed

lemma world_hold: "world_ok w pre suf \<Longrightarrow> ptr_ok (gw_cx w) suf p \<Longrightarrow> world_ok (hold p w) pre suf"
  by (simp add: world_ok_def hold_def)

lemma world_hold_inv: "world_ok w pre suf \<Longrightarrow> ptr_ok (gw_cx w) suf p \<Longrightarrow> world_inv (hold p w)"
  using world_invI world_hold by blast

lemma world_callback:
  "gc_ok cx (gw_root w) pre suf \<Longrightarrow> final \<longrightarrow> cx_phase cx = PMark \<Longrightarrow> world_ok (callback final cx w) pre suf"
  by (simp add: world_ok_def callback_def)

lemma recolors_ptr_ok:
  assumes "recolors cx root pre suf cx'" shows "ptr_ok cx' suf p = ptr_ok cx suf p"
proof (cases "cx_phase cx = PMark")
  case True
  have "gc_ok cx' root pre suf" "cx_phase cx' = PMark" "mark_frame cx cx'"
    using assms True by (simp_all add: recolors_def mark_frame_def)
  then show ?thesis using gc_ok_mark_suf mark_frame_ptr_ok by metis
qed (use assms in \<open>simp add: recolors_def\<close>)

lemma world_recolor:
  assumes w: "world_ok w pre suf" and r: "recolors (gw_cx w) (gw_root w) pre suf cx'"
  shows "world_ok (w\<lparr>gw_cx := cx'\<rparr>) pre suf"
proof -
  have "cx_phase cx' = cx_phase (gw_cx w)" "cx_root_needs_trace cx' = cx_root_needs_trace (gw_cx w)"
    "gc_ok cx' (gw_root w) pre suf"
    using r by (simp_all add: recolors_def mark_frame_def)
  then show ?thesis
    using w recolors_ptr_ok [OF r] recolors_permit [OF r] by (simp add: world_ok_def)
qed

lemma world_grant:
  assumes w: "world_ok w pre suf" and g: "grants (gw_cx w) (gw_root w) pre suf q cx'"
  shows "world_ok (grant q cx' w) pre suf"
  using world_recolor [OF w] g by (simp add: grants_def grant_def world_ok_def)

lemma totals_measured:
  "f \<in> {set_pacing pc, mark_external_allocation n, mark_external_deallocation n, add_debt n} \<Longrightarrow> totals (f m) = totals m"
  by (auto simp: totals_def set_pacing_def mark_external_allocation_def mark_external_deallocation_def add_debt_def)

lemma world_measured:
  assumes w: "world_ok w pre suf" and f: "\<And>m. totals (f m) = totals m"
  shows "world_ok (w\<lparr>gw_cx := upd_metrics f (gw_cx w)\<rparr>) pre suf"
proof -
  have e: "ptr_ok (upd_metrics f cx) suf = ptr_ok cx suf" "strong_ok (upd_metrics f cx) suf = strong_ok cx suf"
    "marked (upd_metrics f cx) = marked cx" "permit_ok (upd_metrics f cx) = permit_ok cx" for cx suf
    by (rule ext, simp add: marked_def ptr_ok_def strong_ok_def weak_ok_def permit_ok_def split: gc_ptr.split)+
  have p: "lists_ok (upd_metrics f cx) pre suf = lists_ok cx pre suf"
    "edges_closed (upd_metrics f cx) suf = edges_closed cx suf" "leaves_ok (upd_metrics f cx) = leaves_ok cx"
    "root_ok (upd_metrics f cx) suf r = root_ok cx suf r" "mark_colors (upd_metrics f cx) E = mark_colors cx E"
    "sweep_colors (upd_metrics f cx) pre suf = sweep_colors cx pre suf" for cx r E
    by (simp_all add: lists_ok_def f edges_closed_def leaves_ok_def root_ok_def mark_colors_def
        sweep_colors_def e)
  have "colors_ok (upd_metrics f cx) pre suf = colors_ok cx pre suf" for cx
    by (simp add: colors_ok_def p split: gc_phase.split)
  then show ?thesis using w by (simp add: world_ok_def gc_ok_def p e)
qed

lemma world_final_suf: "world_ok w pre suf \<Longrightarrow> gw_final w \<Longrightarrow> suf = [] \<and> cx_phase (gw_cx w) = PMark"
  using gc_ok_mark_suf world_okD(1,5) by blast

lemma gc_step_inv: "world_inv w \<Longrightarrow> gc_step w w' \<Longrightarrow> world_inv w'"
proof -
  assume "world_inv w" and s: "gc_step w w'"
  then obtain pre suf where w: "world_ok w pre suf" by (auto simp: world_inv_def)
  note ok = world_okD(1) [OF w]
  note h = world_okD(2) [OF w]
  show "world_inv w'"
    using s
  proof cases
    case Mutate
    then show ?thesis using world_invI [OF world_callback [OF ok, of False]] by simp
  next
    case Finalize
    then show ?thesis using world_callback [OF ok, of True] world_invI by (simp add: is_marked_arena_def)
  next
    case (Collect until stop cx')
    have "gc_inv (gw_cx w) (gw_root w)" using ok by (auto simp: gc_inv_def)
    from do_collection_total [OF this order_refl, of until stop] Collect(2)
    obtain pre' suf' where c: "gc_ok cx' (gw_root w) pre' suf'" by (auto simp: gc_inv_def)
    show ?thesis using world_invI [OF world_callback [OF c, of False]] Collect(1) by simp
  next
    case (ReadRoot p)
    then have "ptr_ok (gw_cx w) suf p" using gc_okD(5) [OF ok] by (simp add: root_ok_def)
    then show ?thesis using world_hold_inv [OF w] ReadRoot(1) by simp
  next
    case (ReadBox a b p)
    have "ptr_ok (gw_cx w) suf p"
      using gc_okD(3) [OF ok] h [OF ReadBox(2)] ReadBox(3,4) by (simp add: edges_closed_def ptr_ok_def header_def)
    then show ?thesis using world_hold_inv [OF w] ReadBox(1) by simp
  next
    case (Downgrade a)
    have "strong_ok (gw_cx w) suf a" using h [OF Downgrade(2)] by (simp add: ptr_ok_def)
    then have "ptr_ok (gw_cx w) suf (Weakly a)" by (auto simp: ptr_ok_def strong_ok_def weak_ok_def)
    then show ?thesis using world_hold_inv [OF w] Downgrade(1) by simp
  next
    case (Upgrade a)
    have "weak_ok (gw_cx w) suf a" using h [OF Upgrade(2)] by (simp add: ptr_ok_def)
    then have "ptr_ok (gw_cx w) suf (Strong a)"
      using upgrade_strong [OF ok _ Upgrade(3)] by (simp add: ptr_ok_def)
    then show ?thesis using world_hold_inv [OF w] Upgrade(1) by simp
  next
    case (ResurrectWeak a cx')
    have f: "suf = []" "cx_phase (gw_cx w) = PMark" using world_final_suf [OF w ResurrectWeak(2)] by simp_all
    obtain b where b: "cx_boxes (gw_cx w) a = Some b" "gb_live b" "resurrect a (gw_cx w) = Some cx'"
      using ResurrectWeak(4) by (auto simp: weak_resurrect_def header_def split: bind_splits if_splits)
    then have sa: "strong_ok (gw_cx w) [] a" by (simp add: strong_ok_def)
    obtain cx1 where "resurrect a (gw_cx w) = Some cx1" "recolors (gw_cx w) (gw_root w) pre [] cx1"
      using resurrect_recolors [OF ok [unfolded f(1)] f(2) sa] by blast
    then have r: "recolors (gw_cx w) (gw_root w) pre suf cx'" using b(3) f(1) by simp
    have "ptr_ok cx' suf (Strong a)" using recolors_ptr_ok [OF r, of "Strong a"] sa f(1) by (simp add: ptr_ok_def)
    then have "world_ok (hold (Strong a) (w\<lparr>gw_cx := cx'\<rparr>)) pre suf"
      by (intro world_hold [OF world_recolor [OF w r]]) simp
    then show ?thesis using ResurrectWeak(1) by (auto intro: world_invI)
  next
    case (Resurrect a cx')
    have f: "suf = []" "cx_phase (gw_cx w) = PMark" using world_final_suf [OF w Resurrect(2)] by simp_all
    have sa: "strong_ok (gw_cx w) [] a" using h [OF Resurrect(3)] f(1) by (simp add: ptr_ok_def)
    obtain cx1 where "resurrect a (gw_cx w) = Some cx1" "recolors (gw_cx w) (gw_root w) pre [] cx1"
      using resurrect_recolors [OF ok [unfolded f(1)] f(2) sa] by blast
    then have "recolors (gw_cx w) (gw_root w) pre suf cx'" using Resurrect(4) f(1) by simp
    then show ?thesis using world_recolor [OF w] Resurrect(1) by (auto intro: world_invI)
  next
    case (Allocate a sz nt refs cx')
    have "\<forall>c\<in>set refs. ptr_ok (gw_cx w) suf c" using Allocate(3) h by blast
    note al = allocate_ok [OF ok Allocate(2) this Allocate(4)]
    have "world_ok (w\<lparr>gw_cx := cx'\<rparr>) (a # pre) suf"
      using w al by (simp add: world_ok_def)
    from world_hold [OF this, of "Strong a"] show ?thesis using al(2) Allocate(1) by (auto intro: world_invI)
  next
    case (Backward p co cx')
    then show ?thesis using world_grant [OF w backward_barrier_grants [OF ok]] world_invI by blast
  next
    case (BackwardWeak p c cx')
    then show ?thesis using world_grant [OF w backward_barrier_weak_grants [OF ok]] world_invI by blast
  next
    case (Forward c po cx')
    have "strong_ok (gw_cx w) suf c" using h [OF Forward(2)] by (simp add: ptr_ok_def)
    then show ?thesis
      using world_grant [OF w forward_barrier_grants [OF ok]] world_invI Forward(1,3) by blast
  next
    case (ForwardWeak c po cx')
    have "weak_ok (gw_cx w) suf c" using h [OF ForwardWeak(2)] by (simp add: ptr_ok_def)
    then show ?thesis
      using world_grant [OF w forward_barrier_weak_grants [OF ok]] world_invI ForwardWeak(1,3) by blast
  next
    case (Write p b refs)
    have sp: "strong_ok (gw_cx w) suf p" using h [OF Write(2)] by (simp add: ptr_ok_def)
    have b: "cx_boxes (gw_cx w) p = Some b" using Write(3) by (simp add: header_def)
    have "gc_ok (write_refs p refs (gw_cx w)) (gw_root w) pre suf"
      by (rule write_refs_ok [OF ok sp b Write(4), where permits = "gw_permits w"])
        (use Write(5) h world_okD(3) [OF w] in auto)
    then have "world_ok (w\<lparr>gw_cx := write_refs p refs (gw_cx w)\<rparr>) pre suf"
      using w write_refs_permit by (simp add: world_ok_def write_refs_view)
    then show ?thesis using Write(1) by (auto intro: world_invI)
  next
    case OpenRoot
    have "world_ok (w\<lparr>gw_cx := root_barrier (gw_cx w), gw_root_open := True\<rparr>) pre suf"
      using w root_barrier_ok [OF ok] by (simp add: world_ok_def)
    then show ?thesis using OpenRoot by (auto intro: world_invI)
  next
    case (WriteRoot root')
    have "\<forall>q\<in>set root'. ptr_ok (gw_cx w) suf q"
      using WriteRoot(3) h gc_okD(5) [OF ok] by (auto simp: root_ok_def)
    from root_write_ok [OF ok this] have "world_ok (w\<lparr>gw_root := root'\<rparr>) pre suf"
      using w world_okD(4) [OF w WriteRoot(2)] by (simp add: world_ok_def)
    then show ?thesis using WriteRoot(1) by (auto intro: world_invI)
  next
    case (Measure f pc n)
    then show ?thesis using world_measured [OF w, of f] totals_measured world_invI by metis
  qed
qed

end
