(* ===== verification/GcProps.thy ===== *)
theory GcProps
  imports GcWorld
begin

text \<open>
  The collector's contract with the program: in every state the arena can get into no pointer the
  program can get at dangles; a collection of any kind returns, having kept everything reachable; a
  whole cycle leaves exactly what is reachable; dropping the arena frees every box once. The
  invariance argument is the locale of transition systems, interpreted on the arena's steps.
\<close>

section \<open>Invariants of transition systems\<close>

locale transition_system =
  fixes system_step :: "'s \<Rightarrow> 's \<Rightarrow> bool" and initial :: "'s \<Rightarrow> bool" and invariant :: "'s \<Rightarrow> bool"
  assumes initial_inv: "initial s \<Longrightarrow> invariant s"
    and step_inv: "invariant s \<Longrightarrow> system_step s t \<Longrightarrow> invariant t"
begin

lemma run_inv: "rtranclp system_step s t \<Longrightarrow> invariant s \<Longrightarrow> invariant t"
  by (induction rule: rtranclp_induct) (auto intro: step_inv)

lemma reachable_inv: "initial s \<Longrightarrow> rtranclp system_step s t \<Longrightarrow> invariant t"
  using run_inv initial_inv by blast

end

interpretation gc: transition_system gc_step "\<lambda>w. w = gc_start" world_inv
  by unfold_locales (auto intro: start_inv gc_step_inv)

definition gc_run :: "gc_world \<Rightarrow> bool" where
  "gc_run w \<longleftrightarrow> rtranclp gc_step gc_start w"

lemma gc_run_inv: "gc_run w \<Longrightarrow> world_inv w"
  using gc.reachable_inv by (simp add: gc_run_def)

lemma gc_run_gc_inv: "gc_run w \<Longrightarrow> gc_inv (gw_cx w) (gw_root w)"
  using gc_run_inv world_okD(1) unfolding world_inv_def gc_inv_def by blast

lemma gc_run_start: "gc_run gc_start"
  by (simp add: gc_run_def)

lemma gc_run_step: "gc_run w \<Longrightarrow> gc_step w w' \<Longrightarrow> gc_run w'"
  unfolding gc_run_def by (rule rtranclp.rtrancl_into_rtrancl)

section \<open>Dropping the arena\<close>

lemma drop_all_chain:
  assumes "chain (cx_boxes cx) n xs" "distinct xs" "dom (cx_boxes cx) = set xs"
    and "totals (cx_metrics cx) = (length xs, box_bytes (cx_boxes cx) xs)" "length xs \<le> fuel"
  shows "\<exists>cx'. drop_all fuel n cx = Some (Some cx') \<and> cx_boxes cx' = Map.empty \<and> totals (cx_metrics cx') = (0, 0)"
  using assms
proof (induction xs arbitrary: n cx fuel)
  case Nil
  then show ?case by (cases fuel) (auto simp: box_bytes_def)
next
  case (Cons x xs)
  then obtain b where b: "n = Some x" "cx_boxes cx x = Some b" "chain (cx_boxes cx) (gb_next b) xs" by auto
  obtain k where k: "fuel = Suc k" "length xs \<le> k" using Cons.prems(5) by (cases fuel) auto
  define cx1 where "cx1 = (if gb_live b then upd_metrics (mark_gc_dropped (gb_size b)) cx else cx)"
  have t1: "totals (cx_metrics cx1) = (Suc (length xs), box_bytes (cx_boxes cx) xs + gb_size b)"
    using Cons.prems(4) b(2) by (simp add: cx1_def box_bytes_def)
  obtain m where m: "mark_gc_freed (gb_size b) (cx_metrics cx1) = Some m"
      "totals m = (length xs, box_bytes (cx_boxes cx) xs)"
    using mark_gc_freed_Some [OF t1] by blast
  let ?cx = "(dealloc x cx1)\<lparr>cx_metrics := m\<rparr>"
  have bx: "cx_boxes ?cx = (cx_boxes cx)(x := None)" by (simp add: dealloc_def cx1_def)
  have "chain (cx_boxes ?cx) (gb_next b) xs"
    unfolding bx by (rule chain_cong [OF _ b(3)]) (use Cons.prems(2) in auto)
  moreover have "box_bytes (cx_boxes ?cx) xs = box_bytes (cx_boxes cx) xs"
    unfolding bx by (rule box_bytes_cong) (use Cons.prems(2) in auto)
  moreover have "dom (cx_boxes ?cx) = set xs" using Cons.prems(2,3) by (auto simp: bx)
  ultimately have "\<exists>cx'. drop_all k (gb_next b) ?cx = Some (Some cx') \<and> cx_boxes cx' = Map.empty
      \<and> totals (cx_metrics cx') = (0, 0)"
    using Cons.prems(2) m(2) k(2) by (intro Cons.IH) simp_all
  then show ?case using b(1,2) k(1) m(1) by (simp add: header_def Let_def flip: cx1_def)
qed

section \<open>A sample run\<close>

text \<open>A leaf is allocated and stored in the root, which is then marked; a callback reads it back.\<close>

definition leaf_world :: gc_world where
  "leaf_world = (hold (Strong 1) (gc_start\<lparr>gw_cx := the (allocate 1 8 False [] context_new)\<rparr>))
     \<lparr>gw_root := [Strong 1]\<rparr>"

definition leaf_marked :: gc_context where
  "leaf_marked = the (the (do_collection (run_bound (gw_cx leaf_world)) (gw_root leaf_world)
     StopCondition FullyMarked (gw_cx leaf_world)))"

definition leaf_read :: gc_world where
  "leaf_read = hold (Strong 1) (callback False leaf_marked leaf_world)"

lemma leaf_world_run: "gc_run leaf_world"
proof -
  let ?w = "hold (Strong 1) (gc_start\<lparr>gw_cx := the (allocate 1 8 False [] context_new)\<rparr>)"
  have "gc_step gc_start ?w"
    by (rule gc_step.Allocate [where sz = 8 and nt = False and refs = "[]"])
      (simp_all add: gc_start_def allocate_def context_new_def)
  moreover have "gc_step ?w leaf_world"
    unfolding leaf_world_def
    by (rule gc_step.WriteRoot) (simp_all add: hold_def holds_def gc_start_def)
  ultimately show ?thesis using gc_run_step gc_run_start by blast
qed

lemma leaf_read_run: "gc_run leaf_read"
proof -
  obtain cx' where "do_collection (run_bound (gw_cx leaf_world)) (gw_root leaf_world) StopCondition
      FullyMarked (gw_cx leaf_world) = Some (Some cx')"
    using do_collection_total [OF gc_run_gc_inv [OF leaf_world_run] order_refl] by blast
  then have "gc_step leaf_world (callback False leaf_marked leaf_world)"
    by (intro gc_step.Collect) (simp add: leaf_marked_def)
  moreover have "gc_step (callback False leaf_marked leaf_world) leaf_read"
    unfolding leaf_read_def by (rule gc_step.ReadRoot) (simp add: callback_def leaf_world_def)
  ultimately show ?thesis using gc_run_step leaf_world_run by blast
qed

lemma leaf_bound: "run_bound (gw_cx leaf_world) = Suc (Suc (Suc 13))"
  by (simp add: run_bound_def leaf_world_def hold_def allocate_def context_new_def)

text \<open>The same arena with a second box, which points to the leaf and is stored nowhere.\<close>

definition garbage_world :: gc_world where
  "garbage_world = hold (Strong 2) (leaf_world\<lparr>gw_cx := the (allocate 2 24 True [Strong 1] (gw_cx leaf_world))\<rparr>)"

lemma garbage_world_run: "gc_run garbage_world"
proof -
  have "gc_step leaf_world garbage_world"
    unfolding garbage_world_def
    by (rule gc_step.Allocate [where sz = 24 and nt = True and refs = "[Strong 1]"])
      (simp_all add: leaf_world_def hold_def holds_def gc_start_def allocate_def context_new_def Let_def)
  then show ?thesis using gc_run_step leaf_world_run by blast
qed

lemma garbage_reach: "gc_reach (gw_cx garbage_world) (gw_root garbage_world) p \<Longrightarrow> p = Strong 1"
  by (induction rule: gc_reach.induct)
    (auto simp: garbage_world_def leaf_world_def hold_def gc_start_def allocate_def context_new_def Let_def
      upd_metrics_def)

section \<open>Properties\<close>

definition ptr_addr :: "gc_ptr \<Rightarrow> addr" where
  "ptr_addr p = (case p of Strong a \<Rightarrow> a | Weakly a \<Rightarrow> a)"

definition can_get_at :: "gc_world \<Rightarrow> gc_ptr \<Rightarrow> bool" where
  "can_get_at w p \<longleftrightarrow> holds w p \<or> gc_reach (gw_cx w) (gw_root w) p"

text \<open>C1. Memory safety: in every state the arena can get into, through any interleaving of callbacks,
  barriers, writes, allocations, upgrades, resurrections and partial or whole collections, every
  pointer the program can get at (one a callback holds, or one reachable from the root) points to
  a box that has not been freed, and every strong one to a value that has not been dropped.\<close>

theorem gc_no_dangling:
  assumes "gc_run w" and "can_get_at w p"
  shows "\<exists>b. header (gw_cx w) (ptr_addr p) = Some b \<and> (p = Strong (ptr_addr p) \<longrightarrow> gb_live b)"
proof -
  obtain pre suf where w: "world_ok w pre suf" using gc_run_inv [OF assms(1)] by (auto simp: world_inv_def)
  have "ptr_ok (gw_cx w) suf p"
    using assms(2) world_okD(2) [OF w] reach_ptr_ok [OF world_okD(1) [OF w]] by (auto simp: can_get_at_def)
  then show ?thesis
    by (auto simp: ptr_ok_def strong_ok_def weak_ok_def ptr_addr_def header_def split: gc_ptr.splits)
qed

lemma gc_no_dangling_witness:
  "\<exists>b. header (gw_cx leaf_read) 1 = Some b \<and> gb_live b"
proof -
  have "can_get_at leaf_read (Strong 1)" by (simp add: can_get_at_def holds_def leaf_read_def hold_def)
  from gc_no_dangling [OF leaf_read_run this] show ?thesis by (simp add: ptr_addr_def)
qed

text \<open>C2. A collection always returns and never loses what is reachable: from every state the arena can
  get into, for every kind of run and every stop condition, \<open>do_collection\<close> panics on no assertion
  and returns within six turns a box and ten more, every box reachable from the root is still
  there, alive, of the same size and with the same pointers, and a run not paced by debt has
  reached its stop condition.\<close>

theorem collection_keeps_reachable:
  assumes "gc_run w" and "run_bound (gw_cx w) \<le> fuel"
  shows "\<exists>cx'. do_collection fuel (gw_root w) until stop (gw_cx w) = Some (Some cx')
    \<and> gc_keeps (gw_cx w) (gw_root w) cx' \<and> (until = StopCondition \<longrightarrow> exit_state stop cx')"
  using do_collection_total [OF gc_run_gc_inv [OF assms(1)] assms(2)] by blast

lemma collection_keeps_reachable_witness:
  "\<exists>cx'. do_collection (run_bound (gw_cx leaf_read)) (gw_root leaf_read) PayDebt Full (gw_cx leaf_read)
    = Some (Some cx') \<and> gc_keeps (gw_cx leaf_read) (gw_root leaf_read) cx'"
  using collection_keeps_reachable [OF leaf_read_run order_refl] by blast

text \<open>C3. A whole collection is exact: from every state the arena can get into, a \<open>Full\<close> run leaves alive
  exactly the boxes that were reachable from the root through strong pointers, and allocated
  exactly those and the ones a reachable weak pointer points to; everything else is freed.\<close>

theorem full_collection_leaves_exactly:
  assumes "gc_run w" and "run_bound (gw_cx w) \<le> fuel"
  shows "\<exists>cx'. do_collection fuel (gw_root w) StopCondition Full (gw_cx w) = Some (Some cx')
    \<and> (\<forall>a. (\<exists>b. header cx' a = Some b \<and> gb_live b) \<longleftrightarrow> gc_reach (gw_cx w) (gw_root w) (Strong a))
    \<and> (\<forall>a. header cx' a \<noteq> None \<longleftrightarrow> gc_reach (gw_cx w) (gw_root w) (Strong a)
           \<or> gc_reach (gw_cx w) (gw_root w) (Weakly a))"
proof -
  obtain cx' where c: "do_collection fuel (gw_root w) StopCondition Full (gw_cx w) = Some (Some cx')"
      "exactly (gc_reach (gw_cx w) (gw_root w)) cx'"
    using full_collection_exact [OF gc_run_gc_inv [OF assms(1)] assms(2), of Full] by blast
  have "(\<exists>b. header cx' a = Some b \<and> gb_live b) \<longleftrightarrow> strong_ok cx' [] a" for a
    by (auto simp: header_def strong_ok_def)
  moreover have "header cx' a \<noteq> None \<longleftrightarrow> a \<in> dom (cx_boxes cx')" for a by (auto simp: header_def)
  ultimately show ?thesis using c by (simp add: exactly_def)
qed

lemma full_collection_leaves_exactly_witness:
  "\<exists>cx'. do_collection (run_bound (gw_cx garbage_world)) (gw_root garbage_world) StopCondition Full
      (gw_cx garbage_world) = Some (Some cx') \<and> header cx' 1 \<noteq> None \<and> header cx' 2 = None"
proof -
  have "gc_reach (gw_cx garbage_world) (gw_root garbage_world) (Strong 1)"
    by (rule gc_reach_root) (simp add: garbage_world_def leaf_world_def hold_def)
  moreover have "\<not> gc_reach (gw_cx garbage_world) (gw_root garbage_world) (Strong 2)"
    "\<not> gc_reach (gw_cx garbage_world) (gw_root garbage_world) (Weakly 2)"
    using garbage_reach by fastforce+
  ultimately show ?thesis
    using full_collection_leaves_exactly [OF garbage_world_run order_refl] by blast
qed

text \<open>C16. Dropping the arena, in every state it can get into, walks the list of boxes to its end,
  frees every box exactly once and leaves the counters of boxes and bytes at zero.\<close>

theorem drop_frees_every_box:
  assumes "gc_run w" and "card (dom (cx_boxes (gw_cx w))) \<le> fuel"
  shows "\<exists>cx'. context_drop fuel (gw_cx w) = Some (Some cx') \<and> cx_boxes cx' = Map.empty
    \<and> totals (cx_metrics cx') = (0, 0)"
proof -
  obtain pre suf where ok: "lists_ok (gw_cx w) pre suf"
    using gc_run_gc_inv [OF assms(1)] gc_okD(1) unfolding gc_inv_def by blast
  have "length (pre @ suf) \<le> fuel" using ok assms(2) unfolding lists_ok_def by (metis distinct_card)
  then show ?thesis
    unfolding context_drop_def
    using ok by (intro drop_all_chain [of _ _ "pre @ suf"]) (simp_all add: lists_ok_def)
qed

lemma drop_frees_every_box_witness:
  "\<exists>cx'. context_drop (card (dom (cx_boxes (gw_cx garbage_world)))) (gw_cx garbage_world) = Some (Some cx')
    \<and> cx_boxes cx' = Map.empty"
  using drop_frees_every_box [OF garbage_world_run order_refl] by blast

text \<open>A write barrier on a box that needs no tracing can panic: such a box turns black without being
  counted as traced, so when the barrier makes it gray again \<open>mark_gc_untraced\<close> subtracts from
  counters that may be zero, which debug builds trap. The comment in \<open>backward_barrier\<close> calls the
  barrier harmless in this case.\<close>

theorem leaf_barrier_panics:
  "\<exists>w a. gc_run w \<and> holds w (Strong a) \<and> backward_barrier a None (gw_cx w) = None"
proof -
  have "backward_barrier 1 None (the (the (do_collection (Suc (Suc (Suc n))) (gw_root leaf_world)
      StopCondition FullyMarked (gw_cx leaf_world)))) = None" for n
    by (simp add: do_collection_def collection_turn_def
        leaf_world_def hold_def allocate_def context_new_def gc_start_def mark_one_def pop_gray_def
        trace_ptr_def trace_def header_def set_color_def upd_box_def upd_metrics_def Let_def
        backward_barrier_def make_gray_again_def mark_gc_untraced_def metrics_new_def checked_minus_def
        mark_gc_marked_def mark_gc_allocated_def)
  from this [of 13] have "backward_barrier 1 None (gw_cx leaf_read) = None"
    by (simp only: leaf_read_def hold_def callback_def leaf_marked_def leaf_bound) simp
  moreover have "holds leaf_read (Strong 1)" by (simp add: leaf_read_def hold_def holds_def)
  ultimately show ?thesis using leaf_read_run by blast
qed

end
