(* ===== verification/Values.thy ===== *)
theory Values
  imports Prelude F64
begin

text \<open>
  \<open>env/value.rs\<close>: the tagged Lua value. The source keeps a kind byte and a 64-bit
  payload; a value is here the datatype of the kind with its decoded payload, floats as their
  bit pattern, so that the derived \<open>PartialEq\<close> of the source (equal kinds, equal payload
  bits) is equality of the datatype (lemma \<open>value_eq_iff_repr\<close>). Collected objects are their
  heap address; a string is its bytes, which theory Interner justifies.
\<close>

datatype value_kind = KNil | KBoolean | KInteger | KFloat | KString | KTable | KFunction
  | KThread | KUserdata

datatype lua_value =
    VNil
  | VBool bool
  | VInt i64
  | VFloat f64
  | VStr bytes
  | VTable addr
  | VFunc addr
  | VThread addr
  | VUserdata addr

definition is_nil :: "lua_value \<Rightarrow> bool" where
  "is_nil v \<longleftrightarrow> (case v of VNil \<Rightarrow> True | _ \<Rightarrow> False)"

definition get_boolean :: "lua_value \<Rightarrow> bool option" where
  "get_boolean v = (case v of VBool b \<Rightarrow> Some b | _ \<Rightarrow> None)"

definition get_integer :: "lua_value \<Rightarrow> i64 option" where
  "get_integer v = (case v of VInt i \<Rightarrow> Some i | _ \<Rightarrow> None)"

definition get_float :: "lua_value \<Rightarrow> f64 option" where
  "get_float v = (case v of VFloat f \<Rightarrow> Some f | _ \<Rightarrow> None)"

definition get_string :: "lua_value \<Rightarrow> bytes option" where
  "get_string v = (case v of VStr s \<Rightarrow> Some s | _ \<Rightarrow> None)"

definition get_table :: "lua_value \<Rightarrow> addr option" where
  "get_table v = (case v of VTable t \<Rightarrow> Some t | _ \<Rightarrow> None)"

definition get_function :: "lua_value \<Rightarrow> addr option" where
  "get_function v = (case v of VFunc f \<Rightarrow> Some f | _ \<Rightarrow> None)"

definition get_thread :: "lua_value \<Rightarrow> addr option" where
  "get_thread v = (case v of VThread t \<Rightarrow> Some t | _ \<Rightarrow> None)"

definition get_userdata :: "lua_value \<Rightarrow> addr option" where
  "get_userdata v = (case v of VUserdata u \<Rightarrow> Some u | _ \<Rightarrow> None)"

fun kind :: "lua_value \<Rightarrow> value_kind" where
  "kind VNil = KNil"
| "kind (VBool _) = KBoolean"
| "kind (VInt _) = KInteger"
| "kind (VFloat _) = KFloat"
| "kind (VStr _) = KString"
| "kind (VTable _) = KTable"
| "kind (VFunc _) = KFunction"
| "kind (VThread _) = KThread"
| "kind (VUserdata _) = KUserdata"

definition is_falsy :: "lua_value \<Rightarrow> bool" where
  "is_falsy v \<longleftrightarrow> kind v = KNil \<or> get_boolean v = Some False"

definition ascii :: "string \<Rightarrow> bytes" where
  "ascii s = map (\<lambda>c. word_of_nat (of_char c)) s"

definition type_name :: "lua_value \<Rightarrow> string" where
  "type_name v = (case kind v of
      KNil \<Rightarrow> ''nil''
    | KBoolean \<Rightarrow> ''boolean''
    | KInteger \<Rightarrow> ''number''
    | KFloat \<Rightarrow> ''number''
    | KString \<Rightarrow> ''string''
    | KTable \<Rightarrow> ''table''
    | KFunction \<Rightarrow> ''function''
    | KThread \<Rightarrow> ''thread''
    | KUserdata \<Rightarrow> ''userdata'')"

lemmas getter_defs = is_nil_def get_boolean_def get_integer_def get_float_def get_string_def
  get_table_def get_function_def get_thread_def get_userdata_def

lemma is_nil_iff [simp]: "is_nil v \<longleftrightarrow> v = VNil"
  by (simp add: is_nil_def split: lua_value.split)

lemma getter_simps [simp]:
  "get_boolean (VBool b) = Some b" "get_integer (VInt i) = Some i"
  "get_float (VFloat f) = Some f" "get_string (VStr s) = Some s"
  "get_table (VTable t) = Some t" "get_function (VFunc g) = Some g"
  "get_thread (VThread th) = Some th" "get_userdata (VUserdata u) = Some u"
  by (simp_all add: getter_defs)

lemma getter_Some_iff:
  "get_boolean v = Some b \<longleftrightarrow> v = VBool b" "get_integer v = Some i \<longleftrightarrow> v = VInt i"
  "get_float v = Some f \<longleftrightarrow> v = VFloat f" "get_string v = Some s \<longleftrightarrow> v = VStr s"
  "get_table v = Some t \<longleftrightarrow> v = VTable t" "get_function v = Some g \<longleftrightarrow> v = VFunc g"
  "get_thread v = Some th \<longleftrightarrow> v = VThread th" "get_userdata v = Some u \<longleftrightarrow> v = VUserdata u"
  by (auto simp: getter_defs split: lua_value.splits)

lemma is_falsy_iff: "is_falsy v \<longleftrightarrow> v = VNil \<or> v = VBool False"
  by (cases v) (auto simp: is_falsy_def get_boolean_def)

section \<open>The two-word representation\<close>

text \<open>The payload word of a value, given the addresses of the interned strings.\<close>

fun payload :: "(bytes \<Rightarrow> addr) \<Rightarrow> lua_value \<Rightarrow> u64" where
  "payload _ VNil = 0"
| "payload _ (VBool b) = (if b then 1 else 0)"
| "payload _ (VInt i) = i"
| "payload _ (VFloat f) = f"
| "payload sp (VStr s) = word_of_nat (sp s)"
| "payload _ (VTable a) = word_of_nat a"
| "payload _ (VFunc a) = word_of_nat a"
| "payload _ (VThread a) = word_of_nat a"
| "payload _ (VUserdata a) = word_of_nat a"

fun value_addr :: "(bytes \<Rightarrow> addr) \<Rightarrow> lua_value \<Rightarrow> addr" where
  "value_addr sp (VStr s) = sp s"
| "value_addr _ (VTable a) = a"
| "value_addr _ (VFunc a) = a"
| "value_addr _ (VThread a) = a"
| "value_addr _ (VUserdata a) = a"
| "value_addr _ _ = 0"

lemma word_of_nat_addr_inj:
  "a < 2 ^ 64 \<Longrightarrow> b < 2 ^ 64 \<Longrightarrow> (word_of_nat a :: u64) = word_of_nat b \<longleftrightarrow> a = b"
  by (simp add: word_of_nat_eq_iff take_bit_nat_eq_self)

lemma value_eq_iff_repr:
  assumes "inj sp" and "value_addr sp v < 2 ^ 64" and "value_addr sp w < 2 ^ 64"
  shows "v = w \<longleftrightarrow> kind v = kind w \<and> payload sp v = payload sp w"
  using assms
  by (cases v; cases w) (simp_all add: word_of_nat_addr_inj inj_eq split: if_splits)

end
