(* ===== verification/Shape.thy ===== *)
theory Shape
  imports Values
begin

text \<open>
  \<open>env/shape/mod.rs\<close>: hidden classes. A shape is an immutable descriptor of a table's
  string-keyed layout and metatable identity; shapes form a transition tree whose edges are
  weak pointers. An \<open>MtCache\<close> is the live metamethod bitset of one metatable, shared by
  every shape that carries that metatable. The collected objects live in explicit stores from
  addresses to objects; a hash table keyed by identity is a map. The store of tables is part of
  the same heap record and is filled in by theory Tables.
\<close>

section \<open>Metamethod bits\<close>

text \<open>\<open>for_each_metamethod!\<close>: the master list of names and bit positions.\<close>

definition metamethod_names :: "(string \<times> nat) list" where
  "metamethod_names =
     [(''__index'', 0), (''__newindex'', 1), (''__add'', 2), (''__sub'', 3), (''__mul'', 4),
      (''__div'', 5), (''__mod'', 6), (''__pow'', 7), (''__idiv'', 8), (''__band'', 9),
      (''__bor'', 10), (''__bxor'', 11), (''__bnot'', 12), (''__shl'', 13), (''__shr'', 14),
      (''__unm'', 15), (''__eq'', 16), (''__lt'', 17), (''__le'', 18), (''__concat'', 19),
      (''__len'', 20), (''__call'', 21), (''__tostring'', 22)]"

definition metamethod_table :: "(bytes \<times> u32) list" where
  "metamethod_table = map (\<lambda>(n, b). (ascii n, push_bit b 1)) metamethod_names"

abbreviation (input) mm_name :: "string \<Rightarrow> bytes" where "mm_name n \<equiv> ascii n"

abbreviation (input) bit_INDEX :: u32 where "bit_INDEX \<equiv> 1"
abbreviation (input) bit_NEWINDEX :: u32 where "bit_NEWINDEX \<equiv> 2"

definition starts_with :: "bytes \<Rightarrow> bytes \<Rightarrow> bool" where
  "starts_with s p \<longleftrightarrow> take (length p) s = p"

definition metamethod_bit_of_bytes :: "bytes \<Rightarrow> u32 option" where
  "metamethod_bit_of_bytes name =
     (if \<not> starts_with name (ascii ''__'') then None
      else map_option snd (find (\<lambda>(n, _). n = name) metamethod_table))"

definition max_properties_fast :: nat where "max_properties_fast = 64"

section \<open>The objects\<close>

record shape_data =
  sd_parent :: "addr option"
  sd_last_key :: "bytes option"
  sd_slot_count :: nat
  sd_mt_cache :: "addr option"
  sd_is_dict :: bool
  sd_by_prop :: "bytes \<rightharpoonup> addr"
  sd_by_mt :: "addr option \<rightharpoonup> addr"
  sd_descriptors :: "(bytes \<times> nat) list"

record mt_cache_data =
  mc_bits :: u32
  mc_dict_sentinel :: "addr option"

text \<open>\<open>env/table/mod.rs\<close>: the state of a table.\<close>

record table_state =
  ts_shape :: addr
  ts_properties :: "lua_value list"
  ts_array :: "lua_value list"
  ts_misc_hash :: "lua_value \<rightharpoonup> lua_value"
  ts_dict :: "(bytes \<rightharpoonup> lua_value) option"
  ts_metatable :: "addr option"
  ts_mt_cache :: "addr option"

text \<open>
  The stores. \<open>h_live\<close> says whether the collector still holds a shape's contents, which is
  what \<open>GcWeak::upgrade\<close> reads. The two fixed shapes are fields of the runtime's
  \<open>State\<close> (\<open>lua/mod.rs\<close>).
\<close>

record heap =
  h_shapes :: "addr \<Rightarrow> shape_data"
  h_live :: "addr \<Rightarrow> bool"
  h_next_shape :: addr
  h_mts :: "addr \<Rightarrow> mt_cache_data"
  h_next_mt :: addr
  h_tables :: "addr \<Rightarrow> table_state"
  h_next_table :: addr
  h_empty_shape :: addr
  h_empty_dict_sentinel :: addr

definition alloc_shape :: "heap \<Rightarrow> shape_data \<Rightarrow> heap \<times> addr" where
  "alloc_shape h d = (let a = h_next_shape h in
     (h\<lparr>h_shapes := (h_shapes h)(a := d), h_live := (h_live h)(a := True),
        h_next_shape := Suc a\<rparr>, a))"

definition upd_shape :: "heap \<Rightarrow> addr \<Rightarrow> (shape_data \<Rightarrow> shape_data) \<Rightarrow> heap" where
  "upd_shape h a f = h\<lparr>h_shapes := (h_shapes h)(a := f (h_shapes h a))\<rparr>"

definition upd_mt :: "heap \<Rightarrow> addr \<Rightarrow> (mt_cache_data \<Rightarrow> mt_cache_data) \<Rightarrow> heap" where
  "upd_mt h a f = h\<lparr>h_mts := (h_mts h)(a := f (h_mts h a))\<rparr>"

definition upgrade_shape :: "heap \<Rightarrow> addr \<Rightarrow> addr option" where
  "upgrade_shape h a = (if h_live h a then Some a else None)"

section \<open>MtCache\<close>

definition mt_set_bit :: "u32 \<Rightarrow> mt_cache_data \<Rightarrow> mt_cache_data" where
  "mt_set_bit b c = c\<lparr>mc_bits := mc_bits c OR b\<rparr>"

definition mt_clear_bit :: "u32 \<Rightarrow> mt_cache_data \<Rightarrow> mt_cache_data" where
  "mt_clear_bit b c = c\<lparr>mc_bits := mc_bits c AND NOT b\<rparr>"

definition mt_update :: "u32 \<Rightarrow> lua_value \<Rightarrow> mt_cache_data \<Rightarrow> mt_cache_data" where
  "mt_update b v c = (if is_nil v then mt_clear_bit b c else mt_set_bit b c)"

definition mt_cache_new :: "heap \<Rightarrow> u32 \<Rightarrow> heap \<times> addr" where
  "mt_cache_new h bits = (let a = h_next_mt h in
     (h\<lparr>h_mts := (h_mts h)(a := \<lparr>mc_bits = bits, mc_dict_sentinel = None\<rparr>),
        h_next_mt := Suc a\<rparr>, a))"

section \<open>Shapes\<close>

definition root_empty_data :: shape_data where
  "root_empty_data = \<lparr>sd_parent = None, sd_last_key = None, sd_slot_count = 0,
     sd_mt_cache = None, sd_is_dict = False, sd_by_prop = Map.empty, sd_by_mt = Map.empty,
     sd_descriptors = []\<rparr>"

definition root_empty :: "heap \<Rightarrow> heap \<times> addr" where
  "root_empty h = alloc_shape h root_empty_data"

definition dict_sentinel_data :: "addr option \<Rightarrow> shape_data" where
  "dict_sentinel_data mt = \<lparr>sd_parent = None, sd_last_key = None, sd_slot_count = 0,
     sd_mt_cache = mt, sd_is_dict = True, sd_by_prop = Map.empty, sd_by_mt = Map.empty,
     sd_descriptors = []\<rparr>"

definition dict_sentinel :: "heap \<Rightarrow> addr option \<Rightarrow> heap \<times> addr" where
  "dict_sentinel h mt = alloc_shape h (dict_sentinel_data mt)"

definition ensure_dict_sentinel :: "heap \<Rightarrow> addr \<Rightarrow> heap \<times> addr" where
  "ensure_dict_sentinel h c =
     (case mc_dict_sentinel (h_mts h c) of
        Some s \<Rightarrow> (h, s)
      | None \<Rightarrow> (let (h1, s) = dict_sentinel h (Some c)
                 in (upd_mt h1 c (\<lambda>d. d\<lparr>mc_dict_sentinel := Some s\<rparr>), s)))"

fun find_descr :: "(bytes \<times> nat) list \<Rightarrow> bytes \<Rightarrow> nat option" where
  "find_descr [] key = None"
| "find_descr ((k, slot) # ds) key = (if k = key then Some slot else find_descr ds key)"

definition find_slot :: "heap \<Rightarrow> addr \<Rightarrow> bytes \<Rightarrow> nat option" where
  "find_slot h s key = find_descr (sd_descriptors (h_shapes h s)) key"

definition contains_bit :: "u32 \<Rightarrow> u32 \<Rightarrow> bool" where
  "contains_bit bits b \<longleftrightarrow> bits AND b = b"

definition has_mm :: "heap \<Rightarrow> addr \<Rightarrow> u32 \<Rightarrow> bool" where
  "has_mm h s b = (case sd_mt_cache (h_shapes h s) of
      None \<Rightarrow> False
    | Some c \<Rightarrow> contains_bit (mc_bits (h_mts h c)) b)"

definition has_any_mm :: "heap \<Rightarrow> addr \<Rightarrow> bool" where
  "has_any_mm h s = (case sd_mt_cache (h_shapes h s) of
      None \<Rightarrow> False
    | Some c \<Rightarrow> mc_bits (h_mts h c) \<noteq> 0)"

section \<open>Transitions\<close>

definition transition_add_prop :: "heap \<Rightarrow> addr \<Rightarrow> bytes \<Rightarrow> heap \<times> addr" where
  "transition_add_prop h parent key =
     (let pd = h_shapes h parent in
      case Option.bind (sd_by_prop pd key) (upgrade_shape h) of
        Some child \<Rightarrow> (h, child)
      | None \<Rightarrow>
          (let new_slot = sd_slot_count pd;
               (h1, child) = alloc_shape h
                 \<lparr>sd_parent = Some parent, sd_last_key = Some key,
                  sd_slot_count = new_slot + 1, sd_mt_cache = sd_mt_cache pd,
                  sd_is_dict = False, sd_by_prop = Map.empty, sd_by_mt = Map.empty,
                  sd_descriptors = sd_descriptors pd @ [(key, new_slot)]\<rparr>
           in (upd_shape h1 parent (\<lambda>d. d\<lparr>sd_by_prop := (sd_by_prop d)(key \<mapsto> child)\<rparr>), child)))"

definition transition_set_metatable ::
  "heap \<Rightarrow> addr \<Rightarrow> addr option \<Rightarrow> addr \<Rightarrow> heap \<times> addr" where
  "transition_set_metatable h parent new_mt no_mt_dict_sentinel =
     (let pd = h_shapes h parent in
      if sd_is_dict pd then
        (case new_mt of
           Some c \<Rightarrow> ensure_dict_sentinel h c
         | None \<Rightarrow> (h, no_mt_dict_sentinel))
      else
        (case Option.bind (sd_by_mt pd new_mt) (upgrade_shape h) of
           Some child \<Rightarrow> (h, child)
         | None \<Rightarrow>
             (let (h1, child) = alloc_shape h
                 \<lparr>sd_parent = Some parent, sd_last_key = None,
                  sd_slot_count = sd_slot_count pd, sd_mt_cache = new_mt,
                  sd_is_dict = False, sd_by_prop = Map.empty, sd_by_mt = Map.empty,
                  sd_descriptors = sd_descriptors pd\<rparr>
              in (upd_shape h1 parent (\<lambda>d. d\<lparr>sd_by_mt := (sd_by_mt d)(new_mt \<mapsto> child)\<rparr>), child))))"

text \<open>The collector dropping a shape no strong pointer reaches: its weak edges go dead.\<close>

definition drop_shape :: "heap \<Rightarrow> addr \<Rightarrow> heap" where
  "drop_shape h a = h\<lparr>h_live := (h_live h)(a := False)\<rparr>"

end
