(* ===== verification/ShapeLemmas.thy ===== *)
theory ShapeLemmas
  imports Shape
begin

text \<open>
  The well-formedness of the shape tree and what each operation of theory Shape keeps:
  slots are numbered in insertion order, keys of one shape are distinct, an edge leads to a
  shape that really extends its parent, and the layout of an allocated shape never changes.
\<close>

section \<open>Well-formedness\<close>

type_synonym shape_layout = "nat \<times> addr option \<times> bool \<times> (bytes \<times> nat) list"

definition layout :: "shape_data \<Rightarrow> shape_layout" where
  "layout d = (sd_slot_count d, sd_mt_cache d, sd_is_dict d, sd_descriptors d)"

definition prop_child :: "shape_data \<Rightarrow> bytes \<Rightarrow> shape_layout" where
  "prop_child d k = (sd_slot_count d + 1, sd_mt_cache d, False,
     sd_descriptors d @ [(k, sd_slot_count d)])"

definition mt_child :: "shape_data \<Rightarrow> addr option \<Rightarrow> shape_layout" where
  "mt_child d m = (sd_slot_count d, m, False, sd_descriptors d)"

definition layout_ok :: "shape_data \<Rightarrow> bool" where
  "layout_ok d \<longleftrightarrow> map snd (sd_descriptors d) = [0..<sd_slot_count d]
     \<and> distinct (map fst (sd_descriptors d)) \<and> (sd_is_dict d \<longrightarrow> sd_descriptors d = [])"

definition edges_ok :: "heap \<Rightarrow> shape_data \<Rightarrow> bool" where
  "edges_ok h d \<longleftrightarrow>
     (\<forall>k c. sd_by_prop d k = Some c \<longrightarrow>
        c < h_next_shape h \<and> \<not> sd_is_dict d \<and> layout (h_shapes h c) = prop_child d k)
   \<and> (\<forall>m c. sd_by_mt d m = Some c \<longrightarrow>
        c < h_next_shape h \<and> \<not> sd_is_dict d \<and> layout (h_shapes h c) = mt_child d m)
   \<and> (\<forall>c. sd_mt_cache d = Some c \<longrightarrow> c < h_next_mt h)"

definition sentinel_ok :: "heap \<Rightarrow> addr option \<Rightarrow> addr \<Rightarrow> bool" where
  "sentinel_ok h mt s \<longleftrightarrow> s < h_next_shape h \<and> layout (h_shapes h s) = (0, mt, True, [])"

definition shapes_inv :: "heap \<Rightarrow> bool" where
  "shapes_inv h \<longleftrightarrow>
     (\<forall>a < h_next_shape h. layout_ok (h_shapes h a) \<and> edges_ok h (h_shapes h a))
   \<and> (\<forall>c s. c < h_next_mt h \<longrightarrow> mc_dict_sentinel (h_mts h c) = Some s \<longrightarrow> sentinel_ok h (Some c) s)
   \<and> h_empty_shape h < h_next_shape h
   \<and> layout (h_shapes h (h_empty_shape h)) = (0, None, False, [])
   \<and> sentinel_ok h None (h_empty_dict_sentinel h)"

text \<open>What no shape operation touches, and how the stores may grow.\<close>

definition shapes_extend :: "heap \<Rightarrow> heap \<Rightarrow> bool" where
  "shapes_extend h h' \<longleftrightarrow> h_next_shape h \<le> h_next_shape h'
     \<and> (\<forall>a < h_next_shape h. layout (h_shapes h' a) = layout (h_shapes h a))
     \<and> h_tables h' = h_tables h \<and> h_next_table h' = h_next_table h
     \<and> h_next_mt h' = h_next_mt h \<and> (\<forall>c. mc_bits (h_mts h' c) = mc_bits (h_mts h c))
     \<and> h_empty_shape h' = h_empty_shape h
     \<and> h_empty_dict_sentinel h' = h_empty_dict_sentinel h"

lemma shapes_extend_refl [simp]: "shapes_extend h h"
  by (simp add: shapes_extend_def)

lemma shapes_extend_trans:
  "shapes_extend h h' \<Longrightarrow> shapes_extend h' h'' \<Longrightarrow> shapes_extend h h''"
  by (auto simp: shapes_extend_def)

lemma shapes_extend_layout:
  "shapes_extend h h' \<Longrightarrow> a < h_next_shape h \<Longrightarrow> layout (h_shapes h' a) = layout (h_shapes h a)"
  by (simp add: shapes_extend_def)

lemma shapes_extend_less:
  "shapes_extend h h' \<Longrightarrow> a < h_next_shape h \<Longrightarrow> a < h_next_shape h'"
  by (simp add: shapes_extend_def)

lemma shapes_extend_frame:
  assumes "shapes_extend h h'"
  shows "h_tables h' = h_tables h" "h_next_table h' = h_next_table h"
    "h_next_mt h' = h_next_mt h" "mc_bits (h_mts h' c) = mc_bits (h_mts h c)"
    "h_empty_shape h' = h_empty_shape h" "h_empty_dict_sentinel h' = h_empty_dict_sentinel h"
  using assms by (simp_all add: shapes_extend_def)

lemma layout_eq_iff:
  "layout d = layout e \<longleftrightarrow> sd_slot_count d = sd_slot_count e \<and> sd_mt_cache d = sd_mt_cache e
     \<and> sd_is_dict d = sd_is_dict e \<and> sd_descriptors d = sd_descriptors e"
  by (simp add: layout_def)

lemma layout_ok_cong: "layout d = layout e \<Longrightarrow> layout_ok d = layout_ok e"
  by (simp add: layout_ok_def layout_def)

section \<open>Lookup in a layout\<close>

lemma find_descr_Some_iff:
  "distinct (map fst ds) \<Longrightarrow> find_descr ds k = Some i \<longleftrightarrow> (k, i) \<in> set ds"
  by (induction ds k rule: find_descr.induct) (auto simp: rev_image_eqI)

lemma find_descr_None_iff: "find_descr ds k = None \<longleftrightarrow> k \<notin> fst ` set ds"
  by (induction ds k rule: find_descr.induct) auto

lemma find_descr_append:
  "find_descr (xs @ ys) k = (case find_descr xs k of Some i \<Rightarrow> Some i | None \<Rightarrow> find_descr ys k)"
  by (induction xs k rule: find_descr.induct) auto

lemma find_descr_bound:
  assumes "layout_ok d" and "find_descr (sd_descriptors d) k = Some i"
  shows "i < sd_slot_count d"
proof -
  have "(k, i) \<in> set (sd_descriptors d)"
    using assms by (simp add: find_descr_Some_iff layout_ok_def)
  then have "i \<in> set (map snd (sd_descriptors d))" by force
  moreover have "map snd (sd_descriptors d) = [0..<sd_slot_count d]"
    using assms(1) by (simp add: layout_ok_def)
  ultimately show ?thesis by (simp only: set_upt atLeastLessThan_iff)
qed

lemma find_slot_bound:
  "shapes_inv h \<Longrightarrow> s < h_next_shape h \<Longrightarrow> find_slot h s k = Some i \<Longrightarrow> i < sd_slot_count (h_shapes h s)"
  unfolding shapes_inv_def find_slot_def by (blast intro: find_descr_bound)

lemma find_slot_inj:
  assumes inv: "shapes_inv h" and s: "s < h_next_shape h"
    and "find_slot h s k = Some i" "find_slot h s k' = Some i"
  shows "k = k'"
proof -
  let ?ds = "sd_descriptors (h_shapes h s)"
  have ok: "layout_ok (h_shapes h s)" using inv s by (simp add: shapes_inv_def)
  then have mem: "(k, i) \<in> set ?ds" "(k', i) \<in> set ?ds"
    using assms(3,4) by (simp_all add: layout_ok_def find_slot_def find_descr_Some_iff)
  have "distinct (map snd ?ds)" using ok by (simp add: layout_ok_def)
  then have "inj_on snd (set ?ds)" by (simp add: distinct_map)
  from inj_onD [OF this _ mem] show ?thesis by simp
qed

lemma find_slot_extend:
  "shapes_extend h h' \<Longrightarrow> s < h_next_shape h \<Longrightarrow> find_slot h' s k = find_slot h s k"
  by (simp add: shapes_extend_def find_slot_def layout_eq_iff)

lemma has_mm_extend:
  "shapes_extend h h' \<Longrightarrow> s < h_next_shape h \<Longrightarrow> has_mm h' s b = has_mm h s b"
  by (simp add: shapes_extend_def has_mm_def layout_eq_iff split: option.split)

section \<open>Allocation\<close>

lemma alloc_shape_extend: "alloc_shape h d = (h', a) \<Longrightarrow> shapes_extend h h'"
  by (auto simp: alloc_shape_def shapes_extend_def Let_def)

lemma upd_shape_extend:
  "(\<And>d. layout (f d) = layout d) \<Longrightarrow> shapes_extend h (upd_shape h a f)"
  by (auto simp: upd_shape_def shapes_extend_def)

lemma upd_mt_extend:
  "(\<And>d. mc_bits (f d) = mc_bits d) \<Longrightarrow> shapes_extend h (upd_mt h c f)"
  by (auto simp: upd_mt_def shapes_extend_def)

lemma edges_ok_extend:
  "edges_ok h d \<Longrightarrow> shapes_extend h h' \<Longrightarrow> edges_ok h' d"
  unfolding edges_ok_def
  by (blast intro: shapes_extend_less shapes_extend_layout [THEN trans] shapes_extend_frame(3) [THEN ssubst])

lemma sentinel_ok_extend:
  "sentinel_ok h mt s \<Longrightarrow> shapes_extend h h' \<Longrightarrow> sentinel_ok h' mt s"
  unfolding sentinel_ok_def by (blast intro: shapes_extend_less shapes_extend_layout [THEN trans])

lemma alloc_shape_inv:
  assumes inv: "shapes_inv h" and al: "alloc_shape h d = (h', a)"
    and ok: "layout_ok d" "edges_ok h d"
  shows "shapes_inv h'" and "a = h_next_shape h" and "h_shapes h' a = d"
    and "a < h_next_shape h'"
proof -
  have ext: "shapes_extend h h'" using al by (rule alloc_shape_extend)
  have new: "a = h_next_shape h" "h_shapes h' a = d" "h_next_shape h' = Suc a"
    and old: "\<And>b. b < a \<Longrightarrow> h_shapes h' b = h_shapes h b"
    and mts: "h_mts h' = h_mts h" "h_next_mt h' = h_next_mt h"
    and fixed: "h_empty_shape h' = h_empty_shape h"
      "h_empty_dict_sentinel h' = h_empty_dict_sentinel h"
    using al by (auto simp: alloc_shape_def Let_def)
  have "layout_ok (h_shapes h' b) \<and> edges_ok h' (h_shapes h' b)" if "b < h_next_shape h'" for b
  proof (cases "b = a")
    case True
    then show ?thesis using ok new edges_ok_extend [OF ok(2) ext] by simp
  next
    case False
    then have "b < a" using that new by simp
    then show ?thesis using inv new old edges_ok_extend [OF _ ext]
      by (auto simp: shapes_inv_def)
  qed
  then show "shapes_inv h'"
    using inv sentinel_ok_extend [OF _ ext] mts fixed new old
    by (auto simp: shapes_inv_def)
  show "a = h_next_shape h" "h_shapes h' a = d" "a < h_next_shape h'" using new by simp_all
qed

text \<open>Adding an edge that really leads to a child keeps the tree well-formed.\<close>

lemma upd_edge_inv:
  assumes inv: "shapes_inv h" and lay: "\<And>d. layout (f d) = layout d"
    and ok: "edges_ok h (f (h_shapes h a))"
  shows "shapes_inv (upd_shape h a f)"
proof -
  let ?h = "upd_shape h a f"
  have ext: "shapes_extend h ?h" using lay by (rule upd_shape_extend)
  have "layout_ok (h_shapes ?h b) \<and> edges_ok ?h (h_shapes ?h b)" if "b < h_next_shape ?h" for b
  proof (cases "b = a")
    case True
    then show ?thesis
      using that inv edges_ok_extend [OF ok ext] layout_ok_cong [OF lay, of "h_shapes h a"]
      by (auto simp: upd_shape_def shapes_inv_def)
  next
    case False
    then show ?thesis using that inv edges_ok_extend [OF _ ext]
      by (auto simp: upd_shape_def shapes_inv_def)
  qed
  moreover have "layout (h_shapes ?h b) = layout (h_shapes h b)" for b
    using lay by (simp add: upd_shape_def)
  ultimately show ?thesis
    using inv sentinel_ok_extend [OF _ ext] unfolding shapes_inv_def
    by (auto simp: upd_shape_def)
qed

lemma upd_mt_inv:
  assumes inv: "shapes_inv h" and bits: "\<And>d. mc_bits (f d) = mc_bits d"
    and s: "\<And>s. mc_dict_sentinel (f (h_mts h c)) = Some s \<Longrightarrow> sentinel_ok h (Some c) s"
  shows "shapes_inv (upd_mt h c f)"
proof -
  let ?h = "upd_mt h c f"
  have ext: "shapes_extend h ?h" using bits by (rule upd_mt_extend)
  show ?thesis
    using inv s edges_ok_extend [OF _ ext] sentinel_ok_extend [OF _ ext]
    unfolding shapes_inv_def by (auto simp: upd_mt_def)
qed

section \<open>The operations\<close>

lemma ensure_dict_sentinel_spec:
  assumes inv: "shapes_inv h" and c: "c < h_next_mt h"
    and eq: "ensure_dict_sentinel h c = (h', s)"
  shows "shapes_inv h'" and "shapes_extend h h'" and "sentinel_ok h' (Some c) s"
proof -
  have "shapes_inv h' \<and> shapes_extend h h' \<and> sentinel_ok h' (Some c) s"
  proof (cases "mc_dict_sentinel (h_mts h c)")
    case (Some t)
    then show ?thesis using inv c eq by (auto simp: ensure_dict_sentinel_def shapes_inv_def)
  next
    case None
    obtain h1 where al: "alloc_shape h (dict_sentinel_data (Some c)) = (h1, s)"
      and h': "h' = upd_mt h1 c (\<lambda>d. d\<lparr>mc_dict_sentinel := Some s\<rparr>)"
      using eq None by (auto simp: ensure_dict_sentinel_def dict_sentinel_def split: prod.splits)
    have ok: "layout_ok (dict_sentinel_data (Some c))" "edges_ok h (dict_sentinel_data (Some c))"
      using c by (simp_all add: dict_sentinel_data_def layout_ok_def edges_ok_def)
    note a = alloc_shape_inv [OF inv al ok]
    have s1: "sentinel_ok h1 (Some c) s"
      using a by (simp add: sentinel_ok_def layout_def dict_sentinel_data_def)
    have "shapes_inv h'" unfolding h' by (rule upd_mt_inv [OF a(1)]) (use s1 in auto)
    moreover have ext: "shapes_extend h1 h'" unfolding h' by (rule upd_mt_extend) simp
    ultimately show ?thesis
      using s1 sentinel_ok_extend [OF s1 ext] shapes_extend_trans [OF alloc_shape_extend [OF al] ext]
      by blast
  qed
  then show "shapes_inv h'" "shapes_extend h h'" "sentinel_ok h' (Some c) s" by auto
qed

lemma layout_ok_prop_child:
  assumes "layout_ok d" and "\<not> sd_is_dict d" and "find_descr (sd_descriptors d) k = None"
    and "layout e = prop_child d k"
  shows "layout_ok e"
  using assms by (auto simp: layout_ok_def layout_def prop_child_def find_descr_None_iff)

lemma transition_add_prop_spec:
  assumes inv: "shapes_inv h" and p: "p < h_next_shape h" and nd: "\<not> sd_is_dict (h_shapes h p)"
    and new: "find_slot h p k = None"
    and eq: "transition_add_prop h p k = (h', s)"
  shows "shapes_inv h'" and "shapes_extend h h'" and "s < h_next_shape h'"
    and "layout (h_shapes h' s) = prop_child (h_shapes h p) k"
proof -
  let ?pd = "h_shapes h p"
  have pok: "layout_ok ?pd" "edges_ok h ?pd" using inv p by (auto simp: shapes_inv_def)
  have "shapes_inv h' \<and> shapes_extend h h' \<and> s < h_next_shape h'
      \<and> layout (h_shapes h' s) = prop_child ?pd k"
  proof (cases "Option.bind (sd_by_prop ?pd k) (upgrade_shape h)")
    case (Some c)
    then have "sd_by_prop ?pd k = Some c" and "s = c" "h' = h"
      using eq by (auto simp: transition_add_prop_def upgrade_shape_def bind_eq_Some_conv split: if_splits)
    then show ?thesis using pok inv by (auto simp: edges_ok_def)
  next
    case None
    define d where "d = \<lparr>sd_parent = Some p, sd_last_key = Some k,
      sd_slot_count = sd_slot_count ?pd + 1, sd_mt_cache = sd_mt_cache ?pd,
      sd_is_dict = False, sd_by_prop = Map.empty, sd_by_mt = Map.empty,
      sd_descriptors = sd_descriptors ?pd @ [(k, sd_slot_count ?pd)]\<rparr>"
    define f where "f = (\<lambda>e :: shape_data. e\<lparr>sd_by_prop := (sd_by_prop e)(k \<mapsto> s)\<rparr>)"
    obtain h1 where al: "alloc_shape h d = (h1, s)" and h': "h' = upd_shape h1 p f"
      using eq None by (auto simp: transition_add_prop_def Let_def d_def f_def split: prod.splits)
    have ld: "layout d = prop_child ?pd k" by (simp add: layout_def prop_child_def d_def)
    have lok: "layout_ok d"
      using pok nd new ld by (auto intro: layout_ok_prop_child simp: find_slot_def)
    have eok: "edges_ok h d" using pok by (auto simp: edges_ok_def d_def)
    note a = alloc_shape_inv [OF inv al lok eok]
    have ext1: "shapes_extend h h1" by (rule alloc_shape_extend [OF al])
    have same: "h_shapes h1 p = ?pd" using al p by (auto simp: alloc_shape_def Let_def)
    have lf: "layout (f e) = layout e" for e by (simp add: f_def layout_def)
    have "edges_ok h1 (f ?pd)"
      using edges_ok_extend [OF pok(2) ext1] a nd ld
      by (auto simp: edges_ok_def f_def prop_child_def mt_child_def)
    then have "shapes_inv h'" unfolding h' using a(1) lf same by (intro upd_edge_inv) simp_all
    moreover have ext: "shapes_extend h1 h'" unfolding h' using lf by (rule upd_shape_extend)
    moreover have "layout (h_shapes h' s) = prop_child ?pd k"
      using shapes_extend_layout [OF ext a(4)] a(3) ld by simp
    moreover have "s < h_next_shape h'" using ext a(4) by (simp add: shapes_extend_def)
    ultimately show ?thesis using shapes_extend_trans [OF ext1 ext] by blast
  qed
  then show "shapes_inv h'" "shapes_extend h h'" "s < h_next_shape h'"
    "layout (h_shapes h' s) = prop_child ?pd k" by auto
qed

definition target_layout :: "shape_data \<Rightarrow> addr option \<Rightarrow> shape_layout" where
  "target_layout d mt = (if sd_is_dict d then (0, mt, True, []) else mt_child d mt)"

lemma transition_set_metatable_spec:
  assumes inv: "shapes_inv h" and p: "p < h_next_shape h"
    and m: "\<And>c. mt = Some c \<Longrightarrow> c < h_next_mt h"
    and eq: "transition_set_metatable h p mt (h_empty_dict_sentinel h) = (h', s)"
  shows "shapes_inv h'" and "shapes_extend h h'" and "s < h_next_shape h'"
    and "layout (h_shapes h' s) = target_layout (h_shapes h p) mt"
proof -
  let ?pd = "h_shapes h p"
  have pok: "layout_ok ?pd" "edges_ok h ?pd" using inv p by (auto simp: shapes_inv_def)
  have "shapes_inv h' \<and> shapes_extend h h' \<and> s < h_next_shape h'
      \<and> layout (h_shapes h' s) = target_layout ?pd mt"
  proof (cases "sd_is_dict ?pd")
    case dict: True
    show ?thesis
    proof (cases mt)
      case None
      then show ?thesis using dict eq inv
        by (auto simp: transition_set_metatable_def shapes_inv_def sentinel_ok_def target_layout_def)
    next
      case (Some c)
      then have "ensure_dict_sentinel h c = (h', s)"
        using dict eq by (simp add: transition_set_metatable_def)
      note e = ensure_dict_sentinel_spec [OF inv m [OF Some] this]
      show ?thesis using e Some dict by (auto simp: sentinel_ok_def target_layout_def)
    qed
  next
    case nd: False
    show ?thesis
    proof (cases "Option.bind (sd_by_mt ?pd mt) (upgrade_shape h)")
      case (Some c)
      then have "sd_by_mt ?pd mt = Some c" and "s = c" "h' = h"
        using eq nd
        by (auto simp: transition_set_metatable_def upgrade_shape_def bind_eq_Some_conv split: if_splits)
      then show ?thesis using pok inv nd by (auto simp: edges_ok_def target_layout_def)
    next
      case None
      define d where "d = \<lparr>sd_parent = Some p, sd_last_key = None,
        sd_slot_count = sd_slot_count ?pd, sd_mt_cache = mt, sd_is_dict = False,
        sd_by_prop = Map.empty, sd_by_mt = Map.empty, sd_descriptors = sd_descriptors ?pd\<rparr>"
      define f where "f = (\<lambda>e :: shape_data. e\<lparr>sd_by_mt := (sd_by_mt e)(mt \<mapsto> s)\<rparr>)"
      obtain h1 where al: "alloc_shape h d = (h1, s)" and h': "h' = upd_shape h1 p f"
        using eq None nd
        by (auto simp: transition_set_metatable_def Let_def d_def f_def split: prod.splits)
      have ld: "layout d = mt_child ?pd mt" by (simp add: layout_def mt_child_def d_def)
      have lok: "layout_ok d" using pok nd by (auto simp: layout_ok_def d_def)
      have eok: "edges_ok h d" using m by (auto simp: edges_ok_def d_def)
      note a = alloc_shape_inv [OF inv al lok eok]
      have ext1: "shapes_extend h h1" by (rule alloc_shape_extend [OF al])
      have same: "h_shapes h1 p = ?pd" using al p by (auto simp: alloc_shape_def Let_def)
      have lf: "layout (f e) = layout e" for e by (simp add: f_def layout_def)
      have "edges_ok h1 (f ?pd)"
        using edges_ok_extend [OF pok(2) ext1] a nd ld
        by (auto simp: edges_ok_def f_def prop_child_def mt_child_def)
      then have "shapes_inv h'" unfolding h' using a(1) lf same by (intro upd_edge_inv) simp_all
      moreover have ext: "shapes_extend h1 h'" unfolding h' using lf by (rule upd_shape_extend)
      moreover have "layout (h_shapes h' s) = target_layout ?pd mt"
        using shapes_extend_layout [OF ext a(4)] a(3) ld nd by (simp add: target_layout_def)
      moreover have "s < h_next_shape h'" using ext a(4) by (simp add: shapes_extend_def)
      ultimately show ?thesis using shapes_extend_trans [OF ext1 ext] by blast
    qed
  qed
  then show "shapes_inv h'" "shapes_extend h h'" "s < h_next_shape h'"
    "layout (h_shapes h' s) = target_layout ?pd mt" by auto
qed

end
