(* ===== verification/Tables.thy ===== *)
theory Tables
  imports ShapeLemmas
begin

text \<open>
  \<open>env/table/mod.rs\<close>: Lua tables. String keys live in slots described by the table's
  shape (fast mode) or in a private hash table (dictionary mode), positive integer keys in the
  array part, everything else in a fallback hash. A panic of the source is the outer \<open>None\<close>.
\<close>

section \<open>Keys\<close>

text \<open>\<open>array_index\<close>: the 1-based index of an array key.\<close>

definition array_index :: "lua_value \<Rightarrow> nat option" where
  "array_index key =
     (case key of
        VInt i \<Rightarrow> if 1 \<le> sint i then Some (nat (sint i)) else None
      | VFloat f \<Rightarrow>
          (let i = i64_of_f64 f in
           if 1 \<le> sint i \<and> f64_eq (f64_of_i64 i) f then Some (nat (sint i)) else None)
      | _ \<Rightarrow> None)"

text \<open>A \<open>Vec\<close> of 16-byte values holds fewer than \<open>2 ^ 59\<close> elements: \<open>resize\<close>
  beyond that panics with a capacity overflow.\<close>

definition max_vec_len :: nat where "max_vec_len = 2 ^ 59 - 1"

section \<open>Reading\<close>

definition upd_table :: "heap \<Rightarrow> addr \<Rightarrow> (table_state \<Rightarrow> table_state) \<Rightarrow> heap" where
  "upd_table h t f = h\<lparr>h_tables := (h_tables h)(t := f (h_tables h t))\<rparr>"

definition new_table_state :: "addr \<Rightarrow> table_state" where
  "new_table_state s = \<lparr>ts_shape = s, ts_properties = [], ts_array = [],
     ts_misc_hash = Map.empty, ts_dict = None, ts_metatable = None, ts_mt_cache = None\<rparr>"

definition table_new :: "heap \<Rightarrow> heap \<times> addr" where
  "table_new h = (let t = h_next_table h in
     (h\<lparr>h_tables := (h_tables h)(t := new_table_state (h_empty_shape h)),
        h_next_table := Suc t\<rparr>, t))"

definition opt_value :: "lua_value option \<Rightarrow> lua_value" where
  "opt_value x = (case x of Some v \<Rightarrow> v | None \<Rightarrow> VNil)"

definition get_string_key :: "heap \<Rightarrow> table_state \<Rightarrow> bytes \<Rightarrow> lua_value option" where
  "get_string_key h ts key =
     (case ts_dict ts of
        Some d \<Rightarrow> Some (opt_value (d key))
      | None \<Rightarrow>
          (case find_slot h (ts_shape ts) key of
             Some slot \<Rightarrow> idx (ts_properties ts) slot
           | None \<Rightarrow> Some VNil))"

definition misc_hash_get :: "table_state \<Rightarrow> lua_value \<Rightarrow> lua_value" where
  "misc_hash_get ts key = opt_value (ts_misc_hash ts key)"

definition raw_get :: "heap \<Rightarrow> addr \<Rightarrow> lua_value \<Rightarrow> lua_value option" where
  "raw_get h t key =
     (let ts = h_tables h t in
      case get_string key of
        Some s \<Rightarrow> get_string_key h ts s
      | None \<Rightarrow>
          (case array_index key of
             Some index \<Rightarrow> Some (opt_value (get_at (ts_array ts) (index - 1)))
           | None \<Rightarrow> Some (misc_hash_get ts key)))"

definition raw_len :: "heap \<Rightarrow> addr \<Rightarrow> nat" where
  "raw_len h t = length (ts_array (h_tables h t))"

section \<open>Writing\<close>

definition maybe_update_mt_bit :: "heap \<Rightarrow> addr \<Rightarrow> lua_value \<Rightarrow> lua_value \<Rightarrow> heap" where
  "maybe_update_mt_bit h t key v =
     (case get_string key of
        None \<Rightarrow> h
      | Some s \<Rightarrow>
          (case ts_mt_cache (h_tables h t) of
             None \<Rightarrow> h
           | Some cache \<Rightarrow>
               (case metamethod_bit_of_bytes s of
                  None \<Rightarrow> h
                | Some b \<Rightarrow> upd_mt h cache (mt_update b v))))"

definition dict_store :: "(bytes \<rightharpoonup> lua_value) \<Rightarrow> bytes \<Rightarrow> lua_value \<Rightarrow> (bytes \<rightharpoonup> lua_value)" where
  "dict_store d key v =
     (case d key of
        Some _ \<Rightarrow> if is_nil v then d(key := None) else d(key \<mapsto> v)
      | None \<Rightarrow> if is_nil v then d else d(key \<mapsto> v))"

definition set_string_key_dict :: "heap \<Rightarrow> addr \<Rightarrow> bytes \<Rightarrow> lua_value \<Rightarrow> heap option" where
  "set_string_key_dict h t key v =
     (case ts_dict (h_tables h t) of
        None \<Rightarrow> None
      | Some d \<Rightarrow>
          Some (maybe_update_mt_bit
            (upd_table h t (\<lambda>ts. ts\<lparr>ts_dict := Some (dict_store d key v)\<rparr>)) t (VStr key) v))"

fun copy_slots :: "lua_value list \<Rightarrow> (bytes \<times> nat) list \<Rightarrow> (bytes \<rightharpoonup> lua_value) \<Rightarrow>
    (bytes \<rightharpoonup> lua_value) option" where
  "copy_slots ps [] d = Some d"
| "copy_slots ps ((k, slot) # ds) d =
     (case idx ps slot of
        None \<Rightarrow> None
      | Some v \<Rightarrow> copy_slots ps ds (if is_nil v then d else d(k \<mapsto> v)))"

definition migrate_to_dict :: "heap \<Rightarrow> addr \<Rightarrow> heap option" where
  "migrate_to_dict h t =
     (let ts = h_tables h t in
      case copy_slots (ts_properties ts) (sd_descriptors (h_shapes h (ts_shape ts))) Map.empty of
        None \<Rightarrow> None
      | Some d \<Rightarrow>
          (let (h1, s) = (case sd_mt_cache (h_shapes h (ts_shape ts)) of
                            Some c \<Rightarrow> ensure_dict_sentinel h c
                          | None \<Rightarrow> (h, h_empty_dict_sentinel h))
           in Some (upd_table h1 t
                (\<lambda>ts. ts\<lparr>ts_properties := [], ts_shape := s, ts_dict := Some d\<rparr>))))"

definition set_string_key :: "heap \<Rightarrow> addr \<Rightarrow> bytes \<Rightarrow> lua_value \<Rightarrow> heap option" where
  "set_string_key h t key v =
     (let ts = h_tables h t in
      if ts_dict ts \<noteq> None then set_string_key_dict h t key v
      else
        (case find_slot h (ts_shape ts) key of
           Some slot \<Rightarrow>
             if is_nil v then
               Option.bind (migrate_to_dict h t) (\<lambda>h1. set_string_key_dict h1 t key v)
             else
               Option.bind (idx_set (ts_properties ts) slot v)
                 (\<lambda>ps. Some (maybe_update_mt_bit (upd_table h t (\<lambda>ts. ts\<lparr>ts_properties := ps\<rparr>))
                    t (VStr key) v))
         | None \<Rightarrow>
             if max_properties_fast \<le> sd_slot_count (h_shapes h (ts_shape ts)) then
               Option.bind (migrate_to_dict h t) (\<lambda>h1. set_string_key_dict h1 t key v)
             else
               (let (h1, s) = transition_add_prop h (ts_shape ts) key
                in Some (maybe_update_mt_bit
                     (upd_table h1 t (\<lambda>ts. ts\<lparr>ts_shape := s,
                        ts_properties := ts_properties ts @ [v]\<rparr>)) t (VStr key) v))))"

definition misc_hash_set :: "table_state \<Rightarrow> lua_value \<Rightarrow> lua_value \<Rightarrow> table_state" where
  "misc_hash_set ts key v =
     (case ts_misc_hash ts key of
        Some _ \<Rightarrow> ts\<lparr>ts_misc_hash := (ts_misc_hash ts)(key := if is_nil v then None else Some v)\<rparr>
      | None \<Rightarrow> ts\<lparr>ts_misc_hash := (ts_misc_hash ts)(key \<mapsto> v)\<rparr>)"

definition raw_set :: "heap \<Rightarrow> addr \<Rightarrow> lua_value \<Rightarrow> lua_value \<Rightarrow> heap option" where
  "raw_set h t key v =
     (case get_string key of
        Some s \<Rightarrow> set_string_key h t s v
      | None \<Rightarrow>
          (case array_index key of
             Some index \<Rightarrow>
               (let xs = ts_array (h_tables h t) in
                if length xs < index \<and> max_vec_len < index then None
                else
                  (let ys = (if length xs < index then resize xs index VNil else xs)
                   in Some (upd_table h t (\<lambda>ts. ts\<lparr>ts_array := ys[index - 1 := v]\<rparr>))))
           | None \<Rightarrow>
               if is_nil key then None
               else Some (upd_table h t (\<lambda>ts. misc_hash_set ts key v))))"

section \<open>Metatables\<close>

definition symbols_metamethods :: "(bytes \<times> u32) list" where
  "symbols_metamethods = metamethod_table"

fun initial_bits :: "heap \<Rightarrow> addr \<Rightarrow> (bytes \<times> u32) list \<Rightarrow> u32 \<Rightarrow> u32 option" where
  "initial_bits h t [] bits = Some bits"
| "initial_bits h t ((name, b) # ms) bits =
     (case raw_get h t (VStr name) of
        None \<Rightarrow> None
      | Some v \<Rightarrow> initial_bits h t ms (if is_nil v then bits else bits OR b))"

definition ensure_mt_cache :: "heap \<Rightarrow> addr \<Rightarrow> (heap \<times> addr) option" where
  "ensure_mt_cache h t =
     (case ts_mt_cache (h_tables h t) of
        Some c \<Rightarrow> Some (h, c)
      | None \<Rightarrow>
          (case initial_bits h t symbols_metamethods 0 of
             None \<Rightarrow> None
           | Some bits \<Rightarrow>
               (let (h1, c) = mt_cache_new h bits
                in Some (upd_table h1 t (\<lambda>ts. ts\<lparr>ts_mt_cache := Some c\<rparr>), c))))"

definition set_metatable :: "heap \<Rightarrow> addr \<Rightarrow> addr option \<Rightarrow> heap option" where
  "set_metatable h t mt =
     (case (case mt of
              Some m \<Rightarrow> map_option (\<lambda>(h1, c). (h1, Some c)) (ensure_mt_cache h m)
            | None \<Rightarrow> Some (h, None)) of
        None \<Rightarrow> None
      | Some (h1, new_cache) \<Rightarrow>
          (let (h2, s) = transition_set_metatable h1 (ts_shape (h_tables h1 t)) new_cache
                           (h_empty_dict_sentinel h1)
           in Some (upd_table h2 t (\<lambda>ts. ts\<lparr>ts_shape := s, ts_metatable := mt\<rparr>))))"

definition get_metamethod :: "heap \<Rightarrow> addr \<Rightarrow> bytes \<Rightarrow> lua_value option" where
  "get_metamethod h t name =
     (case ts_metatable (h_tables h t) of
        None \<Rightarrow> Some VNil
      | Some m \<Rightarrow> raw_get h m (VStr name))"

definition property_at :: "heap \<Rightarrow> addr \<Rightarrow> nat \<Rightarrow> lua_value option" where
  "property_at h t slot = idx (ts_properties (h_tables h t)) slot"

end
