(* ===== verification/TableLemmas.thy ===== *)
theory TableLemmas
  imports Tables
begin

text \<open>
  The table invariant and the effect of every table operation on it. Structure: the bit
  algebra of the metamethod cache, the abstract contents of a table, the invariant, then the
  read-after-write law of \<open>raw_set\<close>, branch by branch, and the metatable operations.
\<close>

section \<open>Metamethod bits\<close>

lemma ascii_inj [simp]: "ascii s = ascii t \<longleftrightarrow> s = t"
proof -
  have "inj (\<lambda>c. word_of_nat (of_char c) :: 8 word)"
  proof (rule injI)
    fix c d :: char
    assume "(word_of_nat (of_char c) :: 8 word) = word_of_nat (of_char d)"
    moreover have "(of_char c :: nat) < 2 ^ 8" "(of_char d :: nat) < 2 ^ 8"
      using nat_of_char_less_256 [of c] nat_of_char_less_256 [of d] by simp_all
    ultimately have "(of_char c :: nat) = of_char d"
      by (simp add: word_of_nat_eq_iff take_bit_nat_eq_self)
    then show "c = d" by simp
  qed
  then show ?thesis by (simp add: ascii_def inj_map_eq_map)
qed

lemma contains_bit_iff: "i < 32 \<Longrightarrow> contains_bit x (2 ^ i) \<longleftrightarrow> bit x i"
  unfolding contains_bit_def bit_eq_iff by (auto simp: bit_simps)

lemma metamethod_table_distinct:
  "distinct (map fst metamethod_table)" "distinct (map snd metamethod_names)"
  by (simp_all add: metamethod_table_def metamethod_names_def)

lemma metamethod_bits_bounded: "(n, i) \<in> set metamethod_names \<Longrightarrow> i < 32"
  by (auto simp: metamethod_names_def)

lemma metamethod_table_mem:
  "(n, b) \<in> set metamethod_table \<longleftrightarrow>
     (\<exists>m i. (m, i) \<in> set metamethod_names \<and> n = ascii m \<and> b = 2 ^ i)"
  by (force simp: metamethod_table_def)

lemma starts_with_ascii: "starts_with (ascii s) (ascii p) \<longleftrightarrow> take (length p) s = p"
proof -
  have "take (length p) (ascii s) = ascii (take (length p) s)" by (simp add: ascii_def take_map)
  then show ?thesis by (simp add: starts_with_def) (metis ascii_inj ascii_def length_map)
qed

lemma metamethod_names_prefix: "(n, i) \<in> set metamethod_names \<Longrightarrow> take 2 n = ''__''"
  by (auto simp: metamethod_names_def)

lemma find_map_of: "map_option snd (find (\<lambda>(n, _). n = k) xs) = map_of xs k"
  by (induction xs) auto

lemma metamethod_bit_Some_iff:
  "metamethod_bit_of_bytes k = Some b \<longleftrightarrow> (k, b) \<in> set metamethod_table"
proof -
  have "starts_with k (ascii ''__'')" if "(k, b) \<in> set metamethod_table"
    using that metamethod_names_prefix
    by (auto simp: metamethod_table_mem starts_with_ascii numeral_2_eq_2)
  then show ?thesis
    by (auto simp: metamethod_bit_of_bytes_def find_map_of metamethod_table_distinct
        map_of_eq_Some_iff dest: map_of_SomeD)
qed

lemma mt_update_contains:
  assumes "i < 32" and "j < 32"
  shows "contains_bit (mc_bits (mt_update (2 ^ i) v c)) (2 ^ j)
     \<longleftrightarrow> (if i = j then v \<noteq> VNil else contains_bit (mc_bits c) (2 ^ j))"
  using assms
  by (auto simp: mt_update_def mt_set_bit_def mt_clear_bit_def contains_bit_iff bit_simps)

lemma metamethod_bit_inj:
  assumes "(n, b) \<in> set metamethod_table" and "(m, c) \<in> set metamethod_table"
  shows "n = m \<longleftrightarrow> b = c"
proof -
  obtain n' i m' j where ni: "(n', i) \<in> set metamethod_names" "n = ascii n'" "b = 2 ^ i"
    and mj: "(m', j) \<in> set metamethod_names" "m = ascii m'" "c = 2 ^ j"
    using assms by (auto simp: metamethod_table_mem)
  have inj: "n' = m' \<longleftrightarrow> i = j"
    using ni(1) mj(1) by (simp add: metamethod_names_def) (elim disjE; simp)
  have "b = c \<longleftrightarrow> i = j"
    using ni mj metamethod_bits_bounded [OF ni(1)] metamethod_bits_bounded [OF mj(1)]
    by (metis contains_bit_def contains_bit_iff and.idem bit_exp_iff)
  then show ?thesis using inj ni mj by simp
qed

section \<open>The contents of a table\<close>

text \<open>
  What a key addresses: a string slot, a position of the array part, or an entry of the
  fallback hash. Two keys denote the same entry of a table exactly when their classes agree.
\<close>

datatype key_class = CStr bytes | CArr nat | CMisc lua_value

definition key_class :: "lua_value \<Rightarrow> key_class" where
  "key_class k = (case get_string k of
      Some s \<Rightarrow> CStr s
    | None \<Rightarrow> (case array_index k of Some i \<Rightarrow> CArr (i - 1) | None \<Rightarrow> CMisc k))"

definition str_get :: "heap \<Rightarrow> table_state \<Rightarrow> bytes \<Rightarrow> lua_value" where
  "str_get h ts k = (case ts_dict ts of
      Some d \<Rightarrow> opt_value (d k)
    | None \<Rightarrow> (case find_slot h (ts_shape ts) k of
        Some i \<Rightarrow> ts_properties ts ! i
      | None \<Rightarrow> VNil))"

definition tab_get :: "heap \<Rightarrow> table_state \<Rightarrow> key_class \<Rightarrow> lua_value" where
  "tab_get h ts c = (case c of
      CStr s \<Rightarrow> str_get h ts s
    | CArr i \<Rightarrow> opt_value (get_at (ts_array ts) i)
    | CMisc k \<Rightarrow> opt_value (ts_misc_hash ts k))"

definition contents :: "heap \<Rightarrow> addr \<Rightarrow> key_class \<Rightarrow> lua_value" where
  "contents h t = tab_get h (h_tables h t)"

lemma array_index_pos: "array_index k = Some i \<Longrightarrow> 0 < i"
  by (auto simp: array_index_def Let_def split: lua_value.splits if_splits)

lemma key_class_VStr [simp]: "key_class (VStr s) = CStr s"
  by (simp add: key_class_def)

lemma key_class_VInt: "key_class (VInt i) = (if 1 \<le> sint i then CArr (nat (sint i) - 1) else CMisc (VInt i))"
  by (simp add: key_class_def array_index_def get_string_def)

lemma key_class_CStr_iff: "key_class k = CStr s \<longleftrightarrow> k = VStr s"
  by (auto simp: key_class_def getter_Some_iff split: option.splits)

section \<open>The invariant\<close>

definition mode_ok :: "shape_data \<Rightarrow> table_state \<Rightarrow> bool" where
  "mode_ok sd ts \<longleftrightarrow> (case ts_dict ts of
      None \<Rightarrow> \<not> sd_is_dict sd \<and> length (ts_properties ts) = sd_slot_count sd
              \<and> sd_slot_count sd \<le> max_properties_fast
    | Some d \<Rightarrow> sd_is_dict sd \<and> ts_properties ts = [] \<and> (\<forall>k. d k \<noteq> Some VNil))"

definition cache_of :: "heap \<Rightarrow> addr option \<Rightarrow> addr option" where
  "cache_of h mt = Option.bind mt (\<lambda>m. ts_mt_cache (h_tables h m))"

definition mt_ok :: "heap \<Rightarrow> table_state \<Rightarrow> bool" where
  "mt_ok h ts \<longleftrightarrow> (\<forall>m. ts_metatable ts = Some m \<longrightarrow>
      m < h_next_table h \<and> ts_mt_cache (h_tables h m) \<noteq> None)
    \<and> (\<forall>c. ts_mt_cache ts = Some c \<longrightarrow> c < h_next_mt h)"

definition table_ok :: "heap \<Rightarrow> table_state \<Rightarrow> bool" where
  "table_ok h ts \<longleftrightarrow> ts_shape ts < h_next_shape h \<and> mode_ok (h_shapes h (ts_shape ts)) ts
     \<and> mt_ok h ts \<and> sd_mt_cache (h_shapes h (ts_shape ts)) = cache_of h (ts_metatable ts)"

definition bits_ok :: "heap \<Rightarrow> table_state \<Rightarrow> bool" where
  "bits_ok h ts \<longleftrightarrow> (\<forall>c n b. ts_mt_cache ts = Some c \<longrightarrow> (n, b) \<in> set metamethod_table \<longrightarrow>
      contains_bit (mc_bits (h_mts h c)) b = (str_get h ts n \<noteq> VNil))"

definition caches_inj :: "heap \<Rightarrow> bool" where
  "caches_inj h \<longleftrightarrow> (\<forall>t < h_next_table h. \<forall>u < h_next_table h. \<forall>c.
      ts_mt_cache (h_tables h t) = Some c \<longrightarrow> ts_mt_cache (h_tables h u) = Some c \<longrightarrow> t = u)"

definition heap_inv :: "heap \<Rightarrow> bool" where
  "heap_inv h \<longleftrightarrow> shapes_inv h \<and> caches_inj h
     \<and> (\<forall>t < h_next_table h. table_ok h (h_tables h t) \<and> bits_ok h (h_tables h t))"

lemma heap_invD:
  assumes "heap_inv h"
  shows "shapes_inv h" and "caches_inj h"
    and "t < h_next_table h \<Longrightarrow> table_ok h (h_tables h t)"
    and "t < h_next_table h \<Longrightarrow> bits_ok h (h_tables h t)"
  using assms by (auto simp: heap_inv_def)

lemma slot_in_properties:
  assumes "shapes_inv h" and "table_ok h ts" and "ts_dict ts = None"
    and "find_slot h (ts_shape ts) k = Some i"
  shows "i < length (ts_properties ts)"
proof -
  have "ts_shape ts < h_next_shape h"
    and "length (ts_properties ts) = sd_slot_count (h_shapes h (ts_shape ts))"
    using assms by (auto simp: table_ok_def mode_ok_def)
  then show ?thesis using find_slot_bound [OF assms(1) _ assms(4)] by simp
qed

lemma get_string_key_eq:
  "shapes_inv h \<Longrightarrow> table_ok h ts \<Longrightarrow> get_string_key h ts k = Some (str_get h ts k)"
  by (auto simp: get_string_key_def str_get_def panic_simps slot_in_properties split: option.split)

lemma raw_get_contents:
  assumes "heap_inv h" and "t < h_next_table h"
  shows "raw_get h t k = Some (contents h t (key_class k))"
  using get_string_key_eq [OF heap_invD(1) [OF assms(1)] heap_invD(3) [OF assms]]
  by (auto simp: raw_get_def Let_def contents_def tab_get_def key_class_def misc_hash_get_def
      split: option.splits)

section \<open>Frames\<close>

lemma str_get_extend:
  assumes "shapes_extend h h'" and "ts_shape ts < h_next_shape h"
  shows "str_get h' ts k = str_get h ts k"
  using find_slot_extend [OF assms] by (simp add: str_get_def cong: option.case_cong)

lemma tab_get_extend:
  assumes "shapes_extend h h'" and "ts_shape ts < h_next_shape h"
  shows "tab_get h' ts c = tab_get h ts c"
  using str_get_extend [OF assms] by (simp add: tab_get_def split: key_class.split)

lemma mode_ok_layout: "layout d = layout e \<Longrightarrow> mode_ok d ts = mode_ok e ts"
  by (auto simp: mode_ok_def layout_def split: option.split)

lemma upd_table_simps [heap_simps, simp]:
  "h_tables (upd_table h t f) = (h_tables h)(t := f (h_tables h t))"
  "h_shapes (upd_table h t f) = h_shapes h" "h_live (upd_table h t f) = h_live h"
  "h_next_shape (upd_table h t f) = h_next_shape h" "h_mts (upd_table h t f) = h_mts h"
  "h_next_mt (upd_table h t f) = h_next_mt h" "h_next_table (upd_table h t f) = h_next_table h"
  "h_empty_shape (upd_table h t f) = h_empty_shape h"
  "h_empty_dict_sentinel (upd_table h t f) = h_empty_dict_sentinel h"
  by (simp_all add: upd_table_def)

lemma upd_mt_simps [heap_simps, simp]:
  "h_tables (upd_mt h c f) = h_tables h"
  "h_shapes (upd_mt h c f) = h_shapes h" "h_live (upd_mt h c f) = h_live h"
  "h_next_shape (upd_mt h c f) = h_next_shape h" "h_mts (upd_mt h c f) = (h_mts h)(c := f (h_mts h c))"
  "h_next_mt (upd_mt h c f) = h_next_mt h" "h_next_table (upd_mt h c f) = h_next_table h"
  "h_empty_shape (upd_mt h c f) = h_empty_shape h"
  "h_empty_dict_sentinel (upd_mt h c f) = h_empty_dict_sentinel h"
  by (simp_all add: upd_mt_def)

lemma find_slot_shapes: "h_shapes h' = h_shapes h \<Longrightarrow> find_slot h' = find_slot h"
  by (intro ext) (simp add: find_slot_def)

lemma str_get_shapes:
  assumes "h_shapes h' = h_shapes h" shows "str_get h' = str_get h"
  by (intro ext) (simp only: str_get_def find_slot_shapes [OF assms])

lemma tab_get_shapes:
  assumes "h_shapes h' = h_shapes h" shows "tab_get h' = tab_get h"
  by (intro ext) (simp only: tab_get_def str_get_shapes [OF assms])

lemma str_get_cong:
  assumes "ts_shape ts' = ts_shape ts" "ts_properties ts' = ts_properties ts" "ts_dict ts' = ts_dict ts"
  shows "str_get h ts' = str_get h ts"
  by (intro HOL.ext) (simp only: str_get_def assms)

lemma str_get_array [simp]: "str_get h (ts\<lparr>ts_array := xs\<rparr>) = str_get h ts"
  by (rule str_get_cong) simp_all

section \<open>Replacing the state of one table\<close>

definition same_meta :: "table_state \<Rightarrow> table_state \<Rightarrow> bool" where
  "same_meta ts ts' \<longleftrightarrow> ts_metatable ts' = ts_metatable ts \<and> ts_mt_cache ts' = ts_mt_cache ts"

text \<open>\<open>heap_inv\<close> except for the cache bits of table \<open>t\<close>, which the write of a key leaves stale
  until the bit is updated.\<close>

definition heap_inv_but :: "addr \<Rightarrow> heap \<Rightarrow> bool" where
  "heap_inv_but t h \<longleftrightarrow> shapes_inv h \<and> caches_inj h
     \<and> (\<forall>u < h_next_table h. table_ok h (h_tables h u) \<and> (u \<noteq> t \<longrightarrow> bits_ok h (h_tables h u)))"

lemma table_ok_extend:
  assumes ok: "table_ok h ts" and ext: "shapes_extend h h'"
  shows "table_ok h' ts"
proof -
  have s: "ts_shape ts < h_next_shape h" using ok by (simp add: table_ok_def)
  note lay = shapes_extend_layout [OF ext s] and fr = shapes_extend_frame [OF ext]
  have "sd_mt_cache (h_shapes h' (ts_shape ts)) = sd_mt_cache (h_shapes h (ts_shape ts))"
    using lay by (simp add: layout_eq_iff)
  moreover have "mt_ok h' ts = mt_ok h ts" by (simp add: mt_ok_def fr)
  moreover have "cache_of h' = cache_of h" by (intro HOL.ext) (simp add: cache_of_def fr)
  ultimately show ?thesis
    using ok mode_ok_layout [OF lay] shapes_extend_less [OF ext] by (simp add: table_ok_def)
qed

lemma bits_ok_extend:
  assumes ok: "bits_ok h ts" and ext: "shapes_extend h h'" and s: "ts_shape ts < h_next_shape h"
  shows "bits_ok h' ts"
  using ok by (simp add: bits_ok_def str_get_extend [OF ext s] shapes_extend_frame [OF ext])

lemma shapes_inv_cong:
  assumes "h_shapes h' = h_shapes h" "h_next_shape h' = h_next_shape h"
    "h_next_mt h' = h_next_mt h" "h_empty_shape h' = h_empty_shape h"
    "h_empty_dict_sentinel h' = h_empty_dict_sentinel h"
    "\<And>c. mc_dict_sentinel (h_mts h' c) = mc_dict_sentinel (h_mts h c)"
  shows "shapes_inv h' = shapes_inv h"
  unfolding shapes_inv_def edges_ok_def sentinel_ok_def assms ..

lemma shapes_inv_upd_table [simp]: "shapes_inv (upd_table h t f) = shapes_inv h"
  by (rule shapes_inv_cong) simp_all

lemma upd_table_inv_but:
  assumes inv: "heap_inv h" and t: "t < h_next_table h"
    and ext: "shapes_extend h h1" and inv1: "shapes_inv h1"
    and ok: "table_ok h1 (f (h_tables h t))"
    and meta: "ts_mt_cache (f (h_tables h t)) = ts_mt_cache (h_tables h t)"
  shows "heap_inv_but t (upd_table h1 t f)"
proof -
  let ?h = "upd_table h1 t f"
  note fr = shapes_extend_frame [OF ext]
  have cache: "ts_mt_cache (((h_tables h)(t := f (h_tables h t))) u) = ts_mt_cache (h_tables h u)"
    for u using meta by simp
  have inj: "caches_inj ?h"
    using heap_invD(2) [OF inv] unfolding caches_inj_def by (simp add: cache fr del: fun_upd_apply)
  have co: "cache_of ?h mt = cache_of h1 mt" for mt
    unfolding cache_of_def by (simp add: cache fr del: fun_upd_apply)
  have mok: "mt_ok ?h ts = mt_ok h1 ts" for ts
    unfolding mt_ok_def by (simp add: cache fr del: fun_upd_apply)
  have tok: "table_ok ?h ts = table_ok h1 ts" for ts
    by (simp add: table_ok_def mok co)
  have "table_ok ?h (h_tables ?h u) \<and> (u \<noteq> t \<longrightarrow> bits_ok ?h (h_tables ?h u))"
    if u: "u < h_next_table ?h" for u
  proof -
    have u': "u < h_next_table h" using u by (simp add: fr)
    note o = heap_invD(3,4) [OF inv u']
    have "bits_ok h1 (h_tables h u)"
      using bits_ok_extend [OF o(2) ext] o(1) by (simp add: table_ok_def)
    then have "bits_ok ?h (h_tables h u)"
      by (simp add: bits_ok_def str_get_shapes [of ?h h1])
    then show ?thesis using ok table_ok_extend [OF o(1) ext] by (simp add: tok fr)
  qed
  then show ?thesis using inv1 inj by (simp add: heap_inv_but_def)
qed

lemma contents_upd_table:
  assumes inv: "heap_inv h" and ext: "shapes_extend h h1" and u: "u < h_next_table h"
  shows "contents (upd_table h1 t f) u =
    (if u = t then tab_get h1 (f (h_tables h t)) else contents h u)"
proof -
  have "tab_get h1 (h_tables h u) = tab_get h (h_tables h u)"
    
    using heap_invD(3) [OF inv u] tab_get_extend [OF ext] by (intro HOL.ext) (simp add: table_ok_def)
  then show ?thesis
    by (simp add: contents_def tab_get_shapes [of "upd_table h1 t f" h1] shapes_extend_frame [OF ext])
qed

text \<open>The bit update repairs the cache of \<open>t\<close> after a write of \<open>key\<close>.\<close>

lemma maybe_update_frame:
  "h_tables (maybe_update_mt_bit h t k v) = h_tables h"
  "h_shapes (maybe_update_mt_bit h t k v) = h_shapes h"
  "h_next_table (maybe_update_mt_bit h t k v) = h_next_table h"
  "h_next_shape (maybe_update_mt_bit h t k v) = h_next_shape h"
  "h_next_mt (maybe_update_mt_bit h t k v) = h_next_mt h"
  "h_empty_shape (maybe_update_mt_bit h t k v) = h_empty_shape h"
  "h_empty_dict_sentinel (maybe_update_mt_bit h t k v) = h_empty_dict_sentinel h"
  "mc_dict_sentinel (h_mts (maybe_update_mt_bit h t k v) c) = mc_dict_sentinel (h_mts h c)"
  by (simp_all add: maybe_update_mt_bit_def mt_update_def mt_set_bit_def mt_clear_bit_def
      split: option.split)

lemma maybe_update_bits:
  assumes n: "(n, b) \<in> set metamethod_table"
  shows "contains_bit (mc_bits (h_mts (maybe_update_mt_bit h t (VStr key) v) c)) b =
    (if ts_mt_cache (h_tables h t) = Some c \<and> n = key then v \<noteq> VNil
     else contains_bit (mc_bits (h_mts h c)) b)"
proof (cases "ts_mt_cache (h_tables h t) = Some c \<and> metamethod_bit_of_bytes key \<noteq> None")
  case True
  then obtain d where c: "ts_mt_cache (h_tables h t) = Some c"
    and d: "metamethod_bit_of_bytes key = Some d" by auto
  then have mem: "(key, d) \<in> set metamethod_table" by (simp add: metamethod_bit_Some_iff)
  obtain i j where b: "b = 2 ^ i" "i < 32" and d': "d = 2 ^ j" "j < 32"
    using n mem metamethod_bits_bounded by (auto simp: metamethod_table_mem)
  have "n = key \<longleftrightarrow> b = d" by (rule metamethod_bit_inj [OF n mem])
  also have "\<dots> \<longleftrightarrow> j = i"
    using b d' by (metis contains_bit_def contains_bit_iff and.idem bit_exp_iff)
  finally have "n = key \<longleftrightarrow> j = i" .
  then show ?thesis using c d mt_update_contains [OF d'(2) b(2)] b d'
    by (simp add: maybe_update_mt_bit_def)
next
  case False
  moreover have "metamethod_bit_of_bytes n \<noteq> None" using n by (simp add: metamethod_bit_Some_iff [THEN iffD2])
  ultimately show ?thesis by (auto simp: maybe_update_mt_bit_def split: option.split)
qed

lemma maybe_update_inv:
  assumes inv: "heap_inv_but t h" and t: "t < h_next_table h"
    and old: "\<And>c n b. ts_mt_cache (h_tables h t) = Some c \<Longrightarrow> (n, b) \<in> set metamethod_table \<Longrightarrow>
      contains_bit (mc_bits (h_mts h c)) b = (g n \<noteq> VNil)"
    and new: "\<And>k. str_get h (h_tables h t) k = (if k = key then v else g k)"
  shows "heap_inv (maybe_update_mt_bit h t (VStr key) v)" (is "heap_inv ?h")
proof -
  note fr = maybe_update_frame [of h t "VStr key" v]
  have 1: "shapes_inv ?h"
    using inv shapes_inv_cong [of ?h h] by (simp add: heap_inv_but_def fr)
  have inj: "caches_inj h" and ok: "\<And>u. u < h_next_table h \<Longrightarrow> table_ok h (h_tables h u)"
    and bits: "\<And>u. u < h_next_table h \<Longrightarrow> u \<noteq> t \<Longrightarrow> bits_ok h (h_tables h u)"
    using inv by (auto simp: heap_inv_but_def)
  have 2: "caches_inj ?h" using inj by (simp add: caches_inj_def fr)
  have 3: "table_ok ?h (h_tables ?h u)" if "u < h_next_table ?h" for u
    using ok [of u] that by (simp add: table_ok_def mt_ok_def cache_of_def fr)
  have "bits_ok ?h (h_tables ?h u)" if u: "u < h_next_table ?h" for u
  proof -
    have "contains_bit (mc_bits (h_mts ?h c)) b = (str_get h (h_tables h u) n \<noteq> VNil)"
      if c: "ts_mt_cache (h_tables h u) = Some c" and n: "(n, b) \<in> set metamethod_table" for c n b
    proof (cases "u = t")
      case True
      then show ?thesis using c old [OF _ n] new by (simp add: maybe_update_bits [OF n])
    next
      case False
      then have "ts_mt_cache (h_tables h t) \<noteq> Some c"
        using inj c t u by (auto simp: caches_inj_def fr)
      then show ?thesis using bits [of u] False u c n by (simp add: maybe_update_bits [OF n] bits_ok_def fr)
    qed
    then show ?thesis by (simp add: bits_ok_def fr str_get_shapes [of ?h h])
  qed
  then show ?thesis using 1 2 3 by (simp add: heap_inv_def)
qed

section \<open>The write law\<close>

text \<open>What every write of a key guarantees: the invariant, no other entry of any table
  changed, metatables and allocated layouts untouched.\<close>

definition layouts_extend :: "heap \<Rightarrow> heap \<Rightarrow> bool" where
  "layouts_extend h h' \<longleftrightarrow> h_next_shape h \<le> h_next_shape h'
     \<and> (\<forall>a < h_next_shape h. layout (h_shapes h' a) = layout (h_shapes h a))
     \<and> h_empty_shape h' = h_empty_shape h"

definition write_spec :: "heap \<Rightarrow> addr \<Rightarrow> key_class \<Rightarrow> lua_value \<Rightarrow> heap \<Rightarrow> bool" where
  "write_spec h t c v h' \<longleftrightarrow> heap_inv h' \<and> h_next_table h' = h_next_table h
     \<and> (\<forall>u < h_next_table h. contents h' u = (if u = t then (contents h t)(c := v) else contents h u))
     \<and> (\<forall>u. same_meta (h_tables h u) (h_tables h' u))
     \<and> layouts_extend h h'"

lemma layouts_extendI: "shapes_extend h h' \<Longrightarrow> layouts_extend h h'"
  by (simp add: shapes_extend_def layouts_extend_def)

lemma layouts_extend_refl [simp]: "layouts_extend h h"
  by (simp add: layouts_extend_def)

lemma layouts_extend_trans:
  "layouts_extend h h' \<Longrightarrow> layouts_extend h' h'' \<Longrightarrow> layouts_extend h h''"
  by (auto simp: layouts_extend_def)

lemma same_meta_refl [simp]: "same_meta ts ts"
  by (simp add: same_meta_def)

lemma write_spec_string:
  assumes inv: "heap_inv h" and t: "t < h_next_table h"
    and ext: "shapes_extend h h1" and inv1: "shapes_inv h1"
    and ok: "table_ok h1 (f (h_tables h t))" and meta: "same_meta (h_tables h t) (f (h_tables h t))"
    and str: "\<And>k. str_get h1 (f (h_tables h t)) k = (if k = key then v else str_get h (h_tables h t) k)"
    and rest: "ts_array (f (h_tables h t)) = ts_array (h_tables h t)"
      "ts_misc_hash (f (h_tables h t)) = ts_misc_hash (h_tables h t)"
  shows "write_spec h t (CStr key) v (maybe_update_mt_bit (upd_table h1 t f) t (VStr key) v)"
proof -
  let ?h2 = "upd_table h1 t f" and ?h3 = "maybe_update_mt_bit (upd_table h1 t f) t (VStr key) v"
  note fr = shapes_extend_frame [OF ext] and fr3 = maybe_update_frame [of ?h2 t "VStr key" v]
  have but: "heap_inv_but t ?h2" 
    by (rule upd_table_inv_but [of h t h1 f]) (use assms in \<open>simp_all add: same_meta_def\<close>)
  have inv3: "heap_inv ?h3"
  proof (rule maybe_update_inv [OF but])
    show "t < h_next_table ?h2" using t by (simp add: fr)
    show "contains_bit (mc_bits (h_mts ?h2 c)) b = (str_get h (h_tables h t) n \<noteq> VNil)"
      if "ts_mt_cache (h_tables ?h2 t) = Some c" "(n, b) \<in> set metamethod_table" for c n b
      using that heap_invD(4) [OF inv t] meta by (simp add: bits_ok_def fr same_meta_def)
    show "str_get ?h2 (h_tables ?h2 t) k = (if k = key then v else str_get h (h_tables h t) k)" for k
      using str by (simp add: str_get_shapes [of ?h2 h1] fr)
  qed
  have "contents ?h3 u = contents ?h2 u" for u
    by (simp add: contents_def fr3 tab_get_shapes [of ?h3 ?h2])
  moreover have "tab_get h1 (f (h_tables h t)) = (contents h t)(CStr key := v)"
    by (rule HOL.ext) (auto simp: tab_get_def contents_def str rest split: key_class.split)
  ultimately have "contents ?h3 u = (if u = t then (contents h t)(CStr key := v) else contents h u)"
    if "u < h_next_table h" for u
    using contents_upd_table [OF inv ext that] by simp
  moreover have "layouts_extend h ?h3"
    using layouts_extendI [OF ext] by (simp add: layouts_extend_def fr3)
  ultimately show ?thesis using inv3 meta by (simp add: write_spec_def fr3 fr)
qed

lemma write_spec_nonstring:
  assumes inv: "heap_inv h" and t: "t < h_next_table h" and c: "\<And>s. c \<noteq> CStr s"
    and f: "ts_shape (f (h_tables h t)) = ts_shape (h_tables h t)"
      "ts_properties (f (h_tables h t)) = ts_properties (h_tables h t)"
      "ts_dict (f (h_tables h t)) = ts_dict (h_tables h t)"
      "same_meta (h_tables h t) (f (h_tables h t))"
    and get: "tab_get h (f (h_tables h t)) = (tab_get h (h_tables h t))(c := v)"
  shows "write_spec h t c v (upd_table h t f)"
proof -
  let ?h = "upd_table h t f"
  have str: "str_get h (f (h_tables h t)) = str_get h (h_tables h t)"
    by (rule str_get_cong) (rule f)+
  have "mode_ok sd (f (h_tables h t)) = mode_ok sd (h_tables h t)" for sd
    by (simp only: mode_ok_def f)
  then have ok: "table_ok h (f (h_tables h t))"
    using heap_invD(3) [OF inv t] f by (simp add: table_ok_def mt_ok_def same_meta_def)
  have but: "heap_inv_but t ?h"
    by (rule upd_table_inv_but [of h t h f]) (use inv t ok f(4) heap_invD(1) [OF inv] in \<open>simp_all add: same_meta_def\<close>)
  have "bits_ok ?h (h_tables ?h t)"
    using heap_invD(4) [OF inv t] f(4)
    by (simp add: bits_ok_def str str_get_shapes [of ?h h] same_meta_def)
  then have "heap_inv ?h" using but by (auto simp: heap_inv_but_def heap_inv_def)
  moreover have "layouts_extend h ?h" by (simp add: layouts_extend_def)
  ultimately show ?thesis
    using contents_upd_table [OF inv shapes_extend_refl] get f(4)
    by (simp add: write_spec_def contents_def)
qed

section \<open>Writing a string key\<close>

lemma set_string_key_dict_spec:
  assumes inv: "heap_inv h" and t: "t < h_next_table h" and d: "ts_dict (h_tables h t) = Some d"
  shows "\<exists>h'. set_string_key_dict h t key v = Some h' \<and> write_spec h t (CStr key) v h'"
proof -
  let ?f = "\<lambda>ts. ts\<lparr>ts_dict := Some (dict_store d key v)\<rparr>"
  note ok = heap_invD(3) [OF inv t]
  have "table_ok h (?f (h_tables h t))"
    using ok d by (auto simp: table_ok_def mode_ok_def mt_ok_def dict_store_def split: option.splits)
  moreover have "str_get h (?f (h_tables h t)) k = (if k = key then v else str_get h (h_tables h t) k)" for k
    using d by (auto simp: str_get_def dict_store_def opt_value_def split: option.splits)
  ultimately have "write_spec h t (CStr key) v (maybe_update_mt_bit (upd_table h t ?f) t (VStr key) v)"
    by (intro write_spec_string [OF inv t shapes_extend_refl heap_invD(1) [OF inv]])
      (simp_all add: same_meta_def)
  then show ?thesis using d by (simp add: set_string_key_dict_def)
qed

lemma copy_slots_spec:
  assumes "distinct (map fst ds)" and "\<forall>i \<in> snd ` set ds. i < length ps"
  shows "\<exists>d'. copy_slots ps ds d = Some d' \<and> (\<forall>k. d' k = (case find_descr ds k of
      None \<Rightarrow> d k
    | Some i \<Rightarrow> if ps ! i = VNil then d k else Some (ps ! i)))"
  using assms
proof (induction ps ds d rule: copy_slots.induct)
  case (2 ps k slot ds d)
  have slot: "idx ps slot = Some (ps ! slot)" using 2(3) by (simp add: panic_simps)
  let ?d = "if is_nil (ps ! slot) then d else d(k \<mapsto> ps ! slot)"
  obtain d' where d': "copy_slots ps ds ?d = Some d'" "\<And>j. d' j = (case find_descr ds j of
      None \<Rightarrow> ?d j
    | Some i \<Rightarrow> if ps ! i = VNil then ?d j else Some (ps ! i))"
    using 2(1) [OF slot] 2(2,3) by auto
  have "find_descr ds k = None" using 2(2) by (simp add: find_descr_None_iff)
  then show ?case using d' slot by (auto split: option.split)
qed simp

lemma migrate_to_dict_spec:
  assumes inv: "heap_inv h" and t: "t < h_next_table h" and fast: "ts_dict (h_tables h t) = None"
  shows "\<exists>h' d. migrate_to_dict h t = Some h' \<and> ts_dict (h_tables h' t) = Some d
     \<and> (\<forall>k. opt_value (d k) = str_get h (h_tables h t) k)
     \<and> heap_inv h' \<and> h_next_table h' = h_next_table h \<and> layouts_extend h h'
     \<and> (\<forall>u < h_next_table h. contents h' u = contents h u)
     \<and> (\<forall>u. same_meta (h_tables h u) (h_tables h' u))"
proof -
  let ?ts = "h_tables h t" let ?sd = "h_shapes h (ts_shape ?ts)"
  note ok = heap_invD(3) [OF inv t]
  have s: "ts_shape ?ts < h_next_shape h" and lay: "layout_ok ?sd"
    and edges: "edges_ok h ?sd" and len: "length (ts_properties ?ts) = sd_slot_count ?sd"
    using ok heap_invD(1) [OF inv] fast by (auto simp: table_ok_def mode_ok_def shapes_inv_def)
  have "snd ` set (sd_descriptors ?sd) = {..<sd_slot_count ?sd}"
    using lay by (simp add: layout_ok_def atLeast0LessThan flip: set_map)
  then obtain d where d: "copy_slots (ts_properties ?ts) (sd_descriptors ?sd) Map.empty = Some d"
    and dk: "\<And>k. d k = (case find_descr (sd_descriptors ?sd) k of None \<Rightarrow> None
      | Some i \<Rightarrow> if ts_properties ?ts ! i = VNil then None else Some (ts_properties ?ts ! i))"
    using copy_slots_spec [of "sd_descriptors ?sd" "ts_properties ?ts" Map.empty] lay len
    by (auto simp: layout_ok_def)
  obtain h1 s' where sent: "(case sd_mt_cache ?sd of
      Some c \<Rightarrow> ensure_dict_sentinel h c | None \<Rightarrow> (h, h_empty_dict_sentinel h)) = (h1, s')"
    by (cases "case sd_mt_cache ?sd of
      Some c \<Rightarrow> ensure_dict_sentinel h c | None \<Rightarrow> (h, h_empty_dict_sentinel h)")
  have h1: "shapes_inv h1 \<and> shapes_extend h h1 \<and> sentinel_ok h1 (sd_mt_cache ?sd) s'"
  proof (cases "sd_mt_cache ?sd")
    case None
    then show ?thesis using sent heap_invD(1) [OF inv] by (auto simp: shapes_inv_def)
  next
    case (Some c)
    then have "c < h_next_mt h" using edges by (simp add: edges_ok_def)
    then show ?thesis using ensure_dict_sentinel_spec [OF heap_invD(1) [OF inv], of c h1 s'] sent Some
      by simp
  qed
  let ?f = "\<lambda>ts. ts\<lparr>ts_properties := [], ts_shape := s', ts_dict := Some d\<rparr>"
  let ?h = "upd_table h1 t ?f"
  note ext = h1 [THEN conjunct2, THEN conjunct1]
  note fr = shapes_extend_frame [OF ext]
  have str: "opt_value (d k) = str_get h ?ts k" for k
    using fast by (auto simp: dk str_get_def find_slot_def opt_value_def split: option.split)
  have str1: "str_get h1 (?f ?ts) = str_get h ?ts"
    by (rule HOL.ext) (simp add: str_get_def str [unfolded str_get_def])
  have ok1: "table_ok h1 (?f ?ts)"
    using h1 ok dk by (auto simp: table_ok_def mode_ok_def mt_ok_def cache_of_def fr sentinel_ok_def
        layout_def split: option.splits)
  have meta: "same_meta ?ts (?f ?ts)" by (simp add: same_meta_def)
  have "heap_inv_but t ?h"
    by (rule upd_table_inv_but [of h t h1 ?f]) (use inv t h1 ok1 in simp_all)
  moreover have "bits_ok ?h (h_tables ?h t)"
    using heap_invD(4) [OF inv t] by (simp add: bits_ok_def fr str_get_shapes [of ?h h1] str1)
  ultimately have "heap_inv ?h" by (auto simp: heap_inv_but_def heap_inv_def)
  moreover have "contents ?h u = contents h u" if u: "u < h_next_table h" for u
  proof -
    have "tab_get h1 (?f ?ts) = tab_get h ?ts"
      by (rule HOL.ext) (simp add: tab_get_def str1 split: key_class.split)
    then show ?thesis using contents_upd_table [OF inv ext u, of t ?f] by (simp add: contents_def)
  qed
  moreover have "migrate_to_dict h t = Some ?h"
    using d sent by (simp add: migrate_to_dict_def Let_def)
  moreover have "layouts_extend h ?h" using layouts_extendI [OF ext] by (simp add: layouts_extend_def)
  ultimately show ?thesis using str meta by (auto simp: fr)
qed

lemma migrate_then_set:
  assumes inv: "heap_inv h" and t: "t < h_next_table h" and fast: "ts_dict (h_tables h t) = None"
  shows "\<exists>h'. Option.bind (migrate_to_dict h t) (\<lambda>h1. set_string_key_dict h1 t key v) = Some h'
     \<and> write_spec h t (CStr key) v h'"
proof -
  obtain h1 d where m: "migrate_to_dict h t = Some h1" "ts_dict (h_tables h1 t) = Some d"
    "heap_inv h1" "h_next_table h1 = h_next_table h" "layouts_extend h h1"
    "\<forall>u < h_next_table h. contents h1 u = contents h u"
    "\<forall>u. same_meta (h_tables h u) (h_tables h1 u)"
    using migrate_to_dict_spec [OF inv t fast] by auto
  then obtain h' where h': "set_string_key_dict h1 t key v = Some h'"
    and w: "write_spec h1 t (CStr key) v h'"
    using set_string_key_dict_spec [of h1 t d key v] t by auto
  have "write_spec h t (CStr key) v h'"
    using w m(4-7) t layouts_extend_trans [OF m(5)] unfolding write_spec_def same_meta_def by simp
  then show ?thesis using m(1) h' by simp
qed

lemma set_string_key_spec:
  assumes inv: "heap_inv h" and t: "t < h_next_table h"
  shows "\<exists>h'. set_string_key h t key v = Some h' \<and> write_spec h t (CStr key) v h'"
proof (cases "ts_dict (h_tables h t)")
  case (Some d)
  then show ?thesis using set_string_key_dict_spec [OF inv t Some] by (simp add: set_string_key_def)
next
  case fast: None
  let ?ts = "h_tables h t" let ?s = "ts_shape ?ts"
  note ok = heap_invD(3) [OF inv t] and sinv = heap_invD(1) [OF inv]
  have s: "?s < h_next_shape h" and nd: "\<not> sd_is_dict (h_shapes h ?s)"
    and len: "length (ts_properties ?ts) = sd_slot_count (h_shapes h ?s)"
    using ok fast by (auto simp: table_ok_def mode_ok_def)
  show ?thesis
  proof (cases "find_slot h ?s key")
    case (Some i)
    have i: "i < length (ts_properties ?ts)" by (rule slot_in_properties [OF sinv ok fast Some])
    show ?thesis
    proof (cases "v = VNil")
      case True
      then show ?thesis using migrate_then_set [OF inv t fast] fast Some
        by (simp add: set_string_key_def Let_def)
    next
      case False
      let ?f = "\<lambda>ts. ts\<lparr>ts_properties := (ts_properties ?ts)[i := v]\<rparr>"
      have "table_ok h (?f ?ts)"
        using ok fast by (auto simp: table_ok_def mode_ok_def mt_ok_def)
      moreover have "str_get h (?f ?ts) k = (if k = key then v else str_get h ?ts k)" for k
      proof (cases "k = key")
        case True
        then show ?thesis using fast Some i by (simp add: str_get_def)
      next
        case False
        then have "find_slot h ?s k \<noteq> Some i" using find_slot_inj [OF sinv s Some] by blast
        then show ?thesis using fast False by (cases "find_slot h ?s k") (simp_all add: str_get_def)
      qed
      ultimately have "write_spec h t (CStr key) v (maybe_update_mt_bit (upd_table h t ?f) t (VStr key) v)"
        by (intro write_spec_string [of h t h ?f]) (use inv t sinv in \<open>simp_all add: same_meta_def\<close>)
      then show ?thesis using fast Some False i by (simp add: set_string_key_def Let_def panic_simps)
    qed
  next
    case None
    show ?thesis
    proof (cases "max_properties_fast \<le> sd_slot_count (h_shapes h ?s)")
      case True
      then show ?thesis using migrate_then_set [OF inv t fast] fast None
        by (simp add: set_string_key_def Let_def)
    next
      case False
      obtain h1 s1 where tr: "transition_add_prop h ?s key = (h1, s1)" by fastforce
      note sp = transition_add_prop_spec [OF sinv s nd None tr]
      note fr = shapes_extend_frame [OF sp(2)]
      let ?f = "\<lambda>ts. ts\<lparr>ts_shape := s1, ts_properties := ts_properties ts @ [v]\<rparr>"
      have ok1: "table_ok h1 (?f ?ts)"
        using ok sp(3,4) fast False len
        by (auto simp: table_ok_def mode_ok_def mt_ok_def cache_of_def fr layout_def prop_child_def)
      have desc: "sd_descriptors (h_shapes h1 s1)
          = sd_descriptors (h_shapes h ?s) @ [(key, sd_slot_count (h_shapes h ?s))]"
        using sp(4) by (simp add: layout_def prop_child_def)
      have "str_get h1 (?f ?ts) k = (if k = key then v else str_get h ?ts k)" for k
        using fast None len find_slot_bound [OF sinv s, of k]
        by (auto simp: str_get_def find_slot_def desc find_descr_append nth_append split: option.split)
      then have "write_spec h t (CStr key) v (maybe_update_mt_bit (upd_table h1 t ?f) t (VStr key) v)"
        by (intro write_spec_string [of h t h1 ?f])
          (use inv t sp ok1 in \<open>simp_all add: same_meta_def\<close>)
      then show ?thesis using fast None False tr fr by (simp add: set_string_key_def Let_def)
    qed
  qed
qed

section \<open>\<open>raw_set\<close>\<close>

text \<open>The keys \<open>raw_set\<close> accepts: nil hits the source's \<open>todo!()\<close>, and an array
  index no \<open>Vec\<close> can reach panics with a capacity overflow.\<close>

definition settable :: "heap \<Rightarrow> addr \<Rightarrow> lua_value \<Rightarrow> bool" where
  "settable h t k \<longleftrightarrow> k \<noteq> VNil \<and> (\<forall>i. array_index k = Some i \<longrightarrow>
     i \<le> length (ts_array (h_tables h t)) \<or> i \<le> max_vec_len)"

lemma array_write:
  assumes "0 < i"
  shows "opt_value (get_at ((if length xs < i then resize xs i VNil else xs)[i - 1 := v]) j)
    = (if j = i - 1 then v else opt_value (get_at xs j))"
  using assms by (auto simp: get_at_def opt_value_def nth_list_update nth_resize)

lemma misc_hash_set_get:
  "ts_misc_hash (misc_hash_set ts k v) j =
    (if j = k then (if v = VNil \<and> ts_misc_hash ts k \<noteq> None then None else Some v) else ts_misc_hash ts j)"
  by (simp add: misc_hash_set_def split: option.split)

lemma misc_hash_set_frame [simp]:
  "ts_shape (misc_hash_set ts k v) = ts_shape ts"
  "ts_properties (misc_hash_set ts k v) = ts_properties ts"
  "ts_dict (misc_hash_set ts k v) = ts_dict ts" "ts_array (misc_hash_set ts k v) = ts_array ts"
  "ts_metatable (misc_hash_set ts k v) = ts_metatable ts"
  "ts_mt_cache (misc_hash_set ts k v) = ts_mt_cache ts"
  by (simp_all add: misc_hash_set_def split: option.split)

lemma str_get_misc_hash_set [simp]: "str_get h (misc_hash_set ts k v) = str_get h ts"
  by (rule str_get_cong) simp_all

lemma raw_set_spec:
  assumes inv: "heap_inv h" and t: "t < h_next_table h" and k: "settable h t k"
  shows "\<exists>h'. raw_set h t k v = Some h' \<and> write_spec h t (key_class k) v h'"
proof (cases "get_string k")
  case (Some s)
  then show ?thesis using set_string_key_spec [OF inv t, of s v] by (simp add: raw_set_def key_class_def)
next
  case ns: None
  show ?thesis
  proof (cases "array_index k")
    case (Some i)
    let ?xs = "ts_array (h_tables h t)"
    define ys where "ys = (if length ?xs < i then resize ?xs i VNil else ?xs)[i - 1 := v]"
    let ?f = "\<lambda>ts. ts\<lparr>ts_array := ys\<rparr>"
    have "opt_value (get_at ys j) = (if j = i - 1 then v else opt_value (get_at ?xs j))" for j
      unfolding ys_def by (rule array_write [OF array_index_pos [OF Some]])
    then have "tab_get h (?f (h_tables h t)) c = ((tab_get h (h_tables h t))(CArr (i - 1) := v)) c" for c
      by (simp add: tab_get_def split: key_class.split)
    then have "write_spec h t (CArr (i - 1)) v (upd_table h t ?f)"
      by (intro write_spec_nonstring [of h t _ ?f]) (use inv t in \<open>auto simp: same_meta_def\<close>)
    then show ?thesis using ns Some k
      by (auto simp: raw_set_def Let_def key_class_def settable_def ys_def)
  next
    case None
    let ?f = "\<lambda>ts. misc_hash_set ts k v"
    have "tab_get h (?f (h_tables h t)) c = ((tab_get h (h_tables h t))(CMisc k := v)) c" for c
      by (auto simp: tab_get_def misc_hash_set_get opt_value_def split: key_class.split)
    then have "write_spec h t (CMisc k) v (upd_table h t ?f)"
      by (intro write_spec_nonstring [of h t _ ?f]) (use inv t in \<open>auto simp: same_meta_def\<close>)
    then show ?thesis using ns None k by (simp add: raw_set_def key_class_def settable_def)
  qed
qed

lemma raw_set_fails_iff:
  assumes "heap_inv h" and "t < h_next_table h"
  shows "raw_set h t k v = None \<longleftrightarrow> \<not> settable h t k"
proof
  assume "raw_set h t k v = None"
  then show "\<not> settable h t k" using raw_set_spec [OF assms, of k v] by auto
next
  assume "\<not> settable h t k"
  then show "raw_set h t k v = None"
    by (auto simp: settable_def raw_set_def Let_def get_string_def array_index_def
        split: lua_value.splits if_splits)
qed

section \<open>Metatables\<close>

lemma initial_bits_spec:
  assumes inv: "heap_inv h" and t: "t < h_next_table h"
    and sub: "\<And>n b. (n, b) \<in> set ms \<Longrightarrow> (n, b) \<in> set metamethod_table"
  shows "\<exists>r. initial_bits h t ms bits = Some r \<and> (\<forall>n b. (n, b) \<in> set metamethod_table \<longrightarrow>
      contains_bit r b = (contains_bit bits b \<or> (n, b) \<in> set ms \<and> contents h t (CStr n) \<noteq> VNil))"
  using sub
proof (induction ms arbitrary: bits)
  case (Cons m ms)
  obtain n b where m: "m = (n, b)" by force
  let ?v = "contents h t (CStr n)"
  let ?bits = "if is_nil ?v then bits else bits OR b"
  have nb: "(n, b) \<in> set metamethod_table" using Cons.prems m by simp
  have get: "raw_get h t (VStr n) = Some ?v" using raw_get_contents [OF inv t] by simp
  obtain r where r: "initial_bits h t ms ?bits = Some r"
    "\<And>j c. (j, c) \<in> set metamethod_table \<Longrightarrow> contains_bit r c
       = (contains_bit ?bits c \<or> (j, c) \<in> set ms \<and> contents h t (CStr j) \<noteq> VNil)"
    using Cons.IH [of ?bits] Cons.prems by auto
  have or: "contains_bit (bits OR b) c = (contains_bit bits c \<or> j = n)"
    if jc: "(j, c) \<in> set metamethod_table" for j c
  proof -
    obtain i k where b: "b = 2 ^ i" "i < 32" and c: "c = 2 ^ k" "k < 32"
      using nb jc metamethod_bits_bounded by (auto simp: metamethod_table_mem)
    have "contains_bit (bits OR b) c \<longleftrightarrow> bit bits k \<or> i = k"
      using b c by (auto simp: contains_bit_iff bit_simps)
    also have "i = k \<longleftrightarrow> b = c" using b c by (metis contains_bit_def contains_bit_iff and.idem bit_exp_iff)
    also have "b = c \<longleftrightarrow> j = n" using metamethod_bit_inj [OF nb jc] by auto
    finally show ?thesis using c by (simp add: contains_bit_iff)
  qed
  have "contains_bit r c = (contains_bit bits c \<or> (j, c) \<in> set (m # ms) \<and> contents h t (CStr j) \<noteq> VNil)"
    if jc: "(j, c) \<in> set metamethod_table" for j c
    using r(2) [OF jc] or [OF jc] metamethod_bit_inj [OF nb jc] by (auto simp: m)
  then show ?case using r(1) get by (auto simp: m)
qed simp

lemma cache_not_used:
  assumes "heap_inv h" and "u < h_next_table h" and "ts_mt_cache (h_tables h t) = None"
  shows "ts_metatable (h_tables h u) \<noteq> Some t"
  using heap_invD(3) [OF assms(1,2)] assms(3) by (auto simp: table_ok_def mt_ok_def)

lemma mt_cache_new_inv:
  assumes inv: "heap_inv h" and new: "mt_cache_new h bits = (h1, c)"
  shows "shapes_inv h1" and "c = h_next_mt h" and "h_tables h1 = h_tables h"
    and "h_shapes h1 = h_shapes h" and "h_next_table h1 = h_next_table h"
    and "h_next_mt h1 = Suc c" and "mc_bits (h_mts h1 c) = bits"
    and "d < c \<Longrightarrow> h_mts h1 d = h_mts h d" and "h_next_shape h1 = h_next_shape h"
    and "h_empty_shape h1 = h_empty_shape h"
proof -
  have h1: "h1 = h\<lparr>h_mts := (h_mts h)(c := \<lparr>mc_bits = bits, mc_dict_sentinel = None\<rparr>),
      h_next_mt := Suc c\<rparr>" and c: "c = h_next_mt h"
    using new by (auto simp: mt_cache_new_def Let_def)
  have ed: "edges_ok h1 d" if "edges_ok h d" for d
    using that unfolding edges_ok_def by (auto simp: h1 c less_SucI)
  have se: "sentinel_ok h1 m s = sentinel_ok h m s" for m s by (simp add: sentinel_ok_def h1)
  have mt: "d < h_next_mt h \<and> mc_dict_sentinel (h_mts h d) = Some s"
    if "d < h_next_mt h1" "mc_dict_sentinel (h_mts h1 d) = Some s" for d s
    using that by (auto simp: h1 c less_Suc_eq split: if_splits)
  have fr: "h_next_shape h1 = h_next_shape h" "h_shapes h1 = h_shapes h"
    "h_empty_shape h1 = h_empty_shape h" "h_empty_dict_sentinel h1 = h_empty_dict_sentinel h"
    by (simp_all add: h1)
  show "shapes_inv h1"
    using heap_invD(1) [OF inv] ed mt unfolding shapes_inv_def se fr by blast
qed (use new in \<open>auto simp: mt_cache_new_def Let_def\<close>)

lemma ensure_mt_cache_spec:
  assumes inv: "heap_inv h" and t: "t < h_next_table h"
  shows "\<exists>h' c. ensure_mt_cache h t = Some (h', c) \<and> heap_inv h'
    \<and> ts_mt_cache (h_tables h' t) = Some c \<and> h_next_table h' = h_next_table h
    \<and> contents h' = contents h \<and> layouts_extend h h'
    \<and> (\<forall>u. ts_metatable (h_tables h' u) = ts_metatable (h_tables h u))"
proof (cases "ts_mt_cache (h_tables h t)")
  case (Some c)
  then show ?thesis using inv by (simp add: ensure_mt_cache_def)
next
  case None
  obtain bits where bits: "initial_bits h t symbols_metamethods 0 = Some bits"
    and bk: "\<And>n b. (n, b) \<in> set metamethod_table \<Longrightarrow>
      contains_bit bits b = (contents h t (CStr n) \<noteq> VNil)"
    using initial_bits_spec [OF inv t, of metamethod_table 0] metamethod_bits_bounded
    by (fastforce simp: symbols_metamethods_def metamethod_table_mem contains_bit_iff)
  obtain h1 c where new: "mt_cache_new h bits = (h1, c)" by fastforce
  note n = mt_cache_new_inv [OF inv new]
  let ?f = "\<lambda>ts. ts\<lparr>ts_mt_cache := Some c\<rparr>" let ?h = "upd_table h1 t ?f"
  have old: "d < c" if "u < h_next_table h" "ts_mt_cache (h_tables h u) = Some d" for u d
    using heap_invD(3) [OF inv that(1)] that(2) n(2) by (auto simp: table_ok_def mt_ok_def)
  have str: "str_get ?h ts = str_get h ts" for ts using str_get_shapes [of ?h h] n(4) by simp
  have strf: "str_get h (?f ts) = str_get h ts" for ts by (rule str_get_cong) simp_all
  have cache: "ts_mt_cache (h_tables ?h u) = (if u = t then Some c else ts_mt_cache (h_tables h u))" for u
    by (simp add: n)
  have "caches_inj ?h"
    unfolding caches_inj_def
  proof (intro allI impI)
    fix u w d
    assume u: "u < h_next_table ?h" "w < h_next_table ?h"
      and d: "ts_mt_cache (h_tables ?h u) = Some d" "ts_mt_cache (h_tables ?h w) = Some d"
    have "u < h_next_table h" "w < h_next_table h" using u by (simp_all add: n)
    then show "u = w"
      using d heap_invD(2) [OF inv] old [of u d] old [of w d]
      unfolding cache caches_inj_def by (metis less_irrefl option.inject)
  qed
  moreover have "table_ok ?h (h_tables ?h u) \<and> bits_ok ?h (h_tables ?h u)"
    if u: "u < h_next_table ?h" for u
  proof -
    have u': "u < h_next_table h" using u by (simp add: n)
    note tok = heap_invD(3) [OF inv u'] and bok = heap_invD(4) [OF inv u']
    have nt: "ts_metatable (h_tables h u) \<noteq> Some t" by (rule cache_not_used [OF inv u' None])
    have "mode_ok sd (?f ts) = mode_ok sd ts" for sd ts
      by (cases "ts_dict ts") (simp_all add: mode_ok_def)
    moreover have "mt_ok ?h (h_tables ?h u)"
      using tok n(2) by (auto simp: table_ok_def mt_ok_def n less_SucI)
    moreover have "cache_of ?h (ts_metatable (h_tables h u)) = cache_of h (ts_metatable (h_tables h u))"
      using nt by (cases "ts_metatable (h_tables h u)") (simp_all add: cache_of_def n)
    ultimately have "table_ok ?h (h_tables ?h u)" using tok by (auto simp: table_ok_def n)
    moreover have "bits_ok ?h (h_tables ?h u)"
    proof (cases "u = t")
      case True
      then show ?thesis
        using bk by (simp add: bits_ok_def str strf n(7) n(3)) (simp add: contents_def tab_get_def)
    next
      case False
      then show ?thesis using bok old [OF u'] unfolding bits_ok_def str by (auto simp: n)
    qed
    ultimately show ?thesis by blast
  qed
  ultimately have "heap_inv ?h" using n(1) by (simp add: heap_inv_def)
  moreover have "contents ?h = contents h"
    unfolding contents_def tab_get_def str
    by (auto simp: fun_eq_iff n(3) strf split: key_class.split)
  moreover have "layouts_extend h ?h" by (simp add: layouts_extend_def n)
  ultimately show ?thesis using None bits new by (simp add: ensure_mt_cache_def n)
qed

lemma set_metatable_spec:
  assumes inv: "heap_inv h" and t: "t < h_next_table h"
    and mt: "\<And>m. mt = Some m \<Longrightarrow> m < h_next_table h"
  shows "\<exists>h'. set_metatable h t mt = Some h' \<and> heap_inv h' \<and> h_next_table h' = h_next_table h
    \<and> (\<forall>u < h_next_table h. contents h' u = contents h u) \<and> layouts_extend h h'
    \<and> (\<forall>u. ts_metatable (h_tables h' u) = (if u = t then mt else ts_metatable (h_tables h u)))"
proof -
  obtain h1 c where e: "(case mt of
        Some m \<Rightarrow> map_option (\<lambda>(h1, c). (h1, Some c)) (ensure_mt_cache h m)
      | None \<Rightarrow> Some (h, None)) = Some (h1, c)"
    and h1: "heap_inv h1" "h_next_table h1 = h_next_table h" "contents h1 = contents h"
      "layouts_extend h h1" "\<And>u. ts_metatable (h_tables h1 u) = ts_metatable (h_tables h u)"
    and c: "cache_of h1 mt = c" "mt \<noteq> None \<Longrightarrow> c \<noteq> None"
  proof (cases mt)
    case None
    then show ?thesis using that [of h None] inv by (simp add: cache_of_def)
  next
    case (Some m)
    then show ?thesis using that ensure_mt_cache_spec [OF inv mt [OF Some]] by (auto simp: cache_of_def)
  qed
  let ?ts = "h_tables h1 t" let ?s = "ts_shape ?ts"
  have t1: "t < h_next_table h1" using t h1(2) by simp
  note tok = heap_invD(3) [OF h1(1) t1]
  have s: "?s < h_next_shape h1" using tok by (simp add: table_ok_def)
  have cb: "d < h_next_mt h1" if "c = Some d" for d
  proof -
    have "cache_of h1 mt = Some d" using c(1) that by simp
    then obtain m where "mt = Some m" "ts_mt_cache (h_tables h1 m) = Some d"
      by (auto simp: cache_of_def bind_eq_Some_conv)
    then show ?thesis
      using heap_invD(3) [OF h1(1), of m] mt h1(2) by (auto simp: table_ok_def mt_ok_def)
  qed
  obtain h2 s2 where tr: "transition_set_metatable h1 ?s c (h_empty_dict_sentinel h1) = (h2, s2)"
    by fastforce
  note sp = transition_set_metatable_spec [OF heap_invD(1) [OF h1(1)] s cb tr]
  note fr = shapes_extend_frame [OF sp(2)]
  let ?f = "\<lambda>ts. ts\<lparr>ts_shape := s2, ts_metatable := mt\<rparr>" let ?h = "upd_table h2 t ?f"
  have lay: "sd_mt_cache (h_shapes h2 s2) = c"
    "sd_is_dict (h_shapes h2 s2) = sd_is_dict (h_shapes h1 ?s)"
    "\<not> sd_is_dict (h_shapes h1 ?s) \<Longrightarrow> sd_slot_count (h_shapes h2 s2) = sd_slot_count (h_shapes h1 ?s)
       \<and> sd_descriptors (h_shapes h2 s2) = sd_descriptors (h_shapes h1 ?s)"
    using sp(4) by (auto simp: target_layout_def layout_def mt_child_def split: if_splits)
  have "ts_mt_cache (h_tables h1 m) \<noteq> None" if "mt = Some m" for m
    using c that by (auto simp: cache_of_def)
  then have ok2: "table_ok h2 (?f ?ts)"
    using tok lay mt h1(2) sp(3) c(1)
    by (auto simp: table_ok_def mode_ok_def mt_ok_def cache_of_def fr split: option.splits)
  have str: "str_get h2 (?f ?ts) = str_get h1 ?ts"
  proof (rule HOL.ext)
    fix k
    have "find_slot h2 s2 k = find_slot h1 ?s k" if "ts_dict ?ts = None"
      using that lay tok by (simp add: table_ok_def mode_ok_def find_slot_def)
    then show "str_get h2 (?f ?ts) k = str_get h1 ?ts k"
      by (cases "ts_dict ?ts"; cases "find_slot h1 ?s k") (simp_all add: str_get_def)
  qed
  have "heap_inv_but t ?h"
    by (rule upd_table_inv_but [of h1 t h2 ?f]) (use h1 t1 sp ok2 in simp_all)
  moreover have "bits_ok ?h (h_tables ?h t)"
    using heap_invD(4) [OF h1(1) t1] by (simp add: bits_ok_def str_get_shapes [of ?h h2] fr str)
  ultimately have "heap_inv ?h" by (auto simp: heap_inv_but_def heap_inv_def)
  moreover have "contents ?h u = contents h u" if u: "u < h_next_table h" for u
  proof -
    have "tab_get h2 (?f ?ts) = tab_get h1 ?ts"
      by (rule HOL.ext) (simp add: tab_get_def str split: key_class.split)
    then have "tab_get h2 (?f ?ts) = contents h t" using h1(3) by (simp add: contents_def fun_eq_iff)
    then show ?thesis
      using contents_upd_table [OF h1(1) sp(2), of u t ?f] u h1(2,3) by simp
  qed
  moreover have "layouts_extend h ?h"
    using layouts_extend_trans [OF h1(4) layouts_extendI [OF sp(2)]] by (simp add: layouts_extend_def)
  ultimately show ?thesis using e tr h1 by (simp add: set_metatable_def fr)
qed

section \<open>Queries through the shape\<close>

lemma has_mm_iff:
  assumes inv: "heap_inv h" and t: "t < h_next_table h" and n: "(n, b) \<in> set metamethod_table"
  shows "has_mm h (ts_shape (h_tables h t)) b \<longleftrightarrow>
    (\<exists>m. ts_metatable (h_tables h t) = Some m \<and> contents h m (CStr n) \<noteq> VNil)"
proof (cases "ts_metatable (h_tables h t)")
  case None
  then show ?thesis using heap_invD(3) [OF inv t] by (simp add: table_ok_def has_mm_def cache_of_def)
next
  case (Some m)
  then obtain c where m: "m < h_next_table h" and c: "ts_mt_cache (h_tables h m) = Some c"
    and s: "sd_mt_cache (h_shapes h (ts_shape (h_tables h t))) = Some c"
    using heap_invD(3) [OF inv t] by (auto simp: table_ok_def mt_ok_def cache_of_def)
  show ?thesis
    using heap_invD(4) [OF inv m] c s n Some
    by (simp add: has_mm_def bits_ok_def contents_def tab_get_def)
qed

lemma get_metamethod_eq:
  assumes inv: "heap_inv h" and t: "t < h_next_table h"
  shows "get_metamethod h t n = Some (case ts_metatable (h_tables h t) of
      None \<Rightarrow> VNil | Some m \<Rightarrow> contents h m (CStr n))"
proof (cases "ts_metatable (h_tables h t)")
  case (Some m)
  then have "m < h_next_table h"
    using heap_invD(3) [OF inv t] by (simp add: table_ok_def mt_ok_def)
  then show ?thesis using Some raw_get_contents [OF inv] by (simp add: get_metamethod_def)
qed (simp add: get_metamethod_def)

text \<open>Without a metamethod bit a lookup of the metamethod finds nothing.\<close>

lemma no_mm_get:
  assumes "heap_inv h" and "t < h_next_table h" and "(n, b) \<in> set metamethod_table"
    and "\<not> has_mm h (ts_shape (h_tables h t)) b"
  shows "get_metamethod h t n = Some VNil"
  using assms has_mm_iff [OF assms(1-3)] by (auto simp: get_metamethod_eq split: option.split)

lemma find_slot_fast:
  assumes "shapes_inv h" and "table_ok h ts" and "find_slot h (ts_shape ts) k = Some i"
  shows "ts_dict ts = None" and "i < length (ts_properties ts)" and "str_get h ts k = ts_properties ts ! i"
proof -
  have s: "ts_shape ts < h_next_shape h" using assms(2) by (simp add: table_ok_def)
  show d: "ts_dict ts = None"
  proof (rule ccontr)
    assume "ts_dict ts \<noteq> None"
    then have "sd_is_dict (h_shapes h (ts_shape ts))"
      using assms(2) by (auto simp: table_ok_def mode_ok_def)
    then have "sd_descriptors (h_shapes h (ts_shape ts)) = []"
      using assms(1) s by (auto simp: shapes_inv_def layout_ok_def)
    then show False using assms(3) by (simp add: find_slot_def)
  qed
  show "i < length (ts_properties ts)" by (rule slot_in_properties [OF assms(1,2) d assms(3)])
  show "str_get h ts k = ts_properties ts ! i" using d assms(3) by (simp add: str_get_def)
qed

lemma table_new_spec:
  assumes inv: "heap_inv h" and new: "table_new h = (h', t)"
  shows "heap_inv h'" and "t = h_next_table h" and "h_next_table h' = Suc t"
    and "contents h' t c = VNil" and "u < t \<Longrightarrow> contents h' u = contents h u"
    and "u < t \<Longrightarrow> h_tables h' u = h_tables h u" and "layouts_extend h h'"
    and "ts_metatable (h_tables h' t) = None"
proof -
  have h': "h' = h\<lparr>h_tables := (h_tables h)(t := new_table_state (h_empty_shape h)),
      h_next_table := Suc t\<rparr>" and t: "t = h_next_table h"
    using new by (auto simp: table_new_def Let_def)
  have sinv: "shapes_inv h'"
    using heap_invD(1) [OF inv] shapes_inv_cong [of h' h] by (simp add: h')
  have e: "h_empty_shape h < h_next_shape h" "layout (h_shapes h (h_empty_shape h)) = (0, None, False, [])"
    using heap_invD(1) [OF inv] by (simp_all add: shapes_inv_def)
  have str: "str_get h' = str_get h" by (rule str_get_shapes) (simp add: h')
  have inj: "caches_inj h'"
    using heap_invD(2) [OF inv] by (auto simp: caches_inj_def h' t new_table_state_def less_Suc_eq)
  have "table_ok h' (h_tables h' u) \<and> bits_ok h' (h_tables h' u)" if u: "u < h_next_table h'" for u
  proof (cases "u = t")
    case True
    then show ?thesis using e
      by (simp add: table_ok_def mode_ok_def mt_ok_def cache_of_def bits_ok_def h'
          new_table_state_def layout_def)
  next
    case False
    then have u: "u < h_next_table h" using u by (simp add: h' t)
    note o = heap_invD(3,4) [OF inv u]
    have "m \<noteq> t" if "ts_metatable (h_tables h u) = Some m" for m
      using that o(1) t by (auto simp: table_ok_def mt_ok_def)
    then have "cache_of h' (ts_metatable (h_tables h u)) = cache_of h (ts_metatable (h_tables h u))"
      and "mt_ok h' (h_tables h u)"
      using o(1) by (cases "ts_metatable (h_tables h u)";
          auto simp: cache_of_def h' t table_ok_def mt_ok_def)+
    then show ?thesis using o False
      by (simp add: table_ok_def bits_ok_def str) (simp add: h')
  qed
  then show "heap_inv h'" using sinv inj by (simp add: heap_inv_def)
  show "t = h_next_table h" "h_next_table h' = Suc t" using t h' by simp_all
  have d: "sd_descriptors (h_shapes h (h_empty_shape h)) = []" using e(2) by (simp add: layout_def)
  show "contents h' t c = VNil"
    by (simp add: contents_def tab_get_def str) (simp add: h' new_table_state_def str_get_def
        find_slot_def d get_at_def opt_value_def split: key_class.split)
  show "contents h' u = contents h u" if "u < t"
    using that tab_get_shapes [of h' h] by (simp add: contents_def h')
  show "h_tables h' u = h_tables h u" if "u < t" using that by (simp add: h')
  show "layouts_extend h h'" by (simp add: layouts_extend_def h')
  show "ts_metatable (h_tables h' t) = None" by (simp add: h' new_table_state_def)
qed

end
