(* ===== verification/Metachain.thy ===== *)
theory Metachain
  imports TableLemmas "HOL-Library.Monad_Syntax"
begin

text \<open>
  \<open>vm/interp.rs\<close>: the pure helpers of the instruction handlers. The \<open>__index\<close>
  and \<open>__newindex\<close> chains, the metamethod lookups of the operators, and the inline
  cache: its check against the live shape and its fill. A panic or an undefined
  \<open>unwrap_unchecked\<close> is the outer \<open>None\<close>.
\<close>

section \<open>Chains\<close>

definition MAX_TAG_LOOP :: nat where "MAX_TAG_LOOP = 2000"

definition mm_index :: bytes where "mm_index = ascii ''__index''"
definition mm_newindex :: bytes where "mm_newindex = ascii ''__newindex''"

definition table_metatable :: "heap \<Rightarrow> addr \<Rightarrow> addr option" where
  "table_metatable h t = ts_metatable (h_tables h t)"

definition table_has_mm :: "heap \<Rightarrow> addr \<Rightarrow> u32 \<Rightarrow> bool" where
  "table_has_mm h t b = has_mm h (ts_shape (h_tables h t)) b"

datatype index_chain =
    Resolved lua_value
  | Invoke lua_value lua_value
  | Exhausted

fun walk_index_loop :: "nat \<Rightarrow> heap \<Rightarrow> lua_value \<Rightarrow> lua_value \<Rightarrow> lua_value \<Rightarrow> index_chain option" where
  "walk_index_loop 0 h recv mm key = Some Exhausted"
| "walk_index_loop (Suc n) h recv mm key =
     (if is_nil mm then Some (Resolved VNil)
      else case get_table mm of
        None \<Rightarrow> Some (Invoke mm recv)
      | Some t \<Rightarrow> do {
          v \<leftarrow> raw_get h t key;
          if \<not> is_nil v then Some (Resolved v)
          else if \<not> table_has_mm h t bit_INDEX then Some (Resolved VNil)
          else do {
            mt \<leftarrow> table_metatable h t;
            mm' \<leftarrow> raw_get h mt (VStr mm_index);
            walk_index_loop n h (VTable t) mm' key
          }
        })"

definition walk_index_chain :: "heap \<Rightarrow> lua_value \<Rightarrow> addr \<Rightarrow> lua_value \<Rightarrow> index_chain option" where
  "walk_index_chain h start_receiver start_metatable key = do {
     mm \<leftarrow> raw_get h start_metatable (VStr mm_index);
     walk_index_loop MAX_TAG_LOOP h start_receiver mm key
   }"

text \<open>\<open>userdata_index_chain\<close>; the inner \<open>None\<close> is the source's \<open>Err(())\<close>.\<close>

definition userdata_index_chain ::
  "heap \<Rightarrow> addr option \<Rightarrow> lua_value \<Rightarrow> lua_value \<Rightarrow> index_chain option option" where
  "userdata_index_chain h u_metatable recv_val key =
     (case u_metatable of
        None \<Rightarrow> Some None
      | Some mt \<Rightarrow> do {
          mm \<leftarrow> raw_get h mt (VStr mm_index);
          if is_nil mm then Some None
          else map_option Some (walk_index_chain h recv_val mt key)
        })"

datatype newindex_chain =
    RawSet addr
  | NInvoke lua_value lua_value
  | NExhausted

fun walk_newindex_loop :: "nat \<Rightarrow> heap \<Rightarrow> addr \<Rightarrow> lua_value \<Rightarrow> newindex_chain option" where
  "walk_newindex_loop 0 h t key = Some NExhausted"
| "walk_newindex_loop (Suc n) h t key = do {
     v \<leftarrow> raw_get h t key;
     if \<not> is_nil v then Some (RawSet t)
     else if \<not> table_has_mm h t bit_NEWINDEX then Some (RawSet t)
     else do {
       mt \<leftarrow> table_metatable h t;
       mm \<leftarrow> raw_get h mt (VStr mm_newindex);
       if is_nil mm then Some (RawSet t)
       else case get_table mm of
         Some next \<Rightarrow> walk_newindex_loop n h next key
       | None \<Rightarrow> Some (NInvoke mm (VTable t))
     }
   }"

definition walk_newindex_chain :: "heap \<Rightarrow> addr \<Rightarrow> lua_value \<Rightarrow> newindex_chain option" where
  "walk_newindex_chain h t key = walk_newindex_loop MAX_TAG_LOOP h t key"

section \<open>Operator metamethods\<close>

definition unop_metamethod :: "heap \<Rightarrow> lua_value \<Rightarrow> bytes \<Rightarrow> lua_value option" where
  "unop_metamethod h v name =
     (case get_table v of Some t \<Rightarrow> get_metamethod h t name | None \<Rightarrow> Some VNil)"

definition binop_metamethod :: "heap \<Rightarrow> lua_value \<Rightarrow> lua_value \<Rightarrow> bytes \<Rightarrow> lua_value option" where
  "binop_metamethod h lhs rhs name = do {
     m \<leftarrow> (case get_table lhs of Some t \<Rightarrow> get_metamethod h t name | None \<Rightarrow> Some VNil);
     if \<not> is_nil m then Some m
     else case get_table rhs of Some t \<Rightarrow> get_metamethod h t name | None \<Rightarrow> Some VNil
   }"

section \<open>Inline caches\<close>

datatype inline_cache =
    ICEmpty
  | ICMono addr nat

definition ABSENT_SLOT :: nat where "ABSENT_SLOT = 2 ^ 32 - 1"

definition ic_check :: "inline_cache \<Rightarrow> addr \<Rightarrow> nat option" where
  "ic_check cache live_shape =
     (case cache of
        ICMono s slot \<Rightarrow> if live_shape = s then Some slot else None
      | ICEmpty \<Rightarrow> None)"

text \<open>The entry \<open>fill_ic_for_constant_key\<close> computes; a non-string key leaves the cache.\<close>

definition ic_entry :: "heap \<Rightarrow> addr \<Rightarrow> lua_value \<Rightarrow> inline_cache option" where
  "ic_entry h t k =
     (case get_string k of
        None \<Rightarrow> None
      | Some key \<Rightarrow>
          (let shape = ts_shape (h_tables h t);
               slot = (case find_slot h shape key of Some i \<Rightarrow> i | None \<Rightarrow> ABSENT_SLOT)
           in Some (ICMono shape slot)))"

text \<open>
  The guard shared by the four cached handlers: on a hit with a present slot, the current
  value, unless it is nil and the metamethod \<open>b\<close> could apply. \<open>Some None\<close> sends the handler to
  its slow path; \<open>None\<close> is an out-of-range \<open>get_unchecked\<close>.
\<close>

definition ic_probe :: "heap \<Rightarrow> inline_cache \<Rightarrow> addr \<Rightarrow> u32 \<Rightarrow> (nat \<times> lua_value) option option" where
  "ic_probe h cache t b =
     (case ic_check cache (ts_shape (h_tables h t)) of
        None \<Rightarrow> Some None
      | Some slot \<Rightarrow>
          if slot = ABSENT_SLOT then Some None
          else do {
            v \<leftarrow> property_at h t slot;
            if is_nil v \<and> table_has_mm h t b then Some None else Some (Some (slot, v))
          })"

text \<open>The cached write: the slot, then the metamethod bit.\<close>

definition ic_store :: "heap \<Rightarrow> addr \<Rightarrow> nat \<Rightarrow> lua_value \<Rightarrow> lua_value \<Rightarrow> heap option" where
  "ic_store h t slot k v = do {
     ps \<leftarrow> idx_set (ts_properties (h_tables h t)) slot v;
     Some (maybe_update_mt_bit (upd_table h t (\<lambda>ts. ts\<lparr>ts_properties := ps\<rparr>)) t k v)
   }"

section \<open>Soundness of the cache\<close>

definition ic_valid :: "heap \<Rightarrow> bytes \<Rightarrow> inline_cache \<Rightarrow> bool" where
  "ic_valid h key c \<longleftrightarrow> (case c of
      ICEmpty \<Rightarrow> True
    | ICMono s slot \<Rightarrow> s < h_next_shape h
        \<and> slot = (case find_slot h s key of Some i \<Rightarrow> i | None \<Rightarrow> ABSENT_SLOT))"

lemma ic_entry_valid:
  assumes "heap_inv h" and "t < h_next_table h" and "ic_entry h t (VStr key) = Some c"
  shows "ic_valid h key c"
proof -
  have "ts_shape (h_tables h t) < h_next_shape h"
    using heap_invD(3) [OF assms(1,2)] by (simp add: table_ok_def)
  then show ?thesis using assms(3) by (auto simp: ic_entry_def ic_valid_def Let_def)
qed

lemma find_slot_layouts_extend:
  "layouts_extend h h' \<Longrightarrow> s < h_next_shape h \<Longrightarrow> find_slot h' s k = find_slot h s k"
  by (simp add: layouts_extend_def find_slot_def layout_eq_iff)

text \<open>Layouts never change, so an entry stays right whatever the program does next.\<close>

lemma ic_valid_extend:
  assumes "ic_valid h key c" and "layouts_extend h h'"
  shows "ic_valid h' key c"
proof (cases c)
  case (ICMono s slot)
  then have "s < h_next_shape h" using assms(1) by (simp add: ic_valid_def)
  then show ?thesis
    using assms ICMono find_slot_layouts_extend [OF assms(2)]
    by (simp add: ic_valid_def) (simp add: layouts_extend_def)
qed (simp add: ic_valid_def)

lemma ic_hit:
  assumes inv: "heap_inv h" and t: "t < h_next_table h" and c: "ic_valid h key c"
    and hit: "ic_check c (ts_shape (h_tables h t)) = Some slot" and pres: "slot \<noteq> ABSENT_SLOT"
  shows "find_slot h (ts_shape (h_tables h t)) key = Some slot"
    and "property_at h t slot = Some (contents h t (CStr key))"
proof -
  show f: "find_slot h (ts_shape (h_tables h t)) key = Some slot"
    using c hit pres
    by (auto simp: ic_check_def ic_valid_def split: inline_cache.splits if_splits option.splits)
  note ff = find_slot_fast [OF heap_invD(1) [OF inv] heap_invD(3) [OF inv t] f]
  show "property_at h t slot = Some (contents h t (CStr key))"
    using ff by (simp add: property_at_def panic_simps contents_def tab_get_def)
qed

lemma ic_probe_sound:
  assumes inv: "heap_inv h" and t: "t < h_next_table h" and c: "ic_valid h key c"
  shows "ic_probe h c t b = Some None
    \<or> (\<exists>slot. ic_probe h c t b = Some (Some (slot, contents h t (CStr key)))
        \<and> find_slot h (ts_shape (h_tables h t)) key = Some slot
        \<and> (contents h t (CStr key) \<noteq> VNil \<or> \<not> table_has_mm h t b))"
proof (cases "ic_check c (ts_shape (h_tables h t))")
  case (Some slot)
  then show ?thesis
    using ic_hit [OF inv t c Some] by (cases "slot = ABSENT_SLOT") (auto simp: ic_probe_def)
qed (simp add: ic_probe_def)

lemma ic_store_spec:
  assumes inv: "heap_inv h" and t: "t < h_next_table h"
    and f: "find_slot h (ts_shape (h_tables h t)) key = Some slot"
  shows "\<exists>h'. ic_store h t slot (VStr key) v = Some h' \<and> write_spec h t (CStr key) v h'"
proof -
  let ?ts = "h_tables h t"
  note ok = heap_invD(3) [OF inv t] and sinv = heap_invD(1) [OF inv]
  note ff = find_slot_fast [OF sinv ok f]
  have s: "ts_shape ?ts < h_next_shape h" using ok by (simp add: table_ok_def)
  let ?f = "\<lambda>ts. ts\<lparr>ts_properties := (ts_properties ?ts)[slot := v]\<rparr>"
  have "table_ok h (?f ?ts)"
    using ok ff(1) by (auto simp: table_ok_def mode_ok_def mt_ok_def)
  moreover have "str_get h (?f ?ts) k = (if k = key then v else str_get h ?ts k)" for k
  proof (cases "k = key")
    case True
    then show ?thesis using ff f by (simp add: str_get_def)
  next
    case False
    then have "find_slot h (ts_shape ?ts) k \<noteq> Some slot"
      using find_slot_inj [OF sinv s f] by blast
    then show ?thesis using ff(1) False
      by (cases "find_slot h (ts_shape ?ts) k") (simp_all add: str_get_def)
  qed
  ultimately have "write_spec h t (CStr key) v (maybe_update_mt_bit (upd_table h t ?f) t (VStr key) v)"
    by (intro write_spec_string [of h t h ?f]) (use inv t sinv in \<open>simp_all add: same_meta_def\<close>)
  then show ?thesis using ff(2) by (simp add: ic_store_def panic_simps)
qed

section \<open>What the chains compute\<close>

text \<open>
  The chains as relations, with the number of hops: what the loops above answer when they are
  given enough iterations. A value that is neither nil nor a table ends a chain with a call, of
  whatever type it is; how that compares with the reference manual is in \<open>HandlerLemmas\<close>.
\<close>

definition meta_of :: "heap \<Rightarrow> addr \<Rightarrow> bytes \<Rightarrow> lua_value" where
  "meta_of h t name =
     (case table_metatable h t of None \<Rightarrow> VNil | Some m \<Rightarrow> contents h m (CStr name))"

inductive index_walk :: "heap \<Rightarrow> lua_value \<Rightarrow> nat \<Rightarrow> lua_value \<Rightarrow> lua_value \<Rightarrow> index_chain \<Rightarrow> bool"
  for h :: heap and k :: lua_value where
  ix_nil: "index_walk h k 0 r VNil (Resolved VNil)"
| ix_call: "mm \<noteq> VNil \<Longrightarrow> get_table mm = None \<Longrightarrow> index_walk h k 0 r mm (Invoke mm r)"
| ix_found: "contents h t (key_class k) \<noteq> VNil \<Longrightarrow>
    index_walk h k 0 r (VTable t) (Resolved (contents h t (key_class k)))"
| ix_hop: "contents h t (key_class k) = VNil \<Longrightarrow>
    index_walk h k n (VTable t) (meta_of h t mm_index) res \<Longrightarrow>
    index_walk h k (Suc n) r (VTable t) res"

inductive_cases index_walk_nilE: "index_walk h k n r VNil res"
inductive_cases index_walk_tableE: "index_walk h k n r (VTable t) res"

inductive newindex_walk :: "heap \<Rightarrow> lua_value \<Rightarrow> nat \<Rightarrow> addr \<Rightarrow> newindex_chain \<Rightarrow> bool"
  for h :: heap and k :: lua_value where
  nx_present: "contents h t (key_class k) \<noteq> VNil \<Longrightarrow> newindex_walk h k 0 t (RawSet t)"
| nx_plain: "contents h t (key_class k) = VNil \<Longrightarrow> meta_of h t mm_newindex = VNil \<Longrightarrow>
    newindex_walk h k 0 t (RawSet t)"
| nx_call: "contents h t (key_class k) = VNil \<Longrightarrow> meta_of h t mm_newindex = mm \<Longrightarrow> mm \<noteq> VNil \<Longrightarrow>
    get_table mm = None \<Longrightarrow> newindex_walk h k 0 t (NInvoke mm (VTable t))"
| nx_hop: "contents h t (key_class k) = VNil \<Longrightarrow> meta_of h t mm_newindex = VTable u \<Longrightarrow>
    newindex_walk h k n u res \<Longrightarrow> newindex_walk h k (Suc n) t res"

text \<open>The tables a heap mentions are allocated.\<close>

definition refs_ok :: "heap \<Rightarrow> bool" where
  "refs_ok h \<longleftrightarrow> (\<forall>t < h_next_table h. \<forall>c u. contents h t c = VTable u \<longrightarrow> u < h_next_table h)"

definition value_ok :: "heap \<Rightarrow> lua_value \<Rightarrow> bool" where
  "value_ok h v \<longleftrightarrow> (\<forall>t. v = VTable t \<longrightarrow> t < h_next_table h)"

lemma value_okD: "value_ok h (VTable t) \<Longrightarrow> t < h_next_table h"
  by (simp add: value_ok_def)

lemma metatable_bound:
  "heap_inv h \<Longrightarrow> t < h_next_table h \<Longrightarrow> table_metatable h t = Some m \<Longrightarrow> m < h_next_table h"
  using heap_invD(3) by (fastforce simp: table_metatable_def table_ok_def mt_ok_def)

lemma meta_of_ok:
  assumes "heap_inv h" and "refs_ok h" and "t < h_next_table h"
  shows "value_ok h (meta_of h t name)"
  using assms metatable_bound [OF assms(1,3)]
  by (auto simp: meta_of_def value_ok_def refs_ok_def split: option.splits)

lemma raw_get_meta:
  assumes "heap_inv h" and "t < h_next_table h" and "table_metatable h t = Some m"
  shows "raw_get h m (VStr name) = Some (meta_of h t name)"
  using raw_get_contents [OF assms(1) metatable_bound [OF assms]] assms(3) by (simp add: meta_of_def)

lemma mm_index_bit: "(mm_index, bit_INDEX) \<in> set metamethod_table"
  by (simp add: metamethod_table_def metamethod_names_def mm_index_def)

lemma mm_newindex_bit: "(mm_newindex, bit_NEWINDEX) \<in> set metamethod_table"
  by (simp add: metamethod_table_def metamethod_names_def mm_newindex_def)

lemma table_has_mm_meta:
  assumes "heap_inv h" and "t < h_next_table h" and "(n, b) \<in> set metamethod_table"
  shows "table_has_mm h t b \<longleftrightarrow> meta_of h t n \<noteq> VNil"
  using has_mm_iff [OF assms]
  by (auto simp: table_has_mm_def meta_of_def table_metatable_def split: option.splits)

lemma has_mm_metatable:
  assumes "heap_inv h" and "t < h_next_table h" and "(n, b) \<in> set metamethod_table"
    and "table_has_mm h t b"
  shows "\<exists>m. table_metatable h t = Some m"
  using has_mm_iff [OF assms(1-3)] assms(4) by (auto simp: table_has_mm_def table_metatable_def)

text \<open>One unfolding of the loops, on a well-formed heap.\<close>

lemma walk_index_Suc:
  assumes inv: "heap_inv h" and t: "t < h_next_table h"
  shows "walk_index_loop (Suc n) h r (VTable t) k =
    (if contents h t (key_class k) \<noteq> VNil then Some (Resolved (contents h t (key_class k)))
     else if meta_of h t mm_index = VNil then Some (Resolved VNil)
     else walk_index_loop n h (VTable t) (meta_of h t mm_index) k)"
  using raw_get_contents [OF inv t] table_has_mm_meta [OF inv t mm_index_bit]
    has_mm_metatable [OF inv t mm_index_bit] raw_get_meta [OF inv t]
  by auto

lemma walk_newindex_Suc:
  assumes inv: "heap_inv h" and t: "t < h_next_table h"
  shows "walk_newindex_loop (Suc n) h t k =
    (if contents h t (key_class k) \<noteq> VNil \<or> meta_of h t mm_newindex = VNil then Some (RawSet t)
     else case get_table (meta_of h t mm_newindex) of
       Some u \<Rightarrow> walk_newindex_loop n h u k
     | None \<Rightarrow> Some (NInvoke (meta_of h t mm_newindex) (VTable t)))"
  using raw_get_contents [OF inv t] table_has_mm_meta [OF inv t mm_newindex_bit]
    has_mm_metatable [OF inv t mm_newindex_bit] raw_get_meta [OF inv t]
  by auto

lemma walk_index_stop:
  "get_table mm = None \<Longrightarrow> walk_index_loop (Suc n) h r mm k
    = Some (if mm = VNil then Resolved VNil else Invoke mm r)"
  by simp

declare walk_index_loop.simps(2) [simp del] walk_newindex_loop.simps(2) [simp del]

lemma walk_index_total:
  assumes "heap_inv h" and "refs_ok h" and "value_ok h mm"
  shows "\<exists>res. walk_index_loop n h r mm k = Some res"
  using assms(3)
proof (induction n arbitrary: r mm)
  case (Suc n)
  show ?case
  proof (cases "get_table mm")
    case None
    then show ?thesis by (simp add: walk_index_stop)
  next
    case (Some t)
    then have mm: "mm = VTable t" by (simp add: getter_Some_iff)
    then have t: "t < h_next_table h" using Suc.prems by (simp add: value_ok_def)
    show ?thesis
      using Suc.IH meta_of_ok [OF assms(1,2) t] by (simp add: mm walk_index_Suc [OF assms(1) t])
  qed
qed simp

lemma walk_index_complete:
  assumes inv: "heap_inv h" and refs: "refs_ok h"
    and "index_walk h k n r mm res" and "n < fuel" and "value_ok h mm"
  shows "walk_index_loop fuel h r mm k = Some res"
  using assms(3-5)
proof (induction arbitrary: fuel)
  case (ix_hop t n res r)
  obtain f where f: "fuel = Suc f" using ix_hop.prems by (cases fuel) auto
  have t: "t < h_next_table h" using ix_hop.prems by (simp add: value_ok_def)
  show ?case
  proof (cases "meta_of h t mm_index = VNil")
    case True
    then show ?thesis
      using ix_hop.hyps f by (auto simp: walk_index_Suc [OF inv t] elim: index_walk_nilE)
  next
    case False
    then show ?thesis
      using ix_hop.IH [of f] ix_hop.hyps ix_hop.prems f meta_of_ok [OF inv refs t]
      by (simp add: walk_index_Suc [OF inv t])
  qed
next
  case (ix_found t r)
  then obtain f where f: "fuel = Suc f" by (cases fuel) auto
  have "t < h_next_table h" using ix_found.prems by (simp add: value_ok_def)
  then show ?case using ix_found.hyps f by (simp add: walk_index_Suc [OF inv])
next
  case (ix_call mm r)
  then show ?case by (cases fuel) (auto simp: walk_index_stop)
next
  case (ix_nil r)
  then show ?case by (cases fuel) (auto simp: walk_index_stop get_table_def)
qed

lemma walk_index_sound:
  assumes inv: "heap_inv h" and refs: "refs_ok h"
    and "walk_index_loop fuel h r mm k = Some res" and "res \<noteq> Exhausted" and "value_ok h mm"
  shows "\<exists>n \<le> fuel. index_walk h k n r mm res"
  using assms(3-5)
proof (induction fuel arbitrary: r mm)
  case (Suc f)
  show ?case
  proof (cases "get_table mm")
    case None
    then show ?thesis
      using Suc.prems by (auto simp: walk_index_stop intro: index_walk.intros split: if_splits)
  next
    case (Some t)
    then have mm: "mm = VTable t" by (simp add: getter_Some_iff)
    then have t: "t < h_next_table h" using Suc.prems by (simp add: value_ok_def)
    note step = Suc.prems(1) [unfolded mm walk_index_Suc [OF inv t]]
    consider (found) "contents h t (key_class k) \<noteq> VNil"
      | (nil) "contents h t (key_class k) = VNil" "meta_of h t mm_index = VNil"
      | (hop) "contents h t (key_class k) = VNil" "meta_of h t mm_index \<noteq> VNil" by blast
    then show ?thesis
    proof cases
      case found
      then show ?thesis using step by (auto simp: mm intro: index_walk.intros)
    next
      case nil
      then have "index_walk h k 0 (VTable t) (meta_of h t mm_index) res"
        using step by (auto intro: index_walk.ix_nil)
      then have "index_walk h k (Suc 0) r (VTable t) res" by (rule ix_hop [OF nil(1)])
      then show ?thesis using mm by (metis Suc_le_mono le0)
    next
      case hop
      then obtain n where "n \<le> f" "index_walk h k n (VTable t) (meta_of h t mm_index) res"
        using Suc.IH [OF _ Suc.prems(2) meta_of_ok [OF inv refs t]] step by auto
      then show ?thesis using ix_hop [OF hop(1)] mm by (metis Suc_le_mono)
    qed
  qed
qed simp

lemma walk_newindex_total:
  assumes "heap_inv h" and "refs_ok h" and "t < h_next_table h"
  shows "\<exists>res. walk_newindex_loop n h t k = Some res
    \<and> (\<forall>u. res = RawSet u \<longrightarrow> u < h_next_table h)"
  using assms(3)
proof (induction n arbitrary: t)
  case (Suc n)
  show ?case
  proof (cases "get_table (meta_of h t mm_newindex)")
    case None
    then show ?thesis using Suc.prems by (simp add: walk_newindex_Suc [OF assms(1) Suc.prems])
  next
    case (Some u)
    then have "u < h_next_table h"
      using meta_of_ok [OF assms(1,2) Suc.prems, of mm_newindex]
      by (simp add: getter_Some_iff value_ok_def)
    then show ?thesis
      using Suc.IH [of u] Suc.prems Some by (simp add: walk_newindex_Suc [OF assms(1) Suc.prems])
  qed
qed simp

lemma walk_newindex_complete:
  assumes inv: "heap_inv h" and refs: "refs_ok h"
    and "newindex_walk h k n t res" and "n < fuel" and "t < h_next_table h"
  shows "walk_newindex_loop fuel h t k = Some res"
  using assms(3-5)
proof (induction arbitrary: fuel)
  case (nx_hop t u n res)
  obtain f where f: "fuel = Suc f" using nx_hop.prems by (cases fuel) auto
  have "u < h_next_table h"
    using meta_of_ok [OF inv refs nx_hop.prems(2), of mm_newindex] nx_hop.hyps
    by (simp add: value_ok_def)
  then show ?case using nx_hop f by (simp add: walk_newindex_Suc [OF inv])
next
  case (nx_present t)
  then show ?case by (cases fuel) (auto simp: walk_newindex_Suc [OF inv])
next
  case (nx_plain t)
  then show ?case by (cases fuel) (auto simp: walk_newindex_Suc [OF inv])
next
  case (nx_call t mm)
  then show ?case by (cases fuel) (auto simp: walk_newindex_Suc [OF inv])
qed

lemma walk_newindex_sound:
  assumes inv: "heap_inv h" and refs: "refs_ok h"
    and "walk_newindex_loop fuel h t k = Some res" and "res \<noteq> NExhausted" and "t < h_next_table h"
  shows "\<exists>n < fuel. newindex_walk h k n t res"
  using assms(3-5)
proof (induction fuel arbitrary: t)
  case (Suc f)
  note t = Suc.prems(3)
  note step = Suc.prems(1) [unfolded walk_newindex_Suc [OF inv t]]
  show ?case
  proof (cases "contents h t (key_class k) \<noteq> VNil \<or> meta_of h t mm_newindex = VNil")
    case True
    then have "newindex_walk h k 0 t res" using step by (auto intro: newindex_walk.intros)
    then show ?thesis by blast
  next
    case False
    show ?thesis
    proof (cases "get_table (meta_of h t mm_newindex)")
      case None
      then have "newindex_walk h k 0 t res" using step False by (auto intro: newindex_walk.intros)
      then show ?thesis by blast
    next
      case (Some u)
      then have u: "meta_of h t mm_newindex = VTable u" by (simp add: getter_Some_iff)
      then have "u < h_next_table h"
        using meta_of_ok [OF inv refs t, of mm_newindex] by (simp add: value_ok_def)
      then obtain n where "n < f" "newindex_walk h k n u res"
        using Suc.IH [of u] Suc.prems(2) step False Some by auto
      then show ?thesis using nx_hop [of h t k u n res] False u by blast
    qed
  qed
qed simp

end
