(* ===== verification/NumText.thy ===== *)
theory NumText
  imports Values
begin

text \<open>
  \<open>builtin/util.rs\<close>: the canonical text of numbers (\<open>push_int\<close>,
  \<open>push_float\<close> with its C-style \<open>%.*g\<close>) and the exact float-to-integer
  conversions. The formatting and parsing of the Rust standard library that the file calls
  (\<open>i64::to_string\<close>, the scientific and fixed formats of \<open>f64\<close> and
  \<open>str::parse::<f64>\<close>) is modelled on exact rationals with one correct rounding.
\<close>

section \<open>Standard-library text conversions\<close>

fun dec_digits :: "nat \<Rightarrow> bytes" where
  "dec_digits n = (if n < 10 then [word_of_nat (48 + n)]
     else dec_digits (n div 10) @ [word_of_nat (48 + n mod 10)])"

declare dec_digits.simps [simp del]

text \<open>\<open>i64::to_string\<close>\<close>

definition i64_to_string :: "i64 \<Rightarrow> bytes" where
  "i64_to_string i = (if sint i < 0 then [45] else []) @ dec_digits (nat \<bar>sint i\<bar>)"

definition pad_left :: "nat \<Rightarrow> bytes \<Rightarrow> bytes" where
  "pad_left k ds = replicate (k - length ds) 48 @ ds"

text \<open>\<open>n / d\<close> rounded to the nearest integer, ties to even.\<close>

definition round_even :: "nat \<Rightarrow> nat \<Rightarrow> nat" where
  "round_even n d = (let q = n div d; r = n mod d in
     if d < 2 * r \<or> (2 * r = d \<and> odd q) then Suc q else q)"

text \<open>The decimal exponent \<open>e\<close> with \<open>10 ^ e \<le> n / d < 10 ^ (e + 1)\<close>, for \<open>0 < n\<close>.\<close>

fun neg_exp :: "nat \<Rightarrow> nat \<Rightarrow> nat \<Rightarrow> nat" where
  "neg_exp 0 n d = 0"
| "neg_exp (Suc fuel) n d = (if d \<le> n then 0 else Suc (neg_exp fuel (10 * n) d))"

definition dec_exponent :: "nat \<Rightarrow> nat \<Rightarrow> int" where
  "dec_exponent n d = (if d \<le> n then int (length (dec_digits (n div d))) - 1
     else - int (neg_exp 400 n d))"

text \<open>The \<open>p\<close> significant digits and the exponent that \<open>{:.(p-1)e}\<close> prints.\<close>

definition sci_digits :: "nat \<Rightarrow> nat \<Rightarrow> nat \<Rightarrow> nat \<times> int" where
  "sci_digits p n d =
     (if n = 0 then (0, 0)
      else let e = dec_exponent n d;
               s = int p - 1 - e;
               m = (if 0 \<le> s then round_even (n * 10 ^ nat s) d
                    else round_even n (d * 10 ^ nat (- s)))
           in if m = 10 ^ p then (10 ^ (p - 1), e + 1) else (m, e))"

text \<open>The fixed format \<open>{:.dec}\<close> of \<open>n / d\<close>.\<close>

definition fixed_text :: "nat \<Rightarrow> nat \<Rightarrow> nat \<Rightarrow> bytes" where
  "fixed_text dec n d =
     (let m = round_even (n * 10 ^ dec) d;
          ip = dec_digits (m div 10 ^ dec);
          fp = pad_left dec (dec_digits (m mod 10 ^ dec))
      in if dec = 0 then ip else ip @ [46] @ fp)"

text \<open>\<open>str::parse::<f64>\<close> on the decimal texts \<open>[-]digits[.digits][e[-+]digits]\<close>.\<close>

definition is_digit :: "u8 \<Rightarrow> bool" where
  "is_digit c \<longleftrightarrow> 48 \<le> unat c \<and> unat c \<le> 57"

definition dec_value :: "bytes \<Rightarrow> nat" where
  "dec_value ds = foldl (\<lambda>acc c. 10 * acc + (unat c - 48)) 0 ds"

definition f64_of_decimal :: "bool \<Rightarrow> nat \<Rightarrow> int \<Rightarrow> f64" where
  "f64_of_decimal neg m e =
     (if 0 \<le> e then round_units neg (m * 10 ^ nat e * 2 ^ 1074) 1
      else round_units neg (m * 2 ^ 1074) (10 ^ nat (- e)))"

definition parse_exp :: "bytes \<Rightarrow> int option" where
  "parse_exp s = (case s of
      [] \<Rightarrow> None
    | c # r \<Rightarrow>
        (let neg = (c = 45); ds = (if c = 45 \<or> c = 43 then r else s) in
         if ds = [] \<or> \<not> list_all is_digit ds then None
         else Some (if neg then - int (dec_value ds) else int (dec_value ds))))"

definition parse_f64 :: "bytes \<Rightarrow> f64 option" where
  "parse_f64 s =
     (let neg = (s \<noteq> [] \<and> hd s = 45);
          b = (if s \<noteq> [] \<and> (hd s = 45 \<or> hd s = 43) then tl s else s);
          ip = takeWhile is_digit b;
          r1 = dropWhile is_digit b;
          has_dot = (r1 \<noteq> [] \<and> hd r1 = 46);
          fp = (if has_dot then takeWhile is_digit (tl r1) else []);
          r2 = (if has_dot then dropWhile is_digit (tl r1) else r1);
          m = dec_value (ip @ fp);
          fe = - int (length fp)
      in if ip = [] \<and> fp = [] then None
         else if r2 = [] then Some (f64_of_decimal neg m fe)
         else if hd r2 = 101 \<or> hd r2 = 69 then
           map_option (\<lambda>x. f64_of_decimal neg m (fe + x)) (parse_exp (tl r2))
         else None)"

section \<open>The text of numbers\<close>

definition push_int :: "bytes \<Rightarrow> i64 \<Rightarrow> bytes" where
  "push_int out i = out @ i64_to_string i"

definition strip_trailing_zeros :: "bytes \<Rightarrow> bytes" where
  "strip_trailing_zeros s =
     (if \<not> List.member s 46 then s
      else let t = rev (dropWhile (\<lambda>c. c = 48) (rev s)) in
           if t \<noteq> [] \<and> last t = 46 then butlast t else t)"

definition format_g :: "f64 \<Rightarrow> nat \<Rightarrow> bytes" where
  "format_g f prec =
     (let p = max prec 1;
          n = mag_units f; d = 2 ^ 1074;
          sgn_txt = (if f64_sign f then [45] else []);
          (m, ex) = sci_digits p n d
      in if ex < - 4 \<or> int p \<le> ex then
           (let ds = pad_left p (dec_digits m);
                mantissa = strip_trailing_zeros
                  (sgn_txt @ take 1 ds @ (if p = 1 then [] else [46] @ drop 1 ds));
                sign = (if ex < 0 then 45 else 43);
                mag = nat \<bar>ex\<bar>
            in if mag < 10 then mantissa @ [101, sign, 48] @ dec_digits mag
               else mantissa @ [101, sign] @ dec_digits mag)
         else strip_trailing_zeros (sgn_txt @ fixed_text (nat (max 0 (int p - 1 - ex))) n d))"

definition push_float :: "bytes \<Rightarrow> f64 \<Rightarrow> bytes" where
  "push_float out f =
     (if is_nan f then out @ ascii ''nan''
      else if is_inf f then
        out @ (if f64_lt f (f64_zero False) then ascii ''-inf'' else ascii ''inf'')
      else
        let s15 = format_g f 15;
            s = (if (case parse_f64 s15 of Some g \<Rightarrow> f64_eq g f | None \<Rightarrow> False)
                 then s15 else format_g f 17);
            s' = (if list_ex (\<lambda>b. b \<in> set (ascii ''.eEnNiI'')) s then s else s @ ascii ''.0'')
        in out @ s')"

section \<open>Exact conversions and raw equality\<close>

definition float_to_integer :: "f64 \<Rightarrow> i64 option" where
  "float_to_integer f =
     (if is_finite f \<and> mag_units f mod 2 ^ 1074 = 0
         \<and> - (2 ^ 63) * 2 ^ 1074 \<le> units f \<and> units f < 2 ^ 63 * 2 ^ 1074
      then Some (i64_of_f64 f) else None)"

definition num_to_value :: "f64 \<Rightarrow> lua_value" where
  "num_to_value f = (case float_to_integer f of Some i \<Rightarrow> VInt i | None \<Rightarrow> VFloat f)"

definition float_eq_int :: "f64 \<Rightarrow> i64 \<Rightarrow> bool" where
  "float_eq_int f i \<longleftrightarrow> float_to_integer f = Some i"

fun raw_eq :: "lua_value \<Rightarrow> lua_value \<Rightarrow> bool" where
  "raw_eq (VInt a) (VInt b) = (a = b)"
| "raw_eq (VFloat a) (VFloat b) = f64_eq a b"
| "raw_eq (VInt a) (VFloat b) = float_eq_int b a"
| "raw_eq (VFloat a) (VInt b) = float_eq_int a b"
| "raw_eq a b = (kind a = kind b \<and> a = b)"

section \<open>Facts\<close>

lemma dec_digits_not_Nil [simp]: "dec_digits n \<noteq> []"
  by (subst dec_digits.simps) simp

lemma unat_digit: "d < 10 \<Longrightarrow> unat (word_of_nat (48 + d) :: u8) = 48 + d"
  by (simp add: unsigned_of_nat take_bit_nat_eq_self del: of_nat_add)

lemma dec_value_snoc: "dec_value (ds @ [c]) = 10 * dec_value ds + (unat c - 48)"
  by (simp add: dec_value_def)

lemma dec_digits_is_digit: "list_all is_digit (dec_digits n)"
proof (induction n rule: dec_digits.induct)
  case (1 n)
  have "is_digit (word_of_nat (48 + d))" if "d < 10" for d
    using that unat_digit [OF that] by (simp add: is_digit_def)
  with 1 show ?case by (subst dec_digits.simps) (auto simp del: of_nat_add)
qed

lemma dec_value_dec_digits [simp]: "dec_value (dec_digits n) = n"
proof (induction n rule: dec_digits.induct)
  case (1 n)
  show ?case
  proof (cases "n < 10")
    case True
    then show ?thesis by (subst dec_digits.simps) (simp add: dec_value_def unat_digit del: of_nat_add)
  next
    case False
    with 1 have "dec_value (dec_digits (n div 10)) = n div 10" by simp
    moreover have "unat (word_of_nat (48 + n mod 10) :: u8) = 48 + n mod 10"
      by (rule unat_digit) simp
    ultimately show ?thesis using False
      by (subst dec_digits.simps) (simp add: dec_value_snoc del: of_nat_add)
  qed
qed

end
