(* ===== verification/NumOps.thy ===== *)
theory NumOps
  imports NumText
begin

text \<open>
  \<open>vm/num.rs\<close>: the numeric operators of the VM. An operation returns \<open>None\<close> where
  the source does, which sends the handler to its metamethod or error path; \<open>op_bit\<close>
  also panics (the outer \<open>None\<close>) where the source unwraps a failed conversion. \<open>powf\<close>
  is the platform's library function, a parameter.
\<close>

section \<open>Conversion of a float operand of a bit operator\<close>

text \<open>The source writes the bound as \<open>2 << 53 - 1\<close>, which Rust parses as
  \<open>2 << 52\<close>, that is \<open>2 ^ 53\<close>.\<close>

definition exact_max :: int where "exact_max = 2 ^ 53"

definition exact_float_to_int :: "f64 \<Rightarrow> i64 option" where
  "exact_float_to_int f =
     (if \<not> is_finite f then None
      else if f64_lt f (f64_of_int (- exact_max)) \<or> f64_lt (f64_of_int exact_max) f then None
      else if \<not> f64_eq (f64_trunc f) f then None
      else Some (i64_of_f64 f))"

section \<open>Arithmetic operators\<close>

datatype arith_op = Add | Sub | Mul | Mod | Pow | Div | IDiv

definition int_zero_divisor_raises :: "arith_op \<Rightarrow> bool" where
  "int_zero_divisor_raises opr = (case opr of Mod \<Rightarrow> True | IDiv \<Rightarrow> True | _ \<Rightarrow> False)"

definition mod_int :: "i64 \<Rightarrow> i64 \<Rightarrow> i64" where
  "mod_int lhs rhs =
     (let r = wrapping_rem lhs rhs
      in if r \<noteq> 0 \<and> i64_lt (r XOR rhs) 0 then r + rhs else r)"

definition idiv_int :: "i64 \<Rightarrow> i64 \<Rightarrow> i64" where
  "idiv_int lhs rhs =
     (let q = wrapping_div lhs rhs;
          r = wrapping_rem lhs rhs
      in if r \<noteq> 0 \<and> i64_lt (lhs XOR rhs) 0 then q - 1 else q)"

definition mod_float :: "f64 \<Rightarrow> f64 \<Rightarrow> f64" where
  "mod_float lhs rhs =
     (let r = f64_rem lhs rhs; z = f64_zero False
      in if (f64_lt z r \<and> f64_lt rhs z) \<or> (f64_lt r z \<and> f64_lt z rhs)
         then f64_add r rhs else r)"

fun arith_int :: "(f64 \<Rightarrow> f64 \<Rightarrow> f64) \<Rightarrow> arith_op \<Rightarrow> i64 \<Rightarrow> i64 \<Rightarrow> lua_value" where
  "arith_int powf Add a b = VInt (a + b)"
| "arith_int powf Sub a b = VInt (a - b)"
| "arith_int powf Mul a b = VInt (a * b)"
| "arith_int powf Mod a b = VInt (mod_int a b)"
| "arith_int powf Pow a b = VFloat (powf (f64_of_i64 a) (f64_of_i64 b))"
| "arith_int powf Div a b = VFloat (f64_div (f64_of_i64 a) (f64_of_i64 b))"
| "arith_int powf IDiv a b = VInt (idiv_int a b)"

fun arith_float :: "(f64 \<Rightarrow> f64 \<Rightarrow> f64) \<Rightarrow> arith_op \<Rightarrow> f64 \<Rightarrow> f64 \<Rightarrow> lua_value" where
  "arith_float powf Add a b = VFloat (f64_add a b)"
| "arith_float powf Sub a b = VFloat (f64_sub a b)"
| "arith_float powf Mul a b = VFloat (f64_mul a b)"
| "arith_float powf Mod a b = VFloat (mod_float a b)"
| "arith_float powf Pow a b = VFloat (powf a b)"
| "arith_float powf Div a b = VFloat (f64_div a b)"
| "arith_float powf IDiv a b = VFloat (f64_floor (f64_div a b))"

definition float_operand :: "lua_value \<Rightarrow> f64 option" where
  "float_operand v = (case v of VInt i \<Rightarrow> Some (f64_of_i64 i) | VFloat f \<Rightarrow> Some f | _ \<Rightarrow> None)"

definition op_arith ::
  "(f64 \<Rightarrow> f64 \<Rightarrow> f64) \<Rightarrow> arith_op \<Rightarrow> lua_value \<Rightarrow> lua_value \<Rightarrow> lua_value option" where
  "op_arith powf opr lhs rhs =
     (case (get_integer lhs, get_integer rhs) of
        (Some li, Some ri) \<Rightarrow>
          if int_zero_divisor_raises opr \<and> ri = 0 then None
          else Some (arith_int powf opr li ri)
      | _ \<Rightarrow>
        (case float_operand lhs of
           None \<Rightarrow> None
         | Some l \<Rightarrow>
             (case float_operand rhs of
                None \<Rightarrow> None
              | Some r \<Rightarrow> Some (arith_float powf opr l r))))"

section \<open>Bit operators\<close>

datatype bit_op = BAnd | BOr | BXor | Shl | Shr

fun bit_int :: "bit_op \<Rightarrow> i64 \<Rightarrow> i64 \<Rightarrow> lua_value" where
  "bit_int BAnd a b = VInt (a AND b)"
| "bit_int BOr a b = VInt (a OR b)"
| "bit_int BXor a b = VInt (a XOR b)"
| "bit_int Shl a b = VInt (wrapping_shl a (ucast b))"
| "bit_int Shr a b = VInt (wrapping_shr a (ucast b))"

text \<open>An operand: \<open>None\<close> is the source's \<open>return None\<close>, \<open>Some None\<close> the panic of
  \<open>unwrap\<close> on a float with no exact integer.\<close>

definition bit_operand :: "lua_value \<Rightarrow> i64 option option" where
  "bit_operand v = (case v of
      VInt i \<Rightarrow> Some (Some i)
    | VFloat f \<Rightarrow> Some (exact_float_to_int f)
    | _ \<Rightarrow> None)"

definition op_bit :: "bit_op \<Rightarrow> lua_value \<Rightarrow> lua_value \<Rightarrow> lua_value option option" where
  "op_bit opr lhs rhs =
     (case bit_operand lhs of
        None \<Rightarrow> Some None
      | Some None \<Rightarrow> None
      | Some (Some l) \<Rightarrow>
          (case bit_operand rhs of
             None \<Rightarrow> Some None
           | Some None \<Rightarrow> None
           | Some (Some r) \<Rightarrow> Some (Some (bit_int opr l r))))"

section \<open>Concatenation operands\<close>

definition write_float :: "bytes \<Rightarrow> f64 \<Rightarrow> bytes" where
  "write_float dst f = push_float dst f"

text \<open>The buffer after the operand, or \<open>None\<close> where the source returns \<open>false\<close>.\<close>

definition coerce_to_str :: "bytes \<Rightarrow> lua_value \<Rightarrow> bytes option" where
  "coerce_to_str buf v = (case v of
      VStr s \<Rightarrow> Some (buf @ s)
    | VInt n \<Rightarrow> Some (buf @ i64_to_string n)
    | VFloat f \<Rightarrow> Some (write_float buf f)
    | _ \<Rightarrow> None)"

section \<open>Floor division and modulo\<close>

lemma trunc_rem_abs: "trunc_rem a b = sgn a * (\<bar>a\<bar> mod \<bar>b\<bar>)"
proof -
  have "b * (sgn a * sgn b * (\<bar>a\<bar> div \<bar>b\<bar>)) = sgn a * ((sgn b * b) * (\<bar>a\<bar> div \<bar>b\<bar>))"
    by (simp only: mult.assoc mult.left_commute)
  also have "sgn b * b = \<bar>b\<bar>" by (simp add: abs_sgn mult.commute)
  finally have "trunc_rem a b = sgn a * \<bar>a\<bar> - sgn a * (\<bar>b\<bar> * (\<bar>a\<bar> div \<bar>b\<bar>))"
    by (simp add: trunc_rem_def trunc_div_def sgn_mult_abs)
  also have "\<dots> = sgn a * (\<bar>a\<bar> mod \<bar>b\<bar>)"
    by (simp only: right_diff_distrib [symmetric] minus_mult_div_eq_mod)
  finally show ?thesis .
qed

lemma trunc_div_floor:
  assumes "b \<noteq> 0"
  shows "a div b = (if trunc_rem a b \<noteq> 0 \<and> (a < 0 \<longleftrightarrow> \<not> b < 0) then trunc_div a b - 1
                    else trunc_div a b)"
proof -
  define q where "q = \<bar>a\<bar> div \<bar>b\<bar>"
  define r where "r = \<bar>a\<bar> mod \<bar>b\<bar>"
  have a: "\<bar>a\<bar> = \<bar>b\<bar> * q + r" and r: "0 \<le> r" "r < \<bar>b\<bar>" and q: "0 \<le> q"
    using assms by (auto simp: q_def r_def pos_imp_zdiv_nonneg_iff)
  have t: "trunc_div a b = sgn a * sgn b * q" by (simp add: trunc_div_def q_def)
  have rem: "trunc_rem a b = sgn a * r"
    by (simp add: trunc_rem_abs r_def)
  consider "0 \<le> a" "0 < b" | "a < 0" "0 < b" | "0 \<le> a" "b < 0" | "a < 0" "b < 0"
    using assms by linarith
  then show ?thesis
  proof cases
    case 1
    then have e: "a = b * q + r" using a by simp
    have "a div b = q" by (rule int_div_pos_eq [OF e]) (use 1 r in auto)
    moreover have "a = 0 \<Longrightarrow> q = 0" by (simp add: q_def)
    ultimately show ?thesis using 1 t by (simp add: sgn_if)
  next
    case 2
    show ?thesis
    proof (cases "r = 0")
      case True
      then have e: "a = b * (- q) + 0" using a 2 by simp
      have "a div b = - q" by (rule int_div_pos_eq [OF e]) (use 2 in auto)
      then show ?thesis using 2 t rem True by simp
    next
      case False
      then have e: "a = b * (- q - 1) + (b - r)" using a 2 by (simp add: algebra_simps)
      have "a div b = - q - 1" by (rule int_div_pos_eq [OF e]) (use 2 r False in auto)
      then show ?thesis using 2 t rem False by simp
    qed
  next
    case 3
    show ?thesis
    proof (cases "r = 0")
      case True
      then have e: "a = b * (- q) + 0" using a 3 by simp
      have "a div b = - q" by (rule int_div_neg_eq [OF e]) (use 3 in simp_all)
      moreover have "a = 0 \<Longrightarrow> q = 0" by (simp add: q_def)
      ultimately show ?thesis using 3 t rem True by (simp add: sgn_if)
    next
      case False
      then have "a \<noteq> 0" by (auto simp: r_def)
      have e: "a = b * (- q - 1) + (r + b)" using a 3 by (simp add: algebra_simps)
      have "a div b = - q - 1" by (rule int_div_neg_eq [OF e]) (use 3 r False in auto)
      then show ?thesis using 3 t rem False \<open>a \<noteq> 0\<close> by simp
    qed
  next
    case 4
    then have e: "a = b * q + (- r)" using a by simp
    have "a div b = q" by (rule int_div_neg_eq [OF e]) (use 4 r in auto)
    then show ?thesis using 4 t by simp
  qed
qed

lemma i64_neg_iff_bit: "sint (x :: i64) < 0 \<longleftrightarrow> bit x 63"
  by (simp add: sint_uint signed_take_bit_negative_iff bit_uint_iff)

lemma i64_lt_xor_0: "i64_lt (a XOR b) 0 \<longleftrightarrow> (sint a < 0 \<longleftrightarrow> \<not> sint b < 0)"
  by (auto simp: i64_lt_def i64_neg_iff_bit bit_xor_iff)

lemma abs_trunc_rem_less: "b \<noteq> 0 \<Longrightarrow> \<bar>trunc_rem a b\<bar> < \<bar>b\<bar>"
proof -
  assume b: "b \<noteq> 0"
  have "0 \<le> \<bar>a\<bar> mod \<bar>b\<bar>" "\<bar>a\<bar> mod \<bar>b\<bar> < \<bar>b\<bar>" using b by simp_all
  then show ?thesis using b by (auto simp: trunc_rem_abs sgn_if)
qed

lemma sint_wrapping_rem: "b \<noteq> 0 \<Longrightarrow> sint (wrapping_rem a b) = trunc_rem (sint a) (sint b)"
proof -
  assume "b \<noteq> 0"
  then have "sint b \<noteq> 0" using sint_eq_iff_i64 [of b 0] by simp
  then have "\<bar>trunc_rem (sint a) (sint b)\<bar> < \<bar>sint b\<bar>" by (rule abs_trunc_rem_less)
  moreover have "\<bar>sint b\<bar> \<le> 2 ^ 63" using sint_i64_range [of b] by simp
  ultimately show ?thesis unfolding wrapping_rem_def by (intro sint_of_int_i64) linarith+
qed

lemma wrapping_rem_eq_0_iff:
  assumes "b \<noteq> 0"
  shows "wrapping_rem a b = 0 \<longleftrightarrow> trunc_rem (sint a) (sint b) = 0"
  using sint_wrapping_rem [OF assms, of a] sint_eq_iff_i64 [of "wrapping_rem a b" 0] by simp

lemma trunc_rem_neg_iff:
  assumes "b \<noteq> 0" "trunc_rem a b \<noteq> 0" shows "trunc_rem a b < 0 \<longleftrightarrow> a < 0"
proof -
  have "0 \<le> \<bar>a\<bar> mod \<bar>b\<bar>" using assms(1) by simp
  with assms(2) show ?thesis by (auto simp: trunc_rem_abs sgn_if split: if_splits)
qed

lemma idiv_int_floor:
  assumes "b \<noteq> 0" shows "idiv_int a b = word_of_int (sint a div sint b)"
proof -
  have b: "sint b \<noteq> 0" using assms sint_eq_iff_i64 [of b 0] by simp
  note f = trunc_div_floor [OF b, of "sint a"]
  show ?thesis
    unfolding idiv_int_def Let_def wrapping_rem_eq_0_iff [OF assms] i64_lt_xor_0 f
    by (simp add: wrapping_div_def)
qed

lemma mod_int_floor:
  assumes "b \<noteq> 0" shows "mod_int a b = word_of_int (sint a mod sint b)"
proof -
  have b: "sint b \<noteq> 0" using assms sint_eq_iff_i64 [of b 0] by simp
  have m: "sint a mod sint b = sint a - sint b * (sint a div sint b)"
    by (simp add: minus_mult_div_eq_mod)
  have "trunc_rem (sint a) (sint b) \<noteq> 0 \<Longrightarrow>
      i64_lt (wrapping_rem a b XOR b) 0 \<longleftrightarrow> (sint a < 0 \<longleftrightarrow> \<not> sint b < 0)"
    using trunc_rem_neg_iff [OF b, of "sint a"]
    by (simp add: i64_lt_xor_0 sint_wrapping_rem [OF assms])
  then show ?thesis
    unfolding mod_int_def Let_def wrapping_rem_eq_0_iff [OF assms] m trunc_div_floor [OF b, of "sint a"]
    by (auto simp: wrapping_rem_def trunc_rem_def algebra_simps)
qed

end
