(* ===== verification/Interner.thy ===== *)
theory Interner
  imports Values
begin

text \<open>
  \<open>env/string.rs\<close>: interned byte strings. A string is a collected object holding its
  bytes; the interner's table has one entry per byte content. The interface \<open>identity_table\<close>
  states what the rest of the runtime relies on: an identity determines its bytes and the
  bytes determine the identity, which is why the source compares strings by pointer and why
  the values of this development carry the bytes.
\<close>

section \<open>The operations\<close>

record interner_state =
  is_table :: "bytes \<rightharpoonup> addr"
  is_store :: "addr \<Rightarrow> bytes"
  is_next :: addr

definition interner_new :: interner_state where
  "interner_new = \<lparr>is_table = Map.empty, is_store = (\<lambda>_. []), is_next = 0\<rparr>"

definition intern :: "interner_state \<Rightarrow> bytes \<Rightarrow> interner_state \<times> addr" where
  "intern st bs =
     (case is_table st bs of
        Some a \<Rightarrow> (st, a)
      | None \<Rightarrow>
          (let a = is_next st in
           (st\<lparr>is_table := (is_table st)(bs \<mapsto> a), is_store := (is_store st)(a := bs),
               is_next := Suc a\<rparr>, a)))"

definition as_bytes :: "interner_state \<Rightarrow> addr \<Rightarrow> bytes" where
  "as_bytes st a = is_store st a"

definition lua_string_len :: "interner_state \<Rightarrow> addr \<Rightarrow> nat" where
  "lua_string_len st a = length (as_bytes st a)"

text \<open>\<open>PartialEq\<close> is pointer equality; \<open>Ord\<close> compares the bytes.\<close>

definition lua_string_eq :: "addr \<Rightarrow> addr \<Rightarrow> bool" where
  "lua_string_eq a b \<longleftrightarrow> a = b"

fun bytes_less :: "bytes \<Rightarrow> bytes \<Rightarrow> bool" where
  "bytes_less _ [] = False"
| "bytes_less [] (_ # _) = True"
| "bytes_less (x # xs) (y # ys) = (if x = y then bytes_less xs ys else x < y)"

definition bytes_le :: "bytes \<Rightarrow> bytes \<Rightarrow> bool" where
  "bytes_le a b \<longleftrightarrow> a = b \<or> bytes_less a b"

definition interned :: "interner_state \<Rightarrow> addr \<Rightarrow> bool" where
  "interned st a \<longleftrightarrow> is_table st (is_store st a) = Some a \<and> a < is_next st"

definition interner_ok :: "interner_state \<Rightarrow> bool" where
  "interner_ok st \<longleftrightarrow> (\<forall>bs a. is_table st bs = Some a \<longrightarrow> a < is_next st \<and> is_store st a = bs)"

section \<open>The interface\<close>

locale identity_table =
  fixes ok :: "'s \<Rightarrow> bool" and member :: "'s \<Rightarrow> 'i \<Rightarrow> bool" and content :: "'s \<Rightarrow> 'i \<Rightarrow> 'c"
    and put :: "'s \<Rightarrow> 'c \<Rightarrow> 's \<times> 'i"
  assumes put_ok: "ok st \<Longrightarrow> put st c = (st', i) \<Longrightarrow> ok st' \<and> member st' i \<and> content st' i = c"
    and put_keeps: "ok st \<Longrightarrow> put st c = (st', i) \<Longrightarrow> member st j \<Longrightarrow>
      member st' j \<and> content st' j = content st j"
    and content_inj: "ok st \<Longrightarrow> member st i \<Longrightarrow> member st j \<Longrightarrow> content st i = content st j \<Longrightarrow> i = j"
begin

lemma same_identity:
  assumes "ok st" and "put st c = (st', i)" and "put st' d = (st'', j)"
  shows "i = j \<longleftrightarrow> c = d"
proof -
  have 1: "ok st'" "member st' i" "content st' i = c" using put_ok [OF assms(1,2)] by auto
  have 2: "ok st''" "member st'' j" "content st'' j = d" using put_ok [OF 1(1) assms(3)] by auto
  have 3: "member st'' i" "content st'' i = c"
    using put_keeps [OF 1(1) assms(3) 1(2)] 1(3) by simp_all
  show ?thesis using content_inj [OF 2(1) 3(1) 2(2)] 2(3) 3(2) by auto
qed

lemma put_member:
  assumes "ok st" and "member st i" and "put st (content st i) = (st', j)"
  shows "j = i"
proof -
  have "ok st'" "member st' j" "content st' j = content st i" using put_ok [OF assms(1,3)] by auto
  moreover have "member st' i" "content st' i = content st i"
    using put_keeps [OF assms(1,3,2)] by auto
  ultimately show ?thesis using content_inj [of st' j i] by simp
qed

end

lemma intern_ok:
  assumes ok: "interner_ok st" and eq: "intern st bs = (st', a)"
  shows "interner_ok st' \<and> interned st' a \<and> as_bytes st' a = bs"
proof (cases "is_table st bs")
  case (Some b)
  then show ?thesis using ok eq by (auto simp: intern_def interner_ok_def interned_def as_bytes_def)
next
  case None
  have "is_table st cs \<noteq> Some (is_next st)" for cs using ok by (auto simp: interner_ok_def)
  then show ?thesis
    using ok eq None
    by (auto simp: intern_def interner_ok_def interned_def as_bytes_def Let_def less_Suc_eq
        split: if_splits)
qed

lemma intern_keeps:
  assumes ok: "interner_ok st" and eq: "intern st bs = (st', a)" and b: "interned st b"
  shows "interned st' b \<and> as_bytes st' b = as_bytes st b"
proof (cases "is_table st bs")
  case (Some c)
  then show ?thesis using eq b by (simp add: intern_def)
next
  case None
  have t: "is_table st (is_store st b) = Some b" "b < is_next st" using b by (simp_all add: interned_def)
  then have "is_store st b \<noteq> bs" using None by auto
  moreover have "is_table st' = (is_table st)(bs \<mapsto> is_next st)"
    "is_store st' = (is_store st)(is_next st := bs)" "is_next st' = Suc (is_next st)"
    using eq None by (auto simp: intern_def Let_def)
  ultimately show ?thesis using t by (simp add: interned_def as_bytes_def)
qed

lemma interned_inj:
  assumes "interned st i" and "interned st j" and "as_bytes st i = as_bytes st j"
  shows "i = j"
proof -
  have "is_table st (as_bytes st i) = Some i" "is_table st (as_bytes st j) = Some j"
    using assms(1,2) by (simp_all only: interned_def as_bytes_def)
  with assms(3) show ?thesis by (metis option.inject)
qed

interpretation strings: identity_table interner_ok interned as_bytes intern
proof (unfold_locales, goal_cases)
  case (1 st c st' i)
  then show ?case by (rule intern_ok)
next
  case (2 st c st' i j)
  then show ?case by (rule intern_keeps)
next
  case (3 st i j)
  then show ?case by (intro interned_inj)
qed

lemma interner_new_ok: "interner_ok interner_new"
  by (simp add: interner_ok_def interner_new_def)

section \<open>Byte order\<close>

lemma bytes_less_irrefl: "\<not> bytes_less a a"
  by (induction a) auto

lemma bytes_less_trans: "bytes_less a b \<Longrightarrow> bytes_less b c \<Longrightarrow> bytes_less a c"
proof (induction a b arbitrary: c rule: bytes_less.induct)
  case (2 y ys)
  then show ?case by (cases c) auto
next
  case (3 x xs y ys)
  then show ?case by (cases c) (auto split: if_splits)
qed simp

lemma bytes_less_total: "a \<noteq> b \<Longrightarrow> bytes_less a b \<or> bytes_less b a"
  by (induction a b rule: bytes_less.induct) (auto simp: neq_Nil_conv)

end
