(* ===== verification/Machine.thy ===== *)
theory Machine
  imports Metachain NumOps Interner
begin

text \<open>
  The state the bytecode interpreter works on: instructions (\<open>instruction.rs\<close>),
  prototypes, closures and upvalues (\<open>env/function.rs\<close>), threads and their frames
  (\<open>env/thread.rs\<close>), and the machine registers of the dispatch loop
  (\<open>vm/interp.rs\<close>). Overflow of unsigned arithmetic on indices, out-of-range indexing
  and undefined unchecked accesses are \<open>None\<close>.
\<close>

section \<open>Instructions\<close>

type_synonym i32 = "32 word"
type_synonym register = u8

datatype (plugins only: size) instruction =
    MOVE register register
  | LOAD register u16
  | LFALSESKIP register
  | GETUPVAL register u8
  | SETUPVAL register u8
  | GETTABUP register u8 u16 u16
  | SETTABUP register u8 u16 u16
  | GETTABLE register register register
  | SETTABLE register register register
  | GETFIELD register register u16 u16
  | SETFIELD register register u16 u16
  | SELF register register u16
  | NEWTABLE register
  | ADD register register register
  | SUB register register register
  | MUL register register register
  | MOD register register register
  | POW register register register
  | DIV register register register
  | IDIV register register register
  | BAND register register register
  | BOR register register register
  | BXOR register register register
  | SHL register register register
  | SHR register register register
  | UNM register register
  | BNOT register register
  | LNOT register register
  | LEN register register
  | CONCAT register register register
  | CLOSE register
  | TBC register
  | JMP i32
  | EQ register register bool
  | LT register register bool
  | LE register register bool
  | TEST register bool
  | TESTSET register register bool
  | CALL register u8 u8
  | TAILCALL register u8
  | RETURN register u8
  | FORLOOP register i32
  | FORPREP register i32
  | TFORPREP register i32
  | TFORCALL register u8
  | TFORLOOP register i32
  | SETLIST register u8 u16
  | CLOSURE register u16
  | VARARG register u8
  | VARARGGET register register register
  | VARARGPREP u8
  | ERRNNIL register u16
  | NOP
  | STOP

datatype upvalue_descriptor = ParentLocal u8 | ParentUpvalue u8

section \<open>Functions\<close>

record prototype =
  pr_code :: "instruction list"
  pr_constants :: "lua_value list"
  pr_prototypes :: "addr list"
  pr_upvalue_desc :: "upvalue_descriptor list"
  pr_num_params :: u8
  pr_is_vararg :: bool
  pr_needs_vararg_table :: bool
  pr_max_stack_size :: u8
  pr_ic_table :: "inline_cache list"

datatype upvalue_state = UOpen addr nat | UClosed lua_value

record lua_closure =
  lc_proto :: addr
  lc_upvalues :: "addr list"

text \<open>A native closure names its callback; the callbacks themselves are the parameter
  \<open>natives\<close> of the interpreter.\<close>

record native_closure =
  nc_function :: nat
  nc_upvalues :: "lua_value list"

datatype function_kind = FKLua lua_closure | FKNative native_closure

section \<open>Threads\<close>

datatype continuation_payload =
    StoreResult u8
  | IgnoreResult
  | CondJump int bool
  | TForCall u8 u8

record continuation =
  ct_payload :: continuation_payload
  ct_results_base :: nat
  ct_nret :: u8

record lua_frame =
  lf_closure :: lua_closure
  lf_base :: nat
  lf_pc :: nat
  lf_num_results :: u8
  lf_num_extras :: nat
  lf_continuation :: "continuation option"

record call_site =
  cs_bottom :: nat
  cs_func_idx :: nat
  cs_returns :: u8
  cs_cont :: "continuation option"

text \<open>\<open>BoxSequence\<close> is a dynamic object; the interpreter only moves it around, so it is
  a handle.\<close>

type_synonym box_sequence = nat

datatype callback_action =
    AReturn
  | ASequence box_sequence
  | ACall addr "box_sequence option"
  | AYield "box_sequence option"
  | AResume addr "box_sequence option"

datatype frame =
    FLua lua_frame
  | FSequence box_sequence call_site "lua_value option"
  | FStart addr
  | FWaitThread call_site
  | FError lua_value

datatype thread_status = Stopped | Suspended | Normal | Result nat

text \<open>The frame and open-upvalue vectors of the source grow at the end; \<open>th_frames\<close> has the
  top frame first, \<open>th_open_upvalues\<close> keeps the order of the source.\<close>

record thread_state =
  th_stack :: "lua_value list"
  th_frames :: "frame list"
  th_open_upvalues :: "addr list"
  th_tbc_slots :: "nat list"
  th_status :: thread_status
  th_top :: nat
  th_handle :: addr
  th_pending_action :: "(callback_action \<times> call_site) option"
  th_yield_bottom :: "call_site option"

definition thread_new :: "addr \<Rightarrow> thread_state" where
  "thread_new handle = \<lparr>th_stack = [], th_frames = [], th_open_upvalues = [], th_tbc_slots = [],
     th_status = Stopped, th_top = 0, th_handle = handle, th_pending_action = None,
     th_yield_bottom = None\<rparr>"

text \<open>The collected objects other than tables: stores from addresses.\<close>

record world =
  w_heap :: heap
  w_protos :: "addr \<Rightarrow> prototype"
  w_funs :: "addr \<Rightarrow> function_kind"
  w_next_fun :: addr
  w_upvals :: "addr \<Rightarrow> upvalue_state"
  w_next_upval :: addr
  w_threads :: "addr \<Rightarrow> thread_state"
  w_userdata_mt :: "addr \<Rightarrow> addr option"
  w_next_thread :: addr

section \<open>The dispatch state\<close>

text \<open>
  The arguments every handler passes on: the runtime, the running thread, the \<open>registers\<close>
  pointer as the stack index it points at, and the \<open>ip\<close> pointer as an index into the code
  of the top frame.
\<close>

record machine =
  m_world :: world
  m_thread :: thread_state
  m_regs :: nat
  m_ip :: nat

text \<open>How a handler ends: it dispatches the next instruction, returns \<open>Ok(())\<close> to the
  executor, or raises.\<close>

datatype outcome = Dispatch machine | Done machine | Raise machine

abbreviation (input) m_heap :: "machine \<Rightarrow> heap" where "m_heap m \<equiv> w_heap (m_world m)"

definition set_heap :: "machine \<Rightarrow> heap \<Rightarrow> machine" where
  "set_heap m h = m\<lparr>m_world := (m_world m)\<lparr>w_heap := h\<rparr>\<rparr>"

definition set_thread :: "machine \<Rightarrow> thread_state \<Rightarrow> machine" where
  "set_thread m th = m\<lparr>m_thread := th\<rparr>"

definition sub_nat :: "nat \<Rightarrow> nat \<Rightarrow> nat option" where
  "sub_nat a b = (if b \<le> a then Some (a - b) else None)"

definition add_u8 :: "u8 \<Rightarrow> nat \<Rightarrow> u8 option" where
  "add_u8 a n = (if unat a + n < 256 then Some (a + word_of_nat n) else None)"

definition top_lua :: "thread_state \<Rightarrow> lua_frame option" where
  "top_lua th = (case th_frames th of FLua f # _ \<Rightarrow> Some f | _ \<Rightarrow> None)"

definition upd_top_lua :: "(lua_frame \<Rightarrow> lua_frame) \<Rightarrow> thread_state \<Rightarrow> thread_state" where
  "upd_top_lua g th = (case th_frames th of
      FLua f # fs \<Rightarrow> th\<lparr>th_frames := FLua (g f) # fs\<rparr>
    | _ \<Rightarrow> th)"

definition push_lua :: "lua_frame \<Rightarrow> thread_state \<Rightarrow> thread_state" where
  "push_lua f th = th\<lparr>th_frames := FLua f # th_frames th\<rparr>"

definition push_frame :: "frame \<Rightarrow> thread_state \<Rightarrow> thread_state" where
  "push_frame f th = th\<lparr>th_frames := f # th_frames th\<rparr>"

definition pop_frame :: "thread_state \<Rightarrow> thread_state" where
  "pop_frame th = th\<lparr>th_frames := tl (th_frames th)\<rparr>"

definition proto_of :: "world \<Rightarrow> lua_closure \<Rightarrow> prototype" where
  "proto_of w c = w_protos w (lc_proto c)"

text \<open>\<open>reg\<close>, \<open>set_reg\<close>: reads and writes through the \<open>registers\<close> pointer.\<close>

definition reg_at :: "machine \<Rightarrow> nat \<Rightarrow> lua_value option" where
  "reg_at m i = idx (th_stack (m_thread m)) (m_regs m + i)"

definition set_reg_at :: "machine \<Rightarrow> nat \<Rightarrow> lua_value \<Rightarrow> machine option" where
  "set_reg_at m i v = do {
     s \<leftarrow> idx_set (th_stack (m_thread m)) (m_regs m + i) v;
     Some (m\<lparr>m_thread := (m_thread m)\<lparr>th_stack := s\<rparr>\<rparr>)
   }"

definition reg :: "machine \<Rightarrow> u8 \<Rightarrow> lua_value option" where
  "reg m r = reg_at m (unat r)"

definition set_reg :: "machine \<Rightarrow> u8 \<Rightarrow> lua_value \<Rightarrow> machine option" where
  "set_reg m r v = set_reg_at m (unat r) v"

definition const_at :: "machine \<Rightarrow> u16 \<Rightarrow> lua_value option" where
  "const_at m i = do {
     f \<leftarrow> top_lua (m_thread m);
     idx (pr_constants (proto_of (m_world m) (lf_closure f))) (unat i)
   }"

definition upvalue :: "machine \<Rightarrow> u8 \<Rightarrow> addr option" where
  "upvalue m i = do {
     f \<leftarrow> top_lua (m_thread m);
     idx (lc_upvalues (lf_closure f)) (unat i)
   }"

definition jump :: "machine \<Rightarrow> int \<Rightarrow> machine option" where
  "jump m offset = (if 0 \<le> int (m_ip m) + offset
     then Some (m\<lparr>m_ip := nat (int (m_ip m) + offset)\<rparr>) else None)"

definition skip :: "machine \<Rightarrow> machine" where
  "skip m = m\<lparr>m_ip := m_ip m + 1\<rparr>"

definition dispatch :: "machine \<Rightarrow> outcome option" where
  "dispatch m = Some (Dispatch m)"

definition store_dispatch :: "machine \<Rightarrow> u8 \<Rightarrow> lua_value \<Rightarrow> outcome option" where
  "store_dispatch m dst v = do { m' \<leftarrow> set_reg m dst v; dispatch m' }"

definition raise :: "machine \<Rightarrow> outcome option" where
  "raise m = Some (Raise m)"

text \<open>\<open>if stack.len() < n { stack.resize(n, nil) }\<close>, and the loops that copy or clear a
  range of stack slots in increasing order.\<close>

definition grow :: "lua_value list \<Rightarrow> nat \<Rightarrow> lua_value list" where
  "grow s n = (if length s < n then resize s n VNil else s)"

definition upd_stack :: "(lua_value list \<Rightarrow> lua_value list) \<Rightarrow> thread_state \<Rightarrow> thread_state" where
  "upd_stack g th = th\<lparr>th_stack := g (th_stack th)\<rparr>"

fun copy_up :: "nat \<Rightarrow> nat \<Rightarrow> nat \<Rightarrow> lua_value list \<Rightarrow> lua_value list option" where
  "copy_up dst src 0 s = Some s"
| "copy_up dst src (Suc n) s = do {
     v \<leftarrow> idx s src;
     s' \<leftarrow> idx_set s dst v;
     copy_up (Suc dst) (Suc src) n s'
   }"

text \<open>\<open>fill_nil s from n\<close>: clear \<open>n\<close> slots starting at \<open>from\<close>.\<close>

fun fill_nil :: "nat \<Rightarrow> nat \<Rightarrow> lua_value list \<Rightarrow> lua_value list option" where
  "fill_nil from 0 s = Some s"
| "fill_nil from (Suc n) s = do { s' \<leftarrow> idx_set s from VNil; fill_nil (Suc from) n s' }"

section \<open>Upvalues\<close>

definition thread_at :: "world \<Rightarrow> thread_state \<Rightarrow> addr \<Rightarrow> thread_state" where
  "thread_at w th t = (if t = th_handle th then th else w_threads w t)"

definition read_upvalue :: "world \<Rightarrow> thread_state \<Rightarrow> addr \<Rightarrow> lua_value option" where
  "read_upvalue w th uv =
     (case w_upvals w uv of
        UClosed v \<Rightarrow> Some v
      | UOpen t i \<Rightarrow>
          if t = th_handle th then idx (th_stack th) i else idx (th_stack (w_threads w t)) i)"

definition write_upvalue ::
  "world \<Rightarrow> thread_state \<Rightarrow> addr \<Rightarrow> lua_value \<Rightarrow> (world \<times> thread_state) option" where
  "write_upvalue w th uv val =
     (case w_upvals w uv of
        UClosed _ \<Rightarrow> Some (w\<lparr>w_upvals := (w_upvals w)(uv := UClosed val)\<rparr>, th)
      | UOpen t i \<Rightarrow>
          if t = th_handle th then do {
            s \<leftarrow> idx_set (th_stack th) i val;
            Some (w, th\<lparr>th_stack := s\<rparr>)
          } else do {
            s \<leftarrow> idx_set (th_stack (w_threads w t)) i val;
            Some (w\<lparr>w_threads := (w_threads w)(t := (w_threads w t)\<lparr>th_stack := s\<rparr>)\<rparr>, th)
          })"

text \<open>\<open>close_upvalues\<close>: the \<open>retain\<close> closure walks the open list in order, closing
  and dropping every upvalue at or above \<open>start\<close>.\<close>

fun close_loop :: "nat \<Rightarrow> lua_value list \<Rightarrow> addr list \<Rightarrow> (addr \<Rightarrow> upvalue_state) \<Rightarrow>
    (addr list \<times> (addr \<Rightarrow> upvalue_state)) option" where
  "close_loop start s [] st = Some ([], st)"
| "close_loop start s (uv # uvs) st =
     (case st uv of
        UOpen _ i \<Rightarrow>
          if start \<le> i then do {
            v \<leftarrow> idx s i;
            close_loop start s uvs (st(uv := UClosed v))
          } else do {
            (keep, st') \<leftarrow> close_loop start s uvs st;
            Some (uv # keep, st')
          }
      | UClosed _ \<Rightarrow> do {
            (keep, st') \<leftarrow> close_loop start s uvs st;
            Some (uv # keep, st')
          })"

definition close_upvalues :: "world \<Rightarrow> thread_state \<Rightarrow> nat \<Rightarrow> (world \<times> thread_state) option" where
  "close_upvalues w th start = do {
     (keep, st) \<leftarrow> close_loop start (th_stack th) (th_open_upvalues th) (w_upvals w);
     Some (w\<lparr>w_upvals := st\<rparr>, th\<lparr>th_open_upvalues := keep\<rparr>)
   }"

definition close_tbc_vars :: "thread_state \<Rightarrow> nat \<Rightarrow> thread_state" where
  "close_tbc_vars th start = th\<lparr>th_tbc_slots := filter (\<lambda>slot. slot < start) (th_tbc_slots th)\<rparr>"

definition to_number :: "lua_value \<Rightarrow> f64 option" where
  "to_number v = (case get_integer v of
      Some i \<Rightarrow> Some (f64_of_i64 i)
    | None \<Rightarrow> get_float v)"

end
