(* ===== verification/Calls.thy ===== *)
theory Calls
  imports Machine
begin

text \<open>
  \<open>vm/interp.rs\<close>: the call protocol. Resolution of a callee through
  \<open>__call\<close>, native callbacks, the return of a frame, and the continuation-driven calls
  of metamethods and iterators. Native callbacks are function pointers the interpreter
  receives: \<open>rt_natives\<close> maps the name in a native closure to what a call does to the runtime
  and to the callback's stack window; \<open>rt_powf\<close> is the platform's \<open>powf\<close>.
\<close>

type_synonym native_fn =
  "world \<Rightarrow> addr \<Rightarrow> lua_value list \<Rightarrow> lua_value list \<Rightarrow>
     (world \<times> lua_value list \<times> (lua_value + callback_action)) option"

record runtime =
  rt_natives :: "nat \<Rightarrow> native_fn"
  rt_powf :: "f64 \<Rightarrow> f64 \<Rightarrow> f64"

definition mm_call :: bytes where "mm_call = ascii ''__call''"

section \<open>Resolving a callee\<close>

datatype call_target = CTLua lua_closure | CTNative native_closure

fun shift_right :: "nat \<Rightarrow> nat \<Rightarrow> lua_value list \<Rightarrow> lua_value list option" where
  "shift_right from 0 s = Some s"
| "shift_right from (Suc i) s = do {
     v \<leftarrow> idx s (from + i);
     s' \<leftarrow> idx_set s (from + i + 1) v;
     shift_right from i s'
   }"

fun resolve_call_loop :: "nat \<Rightarrow> world \<Rightarrow> nat \<Rightarrow> lua_value list \<Rightarrow> u8 \<Rightarrow>
    (lua_value list \<times> (call_target \<times> u8) option) option" where
  "resolve_call_loop 0 w func_idx s nargs = Some (s, None)"
| "resolve_call_loop (Suc n) w func_idx s nargs = do {
     func_val \<leftarrow> idx s func_idx;
     case get_function func_val of
       Some f \<Rightarrow>
         (case w_funs w f of
            FKLua c \<Rightarrow> Some (s, Some (CTLua c, nargs))
          | FKNative nc \<Rightarrow> Some (s, Some (CTNative nc, nargs)))
     | None \<Rightarrow>
         (case get_table func_val of
            None \<Rightarrow> Some (s, None)
          | Some t \<Rightarrow> do {
              mm \<leftarrow> get_metamethod (w_heap w) t mm_call;
              if is_nil mm then Some (s, None)
              else if nargs = 0 then Some (s, None)
              else do {
                let actual_args = unat nargs - 1;
                let s1 = grow s (func_idx + 2 + actual_args);
                s2 \<leftarrow> shift_right (func_idx + 1) actual_args s1;
                s3 \<leftarrow> idx_set s2 (func_idx + 1) func_val;
                s4 \<leftarrow> idx_set s3 func_idx mm;
                nargs' \<leftarrow> add_u8 nargs 1;
                resolve_call_loop n w func_idx s4 nargs'
              }
            })
   }"

definition resolve_call_chain :: "world \<Rightarrow> thread_state \<Rightarrow> nat \<Rightarrow> u8 \<Rightarrow>
    (thread_state \<times> (call_target \<times> u8) option) option" where
  "resolve_call_chain w th func_idx nargs = do {
     (s, r) \<leftarrow> resolve_call_loop MAX_TAG_LOOP w func_idx (th_stack th) nargs;
     Some (th\<lparr>th_stack := s\<rparr>, r)
   }"

section \<open>Native callbacks\<close>

definition set_len :: "lua_value list \<Rightarrow> nat \<Rightarrow> lua_value list" where
  "set_len s n = (if n < length s then take n s else if length s < n then resize s n VNil else s)"

definition invoke_native :: "runtime \<Rightarrow> world \<Rightarrow> thread_state \<Rightarrow> native_closure \<Rightarrow> nat \<Rightarrow> nat \<Rightarrow>
    (world \<times> thread_state \<times> (lua_value + callback_action)) option" where
  "invoke_native rt w th nc args_base argc = do {
     let s = set_len (th_stack th) (args_base + argc);
     (w', window, r) \<leftarrow> rt_natives rt (nc_function nc) w (th_handle th) (nc_upvalues nc) (drop args_base s);
     Some (w', th\<lparr>th_stack := take args_base s @ window\<rparr>, r)
   }"

section \<open>Returning from a frame\<close>

datatype frame_return =
    FRContinuation
  | FRTopLevel
  | FRCaller nat nat
  | FRToNonLua

definition close_frame :: "world \<Rightarrow> thread_state \<Rightarrow> nat \<Rightarrow> (world \<times> thread_state) option" where
  "close_frame w th base = do {
     (w', th') \<leftarrow> close_upvalues w th base;
     Some (w', pop_frame (close_tbc_vars th' base))
   }"

definition frame_return :: "world \<Rightarrow> thread_state \<Rightarrow> nat \<Rightarrow> nat \<Rightarrow>
    (world \<times> thread_state \<times> frame_return) option" where
  "frame_return w th values_base nret = do {
     f \<leftarrow> top_lua th;
     case lf_continuation f of
       Some cont \<Rightarrow>
         Some (w, upd_top_lua (\<lambda>f. f\<lparr>lf_continuation :=
             Some (cont\<lparr>ct_results_base := values_base, ct_nret := word_of_nat nret\<rparr>)\<rparr>) th,
           FRContinuation)
     | None \<Rightarrow> do {
         (w1, th1) \<leftarrow> close_frame w th (lf_base f);
         dst_start \<leftarrow> sub_nat (lf_base f) (1 + lf_num_extras f);
         if th_frames th1 = [] then do {
           s \<leftarrow> copy_up dst_start values_base nret (th_stack th1);
           Some (w1, th1\<lparr>th_stack := take (dst_start + nret) s, th_status := Result dst_start\<rparr>, FRTopLevel)
         } else (case top_lua th1 of
             None \<Rightarrow> do {
               s \<leftarrow> copy_up dst_start values_base nret (th_stack th1);
               Some (w1, th1\<lparr>th_stack := take (dst_start + nret) s, th_top := dst_start + nret\<rparr>, FRToNonLua)
             }
           | Some caller \<Rightarrow>
               if lf_num_results f = 0 then do {
                 s \<leftarrow> copy_up dst_start values_base nret (th_stack th1);
                 Some (w1, th1\<lparr>th_stack := s, th_top := dst_start + nret\<rparr>,
                   FRCaller (lf_base caller) (lf_pc caller))
               } else do {
                 let wanted = unat (lf_num_results f) - 1;
                 let to_copy = min nret wanted;
                 s \<leftarrow> copy_up dst_start values_base to_copy (th_stack th1);
                 s' \<leftarrow> fill_nil (dst_start + to_copy) (wanted - to_copy) s;
                 Some (w1, th1\<lparr>th_stack := s'\<rparr>, FRCaller (lf_base caller) (lf_pc caller))
               })
       }
   }"

section \<open>Continuations\<close>

definition result_or_nil :: "machine \<Rightarrow> nat \<Rightarrow> nat \<Rightarrow> lua_value option" where
  "result_or_nil m results_base nret =
     (if 0 < nret then idx (th_stack (m_thread m)) results_base else Some VNil)"

text \<open>The two loops of the \<open>TForCall\<close> arm: registers \<open>base + 3 + i\<close>, first the returned
  values, then nil.\<close>

fun tfor_store :: "u8 \<Rightarrow> nat \<Rightarrow> nat \<Rightarrow> nat \<Rightarrow> nat \<Rightarrow> machine \<Rightarrow> machine option" where
  "tfor_store base results_base to_copy i 0 m = Some m"
| "tfor_store base results_base to_copy i (Suc n) m = do {
     r \<leftarrow> add_u8 base (3 + i);
     v \<leftarrow> (if i < to_copy then idx (th_stack (m_thread m)) (results_base + i) else Some VNil);
     m' \<leftarrow> set_reg m r v;
     tfor_store base results_base to_copy (i + 1) n m'
   }"

definition apply_cont_payload :: "continuation_payload \<Rightarrow> nat \<Rightarrow> nat \<Rightarrow> machine \<Rightarrow> outcome option" where
  "apply_cont_payload pl results_base nret m =
     (case pl of
        StoreResult dst \<Rightarrow> do {
          r \<leftarrow> result_or_nil m results_base nret;
          store_dispatch m dst r
        }
      | IgnoreResult \<Rightarrow> dispatch m
      | CondJump offset inverted \<Rightarrow> do {
          r \<leftarrow> result_or_nil m results_base nret;
          if (\<not> is_falsy r) \<noteq> inverted then do { m' \<leftarrow> jump m offset; dispatch m' } else dispatch m
        }
      | TForCall base count \<Rightarrow> do {
          m' \<leftarrow> tfor_store base results_base (min nret (unat count)) 0 (unat count) m;
          dispatch m'
        })"

definition cont_resume :: "machine \<Rightarrow> outcome option" where
  "cont_resume m = do {
     f \<leftarrow> top_lua (m_thread m);
     cont \<leftarrow> lf_continuation f;
     (w, th) \<leftarrow> close_frame (m_world m) (m_thread m) (lf_base f);
     caller \<leftarrow> top_lua th;
     apply_cont_payload (ct_payload cont) (ct_results_base cont) (unat (ct_nret cont))
       (m\<lparr>m_world := w, m_thread := th, m_regs := lf_base caller, m_ip := lf_pc caller\<rparr>)
   }"

section \<open>Metamethod calls\<close>

datatype meta_dispatch =
    MDLua nat
  | MDNativeReturn nat nat
  | MDSuspended
  | MDUnresolvable

definition call_frame :: "world \<Rightarrow> lua_closure \<Rightarrow> nat \<Rightarrow> u8 \<Rightarrow> nat \<Rightarrow> continuation option \<Rightarrow> lua_frame" where
  "call_frame w c base num_results nargs cont =
     \<lparr>lf_closure = c, lf_base = base, lf_pc = 0, lf_num_results = num_results,
      lf_num_extras = (if pr_is_vararg (proto_of w c)
        then (nargs - unat (pr_num_params (proto_of w c))) mod 2 ^ 32 else 0),
      lf_continuation = cont\<rparr>"

text \<open>Grow the stack to the callee's frame and clear the parameters without an argument.\<close>

definition enter_frame :: "world \<Rightarrow> lua_closure \<Rightarrow> nat \<Rightarrow> nat \<Rightarrow> lua_value list \<Rightarrow> lua_value list option" where
  "enter_frame w c base nargs s =
     fill_nil (base + nargs) (unat (pr_num_params (proto_of w c)) - nargs)
       (grow s (base + unat (pr_max_stack_size (proto_of w c))))"

definition save_pc :: "nat \<Rightarrow> thread_state \<Rightarrow> thread_state" where
  "save_pc ip = upd_top_lua (\<lambda>f. f\<lparr>lf_pc := ip\<rparr>)"

definition meta_native_error :: bytes where
  "meta_native_error = ascii ''metamethod/iterator native cannot tail-call into Lua across the continuation''"

definition schedule_native_meta_call :: "runtime \<Rightarrow> world \<Rightarrow> thread_state \<Rightarrow> native_closure \<Rightarrow>
    continuation \<Rightarrow> nat \<Rightarrow> nat \<Rightarrow> nat \<Rightarrow> (world \<times> thread_state \<times> meta_dispatch) option" where
  "schedule_native_meta_call rt w th nc cont caller_base args_base actual_args = do {
     (w', th', r) \<leftarrow> invoke_native rt w th nc args_base actual_args;
     case r of
       Inl err \<Rightarrow> Some (w', push_frame (FError err) th', MDSuspended)
     | Inr AReturn \<Rightarrow> do {
         n \<leftarrow> sub_nat (length (th_stack th')) args_base;
         Some (w', th', MDNativeReturn args_base (n mod 256))
       }
     | Inr (ACall _ _) \<Rightarrow> Some (w', push_frame (FError (VStr meta_native_error)) th', MDSuspended)
     | Inr action \<Rightarrow>
         Some (w', th'\<lparr>th_pending_action := Some (action,
           \<lparr>cs_bottom = args_base, cs_func_idx = caller_base, cs_returns = 0, cs_cont = Some cont\<rparr>)\<rparr>,
           MDSuspended)
   }"

definition schedule_meta_call :: "runtime \<Rightarrow> machine \<Rightarrow> lua_value \<Rightarrow> lua_value list \<Rightarrow>
    continuation \<Rightarrow> (world \<times> thread_state \<times> meta_dispatch) option" where
  "schedule_meta_call rt m meta_fn args cont = do {
     let w = m_world m;
     let th = save_pc (m_ip m) (m_thread m);
     caller \<leftarrow> top_lua th;
     let scratch_func = lf_base caller + unat (pr_max_stack_size (proto_of w (lf_closure caller)));
     let new_base = scratch_func + 1;
     s1 \<leftarrow> idx_set (grow (th_stack th) (new_base + length args)) scratch_func meta_fn;
     let s2 = take new_base s1 @ args @ drop (new_base + length args) s1;
     (th', r) \<leftarrow> resolve_call_chain w (th\<lparr>th_stack := s2\<rparr>) scratch_func (word_of_nat (length args + 1));
     case r of
       None \<Rightarrow> Some (w, th', MDUnresolvable)
     | Some (target, final_nargs) \<Rightarrow> do {
         actual_args \<leftarrow> sub_nat (unat final_nargs) 1;
         case target of
           CTNative nc \<Rightarrow>
             schedule_native_meta_call rt w th' nc cont (lf_base caller) new_base actual_args
         | CTLua c \<Rightarrow> do {
             s3 \<leftarrow> enter_frame w c new_base actual_args (th_stack th');
             Some (w, push_lua (call_frame w c new_base 0 actual_args (Some cont)) (th'\<lparr>th_stack := s3\<rparr>),
               MDLua new_base)
           }
       }
   }"

definition mk_cont :: "continuation_payload \<Rightarrow> continuation" where
  "mk_cont p = \<lparr>ct_payload = p, ct_results_base = 0, ct_nret = 0\<rparr>"

definition invoke_metamethod :: "runtime \<Rightarrow> machine \<Rightarrow> lua_value \<Rightarrow> lua_value list \<Rightarrow>
    continuation_payload \<Rightarrow> outcome option" where
  "invoke_metamethod rt m meta_fn args pl = do {
     (w, th, d) \<leftarrow> schedule_meta_call rt m meta_fn args (mk_cont pl);
     let m' = m\<lparr>m_world := w, m_thread := th\<rparr>;
     case d of
       MDLua new_base \<Rightarrow> dispatch (m'\<lparr>m_ip := 0, m_regs := new_base\<rparr>)
     | MDNativeReturn results_base nret \<Rightarrow> do {
         f \<leftarrow> top_lua th;
         apply_cont_payload pl results_base nret (m'\<lparr>m_regs := lf_base f\<rparr>)
       }
     | MDSuspended \<Rightarrow> Some (Done m')
     | MDUnresolvable \<Rightarrow> raise m'
   }"

end
