(* ===== verification/Handlers.thy ===== *)
theory Handlers
  imports Calls
begin

text \<open>
  \<open>vm/interp.rs\<close>: the instruction handlers, one definition per \<open>op_*\<close> function
  with its slow-path continuation. A handler receives the machine after the instruction was
  fetched, so that \<open>m_ip\<close> already points past it.
\<close>

section \<open>Inline caches of the running prototype\<close>

definition read_ic :: "machine \<Rightarrow> u16 \<Rightarrow> inline_cache option" where
  "read_ic m ic_idx = do {
     f \<leftarrow> top_lua (m_thread m);
     idx (pr_ic_table (proto_of (m_world m) (lf_closure f))) (unat ic_idx)
   }"

definition fill_ic :: "machine \<Rightarrow> u16 \<Rightarrow> inline_cache \<Rightarrow> machine option" where
  "fill_ic m ic_idx entry = do {
     f \<leftarrow> top_lua (m_thread m);
     let w = m_world m;
     let p = lc_proto (lf_closure f);
     let ics = pr_ic_table (w_protos w p);
     Some (if unat ic_idx < length ics
       then m\<lparr>m_world := w\<lparr>w_protos := (w_protos w)(p := (w_protos w p)\<lparr>pr_ic_table := ics[unat ic_idx := entry]\<rparr>)\<rparr>\<rparr>
       else m)
   }"

definition fill_ic_for_constant_key :: "machine \<Rightarrow> u16 \<Rightarrow> addr \<Rightarrow> lua_value \<Rightarrow> machine option" where
  "fill_ic_for_constant_key m ic_idx t k =
     (case ic_entry (w_heap (m_world m)) t k of
        None \<Rightarrow> Some m
      | Some entry \<Rightarrow> fill_ic m ic_idx entry)"

section \<open>Slow paths of table access\<close>

text \<open>What a read of a table by any key comes to.\<close>

definition table_get_chain :: "heap \<Rightarrow> addr \<Rightarrow> lua_value \<Rightarrow> index_chain option" where
  "table_get_chain h t k = do {
     v \<leftarrow> raw_get h t k;
     if \<not> is_nil v then Some (Resolved v)
     else if \<not> table_has_mm h t bit_INDEX then Some (Resolved VNil)
     else do {
       mt \<leftarrow> table_metatable h t;
       walk_index_chain h (VTable t) mt k
     }
   }"

definition finish_get :: "runtime \<Rightarrow> machine \<Rightarrow> index_chain \<Rightarrow> lua_value \<Rightarrow> u8 \<Rightarrow> outcome option" where
  "finish_get rt m chain k dst =
     (case chain of
        Resolved v \<Rightarrow> store_dispatch m dst v
      | Invoke func receiver \<Rightarrow> invoke_metamethod rt m func [receiver, k] (StoreResult dst)
      | Exhausted \<Rightarrow> raise m)"

definition table_get_slow_body :: "runtime \<Rightarrow> machine \<Rightarrow> addr \<Rightarrow> lua_value \<Rightarrow> u8 \<Rightarrow> outcome option" where
  "table_get_slow_body rt m t k dst = do {
     chain \<leftarrow> table_get_chain (w_heap (m_world m)) t k;
     finish_get rt m chain k dst
   }"

definition userdata_get_slow_body ::
  "runtime \<Rightarrow> machine \<Rightarrow> addr \<Rightarrow> lua_value \<Rightarrow> lua_value \<Rightarrow> u8 \<Rightarrow> outcome option" where
  "userdata_get_slow_body rt m u recv k dst = do {
     r \<leftarrow> userdata_index_chain (w_heap (m_world m)) (w_userdata_mt (m_world m) u) recv k;
     case r of
       None \<Rightarrow> raise m
     | Some chain \<Rightarrow> finish_get rt m chain k dst
   }"

definition table_set_slow_body :: "runtime \<Rightarrow> machine \<Rightarrow> addr \<Rightarrow> lua_value \<Rightarrow> lua_value \<Rightarrow> outcome option" where
  "table_set_slow_body rt m t k v = do {
     chain \<leftarrow> walk_newindex_chain (w_heap (m_world m)) t k;
     case chain of
       RawSet target \<Rightarrow> do {
         h \<leftarrow> raw_set (w_heap (m_world m)) target k v;
         dispatch (set_heap m h)
       }
     | NInvoke func receiver \<Rightarrow> invoke_metamethod rt m func [receiver, k, v] IgnoreResult
     | NExhausted \<Rightarrow> raise m
   }"

section \<open>Data movement\<close>

definition op_move :: "register \<Rightarrow> register \<Rightarrow> machine \<Rightarrow> outcome option" where
  "op_move dst src m = do { v \<leftarrow> reg m src; store_dispatch m dst v }"

definition op_load :: "register \<Rightarrow> u16 \<Rightarrow> machine \<Rightarrow> outcome option" where
  "op_load dst i m = do { v \<leftarrow> const_at m i; store_dispatch m dst v }"

definition op_lfalseskip :: "register \<Rightarrow> machine \<Rightarrow> outcome option" where
  "op_lfalseskip src m = do { m' \<leftarrow> set_reg m src (VBool False); dispatch (skip m') }"

definition op_getupval :: "register \<Rightarrow> u8 \<Rightarrow> machine \<Rightarrow> outcome option" where
  "op_getupval dst i m = do {
     uv \<leftarrow> upvalue m i;
     v \<leftarrow> read_upvalue (m_world m) (m_thread m) uv;
     store_dispatch m dst v
   }"

definition op_setupval :: "register \<Rightarrow> u8 \<Rightarrow> machine \<Rightarrow> outcome option" where
  "op_setupval src i m = do {
     val \<leftarrow> reg m src;
     uv \<leftarrow> upvalue m i;
     (w, th) \<leftarrow> write_upvalue (m_world m) (m_thread m) uv val;
     dispatch (m\<lparr>m_world := w, m_thread := th\<rparr>)
   }"

section \<open>Table access\<close>

definition upvalue_table :: "machine \<Rightarrow> u8 \<Rightarrow> addr option option" where
  "upvalue_table m i = do {
     uv \<leftarrow> upvalue m i;
     v \<leftarrow> read_upvalue (m_world m) (m_thread m) uv;
     Some (get_table v)
   }"

definition gettabup_slow :: "runtime \<Rightarrow> register \<Rightarrow> u8 \<Rightarrow> u16 \<Rightarrow> u16 \<Rightarrow> machine \<Rightarrow> outcome option" where
  "gettabup_slow rt dst i ic_idx key m = do {
     r \<leftarrow> upvalue_table m i;
     case r of
       None \<Rightarrow> raise m
     | Some t \<Rightarrow> do {
         k \<leftarrow> const_at m key;
         m' \<leftarrow> fill_ic_for_constant_key m ic_idx t k;
         table_get_slow_body rt m' t k dst
       }
   }"

definition op_gettabup :: "runtime \<Rightarrow> register \<Rightarrow> u8 \<Rightarrow> u16 \<Rightarrow> u16 \<Rightarrow> machine \<Rightarrow> outcome option" where
  "op_gettabup rt dst i ic_idx key m = do {
     r \<leftarrow> upvalue_table m i;
     case r of
       None \<Rightarrow> raise m
     | Some t \<Rightarrow> do {
         cache \<leftarrow> read_ic m ic_idx;
         hit \<leftarrow> ic_probe (w_heap (m_world m)) cache t bit_INDEX;
         case hit of
           Some (slot, v) \<Rightarrow> store_dispatch m dst v
         | None \<Rightarrow> gettabup_slow rt dst i ic_idx key m
       }
   }"

definition settabup_slow :: "runtime \<Rightarrow> register \<Rightarrow> u8 \<Rightarrow> u16 \<Rightarrow> u16 \<Rightarrow> machine \<Rightarrow> outcome option" where
  "settabup_slow rt src i ic_idx key m = do {
     r \<leftarrow> upvalue_table m i;
     case r of
       None \<Rightarrow> raise m
     | Some t \<Rightarrow> do {
         k \<leftarrow> const_at m key;
         v \<leftarrow> reg m src;
         m' \<leftarrow> fill_ic_for_constant_key m ic_idx t k;
         table_set_slow_body rt m' t k v
       }
   }"

definition op_settabup :: "runtime \<Rightarrow> register \<Rightarrow> u8 \<Rightarrow> u16 \<Rightarrow> u16 \<Rightarrow> machine \<Rightarrow> outcome option" where
  "op_settabup rt src i ic_idx key m = do {
     r \<leftarrow> upvalue_table m i;
     case r of
       None \<Rightarrow> raise m
     | Some t \<Rightarrow> do {
         v \<leftarrow> reg m src;
         cache \<leftarrow> read_ic m ic_idx;
         hit \<leftarrow> ic_probe (w_heap (m_world m)) cache t bit_NEWINDEX;
         case hit of
           Some (slot, _) \<Rightarrow> do {
             k \<leftarrow> const_at m key;
             h \<leftarrow> ic_store (w_heap (m_world m)) t slot k v;
             dispatch (set_heap m h)
           }
         | None \<Rightarrow> settabup_slow rt src i ic_idx key m
       }
   }"

definition gettable_slow :: "runtime \<Rightarrow> register \<Rightarrow> register \<Rightarrow> register \<Rightarrow> machine \<Rightarrow> outcome option" where
  "gettable_slow rt dst table key m = do {
     recv \<leftarrow> reg m table;
     k \<leftarrow> reg m key;
     case get_table recv of
       Some t \<Rightarrow> table_get_slow_body rt m t k dst
     | None \<Rightarrow>
         (case get_userdata recv of
            None \<Rightarrow> raise m
          | Some u \<Rightarrow> userdata_get_slow_body rt m u recv k dst)
   }"

definition op_gettable :: "runtime \<Rightarrow> register \<Rightarrow> register \<Rightarrow> register \<Rightarrow> machine \<Rightarrow> outcome option" where
  "op_gettable rt dst table key m = do {
     recv \<leftarrow> reg m table;
     case get_table recv of
       None \<Rightarrow> gettable_slow rt dst table key m
     | Some t \<Rightarrow> do {
         k \<leftarrow> reg m key;
         v \<leftarrow> raw_get (w_heap (m_world m)) t k;
         if is_nil v \<and> table_has_mm (w_heap (m_world m)) t bit_INDEX
         then gettable_slow rt dst table key m
         else store_dispatch m dst v
       }
   }"

definition settable_slow :: "runtime \<Rightarrow> register \<Rightarrow> register \<Rightarrow> register \<Rightarrow> machine \<Rightarrow> outcome option" where
  "settable_slow rt src table key m = do {
     recv \<leftarrow> reg m table;
     case get_table recv of
       None \<Rightarrow> raise m
     | Some t \<Rightarrow> do {
         k \<leftarrow> reg m key;
         v \<leftarrow> reg m src;
         table_set_slow_body rt m t k v
       }
   }"

definition op_settable :: "runtime \<Rightarrow> register \<Rightarrow> register \<Rightarrow> register \<Rightarrow> machine \<Rightarrow> outcome option" where
  "op_settable rt src table key m = do {
     recv \<leftarrow> reg m table;
     case get_table recv of
       None \<Rightarrow> raise m
     | Some t \<Rightarrow> do {
         k \<leftarrow> reg m key;
         v \<leftarrow> reg m src;
         needs_newindex \<leftarrow> (if table_has_mm (w_heap (m_world m)) t bit_NEWINDEX
           then map_option is_nil (raw_get (w_heap (m_world m)) t k) else Some False);
         if needs_newindex then settable_slow rt src table key m
         else do {
           h \<leftarrow> raw_set (w_heap (m_world m)) t k v;
           dispatch (set_heap m h)
         }
       }
   }"

definition getfield_slow :: "runtime \<Rightarrow> register \<Rightarrow> register \<Rightarrow> u16 \<Rightarrow> u16 \<Rightarrow> machine \<Rightarrow> outcome option" where
  "getfield_slow rt dst table ic_idx key_idx m = do {
     recv \<leftarrow> reg m table;
     k \<leftarrow> const_at m key_idx;
     case get_table recv of
       Some t \<Rightarrow> do {
         m' \<leftarrow> fill_ic_for_constant_key m ic_idx t k;
         table_get_slow_body rt m' t k dst
       }
     | None \<Rightarrow>
         (case get_userdata recv of
            None \<Rightarrow> raise m
          | Some u \<Rightarrow> userdata_get_slow_body rt m u recv k dst)
   }"

definition op_getfield :: "runtime \<Rightarrow> register \<Rightarrow> register \<Rightarrow> u16 \<Rightarrow> u16 \<Rightarrow> machine \<Rightarrow> outcome option" where
  "op_getfield rt dst table ic_idx key_idx m = do {
     recv \<leftarrow> reg m table;
     case get_table recv of
       None \<Rightarrow> getfield_slow rt dst table ic_idx key_idx m
     | Some t \<Rightarrow> do {
         cache \<leftarrow> read_ic m ic_idx;
         hit \<leftarrow> ic_probe (w_heap (m_world m)) cache t bit_INDEX;
         case hit of
           Some (slot, v) \<Rightarrow> store_dispatch m dst v
         | None \<Rightarrow> getfield_slow rt dst table ic_idx key_idx m
       }
   }"

definition setfield_slow :: "runtime \<Rightarrow> register \<Rightarrow> register \<Rightarrow> u16 \<Rightarrow> u16 \<Rightarrow> machine \<Rightarrow> outcome option" where
  "setfield_slow rt src table ic_idx key_idx m = do {
     recv \<leftarrow> reg m table;
     case get_table recv of
       None \<Rightarrow> raise m
     | Some t \<Rightarrow> do {
         k \<leftarrow> const_at m key_idx;
         v \<leftarrow> reg m src;
         m' \<leftarrow> fill_ic_for_constant_key m ic_idx t k;
         table_set_slow_body rt m' t k v
       }
   }"

definition op_setfield :: "runtime \<Rightarrow> register \<Rightarrow> register \<Rightarrow> u16 \<Rightarrow> u16 \<Rightarrow> machine \<Rightarrow> outcome option" where
  "op_setfield rt src table ic_idx key_idx m = do {
     recv \<leftarrow> reg m table;
     case get_table recv of
       None \<Rightarrow> raise m
     | Some t \<Rightarrow> do {
         v \<leftarrow> reg m src;
         cache \<leftarrow> read_ic m ic_idx;
         hit \<leftarrow> ic_probe (w_heap (m_world m)) cache t bit_NEWINDEX;
         case hit of
           Some (slot, _) \<Rightarrow> do {
             k \<leftarrow> const_at m key_idx;
             h \<leftarrow> ic_store (w_heap (m_world m)) t slot k v;
             dispatch (set_heap m h)
           }
         | None \<Rightarrow> setfield_slow rt src table ic_idx key_idx m
       }
   }"

section \<open>SELF and NEWTABLE\<close>

text \<open>\<open>R[dst] = method; R[dst + 1] = receiver\<close>.\<close>

definition store_self :: "machine \<Rightarrow> u8 \<Rightarrow> lua_value \<Rightarrow> lua_value \<Rightarrow> outcome option" where
  "store_self m dst callee recv = do {
     m1 \<leftarrow> set_reg m dst callee;
     d1 \<leftarrow> add_u8 dst 1;
     m2 \<leftarrow> set_reg m1 d1 recv;
     dispatch m2
   }"

definition finish_self :: "runtime \<Rightarrow> machine \<Rightarrow> index_chain \<Rightarrow> lua_value \<Rightarrow> lua_value \<Rightarrow> u8 \<Rightarrow> outcome option" where
  "finish_self rt m chain recv_val key dst =
     (case chain of
        Resolved callee \<Rightarrow> store_self m dst callee recv_val
      | Invoke func receiver \<Rightarrow> do {
          d1 \<leftarrow> add_u8 dst 1;
          m1 \<leftarrow> set_reg m d1 recv_val;
          invoke_metamethod rt m1 func [receiver, key] (StoreResult dst)
        }
      | Exhausted \<Rightarrow> raise m)"

definition op_self_slow :: "runtime \<Rightarrow> register \<Rightarrow> register \<Rightarrow> u16 \<Rightarrow> machine \<Rightarrow> outcome option" where
  "op_self_slow rt dst object key_idx m = do {
     recv_val \<leftarrow> reg m object;
     case get_table recv_val of
       None \<Rightarrow> raise m
     | Some recv \<Rightarrow> do {
         key \<leftarrow> const_at m key_idx;
         mt \<leftarrow> table_metatable (w_heap (m_world m)) recv;
         chain \<leftarrow> walk_index_chain (w_heap (m_world m)) recv_val mt key;
         finish_self rt m chain recv_val key dst
       }
   }"

definition op_self_nontable :: "runtime \<Rightarrow> register \<Rightarrow> register \<Rightarrow> u16 \<Rightarrow> machine \<Rightarrow> outcome option" where
  "op_self_nontable rt dst object key_idx m = do {
     recv_val \<leftarrow> reg m object;
     case get_userdata recv_val of
       None \<Rightarrow> raise m
     | Some u \<Rightarrow> do {
         key \<leftarrow> const_at m key_idx;
         r \<leftarrow> userdata_index_chain (w_heap (m_world m)) (w_userdata_mt (m_world m) u) recv_val key;
         finish_self rt m (case r of None \<Rightarrow> Resolved VNil | Some c \<Rightarrow> c) recv_val key dst
       }
   }"

definition op_self :: "runtime \<Rightarrow> register \<Rightarrow> register \<Rightarrow> u16 \<Rightarrow> machine \<Rightarrow> outcome option" where
  "op_self rt dst object key_idx m = do {
     recv_val \<leftarrow> reg m object;
     case get_table recv_val of
       None \<Rightarrow> op_self_nontable rt dst object key_idx m
     | Some recv \<Rightarrow> do {
         key \<leftarrow> const_at m key_idx;
         v \<leftarrow> raw_get (w_heap (m_world m)) recv key;
         if is_nil v \<and> table_has_mm (w_heap (m_world m)) recv bit_INDEX
         then op_self_slow rt dst object key_idx m
         else store_self m dst v recv_val
       }
   }"

definition op_newtable :: "register \<Rightarrow> machine \<Rightarrow> outcome option" where
  "op_newtable dst m =
     (let (h, t) = table_new (w_heap (m_world m)) in store_dispatch (set_heap m h) dst (VTable t))"

section \<open>Arithmetic, bitwise and unary operators\<close>

definition op_binop :: "runtime \<Rightarrow> (lua_value \<Rightarrow> lua_value \<Rightarrow> lua_value option option) \<Rightarrow> bytes \<Rightarrow>
    register \<Rightarrow> register \<Rightarrow> register \<Rightarrow> machine \<Rightarrow> outcome option" where
  "op_binop rt opr mm dst lhs rhs m = do {
     a \<leftarrow> reg m lhs;
     b \<leftarrow> reg m rhs;
     r \<leftarrow> opr a b;
     case r of
       Some v \<Rightarrow> store_dispatch m dst v
     | None \<Rightarrow> do {
         meta_fn \<leftarrow> binop_metamethod (w_heap (m_world m)) a b mm;
         if is_nil meta_fn then raise m
         else invoke_metamethod rt m meta_fn [a, b] (StoreResult dst)
       }
   }"

definition op_arith_handler :: "runtime \<Rightarrow> arith_op \<Rightarrow> string \<Rightarrow> register \<Rightarrow> register \<Rightarrow> register \<Rightarrow>
    machine \<Rightarrow> outcome option" where
  "op_arith_handler rt opr mm = op_binop rt (\<lambda>a b. Some (op_arith (rt_powf rt) opr a b)) (ascii mm)"

definition op_bit_handler :: "runtime \<Rightarrow> bit_op \<Rightarrow> string \<Rightarrow> register \<Rightarrow> register \<Rightarrow> register \<Rightarrow>
    machine \<Rightarrow> outcome option" where
  "op_bit_handler rt opr mm = op_binop rt (op_bit opr) (ascii mm)"

definition unary_meta :: "runtime \<Rightarrow> machine \<Rightarrow> lua_value \<Rightarrow> bytes \<Rightarrow> register \<Rightarrow> outcome option" where
  "unary_meta rt m val mm dst = do {
     meta_fn \<leftarrow> unop_metamethod (w_heap (m_world m)) val mm;
     if is_nil meta_fn then raise m
     else invoke_metamethod rt m meta_fn [val, val] (StoreResult dst)
   }"

definition op_unm :: "runtime \<Rightarrow> register \<Rightarrow> register \<Rightarrow> machine \<Rightarrow> outcome option" where
  "op_unm rt dst src m = do {
     val \<leftarrow> reg m src;
     case val of
       VInt i \<Rightarrow> store_dispatch m dst (VInt (- i))
     | VFloat f \<Rightarrow> store_dispatch m dst (VFloat (f64_neg f))
     | _ \<Rightarrow> unary_meta rt m val (ascii ''__unm'') dst
   }"

definition op_bnot :: "runtime \<Rightarrow> register \<Rightarrow> register \<Rightarrow> machine \<Rightarrow> outcome option" where
  "op_bnot rt dst src m = do {
     val \<leftarrow> reg m src;
     case val of
       VInt i \<Rightarrow> store_dispatch m dst (VInt (NOT i))
     | _ \<Rightarrow> unary_meta rt m val (ascii ''__bnot'') dst
   }"

definition op_not :: "register \<Rightarrow> register \<Rightarrow> machine \<Rightarrow> outcome option" where
  "op_not dst src m = do {
     val \<leftarrow> reg m src;
     store_dispatch m dst (VBool (is_falsy val))
   }"

definition op_len :: "runtime \<Rightarrow> register \<Rightarrow> register \<Rightarrow> machine \<Rightarrow> outcome option" where
  "op_len rt dst src m = do {
     val \<leftarrow> reg m src;
     case get_string val of
       Some s \<Rightarrow> store_dispatch m dst (VInt (word_of_nat (length s)))
     | None \<Rightarrow>
         (case get_table val of
            None \<Rightarrow> raise m
          | Some t \<Rightarrow> do {
              mm \<leftarrow> get_metamethod (w_heap (m_world m)) t (ascii ''__len'');
              if is_nil mm
              then store_dispatch m dst (VInt (word_of_nat (raw_len (w_heap (m_world m)) t)))
              else invoke_metamethod rt m mm [val] (StoreResult dst)
            })
   }"

definition op_concat :: "runtime \<Rightarrow> register \<Rightarrow> register \<Rightarrow> register \<Rightarrow> machine \<Rightarrow> outcome option" where
  "op_concat rt dst lhs rhs m = do {
     a \<leftarrow> reg m lhs;
     b \<leftarrow> reg m rhs;
     case Option.bind (coerce_to_str [] a) (\<lambda>buf. coerce_to_str buf b) of
       Some buf \<Rightarrow> store_dispatch m dst (VStr buf)
     | None \<Rightarrow> do {
         meta_fn \<leftarrow> binop_metamethod (w_heap (m_world m)) a b (ascii ''__concat'');
         if is_nil meta_fn then raise m
         else invoke_metamethod rt m meta_fn [a, b] (StoreResult dst)
       }
   }"

section \<open>Upvalue and resource management\<close>

definition frame_base :: "thread_state \<Rightarrow> nat" where
  "frame_base th = (case top_lua th of Some f \<Rightarrow> lf_base f | None \<Rightarrow> 0)"

definition op_close :: "register \<Rightarrow> machine \<Rightarrow> outcome option" where
  "op_close start m = do {
     let start_idx = frame_base (m_thread m) + unat start;
     (w, th) \<leftarrow> close_upvalues (m_world m) (m_thread m) start_idx;
     dispatch (m\<lparr>m_world := w, m_thread := close_tbc_vars th start_idx\<rparr>)
   }"

definition op_tbc :: "register \<Rightarrow> machine \<Rightarrow> outcome option" where
  "op_tbc val m =
     (let th = m_thread m in
      dispatch (m\<lparr>m_thread := th\<lparr>th_tbc_slots := th_tbc_slots th @ [frame_base th + unat val]\<rparr>\<rparr>))"

section \<open>Jumps and comparisons\<close>

definition op_jmp :: "i32 \<Rightarrow> machine \<Rightarrow> outcome option" where
  "op_jmp offset m = do { m' \<leftarrow> jump m (sint offset); dispatch m' }"

definition skip_if :: "bool \<Rightarrow> machine \<Rightarrow> outcome option" where
  "skip_if b m = dispatch (if b then skip m else m)"

definition op_eq :: "runtime \<Rightarrow> register \<Rightarrow> register \<Rightarrow> bool \<Rightarrow> machine \<Rightarrow> outcome option" where
  "op_eq rt lhs rhs inverted m = do {
     a \<leftarrow> reg m lhs;
     b \<leftarrow> reg m rhs;
     if a = b then skip_if (\<not> inverted) m
     else do {
       let try_meta = (kind a = KTable \<and> kind b = KTable) \<or> (kind a = KUserdata \<and> kind b = KUserdata);
       meta_fn \<leftarrow> (if try_meta then binop_metamethod (w_heap (m_world m)) a b (ascii ''__eq'') else Some VNil);
       if \<not> is_nil meta_fn then invoke_metamethod rt m meta_fn [a, b] (CondJump 1 inverted)
       else skip_if inverted m
     }
   }"

definition lt_primitive :: "lua_value \<Rightarrow> lua_value \<Rightarrow> bool option" where
  "lt_primitive a b = (case (a, b) of
      (VInt x, VInt y) \<Rightarrow> Some (i64_lt x y)
    | (VFloat x, VFloat y) \<Rightarrow> Some (f64_lt x y)
    | (VInt x, VFloat y) \<Rightarrow> Some (f64_lt (f64_of_i64 x) y)
    | (VFloat x, VInt y) \<Rightarrow> Some (f64_lt x (f64_of_i64 y))
    | (VStr x, VStr y) \<Rightarrow> Some (bytes_less x y)
    | _ \<Rightarrow> None)"

definition le_primitive :: "lua_value \<Rightarrow> lua_value \<Rightarrow> bool option" where
  "le_primitive a b = (case (a, b) of
      (VInt x, VInt y) \<Rightarrow> Some (i64_le x y)
    | (VFloat x, VFloat y) \<Rightarrow> Some (f64_le x y)
    | (VInt x, VFloat y) \<Rightarrow> Some (f64_le (f64_of_i64 x) y)
    | (VFloat x, VInt y) \<Rightarrow> Some (f64_le x (f64_of_i64 y))
    | (VStr x, VStr y) \<Rightarrow> Some (bytes_le x y)
    | _ \<Rightarrow> None)"

definition op_compare :: "runtime \<Rightarrow> (lua_value \<Rightarrow> lua_value \<Rightarrow> bool option) \<Rightarrow> bytes \<Rightarrow>
    register \<Rightarrow> register \<Rightarrow> bool \<Rightarrow> machine \<Rightarrow> outcome option" where
  "op_compare rt prim mm lhs rhs inverted m = do {
     a \<leftarrow> reg m lhs;
     b \<leftarrow> reg m rhs;
     case prim a b of
       Some r \<Rightarrow> skip_if (r \<noteq> inverted) m
     | None \<Rightarrow> do {
         meta_fn \<leftarrow> binop_metamethod (w_heap (m_world m)) a b mm;
         if is_nil meta_fn then raise m
         else invoke_metamethod rt m meta_fn [a, b] (CondJump 1 inverted)
       }
   }"

definition op_lt :: "runtime \<Rightarrow> register \<Rightarrow> register \<Rightarrow> bool \<Rightarrow> machine \<Rightarrow> outcome option" where
  "op_lt rt = op_compare rt lt_primitive (ascii ''__lt'')"

definition op_le :: "runtime \<Rightarrow> register \<Rightarrow> register \<Rightarrow> bool \<Rightarrow> machine \<Rightarrow> outcome option" where
  "op_le rt = op_compare rt le_primitive (ascii ''__le'')"

definition op_test :: "register \<Rightarrow> bool \<Rightarrow> machine \<Rightarrow> outcome option" where
  "op_test src inverted m = do {
     v \<leftarrow> reg m src;
     skip_if ((\<not> is_falsy v) \<noteq> inverted) m
   }"

definition op_testset :: "register \<Rightarrow> register \<Rightarrow> bool \<Rightarrow> machine \<Rightarrow> outcome option" where
  "op_testset dst src inverted m = do {
     val \<leftarrow> reg m src;
     if (\<not> is_falsy val) = inverted then dispatch (skip m) else store_dispatch m dst val
   }"

end
