(* ===== verification/CallHandlers.thy ===== *)
theory CallHandlers
  imports Handlers
begin

text \<open>
  \<open>vm/interp.rs\<close>: the handlers of calls, returns, loops, closures and varargs, and the
  dispatch loop itself.
\<close>

section \<open>Calls\<close>

text \<open>The argument count of an instruction: 0 is the multi-result sentinel, which reads the
  count from the thread's dynamic top.\<close>

definition arg_count :: "thread_state \<Rightarrow> u8 \<Rightarrow> nat \<Rightarrow> nat option" where
  "arg_count th nargs start =
     (if nargs = 0 then sub_nat (th_top th) start else Some (unat nargs - 1))"

definition push_error :: "lua_value \<Rightarrow> thread_state \<Rightarrow> thread_state" where
  "push_error err = push_frame (FError err)"

text \<open>The results of a native call placed at the call's slot.\<close>

definition land_native_results :: "world \<Rightarrow> thread_state \<Rightarrow> nat \<Rightarrow> nat \<Rightarrow> u8 \<Rightarrow> thread_state option" where
  "land_native_results w th func_idx args_base returns = do {
     retc \<leftarrow> sub_nat (length (th_stack th)) args_base;
     let wanted = (if returns = 0 then retc else unat returns - 1);
     let to_copy = min retc wanted;
     let s0 = (if returns \<noteq> 0 then
         (case top_lua th of
            Some f \<Rightarrow> grow (th_stack th) (lf_base f + unat (pr_max_stack_size (proto_of w (lf_closure f))))
          | None \<Rightarrow> th_stack th)
       else th_stack th);
     s1 \<leftarrow> copy_up func_idx args_base to_copy s0;
     s2 \<leftarrow> fill_nil (func_idx + to_copy) (wanted - to_copy) s1;
     Some (if returns = 0
       then th\<lparr>th_stack := take (func_idx + retc) s2, th_top := func_idx + retc\<rparr>
       else th\<lparr>th_stack := s2\<rparr>)
   }"

definition op_call :: "runtime \<Rightarrow> register \<Rightarrow> u8 \<Rightarrow> u8 \<Rightarrow> machine \<Rightarrow> outcome option" where
  "op_call rt func nargs0 returns m = do {
     let w = m_world m;
     let base = frame_base (m_thread m);
     let func_idx = base + unat func;
     (th, r) \<leftarrow> resolve_call_chain w (m_thread m) func_idx nargs0;
     case r of
       None \<Rightarrow> raise (m\<lparr>m_thread := th\<rparr>)
     | Some (CTLua c, nargs) \<Rightarrow> do {
         let new_base = func_idx + 1;
         let th1 = save_pc (m_ip m) th;
         caller_provided \<leftarrow> arg_count th1 nargs new_base;
         s \<leftarrow> enter_frame w c new_base caller_provided (th_stack th1);
         dispatch (m\<lparr>m_thread := push_lua (call_frame w c new_base returns caller_provided None)
             (th1\<lparr>th_stack := s\<rparr>), m_ip := 0, m_regs := new_base\<rparr>)
       }
     | Some (CTNative nc, nargs) \<Rightarrow> do {
         let args_base = func_idx + 1;
         argc \<leftarrow> arg_count th nargs args_base;
         (w', th', a) \<leftarrow> invoke_native rt w th nc args_base argc;
         case a of
           Inl err \<Rightarrow>
             Some (Done (m\<lparr>m_world := w', m_thread := push_error err (save_pc (m_ip m) th')\<rparr>))
         | Inr AReturn \<Rightarrow> do {
             th2 \<leftarrow> land_native_results w' th' func_idx args_base returns;
             dispatch (m\<lparr>m_world := w', m_thread := th2, m_regs := base\<rparr>)
           }
         | Inr action \<Rightarrow>
             Some (Done (m\<lparr>m_world := w', m_thread := (save_pc (m_ip m) th')\<lparr>th_pending_action :=
               Some (action, \<lparr>cs_bottom = args_base, cs_func_idx = func_idx, cs_returns = returns,
                 cs_cont = None\<rparr>)\<rparr>\<rparr>))
       }
   }"

text \<open>What a handler does with the outcome of \<open>frame_return\<close>.\<close>

definition after_return :: "machine \<Rightarrow> world \<times> thread_state \<times> frame_return \<Rightarrow> outcome option" where
  "after_return m r = (case r of (w, th, fr) \<Rightarrow>
     (let m' = m\<lparr>m_world := w, m_thread := th\<rparr> in
      case fr of
        FRContinuation \<Rightarrow> cont_resume m'
      | FRTopLevel \<Rightarrow> Some (Done m')
      | FRToNonLua \<Rightarrow> Some (Done m')
      | FRCaller new_base new_ip \<Rightarrow> dispatch (m'\<lparr>m_ip := new_ip, m_regs := new_base\<rparr>)))"

definition op_tailcall :: "runtime \<Rightarrow> register \<Rightarrow> u8 \<Rightarrow> machine \<Rightarrow> outcome option" where
  "op_tailcall rt func nargs0 m = do {
     let w = m_world m;
     let func_idx = frame_base (m_thread m) + unat func;
     (th, r) \<leftarrow> resolve_call_chain w (m_thread m) func_idx nargs0;
     case r of
       None \<Rightarrow> raise (m\<lparr>m_thread := th\<rparr>)
     | Some (CTLua c, nargs1) \<Rightarrow> do {
         f \<leftarrow> top_lua th;
         caller_func_idx \<leftarrow> sub_nat (lf_base f) (1 + lf_num_extras f);
         let new_base = caller_func_idx + 1;
         (w1, th1) \<leftarrow> close_upvalues w th new_base;
         let src_start = func_idx + 1;
         nargs \<leftarrow> arg_count th1 nargs1 src_start;
         s1 \<leftarrow> copy_up new_base src_start nargs (th_stack th1);
         let th2 = upd_top_lua (\<lambda>f. (call_frame w1 c new_base (lf_num_results f) nargs (lf_continuation f)))
           (th1\<lparr>th_stack := s1\<rparr>);
         s2 \<leftarrow> enter_frame w1 c new_base nargs s1;
         dispatch (m\<lparr>m_world := w1, m_thread := th2\<lparr>th_stack := s2\<rparr>, m_ip := 0, m_regs := new_base\<rparr>)
       }
     | Some (CTNative nc, nargs) \<Rightarrow> do {
         let args_base = func_idx + 1;
         argc \<leftarrow> arg_count th nargs args_base;
         (w', th', a) \<leftarrow> invoke_native rt w th nc args_base argc;
         case a of
           Inl err \<Rightarrow> do {
             f \<leftarrow> top_lua th';
             (w2, th2) \<leftarrow> close_frame w' th' (lf_base f);
             Some (Done (m\<lparr>m_world := w2, m_thread := push_error err th2\<rparr>))
           }
         | Inr AReturn \<Rightarrow> do {
             retc \<leftarrow> sub_nat (length (th_stack th')) args_base;
             r \<leftarrow> frame_return w' th' args_base retc;
             after_return m r
           }
         | Inr action \<Rightarrow> do {
             f \<leftarrow> top_lua th';
             (w2, th2) \<leftarrow> close_frame w' th' (lf_base f);
             slot \<leftarrow> sub_nat (lf_base f) 1;
             Some (Done (m\<lparr>m_world := w2, m_thread := th2\<lparr>th_pending_action :=
               Some (action, \<lparr>cs_bottom = args_base, cs_func_idx = slot,
                 cs_returns = lf_num_results f, cs_cont = None\<rparr>)\<rparr>\<rparr>))
           }
       }
   }"

definition op_return :: "register \<Rightarrow> u8 \<Rightarrow> machine \<Rightarrow> outcome option" where
  "op_return vals count m = do {
     f \<leftarrow> top_lua (m_thread m);
     let values_base = lf_base f + unat vals;
     nret \<leftarrow> arg_count (m_thread m) count values_base;
     r \<leftarrow> frame_return (m_world m) (m_thread m) values_base nret;
     after_return m r
   }"

section \<open>Loops\<close>

definition number_or_zero :: "lua_value \<Rightarrow> f64" where
  "number_or_zero v = (case to_number v of Some f \<Rightarrow> f | None \<Rightarrow> f64_zero False)"

definition for_should_run :: "lua_value \<Rightarrow> lua_value \<Rightarrow> lua_value \<Rightarrow> bool" where
  "for_should_run init limit step =
     (case (init, limit, step) of
        (VInt i, VInt lim, VInt s) \<Rightarrow> if i64_lt 0 s then i64_le i lim else i64_le lim i
      | _ \<Rightarrow>
          (let i = number_or_zero init; lim = number_or_zero limit; s = number_or_zero step
           in if f64_lt (f64_zero False) s then f64_le i lim else f64_le lim i))"

definition op_forprep :: "register \<Rightarrow> i32 \<Rightarrow> machine \<Rightarrow> outcome option" where
  "op_forprep base offset m = do {
     init \<leftarrow> reg m base;
     r1 \<leftarrow> add_u8 base 1;
     limit \<leftarrow> reg m r1;
     r2 \<leftarrow> add_u8 base 2;
     step \<leftarrow> reg m r2;
     m1 \<leftarrow> (if for_should_run init limit step then Some m else jump m (sint offset));
     r3 \<leftarrow> add_u8 base 3;
     store_dispatch m1 r3 init
   }"

text \<open>The next counter and whether the loop goes on.\<close>

definition for_next :: "lua_value \<Rightarrow> lua_value \<Rightarrow> lua_value \<Rightarrow> lua_value option" where
  "for_next cur limit step =
     (case (cur, limit, step) of
        (VInt i, VInt lim, VInt s) \<Rightarrow>
          (let next = i + s
           in if (if i64_lt 0 s then i64_le next lim else i64_le lim next)
              then Some (VInt next) else None)
      | _ \<Rightarrow>
          (let i = number_or_zero cur; lim = number_or_zero limit; s = number_or_zero step;
               next = f64_add i s
           in if (if f64_lt (f64_zero False) s then f64_le next lim else f64_le lim next)
              then Some (VFloat next) else None))"

definition op_forloop :: "register \<Rightarrow> i32 \<Rightarrow> machine \<Rightarrow> outcome option" where
  "op_forloop base offset m = do {
     r2 \<leftarrow> add_u8 base 2;
     step \<leftarrow> reg m r2;
     cur \<leftarrow> reg m base;
     r1 \<leftarrow> add_u8 base 1;
     limit \<leftarrow> reg m r1;
     case for_next cur limit step of
       None \<Rightarrow> dispatch m
     | Some next \<Rightarrow> do {
         m1 \<leftarrow> set_reg m base next;
         r3 \<leftarrow> add_u8 base 3;
         m2 \<leftarrow> set_reg m1 r3 next;
         m3 \<leftarrow> jump m2 (sint offset);
         dispatch m3
       }
   }"

definition op_tforprep :: "register \<Rightarrow> i32 \<Rightarrow> machine \<Rightarrow> outcome option" where
  "op_tforprep base offset m = do { m' \<leftarrow> jump m (sint offset); dispatch m' }"

definition op_tforcall :: "runtime \<Rightarrow> register \<Rightarrow> u8 \<Rightarrow> machine \<Rightarrow> outcome option" where
  "op_tforcall rt base count m = do {
     iter \<leftarrow> reg m base;
     r1 \<leftarrow> add_u8 base 1;
     state \<leftarrow> reg m r1;
     r2 \<leftarrow> add_u8 base 2;
     control \<leftarrow> reg m r2;
     invoke_metamethod rt m iter [state, control] (TForCall base count)
   }"

definition op_tforloop :: "register \<Rightarrow> i32 \<Rightarrow> machine \<Rightarrow> outcome option" where
  "op_tforloop base offset m = do {
     r3 \<leftarrow> add_u8 base 3;
     first \<leftarrow> reg m r3;
     if is_nil first then dispatch m
     else do {
       r2 \<leftarrow> add_u8 base 2;
       m1 \<leftarrow> set_reg m r2 first;
       m2 \<leftarrow> jump m1 (sint offset);
       dispatch m2
     }
   }"

section \<open>Table initialisation\<close>

text \<open>\<open>raw_set\<close> of consecutive integer keys from \<open>first\<close> on.\<close>

fun set_sequence :: "heap \<Rightarrow> addr \<Rightarrow> int \<Rightarrow> lua_value list \<Rightarrow> heap option" where
  "set_sequence h t first [] = Some h"
| "set_sequence h t first (v # vs) = do {
     h' \<leftarrow> raw_set h t (VInt (word_of_int first)) v;
     set_sequence h' t (first + 1) vs
   }"

definition op_setlist :: "register \<Rightarrow> u8 \<Rightarrow> u16 \<Rightarrow> machine \<Rightarrow> outcome option" where
  "op_setlist table count offset m = do {
     tv \<leftarrow> reg m table;
     case get_table tv of
       None \<Rightarrow> raise m
     | Some t \<Rightarrow> do {
         f \<leftarrow> top_lua (m_thread m);
         let elements_start = lf_base f + unat table + 1;
         let s = th_stack (m_thread m);
         n \<leftarrow> (if count = 0 then sub_nat (th_top (m_thread m)) elements_start else Some (unat count));
         vs \<leftarrow> (if elements_start + n \<le> length s then Some (take n (drop elements_start s)) else None);
         h \<leftarrow> set_sequence (w_heap (m_world m)) t (uint offset + 1) vs;
         let m' = set_heap m h;
         if count = 0 then do {
           let needed = lf_base f + unat (pr_max_stack_size (proto_of (m_world m) (lf_closure f)));
           if length s < needed
           then dispatch (m'\<lparr>m_thread := (m_thread m')\<lparr>th_stack := grow s needed\<rparr>, m_regs := lf_base f\<rparr>)
           else dispatch m'
         } else dispatch m'
       }
   }"

section \<open>Closures\<close>

definition find_open :: "(addr \<Rightarrow> upvalue_state) \<Rightarrow> addr list \<Rightarrow> nat \<Rightarrow> addr option" where
  "find_open st uvs stack_idx =
     find (\<lambda>uv. case st uv of UOpen _ i \<Rightarrow> i = stack_idx | UClosed _ \<Rightarrow> False) uvs"

fun capture :: "world \<Rightarrow> thread_state \<Rightarrow> lua_frame \<Rightarrow> upvalue_descriptor list \<Rightarrow>
    (world \<times> thread_state \<times> addr list) option" where
  "capture w th f [] = Some (w, th, [])"
| "capture w th f (ParentLocal i # ds) =
     (let stack_idx = lf_base f + unat i in
      case find_open (w_upvals w) (th_open_upvalues th) stack_idx of
        Some uv \<Rightarrow> do {
          (w', th', uvs) \<leftarrow> capture w th f ds;
          Some (w', th', uv # uvs)
        }
      | None \<Rightarrow>
          (let uv = w_next_upval w;
               w1 = w\<lparr>w_upvals := (w_upvals w)(uv := UOpen (th_handle th) stack_idx),
                      w_next_upval := Suc uv\<rparr>;
               th1 = th\<lparr>th_open_upvalues := th_open_upvalues th @ [uv]\<rparr>
           in do {
             (w', th', uvs) \<leftarrow> capture w1 th1 f ds;
             Some (w', th', uv # uvs)
           }))"
| "capture w th f (ParentUpvalue i # ds) = do {
     uv \<leftarrow> idx (lc_upvalues (lf_closure f)) (unat i);
     (w', th', uvs) \<leftarrow> capture w th f ds;
     Some (w', th', uv # uvs)
   }"

definition function_new_lua :: "world \<Rightarrow> addr \<Rightarrow> addr list \<Rightarrow> world \<times> addr" where
  "function_new_lua w p uvs =
     (let a = w_next_fun w in
      (w\<lparr>w_funs := (w_funs w)(a := FKLua \<lparr>lc_proto = p, lc_upvalues = uvs\<rparr>),
         w_next_fun := Suc a\<rparr>, a))"

definition op_closure :: "register \<Rightarrow> u16 \<Rightarrow> machine \<Rightarrow> outcome option" where
  "op_closure dst proto_idx m = do {
     f \<leftarrow> top_lua (m_thread m);
     p \<leftarrow> idx (pr_prototypes (proto_of (m_world m) (lf_closure f))) (unat proto_idx);
     (w, th, uvs) \<leftarrow> capture (m_world m) (m_thread m) f (pr_upvalue_desc (w_protos (m_world m) p));
     let (w', fn) = function_new_lua w p uvs;
     store_dispatch (m\<lparr>m_world := w', m_thread := th\<rparr>) dst (VFunc fn)
   }"

section \<open>Varargs\<close>

text \<open>\<open>Vec::copy_within\<close> and \<open>slice::rotate_left\<close>; both panic out of range.\<close>

definition copy_within :: "lua_value list \<Rightarrow> nat \<Rightarrow> nat \<Rightarrow> nat \<Rightarrow> lua_value list option" where
  "copy_within s src n dst =
     (if src + n \<le> length s \<and> dst + n \<le> length s
      then Some (take dst s @ take n (drop src s) @ drop (dst + n) s) else None)"

definition rotate_left :: "lua_value list \<Rightarrow> nat \<Rightarrow> nat \<Rightarrow> nat \<Rightarrow> lua_value list option" where
  "rotate_left s start len k =
     (if start + len \<le> length s
      then (let win = take len (drop start s)
            in Some (take start s @ drop k win @ take k win @ drop (start + len) s))
      else None)"

definition vararg_count :: "lua_value \<Rightarrow> nat" where
  "vararg_count v = (case get_integer v of
      Some n \<Rightarrow> if i64_le 0 n then nat (sint n) else 0
    | None \<Rightarrow> 0)"

fun read_varargs :: "heap \<Rightarrow> addr \<Rightarrow> nat \<Rightarrow> nat \<Rightarrow> nat \<Rightarrow> lua_value list \<Rightarrow> lua_value list option" where
  "read_varargs h t target i 0 s = Some s"
| "read_varargs h t target i (Suc n) s = do {
     v \<leftarrow> raw_get h t (VInt (word_of_nat (i + 1)));
     s' \<leftarrow> idx_set s (target + i) v;
     read_varargs h t target (i + 1) n s'
   }"

fun nil_regs :: "u8 \<Rightarrow> nat \<Rightarrow> nat \<Rightarrow> machine \<Rightarrow> machine option" where
  "nil_regs dst i 0 m = Some m"
| "nil_regs dst i (Suc n) m = do {
     r \<leftarrow> add_u8 dst i;
     m' \<leftarrow> set_reg m r VNil;
     nil_regs dst (i + 1) n m'
   }"

definition op_vararg_table :: "lua_frame \<Rightarrow> register \<Rightarrow> u8 \<Rightarrow> machine \<Rightarrow> outcome option" where
  "op_vararg_table f dst count m = do {
     let target = lf_base f + unat dst;
     let s = th_stack (m_thread m);
     tv \<leftarrow> idx s (lf_base f + unat (pr_num_params (proto_of (m_world m) (lf_closure f))));
     t \<leftarrow> get_table tv;
     nv \<leftarrow> raw_get (w_heap (m_world m)) t (VStr (ascii ''n''));
     let wanted = (if count = 0 then vararg_count nv else unat count - 1);
     let new_top = target + wanted;
     let (s1, regs) = (if length s < new_top then (resize s new_top VNil, lf_base f) else (s, m_regs m));
     s2 \<leftarrow> read_varargs (w_heap (m_world m)) t target 0 wanted s1;
     let th = (m_thread m)\<lparr>th_stack := s2\<rparr>;
     dispatch (m\<lparr>m_thread := (if count = 0 then th\<lparr>th_top := new_top\<rparr> else th), m_regs := regs\<rparr>)
   }"

definition op_vararg :: "register \<Rightarrow> u8 \<Rightarrow> machine \<Rightarrow> outcome option" where
  "op_vararg dst count m = do {
     f \<leftarrow> top_lua (m_thread m);
     if pr_needs_vararg_table (proto_of (m_world m) (lf_closure f)) then op_vararg_table f dst count m
     else do {
       let target = lf_base f + unat dst;
       let n = lf_num_extras f;
       extras_start \<leftarrow> sub_nat (lf_base f) n;
       let s = th_stack (m_thread m);
       if count = 0 then do {
         let new_top = target + n;
         let (s1, regs) = (if length s < new_top then (resize s new_top VNil, lf_base f) else (s, m_regs m));
         s2 \<leftarrow> (if 0 < n then copy_within s1 extras_start n target else Some s1);
         dispatch (m\<lparr>m_thread := (m_thread m)\<lparr>th_stack := s2, th_top := new_top\<rparr>, m_regs := regs\<rparr>)
       } else do {
         let wanted = unat count - 1;
         let to_copy = min n wanted;
         s1 \<leftarrow> (if 0 < to_copy then copy_within s extras_start to_copy target else Some s);
         m1 \<leftarrow> nil_regs dst to_copy (wanted - to_copy) (m\<lparr>m_thread := (m_thread m)\<lparr>th_stack := s1\<rparr>\<rparr>);
         dispatch m1
       }
     }
   }"

definition integral_key :: "lua_value \<Rightarrow> i64 option" where
  "integral_key v = (case v of
      VInt i \<Rightarrow> Some i
    | VFloat f \<Rightarrow> (let i = i64_of_f64 f in if f64_eq (f64_of_i64 i) f then Some i else None)
    | _ \<Rightarrow> None)"

definition op_varargget :: "register \<Rightarrow> register \<Rightarrow> register \<Rightarrow> machine \<Rightarrow> outcome option" where
  "op_varargget dst base key m = do {
     key_val \<leftarrow> reg m key;
     f \<leftarrow> top_lua (m_thread m);
     let n = lf_num_extras f;
     extras_start \<leftarrow> sub_nat (lf_base f) n;
     v \<leftarrow> (case integral_key key_val of
        Some k \<Rightarrow>
          if 1 \<le> sint k \<and> nat (sint k) \<le> n
          then idx (th_stack (m_thread m)) (extras_start + nat (sint k) - 1) else Some VNil
      | None \<Rightarrow>
          (case get_string key_val of
             Some s \<Rightarrow> Some (if s = ascii ''n'' then VInt (word_of_nat n) else VNil)
           | None \<Rightarrow> Some VNil));
     store_dispatch m dst v
   }"

definition op_varargprep :: "u8 \<Rightarrow> machine \<Rightarrow> outcome option" where
  "op_varargprep num_fixed m = do {
     f \<leftarrow> top_lua (m_thread m);
     let p = proto_of (m_world m) (lf_closure f);
     let n = lf_num_extras f;
     let num_params = unat (pr_num_params p);
     (m1, new_base) \<leftarrow> (if 0 < n then do {
         let new_base = lf_base f + n;
         s \<leftarrow> rotate_left (th_stack (m_thread m)) (lf_base f) (n + num_params) num_params;
         let th = upd_top_lua (\<lambda>f. f\<lparr>lf_base := new_base\<rparr>)
           ((m_thread m)\<lparr>th_stack := grow s (new_base + unat (pr_max_stack_size p))\<rparr>);
         Some (m\<lparr>m_thread := th, m_regs := new_base\<rparr>, new_base)
       } else Some (m, lf_base f));
     if pr_needs_vararg_table p then do {
       extras_start \<leftarrow> sub_nat new_base n;
       let (h, t) = table_new (w_heap (m_world m1));
       s \<leftarrow> idx_set (th_stack (m_thread m1)) (new_base + num_params) (VTable t);
       vs \<leftarrow> (if extras_start + n \<le> length s then Some (take n (drop extras_start s)) else None);
       h1 \<leftarrow> set_sequence h t 1 vs;
       h2 \<leftarrow> raw_set h1 t (VStr (ascii ''n'')) (VInt (word_of_nat n));
       dispatch ((set_heap m1 h2)\<lparr>m_thread := (m_thread m1)\<lparr>th_stack := s\<rparr>\<rparr>)
     } else dispatch m1
   }"

section \<open>Control\<close>

definition op_errnnil :: "register \<Rightarrow> u16 \<Rightarrow> machine \<Rightarrow> outcome option" where
  "op_errnnil src name_key m = do {
     v \<leftarrow> reg m src;
     if is_nil v then dispatch m else raise m
   }"

definition op_nop :: "machine \<Rightarrow> outcome option" where "op_nop m = dispatch m"

definition op_stop :: "machine \<Rightarrow> outcome option" where "op_stop m = Some (Done m)"

end
