(* ===== verification/Interp.thy ===== *)
theory Interp
  imports CallHandlers
begin

text \<open>
  \<open>vm/interp.rs\<close>: the handler table and the dispatch loop. \<open>exec\<close> is the row of the
  table an instruction selects, \<open>step\<close> one turn of \<open>dispatch!\<close>, \<open>run_thread\<close> the loop
  \<open>run_thread\<close> starts; its fuel counts instructions.
\<close>

fun exec :: "runtime \<Rightarrow> instruction \<Rightarrow> machine \<Rightarrow> outcome option" where
  "exec rt (MOVE dst src) m = op_move dst src m"
| "exec rt (LOAD dst i) m = op_load dst i m"
| "exec rt (LFALSESKIP src) m = op_lfalseskip src m"
| "exec rt (GETUPVAL dst i) m = op_getupval dst i m"
| "exec rt (SETUPVAL src i) m = op_setupval src i m"
| "exec rt (GETTABUP dst i ic key) m = op_gettabup rt dst i ic key m"
| "exec rt (SETTABUP src i ic key) m = op_settabup rt src i ic key m"
| "exec rt (GETTABLE dst t key) m = op_gettable rt dst t key m"
| "exec rt (SETTABLE src t key) m = op_settable rt src t key m"
| "exec rt (GETFIELD dst t ic key) m = op_getfield rt dst t ic key m"
| "exec rt (SETFIELD src t ic key) m = op_setfield rt src t ic key m"
| "exec rt (SELF dst object key) m = op_self rt dst object key m"
| "exec rt (NEWTABLE dst) m = op_newtable dst m"
| "exec rt (ADD dst a b) m = op_arith_handler rt Add ''__add'' dst a b m"
| "exec rt (SUB dst a b) m = op_arith_handler rt Sub ''__sub'' dst a b m"
| "exec rt (MUL dst a b) m = op_arith_handler rt Mul ''__mul'' dst a b m"
| "exec rt (MOD dst a b) m = op_arith_handler rt Mod ''__mod'' dst a b m"
| "exec rt (POW dst a b) m = op_arith_handler rt Pow ''__pow'' dst a b m"
| "exec rt (DIV dst a b) m = op_arith_handler rt Div ''__div'' dst a b m"
| "exec rt (IDIV dst a b) m = op_arith_handler rt IDiv ''__idiv'' dst a b m"
| "exec rt (BAND dst a b) m = op_bit_handler rt BAnd ''__band'' dst a b m"
| "exec rt (BOR dst a b) m = op_bit_handler rt BOr ''__bor'' dst a b m"
| "exec rt (BXOR dst a b) m = op_bit_handler rt BXor ''__bxor'' dst a b m"
| "exec rt (SHL dst a b) m = op_bit_handler rt Shl ''__shl'' dst a b m"
| "exec rt (SHR dst a b) m = op_bit_handler rt Shr ''__shr'' dst a b m"
| "exec rt (UNM dst src) m = op_unm rt dst src m"
| "exec rt (BNOT dst src) m = op_bnot rt dst src m"
| "exec rt (LNOT dst src) m = op_not dst src m"
| "exec rt (LEN dst src) m = op_len rt dst src m"
| "exec rt (CONCAT dst a b) m = op_concat rt dst a b m"
| "exec rt (CLOSE start) m = op_close start m"
| "exec rt (TBC v) m = op_tbc v m"
| "exec rt (JMP offset) m = op_jmp offset m"
| "exec rt (EQ a b inverted) m = op_eq rt a b inverted m"
| "exec rt (LT a b inverted) m = op_lt rt a b inverted m"
| "exec rt (LE a b inverted) m = op_le rt a b inverted m"
| "exec rt (TEST src inverted) m = op_test src inverted m"
| "exec rt (TESTSET dst src inverted) m = op_testset dst src inverted m"
| "exec rt (CALL func args returns) m = op_call rt func args returns m"
| "exec rt (TAILCALL func args) m = op_tailcall rt func args m"
| "exec rt (RETURN vals count) m = op_return vals count m"
| "exec rt (FORLOOP base offset) m = op_forloop base offset m"
| "exec rt (FORPREP base offset) m = op_forprep base offset m"
| "exec rt (TFORPREP base offset) m = op_tforprep base offset m"
| "exec rt (TFORCALL base count) m = op_tforcall rt base count m"
| "exec rt (TFORLOOP base offset) m = op_tforloop base offset m"
| "exec rt (SETLIST t count offset) m = op_setlist t count offset m"
| "exec rt (CLOSURE dst p) m = op_closure dst p m"
| "exec rt (VARARG dst count) m = op_vararg dst count m"
| "exec rt (VARARGGET dst base key) m = op_varargget dst base key m"
| "exec rt (VARARGPREP n) m = op_varargprep n m"
| "exec rt (ERRNNIL src name_key) m = op_errnnil src name_key m"
| "exec rt NOP m = op_nop m"
| "exec rt STOP m = op_stop m"

text \<open>The code the instruction pointer walks: that of the top frame.\<close>

definition fetch :: "machine \<Rightarrow> instruction option" where
  "fetch m = do {
     f \<leftarrow> top_lua (m_thread m);
     idx (pr_code (proto_of (m_world m) (lf_closure f))) (m_ip m)
   }"

definition step :: "runtime \<Rightarrow> machine \<Rightarrow> outcome option" where
  "step rt m = do {
     instr \<leftarrow> fetch m;
     exec rt instr (m\<lparr>m_ip := m_ip m + 1\<rparr>)
   }"

text \<open>\<open>run_loop\<close> gives \<open>Some None\<close> when the fuel runs out before the loop ends.\<close>

fun run_loop :: "nat \<Rightarrow> runtime \<Rightarrow> machine \<Rightarrow> outcome option option" where
  "run_loop 0 rt m = Some None"
| "run_loop (Suc n) rt m = do {
     r \<leftarrow> step rt m;
     case r of
       Dispatch m' \<Rightarrow> run_loop n rt m'
     | Done m' \<Rightarrow> Some (Some (Done m'))
     | Raise m' \<Rightarrow> Some (Some (Raise m'))
   }"

definition run_thread :: "nat \<Rightarrow> runtime \<Rightarrow> world \<Rightarrow> addr \<Rightarrow> outcome option option" where
  "run_thread fuel rt w t = do {
     let th = w_threads w t;
     f \<leftarrow> top_lua th;
     run_loop fuel rt \<lparr>m_world = w, m_thread = th, m_regs = lf_base f, m_ip = lf_pc f\<rparr>
   }"

end
