(* ===== verification/UpvalueLemmas.thy ===== *)
theory UpvalueLemmas
  imports Interp
begin

text \<open>
  Upvalues: the invariant of a thread's open list, and what closing, capturing and writing do
  to the values closures see.
\<close>

definition open_at :: "world \<Rightarrow> thread_state \<Rightarrow> addr \<Rightarrow> nat \<Rightarrow> bool" where
  "open_at w th uv i \<longleftrightarrow> w_upvals w uv = UOpen (th_handle th) i"

definition ups_ok :: "world \<Rightarrow> thread_state \<Rightarrow> bool" where
  "ups_ok w th \<longleftrightarrow>
     distinct (th_open_upvalues th)
   \<and> (\<forall>uv \<in> set (th_open_upvalues th). uv < w_next_upval w \<and> (\<exists>i < length (th_stack th). open_at w th uv i))
   \<and> (\<forall>uv < w_next_upval w. \<forall>i. open_at w th uv i \<longrightarrow> uv \<in> set (th_open_upvalues th))
   \<and> (\<forall>uv < w_next_upval w. \<forall>uv' < w_next_upval w. \<forall>i. open_at w th uv i \<longrightarrow> open_at w th uv' i \<longrightarrow> uv = uv')"

lemma ups_okD:
  assumes "ups_ok w th"
  shows "distinct (th_open_upvalues th)"
    and "uv \<in> set (th_open_upvalues th) \<Longrightarrow> uv < w_next_upval w"
    and "uv \<in> set (th_open_upvalues th) \<Longrightarrow> \<exists>i < length (th_stack th). open_at w th uv i"
    and "uv < w_next_upval w \<Longrightarrow> open_at w th uv i \<Longrightarrow> uv \<in> set (th_open_upvalues th)"
    and "uv < w_next_upval w \<Longrightarrow> uv' < w_next_upval w \<Longrightarrow> open_at w th uv i \<Longrightarrow> open_at w th uv' i \<Longrightarrow> uv = uv'"
  using assms by (auto simp: ups_ok_def)

section \<open>Closing\<close>

definition closes :: "nat \<Rightarrow> upvalue_state \<Rightarrow> bool" where
  "closes start u = (case u of UOpen _ i \<Rightarrow> start \<le> i | UClosed _ \<Rightarrow> False)"

definition close_state :: "lua_value list \<Rightarrow> upvalue_state \<Rightarrow> upvalue_state" where
  "close_state s u = (case u of UOpen _ i \<Rightarrow> UClosed (s ! i) | UClosed v \<Rightarrow> UClosed v)"

lemma close_loop_eq:
  assumes "distinct uvs" and "\<forall>uv \<in> set uvs. \<exists>t. \<exists>i < length s. st uv = UOpen t i"
  shows "close_loop start s uvs st = Some (filter (\<lambda>uv. \<not> closes start (st uv)) uvs,
    \<lambda>uv. if uv \<in> set uvs \<and> closes start (st uv) then close_state s (st uv) else st uv)"
  using assms
proof (induction uvs arbitrary: st)
  case (Cons u us)
  obtain t i where u: "st u = UOpen t i" "i < length s" using Cons.prems by auto
  show ?case
  proof (cases "start \<le> i")
    case True
    let ?st = "st(u := UClosed (s ! i))"
    have eq: "?st v = st v" if "v \<in> set us" for v using that Cons.prems(1) by auto
    have "close_loop start s us ?st = Some (filter (\<lambda>uv. \<not> closes start (?st uv)) us,
      \<lambda>uv. if uv \<in> set us \<and> closes start (?st uv) then close_state s (?st uv) else ?st uv)"
      using Cons.prems eq by (intro Cons.IH) simp_all
    moreover have "filter (\<lambda>uv. \<not> closes start (?st uv)) us = filter (\<lambda>uv. \<not> closes start (st uv)) us"
      using eq by (intro filter_cong) auto
    ultimately show ?thesis
      using u True Cons.prems(1)
      by (auto simp: closes_def close_state_def panic_simps fun_eq_iff split: upvalue_state.split)
  next
    case False
    then show ?thesis
      using u Cons.IH [of st] Cons.prems
      by (auto simp: closes_def fun_eq_iff split: upvalue_state.split)
  qed
qed (auto simp: fun_eq_iff)

lemma close_upvalues_eq:
  assumes ok: "ups_ok w th"
  shows "close_upvalues w th start = Some
    (w\<lparr>w_upvals := \<lambda>uv. if uv \<in> set (th_open_upvalues th) \<and> closes start (w_upvals w uv)
        then close_state (th_stack th) (w_upvals w uv) else w_upvals w uv\<rparr>,
     th\<lparr>th_open_upvalues := filter (\<lambda>uv. \<not> closes start (w_upvals w uv)) (th_open_upvalues th)\<rparr>)"
proof -
  have "\<forall>uv \<in> set (th_open_upvalues th). \<exists>t. \<exists>i < length (th_stack th). w_upvals w uv = UOpen t i"
    using ups_okD(3) [OF ok] by (fastforce simp: open_at_def)
  then show ?thesis
    using close_loop_eq [OF ups_okD(1) [OF ok]] by (simp add: close_upvalues_def)
qed

text \<open>The invariant survives, nothing at or above \<open>start\<close> is open any more, and every upvalue
  still reads the same whatever becomes of the stack from \<open>start\<close> on.\<close>

lemma close_upvalues_spec:
  assumes ok: "ups_ok w th"
  obtains w' th' where "close_upvalues w th start = Some (w', th')"
    and "ups_ok w' th'" and "th_stack th' = th_stack th" and "th_frames th' = th_frames th"
    and "th_handle th' = th_handle th" and "th_top th' = th_top th"
    and "th_tbc_slots th' = th_tbc_slots th" and "w_heap w' = w_heap w" and "w_protos w' = w_protos w"
    and "w_next_upval w' = w_next_upval w" and "w_threads w' = w_threads w"
    and "\<And>uv i. uv < w_next_upval w \<Longrightarrow> open_at w' th' uv i \<longleftrightarrow> open_at w th uv i \<and> i < start"
    and "\<And>uv s. uv < w_next_upval w \<Longrightarrow> take start s = take start (th_stack th) \<Longrightarrow>
      read_upvalue w' (th'\<lparr>th_stack := s\<rparr>) uv = read_upvalue w th uv"
proof -
  let ?st = "\<lambda>uv. if uv \<in> set (th_open_upvalues th) \<and> closes start (w_upvals w uv)
        then close_state (th_stack th) (w_upvals w uv) else w_upvals w uv"
  let ?keep = "filter (\<lambda>uv. \<not> closes start (w_upvals w uv)) (th_open_upvalues th)"
  define w' where "w' = w\<lparr>w_upvals := ?st\<rparr>"
  define th' where "th' = th\<lparr>th_open_upvalues := ?keep\<rparr>"
  have op: "open_at w' th' uv i \<longleftrightarrow> open_at w th uv i \<and> i < start" if "uv < w_next_upval w" for uv i
    using ups_okD(4) [OF ok that, of i]
    by (auto simp: open_at_def w'_def th'_def closes_def close_state_def split: upvalue_state.splits)
  have "ups_ok w' th'"
    unfolding ups_ok_def
  proof (intro conjI ballI allI impI)
    show "distinct (th_open_upvalues th')" using ups_okD(1) [OF ok] by (simp add: th'_def)
    fix uv assume uv: "uv \<in> set (th_open_upvalues th')"
    then have m: "uv \<in> set (th_open_upvalues th)" "\<not> closes start (w_upvals w uv)"
      by (simp_all add: th'_def)
    then show "uv < w_next_upval w'" using ups_okD(2) [OF ok] by (simp add: w'_def)
    obtain i where i: "i < length (th_stack th)" "open_at w th uv i" using ups_okD(3) [OF ok m(1)] by auto
    then have "open_at w' th' uv i"
      using op ups_okD(2) [OF ok m(1)] m(2) by (auto simp: open_at_def closes_def)
    then show "\<exists>i < length (th_stack th'). open_at w' th' uv i" using i by (auto simp: th'_def)
  next
    fix uv i assume u: "uv < w_next_upval w'" "open_at w' th' uv i"
    then have "open_at w th uv i" "i < start" using op by (simp_all add: w'_def)
    then show "uv \<in> set (th_open_upvalues th')"
      using ups_okD(4) [OF ok] u(1) by (auto simp: th'_def w'_def open_at_def closes_def)
  next
    fix uv uv' i
    assume a: "uv < w_next_upval w'" "uv' < w_next_upval w'"
      and o: "open_at w' th' uv i" "open_at w' th' uv' i"
    have b: "uv < w_next_upval w" "uv' < w_next_upval w" using a by (simp_all add: w'_def)
    show "uv = uv'" using o ups_okD(5) [OF ok b, of i] op [OF b(1)] op [OF b(2)] by blast
  qed
  moreover have "read_upvalue w' (th'\<lparr>th_stack := s\<rparr>) uv = read_upvalue w th uv"
    if uv: "uv < w_next_upval w" and s: "take start s = take start (th_stack th)" for uv s
  proof (cases "w_upvals w uv")
    case (UClosed v)
    then show ?thesis by (simp add: read_upvalue_def w'_def close_state_def)
  next
    case (UOpen t i)
    show ?thesis
    proof (cases "t = th_handle th")
      case False
      have "uv \<notin> set (th_open_upvalues th)"
        using ups_okD(3) [OF ok, of uv] UOpen False by (auto simp: open_at_def)
      then show ?thesis using UOpen False by (simp add: read_upvalue_def w'_def th'_def)
    next
      case True
      then have "open_at w th uv i" using UOpen by (simp add: open_at_def)
      then have m: "uv \<in> set (th_open_upvalues th)" by (rule ups_okD(4) [OF ok uv])
      then have i: "i < length (th_stack th)"
        using ups_okD(3) [OF ok, of uv] UOpen by (auto simp: open_at_def)
      show ?thesis
      proof (cases "start \<le> i")
        case close: True
        then show ?thesis using UOpen True m i
          by (simp add: read_upvalue_def w'_def th'_def closes_def close_state_def panic_simps)
      next
        case keep: False
        have len: "i < length s" using arg_cong [OF s, of length] i keep by simp
        have "s ! i = take start s ! i" "th_stack th ! i = take start (th_stack th) ! i"
          using keep by simp_all
        then have "s ! i = th_stack th ! i" using s by simp
        then show ?thesis using UOpen True m i keep len
          by (simp add: read_upvalue_def w'_def th'_def closes_def panic_simps)
      qed
    qed
  qed
  ultimately show ?thesis
    using that [of w' th'] close_upvalues_eq [OF ok] op by (simp add: w'_def th'_def)
qed

section \<open>Writing\<close>

text \<open>Two upvalues are one variable when they are the same object or open on the same slot.\<close>

definition same_cell :: "world \<Rightarrow> addr \<Rightarrow> addr \<Rightarrow> bool" where
  "same_cell w uv uv' \<longleftrightarrow> uv = uv' \<or> (\<exists>t i. w_upvals w uv = UOpen t i \<and> w_upvals w uv' = UOpen t i)"

lemma write_upvalue_read:
  assumes "write_upvalue w th uv val = Some (w', th')"
  shows "read_upvalue w' th' uv' = (if same_cell w uv uv' then Some val else read_upvalue w th uv')"
proof (cases "w_upvals w uv")
  case (UClosed v)
  then show ?thesis using assms
    by (cases "w_upvals w uv'") (auto simp: write_upvalue_def read_upvalue_def same_cell_def)
next
  case (UOpen t i)
  show ?thesis
  proof (cases "w_upvals w uv'")
    case (UClosed v)
    then show ?thesis using assms UOpen
      by (auto simp: write_upvalue_def read_upvalue_def same_cell_def bind_eq_Some_conv split: if_splits)
  next
    case O2: (UOpen t' i')
    then show ?thesis using assms UOpen
      by (auto simp: write_upvalue_def read_upvalue_def same_cell_def bind_eq_Some_conv
          idx_set_eq_Some_iff idx_def nth_list_update split: if_splits)
  qed
qed

lemma write_upvalue_total:
  "write_upvalue w th uv val \<noteq> None \<longleftrightarrow> read_upvalue w th uv \<noteq> None"
  by (auto simp: write_upvalue_def read_upvalue_def idx_set_def idx_def split: upvalue_state.splits)

section \<open>Capturing\<close>

lemma find_open_Some_iff:
  assumes "ups_ok w th"
  shows "find_open (w_upvals w) (th_open_upvalues th) i = Some uv
    \<longleftrightarrow> uv < w_next_upval w \<and> open_at w th uv i"
proof
  assume "find_open (w_upvals w) (th_open_upvalues th) i = Some uv"
  then have m: "uv \<in> set (th_open_upvalues th)"
    and p: "case w_upvals w uv of UOpen _ j \<Rightarrow> j = i | UClosed _ \<Rightarrow> False"
    by (auto simp: find_open_def find_Some_iff)
  obtain j where "open_at w th uv j" using ups_okD(3) [OF assms m] by auto
  then show "uv < w_next_upval w \<and> open_at w th uv i"
    using p ups_okD(2) [OF assms m] by (simp add: open_at_def)
next
  assume u: "uv < w_next_upval w \<and> open_at w th uv i"
  then have m: "uv \<in> set (th_open_upvalues th)" using ups_okD(4) [OF assms] by blast
  show "find_open (w_upvals w) (th_open_upvalues th) i = Some uv"
  proof (cases "find_open (w_upvals w) (th_open_upvalues th) i")
    case None
    then show ?thesis using u m by (auto simp: find_open_def find_None_iff open_at_def)
  next
    case (Some uv')
    then have m': "uv' \<in> set (th_open_upvalues th)"
      and p: "case w_upvals w uv' of UOpen _ j \<Rightarrow> j = i | UClosed _ \<Rightarrow> False"
      by (auto simp: find_open_def find_Some_iff)
    obtain j where "open_at w th uv' j" using ups_okD(3) [OF assms m'] by auto
    then have "open_at w th uv' i" using p by (simp add: open_at_def)
    then have "uv' = uv" using u ups_okD(5) [OF assms] ups_okD(2) [OF assms m'] by blast
    then show ?thesis using Some by simp
  qed
qed

lemma find_open_None_iff:
  assumes "ups_ok w th"
  shows "find_open (w_upvals w) (th_open_upvalues th) i = None
    \<longleftrightarrow> (\<forall>uv < w_next_upval w. \<not> open_at w th uv i)"
  using find_open_Some_iff [OF assms] by (metis not_None_eq)

definition new_open :: "world \<Rightarrow> thread_state \<Rightarrow> nat \<Rightarrow> world" where
  "new_open w th i = w\<lparr>w_upvals := (w_upvals w)(w_next_upval w := UOpen (th_handle th) i),
     w_next_upval := Suc (w_next_upval w)\<rparr>"

lemma new_open_ok:
  assumes ok: "ups_ok w th" and i: "i < length (th_stack th)"
    and fresh: "\<forall>uv < w_next_upval w. \<not> open_at w th uv i"
  shows "ups_ok (new_open w th i) (th\<lparr>th_open_upvalues := th_open_upvalues th @ [w_next_upval w]\<rparr>)"
    (is "ups_ok ?w ?th")
proof -
  let ?n = "w_next_upval w"
  have op: "open_at ?w ?th uv j \<longleftrightarrow> (if uv = ?n then j = i else open_at w th uv j)" for uv j
    by (auto simp: open_at_def new_open_def)
  have n: "?n \<notin> set (th_open_upvalues th)" using ups_okD(2) [OF ok] by blast
  show ?thesis
    unfolding ups_ok_def
  proof (intro conjI ballI allI impI)
    show "distinct (th_open_upvalues ?th)" using ups_okD(1) [OF ok] n by simp
    fix uv assume uv: "uv \<in> set (th_open_upvalues ?th)"
    then show "uv < w_next_upval ?w"
      using ups_okD(2) [OF ok, of uv] by (auto simp: new_open_def less_Suc_eq)
    show "\<exists>j < length (th_stack ?th). open_at ?w ?th uv j"
      using uv i n ups_okD(3) [OF ok, of uv] unfolding op by auto
  next
    fix uv j assume "uv < w_next_upval ?w" "open_at ?w ?th uv j"
    then show "uv \<in> set (th_open_upvalues ?th)"
      using ups_okD(4) [OF ok, of uv j] unfolding op
      by (auto simp: new_open_def less_Suc_eq split: if_splits)
  next
    fix uv uv' j
    assume "uv < w_next_upval ?w" "uv' < w_next_upval ?w" "open_at ?w ?th uv j" "open_at ?w ?th uv' j"
    then show "uv = uv'"
      using ups_okD(5) [OF ok, of uv uv' j] fresh unfolding op
      by (auto simp: new_open_def less_Suc_eq split: if_splits)
  qed
qed

text \<open>What a captured upvalue must be, by its descriptor.\<close>

definition captured :: "world \<Rightarrow> thread_state \<Rightarrow> lua_frame \<Rightarrow> upvalue_descriptor \<Rightarrow> addr \<Rightarrow> bool" where
  "captured w th f d uv = (case d of
      ParentLocal i \<Rightarrow> uv < w_next_upval w \<and> open_at w th uv (lf_base f + unat i)
    | ParentUpvalue i \<Rightarrow> idx (lc_upvalues (lf_closure f)) (unat i) = Some uv)"

definition desc_ok :: "thread_state \<Rightarrow> lua_frame \<Rightarrow> upvalue_descriptor \<Rightarrow> bool" where
  "desc_ok th f d = (case d of
      ParentLocal i \<Rightarrow> lf_base f + unat i < length (th_stack th)
    | ParentUpvalue i \<Rightarrow> unat i < length (lc_upvalues (lf_closure f)))"

definition upvals_grow :: "world \<Rightarrow> world \<Rightarrow> bool" where
  "upvals_grow w w' \<longleftrightarrow> w_next_upval w \<le> w_next_upval w'
     \<and> (\<forall>uv < w_next_upval w. w_upvals w' uv = w_upvals w uv)
     \<and> w_heap w' = w_heap w \<and> w_protos w' = w_protos w \<and> w_funs w' = w_funs w
     \<and> w_next_fun w' = w_next_fun w \<and> w_threads w' = w_threads w"

lemma upvals_grow_trans: "upvals_grow w w' \<Longrightarrow> upvals_grow w' w'' \<Longrightarrow> upvals_grow w w''"
  by (auto simp: upvals_grow_def)

lemma captured_grow:
  assumes "captured w th f d uv" and "upvals_grow w w'" and "th_handle th' = th_handle th"
  shows "captured w' th' f d uv"
  using assms by (auto simp: captured_def upvals_grow_def open_at_def split: upvalue_descriptor.splits)

lemma capture_spec:
  assumes "ups_ok w th" and "\<forall>d \<in> set ds. desc_ok th f d"
  shows "\<exists>w' th' uvs. capture w th f ds = Some (w', th', uvs) \<and> ups_ok w' th' \<and> upvals_grow w w'
    \<and> th_stack th' = th_stack th \<and> th_frames th' = th_frames th \<and> th_handle th' = th_handle th
    \<and> list_all2 (captured w' th' f) ds uvs"
  using assms
proof (induction ds arbitrary: w th)
  case (Cons d ds)
  have rest: "\<forall>d \<in> set ds. desc_ok th f d" using Cons.prems by simp
  show ?case
  proof (cases d)
    case (ParentUpvalue i)
    then have i: "idx (lc_upvalues (lf_closure f)) (unat i) = Some (lc_upvalues (lf_closure f) ! unat i)"
      using Cons.prems by (simp add: desc_ok_def panic_simps)
    then show ?thesis
      using Cons.IH [OF Cons.prems(1) rest] ParentUpvalue by (auto simp: captured_def)
  next
    case (ParentLocal i)
    let ?i = "lf_base f + unat i"
    have len: "?i < length (th_stack th)" using Cons.prems ParentLocal by (simp add: desc_ok_def)
    show ?thesis
    proof (cases "find_open (w_upvals w) (th_open_upvalues th) ?i")
      case (Some uv)
      then have uv: "captured w th f d uv"
        using find_open_Some_iff [OF Cons.prems(1)] ParentLocal by (simp add: captured_def)
      obtain w' th' uvs where c: "capture w th f ds = Some (w', th', uvs)" "ups_ok w' th'"
        "upvals_grow w w'" "th_stack th' = th_stack th" "th_frames th' = th_frames th"
        "th_handle th' = th_handle th" "list_all2 (captured w' th' f) ds uvs"
        using Cons.IH [OF Cons.prems(1) rest] by auto
      then show ?thesis using Some ParentLocal captured_grow [OF uv c(3,6)] by (simp add: Let_def)
    next
      case None
      let ?w = "new_open w th ?i"
      let ?th = "th\<lparr>th_open_upvalues := th_open_upvalues th @ [w_next_upval w]\<rparr>"
      have fresh: "\<forall>uv < w_next_upval w. \<not> open_at w th uv ?i"
        using None find_open_None_iff [OF Cons.prems(1)] by blast
      have ok: "ups_ok ?w ?th" by (rule new_open_ok [OF Cons.prems(1) len fresh])
      have uv: "captured ?w ?th f d (w_next_upval w)"
        using ParentLocal by (simp add: captured_def new_open_def open_at_def)
      have "\<forall>d \<in> set ds. desc_ok ?th f d"
        using rest by (auto simp: desc_ok_def split: upvalue_descriptor.splits)
      then obtain w' th' uvs where c: "capture ?w ?th f ds = Some (w', th', uvs)" "ups_ok w' th'"
        "upvals_grow ?w w'" "th_stack th' = th_stack th" "th_frames th' = th_frames th"
        "th_handle th' = th_handle th" "list_all2 (captured w' th' f) ds uvs"
        using Cons.IH [OF ok] by auto
      have "upvals_grow w ?w" by (auto simp: upvals_grow_def new_open_def)
      then have "upvals_grow w w'" using c(3) by (rule upvals_grow_trans)
      moreover have "captured w' th' f d (w_next_upval w)"
        by (rule captured_grow [OF uv c(3)]) (simp add: c(6))
      ultimately show ?thesis
        using None ParentLocal c by (simp add: Let_def new_open_def)
    qed
  qed
qed (simp add: upvals_grow_def)

end
