(* ===== verification/CallLemmas.thy ===== *)
theory CallLemmas
  imports UpvalueLemmas
begin

text \<open>
  The call protocol: what the copy loops do to the stack, the frame a call pushes and the
  window it leaves the callee, where a return puts its results, and the below-base layout of
  varargs.
\<close>

section \<open>The copy loops\<close>

lemma copy_up_eq:
  assumes "dst \<le> src" and "src + n \<le> length s"
  shows "copy_up dst src n s = Some (take dst s @ take n (drop src s) @ drop (dst + n) s)"
  using assms
proof (induction n arbitrary: dst src s)
  case (Suc n)
  let ?s = "s[dst := s ! src]"
  have "copy_up dst src (Suc n) s = copy_up (Suc dst) (Suc src) n ?s"
    using Suc.prems by (simp add: panic_simps)
  also have "\<dots> = Some (take (Suc dst) ?s @ take n (drop (Suc src) ?s) @ drop (Suc dst + n) ?s)"
    using Suc.prems by (intro Suc.IH) simp_all
  also have "take (Suc dst) ?s = take dst s @ [s ! src]"
    using Suc.prems by (simp add: take_Suc_conv_app_nth)
  also have "drop (Suc src) ?s = drop (Suc src) s" using Suc.prems by simp
  also have "drop (Suc dst + n) ?s = drop (Suc dst + n) s" by simp
  also have "(take dst s @ [s ! src]) @ take n (drop (Suc src) s) @ drop (Suc dst + n) s
      = take dst s @ take (Suc n) (drop src s) @ drop (dst + Suc n) s"
    using Suc.prems by (simp add: Cons_nth_drop_Suc [symmetric])
  finally show ?case .
qed simp

lemma fill_nil_eq:
  assumes "from + n \<le> length s"
  shows "fill_nil from n s = Some (take from s @ replicate n VNil @ drop (from + n) s)"
  using assms
proof (induction n arbitrary: "from" s)
  case (Suc n)
  let ?s = "s[from := VNil]"
  have "fill_nil from (Suc n) s = fill_nil (Suc from) n ?s" using Suc.prems by (simp add: panic_simps)
  also have "\<dots> = Some (take (Suc from) ?s @ replicate n VNil @ drop (Suc from + n) ?s)"
    using Suc.prems by (intro Suc.IH) simp
  also have "take (Suc from) ?s = take from s @ [VNil]"
    using Suc.prems by (simp add: take_Suc_conv_app_nth)
  finally show ?case by simp
qed simp

lemma fill_nil_0 [simp]: "fill_nil from 0 s = Some s" by simp

lemma length_grow: "length (grow s n) = max (length s) n"
  by (simp add: grow_def)

lemma nth_grow: "i < length s \<Longrightarrow> grow s n ! i = s ! i"
  by (simp add: grow_def nth_resize)

lemma take_grow: "n \<le> length s \<Longrightarrow> take n (grow s k) = take n s"
  by (simp add: grow_def resize_grow)

lemma nth_window:
  "i < length xs \<Longrightarrow> a \<le> length s \<Longrightarrow> (take a s @ xs @ ys) ! (a + i) = xs ! i"
  by (simp add: nth_append min_absorb2)

lemma drop_window:
  assumes "length xs = a" and "length ys = n" and "a + n \<le> j"
  shows "drop j (xs @ ys @ drop (a + n) s) = drop j s"
proof -
  have "j - a - n + (a + n) = j" using assms(3) by simp
  then show ?thesis using assms by simp
qed

section \<open>The pushed frame\<close>

lemma enter_frame_spec:
  assumes n: "base + nargs \<le> length s"
    and fit: "unat (pr_num_params (proto_of w c)) \<le> unat (pr_max_stack_size (proto_of w c))"
  obtains s' where "enter_frame w c base nargs s = Some s'"
    and "take (base + nargs) s' = take (base + nargs) s"
    and "base + unat (pr_max_stack_size (proto_of w c)) \<le> length s'" and "length s \<le> length s'"
    and "\<And>k. nargs \<le> k \<Longrightarrow> k < unat (pr_num_params (proto_of w c)) \<Longrightarrow> s' ! (base + k) = VNil"
proof -
  let ?p = "unat (pr_num_params (proto_of w c))" and ?g = "grow s (base + unat (pr_max_stack_size (proto_of w c)))"
  let ?s = "take (base + nargs) ?g @ replicate (?p - nargs) VNil @ drop (base + nargs + (?p - nargs)) ?g"
  have len: "base + nargs + (?p - nargs) \<le> length ?g" using n fit by (auto simp: length_grow)
  have e: "enter_frame w c base nargs s = Some ?s"
    unfolding enter_frame_def by (rule fill_nil_eq [OF len])
  have l: "length ?s = length ?g" using len by simp
  show ?thesis
  proof (rule that [OF e])
    show "take (base + nargs) ?s = take (base + nargs) s" using n len by (simp add: take_grow)
    show "base + unat (pr_max_stack_size (proto_of w c)) \<le> length ?s" "length s \<le> length ?s"
      unfolding l by (simp_all add: length_grow)
    show "?s ! (base + k) = VNil" if "nargs \<le> k" "k < ?p" for k
      using that len nth_window [of "k - nargs" "replicate (?p - nargs) VNil" "base + nargs" ?g]
      by simp
  qed
qed

lemma resolve_call_function:
  assumes "func_idx < length (th_stack th)" and "th_stack th ! func_idx = VFunc a"
  shows "resolve_call_chain w th func_idx nargs = Some (th,
    Some (case w_funs w a of FKLua c \<Rightarrow> CTLua c | FKNative nc \<Rightarrow> CTNative nc, nargs))"
  using assms
  by (simp add: resolve_call_chain_def MAX_TAG_LOOP_def numeral_eq_Suc panic_simps
      split: function_kind.split)

lemma top_lua_Cons [simp]: "top_lua (th\<lparr>th_frames := FLua f # fs\<rparr>) = Some f"
  by (simp add: top_lua_def)

lemma top_lua_SomeD: "top_lua th = Some f \<Longrightarrow> \<exists>fs. th_frames th = FLua f # fs"
  by (auto simp: top_lua_def split: list.splits frame.splits)

lemma upd_top_lua_eq:
  "th_frames th = FLua f # fs \<Longrightarrow> upd_top_lua g th = th\<lparr>th_frames := FLua (g f) # fs\<rparr>"
  by (simp add: upd_top_lua_def)

text \<open>CALL of a Lua closure: the caller's pc is saved, the callee sees its arguments in order and
  nil for the parameters without one, and nothing below the call slot moves.\<close>

lemma op_call_lua:
  assumes fr: "th_frames (m_thread m) = FLua f # fs"
    and fi: "func_idx = lf_base f + unat func"
    and fn: "th_stack (m_thread m) ! func_idx = VFunc a" "w_funs (m_world m) a = FKLua c"
    and n: "arg_count (m_thread m) nargs (func_idx + 1) = Some n"
    and len: "func_idx + 1 + n \<le> length (th_stack (m_thread m))"
    and fit: "unat (pr_num_params (proto_of (m_world m) c)) \<le> unat (pr_max_stack_size (proto_of (m_world m) c))"
  obtains m' where "op_call rt func nargs returns m = Some (Dispatch m')"
    and "m_world m' = m_world m" and "m_ip m' = 0" and "m_regs m' = func_idx + 1"
    and "th_frames (m_thread m') = FLua (call_frame (m_world m) c (func_idx + 1) returns n None)
           # FLua (f\<lparr>lf_pc := m_ip m\<rparr>) # fs"
    and "take (func_idx + 1 + n) (th_stack (m_thread m')) = take (func_idx + 1 + n) (th_stack (m_thread m))"
    and "\<And>k. n \<le> k \<Longrightarrow> k < unat (pr_num_params (proto_of (m_world m) c)) \<Longrightarrow>
           th_stack (m_thread m') ! (func_idx + 1 + k) = VNil"
    and "func_idx + 1 + unat (pr_max_stack_size (proto_of (m_world m) c)) \<le> length (th_stack (m_thread m'))"
    and "th_open_upvalues (m_thread m') = th_open_upvalues (m_thread m)"
    and "th_handle (m_thread m') = th_handle (m_thread m)"
proof -
  let ?w = "m_world m" and ?th = "m_thread m"
  let ?th1 = "save_pc (m_ip m) ?th"
  have th1: "?th1 = ?th\<lparr>th_frames := FLua (f\<lparr>lf_pc := m_ip m\<rparr>) # fs\<rparr>"
    using fr by (simp add: save_pc_def upd_top_lua_eq)
  have base: "frame_base ?th = lf_base f" using fr by (simp add: frame_base_def top_lua_def)
  have res: "resolve_call_chain ?w ?th func_idx nargs = Some (?th, Some (CTLua c, nargs))"
    using resolve_call_function [of func_idx ?th a] fn len by simp
  obtain s' where s': "enter_frame ?w c (func_idx + 1) n (th_stack ?th) = Some s'"
    "take (func_idx + 1 + n) s' = take (func_idx + 1 + n) (th_stack ?th)"
    "func_idx + 1 + unat (pr_max_stack_size (proto_of ?w c)) \<le> length s'"
    "\<And>k. n \<le> k \<Longrightarrow> k < unat (pr_num_params (proto_of ?w c)) \<Longrightarrow> s' ! (func_idx + 1 + k) = VNil"
    using enter_frame_spec [OF len fit] by metis
  have n1: "arg_count ?th1 nargs (func_idx + 1) = Some n"
    using n by (auto simp: th1 arg_count_def split: if_splits)
  let ?m = "m\<lparr>m_thread := push_lua (call_frame ?w c (func_idx + 1) returns n None)
             (?th1\<lparr>th_stack := s'\<rparr>), m_ip := 0, m_regs := func_idx + 1\<rparr>"
  have "op_call rt func nargs returns m = Some (Dispatch ?m)"
    using res n1 s'(1) base
    by (simp add: op_call_def Let_def fi [symmetric] dispatch_def) (simp add: th1)
  then show ?thesis
    by (rule that) (use s' in \<open>simp_all add: push_lua_def th1\<close>)
qed

section \<open>Returning\<close>

text \<open>The results a caller that asked for \<open>num_results\<close> gets.\<close>

definition delivered :: "u8 \<Rightarrow> lua_value list \<Rightarrow> lua_value list" where
  "delivered num_results vs =
     (if num_results = 0 then vs
      else take (unat num_results - 1) vs @ replicate (unat num_results - 1 - length vs) VNil)"

lemma close_frame_spec:
  assumes ok: "ups_ok w th" and fr: "th_frames th = FLua f # fs"
  obtains w' th' where "close_frame w th base = Some (w', th')"
    and "th_stack th' = th_stack th" and "th_frames th' = fs" and "th_handle th' = th_handle th"
    and "th_top th' = th_top th"
    and "th_tbc_slots th' = filter (\<lambda>i. i < base) (th_tbc_slots th)"
    and "ups_ok w' th'" and "w_heap w' = w_heap w" and "w_protos w' = w_protos w"
    and "w_next_upval w' = w_next_upval w"
    and "\<And>uv i. uv < w_next_upval w \<Longrightarrow> open_at w' th' uv i \<longleftrightarrow> open_at w th uv i \<and> i < base"
    and "\<And>uv s. uv < w_next_upval w \<Longrightarrow> take base s = take base (th_stack th) \<Longrightarrow>
      read_upvalue w' (th'\<lparr>th_stack := s\<rparr>) uv = read_upvalue w th uv"
proof -
  obtain w' th1 where c: "close_upvalues w th base = Some (w', th1)"
    "ups_ok w' th1" "th_stack th1 = th_stack th" "th_frames th1 = th_frames th"
    "th_handle th1 = th_handle th" "th_top th1 = th_top th" "th_tbc_slots th1 = th_tbc_slots th"
    "w_heap w' = w_heap w" "w_protos w' = w_protos w" "w_next_upval w' = w_next_upval w"
    and o: "\<And>uv i. uv < w_next_upval w \<Longrightarrow> open_at w' th1 uv i \<longleftrightarrow> open_at w th uv i \<and> i < base"
    and r: "\<And>uv s. uv < w_next_upval w \<Longrightarrow> take base s = take base (th_stack th) \<Longrightarrow>
      read_upvalue w' (th1\<lparr>th_stack := s\<rparr>) uv = read_upvalue w th uv"
    by (rule close_upvalues_spec [OF ok, of base]) blast
  let ?th = "pop_frame (close_tbc_vars th1 base)"
  have e: "close_frame w th base = Some (w', ?th)" using c by (simp add: close_frame_def)
  have op: "open_at w' ?th = open_at w' th1"
    by (intro ext) (simp add: open_at_def pop_frame_def close_tbc_vars_def)
  have rd: "read_upvalue w' (?th\<lparr>th_stack := s\<rparr>) = read_upvalue w' (th1\<lparr>th_stack := s\<rparr>)" for s
  proof
    fix uv
    show "read_upvalue w' (?th\<lparr>th_stack := s\<rparr>) uv = read_upvalue w' (th1\<lparr>th_stack := s\<rparr>) uv"
      by (cases "w_upvals w' uv") (simp_all add: read_upvalue_def pop_frame_def close_tbc_vars_def)
  qed
  have "ups_ok w' ?th" using c(2) by (simp add: ups_ok_def op) (simp add: pop_frame_def close_tbc_vars_def)
  then show ?thesis
    using that [OF e] c o r fr by (simp add: op rd) (simp add: pop_frame_def close_tbc_vars_def)
qed

text \<open>RETURN into a Lua caller.\<close>

lemma frame_return_lua:
  assumes ok: "ups_ok w th" and fr: "th_frames th = FLua f # FLua g # fs"
    and cont: "lf_continuation f = None"
    and slot: "lf_base f = dst + 1 + lf_num_extras f"
    and vb: "lf_base f \<le> values_base" and len: "values_base + nret \<le> length (th_stack th)"
    and fit: "dst + (unat (lf_num_results f) - 1) \<le> length (th_stack th)"
  obtains w' th' where
    "frame_return w th values_base nret = Some (w', th', FRCaller (lf_base g) (lf_pc g))"
    and "th_frames th' = FLua g # fs" and "length (th_stack th') = length (th_stack th)"
    and "take dst (th_stack th') = take dst (th_stack th)"
    and "take (length (delivered (lf_num_results f) (take nret (drop values_base (th_stack th)))))
           (drop dst (th_stack th'))
         = delivered (lf_num_results f) (take nret (drop values_base (th_stack th)))"
    and "lf_num_results f = 0 \<Longrightarrow> th_top th' = dst + nret"
    and "\<And>uv. uv < w_next_upval w \<Longrightarrow> \<not> (\<exists>i. open_at w th uv i \<and> dst \<le> i \<and> i < lf_base f) \<Longrightarrow>
           read_upvalue w' th' uv = read_upvalue w th uv"
    and "w_heap w' = w_heap w"
proof -
  let ?vs = "take nret (drop values_base (th_stack th))" let ?nr = "lf_num_results f"
  have lvs: "length ?vs = nret" using len by simp
  obtain w' th1 where c: "close_frame w th (lf_base f) = Some (w', th1)"
    "th_stack th1 = th_stack th" "th_frames th1 = FLua g # fs" "th_handle th1 = th_handle th"
    "w_heap w' = w_heap w"
    and o: "\<And>uv i. uv < w_next_upval w \<Longrightarrow> open_at w' th1 uv i \<longleftrightarrow> open_at w th uv i \<and> i < lf_base f"
    and r: "\<And>uv s. uv < w_next_upval w \<Longrightarrow> take (lf_base f) s = take (lf_base f) (th_stack th) \<Longrightarrow>
      read_upvalue w' (th1\<lparr>th_stack := s\<rparr>) uv = read_upvalue w th uv"
    by (rule close_frame_spec [OF ok fr, of "lf_base f"]) blast
  have tops: "top_lua th = Some f" "top_lua th1 = Some g"
    using fr c(3) by (simp_all add: top_lua_def)
  have dst: "sub_nat (lf_base f) (Suc (lf_num_extras f)) = Some dst" using slot by (simp add: sub_nat_def)
  define k where "k = length (delivered ?nr ?vs)"
  define s' where "s' = take dst (th_stack th) @ delivered ?nr ?vs @ drop (dst + k) (th_stack th)"
  have kfit: "dst + k \<le> length (th_stack th)"
    using fit len vb slot by (auto simp: k_def delivered_def lvs min_def)
  have dv: "dst < values_base" using vb slot by simp
  obtain th' where e: "frame_return w th values_base nret = Some (w', th', FRCaller (lf_base g) (lf_pc g))"
    and th': "th_stack th' = s'" "th_frames th' = FLua g # fs" "th_handle th' = th_handle th"
    "?nr = 0 \<Longrightarrow> th_top th' = dst + nret"
  proof (cases "?nr = 0")
    case True
    have "copy_up dst values_base nret (th_stack th1) = Some s'"
      using copy_up_eq [of dst values_base nret "th_stack th1"] dv len True
      by (simp add: c s'_def k_def delivered_def)
    then show ?thesis
      using that [of "th1\<lparr>th_stack := s', th_top := dst + nret\<rparr>"] True
      by (simp add: frame_return_def tops cont c dst)
  next
    case False
    let ?wanted = "unat ?nr - 1" let ?n = "min nret ?wanted"
    let ?s1 = "take dst (th_stack th) @ take ?n (drop values_base (th_stack th)) @ drop (dst + ?n) (th_stack th)"
    have s1: "copy_up dst values_base ?n (th_stack th1) = Some ?s1"
      using copy_up_eq [of dst values_base ?n "th_stack th1"] dv len by (simp add: c)
    let ?ys = "take ?n (drop values_base (th_stack th))"
    have ly: "length ?ys = ?n" using len by simp
    have ld: "length (take dst (th_stack th)) = dst" using fit by simp
    have del: "delivered ?nr ?vs = ?ys @ replicate (?wanted - ?n) VNil"
      using False lvs by (simp add: delivered_def min.commute)
    have kk: "k = ?n + (?wanted - ?n)" unfolding k_def del using ly by simp
    have "dst + ?n \<le> length (th_stack th)" using kfit kk by linarith
    then have l1: "length ?s1 = length (th_stack th)" using ly ld by simp
    have t1: "take (dst + ?n) ?s1 = take dst (th_stack th) @ ?ys" using ly ld by simp
    have k2: "dst + ?n + (?wanted - ?n) = dst + k" using kk by simp
    have "dst + ?n \<le> dst + k" using kk by simp
    from drop_window [OF ld ly this]
    have d1: "drop (dst + ?n + (?wanted - ?n)) ?s1 = drop (dst + k) (th_stack th)"
      unfolding k2 .
    have "dst + ?n + (?wanted - ?n) \<le> length ?s1" unfolding l1 k2 by (rule kfit)
    from fill_nil_eq [OF this] have "fill_nil (dst + ?n) (?wanted - ?n) ?s1 = Some s'"
      unfolding t1 d1 s'_def del by simp
    then show ?thesis
      using that [of "th1\<lparr>th_stack := s'\<rparr>"] False s1
      by (simp add: frame_return_def tops cont c dst Let_def)
  qed
  have "read_upvalue w' th' uv = read_upvalue w th uv"
    if uv: "uv < w_next_upval w" and no: "\<not> (\<exists>i. open_at w th uv i \<and> dst \<le> i \<and> i < lf_base f)" for uv
  proof -
    have base: "read_upvalue w' (th1\<lparr>th_stack := th_stack th\<rparr>) uv = read_upvalue w th uv"
      by (rule r [OF uv]) simp
    show ?thesis
    proof (cases "w_upvals w' uv")
      case (UClosed v)
      then show ?thesis using base by (simp add: read_upvalue_def)
    next
      case (UOpen t i)
      show ?thesis
      proof (cases "t = th_handle th")
        case False
        then show ?thesis using base UOpen c(4) th'(3) by (simp add: read_upvalue_def)
      next
        case True
        then have "open_at w' th1 uv i" using UOpen c(4) by (simp add: open_at_def)
        then have "open_at w th uv i \<and> i < lf_base f" using o [OF uv] by blast
        then have "i < dst" using no not_le by blast
        then have "idx s' i = idx (th_stack th) i" using kfit by (simp add: idx_def s'_def nth_append)
        then show ?thesis using base UOpen True c(4) th'(1,3) by (simp add: read_upvalue_def)
      qed
    qed
  qed
  then show ?thesis
    using that [OF e th'(2)] th'(1,4) kfit c(5) by (simp add: s'_def k_def)
qed

section \<open>Varargs\<close>

lemma copy_within_eq:
  assumes "src + n \<le> length s" and "dst + n \<le> length s"
  obtains s' where "copy_within s src n dst = Some s'" and "length s' = length s"
    and "\<And>k. k < n \<Longrightarrow> s' ! (dst + k) = s ! (src + k)"
    and "\<And>k. k < dst \<Longrightarrow> s' ! k = s ! k" and "\<And>k. dst + n \<le> k \<Longrightarrow> k < length s \<Longrightarrow> s' ! k = s ! k"
proof -
  let ?s = "take dst s @ take n (drop src s) @ drop (dst + n) s"
  have l: "length (take dst s) = dst" "length (take n (drop src s)) = n" using assms by simp_all
  show ?thesis
  proof (rule that [of ?s])
    show "copy_within s src n dst = Some ?s" using assms by (simp add: copy_within_def)
    show "length ?s = length s" using assms by simp
    show "?s ! (dst + k) = s ! (src + k)" if "k < n" for k
      using that l assms by (simp add: nth_append)
    show "?s ! k = s ! k" if "k < dst" for k using that assms by (simp add: nth_append)
    show "?s ! k = s ! k" if "dst + n \<le> k" "k < length s" for k
      using that l assms by (auto simp: nth_append)
  qed
qed

lemma rotate_left_eq:
  assumes "start + (n + p) \<le> length s"
  obtains s' where "rotate_left s start (n + p) p = Some s'" and "length s' = length s"
    and "\<And>k. k < n \<Longrightarrow> s' ! (start + k) = s ! (start + p + k)"
    and "\<And>k. k < p \<Longrightarrow> s' ! (start + n + k) = s ! (start + k)"
    and "\<And>k. k < start \<Longrightarrow> s' ! k = s ! k"
proof -
  let ?win = "take (n + p) (drop start s)"
  let ?s = "take start s @ drop p ?win @ take p ?win @ drop (start + (n + p)) s"
  have l: "length (take start s) = start" "length (drop p ?win) = n" "length (take p ?win) = p"
    using assms by simp_all
  show ?thesis
  proof (rule that [of ?s])
    show "rotate_left s start (n + p) p = Some ?s" using assms by (simp add: rotate_left_def Let_def)
    show "length ?s = length s" using assms by simp
    show "?s ! (start + k) = s ! (start + p + k)" if "k < n" for k
      using that l assms by (simp add: nth_append ac_simps)
    show "?s ! (start + n + k) = s ! (start + k)" if "k < p" for k
      using that l assms by (simp add: nth_append)
    show "?s ! k = s ! k" if "k < start" for k using that assms by (simp add: nth_append)
  qed
qed

text \<open>Entry of a vararg function whose varargs stay below the base: the fixed parameters are the
  first registers, the extra arguments lie just below, and the base moved past them.\<close>

lemma op_varargprep_spec:
  assumes fr: "th_frames (m_thread m) = FLua f # fs" and n: "lf_num_extras f = n"
    and p: "unat (pr_num_params (proto_of (m_world m) (lf_closure f))) = p"
    and below: "\<not> pr_needs_vararg_table (proto_of (m_world m) (lf_closure f))"
    and len: "lf_base f + n + p \<le> length (th_stack (m_thread m))"
    and regs: "m_regs m = lf_base f"
  obtains m' where "op_varargprep num_fixed m = Some (Dispatch m')"
    and "m_world m' = m_world m" and "m_ip m' = m_ip m" and "m_regs m' = lf_base f + n"
    and "th_frames (m_thread m') = FLua (f\<lparr>lf_base := lf_base f + n\<rparr>) # fs"
    and "th_handle (m_thread m') = th_handle (m_thread m)"
    and "length (th_stack (m_thread m)) \<le> length (th_stack (m_thread m'))"
    and "0 < n \<Longrightarrow> lf_base f + n + unat (pr_max_stack_size (proto_of (m_world m) (lf_closure f)))
           \<le> length (th_stack (m_thread m'))"
    and "\<And>k. k < p \<Longrightarrow> th_stack (m_thread m') ! (lf_base f + n + k) = th_stack (m_thread m) ! (lf_base f + k)"
    and "\<And>k. k < n \<Longrightarrow> th_stack (m_thread m') ! (lf_base f + k) = th_stack (m_thread m) ! (lf_base f + p + k)"
    and "\<And>k. k < lf_base f \<Longrightarrow> th_stack (m_thread m') ! k = th_stack (m_thread m) ! k"
proof (cases "n = 0")
  case True
  have fb: "f\<lparr>lf_base := lf_base f\<rparr> = f" by simp
  have "op_varargprep num_fixed m = Some (Dispatch m)"
    using fr n below True by (simp add: op_varargprep_def top_lua_def Let_def dispatch_def)
  then show ?thesis by (rule that) (use fr regs True fb in simp_all)
next
  case False
  let ?s = "th_stack (m_thread m)" and ?mx = "unat (pr_max_stack_size (proto_of (m_world m) (lf_closure f)))"
  have len': "lf_base f + (n + p) \<le> length ?s" using len by simp
  obtain s' where s': "rotate_left ?s (lf_base f) (n + p) p = Some s'" "length s' = length ?s"
    "\<And>k. k < n \<Longrightarrow> s' ! (lf_base f + k) = ?s ! (lf_base f + p + k)"
    "\<And>k. k < p \<Longrightarrow> s' ! (lf_base f + n + k) = ?s ! (lf_base f + k)"
    "\<And>k. k < lf_base f \<Longrightarrow> s' ! k = ?s ! k"
    by (rule rotate_left_eq [OF len']) blast
  let ?g = "grow s' (lf_base f + n + ?mx)"
  let ?th = "upd_top_lua (\<lambda>f. f\<lparr>lf_base := lf_base f + n\<rparr>) ((m_thread m)\<lparr>th_stack := ?g\<rparr>)"
  let ?th' = "(m_thread m)\<lparr>th_stack := ?g, th_frames := FLua (f\<lparr>lf_base := lf_base f + n\<rparr>) # fs\<rparr>"
  have "op_varargprep num_fixed m = Some (Dispatch (m\<lparr>m_thread := ?th', m_regs := lf_base f + n\<rparr>))"
    using fr n below False s'(1) p
    by (simp add: op_varargprep_def top_lua_def Let_def dispatch_def upd_top_lua_def add.commute)
  then show ?thesis
  proof (rule that, goal_cases)
    case (8 k)
    then show ?case using s'(2) s'(4) [of k] len by (simp add: nth_grow)
  next
    case (9 k)
    then show ?case using s'(2) s'(3) [of k] len by (simp add: nth_grow)
  next
    case (10 k)
    then show ?case using s'(2) s'(5) [of k] len by (simp add: nth_grow)
  qed (use s'(2) in \<open>simp_all add: length_grow\<close>)
qed

lemma add_u8_Some: "unat a + n < 256 \<Longrightarrow> add_u8 a n = Some (a + word_of_nat n) \<and> unat (a + word_of_nat n) = unat a + n"
  by (simp add: add_u8_def unat_word_ariths unsigned_of_nat take_bit_nat_eq_self)

lemma nil_regs_eq:
  assumes "unat dst + i + n \<le> 256"
  shows "nil_regs dst i n m = map_option (\<lambda>s. m\<lparr>m_thread := (m_thread m)\<lparr>th_stack := s\<rparr>\<rparr>)
    (fill_nil (m_regs m + unat dst + i) n (th_stack (m_thread m)))"
  using assms
proof (induction n arbitrary: i m)
  case (Suc n)
  have r: "add_u8 dst i = Some (dst + word_of_nat i)" "unat (dst + word_of_nat i) = unat dst + i"
    using add_u8_Some [of dst i] Suc.prems by simp_all
  show ?case
  proof (cases "idx_set (th_stack (m_thread m)) (m_regs m + (unat dst + i)) VNil")
    case None
    then show ?thesis by (simp add: r set_reg_def set_reg_at_def add.assoc)
  next
    case (Some s)
    then show ?thesis
      using Suc.IH [of "i + 1" "m\<lparr>m_thread := (m_thread m)\<lparr>th_stack := s\<rparr>\<rparr>"] Suc.prems
      by (simp add: r set_reg_def set_reg_at_def add.assoc)
  qed
qed simp

text \<open>The extra arguments of a frame, the \<open>...\<close> of its function.\<close>

definition frame_extras :: "thread_state \<Rightarrow> lua_frame \<Rightarrow> lua_value list" where
  "frame_extras th f = take (lf_num_extras f) (drop (lf_base f - lf_num_extras f) (th_stack th))"

lemma length_frame_extras:
  "lf_num_extras f \<le> lf_base f \<Longrightarrow> lf_base f \<le> length (th_stack th) \<Longrightarrow>
     length (frame_extras th f) = lf_num_extras f"
  by (simp add: frame_extras_def)

lemma op_vararg_multres:
  assumes fr: "top_lua (m_thread m) = Some f"
    and below: "\<not> pr_needs_vararg_table (proto_of (m_world m) (lf_closure f))"
    and n: "lf_num_extras f \<le> lf_base f" and b: "lf_base f \<le> length (th_stack (m_thread m))"
    and regs: "m_regs m = lf_base f"
  obtains m' where "op_vararg dst 0 m = Some (Dispatch m')"
    and "th_top (m_thread m') = lf_base f + unat dst + lf_num_extras f"
    and "take (lf_num_extras f) (drop (lf_base f + unat dst) (th_stack (m_thread m')))
      = frame_extras (m_thread m) f"
    and "\<And>k. k < lf_base f + unat dst \<Longrightarrow> k < length (th_stack (m_thread m)) \<Longrightarrow>
      th_stack (m_thread m') ! k = th_stack (m_thread m) ! k"
    and "m_regs m' = lf_base f" and "m_world m' = m_world m"
proof -
  let ?s = "th_stack (m_thread m)" and ?n = "lf_num_extras f" and ?t = "lf_base f + unat dst"
  let ?g = "if length ?s < ?t + ?n then resize ?s (?t + ?n) VNil else ?s"
  have g: "length ?g = max (length ?s) (?t + ?n)" by simp
  have gn: "?g ! k = ?s ! k" if "k < length ?s" for k using that by (simp add: nth_resize)
  have sub: "sub_nat (lf_base f) ?n = Some (lf_base f - ?n)" using n by (simp add: sub_nat_def)
  have len: "lf_base f - ?n + ?n \<le> length ?g" "?t + ?n \<le> length ?g" using n b g by auto
  obtain s' where s': "copy_within ?g (lf_base f - ?n) ?n ?t = Some s'" "length s' = length ?g"
    "\<And>k. k < ?n \<Longrightarrow> s' ! (?t + k) = ?g ! (lf_base f - ?n + k)"
    "\<And>k. k < ?t \<Longrightarrow> s' ! k = ?g ! k"
    by (rule copy_within_eq [OF len]) blast
  define s2 where "s2 = (if 0 < ?n then s' else ?g)"
  have e: "op_vararg dst 0 m = Some (Dispatch
      (m\<lparr>m_thread := (m_thread m)\<lparr>th_stack := s2, th_top := ?t + ?n\<rparr>, m_regs := lf_base f\<rparr>))"
    using s'(1) fr below sub regs
    by (cases "0 < ?n"; cases "length ?s < ?t + ?n")
      (simp_all add: op_vararg_def Let_def dispatch_def s2_def)
  have l2: "length s2 = length ?g" using s'(2) by (simp add: s2_def)
  have "take ?n (drop ?t s2) = frame_extras (m_thread m) f"
  proof (rule nth_equalityI)
    show "length (take ?n (drop ?t s2)) = length (frame_extras (m_thread m) f)"
      using l2 g len n b by (simp add: length_frame_extras)
    fix k assume "k < length (take ?n (drop ?t s2))"
    then have k: "k < ?n" by simp
    have "take ?n (drop ?t s2) ! k = s2 ! (?t + k)" using k l2 len by simp
    also have "\<dots> = ?g ! (lf_base f - ?n + k)" using k s'(3) by (simp add: s2_def)
    also have "\<dots> = ?s ! (lf_base f - ?n + k)" using k n b by (intro gn) simp
    also have "\<dots> = frame_extras (m_thread m) f ! k" using k n b by (simp add: frame_extras_def)
    finally show "take ?n (drop ?t s2) ! k = frame_extras (m_thread m) f ! k" .
  qed
  then show ?thesis
    by (intro that [OF e]) (use s'(4) gn in \<open>auto simp: s2_def\<close>)
qed

lemma op_varargget_int:
  assumes fr: "top_lua (m_thread m) = Some f"
    and n: "lf_num_extras f \<le> lf_base f" and b: "lf_base f \<le> length (th_stack (m_thread m))"
    and key: "reg m key = Some v" and k: "integral_key v = Some i"
  shows "op_varargget dst base key m = store_dispatch m dst
    (if 1 \<le> sint i \<and> nat (sint i) \<le> lf_num_extras f
     then frame_extras (m_thread m) f ! (nat (sint i) - 1) else VNil)"
proof (cases "1 \<le> sint i \<and> nat (sint i) \<le> lf_num_extras f")
  case True
  then have one: "1 \<le> nat (sint i)" by linarith
  then have "lf_base f - lf_num_extras f + nat (sint i) - 1
      = lf_base f - lf_num_extras f + (nat (sint i) - 1)" by simp
  moreover have "lf_base f - lf_num_extras f + (nat (sint i) - 1) < length (th_stack (m_thread m))"
    using True n b one by linarith
  moreover have "frame_extras (m_thread m) f ! (nat (sint i) - 1)
      = th_stack (m_thread m) ! (lf_base f - lf_num_extras f + (nat (sint i) - 1))"
    unfolding frame_extras_def using True one n b by (subst nth_take) (linarith, simp)
  ultimately show ?thesis
    using True fr n key k by (simp add: op_varargget_def sub_nat_def Let_def idx_def)
next
  case False
  then show ?thesis using fr n key k by (auto simp: op_varargget_def sub_nat_def Let_def)
qed

section \<open>Numeric loops\<close>

text \<open>
  The counter update of FORLOOP, up to a limit at least one step away from the end of the 64-bit range.
\<close>

lemma sint_add_i64:
  "i64_min \<le> sint a + sint b \<Longrightarrow> sint a + sint b \<le> i64_max \<Longrightarrow> sint (a + b :: i64) = sint a + sint b"
  using sint_of_int_i64 [of "sint a + sint b"] by simp

lemma for_next_up:
  assumes "0 < sint s" and "i64_le i lim" and "sint lim + sint s \<le> i64_max"
  shows "for_next (VInt i) (VInt lim) (VInt s) =
    (if sint i + sint s \<le> sint lim then Some (VInt (i + s)) else None)"
    and "sint (i + s) = sint i + sint s"
proof -
  have "sint i + sint s \<le> i64_max" "i64_min \<le> sint i + sint s"
    using assms sint_i64_range(1) [of i] by (auto simp: i64_le_def)
  then show "sint (i + s) = sint i + sint s" by (intro sint_add_i64)
  then show "for_next (VInt i) (VInt lim) (VInt s) =
    (if sint i + sint s \<le> sint lim then Some (VInt (i + s)) else None)"
    using assms by (simp add: for_next_def i64_lt_def i64_le_def Let_def)
qed

lemma for_next_down:
  assumes "sint s \<le> 0" and "i64_le lim i" and "i64_min \<le> sint lim + sint s"
  shows "for_next (VInt i) (VInt lim) (VInt s) =
    (if sint lim \<le> sint i + sint s then Some (VInt (i + s)) else None)"
    and "sint (i + s) = sint i + sint s"
proof -
  have "sint i + sint s \<le> i64_max" "i64_min \<le> sint i + sint s"
    using assms sint_i64_range(2) [of i] by (auto simp: i64_le_def)
  then show "sint (i + s) = sint i + sint s" by (intro sint_add_i64)
  then show "for_next (VInt i) (VInt lim) (VInt s) =
    (if sint lim \<le> sint i + sint s then Some (VInt (i + s)) else None)"
    using assms by (simp add: for_next_def i64_lt_def i64_le_def Let_def)
qed

text \<open>An upper limit of \<open>maxinteger\<close>: every counter satisfies the test.\<close>

lemma for_next_max:
  "for_next (VInt i) (VInt (word_of_int i64_max)) (VInt 1) = Some (VInt (i + 1))"
proof -
  have "i64_le x (word_of_int i64_max)" for x :: i64
    using sint_i64_range(2) [of x] by (simp add: i64_le_def sint_of_int_i64)
  then show ?thesis by (simp add: for_next_def i64_lt_def Let_def)
qed

end
