(* ===== verification/HandlerLemmas.thy ===== *)
theory HandlerLemmas
  imports CallLemmas
begin

text \<open>
  Table access through the handlers: the uncached read against the rule of the reference manual, and the inline-cached
  handlers agree with the uncached ones as long as the caches of a prototype are valid, which
  fills and heap writes preserve.
\<close>

section \<open>The uncached read\<close>

lemma table_get_chain_loop:
  assumes inv: "heap_inv h" and t: "t < h_next_table h"
  shows "table_get_chain h t k = walk_index_loop (Suc MAX_TAG_LOOP) h r (VTable t) k"
proof -
  have get: "raw_get h t k = Some (contents h t (key_class k))" by (rule raw_get_contents [OF inv t])
  show ?thesis
  proof (cases "contents h t (key_class k) = VNil \<and> meta_of h t mm_index \<noteq> VNil")
    case True
    then obtain m where m: "table_metatable h t = Some m"
      using has_mm_metatable [OF inv t mm_index_bit] table_has_mm_meta [OF inv t mm_index_bit] by auto
    then show ?thesis
      using True get raw_get_meta [OF inv t m] table_has_mm_meta [OF inv t mm_index_bit]
      by (simp add: table_get_chain_def walk_index_chain_def walk_index_Suc [OF inv t])
  next
    case False
    then show ?thesis
      using get table_has_mm_meta [OF inv t mm_index_bit]
      by (auto simp: table_get_chain_def walk_index_Suc [OF inv t])
  qed
qed

lemma table_get_chain_complete:
  assumes "heap_inv h" and "refs_ok h" and "t < h_next_table h"
    and "index_walk h k n r (VTable t) res" and "n \<le> MAX_TAG_LOOP"
  shows "table_get_chain h t k = Some res"
  using walk_index_complete [OF assms(1,2,4), of "Suc MAX_TAG_LOOP"] assms(3,5)
  by (simp add: table_get_chain_loop [OF assms(1,3), of k r] value_ok_def)

lemma table_get_chain_sound:
  assumes "heap_inv h" and "refs_ok h" and "t < h_next_table h"
    and "table_get_chain h t k = Some res" and "res \<noteq> Exhausted"
  shows "\<exists>n. index_walk h k n r (VTable t) res"
  using walk_index_sound [OF assms(1,2), of "Suc MAX_TAG_LOOP" r "VTable t" k res] assms
  by (auto simp: table_get_chain_loop [OF assms(1,3), of k r] value_ok_def)

lemma table_get_chain_total:
  assumes "heap_inv h" and "refs_ok h" and "t < h_next_table h"
  shows "\<exists>res. table_get_chain h t k = Some res"
  using walk_index_total [OF assms(1,2), of "VTable t"] assms(3)
  by (simp add: table_get_chain_loop [OF assms(1,3), of k VNil] value_ok_def)

lemma table_get_chain_direct:
  assumes "heap_inv h" and "t < h_next_table h"
    and "contents h t (key_class k) \<noteq> VNil \<or> \<not> table_has_mm h t bit_INDEX"
  shows "table_get_chain h t k = Some (Resolved (contents h t (key_class k)))"
  using raw_get_contents [OF assms(1,2), of k] assms(3) by (auto simp: table_get_chain_def)

section \<open>The reference manual's rule\<close>

text \<open>
  The events \<open>index\<close> and \<open>newindex\<close> of the reference manual (\<open>lua_manual.of\<close> 585-632), with the
  number of metavalues followed. The access ends at a table that has the key or no metavalue for
  the event; a function is called with the value indexed last; any other metavalue is itself
  indexed, a table or not; a value that is not a table and has no metavalue cannot be indexed.
  \<open>mt\<close> gives the metatables of the values that are not tables.
\<close>

datatype access = Reaches addr | Calls addr lua_value | Unindexable lua_value

definition metavalue :: "heap \<Rightarrow> (lua_value \<Rightarrow> addr option) \<Rightarrow> lua_value \<Rightarrow> bytes \<Rightarrow> lua_value" where
  "metavalue h mt v name =
     (case get_table v of
        Some t \<Rightarrow> meta_of h t name
      | None \<Rightarrow> (case mt v of None \<Rightarrow> VNil | Some m \<Rightarrow> contents h m (CStr name)))"

definition raises_event :: "heap \<Rightarrow> lua_value \<Rightarrow> lua_value \<Rightarrow> bool" where
  "raises_event h k v \<longleftrightarrow> (case get_table v of Some t \<Rightarrow> contents h t (key_class k) = VNil | None \<Rightarrow> True)"

inductive manual_access ::
  "heap \<Rightarrow> (lua_value \<Rightarrow> addr option) \<Rightarrow> bytes \<Rightarrow> lua_value \<Rightarrow> nat \<Rightarrow> lua_value \<Rightarrow> access \<Rightarrow> bool"
  for h :: heap and mt :: "lua_value \<Rightarrow> addr option" and name :: bytes and k :: lua_value where
  ma_present: "\<not> raises_event h k (VTable t) \<Longrightarrow> manual_access h mt name k 0 (VTable t) (Reaches t)"
| ma_plain: "raises_event h k (VTable t) \<Longrightarrow> metavalue h mt (VTable t) name = VNil \<Longrightarrow>
    manual_access h mt name k 0 (VTable t) (Reaches t)"
| ma_error: "get_table v = None \<Longrightarrow> metavalue h mt v name = VNil \<Longrightarrow>
    manual_access h mt name k 0 v (Unindexable v)"
| ma_call: "raises_event h k v \<Longrightarrow> metavalue h mt v name = VFunc f \<Longrightarrow>
    manual_access h mt name k 0 v (Calls f v)"
| ma_again: "raises_event h k v \<Longrightarrow> metavalue h mt v name = w \<Longrightarrow> w \<noteq> VNil \<Longrightarrow> get_function w = None \<Longrightarrow>
    manual_access h mt name k n w a \<Longrightarrow> manual_access h mt name k (Suc n) v a"

text \<open>
  The rule's answer, and only answer, from \<open>v\<close> is \<open>a\<close>; and the case where the rule comes, after
  some steps, to index \<open>w\<close>: from there on it answers what indexing \<open>w\<close> answers.
\<close>

definition answers :: "heap \<Rightarrow> (lua_value \<Rightarrow> addr option) \<Rightarrow> bytes \<Rightarrow> lua_value \<Rightarrow> lua_value \<Rightarrow> access \<Rightarrow> bool" where
  "answers h mt name k v a \<longleftrightarrow> (\<exists>d. \<forall>n b. manual_access h mt name k n v b \<longleftrightarrow> n = d \<and> b = a)"

definition comes_to :: "heap \<Rightarrow> (lua_value \<Rightarrow> addr option) \<Rightarrow> bytes \<Rightarrow> lua_value \<Rightarrow> lua_value \<Rightarrow> lua_value \<Rightarrow> bool" where
  "comes_to h mt name k v w \<longleftrightarrow>
     (\<exists>d. \<forall>n b. manual_access h mt name k n v b \<longleftrightarrow> (\<exists>m. n = Suc d + m \<and> manual_access h mt name k m w b))"

text \<open>
  How the code's answer to a read compares with the rule: a value is the content of the one
  table the rule reaches; a call of a function is the rule's; and a call of any other value is a
  call of what the rule indexes.
\<close>

fun index_agrees ::
  "heap \<Rightarrow> (lua_value \<Rightarrow> addr option) \<Rightarrow> lua_value \<Rightarrow> lua_value \<Rightarrow> index_chain \<Rightarrow> bool" where
  "index_agrees h mt k v (Resolved x) =
     (\<exists>u. answers h mt mm_index k v (Reaches u) \<and> x = contents h u (key_class k))"
| "index_agrees h mt k v (Invoke mm r) =
     (case get_function mm of
        Some f \<Rightarrow> answers h mt mm_index k v (Calls f r)
      | None \<Rightarrow> mm \<noteq> VNil \<and> get_table mm = None \<and> comes_to h mt mm_index k v mm)"
| "index_agrees h mt k v Exhausted =
     (\<forall>n a. manual_access h mt mm_index k n v a \<longrightarrow> MAX_TAG_LOOP \<le> n)"

fun newindex_agrees ::
  "heap \<Rightarrow> (lua_value \<Rightarrow> addr option) \<Rightarrow> lua_value \<Rightarrow> lua_value \<Rightarrow> newindex_chain \<Rightarrow> bool" where
  "newindex_agrees h mt k v (RawSet u) = answers h mt mm_newindex k v (Reaches u)"
| "newindex_agrees h mt k v (NInvoke mm r) =
     (case get_function mm of
        Some f \<Rightarrow> answers h mt mm_newindex k v (Calls f r)
      | None \<Rightarrow> mm \<noteq> VNil \<and> get_table mm = None \<and> comes_to h mt mm_newindex k v mm)"
| "newindex_agrees h mt k v NExhausted =
     (\<forall>n a. manual_access h mt mm_newindex k n v a \<longrightarrow> MAX_TAG_LOOP \<le> n)"

inductive_cases manual_access_0E: "manual_access h mt name k 0 v a"
inductive_cases manual_access_SucE: "manual_access h mt name k (Suc n) v a"

text \<open>One step of the rule, by the metavalue.\<close>

lemma answers_reaches:
  assumes "\<not> raises_event h k (VTable t) \<or> metavalue h mt (VTable t) name = VNil"
  shows "answers h mt name k (VTable t) (Reaches t)"
proof -
  have "manual_access h mt name k n (VTable t) b \<longleftrightarrow> n = 0 \<and> b = Reaches t" for n b
    using assms by (auto intro: ma_present ma_plain elim: manual_access.cases simp: get_table_def)
  then show ?thesis unfolding answers_def by blast
qed

lemma answers_call:
  assumes "raises_event h k v" and "metavalue h mt v name = VFunc f"
  shows "answers h mt name k v (Calls f v)"
proof -
  have "manual_access h mt name k n v b \<longleftrightarrow> n = 0 \<and> b = Calls f v" for n b
    using assms by (auto intro: ma_call elim: manual_access.cases simp: get_function_def)
  then show ?thesis unfolding answers_def by blast
qed

lemma manual_access_step:
  assumes "raises_event h k v" and "metavalue h mt v name = w" and "w \<noteq> VNil" and "get_function w = None"
  shows "manual_access h mt name k n v b \<longleftrightarrow> (\<exists>m. n = Suc m \<and> manual_access h mt name k m w b)"
  using assms by (auto intro: ma_again elim: manual_access.cases simp: get_function_def)

lemma comes_to_step:
  assumes "raises_event h k v" and "metavalue h mt v name = w" and "w \<noteq> VNil" and "get_function w = None"
  shows "comes_to h mt name k v w"
  unfolding comes_to_def by (rule exI [of _ 0]) (simp add: manual_access_step [OF assms])

lemma comes_to_trans:
  assumes "comes_to h mt name k u v" and "comes_to h mt name k v w"
  shows "comes_to h mt name k u w"
proof -
  obtain d e where "\<forall>n b. manual_access h mt name k n u b \<longleftrightarrow> (\<exists>m. n = Suc d + m \<and> manual_access h mt name k m v b)"
    "\<forall>n b. manual_access h mt name k n v b \<longleftrightarrow> (\<exists>m. n = Suc e + m \<and> manual_access h mt name k m w b)"
    using assms unfolding comes_to_def by blast
  then have "\<forall>n b. manual_access h mt name k n u b \<longleftrightarrow> (\<exists>m. n = Suc (d + Suc e) + m \<and> manual_access h mt name k m w b)"
    by (auto simp: add.assoc)
  then show ?thesis unfolding comes_to_def by blast
qed

lemma comes_to_answers:
  assumes "comes_to h mt name k u v" and "answers h mt name k v a"
  shows "answers h mt name k u a"
proof -
  obtain d e where "\<forall>n b. manual_access h mt name k n u b \<longleftrightarrow> (\<exists>m. n = Suc d + m \<and> manual_access h mt name k m v b)"
    "\<forall>n b. manual_access h mt name k n v b \<longleftrightarrow> n = e \<and> b = a"
    using assms unfolding comes_to_def answers_def by blast
  then have "\<forall>n b. manual_access h mt name k n u b \<longleftrightarrow> n = Suc d + e \<and> b = a" by auto
  then show ?thesis unfolding answers_def by blast
qed

lemma metavalue_table [simp]: "metavalue h mt (VTable t) name = meta_of h t name"
  by (simp add: metavalue_def get_table_def)

lemma raises_event_table [simp]: "raises_event h k (VTable t) \<longleftrightarrow> contents h t (key_class k) = VNil"
  by (simp add: raises_event_def get_table_def)

text \<open>A hop of the walk is a step of the rule.\<close>

lemma table_step:
  "contents h t (key_class k) = VNil \<Longrightarrow> meta_of h t name = VTable u \<Longrightarrow>
    comes_to h mt name k (VTable t) (VTable u)"
  by (rule comes_to_step) (simp_all add: get_function_def)

lemma index_agrees_hop:
  assumes "comes_to h mt mm_index k v u" and "index_agrees h mt k u res" and "res \<noteq> Exhausted"
  shows "index_agrees h mt k v res"
  using assms by (cases res) (auto intro: comes_to_answers comes_to_trans split: option.splits)

lemma newindex_agrees_hop:
  assumes "comes_to h mt mm_newindex k v u" and "newindex_agrees h mt k u res" and "res \<noteq> NExhausted"
  shows "newindex_agrees h mt k v res"
  using assms by (cases res) (auto intro: comes_to_answers comes_to_trans split: option.splits)

lemma index_agrees_metavalue:
  assumes "contents h t (key_class k) = VNil" and "mm = meta_of h t mm_index" and "get_table mm = None"
  shows "index_agrees h mt k (VTable t) (if mm = VNil then Resolved VNil else Invoke mm (VTable t))"
  using assms answers_reaches [of h k t mt mm_index] answers_call [of h k "VTable t" mt mm_index]
    comes_to_step [of h k "VTable t" mt mm_index mm]
  by (auto simp: get_function_def split: lua_value.splits)

lemma index_walk_agrees:
  assumes "index_walk h k n r mm res"
  shows "(\<forall>t. mm = VTable t \<longrightarrow> index_agrees h mt k (VTable t) res)
    \<and> (\<forall>t. r = VTable t \<longrightarrow> get_table mm = None \<longrightarrow> contents h t (key_class k) = VNil \<longrightarrow>
         mm = meta_of h t mm_index \<longrightarrow> index_agrees h mt k (VTable t) res)"
  using assms
proof induction
  case (ix_nil r)
  then show ?case using index_agrees_metavalue [of h _ k VNil mt] by (auto simp: get_table_def)
next
  case (ix_call mm r)
  then have "mm \<noteq> VTable t" for t by (auto simp: get_table_def)
  moreover have "index_agrees h mt k (VTable t) (Invoke mm (VTable t))"
    if "contents h t (key_class k) = VNil" "mm = meta_of h t mm_index" for t
    using index_agrees_metavalue [OF that ix_call(2), of mt] ix_call(1) by (simp del: index_agrees.simps)
  ultimately show ?case by blast
next
  case (ix_found t r)
  then show ?case using answers_reaches [of h k t mt mm_index] by (auto simp: get_table_def)
next
  case (ix_hop t n res r)
  have "index_agrees h mt k (VTable t) res"
  proof (cases "get_table (meta_of h t mm_index)")
    case None
    then show ?thesis using ix_hop by auto
  next
    case (Some u)
    then have u: "meta_of h t mm_index = VTable u" by (simp add: getter_Some_iff)
    have "res \<noteq> Exhausted" using ix_hop.hyps(2) by (induction) auto
    then show ?thesis
      using index_agrees_hop [OF table_step [OF ix_hop.hyps(1) u]] ix_hop.IH u by blast
  qed
  then show ?case by (auto simp: get_table_def)
qed

text \<open>A walk cut off by the bound: the rule needs at least that many steps.\<close>

lemma walk_index_exhausted:
  assumes inv: "heap_inv h" and refs: "refs_ok h"
    and "walk_index_loop fuel h r (VTable t) k = Some Exhausted"
    and "t < h_next_table h" and "manual_access h mt mm_index k n (VTable t) a"
  shows "fuel \<le> Suc n"
  using assms(3-5)
proof (induction fuel arbitrary: r t n)
  case (Suc f)
  show ?case
  proof (cases f)
    case f: (Suc g)
    have step: "contents h t (key_class k) = VNil" "meta_of h t mm_index \<noteq> VNil"
      "walk_index_loop f h (VTable t) (meta_of h t mm_index) k = Some Exhausted"
      using Suc.prems(1) by (simp_all add: walk_index_Suc [OF inv Suc.prems(2)] split: if_splits)
    then obtain u where u: "meta_of h t mm_index = VTable u"
      using walk_index_stop [of "meta_of h t mm_index" g h "VTable t" k] f
      by (cases "get_table (meta_of h t mm_index)") (auto simp: getter_Some_iff)
    then obtain m where "n = Suc m" "manual_access h mt mm_index k m (VTable u) a"
      using Suc.prems(3) step(1) manual_access_step [of h k "VTable t" mt mm_index "VTable u" n a]
      by (auto simp: get_function_def)
    then show ?thesis
      using Suc.IH [of "VTable t" u m] step(3) u meta_of_ok [OF inv refs Suc.prems(2), of mm_index]
      by (simp add: value_ok_def)
  qed simp
qed simp

lemma table_get_chain_agrees:
  assumes "heap_inv h" and "refs_ok h" and "t < h_next_table h" and "table_get_chain h t k = Some res"
  shows "index_agrees h mt k (VTable t) res"
proof (cases "res = Exhausted")
  case True
  then show ?thesis
    using walk_index_exhausted [OF assms(1,2) _ assms(3), of "Suc MAX_TAG_LOOP" VNil k mt] assms(4)
    by (auto simp: table_get_chain_loop [OF assms(1,3), of k VNil])
next
  case False
  then show ?thesis
    using table_get_chain_sound [OF assms(1,2,3,4), of VNil] index_walk_agrees by blast
qed

lemma newindex_agrees_metavalue:
  assumes "contents h t (key_class k) = VNil" and "mm = meta_of h t mm_newindex" and "get_table mm = None"
    and "mm \<noteq> VNil"
  shows "newindex_agrees h mt k (VTable t) (NInvoke mm (VTable t))"
  using assms answers_call [of h k "VTable t" mt mm_newindex] comes_to_step [of h k "VTable t" mt mm_newindex mm]
  by (auto simp: get_function_def split: lua_value.splits)

lemma newindex_walk_agrees:
  assumes "newindex_walk h k n t res"
  shows "newindex_agrees h mt k (VTable t) res"
  using assms
proof induction
  case (nx_hop t u n res)
  have "res \<noteq> NExhausted" using nx_hop.hyps(3) by induction auto
  then show ?case using newindex_agrees_hop [OF table_step [OF nx_hop.hyps(1,2)]] nx_hop.IH by blast
qed (simp_all add: newindex_agrees_metavalue answers_reaches del: newindex_agrees.simps(2))

lemma walk_newindex_exhausted:
  assumes inv: "heap_inv h" and refs: "refs_ok h"
    and "walk_newindex_loop fuel h t k = Some NExhausted"
    and "t < h_next_table h" and "manual_access h mt mm_newindex k n (VTable t) a"
  shows "fuel \<le> n"
  using assms(3-5)
proof (induction fuel arbitrary: t n)
  case (Suc f)
  obtain u where u: "contents h t (key_class k) = VNil" "meta_of h t mm_newindex = VTable u"
    "walk_newindex_loop f h u k = Some NExhausted"
    using Suc.prems(1) by (auto simp: walk_newindex_Suc [OF inv Suc.prems(2)] getter_Some_iff
      split: if_splits option.splits)
  then obtain m where "n = Suc m" "manual_access h mt mm_newindex k m (VTable u) a"
    using Suc.prems(3) manual_access_step [of h k "VTable t" mt mm_newindex "VTable u" n a]
    by (auto simp: get_function_def)
  then show ?case
    using Suc.IH [of u m] u meta_of_ok [OF inv refs Suc.prems(2), of mm_newindex]
    by (simp add: value_ok_def)
qed simp

lemma walk_newindex_agrees:
  assumes "heap_inv h" and "refs_ok h" and "t < h_next_table h" and "walk_newindex_chain h t k = Some res"
  shows "newindex_agrees h mt k (VTable t) res"
proof (cases "res = NExhausted")
  case True
  then show ?thesis
    using walk_newindex_exhausted [OF assms(1,2) _ assms(3), of MAX_TAG_LOOP k mt] assms(4)
    by (auto simp: walk_newindex_chain_def)
next
  case False
  then show ?thesis
    using walk_newindex_sound [OF assms(1,2) _ False assms(3)] assms(4) newindex_walk_agrees
    by (fastforce simp: walk_newindex_chain_def)
qed

text \<open>
  Where they part: a userdata as \<open>__index\<close> whose own \<open>__index\<close> is a table that has the key. The
  rule reads the key there; the code calls the userdata.
\<close>

lemma userdata_metavalue_called:
  assumes "heap_inv h" and "refs_ok h" and "t < h_next_table h"
    and "contents h t (key_class k) = VNil" and "meta_of h t mm_index = VUserdata u"
    and "mt (VUserdata u) = Some m" and "contents h m (CStr mm_index) = VTable v"
    and "contents h v (key_class k) \<noteq> VNil"
  shows "table_get_chain h t k = Some (Invoke (VUserdata u) (VTable t))"
    and "answers h mt mm_index k (VTable t) (Reaches v)"
proof -
  have "index_walk h k (Suc 0) VNil (VTable t) (Invoke (VUserdata u) (VTable t))"
    using assms by (intro ix_hop ix_call) (auto simp: get_table_def intro: ix_call)
  then show "table_get_chain h t k = Some (Invoke (VUserdata u) (VTable t))"
    using table_get_chain_complete [OF assms(1-3)] by (fastforce simp: MAX_TAG_LOOP_def)
  have "comes_to h mt mm_index k (VTable t) (VUserdata u)"
    using assms by (intro comes_to_step) (auto simp: get_function_def)
  moreover have "comes_to h mt mm_index k (VUserdata u) (VTable v)"
    using assms by (intro comes_to_step) (auto simp: get_function_def metavalue_def raises_event_def get_table_def)
  moreover have "answers h mt mm_index k (VTable v) (Reaches v)"
    using assms by (intro answers_reaches) simp
  ultimately show "answers h mt mm_index k (VTable t) (Reaches v)" by (blast intro: comes_to_answers)
qed

section \<open>Cached and uncached access agree\<close>

lemma op_getfield_uncached:
  assumes inv: "heap_inv (w_heap (m_world m))" and t: "t < h_next_table (w_heap (m_world m))"
    and recv: "reg m table = Some (VTable t)" and key: "const_at m key_idx = Some (VStr k)"
    and cache: "read_ic m ic_idx = Some c" "ic_valid (w_heap (m_world m)) k c"
  shows "\<exists>m'. (m' = m \<or> fill_ic_for_constant_key m ic_idx t (VStr k) = Some m')
    \<and> op_getfield rt dst table ic_idx key_idx m = table_get_slow_body rt m' t (VStr k) dst"
proof -
  let ?v = "contents (w_heap (m_world m)) t (CStr k)"
  consider (none) "ic_probe (w_heap (m_world m)) c t bit_INDEX = Some None"
    | (hit) slot where "ic_probe (w_heap (m_world m)) c t bit_INDEX = Some (Some (slot, ?v))"
      "?v \<noteq> VNil \<or> \<not> table_has_mm (w_heap (m_world m)) t bit_INDEX"
    using ic_probe_sound [OF inv t cache(2), of bit_INDEX] by blast
  then show ?thesis
  proof cases
  case none
  have "fill_ic_for_constant_key m ic_idx t (VStr k) \<noteq> None"
    using cache(1) by (auto simp: fill_ic_for_constant_key_def fill_ic_def read_ic_def Let_def
        split: option.splits Option.bind_splits)
  then obtain m' where "fill_ic_for_constant_key m ic_idx t (VStr k) = Some m'" by auto
  then show ?thesis
    using none recv key cache(1) by (auto simp: op_getfield_def getfield_slow_def)
  next
  case (hit slot)
  have "table_get_chain (w_heap (m_world m)) t (VStr k) = Some (Resolved ?v)"
    using table_get_chain_direct [OF inv t, of "VStr k"] hit(2) by simp
  then show ?thesis
    using hit(1) recv cache(1)
    by (intro exI [of _ m]) (simp add: op_getfield_def table_get_slow_body_def finish_get_def)
  qed
qed

text \<open>A cached write and the uncached one both write the key in the sense of \<open>write_spec\<close>.\<close>

lemma table_set_direct:
  assumes inv: "heap_inv (w_heap (m_world m))" and t: "t < h_next_table (w_heap (m_world m))"
    and d: "contents (w_heap (m_world m)) t (CStr k) \<noteq> VNil
      \<or> \<not> table_has_mm (w_heap (m_world m)) t bit_NEWINDEX"
  shows "\<exists>h. table_set_slow_body rt m t (VStr k) v = Some (Dispatch (set_heap m h))
    \<and> write_spec (w_heap (m_world m)) t (CStr k) v h"
proof -
  have "walk_newindex_chain (w_heap (m_world m)) t (VStr k) = Some (RawSet t)"
    using d table_has_mm_meta [OF inv t mm_newindex_bit]
    by (auto simp: walk_newindex_chain_def MAX_TAG_LOOP_def numeral_eq_Suc walk_newindex_Suc [OF inv t])
  moreover obtain h where "raw_set (w_heap (m_world m)) t (VStr k) v = Some h"
    "write_spec (w_heap (m_world m)) t (CStr k) v h"
    using set_string_key_spec [OF inv t, of k v] by (auto simp: raw_set_def)
  ultimately show ?thesis
    by (intro exI [of _ h]) (simp add: table_set_slow_body_def dispatch_def)
qed

lemma op_setfield_uncached:
  assumes inv: "heap_inv (w_heap (m_world m))" and t: "t < h_next_table (w_heap (m_world m))"
    and recv: "reg m table = Some (VTable t)" and key: "const_at m key_idx = Some (VStr k)"
    and src: "reg m src = Some v"
    and cache: "read_ic m ic_idx = Some c" "ic_valid (w_heap (m_world m)) k c"
  shows "(\<exists>m'. fill_ic_for_constant_key m ic_idx t (VStr k) = Some m'
      \<and> op_setfield rt src table ic_idx key_idx m = table_set_slow_body rt m' t (VStr k) v)
    \<or> (\<exists>h h'. op_setfield rt src table ic_idx key_idx m = Some (Dispatch (set_heap m h))
      \<and> table_set_slow_body rt m t (VStr k) v = Some (Dispatch (set_heap m h'))
      \<and> write_spec (w_heap (m_world m)) t (CStr k) v h
      \<and> write_spec (w_heap (m_world m)) t (CStr k) v h')"
proof -
  let ?h = "w_heap (m_world m)" let ?v = "contents ?h t (CStr k)"
  consider (none) "ic_probe ?h c t bit_NEWINDEX = Some None"
    | (hit) slot where "ic_probe ?h c t bit_NEWINDEX = Some (Some (slot, ?v))"
      "find_slot ?h (ts_shape (h_tables ?h t)) k = Some slot"
      "?v \<noteq> VNil \<or> \<not> table_has_mm ?h t bit_NEWINDEX"
    using ic_probe_sound [OF inv t cache(2), of bit_NEWINDEX] by blast
  then show ?thesis
  proof cases
    case none
    have "fill_ic_for_constant_key m ic_idx t (VStr k) \<noteq> None"
      using cache(1) by (auto simp: fill_ic_for_constant_key_def fill_ic_def read_ic_def Let_def
          split: option.splits Option.bind_splits)
    then obtain m' where m': "fill_ic_for_constant_key m ic_idx t (VStr k) = Some m'" by auto
    then have "op_setfield rt src table ic_idx key_idx m = table_set_slow_body rt m' t (VStr k) v"
      using none recv key src cache(1) by (simp add: op_setfield_def setfield_slow_def)
    then show ?thesis using m' by blast
  next
    case (hit slot)
    obtain h where h: "ic_store ?h t slot (VStr k) v = Some h" "write_spec ?h t (CStr k) v h"
      using ic_store_spec [OF inv t hit(2)] by blast
    then have "op_setfield rt src table ic_idx key_idx m = Some (Dispatch (set_heap m h))"
      using hit(1) recv key src cache(1) by (simp add: op_setfield_def dispatch_def)
    then show ?thesis using h(2) table_set_direct [OF inv t hit(3)] by blast
  qed
qed

section \<open>The caches of a prototype\<close>

definition ic_site :: "instruction \<Rightarrow> (u16 \<times> u16) option" where
  "ic_site i = (case i of
      GETTABUP _ _ ic key \<Rightarrow> Some (ic, key)
    | SETTABUP _ _ ic key \<Rightarrow> Some (ic, key)
    | GETFIELD _ _ ic key \<Rightarrow> Some (ic, key)
    | SETFIELD _ _ ic key \<Rightarrow> Some (ic, key)
    | _ \<Rightarrow> None)"

text \<open>What the compiler's one-slot-per-site allocation gives, and the validity of each entry.\<close>

definition sites_ok :: "prototype \<Rightarrow> bool" where
  "sites_ok p \<longleftrightarrow>
     (\<forall>i \<in> set (pr_code p). \<forall>ic key. ic_site i = Some (ic, key) \<longrightarrow>
        unat ic < length (pr_ic_table p) \<and> (\<exists>k. idx (pr_constants p) (unat key) = Some (VStr k)))
   \<and> (\<forall>i \<in> set (pr_code p). \<forall>j \<in> set (pr_code p). \<forall>ic key key'.
        ic_site i = Some (ic, key) \<longrightarrow> ic_site j = Some (ic, key') \<longrightarrow> key = key')"

definition ics_ok :: "heap \<Rightarrow> prototype \<Rightarrow> bool" where
  "ics_ok h p \<longleftrightarrow> (\<forall>i \<in> set (pr_code p). \<forall>ic key k. ic_site i = Some (ic, key) \<longrightarrow>
     idx (pr_constants p) (unat key) = Some (VStr k) \<longrightarrow> ic_valid h k (pr_ic_table p ! unat ic))"

lemma ics_ok_extend: "ics_ok h p \<Longrightarrow> layouts_extend h h' \<Longrightarrow> ics_ok h' p"
  unfolding ics_ok_def by (blast intro: ic_valid_extend)

lemma fill_ic_ok:
  assumes inv: "heap_inv (w_heap (m_world m))" and t: "t < h_next_table (w_heap (m_world m))"
    and top: "top_lua (m_thread m) = Some f" and p: "w_protos (m_world m) (lc_proto (lf_closure f)) = p"
    and sites: "sites_ok p" and ok: "ics_ok (w_heap (m_world m)) p"
    and i: "i \<in> set (pr_code p)" "ic_site i = Some (ic, key)"
    and k: "idx (pr_constants p) (unat key) = Some (VStr k)"
    and fill: "fill_ic_for_constant_key m ic t (VStr k) = Some m'"
  shows "ics_ok (w_heap (m_world m')) (w_protos (m_world m') (lc_proto (lf_closure f)))"
    and "sites_ok (w_protos (m_world m') (lc_proto (lf_closure f)))"
    and "m_thread m' = m_thread m" and "w_heap (m_world m') = w_heap (m_world m)"
proof -
  obtain e where e: "ic_entry (w_heap (m_world m)) t (VStr k) = Some e"
    by (auto simp: ic_entry_def Let_def)
  have v: "ic_valid (w_heap (m_world m)) k e" by (rule ic_entry_valid [OF inv t e])
  have len: "unat ic < length (pr_ic_table p)" using sites i unfolding sites_ok_def by blast
  let ?p = "p\<lparr>pr_ic_table := (pr_ic_table p)[unat ic := e]\<rparr>"
  let ?m = "m\<lparr>m_world := (m_world m)\<lparr>w_protos := (w_protos (m_world m))(lc_proto (lf_closure f) := ?p)\<rparr>\<rparr>"
  have "fill_ic_for_constant_key m ic t (VStr k) = Some ?m"
    by (simp only: fill_ic_for_constant_key_def e fill_ic_def top p len Let_def option.case bind.simps
        if_True)
  with fill have m': "m' = ?m" by simp
  show "m_thread m' = m_thread m" "w_heap (m_world m') = w_heap (m_world m)" by (simp_all add: m')
  have "sites_ok ?p = sites_ok p" unfolding sites_ok_def by simp
  then have "sites_ok ?p" using sites by blast
  then show "sites_ok (w_protos (m_world m') (lc_proto (lf_closure f)))" by (simp add: m')
  have "ic_valid (w_heap (m_world m)) k' ((pr_ic_table p)[unat ic := e] ! unat ic')"
    if "j \<in> set (pr_code p)" "ic_site j = Some (ic', key')"
      "idx (pr_constants p) (unat key') = Some (VStr k')" for j ic' key' k'
  proof (cases "ic' = ic")
    case True
    then have "key' = key" using sites i that unfolding sites_ok_def by blast
    then show ?thesis using True v that k len by simp
  next
    case False
    then have "unat ic \<noteq> unat ic'" by (auto simp: word_unat_eq_iff)
    then show ?thesis using ok that by (auto simp: ics_ok_def)
  qed
  then have "ics_ok (w_heap (m_world m)) ?p" by (simp add: ics_ok_def)
  then show "ics_ok (w_heap (m_world m')) (w_protos (m_world m') (lc_proto (lf_closure f)))"
    by (simp add: m')
qed

end
