(* ===== verification/TableStore.thy ===== *)
theory TableStore
  imports CallLemmas
begin

text \<open>
  The interface through which the interpreter writes tables: a store of keyed containers with
  the read-after-write law. Its client is the bulk write that SETLIST and the materialised
  vararg table perform; the tables of theory Tables implement it.
\<close>

locale keyed_store =
  fixes ok :: "'h \<Rightarrow> bool" and valid :: "'h \<Rightarrow> addr \<Rightarrow> bool" and good :: "'k \<Rightarrow> bool"
    and look :: "'h \<Rightarrow> addr \<Rightarrow> 'c \<Rightarrow> 'v" and cls :: "'k \<Rightarrow> 'c"
    and put :: "'h \<Rightarrow> addr \<Rightarrow> 'k \<Rightarrow> 'v \<Rightarrow> 'h option"
  assumes put_total: "ok h \<Longrightarrow> valid h t \<Longrightarrow> good k \<Longrightarrow> \<exists>h'. put h t k v = Some h'"
    and put_ok: "ok h \<Longrightarrow> valid h t \<Longrightarrow> good k \<Longrightarrow> put h t k v = Some h' \<Longrightarrow> ok h' \<and> valid h' = valid h"
    and put_look: "ok h \<Longrightarrow> valid h t \<Longrightarrow> good k \<Longrightarrow> put h t k v = Some h' \<Longrightarrow> valid h u \<Longrightarrow>
      look h' u = (if u = t then (look h t)(cls k := v) else look h u)"
begin

fun put_all :: "'h \<Rightarrow> addr \<Rightarrow> ('k \<times> 'v) list \<Rightarrow> 'h option" where
  "put_all h t [] = Some h"
| "put_all h t ((k, v) # kvs) = Option.bind (put h t k v) (\<lambda>h'. put_all h' t kvs)"

fun written :: "('k \<times> 'v) list \<Rightarrow> ('c \<Rightarrow> 'v) \<Rightarrow> 'c \<Rightarrow> 'v" where
  "written [] g = g"
| "written ((k, v) # kvs) g = written kvs (g(cls k := v))"

lemma put_all_spec:
  assumes "ok h" and "valid h t" and "\<forall>(k, v) \<in> set kvs. good k"
  shows "\<exists>h'. put_all h t kvs = Some h' \<and> ok h' \<and> valid h' = valid h
    \<and> (\<forall>u. valid h u \<longrightarrow> look h' u = (if u = t then written kvs (look h t) else look h u))"
  using assms
proof (induction kvs arbitrary: h)
  case (Cons kv kvs)
  obtain k v where kv: "kv = (k, v)" by force
  have k: "good k" using Cons.prems(3) kv by simp
  obtain h1 where h1: "put h t k v = Some h1" using put_total Cons.prems(1,2) k by blast
  have o1: "ok h1" "valid h1 = valid h" using put_ok [OF Cons.prems(1,2) k h1] by auto
  have l1: "look h1 u = (if u = t then (look h t)(cls k := v) else look h u)" if "valid h u" for u
    by (rule put_look [OF Cons.prems(1,2) k h1 that])
  have "valid h1 t" "\<forall>(k, v) \<in> set kvs. good k" using o1 Cons.prems by auto
  from Cons.IH [OF o1(1) this] obtain h' where
    h': "put_all h1 t kvs = Some h'" "ok h'" "valid h' = valid h1"
    "\<forall>u. valid h1 u \<longrightarrow> look h' u = (if u = t then written kvs (look h1 t) else look h1 u)"
    by blast
  then show ?case using h1 o1 l1 Cons.prems(2) by (simp add: kv)
qed simp

lemma written_other: "c \<notin> cls ` fst ` set kvs \<Longrightarrow> written kvs g c = g c"
  by (induction kvs g rule: written.induct) auto

lemma written_nth:
  assumes "distinct (map (cls \<circ> fst) kvs)" and "i < length kvs"
  shows "written kvs g (cls (fst (kvs ! i))) = snd (kvs ! i)"
  using assms
proof (induction kvs arbitrary: g i)
  case (Cons kv kvs)
  obtain k v where kv: "kv = (k, v)" by force
  show ?case
  proof (cases i)
    case 0
    have "cls k \<notin> cls ` fst ` set kvs" using Cons.prems(1) by (auto simp: kv image_comp)
    then show ?thesis using 0 by (simp add: kv written_other)
  next
    case (Suc j)
    then show ?thesis using Cons by (simp add: kv)
  qed
qed simp

end

text \<open>Keys every table accepts, whatever its size.\<close>

definition good_key :: "lua_value \<Rightarrow> bool" where
  "good_key k \<longleftrightarrow> k \<noteq> VNil \<and> (\<forall>i. array_index k = Some i \<longrightarrow> i \<le> max_vec_len)"

lemma good_settable: "good_key k \<Longrightarrow> settable h t k"
  by (auto simp: good_key_def settable_def)

interpretation lua_tables: keyed_store heap_inv "\<lambda>h t. t < h_next_table h" good_key contents key_class raw_set
proof (unfold_locales, goal_cases)
  case (1 h t k v)
  then show ?case using raw_set_spec good_settable by blast
next
  case (2 h t k v h')
  then show ?case using raw_set_spec [OF 2(1,2) good_settable [OF 2(3)], of v]
    by (auto simp: write_spec_def)
next
  case (3 h t k v h' u)
  then show ?case using raw_set_spec [OF 3(1,2) good_settable [OF 3(3)], of v]
    by (auto simp: write_spec_def)
qed

section \<open>Consecutive integer keys\<close>

definition int_keys :: "int \<Rightarrow> lua_value list \<Rightarrow> (lua_value \<times> lua_value) list" where
  "int_keys first vs = zip (map (\<lambda>i. VInt (word_of_int (first + int i))) [0..<length vs]) vs"

lemma int_keys_Cons: "int_keys first (v # vs) = (VInt (word_of_int first), v) # int_keys (first + 1) vs"
proof -
  have "[0..<length (v # vs)] = 0 # map Suc [0..<length vs]"
    by (simp only: list.size upt_conv_Cons map_Suc_upt) simp
  then show ?thesis by (simp add: int_keys_def o_def algebra_simps del: upt_Suc)
qed

lemma set_sequence_put_all: "set_sequence h t first vs = lua_tables.put_all h t (int_keys first vs)"
proof (induction vs arbitrary: h first)
  case Nil
  then show ?case by (simp add: int_keys_def)
next
  case (Cons v vs)
  then show ?case by (simp add: int_keys_Cons cong: Option.bind_cong)
qed

lemma int_key_class:
  assumes "1 \<le> i" and "i \<le> int max_vec_len"
  shows "key_class (VInt (word_of_int i)) = CArr (nat i - 1)" and "good_key (VInt (word_of_int i))"
proof -
  have "sint (word_of_int i :: i64) = i"
    using assms by (intro sint_of_int_i64) (simp_all add: max_vec_len_def)
  then show "key_class (VInt (word_of_int i)) = CArr (nat i - 1)" "good_key (VInt (word_of_int i))"
    using assms by (auto simp: key_class_VInt good_key_def array_index_def)
qed

lemma set_sequence_spec:
  assumes inv: "heap_inv h" and t: "t < h_next_table h"
    and first: "1 \<le> first" and bound: "first + int (length vs) - 1 \<le> int max_vec_len"
  obtains h' where "set_sequence h t first vs = Some h'" and "heap_inv h'"
    and "h_next_table h' = h_next_table h"
    and "\<And>i. i < length vs \<Longrightarrow> contents h' t (CArr (nat first - 1 + i)) = vs ! i"
    and "\<And>c. c \<notin> (\<lambda>i. CArr (nat first - 1 + i)) ` {..<length vs} \<Longrightarrow> contents h' t c = contents h t c"
    and "\<And>u. u < h_next_table h \<Longrightarrow> u \<noteq> t \<Longrightarrow> contents h' u = contents h u"
proof -
  let ?kvs = "int_keys first vs"
  have len: "length ?kvs = length vs" by (simp add: int_keys_def)
  have nth: "?kvs ! i = (VInt (word_of_int (first + int i)), vs ! i)" if "i < length vs" for i
    using that by (simp add: int_keys_def)
  have cls: "key_class (fst (?kvs ! i)) = CArr (nat first - 1 + i)" and good: "good_key (fst (?kvs ! i))"
    if "i < length vs" for i
    using int_key_class [of "first + int i"] nth [OF that] that first bound
    by (simp_all add: nat_add_distrib)
  have "\<forall>(k, v) \<in> set ?kvs. good_key k"
    using good by (auto simp: in_set_conv_nth len) (metis fst_conv)
  from lua_tables.put_all_spec [OF inv t this] obtain h' where
    h': "set_sequence h t first vs = Some h'" "heap_inv h'"
    "(\<lambda>t. t < h_next_table h') = (\<lambda>t. t < h_next_table h)"
    "\<forall>u. u < h_next_table h \<longrightarrow> contents h' u
       = (if u = t then lua_tables.written ?kvs (contents h t) else contents h u)"
    by (auto simp: set_sequence_put_all)
  have nt: "h_next_table h' = h_next_table h"
    using h'(3) by (metis less_irrefl linorder_neqE_nat)
  have map: "map (key_class \<circ> fst) ?kvs = map (\<lambda>i. CArr (nat first - 1 + i)) [0..<length vs]"
    by (rule nth_equalityI) (simp_all add: len cls)
  have dist: "distinct (map (key_class \<circ> fst) ?kvs)"
    unfolding map by (simp add: distinct_map inj_on_def)
  have img: "key_class ` fst ` set ?kvs = (\<lambda>i. CArr (nat first - 1 + i)) ` {..<length vs}"
    using arg_cong [OF map, of set] by (simp add: image_comp atLeast0LessThan)
  show ?thesis
  proof (rule that [OF h'(1,2) nt])
    show "contents h' t (CArr (nat first - 1 + i)) = vs ! i" if "i < length vs" for i
      using h'(4) t lua_tables.written_nth [OF dist, of i "contents h t"] cls [OF that] nth [OF that]
        that len by simp
    show "contents h' t c = contents h t c" if "c \<notin> (\<lambda>i. CArr (nat first - 1 + i)) ` {..<length vs}" for c
      using h'(4) t lua_tables.written_other [of c ?kvs] that img by simp
    show "contents h' u = contents h u" if "u < h_next_table h" "u \<noteq> t" for u
      using h'(4) that by simp
  qed
qed

end
