(* ===== verification/Boot.thy ===== *)
theory Boot
  imports HandlerLemmas TableStore
begin

text \<open>
  \<open>lua/mod.rs\<close>: the heap \<open>Lua::new\<close> builds, with the two fixed shapes and the
  globals table, and its invariant; and the transition tree followed key by key, which is what
  makes tables filled in the same order share a shape.
\<close>

section \<open>The initial heap\<close>

definition blank_heap :: heap where
  "blank_heap = \<lparr>h_shapes = (\<lambda>_. root_empty_data), h_live = (\<lambda>_. False), h_next_shape = 0,
     h_mts = (\<lambda>_. \<lparr>mc_bits = 0, mc_dict_sentinel = None\<rparr>), h_next_mt = 0,
     h_tables = (\<lambda>_. new_table_state 0), h_next_table = 0,
     h_empty_shape = 0, h_empty_dict_sentinel = 0\<rparr>"

definition lua_new :: "heap \<times> addr" where
  "lua_new =
     (let (h1, empty_shape) = root_empty blank_heap;
          (h2, sentinel) = dict_sentinel h1 None
      in table_new (h2\<lparr>h_empty_shape := empty_shape, h_empty_dict_sentinel := sentinel\<rparr>))"

definition base_heap :: heap where
  "base_heap = blank_heap\<lparr>
     h_shapes := (h_shapes blank_heap)(0 := root_empty_data, 1 := dict_sentinel_data None),
     h_live := (h_live blank_heap)(0 := True, 1 := True), h_next_shape := 2,
     h_empty_shape := 0, h_empty_dict_sentinel := 1\<rparr>"

lemma lua_new_eq: "lua_new = table_new base_heap"
  by (simp add: lua_new_def root_empty_def dict_sentinel_def alloc_shape_def Let_def base_heap_def
      blank_heap_def numeral_2_eq_2)

lemma base_heap_inv: "heap_inv base_heap"
proof -
  have "layout_ok root_empty_data" "layout_ok (dict_sentinel_data None)"
    by (simp_all add: layout_ok_def root_empty_data_def dict_sentinel_data_def)
  moreover have "edges_ok base_heap root_empty_data" "edges_ok base_heap (dict_sentinel_data None)"
    by (simp_all add: edges_ok_def root_empty_data_def dict_sentinel_data_def)
  moreover have "h_shapes base_heap 0 = root_empty_data" "h_shapes base_heap 1 = dict_sentinel_data None"
    "h_next_shape base_heap = 2" "h_next_mt base_heap = 0" "h_next_table base_heap = 0"
    "h_empty_shape base_heap = 0" "h_empty_dict_sentinel base_heap = 1"
    by (simp_all add: base_heap_def blank_heap_def)
  ultimately have "shapes_inv base_heap" "h_next_table base_heap = 0"
    by (auto simp: shapes_inv_def sentinel_ok_def layout_def root_empty_data_def
        dict_sentinel_data_def less_2_cases_iff)
  then show ?thesis by (simp add: heap_inv_def caches_inj_def)
qed

lemma lua_new_inv:
  assumes "lua_new = (h, g)"
  shows "heap_inv h" and "refs_ok h" and "g = 0" and "h_next_table h = 1"
    and "contents h g c = VNil" and "ts_metatable (h_tables h g) = None"
proof -
  have new: "table_new base_heap = (h, g)" using assms by (simp add: lua_new_eq)
  note n = table_new_spec [OF base_heap_inv new]
  have g: "g = 0" using n(2) by (simp add: base_heap_def blank_heap_def)
  show "heap_inv h" "g = 0" "h_next_table h = 1" using n(1,3) g by simp_all
  show "contents h g c = VNil" "ts_metatable (h_tables h g) = None" using n(4,8) by auto
  show "refs_ok h" using n(3,4) g by (simp add: refs_ok_def)
qed

section \<open>Following the transition tree\<close>

fun add_props :: "heap \<Rightarrow> addr \<Rightarrow> bytes list \<Rightarrow> heap \<times> addr" where
  "add_props h s [] = (h, s)"
| "add_props h s (k # ks) = (let (h', s') = transition_add_prop h s k in add_props h' s' ks)"

definition live_edge :: "heap \<Rightarrow> addr \<Rightarrow> bytes \<Rightarrow> addr \<Rightarrow> bool" where
  "live_edge h p k c \<longleftrightarrow> p < h_next_shape h \<and> sd_by_prop (h_shapes h p) k = Some c \<and> h_live h c"

lemma live_edge_follow: "live_edge h p k c \<Longrightarrow> transition_add_prop h p k = (h, c)"
  by (simp add: live_edge_def transition_add_prop_def upgrade_shape_def Let_def)

lemma transition_live_edge:
  assumes "p < h_next_shape h" and "transition_add_prop h p k = (h', c)"
  shows "live_edge h' p k c" and "h_next_shape h \<le> h_next_shape h'"
  using assms
  by (auto simp: live_edge_def transition_add_prop_def upgrade_shape_def alloc_shape_def
      upd_shape_def Let_def bind_eq_Some_conv split: option.splits if_splits)

lemma live_edge_keep:
  assumes "live_edge h p k c" and "c < h_next_shape h" and "p' < h_next_shape h"
    and "transition_add_prop h p' k' = (h', c')"
  shows "live_edge h' p k c" and "c < h_next_shape h'"
  using assms
  by (auto simp: live_edge_def transition_add_prop_def upgrade_shape_def alloc_shape_def
      upd_shape_def Let_def bind_eq_Some_conv split: option.splits if_splits)

lemma add_props_keep:
  assumes inv: "shapes_inv h" and s: "s < h_next_shape h" "\<not> sd_is_dict (h_shapes h s)"
    and new: "distinct ks" "\<forall>k \<in> set ks. find_slot h s k = None"
    and add: "add_props h s ks = (h', s')"
  shows "shapes_inv h' \<and> shapes_extend h h' \<and> s' < h_next_shape h'
    \<and> map fst (sd_descriptors (h_shapes h' s')) = map fst (sd_descriptors (h_shapes h s)) @ ks
    \<and> (\<forall>p k c. live_edge h p k c \<longrightarrow> c < h_next_shape h \<longrightarrow> live_edge h' p k c)"
  using assms
proof (induction ks arbitrary: h s)
  case (Cons k ks)
  obtain h1 s1 where tr: "transition_add_prop h s k = (h1, s1)" by fastforce
  have rest: "add_props h1 s1 ks = (h', s')" using Cons.prems(6) tr by simp
  have "find_slot h s k = None" using Cons.prems(5) by simp
  note sp = transition_add_prop_spec [OF Cons.prems(1-3) this tr]
  have desc: "sd_descriptors (h_shapes h1 s1)
      = sd_descriptors (h_shapes h s) @ [(k, sd_slot_count (h_shapes h s))]"
    and nd: "\<not> sd_is_dict (h_shapes h1 s1)"
    using sp(4) by (simp_all add: layout_def prop_child_def)
  have "\<forall>j \<in> set ks. find_slot h1 s1 j = None"
    using Cons.prems(4,5) by (auto simp: find_slot_def desc find_descr_append)
  from Cons.IH [OF sp(1,3) nd _ this rest] Cons.prems(4)
  have ih: "shapes_inv h' \<and> shapes_extend h1 h' \<and> s' < h_next_shape h'
    \<and> map fst (sd_descriptors (h_shapes h' s')) = map fst (sd_descriptors (h_shapes h1 s1)) @ ks
    \<and> (\<forall>p k c. live_edge h1 p k c \<longrightarrow> c < h_next_shape h1 \<longrightarrow> live_edge h' p k c)" by simp
  then show ?case
    using shapes_extend_trans [OF sp(2)] live_edge_keep [OF _ _ Cons.prems(2) tr] desc by auto
qed simp

text \<open>A second walk along the same keys finds every edge and allocates nothing.\<close>

lemma add_props_again:
  assumes inv: "shapes_inv h" and s: "s < h_next_shape h" "\<not> sd_is_dict (h_shapes h s)"
    and new: "distinct ks" "\<forall>k \<in> set ks. find_slot h s k = None"
    and add: "add_props h s ks = (h', s')"
  shows "add_props h' s ks = (h', s')"
  using assms
proof (induction ks arbitrary: h s)
  case (Cons k ks)
  obtain h1 s1 where tr: "transition_add_prop h s k = (h1, s1)" by fastforce
  have rest: "add_props h1 s1 ks = (h', s')" using Cons.prems(6) tr by simp
  have "find_slot h s k = None" using Cons.prems(5) by simp
  note sp = transition_add_prop_spec [OF Cons.prems(1-3) this tr]
  have desc: "sd_descriptors (h_shapes h1 s1)
      = sd_descriptors (h_shapes h s) @ [(k, sd_slot_count (h_shapes h s))]"
    and nd: "\<not> sd_is_dict (h_shapes h1 s1)"
    using sp(4) by (simp_all add: layout_def prop_child_def)
  have new1: "\<forall>j \<in> set ks. find_slot h1 s1 j = None"
    using Cons.prems(4,5) by (auto simp: find_slot_def desc find_descr_append)
  have dist: "distinct ks" using Cons.prems(4) by simp
  have "live_edge h1 s k s1" by (rule transition_live_edge [OF Cons.prems(2) tr])
  then have "live_edge h' s k s1"
    using add_props_keep [OF sp(1,3) nd dist new1 rest] sp(3) by blast
  then show ?case
    using live_edge_follow Cons.IH [OF sp(1,3) nd dist new1 rest] by simp
qed simp

section \<open>Filling a table\<close>

text \<open>
  Filling a table with new string keys: the table walks the transition tree, so the shape it
  ends in depends on the keys and their order only, and its slots are the values in that order.
\<close>

fun set_fields :: "heap \<Rightarrow> addr \<Rightarrow> (bytes \<times> lua_value) list \<Rightarrow> heap option" where
  "set_fields h t [] = Some h"
| "set_fields h t ((k, v) # kvs) = Option.bind (raw_set h t (VStr k) v) (\<lambda>h'. set_fields h' t kvs)"

definition fill_table :: "addr \<Rightarrow> lua_value list \<Rightarrow> table_state \<Rightarrow> table_state" where
  "fill_table s vs ts = ts\<lparr>ts_shape := s, ts_properties := ts_properties ts @ vs\<rparr>"

lemma transition_upd_table:
  "transition_add_prop (upd_table h t f) p k =
     (let (h', s) = transition_add_prop h p k in (upd_table h' t f, s))"
  by (simp add: transition_add_prop_def upgrade_shape_def [abs_def] upd_table_def alloc_shape_def
      upd_shape_def Let_def split: option.split)

lemma add_props_upd_table:
  "add_props (upd_table h t f) s ks = (let (h', s') = add_props h s ks in (upd_table h' t f, s'))"
  by (induction ks arbitrary: h s) (simp_all add: transition_upd_table split: prod.split)

lemma transition_tables: "transition_add_prop h p k = (h', s) \<Longrightarrow> h_tables h' = h_tables h"
  by (auto simp: transition_add_prop_def alloc_shape_def upd_shape_def Let_def split: option.splits)

lemma add_props_tables: "add_props h s ks = (h', s') \<Longrightarrow> h_tables h' = h_tables h"
proof (induction ks arbitrary: h s)
  case (Cons k ks)
  obtain h1 s1 where "transition_add_prop h s k = (h1, s1)" by fastforce
  then show ?case using Cons transition_tables by fastforce
qed simp

lemma upd_table_frame [simp]:
  "h_shapes (upd_table h t f) = h_shapes h" "h_next_shape (upd_table h t f) = h_next_shape h"
  "h_tables (upd_table h t f) = (h_tables h)(t := f (h_tables h t))"
  "h_next_table (upd_table h t f) = h_next_table h"
  by (simp_all add: upd_table_def)

lemma find_slot_upd_table [simp]: "find_slot (upd_table h t f) = find_slot h"
  by (simp add: find_slot_def [abs_def])

lemma raw_set_new_key:
  assumes "ts_dict (h_tables h t) = None" and "ts_mt_cache (h_tables h t) = None"
    and "find_slot h (ts_shape (h_tables h t)) k = None"
    and "sd_slot_count (h_shapes h (ts_shape (h_tables h t))) < max_properties_fast"
    and tr: "transition_add_prop h (ts_shape (h_tables h t)) k = (h1, s1)"
  shows "raw_set h t (VStr k) v = Some (upd_table h1 t (fill_table s1 [v]))"
  using assms transition_tables [OF tr]
  by (simp add: raw_set_def set_string_key_def maybe_update_mt_bit_def upd_table_def fill_table_def Let_def)

lemma set_fields_add_props:
  assumes "shapes_inv h" and "ts_shape (h_tables h t) < h_next_shape h"
    and "\<not> sd_is_dict (h_shapes h (ts_shape (h_tables h t)))"
    and "ts_dict (h_tables h t) = None" and "ts_mt_cache (h_tables h t) = None"
    and "distinct (map fst kvs)"
    and "\<forall>k \<in> fst ` set kvs. find_slot h (ts_shape (h_tables h t)) k = None"
    and "sd_slot_count (h_shapes h (ts_shape (h_tables h t))) + length kvs \<le> max_properties_fast"
    and "add_props h (ts_shape (h_tables h t)) (map fst kvs) = (h', s')"
  shows "set_fields h t kvs = Some (upd_table h' t (fill_table s' (map snd kvs)))"
  using assms
proof (induction kvs arbitrary: h h' s')
  case Nil
  have "fill_table (ts_shape (h_tables h t)) [] (h_tables h t) = h_tables h t"
    by (simp add: fill_table_def)
  moreover have "h' = h" "s' = ts_shape (h_tables h t)" using Nil by auto
  ultimately show ?case by (simp add: upd_table_def)
next
  case (Cons kv kvs)
  obtain k v where kv: "kv = (k, v)" by force
  let ?s = "ts_shape (h_tables h t)"
  obtain h1 s1 where tr: "transition_add_prop h ?s k = (h1, s1)" by fastforce
  have rest: "add_props h1 s1 (map fst kvs) = (h', s')" using Cons.prems(9) tr by (simp add: kv)
  have new: "find_slot h ?s k = None" using Cons.prems(7) by (simp add: kv)
  note sp = transition_add_prop_spec [OF Cons.prems(1-3) new tr]
  have desc: "sd_descriptors (h_shapes h1 s1) = sd_descriptors (h_shapes h ?s) @ [(k, sd_slot_count (h_shapes h ?s))]"
    and nd: "\<not> sd_is_dict (h_shapes h1 s1)"
    and cnt: "sd_slot_count (h_shapes h1 s1) = Suc (sd_slot_count (h_shapes h ?s))"
    using sp(4) by (simp_all add: layout_def prop_child_def)
  let ?h2 = "upd_table h1 t (fill_table s1 [v])"
  have set: "raw_set h t (VStr k) v = Some ?h2"
    using Cons.prems(8) by (intro raw_set_new_key [OF Cons.prems(4,5) new _ tr]) (simp add: kv)
  have "\<forall>j \<in> fst ` set kvs. find_slot h1 s1 j = None"
    using Cons.prems(6,7) by (auto simp: kv find_slot_def desc find_descr_append)
  then have "set_fields ?h2 t kvs = Some (upd_table (upd_table h' t (fill_table s1 [v])) t (fill_table s' (map snd kvs)))"
    using Cons.prems sp nd cnt
    by (intro Cons.IH) (simp_all add: kv fill_table_def add_props_upd_table rest transition_tables [OF tr])
  then show ?case
    using set by (simp add: kv upd_table_def fill_table_def o_def)
qed

text \<open>Two tables of the same shape given the same new keys in the same order.\<close>

lemma fill_two:
  assumes inv: "shapes_inv h" and same: "ts_shape (h_tables h u) = ts_shape (h_tables h t)"
    and s: "ts_shape (h_tables h t) < h_next_shape h"
      "\<not> sd_is_dict (h_shapes h (ts_shape (h_tables h t)))"
    and t: "ts_dict (h_tables h t) = None" "ts_mt_cache (h_tables h t) = None"
    and u: "ts_dict (h_tables h u) = None" "ts_mt_cache (h_tables h u) = None" and tu: "t \<noteq> u"
    and ks: "map fst kvs' = map fst kvs" "distinct (map fst kvs)"
      "\<forall>k \<in> fst ` set kvs. find_slot h (ts_shape (h_tables h t)) k = None"
    and len: "sd_slot_count (h_shapes h (ts_shape (h_tables h t))) + length kvs \<le> max_properties_fast"
  obtains h1 h2 s where "set_fields h t kvs = Some h1" and "set_fields h1 u kvs' = Some h2"
    and "h_tables h2 t = fill_table s (map snd kvs) (h_tables h t)"
    and "h_tables h2 u = fill_table s (map snd kvs') (h_tables h u)"
proof -
  let ?s = "ts_shape (h_tables h t)"
  obtain g s where g: "add_props h ?s (map fst kvs) = (g, s)" by fastforce
  have set1: "set_fields h t kvs = Some (upd_table g t (fill_table s (map snd kvs)))"
    using g by (rule set_fields_add_props [OF inv s t ks(2,3) len])
  have "\<forall>k \<in> set (map fst kvs). find_slot h ?s k = None" using ks(3) by simp
  note keep = add_props_keep [OF inv s ks(2) this g] and again = add_props_again [OF inv s ks(2) this g]
  have gt: "h_tables g = h_tables h" by (rule add_props_tables [OF g])
  have ext: "shapes_extend h g" using keep by blast
  have lay: "layout (h_shapes g ?s) = layout (h_shapes h ?s)" and le: "h_next_shape h \<le> h_next_shape g"
    using ext s by (simp_all add: shapes_extend_def)
  have len': "length kvs' = length kvs" using arg_cong [OF ks(1), of length] by simp
  have fs: "fst ` set kvs' = fst ` set kvs" using arg_cong [OF ks(1), of set] by simp
  let ?g = "upd_table g t (fill_table s (map snd kvs))"
  have "set_fields ?g u kvs' = Some (upd_table ?g u (fill_table s (map snd kvs')))"
    using keep lay le s u tu ks len len' same
    by (intro set_fields_add_props)
      (simp_all add: gt fs add_props_upd_table again layout_eq_iff find_slot_def)
  then show ?thesis
    using set1 tu by (intro that [of ?g "upd_table ?g u (fill_table s (map snd kvs'))" s]) (simp_all add: gt)
qed

end
