(* ===== verification/TableProps.thy ===== *)
theory TableProps
  imports Boot
begin

text \<open>
  The properties of values, strings, shapes and tables, stated over the operations' own reads
  and writes. Each witness runs the property on the heap of a fresh runtime.
\<close>

lemma fresh:
  "heap_inv (fst lua_new)" "refs_ok (fst lua_new)" "h_next_table (fst lua_new) = 1"
  "contents (fst lua_new) 0 c = VNil" "ts_metatable (h_tables (fst lua_new) 0) = None"
proof -
  obtain h g where e: "lua_new = (h, g)" by (cases lua_new)
  note n = lua_new_inv [OF e]
  have f: "fst lua_new = h" by (simp add: e)
  show "heap_inv (fst lua_new)" "refs_ok (fst lua_new)" "h_next_table (fst lua_new) = 1"
    "contents (fst lua_new) 0 c = VNil" "ts_metatable (h_tables (fst lua_new) 0) = None"
    unfolding f using n by auto
qed

text \<open>A second table beside the globals, for the witnesses that need a metatable.\<close>

definition two_tables :: heap where "two_tables = fst (table_new (fst lua_new))"

lemma two_tables:
  "heap_inv two_tables" "refs_ok two_tables" "h_next_table two_tables = 2"
  "t < 2 \<Longrightarrow> contents two_tables t c = VNil"
proof -
  obtain h t1 where e: "table_new (fst lua_new) = (h, t1)" by fastforce
  note n = table_new_spec [OF fresh(1) e]
  have t1: "t1 = 1" using n(2) fresh(3) by simp
  have h: "two_tables = h" by (simp add: two_tables_def e)
  show "heap_inv two_tables" "h_next_table two_tables = 2" using n(1,3) t1 h by simp_all
  show c: "contents two_tables t c = VNil" if "t < 2" for t c
  proof (cases "t = 1")
    case True
    then show ?thesis using n(4) t1 h by simp
  next
    case False
    then have "t = 0" using that by simp
    then show ?thesis using n(5) t1 h fresh(4) by simp
  qed
  show "refs_ok two_tables" using c n(3) t1 h by (simp add: refs_ok_def)
qed

section \<open>Tables\<close>

text \<open>
  C5. \<open>raw_set\<close> writes exactly the entry its key denotes: it succeeds on every key that is not
  nil and not an unreachable array index, keeps the table invariant, a later \<open>raw_get\<close> of a key
  with the same class returns the written value, and every other read of every table is
  unchanged, whether the write stays in the slots, grows the shape, grows the array or migrates
  the table to dictionary mode.
\<close>

theorem raw_set_raw_get:
  assumes "heap_inv h" and "t < h_next_table h" and "settable h t k"
  shows "\<exists>h'. raw_set h t k v = Some h' \<and> heap_inv h' \<and> h_next_table h' = h_next_table h
    \<and> (\<forall>u < h_next_table h. \<forall>j. raw_get h' u j =
         (if u = t \<and> key_class j = key_class k then Some v else raw_get h u j))"
proof -
  obtain h' where h': "raw_set h t k v = Some h'" "write_spec h t (key_class k) v h'"
    using raw_set_spec [OF assms] by blast
  have i: "heap_inv h'" "h_next_table h' = h_next_table h"
    using h'(2) by (simp_all add: write_spec_def)
  have "raw_get h' u j = (if u = t \<and> key_class j = key_class k then Some v else raw_get h u j)"
    if u: "u < h_next_table h" for u j
    using h'(2) u raw_get_contents [OF assms(1) u] raw_get_contents [OF i(1), of u]
    by (simp add: write_spec_def i)
  then show ?thesis using h'(1) i by blast
qed

theorem raw_set_raw_get_witness:
  "\<exists>h'. raw_set (fst lua_new) 0 (VStr (ascii ''x'')) (VInt 5) = Some h' \<and> heap_inv h'
    \<and> raw_get h' 0 (VStr (ascii ''x'')) = Some (VInt 5) \<and> raw_get h' 0 (VInt 1) = Some VNil"
proof -
  have "settable (fst lua_new) 0 (VStr (ascii ''x''))" by (simp add: settable_def array_index_def)
  moreover have "key_class (VInt 1) \<noteq> CStr s" for s by (simp add: key_class_CStr_iff)
  ultimately show ?thesis
    using raw_set_raw_get [of "fst lua_new" 0 "VStr (ascii ''x'')" "VInt 5"] fresh
      raw_get_contents [OF fresh(1), of 0 "VInt 1"]
    by fastforce
qed

text \<open>
  C6. The metamethod bits a shape reports are exact: after \<open>set_metatable t m\<close> the shape of \<open>t\<close>
  has the bit of a metamethod name exactly when the metatable holds a non-nil value under it,
  the metatable is \<open>m\<close>, and no entry of any table changed.
\<close>

theorem set_metatable_bits:
  assumes "heap_inv h" and "t < h_next_table h" and "m < h_next_table h"
  shows "\<exists>h'. set_metatable h t (Some m) = Some h' \<and> heap_inv h'
    \<and> table_metatable h' t = Some m
    \<and> (\<forall>u < h_next_table h. \<forall>k. raw_get h' u k = raw_get h u k)
    \<and> (\<forall>n b. (n, b) \<in> set metamethod_table \<longrightarrow>
         table_has_mm h' t b = (raw_get h' m (VStr n) \<noteq> Some VNil))"
proof -
  obtain h' where h': "set_metatable h t (Some m) = Some h'" "heap_inv h'"
    "h_next_table h' = h_next_table h" "\<forall>u < h_next_table h. contents h' u = contents h u"
    "\<forall>u. ts_metatable (h_tables h' u) = (if u = t then Some m else ts_metatable (h_tables h u))"
    using set_metatable_spec [OF assms(1,2), of "Some m"] assms(3) by auto
  have "raw_get h' u k = raw_get h u k" if "u < h_next_table h" for u k
    using raw_get_contents [OF assms(1) that] raw_get_contents [OF h'(2), of u] that h'(3,4) by simp
  moreover have "table_has_mm h' t b = (raw_get h' m (VStr n) \<noteq> Some VNil)"
    if "(n, b) \<in> set metamethod_table" for n b
    using has_mm_iff [OF h'(2) _ that, of t] raw_get_contents [OF h'(2), of m] h'(3,5) assms(2,3)
    by (simp add: table_has_mm_def)
  ultimately show ?thesis using h' by (auto simp: table_metatable_def)
qed

theorem set_metatable_bits_witness:
  "\<exists>h'. set_metatable two_tables 0 (Some 1) = Some h' \<and> table_metatable h' 0 = Some 1
    \<and> \<not> table_has_mm h' 0 bit_INDEX"
proof -
  have "raw_get two_tables 1 (VStr mm_index) = Some VNil"
    using raw_get_contents [OF two_tables(1), of 1] two_tables(3,4) by simp
  then show ?thesis
    using set_metatable_bits [of two_tables 0 1] two_tables(1,3) mm_index_bit by fastforce
qed

text \<open>
  C7. The bits follow later writes without touching the shapes: when \<open>m\<close> is the metatable of
  \<open>t\<close>, a write of a metamethod name into \<open>m\<close> sets or clears exactly that bit of \<open>t\<close>'s shape.
\<close>

theorem metamethod_write_updates_bits:
  assumes "heap_inv h" and "t < h_next_table h" and "table_metatable h t = Some m"
    and "(n, b) \<in> set metamethod_table" and "raw_set h m (VStr n) v = Some h'"
  shows "table_has_mm h' t b = (v \<noteq> VNil)
    \<and> (\<forall>n' b'. (n', b') \<in> set metamethod_table \<longrightarrow> n' \<noteq> n \<longrightarrow>
      table_has_mm h' t b' = table_has_mm h t b')"
proof (intro conjI allI impI)
  have m: "m < h_next_table h" by (rule metatable_bound [OF assms(1-3)])
  have "settable h m (VStr n)" by (simp add: settable_def array_index_def)
  then have w: "write_spec h m (CStr n) v h'"
    using raw_set_spec [OF assms(1) m, of "VStr n" v] assms(5) by simp
  then have h': "heap_inv h'" "h_next_table h' = h_next_table h" "table_metatable h' t = Some m"
    "contents h' m = (contents h m)(CStr n := v)"
    using assms(3) m by (auto simp: write_spec_def same_meta_def table_metatable_def)
  note has = has_mm_iff [OF assms(1,2)] has_mm_iff [OF h'(1), of t]
  show "table_has_mm h' t b = (v \<noteq> VNil)"
    using has(2) [OF _ assms(4)] assms(2) h' by (simp add: table_has_mm_def table_metatable_def)
  fix n' b' assume that: "(n', b') \<in> set metamethod_table" "n' \<noteq> n"
  show "table_has_mm h' t b' = table_has_mm h t b'"
    using has(1) [OF that(1)] has(2) [OF _ that(1)] that(2) assms(2,3) h'
    by (simp add: table_has_mm_def table_metatable_def)
qed

theorem metamethod_write_updates_bits_witness:
  "\<exists>h h'. set_metatable two_tables 0 (Some 1) = Some h
    \<and> raw_set h 1 (VStr mm_index) (VBool True) = Some h' \<and> table_has_mm h' 0 bit_INDEX"
proof -
  obtain h where h: "set_metatable two_tables 0 (Some 1) = Some h" "heap_inv h"
    "h_next_table h = h_next_table two_tables" "table_metatable h 0 = Some 1"
    using set_metatable_spec [OF two_tables(1), of 0 "Some 1"] two_tables(3)
    by (auto simp: table_metatable_def)
  have "settable h 1 (VStr mm_index)" by (simp add: settable_def array_index_def)
  then obtain h' where h': "raw_set h 1 (VStr mm_index) (VBool True) = Some h'"
    using raw_set_spec [OF h(2), of 1] h(3) two_tables(3) by fastforce
  have "table_has_mm h' 0 bit_INDEX"
    using metamethod_write_updates_bits [OF h(2) _ h(4) mm_index_bit h'] h(3) two_tables(3) by simp
  then show ?thesis using h(1) h' by blast
qed

text \<open>
  \<open>raw_set\<close> panics exactly on a nil key (the source's \<open>todo!()\<close>) and on an array index no
  vector can reach (a capacity overflow in \<open>resize\<close>); a NaN key is accepted. The interpreter
  calls it on unchecked keys, so \<open>t[nil] = 1\<close> and \<open>t[1 << 62] = 1\<close> abort the process.
\<close>

theorem raw_set_panics_iff:
  assumes "heap_inv h" and "t < h_next_table h"
  shows "raw_set h t k v = None \<longleftrightarrow>
    k = VNil \<or> (\<exists>i. array_index k = Some i \<and> length (ts_array (h_tables h t)) < i \<and> max_vec_len < i)"
  unfolding raw_set_fails_iff [OF assms] settable_def by (auto simp: not_le)

theorem raw_set_panics_iff_witness:
  "raw_set (fst lua_new) 0 VNil (VInt 1) = None
    \<and> raw_set (fst lua_new) 0 (VFloat nan_bits) (VInt 1) \<noteq> None"
proof -
  have "array_index (VFloat nan_bits) = None" "array_index VNil = None"
    by (simp_all add: array_index_def i64_of_f64_def is_nan_def f64_expo_def f64_frac_def nan_bits_def Let_def)
  then show ?thesis
    using raw_set_panics_iff [of "fst lua_new" 0 VNil "VInt 1"]
      raw_set_panics_iff [of "fst lua_new" 0 "VFloat nan_bits" "VInt 1"] fresh by simp
qed

section \<open>Shapes and strings\<close>

text \<open>
  C37. Shapes converge: two tables with the same shape and no dictionary that receive the same
  new string keys in the same order end with one and the same shape, whatever the values are,
  and each holds its values in slot order. A site that has cached one of them hits on the other.
\<close>

theorem same_keys_same_shape:
  assumes "heap_inv h" and "t < h_next_table h" and "u < h_next_table h" and "t \<noteq> u"
    and "ts_shape (h_tables h u) = ts_shape (h_tables h t)"
    and "\<not> sd_is_dict (h_shapes h (ts_shape (h_tables h t)))"
    and "ts_mt_cache (h_tables h t) = None" and "ts_mt_cache (h_tables h u) = None"
    and "map fst kvs' = map fst kvs" and "distinct (map fst kvs)"
    and "\<forall>k \<in> fst ` set kvs. find_slot h (ts_shape (h_tables h t)) k = None"
    and "sd_slot_count (h_shapes h (ts_shape (h_tables h t))) + length kvs \<le> max_properties_fast"
  shows "\<exists>h1 h2. set_fields h t kvs = Some h1 \<and> set_fields h1 u kvs' = Some h2
    \<and> ts_shape (h_tables h2 t) = ts_shape (h_tables h2 u)
    \<and> ts_properties (h_tables h2 t) = ts_properties (h_tables h t) @ map snd kvs
    \<and> ts_properties (h_tables h2 u) = ts_properties (h_tables h u) @ map snd kvs'"
proof -
  note ok = heap_invD(3) [OF assms(1)]
  have "ts_dict (h_tables h x) = None" if "x \<in> {t, u}" for x
    using ok [of x] that assms(2,3,5,6) by (auto simp: table_ok_def mode_ok_def split: option.splits)
  then have d: "ts_dict (h_tables h t) = None" "ts_dict (h_tables h u) = None" by simp_all
  have s: "ts_shape (h_tables h t) < h_next_shape h" using ok [OF assms(2)] by (simp add: table_ok_def)
  obtain h1 h2 s' where "set_fields h t kvs = Some h1" "set_fields h1 u kvs' = Some h2"
    "h_tables h2 t = fill_table s' (map snd kvs) (h_tables h t)"
    "h_tables h2 u = fill_table s' (map snd kvs') (h_tables h u)"
    by (rule fill_two [OF heap_invD(1) [OF assms(1)] assms(5) s assms(6) d(1) assms(7) d(2) assms(8,4,9-12)])
  then show ?thesis by (intro exI [of _ h1] exI [of _ h2]) (simp add: fill_table_def)
qed

theorem same_keys_same_shape_witness:
  "\<exists>h1 h2. set_fields two_tables 0 [(ascii ''x'', VInt 1), (ascii ''y'', VInt 2)] = Some h1
    \<and> set_fields h1 1 [(ascii ''x'', VInt 7), (ascii ''y'', VNil)] = Some h2
    \<and> ts_shape (h_tables h2 0) = ts_shape (h_tables h2 1)"
proof -
  have base: "two_tables = \<lparr>h_shapes = h_shapes base_heap, h_live = h_live base_heap, h_next_shape = 2,
      h_mts = h_mts base_heap, h_next_mt = 0, h_tables = (h_tables base_heap)(0 := new_table_state 0, 1 := new_table_state 0),
      h_next_table = 2, h_empty_shape = 0, h_empty_dict_sentinel = 1\<rparr>"
    by (simp add: two_tables_def lua_new_eq table_new_def Let_def base_heap_def blank_heap_def)
  have s: "h_shapes two_tables 0 = root_empty_data" "h_tables two_tables 0 = new_table_state 0"
    "h_tables two_tables (Suc 0) = new_table_state 0"
    by (simp_all add: base base_heap_def)
  show ?thesis
    using same_keys_same_shape [of two_tables 0 1 "[(ascii ''x'', VInt 7), (ascii ''y'', VNil)]"
        "[(ascii ''x'', VInt 1), (ascii ''y'', VInt 2)]"] two_tables(1,3)
    by (simp add: s new_table_state_def root_empty_data_def find_slot_def max_properties_fast_def
        del: set_fields.simps) metis
qed

text \<open>
  An allocated shape is immutable in everything a cache reads: neither a write of a key nor a
  change of metatable, of any table, moves a slot of an existing shape.
\<close>

theorem layouts_immutable:
  assumes "heap_inv h" and "t < h_next_table h" and "s < h_next_shape h"
  shows "(raw_set h t k v = Some h' \<longrightarrow> find_slot h' s key = find_slot h s key)
    \<and> ((\<forall>m. mt = Some m \<longrightarrow> m < h_next_table h) \<longrightarrow> set_metatable h t mt = Some h' \<longrightarrow>
      find_slot h' s key = find_slot h s key)"
proof (intro conjI impI)
  assume set: "raw_set h t k v = Some h'"
  show "find_slot h' s key = find_slot h s key"
  proof -
    have "settable h t k" using set raw_set_fails_iff [OF assms(1,2)] by (metis option.distinct(1))
    then have "layouts_extend h h'"
      using raw_set_spec [OF assms(1,2), of k v] set by (simp add: write_spec_def)
    then show ?thesis using assms(3) by (rule find_slot_layouts_extend)
  qed
next
  assume mt: "\<forall>m. mt = Some m \<longrightarrow> m < h_next_table h" and set: "set_metatable h t mt = Some h'"
  show "find_slot h' s key = find_slot h s key"
  proof -
    obtain g where "set_metatable h t mt = Some g" "layouts_extend h g"
      using set_metatable_spec [OF assms(1,2), of mt] mt by blast
    then have "layouts_extend h h'" using set by simp
    then show ?thesis using assms(3) by (rule find_slot_layouts_extend)
  qed
qed

theorem layouts_immutable_witness:
  "\<exists>h'. raw_set (fst lua_new) 0 (VStr (ascii ''x'')) (VInt 5) = Some h'
    \<and> find_slot h' (ts_shape (h_tables (fst lua_new) 0)) (ascii ''x'')
      = find_slot (fst lua_new) (ts_shape (h_tables (fst lua_new) 0)) (ascii ''x'')"
proof -
  have "settable (fst lua_new) 0 (VStr (ascii ''x''))" by (simp add: settable_def array_index_def)
  then obtain h' where h': "raw_set (fst lua_new) 0 (VStr (ascii ''x'')) (VInt 5) = Some h'"
    using raw_set_spec [OF fresh(1), of 0] fresh(3) by fastforce
  have "ts_shape (h_tables (fst lua_new) 0) < h_next_shape (fst lua_new)"
    using heap_invD(3) [OF fresh(1), of 0] fresh(3) by (simp add: table_ok_def)
  then show ?thesis using layouts_immutable [OF fresh(1), of 0] fresh(3) h' by auto
qed

text \<open>
  Interning gives content identity: two strings interned one after the other are the same
  object exactly when their bytes are equal, which is what pointer equality of strings assumes.
\<close>

theorem intern_identity:
  assumes "interner_ok st" and "intern st a = (st', i)" and "intern st' b = (st'', j)"
  shows "(lua_string_eq i j \<longleftrightarrow> a = b) \<and> as_bytes st'' i = a \<and> as_bytes st'' j = b"
proof (intro conjI)
  show "lua_string_eq i j \<longleftrightarrow> a = b"
    unfolding lua_string_eq_def by (rule strings.same_identity [OF assms])
  have 1: "interner_ok st'" "interned st' i" "as_bytes st' i = a" using intern_ok [OF assms(1,2)] by auto
  then show "as_bytes st'' i = a" using intern_keeps [OF 1(1) assms(3) 1(2)] by simp
  show "as_bytes st'' j = b" using intern_ok [OF 1(1) assms(3)] by simp
qed

theorem intern_identity_witness:
  "\<exists>st' i st'' j. intern interner_new (ascii ''ab'') = (st', i) \<and> intern st' (ascii ''ab'') = (st'', j)
    \<and> lua_string_eq i j \<and> as_bytes st'' i = ascii ''ab''"
proof -
  obtain st' i where 1: "intern interner_new (ascii ''ab'') = (st', i)" by fastforce
  obtain st'' j where 2: "intern st' (ascii ''ab'') = (st'', j)" by fastforce
  show ?thesis using intern_identity [OF interner_new_ok 1 2] 1 2 by blast
qed

text \<open>
  The length of a table is the length of its array part, so it only grows under writes:
  storing nil at the last index leaves the length unchanged, and \<open>#t\<close> is then not a border.
\<close>

theorem raw_len_not_border:
  assumes "raw_len h t = Suc n" and "int (Suc n) \<le> i64_max"
    and "raw_set h t (VInt (word_of_nat (Suc n))) VNil = Some h'"
  shows "raw_len h' t = Suc n \<and> raw_get h' t (VInt (word_of_nat (raw_len h' t))) = Some VNil"
proof (intro conjI)
  have i: "sint (word_of_nat (Suc n) :: i64) = int (Suc n)"
    using sint_of_int_i64 [of "int (Suc n)"] assms(2) by simp
  then have a: "array_index (VInt (word_of_nat (Suc n))) = Some (Suc n)" by (simp add: array_index_def)
  have len: "length (ts_array (h_tables h t)) = Suc n" using assms(1) by (simp add: raw_len_def)
  then have h': "h' = upd_table h t (\<lambda>ts. ts\<lparr>ts_array := (ts_array (h_tables h t))[n := VNil]\<rparr>)"
    using assms(3) a by (simp add: raw_set_def get_string_def)
  then show l: "raw_len h' t = Suc n" using len by (simp add: raw_len_def)
  show "raw_get h' t (VInt (word_of_nat (raw_len h' t))) = Some VNil"
    unfolding l using a len by (simp add: h' raw_get_def Let_def get_string_def opt_value_def get_at_def)
qed

theorem raw_len_not_border_witness:
  "\<exists>h h'. raw_set (fst lua_new) 0 (VInt 1) (VInt 7) = Some h \<and> raw_set h 0 (VInt 1) VNil = Some h'
    \<and> raw_len h' 0 = 1"
proof -
  let ?h = "upd_table (fst lua_new) 0 (\<lambda>ts. ts\<lparr>ts_array := [VInt 7]\<rparr>)"
  have a: "array_index (VInt 1) = Some 1" by (simp add: array_index_def)
  have "ts_array (h_tables (fst lua_new) 0) = []"
    by (simp add: lua_new_eq table_new_def Let_def base_heap_def blank_heap_def new_table_state_def)
  then have s: "raw_set (fst lua_new) 0 (VInt 1) (VInt 7) = Some ?h"
    using a by (simp add: raw_set_def get_string_def max_vec_len_def Let_def resize_def)
  obtain h' where h': "raw_set ?h 0 (VInt 1) VNil = Some h'"
    using a by (simp add: raw_set_def get_string_def Let_def)
  have "raw_len ?h 0 = Suc 0" by (simp add: raw_len_def)
  then show ?thesis using raw_len_not_border [of ?h 0 0 h'] h' s by auto
qed

end
