(* ===== verification/InterpProps.thy ===== *)
theory InterpProps
  imports TableProps
begin

text \<open>
  The properties of the instruction handlers: indexing through metatables, inline caches,
  upvalues, calls and returns, varargs, list constructors, numeric loops and equality. The
  witnesses run on the small machines built here.
\<close>

section \<open>A machine to run the properties on\<close>

definition demo_runtime :: runtime where
  "demo_runtime = \<lparr>rt_natives = (\<lambda>_ w _ _ _. Some (w, [], Inr AReturn)), rt_powf = (\<lambda>x _. x)\<rparr>"

definition demo_proto :: prototype where
  "demo_proto = \<lparr>pr_code = [GETFIELD 1 0 0 0, SETFIELD 2 0 0 0], pr_constants = [VStr (ascii ''x'')],
     pr_prototypes = [], pr_upvalue_desc = [ParentLocal 0], pr_num_params = 2, pr_is_vararg = False,
     pr_needs_vararg_table = False, pr_max_stack_size = 4, pr_ic_table = [ICEmpty]\<rparr>"

definition demo_closure :: lua_closure where
  "demo_closure = \<lparr>lc_proto = 0, lc_upvalues = [0]\<rparr>"

definition demo_world :: world where
  "demo_world = \<lparr>w_heap = two_tables, w_protos = (\<lambda>_. demo_proto), w_funs = (\<lambda>_. FKLua demo_closure),
     w_next_fun = 1, w_upvals = (\<lambda>_. UOpen 0 1), w_next_upval = 1, w_threads = (\<lambda>_. thread_new 0),
     w_userdata_mt = (\<lambda>_. None), w_next_thread = 1\<rparr>"

definition demo_frame :: "nat \<Rightarrow> nat \<Rightarrow> lua_frame" where
  "demo_frame base extras = \<lparr>lf_closure = demo_closure, lf_base = base, lf_pc = 0, lf_num_results = 2,
     lf_num_extras = extras, lf_continuation = None\<rparr>"

definition demo_thread :: "lua_value list \<Rightarrow> frame list \<Rightarrow> thread_state" where
  "demo_thread s fs = (thread_new 0)\<lparr>th_stack := s, th_frames := fs, th_open_upvalues := [0]\<rparr>"

definition demo_machine :: "lua_value list \<Rightarrow> nat \<Rightarrow> nat \<Rightarrow> machine" where
  "demo_machine s base extras = \<lparr>m_world = demo_world,
     m_thread = demo_thread s [FLua (demo_frame base extras)], m_regs = base, m_ip = 1\<rparr>"

lemmas demo_defs = demo_machine_def demo_thread_def demo_frame_def demo_world_def demo_closure_def
  demo_proto_def thread_new_def

lemma demo_heap [simp]: "w_heap (m_world (demo_machine s b n)) = two_tables" "w_heap demo_world = two_tables"
  by (simp_all add: demo_machine_def demo_world_def)

lemma demo_ups_ok: "1 < length s \<Longrightarrow> ups_ok demo_world (demo_thread s fs)"
  by (auto simp: ups_ok_def open_at_def demo_world_def demo_thread_def thread_new_def)

lemma demo_meta: "meta_of two_tables 0 name = VNil"
proof (cases "table_metatable two_tables 0")
  case (Some m)
  then have "m < 2" using metatable_bound [OF two_tables(1) _ Some] two_tables(3) by simp
  then show ?thesis using Some two_tables(4) by (simp add: meta_of_def)
qed (simp add: meta_of_def)

section \<open>Indexing\<close>

text \<open>
  C8. Indexing a table against the reference manual's rule for \<open>__index\<close>. The code always
  answers. A value it answers is the content of the table where the rule ends. A function it
  calls is the function the rule calls, with the value indexed last. When it calls anything else
  (neither nil, nor a table, nor a function) the rule does not call: it goes on by indexing that
  value. And when it gives up, the rule follows at least \<open>MAX_TAG_LOOP\<close> metavalues. Whatever the
  metatables \<open>mt\<close> of the values that are not tables.
\<close>

theorem index_refines_rule:
  assumes "heap_inv h" and "refs_ok h" and "t < h_next_table h"
  shows "\<exists>res. table_get_chain h t k = Some res \<and> (case res of
      Resolved x \<Rightarrow> \<exists>u. answers h mt mm_index k (VTable t) (Reaches u) \<and> x = contents h u (key_class k)
    | Invoke mm r \<Rightarrow> (case get_function mm of
        Some f \<Rightarrow> answers h mt mm_index k (VTable t) (Calls f r)
      | None \<Rightarrow> mm \<noteq> VNil \<and> get_table mm = None \<and> comes_to h mt mm_index k (VTable t) mm)
    | Exhausted \<Rightarrow> \<forall>n a. manual_access h mt mm_index k n (VTable t) a \<longrightarrow> MAX_TAG_LOOP \<le> n)"
proof -
  obtain res where res: "table_get_chain h t k = Some res"
    using table_get_chain_total [OF assms] by blast
  then show ?thesis
    using table_get_chain_agrees [OF assms res, of mt] by (cases res) auto
qed

theorem index_refines_rule_witness:
  "table_get_chain two_tables 0 (VInt 1) = Some (Resolved VNil)
    \<and> (\<exists>u. answers two_tables (\<lambda>_. None) mm_index (VInt 1) (VTable 0) (Reaches u)
      \<and> contents two_tables u (key_class (VInt 1)) = VNil)"
proof -
  note demo_meta [of mm_index]
  moreover have c: "contents two_tables 0 (key_class (VInt 1)) = VNil" using two_tables(4) by simp
  ultimately have "index_walk two_tables (VInt 1) (Suc 0) (VTable 0) (VTable 0) (Resolved VNil)"
    by (intro ix_hop) (simp_all add: index_walk.ix_nil)
  then have "table_get_chain two_tables 0 (VInt 1) = Some (Resolved VNil)"
    using table_get_chain_complete [OF two_tables(1,2)] two_tables(3) by (fastforce simp: MAX_TAG_LOOP_def)
  then show ?thesis
    using index_refines_rule [OF two_tables(1,2), of 0 "VInt 1" "\<lambda>_. None"] two_tables(3) by auto
qed

text \<open>
  Assignment against the rule of \<open>__newindex\<close>, in the same way: the table written is where the
  rule ends, and it is allocated.
\<close>

theorem newindex_refines_rule:
  assumes "heap_inv h" and "refs_ok h" and "t < h_next_table h"
  shows "\<exists>res. walk_newindex_chain h t k = Some res
    \<and> (\<forall>u. res = RawSet u \<longrightarrow> u < h_next_table h) \<and> newindex_agrees h mt k (VTable t) res"
proof -
  obtain res where "walk_newindex_loop MAX_TAG_LOOP h t k = Some res" "\<forall>u. res = RawSet u \<longrightarrow> u < h_next_table h"
    using walk_newindex_total [OF assms] by blast
  then show ?thesis using walk_newindex_agrees [OF assms, of k res mt] by (auto simp: walk_newindex_chain_def)
qed

section \<open>Inline caches\<close>

text \<open>
  C9. A cached field read is the uncached one: with a valid cache entry, \<open>GETFIELD\<close> either hits
  and has the outcome of the full table lookup, or refills the cache and runs that lookup.
\<close>

theorem getfield_cache_transparent:
  assumes "heap_inv (w_heap (m_world m))" and "t < h_next_table (w_heap (m_world m))"
    and "reg m table = Some (VTable t)" and "const_at m key_idx = Some (VStr k)"
    and "read_ic m ic_idx = Some c" and "ic_valid (w_heap (m_world m)) k c"
  shows "\<exists>m'. (m' = m \<or> fill_ic_for_constant_key m ic_idx t (VStr k) = Some m')
    \<and> op_getfield rt dst table ic_idx key_idx m = table_get_slow_body rt m' t (VStr k) dst"
  by (rule op_getfield_uncached [OF assms])

theorem getfield_cache_transparent_witness:
  "\<exists>m'. op_getfield demo_runtime 1 0 0 0 (demo_machine [VTable 0, VNil, VNil, VNil] 0 0)
    = table_get_slow_body demo_runtime m' 0 (VStr (ascii ''x'')) 1"
proof -
  let ?m = "demo_machine [VTable 0, VNil, VNil, VNil] 0 0"
  have "reg ?m 0 = Some (VTable 0)" "const_at ?m 0 = Some (VStr (ascii ''x''))"
    "read_ic ?m 0 = Some ICEmpty"
    by (simp_all add: demo_defs reg_def reg_at_def const_at_def read_ic_def proto_of_def top_lua_def idx_def)
  then show ?thesis
    using getfield_cache_transparent [of ?m 0 0 0 "ascii ''x''" 0 ICEmpty demo_runtime 1] two_tables
    by (auto simp: ic_valid_def)
qed

text \<open>
  A cached field write is the uncached one: with a valid cache entry, \<open>SETFIELD\<close> either
  refills the cache and runs the full assignment, or both succeed and both write exactly that
  field, keeping the table invariant and the metamethod bits of the tables it is a metatable of.
\<close>

theorem setfield_cache_transparent:
  assumes "heap_inv (w_heap (m_world m))" and "t < h_next_table (w_heap (m_world m))"
    and "reg m table = Some (VTable t)" and "const_at m key_idx = Some (VStr k)"
    and "reg m src = Some v"
    and "read_ic m ic_idx = Some c" and "ic_valid (w_heap (m_world m)) k c"
  shows "(\<exists>m'. fill_ic_for_constant_key m ic_idx t (VStr k) = Some m'
      \<and> op_setfield rt src table ic_idx key_idx m = table_set_slow_body rt m' t (VStr k) v)
    \<or> (\<exists>h h'. op_setfield rt src table ic_idx key_idx m = Some (Dispatch (set_heap m h))
      \<and> table_set_slow_body rt m t (VStr k) v = Some (Dispatch (set_heap m h'))
      \<and> write_spec (w_heap (m_world m)) t (CStr k) v h
      \<and> write_spec (w_heap (m_world m)) t (CStr k) v h')"
  by (rule op_setfield_uncached [OF assms])

theorem setfield_cache_transparent_witness:
  "\<exists>m' h. let m = demo_machine [VTable 0, VNil, VInt 7, VNil] 0 0 in
    op_setfield demo_runtime 2 0 0 0 m = table_set_slow_body demo_runtime m' 0 (VStr (ascii ''x'')) (VInt 7)
    \<or> op_setfield demo_runtime 2 0 0 0 m = Some (Dispatch (set_heap m h))"
proof -
  let ?m = "demo_machine [VTable 0, VNil, VInt 7, VNil] 0 0"
  have "reg ?m 0 = Some (VTable 0)" "const_at ?m 0 = Some (VStr (ascii ''x''))"
    "read_ic ?m 0 = Some ICEmpty" "reg ?m 2 = Some (VInt 7)"
    by (simp_all add: demo_defs reg_def reg_at_def const_at_def read_ic_def proto_of_def top_lua_def idx_def)
  then show ?thesis
    using setfield_cache_transparent [of ?m 0 0 0 "ascii ''x''" 2 "VInt 7" 0 ICEmpty demo_runtime] two_tables
    unfolding Let_def by (simp add: ic_valid_def) blast
qed

text \<open>
  Filling a cache keeps every cache of the prototype valid, and valid caches stay valid
  under any extension of the shapes, which every table write is.
\<close>

theorem cache_fill_keeps_valid:
  assumes "heap_inv (w_heap (m_world m))" and "t < h_next_table (w_heap (m_world m))"
    and "top_lua (m_thread m) = Some f" and "w_protos (m_world m) (lc_proto (lf_closure f)) = p"
    and "sites_ok p" and "ics_ok (w_heap (m_world m)) p"
    and "i \<in> set (pr_code p)" and "ic_site i = Some (ic, key)"
    and "idx (pr_constants p) (unat key) = Some (VStr k)"
    and "fill_ic_for_constant_key m ic t (VStr k) = Some m'"
  shows "\<forall>h'. layouts_extend (w_heap (m_world m)) h' \<longrightarrow>
      ics_ok h' (w_protos (m_world m') (lc_proto (lf_closure f)))"
  using fill_ic_ok [OF assms] ics_ok_extend by metis

theorem cache_fill_keeps_valid_witness:
  "\<exists>m'. fill_ic_for_constant_key (demo_machine [VTable 0] 0 0) 0 0 (VStr (ascii ''x'')) = Some m'
    \<and> ics_ok two_tables (w_protos (m_world m') 0)"
proof -
  let ?m = "demo_machine [VTable 0] 0 0"
  obtain m' where m': "fill_ic_for_constant_key ?m 0 0 (VStr (ascii ''x'')) = Some m'"
    by (auto simp: fill_ic_for_constant_key_def fill_ic_def ic_entry_def Let_def demo_defs top_lua_def)
  have s: "sites_ok demo_proto" "ics_ok two_tables demo_proto"
    by (auto simp: sites_ok_def ics_ok_def demo_proto_def ic_site_def idx_def ic_valid_def)
  have "ics_ok two_tables (w_protos (m_world m') (lc_proto (lf_closure (demo_frame 0 0))))"
    using cache_fill_keeps_valid [of ?m 0 "demo_frame 0 0" demo_proto "GETFIELD 1 0 0 0" 0 0 "ascii ''x''" m']
      s two_tables(1,3) m'
    by (simp add: demo_machine_def demo_thread_def demo_world_def top_lua_def demo_frame_def
        demo_closure_def) (simp add: demo_proto_def ic_site_def idx_def)
  then show ?thesis using m' by (simp add: demo_frame_def demo_closure_def)
qed

end
