(* ===== verification/CallProps.thy ===== *)
theory CallProps
  imports InterpProps
begin

text \<open>
  The properties of upvalues, calls, returns, varargs, list constructors, numeric loops and
  equality, each over the whole handler. The witnesses run on the machines of InterpProps.
\<close>

section \<open>Upvalues\<close>

text \<open>
  C10. Closing upvalues from a stack slot on never changes what a closure reads: afterwards no
  upvalue is open at or above the slot, the open list is still exactly the open upvalues, and
  every upvalue reads as before even if the stack from that slot on is overwritten or dropped.
\<close>

theorem close_upvalues_preserves_reads:
  assumes "ups_ok w th"
  shows "\<exists>w' th'. close_upvalues w th start = Some (w', th') \<and> ups_ok w' th'
    \<and> (\<forall>uv < w_next_upval w. \<forall>i. open_at w' th' uv i \<longleftrightarrow> open_at w th uv i \<and> i < start)
    \<and> (\<forall>uv < w_next_upval w. \<forall>s. take start s = take start (th_stack th) \<longrightarrow>
         read_upvalue w' (th'\<lparr>th_stack := s\<rparr>) uv = read_upvalue w th uv)"
  by (rule close_upvalues_spec [OF assms, of start]) blast

theorem close_upvalues_preserves_reads_witness:
  "\<exists>w' th'. close_upvalues demo_world (demo_thread [VInt 4, VInt 5] []) 1 = Some (w', th')
    \<and> read_upvalue w' (th'\<lparr>th_stack := [VInt 4, VNil]\<rparr>) 0 = Some (VInt 5)"
proof -
  have r: "read_upvalue demo_world (demo_thread [VInt 4, VInt 5] []) 0 = Some (VInt 5)"
    by (simp add: read_upvalue_def demo_defs idx_def)
  have n: "w_next_upval demo_world = 1" by (simp add: demo_world_def)
  obtain w' th' where c: "close_upvalues demo_world (demo_thread [VInt 4, VInt 5] []) 1 = Some (w', th')"
    "\<forall>uv < w_next_upval demo_world. \<forall>s. take 1 s = take 1 (th_stack (demo_thread [VInt 4, VInt 5] [])) \<longrightarrow>
       read_upvalue w' (th'\<lparr>th_stack := s\<rparr>) uv = read_upvalue demo_world (demo_thread [VInt 4, VInt 5] []) uv"
    using close_upvalues_preserves_reads [OF demo_ups_ok, of "[VInt 4, VInt 5]" "[]" 1] by auto
  have "take 1 [VInt 4, VNil] = take 1 (th_stack (demo_thread [VInt 4, VInt 5] []))"
    by (simp add: demo_thread_def)
  then show ?thesis using c n r by (metis less_numeral_extra(1))
qed

text \<open>Capturing again finds the upvalues the first capture left open.\<close>

lemma capture_again:
  assumes "ups_ok w th" and "list_all2 (captured w th f) ds uvs"
  shows "capture w th f ds = Some (w, th, uvs)"
  using assms(2)
proof (induction ds uvs rule: list_all2_induct)
  case (Cons d ds uv uvs)
  show ?case
  proof (cases d)
    case (ParentLocal i)
    then have "find_open (w_upvals w) (th_open_upvalues th) (lf_base f + unat i) = Some uv"
      using find_open_Some_iff [OF assms(1)] Cons by (simp add: captured_def)
    then show ?thesis using Cons ParentLocal by (simp add: Let_def)
  qed (use Cons in \<open>simp add: captured_def\<close>)
qed simp

text \<open>
  C13. Closures share the variables they capture: capturing a list of descriptors always works
  on an in-range frame, keeps the thread's upvalue invariant and every value, gives each local
  the one upvalue open on its slot, and a second closure created over the same variables gets
  the same upvalue objects.
\<close>

theorem closures_share_upvalues:
  assumes "ups_ok w th" and "\<forall>d \<in> set ds. desc_ok th f d"
  shows "\<exists>w' th' uvs. capture w th f ds = Some (w', th', uvs) \<and> ups_ok w' th' \<and> upvals_grow w w'
    \<and> th_stack th' = th_stack th \<and> list_all2 (captured w' th' f) ds uvs
    \<and> capture w' th' f ds = Some (w', th', uvs)"
proof -
  obtain w' th' uvs where c: "capture w th f ds = Some (w', th', uvs)" "ups_ok w' th'"
    "upvals_grow w w'" "th_stack th' = th_stack th" "list_all2 (captured w' th' f) ds uvs"
    using capture_spec [OF assms] by blast
  then show ?thesis using capture_again [OF c(2,5)] by blast
qed

theorem closures_share_upvalues_witness:
  "\<exists>w' th' a b. capture demo_world (demo_thread [VInt 4, VInt 5] []) (demo_frame 0 0)
      [ParentLocal 0, ParentLocal 1] = Some (w', th', [a, b])
    \<and> capture w' th' (demo_frame 0 0) [ParentLocal 0, ParentLocal 1] = Some (w', th', [a, b])"
proof -
  have "\<forall>d \<in> set [ParentLocal 0, ParentLocal 1]. desc_ok (demo_thread [VInt 4, VInt 5] []) (demo_frame 0 0) d"
    by (simp add: desc_ok_def demo_thread_def demo_frame_def)
  then obtain w' th' uvs where c: "capture demo_world (demo_thread [VInt 4, VInt 5] []) (demo_frame 0 0)
      [ParentLocal 0, ParentLocal 1] = Some (w', th', uvs)"
    "capture w' th' (demo_frame 0 0) [ParentLocal 0, ParentLocal 1] = Some (w', th', uvs)"
    "list_all2 (captured w' th' (demo_frame 0 0)) [ParentLocal 0, ParentLocal 1] uvs"
    using closures_share_upvalues [OF demo_ups_ok, of "[VInt 4, VInt 5]"
        "[ParentLocal 0, ParentLocal 1]" "[]" "demo_frame 0 0"] by auto
  then show ?thesis by (auto simp: list_all2_Cons1)
qed

text \<open>
  SETUPVAL is an assignment to the captured variable: every upvalue that is the same object
  or open on the same slot reads the new value, every other one reads what it did.
\<close>

theorem setupval_assigns:
  assumes "reg m src = Some v" and "upvalue m i = Some uv"
    and "op_setupval src i m = Some (Dispatch m')"
  shows "read_upvalue (m_world m') (m_thread m') uv' =
    (if same_cell (m_world m) uv uv' then Some v else read_upvalue (m_world m) (m_thread m) uv')"
  using assms write_upvalue_read [of "m_world m" "m_thread m" uv v]
  by (auto simp: op_setupval_def dispatch_def bind_eq_Some_conv)

theorem setupval_assigns_witness:
  "\<exists>m'. op_setupval 0 0 (demo_machine [VInt 4, VInt 5] 0 0) = Some (Dispatch m')
    \<and> read_upvalue (m_world m') (m_thread m') 0 = Some (VInt 4)"
proof -
  let ?m = "demo_machine [VInt 4, VInt 5] 0 0"
  have r: "reg ?m 0 = Some (VInt 4)" "upvalue ?m 0 = Some 0"
    by (simp_all add: reg_def reg_at_def upvalue_def top_lua_def demo_defs idx_def)
  obtain m' where m': "op_setupval 0 0 ?m = Some (Dispatch m')"
    using r by (simp add: op_setupval_def write_upvalue_def dispatch_def demo_defs idx_set_def)
  then show ?thesis using setupval_assigns [OF r m', of 0] by (simp add: same_cell_def)
qed

section \<open>Calls\<close>

text \<open>
  C11. CALL of a Lua function enters it: the caller's position is saved, the callee's frame is on
  top at its first instruction with the arguments in its first registers, the parameters without
  an argument are nil, the stack holds the callee's whole frame and nothing up to the last
  argument has moved.
\<close>

theorem call_enters_function:
  assumes "th_frames (m_thread m) = FLua f # fs" and "func_idx = lf_base f + unat func"
    and "th_stack (m_thread m) ! func_idx = VFunc a" and "w_funs (m_world m) a = FKLua c"
    and "arg_count (m_thread m) nargs (func_idx + 1) = Some n"
    and "func_idx + 1 + n \<le> length (th_stack (m_thread m))"
    and "unat (pr_num_params (proto_of (m_world m) c)) \<le> unat (pr_max_stack_size (proto_of (m_world m) c))"
  shows "\<exists>m'. op_call rt func nargs returns m = Some (Dispatch m')
    \<and> m_world m' = m_world m \<and> m_ip m' = 0 \<and> m_regs m' = func_idx + 1
    \<and> th_frames (m_thread m') = FLua (call_frame (m_world m) c (func_idx + 1) returns n None)
         # FLua (f\<lparr>lf_pc := m_ip m\<rparr>) # fs
    \<and> take (func_idx + 1 + n) (th_stack (m_thread m')) = take (func_idx + 1 + n) (th_stack (m_thread m))
    \<and> (\<forall>k. n \<le> k \<and> k < unat (pr_num_params (proto_of (m_world m) c)) \<longrightarrow>
         th_stack (m_thread m') ! (func_idx + 1 + k) = VNil)
    \<and> func_idx + 1 + unat (pr_max_stack_size (proto_of (m_world m) c)) \<le> length (th_stack (m_thread m'))"
  by (rule op_call_lua [OF assms, of rt returns]) blast

theorem call_enters_function_witness:
  "\<exists>m'. op_call demo_runtime 0 2 1 (demo_machine [VFunc 0, VInt 9] 0 0) = Some (Dispatch m') \<and> m_regs m' = 1
    \<and> take 2 (th_stack (m_thread m')) = [VFunc 0, VInt 9] \<and> th_stack (m_thread m') ! 2 = VNil"
proof -
  let ?m = "demo_machine [VFunc 0, VInt 9] 0 0"
  have f: "th_frames (m_thread ?m) = [FLua (demo_frame 0 0)]" "0 = lf_base (demo_frame 0 0) + unat (0 :: u8)"
    "th_stack (m_thread ?m) ! 0 = VFunc 0" "w_funs (m_world ?m) 0 = FKLua demo_closure"
    "arg_count (m_thread ?m) 2 (0 + 1) = Some 1" "0 + 1 + 1 \<le> length (th_stack (m_thread ?m))"
    "unat (pr_num_params (proto_of (m_world ?m) demo_closure)) = 2"
    "unat (pr_max_stack_size (proto_of (m_world ?m) demo_closure)) = 4"
    by (simp_all add: demo_defs arg_count_def proto_of_def)
  obtain m' where m': "op_call demo_runtime 0 2 1 ?m = Some (Dispatch m')" "m_regs m' = 0 + 1"
    "take (0 + 1 + 1) (th_stack (m_thread m')) = take (0 + 1 + 1) (th_stack (m_thread ?m))"
    "\<forall>k. 1 \<le> k \<and> k < 2 \<longrightarrow> th_stack (m_thread m') ! (0 + 1 + k) = VNil"
    using call_enters_function [OF f(1-6), of demo_runtime 1] f(7,8) by auto
  have "th_stack (m_thread m') ! (0 + 1 + 1) = VNil" using m'(4) by simp
  then show ?thesis
    using m'(1-3) by (intro exI [of _ m']) (simp add: demo_machine_def demo_thread_def numeral_2_eq_2)
qed

text \<open>
  C12. RETURN to a Lua caller resumes it at its saved position with the results in place: exactly
  as many as the call asked for, padded with nil or cut, from the call's slot on, everything
  below that slot and the number of stack slots unchanged, and each surviving upvalue reads as
  before.
\<close>

theorem return_delivers_results:
  assumes "ups_ok (m_world m) (m_thread m)" and "th_frames (m_thread m) = FLua f # FLua g # fs"
    and "lf_continuation f = None" and "lf_base f = dst + 1 + lf_num_extras f"
    and "arg_count (m_thread m) count (lf_base f + unat vals) = Some nret"
    and "lf_base f + unat vals + nret \<le> length (th_stack (m_thread m))"
    and "dst + (unat (lf_num_results f) - 1) \<le> length (th_stack (m_thread m))"
    and "results = delivered (lf_num_results f)
      (take nret (drop (lf_base f + unat vals) (th_stack (m_thread m))))"
  shows "\<exists>m'. op_return vals count m = Some (Dispatch m')
    \<and> m_ip m' = lf_pc g \<and> m_regs m' = lf_base g \<and> th_frames (m_thread m') = FLua g # fs
    \<and> length (th_stack (m_thread m')) = length (th_stack (m_thread m))
    \<and> take dst (th_stack (m_thread m')) = take dst (th_stack (m_thread m))
    \<and> take (length results) (drop dst (th_stack (m_thread m'))) = results
    \<and> (lf_num_results f = 0 \<longrightarrow> th_top (m_thread m') = dst + nret)
    \<and> (\<forall>uv < w_next_upval (m_world m). \<not> (\<exists>i. open_at (m_world m) (m_thread m) uv i \<and> dst \<le> i \<and> i < lf_base f) \<longrightarrow>
         read_upvalue (m_world m') (m_thread m') uv = read_upvalue (m_world m) (m_thread m) uv)"
proof -
  obtain w' th' where r:
    "frame_return (m_world m) (m_thread m) (lf_base f + unat vals) nret = Some (w', th', FRCaller (lf_base g) (lf_pc g))"
    "th_frames th' = FLua g # fs" "length (th_stack th') = length (th_stack (m_thread m))"
    "take dst (th_stack th') = take dst (th_stack (m_thread m))"
    "take (length results) (drop dst (th_stack th')) = results"
    "lf_num_results f = 0 \<Longrightarrow> th_top th' = dst + nret"
    "\<And>uv. uv < w_next_upval (m_world m) \<Longrightarrow> \<not> (\<exists>i. open_at (m_world m) (m_thread m) uv i \<and> dst \<le> i \<and> i < lf_base f) \<Longrightarrow>
       read_upvalue w' th' uv = read_upvalue (m_world m) (m_thread m) uv"
    using frame_return_lua [OF assms(1-4) le_add1 assms(6,7)] unfolding assms(8) by metis
  have "op_return vals count m = Some (Dispatch (m\<lparr>m_world := w', m_thread := th', m_ip := lf_pc g, m_regs := lf_base g\<rparr>))"
    using assms(2,5) r(1) by (simp add: op_return_def top_lua_def after_return_def dispatch_def Let_def)
  then show ?thesis
    using r by (intro exI conjI) (assumption | simp)+
qed

theorem return_delivers_results_witness:
  "\<exists>m'. op_return 0 2 ((demo_machine [VFunc 0, VInt 9, VNil] 1 0)\<lparr>m_thread :=
        demo_thread [VFunc 0, VInt 9, VNil] [FLua (demo_frame 1 0), FLua (demo_frame 0 0)]\<rparr>) = Some (Dispatch m')
    \<and> m_regs m' = 0 \<and> take 1 (th_stack (m_thread m')) = [VInt 9]"
proof -
  let ?s = "[VFunc 0, VInt 9, VNil]"
  let ?m = "(demo_machine ?s 1 0)\<lparr>m_thread := demo_thread ?s [FLua (demo_frame 1 0), FLua (demo_frame 0 0)]\<rparr>"
  have a: "ups_ok (m_world ?m) (m_thread ?m)" using demo_ups_ok [of ?s] by (simp add: demo_machine_def)
  have f: "th_frames (m_thread ?m) = [FLua (demo_frame 1 0), FLua (demo_frame 0 0)]"
    "lf_continuation (demo_frame 1 0) = None" "lf_base (demo_frame 1 0) = 0 + 1 + lf_num_extras (demo_frame 1 0)"
    "arg_count (m_thread ?m) 2 (lf_base (demo_frame 1 0) + unat (0 :: u8)) = Some 1"
    "lf_base (demo_frame 1 0) + unat (0 :: u8) + 1 \<le> length (th_stack (m_thread ?m))"
    "0 + (unat (lf_num_results (demo_frame 1 0)) - 1) \<le> length (th_stack (m_thread ?m))"
    and d: "[VInt 9] = delivered (lf_num_results (demo_frame 1 0))
      (take 1 (drop (lf_base (demo_frame 1 0) + unat (0 :: u8)) (th_stack (m_thread ?m))))"
    and g: "lf_base (demo_frame 0 0) = 0"
    by (simp_all add: demo_thread_def demo_frame_def thread_new_def arg_count_def delivered_def)
  obtain m' where "op_return 0 2 ?m = Some (Dispatch m')" "m_regs m' = lf_base (demo_frame 0 0)"
    "take (length [VInt 9]) (drop 0 (th_stack (m_thread m'))) = [VInt 9]"
    using return_delivers_results [OF a f d] by auto
  then show ?thesis using g by (intro exI [of _ m']) simp
qed

section \<open>Varargs\<close>

text \<open>
  VARARGPREP moves the frame above its extra arguments: the fixed parameters come to the
  new base in order, the extras stay below it in order, where VARARG and VARARGGET find them.
\<close>

theorem varargprep_keeps_arguments:
  assumes "th_frames (m_thread m) = FLua f # fs" and "lf_num_extras f = n"
    and "unat (pr_num_params (proto_of (m_world m) (lf_closure f))) = p"
    and "\<not> pr_needs_vararg_table (proto_of (m_world m) (lf_closure f))"
    and "lf_base f + n + p \<le> length (th_stack (m_thread m))" and "m_regs m = lf_base f"
  shows "\<exists>m'. op_varargprep num_fixed m = Some (Dispatch m') \<and> m_regs m' = lf_base f + n
    \<and> th_frames (m_thread m') = FLua (f\<lparr>lf_base := lf_base f + n\<rparr>) # fs
    \<and> (\<forall>k < p. th_stack (m_thread m') ! (lf_base f + n + k) = th_stack (m_thread m) ! (lf_base f + k))
    \<and> (\<forall>k < n. frame_extras (m_thread m') (f\<lparr>lf_base := lf_base f + n\<rparr>) ! k
         = th_stack (m_thread m) ! (lf_base f + p + k))"
proof -
  obtain m' where m': "op_varargprep num_fixed m = Some (Dispatch m')" "m_regs m' = lf_base f + n"
    "th_frames (m_thread m') = FLua (f\<lparr>lf_base := lf_base f + n\<rparr>) # fs"
    "length (th_stack (m_thread m)) \<le> length (th_stack (m_thread m'))"
    "\<And>k. k < p \<Longrightarrow> th_stack (m_thread m') ! (lf_base f + n + k) = th_stack (m_thread m) ! (lf_base f + k)"
    "\<And>k. k < n \<Longrightarrow> th_stack (m_thread m') ! (lf_base f + k) = th_stack (m_thread m) ! (lf_base f + p + k)"
    by (rule op_varargprep_spec [OF assms, of num_fixed]) blast
  have "frame_extras (m_thread m') (f\<lparr>lf_base := lf_base f + n\<rparr>) ! k
      = th_stack (m_thread m) ! (lf_base f + p + k)" if "k < n" for k
    using m'(4,6) that assms(2,5) by (simp add: frame_extras_def)
  then show ?thesis using m' by blast
qed

theorem varargprep_keeps_arguments_witness:
  "\<exists>m'. op_varargprep 2 (demo_machine [VInt 1, VInt 2, VInt 3] 0 1) = Some (Dispatch m')
    \<and> m_regs m' = 1 \<and> th_stack (m_thread m') ! 1 = VInt 1"
proof -
  let ?m = "demo_machine [VInt 1, VInt 2, VInt 3] 0 1"
  have f: "th_frames (m_thread ?m) = [FLua (demo_frame 0 1)]" "lf_num_extras (demo_frame 0 1) = 1"
    "unat (pr_num_params (proto_of (m_world ?m) (lf_closure (demo_frame 0 1)))) = 2"
    "\<not> pr_needs_vararg_table (proto_of (m_world ?m) (lf_closure (demo_frame 0 1)))"
    "lf_base (demo_frame 0 1) + 1 + 2 \<le> length (th_stack (m_thread ?m))" "m_regs ?m = lf_base (demo_frame 0 1)"
    by (simp_all add: demo_defs proto_of_def)
  have b: "lf_base (demo_frame 0 1) = 0" "th_stack (m_thread ?m) ! 0 = VInt 1" by (simp_all add: demo_defs)
  obtain m' where m': "op_varargprep 2 ?m = Some (Dispatch m')" "m_regs m' = lf_base (demo_frame 0 1) + 1"
    "\<forall>k < 2. th_stack (m_thread m') ! (lf_base (demo_frame 0 1) + 1 + k)
      = th_stack (m_thread ?m) ! (lf_base (demo_frame 0 1) + k)"
    using varargprep_keeps_arguments [OF f, of 2] by blast
  have "th_stack (m_thread m') ! 1 = VInt 1" using m'(3) [rule_format, of 0] b by simp
  then show ?thesis using m'(1,2) b by auto
qed

text \<open>
  VARARGGET indexes the extras without building a table: an integral key from 1 to their
  number reads that argument, any other integral key reads nil.
\<close>

theorem varargget_indexes_extras:
  assumes "top_lua (m_thread m) = Some f" and "lf_num_extras f \<le> lf_base f"
    and "lf_base f \<le> length (th_stack (m_thread m))"
    and "reg m key = Some v" and "integral_key v = Some i"
  shows "op_varargget dst base key m = store_dispatch m dst
    (if 1 \<le> sint i \<and> nat (sint i) \<le> lf_num_extras f
     then frame_extras (m_thread m) f ! (nat (sint i) - 1) else VNil)"
  by (rule op_varargget_int [OF assms])

theorem varargget_indexes_extras_witness:
  "op_varargget 0 0 1 (demo_machine [VInt 7, VNil, VInt 1, VNil] 1 1)
    = store_dispatch (demo_machine [VInt 7, VNil, VInt 1, VNil] 1 1) 0 (VInt 7)"
proof -
  let ?m = "demo_machine [VInt 7, VNil, VInt 1, VNil] 1 1"
  have f: "top_lua (m_thread ?m) = Some (demo_frame 1 1)" "lf_num_extras (demo_frame 1 1) \<le> lf_base (demo_frame 1 1)"
    "lf_base (demo_frame 1 1) \<le> length (th_stack (m_thread ?m))"
    "reg ?m 1 = Some (VInt 1)" "integral_key (VInt 1) = Some 1"
    by (simp_all add: demo_defs top_lua_def reg_def reg_at_def idx_def integral_key_def)
  have "frame_extras (m_thread ?m) (demo_frame 1 1) ! 0 = VInt 7" "lf_num_extras (demo_frame 1 1) = 1"
    by (simp_all add: frame_extras_def demo_defs)
  then show ?thesis using varargget_indexes_extras [OF f, of 0 0] by simp
qed

section \<open>List constructors\<close>

text \<open>
  The bulk store behind SETLIST writes the values to consecutive integer keys of one table
  and nothing else, whatever mixture of slots, array growth and hash entries the table has.
\<close>

theorem set_sequence_writes:
  assumes "heap_inv h" and "t < h_next_table h" and "1 \<le> first"
    and "first + int (length vs) - 1 \<le> int max_vec_len"
  shows "\<exists>h'. set_sequence h t first vs = Some h' \<and> heap_inv h' \<and> h_next_table h' = h_next_table h
    \<and> (\<forall>i < length vs. contents h' t (CArr (nat first - 1 + i)) = vs ! i)
    \<and> (\<forall>c. c \<notin> (\<lambda>i. CArr (nat first - 1 + i)) ` {..<length vs} \<longrightarrow> contents h' t c = contents h t c)
    \<and> (\<forall>u < h_next_table h. u \<noteq> t \<longrightarrow> contents h' u = contents h u)"
  by (rule set_sequence_spec [OF assms]) blast

theorem set_sequence_writes_witness:
  "\<exists>h'. set_sequence (fst lua_new) 0 1 [VInt 7, VBool True] = Some h' \<and> contents h' 0 (CArr 1) = VBool True"
proof -
  obtain h' where h': "set_sequence (fst lua_new) 0 1 [VInt 7, VBool True] = Some h'"
    "\<forall>i < 2. contents h' 0 (CArr (nat 1 - 1 + i)) = [VInt 7, VBool True] ! i"
    using set_sequence_writes [OF fresh(1), of 0 1 "[VInt 7, VBool True]"] fresh(3)
    by (auto simp: max_vec_len_def numeral_2_eq_2)
  then show ?thesis using h'(2) [rule_format, of 1] by simp
qed

section \<open>Numeric loops\<close>

text \<open>
  The registers of a numeric loop: counter, limit and step, and room for the visible variable in
  \<open>R[base+3]\<close>. A round of FORLOOP that goes on writes the counter and the variable and jumps.
\<close>

definition loop_at :: "u8 \<Rightarrow> i64 \<Rightarrow> i64 \<Rightarrow> i64 \<Rightarrow> machine \<Rightarrow> bool" where
  "loop_at base i lim s m \<longleftrightarrow> unat base + 3 < 256 \<and> reg_at m (unat base) = Some (VInt i)
     \<and> reg_at m (unat base + 1) = Some (VInt lim) \<and> reg_at m (unat base + 2) = Some (VInt s)
     \<and> m_regs m + unat base + 3 < length (th_stack (m_thread m))"

definition next_round :: "u8 \<Rightarrow> i32 \<Rightarrow> i64 \<Rightarrow> machine \<Rightarrow> machine" where
  "next_round base offset i m = m\<lparr>m_thread := (m_thread m)\<lparr>th_stack :=
       (th_stack (m_thread m))[m_regs m + unat base := VInt i, m_regs m + unat base + 3 := VInt i]\<rparr>,
     m_ip := nat (int (m_ip m) + sint offset)\<rparr>"


lemma forloop_round:
  assumes "loop_at base i lim s m" and "0 \<le> int (m_ip m) + sint offset"
  shows "op_forloop base offset m = Some (Dispatch (case for_next (VInt i) (VInt lim) (VInt s) of
      Some (VInt n) \<Rightarrow> next_round base offset n m | _ \<Rightarrow> m))"
proof -
  have "\<exists>n. v = VInt n" if "for_next (VInt i) (VInt lim) (VInt s) = Some v" for v
    using that by (auto simp: for_next_def Let_def split: if_splits)
  then show ?thesis
    using assms add_u8_Some [of base 1] add_u8_Some [of base 2] add_u8_Some [of base 3]
    by (auto simp: op_forloop_def loop_at_def reg_def set_reg_def set_reg_at_def reg_at_def idx_def idx_set_def
        jump_def dispatch_def next_round_def add.assoc split: option.split if_splits)
qed


lemma loop_at_next_round:
  "loop_at base i lim s m \<Longrightarrow> loop_at base n lim s (next_round base offset n m)"
  by (auto simp: loop_at_def next_round_def reg_at_def idx_def nth_list_update split: if_splits)





text \<open>
  A loop up to \<open>maxinteger\<close> never ends: the counter wraps around to \<open>mininteger\<close>, which is
  again below the limit, so every round goes on.
\<close>

theorem for_loop_to_maxint_diverges:
  assumes "loop_at base i (word_of_int i64_max) 1 m" and "0 \<le> int (m_ip m) + sint offset"
  shows "op_forloop base offset m = Some (Dispatch (next_round base offset (i + 1) m))
    \<and> loop_at base (i + 1) (word_of_int i64_max) 1 (next_round base offset (i + 1) m)"
  using forloop_round [OF assms, unfolded for_next_max] loop_at_next_round [OF assms(1)] by simp

section \<open>Equality\<close>

text \<open>
  The EQ instruction compares representations: an integer never equals a float, and two
  floats are equal exactly when their bits are, so \<open>1 == 1.0\<close> is false, \<open>0.0 == -0.0\<close> is
  false and a NaN equals itself; the library's \<open>raw_eq\<close> on the same values says the opposite.
\<close>

theorem eq_compares_bits:
  assumes "reg m lhs = Some a" and "reg m rhs = Some b" and "kind a \<in> {KInteger, KFloat}"
    and "kind b \<in> {KInteger, KFloat}"
  shows "op_eq rt lhs rhs inverted m = skip_if ((a = b) \<noteq> inverted) m
    \<and> raw_eq (VInt 0) (VFloat 0) \<and> \<not> raw_eq (VFloat nan_bits) (VFloat nan_bits)"
proof -
  have "op_eq rt lhs rhs inverted m = skip_if ((a = b) \<noteq> inverted) m"
    using assms by (auto simp: op_eq_def Let_def)
  moreover have "float_eq_int 0 0" "\<not> f64_eq nan_bits nan_bits"
    by (simp_all add: float_eq_int_def float_to_integer_def is_finite_def f64_expo_def mag_units_def
        units_def f64_frac_def i64_of_f64_def is_nan_def trunc_int_def f64_sign_def f64_eq_def nan_bits_def)
  then have "raw_eq (VInt 0) (VFloat 0)" "\<not> raw_eq (VFloat nan_bits) (VFloat nan_bits)" by simp_all
  ultimately show ?thesis by blast
qed

theorem eq_compares_bits_witness:
  "op_eq demo_runtime 0 1 False (demo_machine [VInt 0, VFloat 0] 0 0) = skip_if False (demo_machine [VInt 0, VFloat 0] 0 0)"
proof -
  have "reg (demo_machine [VInt 0, VFloat 0] 0 0) 0 = Some (VInt 0)"
    "reg (demo_machine [VInt 0, VFloat 0] 0 0) 1 = Some (VFloat 0)"
    by (simp_all add: reg_def reg_at_def demo_defs idx_def)
  then show ?thesis using eq_compares_bits [of "demo_machine [VInt 0, VFloat 0] 0 0" 0 "VInt 0" 1 "VFloat 0" demo_runtime False]
    by simp
qed

end
