(* ===== verification/NumProps.thy ===== *)
theory NumProps
  imports NumOps InterpProps
begin

text \<open>
  The properties of the numeric operators: floor division on the wrapped 64-bit integers, the
  bit operators on floats and large shift counts, and how LT and LE compare integers with floats.
\<close>

section \<open>Helpers\<close>

lemma units_scale: "(2 :: int) ^ 1074 > 0"
  by simp

lemma units_less_scale: "a * 2 ^ 1074 < b * 2 ^ 1074 \<longleftrightarrow> a < (b :: int)"
  by (rule mult_less_cancel_right_pos) simp

lemma ucast_mod_64: "unat (ucast (b :: i64) :: u32) mod 64 = unat b mod 64"
proof -
  have "unat (ucast b :: u32) = unat b mod 2 ^ 32" by (simp add: unsigned_ucast_eq take_bit_eq_mod)
  moreover have "unat b mod 2 ^ 32 mod 64 = unat b mod (64 :: nat)" by (simp add: mod_mod_cancel)
  ultimately show ?thesis by simp
qed

lemma bit_operand_None_iff: "bit_operand v = None \<longleftrightarrow> kind v \<notin> {KInteger, KFloat}"
  by (cases v) (simp_all add: bit_operand_def)

section \<open>Integer arithmetic\<close>

text \<open>
  Integer \<open>//\<close> and \<open>%\<close> raise exactly on a zero divisor and are otherwise the floor quotient
  and its remainder, kept to 64 bits (so \<open>mininteger // -1\<close> wraps); the truncated machine
  division with its sign correction computes them.
\<close>

theorem int_division_floors:
  "op_arith powf IDiv (VInt a) (VInt b)
     = (if b = 0 then None else Some (VInt (word_of_int (sint a div sint b))))
   \<and> op_arith powf Mod (VInt a) (VInt b)
     = (if b = 0 then None else Some (VInt (word_of_int (sint a mod sint b))))"
  by (simp add: op_arith_def int_zero_divisor_raises_def idiv_int_floor mod_int_floor)

text \<open>
  The bit operators panic exactly on a float operand without an exact integer (the
  conversion is unwrapped); integers and other non-floats never panic, and a non-number is
  left to the metamethods.
\<close>

theorem op_bit_panics_iff:
  "op_bit opr a b = None \<longleftrightarrow>
     (\<exists>f. a = VFloat f \<and> exact_float_to_int f = None)
   \<or> (\<exists>f. b = VFloat f \<and> exact_float_to_int f = None \<and> kind a \<in> {KInteger, KFloat})"
  by (cases a; cases b) (auto simp: op_bit_def bit_operand_def split: option.splits)

text \<open>
  The shift count is taken modulo 64 and the right shift is arithmetic: shifting by 64 is
  the identity where the language defines the result 0, a negative count does not reverse the
  direction, and \<open>-1 >> 1\<close> is -1 where the language fills with zeros.
\<close>

theorem shift_counts_wrap:
  "op_bit Shl (VInt a) (VInt b) = Some (Some (VInt (push_bit (unat b mod 64) a)))
   \<and> op_bit Shr (VInt a) (VInt b) = Some (Some (VInt (signed_drop_bit (unat b mod 64) a)))
   \<and> op_bit Shl (VInt a) (VInt 64) = Some (Some (VInt a))
   \<and> op_bit Shr (VInt (- 1)) (VInt 1) = Some (Some (VInt (- 1)))"
proof -
  show ?thesis
    by (simp add: op_bit_def bit_operand_def wrapping_shl_def wrapping_shr_def ucast_mod_64)
qed

section \<open>Comparison\<close>

text \<open>
  An integer of magnitude at most \<open>2 ^ 53\<close> compares with a float as the exact rationals do:
  the operand conversion of \<open><\<close> and \<open><=\<close> is exact there, and a NaN compares false.
\<close>

theorem mixed_compare_exact:
  assumes "\<bar>sint i\<bar> \<le> 2 ^ 53"
  shows "lt_primitive (VInt i) (VFloat f) = Some (\<not> is_nan f \<and> sint i * 2 ^ 1074 < units f)
    \<and> le_primitive (VInt i) (VFloat f) = Some (\<not> is_nan f \<and> sint i * 2 ^ 1074 \<le> units f)
    \<and> lt_primitive (VFloat f) (VInt i) = Some (\<not> is_nan f \<and> units f < sint i * 2 ^ 1074)
    \<and> le_primitive (VFloat f) (VInt i) = Some (\<not> is_nan f \<and> units f \<le> sint i * 2 ^ 1074)"
  using units_of_int [OF assms]
  by (simp only: lt_primitive_def le_primitive_def prod.case lua_value.case f64_lt_def f64_le_def
      f64_of_i64_def not_nan_of_int) simp

theorem mixed_compare_exact_witness:
  "lt_primitive (VInt 1) (VFloat (f64_of_int 2)) = Some True"
proof -
  have "units (f64_of_int 2) = 2 * 2 ^ 1074" by (rule units_of_int) simp
  then have "(1 :: int) * 2 ^ 1074 < units (f64_of_int 2)" by (simp only: units_less_scale)
  then show ?thesis
    using mixed_compare_exact [of 1 "f64_of_int 2"] by simp
qed

text \<open>No double is an odd integer beyond \<open>2 ^ 53\<close>: its neighbours are at least 2 apart there.\<close>

lemma mag_units_not_odd:
  assumes "odd n" and "2 ^ 53 < n"
  shows "mag_units f \<noteq> n * 2 ^ 1074"
proof
  assume m: "mag_units f = n * 2 ^ 1074"
  have frac: "f64_frac f < 2 ^ 52" by (simp add: f64_frac_def)
  have big: "2 ^ 53 * 2 ^ 1074 < n * (2 :: nat) ^ 1074" using assms(2) by (simp only: mult_less_cancel2) simp
  show False
  proof (cases "f64_expo f = 0")
    case True
    have "(2 :: nat) ^ 52 < 2 ^ 53 * 2 ^ 1074" by (simp flip: power_add)
    moreover have "mag_units f = f64_frac f" using True by (simp add: mag_units_def)
    ultimately show ?thesis using m frac big by linarith
  next
    case False
    then have u: "(f64_frac f + 2 ^ 52) * 2 ^ (f64_expo f - 1) = n * 2 ^ 1074"
      using m by (simp only: mag_units_def if_False)
    show ?thesis
    proof (cases "f64_expo f - 1 \<le> 1074")
      case True
      have "(f64_frac f + 2 ^ 52) * 2 ^ (f64_expo f - 1) \<le> 2 ^ 53 * (2 :: nat) ^ 1074"
        using frac True by (intro mult_mono power_increasing) simp_all
      then show ?thesis using u big by linarith
    next
      case False
      then obtain k where "f64_expo f - 1 = 1074 + Suc k"
        by (metis add_Suc_right less_natE linorder_not_le)
      then have "(f64_frac f + 2 ^ 52) * 2 ^ Suc k * 2 ^ 1074 = n * 2 ^ 1074"
        using u by (simp only: power_add mult_ac)
      then have "(f64_frac f + 2 ^ 52) * 2 ^ Suc k = n" by (simp only: mult_cancel2) simp
      then show ?thesis using assms(1) by auto
    qed
  qed
qed

lemma units_not_odd:
  assumes "odd i" and "2 ^ 53 < \<bar>i\<bar>"
  shows "units f \<noteq> i * 2 ^ 1074"
proof
  assume u: "units f = i * 2 ^ 1074"
  have "int (mag_units f) = \<bar>units f\<bar>" by (simp add: units_def)
  also have "\<dots> = \<bar>i\<bar> * 2 ^ 1074" unfolding u abs_mult by (simp only: abs_of_pos [OF units_scale])
  also have "\<dots> = int (nat \<bar>i\<bar> * 2 ^ 1074)" by (simp only: of_nat_mult of_nat_power) simp
  finally have "mag_units f = nat \<bar>i\<bar> * 2 ^ 1074" by (simp only: of_nat_eq_iff)
  moreover have "odd (nat \<bar>i\<bar>)" "2 ^ 53 < nat \<bar>i\<bar>" using assms by (simp_all add: even_nat_iff)
  ultimately show False using mag_units_not_odd by blast
qed

lemma compare_primitive:
  assumes "reg m a = Some x" and "reg m b = Some y"
  shows "lt_primitive x y = Some r \<Longrightarrow> op_lt rt a b neg m = skip_if (r \<noteq> neg) m"
    and "le_primitive x y = Some r \<Longrightarrow> op_le rt a b neg m = skip_if (r \<noteq> neg) m"
  using assms by (simp_all add: op_lt_def op_le_def op_compare_def)

text \<open>
  C39. How LT and LE compare an integer with a float, in either order (a NaN compares false).
  They compare the float the integer rounds to. Up to \<open>2 ^ 53\<close> in magnitude that is the integer
  itself and the comparison is exact, as the language asks. Beyond, no float is an odd integer:
  with the float such an integer rounds to, LE is true both ways although the two are different.
\<close>

theorem mixed_compare_rounds:
  assumes "reg m a = Some (VInt i)" and "reg m b = Some (VFloat f)"
  shows "op_lt rt a b neg m = skip_if ((\<not> is_nan f \<and> units (f64_of_i64 i) < units f) \<noteq> neg) m
    \<and> op_le rt a b neg m = skip_if ((\<not> is_nan f \<and> units (f64_of_i64 i) \<le> units f) \<noteq> neg) m
    \<and> op_lt rt b a neg m = skip_if ((\<not> is_nan f \<and> units f < units (f64_of_i64 i)) \<noteq> neg) m
    \<and> op_le rt b a neg m = skip_if ((\<not> is_nan f \<and> units f \<le> units (f64_of_i64 i)) \<noteq> neg) m
    \<and> (\<bar>sint i\<bar> \<le> 2 ^ 53 \<longrightarrow> units (f64_of_i64 i) = sint i * 2 ^ 1074)
    \<and> (odd (sint i) \<and> 2 ^ 53 < \<bar>sint i\<bar> \<and> f = f64_of_i64 i \<longrightarrow> units f \<noteq> sint i * 2 ^ 1074
        \<and> op_le rt a b neg m = skip_if (True \<noteq> neg) m \<and> op_le rt b a neg m = skip_if (True \<noteq> neg) m)"
proof -
  note lt = compare_primitive(1) and le = compare_primitive(2)
  have "op_lt rt a b neg m = skip_if ((\<not> is_nan f \<and> units (f64_of_i64 i) < units f) \<noteq> neg) m"
    by (rule lt [OF assms]) (simp add: lt_primitive_def f64_lt_def f64_of_i64_def)
  moreover have le1: "op_le rt a b neg m = skip_if ((\<not> is_nan f \<and> units (f64_of_i64 i) \<le> units f) \<noteq> neg) m"
    by (rule le [OF assms]) (simp add: le_primitive_def f64_le_def f64_of_i64_def)
  moreover have "op_lt rt b a neg m = skip_if ((\<not> is_nan f \<and> units f < units (f64_of_i64 i)) \<noteq> neg) m"
    by (rule lt [OF assms(2,1)]) (simp add: lt_primitive_def f64_lt_def f64_of_i64_def)
  moreover have le2: "op_le rt b a neg m = skip_if ((\<not> is_nan f \<and> units f \<le> units (f64_of_i64 i)) \<noteq> neg) m"
    by (rule le [OF assms(2,1)]) (simp add: le_primitive_def f64_le_def f64_of_i64_def)
  moreover have "\<bar>sint i\<bar> \<le> 2 ^ 53 \<longrightarrow> units (f64_of_i64 i) = sint i * 2 ^ 1074"
    unfolding f64_of_i64_def by (rule impI) (rule units_of_int)
  moreover have "odd (sint i) \<and> 2 ^ 53 < \<bar>sint i\<bar> \<and> f = f64_of_i64 i \<longrightarrow> units f \<noteq> sint i * 2 ^ 1074
      \<and> op_le rt a b neg m = skip_if (True \<noteq> neg) m \<and> op_le rt b a neg m = skip_if (True \<noteq> neg) m"
  proof (intro impI)
    assume i: "odd (sint i) \<and> 2 ^ 53 < \<bar>sint i\<bar> \<and> f = f64_of_i64 i"
    then have "units f \<noteq> sint i * 2 ^ 1074" using units_not_odd by blast
    moreover have "\<not> is_nan f" using i by (simp add: f64_of_i64_def)
    ultimately show "units f \<noteq> sint i * 2 ^ 1074
      \<and> op_le rt a b neg m = skip_if (True \<noteq> neg) m \<and> op_le rt b a neg m = skip_if (True \<noteq> neg) m"
      using i le1 le2 by simp
  qed
  ultimately show ?thesis by (intro conjI)
qed

theorem mixed_compare_rounds_witness:
  "op_le demo_runtime 0 1 False (demo_machine [VInt 9007199254740993, VFloat (f64_of_i64 9007199254740993)] 0 0)
     = skip_if True (demo_machine [VInt 9007199254740993, VFloat (f64_of_i64 9007199254740993)] 0 0)
   \<and> units (f64_of_i64 9007199254740993) \<noteq> 9007199254740993 * 2 ^ 1074"
proof -
  let ?i = "9007199254740993 :: i64"
  let ?m = "demo_machine [VInt ?i, VFloat (f64_of_i64 ?i)] 0 0"
  have s: "sint ?i = 9007199254740993" using sint_of_int_i64 [of 9007199254740993] by simp
  then have "odd (sint ?i) \<and> 2 ^ 53 < \<bar>sint ?i\<bar>" by simp
  moreover have "reg ?m 0 = Some (VInt ?i)" "reg ?m 1 = Some (VFloat (f64_of_i64 ?i))"
    by (simp_all add: demo_defs reg_def reg_at_def idx_def)
  ultimately have "units (f64_of_i64 ?i) \<noteq> sint ?i * 2 ^ 1074
      \<and> op_le demo_runtime 0 1 False ?m = skip_if (True \<noteq> False) ?m"
    using mixed_compare_rounds [of ?m 0 ?i 1 "f64_of_i64 ?i" demo_runtime False] by blast
  then show ?thesis unfolding s by simp
qed

end
