(* ===== verification/Outcome.thy ===== *)
theory Outcome
  imports Prelude
begin

text \<open>
  Results of fallible functions: \<open>None\<close> for a panic, a left injection for an error the program
  raises, a right one for the value; and the sequencing that the operator \<open>?\<close> of the source does.
\<close>

type_synonym ('e, 'a) outcome = "('e + 'a) option"

abbreviation ok :: "'a \<Rightarrow> ('e, 'a) outcome" where "ok x \<equiv> Some (Inr x)"
abbreviation err :: "'e \<Rightarrow> ('e, 'a) outcome" where "err e \<equiv> Some (Inl e)"

definition and_then :: "('e, 'a) outcome \<Rightarrow> ('a \<Rightarrow> ('e, 'b) outcome) \<Rightarrow> ('e, 'b) outcome" where
  "and_then r f = (case r of None \<Rightarrow> None | Some (Inl e) \<Rightarrow> Some (Inl e) | Some (Inr x) \<Rightarrow> f x)"

lemma and_then_simps [simp]:
  "and_then None f = None" "and_then (err e) f = err e" "and_then (ok x) f = f x"
  by (simp_all add: and_then_def)

lemma and_then_ok_iff: "and_then r f = ok y \<longleftrightarrow> (\<exists>x. r = ok x \<and> f x = ok y)"
  by (auto simp: and_then_def split: option.splits sum.splits)

lemma and_then_None_iff: "and_then r f = None \<longleftrightarrow> r = None \<or> (\<exists>x. r = ok x \<and> f x = None)"
  by (auto simp: and_then_def split: option.splits sum.splits)

lemma and_then_okE:
  assumes "and_then r f = ok y"
  obtains x where "r = ok x" and "f x = ok y"
  using assms unfolding and_then_ok_iff by blast

lemma and_then_pairE:
  assumes "and_then r f = ok y"
  obtains a b where "r = ok (a, b)" and "f (a, b) = ok y"
  using assms unfolding and_then_ok_iff by fast

text \<open>A panic, an error or a missing value as an outcome.\<close>

definition of_panic :: "'a option \<Rightarrow> ('e, 'a) outcome" where
  "of_panic r = map_option Inr r"

definition map_err :: "('e \<Rightarrow> 'f) \<Rightarrow> ('e, 'a) outcome \<Rightarrow> ('f, 'a) outcome" where
  "map_err g r = map_option (map_sum g id) r"

definition ok_or :: "'e \<Rightarrow> 'a option \<Rightarrow> ('e, 'a) outcome" where
  "ok_or e r = (case r of None \<Rightarrow> err e | Some x \<Rightarrow> ok x)"

lemma of_panic_simps [simp]: "of_panic None = None" "of_panic (Some x) = ok x"
  by (simp_all add: of_panic_def)

lemma and_then_panicE:
  assumes "and_then (of_panic r) f = ok y"
  obtains x where "r = Some x" and "f x = ok y"
  using assms by (cases r) auto

lemma map_err_simps [simp]:
  "map_err g None = None" "map_err g (err e) = err (g e)" "map_err g (ok x) = ok x"
  by (simp_all add: map_err_def)

lemma map_err_ok_iff: "map_err g r = ok x \<longleftrightarrow> r = ok x"
  by (cases r) (auto simp: map_err_def map_sum_def split: sum.splits)

lemma map_err_None_iff: "map_err g r = None \<longleftrightarrow> r = None"
  by (simp add: map_err_def)

text \<open>The outcomes of a list of fallible steps, in order.\<close>

fun all_ok :: "('e, 'a) outcome list \<Rightarrow> ('e, 'a list) outcome" where
  "all_ok [] = ok []"
| "all_ok (r # rs) = and_then r (\<lambda>x. and_then (all_ok rs) (\<lambda>xs. ok (x # xs)))"

lemma all_ok_length: "all_ok rs = ok xs \<Longrightarrow> length xs = length rs"
  by (induction rs arbitrary: xs) (auto simp: and_then_ok_iff)

lemma all_ok_nth: "all_ok rs = ok xs \<Longrightarrow> i < length rs \<Longrightarrow> rs ! i = ok (xs ! i)"
  by (induction rs arbitrary: xs i) (auto simp: and_then_ok_iff nth_Cons split: nat.split)

end
