(* ===== verification/Pattern.thy ===== *)
theory Pattern
  imports NumText Outcome
begin

text \<open>
  \<open>builtin/string/pattern.rs\<close>: the pattern matcher. The subject and the pattern are borrowed
  unchanged by every method, so they are arguments; the state is the capture level and the capture
  array. The field \<open>matchdepth\<close> is decremented on entry to \<open>do_match\<close> and restored on return, so it
  is the first argument of \<open>do_match\<close>. A result is \<open>None\<close> for a panic, a left injection for a
  malformed pattern, else the value.
\<close>

section \<open>State and errors\<close>

definition MAX_CAPTURES :: nat where "MAX_CAPTURES = 32"
definition MAX_CCALLS :: nat where "MAX_CCALLS = 200"
definition L_ESC :: u8 where "L_ESC = 37"

text \<open>The bytes \<open>^$*+?.([%-\<close>.\<close>

definition SPECIALS :: bytes where "SPECIALS = [94, 36, 42, 43, 63, 46, 40, 91, 37, 45]"

datatype cap_len = Unfinished | Position | Len nat

record capture =
  cap_init :: nat
  cap_len :: cap_len

datatype cap_value = CapStr nat nat | CapPos int

datatype pat_error = EndsWithPercent | MissingBracket | BalanceArgs | MissingFrontierBracket
  | InvalidCaptureIndex int | InvalidPatternCapture | UnfinishedCapture | TooManyCaptures
  | PatternTooComplex

type_synonym 'a pat_result = "(pat_error, 'a) outcome"

record match_state =
  ms_level :: nat
  ms_capture :: "capture list"

datatype pat_step = Init nat nat | Done "nat option"

section \<open>Character classes\<close>

definition in_range :: "nat \<Rightarrow> nat \<Rightarrow> u8 \<Rightarrow> bool" where
  "in_range lo hi c \<longleftrightarrow> lo \<le> unat c \<and> unat c \<le> hi"

definition is_upper :: "u8 \<Rightarrow> bool" where "is_upper = in_range 65 90"
definition is_lower :: "u8 \<Rightarrow> bool" where "is_lower = in_range 97 122"
definition is_alpha :: "u8 \<Rightarrow> bool" where "is_alpha c \<longleftrightarrow> is_upper c \<or> is_lower c"
definition is_control :: "u8 \<Rightarrow> bool" where "is_control c \<longleftrightarrow> unat c < 32 \<or> c = 127"
definition is_graphic :: "u8 \<Rightarrow> bool" where "is_graphic = in_range 33 126"
definition is_punct :: "u8 \<Rightarrow> bool" where
  "is_punct c \<longleftrightarrow> in_range 33 47 c \<or> in_range 58 64 c \<or> in_range 91 96 c \<or> in_range 123 126 c"
definition is_xdigit :: "u8 \<Rightarrow> bool" where
  "is_xdigit c \<longleftrightarrow> is_digit c \<or> in_range 65 70 c \<or> in_range 97 102 c"

definition is_space :: "u8 \<Rightarrow> bool" where
  "is_space c \<longleftrightarrow> c = 32 \<or> in_range 9 13 c"

definition to_lower :: "u8 \<Rightarrow> u8" where
  "to_lower c = (if is_upper c then c + 32 else c)"

definition match_class :: "u8 \<Rightarrow> u8 \<Rightarrow> bool" where
  "match_class c cl =
     (let k = to_lower cl;
          r = (if k = 97 then Some (is_alpha c)
               else if k = 99 then Some (is_control c)
               else if k = 100 then Some (is_digit c)
               else if k = 103 then Some (is_graphic c)
               else if k = 108 then Some (is_lower c)
               else if k = 112 then Some (is_punct c)
               else if k = 115 then Some (is_space c)
               else if k = 117 then Some (is_upper c)
               else if k = 119 then Some (is_alpha c \<or> is_digit c)
               else if k = 120 then Some (is_xdigit c)
               else if k = 122 then Some (c = 0)
               else None)
      in case r of None \<Rightarrow> cl = c | Some b \<Rightarrow> if is_lower cl then b else \<not> b)"

text \<open>The loop of \<open>match_bracket_class\<close>, its body entered with the incremented \<open>p\<close>.\<close>

function bracket_loop :: "u8 \<Rightarrow> bytes \<Rightarrow> bool \<Rightarrow> nat \<Rightarrow> nat \<Rightarrow> bool option" where
  "bracket_loop c pat sig p ec =
     (if ec \<le> p then Some (\<not> sig)
      else case idx pat p of
        None \<Rightarrow> None
      | Some x \<Rightarrow>
          if x = L_ESC then
            (if p + 1 < length pat \<and> match_class c (pat ! (p + 1)) then Some sig
             else bracket_loop c pat sig (p + 2) ec)
          else if get_at pat (p + 1) = Some 45 \<and> p + 2 < ec then
            (case idx pat (p + 2) of
               None \<Rightarrow> None
             | Some hi \<Rightarrow> if x \<le> c \<and> c \<le> hi then Some sig else bracket_loop c pat sig (p + 3) ec)
          else if x = c then Some sig
          else bracket_loop c pat sig (p + 1) ec)"
  by pat_completeness auto
termination by (relation "measure (\<lambda>(_, _, _, p, ec). ec - p)") auto

declare bracket_loop.simps [simp del]

definition match_bracket_class :: "u8 \<Rightarrow> bytes \<Rightarrow> nat \<Rightarrow> nat \<Rightarrow> bool option" where
  "match_bracket_class c pat p_brk ec =
     (if get_at pat (p_brk + 1) = Some 94 then bracket_loop c pat False (p_brk + 2) ec
      else bracket_loop c pat True (p_brk + 1) ec)"

section \<open>Plain search\<close>

definition nospecials :: "bytes \<Rightarrow> bool" where
  "nospecials pat \<longleftrightarrow> \<not> (\<exists>b \<in> set pat. b \<in> set SPECIALS)"

function plain_loop :: "bytes \<Rightarrow> bytes \<Rightarrow> nat \<Rightarrow> nat option option" where
  "plain_loop hay needle i =
     (if length hay - length needle < i then Some None
      else case idx hay i of
        None \<Rightarrow> None
      | Some h \<Rightarrow> if h = hd needle \<and> take (length needle) (drop i hay) = needle then Some (Some i)
                  else plain_loop hay needle (i + 1))"
  by pat_completeness auto
termination by (relation "measure (\<lambda>(h, n, i). Suc (length h - length n) - i)") auto

declare plain_loop.simps [simp del]

definition plain_find :: "bytes \<Rightarrow> bytes \<Rightarrow> nat option option" where
  "plain_find hay needle =
     (if needle = [] then Some (Some 0)
      else if length hay < length needle then Some None
      else plain_loop hay needle 0)"

section \<open>Captures\<close>

definition match_state_new :: match_state where
  "match_state_new = \<lparr>ms_level = 0,
     ms_capture = replicate MAX_CAPTURES \<lparr>cap_init = 0, cap_len = Unfinished\<rparr>\<rparr>"

definition num_captures :: "match_state \<Rightarrow> bool \<Rightarrow> nat" where
  "num_captures ms has_whole = (if ms_level ms = 0 \<and> has_whole then 1 else ms_level ms)"

definition get_onecapture :: "match_state \<Rightarrow> nat \<Rightarrow> nat \<Rightarrow> nat \<Rightarrow> cap_value pat_result" where
  "get_onecapture ms i ws we =
     (if ms_level ms \<le> i then (if i \<noteq> 0 then err (InvalidCaptureIndex (int i + 1)) else ok (CapStr ws we))
      else and_then (of_panic (idx (ms_capture ms) i)) (\<lambda>c.
        case cap_len c of
          Unfinished \<Rightarrow> err UnfinishedCapture
        | Position \<Rightarrow> ok (CapPos (int (cap_init c) + 1))
        | Len n \<Rightarrow> ok (CapStr (cap_init c) (cap_init c + n))))"

section \<open>Pattern items\<close>

text \<open>The loop of \<open>classend\<close> that looks for the closing bracket.\<close>

function classend_loop :: "bytes \<Rightarrow> nat \<Rightarrow> nat pat_result" where
  "classend_loop pat p =
     (if length pat \<le> p then err MissingBracket
      else
        let p1 = p + 1;
            p2 = (if pat ! p = L_ESC \<and> p1 < length pat then p1 + 1 else p1)
        in if get_at pat p2 = Some 93 then ok (p2 + 1) else classend_loop pat p2)"
  by pat_completeness auto
termination by (relation "measure (\<lambda>(pat, p). length pat - p)") auto

declare classend_loop.simps [simp del]

definition classend :: "bytes \<Rightarrow> nat \<Rightarrow> nat pat_result" where
  "classend pat p0 = and_then (of_panic (idx pat p0)) (\<lambda>c.
     let p = p0 + 1 in
     if c = L_ESC then (if length pat \<le> p then err EndsWithPercent else ok (p + 1))
     else if c = 91 then classend_loop pat (if get_at pat p = Some 94 then p + 1 else p)
     else ok p)"

definition single_match :: "bytes \<Rightarrow> bytes \<Rightarrow> nat \<Rightarrow> nat \<Rightarrow> nat \<Rightarrow> bool option" where
  "single_match src pat s p ep =
     (if length src \<le> s then Some False
      else let c = src ! s in
        case idx pat p of
          None \<Rightarrow> None
        | Some x \<Rightarrow>
            if x = 46 then Some True
            else if x = L_ESC then map_option (match_class c) (idx pat (p + 1))
            else if x = 91 then match_bracket_class c pat p (ep - 1)
            else Some (x = c))"

text \<open>\<open>cont\<close> is an \<open>i32\<close>; its increment is checked.\<close>

function balance_loop :: "bytes \<Rightarrow> u8 \<Rightarrow> u8 \<Rightarrow> nat \<Rightarrow> nat \<Rightarrow> nat option pat_result" where
  "balance_loop src b e cont s =
     (if length src \<le> s then ok None
      else if src ! s = e then
        (if cont - 1 = 0 then ok (Some (s + 1)) else balance_loop src b e (cont - 1) (s + 1))
      else if src ! s = b then
        (if 2 ^ 31 \<le> cont + 1 then None else balance_loop src b e (cont + 1) (s + 1))
      else balance_loop src b e cont (s + 1))"
  by pat_completeness auto
termination by (relation "measure (\<lambda>(src, _, _, _, s). length src - s)") auto

declare balance_loop.simps [simp del]

definition match_balance :: "bytes \<Rightarrow> bytes \<Rightarrow> nat \<Rightarrow> nat \<Rightarrow> nat option pat_result" where
  "match_balance src pat s p =
     (if length pat \<le> p + 1 then err BalanceArgs
      else let b = pat ! p; e = pat ! (p + 1) in
        if length src \<le> s \<or> src ! s \<noteq> b then ok None
        else balance_loop src b e 1 (s + 1))"

section \<open>The matcher\<close>

type_synonym matcher = "nat \<Rightarrow> nat \<Rightarrow> match_state \<Rightarrow> (match_state \<times> nat option) pat_result"

text \<open>\<open>rec\<close> is the recursive call of \<open>do_match\<close>.\<close>

function max_count :: "bytes \<Rightarrow> bytes \<Rightarrow> nat \<Rightarrow> nat \<Rightarrow> nat \<Rightarrow> nat \<Rightarrow> nat option" where
  "max_count src pat s p ep i =
     (case single_match src pat (s + i) p ep of
        None \<Rightarrow> None
      | Some False \<Rightarrow> Some i
      | Some True \<Rightarrow> max_count src pat s p ep (i + 1))"
  by pat_completeness auto
termination
  by (relation "measure (\<lambda>(src, _, s, _, _, i). length src - (s + i))")
    (auto simp: single_match_def split: if_splits)

declare max_count.simps [simp del]

fun max_back :: "matcher \<Rightarrow> nat \<Rightarrow> nat \<Rightarrow> nat \<Rightarrow> match_state \<Rightarrow> (match_state \<times> nat option) pat_result" where
  "max_back rec s ep 0 ms = rec (s + 0) (ep + 1) ms"
| "max_back rec s ep (Suc i) ms = and_then (rec (s + Suc i) (ep + 1) ms) (\<lambda>(ms', r).
     case r of Some e \<Rightarrow> ok (ms', Some e) | None \<Rightarrow> max_back rec s ep i ms')"

definition max_expand :: "matcher \<Rightarrow> bytes \<Rightarrow> bytes \<Rightarrow> nat \<Rightarrow> nat \<Rightarrow> nat \<Rightarrow> match_state \<Rightarrow>
    (match_state \<times> nat option) pat_result" where
  "max_expand rec src pat s p ep ms =
     and_then (of_panic (max_count src pat s p ep 0)) (\<lambda>i. max_back rec s ep i ms)"

function min_expand :: "matcher \<Rightarrow> bytes \<Rightarrow> bytes \<Rightarrow> nat \<Rightarrow> nat \<Rightarrow> nat \<Rightarrow> match_state \<Rightarrow>
    (match_state \<times> nat option) pat_result" where
  "min_expand rec src pat s p ep ms =
     (case rec s (ep + 1) ms of
        None \<Rightarrow> None
      | Some (Inl e) \<Rightarrow> err e
      | Some (Inr (ms', Some e)) \<Rightarrow> ok (ms', Some e)
      | Some (Inr (ms', None)) \<Rightarrow>
          (case single_match src pat s p ep of
             None \<Rightarrow> None
           | Some True \<Rightarrow> min_expand rec src pat (s + 1) p ep ms'
           | Some False \<Rightarrow> ok (ms', None)))"
  by pat_completeness auto
termination
  by (relation "measure (\<lambda>(_, src, _, s, _, _, _). length src - s)")
    (auto simp: single_match_def split: if_splits)

declare min_expand.simps [simp del]

fun last_unfinished :: "capture list \<Rightarrow> nat \<Rightarrow> nat option" where
  "last_unfinished cs 0 = None"
| "last_unfinished cs (Suc l) = (if cap_len (cs ! l) = Unfinished then Some l else last_unfinished cs l)"

definition capture_to_close :: "match_state \<Rightarrow> nat pat_result" where
  "capture_to_close ms =
     (case last_unfinished (ms_capture ms) (ms_level ms) of
        Some l \<Rightarrow> ok l | None \<Rightarrow> err InvalidPatternCapture)"

definition start_capture :: "matcher \<Rightarrow> nat \<Rightarrow> nat \<Rightarrow> cap_len \<Rightarrow> match_state \<Rightarrow>
    (match_state \<times> nat option) pat_result" where
  "start_capture rec s p what ms =
     (let level = ms_level ms in
      if MAX_CAPTURES \<le> level then err TooManyCaptures
      else and_then (of_panic (idx_set (ms_capture ms) level \<lparr>cap_init = s, cap_len = what\<rparr>)) (\<lambda>cs.
        and_then (rec s p (ms\<lparr>ms_capture := cs, ms_level := level + 1\<rparr>)) (\<lambda>(ms', res).
          case res of
            Some e \<Rightarrow> ok (ms', Some e)
          | None \<Rightarrow> if ms_level ms' = 0 then None else ok (ms'\<lparr>ms_level := ms_level ms' - 1\<rparr>, None))))"

definition set_cap_len :: "nat \<Rightarrow> cap_len \<Rightarrow> match_state \<Rightarrow> match_state" where
  "set_cap_len l k ms = ms\<lparr>ms_capture := (ms_capture ms)[l := (ms_capture ms ! l)\<lparr>cap_len := k\<rparr>]\<rparr>"

definition end_capture :: "matcher \<Rightarrow> nat \<Rightarrow> nat \<Rightarrow> match_state \<Rightarrow> (match_state \<times> nat option) pat_result" where
  "end_capture rec s p ms =
     and_then (capture_to_close ms) (\<lambda>l.
       and_then (of_panic (idx (ms_capture ms) l)) (\<lambda>c.
         if s < cap_init c then None
         else and_then (rec s p (set_cap_len l (Len (s - cap_init c)) ms)) (\<lambda>(ms', res).
           case res of
             Some e \<Rightarrow> ok (ms', Some e)
           | None \<Rightarrow> ok (set_cap_len l Unfinished ms', None))))"

definition check_capture :: "match_state \<Rightarrow> u8 \<Rightarrow> nat pat_result" where
  "check_capture ms digit =
     (let l = int (unat digit) - 49 in
      if l < 0 \<or> ms_level ms \<le> nat l then err (InvalidCaptureIndex (l + 1))
      else and_then (of_panic (idx (ms_capture ms) (nat l))) (\<lambda>c.
        if cap_len c = Unfinished then err (InvalidCaptureIndex (l + 1)) else ok (nat l)))"

definition match_capture :: "bytes \<Rightarrow> nat \<Rightarrow> u8 \<Rightarrow> match_state \<Rightarrow> nat option pat_result" where
  "match_capture src s digit ms =
     and_then (check_capture ms digit) (\<lambda>l.
       and_then (of_panic (idx (ms_capture ms) l)) (\<lambda>c.
         case cap_len c of
           Len n \<Rightarrow>
             (if length src < s then None
              else if n \<le> length src - s then
                (if length src < cap_init c + n then None
                 else if take n (drop (cap_init c) src) = take n (drop s src) then ok (Some (s + n))
                 else ok None)
              else ok None)
         | _ \<Rightarrow> ok None))"

definition match_default :: "matcher \<Rightarrow> bytes \<Rightarrow> bytes \<Rightarrow> nat \<Rightarrow> nat \<Rightarrow> match_state \<Rightarrow>
    (match_state \<times> pat_step) pat_result" where
  "match_default rec src pat s p ms =
     and_then (classend pat p) (\<lambda>ep.
       and_then (of_panic (single_match src pat s p ep)) (\<lambda>m.
         let suffix = get_at pat ep in
         if \<not> m then
           (if suffix = Some 42 \<or> suffix = Some 63 \<or> suffix = Some 45 then ok (ms, Init s (ep + 1))
            else ok (ms, Done None))
         else if suffix = Some 63 then
           and_then (rec (s + 1) (ep + 1) ms) (\<lambda>(ms', r).
             case r of Some e \<Rightarrow> ok (ms', Done (Some e)) | None \<Rightarrow> ok (ms', Init s (ep + 1)))
         else if suffix = Some 43 then
           and_then (max_expand rec src pat (s + 1) p ep ms) (\<lambda>(ms', r). ok (ms', Done r))
         else if suffix = Some 42 then
           and_then (max_expand rec src pat s p ep ms) (\<lambda>(ms', r). ok (ms', Done r))
         else if suffix = Some 45 then
           and_then (min_expand rec src pat s p ep ms) (\<lambda>(ms', r). ok (ms', Done r))
         else ok (ms, Init (s + 1) ep)))"

definition frontier_step :: "bytes \<Rightarrow> bytes \<Rightarrow> nat \<Rightarrow> nat \<Rightarrow> match_state \<Rightarrow> (match_state \<times> pat_step) pat_result" where
  "frontier_step src pat s p ms =
     (let fp = p + 2 in
      if get_at pat fp \<noteq> Some 91 then err MissingFrontierBracket
      else and_then (classend pat fp) (\<lambda>ep.
        and_then (of_panic (if s = 0 then Some 0 else idx src (s - 1))) (\<lambda>prev.
          let cur = (if s < length src then src ! s else 0) in
          and_then (of_panic (match_bracket_class prev pat fp (ep - 1))) (\<lambda>mp.
            if mp then ok (ms, Done None)
            else and_then (of_panic (match_bracket_class cur pat fp (ep - 1))) (\<lambda>mc.
              ok (ms, if mc then Init s ep else Done None))))))"

text \<open>The body of the loop of \<open>do_match\<close>.\<close>

definition match_step :: "matcher \<Rightarrow> bytes \<Rightarrow> bytes \<Rightarrow> nat \<Rightarrow> nat \<Rightarrow> match_state \<Rightarrow>
    (match_state \<times> pat_step) pat_result" where
  "match_step rec src pat s p ms =
     (let c = pat ! p in
      if c = 40 then
        and_then (if get_at pat (p + 1) = Some 41 then start_capture rec s (p + 2) Position ms
                  else start_capture rec s (p + 1) Unfinished ms) (\<lambda>(ms', r). ok (ms', Done r))
      else if c = 41 then and_then (end_capture rec s (p + 1) ms) (\<lambda>(ms', r). ok (ms', Done r))
      else if c = 36 \<and> p + 1 = length pat then
        ok (ms, Done (if s = length src then Some s else None))
      else if c = L_ESC then
        (case get_at pat (p + 1) of
           None \<Rightarrow> match_default rec src pat s p ms
         | Some d \<Rightarrow>
             if d = 98 then and_then (match_balance src pat s (p + 2)) (\<lambda>r.
               ok (ms, case r of Some ns \<Rightarrow> Init ns (p + 4) | None \<Rightarrow> Done None))
             else if d = 102 then frontier_step src pat s p ms
             else if is_digit d then and_then (match_capture src s d ms) (\<lambda>r.
               ok (ms, case r of Some ns \<Rightarrow> Init ns (p + 2) | None \<Rightarrow> Done None))
             else match_default rec src pat s p ms)
      else match_default rec src pat s p ms)"

section \<open>The loop of \<open>do_match\<close>\<close>

text \<open>Every turn that goes on moves forward in the pattern.\<close>

lemma classend_loop_gt: "classend_loop pat p = ok ep \<Longrightarrow> p < ep"
proof (induction pat p rule: classend_loop.induct)
  case (1 pat p)
  show ?case
    using 1(1) [OF _ refl refl] 1(2)
    by (subst (asm) (2) classend_loop.simps) (auto simp: Let_def split: if_splits)
qed

lemma classend_gt: "classend pat p = ok ep \<Longrightarrow> p < ep"
  by (auto simp: classend_def and_then_ok_iff Let_def split: if_splits dest!: classend_loop_gt)

lemma match_default_gt:
  "match_default rec src pat s p ms = ok (ms', Init ns np) \<Longrightarrow> p < np"
  by (auto simp: match_default_def and_then_ok_iff Let_def dest!: classend_gt split: if_splits option.splits)

lemma frontier_step_gt: "frontier_step src pat s p ms = ok (ms', Init ns np) \<Longrightarrow> p < np"
proof -
  assume "frontier_step src pat s p ms = ok (ms', Init ns np)"
  then have "classend pat (p + 2) = ok np"
    by (cases "get_at pat (p + 2) = Some 91")
      (auto simp: frontier_step_def Let_def and_then_ok_iff split: if_split_asm)
  from classend_gt [OF this] show ?thesis by simp
qed

text \<open>The kinds of pattern items.\<close>

definition plain_item :: "bytes \<Rightarrow> nat \<Rightarrow> bool" where
  "plain_item pat p \<longleftrightarrow> pat ! p \<noteq> 40 \<and> pat ! p \<noteq> 41 \<and> \<not> (pat ! p = 36 \<and> p + 1 = length pat)
   \<and> (pat ! p = L_ESC \<longrightarrow> get_at pat (p + 1) \<noteq> Some 98 \<and> get_at pat (p + 1) \<noteq> Some 102
        \<and> (\<forall>d. get_at pat (p + 1) = Some d \<longrightarrow> \<not> is_digit d))"

lemma match_step_open:
  "pat ! p = 40 \<Longrightarrow> match_step rec src pat s p ms =
    and_then (if get_at pat (p + 1) = Some 41 then start_capture rec s (p + 2) Position ms
              else start_capture rec s (p + 1) Unfinished ms) (\<lambda>(ms', r). ok (ms', Done r))"
  by (simp add: match_step_def)

lemma match_step_close:
  "pat ! p = 41 \<Longrightarrow> match_step rec src pat s p ms =
    and_then (end_capture rec s (p + 1) ms) (\<lambda>(ms', r). ok (ms', Done r))"
  by (simp add: match_step_def)

lemma match_step_end:
  "pat ! p = 36 \<Longrightarrow> p + 1 = length pat \<Longrightarrow> match_step rec src pat s p ms =
    ok (ms, Done (if s = length src then Some s else None))"
  by (simp add: match_step_def)

lemma match_step_balance:
  "pat ! p = L_ESC \<Longrightarrow> get_at pat (p + 1) = Some 98 \<Longrightarrow> match_step rec src pat s p ms =
    and_then (match_balance src pat s (p + 2)) (\<lambda>r.
      ok (ms, case r of Some ns \<Rightarrow> Init ns (p + 4) | None \<Rightarrow> Done None))"
  by (simp add: match_step_def L_ESC_def)

lemma match_step_frontier:
  "pat ! p = L_ESC \<Longrightarrow> get_at pat (p + 1) = Some 102 \<Longrightarrow>
    match_step rec src pat s p ms = frontier_step src pat s p ms"
  by (simp add: match_step_def L_ESC_def)

lemma digit_not_letter: "is_digit d \<Longrightarrow> d \<noteq> 98 \<and> d \<noteq> 102"
  by (auto simp: is_digit_def)

lemma match_step_backref:
  "pat ! p = L_ESC \<Longrightarrow> get_at pat (p + 1) = Some d \<Longrightarrow> is_digit d \<Longrightarrow> match_step rec src pat s p ms =
    and_then (match_capture src s d ms) (\<lambda>r.
      ok (ms, case r of Some ns \<Rightarrow> Init ns (p + 2) | None \<Rightarrow> Done None))"
  using digit_not_letter [of d] by (simp add: match_step_def L_ESC_def)

lemma match_step_plain:
  "plain_item pat p \<Longrightarrow> match_step rec src pat s p ms = match_default rec src pat s p ms"
  by (auto simp: match_step_def plain_item_def split: option.split)

text \<open>The eight cases of an item.\<close>

lemma item_cases:
  obtains "pat ! p = 40" | "pat ! p = 41" | "pat ! p = 36" "p + 1 = length pat"
    | "pat ! p = L_ESC" "get_at pat (p + 1) = Some 98"
    | "pat ! p = L_ESC" "get_at pat (p + 1) = Some 102"
    | d where "pat ! p = L_ESC" "get_at pat (p + 1) = Some d" "is_digit d"
    | "plain_item pat p"
  unfolding plain_item_def by blast

lemma step_after_gt:
  "and_then r (\<lambda>r. ok (ms, case r of Some ns \<Rightarrow> Init ns q | None \<Rightarrow> Done None)) = ok (ms', Init ns np) \<Longrightarrow> np = q"
proof -
  assume g: "and_then r (\<lambda>r. ok (ms, case r of Some ns \<Rightarrow> Init ns q | None \<Rightarrow> Done None)) = ok (ms', Init ns np)"
  obtain y where "(case y of Some ns \<Rightarrow> Init ns q | None \<Rightarrow> Done None) = Init ns np"
    using g unfolding and_then_ok_iff by fastforce
  then show "np = q" by (cases y) simp_all
qed

lemma match_step_gt:
  assumes h: "match_step rec src pat s p ms = ok (ms', Init ns np)" shows "p < np"
proof (cases rule: item_cases [of pat p])
  case 1
  then show ?thesis using h by (auto simp: match_step_open and_then_ok_iff)
next
  case 2
  then show ?thesis using h by (auto simp: match_step_close and_then_ok_iff)
next
  case 3
  then show ?thesis using h by (simp add: match_step_end)
next
  case 4
  from step_after_gt [OF h [unfolded match_step_balance [OF 4]]] show ?thesis by simp
next
  case 5
  then show ?thesis using h by (simp add: match_step_frontier frontier_step_gt)
next
  case (6 d)
  from step_after_gt [OF h [unfolded match_step_backref [OF 6]]] show ?thesis by simp
next
  case 7
  then show ?thesis using h by (simp add: match_step_plain match_default_gt)
qed

function match_loop :: "matcher \<Rightarrow> bytes \<Rightarrow> bytes \<Rightarrow> nat \<Rightarrow> nat \<Rightarrow> match_state \<Rightarrow>
    (match_state \<times> nat option) pat_result" where
  "match_loop rec src pat s p ms =
     (if length pat \<le> p then ok (ms, Some s)
      else case match_step rec src pat s p ms of
        None \<Rightarrow> None
      | Some (Inl e) \<Rightarrow> err e
      | Some (Inr (ms', Done r)) \<Rightarrow> ok (ms', r)
      | Some (Inr (ms', Init ns np)) \<Rightarrow> match_loop rec src pat ns np ms')"
  by pat_completeness auto
termination
  by (relation "measure (\<lambda>(_, _, pat, _, p, _). length pat - p)") (auto dest: match_step_gt)

declare match_loop.simps [simp del]

primrec do_match :: "nat \<Rightarrow> bytes \<Rightarrow> bytes \<Rightarrow> matcher" where
  "do_match 0 src pat = (\<lambda>s p ms. err PatternTooComplex)"
| "do_match (Suc d) src pat = (\<lambda>s p ms. match_loop (do_match d src pat) src pat s p ms)"

definition match_at :: "bytes \<Rightarrow> bytes \<Rightarrow> nat \<Rightarrow> match_state \<Rightarrow> (match_state \<times> nat option) pat_result" where
  "match_at src pat s ms = do_match MAX_CCALLS src pat s 0 (ms\<lparr>ms_level := 0\<rparr>)"

end
