(* ===== verification/Coerce.thy ===== *)
theory Coerce
  imports Pattern
begin

text \<open>
  \<open>builtin/util.rs\<close> and the number parser of \<open>parser/lit.rs\<close> it uses: reading numbers from strings,
  the argument coercions of the library functions and the default \<open>tostring\<close>. The texts of error
  messages are the constructors of \<open>lib_error\<close>. The accuracy of \<open>f64::powi\<close> is unspecified, so it is
  an argument; the printed form of an object's address is one too.
\<close>

datatype lib_error = StringExpected nat | NumberExpected nat | NoIntegerRep nat | ValueOutOfRange nat
  | ResultTooLarge | PatternFault pat_error | InvalidPercent | InvalidReplacement
  | StringFunctionTableExpected | NotCallable | IndexChainTooLong | Raised lua_value
  | TableExpected nat | FunctionExpected nat | OutOfRange nat | OutOfBounds nat | WrongArgumentCount
  | InvalidElement int lua_value | TooMany nat | WrapAround nat | ArrayTooBig | TooManyResults
  | InvalidOrder | Incomparable lua_value lua_value | InvalidUtf8 | ContinuationPosition

type_synonym 'a lib = "(lib_error, 'a) outcome"

section \<open>Numbers in strings\<close>

definition is_ascii_whitespace :: "u8 \<Rightarrow> bool" where
  "is_ascii_whitespace c \<longleftrightarrow> c = 32 \<or> c = 9 \<or> c = 10 \<or> c = 12 \<or> c = 13"

definition trim :: "bytes \<Rightarrow> bytes" where
  "trim s = rev (dropWhile is_ascii_whitespace (rev (dropWhile is_ascii_whitespace s)))"

text \<open>\<open>char::to_digit(16)\<close>\<close>

definition hex_digit :: "u8 \<Rightarrow> nat option" where
  "hex_digit c = (let n = unat c in
     if 48 \<le> n \<and> n \<le> 57 then Some (n - 48)
     else if 97 \<le> n \<and> n \<le> 102 then Some (n - 87)
     else if 65 \<le> n \<and> n \<le> 70 then Some (n - 55)
     else None)"

fun hex_value :: "nat \<Rightarrow> bytes \<Rightarrow> nat option" where
  "hex_value acc [] = Some acc"
| "hex_value acc (c # cs) = (case hex_digit c of None \<Rightarrow> None | Some d \<Rightarrow> hex_value (16 * acc + d) cs)"

text \<open>\<open>u64::from_str_radix(s, 16)\<close>, which takes a leading plus sign, and \<open>str::parse::<i64>\<close>.\<close>

definition u64_from_hex :: "bytes \<Rightarrow> nat option" where
  "u64_from_hex s =
     (let ds = (if s \<noteq> [] \<and> hd s = 43 then tl s else s)
      in if ds = [] then None
         else case hex_value 0 ds of None \<Rightarrow> None | Some n \<Rightarrow> if n < 2 ^ 64 then Some n else None)"

definition parse_signed :: "bytes \<Rightarrow> int option" where
  "parse_signed s =
     (let neg = (s \<noteq> [] \<and> hd s = 45);
          ds = (if s \<noteq> [] \<and> (hd s = 45 \<or> hd s = 43) then tl s else s)
      in if ds = [] \<or> \<not> list_all is_digit ds then None
         else Some (if neg then - int (dec_value ds) else int (dec_value ds)))"

definition parse_i64 :: "bytes \<Rightarrow> i64 option" where
  "parse_i64 s = (case parse_signed s of
      None \<Rightarrow> None
    | Some i \<Rightarrow> if i64_min \<le> i \<and> i \<le> i64_max then Some (word_of_int i) else None)"

definition parse_i32 :: "bytes \<Rightarrow> int option" where
  "parse_i32 s = (case parse_signed s of
      None \<Rightarrow> None | Some i \<Rightarrow> if - (2 ^ 31) \<le> i \<and> i < 2 ^ 31 then Some i else None)"

definition strip_hex_prefix :: "bytes \<Rightarrow> bytes option" where
  "strip_hex_prefix s = (case s of
      x # y # r \<Rightarrow> if x = 48 \<and> (y = 120 \<or> y = 88) then Some r else None
    | _ \<Rightarrow> None)"

text \<open>The text before the first byte satisfying \<open>P\<close>, and the text after it.\<close>

definition split_at :: "(u8 \<Rightarrow> bool) \<Rightarrow> bytes \<Rightarrow> bytes \<times> bytes option" where
  "split_at P s = (takeWhile (\<lambda>c. \<not> P c) s,
     case dropWhile (\<lambda>c. \<not> P c) s of [] \<Rightarrow> None | _ # r \<Rightarrow> Some r)"

fun frac_loop :: "f64 \<Rightarrow> f64 \<Rightarrow> bytes \<Rightarrow> f64 option" where
  "frac_loop value place [] = Some value"
| "frac_loop value place (c # cs) = (case hex_digit c of
      None \<Rightarrow> None
    | Some d \<Rightarrow> frac_loop (f64_add value (f64_mul (f64_of_int (int d)) place))
                 (f64_div place (f64_of_int 16)) cs)"

text \<open>The digits before the exponent, then the exponent.\<close>

definition hex_mantissa :: "bytes \<Rightarrow> f64 option" where
  "hex_mantissa mantissa =
     (let (int_str, frac_str) = split_at (\<lambda>c. c = 46) mantissa
      in case (if int_str = [] then Some (f64_zero False)
               else map_option (\<lambda>n. f64_of_int (int n)) (u64_from_hex int_str)) of
           None \<Rightarrow> None
         | Some v \<Rightarrow>
             (case frac_str of
                None \<Rightarrow> Some v
              | Some fr \<Rightarrow> frac_loop v (f64_div (f64_of_int 1) (f64_of_int 16)) fr))"

definition parse_hex_float :: "(f64 \<Rightarrow> int \<Rightarrow> f64) \<Rightarrow> bytes \<Rightarrow> f64 option" where
  "parse_hex_float fpowi s0 =
     (case strip_hex_prefix s0 of
        None \<Rightarrow> None
      | Some s \<Rightarrow>
          (let (mantissa, exp_str) = split_at (\<lambda>c. c = 112 \<or> c = 80) s
           in case hex_mantissa mantissa of
                None \<Rightarrow> None
              | Some v \<Rightarrow>
                  (case exp_str of
                     None \<Rightarrow> Some v
                   | Some ex \<Rightarrow>
                       (case parse_i32 ex of
                          None \<Rightarrow> None
                        | Some k \<Rightarrow> Some (f64_mul v (fpowi (f64_of_int 2) k))))))"

text \<open>A text with a byte outside ASCII is never a number, valid UTF-8 or not.\<close>

definition str_to_number :: "(f64 \<Rightarrow> int \<Rightarrow> f64) \<Rightarrow> bytes \<Rightarrow> lua_value option" where
  "str_to_number fpowi b =
     (let s = trim b in
      if (\<exists>c \<in> set b. 128 \<le> unat c) \<or> s = [] then None
      else
        let neg = (hd s = 45);
            body = (if hd s = 43 \<or> hd s = 45 then tl s else s)
        in case strip_hex_prefix body of
             Some hex \<Rightarrow>
               if hex = [] then None
               else if \<exists>c \<in> set hex. c = 46 \<or> c = 112 \<or> c = 80 then
                 map_option (\<lambda>f. VFloat (if neg then f64_neg f else f)) (parse_hex_float fpowi body)
               else map_option (\<lambda>n. let i = word_of_nat n in VInt (if neg then - i else i)) (hex_value 0 hex)
           | None \<Rightarrow>
               if \<not> list_all (\<lambda>c. is_digit c \<or> c = 46 \<or> c = 101 \<or> c = 69 \<or> c = 43 \<or> c = 45) body
                  \<or> \<not> list_ex is_digit body then None
               else case parse_i64 s of
                      Some i \<Rightarrow> Some (VInt i)
                    | None \<Rightarrow> map_option VFloat (parse_f64 s))"

definition base_digit :: "u8 \<Rightarrow> nat option" where
  "base_digit c = (let n = unat c in
     if 48 \<le> n \<and> n \<le> 57 then Some (n - 48)
     else if 97 \<le> n \<and> n \<le> 122 then Some (n - 87)
     else if 65 \<le> n \<and> n \<le> 90 then Some (n - 55)
     else None)"

fun base_loop :: "nat \<Rightarrow> i64 \<Rightarrow> bytes \<Rightarrow> i64 option" where
  "base_loop base acc [] = Some acc"
| "base_loop base acc (c # cs) = (case base_digit c of
      None \<Rightarrow> None
    | Some d \<Rightarrow> if base \<le> d then None
                else base_loop base (acc * word_of_nat base + word_of_nat d) cs)"

definition str_to_int_base :: "bytes \<Rightarrow> nat \<Rightarrow> i64 option" where
  "str_to_int_base b base =
     (let t = trim b in
      if t = [] then None
      else
        let neg = (hd t = 45);
            digits = (if hd t = 43 \<or> hd t = 45 then tl t else t)
        in if digits = [] then None
           else map_option (\<lambda>acc. if neg then - acc else acc) (base_loop base 0 digits))"

section \<open>Argument coercions\<close>

definition to_number_arg :: "(f64 \<Rightarrow> int \<Rightarrow> f64) \<Rightarrow> lua_value \<Rightarrow> f64 option" where
  "to_number_arg fpowi v = (case v of
      VInt i \<Rightarrow> Some (f64_of_int (sint i))
    | VFloat f \<Rightarrow> Some f
    | VStr s \<Rightarrow> (case str_to_number fpowi s of
          Some (VInt i) \<Rightarrow> Some (f64_of_int (sint i))
        | Some (VFloat f) \<Rightarrow> Some f
        | _ \<Rightarrow> None)
    | _ \<Rightarrow> None)"

definition to_integer :: "(f64 \<Rightarrow> int \<Rightarrow> f64) \<Rightarrow> lua_value \<Rightarrow> i64 option" where
  "to_integer fpowi v = (case v of
      VInt i \<Rightarrow> Some i
    | VFloat f \<Rightarrow> float_to_integer f
    | VStr s \<Rightarrow> (case str_to_number fpowi s of
          Some (VInt i) \<Rightarrow> Some i
        | Some (VFloat f) \<Rightarrow> float_to_integer f
        | _ \<Rightarrow> None)
    | _ \<Rightarrow> None)"

definition check_number :: "(f64 \<Rightarrow> int \<Rightarrow> f64) \<Rightarrow> lua_value \<Rightarrow> nat \<Rightarrow> f64 lib" where
  "check_number fpowi v n = ok_or (NumberExpected n) (to_number_arg fpowi v)"

definition check_integer :: "(f64 \<Rightarrow> int \<Rightarrow> f64) \<Rightarrow> lua_value \<Rightarrow> nat \<Rightarrow> i64 lib" where
  "check_integer fpowi v n = (case to_integer fpowi v of
      Some i \<Rightarrow> ok i
    | None \<Rightarrow> if get_float v \<noteq> None then err (NoIntegerRep n) else err (NumberExpected n))"

definition basic_tostring :: "(lua_value \<Rightarrow> bytes) \<Rightarrow> lua_value \<Rightarrow> bytes" where
  "basic_tostring address v = (case v of
      VStr s \<Rightarrow> s
    | VNil \<Rightarrow> ascii ''nil''
    | VBool b \<Rightarrow> (if b then ascii ''true'' else ascii ''false'')
    | VInt i \<Rightarrow> push_int [] i
    | VFloat f \<Rightarrow> push_float [] f
    | _ \<Rightarrow> address v)"

end
