(* ===== verification/StringLib.thy ===== *)
theory StringLib
  imports Coerce
begin

text \<open>
  \<open>builtin/string/mod.rs\<close>: the functions of the string library over the pattern matcher. A call's
  arguments are the list of the values on its stack, absent ones reading as nil; a result is the
  list of returned values. A string is its bytes (theory Interner). \<open>fpowi\<close> stands for \<open>f64::powi\<close>
  in the coercion of numerals.
\<close>

section \<open>Arguments and positions\<close>

definition arg :: "lua_value list \<Rightarrow> nat \<Rightarrow> lua_value" where
  "arg args i = (if i < length args then args ! i else VNil)"

definition check_str :: "lua_value \<Rightarrow> nat \<Rightarrow> bytes lib" where
  "check_str v n = (case v of
      VStr s \<Rightarrow> ok s
    | VInt i \<Rightarrow> ok (push_int [] i)
    | VFloat f \<Rightarrow> ok (push_float [] f)
    | _ \<Rightarrow> err (StringExpected n))"

text \<open>\<open>if arg.is_nil() { default } else { check_integer(..)? }\<close>\<close>

definition opt_integer :: "(f64 \<Rightarrow> int \<Rightarrow> f64) \<Rightarrow> lua_value \<Rightarrow> nat \<Rightarrow> int \<Rightarrow> int lib" where
  "opt_integer fpowi v n dflt =
     (if is_nil v then ok dflt
      else and_then (check_integer fpowi v n) (\<lambda>i. ok (sint i)))"

lemma arg_simps [simp]: "arg (v # vs) 0 = v" "arg (v # vs) (Suc i) = arg vs i" "arg [] i = VNil"
  "arg (v # v' # vs) 2 = arg vs 0" "arg (v # v' # vs) 3 = arg vs 1"
  by (simp_all add: arg_def numeral_2_eq_2 numeral_3_eq_3)

lemma check_str_VStr [simp]: "check_str (VStr s) n = ok s"
  by (simp add: check_str_def)

lemma check_integer_VInt [simp]: "check_integer fpowi (VInt i) n = ok i"
  by (simp add: check_integer_def to_integer_def)

lemma opt_integer_simps [simp]: "opt_integer fpowi (VInt i) n d = ok (sint i)" "opt_integer fpowi VNil n d = ok d"
  by (simp_all add: opt_integer_def is_nil_def)

definition posrelat :: "int \<Rightarrow> nat \<Rightarrow> int" where
  "posrelat pos len =
     (if 0 \<le> pos then pos else if int len < - pos then 0 else int len + pos + 1)"

definition init_pos :: "int \<Rightarrow> nat \<Rightarrow> nat option" where
  "init_pos pos len =
     (let one_based = (if 0 < pos then nat pos
                       else if pos = 0 \<or> pos < - int len then 1
                       else nat (int len + pos + 1));
          init = one_based - 1
      in if init \<le> len then Some init else None)"

text \<open>\<open>&src[start..end]\<close>, which panics out of range.\<close>

definition subslice :: "bytes \<Rightarrow> nat \<Rightarrow> nat \<Rightarrow> bytes option" where
  "subslice src s e = (if s \<le> e \<and> e \<le> length src then Some (take (e - s) (drop s src)) else None)"

definition cap_to_value :: "bytes \<Rightarrow> cap_value \<Rightarrow> lua_value lib" where
  "cap_to_value src cv = (case cv of
      CapStr s e \<Rightarrow> and_then (of_panic (subslice src s e)) (\<lambda>b. ok (VStr b))
    | CapPos n \<Rightarrow> ok (VInt (word_of_int n)))"

section \<open>Simple functions\<close>

function byte_loop :: "bytes \<Rightarrow> int \<Rightarrow> int \<Rightarrow> lua_value list \<Rightarrow> lua_value list lib" where
  "byte_loop b k e out =
     (if e < k then ok out
      else case idx b (nat (k - 1)) of
        None \<Rightarrow> None
      | Some c \<Rightarrow> byte_loop b (k + 1) e (out @ [VInt (ucast c)]))"
  by pat_completeness auto
termination by (relation "measure (\<lambda>(b, k, e, out). nat (e + 1 - k))") auto

declare byte_loop.simps [simp del]

definition lua_byte :: "(f64 \<Rightarrow> int \<Rightarrow> f64) \<Rightarrow> lua_value list \<Rightarrow> lua_value list lib" where
  "lua_byte fpowi args =
     and_then (check_str (arg args 0) 1) (\<lambda>b.
       and_then (opt_integer fpowi (arg args 1) 2 1) (\<lambda>i.
         and_then (opt_integer fpowi (arg args 2) 3 i) (\<lambda>j.
           byte_loop b (max (posrelat i (length b)) 1) (min (posrelat j (length b)) (int (length b))) [])))"

fun char_loop :: "(f64 \<Rightarrow> int \<Rightarrow> f64) \<Rightarrow> nat \<Rightarrow> lua_value list \<Rightarrow> bytes \<Rightarrow> bytes lib" where
  "char_loop fpowi i [] out = ok out"
| "char_loop fpowi i (v # vs) out =
     and_then (check_integer fpowi v (i + 1)) (\<lambda>c.
       if 0 \<le> sint c \<and> sint c \<le> 255 then char_loop fpowi (i + 1) vs (out @ [ucast c])
       else err (ValueOutOfRange (i + 1)))"

definition lua_char :: "(f64 \<Rightarrow> int \<Rightarrow> f64) \<Rightarrow> lua_value list \<Rightarrow> lua_value list lib" where
  "lua_char fpowi args = and_then (char_loop fpowi 0 args []) (\<lambda>b. ok [VStr b])"

definition lua_len :: "lua_value list \<Rightarrow> lua_value list lib" where
  "lua_len args = and_then (check_str (arg args 0) 1) (\<lambda>b. ok [VInt (word_of_nat (length b))])"

definition to_upper :: "u8 \<Rightarrow> u8" where
  "to_upper c = (if is_lower c then c - 32 else c)"

definition lua_lower :: "lua_value list \<Rightarrow> lua_value list lib" where
  "lua_lower args = and_then (check_str (arg args 0) 1) (\<lambda>b. ok [VStr (map to_lower b)])"

definition lua_upper :: "lua_value list \<Rightarrow> lua_value list lib" where
  "lua_upper args = and_then (check_str (arg args 0) 1) (\<lambda>b. ok [VStr (map to_upper b)])"

definition lua_reverse :: "lua_value list \<Rightarrow> lua_value list lib" where
  "lua_reverse args = and_then (check_str (arg args 0) 1) (\<lambda>b. ok [VStr (rev b)])"

definition lua_sub :: "(f64 \<Rightarrow> int \<Rightarrow> f64) \<Rightarrow> lua_value list \<Rightarrow> lua_value list lib" where
  "lua_sub fpowi args =
     and_then (check_str (arg args 0) 1) (\<lambda>b.
       and_then (opt_integer fpowi (arg args 1) 2 1) (\<lambda>i.
         and_then (opt_integer fpowi (arg args 2) 3 (- 1)) (\<lambda>j.
           let s = max (posrelat i (length b)) 1;
               e = min (posrelat j (length b)) (int (length b))
           in if s \<le> e then and_then (of_panic (subslice b (nat (s - 1)) (nat e))) (\<lambda>r. ok [VStr r])
              else ok [VStr []])))"

text \<open>The checked size of \<open>rep\<close>, on \<open>usize\<close>, then its loop.\<close>

definition rep_total :: "nat \<Rightarrow> nat \<Rightarrow> nat \<Rightarrow> nat option" where
  "rep_total body sep n =
     (let per = body + sep; t = per * n in
      if 2 ^ 64 \<le> per \<or> 2 ^ 64 \<le> t \<or> t < sep then None
      else if int (t - sep) \<le> i64_max then Some (t - sep) else None)"

function rep_loop :: "bytes \<Rightarrow> bytes \<Rightarrow> nat \<Rightarrow> nat \<Rightarrow> bytes \<Rightarrow> bytes" where
  "rep_loop body sep n k out =
     (if k < n then rep_loop body sep n (k + 1) ((if 0 < k then out @ sep else out) @ body) else out)"
  by pat_completeness auto
termination by (relation "measure (\<lambda>(body, sep, n, k, out). n - k)") auto

declare rep_loop.simps [simp del]

definition lua_rep :: "(f64 \<Rightarrow> int \<Rightarrow> f64) \<Rightarrow> lua_value list \<Rightarrow> lua_value list lib" where
  "lua_rep fpowi args =
     and_then (check_str (arg args 0) 1) (\<lambda>body.
       and_then (check_integer fpowi (arg args 1) 2) (\<lambda>n.
         and_then (if is_nil (arg args 2) then ok [] else check_str (arg args 2) 3) (\<lambda>sep.
           if sint n \<le> 0 then ok [VStr []]
           else case rep_total (length body) (length sep) (nat (sint n)) of
             None \<Rightarrow> err ResultTooLarge
           | Some _ \<Rightarrow> ok [VStr (rep_loop body sep (nat (sint n)) 0 [])])))"

section \<open>Finding and matching\<close>

text \<open>
  The loop that \<open>find\<close> and \<open>match\<close> share: the first position from \<open>s1\<close> on where the pattern
  matches (only \<open>s1\<close> itself under an anchor), with the end of the match and the matcher's state.
\<close>

function scan :: "bytes \<Rightarrow> bytes \<Rightarrow> bool \<Rightarrow> nat \<Rightarrow> match_state \<Rightarrow> (nat \<times> nat \<times> match_state) option pat_result" where
  "scan src body anchor s1 ms =
     (case match_at src body s1 ms of
        None \<Rightarrow> None
      | Some (Inl e) \<Rightarrow> err e
      | Some (Inr (ms', Some e)) \<Rightarrow> ok (Some (s1, e, ms'))
      | Some (Inr (ms', None)) \<Rightarrow>
          if anchor \<or> length src \<le> s1 then ok None else scan src body anchor (s1 + 1) ms')"
  by pat_completeness auto
termination by (relation "measure (\<lambda>(src, body, anchor, s1, ms). length src - s1)") auto

declare scan.simps [simp del]

definition anchored :: "bytes \<Rightarrow> bool" where
  "anchored pat \<longleftrightarrow> get_at pat 0 = Some 94"

definition pat_body :: "bytes \<Rightarrow> bytes" where
  "pat_body pat = (if anchored pat then tl pat else pat)"

text \<open>The values of the captures of a match from \<open>s\<close> to \<open>e\<close>.\<close>

definition captures :: "bytes \<Rightarrow> match_state \<Rightarrow> bool \<Rightarrow> nat \<Rightarrow> nat \<Rightarrow> lua_value list lib" where
  "captures src ms has_whole s e =
     all_ok (map (\<lambda>i. and_then (map_err PatternFault (get_onecapture ms i s e)) (cap_to_value src))
       [0..<num_captures ms has_whole])"

definition lua_find :: "(f64 \<Rightarrow> int \<Rightarrow> f64) \<Rightarrow> lua_value list \<Rightarrow> lua_value list lib" where
  "lua_find fpowi args =
     and_then (check_str (arg args 0) 1) (\<lambda>src.
       and_then (check_str (arg args 1) 2) (\<lambda>pat.
         and_then (opt_integer fpowi (arg args 2) 3 1) (\<lambda>init_raw.
           case init_pos init_raw (length src) of
             None \<Rightarrow> ok [VNil]
           | Some init \<Rightarrow>
               if \<not> is_falsy (arg args 3) \<or> nospecials pat then
                 and_then (of_panic (plain_find (drop init src) pat)) (\<lambda>r. case r of
                     Some off \<Rightarrow> ok [VInt (word_of_nat (init + off + 1)),
                                     VInt (word_of_nat (init + off + length pat))]
                   | None \<Rightarrow> ok [VNil])
               else
                 and_then (map_err PatternFault (scan src (pat_body pat) (anchored pat) init match_state_new)) (\<lambda>r.
                   case r of
                     Some (s1, e, ms) \<Rightarrow>
                       and_then (captures src ms False s1 e) (\<lambda>cs.
                         ok (VInt (word_of_nat (s1 + 1)) # VInt (word_of_nat e) # cs))
                   | None \<Rightarrow> ok [VNil]))))"

definition lua_match :: "(f64 \<Rightarrow> int \<Rightarrow> f64) \<Rightarrow> lua_value list \<Rightarrow> lua_value list lib" where
  "lua_match fpowi args =
     and_then (check_str (arg args 0) 1) (\<lambda>src.
       and_then (check_str (arg args 1) 2) (\<lambda>pat.
         and_then (opt_integer fpowi (arg args 2) 3 1) (\<lambda>init_raw.
           case init_pos init_raw (length src) of
             None \<Rightarrow> ok [VNil]
           | Some init \<Rightarrow>
               and_then (map_err PatternFault (scan src (pat_body pat) (anchored pat) init match_state_new)) (\<lambda>r.
                 case r of
                   Some (s1, e, ms) \<Rightarrow> captures src ms True s1 e
                 | None \<Rightarrow> ok [VNil]))))"

section \<open>Iterating over matches\<close>

record gmatch_state =
  gm_src :: bytes
  gm_pat :: bytes
  gm_pos :: nat
  gm_lastmatch :: "nat option"

text \<open>A match ending where the last one ended is not taken: \<open>Some(e) if Some(e) != lastmatch\<close>.\<close>

definition new_match :: "nat option \<Rightarrow> nat option \<Rightarrow> nat option" where
  "new_match lastm m = (if m = lastm then None else m)"

definition lua_gmatch :: "(f64 \<Rightarrow> int \<Rightarrow> f64) \<Rightarrow> lua_value list \<Rightarrow> gmatch_state lib" where
  "lua_gmatch fpowi args =
     and_then (check_str (arg args 0) 1) (\<lambda>s.
       and_then (check_str (arg args 1) 2) (\<lambda>p.
         and_then (opt_integer fpowi (arg args 2) 3 1) (\<lambda>init_raw.
           let pos = (case init_pos init_raw (length s) of Some i \<Rightarrow> i | None \<Rightarrow> length s + 1)
           in ok \<lparr>gm_src = s, gm_pat = p, gm_pos = pos, gm_lastmatch = None\<rparr>)))"

function gmatch_loop :: "gmatch_state \<Rightarrow> nat \<Rightarrow> match_state \<Rightarrow> (gmatch_state \<times> lua_value list option) lib" where
  "gmatch_loop st pos ms =
     (if length (gm_src st) < pos then ok (st, None)
      else case match_at (gm_src st) (gm_pat st) pos ms of
        None \<Rightarrow> None
      | Some (Inl e) \<Rightarrow> err (PatternFault e)
      | Some (Inr (ms', m)) \<Rightarrow>
          (case new_match (gm_lastmatch st) m of
             Some e \<Rightarrow>
               and_then (captures (gm_src st) ms' True pos e) (\<lambda>cs.
                 ok (st\<lparr>gm_pos := e, gm_lastmatch := Some e\<rparr>, Some cs))
           | None \<Rightarrow> gmatch_loop st (pos + 1) ms'))"
  by pat_completeness auto
termination by (relation "measure (\<lambda>(st, pos, ms). Suc (length (gm_src st)) - pos)") auto

declare gmatch_loop.simps [simp del]

text \<open>One call of the iterator: no values when the subject is exhausted.\<close>

definition gmatch_aux :: "gmatch_state \<Rightarrow> (gmatch_state \<times> lua_value list option) lib" where
  "gmatch_aux st = gmatch_loop st (gm_pos st) match_state_new"

section \<open>Substitution\<close>

definition repl_template :: "lua_value \<Rightarrow> bytes option" where
  "repl_template v = (case v of
      VStr s \<Rightarrow> Some s
    | VInt i \<Rightarrow> Some (push_int [] i)
    | VFloat f \<Rightarrow> Some (push_float [] f)
    | _ \<Rightarrow> None)"

fun add_s :: "match_state \<Rightarrow> bytes \<Rightarrow> nat \<Rightarrow> nat \<Rightarrow> bytes \<Rightarrow> bytes \<Rightarrow> bytes lib" where
  "add_s ms src s e [] out = ok out"
| "add_s ms src s e (b # t) out =
     (if b \<noteq> 37 then add_s ms src s e t (out @ [b])
      else case t of
        [] \<Rightarrow> err InvalidPercent
      | c # t' \<Rightarrow>
          if c = 37 then add_s ms src s e t' (out @ [37])
          else if c = 48 then
            and_then (of_panic (subslice src s e)) (\<lambda>w. add_s ms src s e t' (out @ w))
          else if is_digit c then
            and_then (map_err PatternFault (get_onecapture ms (unat c - 49) s e)) (\<lambda>cv.
              case cv of
                CapStr x y \<Rightarrow> and_then (of_panic (subslice src x y)) (\<lambda>w. add_s ms src s e t' (out @ w))
              | CapPos n \<Rightarrow> add_s ms src s e t' (push_int out (word_of_int n)))
          else err InvalidPercent)"

text \<open>
  The loop of \<open>gsub_string\<close> and of \<open>gsub_run\<close>. \<open>fresh\<close> is what an iteration starts the matcher
  from (the last state, or a new one), \<open>repl w ms s e\<close> the text put for a match, with the state
  \<open>w\<close> it may change. The result is that state, the output, the position reached and the count.
\<close>

function gsub_loop :: "(match_state \<Rightarrow> match_state) \<Rightarrow>
    ('w \<Rightarrow> match_state \<Rightarrow> nat \<Rightarrow> nat \<Rightarrow> ('w \<times> bytes) lib) \<Rightarrow> bool \<Rightarrow> bytes \<Rightarrow> bytes \<Rightarrow> int \<Rightarrow>
    'w \<Rightarrow> match_state \<Rightarrow> bytes \<Rightarrow> nat \<Rightarrow> nat option \<Rightarrow> int \<Rightarrow> ('w \<times> bytes \<times> nat \<times> int) lib" where
  "gsub_loop fresh repl anchor src body max_n w ms out pos lastm count =
     (if max_n \<le> count then ok (w, out, pos, count)
      else case match_at src body pos (fresh ms) of
        None \<Rightarrow> None
      | Some (Inl e) \<Rightarrow> err (PatternFault e)
      | Some (Inr (ms', m)) \<Rightarrow>
          (case new_match lastm m of
             Some e \<Rightarrow>
               (case repl w ms' pos e of
                  None \<Rightarrow> None
                | Some (Inl x) \<Rightarrow> err x
                | Some (Inr (w', r)) \<Rightarrow>
                    if anchor then ok (w', out @ r, e, count + 1)
                    else gsub_loop fresh repl anchor src body max_n w' ms' (out @ r) e (Some e) (count + 1))
           | None \<Rightarrow>
               if pos < length src then
                 (if anchor then ok (w, out @ [src ! pos], pos + 1, count)
                  else gsub_loop fresh repl anchor src body max_n w ms' (out @ [src ! pos]) (pos + 1) lastm count)
               else ok (w, out, pos, count)))"
  by pat_completeness auto
termination
  by (relation "measures [\<lambda>(_, _, _, _, _, max_n, _, _, _, _, _, count). nat (max_n - count),
      \<lambda>(_, _, _, src, _, _, _, _, _, pos, _, _). length src - pos]") auto

declare gsub_loop.simps [simp del]

text \<open>After the loop the rest of the subject is appended.\<close>

definition gsub_finish :: "bytes \<Rightarrow> 'w \<times> bytes \<times> nat \<times> int \<Rightarrow> ('w \<times> bytes \<times> int) lib" where
  "gsub_finish src r = (case r of (w, out, pos, count) \<Rightarrow>
     and_then (of_panic (subslice src pos (length src))) (\<lambda>rest. ok (w, out @ rest, count)))"

definition gsub_string :: "bytes \<Rightarrow> bytes \<Rightarrow> bytes \<Rightarrow> int \<Rightarrow> (bytes \<times> int) lib" where
  "gsub_string src pat template max_n =
     and_then (gsub_loop (\<lambda>ms. ms)
         (\<lambda>w ms s e. and_then (add_s ms src s e template []) (\<lambda>r. ok (w, r)))
         (anchored pat) src (pat_body pat) max_n () match_state_new [] 0 None 0)
       (\<lambda>r. and_then (gsub_finish src r) (\<lambda>(_, out, count). ok (out, count)))"

end
