(* ===== verification/Gsub.thy ===== *)
theory Gsub
  imports StringLib Metachain
begin

text \<open>
  \<open>gsub\<close> of \<open>builtin/string/mod.rs\<close> with a table or function as the replacement (\<open>gsub_run\<close>), and the
  entry point. A call back into the interpreter, which the code awaits, is the argument \<open>call\<close>: from
  the heap, the function and the arguments to the heap and either the raised value or the results.
\<close>

type_synonym caller = "heap \<Rightarrow> addr \<Rightarrow> lua_value list \<Rightarrow> heap \<times> (lua_value + lua_value list)"

datatype repl = ReplFunc addr | ReplTable addr

datatype repl_result = Keep | Bytes bytes

definition classify_repl_result :: "lua_value \<Rightarrow> repl_result lib" where
  "classify_repl_result v =
     (if is_falsy v then ok Keep
      else case repl_template v of Some b \<Rightarrow> ok (Bytes b) | None \<Rightarrow> err InvalidReplacement)"

text \<open>\<open>seq.call(f, 0)\<close> with the arguments on the stack, then the first result.\<close>

definition call_repl :: "caller \<Rightarrow> heap \<Rightarrow> addr \<Rightarrow> lua_value list \<Rightarrow> (heap \<times> repl_result) lib" where
  "call_repl call h f args = (case call h f args of
      (h', Inl x) \<Rightarrow> err (Raised x)
    | (h', Inr rs) \<Rightarrow> and_then (classify_repl_result (arg rs 0)) (\<lambda>r. ok (h', r)))"

definition table_index_repl :: "caller \<Rightarrow> heap \<Rightarrow> addr \<Rightarrow> lua_value \<Rightarrow> (heap \<times> repl_result) lib" where
  "table_index_repl call h t key =
     and_then (of_panic (raw_get h t key)) (\<lambda>v.
       if \<not> is_nil v then and_then (classify_repl_result v) (\<lambda>r. ok (h, r))
       else if \<not> table_has_mm h t bit_INDEX then ok (h, Keep)
       else and_then (of_panic (table_metatable h t)) (\<lambda>mt.
         and_then (of_panic (walk_index_chain h (VTable t) mt key)) (\<lambda>c. case c of
             Resolved rv \<Rightarrow> and_then (classify_repl_result rv) (\<lambda>r. ok (h, r))
           | Invoke func receiver \<Rightarrow>
               (case get_function func of
                  Some f \<Rightarrow> call_repl call h f [receiver, key]
                | None \<Rightarrow> err NotCallable)
           | Exhausted \<Rightarrow> err IndexChainTooLong)))"

text \<open>A function gets every capture, a table is indexed by the first.\<close>

definition run_repl :: "caller \<Rightarrow> repl \<Rightarrow> bytes \<Rightarrow> heap \<Rightarrow> match_state \<Rightarrow> nat \<Rightarrow> nat \<Rightarrow> (heap \<times> bytes) lib" where
  "run_repl call rp src h ms s e =
     and_then (case rp of
         ReplFunc f \<Rightarrow> captures src ms True s e
       | ReplTable t \<Rightarrow>
           and_then (map_err PatternFault (get_onecapture ms 0 s e)) (\<lambda>cv.
             and_then (cap_to_value src cv) (\<lambda>k. ok [k]))) (\<lambda>cs.
       and_then (of_panic (subslice src s e)) (\<lambda>whole.
         and_then (case rp of
             ReplFunc f \<Rightarrow> call_repl call h f cs
           | ReplTable t \<Rightarrow> table_index_repl call h t (hd cs)) (\<lambda>(h', r).
           ok (h', case r of Keep \<Rightarrow> whole | Bytes b \<Rightarrow> b))))"

definition gsub_run :: "caller \<Rightarrow> heap \<Rightarrow> bytes \<Rightarrow> bytes \<Rightarrow> repl \<Rightarrow> int \<Rightarrow> (heap \<times> bytes \<times> int) lib" where
  "gsub_run call h src pat rp max_n =
     and_then (gsub_loop (\<lambda>_. match_state_new) (run_repl call rp src)
         (anchored pat) src (pat_body pat) max_n h match_state_new [] 0 None 0)
       (gsub_finish src)"

definition lua_gsub :: "(f64 \<Rightarrow> int \<Rightarrow> f64) \<Rightarrow> caller \<Rightarrow> heap \<Rightarrow> lua_value list \<Rightarrow> (heap \<times> lua_value list) lib" where
  "lua_gsub fpowi call h args =
     and_then (check_str (arg args 0) 1) (\<lambda>s.
       and_then (check_str (arg args 1) 2) (\<lambda>p.
         and_then (opt_integer fpowi (arg args 3) 4 (int (length s) + 1)) (\<lambda>max_n.
           case repl_template (arg args 2) of
             Some template \<Rightarrow>
               and_then (gsub_string s p template max_n) (\<lambda>(r, count). ok (h, [VStr r, VInt (word_of_int count)]))
           | None \<Rightarrow>
               (case (get_function (arg args 2), get_table (arg args 2)) of
                  (Some f, _) \<Rightarrow> and_then (gsub_run call h s p (ReplFunc f) max_n) (\<lambda>(h', r, count).
                    ok (h', [VStr r, VInt (word_of_int count)]))
                | (None, Some t) \<Rightarrow> and_then (gsub_run call h s p (ReplTable t) max_n) (\<lambda>(h', r, count).
                    ok (h', [VStr r, VInt (word_of_int count)]))
                | (None, None) \<Rightarrow> err StringFunctionTableExpected))))"

end
