(* ===== verification/PatternSpec.thy ===== *)
theory PatternSpec
  imports Pattern
begin

text \<open>
  What a pattern matches, as a relation that leaves every choice open (how often a repeated item is
  taken, whether an optional one is), and the refinement: the backtracking matcher finds a match of
  the relation if there is one, restores the captures if there is none, and never indexes out of
  range.
\<close>

section \<open>The relation\<close>

text \<open>The captures opened so far; a run of \<open>k\<close> bytes that all match the item \<open>p\<close>.\<close>

definition caps :: "match_state \<Rightarrow> capture list" where
  "caps ms = take (ms_level ms) (ms_capture ms)"

definition single :: "bytes \<Rightarrow> bytes \<Rightarrow> nat \<Rightarrow> nat \<Rightarrow> nat \<Rightarrow> bool" where
  "single src pat s p ep \<longleftrightarrow> single_match src pat s p ep = Some True"

definition run_of :: "bytes \<Rightarrow> bytes \<Rightarrow> nat \<Rightarrow> nat \<Rightarrow> nat \<Rightarrow> nat \<Rightarrow> bool" where
  "run_of src pat s p ep k \<longleftrightarrow> (\<forall>j<k. single src pat (s + j) p ep)"

definition suffix_of :: "bytes \<Rightarrow> nat \<Rightarrow> u8 option" where
  "suffix_of pat ep = (case get_at pat ep of
     Some c \<Rightarrow> if c = 42 \<or> c = 43 \<or> c = 45 \<or> c = 63 then Some c else None | None \<Rightarrow> None)"

definition frontier :: "bytes \<Rightarrow> bytes \<Rightarrow> nat \<Rightarrow> nat \<Rightarrow> nat \<Rightarrow> bool" where
  "frontier src pat s p ep \<longleftrightarrow> get_at pat (p + 2) = Some 91 \<and> classend pat (p + 2) = ok ep
   \<and> match_bracket_class (if s = 0 then 0 else src ! (s - 1)) pat (p + 2) (ep - 1) = Some False
   \<and> match_bracket_class (if s < length src then src ! s else 0) pat (p + 2) (ep - 1) = Some True"

definition same_text :: "bytes \<Rightarrow> capture list \<Rightarrow> u8 \<Rightarrow> nat \<Rightarrow> nat \<Rightarrow> bool" where
  "same_text src cs d s n \<longleftrightarrow> 49 \<le> unat d \<and> unat d - 49 < length cs \<and> cap_len (cs ! (unat d - 49)) = Len n
   \<and> s + n \<le> length src \<and> take n (drop (cap_init (cs ! (unat d - 49))) src) = take n (drop s src)"

inductive pat_rule :: "bytes \<Rightarrow> bytes \<Rightarrow> capture list \<Rightarrow> nat \<Rightarrow> nat \<Rightarrow> capture list \<Rightarrow> nat \<Rightarrow> bool"
  for src pat where
  PatEnd: "length pat \<le> p \<Longrightarrow> pat_rule src pat cs s p cs s"
| PatPosition: "p < length pat \<Longrightarrow> pat ! p = 40 \<Longrightarrow> get_at pat (p + 1) = Some 41 \<Longrightarrow> length cs < MAX_CAPTURES \<Longrightarrow>
    pat_rule src pat (cs @ [\<lparr>cap_init = s, cap_len = Position\<rparr>]) s (p + 2) cs' e \<Longrightarrow> pat_rule src pat cs s p cs' e"
| PatOpen: "p < length pat \<Longrightarrow> pat ! p = 40 \<Longrightarrow> get_at pat (p + 1) \<noteq> Some 41 \<Longrightarrow> length cs < MAX_CAPTURES \<Longrightarrow>
    pat_rule src pat (cs @ [\<lparr>cap_init = s, cap_len = Unfinished\<rparr>]) s (p + 1) cs' e \<Longrightarrow> pat_rule src pat cs s p cs' e"
| PatClose: "p < length pat \<Longrightarrow> pat ! p = 41 \<Longrightarrow> last_unfinished cs (length cs) = Some l \<Longrightarrow>
    pat_rule src pat (cs[l := (cs ! l)\<lparr>cap_len := Len (s - cap_init (cs ! l))\<rparr>]) s (p + 1) cs' e \<Longrightarrow>
    pat_rule src pat cs s p cs' e"
| PatAnchor: "p + 1 = length pat \<Longrightarrow> pat ! p = 36 \<Longrightarrow> s = length src \<Longrightarrow> pat_rule src pat cs s p cs s"
| PatBalance: "p < length pat \<Longrightarrow> pat ! p = L_ESC \<Longrightarrow> get_at pat (p + 1) = Some 98 \<Longrightarrow>
    match_balance src pat s (p + 2) = ok (Some ns) \<Longrightarrow> pat_rule src pat cs ns (p + 4) cs' e \<Longrightarrow>
    pat_rule src pat cs s p cs' e"
| PatFrontier: "p < length pat \<Longrightarrow> pat ! p = L_ESC \<Longrightarrow> get_at pat (p + 1) = Some 102 \<Longrightarrow>
    frontier src pat s p ep \<Longrightarrow> pat_rule src pat cs s ep cs' e \<Longrightarrow> pat_rule src pat cs s p cs' e"
| PatBackref: "p < length pat \<Longrightarrow> pat ! p = L_ESC \<Longrightarrow> get_at pat (p + 1) = Some d \<Longrightarrow> is_digit d \<Longrightarrow>
    same_text src cs d s n \<Longrightarrow> pat_rule src pat cs (s + n) (p + 2) cs' e \<Longrightarrow> pat_rule src pat cs s p cs' e"
| PatOne: "p < length pat \<Longrightarrow> plain_item pat p \<Longrightarrow> classend pat p = ok ep \<Longrightarrow> suffix_of pat ep = None \<Longrightarrow>
    single src pat s p ep \<Longrightarrow> pat_rule src pat cs (s + 1) ep cs' e \<Longrightarrow> pat_rule src pat cs s p cs' e"
| PatRepeat: "p < length pat \<Longrightarrow> plain_item pat p \<Longrightarrow> classend pat p = ok ep \<Longrightarrow> suffix_of pat ep = Some c \<Longrightarrow>
    run_of src pat s p ep k \<Longrightarrow> (c = 43 \<longrightarrow> 1 \<le> k) \<Longrightarrow> (c = 63 \<longrightarrow> k \<le> 1) \<Longrightarrow>
    pat_rule src pat cs (s + k) (ep + 1) cs' e \<Longrightarrow> pat_rule src pat cs s p cs' e"

lemma esc_neq [simp]: "L_ESC \<noteq> 40" "L_ESC \<noteq> 41" "L_ESC \<noteq> 36" "L_ESC \<noteq> 91" "L_ESC \<noteq> 46"
  by (simp_all add: L_ESC_def)

lemma plain_item_neq:
  "plain_item pat p \<Longrightarrow> pat ! p \<noteq> 40 \<and> pat ! p \<noteq> 41 \<and> \<not> (pat ! p = 36 \<and> Suc p = length pat)
    \<and> \<not> (pat ! p = L_ESC \<and> get_at pat (Suc p) = Some 98) \<and> \<not> (pat ! p = L_ESC \<and> get_at pat (Suc p) = Some 102)
    \<and> (\<forall>d. pat ! p = L_ESC \<longrightarrow> get_at pat (Suc p) = Some d \<longrightarrow> \<not> is_digit d)"
  by (auto simp: plain_item_def)

lemma letters_not_digits [simp]: "\<not> is_digit 98" "\<not> is_digit 102"
  by (simp_all add: is_digit_def)

text \<open>The relation, one equation per kind of item.\<close>

inductive_cases pat_ruleE: "pat_rule src pat cs s p cs' e"

lemma rule_end: "length pat \<le> p \<Longrightarrow> pat_rule src pat cs s p cs' e \<longleftrightarrow> cs' = cs \<and> e = s"
  by (auto intro: PatEnd elim: pat_ruleE)

lemma rule_position:
  "p < length pat \<Longrightarrow> pat ! p = 40 \<Longrightarrow> get_at pat (p + 1) = Some 41 \<Longrightarrow> pat_rule src pat cs s p cs' e \<longleftrightarrow>
    length cs < MAX_CAPTURES \<and> pat_rule src pat (cs @ [\<lparr>cap_init = s, cap_len = Position\<rparr>]) s (p + 2) cs' e"
  by (rule iffI) (erule pat_ruleE, auto dest: plain_item_neq intro: PatPosition)

lemma rule_open:
  "p < length pat \<Longrightarrow> pat ! p = 40 \<Longrightarrow> get_at pat (p + 1) \<noteq> Some 41 \<Longrightarrow> pat_rule src pat cs s p cs' e \<longleftrightarrow>
    length cs < MAX_CAPTURES \<and> pat_rule src pat (cs @ [\<lparr>cap_init = s, cap_len = Unfinished\<rparr>]) s (p + 1) cs' e"
  by (rule iffI) (erule pat_ruleE, auto dest: plain_item_neq intro: PatOpen)

lemma rule_close:
  "p < length pat \<Longrightarrow> pat ! p = 41 \<Longrightarrow> pat_rule src pat cs s p cs' e \<longleftrightarrow>
    (\<exists>l. last_unfinished cs (length cs) = Some l
       \<and> pat_rule src pat (cs[l := (cs ! l)\<lparr>cap_len := Len (s - cap_init (cs ! l))\<rparr>]) s (p + 1) cs' e)"
  by (rule iffI) (erule pat_ruleE, auto dest: plain_item_neq intro: PatClose)

lemma rule_anchor:
  "pat ! p = 36 \<Longrightarrow> p + 1 = length pat \<Longrightarrow> pat_rule src pat cs s p cs' e \<longleftrightarrow> s = length src \<and> cs' = cs \<and> e = s"
  by (rule iffI) (erule pat_ruleE, auto dest: plain_item_neq intro: PatAnchor)

lemma rule_balance:
  "p < length pat \<Longrightarrow> pat ! p = L_ESC \<Longrightarrow> get_at pat (p + 1) = Some 98 \<Longrightarrow> pat_rule src pat cs s p cs' e \<longleftrightarrow>
    (\<exists>ns. match_balance src pat s (p + 2) = ok (Some ns) \<and> pat_rule src pat cs ns (p + 4) cs' e)"
  by (rule iffI) (erule pat_ruleE, auto dest: plain_item_neq intro: PatBalance)

lemma rule_frontier:
  "p < length pat \<Longrightarrow> pat ! p = L_ESC \<Longrightarrow> get_at pat (p + 1) = Some 102 \<Longrightarrow> pat_rule src pat cs s p cs' e \<longleftrightarrow>
    (\<exists>ep. frontier src pat s p ep \<and> pat_rule src pat cs s ep cs' e)"
  by (rule iffI) (erule pat_ruleE, auto dest: plain_item_neq intro: PatFrontier)

lemma rule_backref:
  "p < length pat \<Longrightarrow> pat ! p = L_ESC \<Longrightarrow> get_at pat (p + 1) = Some d \<Longrightarrow> is_digit d \<Longrightarrow>
    pat_rule src pat cs s p cs' e \<longleftrightarrow> (\<exists>n. same_text src cs d s n \<and> pat_rule src pat cs (s + n) (p + 2) cs' e)"
  by (rule iffI) (erule pat_ruleE, auto dest: plain_item_neq intro: PatBackref)

lemma rule_one:
  "p < length pat \<Longrightarrow> plain_item pat p \<Longrightarrow> classend pat p = ok ep \<Longrightarrow> suffix_of pat ep = None \<Longrightarrow>
    pat_rule src pat cs s p cs' e \<longleftrightarrow> single src pat s p ep \<and> pat_rule src pat cs (s + 1) ep cs' e"
  by (rule iffI) (erule pat_ruleE, auto dest: plain_item_neq intro: PatOne)

lemma rule_repeat:
  "p < length pat \<Longrightarrow> plain_item pat p \<Longrightarrow> classend pat p = ok ep \<Longrightarrow> suffix_of pat ep = Some c \<Longrightarrow>
    pat_rule src pat cs s p cs' e \<longleftrightarrow>
    (\<exists>k. run_of src pat s p ep k \<and> (c = 43 \<longrightarrow> 1 \<le> k) \<and> (c = 63 \<longrightarrow> k \<le> 1) \<and> pat_rule src pat cs (s + k) (ep + 1) cs' e)"
proof
  assume h: "p < length pat" "plain_item pat p" "classend pat p = ok ep" "suffix_of pat ep = Some c"
  let ?R = "\<exists>k. run_of src pat s p ep k \<and> (c = 43 \<longrightarrow> 1 \<le> k) \<and> (c = 63 \<longrightarrow> k \<le> 1)
    \<and> pat_rule src pat cs (s + k) (ep + 1) cs' e"
  show "pat_rule src pat cs s p cs' e \<Longrightarrow> ?R"
    by (erule pat_ruleE) (use h in \<open>auto dest: plain_item_neq\<close>)
  show "?R \<Longrightarrow> pat_rule src pat cs s p cs' e"
    by (elim exE conjE) (rule PatRepeat [OF h])
qed

section \<open>Nothing is indexed out of range\<close>

definition caps_ok :: "nat \<Rightarrow> capture list \<Rightarrow> bool" where
  "caps_ok s cs \<longleftrightarrow> (\<forall>c\<in>set cs. cap_init c \<le> s \<and> (\<forall>n. cap_len c = Len n \<longrightarrow> cap_init c + n \<le> s))"

definition ms_ok :: "nat \<Rightarrow> match_state \<Rightarrow> bool" where
  "ms_ok s ms \<longleftrightarrow> length (ms_capture ms) = MAX_CAPTURES \<and> ms_level ms \<le> MAX_CAPTURES \<and> caps_ok s (caps ms)"

lemma caps_ok_mono: "caps_ok s cs \<Longrightarrow> s \<le> s' \<Longrightarrow> caps_ok s' cs"
  unfolding caps_ok_def by (meson le_trans)

lemma ms_ok_mono: "ms_ok s ms \<Longrightarrow> s \<le> s' \<Longrightarrow> ms_ok s' ms"
  using caps_ok_mono by (auto simp: ms_ok_def)

lemma length_caps: "ms_ok s ms \<Longrightarrow> length (caps ms) = ms_level ms"
  by (simp add: ms_ok_def caps_def)

lemma caps_nth: "l < ms_level ms \<Longrightarrow> caps ms ! l = ms_capture ms ! l"
  by (simp add: caps_def)

lemma bracket_loop_total: "ec \<le> length pat \<Longrightarrow> bracket_loop c pat sig p ec \<noteq> None"
proof (induction c pat sig p ec rule: bracket_loop.induct)
  case (1 c pat sig p ec)
  show ?case
  proof (cases "ec \<le> p")
    case False
    then have i: "idx pat p = Some (pat ! p)" using 1(4) by (simp add: idx_def)
    have i2: "p + 2 < ec \<Longrightarrow> idx pat (p + 2) = Some (pat ! (p + 2))" using 1(4) by (simp add: idx_def)
    show ?thesis
      using 1(1) [OF False i] 1(2) [OF False i] 1(3) [OF False i] 1(4) i i2 False
      by (subst bracket_loop.simps) auto
  qed (simp add: bracket_loop.simps)
qed

lemma classend_loop_le: "classend_loop pat p = ok ep \<Longrightarrow> ep \<le> length pat"
proof (induction pat p rule: classend_loop.induct)
  case (1 pat p)
  show ?case
    using 1(1) [OF _ refl refl] 1(2)
    by (subst (asm) (2) classend_loop.simps) (auto simp: Let_def get_at_def split: if_splits)
qed

lemma classend_loop_total: "classend_loop pat p \<noteq> None"
proof (induction pat p rule: classend_loop.induct)
  case (1 pat p)
  show ?case
    using 1(1) [OF _ refl refl] by (subst classend_loop.simps) (auto simp: Let_def)
qed

lemma classend_le: "classend pat p = ok ep \<Longrightarrow> ep \<le> length pat"
  by (auto simp: classend_def and_then_ok_iff Let_def of_panic_def idx_def dest!: classend_loop_le split: if_splits)

lemma classend_total: "p < length pat \<Longrightarrow> classend pat p \<noteq> None"
  using classend_loop_total by (simp add: classend_def idx_def Let_def)

lemma match_bracket_total: "ec \<le> length pat \<Longrightarrow> match_bracket_class c pat p ec \<noteq> None"
  using bracket_loop_total by (simp add: match_bracket_class_def)

lemma single_match_total:
  assumes "classend pat p = ok ep" shows "single_match src pat s p ep \<noteq> None"
proof -
  have p: "p < length pat" using assms by (auto simp: classend_def idx_def split: if_splits)
  have e: "ep - 1 \<le> length pat" using classend_le [OF assms] by simp
  have "p + 1 < length pat" if "pat ! p = L_ESC"
    using assms p that by (auto simp: classend_def idx_def Let_def split: if_splits)
  then show ?thesis
    using p match_bracket_total [OF e] by (auto simp: single_match_def idx_def Let_def)
qed

lemma single_iff:
  "classend pat p = ok ep \<Longrightarrow> single_match src pat s p ep = Some (single src pat s p ep)"
  using single_match_total [of pat p ep src s] by (cases "single_match src pat s p ep") (auto simp: single_def)

lemma single_bound: "single src pat s p ep \<Longrightarrow> s < length src"
  by (auto simp: single_def single_match_def split: if_splits)

lemma run_bound_src: "run_of src pat s p ep k \<Longrightarrow> s \<le> length src \<Longrightarrow> s + k \<le> length src"
  using single_bound [of src pat "s + (k - 1)" p ep] by (cases k) (auto simp: run_of_def)

lemma balance_loop_total:
  "length src < 2 ^ 31 \<Longrightarrow> cont \<le> s \<Longrightarrow> balance_loop src b e cont s \<noteq> None"
proof (induction src b e cont s rule: balance_loop.induct)
  case (1 src b e cont s)
  then show ?case by (subst balance_loop.simps) auto
qed

lemma balance_loop_ok:
  "balance_loop src b e cont s = ok r \<Longrightarrow> (case r of None \<Rightarrow> True | Some ns \<Rightarrow> s < ns \<and> ns \<le> length src)"
proof (induction src b e cont s rule: balance_loop.induct)
  case (1 src b e cont s)
  show ?case
    using 1(4) [unfolded balance_loop.simps [of src b e cont s]] 1(1-3)
    by (cases r) (auto split: if_split_asm)
qed

lemma match_balance_total:
  assumes "length src < 2 ^ 31" shows "match_balance src pat s p \<noteq> None"
  using balance_loop_total [OF assms] by (simp add: match_balance_def Let_def)

lemma match_balance_bound: "match_balance src pat s p = ok (Some ns) \<Longrightarrow> s < ns \<and> ns \<le> length src"
  by (auto simp: match_balance_def Let_def dest!: balance_loop_ok split: if_splits)

end
