(* ===== verification/PatternRefine.thy ===== *)
theory PatternRefine
  imports PatternSpec
begin

text \<open>
  The backtracking matcher implements the relation \<open>pat_rule\<close>: every method, given recursive calls
  that do, returns a match of the relation, or none when there is none, with the captures as they
  were.
\<close>

section \<open>What a call guarantees\<close>

definition result_ok :: "bytes \<Rightarrow> bytes \<Rightarrow> nat \<Rightarrow> nat \<Rightarrow> match_state \<Rightarrow> (match_state \<times> nat option) pat_result \<Rightarrow> bool" where
  "result_ok src pat s p ms R \<longleftrightarrow> (case R of
      None \<Rightarrow> False
    | Some (Inl _) \<Rightarrow> True
    | Some (Inr (ms', Some e)) \<Rightarrow> s \<le> e \<and> e \<le> length src \<and> ms_ok e ms' \<and> pat_rule src pat (caps ms) s p (caps ms') e
    | Some (Inr (ms', None)) \<Rightarrow> ms_ok s ms' \<and> caps ms' = caps ms \<and> (\<forall>cs e. \<not> pat_rule src pat (caps ms) s p cs e))"

definition good_matcher :: "bytes \<Rightarrow> bytes \<Rightarrow> matcher \<Rightarrow> bool" where
  "good_matcher src pat rec \<longleftrightarrow> (\<forall>s p ms. s \<le> length src \<longrightarrow> ms_ok s ms \<longrightarrow> result_ok src pat s p ms (rec s p ms))"

definition step_ok :: "bytes \<Rightarrow> bytes \<Rightarrow> nat \<Rightarrow> nat \<Rightarrow> match_state \<Rightarrow> (match_state \<times> pat_step) pat_result \<Rightarrow> bool" where
  "step_ok src pat s p ms R \<longleftrightarrow> (case R of
      None \<Rightarrow> False
    | Some (Inl _) \<Rightarrow> True
    | Some (Inr (ms', Done r)) \<Rightarrow> result_ok src pat s p ms (ok (ms', r))
    | Some (Inr (ms', Init ns np)) \<Rightarrow> s \<le> ns \<and> ns \<le> length src \<and> ms_ok ns ms' \<and> caps ms' = caps ms
        \<and> (\<forall>cs e. pat_rule src pat (caps ms) ns np cs e = pat_rule src pat (caps ms) s p cs e))"

text \<open>The same for a search among the numbers of repetitions in \<open>K\<close>.\<close>

definition among_ok :: "bytes \<Rightarrow> bytes \<Rightarrow> nat \<Rightarrow> nat \<Rightarrow> (nat \<Rightarrow> bool) \<Rightarrow> match_state \<Rightarrow>
    (match_state \<times> nat option) pat_result \<Rightarrow> bool" where
  "among_ok src pat s q K ms R \<longleftrightarrow> (case R of
      None \<Rightarrow> False
    | Some (Inl _) \<Rightarrow> True
    | Some (Inr (ms', Some e)) \<Rightarrow> s \<le> e \<and> e \<le> length src \<and> ms_ok e ms'
        \<and> (\<exists>k. K k \<and> pat_rule src pat (caps ms) (s + k) q (caps ms') e)
    | Some (Inr (ms', None)) \<Rightarrow> ms_ok s ms' \<and> caps ms' = caps ms
        \<and> (\<forall>k cs e. K k \<longrightarrow> \<not> pat_rule src pat (caps ms) (s + k) q cs e))"

lemma good_call:
  assumes "good_matcher src pat rec" "s \<le> length src" "ms_ok s ms"
  obtains x where "rec s p ms = err x"
    | ms' e where "rec s p ms = ok (ms', Some e)" "s \<le> e" "e \<le> length src" "ms_ok e ms'"
        "pat_rule src pat (caps ms) s p (caps ms') e"
    | ms' where "rec s p ms = ok (ms', None)" "ms_ok s ms'" "caps ms' = caps ms"
        "\<And>cs e. \<not> pat_rule src pat (caps ms) s p cs e"
proof -
  have r: "result_ok src pat s p ms (rec s p ms)" using assms by (simp add: good_matcher_def)
  show thesis
  proof (cases "rec s p ms")
    case None
    then show ?thesis using r by (simp add: result_ok_def)
  next
    case (Some y)
    show ?thesis
    proof (cases y)
      case (Inl x)
      then show ?thesis using Some that(1) by simp
    next
      case (Inr z)
      obtain ms' q where z: "z = (ms', q)" by (cases z)
      show ?thesis
      proof (cases q)
        case None
        then show ?thesis using r Some Inr z that(3) [of ms'] by (simp add: result_ok_def)
      next
        case (Some e)
        then show ?thesis using r \<open>rec s p ms = Some y\<close> Inr z that(2) [of ms' e] by (simp add: result_ok_def)
      qed
    qed
  qed
qed

lemma ms_ok_same_caps: "ms_ok t ms' \<Longrightarrow> caps ms' = caps ms \<Longrightarrow> ms_ok s ms \<Longrightarrow> ms_ok s ms'"
  by (simp add: ms_ok_def)

section \<open>Repetition\<close>

lemma max_count_ok:
  assumes "classend pat p = ok ep"
  shows "\<exists>m. max_count src pat s p ep i = Some m \<and> i \<le> m
    \<and> (\<forall>j. i \<le> j \<longrightarrow> j < m \<longrightarrow> single src pat (s + j) p ep) \<and> \<not> single src pat (s + m) p ep"
  using assms
proof (induction src pat s p ep i rule: max_count.induct)
  case (1 src pat s p ep i)
  note si = single_iff [OF 1(2)]
  show ?case
  proof (cases "single src pat (s + i) p ep")
    case True
    then have "single_match src pat (s + i) p ep = Some True" by (simp add: single_def)
    from 1(1) [OF this refl 1(2)] obtain m where m: "max_count src pat s p ep (i + 1) = Some m" "i + 1 \<le> m"
        "\<forall>j. i + 1 \<le> j \<longrightarrow> j < m \<longrightarrow> single src pat (s + j) p ep" "\<not> single src pat (s + m) p ep" by blast
    have "single src pat (s + j) p ep" if "i \<le> j" "j < m" for j
      using that m(3) True by (cases "j = i") auto
    moreover have "max_count src pat s p ep i = Some m"
      using m(1) si [of src "s + i"] True by (subst max_count.simps) simp
    ultimately show ?thesis using m(2,4) by auto
  next
    case False
    then show ?thesis using si [of src "s + i"] by (subst max_count.simps) simp
  qed
qed

lemma max_back_ok:
  assumes g: "good_matcher src pat rec" and "s + i \<le> length src" "ms_ok s ms"
  shows "among_ok src pat s (ep + 1) (\<lambda>k. k \<le> i) ms (max_back rec s ep i ms)"
  using assms(2,3)
proof (induction i arbitrary: ms)
  case 0
  have "s \<le> length src" using 0 by simp
  from good_call [OF g this 0(2), of "ep + 1"] show ?case
    by cases (auto simp: among_ok_def)
next
  case (Suc i)
  have m: "ms_ok (s + Suc i) ms" by (rule ms_ok_mono [OF Suc.prems(2)]) simp
  from good_call [OF g Suc.prems(1) m, of "ep + 1"] show ?case
  proof cases
    case (2 ms' e)
    then show ?thesis by (auto simp: among_ok_def)
  next
    case (3 ms')
    have m': "ms_ok s ms'" using ms_ok_same_caps 3(2,3) Suc.prems(2) by blast
    have "among_ok src pat s (ep + 1) (\<lambda>k. k \<le> i) ms' (max_back rec s ep i ms')"
      using Suc.IH m' Suc.prems(1) by simp
    then show ?thesis
      using 3 by (auto simp: among_ok_def le_Suc_eq split: option.splits sum.splits)
  qed (simp add: among_ok_def)
qed

lemma run_le_iff:
  assumes "\<forall>j<m. single src pat (s + j) p ep" "\<not> single src pat (s + m) p ep"
  shows "run_of src pat s p ep k \<longleftrightarrow> k \<le> m"
  using assms unfolding run_of_def by (meson leI less_le_trans)

lemma max_expand_ok:
  assumes g: "good_matcher src pat rec" and s: "s \<le> length src" "ms_ok s ms" and ep: "classend pat p = ok ep"
  shows "among_ok src pat s (ep + 1) (run_of src pat s p ep) ms (max_expand rec src pat s p ep ms)"
proof -
  obtain m where m: "max_count src pat s p ep 0 = Some m" "\<forall>j<m. single src pat (s + j) p ep"
      "\<not> single src pat (s + m) p ep"
    using max_count_ok [OF ep, of src s 0] by auto
  have r: "run_of src pat s p ep = (\<lambda>k. k \<le> m)" using run_le_iff [OF m(2,3)] by blast
  have "run_of src pat s p ep m" using r by simp
  from max_back_ok [OF g run_bound_src [OF this s(1)] s(2)] show ?thesis using m(1) r by (simp add: max_expand_def)
qed

lemma run_of_Suc: "single src pat s p ep \<Longrightarrow> run_of src pat s p ep (Suc k) = run_of src pat (s + 1) p ep k"
  by (auto simp: run_of_def less_Suc_eq_0_disj)

lemma run_of_0 [simp]: "run_of src pat s p ep 0"
  by (simp add: run_of_def)

lemma run_of_pos: "run_of src pat s p ep k \<Longrightarrow> 0 < k \<Longrightarrow> single src pat s p ep"
  by (auto simp: run_of_def dest: spec [of _ 0])

lemma min_expand_ok:
  assumes "good_matcher src pat rec" "s \<le> length src" "ms_ok s ms" "classend pat p = ok ep"
  shows "among_ok src pat s (ep + 1) (run_of src pat s p ep) ms (min_expand rec src pat s p ep ms)"
  using assms
proof (induction rec src pat s p ep ms rule: min_expand.induct)
  case (1 rec src pat s p ep ms)
  note u = min_expand.simps [of rec src pat s p ep ms]
  note si = single_iff [OF 1(5)]
  from good_call [OF 1(2-4), of "ep + 1"] show ?case
  proof cases
    case (2 ms' e)
    have "run_of src pat s p ep 0" by simp
    then show ?thesis using 2 unfolding u among_ok_def by (auto intro!: exI [of _ 0])
  next
    case (3 ms')
    have zero: "\<not> pat_rule src pat (caps ms) (s + 0) (ep + 1) cs e" for cs e using 3(4) by simp
    show ?thesis
    proof (cases "single src pat s p ep")
      case True
      have sl: "s + 1 \<le> length src" using single_bound [OF True] by simp
      have m': "ms_ok (s + 1) ms'" by (rule ms_ok_mono [OF 3(2)]) simp
      have IH: "among_ok src pat (s + 1) (ep + 1) (run_of src pat (s + 1) p ep) ms'
          (min_expand rec src pat (s + 1) p ep ms')"
        by (rule 1(1) [OF 3(1) refl refl refl, of True]) (use True 1(2,5) sl m' in \<open>auto simp: single_def\<close>)
      have e: "min_expand rec src pat s p ep ms = min_expand rec src pat (s + 1) p ep ms'"
        unfolding u using 3(1) True si [of src s] by simp
      have k: "run_of src pat s p ep k \<longleftrightarrow> k = 0 \<or> (\<exists>j. k = Suc j \<and> run_of src pat (s + 1) p ep j)" for k
        using run_of_Suc [OF True] by (cases k) auto
      show ?thesis
        using IH 3(3) 1(4) zero ms_ok_same_caps [of _ _ ms s]
        unfolding e among_ok_def
        by (auto simp: k split: option.splits sum.splits prod.splits)
    next
      case False
      then have "run_of src pat s p ep k \<longleftrightarrow> k = 0" for k using run_of_pos by (cases k) auto
      then show ?thesis
        using 3 False si [of src s] unfolding u by (simp add: among_ok_def)
    qed
  qed (unfold u, simp add: among_ok_def)
qed

section \<open>A plain item with its suffix\<close>

lemma suffix_simps:
  "get_at pat ep = Some c \<Longrightarrow> c = 42 \<or> c = 43 \<or> c = 45 \<or> c = 63 \<Longrightarrow> suffix_of pat ep = Some c"
  "get_at pat ep \<noteq> Some 42 \<Longrightarrow> get_at pat ep \<noteq> Some 43 \<Longrightarrow> get_at pat ep \<noteq> Some 45 \<Longrightarrow> get_at pat ep \<noteq> Some 63 \<Longrightarrow>
   suffix_of pat ep = None"
  by (auto simp: suffix_of_def split: option.split)

lemma among_result:
  assumes a: "among_ok src pat s q K ms R" and s': "s' \<le> s" "ms_ok s' ms"
    and e: "\<And>cs e. pat_rule src pat (caps ms) s' p cs e \<longleftrightarrow> (\<exists>k. K k \<and> pat_rule src pat (caps ms) (s + k) q cs e)"
  shows "step_ok src pat s' p ms (and_then R (\<lambda>(ms', r). ok (ms', Done r)))"
proof (cases R)
  case (Some y)
  show ?thesis
  proof (cases y)
    case (Inr z)
    obtain ms' r where [simp]: "z = (ms', r)" by (cases z)
    show ?thesis
    proof (cases r)
      case None
      then show ?thesis
        using a Some Inr e ms_ok_same_caps [of _ ms' ms s'] s'(2)
        by (auto simp: among_ok_def step_ok_def result_ok_def)
    next
      case (Some x)
      then show ?thesis
        using a \<open>R = Some y\<close> Inr e s' by (auto simp: among_ok_def step_ok_def result_ok_def)
    qed
  qed (simp add: Some step_ok_def)
qed (use a in \<open>simp add: among_ok_def\<close>)

lemma match_default_ok:
  assumes g: "good_matcher src pat rec" and s: "s \<le> length src" "ms_ok s ms"
    and p: "p < length pat" "plain_item pat p"
  shows "step_ok src pat s p ms (match_default rec src pat s p ms)"
proof (cases "classend pat p")
  case None
  then show ?thesis using classend_total [OF p(1)] by blast
next
  case (Some y)
  show ?thesis
  proof (cases y)
    case (Inl x)
    then show ?thesis by (simp add: Some match_default_def step_ok_def)
  next
    case (Inr ep)
    have ep: "classend pat p = ok ep" using Some Inr by simp
    note si = single_iff [OF ep, of src s]
    note rep = rule_repeat [OF p ep]
    let ?m = "single src pat s p ep"
    have md: "match_default rec src pat s p ms =
       (let suffix = get_at pat ep in
         if \<not> ?m then
           (if suffix = Some 42 \<or> suffix = Some 63 \<or> suffix = Some 45 then ok (ms, Init s (ep + 1))
            else ok (ms, Done None))
         else if suffix = Some 63 then
           and_then (rec (s + 1) (ep + 1) ms) (\<lambda>(ms', r).
             case r of Some e \<Rightarrow> ok (ms', Done (Some e)) | None \<Rightarrow> ok (ms', Init s (ep + 1)))
         else if suffix = Some 43 then
           and_then (max_expand rec src pat (s + 1) p ep ms) (\<lambda>(ms', r). ok (ms', Done r))
         else if suffix = Some 42 then
           and_then (max_expand rec src pat s p ep ms) (\<lambda>(ms', r). ok (ms', Done r))
         else if suffix = Some 45 then
           and_then (min_expand rec src pat s p ep ms) (\<lambda>(ms', r). ok (ms', Done r))
         else ok (ms, Init (s + 1) ep))"
      by (simp add: match_default_def ep si)
    show ?thesis
    proof (cases "\<not> ?m")
      case nm: True
      have z: "run_of src pat s p ep k \<longleftrightarrow> k = 0" for k using run_of_pos nm by (cases k) auto
      consider (zero) c where "get_at pat ep = Some c" "c = 42 \<or> c = 63 \<or> c = 45"
        | (plus) "get_at pat ep = Some 43" | (none) "suffix_of pat ep = None"
        using suffix_simps(2) [of pat ep] by metis
      then show ?thesis
      proof cases
        case zero
        then have sf: "suffix_of pat ep = Some c" "c \<noteq> 43" using suffix_simps(1) by auto
        have "pat_rule src pat (caps ms) s p cs e = pat_rule src pat (caps ms) s (ep + 1) cs e" for cs e
          unfolding rep [OF sf(1)] by (auto simp: z sf(2))
        then show ?thesis using zero nm s unfolding md by (auto simp: step_ok_def)
      next
        case plus
        have "\<not> pat_rule src pat (caps ms) s p cs e" for cs e
          unfolding rep [OF suffix_simps(1) [OF plus, simplified]] by (auto simp: z)
        then show ?thesis using plus nm s unfolding md by (simp add: step_ok_def result_ok_def)
      next
        case none
        have "\<not> pat_rule src pat (caps ms) s p cs e" for cs e
          unfolding rule_one [OF p ep none] using nm by simp
        moreover have "get_at pat ep \<noteq> Some 42" "get_at pat ep \<noteq> Some 63" "get_at pat ep \<noteq> Some 45"
          using none suffix_simps(1) by force+
        ultimately show ?thesis using nm s unfolding md by (simp add: step_ok_def result_ok_def)
      qed
    next
      case False
      then have m: ?m by simp
      have sl: "s + 1 \<le> length src" using single_bound [OF m] by simp
      have s1: "ms_ok (s + 1) ms" by (rule ms_ok_mono [OF s(2)]) simp
      consider (opt) "get_at pat ep = Some 63" | (plus) "get_at pat ep = Some 43" | (star) "get_at pat ep = Some 42"
        | (lazy) "get_at pat ep = Some 45" | (none) "suffix_of pat ep = None"
        using suffix_simps(2) [of pat ep] by metis
      then show ?thesis
      proof cases
        case opt
        have R: "pat_rule src pat (caps ms) s p cs e \<longleftrightarrow> pat_rule src pat (caps ms) s (ep + 1) cs e
            \<or> pat_rule src pat (caps ms) (s + 1) (ep + 1) cs e" for cs e
        proof -
          have "run_of src pat s p ep 1" using m by (simp add: run_of_def)
          then have "(\<exists>k. run_of src pat s p ep k \<and> k \<le> 1 \<and> P k) \<longleftrightarrow> P 0 \<or> P 1" for P
            by (metis le_Suc_eq le_zero_eq One_nat_def order_refl run_of_0 zero_le_one)
          from this [of "\<lambda>k. pat_rule src pat (caps ms) (s + k) (ep + 1) cs e"] show ?thesis
            unfolding rep [OF suffix_simps(1) [OF opt, simplified]] by simp
        qed
        have md': "match_default rec src pat s p ms = and_then (rec (s + 1) (ep + 1) ms) (\<lambda>(ms', r).
             case r of Some e \<Rightarrow> ok (ms', Done (Some e)) | None \<Rightarrow> ok (ms', Init s (ep + 1)))"
          by (subst md) (simp only: Let_def opt m simp_thms if_True if_False)
        from good_call [OF g sl s1, of "ep + 1"] show ?thesis
          unfolding md'
        proof cases
          case (2 ms' e)
          then show "step_ok src pat s p ms (and_then (rec (s + 1) (ep + 1) ms) (\<lambda>(ms', r).
             case r of Some e \<Rightarrow> ok (ms', Done (Some e)) | None \<Rightarrow> ok (ms', Init s (ep + 1))))"
            using R by (simp add: step_ok_def result_ok_def)
        next
          case (3 ms')
          then show "step_ok src pat s p ms (and_then (rec (s + 1) (ep + 1) ms) (\<lambda>(ms', r).
             case r of Some e \<Rightarrow> ok (ms', Done (Some e)) | None \<Rightarrow> ok (ms', Init s (ep + 1))))"
            using R s ms_ok_same_caps [OF 3(2,3) s(2)] by (simp add: step_ok_def)
        qed (simp add: step_ok_def)
      next
        case plus
        have "pat_rule src pat (caps ms) s p cs e \<longleftrightarrow>
            (\<exists>k. run_of src pat (s + 1) p ep k \<and> pat_rule src pat (caps ms) (s + 1 + k) (ep + 1) cs e)" for cs e
        proof -
          have "(\<exists>k. run_of src pat s p ep k \<and> 1 \<le> k \<and> P k) \<longleftrightarrow> (\<exists>k. run_of src pat (s + 1) p ep k \<and> P (Suc k))" for P
          proof
            assume "\<exists>k. run_of src pat s p ep k \<and> 1 \<le> k \<and> P k"
            then obtain j where "run_of src pat s p ep (Suc j)" "P (Suc j)" by (metis Suc_le_D One_nat_def)
            then show "\<exists>k. run_of src pat (s + 1) p ep k \<and> P (Suc k)" using run_of_Suc [OF m] by blast
          next
            assume "\<exists>k. run_of src pat (s + 1) p ep k \<and> P (Suc k)"
            then obtain j where "run_of src pat (s + 1) p ep j" "P (Suc j)" by blast
            then show "\<exists>k. run_of src pat s p ep k \<and> 1 \<le> k \<and> P k"
              using run_of_Suc [OF m] by (intro exI [of _ "Suc j"]) simp
          qed
          from this [of "\<lambda>k. pat_rule src pat (caps ms) (s + k) (ep + 1) cs e"] show ?thesis
            unfolding rep [OF suffix_simps(1) [OF plus, simplified]] by simp
        qed
        from among_result [OF max_expand_ok [OF g sl s1 ep] _ s(2) this] show ?thesis
          using plus m unfolding md by simp
      next
        case star
        have "pat_rule src pat (caps ms) s p cs e \<longleftrightarrow>
            (\<exists>k. run_of src pat s p ep k \<and> pat_rule src pat (caps ms) (s + k) (ep + 1) cs e)" for cs e
          unfolding rep [OF suffix_simps(1) [OF star, simplified]] by simp
        from among_result [OF max_expand_ok [OF g s ep] _ s(2) this] show ?thesis
          using star m unfolding md by simp
      next
        case lazy
        have "pat_rule src pat (caps ms) s p cs e \<longleftrightarrow>
            (\<exists>k. run_of src pat s p ep k \<and> pat_rule src pat (caps ms) (s + k) (ep + 1) cs e)" for cs e
          unfolding rep [OF suffix_simps(1) [OF lazy, simplified]] by simp
        from among_result [OF min_expand_ok [OF g s ep] _ s(2) this] show ?thesis
          using lazy m unfolding md by simp
      next
        case none
        have "get_at pat ep \<noteq> Some 42" "get_at pat ep \<noteq> Some 63" "get_at pat ep \<noteq> Some 45" "get_at pat ep \<noteq> Some 43"
          using none suffix_simps(1) by force+
        then have "match_default rec src pat s p ms = ok (ms, Init (s + 1) ep)"
          using m unfolding md by simp
        then show ?thesis using s1 sl m rule_one [OF p ep none] by (simp add: step_ok_def)
      qed
    qed
  qed
qed

section \<open>Captures and the special items\<close>

lemma caps_push:
  assumes "ms_ok s ms" "ms_level ms < MAX_CAPTURES"
  shows "caps (ms\<lparr>ms_capture := (ms_capture ms)[ms_level ms := c], ms_level := ms_level ms + 1\<rparr>) = caps ms @ [c]"
  using assms by (simp add: caps_def ms_ok_def take_Suc_conv_app_nth)

lemma start_capture_ok:
  assumes g: "good_matcher src pat rec" and s: "s \<le> length src" "ms_ok s ms" and w: "\<And>n. what \<noteq> Len n"
    and e: "\<And>cs e. pat_rule src pat (caps ms) s p cs e \<longleftrightarrow> length (caps ms) < MAX_CAPTURES
      \<and> pat_rule src pat (caps ms @ [\<lparr>cap_init = s, cap_len = what\<rparr>]) s q cs e"
  shows "result_ok src pat s p ms (start_capture rec s q what ms)"
proof (cases "MAX_CAPTURES \<le> ms_level ms")
  case True
  then show ?thesis by (simp add: start_capture_def Let_def result_ok_def)
next
  case False
  let ?c = "\<lparr>cap_init = s, cap_len = what\<rparr>"
  let ?ms = "ms\<lparr>ms_capture := (ms_capture ms)[ms_level ms := ?c], ms_level := ms_level ms + 1\<rparr>"
  have lv: "ms_level ms < MAX_CAPTURES" "length (ms_capture ms) = MAX_CAPTURES" using False s(2) by (simp_all add: ms_ok_def)
  have cp: "caps ?ms = caps ms @ [?c]" by (rule caps_push [OF s(2) lv(1)])
  have m: "ms_ok s ?ms" unfolding ms_ok_def cp using s(2) lv w by (auto simp: ms_ok_def caps_ok_def)
  have len: "length (caps ms) = ms_level ms" by (rule length_caps [OF s(2)])
  have u: "start_capture rec s q what ms = and_then (rec s q ?ms) (\<lambda>(ms', res).
      case res of Some e \<Rightarrow> ok (ms', Some e)
      | None \<Rightarrow> if ms_level ms' = 0 then None else ok (ms'\<lparr>ms_level := ms_level ms' - 1\<rparr>, None))"
    using lv by (simp add: start_capture_def Let_def idx_set_def)
  from good_call [OF g s(1) m, of q] show ?thesis
  proof cases
    case (1 x)
    then show ?thesis unfolding u by (simp add: result_ok_def)
  next
    case (2 ms' f)
    then show ?thesis unfolding u using e len lv(1) cp by (simp add: result_ok_def)
  next
    case (3 ms')
    have l': "ms_level ms' = Suc (ms_level ms)"
      using length_caps [OF 3(2)] 3(3) cp len by simp
    have cp': "caps (ms'\<lparr>ms_level := ms_level ms' - 1\<rparr>) = caps ms"
    proof -
      have "caps ms' = caps ms @ [?c]" using 3(3) cp by simp
      then have "take (ms_level ms) (caps ms') = caps ms" using len by simp
      then show ?thesis by (simp add: caps_def l')
    qed
    have "ms_ok s (ms'\<lparr>ms_level := ms_level ms' - 1\<rparr>)"
      using 3(2) s(2) cp' l' by (simp add: ms_ok_def)
    then show ?thesis unfolding u using 3 cp' e cp l' by (simp add: result_ok_def)
  qed
qed

lemma last_unfinished_Some:
  "last_unfinished cs n = Some l \<Longrightarrow> l < n \<and> cap_len (cs ! l) = Unfinished"
  by (induction n) (auto split: if_splits)

lemma last_unfinished_cong:
  "(\<And>i. i < n \<Longrightarrow> cs ! i = ds ! i) \<Longrightarrow> last_unfinished cs n = last_unfinished ds n"
  by (induction n) auto

lemma last_unfinished_caps:
  "ms_ok s ms \<Longrightarrow> last_unfinished (ms_capture ms) (ms_level ms) = last_unfinished (caps ms) (length (caps ms))"
  by (simp add: length_caps) (rule last_unfinished_cong, simp add: caps_nth)

lemma caps_set_len:
  assumes "ms_ok s ms" "l < ms_level ms"
  shows "caps (set_cap_len l k ms) = (caps ms)[l := (caps ms ! l)\<lparr>cap_len := k\<rparr>]"
    and "ms_level (set_cap_len l k ms) = ms_level ms"
    and "length (ms_capture (set_cap_len l k ms)) = length (ms_capture ms)"
  using assms by (simp_all add: set_cap_len_def caps_def take_update_swap)

lemma end_capture_ok:
  assumes g: "good_matcher src pat rec" and s: "s \<le> length src" "ms_ok s ms"
    and p: "p < length pat" "pat ! p = 41"
  shows "result_ok src pat s p ms (end_capture rec s (p + 1) ms)"
proof (cases "last_unfinished (ms_capture ms) (ms_level ms)")
  case None
  then show ?thesis by (simp add: end_capture_def capture_to_close_def result_ok_def)
next
  case (Some l)
  let ?c = "caps ms ! l"
  let ?ms = "set_cap_len l (Len (s - cap_init ?c)) ms"
  have l: "l < ms_level ms" "cap_len (ms_capture ms ! l) = Unfinished" using last_unfinished_Some [OF Some] by simp_all
  have lc: "last_unfinished (caps ms) (length (caps ms)) = Some l" using Some last_unfinished_caps [OF s(2)] by simp
  have cc: "ms_capture ms ! l = ?c" by (rule caps_nth [OF l(1), symmetric])
  have li: "l < length (ms_capture ms)" "l < length (caps ms)"
    using l(1) s(2) length_caps [OF s(2)] by (simp_all add: ms_ok_def)
  have ci: "cap_init ?c \<le> s" using s(2) li(2) by (simp add: ms_ok_def caps_ok_def)
  note cs = caps_set_len [OF s(2) l(1)]
  have m: "ms_ok s ?ms"
    using s(2) ci unfolding ms_ok_def cs
    by (auto simp: caps_ok_def dest!: set_update_subset_insert [THEN subsetD])
  have u: "end_capture rec s (p + 1) ms = and_then (rec s (p + 1) ?ms) (\<lambda>(ms', res).
      case res of Some e \<Rightarrow> ok (ms', Some e) | None \<Rightarrow> ok (set_cap_len l Unfinished ms', None))"
    using Some li(1) ci by (simp add: end_capture_def capture_to_close_def idx_def cc)
  have R: "pat_rule src pat (caps ms) s p ds f \<longleftrightarrow> pat_rule src pat (caps ?ms) s (p + 1) ds f" for ds f
    unfolding rule_close [OF p] cs(1) using lc by simp
  from good_call [OF g s(1) m, of "p + 1"] show ?thesis
  proof cases
    case (1 x)
    then show ?thesis unfolding u by (simp add: result_ok_def)
  next
    case (2 ms' f)
    then show ?thesis unfolding u using R by (simp add: result_ok_def)
  next
    case (3 ms')
    have lv: "ms_level ms' = ms_level ms" using length_caps [OF 3(2)] 3(3) length_caps [OF m] cs(2) by simp
    note cs' = caps_set_len [OF 3(2), unfolded lv, OF l(1), of Unfinished]
    have "?c\<lparr>cap_len := Unfinished\<rparr> = ?c" using l(2) cc by (cases ?c) simp
    then have cp: "caps (set_cap_len l Unfinished ms') = caps ms"
      unfolding cs'(1) 3(3) cs(1) using li(2) by simp
    have "ms_ok s (set_cap_len l Unfinished ms')"
      using 3(2) s(2) cs'(2,3) cp by (simp add: ms_ok_def lv)
    then show ?thesis unfolding u using 3 cp R by (simp add: result_ok_def)
  qed
qed

lemma match_capture_ok:
  assumes s: "s \<le> length src" "ms_ok s ms" and p: "p < length pat" "pat ! p = L_ESC"
      "get_at pat (p + 1) = Some d" "is_digit d"
  shows "step_ok src pat s p ms (and_then (match_capture src s d ms) (\<lambda>r.
      ok (ms, case r of Some ns \<Rightarrow> Init ns (p + 2) | None \<Rightarrow> Done None)))"
proof -
  let ?l = "unat d - 49"
  note R = rule_backref [OF p]
  have len: "length (caps ms) = ms_level ms" by (rule length_caps [OF s(2)])
  show ?thesis
  proof (cases "49 \<le> unat d \<and> ?l < ms_level ms \<and> cap_len (ms_capture ms ! ?l) \<noteq> Unfinished")
    case False
    have "ms_level ms \<le> length (ms_capture ms)" using s(2) by (simp add: ms_ok_def)
    moreover define k where "k = unat d"
    ultimately have "\<exists>x. check_capture ms d = err x"
      using False unfolding check_capture_def Let_def k_def [symmetric]
      by (cases "49 \<le> k") (auto simp: idx_def nat_diff_distrib')
    then show ?thesis by (auto simp: match_capture_def step_ok_def)
  next
    case True
    let ?c = "caps ms ! ?l"
    have c: "ms_capture ms ! ?l = ?c" using caps_nth True by metis
    have l: "?l < length (ms_capture ms)" using True s(2) by (simp add: ms_ok_def)
    define k where "k = unat d"
    have "nat (int k - 49) = k - 49" by simp
    then have ck: "check_capture ms d = ok ?l"
      using True l unfolding check_capture_def Let_def k_def [symmetric] by (simp add: idx_def)
    show ?thesis
    proof (cases "cap_len ?c")
      case Unfinished
      then show ?thesis using True c by simp
    next
      case Position
      have "match_capture src s d ms = ok None"
        using Position l c by (simp add: match_capture_def ck idx_def)
      moreover have "\<not> pat_rule src pat (caps ms) s p cs e" for cs e
        unfolding R using Position by (simp add: same_text_def)
      ultimately show ?thesis using s by (simp add: step_ok_def result_ok_def)
    next
      case (Len k)
      have b: "cap_init ?c + k \<le> s" using s(2) True len Len by (simp add: ms_ok_def caps_ok_def)
      have t: "same_text src (caps ms) d s j \<longleftrightarrow> j = k \<and> k \<le> length src - s
          \<and> take k (drop (cap_init ?c) src) = take k (drop s src)" for j
        using True len Len s(1) by (auto simp: same_text_def)
      have mc: "match_capture src s d ms = (if k \<le> length src - s
          \<and> take k (drop (cap_init ?c) src) = take k (drop s src) then ok (Some (s + k)) else ok None)"
        using Len l c b s(1) by (simp add: match_capture_def ck idx_def)
      show ?thesis
      proof (cases "k \<le> length src - s \<and> take k (drop (cap_init ?c) src) = take k (drop s src)")
        case True
        have "pat_rule src pat (caps ms) s p cs e \<longleftrightarrow> pat_rule src pat (caps ms) (s + k) (p + 2) cs e" for cs e
          unfolding R t using True by simp
        moreover have "ms_ok (s + k) ms" by (rule ms_ok_mono [OF s(2)]) simp
        moreover have "s + k \<le> length src" using conjunct1 [OF True] s(1) by linarith
        ultimately show ?thesis unfolding mc using True by (simp add: step_ok_def)
      next
        case False
        then have "\<not> pat_rule src pat (caps ms) s p cs e" for cs e unfolding R t by blast
        moreover have "match_capture src s d ms = ok None" unfolding mc by (rule if_not_P [OF False])
        ultimately show ?thesis using s by (simp add: step_ok_def result_ok_def)
      qed
    qed
  qed
qed

lemma match_balance_step_ok:
  assumes big: "length src < 2 ^ 31" and s: "s \<le> length src" "ms_ok s ms" and p: "p < length pat" "pat ! p = L_ESC"
      "get_at pat (p + 1) = Some 98"
  shows "step_ok src pat s p ms (and_then (match_balance src pat s (p + 2)) (\<lambda>r.
      ok (ms, case r of Some ns \<Rightarrow> Init ns (p + 4) | None \<Rightarrow> Done None)))"
proof (cases "match_balance src pat s (p + 2)")
  case None
  then show ?thesis using match_balance_total [OF big] by blast
next
  case (Some y)
  note R = rule_balance [OF p]
  show ?thesis
  proof (cases y)
    case (Inr r)
    show ?thesis
    proof (cases r)
      case None
      then have "\<not> pat_rule src pat (caps ms) s p cs e" for cs e unfolding R using Some Inr by simp
      then show ?thesis using Some Inr None s by (simp add: step_ok_def result_ok_def)
    next
      case (Some ns)
      have mb: "match_balance src pat s (p + 2) = ok (Some ns)" using Some Inr \<open>match_balance src pat s (p + 2) = Some y\<close> by simp
      have "s < ns" "ns \<le> length src" using match_balance_bound [OF mb] by simp_all
      moreover have "ms_ok ns ms" by (rule ms_ok_mono [OF s(2)]) (use \<open>s < ns\<close> in simp)
      ultimately show ?thesis using mb R by (simp add: step_ok_def)
    qed
  qed (use Some in \<open>simp add: step_ok_def\<close>)
qed

lemma frontier_step_ok:
  assumes s: "s \<le> length src" "ms_ok s ms" and p: "p < length pat" "pat ! p = L_ESC" "get_at pat (p + 1) = Some 102"
  shows "step_ok src pat s p ms (frontier_step src pat s p ms)"
proof (cases "get_at pat (p + 2) = Some 91")
  case False
  then show ?thesis by (simp add: frontier_step_def step_ok_def)
next
  case True
  note R = rule_frontier [OF p]
  have fp: "p + 2 < length pat" using True by (simp add: get_at_def split: if_splits)
  show ?thesis
  proof (cases "classend pat (p + 2)")
    case None
    then show ?thesis using classend_total [OF fp] by blast
  next
    case (Some y)
    show ?thesis
    proof (cases y)
      case (Inl x)
      then show ?thesis using True Some by (simp add: frontier_step_def Let_def step_ok_def)
    next
      case (Inr ep)
      have ep: "classend pat (p + 2) = ok ep" using Some Inr by simp
      have el: "ep - 1 \<le> length pat" using classend_le [OF ep] by simp
      let ?prev = "if s = 0 then 0 else src ! (s - 1)" and ?cur = "if s < length src then src ! s else 0"
      have ix: "(if s = 0 then Some 0 else idx src (s - 1)) = Some ?prev" using s(1) by (cases s) (simp_all add: idx_def)
      obtain mp mc where m: "match_bracket_class ?prev pat (p + 2) (ep - 1) = Some mp"
          "match_bracket_class ?cur pat (p + 2) (ep - 1) = Some mc"
        using match_bracket_total [OF el] by blast
      have st: "frontier_step src pat s p ms = ok (ms, if \<not> mp \<and> mc then Init s ep else Done None)"
        unfolding frontier_step_def Let_def using True ep ix m by simp
      have f: "frontier src pat s p e \<longleftrightarrow> e = ep \<and> \<not> mp \<and> mc" for e
        using True ep m by (auto simp: frontier_def)
      show ?thesis
        unfolding st using s R by (auto simp: step_ok_def result_ok_def f)
    qed
  qed
qed

section \<open>The matcher\<close>

lemma done_step:
  "result_ok src pat s p ms R \<Longrightarrow> step_ok src pat s p ms (and_then R (\<lambda>(ms', r). ok (ms', Done r)))"
  by (auto simp: and_then_def step_ok_def result_ok_def split: option.splits sum.splits)

lemma match_step_ok:
  assumes big: "length src < 2 ^ 31" and g: "good_matcher src pat rec" and s: "s \<le> length src" "ms_ok s ms"
    and p: "p < length pat"
  shows "step_ok src pat s p ms (match_step rec src pat s p ms)"
proof (cases rule: item_cases [of pat p])
  case 1
  show ?thesis
  proof (cases "get_at pat (p + 1) = Some 41")
    case True
    have "result_ok src pat s p ms (start_capture rec s (p + 2) Position ms)"
      by (rule start_capture_ok [OF g s]) (simp, rule rule_position [OF p 1 True])
    from done_step [OF this] show ?thesis using True by (simp add: match_step_open 1)
  next
    case False
    have "result_ok src pat s p ms (start_capture rec s (p + 1) Unfinished ms)"
      by (rule start_capture_ok [OF g s]) (simp, rule rule_open [OF p 1 False])
    from done_step [OF this] show ?thesis using False by (simp add: match_step_open 1)
  qed
next
  case 2
  from done_step [OF end_capture_ok [OF g s p 2]] show ?thesis by (simp add: match_step_close 2)
next
  case 3
  then show ?thesis using s rule_anchor [OF 3] by (auto simp: match_step_end step_ok_def result_ok_def)
next
  case 4
  show ?thesis unfolding match_step_balance [OF 4] by (rule match_balance_step_ok [OF big s p 4])
next
  case 5
  show ?thesis unfolding match_step_frontier [OF 5] by (rule frontier_step_ok [OF s p 5])
next
  case (6 d)
  show ?thesis unfolding match_step_backref [OF 6] by (rule match_capture_ok [OF s p 6])
next
  case 7
  show ?thesis unfolding match_step_plain [OF 7] by (rule match_default_ok [OF g s p 7])
qed

lemma match_loop_ok:
  assumes "length src < 2 ^ 31" "good_matcher src pat rec" "s \<le> length src" "ms_ok s ms"
  shows "result_ok src pat s p ms (match_loop rec src pat s p ms)"
  using assms
proof (induction rec src pat s p ms rule: match_loop.induct)
  case (1 rec src pat s p ms)
  note u = match_loop.simps [of rec src pat s p ms]
  show ?case
  proof (cases "length pat \<le> p")
    case True
    then show ?thesis using 1(4,5) unfolding u by (simp add: result_ok_def rule_end)
  next
    case False
    have st: "step_ok src pat s p ms (match_step rec src pat s p ms)"
      by (rule match_step_ok [OF 1(2-5)]) (use False in simp)
    show ?thesis
    proof (cases "match_step rec src pat s p ms")
      case None
      then show ?thesis using st by (simp add: step_ok_def)
    next
      case (Some y)
      show ?thesis
      proof (cases y)
        case (Inl x)
        then show ?thesis using Some False unfolding u by (simp add: result_ok_def)
      next
        case (Inr z)
        obtain ms' t where z: "z = (ms', t)" by (cases z)
        show ?thesis
        proof (cases t)
          case (Done r)
          then show ?thesis using st Some Inr z False unfolding u by (simp add: step_ok_def)
        next
          case (Init ns np)
          have b: "s \<le> ns" "ns \<le> length src" "ms_ok ns ms'" "caps ms' = caps ms"
            "\<And>cs e. pat_rule src pat (caps ms) ns np cs e = pat_rule src pat (caps ms) s p cs e"
            using st Some Inr z Init by (simp_all add: step_ok_def)
          have "result_ok src pat ns np ms' (match_loop rec src pat ns np ms')"
            by (rule 1(1) [OF False Some Inr z [symmetric] Init 1(2,3) b(2,3)])
          moreover have "match_loop rec src pat s p ms = match_loop rec src pat ns np ms'"
            unfolding u using Some Inr z Init False by simp
          moreover have "ms_ok s w" if "ms_ok ns w" "caps w = caps ms" for w
            by (rule ms_ok_same_caps [OF that 1(5)])
          ultimately show ?thesis
            using b by (auto simp: result_ok_def split: option.splits sum.splits)
        qed
      qed
    qed
  qed
qed

lemma do_match_good:
  assumes "length src < 2 ^ 31" shows "good_matcher src pat (do_match d src pat)"
proof (induction d)
  case 0
  show ?case by (simp add: good_matcher_def result_ok_def)
next
  case (Suc d)
  then show ?case using match_loop_ok [OF assms] by (simp add: good_matcher_def)
qed

end
