(* ===== verification/StringLemmas.thy ===== *)
theory StringLemmas
  imports Gsub PatternRefine
begin

text \<open>
  What the string functions get from the matcher: a match attempt and the scan over start positions
  against the relation \<open>pat_rule\<close>, the values of captures, the progress of \<open>gmatch\<close> and of \<open>gsub\<close>.
\<close>

section \<open>One attempt\<close>

abbreviation matcher_ready :: "match_state \<Rightarrow> bool" where
  "matcher_ready ms \<equiv> length (ms_capture ms) = MAX_CAPTURES"

lemma ready_new [simp]: "matcher_ready match_state_new"
  by (simp add: match_state_new_def)

lemma ms_ok_ready: "ms_ok s ms \<Longrightarrow> matcher_ready ms"
  by (simp add: ms_ok_def)

definition matches :: "bytes \<Rightarrow> bytes \<Rightarrow> nat \<Rightarrow> bool" where
  "matches src body s \<longleftrightarrow> (\<exists>cs e. pat_rule src body [] s 0 cs e)"

lemma caps_reset [simp]: "caps (ms\<lparr>ms_level := 0\<rparr>) = []"
  by (simp add: caps_def)

lemma match_at_cases:
  assumes "length src < 2 ^ 31" "s \<le> length src" "matcher_ready ms"
  obtains x where "match_at src body s ms = err x"
    | ms' e where "match_at src body s ms = ok (ms', Some e)" "s \<le> e" "e \<le> length src" "ms_ok e ms'"
        "pat_rule src body [] s 0 (caps ms') e"
    | ms' where "match_at src body s ms = ok (ms', None)" "matcher_ready ms'" "\<not> matches src body s"
proof -
  have m: "ms_ok s (ms\<lparr>ms_level := 0\<rparr>)" using assms(3) by (simp add: ms_ok_def caps_ok_def)
  show thesis
    using that
    by (rule good_call [OF do_match_good [OF assms(1)] assms(2) m, where p = 0])
      (auto simp: match_at_def matches_def dest: ms_ok_ready)
qed

section \<open>Scanning\<close>

definition scan_ok :: "bytes \<Rightarrow> bytes \<Rightarrow> bool \<Rightarrow> nat \<Rightarrow> (nat \<times> nat \<times> match_state) option pat_result \<Rightarrow> bool" where
  "scan_ok src body anchor init r \<longleftrightarrow> (case r of
      None \<Rightarrow> False
    | Some (Inl _) \<Rightarrow> True
    | Some (Inr (Some (s, e, ms))) \<Rightarrow> init \<le> s \<and> s \<le> e \<and> e \<le> length src \<and> (anchor \<longrightarrow> s = init) \<and> ms_ok e ms
        \<and> pat_rule src body [] s 0 (caps ms) e \<and> (\<forall>t. init \<le> t \<longrightarrow> t < s \<longrightarrow> \<not> matches src body t)
    | Some (Inr None) \<Rightarrow> \<forall>t. init \<le> t \<longrightarrow> t \<le> length src \<longrightarrow> (anchor \<longrightarrow> t = init) \<longrightarrow> \<not> matches src body t)"

lemma scan_ok_later:
  assumes "scan_ok src body False (Suc s) r" "\<not> matches src body s"
  shows "scan_ok src body False s r"
proof -
  have e: "s = t \<or> Suc s \<le> t" if "s \<le> t" for t using that by auto
  show ?thesis
    using assms e unfolding scan_ok_def
    by (auto split: option.splits sum.splits; metis)
qed

lemma scan_is_ok:
  "length src < 2 ^ 31 \<Longrightarrow> init \<le> length src \<Longrightarrow> matcher_ready ms \<Longrightarrow>
   scan_ok src body anchor init (scan src body anchor init ms)"
proof (induction src body anchor init ms rule: scan.induct)
  case (1 src body anchor s ms)
  show ?case
  proof (rule match_at_cases [OF 1(2-4), where body = body])
    fix x assume "match_at src body s ms = err x"
    then show ?thesis by (subst scan.simps) (simp add: scan_ok_def)
  next
    fix ms' e assume "match_at src body s ms = ok (ms', Some e)" "s \<le> e" "e \<le> length src" "ms_ok e ms'"
      "pat_rule src body [] s 0 (caps ms') e"
    then show ?thesis by (subst scan.simps) (simp add: scan_ok_def)
  next
    fix ms' assume m: "match_at src body s ms = ok (ms', None)" "matcher_ready ms'" "\<not> matches src body s"
    show ?thesis
    proof (cases "anchor \<or> length src \<le> s")
      case True
      then have "scan src body anchor s ms = ok None" using m(1) by (subst scan.simps) simp
      moreover have "\<not> matches src body t" if "s \<le> t" "t \<le> length src" "anchor \<longrightarrow> t = s" for t
      proof -
        have "t = s" using that True by auto
        then show ?thesis using m(3) by simp
      qed
      ultimately show ?thesis by (simp add: scan_ok_def)
    next
      case False
      then have e: "scan src body anchor s ms = scan src body False (Suc s) ms'"
        using m(1) by (subst scan.simps) simp
      have "scan_ok src body anchor (s + 1) (scan src body anchor (s + 1) ms')"
        using False by (intro 1(1) [OF m(1) refl refl refl]) (use 1(2) m(2) in auto)
      then show ?thesis using e False scan_ok_later m(3) by simp
    qed
  qed
qed

section \<open>Captures as values\<close>

definition capture_value :: "bytes \<Rightarrow> capture \<Rightarrow> lua_value" where
  "capture_value src c = (case cap_len c of
      Unfinished \<Rightarrow> VNil
    | Position \<Rightarrow> VInt (word_of_int (int (cap_init c) + 1))
    | Len n \<Rightarrow> VStr (take n (drop (cap_init c) src)))"

text \<open>The captures of a match, the whole match standing for none.\<close>

definition match_values :: "bytes \<Rightarrow> capture list \<Rightarrow> nat \<Rightarrow> nat \<Rightarrow> lua_value list" where
  "match_values src cs s e =
     (if cs = [] then [VStr (take (e - s) (drop s src))] else map (capture_value src) cs)"

lemma one_capture:
  assumes "ms_ok e ms" "e \<le> length src" "i < ms_level ms"
  shows "(\<exists>x. and_then (map_err PatternFault (get_onecapture ms i s e)) (cap_to_value src) = err x)
    \<or> and_then (map_err PatternFault (get_onecapture ms i s e)) (cap_to_value src) = ok (capture_value src (caps ms ! i))"
proof -
  let ?c = "ms_capture ms ! i"
  have c: "?c \<in> set (caps ms)" "caps ms ! i = ?c"
    using assms length_caps [OF assms(1)] caps_nth [OF assms(3)] by (metis nth_mem)+
  have "i < length (ms_capture ms)" using assms by (simp add: ms_ok_def)
  moreover have "cap_init ?c + n \<le> length src" if "cap_len ?c = Len n" for n
    using c assms that by (fastforce simp: ms_ok_def caps_ok_def)
  ultimately show ?thesis
    using assms(3) c(2)
    by (cases "cap_len ?c")
      (simp_all add: get_onecapture_def idx_def cap_to_value_def subslice_def capture_value_def)
qed

lemma all_ok_dichotomy:
  assumes "\<And>i. i < n \<Longrightarrow> (\<exists>x. f i = err x) \<or> f i = ok (g i)"
  shows "(\<exists>x. all_ok (map f [m..<n]) = err x) \<or> all_ok (map f [m..<n]) = ok (map g [m..<n])"
proof (induction "n - m" arbitrary: m)
  case 0
  then show ?case by simp
next
  case (Suc d)
  then have h: "m < n" "[m..<n] = m # [Suc m..<n]" by (simp_all add: upt_conv_Cons)
  have d: "d = n - Suc m" using Suc(2) by simp
  show ?case using assms [OF h(1)] Suc(1) [OF d] by (auto simp: h(2))
qed

lemma captures_cases:
  assumes "ms_ok e ms" "s \<le> e" "e \<le> length src"
  shows "(\<exists>x. captures src ms True s e = err x) \<or> captures src ms True s e = ok (match_values src (caps ms) s e)"
    "(\<exists>x. captures src ms False s e = err x) \<or> captures src ms False s e = ok (map (capture_value src) (caps ms))"
proof -
  let ?f = "\<lambda>i. and_then (map_err PatternFault (get_onecapture ms i s e)) (cap_to_value src)"
  have "?f 0 = ok (VStr (take (e - s) (drop s src)))" if "ms_level ms = 0"
    using that assms by (simp add: get_onecapture_def cap_to_value_def subslice_def)
  moreover have n: "map (\<lambda>i. capture_value src (caps ms ! i)) [0..<ms_level ms] = map (capture_value src) (caps ms)"
    using length_caps [OF assms(1)] by (metis (no_types, lifting) map_nth map_map o_def map_cong)
  moreover have d: "(\<exists>x. all_ok (map ?f [0..<ms_level ms]) = err x)
      \<or> all_ok (map ?f [0..<ms_level ms]) = ok (map (\<lambda>i. capture_value src (caps ms ! i)) [0..<ms_level ms])"
    using one_capture [OF assms(1,3)] by (intro all_ok_dichotomy) blast
  ultimately show
    "(\<exists>x. captures src ms True s e = err x) \<or> captures src ms True s e = ok (match_values src (caps ms) s e)"
    using length_caps [OF assms(1)]
    by (cases "ms_level ms = 0") (auto simp: captures_def num_captures_def match_values_def)
  show "(\<exists>x. captures src ms False s e = err x) \<or> captures src ms False s e = ok (map (capture_value src) (caps ms))"
    using d n by (simp add: captures_def num_captures_def)
qed

section \<open>Iterating over matches\<close>

text \<open>The values \<open>vs\<close> of a match of the relation from \<open>s\<close> to \<open>e\<close>.\<close>

definition match_at_with :: "bytes \<Rightarrow> bytes \<Rightarrow> nat \<Rightarrow> nat \<Rightarrow> lua_value list \<Rightarrow> bool" where
  "match_at_with src body s e vs \<longleftrightarrow> s \<le> e \<and> e \<le> length src
     \<and> (\<exists>cs. pat_rule src body [] s 0 cs e \<and> vs = match_values src cs s e)"

text \<open>Where the last match ended; the number of matches there can have been.\<close>

definition last_ok :: "nat option \<Rightarrow> nat \<Rightarrow> bool" where
  "last_ok lastm pos \<longleftrightarrow> (\<forall>l. lastm = Some l \<longrightarrow> l \<le> pos)"

definition matches_bound :: "nat option \<Rightarrow> nat" where
  "matches_bound lastm = (case lastm of None \<Rightarrow> 0 | Some l \<Rightarrow> Suc l)"

lemma new_match_simps [simp]: "new_match lastm None = None"
  by (simp add: new_match_def)

lemma new_match_Some: "new_match lastm (Some e) = Some x \<longleftrightarrow> x = e \<and> lastm \<noteq> Some e"
  by (auto simp: new_match_def)

lemma matches_bound_less: "last_ok lastm pos \<Longrightarrow> pos \<le> e \<Longrightarrow> lastm \<noteq> Some e \<Longrightarrow> matches_bound lastm \<le> e"
  by (cases lastm) (auto simp: last_ok_def matches_bound_def)

definition gmatch_ok :: "gmatch_state \<Rightarrow> (gmatch_state \<times> lua_value list option) lib \<Rightarrow> bool" where
  "gmatch_ok st r \<longleftrightarrow> (case r of
      None \<Rightarrow> False
    | Some (Inl _) \<Rightarrow> True
    | Some (Inr (st', None)) \<Rightarrow> True
    | Some (Inr (st', Some vs)) \<Rightarrow> \<exists>s e. gm_pos st \<le> s \<and> gm_lastmatch st \<noteq> Some e
        \<and> match_at_with (gm_src st) (gm_pat st) s e vs \<and> st' = st\<lparr>gm_pos := e, gm_lastmatch := Some e\<rparr>)"

lemma gmatch_loop_ok:
  "length (gm_src st) < 2 ^ 31 \<Longrightarrow> matcher_ready ms \<Longrightarrow> gm_pos st \<le> pos \<Longrightarrow> gmatch_ok st (gmatch_loop st pos ms)"
proof (induction st pos ms rule: gmatch_loop.induct)
  case (1 st pos ms)
  show ?case
  proof (cases "length (gm_src st) < pos")
    case True
    then show ?thesis by (subst gmatch_loop.simps) (simp add: gmatch_ok_def)
  next
    case False
    then have p: "pos \<le> length (gm_src st)" by simp
    show ?thesis
    proof (rule match_at_cases [OF 1(2) p 1(3), where body = "gm_pat st"])
      fix x assume "match_at (gm_src st) (gm_pat st) pos ms = err x"
      then show ?thesis using False by (subst gmatch_loop.simps) (simp add: gmatch_ok_def)
    next
      fix ms' assume m: "match_at (gm_src st) (gm_pat st) pos ms = ok (ms', None)" "matcher_ready ms'"
      have "gmatch_ok st (gmatch_loop st (pos + 1) ms')"
        by (rule 1(1) [OF False m(1) refl refl]) (use 1(2,4) m(2) in simp_all)
      then show ?thesis using False m(1) by (subst gmatch_loop.simps) simp
    next
      fix ms' e assume m: "match_at (gm_src st) (gm_pat st) pos ms = ok (ms', Some e)" "pos \<le> e"
        "e \<le> length (gm_src st)" "ms_ok e ms'" "pat_rule (gm_src st) (gm_pat st) [] pos 0 (caps ms') e"
      show ?thesis
      proof (cases "gm_lastmatch st = Some e")
        case True
        have "gmatch_ok st (gmatch_loop st (pos + 1) ms')"
          by (rule 1(1) [OF False m(1) refl refl]) (use 1(2,4) m(4) True ms_ok_ready in \<open>simp_all add: new_match_def\<close>)
        then show ?thesis using False m(1) True by (subst gmatch_loop.simps) (simp add: new_match_def)
      next
        case new: False
        then have g: "gmatch_loop st pos ms = and_then (captures (gm_src st) ms' True pos e)
            (\<lambda>cs. ok (st\<lparr>gm_pos := e, gm_lastmatch := Some e\<rparr>, Some cs))"
          using False m(1) by (subst gmatch_loop.simps) (simp add: new_match_def)
        have v: "match_at_with (gm_src st) (gm_pat st) pos e (match_values (gm_src st) (caps ms') pos e)"
          using m by (auto simp: match_at_with_def)
        show ?thesis
          using captures_cases(1) [OF m(4) m(2,3)] 1(4) new v by (auto simp: g gmatch_ok_def; blast)
      qed
    qed
  qed
qed

lemma gmatch_aux_ok: "length (gm_src st) < 2 ^ 31 \<Longrightarrow> gmatch_ok st (gmatch_aux st)"
  unfolding gmatch_aux_def by (rule gmatch_loop_ok) simp_all

text \<open>The iterator called until it returns nothing, at most \<open>k\<close> times; the inner \<open>None\<close> is more.\<close>

fun gmatch_run :: "nat \<Rightarrow> gmatch_state \<Rightarrow> lua_value list list option lib" where
  "gmatch_run 0 st = ok None"
| "gmatch_run (Suc k) st = and_then (gmatch_aux st) (\<lambda>(st', r). case r of
      None \<Rightarrow> ok (Some [])
    | Some vs \<Rightarrow> and_then (gmatch_run k st') (\<lambda>rs. ok (map_option ((#) vs) rs)))"

definition gmatch_fuel :: "gmatch_state \<Rightarrow> nat" where
  "gmatch_fuel st = length (gm_src st) + 2 - matches_bound (gm_lastmatch st)"

lemma gmatch_run_ends:
  "length (gm_src st) < 2 ^ 31 \<Longrightarrow> last_ok (gm_lastmatch st) (gm_pos st) \<Longrightarrow>
   matches_bound (gm_lastmatch st) \<le> Suc (length (gm_src st)) \<Longrightarrow> gmatch_fuel st \<le> k \<Longrightarrow>
   (\<exists>x. gmatch_run k st = err x)
   \<or> (\<exists>rs. gmatch_run k st = ok (Some rs) \<and> (\<forall>vs\<in>set rs. \<exists>s e. match_at_with (gm_src st) (gm_pat st) s e vs))"
proof (induction k arbitrary: st)
  case 0
  then show ?case by (simp add: gmatch_fuel_def)
next
  case (Suc k)
  have g: "gmatch_ok st (gmatch_aux st)" by (rule gmatch_aux_ok [OF Suc(2)])
  show ?case
  proof (cases "gmatch_aux st")
    case None
    then show ?thesis using g by (simp add: gmatch_ok_def)
  next
    case (Some y)
    show ?thesis
    proof (cases y)
      case (Inl x)
      then show ?thesis using Some by simp
    next
      case (Inr z)
      obtain st' r where z: "z = (st', r)" by (cases z)
      show ?thesis
      proof (cases r)
        case None
        then show ?thesis using Some Inr z by simp
      next
        case r: (Some vs)
        obtain s e where e: "gm_pos st \<le> s" "gm_lastmatch st \<noteq> Some e"
            "match_at_with (gm_src st) (gm_pat st) s e vs" "st' = st\<lparr>gm_pos := e, gm_lastmatch := Some e\<rparr>"
          using g Some Inr z r by (auto simp: gmatch_ok_def)
        have b: "matches_bound (gm_lastmatch st) \<le> e" "e \<le> length (gm_src st)"
          using matches_bound_less [OF Suc(3) _ e(2)] e(1,3) by (simp_all add: match_at_with_def)
        have "gmatch_fuel st' \<le> k"
          using Suc(5) b e(4) by (simp add: gmatch_fuel_def matches_bound_def)
        then have "(\<exists>x. gmatch_run k st' = err x)
            \<or> (\<exists>rs. gmatch_run k st' = ok (Some rs)
                 \<and> (\<forall>vs\<in>set rs. \<exists>s e. match_at_with (gm_src st') (gm_pat st') s e vs))"
          using Suc(2) b(2) e(4) by (intro Suc(1)) (simp_all add: last_ok_def matches_bound_def)
        then show ?thesis using Some Inr z r e(3,4) by auto
      qed
    qed
  qed
qed

section \<open>The plain search\<close>

text \<open>
  A pattern without special bytes or closing parentheses matches exactly its own text, so the scan of
  the matcher and the plain search find the same occurrence.
\<close>

definition plain_pattern :: "bytes \<Rightarrow> bool" where
  "plain_pattern pat \<longleftrightarrow> nospecials pat \<and> 41 \<notin> set pat"

lemma plain_byte:
  assumes "plain_pattern pat" "p < length pat"
  shows "pat ! p \<notin> {94, 36, 42, 43, 63, 46, 40, 91, 37, 45, 41}"
proof -
  have "\<forall>b\<in>set pat. b \<notin> set SPECIALS \<and> b \<noteq> 41" using assms(1) by (auto simp: plain_pattern_def nospecials_def)
  then have "pat ! p \<notin> set SPECIALS \<and> pat ! p \<noteq> 41" using nth_mem [OF assms(2)] by blast
  then show ?thesis by (simp add: SPECIALS_def)
qed

definition occurs :: "bytes \<Rightarrow> bytes \<Rightarrow> nat \<Rightarrow> bool" where
  "occurs needle hay i \<longleftrightarrow> take (length needle) (drop i hay) = needle"

lemma plain_step:
  assumes "plain_pattern pat" "p < length pat"
  shows "match_step rec src pat s p ms =
    ok (ms, if s < length src \<and> src ! s = pat ! p then Init (s + 1) (p + 1) else Done None)"
proof -
  have b: "pat ! p \<notin> {94, 36, 42, 43, 63, 46, 40, 91, 37, 45, 41}" by (rule plain_byte [OF assms])
  have n: "get_at pat (p + 1) \<noteq> Some c" if "c \<in> {42, 43, 45, 63}" for c
    using that plain_byte [OF assms(1), of "p + 1"] by (auto simp: get_at_def split: if_splits)
  have c: "classend pat p = ok (p + 1)" using b assms(2) by (simp add: classend_def idx_def L_ESC_def)
  have "single_match src pat s p (p + 1) = Some (s < length src \<and> src ! s = pat ! p)"
    using b assms(2) by (auto simp: single_match_def idx_def L_ESC_def)
  then have "match_default rec src pat s p ms =
      ok (ms, if s < length src \<and> src ! s = pat ! p then Init (s + 1) (p + 1) else Done None)"
    using c n by (simp add: match_default_def)
  moreover have "plain_item pat p" using b by (simp add: plain_item_def L_ESC_def)
  ultimately show ?thesis by (simp add: match_step_plain)
qed

lemma take_Suc_drop: "take (Suc n) (drop s xs) = y # ys \<longleftrightarrow> s < length xs \<and> xs ! s = y \<and> take n (drop (s + 1) xs) = ys"
  by (cases "s < length xs") (simp_all add: Cons_nth_drop_Suc [symmetric])

lemma plain_match_loop:
  assumes "plain_pattern pat"
  shows "p \<le> length pat \<Longrightarrow> match_loop rec src pat s p ms =
    ok (ms, if occurs (drop p pat) src s then Some (s + (length pat - p)) else None)"
proof (induction "length pat - p" arbitrary: s p)
  case 0
  then show ?case by (subst match_loop.simps) (simp add: occurs_def)
next
  case (Suc k)
  then have p: "p < length pat" by simp
  have d: "drop p pat = pat ! p # drop (p + 1) pat" using p by (simp add: Cons_nth_drop_Suc)
  have l: "length pat - p = Suc (length pat - (p + 1))" using p by simp
  have o: "occurs (drop p pat) src s \<longleftrightarrow> s < length src \<and> src ! s = pat ! p \<and> occurs (drop (p + 1) pat) src (s + 1)"
    using take_Suc_drop [of "length pat - (p + 1)" s src] by (simp add: occurs_def d)
  have "match_loop rec src pat (s + 1) (p + 1) ms =
      ok (ms, if occurs (drop (p + 1) pat) src (s + 1) then Some (s + 1 + (length pat - (p + 1))) else None)"
    using Suc(2) p by (intro Suc(1)) simp_all
  then show ?case
    using p by (subst match_loop.simps) (auto simp: plain_step [OF assms p] o)
qed

lemma plain_match_at:
  assumes "plain_pattern pat"
  shows "match_at src pat s match_state_new =
    ok (match_state_new, if occurs pat src s then Some (s + length pat) else None)"
proof -
  have d: "MAX_CCALLS = Suc 199" by (simp add: MAX_CCALLS_def)
  have m: "match_state_new\<lparr>ms_level := 0\<rparr> = match_state_new" by (simp add: match_state_new_def)
  show ?thesis unfolding match_at_def d m do_match.simps by (simp add: plain_match_loop [OF assms, of 0, simplified])
qed

lemma occurs_bound: "occurs needle hay i \<Longrightarrow> i \<le> length hay \<Longrightarrow> i + length needle \<le> length hay"
proof -
  assume "occurs needle hay i" "i \<le> length hay"
  then have "length (take (length needle) (drop i hay)) = length needle" by (simp add: occurs_def)
  then show ?thesis using \<open>i \<le> length hay\<close> by simp
qed

lemma plain_scan_simp:
  assumes "plain_pattern pat"
  shows "scan src pat False s match_state_new =
    (if occurs pat src s then ok (Some (s, s + length pat, match_state_new))
     else if length src \<le> s then ok None else scan src pat False (s + 1) match_state_new)"
  by (subst scan.simps) (simp add: plain_match_at [OF assms])

lemma plain_scan_none:
  assumes "plain_pattern pat" "length src < s + length pat"
  shows "s \<le> length src \<Longrightarrow> scan src pat False s match_state_new = ok None"
  using assms(2)
proof (induction "length src - s" arbitrary: s)
  case 0
  then show ?case using occurs_bound [of pat src s] by (subst plain_scan_simp [OF assms(1)]) auto
next
  case (Suc k)
  then have "scan src pat False (s + 1) match_state_new = ok None" by (intro Suc(1)) simp_all
  then show ?case
    using Suc occurs_bound [of pat src s] by (subst plain_scan_simp [OF assms(1)]) auto
qed

lemma occurs_drop: "occurs needle (drop i hay) j \<longleftrightarrow> occurs needle hay (i + j)"
  by (simp add: occurs_def add.commute)

text \<open>The scan from \<open>init + i\<close> is the plain loop at \<open>i\<close> on the text from \<open>init\<close>.\<close>

lemma plain_loop_scan:
  assumes "plain_pattern pat" "pat \<noteq> []" "init + length pat \<le> length src"
  shows "init + i \<le> length src \<Longrightarrow> \<exists>r. plain_loop (drop init src) pat i = Some r
    \<and> scan src pat False (init + i) match_state_new =
      ok (map_option (\<lambda>off. (init + off, init + off + length pat, match_state_new)) r)"
proof (induction "length src - (init + i)" arbitrary: i rule: less_induct)
  case less
  let ?hay = "drop init src"
  show ?case
  proof (cases "length ?hay - length pat < i")
    case True
    then have "plain_loop ?hay pat i = Some None" by (subst plain_loop.simps) simp
    moreover have "scan src pat False (init + i) match_state_new = ok None"
      using True less(2) assms(3) by (intro plain_scan_none [OF assms(1)]) auto
    ultimately show ?thesis by simp
  next
    case False
    then have i: "i < length ?hay" using assms by (cases pat) auto
    have h: "occurs pat ?hay i \<longleftrightarrow> ?hay ! i = hd pat \<and> take (length pat) (drop i ?hay) = pat"
    proof -
      obtain x xs where p: "pat = x # xs" using assms(2) by (cases pat) auto
      show ?thesis unfolding occurs_def p list.size using take_Suc_drop [of "length xs" i ?hay x xs] by auto
    qed
    have l: "plain_loop ?hay pat i = (if occurs pat ?hay i then Some (Some i) else plain_loop ?hay pat (i + 1))"
      using False i by (subst plain_loop.simps) (simp add: idx_def h)
    show ?thesis
    proof (cases "occurs pat ?hay i")
      case True
      then show ?thesis using l by (subst plain_scan_simp [OF assms(1)]) (simp add: occurs_drop)
    next
      case False
      have "\<exists>r. plain_loop ?hay pat (i + 1) = Some r \<and> scan src pat False (init + (i + 1)) match_state_new =
          ok (map_option (\<lambda>off. (init + off, init + off + length pat, match_state_new)) r)"
        using i less(2) by (intro less(1)) auto
      moreover have "\<not> length src \<le> init + i" using i by simp
      ultimately show ?thesis using l False by (subst plain_scan_simp [OF assms(1)]) (simp add: occurs_drop)
    qed
  qed
qed

lemma plain_find_scan:
  assumes "plain_pattern pat" "init \<le> length src"
  shows "\<exists>r. plain_find (drop init src) pat = Some r
    \<and> scan src pat False init match_state_new =
      ok (map_option (\<lambda>off. (init + off, init + off + length pat, match_state_new)) r)"
proof (cases "pat = []")
  case True
  then show ?thesis
    by (subst plain_scan_simp [OF assms(1)]) (simp add: plain_find_def occurs_def)
next
  case pat: False
  show ?thesis
  proof (cases "length (drop init src) < length pat")
    case True
    then have "scan src pat False init match_state_new = ok None"
      using assms(2) by (intro plain_scan_none [OF assms(1)]) auto
    then show ?thesis using True pat by (simp add: plain_find_def)
  next
    case False
    then show ?thesis using plain_loop_scan [OF assms(1) pat, of init src 0] assms(2) pat
      by (simp add: plain_find_def)
  qed
qed

lemma plain_unanchored: "plain_pattern pat \<Longrightarrow> \<not> anchored pat \<and> pat_body pat = pat"
  using plain_byte [of pat 0] by (auto simp: anchored_def pat_body_def get_at_def split: if_splits)

end
