(* ===== verification/GsubLemmas.thy ===== *)
theory GsubLemmas
  imports StringLemmas
begin

text \<open>
  The substitution loop over a replacement that does not panic on a match of the subject (locale
  \<open>replacement\<close>), and over one that puts the matched text back (locale \<open>copying\<close>), with the
  replacements of \<open>gsub\<close> as instances.
\<close>

text \<open>What the loop leaves, from a count \<open>n\<close>: the invariant \<open>I\<close> of the output and the position.\<close>

definition gsub_ok :: "(bytes \<Rightarrow> nat \<Rightarrow> bool) \<Rightarrow> bytes \<Rightarrow> int \<Rightarrow> ('w \<times> bytes \<times> nat \<times> int) lib \<Rightarrow> bool" where
  "gsub_ok I src n r \<longleftrightarrow> (case r of
      None \<Rightarrow> False
    | Some (Inl _) \<Rightarrow> True
    | Some (Inr (w, out, pos, count)) \<Rightarrow> pos \<le> length src \<and> I out pos \<and> n \<le> count \<and> count \<le> int (length src) + 1)"

lemma gsub_ok_err [simp]: "gsub_ok I src n (err x)"
  by (simp add: gsub_ok_def)

lemma gsub_ok_ok [simp]:
  "gsub_ok I src n (ok (w, out, pos, count)) \<longleftrightarrow>
   pos \<le> length src \<and> I out pos \<and> n \<le> count \<and> count \<le> int (length src) + 1"
  by (simp add: gsub_ok_def)

lemma gsub_ok_mono: "gsub_ok I src n r \<Longrightarrow> m \<le> n \<Longrightarrow> gsub_ok I src m r"
  by (auto simp: gsub_ok_def split: option.splits sum.splits)

lemma matches_bound_src: "last_ok lastm pos \<Longrightarrow> pos \<le> n \<Longrightarrow> int (matches_bound lastm) \<le> int n + 1"
  by (cases lastm) (auto simp: last_ok_def matches_bound_def)

locale replacement =
  fixes src :: bytes
    and repl :: "'w \<Rightarrow> match_state \<Rightarrow> nat \<Rightarrow> nat \<Rightarrow> ('w \<times> bytes) lib"
  assumes total: "ms_ok e ms \<Longrightarrow> s \<le> e \<Longrightarrow> e \<le> length src \<Longrightarrow> repl w ms s e \<noteq> None"
begin

lemma repl_cases:
  assumes "ms_ok e ms" "s \<le> e" "e \<le> length src"
  obtains x where "repl w ms s e = err x" | w' r where "repl w ms s e = ok (w', r)"
  using total [OF assms, of w] by (metis old.sum.exhaust option.exhaust surj_pair)

lemma loop:
  assumes small: "length src < 2 ^ 31"
    and fresh: "\<And>ms. matcher_ready ms \<Longrightarrow> matcher_ready (fresh ms)"
    and skip: "\<And>out pos. I out pos \<Longrightarrow> pos < length src \<Longrightarrow> I (out @ [src ! pos]) (pos + 1)"
    and subst: "\<And>out pos e w ms w' r. I out pos \<Longrightarrow> pos \<le> e \<Longrightarrow> e \<le> length src \<Longrightarrow> ms_ok e ms \<Longrightarrow>
      repl w ms pos e = ok (w', r) \<Longrightarrow> I (out @ r) e"
  shows "matcher_ready ms \<Longrightarrow> pos \<le> length src \<Longrightarrow> I out pos \<Longrightarrow> last_ok lastm pos \<Longrightarrow>
    count \<le> int (matches_bound lastm) \<Longrightarrow>
    gsub_ok I src count (gsub_loop fresh repl anchor src body max_n w ms out pos lastm count)"
proof (induction "(nat (max_n - count), length src - pos)" arbitrary: w ms out pos lastm count
    rule: wf_induct_rule [OF wf_lex_prod [OF wf_less_than wf_less_than]])
  case (1 pos count w ms out lastm)
  note IH = 1(1) and ready = 1(2) and pos = 1(3) and inv = 1(4) and lst = 1(5) and cnt = 1(6)
  let ?g = "gsub_loop fresh repl anchor src body max_n w ms out pos lastm count"
  have c: "count \<le> int (length src) + 1" using matches_bound_src [OF lst pos] cnt by linarith
  show ?case
  proof (cases "max_n \<le> count")
    case True
    then show ?thesis using pos inv c by (subst gsub_loop.simps) simp
  next
    case more: False
    have skipping: "gsub_ok I src count ?g"
      if m: "match_at src body pos (fresh ms) = ok (ms', m)" "matcher_ready ms'" "new_match lastm m = None" for ms' m
    proof (cases "pos < length src")
      case True
      then have "gsub_ok I src count (gsub_loop fresh repl anchor src body max_n w ms' (out @ [src ! pos]) (pos + 1) lastm count)"
        using inv lst cnt m(2) skip by (intro IH) (auto simp: last_ok_def)
      moreover have "I (out @ [src ! pos]) (Suc pos)" using skip [OF inv True] by simp
      ultimately show ?thesis using more m(1,3) True c by (subst gsub_loop.simps) (cases anchor; simp)
    next
      case False
      then show ?thesis using more m(1,3) pos inv c by (subst gsub_loop.simps) simp
    qed
    show ?thesis
    proof (rule match_at_cases [OF small pos fresh [OF ready], where body = body])
      fix x assume "match_at src body pos (fresh ms) = err x"
      then show ?thesis using more by (subst gsub_loop.simps) simp
    next
      fix ms' assume "match_at src body pos (fresh ms) = ok (ms', None)" "matcher_ready ms'"
      then show ?thesis by (rule skipping) simp
    next
      fix ms' e assume m: "match_at src body pos (fresh ms) = ok (ms', Some e)" "pos \<le> e" "e \<le> length src" "ms_ok e ms'"
      show ?thesis
      proof (cases "lastm = Some e")
        case True
        show ?thesis using m(1) ms_ok_ready [OF m(4)] by (rule skipping) (simp add: new_match_def True)
      next
        case False
        then have n: "new_match lastm (Some e) = Some e" by (simp add: new_match_def)
        have b: "count + 1 \<le> int (matches_bound (Some e))"
          using matches_bound_less [OF lst m(2) False] cnt by (simp add: matches_bound_def)
        show ?thesis
        proof (rule repl_cases [OF m(4,2,3), where w = w])
          fix x assume "repl w ms' pos e = err x"
          then show ?thesis using more m(1) n by (subst gsub_loop.simps) simp
        next
          fix w' r assume r: "repl w ms' pos e = ok (w', r)"
          have i: "I (out @ r) e" by (rule subst [OF inv m(2,3,4) r])
          have "gsub_ok I src (count + 1)
              (gsub_loop fresh repl anchor src body max_n w' ms' (out @ r) e (Some e) (count + 1))"
            using more i b m(3) ms_ok_ready [OF m(4)] by (intro IH) (auto simp: last_ok_def)
          then have "gsub_ok I src count
              (gsub_loop fresh repl anchor src body max_n w' ms' (out @ r) e (Some e) (count + 1))"
            by (rule gsub_ok_mono) simp
          moreover have "count + 1 \<le> int (length src) + 1" using b m(3) by (simp add: matches_bound_def)
          ultimately show ?thesis using more m(1,3) n r i by (subst gsub_loop.simps) (cases anchor; simp)
        qed
      qed
    qed
  qed
qed

text \<open>From the start of the subject.\<close>

lemmas from_start = loop [where pos = 0 and out = "[]" and lastm = None and count = 0 and ms = match_state_new]

end

locale copying = replacement +
  assumes copies: "repl w ms s e = ok (w', r) \<Longrightarrow> r = take (e - s) (drop s src)"
begin

lemma out_is_prefix:
  assumes "length src < 2 ^ 31" "\<And>ms. matcher_ready ms \<Longrightarrow> matcher_ready (fresh ms)"
  shows "gsub_ok (\<lambda>out pos. out = take pos src) src 0
    (gsub_loop fresh repl anchor src body max_n w match_state_new [] 0 None 0)"
proof (rule from_start [OF assms])
  fix out pos e w ms w' r
  assume "out = take pos src" "pos \<le> e" "repl w ms pos e = ok (w', r)"
  then show "out @ r = take e src"
    using copies take_add [of pos "e - pos" src] by simp
qed (simp_all add: take_Suc_conv_app_nth last_ok_def)

lemma puts_back:
  assumes "length src < 2 ^ 31" "\<And>ms. matcher_ready ms \<Longrightarrow> matcher_ready (fresh ms)"
    and "and_then (gsub_loop fresh repl anchor src body max_n w match_state_new [] 0 None 0) (gsub_finish src)
      = ok (w', out, count)"
  shows "out = src"
  using out_is_prefix [where fresh = fresh, OF assms(1,2), where anchor = anchor and body = body and max_n = max_n and w = w] assms(3)
  by (auto simp: and_then_ok_iff gsub_finish_def subslice_def of_panic_def split: if_splits)

end

section \<open>The replacements of \<open>gsub\<close>\<close>

lemma subslice_Some [simp]: "s \<le> e \<Longrightarrow> e \<le> length src \<Longrightarrow> subslice src s e = Some (take (e - s) (drop s src))"
  by (simp add: subslice_def)

lemma onecapture_cases:
  assumes "ms_ok e ms" "s \<le> e" "e \<le> length src"
  obtains x where "get_onecapture ms i s e = err x"
    | n where "get_onecapture ms i s e = ok (CapPos n)"
    | x y where "get_onecapture ms i s e = ok (CapStr x y)" "x \<le> y" "y \<le> length src"
proof (cases "ms_level ms \<le> i")
  case True
  then show thesis
    using that(1) that(3) [of s e] assms by (cases "i = 0") (simp_all add: get_onecapture_def)
next
  case False
  let ?c = "ms_capture ms ! i"
  have c: "?c \<in> set (caps ms)"
    using False length_caps [OF assms(1)] caps_nth [of i ms] by (metis not_le nth_mem)
  have i: "get_onecapture ms i s e = (case cap_len ?c of Unfinished \<Rightarrow> err UnfinishedCapture
      | Position \<Rightarrow> ok (CapPos (int (cap_init ?c) + 1)) | Len n \<Rightarrow> ok (CapStr (cap_init ?c) (cap_init ?c + n)))"
    using False assms(1) by (simp add: get_onecapture_def idx_def ms_ok_def)
  show thesis
  proof (cases "cap_len ?c")
    case (Len n)
    then have "cap_init ?c + n \<le> length src" using c assms by (fastforce simp: ms_ok_def caps_ok_def)
    then show thesis using that(3) i Len by simp
  qed (use that i in simp_all)
qed

lemma add_s_total:
  assumes "ms_ok e ms" "s \<le> e" "e \<le> length src"
  shows "add_s ms src s e t out \<noteq> None"
proof (induction t arbitrary: out rule: length_induct)
  case (1 t)
  show ?case
  proof (cases t)
    case Nil
    then show ?thesis by simp
  next
    case t: (Cons b t1)
    show ?thesis
    proof (cases t1)
      case Nil
      then show ?thesis by (simp add: t)
    next
      case (Cons c t2)
      have IH: "add_s ms src s e t1 o1 \<noteq> None" "add_s ms src s e t2 o1 \<noteq> None" for o1
        using 1 [rule_format, of t1 o1] 1 [rule_format, of t2 o1] by (simp_all add: t Cons del: add_s.simps)
      show ?thesis
      proof (rule onecapture_cases [OF assms, where i = "unat c - 49"])
        fix x assume "get_onecapture ms (unat c - 49) s e = err x"
        then show ?thesis using IH assms by (simp add: t Cons)
      next
        fix n assume "get_onecapture ms (unat c - 49) s e = ok (CapPos n)"
        then show ?thesis using IH assms by (simp add: t Cons)
      next
        fix x y assume "get_onecapture ms (unat c - 49) s e = ok (CapStr x y)" "x \<le> y" "y \<le> length src"
        then show ?thesis using IH assms by (simp add: t Cons)
      qed
    qed
  qed
qed

text \<open>The three replacements: a template, the template \<open>%0\<close>, a function.\<close>

definition template_repl :: "bytes \<Rightarrow> bytes \<Rightarrow> unit \<Rightarrow> match_state \<Rightarrow> nat \<Rightarrow> nat \<Rightarrow> (unit \<times> bytes) lib" where
  "template_repl src template w ms s e = and_then (add_s ms src s e template []) (\<lambda>r. ok (w, r))"

interpretation tmpl: replacement src "template_repl src template" for src template
  by unfold_locales (use add_s_total in \<open>auto simp: template_repl_def and_then_None_iff\<close>)

interpretation whole: copying src "template_repl src [37, 48]" for src
  by unfold_locales (auto simp: template_repl_def and_then_ok_iff of_panic_def subslice_def split: if_splits)

lemma classify_total: "classify_repl_result v \<noteq> None"
  by (simp add: classify_repl_result_def split: option.split)

lemma call_repl_total: "call_repl call h f args \<noteq> None"
  using classify_total by (auto simp: call_repl_def and_then_None_iff simp del: not_None_eq split: prod.splits sum.splits)

interpretation fn: replacement src "run_repl call (ReplFunc f) src" for src call f
proof unfold_locales
  fix e ms s w
  assume m: "ms_ok e ms" "s \<le> e" "e \<le> length src"
  show "run_repl call (ReplFunc f) src w ms s e \<noteq> None"
    using captures_cases(1) [OF m] call_repl_total [of call w f]
    by (auto simp: run_repl_def m and_then_None_iff)
qed

lemma gsub_string_loop:
  "gsub_string src pat template max_n =
     and_then (and_then (gsub_loop (\<lambda>ms. ms) (template_repl src template) (anchored pat) src (pat_body pat) max_n
         () match_state_new [] 0 None 0) (gsub_finish src)) (\<lambda>(_, out, count). ok (out, count))"
  by (simp add: gsub_string_def template_repl_def [abs_def] and_then_def split: option.split sum.split)

end
