(* ===== verification/StringProps.thy ===== *)
theory StringProps
  imports GsubLemmas StringLemmas
begin

text \<open>The properties of the pattern matcher and the string library.\<close>

section \<open>Matching\<close>

definition first_match :: "bytes \<Rightarrow> bytes \<Rightarrow> nat \<Rightarrow> nat \<Rightarrow> nat \<Rightarrow> capture list \<Rightarrow> bool" where
  "first_match src pat init s e cs \<longleftrightarrow> init \<le> s \<and> s \<le> e \<and> e \<le> length src \<and> (anchored pat \<longrightarrow> s = init)
     \<and> pat_rule src (pat_body pat) [] s 0 cs e \<and> (\<forall>t. init \<le> t \<longrightarrow> t < s \<longrightarrow> \<not> matches src (pat_body pat) t)"

definition no_match_from :: "bytes \<Rightarrow> bytes \<Rightarrow> nat \<Rightarrow> bool" where
  "no_match_from src pat init \<longleftrightarrow>
     (\<forall>t. init \<le> t \<longrightarrow> t \<le> length src \<longrightarrow> (anchored pat \<longrightarrow> t = init) \<longrightarrow> \<not> matches src (pat_body pat) t)"

lemma scan_cases:
  assumes "length src < 2 ^ 31" "init \<le> length src"
  obtains x where "scan src (pat_body pat) (anchored pat) init match_state_new = err x"
    | "scan src (pat_body pat) (anchored pat) init match_state_new = ok None" "no_match_from src pat init"
    | s e ms where "scan src (pat_body pat) (anchored pat) init match_state_new = ok (Some (s, e, ms))"
        "first_match src pat init s e (caps ms)" "ms_ok e ms" "s \<le> e" "e \<le> length src"
proof -
  let ?r = "scan src (pat_body pat) (anchored pat) init match_state_new"
  have s: "scan_ok src (pat_body pat) (anchored pat) init ?r" by (rule scan_is_ok [OF assms ready_new])
  consider x where "?r = err x" | "?r = ok None" | s e ms where "?r = ok (Some (s, e, ms))"
    using s by (cases ?r) (auto simp: scan_ok_def split: sum.splits option.splits)
  then show thesis
  proof cases
    case 1
    then show ?thesis using that(1) by simp
  next
    case 2
    then show ?thesis using s that(2) by (simp add: scan_ok_def no_match_from_def)
  next
    case (3 s e ms)
    then show ?thesis using s that(3) by (simp add: scan_ok_def first_match_def)
  qed
qed

lemma init_pos_le: "init_pos i n = Some k \<Longrightarrow> k \<le> n"
  by (simp add: init_pos_def Let_def split: if_splits)

text \<open>
  C4. \<open>string.match\<close> implements the matching relation. It never panics; when it returns, either the
  values are those of a match of the relation at the first position from \<open>init\<close> on that has one
  (\<open>init\<close> itself under an anchor), within the subject, or it is nil and no position has one.
\<close>

theorem match_finds_first:
  assumes "length src < 2 ^ 31" "init_pos (sint i) (length src) = Some init"
  shows "lua_match fpowi [VStr src, VStr pat, VInt i] \<noteq> None
    \<and> (\<forall>vs. lua_match fpowi [VStr src, VStr pat, VInt i] = ok vs \<longrightarrow>
        (\<exists>s e cs. first_match src pat init s e cs \<and> vs = match_values src cs s e)
        \<or> vs = [VNil] \<and> no_match_from src pat init)"
proof (rule scan_cases [OF assms(1) init_pos_le [OF assms(2)], where pat = pat])
  fix s e ms
  assume m: "scan src (pat_body pat) (anchored pat) init match_state_new = ok (Some (s, e, ms))"
    "first_match src pat init s e (caps ms)" "ms_ok e ms" "s \<le> e" "e \<le> length src"
  show ?thesis using captures_cases(1) [OF m(3-5)] m(1,2) assms(2) by (auto simp: lua_match_def; blast)
qed (simp_all add: lua_match_def assms(2))

lemma match_finds_first_witness:
  "\<exists>vs. lua_match (\<lambda>x e. x) [VStr [97, 98], VStr [98], VInt 1] = ok vs
     \<and> (\<exists>s e cs. first_match [97, 98] [98] 0 s e cs \<and> vs = match_values [97, 98] cs s e)"
proof -
  have m: "lua_match (\<lambda>x e. x) [VStr [97, 98], VStr [98], VInt 1] = ok [VStr [98]]"
    by code_simp
  show ?thesis
    using match_finds_first [of "[97, 98]" 1 0 "\<lambda>x e. x" "[98]"] m by (simp add: init_pos_def)
qed

text \<open>
  For a pattern without special bytes \<open>string.find\<close> does a plain search. Unless the pattern has a
  closing parenthesis, which is an error of the matcher but an ordinary byte of the search, the
  result is the one the matcher would have given.
\<close>

theorem find_shortcut_agrees:
  assumes "nospecials pat" "41 \<notin> set pat"
  shows "lua_find fpowi [VStr src, VStr pat, VInt i] =
    (case init_pos (sint i) (length src) of
       None \<Rightarrow> ok [VNil]
     | Some init \<Rightarrow>
         and_then (map_err PatternFault (scan src (pat_body pat) (anchored pat) init match_state_new)) (\<lambda>r. case r of
             Some (s, e, ms) \<Rightarrow> and_then (captures src ms False s e) (\<lambda>cs.
               ok (VInt (word_of_nat (s + 1)) # VInt (word_of_nat e) # cs))
           | None \<Rightarrow> ok [VNil]))"
proof (cases "init_pos (sint i) (length src)")
  case None
  then show ?thesis by (simp add: lua_find_def)
next
  case (Some init)
  have p: "plain_pattern pat" using assms by (simp add: plain_pattern_def)
  obtain r where r: "plain_find (drop init src) pat = Some r"
      "scan src pat False init match_state_new =
        ok (map_option (\<lambda>off. (init + off, init + off + length pat, match_state_new)) r)"
    using plain_find_scan [OF p init_pos_le [OF Some]] by blast
  have c: "captures src match_state_new False s e = ok []" for s e
    by (simp add: captures_def num_captures_def match_state_new_def)
  show ?thesis
    using plain_unanchored [OF p] assms(1) r Some c by (cases r) (simp_all add: lua_find_def)
qed

lemma find_shortcut_agrees_witness:
  "lua_find (\<lambda>x e. x) [VStr [97, 98], VStr [98], VInt 1] = ok [VInt 2, VInt 2]"
proof -
  have a: "nospecials [98 :: u8]" "41 \<notin> set [98 :: u8]" by code_simp+
  have s: "scan [97, 98] [98] False 0 match_state_new = ok (Some (1, 2, match_state_new))"
    by code_simp
  show ?thesis
    unfolding find_shortcut_agrees [OF a]
    using s by (simp add: init_pos_def pat_body_def anchored_def get_at_def captures_def num_captures_def match_state_new_def)
qed

section \<open>Iterating and substituting\<close>

text \<open>
  C22. A \<open>string.gmatch\<close> loop ends: the iterator never panics and within two calls more than the
  subject has bytes it raises an error or returns nothing; every value it gave until then is that
  of a match of the relation.
\<close>

theorem gmatch_ends:
  assumes "length src < 2 ^ 31" "lua_gmatch fpowi [VStr src, VStr pat, v] = ok st"
  shows "(\<exists>x. gmatch_run (length src + 2) st = err x)
    \<or> (\<exists>rs. gmatch_run (length src + 2) st = ok (Some rs)
         \<and> (\<forall>vs\<in>set rs. \<exists>s e. match_at_with src pat s e vs))"
proof -
  have st: "gm_src st = src" "gm_pat st = pat" "gm_lastmatch st = None"
    using assms(2) by (auto simp: lua_gmatch_def and_then_ok_iff Let_def)
  have "last_ok (gm_lastmatch st) (gm_pos st)" "matches_bound (gm_lastmatch st) \<le> Suc (length (gm_src st))"
    "gmatch_fuel st \<le> length src + 2" "length (gm_src st) < 2 ^ 31"
    using assms(1) by (simp_all add: st last_ok_def matches_bound_def gmatch_fuel_def)
  then show ?thesis using gmatch_run_ends [of st "length src + 2"] by (simp add: st)
qed

lemma gmatch_ends_witness:
  "\<exists>st. lua_gmatch (\<lambda>x e. x) [VStr [97, 98], VStr [46], VInt 1] = ok st
    \<and> ((\<exists>x. gmatch_run 4 st = err x)
       \<or> (\<exists>rs. gmatch_run 4 st = ok (Some rs) \<and> (\<forall>vs\<in>set rs. \<exists>s e. match_at_with [97, 98] [46] s e vs)))"
proof -
  let ?st = "\<lparr>gm_src = [97, 98], gm_pat = [46], gm_pos = 0, gm_lastmatch = None\<rparr>"
  have g: "lua_gmatch (\<lambda>x e. x) [VStr [97, 98], VStr [46], VInt 1] = ok ?st"
    by (simp add: lua_gmatch_def init_pos_def)
  have n: "length [97 :: u8, 98] + 2 = 4" "length [97 :: u8, 98] < 2 ^ 31" by simp_all
  show ?thesis by (rule exI [of _ ?st], rule conjI [OF g gmatch_ends [OF n(2) g, unfolded n(1)]])
qed

text \<open>
  C23. \<open>string.gsub\<close> does not panic, whatever the pattern and the template, and makes at most one
  substitution more than the subject has bytes, so that the default limit cuts nothing off; with the
  template \<open>%0\<close> the result is the subject.
\<close>

theorem gsub_puts_back:
  assumes "length src < 2 ^ 31"
  shows "gsub_string src pat template max_n \<noteq> None
    \<and> (\<forall>out n. gsub_string src pat template max_n = ok (out, n) \<longrightarrow>
         0 \<le> n \<and> n \<le> int (length src) + 1 \<and> (template = [37, 48] \<longrightarrow> out = src))"
proof -
  let ?l = "gsub_loop (\<lambda>ms. ms) (template_repl src template) (anchored pat) src (pat_body pat) max_n
    () match_state_new [] 0 None 0"
  have g: "gsub_ok (\<lambda>_ _. True) src 0 ?l"
    by (rule tmpl.from_start [OF assms]) (simp_all add: last_ok_def)
  have w: "out = src" if "template = [37, 48]" "and_then ?l (gsub_finish src) = ok (w, out, n)" for out w n
    using whole.puts_back [OF assms, where fresh = "\<lambda>ms. ms"] that by simp
  show ?thesis
  proof (cases ?l)
    case None
    then show ?thesis using g by (simp add: gsub_ok_def)
  next
    case (Some y)
    then show ?thesis using g w
      by (cases y) (auto simp: gsub_string_loop gsub_finish_def gsub_ok_def)
  qed
qed

lemma gsub_puts_back_witness:
  "gsub_string [97, 98, 97] [97] [37, 48] 4 = ok ([97, 98, 97], 2)"
proof -
  have n: "map_option (map_sum (\<lambda>_. ()) snd) (gsub_string [97, 98, 97] [97] [37, 48] 4) = ok 2"
    by code_simp
  then show ?thesis using gsub_puts_back [of "[97, 98, 97]" "[97]" "[37, 48]" 4]
    by (auto simp: map_option_case map_sum_def split: option.splits sum.splits)
qed

section \<open>Bytes\<close>

text \<open>The bytes of a string between two positions.\<close>

lemma byte_loop_values:
  "1 \<le> k \<Longrightarrow> e \<le> int (length b) \<Longrightarrow>
   byte_loop b k e out = ok (out @ map (\<lambda>c. VInt (ucast c)) (take (nat (e + 1 - k)) (drop (nat (k - 1)) b)))"
proof (induction b k e out rule: byte_loop.induct)
  case (1 b k e out)
  show ?case
  proof (cases "e < k")
    case True
    then show ?thesis by (subst byte_loop.simps) simp
  next
    case False
    then have k: "nat (k - 1) < length b" "nat (e + 1 - k) = Suc (nat (e - k))" "nat k = Suc (nat (k - 1))"
      using 1(2,3) by auto
    have i: "idx b (nat (k - 1)) = Some (b ! nat (k - 1))" using k(1) by (simp add: idx_def)
    have d: "drop (nat (k - 1)) b = b ! nat (k - 1) # drop (nat k) b"
      using k(1,3) by (simp add: Cons_nth_drop_Suc)
    show ?thesis
      using 1(1) [OF False i] 1(2,3) False by (subst byte_loop.simps) (simp add: i d k(2))
  qed
qed

lemma byte_as_int: "sint (ucast (c :: u8) :: i64) = uint c"
proof -
  have "uint c < 2 ^ 63" using uint_lt2p [of c] by simp
  moreover have "- (2 ^ 63) \<le> uint c" by (rule order_trans [of _ 0]) simp_all
  ultimately show ?thesis by (simp add: signed_ucast_eq signed_take_bit_int_eq_self_iff)
qed

lemma byte_back: "ucast (ucast (c :: u8) :: i64) = c"
  by (rule bit_word_eqI) (simp add: bit_ucast_iff)

lemma char_loop_bytes:
  "char_loop fpowi i (map (\<lambda>c. VInt (ucast c)) b) out = ok (out @ b)"
proof (induction b arbitrary: i out)
  case (Cons c b)
  have "uint c \<le> 255" using uint_lt2p [of c] by simp
  then show ?case using Cons by (simp add: byte_as_int byte_back)
qed simp

text \<open>
  The byte values that \<open>string.byte\<close> gives for two positions, put back together by
  \<open>string.char\<close>, are the substring \<open>string.sub\<close> gives for them, whichever the positions are; none of
  the three fails.
\<close>

theorem byte_char_is_sub:
  "and_then (lua_byte fpowi [VStr s, VInt i, VInt j]) (lua_char fpowi) = lua_sub fpowi [VStr s, VInt i, VInt j]
   \<and> (\<exists>r. lua_sub fpowi [VStr s, VInt i, VInt j] = ok [VStr r])"
proof -
  let ?s = "max (posrelat (sint i) (length s)) 1"
  let ?e = "min (posrelat (sint j) (length s)) (int (length s))"
  have b: "and_then (lua_byte fpowi [VStr s, VInt i, VInt j]) (lua_char fpowi)
      = ok [VStr (take (nat (?e + 1 - ?s)) (drop (nat (?s - 1)) s))]"
    by (simp add: lua_byte_def lua_char_def byte_loop_values char_loop_bytes)
  have "lua_sub fpowi [VStr s, VInt i, VInt j] = ok [VStr (take (nat (?e + 1 - ?s)) (drop (nat (?s - 1)) s))]"
  proof (cases "?s \<le> ?e")
    case True
    then have "nat (?s - 1) \<le> nat ?e" "nat ?e \<le> length s" "nat (?e + 1 - ?s) = nat ?e - nat (?s - 1)" by linarith+
    then have "subslice s (nat (?s - 1)) (nat ?e) = Some (take (nat (?e + 1 - ?s)) (drop (nat (?s - 1)) s))"
      by (simp only: subslice_Some)
    then show ?thesis using True by (simp only: lua_sub_def arg_simps check_str_VStr opt_integer_simps and_then_simps
      Let_def if_True of_panic_simps One_nat_def)
  next
    case False
    then have "nat (?e + 1 - ?s) = 0" by linarith
    then show ?thesis using False by (simp only: lua_sub_def arg_simps check_str_VStr opt_integer_simps and_then_simps
      Let_def if_False take_0 One_nat_def)
  qed
  then show ?thesis using b by simp
qed

end
