(* ===== verification/Executor.thy ===== *)
theory Executor
  imports Interp
begin

text \<open>
  \<open>lua/executor.rs\<close>: the driver that runs coroutines and native sequences, and \<open>vm/sequence.rs\<close>,
  what they ask of it. A sequence is a dynamic object: \<open>ee_poll\<close> gives its \<open>poll\<close> (no pending error)
  and \<open>error\<close> methods as a function of the world, the thread it runs on and its stack window.
  \<open>ee_main\<close> is \<open>Context::main_thread\<close>. The state of the running thread is written back to the world
  after each operation. A panic, \<open>unreachable!\<close> included, is \<open>None\<close>.
\<close>

section \<open>State\<close>

datatype sequence_poll =
    SPPending
  | SPReturn
  | SPCall addr nat
  | SPYield nat
  | SPResume addr nat
  | SPTailCall addr
  | SPTailYield
  | SPTailResume addr

type_synonym poll_fn = "box_sequence \<Rightarrow> world \<Rightarrow> addr \<Rightarrow> lua_value option \<Rightarrow> lua_value list \<Rightarrow>
  (world \<times> box_sequence \<times> lua_value list \<times> (lua_value + sequence_poll)) option"

record exec_env =
  ee_runtime :: runtime
  ee_poll :: poll_fn
  ee_main :: addr

datatype executor_mode = EStopped | ENormal | EResult | EYielded

text \<open>\<open>ex_stack\<close> has the top thread first.\<close>

record executor =
  ex_thread :: addr
  ex_stack :: "addr list"
  ex_mode :: executor_mode

datatype step_result = StepDone | StepYielded "lua_value list" | StepPending

datatype runtime_error = BadMode | OpcodeError | LuaError lua_value | MainYielded

type_synonym driver = "world \<times> executor"

text \<open>How a turn of the loop of \<open>step\<close> ends; \<open>Starved\<close> is the interpreter out of fuel.\<close>

datatype turn = Again driver | Stop driver step_result | Fail driver runtime_error | Starved

definition with_thread :: "world \<Rightarrow> addr \<Rightarrow> thread_state \<Rightarrow> world" where
  "with_thread w t th = w\<lparr>w_threads := (w_threads w)(t := th)\<rparr>"

definition slice_from :: "nat \<Rightarrow> 'a list \<Rightarrow> 'a list option" where
  "slice_from i xs = (if i \<le> length xs then Some (drop i xs) else None)"

definition insert_at :: "nat \<Rightarrow> 'a \<Rightarrow> 'a list \<Rightarrow> 'a list option" where
  "insert_at i x xs = (if i \<le> length xs then Some (take i xs @ x # drop i xs) else None)"

definition top_is_sequence :: "thread_state \<Rightarrow> bool" where
  "top_is_sequence th = (case th_frames th of FSequence _ _ _ # _ \<Rightarrow> True | _ \<Rightarrow> False)"

section \<open>Landing results\<close>

definition frame_window :: "world \<Rightarrow> lua_frame \<Rightarrow> nat" where
  "frame_window w f = lf_base f + unat (pr_max_stack_size (proto_of w (lf_closure f)))"

definition apply_native_continuation :: "world \<Rightarrow> nat \<Rightarrow> continuation \<Rightarrow> thread_state \<Rightarrow> thread_state option" where
  "apply_native_continuation w bottom cont th = do {
     retc \<leftarrow> sub_nat (length (th_stack th)) bottom;
     let result0 = (if 0 < retc then th_stack th ! bottom else VNil);
     f \<leftarrow> top_lua th;
     th1 \<leftarrow> (case ct_payload cont of
         StoreResult dst \<Rightarrow> do {
           s \<leftarrow> idx_set (th_stack th) (lf_base f + unat dst) result0;
           Some (th\<lparr>th_stack := s\<rparr>)
         }
       | IgnoreResult \<Rightarrow> Some th
       | CondJump offset inverted \<Rightarrow>
           if (\<not> is_falsy result0) \<noteq> inverted then
             Some (upd_top_lua (\<lambda>f. f\<lparr>lf_pc := nat ((int (lf_pc f) + offset) mod 2 ^ 64)\<rparr>) th)
           else Some th
       | TForCall r count \<Rightarrow> do {
           let dst = lf_base f + unat r + 3;
           let to_copy = min retc (unat count);
           s \<leftarrow> copy_up dst bottom to_copy (th_stack th);
           s' \<leftarrow> fill_nil (dst + to_copy) (unat count - to_copy) s;
           Some (th\<lparr>th_stack := s'\<rparr>)
         });
     Some (upd_stack (\<lambda>s. grow s (frame_window w f)) th1)
   }"

definition land_call_results :: "world \<Rightarrow> call_site \<Rightarrow> thread_state \<Rightarrow> thread_state option" where
  "land_call_results w cs th = (case cs_cont cs of
     Some cont \<Rightarrow> apply_native_continuation w (cs_bottom cs) cont th
   | None \<Rightarrow> do {
       retc \<leftarrow> sub_nat (length (th_stack th)) (cs_bottom cs);
       let wanted = (if cs_returns cs = 0 then retc else unat (cs_returns cs) - 1);
       let to_copy = min retc wanted;
       s \<leftarrow> copy_up (cs_func_idx cs) (cs_bottom cs) to_copy (th_stack th);
       s' \<leftarrow> fill_nil (cs_func_idx cs + to_copy) (wanted - to_copy) s;
       let th1 = (if cs_returns cs = 0
         then th\<lparr>th_stack := take (cs_func_idx cs + retc) s', th_top := cs_func_idx cs + retc\<rparr>
         else th\<lparr>th_stack := (case top_lua th of Some f \<Rightarrow> grow s' (frame_window w f) | None \<Rightarrow> s')\<rparr>);
       Some (if th_frames th1 = [] then th1\<lparr>th_status := Result (cs_func_idx cs)\<rparr> else th1)
     })"

section \<open>Scheduling\<close>

definition schedule_call_at :: "runtime \<Rightarrow> world \<Rightarrow> thread_state \<Rightarrow> nat \<Rightarrow> addr \<Rightarrow> u8 \<Rightarrow>
    (world \<times> thread_state) option" where
  "schedule_call_at rt w th slot f returns = (case w_funs w f of
     FKLua c \<Rightarrow> do {
       let base = slot + 1;
       let caller_provided = length (th_stack th) - base;
       s \<leftarrow> enter_frame w c base caller_provided (th_stack th);
       Some (w, push_lua (call_frame w c base returns caller_provided None) (th\<lparr>th_stack := s\<rparr>))
     }
   | FKNative nc \<Rightarrow> do {
       let args_base = slot + 1;
       argc \<leftarrow> sub_nat (length (th_stack th)) args_base;
       (w1, th1, r) \<leftarrow> invoke_native rt w th nc args_base argc;
       case r of
         Inl e \<Rightarrow> Some (w1, push_frame (FError e) th1)
       | Inr AReturn \<Rightarrow> do {
           retc \<leftarrow> sub_nat (length (th_stack th1)) args_base;
           s \<leftarrow> copy_up slot args_base retc (th_stack th1);
           Some (w1, th1\<lparr>th_stack := take (slot + retc) s\<rparr>)
         }
       | Inr other \<Rightarrow> Some (w1, th1\<lparr>th_pending_action := Some (other,
           \<lparr>cs_bottom = args_base, cs_func_idx = slot, cs_returns = returns, cs_cont = None\<rparr>)\<rparr>)
     })"

text \<open>The arguments placed in a suspended thread; \<open>None\<close> of the inner option is \<open>BadMode\<close>.\<close>

definition feed_target :: "world \<Rightarrow> lua_value list \<Rightarrow> thread_state \<Rightarrow> thread_state option option" where
  "feed_target w args ts =
     (if th_status ts \<noteq> Suspended then Some None
      else case th_frames ts of
        FStart _ # _ \<Rightarrow> Some (Some (ts\<lparr>th_stack := args, th_status := Normal\<rparr>))
      | _ \<Rightarrow>
          (case th_yield_bottom ts of
             None \<Rightarrow> Some None
           | Some y \<Rightarrow> do {
               let ts1 = ts\<lparr>th_yield_bottom := None, th_stack := take (cs_bottom y) (th_stack ts) @ args\<rparr>;
               ts2 \<leftarrow> (if top_is_sequence ts1 then Some ts1 else land_call_results w y ts1);
               Some (Some (ts2\<lparr>th_status := Normal\<rparr>))
             }))"

definition schedule_thread_resume :: "driver \<Rightarrow> addr \<Rightarrow> addr \<Rightarrow> nat \<Rightarrow> call_site \<Rightarrow> turn option" where
  "schedule_thread_resume d resumer target args_bottom wt = (case d of (w, ex) \<Rightarrow> do {
     let rs = (push_frame (FWaitThread wt) (w_threads w resumer))\<lparr>th_status := Normal\<rparr>;
     args \<leftarrow> slice_from args_bottom (th_stack rs);
     let w1 = with_thread w resumer (rs\<lparr>th_stack := take args_bottom (th_stack rs)\<rparr>);
     fed \<leftarrow> feed_target w1 args (w_threads w1 target);
     case fed of
       None \<Rightarrow> Some (Fail (w1, ex) BadMode)
     | Some ts \<Rightarrow> Some (Again (with_thread w1 target ts, ex\<lparr>ex_stack := target # ex_stack ex\<rparr>))
   })"

definition push_then :: "box_sequence option \<Rightarrow> call_site \<Rightarrow> thread_state \<Rightarrow> thread_state" where
  "push_then t cs th = (case t of None \<Rightarrow> th | Some seq \<Rightarrow> push_frame (FSequence seq cs None) th)"

definition suspend_at :: "call_site \<Rightarrow> thread_state \<Rightarrow> thread_state" where
  "suspend_at cs th = th\<lparr>th_yield_bottom := Some cs, th_status := Suspended\<rparr>"

definition call_at :: "exec_env \<Rightarrow> driver \<Rightarrow> addr \<Rightarrow> thread_state \<Rightarrow> nat \<Rightarrow> addr \<Rightarrow> u8 \<Rightarrow> turn option" where
  "call_at env d tid th slot f returns = do {
     (w, th1) \<leftarrow> schedule_call_at (ee_runtime env) (fst d) th slot f returns;
     Some (Again (with_thread w tid th1, snd d))
   }"

definition apply_pending_action :: "exec_env \<Rightarrow> driver \<Rightarrow> addr \<Rightarrow> callback_action \<Rightarrow> call_site \<Rightarrow> turn option" where
  "apply_pending_action env d tid action cs =
     (let w = fst d; ex = snd d; th = w_threads w tid in
      case action of
        AReturn \<Rightarrow> None
      | ASequence seq \<Rightarrow> Some (Again (with_thread w tid (push_frame (FSequence seq cs None) th), ex))
      | ACall f thn \<Rightarrow> do {
          let th1 = push_then thn cs th;
          s \<leftarrow> insert_at (cs_bottom cs) (VFunc f) (th_stack th1);
          call_at env d tid (th1\<lparr>th_stack := s\<rparr>) (cs_bottom cs) f (cs_returns cs)
        }
      | AYield thn \<Rightarrow> Some (Again (with_thread w tid (suspend_at cs (push_then thn cs th)), ex))
      | AResume target thn \<Rightarrow>
          schedule_thread_resume (with_thread w tid (push_then thn cs th), ex) tid target (cs_bottom cs) cs)"

section \<open>Sequences\<close>

text \<open>\<open>TailCall\<close>: the arguments move down to the slot after the call's own.\<close>

definition compact_args :: "call_site \<Rightarrow> addr \<Rightarrow> lua_value list \<Rightarrow> lua_value list option" where
  "compact_args cs f s = do {
     argc \<leftarrow> sub_nat (length s) (cs_bottom cs);
     let new_args_base = cs_func_idx cs + 1;
     s1 \<leftarrow> (if new_args_base < cs_bottom cs then
         map_option (take (new_args_base + argc)) (copy_up new_args_base (cs_bottom cs) argc s)
       else Some s);
     idx_set s1 (cs_func_idx cs) (VFunc f)
   }"

definition pump_sequence :: "exec_env \<Rightarrow> driver \<Rightarrow> addr \<Rightarrow> turn option" where
  "pump_sequence env d tid =
     (let w0 = fst d; ex = snd d; th0 = w_threads w0 tid in
      case th_frames th0 of
        FSequence seq0 cs pending # fs \<Rightarrow> do {
          window \<leftarrow> slice_from (cs_bottom cs) (th_stack th0);
          (w, seq, window', r) \<leftarrow> ee_poll env seq0 w0 tid pending window;
          let th = th0\<lparr>th_frames := fs, th_stack := take (cs_bottom cs) (th_stack th0) @ window'\<rparr>;
          let again = (\<lambda>th. Some (Again (with_thread w tid th, ex)));
          let kept = push_frame (FSequence seq cs None) th;
          case r of
            Inl e \<Rightarrow> again (push_frame (FError e) th)
          | Inr SPPending \<Rightarrow> Some (Stop (with_thread w tid kept, ex) StepPending)
          | Inr SPReturn \<Rightarrow> do { th1 \<leftarrow> land_call_results w cs th; again th1 }
          | Inr (SPCall f rel) \<Rightarrow> do {
              s \<leftarrow> insert_at (cs_bottom cs + rel) (VFunc f) (th_stack kept);
              call_at env (w, ex) tid (kept\<lparr>th_stack := s\<rparr>) (cs_bottom cs + rel) f 0
            }
          | Inr (SPTailCall f) \<Rightarrow> do {
              s \<leftarrow> compact_args cs f (th_stack th);
              call_at env (w, ex) tid (th\<lparr>th_stack := s\<rparr>) (cs_func_idx cs) f (cs_returns cs)
            }
          | Inr (SPYield rel) \<Rightarrow> again (suspend_at (cs\<lparr>cs_bottom := cs_bottom cs + rel\<rparr>) kept)
          | Inr SPTailYield \<Rightarrow> again (suspend_at cs th)
          | Inr (SPResume target rel) \<Rightarrow>
              schedule_thread_resume (with_thread w tid kept, ex) tid target (cs_bottom cs + rel) cs
          | Inr (SPTailResume target) \<Rightarrow>
              schedule_thread_resume (with_thread w tid th, ex) tid target (cs_bottom cs) cs
        }
      | _ \<Rightarrow> None)"

section \<open>Leaving a thread\<close>

definition propagate_inner_to_resumer :: "driver \<Rightarrow> addr \<Rightarrow> nat \<Rightarrow> bool \<Rightarrow> turn option" where
  "propagate_inner_to_resumer d inner inner_bottom inner_yielded = (case d of (w, ex) \<Rightarrow> do {
     values \<leftarrow> slice_from inner_bottom (th_stack (w_threads w inner));
     let w1 = (if inner_yielded then w else with_thread w inner ((w_threads w inner)\<lparr>th_stack := []\<rparr>));
     case tl (ex_stack ex) of
       [] \<Rightarrow> None
     | resumer # _ \<Rightarrow>
         let rs = w_threads w1 resumer in
         case th_frames rs of
           FWaitThread wt # fs \<Rightarrow> do {
             let rs1 = rs\<lparr>th_frames := fs, th_stack := take (cs_bottom wt) (th_stack rs) @ values\<rparr>;
             rs2 \<leftarrow> (if top_is_sequence rs1 then Some rs1 else land_call_results w1 wt rs1);
             let rs3 = (case th_status rs2 of Result _ \<Rightarrow> rs2 | _ \<Rightarrow> rs2\<lparr>th_status := Normal\<rparr>);
             Some (Again (with_thread w1 resumer rs3, ex\<lparr>ex_stack := tl (ex_stack ex)\<rparr>))
           }
         | _ \<Rightarrow> None
   })"

text \<open>The loop of \<open>unwind_error\<close>: whether a sequence caught the error.\<close>

fun unwind_frames :: "frame list \<Rightarrow> lua_value \<Rightarrow> world \<Rightarrow> thread_state \<Rightarrow> (world \<times> thread_state \<times> bool) option" where
  "unwind_frames [] e w th = Some (w, th\<lparr>th_frames := []\<rparr>, False)"
| "unwind_frames (FLua f # fs) e w th = do {
     (w1, th1) \<leftarrow> close_upvalues w th (lf_base f);
     unwind_frames fs e w1 (upd_stack (take (lf_base f)) (close_tbc_vars th1 (lf_base f)))
   }"
| "unwind_frames (FSequence seq cs _ # fs) e w th =
     Some (w, th\<lparr>th_frames := FSequence seq cs (Some e) # fs\<rparr>, True)"
| "unwind_frames (FWaitThread _ # fs) e w th = unwind_frames fs e w th"
| "unwind_frames (FStart _ # fs) e w th = None"
| "unwind_frames (FError _ # fs) e w th = None"

definition unwind_error :: "driver \<Rightarrow> addr \<Rightarrow> turn option" where
  "unwind_error d tid = (case d of (w, ex) \<Rightarrow>
     (case th_frames (w_threads w tid) of
        FError e # fs \<Rightarrow> do {
          (w1, th1, caught) \<leftarrow> unwind_frames fs e w (w_threads w tid);
          let w2 = with_thread w1 tid th1;
          if caught then Some (Again (w2, ex))
          else (case tl (ex_stack ex) of
             [] \<Rightarrow> Some (Fail (w2, ex) (LuaError e))
           | resumer # _ \<Rightarrow>
               let rs = w_threads w2 resumer in
               (case th_frames rs of
                  FWaitThread _ # rfs \<Rightarrow> Some (Again (with_thread w2 resumer
                    (rs\<lparr>th_frames := FError e # rfs, th_status := Normal\<rparr>), ex\<lparr>ex_stack := tl (ex_stack ex)\<rparr>))
                | _ \<Rightarrow> None))
        }
      | _ \<Rightarrow> None))"

section \<open>The driver\<close>

definition executor_start :: "exec_env \<Rightarrow> world \<Rightarrow> addr \<Rightarrow> lua_value list \<Rightarrow> driver" where
  "executor_start env w f args =
     (let t = ee_main env; th = w_threads w t in
      (with_thread w t (th\<lparr>th_stack := args, th_frames := [FStart f], th_open_upvalues := [],
         th_tbc_slots := [], th_status := Suspended\<rparr>),
       \<lparr>ex_thread = t, ex_stack = [t], ex_mode = ENormal\<rparr>))"

definition run_top_lua :: "nat \<Rightarrow> exec_env \<Rightarrow> driver \<Rightarrow> addr \<Rightarrow> turn option" where
  "run_top_lua fuel env d tid = do {
     r \<leftarrow> run_thread fuel (ee_runtime env) (fst d) tid;
     case r of
       Some (Done m) \<Rightarrow> Some (Again (with_thread (m_world m) tid (m_thread m), snd d))
     | Some (Raise m) \<Rightarrow> Some (Fail (with_thread (m_world m) tid (m_thread m), snd d) OpcodeError)
     | _ \<Rightarrow> Some Starved
   }"

definition start_top :: "exec_env \<Rightarrow> driver \<Rightarrow> addr \<Rightarrow> addr \<Rightarrow> turn option" where
  "start_top env d tid f = do {
     let th0 = w_threads (fst d) tid;
     (w, th) \<leftarrow> schedule_call_at (ee_runtime env) (fst d)
       (pop_frame th0\<lparr>th_stack := VFunc f # th_stack th0\<rparr>) 0 f 0;
     let status = (if th_frames th = [] \<and> th_pending_action th = None then Result 0 else Normal);
     Some (Again (with_thread w tid (th\<lparr>th_status := status\<rparr>), snd d))
   }"

text \<open>Part (4) of a turn, then the whole turn.\<close>

definition pump_frame :: "nat \<Rightarrow> exec_env \<Rightarrow> driver \<Rightarrow> addr \<Rightarrow> turn option" where
  "pump_frame fuel env d tid = (case th_frames (w_threads (fst d) tid) of
      FLua _ # _ \<Rightarrow> run_top_lua fuel env d tid
    | FSequence _ _ _ # _ \<Rightarrow> pump_sequence env d tid
    | FStart f # _ \<Rightarrow> start_top env d tid f
    | FError _ # _ \<Rightarrow> unwind_error d tid
    | _ \<Rightarrow> None)"

definition active_turn :: "nat \<Rightarrow> exec_env \<Rightarrow> driver \<Rightarrow> addr \<Rightarrow> turn option" where
  "active_turn fuel env d tid =
     (let w = fst d; th = w_threads w tid in
      case th_pending_action th of
        Some (action, cs) \<Rightarrow>
          apply_pending_action env (with_thread w tid (th\<lparr>th_pending_action := None\<rparr>), snd d) tid action cs
      | None \<Rightarrow> pump_frame fuel env d tid)"

definition driver_turn :: "nat \<Rightarrow> exec_env \<Rightarrow> driver \<Rightarrow> turn option" where
  "driver_turn fuel env d = (case d of (w, ex) \<Rightarrow>
     (case ex_stack ex of
        [] \<Rightarrow> None
      | tid # below \<Rightarrow>
          let th = w_threads w tid in
          if below \<noteq> [] then
            (case th_status th of
               Result b \<Rightarrow> propagate_inner_to_resumer d tid b False
             | Suspended \<Rightarrow> propagate_inner_to_resumer d tid
                 (case th_yield_bottom th of Some y \<Rightarrow> cs_bottom y | None \<Rightarrow> 0) True
             | Stopped \<Rightarrow> Some (Fail d BadMode)
             | Normal \<Rightarrow> active_turn fuel env d tid)
          else
            (case th_status th of
               Result _ \<Rightarrow> Some (Stop (w, ex\<lparr>ex_mode := EResult\<rparr>) StepDone)
             | Suspended \<Rightarrow>
                 (case th_yield_bottom th of
                    Some y \<Rightarrow> do {
                      values \<leftarrow> slice_from (cs_bottom y) (th_stack th);
                      Some (Stop (w, ex\<lparr>ex_mode := EYielded\<rparr>) (StepYielded values))
                    }
                  | None \<Rightarrow> active_turn fuel env d tid)
             | Stopped \<Rightarrow> Some (Fail d BadMode)
             | Normal \<Rightarrow> active_turn fuel env d tid)))"

text \<open>The loop of \<open>step\<close> may go on for ever: at most \<open>n\<close> turns are taken.\<close>

fun drive :: "nat \<Rightarrow> nat \<Rightarrow> exec_env \<Rightarrow> driver \<Rightarrow> turn option" where
  "drive 0 fuel env d = Some Starved"
| "drive (Suc n) fuel env d = do {
     r \<leftarrow> driver_turn fuel env d;
     case r of Again d' \<Rightarrow> drive n fuel env d' | _ \<Rightarrow> Some r
   }"

definition executor_step :: "nat \<Rightarrow> nat \<Rightarrow> exec_env \<Rightarrow> driver \<Rightarrow> turn option" where
  "executor_step n fuel env d = (if ex_mode (snd d) \<noteq> ENormal then Some (Fail d BadMode) else drive n fuel env d)"

definition executor_resume :: "driver \<Rightarrow> lua_value list \<Rightarrow> (runtime_error + driver) option" where
  "executor_resume d args = (case d of (w, ex) \<Rightarrow>
     if ex_mode ex \<noteq> EYielded then Some (Inl BadMode)
     else case ex_stack ex of
       [] \<Rightarrow> None
     | tid # _ \<Rightarrow> do {
         let th = w_threads w tid;
         cs \<leftarrow> th_yield_bottom th;
         let th1 = th\<lparr>th_yield_bottom := None, th_stack := take (cs_bottom cs) (th_stack th) @ args\<rparr>;
         th2 \<leftarrow> (if top_is_sequence th1 then Some th1 else land_call_results w cs th1);
         Some (Inr (with_thread w tid (th2\<lparr>th_status := Normal\<rparr>), ex\<lparr>ex_mode := ENormal\<rparr>))
       })"

text \<open>The conversion of the values to host types is not modelled.\<close>

definition take_result :: "driver \<Rightarrow> runtime_error + (driver \<times> lua_value list)" where
  "take_result d = (case d of (w, ex) \<Rightarrow>
     if ex_mode ex \<noteq> EResult then Inl BadMode
     else
       let t = ex_thread ex; th = w_threads w t in
       Inr ((with_thread w t (th\<lparr>th_stack := [], th_frames := [], th_open_upvalues := [],
           th_tbc_slots := [], th_status := Stopped\<rparr>), ex\<lparr>ex_mode := EStopped\<rparr>), th_stack th))"

section \<open>The host loop\<close>

text \<open>\<open>lua/mod.rs\<close>: \<open>Lua::finish\<close>, \<open>execute\<close> and \<open>resume\<close>; at most \<open>k\<close> calls of \<open>step\<close> are made.\<close>

fun finish :: "nat \<Rightarrow> nat \<Rightarrow> nat \<Rightarrow> exec_env \<Rightarrow> driver \<Rightarrow> turn option" where
  "finish 0 n fuel env d = Some Starved"
| "finish (Suc k) n fuel env d = do {
     r \<leftarrow> executor_step n fuel env d;
     case r of
       Stop d' StepPending \<Rightarrow> finish k n fuel env d'
     | Stop d' (StepYielded _) \<Rightarrow> Some (Fail d' MainYielded)
     | _ \<Rightarrow> Some r
   }"

definition execute :: "nat \<Rightarrow> nat \<Rightarrow> nat \<Rightarrow> exec_env \<Rightarrow> driver \<Rightarrow>
    ((runtime_error + driver \<times> lua_value list) option) option" where
  "execute k n fuel env d = do {
     r \<leftarrow> finish k n fuel env d;
     case r of
       Stop d' _ \<Rightarrow> Some (Some (take_result d'))
     | Fail _ e \<Rightarrow> Some (Some (Inl e))
     | _ \<Rightarrow> Some None
   }"

definition lua_host_resume :: "nat \<Rightarrow> nat \<Rightarrow> nat \<Rightarrow> exec_env \<Rightarrow> driver \<Rightarrow> lua_value list \<Rightarrow> turn option" where
  "lua_host_resume k n fuel env d args = do {
     r \<leftarrow> executor_resume d args;
     case r of Inl e \<Rightarrow> Some (Fail d e) | Inr d' \<Rightarrow> finish k n fuel env d'
   }"

end
