(* ===== verification/Coroutines.thy ===== *)
theory Coroutines
  imports Executor
begin

text \<open>
  \<open>builtin/coroutine.rs\<close>: the coroutine library as native callbacks, and its two sequences.
  \<open>main\<close> is the main thread of the context. \<open>load\<close>, which puts the functions into a table, is not
  modelled; the numbers name the callbacks and the sequences.
\<close>

definition win_get :: "lua_value list \<Rightarrow> nat \<Rightarrow> lua_value" where
  "win_get window i = (if i < length window then window ! i else VNil)"

type_synonym native_result = "(world \<times> lua_value list \<times> (lua_value + callback_action)) option"

definition native_error :: "world \<Rightarrow> lua_value list \<Rightarrow> string \<Rightarrow> native_result" where
  "native_error w window msg = Some (w, window, Inl (VStr (ascii msg)))"

definition native_return :: "world \<Rightarrow> lua_value list \<Rightarrow> native_result" where
  "native_return w window = Some (w, window, Inr AReturn)"

section \<open>Names\<close>

definition native_wrap_callback :: nat where "native_wrap_callback = 0"

definition pcall_sequence :: box_sequence where "pcall_sequence = 0"
definition unwrap_sequence :: box_sequence where "unwrap_sequence = 1"

section \<open>Functions\<close>

text \<open>\<open>Thread::new\<close> with \<open>Frame::Start(f)\<close> on it.\<close>

definition new_coroutine :: "world \<Rightarrow> addr \<Rightarrow> world \<times> addr" where
  "new_coroutine w f =
     (let t = w_next_thread w in
      ((with_thread w t ((thread_new t)\<lparr>th_frames := [FStart f], th_status := Suspended\<rparr>))\<lparr>w_next_thread := Suc t\<rparr>, t))"

definition lua_create :: native_fn where
  "lua_create w cur upvals window = (case get_function (win_get window 0) of
      None \<Rightarrow> native_error w window ''bad argument #1 to 'create' (function expected)''
    | Some f \<Rightarrow> (case new_coroutine w f of (w', t) \<Rightarrow> native_return w' [VThread t]))"

text \<open>The status of a thread other than the running one, which is borrowed.\<close>

definition unresumable_reason :: "addr \<Rightarrow> addr \<Rightarrow> world \<Rightarrow> addr \<Rightarrow> string option" where
  "unresumable_reason main cur w co =
     (if co = main \<or> co = cur then Some ''cannot resume non-suspended coroutine''
      else case th_status (w_threads w co) of
        Suspended \<Rightarrow> None
      | Result _ \<Rightarrow> Some ''cannot resume dead coroutine''
      | Stopped \<Rightarrow> Some ''cannot resume dead coroutine''
      | Normal \<Rightarrow> Some ''cannot resume non-suspended coroutine'')"

definition lua_resume :: "addr \<Rightarrow> native_fn" where
  "lua_resume main w cur upvals window = (case get_thread (win_get window 0) of
      None \<Rightarrow> native_error w window ''bad argument #1 to 'resume' (coroutine expected)''
    | Some co \<Rightarrow>
        (case unresumable_reason main cur w co of
           Some msg \<Rightarrow> native_return w [VBool False, VStr (ascii msg)]
         | None \<Rightarrow> Some (w, tl window, Inr (AResume co (Some pcall_sequence)))))"

definition lua_yield :: native_fn where
  "lua_yield w cur upvals window = Some (w, window, Inr (AYield None))"

definition status_text :: "addr \<Rightarrow> world \<Rightarrow> addr \<Rightarrow> string" where
  "status_text cur w co =
     (if co = cur then ''running''
      else case th_status (w_threads w co) of
        Stopped \<Rightarrow> ''dead'' | Result _ \<Rightarrow> ''dead'' | Suspended \<Rightarrow> ''suspended'' | Normal \<Rightarrow> ''normal'')"

definition lua_status :: native_fn where
  "lua_status w cur upvals window = (case get_thread (win_get window 0) of
      None \<Rightarrow> native_error w window ''bad argument #1 to 'status' (coroutine expected)''
    | Some co \<Rightarrow> native_return w [VStr (ascii (status_text cur w co))])"

definition lua_running :: "addr \<Rightarrow> native_fn" where
  "lua_running main w cur upvals window = native_return w [VThread cur, VBool (cur = main)]"

definition lua_isyieldable :: "addr \<Rightarrow> native_fn" where
  "lua_isyieldable main w cur upvals window =
     (if is_nil (win_get window 0) then native_return w [VBool (cur \<noteq> main)]
      else case get_thread (win_get window 0) of
        None \<Rightarrow> native_error w window ''bad argument #1 to 'isyieldable' (coroutine expected)''
      | Some target \<Rightarrow> native_return w [VBool (target \<noteq> main)])"

definition lua_wrap :: native_fn where
  "lua_wrap w cur upvals window = (case get_function (win_get window 0) of
      None \<Rightarrow> native_error w window ''bad argument #1 to 'wrap' (function expected)''
    | Some f \<Rightarrow>
        (case new_coroutine w f of (w1, t) \<Rightarrow>
           let a = w_next_fun w1;
               w2 = w1\<lparr>w_funs := (w_funs w1)(a := FKNative
                 \<lparr>nc_function = native_wrap_callback, nc_upvalues = [VThread t]\<rparr>), w_next_fun := Suc a\<rparr>
           in native_return w2 [VFunc a]))"

text \<open>The closed thread keeps its handle and its last \<open>top\<close>.\<close>

definition clear_thread :: "thread_state \<Rightarrow> thread_state" where
  "clear_thread th = th\<lparr>th_stack := [], th_frames := [], th_open_upvalues := [], th_tbc_slots := [],
     th_pending_action := None, th_yield_bottom := None, th_status := Stopped\<rparr>"

definition lua_close :: native_fn where
  "lua_close w cur upvals window = (case get_thread (win_get window 0) of
      None \<Rightarrow> native_error w window ''bad argument #1 to 'close' (coroutine expected)''
    | Some co \<Rightarrow>
        if co = cur \<or> th_status (w_threads w co) = Normal then
          native_return w [VNil, VStr (ascii ''cannot close a non-suspended coroutine'')]
        else native_return (with_thread w co (clear_thread (w_threads w co))) [VBool True])"

definition wrap_callback :: native_fn where
  "wrap_callback w cur upvals window = (case upvals of
      v # _ \<Rightarrow> (case get_thread v of
          Some co \<Rightarrow> Some (w, window, Inr (AResume co (Some unwrap_sequence)))
        | None \<Rightarrow> None)
    | [] \<Rightarrow> None)"

section \<open>Sequences\<close>

definition pcall_poll :: "lua_value option \<Rightarrow> lua_value list \<Rightarrow> lua_value list \<times> (lua_value + sequence_poll)" where
  "pcall_poll pending window = (case pending of
      None \<Rightarrow> (VBool True # window, Inr SPReturn)
    | Some e \<Rightarrow> ([VBool False, e], Inr SPReturn))"

text \<open>\<open>UnwrapResumeSequence\<close> keeps the trait's \<open>error\<close>, which raises again.\<close>

definition unwrap_poll :: "lua_value option \<Rightarrow> lua_value list \<Rightarrow> lua_value list \<times> (lua_value + sequence_poll)" where
  "unwrap_poll pending window = (case pending of
      None \<Rightarrow> (window, Inr SPReturn)
    | Some e \<Rightarrow> (window, Inl e))"

text \<open>The sequences of the library in front of those the host defines.\<close>

definition with_coroutine_sequences :: "poll_fn \<Rightarrow> poll_fn" where
  "with_coroutine_sequences other seq w cur pending window =
     (if seq = pcall_sequence then
        (case pcall_poll pending window of (window', r) \<Rightarrow> Some (w, seq, window', r))
      else if seq = unwrap_sequence then
        (case unwrap_poll pending window of (window', r) \<Rightarrow> Some (w, seq, window', r))
      else other seq w cur pending window)"

end
