(* ===== verification/ExecutorLemmas.thy ===== *)
theory ExecutorLemmas
  imports Coroutines CallLemmas
begin

text \<open>
  The executor: where the results of a suspended call land and when landing them panics, which
  frames an error unwinds, and what a resumed coroutine hands back.
\<close>

section \<open>Landing\<close>

text \<open>The copy loop and the nil loop, together.\<close>

definition padded :: "nat \<Rightarrow> lua_value list \<Rightarrow> lua_value list" where
  "padded n vs = take n vs @ replicate (n - length vs) VNil"

lemma length_padded [simp]: "length (padded n vs) = n"
  by (simp add: padded_def)

lemma fill_nil_None: "length s < from + n \<Longrightarrow> 0 < n \<Longrightarrow> fill_nil from n s = None"
proof (induction n arbitrary: "from" s)
  case (Suc n)
  show ?case
  proof (cases "from < length s")
    case True
    then have "fill_nil (Suc from) n (s[from := VNil]) = None" using Suc.prems by (intro Suc.IH) auto
    then show ?thesis using True by (simp add: panic_simps)
  next
    case False
    then show ?thesis by (simp add: idx_set_def)
  qed
qed simp

lemma land_loops:
  assumes "f < b" "b \<le> length s"
  shows "do {
      s1 \<leftarrow> copy_up f b (min (length s - b) n) s;
      fill_nil (f + min (length s - b) n) (n - min (length s - b) n) s1
    } = (if f + n \<le> length s then Some (take f s @ padded n (drop b s) @ drop (f + n) s) else None)"
proof -
  let ?c = "min (length s - b) n"
  let ?s1 = "take f s @ take ?c (drop b s) @ drop (f + ?c) s"
  have c: "copy_up f b ?c s = Some ?s1" using assms by (intro copy_up_eq) auto
  have l: "length ?s1 = length s" using assms by auto
  show ?thesis
  proof (cases "f + n \<le> length s")
    case True
    have "fill_nil (f + ?c) (n - ?c) ?s1 = Some (take (f + ?c) ?s1 @ replicate (n - ?c) VNil @ drop (f + ?c + (n - ?c)) ?s1)"
      using True l by (intro fill_nil_eq) auto
    moreover have "take (f + ?c) ?s1 = take f s @ take ?c (drop b s)" using assms by (simp add: min_def)
    moreover have "drop (f + ?c + (n - ?c)) ?s1 = drop (f + n) s" using assms by (simp add: min_def add.commute)
    moreover have "n - ?c = n - (length s - b)" "take ?c (drop b s) = take n (drop b s)"
      by (simp_all add: min_def)
    ultimately show ?thesis using True c by (simp add: padded_def)
  next
    case False
    then have "0 < n - ?c" "length ?s1 < f + ?c + (n - ?c)" using assms l by auto
    then show ?thesis using False c fill_nil_None by simp
  qed
qed

definition landed :: "world \<Rightarrow> call_site \<Rightarrow> thread_state \<Rightarrow> thread_state" where
  "landed w cs th =
     (let f = cs_func_idx cs; s = th_stack th;
          th1 = (if cs_returns cs = 0
            then th\<lparr>th_stack := take f s @ drop (cs_bottom cs) s, th_top := f + (length s - cs_bottom cs)\<rparr>
            else let n = unat (cs_returns cs) - 1; s' = take f s @ padded n (drop (cs_bottom cs) s) @ drop (f + n) s
              in th\<lparr>th_stack := (case top_lua th of Some fr \<Rightarrow> grow s' (frame_window w fr) | None \<Rightarrow> s')\<rparr>)
      in if th_frames th = [] then th1\<lparr>th_status := Result f\<rparr> else th1)"

lemma land_call_results_eq:
  assumes "cs_cont cs = None" "cs_func_idx cs < cs_bottom cs" "cs_bottom cs \<le> length (th_stack th)"
  shows "land_call_results w cs th =
    (if cs_returns cs = 0 \<or> cs_func_idx cs + (unat (cs_returns cs) - 1) \<le> length (th_stack th)
     then Some (landed w cs th) else None)"
proof -
  let ?s = "th_stack th" and ?b = "cs_bottom cs" and ?f = "cs_func_idx cs"
  let ?n = "if cs_returns cs = 0 then length ?s - ?b else unat (cs_returns cs) - 1"
  have r: "sub_nat (length ?s) ?b = Some (length ?s - ?b)" using assms by (simp add: sub_nat_def)
  have l: "land_call_results w cs th = do {
      s' \<leftarrow> do {
        s1 \<leftarrow> copy_up ?f ?b (min (length ?s - ?b) ?n) ?s;
        fill_nil (?f + min (length ?s - ?b) ?n) (?n - min (length ?s - ?b) ?n) s1
      };
      let th1 = (if cs_returns cs = 0
        then th\<lparr>th_stack := take (?f + (length ?s - ?b)) s', th_top := ?f + (length ?s - ?b)\<rparr>
        else th\<lparr>th_stack := (case top_lua th of Some f \<Rightarrow> grow s' (frame_window w f) | None \<Rightarrow> s')\<rparr>);
      Some (if th_frames th1 = [] then th1\<lparr>th_status := Result ?f\<rparr> else th1)
    }"
    by (simp add: land_call_results_def assms(1) r Let_def bind_assoc)
  have m: "padded (length ?s - ?b) (drop ?b ?s) = drop ?b ?s" by (simp add: padded_def)
  have t: "take (?f + (length ?s - ?b)) (take ?f ?s @ drop ?b ?s @ drop (?f + (length ?s - ?b)) ?s)
      = take ?f ?s @ drop ?b ?s"
    using assms by simp
  have z: "?f + (length ?s - ?b) \<le> length ?s" using assms by simp
  show ?thesis
  proof (cases "cs_returns cs = 0")
    case True
    then show ?thesis unfolding l land_loops [OF assms(2,3)] using m t z by (simp add: landed_def Let_def)
  next
    case False
    then obtain k where k: "unat (cs_returns cs) = Suc k" using unat_gt_0 [of "cs_returns cs"] gr0_implies_Suc by blast
    show ?thesis unfolding l land_loops [OF assms(2,3)] using False k by (simp add: landed_def Let_def)
  qed
qed

lemma grow_append: "\<exists>ys. grow xs k = xs @ ys"
  by (auto simp: grow_def resize_def)

lemma landed_padded:
  assumes "cs_returns cs \<noteq> 0"
  shows "\<exists>xs. th_stack (landed w cs th) = take (cs_func_idx cs) (th_stack th)
    @ padded (unat (cs_returns cs) - 1) (drop (cs_bottom cs) (th_stack th)) @ xs"
proof -
  let ?s = "take (cs_func_idx cs) (th_stack th) @ padded (unat (cs_returns cs) - 1) (drop (cs_bottom cs) (th_stack th))
    @ drop (cs_func_idx cs + (unat (cs_returns cs) - 1)) (th_stack th)"
  have "th_stack (landed w cs th) = (case top_lua th of Some fr \<Rightarrow> grow ?s (frame_window w fr) | None \<Rightarrow> ?s)"
    using assms by (simp add: landed_def Let_def split: option.split)
  moreover obtain ys where "(case top_lua th of Some fr \<Rightarrow> grow ?s (frame_window w fr) | None \<Rightarrow> ?s) = ?s @ ys"
    using grow_append [of ?s] by (cases "top_lua th") auto
  ultimately have "th_stack (landed w cs th) = ?s @ ys" by simp
  then show ?thesis by auto
qed

section \<open>Unwinding\<close>

text \<open>Every open upvalue on a thread's list is within its stack, so closing it does not panic.\<close>

definition upvals_in :: "nat \<Rightarrow> (addr \<Rightarrow> upvalue_state) \<Rightarrow> addr list \<Rightarrow> bool" where
  "upvals_in n st uvs \<longleftrightarrow> (\<forall>uv\<in>set uvs. \<forall>t i. st uv = UOpen t i \<longrightarrow> i < n)"

definition closable :: "world \<Rightarrow> thread_state \<Rightarrow> bool" where
  "closable w th \<longleftrightarrow> upvals_in (length (th_stack th)) (w_upvals w) (th_open_upvalues th)"

definition only_closed :: "(addr \<Rightarrow> upvalue_state) \<Rightarrow> (addr \<Rightarrow> upvalue_state) \<Rightarrow> bool" where
  "only_closed st st' \<longleftrightarrow> (\<forall>uv. st' uv = st uv \<or> (\<exists>v. st' uv = UClosed v))"

lemma only_closed_refl [simp]: "only_closed st st"
  by (simp add: only_closed_def)

lemma only_closed_trans: "only_closed st st' \<Longrightarrow> only_closed st' st'' \<Longrightarrow> only_closed st st''"
  unfolding only_closed_def by metis

lemma upvals_in_closed: "upvals_in n st uvs \<Longrightarrow> only_closed st st' \<Longrightarrow> upvals_in n st' uvs"
  unfolding upvals_in_def only_closed_def by (metis upvalue_state.distinct(1))

lemma close_loop_total:
  assumes "upvals_in (length s) st uvs"
  shows "\<exists>keep st'. close_loop start s uvs st = Some (keep, st') \<and> only_closed st st'
    \<and> upvals_in (min (length s) start) st' keep"
  using assms
proof (induction uvs arbitrary: st)
  case Nil
  then show ?case by (simp add: upvals_in_def)
next
  case (Cons u us)
  have us: "upvals_in (length s) st us" using Cons.prems by (simp add: upvals_in_def)
  obtain keep st' where IH: "close_loop start s us st = Some (keep, st')" "only_closed st st'"
      "upvals_in (min (length s) start) st' keep"
    using Cons.IH [OF us] by blast
  show ?case
  proof (cases "st u")
    case (UClosed v)
    then have "st' u = UClosed v \<or> (\<exists>v. st' u = UClosed v)" using IH(2) unfolding only_closed_def by metis
    then have "upvals_in (min (length s) start) st' (u # keep)" using IH(3) by (auto simp: upvals_in_def)
    then show ?thesis using UClosed IH by simp
  next
    case (UOpen t i)
    then have i: "i < length s" using Cons.prems by (simp add: upvals_in_def)
    show ?thesis
    proof (cases "start \<le> i")
      case True
      have c: "only_closed st (st(u := UClosed (s ! i)))" by (simp add: only_closed_def)
      obtain keep' st'' where "close_loop start s us (st(u := UClosed (s ! i))) = Some (keep', st'')"
          "only_closed (st(u := UClosed (s ! i))) st''" "upvals_in (min (length s) start) st'' keep'"
        using Cons.IH [OF upvals_in_closed [OF us c]] by blast
      then show ?thesis using UOpen i True only_closed_trans [OF c] by (simp add: panic_simps)
    next
      case False
      have "st' u = UOpen t i \<or> (\<exists>v. st' u = UClosed v)" using IH(2) UOpen unfolding only_closed_def by metis
      then have "upvals_in (min (length s) start) st' (u # keep)" using IH(3) i False by (auto simp: upvals_in_def)
      then show ?thesis using UOpen False IH by simp
    qed
  qed
qed

lemma close_upvalues_total:
  assumes "closable w th"
  obtains w' th' where "close_upvalues w th start = Some (w', th')" "w' = w\<lparr>w_upvals := w_upvals w'\<rparr>"
    "only_closed (w_upvals w) (w_upvals w')" "th' = th\<lparr>th_open_upvalues := th_open_upvalues th'\<rparr>"
    "upvals_in (min (length (th_stack th)) start) (w_upvals w') (th_open_upvalues th')"
proof -
  obtain keep st' where c: "close_loop start (th_stack th) (th_open_upvalues th) (w_upvals w) = Some (keep, st')"
      "only_closed (w_upvals w) st'" "upvals_in (min (length (th_stack th)) start) st' keep"
    using close_loop_total [of "th_stack th" "w_upvals w" "th_open_upvalues th" start] assms
    unfolding closable_def by blast
  show thesis
    by (rule that [of "w\<lparr>w_upvals := st'\<rparr>" "th\<lparr>th_open_upvalues := keep\<rparr>"])
      (use c in \<open>simp_all add: close_upvalues_def\<close>)
qed

text \<open>The frames an error can pass, and the frames left when the first sequence takes it.\<close>

fun unwindable :: "frame \<Rightarrow> bool" where
  "unwindable (FStart _) = False"
| "unwindable (FError _) = False"
| "unwindable _ = True"

fun is_sequence :: "frame \<Rightarrow> bool" where
  "is_sequence (FSequence _ _ _) = True"
| "is_sequence _ = False"

fun give_error :: "lua_value \<Rightarrow> frame list \<Rightarrow> frame list" where
  "give_error e (FSequence seq cs p # fs) = FSequence seq cs (Some e) # fs"
| "give_error e fs = fs"

definition handled :: "lua_value \<Rightarrow> frame list \<Rightarrow> frame list" where
  "handled e fs = give_error e (dropWhile (\<lambda>f. \<not> is_sequence f) fs)"

definition has_handler :: "frame list \<Rightarrow> bool" where
  "has_handler fs \<longleftrightarrow> list_ex is_sequence fs"

lemma handled_Nil: "\<not> has_handler fs \<Longrightarrow> handled e fs = []"
  by (induction fs) (auto simp: handled_def has_handler_def)

lemma has_handler_first:
  assumes "has_handler fs"
  obtains seq cs p gs where "dropWhile (\<lambda>f. \<not> is_sequence f) fs = FSequence seq cs p # gs"
  using assms
proof (induction fs)
  case (Cons f fs)
  then show ?case by (cases f) (auto simp: has_handler_def)
qed (simp add: has_handler_def)

definition unwound :: "thread_state \<Rightarrow> thread_state \<Rightarrow> bool" where
  "unwound th th' \<longleftrightarrow> th_status th' = th_status th \<and> th_handle th' = th_handle th
     \<and> th_pending_action th' = th_pending_action th \<and> th_yield_bottom th' = th_yield_bottom th"

lemma unwind_frames_spec:
  assumes "closable w th" "list_all unwindable fs"
  shows "\<exists>w' th'. unwind_frames fs e w th = Some (w', th', has_handler fs) \<and> th_frames th' = handled e fs
    \<and> w' = w\<lparr>w_upvals := w_upvals w'\<rparr> \<and> only_closed (w_upvals w) (w_upvals w') \<and> unwound th th'"
  using assms
proof (induction fs arbitrary: w th)
  case Nil
  then show ?case by (simp add: has_handler_def handled_def unwound_def)
next
  case (Cons f fs)
  show ?case
  proof (cases f)
    case (FLua lf)
    obtain w1 th1 where c: "close_upvalues w th (lf_base lf) = Some (w1, th1)" "w1 = w\<lparr>w_upvals := w_upvals w1\<rparr>"
        "only_closed (w_upvals w) (w_upvals w1)" "th1 = th\<lparr>th_open_upvalues := th_open_upvalues th1\<rparr>"
        "upvals_in (min (length (th_stack th)) (lf_base lf)) (w_upvals w1) (th_open_upvalues th1)"
      by (rule close_upvalues_total [OF Cons.prems(1)])
    let ?th = "upd_stack (take (lf_base lf)) (close_tbc_vars th1 (lf_base lf))"
    have s: "th_stack th1 = th_stack th" by (subst c(4)) simp
    have "closable w1 ?th"
      using c(5) by (simp add: closable_def upd_stack_def close_tbc_vars_def s)
    moreover have "list_all unwindable fs" using Cons.prems(2) by simp
    ultimately obtain w2 th2 where r: "unwind_frames fs e w1 ?th = Some (w2, th2, has_handler fs)"
        "th_frames th2 = handled e fs" "w2 = w1\<lparr>w_upvals := w_upvals w2\<rparr>"
        "only_closed (w_upvals w1) (w_upvals w2)" "unwound ?th th2"
      using Cons.IH by blast
    have "w2 = w\<lparr>w_upvals := w_upvals w2\<rparr>" by (subst r(3), subst c(2)) simp
    moreover have "unwound th ?th" by (subst c(4)) (simp add: unwound_def upd_stack_def close_tbc_vars_def)
    then have "unwound th th2" using r(5) by (simp add: unwound_def)
    ultimately show ?thesis
      using FLua c(1) r only_closed_trans [OF c(3) r(4)] by (simp add: has_handler_def handled_def)
  next
    case (FSequence seq cs p)
    then show ?thesis by (simp add: has_handler_def handled_def unwound_def)
  next
    case (FWaitThread cs)
    then show ?thesis using Cons.IH [OF Cons.prems(1)] Cons.prems(2) by (simp add: has_handler_def handled_def)
  qed (use Cons.prems in simp_all)
qed

section \<open>Turns\<close>

text \<open>The driver goes on from one state to the other.\<close>

inductive turns :: "nat \<Rightarrow> exec_env \<Rightarrow> driver \<Rightarrow> driver \<Rightarrow> bool" for fuel env where
  turns_refl: "turns fuel env d d"
| turns_step: "driver_turn fuel env d = Some (Again d') \<Longrightarrow> turns fuel env d' d'' \<Longrightarrow> turns fuel env d d''"

lemma w_threads_with_thread [simp]: "w_threads (with_thread w t th) = (w_threads w)(t := th)"
  by (simp add: with_thread_def)

lemma w_upvals_with_thread [simp]: "w_upvals (with_thread w t th) = w_upvals w"
  by (simp add: with_thread_def)

lemma active_turn_no_pending:
  "th_pending_action (w_threads w t) = None \<Longrightarrow> active_turn fuel env (w, ex) t = pump_frame fuel env (w, ex) t"
  by (simp add: active_turn_def)

lemma driver_turn_normal:
  assumes "ex_stack ex = t # below" "th_status (w_threads w t) = Normal" "th_pending_action (w_threads w t) = None"
  shows "driver_turn fuel env (w, ex) = pump_frame fuel env (w, ex) t"
  using assms by (simp add: driver_turn_def active_turn_no_pending Let_def)

text \<open>An error on top of the running thread, under which the others wait.\<close>

definition error_passes :: "world \<Rightarrow> thread_state \<Rightarrow> bool" where
  "error_passes w th \<longleftrightarrow> th_pending_action th = None \<and> list_all unwindable (tl (th_frames th)) \<and> closable w th"

definition raising :: "world \<Rightarrow> addr list \<Rightarrow> lua_value \<Rightarrow> bool" where
  "raising w ts e \<longleftrightarrow> ts \<noteq> [] \<and> distinct ts \<and> th_status (w_threads w (hd ts)) = Normal
     \<and> (\<exists>fs. th_frames (w_threads w (hd ts)) = FError e # fs)
     \<and> (\<forall>t\<in>set (tl ts). \<exists>cs fs. th_frames (w_threads w t) = FWaitThread cs # fs)
     \<and> (\<forall>t\<in>set ts. error_passes w (w_threads w t))"

definition catches :: "world \<Rightarrow> addr \<Rightarrow> bool" where
  "catches w t \<longleftrightarrow> has_handler (tl (th_frames (w_threads w t)))"

lemma closable_only_closed:
  "closable w th \<Longrightarrow> only_closed (w_upvals w) (w_upvals w') \<Longrightarrow> closable w' th"
  unfolding closable_def by (rule upvals_in_closed)

definition error_result :: "world \<Rightarrow> executor \<Rightarrow> addr \<Rightarrow> addr list \<Rightarrow> lua_value \<Rightarrow> world \<Rightarrow> thread_state \<Rightarrow> turn option" where
  "error_result w ex t below e w1 th1 =
      (let w2 = with_thread w1 t th1 in
       if catches w t then Some (Again (w2, ex))
       else case below of [] \<Rightarrow> Some (Fail (w2, ex) (LuaError e))
       | u # _ \<Rightarrow> Some (Again (with_thread w2 u ((w_threads w u)\<lparr>th_frames := FError e # tl (th_frames (w_threads w u)),
             th_status := Normal\<rparr>), ex\<lparr>ex_stack := below\<rparr>)))"

text \<open>One turn: caught here, or left to the resumer, or to the host.\<close>

lemma error_turn:
  assumes r: "raising w (t # below) e" and ex: "ex_stack ex = t # below"
  obtains w1 th1 where "only_closed (w_upvals w) (w_upvals w1)" "w1 = w\<lparr>w_upvals := w_upvals w1\<rparr>"
    "th_frames th1 = handled e (tl (th_frames (w_threads w t)))" "unwound (w_threads w t) th1"
    "driver_turn fuel env (w, ex) =
      error_result w ex t below e w1 th1"
proof -
  obtain fs where f: "th_frames (w_threads w t) = FError e # fs" using r by (auto simp: raising_def)
  have p: "th_pending_action (w_threads w t) = None" "list_all unwindable fs" "closable w (w_threads w t)"
    using r f by (auto simp: raising_def error_passes_def)
  obtain w1 th1 where u: "unwind_frames fs e w (w_threads w t) = Some (w1, th1, has_handler fs)"
      "th_frames th1 = handled e fs" "w1 = w\<lparr>w_upvals := w_upvals w1\<rparr>"
      "only_closed (w_upvals w) (w_upvals w1)" "unwound (w_threads w t) th1"
    using unwind_frames_spec [OF p(3,2)] by blast
  have th: "w_threads w1 = w_threads w" by (subst u(3)) simp
  have d: "driver_turn fuel env (w, ex) = unwind_error (w, ex) t"
    using driver_turn_normal [OF ex _ p(1)] r f by (simp add: raising_def pump_frame_def)
  have "driver_turn fuel env (w, ex) =
      error_result w ex t below e w1 th1"
  proof (cases below)
    case Nil
    then show ?thesis by (simp add: d unwind_error_def f u(1) ex catches_def error_result_def Let_def)
  next
    case (Cons v vs)
    then obtain cs gs where "th_frames (w_threads w v) = FWaitThread cs # gs" "v \<noteq> t"
      using r by (auto simp: raising_def)
    then show ?thesis using Cons by (simp add: d unwind_error_def f u(1) ex catches_def error_result_def Let_def th)
  qed
  then show thesis using that u(2-5) f by simp
qed

lemma raising_below:
  assumes r: "raising w (t # u # below) e" and c: "only_closed (w_upvals w) (w_upvals w1)"
    and w1: "w1 = w\<lparr>w_upvals := w_upvals w1\<rparr>"
  shows "raising (with_thread (with_thread w1 t th1) u
    ((w_threads w u)\<lparr>th_frames := FError e # tl (th_frames (w_threads w u)), th_status := Normal\<rparr>)) (u # below) e"
proof -
  have th: "w_threads w1 = w_threads w" by (subst w1) simp
  have "error_passes w2 x" if "error_passes w x" "w_upvals w2 = w_upvals w1" for w2 x
    using that closable_only_closed [OF _ c] by (simp add: error_passes_def closable_def)
  moreover have "error_passes w ((w_threads w u)\<lparr>th_frames := FError e # tl (th_frames (w_threads w u)), th_status := Normal\<rparr>)"
    using r by (simp add: raising_def error_passes_def closable_def)
  ultimately show ?thesis using r by (auto simp: raising_def th)
qed

lemma error_search:
  assumes "raising w (pre @ post) e" "ex_stack ex = pre @ post" "\<forall>t\<in>set pre. \<not> catches w t"
    "\<forall>h below. post = h # below \<longrightarrow> catches w h"
  shows "case post of
      [] \<Rightarrow> \<exists>d1 d2. turns fuel env (w, ex) d1 \<and> driver_turn fuel env d1 = Some (Fail d2 (LuaError e))
    | h # below \<Rightarrow> \<exists>w'. turns fuel env (w, ex) (w', ex\<lparr>ex_stack := post\<rparr>)
        \<and> th_frames (w_threads w' h) = handled e (tl (th_frames (w_threads w h)))
        \<and> (\<forall>t\<in>set below. w_threads w' t = w_threads w t)"
  using assms
proof (induction pre arbitrary: w ex)
  case Nil
  then obtain h below where post: "post = h # below" by (cases post) (auto simp: raising_def)
  have r: "raising w (h # below) e" "ex_stack ex = h # below" using Nil post by auto
  have dist: "h \<notin> set below" using r by (simp add: raising_def)
  obtain w1 th1 where o: "only_closed (w_upvals w) (w_upvals w1)" "w1 = w\<lparr>w_upvals := w_upvals w1\<rparr>"
      "th_frames th1 = handled e (tl (th_frames (w_threads w h)))" "unwound (w_threads w h) th1"
      "driver_turn fuel env (w, ex) = error_result w ex h below e w1 th1"
    by (rule error_turn [OF r])
  have t: "driver_turn fuel env (w, ex) = Some (Again (with_thread w1 h th1, ex))"
    using o(5) Nil(4) post by (simp add: error_result_def)
  have "w_threads w1 = w_threads w" by (subst o(2)) simp
  moreover have "ex\<lparr>ex_stack := post\<rparr> = ex" using Nil(2) by (cases ex) simp
  then have "turns fuel env (w, ex) (with_thread w1 h th1, ex\<lparr>ex_stack := post\<rparr>)"
    using turns_step [OF t turns_refl] by simp
  ultimately show ?case using dist o(3) unfolding post list.case by (intro exI [of _ "with_thread w1 h th1"]) auto
next
  case (Cons t pre)
  have nc: "\<not> catches w t" using Cons.prems(3) by simp
  have ex: "ex_stack ex = t # (pre @ post)" and r: "raising w (t # (pre @ post)) e" using Cons.prems by auto
  obtain w1 th1 where o: "only_closed (w_upvals w) (w_upvals w1)" "w1 = w\<lparr>w_upvals := w_upvals w1\<rparr>"
      "th_frames th1 = handled e (tl (th_frames (w_threads w t)))" "unwound (w_threads w t) th1"
      "driver_turn fuel env (w, ex) = error_result w ex t (pre @ post) e w1 th1"
    by (rule error_turn [OF r ex])
  have th: "w_threads w1 = w_threads w" by (subst o(2)) simp
  show ?case
  proof (cases "pre @ post")
    case Nil
    then have "driver_turn fuel env (w, ex) = Some (Fail (with_thread w1 t th1, ex) (LuaError e))"
      using o(5) nc by (simp add: error_result_def)
    then show ?thesis using Nil turns_refl [of fuel env "(w, ex)"] by (simp del: split_paired_Ex; blast)
  next
    case c: (Cons u us)
    let ?w = "with_thread (with_thread w1 t th1) u
      ((w_threads w u)\<lparr>th_frames := FError e # tl (th_frames (w_threads w u)), th_status := Normal\<rparr>)"
    let ?ex = "ex\<lparr>ex_stack := pre @ post\<rparr>"
    have step: "driver_turn fuel env (w, ex) = Some (Again (?w, ?ex))"
      using o(5) nc c by (simp add: error_result_def)
    have r': "raising ?w (pre @ post) e" using raising_below [OF _ o(1,2)] r unfolding c by simp
    have dist: "t \<notin> set (pre @ post)" using r by (simp add: raising_def)
    have same: "tl (th_frames (w_threads ?w x)) = tl (th_frames (w_threads w x))" if "x \<in> set (pre @ post)" for x
      using that dist by (auto simp: th)
    have IH: "case post of
        [] \<Rightarrow> \<exists>d1 d2. turns fuel env (?w, ?ex) d1 \<and> driver_turn fuel env d1 = Some (Fail d2 (LuaError e))
      | h # below \<Rightarrow> \<exists>w'. turns fuel env (?w, ?ex) (w', ?ex\<lparr>ex_stack := post\<rparr>)
          \<and> th_frames (w_threads w' h) = handled e (tl (th_frames (w_threads ?w h)))
          \<and> (\<forall>t\<in>set below. w_threads w' t = w_threads ?w t)"
      using Cons.prems(3,4) r' same by (intro Cons.IH) (auto simp: catches_def)
    show ?thesis
    proof (cases post)
      case Nil
      then show ?thesis using IH turns_step [OF step] by auto
    next
      case p: (Cons h below)
      obtain w' where w': "turns fuel env (?w, ?ex) (w', ?ex\<lparr>ex_stack := post\<rparr>)"
          "th_frames (w_threads w' h) = handled e (tl (th_frames (w_threads ?w h)))"
          "\<forall>t\<in>set below. w_threads w' t = w_threads ?w t"
        using IH p by auto
      have "u \<notin> set below" using c p r by (cases pre) (auto simp: raising_def)
      then have "\<forall>x\<in>set below. w_threads w' x = w_threads w x" using w'(3) dist p by (auto simp: th)
      moreover have "turns fuel env (w, ex) (w', ex\<lparr>ex_stack := post\<rparr>)" using turns_step [OF step w'(1)] by simp
      moreover have "th_frames (w_threads w' h) = handled e (tl (th_frames (w_threads w h)))"
        using w'(2) same [of h] p by simp
      ultimately show ?thesis using p by auto
    qed
  qed
qed

end
