(* ===== verification/ExecProps.thy ===== *)
theory ExecProps
  imports ExecutorLemmas InterpProps
begin

text \<open>
  The properties of the executor and the coroutine library. The witnesses run on two threads, the
  main thread 0 waiting for the coroutine 1.
\<close>

section \<open>Two threads\<close>

definition duo_site :: "u8 \<Rightarrow> call_site" where
  "duo_site n = \<lparr>cs_bottom = 1, cs_func_idx = 0, cs_returns = n, cs_cont = None\<rparr>"

definition duo_world :: "thread_state \<Rightarrow> frame list \<Rightarrow> world" where
  "duo_world co fs = demo_world\<lparr>w_threads := (\<lambda>t. if t = 1 then co else
     (thread_new 0)\<lparr>th_stack := [VNil], th_frames := fs, th_status := Normal\<rparr>)\<rparr>"

definition duo_executor :: executor where
  "duo_executor = \<lparr>ex_thread = 0, ex_stack = [1, 0], ex_mode = ENormal\<rparr>"

definition duo_poll :: poll_fn where
  "duo_poll = (\<lambda>seq w cur pending s. Some (w, seq, s, Inr SPReturn))"

definition duo_env :: exec_env where
  "duo_env = \<lparr>ee_runtime = demo_runtime,
     ee_poll = with_coroutine_sequences duo_poll, ee_main = 0\<rparr>"

lemma duo_facts:
  "w_threads (duo_world co fs) 1 = co"
  "w_threads (duo_world co fs) 0 = (thread_new 0)\<lparr>th_stack := [VNil], th_frames := fs, th_status := Normal\<rparr>"
  "ex_stack duo_executor = [1, 0]" "ee_poll duo_env = with_coroutine_sequences duo_poll"
  by (simp_all add: duo_world_def duo_executor_def duo_env_def)

section \<open>Resuming\<close>

text \<open>The coroutine ended, or yielded, with \<open>vs\<close> on its stack.\<close>

definition hands_back :: "thread_state \<Rightarrow> lua_value list \<Rightarrow> bool" where
  "hands_back th vs \<longleftrightarrow> (\<exists>b. b \<le> length (th_stack th) \<and> drop b (th_stack th) = vs
     \<and> (th_status th = Result b \<or> th_status th = Suspended \<and> map_option cs_bottom (th_yield_bottom th) = Some b))"

lemma propagate_to_sequence:
  assumes "ex_stack ex = co # r # rest" "co \<noteq> r" "hands_back (w_threads w co) vs"
    "th_frames (w_threads w r) = FWaitThread cs # FSequence seq cs' p # fs"
    "th_status (w_threads w r) = Normal"
  obtains w1 where "driver_turn fuel env (w, ex) = Some (Again (w1, ex\<lparr>ex_stack := r # rest\<rparr>))"
    "w_threads w1 r = (w_threads w r)\<lparr>th_frames := FSequence seq cs' p # fs,
       th_stack := take (cs_bottom cs) (th_stack (w_threads w r)) @ vs, th_status := Normal\<rparr>"
proof -
  let ?co = "w_threads w co" and ?r = "w_threads w r"
  let ?r' = "?r\<lparr>th_frames := FSequence seq cs' p # fs, th_stack := take (cs_bottom cs) (th_stack ?r) @ vs, th_status := Normal\<rparr>"
  obtain b where b: "b \<le> length (th_stack ?co)" "drop b (th_stack ?co) = vs"
      "th_status ?co = Result b \<or> th_status ?co = Suspended \<and> map_option cs_bottom (th_yield_bottom ?co) = Some b"
    using assms(3) by (auto simp: hands_back_def)
  have v: "slice_from b (th_stack ?co) = Some vs" using b by (simp add: slice_from_def)
  from b(3) show thesis
  proof
    assume s: "th_status ?co = Result b"
    show thesis
      by (rule that [of "with_thread (with_thread w co (?co\<lparr>th_stack := []\<rparr>)) r ?r'"])
        (use assms v s in \<open>simp_all add: driver_turn_def propagate_inner_to_resumer_def top_is_sequence_def Let_def with_thread_def\<close>)
  next
    assume s: "th_status ?co = Suspended \<and> map_option cs_bottom (th_yield_bottom ?co) = Some b"
    then obtain y where y: "th_yield_bottom ?co = Some y" "cs_bottom y = b" by auto
    show thesis
      by (rule that [of "with_thread w r ?r'"])
        (use assms v s y in \<open>simp_all add: driver_turn_def propagate_inner_to_resumer_def top_is_sequence_def Let_def with_thread_def\<close>)
  qed
qed

lemma pcall_lands:
  assumes "ex_stack ex = r # rest" "th_status (w_threads w r) = Normal" "th_pending_action (w_threads w r) = None"
    "th_frames (w_threads w r) = FSequence pcall_sequence cs None # fs"
    "ee_poll env = with_coroutine_sequences other" "cs_bottom cs \<le> length (th_stack (w_threads w r))"
  shows "driver_turn fuel env (w, ex) =
    (case land_call_results w cs ((w_threads w r)\<lparr>th_frames := fs, th_stack :=
         take (cs_bottom cs) (th_stack (w_threads w r)) @ VBool True # drop (cs_bottom cs) (th_stack (w_threads w r))\<rparr>) of
       None \<Rightarrow> None | Some th \<Rightarrow> Some (Again (with_thread w r th, ex)))"
  using assms
  by (simp add: driver_turn_normal pump_frame_def pump_sequence_def slice_from_def with_coroutine_sequences_def
      pcall_poll_def Let_def bind_eq_None_conv split: option.split)

text \<open>
  C18. When a coroutine resumed by \<open>coroutine.resume\<close> ends or yields with some values, two turns of
  the driver later the resumer runs again with true and these values in its result registers,
  cut or filled with nil to the number it asked for, and nothing below them is touched; but when it
  asked for at least two results more than there are, the driver panics instead.
\<close>

theorem resume_delivers:
  assumes "ex_stack ex = co # r # rest" "co \<noteq> r" "hands_back (w_threads w co) vs"
    and "th_frames (w_threads w r) = FWaitThread cs # FSequence pcall_sequence cs None # fs"
    and "th_status (w_threads w r) = Normal" "th_pending_action (w_threads w r) = None"
    and "cs_cont cs = None" "cs_bottom cs = cs_func_idx cs + 1" "cs_bottom cs \<le> length (th_stack (w_threads w r))"
    and "ee_poll env = with_coroutine_sequences other"
  shows "\<exists>d1. driver_turn fuel env (w, ex) = Some (Again d1) \<and>
    (if cs_returns cs \<noteq> 0 \<and> length vs + 2 < unat (cs_returns cs) - 1 then driver_turn fuel env d1 = None
     else \<exists>w2. driver_turn fuel env d1 = Some (Again (w2, ex\<lparr>ex_stack := r # rest\<rparr>))
       \<and> th_frames (w_threads w2 r) = fs
       \<and> take (cs_func_idx cs) (th_stack (w_threads w2 r)) = take (cs_func_idx cs) (th_stack (w_threads w r))
       \<and> (if cs_returns cs = 0
          then drop (cs_func_idx cs) (th_stack (w_threads w2 r)) = VBool True # vs
            \<and> th_top (w_threads w2 r) = cs_func_idx cs + 1 + length vs
          else let n = unat (cs_returns cs) - 1
            in take n (drop (cs_func_idx cs) (th_stack (w_threads w2 r))) = padded n (VBool True # vs)))"
proof -
  let ?r = "w_threads w r" and ?b = "cs_bottom cs" and ?f = "cs_func_idx cs"
  let ?s = "take ?b (th_stack ?r) @ VBool True # vs"
  obtain w1 where w1: "driver_turn fuel env (w, ex) = Some (Again (w1, ex\<lparr>ex_stack := r # rest\<rparr>))"
      "w_threads w1 r = ?r\<lparr>th_frames := FSequence pcall_sequence cs None # fs,
        th_stack := take ?b (th_stack ?r) @ vs, th_status := Normal\<rparr>"
    by (rule propagate_to_sequence [OF assms(1-5)])
  let ?th = "(w_threads w1 r)\<lparr>th_frames := fs, th_stack := ?s\<rparr>"
  have w: "th_status (w_threads w1 r) = Normal" "th_pending_action (w_threads w1 r) = None"
    "th_frames (w_threads w1 r) = FSequence pcall_sequence cs None # fs"
    "ee_poll env = with_coroutine_sequences other"
    "th_stack (w_threads w1 r) = take ?b (th_stack ?r) @ vs"
    by (simp_all add: w1(2) assms(6,10))
  have t2: "driver_turn fuel env (w1, ex\<lparr>ex_stack := r # rest\<rparr>) =
      (case land_call_results w1 cs ?th of None \<Rightarrow> None
       | Some th \<Rightarrow> Some (Again (with_thread w1 r th, ex\<lparr>ex_stack := r # rest\<rparr>)))"
    using assms(9) by (subst pcall_lands [OF _ w(1-4)]) (simp_all add: w(5))
  have l: "land_call_results w1 cs ?th = (if cs_returns cs = 0 \<or> ?f + (unat (cs_returns cs) - 1) \<le> length ?s
      then Some (landed w1 cs ?th) else None)"
    using land_call_results_eq [OF assms(7), of ?th w1] assms(8,9) by simp
  have len: "length ?s = ?f + 2 + length vs" using assms(8,9) by simp
  have st: "th_stack ?th = ?s" by simp
  have d: "drop ?b ?s = VBool True # vs" "take ?f ?s = take ?f (th_stack ?r)" using assms(8,9) by simp_all
  show ?thesis
  proof (intro exI conjI)
    show "driver_turn fuel env (w, ex) = Some (Again (w1, ex\<lparr>ex_stack := r # rest\<rparr>))" by (rule w1(1))
    show "if cs_returns cs \<noteq> 0 \<and> length vs + 2 < unat (cs_returns cs) - 1
      then driver_turn fuel env (w1, ex\<lparr>ex_stack := r # rest\<rparr>) = None
     else \<exists>w2. driver_turn fuel env (w1, ex\<lparr>ex_stack := r # rest\<rparr>) = Some (Again (w2, ex\<lparr>ex_stack := r # rest\<rparr>))
       \<and> th_frames (w_threads w2 r) = fs \<and> take ?f (th_stack (w_threads w2 r)) = take ?f (th_stack ?r)
       \<and> (if cs_returns cs = 0
          then drop ?f (th_stack (w_threads w2 r)) = VBool True # vs \<and> th_top (w_threads w2 r) = ?f + 1 + length vs
          else let n = unat (cs_returns cs) - 1 in take n (drop ?f (th_stack (w_threads w2 r))) = padded n (VBool True # vs))"
    proof (cases "cs_returns cs \<noteq> 0 \<and> length vs + 2 < unat (cs_returns cs) - 1")
      case True
      then have "land_call_results w1 cs ?th = None" unfolding l len by simp
      then show ?thesis using True t2 by simp
    next
      case False
      then have "land_call_results w1 cs ?th = Some (landed w1 cs ?th)" unfolding l len by auto
      then have t: "driver_turn fuel env (w1, ex\<lparr>ex_stack := r # rest\<rparr>)
          = Some (Again (with_thread w1 r (landed w1 cs ?th), ex\<lparr>ex_stack := r # rest\<rparr>))"
        unfolding t2 by simp
      let ?l = "landed w1 cs ?th" and ?n = "unat (cs_returns cs) - 1"
      have f: "th_frames ?l = fs" by (simp add: landed_def Let_def)
      have z: "th_stack ?l = take ?f (th_stack ?r) @ VBool True # vs \<and> th_top ?l = ?f + 1 + length vs" if "cs_returns cs = 0"
        using that d len assms(8,9) by (simp add: landed_def Let_def)
      have nz: "\<exists>rest. th_stack ?l = take ?f (th_stack ?r) @ padded ?n (VBool True # vs) @ rest" if "cs_returns cs \<noteq> 0"
        using landed_padded [OF that, of w1 ?th] by (simp only: st d)
      have fl: "length (take ?f (th_stack ?r)) = ?f" using assms(8,9) by simp
      have "take ?f (th_stack ?l) = take ?f (th_stack ?r)" using z nz fl by (cases "cs_returns cs = 0") auto
      moreover have "if cs_returns cs = 0 then drop ?f (th_stack ?l) = VBool True # vs \<and> th_top ?l = ?f + 1 + length vs
          else let n = ?n in take n (drop ?f (th_stack ?l)) = padded n (VBool True # vs)"
        using z nz fl by (cases "cs_returns cs = 0") (auto simp: Let_def)
      ultimately show ?thesis using False t f by auto
    qed
  qed
qed

theorem resume_delivers_witness:
  "\<exists>d1 w2. driver_turn 0 duo_env
      (duo_world ((thread_new 1)\<lparr>th_stack := [VInt 7], th_status := Result 0\<rparr>)
        [FWaitThread (duo_site 4), FSequence pcall_sequence (duo_site 4) None], duo_executor) = Some (Again d1)
    \<and> driver_turn 0 duo_env d1 = Some (Again (w2, duo_executor\<lparr>ex_stack := [0]\<rparr>))
    \<and> take 3 (th_stack (w_threads w2 0)) = [VBool True, VInt 7, VNil]"
proof -
  let ?w = "duo_world ((thread_new 1)\<lparr>th_stack := [VInt 7], th_status := Result 0\<rparr>)
        [FWaitThread (duo_site 4), FSequence pcall_sequence (duo_site 4) None]"
  have h: "hands_back (w_threads ?w 1) [VInt 7]"
    by (simp add: hands_back_def duo_world_def)
  have p: "padded 3 (VBool True # [VInt 7]) = [VBool True, VInt 7, VNil]"
    by (simp add: padded_def numeral_3_eq_3)
  have "\<exists>d1. driver_turn 0 duo_env (?w, duo_executor) = Some (Again d1) \<and>
    (\<exists>w2. driver_turn 0 duo_env d1 = Some (Again (w2, duo_executor\<lparr>ex_stack := [0]\<rparr>))
      \<and> th_frames (w_threads w2 0) = [] \<and> take 3 (th_stack (w_threads w2 0)) = padded 3 (VBool True # [VInt 7]))"
    using resume_delivers [OF _ _ h, of duo_executor 0 "[]" "duo_site 4" "[]" duo_env duo_poll 0]
    by (simp add: duo_facts duo_site_def thread_new_def del: split_paired_Ex)
  then show ?thesis unfolding p by (elim exE conjE) (intro exI conjI)
qed

section \<open>Errors\<close>

text \<open>
  C19. An uncaught error on the running thread goes to the innermost sequence of the first thread
  down the stack of resumers that has one: the driver gets there in a number of turns, the sequence
  is on top with the error pending, and the threads below are as they were. When no thread has
  one, the host gets the error.
\<close>

theorem error_finds_handler:
  assumes "raising w (ex_stack ex) e"
  shows "case dropWhile (\<lambda>t. \<not> catches w t) (ex_stack ex) of
      [] \<Rightarrow> \<exists>d1 d2. turns fuel env (w, ex) d1 \<and> driver_turn fuel env d1 = Some (Fail d2 (LuaError e))
    | h # below \<Rightarrow> \<exists>w' seq cs p fs. turns fuel env (w, ex) (w', ex\<lparr>ex_stack := h # below\<rparr>)
        \<and> dropWhile (\<lambda>f. \<not> is_sequence f) (tl (th_frames (w_threads w h))) = FSequence seq cs p # fs
        \<and> th_frames (w_threads w' h) = FSequence seq cs (Some e) # fs
        \<and> (\<forall>t\<in>set below. w_threads w' t = w_threads w t)"
proof -
  let ?pre = "takeWhile (\<lambda>t. \<not> catches w t) (ex_stack ex)"
  let ?post = "dropWhile (\<lambda>t. \<not> catches w t) (ex_stack ex)"
  have c: "catches w h" if "?post = h # below" for h below
    using conjunct2 [OF iffD1 [OF dropWhile_eq_Cons_conv that]] by simp
  have s: "case ?post of
      [] \<Rightarrow> \<exists>d1 d2. turns fuel env (w, ex) d1 \<and> driver_turn fuel env d1 = Some (Fail d2 (LuaError e))
    | h # below \<Rightarrow> \<exists>w'. turns fuel env (w, ex) (w', ex\<lparr>ex_stack := ?post\<rparr>)
        \<and> th_frames (w_threads w' h) = handled e (tl (th_frames (w_threads w h)))
        \<and> (\<forall>t\<in>set below. w_threads w' t = w_threads w t)"
  proof (rule error_search [of w ?pre])
    show "\<forall>t\<in>set ?pre. \<not> catches w t" by (blast dest: set_takeWhileD)
    show "\<forall>h below. ?post = h # below \<longrightarrow> catches w h" using c by blast
    show "raising w (?pre @ ?post) e" unfolding takeWhile_dropWhile_id by (rule assms)
    show "ex_stack ex = ?pre @ ?post" unfolding takeWhile_dropWhile_id by (rule refl)
  qed
  show ?thesis
  proof (cases ?post)
    case (Cons h below)
    obtain seq cs p fs where f: "dropWhile (\<lambda>f. \<not> is_sequence f) (tl (th_frames (w_threads w h))) = FSequence seq cs p # fs"
      by (rule has_handler_first [OF c [OF Cons, unfolded catches_def]])
    then show ?thesis using s unfolding Cons list.case handled_def f by auto
  next
    case Nil
    show ?thesis using s unfolding Nil list.case .
  qed
qed

theorem error_finds_handler_witness:
  "\<exists>w'. turns 0 duo_env
      (duo_world ((thread_new 1)\<lparr>th_frames := [FError (VInt 5)], th_status := Normal\<rparr>)
        [FWaitThread (duo_site 0), FSequence pcall_sequence (duo_site 0) None], duo_executor)
      (w', duo_executor\<lparr>ex_stack := [0]\<rparr>)
    \<and> th_frames (w_threads w' 0) = [FSequence pcall_sequence (duo_site 0) (Some (VInt 5))]"
proof -
  let ?w = "duo_world ((thread_new 1)\<lparr>th_frames := [FError (VInt 5)], th_status := Normal\<rparr>)
        [FWaitThread (duo_site 0), FSequence pcall_sequence (duo_site 0) None]"
  have r: "raising ?w (ex_stack duo_executor) (VInt 5)"
    by (auto simp: raising_def error_passes_def closable_def upvals_in_def duo_world_def duo_executor_def thread_new_def)
  have c: "\<not> catches ?w 1" "catches ?w 0"
    by (simp_all add: catches_def has_handler_def duo_world_def)
  have f: "tl (th_frames (w_threads ?w 0)) = [FSequence pcall_sequence (duo_site 0) None]"
    by (simp add: duo_world_def)
  show ?thesis
    using error_finds_handler [OF r, of 0 duo_env] c f by (auto simp: duo_executor_def)
qed

text \<open>
  C40. After an error nobody inside the coroutine catches, the coroutine has no frames but keeps the
  status Normal: \<open>coroutine.status\<close> calls it normal, \<open>coroutine.resume\<close> refuses it as not
  suspended and \<open>coroutine.close\<close> refuses to close it, where the manual has a dead coroutine.
\<close>

theorem failed_coroutine_not_dead:
  assumes "raising w (t # u # below) e" "ex_stack ex = t # u # below" "\<not> catches w t" "t \<noteq> main"
  shows "\<exists>w'. driver_turn fuel env (w, ex) = Some (Again (w', ex\<lparr>ex_stack := u # below\<rparr>))
    \<and> th_frames (w_threads w' t) = []
    \<and> lua_status w' u up [VThread t] = Some (w', [VStr (ascii ''normal'')], Inr AReturn)
    \<and> lua_resume main w' u up [VThread t] =
        Some (w', [VBool False, VStr (ascii ''cannot resume non-suspended coroutine'')], Inr AReturn)
    \<and> lua_close w' u up [VThread t] =
        Some (w', [VNil, VStr (ascii ''cannot close a non-suspended coroutine'')], Inr AReturn)"
proof -
  obtain w1 th1 where o: "only_closed (w_upvals w) (w_upvals w1)" "w1 = w\<lparr>w_upvals := w_upvals w1\<rparr>"
      "th_frames th1 = handled e (tl (th_frames (w_threads w t)))" "unwound (w_threads w t) th1"
      "driver_turn fuel env (w, ex) = error_result w ex t (u # below) e w1 th1"
    by (rule error_turn [OF assms(1,2)])
  let ?w = "with_thread (with_thread w1 t th1) u
      ((w_threads w u)\<lparr>th_frames := FError e # tl (th_frames (w_threads w u)), th_status := Normal\<rparr>)"
  have tu: "t \<noteq> u" using assms(1) by (simp add: raising_def)
  have "th_frames th1 = []" using o(3) handled_Nil assms(3) by (simp add: catches_def)
  moreover have "th_status th1 = Normal" using o(4) assms(1) by (simp add: unwound_def raising_def)
  moreover have "driver_turn fuel env (w, ex) = Some (Again (?w, ex\<lparr>ex_stack := u # below\<rparr>))"
    using o(5) assms(3) by (simp add: error_result_def)
  ultimately show ?thesis using tu assms(4)
    by (intro exI [of _ ?w]) (simp add: lua_status_def lua_resume_def lua_close_def status_text_def
        unresumable_reason_def win_get_def native_return_def)
qed

theorem failed_coroutine_not_dead_witness:
  "\<exists>w'. driver_turn 0 duo_env
      (duo_world ((thread_new 1)\<lparr>th_frames := [FError (VInt 5)], th_status := Normal\<rparr>)
        [FWaitThread (duo_site 0)], duo_executor) = Some (Again (w', duo_executor\<lparr>ex_stack := [0]\<rparr>))
    \<and> lua_status w' 0 [] [VThread 1] = Some (w', [VStr (ascii ''normal'')], Inr AReturn)"
proof -
  let ?w = "duo_world ((thread_new 1)\<lparr>th_frames := [FError (VInt 5)], th_status := Normal\<rparr>) [FWaitThread (duo_site 0)]"
  have r: "raising ?w (1 # 0 # []) (VInt 5)"
    by (auto simp: raising_def error_passes_def closable_def upvals_in_def duo_world_def thread_new_def)
  have c: "\<not> catches ?w 1" by (simp add: catches_def has_handler_def duo_world_def)
  show ?thesis
    using failed_coroutine_not_dead [OF r _ c, of duo_executor 0 0 duo_env "[]"] by (auto simp: duo_executor_def)
qed

text \<open>
  Calling a function made by \<open>coroutine.wrap\<close> whose coroutine cannot be resumed is not a Lua
  error: the callback asks for the resume without a check, and the driver gives up with the
  host's BadMode, whatever protected calls are on the stack.
\<close>

theorem wrap_dead_aborts:
  assumes "ex_stack ex = r # rest" "th_status (w_threads w r) = Normal"
    and "th_status (w_threads w co) \<noteq> Suspended" "cs_bottom cs \<le> length (th_stack (w_threads w r))"
    and "wrap_callback w0 r (VThread co # ups) window = Some (w0, window', Inr action)"
    and "th_pending_action (w_threads w r) = Some (action, cs)"
  shows "\<exists>d. driver_turn fuel env (w, ex) = Some (Fail d BadMode)"
proof -
  have a: "action = AResume co (Some unwrap_sequence)" using assms(5) by (simp add: wrap_callback_def)
  have "driver_turn fuel env (w, ex) = active_turn fuel env (w, ex) r"
    using assms by (simp add: driver_turn_def Let_def)
  then show ?thesis
    using assms(3,4,6) a by (auto simp: active_turn_def apply_pending_action_def schedule_thread_resume_def
        feed_target_def slice_from_def push_then_def push_frame_def Let_def)
qed

theorem wrap_dead_aborts_witness:
  "\<exists>d. driver_turn 0 duo_env
    ((duo_world (thread_new 1) [])\<lparr>w_threads := (\<lambda>_. (thread_new 0)\<lparr>th_stack := [VNil], th_status := Normal,
       th_frames := [FSequence pcall_sequence (duo_site 0) None],
       th_pending_action := Some (AResume 1 (Some unwrap_sequence), duo_site 0)\<rparr>)\<rparr>,
     duo_executor\<lparr>ex_stack := [0]\<rparr>) = Some (Fail d BadMode)"
  by (rule wrap_dead_aborts [of _ 0 "[]" _ 1 "duo_site 0" demo_world "[]" "[]" "[]" "AResume 1 (Some unwrap_sequence)"])
    (simp_all add: duo_executor_def duo_site_def wrap_callback_def)

text \<open>
  \<open>Executor::start\<close> leaves a yield of the main thread in place: after a program that yielded from
  its main thread, the next function started does not run, the step reports its arguments as
  the values of a yield, or panics when there are fewer than the old yield's position.
\<close>

theorem start_after_yield:
  assumes "th_yield_bottom (w_threads w (ee_main env)) = Some y"
  shows "executor_step (Suc n) fuel env (executor_start env w f args) =
    (if cs_bottom y \<le> length args
     then Some (Stop (fst (executor_start env w f args), (snd (executor_start env w f args))\<lparr>ex_mode := EYielded\<rparr>)
       (StepYielded (drop (cs_bottom y) args)))
     else None)"
  using assms by (simp add: executor_step_def executor_start_def driver_turn_def slice_from_def Let_def)

theorem start_after_yield_witness:
  "\<exists>d. executor_step 1 0 duo_env (executor_start duo_env
     ((duo_world (thread_new 1) [])\<lparr>w_threads := (\<lambda>_. (thread_new 0)\<lparr>th_yield_bottom := Some (duo_site 0)\<rparr>)\<rparr>) 5 [VInt 1, VInt 2])
   = Some (Stop d (StepYielded [VInt 2]))"
  using start_after_yield [of "(duo_world (thread_new 1) [])\<lparr>w_threads := (\<lambda>_. (thread_new 0)\<lparr>th_yield_bottom := Some (duo_site 0)\<rparr>)\<rparr>"
     duo_env "duo_site 0" 0 0 5 "[VInt 1, VInt 2]"] by (simp add: duo_site_def duo_env_def)

end
