(* ===== verification/Chunk.thy ===== *)
theory Chunk
  imports Machine Outcome
begin

text \<open>
  \<open>compiler/defs.rs\<close>: expression descriptors, jump lists and the chunk under construction; the
  variable and declaration tables of \<open>compiler/rules.rs\<close>; and computations on the compiler's state.
  Register indices, constant indices and labels are naturals; where the source adds in \<open>u8\<close> or \<open>u16\<close> the
  overflow that debug builds trap is a panic, and a cast keeps the low bits. Line numbers (all zero) and
  the name of the source (always absent) are left out.
\<close>

section \<open>The syntax tree\<close>

text \<open>
  \<open>parser/syntax.rs\<close>: the syntax tree the compiler reads. The typed views there look their parts up
  in a concrete tree and give \<open>None\<close> for a missing one; the tree of a program the grammar accepts has them
  all, so the parts are arguments of the constructors here and the compiler's errors for a missing part (which the
  parser does not report in every case, see theory ParseProps) have no counterpart.
\<close>

type_synonym name = bytes

datatype prefix_operator = PreNone | PreNeg | PreNot | PreLen | PreBitNot

datatype binary_operator =
    OpAnd | OpOr | OpAdd | OpSub | OpMul | OpDiv | OpIntDiv | OpExp | OpMod | OpBitAnd | OpBitOr
  | OpLShift | OpRShift | OpEq | OpBitXor | OpNEq | OpLEq | OpGEq | OpGt | OpLt | OpProperty | OpMethod | OpConcat

datatype literal_value = LitNil | LitBool bool | LitInt i64 | LitFloat f64 | LitString bytes

datatype decl_modifier = ModConst | ModClose

text \<open>
  \<open>FuncBody\<close> holds the parameters, the \<open>...\<close> if there is one, with its name if it has one, and the
  block. \<open>SDecl\<close> and \<open>SGlobal\<close> hold the targets with their attributes and the values.
\<close>

datatype (plugins only: size) expr =
    EMethod expr name "expr list"
  | EIdent name
  | ELiteral literal_value
  | EFunc func_body
  | ETable "table_entry list"
  | EPrefix prefix_operator expr
  | EBinary binary_operator expr expr
  | ECall expr "expr list"
  | EIndex expr expr
  | EVarArg
  | EParen expr
and table_entry =
    TArray expr
  | TMap name expr
  | TGeneric expr expr
and func_body = FuncBody "name list" "name option option" "stmt list"
and stmt =
    SLabel name
  | SGoto name
  | SLocalFunc name func_body
  | SDecl "(name \<times> decl_modifier option) list" "expr list"
  | SGlobalFunc name func_body
  | SGlobalStar bool
  | SGlobal bool "(name \<times> bool) list" "expr list"
  | SAssign "expr list" "expr list"
  | SFunc expr func_body
  | SExpr expr
  | SBreak
  | SReturn "expr list"
  | SDo "stmt list"
  | SWhile expr "stmt list"
  | SRepeat "stmt list" expr
  | SIf expr "stmt list" else_chain
  | SForNum name expr expr "expr option" "stmt list"
  | SForGen "name list" "expr list" "stmt list"
and else_chain =
    NoElse
  | ElseIf expr "stmt list" else_chain
  | Else "stmt list"

section \<open>Expression descriptors\<close>

type_synonym jump_list = "nat list"

datatype numeral = NInt i64 | NFloat f64

datatype expr_kind = KReg nat | KJump "nat option" | KNumeral numeral | KBool bool | KNil

record expr_desc =
  ed_kind :: expr_kind
  ed_true :: jump_list
  ed_false :: jump_list

definition plain :: "expr_kind \<Rightarrow> expr_desc" where
  "plain k = \<lparr>ed_kind = k, ed_true = [], ed_false = []\<rparr>"

definition from_reg :: "nat \<Rightarrow> expr_desc" where "from_reg r = plain (KReg r)"
definition from_numeral :: "numeral \<Rightarrow> expr_desc" where "from_numeral n = plain (KNumeral n)"
definition from_bool :: "bool \<Rightarrow> expr_desc" where "from_bool b = plain (KBool b)"
definition from_nil :: expr_desc where "from_nil = plain KNil"

definition has_jumps :: "expr_desc \<Rightarrow> bool" where
  "has_jumps e \<longleftrightarrow> ed_true e \<noteq> [] \<or> ed_false e \<noteq> [] \<or> (case ed_kind e of KJump (Some _) \<Rightarrow> True | _ \<Rightarrow> False)"

definition pending :: "expr_desc \<Rightarrow> nat option" where
  "pending e = (case ed_kind e of KJump p \<Rightarrow> p | _ \<Rightarrow> None)"

text \<open>The head taken, and the descriptor without it.\<close>

definition take_pending :: "expr_desc \<Rightarrow> nat option \<times> expr_desc" where
  "take_pending e = (case ed_kind e of KJump p \<Rightarrow> (p, e\<lparr>ed_kind := KJump None\<rparr>) | _ \<Rightarrow> (None, e))"

datatype want = Exact nat | MultRet

section \<open>The chunk\<close>

record vararg_info =
  va_used_as_non_base :: bool
  va_captured :: bool

definition needs_table :: "vararg_info \<Rightarrow> bool" where
  "needs_table i \<longleftrightarrow> va_used_as_non_base i \<or> va_captured i"

record chunk =
  ck_tape :: "instruction list"
  ck_constants :: "lua_value list"
  ck_prototypes :: "addr list"
  ck_upvalue_desc :: "upvalue_descriptor list"
  ck_freereg :: nat
  ck_nactvar :: nat
  ck_max_stack :: nat
  ck_arity :: nat
  ck_is_vararg :: bool
  ck_vararg_info :: "vararg_info option"
  ck_labels :: "nat list"
  ck_jump_patches :: "(nat \<times> nat) list"
  ck_last_target :: nat
  ck_next_ic_idx :: nat

definition chunk_new :: chunk where
  "chunk_new = \<lparr>ck_tape = [], ck_constants = [], ck_prototypes = [], ck_upvalue_desc = [], ck_freereg = 0,
     ck_nactvar = 0, ck_max_stack = 0, ck_arity = 0, ck_is_vararg = False, ck_vararg_info = None,
     ck_labels = [], ck_jump_patches = [], ck_last_target = 0, ck_next_ic_idx = 0\<rparr>"

definition alloc_ic_slot :: "chunk \<Rightarrow> nat \<times> chunk" where
  "alloc_ic_slot c = (ck_next_ic_idx c, c\<lparr>ck_next_ic_idx := min (ck_next_ic_idx c + 1) (2 ^ 16 - 1)\<rparr>)"

text \<open>The offset of a jump at \<open>i\<close> to \<open>target\<close>, and an instruction given one.\<close>

definition jump_offset :: "nat \<Rightarrow> nat \<Rightarrow> i32" where
  "jump_offset target i = word_of_int (int target - (int i + 1))"

fun with_offset :: "i32 \<Rightarrow> instruction \<Rightarrow> instruction option" where
  "with_offset d (JMP _) = Some (JMP d)"
| "with_offset d (FORPREP b _) = Some (FORPREP b d)"
| "with_offset d (FORLOOP b _) = Some (FORLOOP b d)"
| "with_offset d (TFORPREP b _) = Some (TFORPREP b d)"
| "with_offset d (TFORLOOP b _) = Some (TFORLOOP b d)"
| "with_offset d _ = None"

fun apply_patches :: "nat list \<Rightarrow> (nat \<times> nat) list \<Rightarrow> instruction list \<Rightarrow> instruction list option" where
  "apply_patches labels [] tape = Some tape"
| "apply_patches labels ((i, l) # ps) tape = do {
     target \<leftarrow> idx labels l;
     ins \<leftarrow> idx tape i;
     ins' \<leftarrow> with_offset (jump_offset target i) ins;
     apply_patches labels ps (tape[i := ins'])
   }"

definition assemble :: "chunk \<Rightarrow> prototype option" where
  "assemble c = do {
     code \<leftarrow> apply_patches (ck_labels c) (ck_jump_patches c) (ck_tape c);
     Some \<lparr>pr_code = code, pr_constants = ck_constants c, pr_prototypes = ck_prototypes c,
       pr_upvalue_desc = ck_upvalue_desc c, pr_num_params = of_nat (ck_arity c), pr_is_vararg = ck_is_vararg c,
       pr_needs_vararg_table = (case ck_vararg_info c of Some i \<Rightarrow> needs_table i | None \<Rightarrow> False),
       pr_max_stack_size = of_nat (ck_max_stack c), pr_ic_table = replicate (ck_next_ic_idx c) ICEmpty\<rparr>
   }"

section \<open>Variables and declarations\<close>

datatype const_val = CVNumeral numeral | CVBool bool | CVNil

fun const_of_kind :: "expr_kind \<Rightarrow> const_val option" where
  "const_of_kind (KNumeral n) = Some (CVNumeral n)"
| "const_of_kind (KBool b) = Some (CVBool b)"
| "const_of_kind KNil = Some CVNil"
| "const_of_kind _ = None"

fun const_to_desc :: "const_val \<Rightarrow> expr_desc" where
  "const_to_desc (CVNumeral n) = from_numeral n"
| "const_to_desc (CVBool b) = from_bool b"
| "const_to_desc CVNil = from_nil"

datatype var_kind = VKReg | VKConst "const_val option" | VKToClose | VKVarargParam | VKGlobal

definition is_const :: "var_kind \<Rightarrow> bool" where
  "is_const k = (case k of VKConst _ \<Rightarrow> True | _ \<Rightarrow> False)"

record variable_data =
  vd_register :: nat
  vd_kind :: var_kind

datatype global_kind = GReg | GConst

datatype default_policy = Preamble | Star global_kind | NoDefault

record global_env =
  ge_decls :: "name \<Rightarrow> global_kind option"
  ge_default :: default_policy

definition global_env_new :: global_env where
  "global_env_new = \<lparr>ge_decls = (\<lambda>_. None), ge_default = Preamble\<rparr>"

definition void_preamble :: "global_env \<Rightarrow> global_env" where
  "void_preamble g = (if ge_default g = Preamble then g\<lparr>ge_default := NoDefault\<rparr> else g)"

section \<open>The state of the compiler\<close>

text \<open>The scopes, their marks, the break labels: innermost first.\<close>

record ctx =
  cx_chunk :: chunk
  cx_control_end_label :: "nat list"
  cx_scope :: "(name \<Rightarrow> variable_data option) list"
  cx_scope_marks :: "(nat \<times> nat) list"
  cx_scope_close :: "nat list list"
  cx_goto_labels :: "name \<Rightarrow> nat option"
  cx_upvalues :: "(name \<times> upvalue_descriptor) list"
  cx_globals :: global_env
  cx_scope_globals :: "global_env list"

text \<open>
  The function being compiled, the enclosing functions from the innermost, which \<open>capture\<close> reaches, and
  the prototypes allocated so far, at the addresses of their positions.
\<close>

record comp_state =
  st_ctx :: ctx
  st_parents :: "ctx list"
  st_protos :: "prototype list"

datatype compile_error =
    Internal string
  | UndeclaredGlobal name
  | ConstGlobalAssign name
  | Registers
  | UpValues
  | FixedParameters
  | Functions
  | Constants
  | DuplicateLabel
  | GotoInvalid
  | JumpLocal
  | JumpOverflow

text \<open>\<open>Unfinished\<close> stands for the bound on the nesting depth of the model being used up.\<close>

datatype failure = Error compile_error | Unfinished

type_synonym 'a comp = "comp_state \<Rightarrow> (failure, 'a \<times> comp_state) outcome"

definition give :: "'a \<Rightarrow> 'a comp" where
  "give x = (\<lambda>s. ok (x, s))"

definition fail :: "compile_error \<Rightarrow> 'a comp" where
  "fail e = (\<lambda>s. err (Error e))"

definition panic :: "'a comp" where
  "panic = (\<lambda>s. None)"

definition step :: "'a comp \<Rightarrow> ('a \<Rightarrow> 'b comp) \<Rightarrow> 'b comp" where
  "step m f = (\<lambda>s. and_then (m s) (\<lambda>(x, s'). f x s'))"

definition thn :: "unit comp \<Rightarrow> 'b comp \<Rightarrow> 'b comp" where
  "thn m k = step m (\<lambda>_. k)"

definition check :: "bool \<Rightarrow> unit comp" where
  "check b = (if b then give () else panic)"

definition reading :: "(ctx \<Rightarrow> 'a) \<Rightarrow> ('a \<Rightarrow> 'b comp) \<Rightarrow> 'b comp" where
  "reading f k = (\<lambda>s. k (f (st_ctx s)) s)"

definition update :: "(ctx \<Rightarrow> ctx) \<Rightarrow> unit comp" where
  "update f = (\<lambda>s. ok ((), s\<lparr>st_ctx := f (st_ctx s)\<rparr>))"

definition upd_chunk :: "(chunk \<Rightarrow> chunk) \<Rightarrow> unit comp" where
  "upd_chunk f = update (\<lambda>c. c\<lparr>cx_chunk := f (cx_chunk c)\<rparr>)"

definition or_fail :: "'a option \<Rightarrow> compile_error \<Rightarrow> 'a comp" where
  "or_fail x e = (case x of None \<Rightarrow> fail e | Some v \<Rightarrow> give v)"

definition or_panic :: "'a option \<Rightarrow> 'a comp" where
  "or_panic x = (case x of None \<Rightarrow> panic | Some v \<Rightarrow> give v)"

definition add8 :: "nat \<Rightarrow> nat \<Rightarrow> nat comp" where
  "add8 a b = (if a + b < 2 ^ 8 then give (a + b) else panic)"

definition add16 :: "nat \<Rightarrow> nat \<Rightarrow> nat comp" where
  "add16 a b = (if a + b < 2 ^ 16 then give (a + b) else panic)"

abbreviation as8 :: "nat \<Rightarrow> nat" where "as8 n \<equiv> n mod 2 ^ 8"
abbreviation as16 :: "nat \<Rightarrow> nat" where "as16 n \<equiv> n mod 2 ^ 16"

fun each :: "('a \<Rightarrow> unit comp) \<Rightarrow> 'a list \<Rightarrow> unit comp" where
  "each f [] = give ()"
| "each f (x # xs) = thn (f x) (each f xs)"

abbreviation freereg :: "ctx \<Rightarrow> nat" where "freereg c \<equiv> ck_freereg (cx_chunk c)"
abbreviation nactvar :: "ctx \<Rightarrow> nat" where "nactvar c \<equiv> ck_nactvar (cx_chunk c)"
abbreviation tape :: "ctx \<Rightarrow> instruction list" where "tape c \<equiv> ck_tape (cx_chunk c)"

end
