(* ===== verification/CompCtx.thy ===== *)
theory CompCtx
  imports Chunk
begin

text \<open>
  \<open>compiler/rules.rs\<close>, the methods of \<open>Ctx\<close>: registers, labels, jump lists, the discharge of
  expressions, scopes, constants and the resolution of names.
\<close>

definition NO_REG :: nat where "NO_REG = 255"

section \<open>Registers\<close>

definition emit :: "instruction \<Rightarrow> unit comp" where
  "emit i = upd_chunk (\<lambda>c. c\<lparr>ck_tape := ck_tape c @ [i]\<rparr>)"

definition set_freereg :: "nat \<Rightarrow> unit comp" where
  "set_freereg n = upd_chunk (\<lambda>c. c\<lparr>ck_freereg := n\<rparr>)"

text \<open>The cursor moved up to \<open>n\<close>, the peak with it.\<close>

definition raise_freereg :: "nat \<Rightarrow> unit comp" where
  "raise_freereg n = upd_chunk (\<lambda>c. c\<lparr>ck_freereg := n, ck_max_stack := max n (ck_max_stack c)\<rparr>)"

definition reserve_reg :: "nat comp" where
  "reserve_reg = reading (\<lambda>c. (freereg c, nactvar c)) (\<lambda>(f, n).
     thn (check (n \<le> f)) (
     if f = 255 then fail Registers
     else thn (raise_freereg (f + 1)) (give f)))"

definition reserve_regs :: "nat \<Rightarrow> nat comp" where
  "reserve_regs k = reading (\<lambda>c. (freereg c, nactvar c)) (\<lambda>(f, n).
     thn (check (n \<le> f)) (
     if f + k < 2 ^ 8 then thn (raise_freereg (f + k)) (give f) else fail Registers))"

definition alloc_register :: "nat comp" where
  "alloc_register = reserve_reg"

definition free_reg :: "nat \<Rightarrow> unit comp" where
  "free_reg r = reading (\<lambda>c. (freereg c, nactvar c)) (\<lambda>(f, n).
     if n \<le> r then
       step (add8 r 1) (\<lambda>r1.
       thn (check (r1 = f)) (set_freereg (f - 1)))
     else give ())"

definition free_regs :: "nat \<Rightarrow> nat \<Rightarrow> unit comp" where
  "free_regs r1 r2 = (if r2 < r1 then thn (free_reg r1) (free_reg r2) else thn (free_reg r2) (free_reg r1))"

definition adjust_locals :: "nat \<Rightarrow> unit comp" where
  "adjust_locals k = reading (\<lambda>c. (freereg c, nactvar c)) (\<lambda>(f, n).
     thn (check (n + k \<le> f)) (upd_chunk (\<lambda>c. c\<lparr>ck_nactvar := n + k\<rparr>)))"

definition dst_or_alloc :: "nat option \<Rightarrow> nat comp" where
  "dst_or_alloc dst = (case dst of
      Some r \<Rightarrow> reading freereg (\<lambda>f.
        if f \<le> r then step (add8 r 1) (\<lambda>n. thn (raise_freereg n) (give r)) else give r)
    | None \<Rightarrow> reserve_reg)"

text \<open>The loops \<open>while freereg <= target { alloc_register()?; }\<close> of the callers.\<close>

function alloc_upto :: "nat \<Rightarrow> nat \<Rightarrow> unit comp" where
  "alloc_upto f n = (if f < n then step alloc_register (\<lambda>_. alloc_upto (f + 1) n) else give ())"
  by auto
termination by (relation "measure (\<lambda>(f, n). n - f)") auto

declare alloc_upto.simps [simp del]

definition alloc_to :: "nat \<Rightarrow> unit comp" where
  "alloc_to n = reading freereg (\<lambda>f. alloc_upto f n)"

section \<open>Labels\<close>

definition next_offset :: "ctx \<Rightarrow> nat" where
  "next_offset c = length (tape c)"

definition new_label :: "nat comp" where
  "new_label = reading (\<lambda>c. length (ck_labels (cx_chunk c))) (\<lambda>n.
     thn (upd_chunk (\<lambda>c. c\<lparr>ck_labels := ck_labels c @ [0]\<rparr>)) (give (as16 n)))"

definition set_label :: "nat \<Rightarrow> nat \<Rightarrow> unit comp" where
  "set_label l offset = reading (\<lambda>c. ck_labels (cx_chunk c)) (\<lambda>ls.
     step (or_panic (idx_set ls l offset)) (\<lambda>ls'.
     upd_chunk (\<lambda>c. c\<lparr>ck_labels := ls', ck_last_target := max offset (ck_last_target c)\<rparr>)))"

definition set_label_here :: "nat \<Rightarrow> unit comp" where
  "set_label_here l = reading next_offset (set_label l)"

definition add_patch :: "nat \<Rightarrow> nat \<Rightarrow> unit comp" where
  "add_patch i l = upd_chunk (\<lambda>c. c\<lparr>ck_jump_patches := ck_jump_patches c @ [(i, l)]\<rparr>)"

definition emit_jump_instr :: "nat \<Rightarrow> instruction \<Rightarrow> unit comp" where
  "emit_jump_instr l ins = reading next_offset (\<lambda>i. thn (add_patch i l) (emit ins))"

definition emit_jump :: "nat \<Rightarrow> unit comp" where
  "emit_jump l = emit_jump_instr l (JMP 0)"

section \<open>Jump lists\<close>

definition emit_unfilled_jmp :: "nat comp" where
  "emit_unfilled_jmp = reading next_offset (\<lambda>i. thn (emit (JMP 0)) (give i))"

fun is_control :: "instruction \<Rightarrow> bool" where
  "is_control (EQ _ _ _) = True"
| "is_control (LT _ _ _) = True"
| "is_control (LE _ _ _) = True"
| "is_control (TEST _ _) = True"
| "is_control (TESTSET _ _ _) = True"
| "is_control _ = False"

fun is_open_testset :: "instruction \<Rightarrow> bool" where
  "is_open_testset (TESTSET dst _ _) = (dst = of_nat NO_REG)"
| "is_open_testset _ = False"

fun is_jmp :: "instruction \<Rightarrow> bool" where
  "is_jmp (JMP _) = True"
| "is_jmp _ = False"

text \<open>The instruction before a jump, for an index other than 0.\<close>

definition ctrl_of :: "nat \<Rightarrow> (instruction \<Rightarrow> 'b comp) \<Rightarrow> 'b comp" where
  "ctrl_of j k = reading tape (\<lambda>t. step (or_panic (idx t (j - 1))) k)"

definition set_instr :: "nat \<Rightarrow> instruction \<Rightarrow> unit comp" where
  "set_instr i ins = reading tape (\<lambda>t.
     step (or_panic (idx_set t i ins)) (\<lambda>t'. upd_chunk (\<lambda>c. c\<lparr>ck_tape := t'\<rparr>)))"

definition assert_ctrl_predecessor :: "nat \<Rightarrow> unit comp" where
  "assert_ctrl_predecessor j = (if j = 0 then give () else ctrl_of j (\<lambda>ins. check (is_control ins)))"

fun downgraded :: "instruction \<Rightarrow> instruction" where
  "downgraded (TESTSET dst src neg) = (if dst = of_nat NO_REG then TEST src (\<not> neg) else TESTSET dst src neg)"
| "downgraded ins = ins"

definition downgrade_testsets :: "jump_list \<Rightarrow> unit comp" where
  "downgrade_testsets = each (\<lambda>j.
     if j = 0 then give ()
     else thn (assert_ctrl_predecessor j) (ctrl_of j (\<lambda>ins. set_instr (j - 1) (downgraded ins))))"

definition patch_jmp :: "nat \<Rightarrow> nat \<Rightarrow> unit comp" where
  "patch_jmp target j = reading tape (\<lambda>t.
     step (or_panic (idx t j)) (\<lambda>ins.
     if is_jmp ins then set_instr j (JMP (jump_offset target j)) else panic))"

definition patch_to :: "jump_list \<Rightarrow> nat \<Rightarrow> unit comp" where
  "patch_to js target =
     thn (downgrade_testsets js) (
     thn (each (patch_jmp target) js) (
     upd_chunk (\<lambda>c. c\<lparr>ck_last_target := max target (ck_last_target c)\<rparr>)))"

fun elidable :: "instruction \<Rightarrow> bool" where
  "elidable (TEST _ _) = True"
| "elidable ins = is_open_testset ins"

text \<open>The elision loop of \<open>patch_to_here\<close>, and the jumps left: it takes one jump out of the list per round.\<close>

definition no_live_target :: "nat \<Rightarrow> chunk \<Rightarrow> bool" where
  "no_live_target j c \<longleftrightarrow> (\<forall>p\<in>set (ck_jump_patches c). fst p < j - 1)
     \<and> (\<forall>p\<in>set (ck_jump_patches c). snd p < length (ck_labels c) \<and> ck_labels c ! snd p \<le> j - 1)"

fun elide :: "nat \<Rightarrow> jump_list \<Rightarrow> jump_list comp" where
  "elide 0 js = give js"
| "elide (Suc n) js = reading cx_chunk (\<lambda>c.
     let end = length (ck_tape c) in
     if end = 0 \<or> end - 1 \<notin> set js then give js
     else
       let j = end - 1 in
       if j = 0 \<or> \<not> elidable (ck_tape c ! (j - 1)) then give js
       else
         thn (check (no_live_target j c)) (
         thn (upd_chunk (\<lambda>c. c\<lparr>ck_tape := take (j - 1) (ck_tape c)\<rparr>)) (
         elide n (remove1 j js))))"

definition patch_to_here :: "jump_list \<Rightarrow> unit comp" where
  "patch_to_here js = step (elide (length js) js) (\<lambda>js'. reading next_offset (patch_to js'))"

fun need_value :: "jump_list \<Rightarrow> bool comp" where
  "need_value [] = give False"
| "need_value (j # js) =
     (if j = 0 then give True
      else thn (assert_ctrl_predecessor j) (ctrl_of j (\<lambda>ins.
        if is_open_testset ins then need_value js else give True)))"

text \<open>The control instruction and the target that \<open>patch_list_aux\<close> gives one jump.\<close>

fun routed :: "nat \<Rightarrow> nat \<Rightarrow> nat \<Rightarrow> instruction \<Rightarrow> instruction \<times> nat" where
  "routed vtarget r dtarget (TESTSET dst src neg) =
     (if dst = of_nat NO_REG then
        (if src = of_nat r then TEST src (\<not> neg) else TESTSET (of_nat r) src neg, vtarget)
      else (TESTSET dst src neg, dtarget))"
| "routed vtarget r dtarget ins = (ins, dtarget)"

definition retarget :: "nat \<Rightarrow> nat \<Rightarrow> unit comp" where
  "retarget target j = reading tape (\<lambda>t.
     step (or_panic (idx t j)) (\<lambda>ins.
     if is_jmp ins then set_instr j (JMP (jump_offset target j)) else give ()))"

definition patch_list_aux :: "jump_list \<Rightarrow> nat \<Rightarrow> nat \<Rightarrow> nat \<Rightarrow> unit comp" where
  "patch_list_aux js vtarget r dtarget = each (\<lambda>j.
     if j = 0 then retarget dtarget j
     else
       thn (assert_ctrl_predecessor j) (
       ctrl_of j (\<lambda>ins. case routed vtarget r dtarget ins of (ins', target) \<Rightarrow>
         thn (set_instr (j - 1) ins') (retarget target j)))) js"

definition emit_test_jump :: "nat \<Rightarrow> bool \<Rightarrow> nat comp" where
  "emit_test_jump src jump_if_truthy =
     thn (emit (TESTSET (of_nat NO_REG) (of_nat src) (\<not> jump_if_truthy))) emit_unfilled_jmp"

fun flipped :: "instruction \<Rightarrow> instruction option" where
  "flipped (LT l r neg) = Some (LT l r (\<not> neg))"
| "flipped (LE l r neg) = Some (LE l r (\<not> neg))"
| "flipped (EQ l r neg) = Some (EQ l r (\<not> neg))"
| "flipped (TEST s neg) = Some (TEST s (\<not> neg))"
| "flipped (TESTSET d s neg) = Some (TESTSET d s (\<not> neg))"
| "flipped _ = None"

definition flip_control_polarity :: "nat \<Rightarrow> unit comp" where
  "flip_control_polarity j =
     (if j = 0 then give ()
      else ctrl_of j (\<lambda>ins. step (or_panic (flipped ins)) (set_instr (j - 1))))"

definition codenot :: "expr_desc \<Rightarrow> expr_kind \<Rightarrow> expr_desc comp" where
  "codenot e k =
     thn (downgrade_testsets (ed_true e)) (
     thn (downgrade_testsets (ed_false e)) (
     give \<lparr>ed_kind = k, ed_true = ed_false e, ed_false = ed_true e\<rparr>))"

definition negate_cond :: "expr_desc \<Rightarrow> expr_desc comp" where
  "negate_cond e =
     thn (check (pending e = None)) (
     thn (each flip_control_polarity (ed_true e @ ed_false e)) (
     give (e\<lparr>ed_true := ed_false e, ed_false := ed_true e\<rparr>)))"

section \<open>Constants\<close>

fun same_constant :: "lua_value \<Rightarrow> lua_value \<Rightarrow> bool" where
  "same_constant VNil VNil = True"
| "same_constant (VBool a) (VBool b) = (a = b)"
| "same_constant (VInt a) (VInt b) = (a = b)"
| "same_constant (VFloat a) (VFloat b) = (a = b)"
| "same_constant (VStr a) (VStr b) = (a = b)"
| "same_constant _ _ = False"

fun position :: "('a \<Rightarrow> bool) \<Rightarrow> 'a list \<Rightarrow> nat option" where
  "position p [] = None"
| "position p (x # xs) = (if p x then Some 0 else map_option Suc (position p xs))"

definition alloc_constant :: "lua_value \<Rightarrow> nat comp" where
  "alloc_constant v = reading (\<lambda>c. ck_constants (cx_chunk c)) (\<lambda>ks.
     case position (\<lambda>k. same_constant k v) ks of
       Some i \<Rightarrow> give (as16 i)
     | None \<Rightarrow>
         if 2 ^ 16 - 1 \<le> length ks then fail Constants
         else thn (upd_chunk (\<lambda>c. c\<lparr>ck_constants := ck_constants c @ [v]\<rparr>)) (give (length ks)))"

definition alloc_string_constant :: "bytes \<Rightarrow> nat comp" where
  "alloc_string_constant b = alloc_constant (VStr b)"

definition alloc_field_key :: "bytes \<Rightarrow> (nat \<times> nat) comp" where
  "alloc_field_key b =
     step (alloc_constant (VStr b)) (\<lambda>k.
     reading cx_chunk (\<lambda>c. case alloc_ic_slot c of (ic, c') \<Rightarrow>
     thn (upd_chunk (\<lambda>_. c')) (give (k, ic))))"

fun numeral_to_value :: "numeral \<Rightarrow> lua_value" where
  "numeral_to_value (NInt i) = VInt i"
| "numeral_to_value (NFloat f) = VFloat f"

fun const_kind_to_value :: "expr_kind \<Rightarrow> lua_value option" where
  "const_kind_to_value (KNumeral n) = Some (numeral_to_value n)"
| "const_kind_to_value (KBool b) = Some (VBool b)"
| "const_kind_to_value KNil = Some VNil"
| "const_kind_to_value _ = None"

section \<open>Discharge\<close>

text \<open>
  A constant kind loaded into a register. The descriptor is returned with the register, as the
  argument of \<open>discharge_to_reg_mut\<close> is changed in place.
\<close>

definition load_constant :: "expr_desc \<Rightarrow> nat option \<Rightarrow> expr_desc comp" where
  "load_constant e hint = (case const_kind_to_value (ed_kind e) of
      None \<Rightarrow> give e
    | Some v \<Rightarrow>
        step (alloc_constant v) (\<lambda>k.
        step (dst_or_alloc hint) (\<lambda>dst.
        thn (emit (LOAD (of_nat dst) (of_nat k))) (
        give (e\<lparr>ed_kind := KReg dst\<rparr>)))))"

definition discharge_dst :: "expr_kind \<Rightarrow> nat option \<Rightarrow> nat comp" where
  "discharge_dst k hint = (case k of
      KReg r \<Rightarrow>
        reading nactvar (\<lambda>n.
        case hint of
          Some h \<Rightarrow>
            if h \<noteq> r then
              step (dst_or_alloc (Some h)) (\<lambda>_.
              thn (emit (MOVE (of_nat h) (of_nat r))) (give h))
            else give r
        | None \<Rightarrow>
            if r < n then
              step reserve_reg (\<lambda>fresh.
              thn (emit (MOVE (of_nat fresh) (of_nat r))) (give fresh))
            else give r)
    | KJump _ \<Rightarrow> dst_or_alloc hint
    | _ \<Rightarrow> panic)"

definition absorb_head :: "expr_desc \<Rightarrow> expr_desc" where
  "absorb_head e = (case take_pending e of
      (Some i, e') \<Rightarrow> e'\<lparr>ed_true := ed_true e' @ [i]\<rparr>
    | (None, e') \<Rightarrow> e')"

text \<open>The fixup tail: \<open>LFALSESKIP\<close>, then true; the two targets.\<close>

definition emit_tail :: "bool \<Rightarrow> nat \<Rightarrow> (nat \<times> nat) comp" where
  "emit_tail need dst =
     (if need then
        reading next_offset (\<lambda>ft.
        thn (emit (LFALSESKIP (of_nat dst))) (
        reading next_offset (\<lambda>tt.
        step (alloc_constant (VBool True)) (\<lambda>k.
        thn (emit (LOAD (of_nat dst) (of_nat k))) (give (ft, tt))))))
      else give (0, 0))"

definition resolve_jumps :: "expr_desc \<Rightarrow> bool \<Rightarrow> nat \<Rightarrow> unit comp" where
  "resolve_jumps e is_jump dst =
     step (need_value (ed_false e)) (\<lambda>nf.
     step (if nf then give True else need_value (ed_true e)) (\<lambda>need.
     step (if \<not> is_jump \<and> need then step emit_unfilled_jmp (\<lambda>i. give (Some i)) else give None) (\<lambda>skip.
     step (emit_tail need dst) (\<lambda>(ft, tt).
     reading next_offset (\<lambda>final.
     thn (patch_list_aux (ed_false e) final dst ft) (
     thn (patch_list_aux (ed_true e) final dst tt) (
     case skip of None \<Rightarrow> give () | Some i \<Rightarrow> reading next_offset (\<lambda>end. retarget end i))))))))"

fun is_jump_kind :: "expr_kind \<Rightarrow> bool" where
  "is_jump_kind (KJump _) = True"
| "is_jump_kind _ = False"

definition discharge_to_reg :: "expr_desc \<Rightarrow> nat option \<Rightarrow> (nat \<times> expr_desc) comp" where
  "discharge_to_reg e hint =
     (case (ed_kind e, has_jumps e) of
        (KReg r, False) \<Rightarrow> give (r, e)
      | _ \<Rightarrow>
          step (load_constant e hint) (\<lambda>e1.
          case (const_kind_to_value (ed_kind e), ed_kind e1, has_jumps e1) of
            (Some _, KReg r, False) \<Rightarrow> give (r, e1)
          | _ \<Rightarrow>
              step (discharge_dst (ed_kind e1) hint) (\<lambda>dst.
              let e2 = absorb_head e1 in
              thn (if has_jumps e2 then resolve_jumps e2 (is_jump_kind (ed_kind e1)) dst else give ()) (
              give (dst, from_reg dst)))))"

definition discharge_reg :: "expr_desc \<Rightarrow> nat option \<Rightarrow> nat comp" where
  "discharge_reg e hint = step (discharge_to_reg e hint) (\<lambda>(r, _). give r)"

text \<open>The common part of \<open>goiftrue\<close> and \<open>goiffalse\<close> for a value in a register.\<close>

definition test_reg :: "nat \<Rightarrow> bool \<Rightarrow> nat comp" where
  "test_reg r jump_if_truthy = thn (free_reg r) (emit_test_jump r jump_if_truthy)"

fun falsy_kind :: "expr_kind \<Rightarrow> bool" where
  "falsy_kind (KBool b) = (\<not> b)"
| "falsy_kind KNil = True"
| "falsy_kind _ = False"

fun truthy_kind :: "expr_kind \<Rightarrow> bool" where
  "truthy_kind (KNumeral _) = True"
| "truthy_kind (KBool b) = b"
| "truthy_kind _ = False"

definition goiftrue :: "expr_desc \<Rightarrow> expr_desc comp" where
  "goiftrue e =
     (if truthy_kind (ed_kind e) then give e
      else
        step (if falsy_kind (ed_kind e) then step (discharge_to_reg e None) (\<lambda>(_, e'). give e') else give e) (\<lambda>e1.
        case ed_kind e1 of
          KJump (Some i) \<Rightarrow>
            thn (flip_control_polarity i) (
            give (e1\<lparr>ed_kind := KJump None, ed_false := ed_false e1 @ [i]\<rparr>))
        | KJump None \<Rightarrow>
            if ed_false e1 = [] \<and> ed_true e1 \<noteq> [] then negate_cond e1 else give e1
        | KReg r \<Rightarrow>
            step (test_reg r False) (\<lambda>j. give (e1\<lparr>ed_false := ed_false e1 @ [j]\<rparr>))
        | _ \<Rightarrow> panic))"

definition goiffalse :: "expr_desc \<Rightarrow> expr_desc comp" where
  "goiffalse e =
     (if falsy_kind (ed_kind e) then give e
      else
        step (if truthy_kind (ed_kind e) then step (discharge_to_reg e None) (\<lambda>(_, e'). give e') else give e) (\<lambda>e1.
        case ed_kind e1 of
          KJump (Some i) \<Rightarrow> give (e1\<lparr>ed_kind := KJump None, ed_true := ed_true e1 @ [i]\<rparr>)
        | KJump None \<Rightarrow>
            if ed_true e1 = [] \<and> ed_false e1 \<noteq> [] then negate_cond e1 else give e1
        | KReg r \<Rightarrow>
            step (test_reg r True) (\<lambda>j. give (e1\<lparr>ed_true := ed_true e1 @ [j]\<rparr>))
        | _ \<Rightarrow> panic))"

section \<open>Scopes\<close>

definition push_scope :: "unit comp" where
  "push_scope = update (\<lambda>c. c\<lparr>cx_scope := (\<lambda>_. None) # cx_scope c,
     cx_scope_marks := (freereg c, nactvar c) # cx_scope_marks c,
     cx_scope_close := [] # cx_scope_close c, cx_scope_globals := cx_globals c # cx_scope_globals c\<rparr>)"

definition pop_scope :: "nat list comp" where
  "pop_scope = reading id (\<lambda>c.
     case (cx_scope c, cx_scope_marks c, cx_scope_globals c, cx_scope_close c) of
       (_ # scopes, (f, n) # marks, g # globals, close # closes) \<Rightarrow>
         thn (update (\<lambda>c. c\<lparr>cx_scope := scopes, cx_scope_marks := marks,
             cx_chunk := (cx_chunk c)\<lparr>ck_freereg := f, ck_nactvar := n\<rparr>,
             cx_globals := g, cx_scope_globals := globals, cx_scope_close := closes\<rparr>)) (
         give close)
     | _ \<Rightarrow> fail (Internal ''missing scope''))"

definition mark_close :: "nat \<Rightarrow> unit comp" where
  "mark_close r = reading cx_scope_close (\<lambda>cs. case cs of
      [] \<Rightarrow> fail (Internal ''missing scope close list'')
    | c # rest \<Rightarrow> update (\<lambda>x. x\<lparr>cx_scope_close := (c @ [r]) # rest\<rparr>))"

definition define_name :: "name \<Rightarrow> nat \<Rightarrow> var_kind \<Rightarrow> unit comp" where
  "define_name x r k = reading cx_scope (\<lambda>ss. case ss of
      [] \<Rightarrow> fail (Internal ''missing scope'')
    | m # rest \<Rightarrow> update (\<lambda>c. c\<lparr>cx_scope := m(x \<mapsto> \<lparr>vd_register = r, vd_kind = k\<rparr>) # rest\<rparr>))"

fun lookup_scopes :: "(name \<Rightarrow> variable_data option) list \<Rightarrow> name \<Rightarrow> variable_data option" where
  "lookup_scopes [] x = None"
| "lookup_scopes (m # ms) x = (case m x of Some d \<Rightarrow> Some d | None \<Rightarrow> lookup_scopes ms x)"

definition resolve_local :: "ctx \<Rightarrow> name \<Rightarrow> variable_data option" where
  "resolve_local c x = lookup_scopes (cx_scope c) x"

section \<open>Upvalues\<close>

datatype child_resolution = CRConst const_val | CRUpvalue upvalue_descriptor

datatype resolved_name = RNConst const_val | RNUpvalue nat

definition upvalue_index :: "ctx \<Rightarrow> name \<Rightarrow> nat option" where
  "upvalue_index c x = position (\<lambda>(n, _). n = x) (cx_upvalues c)"

definition push_upvalue :: "name \<Rightarrow> upvalue_descriptor \<Rightarrow> ctx \<Rightarrow> ctx" where
  "push_upvalue x d c = c\<lparr>cx_upvalues := cx_upvalues c @ [(x, d)]\<rparr>"

text \<open>The named vararg is captured.\<close>

definition mark_captured :: "var_kind \<Rightarrow> ctx \<Rightarrow> ctx" where
  "mark_captured k c = (if k = VKVarargParam then
     c\<lparr>cx_chunk := (cx_chunk c)\<lparr>ck_vararg_info :=
       map_option (\<lambda>i. i\<lparr>va_captured := True\<rparr>) (ck_vararg_info (cx_chunk c))\<rparr>\<rparr> else c)"

text \<open>The first of the list is the function asked, the rest the functions around it.\<close>

fun resolve_for_child :: "name \<Rightarrow> ctx list \<Rightarrow> child_resolution option \<times> ctx list" where
  "resolve_for_child x [] = (None, [])"
| "resolve_for_child x (c # ps) = (case resolve_local c x of
      Some d \<Rightarrow>
        (case vd_kind d of
           VKGlobal \<Rightarrow> (None, c # ps)
         | VKConst (Some v) \<Rightarrow> (Some (CRConst v), c # ps)
         | k \<Rightarrow> (Some (CRUpvalue (ParentLocal (of_nat (vd_register d)))), mark_captured k c # ps))
    | None \<Rightarrow>
        (case upvalue_index c x of
           Some i \<Rightarrow> (Some (CRUpvalue (ParentUpvalue (of_nat i))), c # ps)
         | None \<Rightarrow>
             (case resolve_for_child x ps of
                (None, ps') \<Rightarrow> (None, c # ps')
              | (Some (CRConst v), ps') \<Rightarrow> (Some (CRConst v), c # ps')
              | (Some (CRUpvalue d), ps') \<Rightarrow>
                  (Some (CRUpvalue (ParentUpvalue (of_nat (length (cx_upvalues c))))), push_upvalue x d c # ps'))))"

definition resolve_or_capture :: "name \<Rightarrow> resolved_name option comp" where
  "resolve_or_capture x = (\<lambda>s.
     case upvalue_index (st_ctx s) x of
       Some i \<Rightarrow> ok (Some (RNUpvalue (as8 i)), s)
     | None \<Rightarrow>
         (case resolve_for_child x (st_parents s) of
            (None, ps) \<Rightarrow> ok (None, s\<lparr>st_parents := ps\<rparr>)
          | (Some (CRConst v), ps) \<Rightarrow> ok (Some (RNConst v), s\<lparr>st_parents := ps\<rparr>)
          | (Some (CRUpvalue d), ps) \<Rightarrow>
              ok (Some (RNUpvalue (as8 (length (cx_upvalues (st_ctx s))))),
                s\<lparr>st_parents := ps, st_ctx := push_upvalue x d (st_ctx s)\<rparr>)))"

definition env_name :: name where "env_name = ascii ''_ENV''"

definition resolve_env_upvalue :: "nat option comp" where
  "resolve_env_upvalue = step (resolve_or_capture env_name) (\<lambda>r. case r of
      None \<Rightarrow> give None
    | Some (RNUpvalue i) \<Rightarrow> give (Some i)
    | Some (RNConst _) \<Rightarrow> panic)"

definition env_upvalue :: "nat comp" where
  "env_upvalue = step resolve_env_upvalue (\<lambda>r. or_fail r (Internal ''_ENV must resolve; main chunk pre-seeds it''))"

end
