(* ===== verification/CompExpr.thy ===== *)
theory CompExpr
  imports CompCtx
begin

text \<open>
  \<open>compiler/rules.rs\<close>: constant folding and the compilation of function bodies and expressions. The
  functions of the source call each other recursively through \<open>compile_expr\<close>, \<open>compile_stmt\<close> and, in the
  last place of a list, the two kinds of call; here these are the fields of a record every function
  takes, which \<open>Compiler\<close> ties together. \<open>powf\<close> is the platform's library function.
\<close>

record compiler =
  rc_expr :: "expr \<Rightarrow> nat option \<Rightarrow> expr_desc comp"
  rc_call :: "expr \<Rightarrow> want \<Rightarrow> nat list comp"
  rc_stmt :: "stmt \<Rightarrow> unit comp"
  rc_powf :: "f64 \<Rightarrow> f64 \<Rightarrow> f64"

definition compile_to_reg :: "compiler \<Rightarrow> expr \<Rightarrow> nat option \<Rightarrow> nat comp" where
  "compile_to_reg r e dst = step (rc_expr r e dst) (\<lambda>d. discharge_reg d dst)"

section \<open>Constant folding\<close>

definition value_to_numeral :: "lua_value \<Rightarrow> numeral option" where
  "value_to_numeral v = (case get_integer v of
      Some i \<Rightarrow> Some (NInt i)
    | None \<Rightarrow> map_option NFloat (get_float v))"

fun numeral_is_int_convertible :: "numeral \<Rightarrow> bool" where
  "numeral_is_int_convertible (NInt _) = True"
| "numeral_is_int_convertible (NFloat f) = (exact_float_to_int f \<noteq> None)"

fun numeral_is_zero :: "numeral \<Rightarrow> bool" where
  "numeral_is_zero (NInt i) = (i = 0)"
| "numeral_is_zero (NFloat f) = f64_eq f 0"

fun arith_of :: "binary_operator \<Rightarrow> arith_op option" where
  "arith_of OpAdd = Some Add"
| "arith_of OpSub = Some Sub"
| "arith_of OpMul = Some Mul"
| "arith_of OpDiv = Some Div"
| "arith_of OpIntDiv = Some IDiv"
| "arith_of OpMod = Some Mod"
| "arith_of OpExp = Some Pow"
| "arith_of _ = None"

fun bit_of :: "binary_operator \<Rightarrow> bit_op option" where
  "bit_of OpBitAnd = Some BAnd"
| "bit_of OpBitOr = Some BOr"
| "bit_of OpBitXor = Some BXor"
| "bit_of OpLShift = Some Shl"
| "bit_of OpRShift = Some Shr"
| "bit_of _ = None"

text \<open>The outer \<open>None\<close> is a panic of the operator, the inner one a fold that is refused.\<close>

definition try_fold_binop ::
  "(f64 \<Rightarrow> f64 \<Rightarrow> f64) \<Rightarrow> binary_operator \<Rightarrow> numeral \<Rightarrow> numeral \<Rightarrow> numeral option option" where
  "try_fold_binop powf opr lhs rhs =
     (if bit_of opr \<noteq> None \<and> (\<not> numeral_is_int_convertible lhs \<or> \<not> numeral_is_int_convertible rhs) then Some None
      else if opr \<in> {OpDiv, OpIntDiv, OpMod} \<and> numeral_is_zero rhs then Some None
      else
        (let lv = numeral_to_value lhs; rv = numeral_to_value rhs in
         do {
           result \<leftarrow> (case (arith_of opr, bit_of opr) of
               (Some a, _) \<Rightarrow> Some (op_arith powf a lv rv)
             | (_, Some b) \<Rightarrow> op_bit b lv rv
             | _ \<Rightarrow> Some None);
           case result of
             None \<Rightarrow> Some None
           | Some v \<Rightarrow>
               (case get_float v of
                  Some f \<Rightarrow> if is_nan f \<or> f64_eq f 0 then Some None else Some (value_to_numeral v)
                | None \<Rightarrow> Some (value_to_numeral v))
         }))"

section \<open>Function bodies\<close>

definition ctx_new :: "bool \<Rightarrow> nat \<Rightarrow> (name \<times> upvalue_descriptor) list \<Rightarrow> global_env \<Rightarrow> ctx" where
  "ctx_new is_vararg arity upvalues globals =
     \<lparr>cx_chunk = chunk_new\<lparr>ck_is_vararg := is_vararg, ck_arity := arity\<rparr>, cx_control_end_label = [],
      cx_scope = [], cx_scope_marks = [], cx_scope_close = [], cx_goto_labels = (\<lambda>_. None),
      cx_upvalues = upvalues, cx_globals = globals, cx_scope_globals = []\<rparr>"

definition bind_param :: "name \<Rightarrow> unit comp" where
  "bind_param x = step alloc_register (\<lambda>r. define_name x r VKReg)"

definition bind_vararg :: "nat \<Rightarrow> name \<Rightarrow> unit comp" where
  "bind_vararg num_params x =
     step alloc_register (\<lambda>r.
     thn (define_name x r VKVarargParam) (
     step (add8 num_params 1) (\<lambda>n.
     thn (adjust_locals n) (
     upd_chunk (\<lambda>c. c\<lparr>ck_vararg_info := Some \<lparr>va_used_as_non_base = False, va_captured = False\<rparr>\<rparr>)))))"

fun materialised :: "instruction \<Rightarrow> instruction" where
  "materialised (VARARGGET dst base key) = GETTABLE dst base key"
| "materialised ins = ins"

definition finish_vararg :: "chunk \<Rightarrow> chunk" where
  "finish_vararg c = (case ck_vararg_info c of
      Some i \<Rightarrow> if needs_table i then c\<lparr>ck_tape := map materialised (ck_tape c)\<rparr> else c
    | None \<Rightarrow> c)"

fun is_terminator :: "instruction \<Rightarrow> bool" where
  "is_terminator (RETURN _ _) = True"
| "is_terminator (TAILCALL _ _) = True"
| "is_terminator _ = False"

definition needs_return :: "chunk \<Rightarrow> bool" where
  "needs_return c \<longleftrightarrow> length (ck_tape c) \<le> ck_last_target c
     \<or> ck_tape c = [] \<or> \<not> is_terminator (List.last (ck_tape c))"

definition close_at_end :: "nat list \<Rightarrow> unit comp" where
  "close_at_end regs = (case regs of
      [] \<Rightarrow> give ()
    | r # _ \<Rightarrow> reading tape (\<lambda>t.
        if t = [] then panic
        else upd_chunk (\<lambda>c. c\<lparr>ck_tape := butlast t @ [CLOSE (of_nat r), List.last t]\<rparr>)))"

text \<open>\<open>compile_function_to_chunk\<close>, in the fresh context that its caller installs.\<close>

definition compile_function_to_chunk ::
  "compiler \<Rightarrow> stmt list \<Rightarrow> name list \<Rightarrow> bool \<Rightarrow> name option \<Rightarrow> nat \<Rightarrow> chunk comp" where
  "compile_function_to_chunk r stmts params is_vararg vararg_name arity =
     thn push_scope (
     thn (if is_vararg then emit (VARARGPREP (of_nat arity)) else give ()) (
     thn (each bind_param params) (
     thn (adjust_locals (length params)) (
     thn (case vararg_name of Some x \<Rightarrow> bind_vararg (length params) x | None \<Rightarrow> give ()) (
     thn (each (rc_stmt r) stmts) (
     thn (upd_chunk finish_vararg) (
     reading cx_chunk (\<lambda>c.
     thn (if needs_return c then emit (RETURN 0 1) else give ()) (
     step pop_scope (\<lambda>close.
     thn (close_at_end close) (
     reading id (\<lambda>c. give ((cx_chunk c)\<lparr>ck_upvalue_desc := map snd (cx_upvalues c)\<rparr>)))))))))))))"

definition enter_function :: "ctx \<Rightarrow> unit comp" where
  "enter_function c = (\<lambda>s. ok ((), s\<lparr>st_ctx := c, st_parents := st_ctx s # st_parents s\<rparr>))"

definition leave_function :: "unit comp" where
  "leave_function = (\<lambda>s. case st_parents s of
      [] \<Rightarrow> None
    | p # ps \<Rightarrow> ok ((), s\<lparr>st_ctx := p, st_parents := ps\<rparr>))"

definition alloc_proto :: "chunk \<Rightarrow> addr comp" where
  "alloc_proto c = step (or_panic (assemble c)) (\<lambda>p s.
     ok (length (st_protos s), s\<lparr>st_protos := st_protos s @ [p]\<rparr>))"

definition compile_nested :: "compiler \<Rightarrow> stmt list \<Rightarrow> name list \<Rightarrow> bool \<Rightarrow> name option \<Rightarrow> nat \<Rightarrow> addr comp" where
  "compile_nested r stmts params is_vararg vararg_name arity =
     reading cx_globals (\<lambda>globals.
     thn (enter_function (ctx_new is_vararg arity [] globals)) (
     step (compile_function_to_chunk r stmts params is_vararg vararg_name arity) (\<lambda>chunk.
     thn leave_function (alloc_proto chunk))))"

text \<open>\<open>compile_func_body\<close> and \<open>compile_expr_func\<close>, which do the same for the two kinds of node.\<close>

definition compile_func_body :: "compiler \<Rightarrow> func_body \<Rightarrow> nat option \<Rightarrow> nat comp" where
  "compile_func_body r body dst = (case body of FuncBody params vararg stmts \<Rightarrow>
     step (compile_nested r stmts params (vararg \<noteq> None) (case vararg of Some x \<Rightarrow> x | None \<Rightarrow> None)
       (as8 (length params))) (\<lambda>proto.
     reading (\<lambda>c. as16 (length (ck_prototypes (cx_chunk c)))) (\<lambda>i.
     thn (upd_chunk (\<lambda>c. c\<lparr>ck_prototypes := ck_prototypes c @ [proto]\<rparr>)) (
     step (dst_or_alloc dst) (\<lambda>d.
     thn (emit (CLOSURE (of_nat d) (of_nat i))) (give d))))))"

section \<open>Names and literals\<close>

definition use_as_value :: "var_kind \<Rightarrow> unit comp" where
  "use_as_value k = (if k = VKVarargParam then
     upd_chunk (\<lambda>c. c\<lparr>ck_vararg_info := map_option (\<lambda>i. i\<lparr>va_used_as_non_base := True\<rparr>) (ck_vararg_info c)\<rparr>)
   else give ())"

definition compile_global_read :: "name \<Rightarrow> nat option \<Rightarrow> expr_desc comp" where
  "compile_global_read x dst = reading cx_globals (\<lambda>g.
     if ge_decls g x = None \<and> ge_default g = NoDefault then fail (UndeclaredGlobal x)
     else
       step (alloc_field_key x) (\<lambda>(key, ic).
       step (dst_or_alloc dst) (\<lambda>d.
       step env_upvalue (\<lambda>env.
       thn (emit (GETTABUP (of_nat d) (of_nat env) (of_nat ic) (of_nat key))) (
       give (from_reg d))))))"

definition compile_free_name :: "name \<Rightarrow> nat option \<Rightarrow> expr_desc comp" where
  "compile_free_name x dst = step (resolve_or_capture x) (\<lambda>res. case res of
      Some (RNConst v) \<Rightarrow> give (const_to_desc v)
    | Some (RNUpvalue i) \<Rightarrow>
        step (dst_or_alloc dst) (\<lambda>d.
        thn (emit (GETUPVAL (of_nat d) (of_nat i))) (give (from_reg d)))
    | None \<Rightarrow> compile_global_read x dst)"

definition compile_expr_ident :: "name \<Rightarrow> nat option \<Rightarrow> expr_desc comp" where
  "compile_expr_ident x dst = reading (\<lambda>c. resolve_local c x) (\<lambda>l. case l of
      Some d \<Rightarrow>
        (case vd_kind d of
           VKGlobal \<Rightarrow> compile_global_read x dst
         | VKConst (Some v) \<Rightarrow> give (const_to_desc v)
         | k \<Rightarrow> thn (use_as_value k) (give (from_reg (vd_register d))))
    | None \<Rightarrow> compile_free_name x dst)"

definition compile_expr_literal :: "literal_value \<Rightarrow> nat option \<Rightarrow> expr_desc comp" where
  "compile_expr_literal v dst = (case v of
      LitInt n \<Rightarrow> give (from_numeral (NInt n))
    | LitFloat f \<Rightarrow> give (from_numeral (NFloat f))
    | LitBool b \<Rightarrow> give (from_bool b)
    | LitNil \<Rightarrow> give from_nil
    | LitString b \<Rightarrow>
        step (alloc_constant (VStr b)) (\<lambda>k.
        step (dst_or_alloc dst) (\<lambda>d.
        thn (emit (LOAD (of_nat d) (of_nat k))) (give (from_reg d)))))"

section \<open>Calls\<close>

text \<open>
  Calls are compiled with the number of results wanted; a call in the last place of a list is open
  ended. The result of \<open>compile_trailing_multires\<close> says whether the expression was.
\<close>

definition finish_call :: "nat \<Rightarrow> nat \<Rightarrow> want \<Rightarrow> nat list comp" where
  "finish_call func args w = (case w of
      Exact n \<Rightarrow>
        step (add8 n 1) (\<lambda>returns.
        thn (emit (CALL (of_nat func) (of_nat args) (of_nat returns))) (
        step (add8 func n) (\<lambda>top.
        thn (set_freereg top) (give [func..<top]))))
    | MultRet \<Rightarrow> thn (emit (CALL (of_nat func) (of_nat args) 0)) (give []))"

text \<open>The value of \<open>e\<close> moved to \<open>target\<close>, which is allocated if it was not.\<close>

definition move_up :: "nat \<Rightarrow> nat \<Rightarrow> unit comp" where
  "move_up target src =
     (if src \<noteq> target then thn (alloc_to (target + 1)) (emit (MOVE (of_nat target) (of_nat src))) else give ())"

definition compile_into :: "compiler \<Rightarrow> expr \<Rightarrow> nat \<Rightarrow> unit comp" where
  "compile_into r e target = step (compile_to_reg r e (Some target)) (move_up target)"

definition compile_trailing_multires :: "compiler \<Rightarrow> expr \<Rightarrow> nat \<Rightarrow> bool comp" where
  "compile_trailing_multires r e target = (case e of
      ECall _ _ \<Rightarrow> thn (alloc_to target) (step (rc_call r e MultRet) (\<lambda>_. give True))
    | EMethod _ _ _ \<Rightarrow> thn (alloc_to target) (step (rc_call r e MultRet) (\<lambda>_. give True))
    | EVarArg \<Rightarrow>
        thn (alloc_to (target + 1)) (
        thn (emit (VARARG (of_nat target) 0)) (give True))
    | _ \<Rightarrow> thn (compile_into r e target) (give False))"

text \<open>The arguments from the \<open>i\<close>-th on; whether the last was open ended.\<close>

fun call_args_loop :: "compiler \<Rightarrow> nat \<Rightarrow> nat \<Rightarrow> nat \<Rightarrow> expr list \<Rightarrow> bool comp" where
  "call_args_loop r func offset i [] = give False"
| "call_args_loop r func offset i (e # es) =
     step (add8 func offset) (\<lambda>b.
     step (add8 b (as8 i)) (\<lambda>target.
     if es = [] then compile_trailing_multires r e target
     else thn (compile_into r e target) (call_args_loop r func offset (i + 1) es)))"

definition compile_call_args :: "compiler \<Rightarrow> expr list \<Rightarrow> nat \<Rightarrow> nat \<Rightarrow> nat comp" where
  "compile_call_args r args func offset =
     step (add8 (as8 (length args)) (offset - 1)) (\<lambda>total.
     step (call_args_loop r func offset 0 args) (\<lambda>open.
     if open then give 0 else add8 total 1))"

definition emit_func_call_setup :: "compiler \<Rightarrow> expr \<Rightarrow> expr list \<Rightarrow> (nat \<times> nat) comp" where
  "emit_func_call_setup r target args =
     step (compile_to_reg r target None) (\<lambda>f.
     reading (\<lambda>c. (freereg c, nactvar c)) (\<lambda>(free, nact).
     step (add8 f 1) (\<lambda>f1.
     step (if f1 \<noteq> free \<or> f < nact then
         step alloc_register (\<lambda>top. thn (emit (MOVE (of_nat top) (of_nat f))) (give top))
       else give f) (\<lambda>func.
     step (compile_call_args r args func 1) (\<lambda>wire.
     thn (check (wire = 0 \<or> wire = length args + 1)) (give (func, wire)))))))"

definition emit_method_call_setup :: "compiler \<Rightarrow> expr \<Rightarrow> name \<Rightarrow> expr list \<Rightarrow> (nat \<times> nat) comp" where
  "emit_method_call_setup r object method args =
     step (compile_to_reg r object None) (\<lambda>ob.
     step (alloc_string_constant method) (\<lambda>key.
     step alloc_register (\<lambda>func.
     thn (emit (SELF (of_nat func) (of_nat ob) (of_nat key))) (
     step (add8 func 1) (\<lambda>self.
     thn (alloc_to (self + 1)) (
     step (compile_call_args r args func 2) (\<lambda>wire. give (func, wire))))))))"

definition compile_expr_func_call :: "compiler \<Rightarrow> expr \<Rightarrow> expr list \<Rightarrow> want \<Rightarrow> nat list comp" where
  "compile_expr_func_call r target args w =
     step (emit_func_call_setup r target args) (\<lambda>(func, wire). finish_call func wire w)"

definition compile_expr_method_call :: "compiler \<Rightarrow> expr \<Rightarrow> name \<Rightarrow> expr list \<Rightarrow> want \<Rightarrow> nat list comp" where
  "compile_expr_method_call r object method args w =
     step (emit_method_call_setup r object method args) (\<lambda>(func, wire). finish_call func wire w)"

definition compile_call :: "compiler \<Rightarrow> expr \<Rightarrow> want \<Rightarrow> nat list comp" where
  "compile_call r e w = (case e of
      ECall f args \<Rightarrow> compile_expr_func_call r f args w
    | EMethod ob m args \<Rightarrow> compile_expr_method_call r ob m args w
    | _ \<Rightarrow> panic)"

text \<open>A call wanted for one value.\<close>

definition call_value :: "nat list comp \<Rightarrow> expr_desc comp" where
  "call_value m = step m (\<lambda>regs. step (or_panic (idx regs 0)) (\<lambda>d. give (from_reg d)))"

section \<open>Tables\<close>

definition flush_array :: "nat \<Rightarrow> nat \<Rightarrow> nat \<Rightarrow> nat \<Rightarrow> unit comp" where
  "flush_array dst base count pend =
     (if 0 < pend then
        thn (emit (SETLIST (of_nat dst) (of_nat pend) (of_nat (count - pend)))) (set_freereg base)
      else give ())"

definition is_multires :: "expr \<Rightarrow> bool" where
  "is_multires e = (case e of ECall _ _ \<Rightarrow> True | EMethod _ _ _ \<Rightarrow> True | EVarArg \<Rightarrow> True | _ \<Rightarrow> False)"

text \<open>An entry of the array part compiled into its slot, flushed when 50 are waiting.\<close>

definition compile_array_entry :: "compiler \<Rightarrow> nat \<Rightarrow> nat \<Rightarrow> expr \<Rightarrow> nat \<Rightarrow> nat \<Rightarrow> (nat \<times> nat) comp" where
  "compile_array_entry r dst base e count pend =
     step (add8 base pend) (\<lambda>slot.
     step (compile_to_reg r e (Some slot)) (\<lambda>v.
     thn (if v \<noteq> slot then
         thn (alloc_to (slot + 1)) (
         thn (emit (MOVE (of_nat slot) (of_nat v))) (
         free_reg v))
       else give ()) (
     step (add16 count 1) (\<lambda>count'.
     if 50 \<le> pend + 1 then thn (flush_array dst base count' (pend + 1)) (give (count', 0))
     else give (count', pend + 1)))))"

definition compile_last_entry :: "compiler \<Rightarrow> nat \<Rightarrow> nat \<Rightarrow> expr \<Rightarrow> nat \<Rightarrow> nat \<Rightarrow> (nat \<times> nat) comp" where
  "compile_last_entry r dst base e count pend =
     step (add8 base pend) (\<lambda>slot.
     step (compile_trailing_multires r e slot) (\<lambda>_.
     thn (emit (SETLIST (of_nat dst) 0 (of_nat (count - pend)))) (
     thn (set_freereg base) (give (count, 0)))))"

definition compile_map_entry :: "compiler \<Rightarrow> nat \<Rightarrow> name \<Rightarrow> expr \<Rightarrow> unit comp" where
  "compile_map_entry r dst x e =
     step (alloc_field_key x) (\<lambda>(key, ic).
     step (compile_to_reg r e None) (\<lambda>v.
     thn (emit (SETFIELD (of_nat v) (of_nat dst) (of_nat ic) (of_nat key))) (free_reg v)))"

definition compile_generic_entry :: "compiler \<Rightarrow> nat \<Rightarrow> expr \<Rightarrow> expr \<Rightarrow> unit comp" where
  "compile_generic_entry r dst ek ev =
     step (compile_to_reg r ek None) (\<lambda>k.
     step (compile_to_reg r ev None) (\<lambda>v.
     thn (emit (SETTABLE (of_nat v) (of_nat dst) (of_nat k))) (free_regs v k)))"

fun table_entries :: "compiler \<Rightarrow> nat \<Rightarrow> nat \<Rightarrow> table_entry list \<Rightarrow> nat \<times> nat \<Rightarrow> unit comp" where
  "table_entries r dst base [] (count, pend) = flush_array dst base count pend"
| "table_entries r dst base (TArray e # es) (count, pend) =
     step (if es = [] \<and> is_multires e then compile_last_entry r dst base e count pend
       else compile_array_entry r dst base e count pend) (table_entries r dst base es)"
| "table_entries r dst base (TMap x e # es) (count, pend) =
     thn (flush_array dst base count pend) (
     thn (compile_map_entry r dst x e) (table_entries r dst base es (count, 0)))"
| "table_entries r dst base (TGeneric ek ev # es) (count, pend) =
     thn (flush_array dst base count pend) (
     thn (compile_generic_entry r dst ek ev) (table_entries r dst base es (count, 0)))"

definition compile_expr_table :: "compiler \<Rightarrow> table_entry list \<Rightarrow> nat comp" where
  "compile_expr_table r entries =
     step alloc_register (\<lambda>dst.
     thn (emit (NEWTABLE (of_nat dst))) (
     reading freereg (\<lambda>base.
     thn (table_entries r dst base entries (0, 0)) (give dst))))"

section \<open>Indexing\<close>

text \<open>An instruction whose operands are released before its result register is taken.\<close>

definition emit_into :: "nat option \<Rightarrow> (nat \<Rightarrow> instruction) \<Rightarrow> nat comp" where
  "emit_into dst ins = step (dst_or_alloc dst) (\<lambda>d. thn (emit (ins d)) (give d))"

definition resolve_vararg_base :: "ctx \<Rightarrow> expr \<Rightarrow> nat option" where
  "resolve_vararg_base c e = (case e of
      EIdent x \<Rightarrow>
        (case resolve_local c x of
           Some d \<Rightarrow> if vd_kind d = VKVarargParam then Some (vd_register d) else None
         | None \<Rightarrow> None)
    | _ \<Rightarrow> None)"

definition compile_expr_index :: "compiler \<Rightarrow> expr \<Rightarrow> expr \<Rightarrow> nat option \<Rightarrow> nat comp" where
  "compile_expr_index r target key dst = reading (\<lambda>c. resolve_vararg_base c target) (\<lambda>va. case va of
      Some args \<Rightarrow>
        step (compile_to_reg r key None) (\<lambda>k.
        thn (free_reg k) (
        emit_into dst (\<lambda>d. VARARGGET (of_nat d) (of_nat args) (of_nat k))))
    | None \<Rightarrow>
        step (compile_to_reg r target None) (\<lambda>t.
        step (compile_to_reg r key None) (\<lambda>k.
        thn (free_regs t k) (
        emit_into dst (\<lambda>d. GETTABLE (of_nat d) (of_nat t) (of_nat k))))))"

definition compile_property_key :: "compiler \<Rightarrow> expr \<Rightarrow> nat option \<Rightarrow> nat comp" where
  "compile_property_key r field dst = (case field of
      EIdent x \<Rightarrow>
        step (alloc_string_constant x) (\<lambda>k. emit_into dst (\<lambda>d. LOAD (of_nat d) (of_nat k)))
    | _ \<Rightarrow> compile_to_reg r field dst)"

definition try_property_key_constant :: "expr \<Rightarrow> (nat \<times> nat) option comp" where
  "try_property_key_constant field = (case field of
      EIdent x \<Rightarrow> step (alloc_field_key x) (\<lambda>k. give (Some k))
    | _ \<Rightarrow> give None)"

definition compile_property :: "compiler \<Rightarrow> expr \<Rightarrow> expr \<Rightarrow> nat option \<Rightarrow> nat comp" where
  "compile_property r target field dst = reading (\<lambda>c. resolve_vararg_base c target) (\<lambda>va. case va of
      Some args \<Rightarrow>
        (case field of
           EIdent x \<Rightarrow>
             step (alloc_string_constant x) (\<lambda>key.
             step alloc_register (\<lambda>k.
             thn (emit (LOAD (of_nat k) (of_nat key))) (
             thn (free_reg k) (
             emit_into dst (\<lambda>d. VARARGGET (of_nat d) (of_nat args) (of_nat k))))))
         | _ \<Rightarrow> fail (Internal ''vararg property without static key''))
    | None \<Rightarrow>
        step (compile_to_reg r target None) (\<lambda>t.
        step (try_property_key_constant field) (\<lambda>fk. case fk of
          Some (key, ic) \<Rightarrow>
            thn (free_reg t) (
            emit_into dst (\<lambda>d. GETFIELD (of_nat d) (of_nat t) (of_nat ic) (of_nat key)))
        | None \<Rightarrow>
            step (compile_property_key r field None) (\<lambda>k.
            thn (free_regs t k) (
            emit_into dst (\<lambda>d. GETTABLE (of_nat d) (of_nat t) (of_nat k)))))))"

section \<open>Operators\<close>

fun fold_prefix :: "prefix_operator \<Rightarrow> expr_kind \<Rightarrow> expr_desc option" where
  "fold_prefix PreNeg (KNumeral (NInt n)) = Some (from_numeral (NInt (- n)))"
| "fold_prefix PreNeg (KNumeral (NFloat f)) = Some (from_numeral (NFloat (f64_neg f)))"
| "fold_prefix PreBitNot (KNumeral (NInt n)) = Some (from_numeral (NInt (NOT n)))"
| "fold_prefix PreBitNot (KNumeral (NFloat f)) =
     map_option (\<lambda>i. from_numeral (NInt (NOT i))) (exact_float_to_int f)"
| "fold_prefix PreNot (KNumeral _) = Some (from_bool False)"
| "fold_prefix PreNot (KBool b) = Some (from_bool (\<not> b))"
| "fold_prefix PreNot KNil = Some (from_bool True)"
| "fold_prefix _ _ = None"

definition compile_not :: "expr_desc \<Rightarrow> nat option \<Rightarrow> expr_desc comp" where
  "compile_not e dst = (case ed_kind e of
      KJump (Some i) \<Rightarrow> thn (flip_control_polarity i) (codenot e (KJump (Some i)))
    | KJump None \<Rightarrow> fail (Internal ''not on Jump-kind ExprDesc with no pending head'')
    | KReg src \<Rightarrow>
        thn (free_reg src) (
        step (emit_into dst (\<lambda>d. LNOT (of_nat d) (of_nat src))) (\<lambda>d. codenot e (KReg d)))
    | k \<Rightarrow> codenot e (KBool (falsy_kind k)))"

definition compile_expr_prefix_op :: "compiler \<Rightarrow> prefix_operator \<Rightarrow> expr \<Rightarrow> nat option \<Rightarrow> expr_desc comp" where
  "compile_expr_prefix_op r opr rhs dst =
     step (rc_expr r rhs None) (\<lambda>e.
     case (if has_jumps e then None else fold_prefix opr (ed_kind e)) of
       Some e' \<Rightarrow> give e'
     | None \<Rightarrow>
         if opr = PreNot then compile_not e dst
         else
           step (discharge_reg e None) (\<lambda>src.
           let unary = (\<lambda>ins. thn (free_reg src) (emit_into dst (\<lambda>d. ins (of_nat d) (of_nat src)))) in
           step (case opr of
               PreNeg \<Rightarrow> unary UNM
             | PreLen \<Rightarrow> unary LEN
             | PreBitNot \<Rightarrow> unary BNOT
             | _ \<Rightarrow> give src) (\<lambda>d. give (from_reg d))))"

fun binary_instr :: "binary_operator \<Rightarrow> (u8 \<Rightarrow> u8 \<Rightarrow> u8 \<Rightarrow> instruction) option" where
  "binary_instr OpAdd = Some ADD"
| "binary_instr OpSub = Some SUB"
| "binary_instr OpMul = Some MUL"
| "binary_instr OpDiv = Some DIV"
| "binary_instr OpIntDiv = Some IDIV"
| "binary_instr OpMod = Some MOD"
| "binary_instr OpExp = Some POW"
| "binary_instr OpBitAnd = Some BAND"
| "binary_instr OpBitOr = Some BOR"
| "binary_instr OpBitXor = Some BXOR"
| "binary_instr OpLShift = Some SHL"
| "binary_instr OpRShift = Some SHR"
| "binary_instr OpConcat = Some CONCAT"
| "binary_instr _ = None"

text \<open>The numerals of two operands that are both constant and without jumps.\<close>

fun both_numerals :: "expr_desc \<Rightarrow> expr_desc \<Rightarrow> (numeral \<times> numeral) option" where
  "both_numerals l r = (case (ed_kind l, ed_kind r) of
      (KNumeral a, KNumeral b) \<Rightarrow> if \<not> has_jumps l \<and> \<not> has_jumps r then Some (a, b) else None
    | _ \<Rightarrow> None)"

fun is_lazy_numeral :: "expr_desc \<Rightarrow> bool" where
  "is_lazy_numeral e = ((case ed_kind e of KNumeral _ \<Rightarrow> True | _ \<Rightarrow> False) \<and> \<not> has_jumps e)"

definition discharge_operands :: "bool \<Rightarrow> expr_desc \<Rightarrow> expr_desc \<Rightarrow> (nat \<times> nat) comp" where
  "discharge_operands rhs_first l r =
     (if rhs_first then
        step (discharge_reg r None) (\<lambda>rr. step (discharge_reg l None) (\<lambda>lr. give (lr, rr)))
      else
        step (discharge_reg l None) (\<lambda>lr. step (discharge_reg r None) (\<lambda>rr. give (lr, rr))))"

definition compile_arith :: "compiler \<Rightarrow> binary_operator \<Rightarrow> expr \<Rightarrow> expr \<Rightarrow> nat option \<Rightarrow> expr_desc comp" where
  "compile_arith r opr lhs rhs dst =
     step (rc_expr r lhs None) (\<lambda>l0.
     let early = (opr = OpConcat \<or> \<not> is_lazy_numeral l0) in
     step (if early then step (discharge_to_reg l0 None) (\<lambda>(_, l). give l) else give l0) (\<lambda>l.
     step (rc_expr r rhs None) (\<lambda>rd.
     step (or_panic (case both_numerals l rd of
         Some (a, b) \<Rightarrow> try_fold_binop (rc_powf r) opr a b | None \<Rightarrow> Some None)) (\<lambda>folded.
     case folded of
       Some n \<Rightarrow> give (from_numeral n)
     | None \<Rightarrow>
         step (discharge_operands (\<not> early \<and> has_jumps rd) l rd) (\<lambda>(lr, rr).
         step (or_panic (binary_instr opr)) (\<lambda>ins.
         thn (free_regs lr rr) (
         step (emit_into dst (\<lambda>d. ins (of_nat d) (of_nat lr) (of_nat rr))) (\<lambda>d. give (from_reg d)))))))))"

fun comparison_instr :: "binary_operator \<Rightarrow> u8 \<Rightarrow> u8 \<Rightarrow> instruction option" where
  "comparison_instr OpEq l r = Some (EQ l r True)"
| "comparison_instr OpNEq l r = Some (EQ l r False)"
| "comparison_instr OpLt l r = Some (LT l r True)"
| "comparison_instr OpGt l r = Some (LT r l True)"
| "comparison_instr OpLEq l r = Some (LE l r True)"
| "comparison_instr OpGEq l r = Some (LE r l True)"
| "comparison_instr _ _ _ = None"

definition compile_comparison_desc :: "compiler \<Rightarrow> binary_operator \<Rightarrow> expr \<Rightarrow> expr \<Rightarrow> expr_desc comp" where
  "compile_comparison_desc r opr lhs rhs =
     step (compile_to_reg r lhs None) (\<lambda>lr.
     step (compile_to_reg r rhs None) (\<lambda>rr.
     step (or_fail (comparison_instr opr (of_nat lr) (of_nat rr))
       (Internal ''compile_comparison_desc called with non-comparison op'')) (\<lambda>ins.
     thn (emit ins) (
     step emit_unfilled_jmp (\<lambda>j.
     thn (free_regs lr rr) (
     give (plain (KJump (Some j)))))))))"

definition compile_logical_and_desc :: "compiler \<Rightarrow> expr \<Rightarrow> expr \<Rightarrow> nat option \<Rightarrow> expr_desc comp" where
  "compile_logical_and_desc r lhs rhs dst =
     step (rc_expr r lhs dst) (\<lambda>l0.
     step (goiftrue l0) (\<lambda>l.
     thn (patch_to_here (ed_true l)) (
     step (rc_expr r rhs dst) (\<lambda>rd.
     give (rd\<lparr>ed_false := ed_false rd @ ed_false l\<rparr>)))))"

definition compile_logical_or_desc :: "compiler \<Rightarrow> expr \<Rightarrow> expr \<Rightarrow> nat option \<Rightarrow> expr_desc comp" where
  "compile_logical_or_desc r lhs rhs dst =
     step (rc_expr r lhs dst) (\<lambda>l0.
     step (goiffalse l0) (\<lambda>l.
     thn (patch_to_here (ed_false l)) (
     step (rc_expr r rhs dst) (\<lambda>rd.
     give (rd\<lparr>ed_true := ed_true rd @ ed_true l\<rparr>)))))"

definition is_comparison :: "binary_operator \<Rightarrow> bool" where
  "is_comparison opr \<longleftrightarrow> opr \<in> {OpEq, OpNEq, OpLt, OpGt, OpLEq, OpGEq}"

definition compile_expr_binary_op ::
  "compiler \<Rightarrow> binary_operator \<Rightarrow> expr \<Rightarrow> expr \<Rightarrow> nat option \<Rightarrow> expr_desc comp" where
  "compile_expr_binary_op r opr lhs rhs dst =
     (if is_comparison opr then compile_comparison_desc r opr lhs rhs
      else if opr = OpAnd then compile_logical_and_desc r lhs rhs dst
      else if opr = OpOr then compile_logical_or_desc r lhs rhs dst
      else if opr = OpProperty then step (compile_property r lhs rhs dst) (\<lambda>d. give (from_reg d))
      else if opr = OpMethod then fail (Internal ''method operator in binary expression'')
      else compile_arith r opr lhs rhs dst)"

section \<open>Expressions\<close>

definition compile_expr :: "compiler \<Rightarrow> expr \<Rightarrow> nat option \<Rightarrow> expr_desc comp" where
  "compile_expr r e dst = (case e of
      EPrefix opr x \<Rightarrow> compile_expr_prefix_op r opr x dst
    | EBinary opr a b \<Rightarrow> compile_expr_binary_op r opr a b dst
    | EMethod ob m args \<Rightarrow> call_value (compile_expr_method_call r ob m args (Exact 1))
    | EIdent x \<Rightarrow> compile_expr_ident x dst
    | ELiteral v \<Rightarrow> compile_expr_literal v dst
    | EFunc body \<Rightarrow> step (compile_func_body r body dst) (\<lambda>d. give (from_reg d))
    | ETable entries \<Rightarrow> step (compile_expr_table r entries) (\<lambda>d. give (from_reg d))
    | ECall f args \<Rightarrow> call_value (compile_expr_func_call r f args (Exact 1))
    | EIndex t k \<Rightarrow> step (compile_expr_index r t k dst) (\<lambda>d. give (from_reg d))
    | EVarArg \<Rightarrow> step (emit_into dst (\<lambda>d. VARARG (of_nat d) 2)) (\<lambda>d. give (from_reg d))
    | EParen inner \<Rightarrow> rc_expr r inner dst)"

end
