(* ===== verification/CompStmt.thy ===== *)
theory CompStmt
  imports CompExpr
begin

text \<open>
  \<open>compiler/rules.rs\<close>: the compilation of statements.
\<close>

section \<open>Scopes\<close>

definition scope_lexical :: "unit comp \<Rightarrow> unit comp" where
  "scope_lexical body =
     thn push_scope (
     thn body (
     step pop_scope (\<lambda>close. case close of
       [] \<Rightarrow> give ()
     | first # _ \<Rightarrow> emit (CLOSE (of_nat first)))))"

definition scope_break :: "unit comp \<Rightarrow> unit comp" where
  "scope_break body =
     step new_label (\<lambda>l.
     thn (update (\<lambda>c. c\<lparr>cx_control_end_label := l # cx_control_end_label c\<rparr>)) (
     thn body (
     thn (set_label_here l) (
     update (\<lambda>c. c\<lparr>cx_control_end_label := tl (cx_control_end_label c)\<rparr>)))))"

definition scope_lexical_break :: "unit comp \<Rightarrow> unit comp" where
  "scope_lexical_break body = scope_lexical (scope_break body)"

definition compile_block :: "compiler \<Rightarrow> stmt list \<Rightarrow> unit comp" where
  "compile_block r stmts = each (rc_stmt r) stmts"

definition compile_do :: "compiler \<Rightarrow> stmt list \<Rightarrow> unit comp" where
  "compile_do r stmts = scope_lexical (compile_block r stmts)"

section \<open>Labels\<close>

definition name_label :: "name \<Rightarrow> nat \<Rightarrow> unit comp" where
  "name_label x l = update (\<lambda>c. c\<lparr>cx_goto_labels := (cx_goto_labels c)(x \<mapsto> l)\<rparr>)"

definition compile_label :: "name \<Rightarrow> unit comp" where
  "compile_label x = reading (\<lambda>c. cx_goto_labels c x) (\<lambda>known. case known of
      Some l \<Rightarrow> set_label_here l
    | None \<Rightarrow> step new_label (\<lambda>l. thn (set_label_here l) (name_label x l)))"

definition compile_goto :: "name \<Rightarrow> unit comp" where
  "compile_goto x = reading (\<lambda>c. cx_goto_labels c x) (\<lambda>known. case known of
      Some l \<Rightarrow> emit_jump l
    | None \<Rightarrow> step new_label (\<lambda>l. thn (name_label x l) (emit_jump l)))"

section \<open>Local declarations\<close>

definition compile_local_func :: "compiler \<Rightarrow> name \<Rightarrow> func_body \<Rightarrow> unit comp" where
  "compile_local_func r x body =
     step alloc_register (\<lambda>d.
     thn (define_name x d VKReg) (
     thn (adjust_locals 1) (
     step (compile_func_body r body (Some d)) (\<lambda>f.
     if f \<noteq> d then emit (MOVE (of_nat d) (of_nat f)) else give ()))))"

text \<open>The value in \<open>rg\<close> brought to the slot \<open>expected\<close>, the temporaries above it dropped.\<close>

definition settle_value :: "nat \<Rightarrow> nat \<Rightarrow> unit comp" where
  "settle_value expected rg =
     (if rg \<noteq> expected then
        thn (set_freereg expected) (
        step reserve_reg (\<lambda>slot.
        thn (check (slot = expected)) (
        emit (MOVE (of_nat slot) (of_nat rg)))))
      else
        step (add8 expected 1) (\<lambda>top.
        reading freereg (\<lambda>f. if top < f then set_freereg top else give ())))"

definition expand_method_call :: "compiler \<Rightarrow> expr \<Rightarrow> nat \<Rightarrow> nat \<Rightarrow> unit comp" where
  "expand_method_call r call base n =
     step (rc_call r call (Exact n)) (\<lambda>regs.
     step (or_panic (idx regs 0)) (\<lambda>landed.
     if landed \<noteq> base then
       thn (check (base < landed)) (
       thn (each (\<lambda>k. emit (MOVE (of_nat (base + k)) (of_nat (landed + k)))) [0..<n]) (
       step (add8 base n) set_freereg))
     else give ()))"

definition expand_call :: "compiler \<Rightarrow> expr \<Rightarrow> nat \<Rightarrow> nat \<Rightarrow> unit comp" where
  "expand_call r call base n =
     step (rc_call r call (Exact n)) (\<lambda>regs.
     step (or_panic (idx regs 0)) (\<lambda>landed. check (landed = base)))"

definition expand_vararg :: "nat \<Rightarrow> nat \<Rightarrow> unit comp" where
  "expand_vararg base n =
     step (reserve_regs n) (\<lambda>dst.
     thn (check (dst = base)) (
     step (add8 n 1) (\<lambda>count. emit (VARARG (of_nat dst) (of_nat count)))))"

text \<open>One value of a \<open>local\<close> declaration, and its constant.\<close>

definition compile_decl_value :: "compiler \<Rightarrow> expr \<Rightarrow> nat \<Rightarrow> const_val option comp" where
  "compile_decl_value r e expected =
     step (rc_expr r e None) (\<lambda>d.
     step (discharge_reg d None) (\<lambda>rg.
     thn (settle_value expected rg) (
     give (if has_jumps d then None else const_of_kind (ed_kind d)))))"

text \<open>
  The values from the \<open>i\<close>-th on, of \<open>m\<close> in all for \<open>n\<close> targets, into the slots from \<open>base\<close>; the constants
  of the first \<open>n\<close>, as far as they are known.
\<close>

fun decl_values :: "compiler \<Rightarrow> nat \<Rightarrow> nat \<Rightarrow> nat \<Rightarrow> nat \<Rightarrow> expr list \<Rightarrow> const_val option list comp" where
  "decl_values r base n m i [] = give []"
| "decl_values r base n m i (e # es) =
     step (add8 base (as8 i)) (\<lambda>expected.
     if es = [] \<and> m < n \<and> is_multires e then
       thn (case e of
           EVarArg \<Rightarrow> expand_vararg expected (as8 (n - i))
         | EMethod _ _ _ \<Rightarrow> expand_method_call r e expected (as8 (n - i))
         | _ \<Rightarrow> expand_call r e expected (as8 (n - i))) (give [None])
     else
       step (compile_decl_value r e expected) (\<lambda>k.
       step (decl_values r base n m (i + 1) es) (\<lambda>ks. give (k # ks))))"

text \<open>The loop that fills the slots below \<open>top\<close> with nil.\<close>

function pad_nil :: "nat \<Rightarrow> nat \<Rightarrow> unit comp" where
  "pad_nil f stop =
     (if f < stop then
        step reserve_reg (\<lambda>slot.
        step (alloc_constant VNil) (\<lambda>k.
        thn (emit (LOAD (of_nat slot) (of_nat k))) (pad_nil (f + 1) stop)))
      else give ())"
  by auto
termination by (relation "measure (\<lambda>(f, stop). stop - f)") auto

declare pad_nil.simps [simp del]

text \<open>
  The constant of the target \<open>i\<close>: that of its value, nil for a slot the padding filled. \<open>f\<close> is the
  cursor before the padding.
\<close>

definition target_const :: "nat \<Rightarrow> nat \<Rightarrow> const_val option list \<Rightarrow> nat \<Rightarrow> const_val option" where
  "target_const base f ks i =
     (if f \<le> base + i then Some CVNil else if i < length ks then ks ! i else None)"

fun bind_targets :: "nat \<Rightarrow> (nat \<Rightarrow> const_val option) \<Rightarrow> nat \<Rightarrow> (name \<times> decl_modifier option) list \<Rightarrow> unit comp" where
  "bind_targets base k i [] = give ()"
| "bind_targets base k i ((x, md) # ts) =
     step (add8 base (as8 i)) (\<lambda>rg.
     thn (if md = Some ModClose then thn (emit (TBC (of_nat rg))) (mark_close rg) else give ()) (
     thn (define_name x rg (case md of
         Some ModConst \<Rightarrow> VKConst (k i) | Some ModClose \<Rightarrow> VKToClose | None \<Rightarrow> VKReg)) (
     bind_targets base k (i + 1) ts)))"

definition compile_decl :: "compiler \<Rightarrow> (name \<times> decl_modifier option) list \<Rightarrow> expr list \<Rightarrow> unit comp" where
  "compile_decl r targets values =
     reading freereg (\<lambda>base.
     step (decl_values r base (length targets) (length values) 0 values) (\<lambda>ks.
     step (add8 base (as8 (length targets))) (\<lambda>top.
     reading freereg (\<lambda>f.
     thn (pad_nil f top) (
     thn (bind_targets base (target_const base f ks) 0 targets) (
     adjust_locals (as8 (length targets))))))))"

section \<open>Global declarations\<close>

definition expand_count :: "nat \<Rightarrow> nat comp" where
  "expand_count n = (if 255 \<le> n then fail Registers else give n)"

definition upd_globals :: "(global_env \<Rightarrow> global_env) \<Rightarrow> unit comp" where
  "upd_globals f = update (\<lambda>c. c\<lparr>cx_globals := f (cx_globals c)\<rparr>)"

definition declare_global :: "name \<Rightarrow> global_kind \<Rightarrow> unit comp" where
  "declare_global x k =
     thn (upd_globals (\<lambda>g. g\<lparr>ge_decls := (ge_decls g)(x \<mapsto> k)\<rparr>)) (
     define_name x 0 VKGlobal)"

text \<open>The guard that the variable is nil, and the assignment.\<close>

definition emit_global_init :: "nat \<Rightarrow> nat \<Rightarrow> nat \<Rightarrow> nat \<Rightarrow> unit comp" where
  "emit_global_init src env key ic =
     step alloc_register (\<lambda>guard.
     thn (emit (GETTABUP (of_nat guard) (of_nat env) (of_nat ic) (of_nat key))) (
     thn (emit (ERRNNIL (of_nat guard) (of_nat key))) (
     thn (emit (SETTABUP (of_nat src) (of_nat env) (of_nat ic) (of_nat key))) (
     free_reg guard))))"

definition compile_global_func :: "compiler \<Rightarrow> name \<Rightarrow> func_body \<Rightarrow> unit comp" where
  "compile_global_func r x body =
     thn (upd_globals void_preamble) (
     thn (declare_global x GReg) (
     step alloc_register (\<lambda>target.
     step (compile_func_body r body (Some target)) (\<lambda>f.
     thn (check (f = target)) (
     step (alloc_field_key x) (\<lambda>(key, ic).
     step env_upvalue (\<lambda>env.
     thn (emit_global_init f env key ic) (free_reg target))))))))"

fun global_values :: "compiler \<Rightarrow> nat \<Rightarrow> nat \<Rightarrow> nat \<Rightarrow> nat \<Rightarrow> expr list \<Rightarrow> unit comp" where
  "global_values r base n m i [] = give ()"
| "global_values r base n m i (e # es) =
     step (add8 base (as8 i)) (\<lambda>expected.
     if es = [] \<and> m < n \<and> is_multires e then
       step (expand_count (n - i)) (\<lambda>k.
       case e of
         EVarArg \<Rightarrow> expand_vararg expected k
       | EMethod _ _ _ \<Rightarrow> expand_method_call r e expected k
       | _ \<Rightarrow> expand_call r e expected k)
     else
       step (compile_to_reg r e None) (\<lambda>rg.
       thn (settle_value expected rg) (global_values r base n m (i + 1) es)))"

fun emit_global_inits :: "nat \<Rightarrow> nat \<Rightarrow> nat \<Rightarrow> name list \<Rightarrow> unit comp" where
  "emit_global_inits base env i [] = give ()"
| "emit_global_inits base env i (x # xs) =
     step (alloc_field_key x) (\<lambda>(key, ic).
     step (add8 base (as8 i)) (\<lambda>src.
     thn (emit_global_init src env key ic) (emit_global_inits base env (i + 1) xs)))"

definition global_value_block :: "compiler \<Rightarrow> nat \<Rightarrow> nat \<Rightarrow> expr list \<Rightarrow> unit comp" where
  "global_value_block r base n values =
     thn (global_values r base n (length values) 0 values) (
     step (add8 base (as8 n)) (\<lambda>top.
     reading freereg (\<lambda>f.
     thn (pad_nil f top) (
     if n < length values then set_freereg top else give ()))))"

definition compile_global_list :: "compiler \<Rightarrow> bool \<Rightarrow> (name \<times> bool) list \<Rightarrow> expr list \<Rightarrow> unit comp" where
  "compile_global_list r default_const targets values =
     reading freereg (\<lambda>base.
     thn (if values \<noteq> [] then global_value_block r base (length targets) values else give ()) (
     thn (upd_globals void_preamble) (
     thn (each (\<lambda>(x, const). declare_global x (if const \<or> default_const then GConst else GReg)) targets) (
     if values = [] then give ()
     else
       step env_upvalue (\<lambda>env.
       thn (emit_global_inits base env 0 (map fst targets)) (set_freereg base))))))"

definition compile_global_star :: "bool \<Rightarrow> unit comp" where
  "compile_global_star default_const =
     upd_globals (\<lambda>g. g\<lparr>ge_default := Star (if default_const then GConst else GReg)\<rparr>)"

section \<open>Assignment\<close>

datatype lvalue =
    LVLocal nat
  | LVUpvalue nat
  | LVGlobal nat nat nat
  | LVIndexed nat nat
  | LVField nat nat nat

definition compile_global_lvalue :: "name \<Rightarrow> lvalue comp" where
  "compile_global_lvalue x = reading cx_globals (\<lambda>g.
     let ok_to_write =
       step (alloc_field_key x) (\<lambda>(key, ic).
       step env_upvalue (\<lambda>env. give (LVGlobal env key ic)))
     in case ge_decls g x of
       Some GConst \<Rightarrow> fail (ConstGlobalAssign x)
     | Some GReg \<Rightarrow> ok_to_write
     | None \<Rightarrow>
         (case ge_default g of
            NoDefault \<Rightarrow> fail (UndeclaredGlobal x)
          | Star GConst \<Rightarrow> fail (ConstGlobalAssign x)
          | _ \<Rightarrow> ok_to_write))"

definition const_assignment :: compile_error where
  "const_assignment = Internal ''assignment to const variable''"

definition compile_name_lvalue :: "name \<Rightarrow> lvalue comp" where
  "compile_name_lvalue x = reading (\<lambda>c. resolve_local c x) (\<lambda>l. case l of
      Some d \<Rightarrow>
        if vd_kind d = VKGlobal then compile_global_lvalue x
        else if is_const (vd_kind d) then fail const_assignment
        else give (LVLocal (vd_register d))
    | None \<Rightarrow>
        step (resolve_or_capture x) (\<lambda>res. case res of
          Some (RNConst _) \<Rightarrow> fail const_assignment
        | Some (RNUpvalue i) \<Rightarrow> give (LVUpvalue i)
        | None \<Rightarrow> compile_global_lvalue x))"

definition compile_indexed_subexpr :: "compiler \<Rightarrow> expr \<Rightarrow> nat list \<Rightarrow> nat comp" where
  "compile_indexed_subexpr r e local_regs =
     step (compile_to_reg r e None) (\<lambda>rg.
     if rg \<notin> set local_regs then give rg
     else
       step alloc_register (\<lambda>temp.
       thn (emit (MOVE (of_nat temp) (of_nat rg))) (give temp)))"

definition compile_lvalue :: "compiler \<Rightarrow> expr \<Rightarrow> nat list \<Rightarrow> lvalue comp" where
  "compile_lvalue r target local_regs = (case target of
      EIdent x \<Rightarrow> compile_name_lvalue x
    | EIndex t k \<Rightarrow>
        step (compile_indexed_subexpr r t local_regs) (\<lambda>tr.
        step (compile_indexed_subexpr r k local_regs) (\<lambda>kr. give (LVIndexed tr kr)))
    | EBinary opr t f \<Rightarrow>
        if opr = OpProperty then
          step (compile_indexed_subexpr r t local_regs) (\<lambda>tr.
          step (try_property_key_constant f) (\<lambda>fk. case fk of
            Some (key, ic) \<Rightarrow> give (LVField tr key ic)
          | None \<Rightarrow> step (compile_property_key r f None) (\<lambda>kr. give (LVIndexed tr kr))))
        else fail (Internal ''non-property binop as assignment target'')
    | _ \<Rightarrow> fail (Internal ''invalid assignment target''))"

definition target_local_reg :: "ctx \<Rightarrow> expr \<Rightarrow> nat option" where
  "target_local_reg c e = (case e of
      EIdent x \<Rightarrow>
        (case resolve_local c x of
           Some d \<Rightarrow> if vd_kind d = VKGlobal \<or> is_const (vd_kind d) then None else Some (vd_register d)
         | None \<Rightarrow> None)
    | _ \<Rightarrow> None)"

fun local_dst :: "lvalue \<Rightarrow> nat option" where
  "local_dst (LVLocal d) = Some d"
| "local_dst _ = None"

definition reads_name :: "ctx \<Rightarrow> name \<Rightarrow> nat \<Rightarrow> bool" where
  "reads_name c x rg = (case resolve_local c x of
      Some d \<Rightarrow> vd_kind d \<noteq> VKGlobal \<and> vd_register d = rg
    | None \<Rightarrow> False)"

fun expr_reads :: "ctx \<Rightarrow> nat \<Rightarrow> expr \<Rightarrow> bool"
  and entry_reads :: "ctx \<Rightarrow> nat \<Rightarrow> table_entry \<Rightarrow> bool" where
  "expr_reads c rg (ELiteral _) = False"
| "expr_reads c rg EVarArg = False"
| "expr_reads c rg (EFunc _) = False"
| "expr_reads c rg (EIdent x) = reads_name c x rg"
| "expr_reads c rg (EPrefix _ e) = expr_reads c rg e"
| "expr_reads c rg (EBinary opr a b) =
     (expr_reads c rg a \<or> (opr \<noteq> OpProperty \<and> opr \<noteq> OpMethod \<and> expr_reads c rg b))"
| "expr_reads c rg (EIndex t k) = (expr_reads c rg t \<or> expr_reads c rg k)"
| "expr_reads c rg (ECall f args) = (expr_reads c rg f \<or> list_ex (expr_reads c rg) args)"
| "expr_reads c rg (EMethod ob _ args) = (expr_reads c rg ob \<or> list_ex (expr_reads c rg) args)"
| "expr_reads c rg (ETable entries) = list_ex (entry_reads c rg) entries"
| "expr_reads c rg (EParen e) = expr_reads c rg e"
| "entry_reads c rg (TArray e) = expr_reads c rg e"
| "entry_reads c rg (TMap _ e) = expr_reads c rg e"
| "entry_reads c rg (TGeneric k v) = (expr_reads c rg k \<or> expr_reads c rg v)"

definition any_reads :: "ctx \<Rightarrow> expr list \<Rightarrow> nat \<Rightarrow> bool" where
  "any_reads c es rg = list_ex (expr_reads c rg) es"

definition emit_store :: "lvalue \<Rightarrow> nat \<Rightarrow> unit comp" where
  "emit_store lv src = (case lv of
      LVLocal d \<Rightarrow> if d \<noteq> src then emit (MOVE (of_nat d) (of_nat src)) else give ()
    | LVUpvalue i \<Rightarrow> emit (SETUPVAL (of_nat src) (of_nat i))
    | LVGlobal env key ic \<Rightarrow> emit (SETTABUP (of_nat src) (of_nat env) (of_nat ic) (of_nat key))
    | LVIndexed t k \<Rightarrow> emit (SETTABLE (of_nat src) (of_nat t) (of_nat k))
    | LVField t key ic \<Rightarrow> emit (SETFIELD (of_nat src) (of_nat t) (of_nat ic) (of_nat key)))"

fun compile_lvalues :: "compiler \<Rightarrow> nat list \<Rightarrow> expr list \<Rightarrow> lvalue list comp" where
  "compile_lvalues r regs [] = give []"
| "compile_lvalues r regs (t # ts) =
     step (compile_lvalue r t regs) (\<lambda>lv.
     step (compile_lvalues r regs ts) (\<lambda>lvs. give (lv # lvs)))"

text \<open>The hint of each value: its target's register, when no later value reads it.\<close>

fun assign_hints :: "ctx \<Rightarrow> lvalue list \<Rightarrow> expr list \<Rightarrow> nat option list option" where
  "assign_hints c lvs [] = Some []"
| "assign_hints c [] (e # es) = None"
| "assign_hints c (lv # lvs) (e # es) = do {
     hs \<leftarrow> assign_hints c lvs es;
     Some ((case local_dst lv of Some d \<Rightarrow> if any_reads c es d then None else Some d | None \<Rightarrow> None) # hs)
   }"

text \<open>Pass 2: the sources of the stores still to be made, \<open>None\<close> for a value already in its target.\<close>

fun assign_values :: "compiler \<Rightarrow> nat \<Rightarrow> nat \<Rightarrow> nat option list \<Rightarrow> expr list \<Rightarrow> nat option list \<Rightarrow> nat option list comp" where
  "assign_values r n m hints [] pend = give pend"
| "assign_values r n m hints (e # es) pend =
     (if es = [] \<and> m < n \<and> (case e of ECall _ _ \<Rightarrow> True | _ \<Rightarrow> False) then
        step (rc_call r e (Exact (as8 (n - length pend)))) (\<lambda>regs. give (pend @ map Some regs))
      else
        step (compile_to_reg r e (hd hints)) (\<lambda>rg.
        assign_values r n m (tl hints) es (pend @ [if hd hints = Some rg then None else Some rg])))"

fun assign_nils :: "lvalue list \<Rightarrow> nat option list comp" where
  "assign_nils [] = give []"
| "assign_nils (lv # lvs) =
     step (alloc_constant VNil) (\<lambda>k.
     step (emit_into (local_dst lv) (\<lambda>d. LOAD (of_nat d) (of_nat k))) (\<lambda>rg.
     step (assign_nils lvs) (\<lambda>ps. give ((if local_dst lv = Some rg then None else Some rg) # ps))))"

text \<open>Pass 3: a source that an earlier store overwrites is saved; \<open>earlier\<close> are the registers stored before.\<close>

fun save_sources :: "nat option list \<Rightarrow> lvalue list \<Rightarrow> nat option list \<Rightarrow> nat option list comp" where
  "save_sources earlier (lv # lvs) (p # ps) =
     step (case p of
         Some src \<Rightarrow>
           if Some src \<in> set earlier then
             step alloc_register (\<lambda>temp.
             thn (emit (MOVE (of_nat temp) (of_nat src))) (give (Some temp)))
           else give p
       | None \<Rightarrow> give p) (\<lambda>p'.
     step (save_sources (local_dst lv # earlier) lvs ps) (\<lambda>ps'. give (p' # ps')))"
| "save_sources earlier [] ps = give ps"
| "save_sources earlier (lv # lvs) [] = panic"

definition emit_stores :: "(lvalue \<times> nat option) list \<Rightarrow> unit comp" where
  "emit_stores = each (\<lambda>(lv, p). case p of Some src \<Rightarrow> emit_store lv src | None \<Rightarrow> give ())"

definition compile_assign :: "compiler \<Rightarrow> expr list \<Rightarrow> expr list \<Rightarrow> unit comp" where
  "compile_assign r targets values =
     reading (\<lambda>c. (freereg c, List.map_filter (target_local_reg c) targets)) (\<lambda>(prior, regs).
     step (compile_lvalues r regs targets) (\<lambda>lvs.
     reading (\<lambda>c. assign_hints c lvs values) (\<lambda>h.
     step (or_panic h) (\<lambda>hints.
     step (assign_values r (length targets) (length values) hints values []) (\<lambda>pend.
     step (assign_nils (drop (length pend) lvs)) (\<lambda>nils.
     step (save_sources [] lvs (pend @ nils)) (\<lambda>srcs.
     thn (emit_stores (zip lvs srcs)) (
     reading freereg (\<lambda>f.
     thn (check (prior \<le> f)) (set_freereg prior))))))))))"

definition compile_assign_lhs :: "compiler \<Rightarrow> expr \<Rightarrow> nat \<Rightarrow> unit comp" where
  "compile_assign_lhs r target src =
     reading freereg (\<lambda>prior.
     step (compile_lvalue r target []) (\<lambda>lv.
     thn (emit_store lv src) (set_freereg prior)))"

definition compile_func :: "compiler \<Rightarrow> expr \<Rightarrow> func_body \<Rightarrow> unit comp" where
  "compile_func r target body =
     step (compile_func_body r body None) (\<lambda>f. compile_assign_lhs r target f)"

section \<open>Expression statements, break and return\<close>

definition compile_stmt_expr :: "compiler \<Rightarrow> expr \<Rightarrow> unit comp" where
  "compile_stmt_expr r e =
     (let call = (\<lambda>setup. step setup (\<lambda>(func, wire).
        thn (emit (CALL (of_nat func) (of_nat wire) 1)) (set_freereg func)))
      in case e of
        ECall f args \<Rightarrow> call (emit_func_call_setup r f args)
      | EMethod ob m args \<Rightarrow> call (emit_method_call_setup r ob m args)
      | _ \<Rightarrow>
          step (compile_to_reg r e None) (\<lambda>_.
          reading (\<lambda>c. (freereg c, nactvar c)) (\<lambda>(f, n).
          thn (check (n \<le> f)) (set_freereg n))))"

definition compile_break :: "unit comp" where
  "compile_break = reading cx_control_end_label (\<lambda>ls. case ls of
      [] \<Rightarrow> fail (Internal ''break outside of loop'')
    | l # _ \<Rightarrow> emit_jump l)"

definition compile_tail_call :: "(nat \<times> nat) comp \<Rightarrow> unit comp" where
  "compile_tail_call setup = step setup (\<lambda>(func, wire).
     thn (emit (TAILCALL (of_nat func) (of_nat wire))) (set_freereg func))"

text \<open>The values from the \<open>i\<close>-th on into the slots from \<open>first\<close>; whether the last was open ended.\<close>

fun return_values :: "compiler \<Rightarrow> nat \<Rightarrow> nat \<Rightarrow> expr list \<Rightarrow> bool comp" where
  "return_values r first i [] = give False"
| "return_values r first i (e # es) =
     step (add8 first (as8 i)) (\<lambda>target.
     if es = [] then compile_trailing_multires r e target
     else thn (compile_into r e target) (return_values r first (i + 1) es))"

definition compile_return_one :: "compiler \<Rightarrow> expr \<Rightarrow> unit comp" where
  "compile_return_one r e =
     step (rc_expr r e None) (\<lambda>d.
     case (ed_kind d, has_jumps d) of
       (KReg rg, False) \<Rightarrow> emit (RETURN (of_nat rg) 2)
     | _ \<Rightarrow>
         step alloc_register (\<lambda>first.
         step (discharge_reg d (Some first)) (\<lambda>rg.
         thn (if rg \<noteq> first then emit (MOVE (of_nat first) (of_nat rg)) else give ()) (
         emit (RETURN (of_nat first) 2)))))"

definition compile_return_generic :: "compiler \<Rightarrow> expr list \<Rightarrow> unit comp" where
  "compile_return_generic r exprs = (case exprs of
      [] \<Rightarrow> emit (RETURN 0 1)
    | [EVarArg] \<Rightarrow>
        step alloc_register (\<lambda>d.
        thn (emit (VARARG (of_nat d) 0)) (emit (RETURN (of_nat d) 0)))
    | [e] \<Rightarrow> compile_return_one r e
    | _ \<Rightarrow>
        step alloc_register (\<lambda>first.
        step (return_values r first 0 exprs) (\<lambda>multret.
        step (if multret then give 0 else add8 (as8 (length exprs)) 1) (\<lambda>count.
        emit (RETURN (of_nat first) (of_nat count))))))"

definition compile_return :: "compiler \<Rightarrow> expr list \<Rightarrow> unit comp" where
  "compile_return r exprs = (case exprs of
      [ECall f args] \<Rightarrow> compile_tail_call (emit_func_call_setup r f args)
    | [EMethod ob m args] \<Rightarrow> compile_tail_call (emit_method_call_setup r ob m args)
    | _ \<Rightarrow> compile_return_generic r exprs)"

section \<open>Control flow\<close>

definition compile_branch_cond_false :: "compiler \<Rightarrow> expr \<Rightarrow> jump_list comp" where
  "compile_branch_cond_false r cond =
     step (rc_expr r cond None) (\<lambda>d0.
     step (goiftrue d0) (\<lambda>d.
     thn (patch_to_here (ed_true d)) (
     give (ed_false d))))"

definition break_label :: "nat comp" where
  "break_label = reading cx_control_end_label (\<lambda>ls. case ls of
      [] \<Rightarrow> fail (Internal ''missing break label'')
    | l # _ \<Rightarrow> give l)"

definition compile_while :: "compiler \<Rightarrow> expr \<Rightarrow> stmt list \<Rightarrow> unit comp" where
  "compile_while r cond body = scope_lexical_break (
     step new_label (\<lambda>start.
     thn (set_label_here start) (
     step (compile_branch_cond_false r cond) (\<lambda>js.
     thn (compile_block r body) (
     thn (emit_jump start) (
     step break_label (\<lambda>l.
     thn (downgrade_testsets js) (
     each (\<lambda>j. add_patch j l) js))))))))"

definition compile_repeat :: "compiler \<Rightarrow> stmt list \<Rightarrow> expr \<Rightarrow> unit comp" where
  "compile_repeat r body cond = scope_break (scope_lexical (
     reading next_offset (\<lambda>start.
     thn (compile_block r body) (
     step (compile_branch_cond_false r cond) (\<lambda>js. patch_to js start)))))"

fun compile_if_chain :: "compiler \<Rightarrow> nat \<Rightarrow> expr \<Rightarrow> stmt list \<Rightarrow> else_chain \<Rightarrow> unit comp" where
  "compile_if_chain r l cond body NoElse =
     step (compile_branch_cond_false r cond) (\<lambda>js.
     thn (scope_lexical (compile_block r body)) (
     patch_to_here js))"
| "compile_if_chain r l cond body (ElseIf cond' body' chain) =
     step (compile_branch_cond_false r cond) (\<lambda>js.
     thn (scope_lexical (compile_block r body)) (
     thn (emit_jump l) (
     thn (patch_to_here js) (
     compile_if_chain r l cond' body' chain))))"
| "compile_if_chain r l cond body (Else stmts) =
     step (compile_branch_cond_false r cond) (\<lambda>js.
     thn (scope_lexical (compile_block r body)) (
     thn (emit_jump l) (
     thn (patch_to_here js) (
     scope_lexical (compile_block r stmts)))))"

definition compile_if :: "compiler \<Rightarrow> expr \<Rightarrow> stmt list \<Rightarrow> else_chain \<Rightarrow> unit comp" where
  "compile_if r cond body chain =
     step new_label (\<lambda>l.
     thn (compile_if_chain r l cond body chain) (set_label_here l))"

text \<open>A control value of a numeric loop.\<close>

definition control_value :: "compiler \<Rightarrow> expr \<Rightarrow> nat \<Rightarrow> unit comp" where
  "control_value r e rg =
     step (compile_to_reg r e (Some rg)) (\<lambda>v.
     if v \<noteq> rg then thn (emit (MOVE (of_nat rg) (of_nat v))) (free_reg v) else give ())"

definition compile_for_num :: "compiler \<Rightarrow> name \<Rightarrow> expr \<Rightarrow> expr \<Rightarrow> expr option \<Rightarrow> stmt list \<Rightarrow> unit comp" where
  "compile_for_num r x init limit incr body = scope_lexical_break (
     step alloc_register (\<lambda>base.
     step alloc_register (\<lambda>lim.
     step alloc_register (\<lambda>stp.
     thn (control_value r init base) (
     thn (control_value r limit lim) (
     thn (case incr of
         Some e \<Rightarrow> control_value r e stp
       | None \<Rightarrow> step (alloc_constant (VInt 1)) (\<lambda>k. emit (LOAD (of_nat stp) (of_nat k)))) (
     step (add8 stp 1) (\<lambda>top.
     reading freereg (\<lambda>f.
     thn (check (f = top)) (
     thn (adjust_locals 3) (
     step alloc_register (\<lambda>var.
     thn (check (var = base + 3)) (
     thn (define_name x var (VKConst None)) (
     thn (adjust_locals 1) (
     step new_label (\<lambda>loop_body.
     step new_label (\<lambda>loop_end.
     thn (emit_jump_instr loop_end (FORPREP (of_nat base) 0)) (
     thn (set_label_here loop_body) (
     thn (compile_block r body) (
     thn (emit_jump_instr loop_body (FORLOOP (of_nat base) 0)) (
     set_label_here loop_end)))))))))))))))))))))"

text \<open>The values of a generic loop, adjusted to the three control registers from \<open>base\<close>.\<close>

definition expand_control :: "compiler \<Rightarrow> expr \<Rightarrow> nat \<Rightarrow> nat \<Rightarrow> unit comp" where
  "expand_control r e expected n = (case e of
      EVarArg \<Rightarrow> expand_vararg expected n
    | _ \<Rightarrow> expand_call r e expected n)"

fun iterator_values :: "compiler \<Rightarrow> nat \<Rightarrow> nat \<Rightarrow> nat \<Rightarrow> expr list \<Rightarrow> unit comp" where
  "iterator_values r base m i [] = give ()"
| "iterator_values r base m i (e # es) =
     step (add8 base (as8 i)) (\<lambda>expected.
     if es = [] \<and> m < 3 \<and> is_multires e then expand_control r e expected (3 - i)
     else
       step (compile_to_reg r e None) (\<lambda>rg.
       thn (if rg \<noteq> expected then
           thn (set_freereg expected) (
           step reserve_reg (\<lambda>slot. emit (MOVE (of_nat slot) (of_nat rg))))
         else
           step (add8 expected 1) (\<lambda>top.
           reading freereg (\<lambda>f. if top < f then set_freereg top else give ()))) (
       iterator_values r base m (i + 1) es)))"

fun loop_vars :: "nat \<Rightarrow> nat \<Rightarrow> name list \<Rightarrow> unit comp" where
  "loop_vars base i [] = give ()"
| "loop_vars base i (x # xs) =
     step alloc_register (\<lambda>rg.
     thn (check (rg = base + 3 + as8 i)) (
     thn (define_name x rg (VKConst None)) (loop_vars base (i + 1) xs)))"

definition compile_for_gen :: "compiler \<Rightarrow> name list \<Rightarrow> expr list \<Rightarrow> stmt list \<Rightarrow> unit comp" where
  "compile_for_gen r targets values body = scope_lexical_break (
     reading freereg (\<lambda>base.
     thn (iterator_values r base (length values) 0 values) (
     step (add8 base 3) (\<lambda>top.
     reading freereg (\<lambda>f.
     thn (pad_nil f top) (
     thn (set_freereg top) (
     thn (adjust_locals 3) (
     thn (loop_vars base 0 targets) (
     thn (adjust_locals (as8 (length targets))) (
     step new_label (\<lambda>loop_body.
     step new_label (\<lambda>loop_test.
     thn (emit_jump_instr loop_test (TFORPREP (of_nat base) 0)) (
     thn (set_label_here loop_body) (
     thn (compile_block r body) (
     thn (set_label_here loop_test) (
     thn (emit (TFORCALL (of_nat base) (of_nat (length targets)))) (
     emit_jump_instr loop_body (TFORLOOP (of_nat base) 0))))))))))))))))))"

section \<open>Statements\<close>

definition compile_stmt :: "compiler \<Rightarrow> stmt \<Rightarrow> unit comp" where
  "compile_stmt r s = (case s of
      SLabel x \<Rightarrow> compile_label x
    | SGoto x \<Rightarrow> compile_goto x
    | SLocalFunc x body \<Rightarrow> compile_local_func r x body
    | SDecl targets values \<Rightarrow> compile_decl r targets values
    | SGlobalFunc x body \<Rightarrow> compile_global_func r x body
    | SGlobalStar const \<Rightarrow> compile_global_star const
    | SGlobal const targets values \<Rightarrow> compile_global_list r const targets values
    | SAssign targets values \<Rightarrow> compile_assign r targets values
    | SFunc target body \<Rightarrow> compile_func r target body
    | SExpr e \<Rightarrow> compile_stmt_expr r e
    | SBreak \<Rightarrow> compile_break
    | SReturn es \<Rightarrow> compile_return r es
    | SDo body \<Rightarrow> compile_do r body
    | SWhile cond body \<Rightarrow> compile_while r cond body
    | SRepeat body cond \<Rightarrow> compile_repeat r body cond
    | SIf cond body chain \<Rightarrow> compile_if r cond body chain
    | SForNum x init limit incr body \<Rightarrow> compile_for_num r x init limit incr body
    | SForGen xs values body \<Rightarrow> compile_for_gen r xs values body)"

section \<open>The entry point\<close>

text \<open>
  The compiler as a whole: the recursion between expressions, calls and statements, bounded by a
  nesting depth, and \<open>compile\<close>. The depth that \<open>compile\<close> takes is the size of the program; it is
  never used up (lemma \<open>compile_finishes\<close> of \<open>CompProps\<close>); neither is in the code.
\<close>

definition unfinished :: "'a comp" where
  "unfinished = (\<lambda>s. err Unfinished)"

fun compiler_at :: "(f64 \<Rightarrow> f64 \<Rightarrow> f64) \<Rightarrow> nat \<Rightarrow> compiler" where
  "compiler_at powf 0 = \<lparr>rc_expr = (\<lambda>_ _. unfinished), rc_call = (\<lambda>_ _. unfinished),
     rc_stmt = (\<lambda>_. unfinished), rc_powf = powf\<rparr>"
| "compiler_at powf (Suc n) =
     (let r = compiler_at powf n in
      \<lparr>rc_expr = compile_expr r, rc_call = compile_call r, rc_stmt = compile_stmt r, rc_powf = powf\<rparr>)"

definition comp_start :: comp_state where
  "comp_start = \<lparr>st_ctx = ctx_new True 0 [(env_name, ParentLocal 0)] global_env_new,
     st_parents = [], st_protos = []\<rparr>"

text \<open>The main prototype, and all the nested ones by their addresses.\<close>

definition compile :: "(f64 \<Rightarrow> f64 \<Rightarrow> f64) \<Rightarrow> stmt list \<Rightarrow> (failure, prototype \<times> prototype list) outcome" where
  "compile powf stmts =
     and_then (compile_function_to_chunk (compiler_at powf (Suc (size_list size stmts))) stmts [] True None 0 comp_start)
       (\<lambda>(chunk, s). case assemble chunk of None \<Rightarrow> None | Some p \<Rightarrow> ok (p, st_protos s))"

end
