(* ===== verification/CompSound.thy ===== *)
theory CompSound
  imports CompStmt "HOL-Library.Sublist"
begin

text \<open>
  What the operands of compiled code refer to: the facts an instruction needs, the view of a function
  under construction in which they hold, and the judgement that a computation of the compiler keeps
  every function well formed.
\<close>

section \<open>Facts about operands\<close>

text \<open>
  A constant, a string constant, an inline cache with the key it is for, an upvalue, a prototype of this
  function, and a prototype of the program.
\<close>

datatype fact = FConst u16 | FStr u16 | FKey u16 u16 | FUp u8 | FKid u16 | FProto addr

fun needs :: "instruction \<Rightarrow> fact set" where
  "needs (LOAD _ k) = {FConst k}"
| "needs (GETUPVAL _ i) = {FUp i}"
| "needs (SETUPVAL _ i) = {FUp i}"
| "needs (GETTABUP _ u ic k) = {FUp u, FStr k, FKey ic k}"
| "needs (SETTABUP _ u ic k) = {FUp u, FStr k, FKey ic k}"
| "needs (GETFIELD _ _ ic k) = {FStr k, FKey ic k}"
| "needs (SETFIELD _ _ ic k) = {FStr k, FKey ic k}"
| "needs (SELF _ _ k) = {FStr k}"
| "needs (CLOSURE _ p) = {FKid p}"
| "needs (ERRNNIL _ k) = {FStr k}"
| "needs _ = {}"

text \<open>
  What the facts are judged by: the constants, the key each inline cache was allocated for, the number of
  prototypes and of upvalues. The counter of caches stops at the largest index, and nothing is claimed of
  a function that reaches it.
\<close>

record view =
  v_consts :: "lua_value list"
  v_keys :: "nat list"
  v_kids :: nat
  v_ups :: nat

definition ic_limit :: nat where "ic_limit = 2 ^ 16 - 1"

fun is_str :: "lua_value \<Rightarrow> bool" where
  "is_str (VStr _) = True"
| "is_str _ = False"

fun desc_below :: "nat \<Rightarrow> upvalue_descriptor \<Rightarrow> bool" where
  "desc_below n (ParentLocal _) = True"
| "desc_below n (ParentUpvalue i) = (unat i < n)"

definition child_ok :: "prototype list \<Rightarrow> nat \<Rightarrow> addr \<Rightarrow> bool" where
  "child_ok ps n a \<longleftrightarrow> a < length ps \<and> list_all (desc_below n) (pr_upvalue_desc (ps ! a))"

fun holds :: "prototype list \<Rightarrow> view \<Rightarrow> fact \<Rightarrow> bool" where
  "holds ps v (FConst k) = (unat k < length (v_consts v))"
| "holds ps v (FStr k) = (unat k < length (v_consts v) \<and> is_str (v_consts v ! unat k))"
| "holds ps v (FKey ic k) = (ic_limit \<le> length (v_keys v) \<or> (unat ic < length (v_keys v) \<and> v_keys v ! unat ic = unat k))"
| "holds ps v (FUp u) = (unat u < v_ups v)"
| "holds ps v (FKid k) = (unat k < v_kids v)"
| "holds ps v (FProto a) = child_ok ps (v_ups v) a"

section \<open>Growth\<close>

definition grows_view :: "view \<Rightarrow> view \<Rightarrow> bool" where
  "grows_view v w \<longleftrightarrow> prefix (v_consts v) (v_consts w) \<and> prefix (v_keys v) (v_keys w)
     \<and> v_kids v \<le> v_kids w \<and> v_ups v \<le> v_ups w"

definition grows :: "prototype list \<Rightarrow> view list \<Rightarrow> prototype list \<Rightarrow> view list \<Rightarrow> bool" where
  "grows ps vs ps' vs' \<longleftrightarrow> prefix ps ps' \<and> list_all2 grows_view vs vs'"

lemma grows_view_refl [simp]: "grows_view v v"
  by (simp add: grows_view_def)

lemma grows_view_trans: "grows_view u v \<Longrightarrow> grows_view v w \<Longrightarrow> grows_view u w"
  by (auto simp: grows_view_def intro: prefix_order.trans)

lemma grows_refl [simp]: "grows ps vs ps vs"
  by (simp add: grows_def list_all2_refl)

lemma grows_trans:
  assumes "grows ps us qs vs" "grows qs vs rs ws"
  shows "grows ps us rs ws"
proof -
  have "list_all2 grows_view us ws"
    by (rule list_all2_trans [of grows_view grows_view grows_view us vs ws])
      (use assms grows_view_trans in \<open>auto simp: grows_def\<close>)
  then show ?thesis using assms prefix_order.trans by (auto simp: grows_def)
qed

lemma prefix_nth: "prefix xs ys \<Longrightarrow> i < length xs \<Longrightarrow> i < length ys \<and> ys ! i = xs ! i"
  by (auto simp: prefix_def nth_append)

lemma desc_below_mono: "desc_below n d \<Longrightarrow> n \<le> m \<Longrightarrow> desc_below m d"
  by (cases d) auto

lemma descs_below_mono: "list_all (desc_below n) ds \<Longrightarrow> n \<le> m \<Longrightarrow> list_all (desc_below m) ds"
  by (auto simp: list_all_iff intro: desc_below_mono)

lemma child_ok_mono: "child_ok ps n a \<Longrightarrow> prefix ps qs \<Longrightarrow> n \<le> m \<Longrightarrow> child_ok qs m a"
  by (auto simp: child_ok_def prefix_def nth_append intro: descs_below_mono)

lemma holds_mono:
  assumes "holds ps v f" "grows_view v w" "prefix ps qs"
  shows "holds qs w f"
proof -
  note p = assms(2)[unfolded grows_view_def]
  have l: "length (v_keys v) \<le> length (v_keys w)" "length (v_consts v) \<le> length (v_consts w)"
    using p by (auto simp: prefix_length_le)
  show ?thesis
  proof (cases f)
    case (FKey ic k)
    then show ?thesis using assms(1) l p prefix_nth[of "v_keys v" "v_keys w" "unat ic"] by auto
  next
    case (FStr k)
    then show ?thesis using assms(1) l p prefix_nth[of "v_consts v" "v_consts w" "unat k"] by auto
  qed (use assms l p child_ok_mono in auto)
qed

section \<open>Well-formed functions\<close>

definition code_ok :: "prototype list \<Rightarrow> view \<Rightarrow> instruction list \<Rightarrow> bool" where
  "code_ok ps v code \<longleftrightarrow> (\<forall>ins\<in>set code. \<forall>f\<in>needs ins. holds ps v f)"

definition fits :: "prototype list \<Rightarrow> view \<Rightarrow> ctx \<Rightarrow> bool" where
  "fits ps v c \<longleftrightarrow>
     v_consts v = ck_constants (cx_chunk c) \<and> length (v_keys v) = ck_next_ic_idx (cx_chunk c)
   \<and> ck_next_ic_idx (cx_chunk c) \<le> ic_limit \<and> length (ck_constants (cx_chunk c)) \<le> ic_limit
   \<and> v_kids v = length (ck_prototypes (cx_chunk c)) \<and> v_ups v = length (cx_upvalues c)
   \<and> code_ok ps v (tape c) \<and> list_all (child_ok ps (v_ups v)) (ck_prototypes (cx_chunk c))"

definition outer_ups :: "view list \<Rightarrow> nat" where
  "outer_ups vs = (case vs of [] \<Rightarrow> 0 | v # _ \<Rightarrow> v_ups v)"

fun all_fit :: "prototype list \<Rightarrow> view list \<Rightarrow> ctx list \<Rightarrow> bool" where
  "all_fit ps [] [] = True"
| "all_fit ps (v # vs) (c # cs) \<longleftrightarrow>
     fits ps v c \<and> list_all (desc_below (outer_ups vs)) (map snd (cx_upvalues c)) \<and> all_fit ps vs cs"
| "all_fit ps _ _ = False"

text \<open>The same of a finished prototype.\<close>

definition proto_ok :: "prototype list \<Rightarrow> prototype \<Rightarrow> bool" where
  "proto_ok ps p \<longleftrightarrow> (\<exists>keys. length keys = length (pr_ic_table p)
     \<and> code_ok ps \<lparr>v_consts = pr_constants p, v_keys = keys, v_kids = length (pr_prototypes p),
         v_ups = length (pr_upvalue_desc p)\<rparr> (pr_code p)
     \<and> list_all (child_ok ps (length (pr_upvalue_desc p))) (pr_prototypes p))"

definition state_ok :: "view list \<Rightarrow> comp_state \<Rightarrow> bool" where
  "state_ok vs s \<longleftrightarrow> all_fit (st_protos s) vs (st_ctx s # st_parents s) \<and> list_all (proto_ok (st_protos s)) (st_protos s)"

lemma code_ok_mono: "code_ok ps v code \<Longrightarrow> grows_view v w \<Longrightarrow> prefix ps qs \<Longrightarrow> code_ok qs w code"
  by (meson code_ok_def holds_mono)

lemma fits_mono: "fits ps v c \<Longrightarrow> prefix ps qs \<Longrightarrow> fits qs v c"
  by (auto simp: fits_def list_all_iff intro: code_ok_mono child_ok_mono)

lemma all_fit_mono: "all_fit ps vs cs \<Longrightarrow> prefix ps qs \<Longrightarrow> all_fit qs vs cs"
  by (induction ps vs cs rule: all_fit.induct) (auto intro: fits_mono)

lemma proto_ok_mono: "proto_ok ps p \<Longrightarrow> prefix ps qs \<Longrightarrow> proto_ok qs p"
  unfolding proto_ok_def list_all_iff by (meson child_ok_mono code_ok_mono grows_view_refl order_refl)

lemma state_ok_length: "state_ok vs s \<Longrightarrow> \<exists>v ws. vs = v # ws"
  by (cases vs) (auto simp: state_ok_def)

section \<open>The judgement\<close>

definition sound :: "fact set \<Rightarrow> 'a comp \<Rightarrow> ('a \<Rightarrow> fact set) \<Rightarrow> bool" where
  "sound F m Q \<longleftrightarrow> (\<forall>v vs s x s'.
     state_ok (v # vs) s \<longrightarrow> (\<forall>f\<in>F. holds (st_protos s) v f) \<longrightarrow> m s = ok (x, s') \<longrightarrow>
     (\<exists>v' vs'. grows (st_protos s) (v # vs) (st_protos s') (v' # vs') \<and> state_ok (v' # vs') s'
        \<and> (\<forall>f\<in>Q x. holds (st_protos s') v' f)))"

abbreviation safe :: "fact set \<Rightarrow> 'a comp \<Rightarrow> bool" where
  "safe F m \<equiv> sound F m (\<lambda>_. {})"

lemma soundI:
  assumes "\<And>v vs s x s'. state_ok (v # vs) s \<Longrightarrow> (\<And>f. f \<in> F \<Longrightarrow> holds (st_protos s) v f) \<Longrightarrow> m s = ok (x, s') \<Longrightarrow>
     \<exists>v' vs'. grows (st_protos s) (v # vs) (st_protos s') (v' # vs') \<and> state_ok (v' # vs') s'
        \<and> (\<forall>f\<in>Q x. holds (st_protos s') v' f)"
  shows "sound F m Q"
  using assms unfolding sound_def by blast

lemma soundD:
  assumes "sound F m Q" "state_ok (v # vs) s" "\<And>f. f \<in> F \<Longrightarrow> holds (st_protos s) v f" "m s = ok (x, s')"
  obtains v' vs' where "grows (st_protos s) (v # vs) (st_protos s') (v' # vs')" "state_ok (v' # vs') s'"
    "\<And>f. f \<in> Q x \<Longrightarrow> holds (st_protos s') v' f"
  using assms unfolding sound_def by blast

lemma grows_holds: "grows ps (v # vs) qs (w # ws) \<Longrightarrow> holds ps v f \<Longrightarrow> holds qs w f"
  by (auto simp: grows_def intro: holds_mono)

named_theorems soundness \<open>computations that keep every function well formed\<close>

lemma sound_drop: "sound F m Q \<Longrightarrow> (\<And>x. R x \<subseteq> Q x) \<Longrightarrow> sound F m R"
  unfolding sound_def by (meson subsetD)

lemma sound_weaken: "sound F m Q \<Longrightarrow> F \<subseteq> G \<Longrightarrow> sound G m Q"
  unfolding sound_def by (meson subsetD)

lemma step_ok:
  assumes "step m f s = ok (y, s'')"
  obtains x s' where "m s = ok (x, s')" "f x s' = ok (y, s'')"
proof -
  from assms obtain p where "m s = ok p" "(case p of (x, s') \<Rightarrow> f x s') = ok (y, s'')"
    unfolding step_def and_then_ok_iff by blast
  then show ?thesis using that by (cases p) simp
qed

lemma sound_step:
  assumes m: "sound F m Q" and f: "\<And>x. sound (Q x \<union> F) (f x) R"
  shows "sound F (step m f) R"
proof (rule soundI)
  fix v vs s y s''
  assume s: "state_ok (v # vs) s" and F: "\<And>f. f \<in> F \<Longrightarrow> holds (st_protos s) v f" and st: "step m f s = ok (y, s'')"
  from st obtain x s' where x: "m s = ok (x, s')" and y: "f x s' = ok (y, s'')" by (rule step_ok)
  obtain v' vs' where 1: "grows (st_protos s) (v # vs) (st_protos s') (v' # vs')" "state_ok (v' # vs') s'"
      "\<And>f. f \<in> Q x \<Longrightarrow> holds (st_protos s') v' f"
    using soundD[OF m s F x] by metis
  have "holds (st_protos s') v' f" if "f \<in> Q x \<union> F" for f
    using that 1(3) F grows_holds[OF 1(1)] by blast
  from soundD[OF f[of x] 1(2) this y] obtain v'' vs'' where
      "grows (st_protos s') (v' # vs') (st_protos s'') (v'' # vs'')" "state_ok (v'' # vs'') s''"
      "\<And>f. f \<in> R y \<Longrightarrow> holds (st_protos s'') v'' f"
    by metis
  then show "\<exists>v' vs'. grows (st_protos s) (v # vs) (st_protos s'') (v' # vs') \<and> state_ok (v' # vs') s''
        \<and> (\<forall>f\<in>R y. holds (st_protos s'') v' f)"
    using 1(1) grows_trans by blast
qed

lemma safe_step [soundness]: "safe F m \<Longrightarrow> (\<And>x. sound F (f x) R) \<Longrightarrow> sound F (step m f) R"
  by (rule sound_step [where Q = "\<lambda>_. {}"]) simp_all

lemma safe_thn [soundness]: "safe F m \<Longrightarrow> sound F k R \<Longrightarrow> sound F (thn m k) R"
  unfolding thn_def by (rule safe_step)

lemma sound_give: "Q x \<subseteq> F \<Longrightarrow> sound F (give x) Q"
  by (rule soundI) (auto simp: give_def intro: grows_refl)

lemma safe_give [soundness]: "safe F (give x)"
  by (rule sound_give) simp

lemma sound_fail [soundness]: "sound F (fail e) Q" "sound F panic Q" "sound F unfinished Q"
  by (simp_all add: sound_def fail_def panic_def unfinished_def)

lemma sound_reading [soundness]: "(\<And>x. sound F (k x) Q) \<Longrightarrow> sound F (reading f k) Q"
  by (simp add: sound_def reading_def)

lemma sound_if [soundness]: "(b \<Longrightarrow> sound F m Q) \<Longrightarrow> (\<not> b \<Longrightarrow> sound F k Q) \<Longrightarrow> sound F (if b then m else k) Q"
  by simp

lemma safe_each [soundness]: "(\<And>x. x \<in> set xs \<Longrightarrow> safe F (f x)) \<Longrightarrow> safe F (each f xs)"
  by (induction xs) (auto intro!: soundness)

lemma safe_basic [soundness]: "safe F (check b)" "safe F (or_fail x e)" "safe F (or_panic x')" "safe F (add8 i j)" "safe F (add16 i j)"
  by (auto simp: check_def or_fail_def or_panic_def add8_def add16_def intro!: soundness split: option.split)

section \<open>Updates of the function\<close>

text \<open>The parts that facts are about are the same, and no instruction is new.\<close>

definition same_code :: "ctx \<Rightarrow> ctx \<Rightarrow> bool" where
  "same_code c d \<longleftrightarrow> ck_constants (cx_chunk d) = ck_constants (cx_chunk c)
     \<and> ck_next_ic_idx (cx_chunk d) = ck_next_ic_idx (cx_chunk c) \<and> ck_prototypes (cx_chunk d) = ck_prototypes (cx_chunk c)
     \<and> cx_upvalues d = cx_upvalues c \<and> set (tape d) \<subseteq> set (tape c)"

lemma fits_same_code: "same_code c d \<Longrightarrow> fits ps v c \<Longrightarrow> fits ps v d"
  by (auto simp: same_code_def fits_def code_ok_def)

lemma state_ok_upd:
  assumes "state_ok (v # vs) s" "fits (st_protos s) w d" "cx_upvalues d = cx_upvalues (st_ctx s)"
  shows "state_ok (w # vs) (s\<lparr>st_ctx := d\<rparr>)"
  using assms by (simp add: state_ok_def)

lemma grows_same: "grows_view v w \<Longrightarrow> grows ps (v # vs) ps (w # vs)"
  by (simp add: grows_def list_all2_refl)

text \<open>A computation that changes only the current function.\<close>

definition changed :: "fact set \<Rightarrow> prototype list \<Rightarrow> view \<Rightarrow> comp_state \<Rightarrow> comp_state \<Rightarrow> bool" where
  "changed F ps v s s' \<longleftrightarrow> (\<exists>d w. s' = s\<lparr>st_ctx := d\<rparr> \<and> fits ps w d \<and> grows_view v w
     \<and> cx_upvalues d = cx_upvalues (st_ctx s) \<and> (\<forall>f\<in>F. holds ps w f))"

lemma changedI:
  assumes "s' = s\<lparr>st_ctx := d\<rparr>" "fits ps w d" "grows_view v w" "cx_upvalues d = cx_upvalues (st_ctx s)"
    "\<And>f. f \<in> F \<Longrightarrow> holds ps w f"
  shows "changed F ps v s s'"
  using assms unfolding changed_def by blast

lemma sound_local:
  assumes "\<And>ps v s x s'. fits ps v (st_ctx s) \<Longrightarrow> (\<And>f. f \<in> F \<Longrightarrow> holds ps v f) \<Longrightarrow> m s = ok (x, s') \<Longrightarrow>
    changed (Q x) ps v s s'"
  shows "sound F m Q"
proof (rule soundI)
  fix v vs s x s'
  assume s: "state_ok (v # vs) s" and F: "\<And>f. f \<in> F \<Longrightarrow> holds (st_protos s) v f" and x: "m s = ok (x, s')"
  have "fits (st_protos s) v (st_ctx s)" using s by (simp add: state_ok_def)
  from assms[OF this F x] obtain d w where "s' = s\<lparr>st_ctx := d\<rparr>" "fits (st_protos s) w d" "grows_view v w"
      "cx_upvalues d = cx_upvalues (st_ctx s)" "\<forall>f\<in>Q x. holds (st_protos s) w f"
    unfolding changed_def by blast
  then show "\<exists>v' vs'. grows (st_protos s) (v # vs) (st_protos s') (v' # vs') \<and> state_ok (v' # vs') s'
        \<and> (\<forall>f\<in>Q x. holds (st_protos s') v' f)"
    using state_ok_upd[OF s] grows_same by fastforce
qed

lemma safe_update:
  assumes "\<And>c. same_code c (g c)"
  shows "safe F (update g)"
proof (rule sound_local)
  fix ps v s x s'
  assume *: "fits ps v (st_ctx s)" "update g s = ok (x, s')"
  then have "s' = s\<lparr>st_ctx := g (st_ctx s)\<rparr>" by (simp add: update_def)
  then show "changed {} ps v s s'"
    by (rule changedI) (use fits_same_code[OF assms *(1)] assms[of "st_ctx s"] in \<open>auto simp: same_code_def\<close>)
qed

lemma safe_upd_chunk: "(\<And>c. same_code c (c\<lparr>cx_chunk := g (cx_chunk c)\<rparr>)) \<Longrightarrow> safe F (upd_chunk g)"
  unfolding upd_chunk_def by (rule safe_update)

text \<open>The current function of a larger one: more constants, caches, prototypes or code.\<close>

lemma fitsI:
  assumes "fits ps v c" "grows_view v w" "v_consts w = ck_constants (cx_chunk d)"
    "length (v_keys w) = ck_next_ic_idx (cx_chunk d)" "ck_next_ic_idx (cx_chunk d) \<le> ic_limit"
    "length (ck_constants (cx_chunk d)) \<le> ic_limit"
    "v_kids w = length (ck_prototypes (cx_chunk d))" "v_ups w = length (cx_upvalues d)"
    "\<And>ins f. ins \<in> set (tape d) - set (tape c) \<Longrightarrow> f \<in> needs ins \<Longrightarrow> holds ps w f"
    "\<And>a. a \<in> set (ck_prototypes (cx_chunk d)) - set (ck_prototypes (cx_chunk c)) \<Longrightarrow> holds ps w (FProto a)"
  shows "fits ps w d"
proof -
  have "holds ps w f" if "ins \<in> set (tape d)" "f \<in> needs ins" for ins f
  proof (cases "ins \<in> set (tape c)")
    case True
    then have "holds ps v f" using assms(1) that by (auto simp: fits_def code_ok_def)
    then show ?thesis using assms(2) by (auto intro: holds_mono)
  qed (use assms(9) that in blast)
  moreover have "child_ok ps (v_ups w) a" if "a \<in> set (ck_prototypes (cx_chunk d))" for a
  proof (cases "a \<in> set (ck_prototypes (cx_chunk c))")
    case True
    then have "child_ok ps (v_ups v) a" using assms(1) by (auto simp: fits_def list_all_iff)
    then show ?thesis using assms(2) by (auto simp: grows_view_def intro: child_ok_mono)
  qed (use assms(10) that in auto)
  ultimately show ?thesis using assms(3-8) by (auto simp: fits_def code_ok_def list_all_iff)
qed

lemma safe_emit [soundness]:
  assumes "needs ins \<subseteq> F"
  shows "safe F (emit ins)"
proof (rule sound_local)
  fix ps v s x s'
  assume *: "fits ps v (st_ctx s)" "\<And>f. f \<in> F \<Longrightarrow> holds ps v f" "emit ins s = ok (x, s')"
  let ?d = "(st_ctx s)\<lparr>cx_chunk := (cx_chunk (st_ctx s))\<lparr>ck_tape := tape (st_ctx s) @ [ins]\<rparr>\<rparr>"
  have s': "s' = s\<lparr>st_ctx := ?d\<rparr>" using *(3) by (simp add: emit_def upd_chunk_def update_def)
  have "fits ps v ?d"
    by (rule fitsI[OF *(1)]) (use *(1,2) assms in \<open>auto simp: fits_def\<close>)
  then show "changed {} ps v s s'"
    by (rule changedI[OF s']) simp_all
qed

lemma set_instr_ok:
  assumes "set_instr i ins s = ok (x, s')"
  shows "i < length (tape (st_ctx s))"
    and "s' = s\<lparr>st_ctx := (st_ctx s)\<lparr>cx_chunk := (cx_chunk (st_ctx s))\<lparr>ck_tape := (tape (st_ctx s))[i := ins]\<rparr>\<rparr>\<rparr>"
  using assms by (auto simp: set_instr_def reading_def step_def or_panic_def idx_set_def upd_chunk_def update_def
      give_def panic_def split: option.splits if_splits)

lemma safe_set_instr [soundness]:
  assumes "needs ins \<subseteq> F"
  shows "safe F (set_instr i ins)"
proof (rule sound_local)
  fix ps v s x s'
  assume *: "fits ps v (st_ctx s)" "\<And>f. f \<in> F \<Longrightarrow> holds ps v f" "set_instr i ins s = ok (x, s')"
  let ?d = "(st_ctx s)\<lparr>cx_chunk := (cx_chunk (st_ctx s))\<lparr>ck_tape := (tape (st_ctx s))[i := ins]\<rparr>\<rparr>"
  have s': "s' = s\<lparr>st_ctx := ?d\<rparr>" using *(3) by (rule set_instr_ok)
  have "fits ps v ?d"
    by (rule fitsI[OF *(1)]) (use *(1,2) assms set_update_subset_insert[of "tape (st_ctx s)" i ins] in \<open>auto simp: fits_def\<close>)
  then show "changed {} ps v s s'"
    by (rule changedI[OF s']) simp_all
qed

lemma ctrl_of_ok:
  assumes "ctrl_of j k s = ok y"
  shows "j - 1 < length (tape (st_ctx s)) \<and> k (tape (st_ctx s) ! (j - 1)) s = ok y"
  using assms by (auto simp: ctrl_of_def reading_def step_def or_panic_def idx_def give_def panic_def split: option.splits if_splits)

lemma sound_ctrl_of [soundness]:
  assumes "\<And>ins. sound (needs ins \<union> F) (k ins) Q"
  shows "sound F (ctrl_of j k) Q"
proof (rule soundI)
  fix v vs s x s'
  assume s: "state_ok (v # vs) s" and F: "\<And>f. f \<in> F \<Longrightarrow> holds (st_protos s) v f" and x: "ctrl_of j k s = ok (x, s')"
  let ?ins = "tape (st_ctx s) ! (j - 1)"
  have k: "k ?ins s = ok (x, s')" and j: "j - 1 < length (tape (st_ctx s))" using ctrl_of_ok[OF x] by auto
  have "fits (st_protos s) v (st_ctx s)" using s by (simp add: state_ok_def)
  then have "holds (st_protos s) v f" if "f \<in> needs ?ins \<union> F" for f
    using that j F by (auto simp: fits_def code_ok_def)
  then show "\<exists>v' vs'. grows (st_protos s) (v # vs) (st_protos s') (v' # vs') \<and> state_ok (v' # vs') s'
        \<and> (\<forall>f\<in>Q x. holds (st_protos s') v' f)"
    using soundD[OF assms s _ k] by metis
qed

end
