(* ===== verification/CompSafe.thy ===== *)
theory CompSafe
  imports CompSound
begin

text \<open>
  The operations of the compiler's context keep every function well formed, and what they return is
  what the instructions that use it need.
\<close>

section \<open>Constants and caches\<close>

lemma sound_step1: "sound F m Q \<Longrightarrow> (\<And>x. sound (Q x \<union> F) (f x) R) \<Longrightarrow> sound F (step m f) R"
  by (rule sound_step)

lemma position_Some: "position p xs = Some i \<Longrightarrow> i < length xs \<and> p (xs ! i)"
  by (induction xs arbitrary: i) (auto split: if_splits)

lemma unat_small: "n \<le> ic_limit \<Longrightarrow> unat (of_nat n :: u16) = n"
  by (simp add: ic_limit_def unat_of_nat take_bit_nat_eq_self)

lemma same_constant_str: "same_constant k (VStr b) \<Longrightarrow> is_str k"
  by (cases k) auto

definition const_facts :: "lua_value \<Rightarrow> nat \<Rightarrow> fact set" where
  "const_facts v k = {FConst (of_nat k)} \<union> (if is_str v then {FStr (of_nat k)} else {})"

lemma const_facts_mem [simp]: "FConst (of_nat k) \<in> const_facts v k" "FStr (of_nat k) \<in> const_facts (VStr b) k"
  by (simp_all add: const_facts_def)

lemma alloc_constant_cases:
  assumes "alloc_constant v s = ok (k, s')"
  obtains i where "position (\<lambda>k. same_constant k v) (ck_constants (cx_chunk (st_ctx s))) = Some i" "k = as16 i" "s' = s"
  | "length (ck_constants (cx_chunk (st_ctx s))) < ic_limit" "k = length (ck_constants (cx_chunk (st_ctx s)))"
    "s' = s\<lparr>st_ctx := (st_ctx s)\<lparr>cx_chunk := (cx_chunk (st_ctx s))
       \<lparr>ck_constants := ck_constants (cx_chunk (st_ctx s)) @ [v]\<rparr>\<rparr>\<rparr>"
proof (cases "position (\<lambda>k. same_constant k v) (ck_constants (cx_chunk (st_ctx s)))")
  case None
  then have "length (ck_constants (cx_chunk (st_ctx s))) < ic_limit"
    using assms by (auto simp: alloc_constant_def reading_def fail_def ic_limit_def split: if_splits)
  then show ?thesis using assms None
    by (auto simp: alloc_constant_def reading_def give_def thn_def step_def upd_chunk_def update_def ic_limit_def
        intro: that(2))
next
  case (Some i)
  then show ?thesis using assms by (intro that(1)) (auto simp: alloc_constant_def reading_def give_def)
qed

lemma sound_alloc_constant: "sound F (alloc_constant v) (const_facts v)"
proof (rule sound_local)
  fix ps w s k s'
  assume fit: "fits ps w (st_ctx s)" and k: "alloc_constant v s = ok (k, s')"
  let ?ks = "ck_constants (cx_chunk (st_ctx s))"
  have w: "v_consts w = ?ks" "length ?ks \<le> ic_limit" using fit by (auto simp: fits_def)
  from k show "changed (const_facts v k) ps w s s'"
  proof (cases rule: alloc_constant_cases)
    case (1 i)
    have i: "i < length ?ks" "same_constant (?ks ! i) v" using position_Some[OF 1(1)] by auto
    have k: "k = i" using 1(2) i w by (simp add: ic_limit_def)
    have str: "is_str (?ks ! i)" if "is_str v" using that i(2) by (cases v) (auto dest: same_constant_str)
    show ?thesis
      by (rule changedI[where d = "st_ctx s" and w = w])
        (use 1(3) fit i w str k in \<open>auto simp: const_facts_def unat_small split: if_splits\<close>)
  next
    case 2
    let ?w = "w\<lparr>v_consts := ?ks @ [v]\<rparr>"
    have g: "grows_view w ?w" using w by (simp add: grows_view_def)
    show ?thesis
    proof (rule changedI[OF 2(3)])
      show "fits ps ?w ((st_ctx s)\<lparr>cx_chunk := (cx_chunk (st_ctx s))\<lparr>ck_constants := ?ks @ [v]\<rparr>\<rparr>)"
        by (rule fitsI[OF fit g]) (use fit 2 in \<open>auto simp: fits_def\<close>)
    qed (use g 2 in \<open>auto simp: const_facts_def unat_small nth_append split: if_splits\<close>)
  qed
qed

lemma step_alloc_constant [soundness]:
  "(\<And>k. sound (const_facts v k \<union> F) (f k) R) \<Longrightarrow> sound F (step (alloc_constant v) f) R"
  by (rule sound_step[OF sound_alloc_constant])

definition key_facts :: "nat \<times> nat \<Rightarrow> fact set" where
  "key_facts p = (case p of (k, ic) \<Rightarrow> {FStr (of_nat k), FKey (of_nat ic) (of_nat k)})"

lemma key_facts_mem [simp]: "FStr (of_nat k) \<in> key_facts (k, ic)" "FKey (of_nat ic) (of_nat k) \<in> key_facts (k, ic)"
  by (simp_all add: key_facts_def)

lemma sound_new_cache:
  assumes "unat (of_nat k :: u16) = k"
  shows "sound F (reading cx_chunk (\<lambda>c. case alloc_ic_slot c of (ic, c') \<Rightarrow> thn (upd_chunk (\<lambda>_. c')) (give (k, ic))))
    (\<lambda>(k', ic). {FKey (of_nat ic) (of_nat k')})"
proof (rule sound_local)
  fix ps w and s s' :: comp_state and x
  let ?m = "reading cx_chunk (\<lambda>c. case alloc_ic_slot c of (ic, c') \<Rightarrow> thn (upd_chunk (\<lambda>_. c')) (give (k, ic)))"
  let ?n = "ck_next_ic_idx (cx_chunk (st_ctx s))"
  let ?d = "(st_ctx s)\<lparr>cx_chunk := (cx_chunk (st_ctx s))\<lparr>ck_next_ic_idx := min (?n + 1) ic_limit\<rparr>\<rparr>"
  assume fit: "fits ps w (st_ctx s)" and m: "?m s = ok (x, s')"
  have x: "x = (k, ?n)" "s' = s\<lparr>st_ctx := ?d\<rparr>"
    using m by (auto simp: reading_def alloc_ic_slot_def thn_def step_def upd_chunk_def update_def give_def ic_limit_def)
  have n: "length (v_keys w) = ?n" "?n \<le> ic_limit" using fit by (auto simp: fits_def)
  define w' where "w' = (if ?n < ic_limit then w\<lparr>v_keys := v_keys w @ [k]\<rparr> else w)"
  have g: "grows_view w w'" by (simp add: w'_def grows_view_def)
  have "fits ps w' ?d"
    by (rule fitsI[OF fit g]) (use fit n in \<open>auto simp: fits_def w'_def\<close>)
  then show "changed (case x of (k', ic) \<Rightarrow> {FKey (of_nat ic) (of_nat k')}) ps w s s'"
    by (rule changedI[OF x(2) _ g])
      (use n assms in \<open>auto simp: x w'_def nth_append unat_small split: if_splits\<close>)
qed

lemma sound_alloc_field_key: "sound F (alloc_field_key b) key_facts"
proof (rule soundI)
  fix v vs s x s'
  assume s: "state_ok (v # vs) s" and F: "\<And>f. f \<in> F \<Longrightarrow> holds (st_protos s) v f"
    and x: "alloc_field_key b s = ok (x, s')"
  let ?m = "\<lambda>k. reading cx_chunk (\<lambda>c. case alloc_ic_slot c of (ic, c') \<Rightarrow> thn (upd_chunk (\<lambda>_. c')) (give (k, ic)))"
  from x obtain k s1 where k: "alloc_constant (VStr b) s = ok (k, s1)" and m: "?m k s1 = ok (x, s')"
    unfolding alloc_field_key_def by (rule step_ok)
  from soundD[OF sound_alloc_constant s F k] obtain v1 vs1 where
      1: "grows (st_protos s) (v # vs) (st_protos s1) (v1 # vs1)" "state_ok (v1 # vs1) s1"
      "\<And>f. f \<in> const_facts (VStr b) k \<Longrightarrow> holds (st_protos s1) v1 f"
    by metis
  have "length (ck_constants (cx_chunk (st_ctx s))) \<le> ic_limit" using s by (auto simp: state_ok_def fits_def)
  with k have "k \<le> ic_limit"
    by (cases rule: alloc_constant_cases) (auto dest: position_Some simp: ic_limit_def)
  then have k': "unat (of_nat k :: u16) = k" by (rule unat_small)
  obtain ic where xk: "x = (k, ic)"
    using m by (auto simp: reading_def alloc_ic_slot_def thn_def step_def upd_chunk_def update_def give_def)
  from soundD[OF sound_new_cache[OF k', of "{}"] 1(2) _ m] obtain v2 vs2 where
      2: "grows (st_protos s1) (v1 # vs1) (st_protos s') (v2 # vs2)" "state_ok (v2 # vs2) s'"
      "holds (st_protos s') v2 (FKey (of_nat ic) (of_nat k))"
    using xk by auto
  have "FStr (of_nat k) \<in> const_facts (VStr b) k" by (simp add: const_facts_def)
  from grows_holds[OF 2(1) 1(3)[OF this]] have "holds (st_protos s') v2 (FStr (of_nat k))" .
  then show "\<exists>v' vs'. grows (st_protos s) (v # vs) (st_protos s') (v' # vs') \<and> state_ok (v' # vs') s'
        \<and> (\<forall>f\<in>key_facts x. holds (st_protos s') v' f)"
    using grows_trans[OF 1(1) 2(1)] 2(2,3) by (intro exI[of _ v2] exI[of _ vs2]) (simp add: key_facts_def xk)
qed

lemma step_alloc_field_key [soundness]:
  "(\<And>k ic. sound (key_facts (k, ic) \<union> F) (f (k, ic)) R) \<Longrightarrow> sound F (step (alloc_field_key b) f) R"
  by (rule sound_step[OF sound_alloc_field_key]) auto

lemma step_alloc_string [soundness]:
  "(\<And>k. sound (const_facts (VStr b) k \<union> F) (f k) R) \<Longrightarrow> sound F (step (alloc_string_constant b) f) R"
  unfolding alloc_string_constant_def by (rule step_alloc_constant)

section \<open>Registers, labels and jumps\<close>

lemmas plain_updates = safe_update safe_upd_chunk

lemma safe_regs [soundness]:
  "safe F (set_freereg n)" "safe F (raise_freereg n)" "safe F reserve_reg" "safe F (reserve_regs n)"
  "safe F alloc_register" "safe F (free_reg n)" "safe F (adjust_locals n)"
  by (auto simp: set_freereg_def raise_freereg_def reserve_reg_def reserve_regs_def alloc_register_def
      free_reg_def adjust_locals_def same_code_def intro!: soundness plain_updates split: prod.split)

lemma safe_alloc_upto [soundness]: "safe F (alloc_upto f n)"
proof (induction f n rule: alloc_upto.induct)
  case (1 f n)
  then show ?case by (subst alloc_upto.simps) (auto intro!: soundness)
qed

lemma safe_regs2 [soundness]:
  "safe F (free_regs a b)" "safe F (dst_or_alloc d)" "safe F (alloc_to n)"
  "(\<And>d. needs (ins d) \<subseteq> F) \<Longrightarrow> safe F (emit_into d ins)"
  by (auto simp: free_regs_def dst_or_alloc_def alloc_to_def emit_into_def intro!: soundness split: option.split)

lemma safe_labels [soundness]:
  "safe F new_label" "safe F (set_label l i)" "safe F (set_label_here l)" "safe F (add_patch i l)"
  "needs ins \<subseteq> F \<Longrightarrow> safe F (emit_jump_instr l ins)" "safe F (emit_jump l)" "safe F emit_unfilled_jmp"
  by (auto simp: new_label_def set_label_def set_label_here_def add_patch_def emit_jump_instr_def emit_jump_def
      emit_unfilled_jmp_def same_code_def intro!: soundness plain_updates)

lemma needs_downgraded [simp]: "needs (downgraded ins) = needs ins"
  by (cases ins) auto

lemma needs_routed: "routed v r d ins = (ins', t) \<Longrightarrow> needs ins' = needs ins"
  by (cases ins) (auto split: if_splits)

lemma needs_flipped: "flipped ins = Some ins' \<Longrightarrow> needs ins' = {}"
  by (cases ins) auto

lemma safe_flip [soundness]: "(\<And>x. opt = Some x \<Longrightarrow> sound F (f x) Q) \<Longrightarrow> sound F (step (or_panic opt) f) Q"
  by (cases opt) (auto simp: or_panic_def step_def panic_def give_def sound_def)

lemma safe_jumps [soundness]:
  "safe F (assert_ctrl_predecessor j)" "safe F (downgrade_testsets js)"
  "safe F (patch_jmp t j)" "safe F (retarget t j)" "safe F (emit_test_jump r b)" "safe F (flip_control_polarity j)"
  by (auto simp: assert_ctrl_predecessor_def downgrade_testsets_def patch_jmp_def retarget_def
      emit_test_jump_def flip_control_polarity_def dest: needs_flipped intro!: soundness)

lemma safe_elide [soundness]: "safe F (elide n js)"
  by (induction n arbitrary: js)
    (auto simp: Let_def same_code_def dest!: in_set_takeD intro!: soundness safe_upd_chunk)

lemma safe_patch [soundness]:
  "safe F (patch_to js t)" "safe F (patch_to_here js)" "safe F (patch_list_aux js v r d)"
  "safe F (codenot e k)" "safe F (negate_cond e)"
proof -
  show "safe F (patch_list_aux js v r d)"
    by (auto simp: patch_list_aux_def dest: needs_routed[THEN equalityD1, THEN subsetD] intro!: soundness split: prod.split)
qed (auto simp: patch_to_def patch_to_here_def codenot_def negate_cond_def same_code_def
      intro!: soundness safe_upd_chunk split: prod.split)

section \<open>Discharge\<close>

lemma safe_need_value [soundness]: "safe F (need_value js)"
  by (induction js arbitrary: F) (auto intro!: soundness)

lemma safe_discharge_parts [soundness]:
  "safe F (load_constant e h)" "safe F (discharge_dst k h)" "safe F (emit_tail b d)"
  by (auto simp: load_constant_def discharge_dst_def emit_tail_def intro!: soundness split: option.split expr_kind.split)

lemma safe_resolve_jumps [soundness]: "safe F (resolve_jumps e b d)"
  by (auto simp: resolve_jumps_def intro!: soundness split: option.split prod.split)

lemma safe_discharge [soundness]: "safe F (discharge_to_reg e h)"
  by (auto simp: discharge_to_reg_def Let_def intro!: soundness split: option.split expr_kind.split bool.split)

lemma safe_discharge_reg [soundness]: "safe F (discharge_reg e h)"
  by (auto simp: discharge_reg_def intro!: soundness)

lemma safe_go [soundness]: "safe F (test_reg r b)" "safe F (goiftrue e)" "safe F (goiffalse e)"
  by (auto simp: test_reg_def goiftrue_def goiffalse_def intro!: soundness split: expr_kind.split option.split)

section \<open>Scopes and names\<close>

lemma safe_scopes [soundness]:
  "safe F push_scope" "safe F pop_scope" "safe F (mark_close r)" "safe F (define_name x r k)"
  by (auto simp: push_scope_def pop_scope_def mark_close_def define_name_def same_code_def
      intro!: soundness safe_update split: list.split prod.split)

lemma fits_mark: "fits ps v c \<Longrightarrow> fits ps v (mark_captured k c)"
  by (rule fits_same_code [of c]) (simp_all add: same_code_def mark_captured_def)

lemma upvalues_mark [simp]: "cx_upvalues (mark_captured k c) = cx_upvalues c"
  by (simp add: mark_captured_def)

lemma unat_of_nat_less: "n < m \<Longrightarrow> unat (of_nat n :: 'a::len word) < m"
  unfolding unat_of_nat take_bit_eq_mod by (rule le_less_trans [OF mod_less_eq_dividend])

lemma fits_push:
  assumes "fits ps v c"
  shows "fits ps (v\<lparr>v_ups := Suc (v_ups v)\<rparr>) (push_upvalue x d c)"
proof -
  have "grows_view v (v\<lparr>v_ups := Suc (v_ups v)\<rparr>)" by (simp add: grows_view_def)
  then show ?thesis
    by (rule fitsI[OF assms]) (use assms in \<open>auto simp: fits_def push_upvalue_def\<close>)
qed

lemma upvalue_index_less: "upvalue_index c x = Some i \<Longrightarrow> i < length (cx_upvalues c)"
  by (auto simp: upvalue_index_def dest: position_Some)

text \<open>What a child gets is within the upvalues of the function it asks.\<close>

lemma resolve_for_child_ok:
  assumes "all_fit ps vs cs" "resolve_for_child x cs = (res, cs')"
  shows "\<exists>ws. all_fit ps ws cs' \<and> list_all2 grows_view vs ws
    \<and> (\<forall>d. res = Some (CRUpvalue d) \<longrightarrow> desc_below (outer_ups ws) d)"
  using assms
proof (induction cs arbitrary: vs res cs')
  case Nil
  then show ?case by (cases vs) auto
next
  case (Cons c cs)
  from Cons.prems(1) obtain v vt where vs: "vs = v # vt" "fits ps v c"
      "list_all (desc_below (outer_ups vt)) (map snd (cx_upvalues c))" "all_fit ps vt cs"
    by (cases vs) auto
  have refl: "list_all2 grows_view vt vt" by (simp add: list_all2_refl)
  have ups: "v_ups v = length (cx_upvalues c)" using vs(2) by (simp add: fits_def)
  show ?case
  proof (cases "resolve_local c x")
    case (Some d)
    have "all_fit ps vs (mark_captured k c # cs)" for k using vs by (simp add: fits_mark)
    moreover have "\<exists>k. cs' = mark_captured k c # cs \<or> cs' = c # cs" "\<forall>d. res = Some (CRUpvalue d) \<longrightarrow> desc_below (outer_ups vs) d"
      using Cons.prems(2) Some by (auto split: var_kind.splits option.splits)
    moreover have "list_all2 grows_view vs vs" by (simp add: list_all2_refl)
    ultimately show ?thesis using Cons.prems(1) by blast
  next
    case None
    show ?thesis
    proof (cases "upvalue_index c x")
      case (Some i)
      then have i: "i < v_ups v" using upvalue_index_less ups by simp
      have "res = Some (CRUpvalue (ParentUpvalue (of_nat i)))" "cs' = c # cs"
        using Cons.prems(2) Some None by auto
      then show ?thesis
        using Cons.prems(1) vs i by (intro exI[of _ vs]) (simp add: outer_ups_def unat_of_nat_less list_all2_refl)
    next
      case none: None
      obtain r ct where r: "resolve_for_child x cs = (r, ct)" by fastforce
      from Cons.IH[OF vs(4) r] obtain wt where wt: "all_fit ps wt ct" "list_all2 grows_view vt wt"
          "\<And>d. r = Some (CRUpvalue d) \<Longrightarrow> desc_below (outer_ups wt) d"
        by blast
      have le: "outer_ups vt \<le> outer_ups wt" using wt(2) by (cases vt; cases wt) (auto simp: outer_ups_def grows_view_def)
      have descs: "list_all (desc_below (outer_ups wt)) (map snd (cx_upvalues c))" using vs(3) le by (rule descs_below_mono)
      show ?thesis
      proof (cases "\<exists>d. r = Some (CRUpvalue d)")
        case True
        then obtain d where d: "r = Some (CRUpvalue d)" by blast
        let ?v = "v\<lparr>v_ups := Suc (v_ups v)\<rparr>"
        have "res = Some (CRUpvalue (ParentUpvalue (of_nat (length (cx_upvalues c)))))" "cs' = push_upvalue x d c # ct"
          using Cons.prems(2) None none r d by auto
        moreover have "all_fit ps (?v # wt) (push_upvalue x d c # ct)"
          using fits_push[OF vs(2)] descs wt(1) wt(3)[OF d] by (simp add: push_upvalue_def)
        moreover have "grows_view v ?v" by (simp add: grows_view_def)
        ultimately show ?thesis using vs(1) wt(2) ups
          by (intro exI[of _ "?v # wt"]) (simp add: outer_ups_def unat_of_nat_less)
      next
        case False
        then have "cs' = c # ct" "\<nexists>d. res = Some (CRUpvalue d)"
          using Cons.prems(2) None none r by (auto split: option.splits child_resolution.splits)
        then show ?thesis using vs wt descs by (intro exI[of _ "v # wt"]) auto
      qed
    qed
  qed
qed

definition res_facts :: "resolved_name option \<Rightarrow> fact set" where
  "res_facts r = (case r of Some (RNUpvalue i) \<Rightarrow> {FUp (of_nat i)} | _ \<Rightarrow> {})"

lemma sound_resolve: "sound F (resolve_or_capture x) res_facts"
proof (rule soundI)
  fix v vs s r s'
  assume s: "state_ok (v # vs) s" and r: "resolve_or_capture x s = ok (r, s')"
  let ?ps = "st_protos s" and ?c = "st_ctx s"
  let ?goal = "\<exists>v' vs'. grows ?ps (v # vs) (st_protos s') (v' # vs') \<and> state_ok (v' # vs') s'
        \<and> (\<forall>f\<in>res_facts r. holds (st_protos s') v' f)"
  have fit: "fits ?ps v ?c" and outer: "all_fit ?ps vs (st_parents s)"
    and descs: "list_all (desc_below (outer_ups vs)) (map snd (cx_upvalues ?c))" and protos: "list_all (proto_ok ?ps) ?ps"
    using s by (auto simp: state_ok_def)
  have ups: "v_ups v = length (cx_upvalues ?c)" using fit by (simp add: fits_def)
  show ?goal
  proof (cases "upvalue_index ?c x")
    case (Some i)
    then have i: "as8 i < v_ups v" using upvalue_index_less[OF Some] ups le_less_trans[OF mod_less_eq_dividend] by simp
    have "r = Some (RNUpvalue (as8 i))" "s' = s" using r Some by (auto simp: resolve_or_capture_def)
    then show ?thesis using s i by (intro exI[of _ v] exI[of _ vs]) (simp add: res_facts_def unat_of_nat_less)
  next
    case None
    obtain q ps' where q: "resolve_for_child x (st_parents s) = (q, ps')" by fastforce
    from resolve_for_child_ok[OF outer q] obtain ws where ws: "all_fit ?ps ws ps'" "list_all2 grows_view vs ws"
        "\<And>d. q = Some (CRUpvalue d) \<Longrightarrow> desc_below (outer_ups ws) d"
      by blast
    have le: "outer_ups vs \<le> outer_ups ws" using ws(2) by (cases vs; cases ws) (auto simp: outer_ups_def grows_view_def)
    have descs': "list_all (desc_below (outer_ups ws)) (map snd (cx_upvalues ?c))" using descs le by (rule descs_below_mono)
    show ?thesis
    proof (cases "\<exists>d. q = Some (CRUpvalue d)")
      case True
      then obtain d where d: "q = Some (CRUpvalue d)" by blast
      let ?v = "v\<lparr>v_ups := Suc (v_ups v)\<rparr>"
      have res: "r = Some (RNUpvalue (as8 (length (cx_upvalues ?c))))"
        "s' = s\<lparr>st_parents := ps', st_ctx := push_upvalue x d ?c\<rparr>"
        using r None q d by (auto simp: resolve_or_capture_def)
      have ok': "state_ok (?v # ws) s'"
        using fits_push[OF fit] descs' ws(1) ws(3)[OF d] protos
        by (simp add: state_ok_def res push_upvalue_def)
      have "as8 (length (cx_upvalues ?c)) < Suc (length (cx_upvalues ?c))"
        by (rule le_less_trans[OF mod_less_eq_dividend]) simp
      then have "\<forall>f\<in>res_facts r. holds (st_protos s') ?v f"
        by (simp add: res_facts_def res(1) ups unat_of_nat_less)
      moreover have "grows ?ps (v # vs) (st_protos s') (?v # ws)"
        using ws(2) by (simp add: grows_def res(2) grows_view_def)
      ultimately show ?thesis using ok' by blast
    next
      case False
      then have res: "s' = s\<lparr>st_parents := ps'\<rparr>" "res_facts r = {}"
        using r None q by (auto simp: resolve_or_capture_def res_facts_def split: option.splits child_resolution.splits)
      have "state_ok (v # ws) s'" using fit descs' ws(1) protos by (simp add: state_ok_def res)
      moreover have "grows ?ps (v # vs) (st_protos s') (v # ws)" using ws(2) by (simp add: grows_def res)
      ultimately show ?thesis using res(2) by blast
    qed
  qed
qed

lemma step_resolve [soundness]:
  "(\<And>r. sound (res_facts r \<union> F) (f r) R) \<Longrightarrow> sound F (step (resolve_or_capture x) f) R"
  by (rule sound_step[OF sound_resolve])

lemma res_facts_simps [simp]: "res_facts None = {}" "res_facts (Some (RNConst v)) = {}" "res_facts (Some (RNUpvalue i)) = {FUp (of_nat i)}"
  by (simp_all add: res_facts_def)

lemma sound_env_upvalue: "sound F env_upvalue (\<lambda>i. {FUp (of_nat i)})"
proof -
  have *: "env_upvalue = step (resolve_or_capture env_name) (\<lambda>r. case r of
      None \<Rightarrow> fail (Internal ''_ENV must resolve; main chunk pre-seeds it'')
    | Some (RNUpvalue i) \<Rightarrow> give i
    | Some (RNConst _) \<Rightarrow> panic)"
    by (rule ext) (auto simp: env_upvalue_def resolve_env_upvalue_def step_def and_then_def or_fail_def give_def fail_def
        panic_def split: option.split sum.split prod.split resolved_name.split)
  show ?thesis unfolding *
    by (rule sound_step[OF sound_resolve]) (auto intro!: sound_fail sound_give split: option.split resolved_name.split)
qed

lemma step_env_upvalue [soundness]:
  "(\<And>i. sound ({FUp (of_nat i)} \<union> F) (f i) R) \<Longrightarrow> sound F (step env_upvalue f) R"
  by (rule sound_step[OF sound_env_upvalue])

end
