(* ===== verification/CompTyped.thy ===== *)
theory CompTyped
  imports CompSafe
begin

text \<open>
  Function bodies, expressions and statements keep every function well formed, for any compiler whose
  recursive calls do.
\<close>

section \<open>Function bodies\<close>

lemma safe_names [soundness]:
  "safe F (bind_param x)" "safe F (bind_vararg n x)" "safe F (use_as_value k)" "safe F (compile_global_read x d)"
  by (auto simp: bind_param_def bind_vararg_def use_as_value_def compile_global_read_def same_code_def
      intro!: soundness plain_updates split: list.split)

lemma safe_ident [soundness]:
  "safe F (compile_free_name x d)" "safe F (compile_expr_ident x d)" "safe F (compile_expr_literal v d)"
  by (auto simp: compile_free_name_def compile_expr_ident_def compile_expr_literal_def intro!: soundness
      split: option.split resolved_name.split var_kind.split literal_value.split)

lemma needs_materialised: "needs (materialised ins) = needs ins"
  by (cases ins) auto

lemma safe_finish_vararg [soundness]: "safe F (upd_chunk finish_vararg)"
proof (rule sound_local)
  fix ps v s and x :: unit and s'
  assume fit: "fits ps v (st_ctx s)" and x: "upd_chunk finish_vararg s = ok (x, s')"
  let ?d = "(st_ctx s)\<lparr>cx_chunk := finish_vararg (cx_chunk (st_ctx s))\<rparr>"
  have s': "s' = s\<lparr>st_ctx := ?d\<rparr>" using x by (simp add: upd_chunk_def update_def)
  have "fits ps v ?d"
    using fit by (auto simp: fits_def finish_vararg_def code_ok_def needs_materialised split: option.split)
  then show "changed {} ps v s s'" by (rule changedI[OF s']) simp_all
qed

lemma safe_close_at_end [soundness]: "safe F (close_at_end rs)"
proof (cases rs)
  case (Cons r rest)
  show ?thesis
  proof (rule sound_local)
    fix ps v and s s' :: comp_state and x :: unit
    let ?t = "tape (st_ctx s)"
    let ?d = "(st_ctx s)\<lparr>cx_chunk := (cx_chunk (st_ctx s))\<lparr>ck_tape := butlast ?t @ [CLOSE (of_nat r), List.last ?t]\<rparr>\<rparr>"
    assume fit: "fits ps v (st_ctx s)" and x: "close_at_end rs s = ok (x, s')"
    have s': "s' = s\<lparr>st_ctx := ?d\<rparr>" and t: "?t \<noteq> []"
      using x Cons by (auto simp: close_at_end_def reading_def upd_chunk_def update_def panic_def split: if_splits)
    have "fits ps v ?d"
      by (rule fitsI[OF fit]) (use fit t in \<open>auto simp: fits_def dest: in_set_butlastD\<close>)
    then show "changed {} ps v s s'" by (rule changedI[OF s']) simp_all
  qed
qed (auto simp: close_at_end_def intro!: soundness)

lemma needs_with_offset: "with_offset d ins = Some ins' \<Longrightarrow> needs ins' = {}"
  by (cases ins) auto

lemma apply_patches_needs:
  "apply_patches ls ps t = Some t' \<Longrightarrow> ins \<in> set t' \<Longrightarrow> f \<in> needs ins \<Longrightarrow> \<exists>i\<in>set t. f \<in> needs i"
proof (induction ls ps t rule: apply_patches.induct)
  case (2 ls i l ps t)
  from 2(2) obtain a b c where *: "with_offset a b = Some c" "apply_patches ls ps (t[i := c]) = Some t'"
      "idx ls l \<noteq> None" "idx t i = Some b" "a = jump_offset (the (idx ls l)) i"
    by (auto split: Option.bind_splits)
  then obtain target where "idx ls l = Some target" by blast
  with 2(1)[of target b c] * 2(3,4) obtain j where j: "j \<in> set (t[i := c])" "f \<in> needs j" by auto
  then have "j \<noteq> c" using needs_with_offset[OF *(1)] by auto
  then show ?case using j set_update_subset_insert[of t i c] by blast
qed auto

lemma assemble_ok:
  assumes "fits ps v c" "assemble ((cx_chunk c)\<lparr>ck_upvalue_desc := map snd (cx_upvalues c)\<rparr>) = Some p"
  shows "proto_ok ps p" "pr_upvalue_desc p = map snd (cx_upvalues c)"
proof -
  from assms(2) obtain code where code: "apply_patches (ck_labels (cx_chunk c)) (ck_jump_patches (cx_chunk c)) (tape c) = Some code"
    and p: "pr_code p = code" "pr_constants p = ck_constants (cx_chunk c)" "pr_prototypes p = ck_prototypes (cx_chunk c)"
      "pr_upvalue_desc p = map snd (cx_upvalues c)" "length (pr_ic_table p) = ck_next_ic_idx (cx_chunk c)"
    by (auto simp: assemble_def split: Option.bind_splits)
  show "pr_upvalue_desc p = map snd (cx_upvalues c)" by (rule p)
  have v: "v_consts v = pr_constants p" "length (v_keys v) = length (pr_ic_table p)" "v_kids v = length (pr_prototypes p)"
      "v_ups v = length (pr_upvalue_desc p)"
    using assms(1) p by (auto simp: fits_def)
  have eq: "\<lparr>v_consts = pr_constants p, v_keys = v_keys v, v_kids = length (pr_prototypes p), v_ups = length (pr_upvalue_desc p)\<rparr> = v"
    using v by (cases v) simp
  have "code_ok ps v (pr_code p)"
    using apply_patches_needs[OF code] assms(1) by (fastforce simp: code_ok_def fits_def p)
  moreover have "list_all (child_ok ps (length (pr_upvalue_desc p))) (pr_prototypes p)"
    using assms(1) p(3,4) by (auto simp: fits_def)
  ultimately show "proto_ok ps p"
    unfolding proto_ok_def using v(2) eq by (intro exI[of _ "v_keys v"]) simp
qed

text \<open>The chunk returned is that of the function the computation ends in.\<close>

definition ends_in_chunk :: "chunk comp \<Rightarrow> bool" where
  "ends_in_chunk m \<longleftrightarrow> (\<forall>s ch s'. m s = ok (ch, s') \<longrightarrow>
     ch = (cx_chunk (st_ctx s'))\<lparr>ck_upvalue_desc := map snd (cx_upvalues (st_ctx s'))\<rparr>)"

lemma ends_step: "(\<And>x. ends_in_chunk (f x)) \<Longrightarrow> ends_in_chunk (step m f)"
  unfolding ends_in_chunk_def by (blast elim: step_ok)

lemma ends_rules:
  "ends_in_chunk k \<Longrightarrow> ends_in_chunk (thn u k)"
  "(\<And>x. ends_in_chunk (h x)) \<Longrightarrow> ends_in_chunk (reading g h)"
  "ends_in_chunk (reading id (\<lambda>c. give ((cx_chunk c)\<lparr>ck_upvalue_desc := map snd (cx_upvalues c)\<rparr>)))"
  by (simp add: thn_def ends_step) (auto simp: ends_in_chunk_def reading_def give_def)

lemma function_ends: "ends_in_chunk (compile_function_to_chunk r stmts ps va x a)"
  unfolding compile_function_to_chunk_def by (intro ends_rules(3) ends_rules(1,2) ends_step)

lemma safe_function_to_chunk [soundness]:
  assumes "\<And>G st. safe G (rc_stmt r st)"
  shows "safe F (compile_function_to_chunk r stmts ps va x a)"
  unfolding compile_function_to_chunk_def by (auto intro!: soundness assms split: option.split)

lemma alloc_proto_ok:
  assumes "alloc_proto ch s = ok (a, s')"
  obtains p where "assemble ch = Some p" "a = length (st_protos s)" "s' = s\<lparr>st_protos := st_protos s @ [p]\<rparr>"
  using assms by (auto simp: alloc_proto_def step_def or_panic_def panic_def give_def split: option.splits)

lemma sound_nested:
  assumes "\<And>G st. safe G (rc_stmt r st)"
  shows "sound F (compile_nested r stmts ps va x n) (\<lambda>a. {FProto a})"
proof (rule soundI)
  fix v vs s a s'
  assume s: "state_ok (v # vs) s" and a: "compile_nested r stmts ps va x n s = ok (a, s')"
  let ?c = "ctx_new va n [] (cx_globals (st_ctx s))"
  let ?s1 = "s\<lparr>st_ctx := ?c, st_parents := st_ctx s # st_parents s\<rparr>"
  let ?w = "\<lparr>v_consts = [], v_keys = [], v_kids = 0, v_ups = 0\<rparr>"
  from a obtain ch s2 where ch: "compile_function_to_chunk r stmts ps va x n ?s1 = ok (ch, s2)"
      and rest: "thn leave_function (alloc_proto ch) s2 = ok (a, s')"
    by (auto simp: compile_nested_def reading_def thn_def step_def enter_function_def and_then_ok_iff)
  have "fits (st_protos s) ?w ?c" by (simp add: fits_def ctx_new_def chunk_new_def code_ok_def ic_limit_def)
  then have "state_ok (?w # v # vs) ?s1" using s by (simp add: state_ok_def ctx_new_def)
  from soundD[OF safe_function_to_chunk[OF assms, of "{}"] this _ ch] obtain w' vs' where
      "grows (st_protos s) (?w # v # vs) (st_protos s2) (w' # vs')" and s2: "state_ok (w' # vs') s2"
    by auto
  then obtain v' vt where vt: "vs' = v' # vt" and g: "grows (st_protos s) (v # vs) (st_protos s2) (v' # vt)"
    by (cases vs') (auto simp: grows_def)
  from s2 vt obtain c ct where c: "st_parents s2 = c # ct" "all_fit (st_protos s2) (v' # vt) (c # ct)"
    by (cases "st_parents s2") (auto simp: state_ok_def)
  from rest c(1) have "alloc_proto ch (s2\<lparr>st_ctx := c, st_parents := ct\<rparr>) = ok (a, s')"
    by (simp add: thn_def step_def leave_function_def)
  then obtain p where p: "assemble ch = Some p" "a = length (st_protos s2)"
      "s' = s2\<lparr>st_ctx := c, st_parents := ct, st_protos := st_protos s2 @ [p]\<rparr>"
    by (rule alloc_proto_ok) simp
  have fit: "fits (st_protos s2) w' (st_ctx s2)"
    and descs: "list_all (desc_below (v_ups v')) (map snd (cx_upvalues (st_ctx s2)))"
    and protos: "list_all (proto_ok (st_protos s2)) (st_protos s2)"
    using s2 vt by (auto simp: state_ok_def outer_ups_def)
  have "ch = (cx_chunk (st_ctx s2))\<lparr>ck_upvalue_desc := map snd (cx_upvalues (st_ctx s2))\<rparr>"
    using function_ends ch unfolding ends_in_chunk_def by blast
  note pok = assemble_ok[OF fit p(1)[unfolded this]]
  have pre: "prefix (st_protos s2) (st_protos s')" by (simp add: p(3))
  have "state_ok (v' # vt) s'"
    using all_fit_mono[OF c(2) pre] protos pok(1) proto_ok_mono[OF _ pre] p(3) by (auto simp: state_ok_def list_all_iff)
  moreover have "grows (st_protos s) (v # vs) (st_protos s') (v' # vt)"
    using g pre by (auto simp: grows_def intro: prefix_order.trans)
  moreover have "holds (st_protos s') v' (FProto a)"
    using descs pok(2) by (simp add: child_ok_def p)
  ultimately show "\<exists>v' vs'. grows (st_protos s) (v # vs) (st_protos s') (v' # vs') \<and> state_ok (v' # vs') s'
        \<and> (\<forall>f\<in>{FProto a}. holds (st_protos s') v' f)"
    by blast
qed

lemma sound_new_kid:
  assumes "FProto a \<in> F"
  shows "sound F (reading (\<lambda>c. as16 (length (ck_prototypes (cx_chunk c)))) (\<lambda>i.
     thn (upd_chunk (\<lambda>c. c\<lparr>ck_prototypes := ck_prototypes c @ [a]\<rparr>)) (give i))) (\<lambda>i. {FKid (of_nat i)})"
    (is "sound F ?m _")
proof (rule sound_local)
  fix ps and v :: view and s s' :: comp_state and i
  let ?ch = "cx_chunk (st_ctx s)"
  let ?d = "(st_ctx s)\<lparr>cx_chunk := ?ch\<lparr>ck_prototypes := ck_prototypes ?ch @ [a]\<rparr>\<rparr>"
  let ?w = "v\<lparr>v_kids := Suc (v_kids v)\<rparr>"
  assume fit: "fits ps v (st_ctx s)" and F: "\<And>f. f \<in> F \<Longrightarrow> holds ps v f" and m: "?m s = ok (i, s')"
  have i: "i = as16 (length (ck_prototypes ?ch))" and s': "s' = s\<lparr>st_ctx := ?d\<rparr>"
    using m by (auto simp: reading_def thn_def step_def upd_chunk_def update_def give_def)
  have g: "grows_view v ?w" by (simp add: grows_view_def)
  have "as16 (length (ck_prototypes ?ch)) < Suc (v_kids v)"
    using fit by (intro le_less_trans[OF mod_less_eq_dividend]) (simp add: fits_def)
  then have "unat (of_nat i :: u16) < Suc (v_kids v)" unfolding i by (rule unat_of_nat_less)
  moreover have "v_kids ?w = Suc (v_kids v)" by simp
  ultimately have new: "holds ps ?w (FKid (of_nat i))" by (simp only: holds.simps)
  have "fits ps ?w ?d"
    by (rule fitsI[OF fit g]) (use fit F[OF assms] in \<open>auto simp: fits_def\<close>)
  then show "changed {FKid (of_nat i)} ps v s s'"
    using g new by (intro changedI[OF s']) auto
qed

lemma step_new_kid:
  assumes "FProto a \<in> F" "\<And>i. sound ({FKid (of_nat i)} \<union> F) (k i) R"
  shows "sound F (reading (\<lambda>c. as16 (length (ck_prototypes (cx_chunk c)))) (\<lambda>i.
     thn (upd_chunk (\<lambda>c. c\<lparr>ck_prototypes := ck_prototypes c @ [a]\<rparr>)) (k i))) R"
proof -
  have "reading f (\<lambda>i. thn u (k i)) = step (reading f (\<lambda>i. thn u (give i))) k" for f and u :: "unit comp"
    by (rule ext) (auto simp: reading_def thn_def step_def give_def and_then_def split: option.split sum.split prod.split)
  then show ?thesis using sound_step[OF sound_new_kid[OF assms(1)] assms(2)] by simp
qed

lemma safe_func_body [soundness]:
  assumes "\<And>G st. safe G (rc_stmt r st)"
  shows "safe F (compile_func_body r body d)"
proof (cases body)
  case (FuncBody ps va stmts)
  show ?thesis
    unfolding compile_func_body_def FuncBody func_body.case
    by (rule sound_step[OF sound_nested[OF assms]], rule step_new_kid) (auto intro!: soundness)
qed

section \<open>Expressions\<close>

lemma safe_operators [soundness]:
  "safe F (finish_call f w x)" "safe F (move_up t src)" "safe F (flush_array d b c p)"
  "safe F (compile_not e' dst)" "safe F (discharge_operands first l r)"
  by (auto simp: finish_call_def move_up_def flush_array_def compile_not_def discharge_operands_def
      intro!: soundness split: want.split expr_kind.split option.split)

lemma binary_needs: "binary_instr opr = Some ins \<Longrightarrow> needs (ins a b c) = {}"
  by (cases opr) auto

lemma comparison_needs: "comparison_instr opr a b = Some ins \<Longrightarrow> needs ins = {}"
  by (cases opr) auto

lemma safe_or_fail [soundness]: "(\<And>x. opt = Some x \<Longrightarrow> sound F (f x) Q) \<Longrightarrow> sound F (step (or_fail opt e) f) Q"
  by (cases opt) (auto simp: or_fail_def step_def fail_def give_def sound_def)

lemma step_property_key [soundness]:
  assumes "\<And>k ic. sound (key_facts (k, ic) \<union> F) (f (Some (k, ic))) R" "sound F (f None) R"
  shows "sound F (step (try_property_key_constant e) f) R"
proof (cases "\<exists>x. e = EIdent x")
  case True
  then obtain x where x: "e = EIdent x" ..
  have "step (try_property_key_constant e) f = step (alloc_field_key x) (\<lambda>k. f (Some k))"
    by (rule ext) (auto simp: x try_property_key_constant_def step_def give_def and_then_def split: option.split sum.split)
  then show ?thesis using step_alloc_field_key assms(1) by metis
next
  case False
  then have "step (try_property_key_constant e) f = f None"
    by (cases e) (auto simp: try_property_key_constant_def step_def give_def)
  then show ?thesis using assms(2) by simp
qed

section \<open>Parts of statements\<close>

lemma safe_scoped [soundness]: "safe F m \<Longrightarrow> safe F (scope_lexical m)" "safe F m \<Longrightarrow> safe F (scope_break m)"
  by (auto simp: scope_lexical_def scope_break_def same_code_def intro!: soundness safe_update split: list.split)

lemma safe_stmt_parts [soundness]:
  "safe F (name_label x l)" "safe F (compile_label x)" "safe F (compile_goto x)" "safe F (settle_value a b)"
  "safe F (expand_vararg a b)" "safe F (expand_count n)" "safe F (upd_globals g)" "safe F compile_break"
  "safe F break_label" "safe F (compile_global_star const)" "safe F (declare_global x k)"
  by (auto simp: name_label_def compile_label_def compile_goto_def settle_value_def expand_vararg_def expand_count_def
      upd_globals_def compile_break_def break_label_def compile_global_star_def declare_global_def same_code_def
      intro!: soundness safe_update split: option.split list.split)

lemma safe_global_init [soundness]:
  "FUp (of_nat env) \<in> F \<Longrightarrow> FStr (of_nat key) \<in> F \<Longrightarrow> FKey (of_nat ic) (of_nat key) \<in> F \<Longrightarrow>
    safe F (emit_global_init src env key ic)"
  by (auto simp: emit_global_init_def intro!: soundness)

lemma safe_global_inits [soundness]: "FUp (of_nat env) \<in> F \<Longrightarrow> safe F (emit_global_inits b env i xs)"
  by (induction b env i xs arbitrary: F rule: emit_global_inits.induct) (auto intro!: soundness)

lemma safe_pad_nil [soundness]: "safe F (pad_nil f n)"
proof (induction f n arbitrary: F rule: pad_nil.induct)
  case (1 f n)
  then show ?case by (subst pad_nil.simps) (auto intro!: soundness)
qed

lemma safe_binders [soundness]: "safe F (bind_targets b k i ts)" "safe F (loop_vars b j xs)"
proof -
  show "safe F (bind_targets b k i ts)" by (induction b k i ts rule: bind_targets.induct) (auto intro!: soundness)
  show "safe F (loop_vars b j xs)" by (induction b j xs rule: loop_vars.induct) (auto intro!: soundness)
qed

fun lv_facts :: "lvalue \<Rightarrow> fact set" where
  "lv_facts (LVUpvalue i) = {FUp (of_nat i)}"
| "lv_facts (LVGlobal env key ic) = {FUp (of_nat env), FStr (of_nat key), FKey (of_nat ic) (of_nat key)}"
| "lv_facts (LVField t key ic) = {FStr (of_nat key), FKey (of_nat ic) (of_nat key)}"
| "lv_facts _ = {}"

lemma sound_global_lvalue: "sound F (compile_global_lvalue x) lv_facts"
  by (auto simp: compile_global_lvalue_def Let_def intro!: soundness sound_give
      split: option.split global_kind.split default_policy.split)

lemma sound_name_lvalue: "sound F (compile_name_lvalue x) lv_facts"
  by (auto simp: compile_name_lvalue_def intro!: soundness sound_give sound_global_lvalue
      split: option.split resolved_name.split)

lemma safe_store [soundness]: "lv_facts lv \<subseteq> F \<Longrightarrow> safe F (emit_store lv src)"
  by (auto simp: emit_store_def intro!: soundness split: lvalue.split)

lemma safe_stores [soundness]: "(\<Union>lv\<in>set lvs. lv_facts lv) \<subseteq> F \<Longrightarrow> safe F (emit_stores (zip lvs srcs))"
  unfolding emit_stores_def
  by (auto intro!: soundness split: option.split) (meson UN_subset_iff set_zip_leftD subsetD)

lemma safe_assign_parts [soundness]: "safe F (assign_nils lvs)" "safe F (save_sources rs lvs ps)"
proof -
  show "safe F (assign_nils lvs)" by (induction lvs arbitrary: F) (auto intro!: soundness)
  show "safe F (save_sources rs lvs ps)"
    by (induction rs lvs ps rule: save_sources.induct) (auto intro!: soundness split: option.split)
qed

lemma safe_tail_call [soundness]: "safe F m \<Longrightarrow> safe F (compile_tail_call m)"
  by (auto simp: compile_tail_call_def intro!: soundness)

section \<open>The interface\<close>

locale sound_compiler =
  fixes r :: compiler
  assumes expr_safe [soundness]: "safe F (rc_expr r e d)"
    and call_safe [soundness]: "safe F (rc_call r e w)"
    and stmt_safe [soundness]: "safe F (rc_stmt r st)"
begin

lemma to_reg [soundness]: "safe F (compile_to_reg r e d)"
  by (auto simp: compile_to_reg_def intro!: soundness)

lemma into [soundness]: "safe F (compile_into r e t)"
  by (auto simp: compile_into_def intro!: soundness)

lemma trailing [soundness]: "safe F (compile_trailing_multires r e t)"
  by (auto simp: compile_trailing_multires_def intro!: soundness split: expr.split)

lemma args_loop [soundness]: "safe F (call_args_loop r f off i es)"
  by (induction es arbitrary: i) (auto intro!: soundness)

lemma call_args [soundness]: "safe F (compile_call_args r es f off)"
  by (auto simp: compile_call_args_def intro!: soundness)

lemma setups [soundness]: "safe F (emit_func_call_setup r e es)" "safe F (emit_method_call_setup r e m es)"
  by (auto simp: emit_func_call_setup_def emit_method_call_setup_def intro!: soundness)

lemma call_exprs [soundness]: "safe F (compile_expr_func_call r e es w)" "safe F (compile_expr_method_call r e m es w)"
  by (auto simp: compile_expr_func_call_def compile_expr_method_call_def intro!: soundness)

lemma calls [soundness]: "safe F (compile_call r e w)"
  by (auto simp: compile_call_def intro!: soundness split: expr.split)

lemma entry_parts [soundness]:
  "safe F (compile_array_entry r d b e c p)" "safe F (compile_last_entry r d b e c p)"
  "safe F (compile_map_entry r d x e)" "safe F (compile_generic_entry r d k e)"
  by (auto simp: compile_array_entry_def compile_last_entry_def compile_map_entry_def compile_generic_entry_def
      intro!: soundness)

lemma entries [soundness]: "safe F (table_entries r d b es cp)"
proof (induction es arbitrary: cp)
  case Nil
  then show ?case by (cases cp) (auto intro!: soundness)
next
  case (Cons e es)
  then show ?case by (cases cp; cases e) (auto intro!: soundness)
qed

lemma table [soundness]: "safe F (compile_expr_table r es)"
  by (auto simp: compile_expr_table_def intro!: soundness)

lemma indexing [soundness]:
  "safe F (compile_expr_index r t k d)" "safe F (compile_property_key r k d)" "safe F (compile_property r t k d)"
proof -
  show *: "safe F (compile_property_key r k d)" for F d
    by (auto simp: compile_property_key_def intro!: soundness split: expr.split)
  show "safe F (compile_expr_index r t k d)"
    by (auto simp: compile_expr_index_def intro!: soundness split: option.split)
  show "safe F (compile_property r t k d)"
    by (auto simp: compile_property_def intro!: soundness * split: option.split expr.split)
qed

lemma call_value [soundness]: "safe F m \<Longrightarrow> safe F (call_value m)"
  by (auto simp: call_value_def intro!: soundness)

lemma operators [soundness]:
  "safe F (compile_expr_prefix_op r opr a d)" "safe F (compile_arith r bop a b d)"
  "safe F (compile_comparison_desc r bop a b)" "safe F (compile_logical_and_desc r a b d)"
  "safe F (compile_logical_or_desc r a b d)"
  by (auto simp: compile_expr_prefix_op_def Let_def compile_arith_def compile_comparison_desc_def
      compile_logical_and_desc_def compile_logical_or_desc_def binary_needs comparison_needs intro!: soundness
      split: option.split prefix_operator.split)

lemma binary [soundness]: "safe F (compile_expr_binary_op r bop a b d)"
  unfolding compile_expr_binary_op_def by (intro soundness)

lemma exprs: "safe F (compile_expr r e d)"
  by (cases e) (auto simp: compile_expr_def intro!: soundness)

lemma block [soundness]: "safe F (compile_block r stmts)"
  by (auto simp: compile_block_def intro!: soundness)

lemma body [soundness]: "safe F (compile_func_body r body d)"
  by (rule safe_func_body) (rule stmt_safe)

lemma expansions [soundness]:
  "safe F (expand_method_call r e b k)" "safe F (expand_call r e b k)" "safe F (expand_control r e b k)"
  "safe F (compile_decl_value r e b)"
  by (auto simp: expand_method_call_def expand_call_def expand_control_def compile_decl_value_def
      intro!: soundness split: expr.split)

lemma values_loops [soundness]:
  "safe F (decl_values r b k m i es)" "safe F (global_values r b k m i es)"
  "safe F (assign_values r k m hs es pend)" "safe F (return_values r b i es)" "safe F (iterator_values r b m i es)"
proof -
  show "safe F (decl_values r b k m i es)" by (induction es arbitrary: i) (auto intro!: soundness split: expr.split)
  show "safe F (global_values r b k m i es)" by (induction es arbitrary: i) (auto intro!: soundness split: expr.split)
  show "safe F (assign_values r k m hs es pend)"
    by (induction es arbitrary: hs pend) (auto intro!: soundness split: expr.split)
  show "safe F (return_values r b i es)" by (induction es arbitrary: i) (auto intro!: soundness)
  show "safe F (iterator_values r b m i es)" by (induction es arbitrary: i) (auto intro!: soundness)
qed

lemma named_funcs [soundness]: "safe F (compile_local_func r x body)" "safe F (compile_global_func r x body)"
  by (auto simp: compile_local_func_def compile_global_func_def intro!: soundness)

lemma decls [soundness]: "safe F (compile_decl r ts es)" "safe F (compile_global_list r c gs es)"
  by (auto simp: compile_decl_def compile_global_list_def global_value_block_def intro!: soundness)

lemma indexed_subexpr [soundness]: "safe F (compile_indexed_subexpr r e regs)"
  by (auto simp: compile_indexed_subexpr_def intro!: soundness)

lemma lvalue: "sound F (compile_lvalue r e regs) lv_facts"
  by (auto simp: compile_lvalue_def intro!: soundness sound_give sound_name_lvalue split: expr.split)

lemma step_lvalue [soundness]:
  "(\<And>lv. sound (lv_facts lv \<union> F) (f lv) R) \<Longrightarrow> sound F (step (compile_lvalue r e regs) f) R"
  by (rule sound_step[OF lvalue])

lemma lvalues: "sound F (compile_lvalues r regs es) (\<lambda>lvs. \<Union>lv\<in>set lvs. lv_facts lv)"
proof (induction es arbitrary: F)
  case (Cons e es)
  show ?case unfolding compile_lvalues.simps
    by (rule step_lvalue, rule sound_step[OF Cons.IH]) (auto intro!: sound_give)
qed (auto intro!: sound_give)

lemma step_lvalues [soundness]:
  "(\<And>lvs. sound ((\<Union>lv\<in>set lvs. lv_facts lv) \<union> F) (f lvs) R) \<Longrightarrow> sound F (step (compile_lvalues r regs es) f) R"
  by (rule sound_step[OF lvalues])

lemma assign [soundness]: "safe F (compile_assign r ts es)" "safe F (compile_func r e b)"
  by (auto simp: compile_assign_def compile_func_def compile_assign_lhs_def intro!: soundness)

lemma stmt_expr [soundness]: "safe F (compile_stmt_expr r e)"
  by (cases e) (auto simp: compile_stmt_expr_def Let_def intro!: soundness)

lemma return_parts [soundness]:
  "safe F (compile_return_one r e)" "safe F (compile_return_generic r es)" "safe F (compile_return r es)"
proof -
  show *: "safe F (compile_return_one r e)" for e
    by (auto simp: compile_return_one_def intro!: soundness split: expr_kind.split bool.split)
  show **: "safe F (compile_return_generic r es)" for es
    by (auto simp: compile_return_generic_def intro!: soundness * split: list.split expr.split)
  show "safe F (compile_return r es)" for es
    by (auto simp: compile_return_def intro!: soundness ** split: list.split expr.split)
qed

lemma branch [soundness]: "safe F (compile_branch_cond_false r e)"
  by (auto simp: compile_branch_cond_false_def intro!: soundness)

lemma if_chain [soundness]: "r' = r \<Longrightarrow> safe F (compile_if_chain r' l e b chain)"
  by (induction r' l e b chain rule: compile_if_chain.induct) (auto intro!: soundness)

lemma control [soundness]: "safe F (control_value r e rg)"
  by (auto simp: control_value_def intro!: soundness)

lemma loops [soundness]:
  "safe F (compile_do r b)" "safe F (compile_while r e b)" "safe F (compile_repeat r b e)"
  "safe F (compile_if r e b chain)" "safe F (compile_for_num r x e e' inc b)" "safe F (compile_for_gen r ns es b)"
  by (auto simp: compile_do_def compile_while_def compile_repeat_def compile_if_def compile_for_num_def
      compile_for_gen_def scope_lexical_break_def intro!: soundness split: option.split)

lemma stmts: "safe F (compile_stmt r st)"
  by (cases st) (auto simp: compile_stmt_def intro!: soundness)

end

section \<open>The compilers of every depth\<close>

lemma sound_compiler_at: "sound_compiler (compiler_at powf n)"
proof (induction n)
  case 0
  show ?case by unfold_locales (auto intro: soundness)
next
  case (Suc n)
  show ?case
    by unfold_locales
      (auto simp: Let_def intro: sound_compiler.exprs[OF Suc.IH] sound_compiler.calls[OF Suc.IH] sound_compiler.stmts[OF Suc.IH])
qed

interpretation typed: sound_compiler "compiler_at powf n" for powf n
  by (rule sound_compiler_at)

end
