(* ===== verification/CompFinish.thy ===== *)
theory CompFinish
  imports CompStmt
begin

text \<open>
  The compiler never uses up the nesting depth it is given: the rules for computations that do not
  end in \<open>Unfinished\<close>, and the interface a compiler of a given depth offers to the next one.
\<close>

section \<open>Computations that finish\<close>

definition finishes :: "'a comp \<Rightarrow> bool" where
  "finishes m \<longleftrightarrow> (\<forall>s. m s \<noteq> err Unfinished)"

named_theorems finishing \<open>computations that finish\<close>

lemma finishes_give [finishing]: "finishes (give x)"
  by (simp add: finishes_def give_def)

lemma finishes_fail [finishing]: "finishes (fail e)"
  by (simp add: finishes_def fail_def)

lemma finishes_panic [finishing]: "finishes panic"
  by (simp add: finishes_def panic_def)

lemma finishes_step [finishing]: "finishes m \<Longrightarrow> (\<And>x. finishes (f x)) \<Longrightarrow> finishes (step m f)"
  by (auto simp: finishes_def step_def and_then_def split: option.splits sum.splits)

lemma finishes_thn [finishing]: "finishes m \<Longrightarrow> finishes k \<Longrightarrow> finishes (thn m k)"
  unfolding thn_def by (rule finishes_step)

lemma finishes_reading [finishing]: "(\<And>x. finishes (k x)) \<Longrightarrow> finishes (reading f k)"
  by (simp add: finishes_def reading_def)

lemma finishes_update [finishing]: "finishes (update f)"
  by (simp add: finishes_def update_def)

lemma finishes_if [finishing]: "(b \<Longrightarrow> finishes m) \<Longrightarrow> (\<not> b \<Longrightarrow> finishes k) \<Longrightarrow> finishes (if b then m else k)"
  by simp

lemma finishes_each [finishing]: "(\<And>x. x \<in> set xs \<Longrightarrow> finishes (f x)) \<Longrightarrow> finishes (each f xs)"
  by (induction xs) (auto intro!: finishing)

lemma finishes_basic [finishing]:
  "finishes (check b)" "finishes (upd_chunk g)" "finishes (or_fail x e)" "finishes (or_panic x)"
  "finishes (add8 i j)" "finishes (add16 i j)"
  by (auto simp: check_def upd_chunk_def or_fail_def or_panic_def add8_def add16_def intro!: finishing split: option.split)

section \<open>Emission\<close>

lemma finishes_regs [finishing]:
  "finishes (emit i)" "finishes (set_freereg n)" "finishes (raise_freereg n)" "finishes reserve_reg"
  "finishes (reserve_regs n)" "finishes alloc_register" "finishes (free_reg n)" "finishes (adjust_locals n)"
  by (auto simp: emit_def set_freereg_def raise_freereg_def reserve_reg_def reserve_regs_def alloc_register_def
      free_reg_def adjust_locals_def intro!: finishing split: prod.split)

lemma finishes_alloc_upto [finishing]: "finishes (alloc_upto f n)"
proof (induction f n rule: alloc_upto.induct)
  case (1 f n)
  then show ?case by (subst alloc_upto.simps) (auto intro!: finishing)
qed

lemma finishes_regs2 [finishing]:
  "finishes (free_regs a b)" "finishes (dst_or_alloc d)" "finishes (alloc_to n)" "finishes (emit_into d ins)"
  by (auto simp: free_regs_def dst_or_alloc_def alloc_to_def emit_into_def intro!: finishing split: option.split)

lemma finishes_labels [finishing]:
  "finishes new_label" "finishes (set_label l i)" "finishes (set_label_here l)" "finishes (add_patch i l)"
  "finishes (emit_jump_instr l ins)" "finishes (emit_jump l)" "finishes emit_unfilled_jmp"
  by (auto simp: new_label_def set_label_def set_label_here_def add_patch_def emit_jump_instr_def emit_jump_def
      emit_unfilled_jmp_def intro!: finishing)

lemma finishes_ctrl [finishing]: "(\<And>ins. finishes (k ins)) \<Longrightarrow> finishes (ctrl_of j k)"
  by (auto simp: ctrl_of_def intro!: finishing)

lemma finishes_jumps [finishing]:
  "finishes (set_instr i ins)" "finishes (assert_ctrl_predecessor j)" "finishes (downgrade_testsets js)"
  "finishes (patch_jmp t j)" "finishes (retarget t j)" "finishes (emit_test_jump r b)" "finishes (flip_control_polarity j)"
  by (auto simp: set_instr_def assert_ctrl_predecessor_def downgrade_testsets_def patch_jmp_def retarget_def
      emit_test_jump_def flip_control_polarity_def intro!: finishing)

lemma finishes_elide [finishing]: "finishes (elide n js)"
  by (induction n arbitrary: js) (auto simp: Let_def intro!: finishing)

lemma finishes_need_value [finishing]: "finishes (need_value js)"
  by (induction js) (auto intro!: finishing)

lemma finishes_patch [finishing]:
  "finishes (patch_to js t)" "finishes (patch_to_here js)" "finishes (patch_list_aux js v r d)"
  "finishes (codenot e k)" "finishes (negate_cond e)"
  by (auto simp: patch_to_def patch_to_here_def patch_list_aux_def codenot_def negate_cond_def
      intro!: finishing split: prod.split)

lemma finishes_alloc_constant [finishing]: "finishes (alloc_constant v)"
  by (auto simp: alloc_constant_def intro!: finishing split: option.split)

lemma finishes_keys [finishing]: "finishes (alloc_string_constant b)" "finishes (alloc_field_key b)"
  by (auto simp: alloc_string_constant_def alloc_field_key_def intro!: finishing split: prod.split)

lemma finishes_discharge_parts [finishing]:
  "finishes (load_constant e h)" "finishes (discharge_dst k h)" "finishes (emit_tail b d)"
  by (auto simp: load_constant_def discharge_dst_def emit_tail_def intro!: finishing split: option.split expr_kind.split)

lemma finishes_resolve_jumps [finishing]: "finishes (resolve_jumps e b d)"
  by (auto simp: resolve_jumps_def intro!: finishing split: option.split prod.split)

lemma finishes_discharge [finishing]: "finishes (discharge_to_reg e h)"
  by (auto simp: discharge_to_reg_def Let_def intro!: finishing split: option.split expr_kind.split bool.split)

lemma finishes_discharge_reg [finishing]: "finishes (discharge_reg e h)"
  by (auto simp: discharge_reg_def intro!: finishing)

lemma finishes_go [finishing]: "finishes (test_reg r b)" "finishes (goiftrue e)" "finishes (goiffalse e)"
  by (auto simp: test_reg_def goiftrue_def goiffalse_def intro!: finishing split: expr_kind.split option.split)

lemma finishes_scopes [finishing]:
  "finishes push_scope" "finishes pop_scope" "finishes (mark_close r)" "finishes (define_name x r k)"
  by (auto simp: push_scope_def pop_scope_def mark_close_def define_name_def intro!: finishing split: list.split prod.split)

lemma finishes_resolve [finishing]: "finishes (resolve_or_capture x)"
  by (auto simp: finishes_def resolve_or_capture_def split: option.split prod.split child_resolution.split)

lemma finishes_env [finishing]: "finishes resolve_env_upvalue" "finishes env_upvalue"
  by (auto simp: resolve_env_upvalue_def env_upvalue_def intro!: finishing split: option.split resolved_name.split)

lemma finishes_functions [finishing]:
  "finishes (enter_function c)" "finishes leave_function" "finishes (alloc_proto ch)"
proof -
  have "finishes (\<lambda>s. ok (length (st_protos s), s\<lparr>st_protos := st_protos s @ [p]\<rparr>))" for p
    by (simp add: finishes_def)
  then show "finishes (alloc_proto ch)" by (auto simp: alloc_proto_def intro!: finishing)
qed (auto simp: finishes_def enter_function_def leave_function_def split: list.split)

lemma finishes_names [finishing]:
  "finishes (bind_param x)" "finishes (bind_vararg n x)" "finishes (close_at_end rs)" "finishes (use_as_value k)"
  "finishes (compile_global_read x d)"
  by (auto simp: bind_param_def bind_vararg_def close_at_end_def use_as_value_def compile_global_read_def
      intro!: finishing split: list.split)

lemma finishes_ident [finishing]:
  "finishes (compile_free_name x d)" "finishes (compile_expr_ident x d)" "finishes (compile_expr_literal v d)"
  by (auto simp: compile_free_name_def compile_expr_ident_def compile_expr_literal_def intro!: finishing
      split: option.split resolved_name.split var_kind.split literal_value.split)

lemma finishes_calls [finishing]:
  "finishes (finish_call f w x)" "finishes (move_up t src)" "finishes (flush_array d b c p)"
  by (auto simp: finish_call_def move_up_def flush_array_def intro!: finishing split: want.split)

lemma finishes_operators [finishing]:
  "finishes (try_property_key_constant e)" "finishes (compile_not e' d)" "finishes (discharge_operands b l r)"
  by (auto simp: try_property_key_constant_def compile_not_def discharge_operands_def intro!: finishing
      split: expr.split expr_kind.split option.split)

lemma finishes_stmt_parts [finishing]:
  "finishes (name_label x l)" "finishes (compile_label x)" "finishes (compile_goto x)" "finishes (settle_value a b)"
  "finishes (expand_vararg a b)" "finishes (expand_count n)" "finishes (upd_globals g)" "finishes (emit_global_init a b c d)"
  "finishes compile_break" "finishes break_label" "finishes (compile_global_star c')"
  by (auto simp: name_label_def compile_label_def compile_goto_def settle_value_def expand_vararg_def expand_count_def
      upd_globals_def emit_global_init_def compile_break_def break_label_def compile_global_star_def
      intro!: finishing split: option.split list.split)

lemma finishes_pad_nil [finishing]: "finishes (pad_nil f n)"
proof (induction f n rule: pad_nil.induct)
  case (1 f n)
  then show ?case by (subst pad_nil.simps) (auto intro!: finishing)
qed

lemma finishes_bind_targets [finishing]: "finishes (bind_targets b k i ts)"
  by (induction b k i ts rule: bind_targets.induct) (auto intro!: finishing)

lemma finishes_globals [finishing]: "finishes (declare_global x k)" "finishes (compile_global_lvalue x)"
  by (auto simp: declare_global_def compile_global_lvalue_def Let_def intro!: finishing
      split: option.split global_kind.split default_policy.split)

lemma finishes_global_inits [finishing]: "finishes (emit_global_inits b e i xs)"
  by (induction b e i xs rule: emit_global_inits.induct) (auto intro!: finishing)

lemma finishes_name_lvalue [finishing]: "finishes (compile_name_lvalue x)" "finishes (emit_store lv src)"
  by (auto simp: compile_name_lvalue_def emit_store_def intro!: finishing
      split: option.split resolved_name.split lvalue.split)

lemma finishes_assign_parts [finishing]: "finishes (assign_nils lvs)" "finishes (save_sources rs lvs ps)" "finishes (emit_stores xs)"
proof -
  show "finishes (assign_nils lvs)" by (induction lvs) (auto intro!: finishing)
  show "finishes (save_sources rs lvs ps)"
    by (induction rs lvs ps rule: save_sources.induct) (auto intro!: finishing split: option.split)
  show "finishes (emit_stores xs)" by (auto simp: emit_stores_def intro!: finishing split: option.split)
qed

lemma finishes_scoped [finishing]:
  assumes "finishes m"
  shows "finishes (scope_lexical m)" "finishes (scope_break m)"
  using assms by (auto simp: scope_lexical_def scope_break_def intro!: finishing split: list.split)

lemma finishes_loop_vars [finishing]: "finishes (loop_vars b i xs)"
  by (induction b i xs rule: loop_vars.induct) (auto intro!: finishing)

lemma finishes_tail_call [finishing]: "finishes m \<Longrightarrow> finishes (compile_tail_call m)"
  by (auto simp: compile_tail_call_def intro!: finishing)

lemma finishes_call_value [finishing]: "finishes m \<Longrightarrow> finishes (call_value m)"
  by (auto simp: call_value_def intro!: finishing)

end
