(* ===== verification/CompDepth.thy ===== *)
theory CompDepth
  imports CompFinish
begin

text \<open>
  The nesting depth suffices: a compiler of depth \<open>n\<close> finishes on every expression and statement smaller
  than \<open>n\<close>, whatever the state.
\<close>

lemma sized_of: "size_list f xs < n \<Longrightarrow> x \<in> set xs \<Longrightarrow> f x < n"
  by (meson dual_order.strict_trans2 le_refl not_le size_list_estimation')

locale compiler_upto =
  fixes r :: compiler and n :: nat
  assumes expr_finishes: "size e < n \<Longrightarrow> finishes (rc_expr r e d)"
    and call_finishes: "size e < n \<Longrightarrow> finishes (rc_call r e w)"
    and stmt_finishes: "size st < n \<Longrightarrow> finishes (rc_stmt r st)"
begin

lemma to_reg [finishing]: "size e < n \<Longrightarrow> finishes (compile_to_reg r e d)"
  by (auto simp: compile_to_reg_def intro!: finishing expr_finishes)

lemma into [finishing]: "size e < n \<Longrightarrow> finishes (compile_into r e t)"
  by (auto simp: compile_into_def intro!: finishing)

lemma block [finishing]: "size_list size stmts < n \<Longrightarrow> finishes (compile_block r stmts)"
  by (auto simp: compile_block_def intro!: finishing stmt_finishes dest: sized_of)

lemma function_to_chunk [finishing]:
  "size_list size stmts < n \<Longrightarrow> finishes (compile_function_to_chunk r stmts ps v x a)"
  using block[of stmts] unfolding compile_block_def
  by (auto simp: compile_function_to_chunk_def bind_vararg_def intro!: finishing split: option.split)

lemma func_body [finishing]: "size body < n \<Longrightarrow> finishes (compile_func_body r body d)"
  by (cases body) (auto simp: compile_func_body_def compile_nested_def intro!: finishing)

lemma trailing [finishing]: "size e < n \<Longrightarrow> finishes (compile_trailing_multires r e t)"
  by (auto simp: compile_trailing_multires_def intro!: finishing call_finishes split: expr.split)

lemma args_loop [finishing]: "size_list size es < n \<Longrightarrow> finishes (call_args_loop r f off i es)"
  by (induction es arbitrary: i) (auto intro!: finishing)

lemma call_args [finishing]: "size_list size es < n \<Longrightarrow> finishes (compile_call_args r es f off)"
  by (auto simp: compile_call_args_def intro!: finishing)

lemma setups [finishing]:
  assumes "size e < n" "size_list size es < n"
  shows "finishes (emit_func_call_setup r e es)" "finishes (emit_method_call_setup r e m es)"
  using assms by (auto simp: emit_func_call_setup_def emit_method_call_setup_def intro!: finishing)

lemma call_exprs [finishing]:
  assumes "size e < n" "size_list size es < n"
  shows "finishes (compile_expr_func_call r e es w)" "finishes (compile_expr_method_call r e m es w)"
  using assms by (auto simp: compile_expr_func_call_def compile_expr_method_call_def intro!: finishing)

lemma calls [finishing]: "size e \<le> n \<Longrightarrow> finishes (compile_call r e w)"
  by (auto simp: compile_call_def intro!: finishing split: expr.split)

lemma call_values [finishing]: "finishes m \<Longrightarrow> finishes (call_value m)"
  by (auto simp: call_value_def intro!: finishing)

lemma entry_parts [finishing]:
  assumes "size e < n"
  shows "finishes (compile_array_entry r d b e c p)" "finishes (compile_last_entry r d b e c p)"
    "finishes (compile_map_entry r d x e)" "size k < n \<Longrightarrow> finishes (compile_generic_entry r d k e)"
  using assms by (auto simp: compile_array_entry_def compile_last_entry_def compile_map_entry_def
      compile_generic_entry_def intro!: finishing)

lemma entries [finishing]: "size_list size es < n \<Longrightarrow> finishes (table_entries r d b es cp)"
proof (induction es arbitrary: cp)
  case Nil
  then show ?case by (cases cp) (auto intro!: finishing)
next
  case (Cons e es)
  then show ?case by (cases cp; cases e) (auto intro!: finishing)
qed

lemma table [finishing]: "size_list size es < n \<Longrightarrow> finishes (compile_expr_table r es)"
  by (auto simp: compile_expr_table_def intro!: finishing)

lemma indexing [finishing]:
  assumes "size t < n" "size k < n"
  shows "finishes (compile_expr_index r t k d)" "finishes (compile_property_key r k d)" "finishes (compile_property r t k d)"
proof -
  show *: "finishes (compile_property_key r k d)" for d
    using assms by (auto simp: compile_property_key_def intro!: finishing split: expr.split)
  show "finishes (compile_expr_index r t k d)"
    using assms by (auto simp: compile_expr_index_def intro!: finishing split: option.split)
  show "finishes (compile_property r t k d)"
    using assms by (auto simp: compile_property_def intro!: finishing * split: option.split expr.split)
qed

lemma operators [finishing]:
  assumes "size a < n"
  shows "finishes (compile_expr_prefix_op r opr a d)"
    "size b < n \<Longrightarrow> finishes (compile_arith r bop a b d)"
    "size b < n \<Longrightarrow> finishes (compile_comparison_desc r bop a b)"
    "size b < n \<Longrightarrow> finishes (compile_logical_and_desc r a b d)"
    "size b < n \<Longrightarrow> finishes (compile_logical_or_desc r a b d)"
  using assms by (auto simp: compile_expr_prefix_op_def Let_def compile_arith_def compile_comparison_desc_def
      compile_logical_and_desc_def compile_logical_or_desc_def intro!: finishing expr_finishes
      split: option.split prefix_operator.split)

lemma binary [finishing]: "size a < n \<Longrightarrow> size b < n \<Longrightarrow> finishes (compile_expr_binary_op r bop a b d)"
  unfolding compile_expr_binary_op_def by (intro finishing) auto

lemma exprs: "size e \<le> n \<Longrightarrow> finishes (compile_expr r e d)"
  by (cases e) (auto simp: compile_expr_def intro!: finishing expr_finishes)

section \<open>Statements\<close>

lemma expansions [finishing]:
  assumes "size e < n"
  shows "finishes (expand_method_call r e b k)" "finishes (expand_call r e b k)" "finishes (expand_control r e b k)"
    "finishes (compile_decl_value r e b)"
  using assms by (auto simp: expand_method_call_def expand_call_def expand_control_def compile_decl_value_def
      intro!: finishing call_finishes expr_finishes split: expr.split)

lemma values_loops [finishing]:
  assumes "size_list size es < n"
  shows "finishes (decl_values r b k m i es)" "finishes (global_values r b k m i es)"
    "finishes (assign_values r k m hs es pend)" "finishes (return_values r b i es)" "finishes (iterator_values r b m i es)"
proof -
  show "finishes (decl_values r b k m i es)" using assms
    by (induction es arbitrary: i) (auto intro!: finishing split: expr.split)
  show "finishes (global_values r b k m i es)" using assms
    by (induction es arbitrary: i) (auto intro!: finishing split: expr.split)
  show "finishes (assign_values r k m hs es pend)" using assms
    by (induction es arbitrary: hs pend) (auto intro!: finishing call_finishes split: expr.split)
  show "finishes (return_values r b i es)" using assms
    by (induction es arbitrary: i) (auto intro!: finishing)
  show "finishes (iterator_values r b m i es)" using assms
    by (induction es arbitrary: i) (auto intro!: finishing)
qed

lemma local_func [finishing]: "size body < n \<Longrightarrow> finishes (compile_local_func r x body)"
  by (auto simp: compile_local_func_def intro!: finishing)

lemma decl [finishing]: "size_list size es < n \<Longrightarrow> finishes (compile_decl r ts es)"
  by (auto simp: compile_decl_def intro!: finishing)

lemma global_func [finishing]: "size body < n \<Longrightarrow> finishes (compile_global_func r x body)"
  by (auto simp: compile_global_func_def intro!: finishing)

lemma global_list [finishing]: "size_list size es < n \<Longrightarrow> finishes (compile_global_list r c ts es)"
  by (auto simp: compile_global_list_def global_value_block_def intro!: finishing)

lemma lvalue [finishing]: "size e < n \<Longrightarrow> finishes (compile_lvalue r e regs)"
  by (cases e) (auto simp: compile_lvalue_def compile_indexed_subexpr_def intro!: finishing
      indexing(2)[where t = e and d = None] split: option.split)

lemma lvalues [finishing]: "size_list size es < n \<Longrightarrow> finishes (compile_lvalues r regs es)"
  by (induction es) (auto intro!: finishing)

lemma assign [finishing]:
  "size_list size ts < n \<Longrightarrow> size_list size es < n \<Longrightarrow> finishes (compile_assign r ts es)"
  unfolding compile_assign_def by (intro finishing) (auto intro!: finishing)

lemma func [finishing]: "size e < n \<Longrightarrow> size body < n \<Longrightarrow> finishes (compile_func r e body)"
  by (auto simp: compile_func_def compile_assign_lhs_def intro!: finishing)

lemma stmt_expr [finishing]: "size e < n \<Longrightarrow> finishes (compile_stmt_expr r e)"
  by (cases e) (auto simp: compile_stmt_expr_def Let_def intro!: finishing)

lemma return_parts [finishing]:
  "size e < n \<Longrightarrow> finishes (compile_return_one r e)"
  "size_list size es < n \<Longrightarrow> finishes (compile_return_generic r es)"
  "size_list size es < n \<Longrightarrow> finishes (compile_return r es)"
proof -
  show *: "finishes (compile_return_one r e)" if "size e < n" for e
    using that by (auto simp: compile_return_one_def intro!: finishing expr_finishes split: expr_kind.split bool.split)
  show **: "finishes (compile_return_generic r es)" if "size_list size es < n" for es
    using that by (auto simp: compile_return_generic_def intro!: finishing * split: list.split expr.split)
  show "finishes (compile_return r es)" if "size_list size es < n" for es
    using that by (auto simp: compile_return_def intro!: finishing ** split: list.split expr.split)
qed

lemma branch [finishing]: "size e < n \<Longrightarrow> finishes (compile_branch_cond_false r e)"
  by (auto simp: compile_branch_cond_false_def intro!: finishing expr_finishes)

lemma loops [finishing]:
  assumes "size_list size body < n"
  shows "finishes (compile_do r body)"
    "size e < n \<Longrightarrow> finishes (compile_while r e body)" "size e < n \<Longrightarrow> finishes (compile_repeat r body e)"
    "size a < n \<Longrightarrow> size b < n \<Longrightarrow> (\<And>x. inc = Some x \<Longrightarrow> size x < n) \<Longrightarrow> finishes (compile_for_num r nm a b inc body)"
    "size_list size es < n \<Longrightarrow> finishes (compile_for_gen r ns es body)"
proof -
  show "finishes (compile_for_gen r ns es body)" if "size_list size es < n"
    unfolding compile_for_gen_def scope_lexical_break_def using assms that
    by (intro finishing) (auto intro!: finishing)
qed (use assms in \<open>auto simp: compile_do_def compile_while_def compile_repeat_def compile_for_num_def control_value_def
      scope_lexical_break_def intro!: finishing split: option.split\<close>)

lemma if_chain [finishing]:
  "r' = r \<Longrightarrow> size e < n \<Longrightarrow> size_list size body < n \<Longrightarrow> size chain < n \<Longrightarrow>
    finishes (compile_if_chain r' l e body chain)"
  by (induction r' l e body chain rule: compile_if_chain.induct) (auto intro!: finishing)

lemma conditional [finishing]:
  "size e < n \<Longrightarrow> size_list size body < n \<Longrightarrow> size chain < n \<Longrightarrow> finishes (compile_if r e body chain)"
  by (auto simp: compile_if_def intro!: finishing)

lemma stmts: "size st \<le> n \<Longrightarrow> finishes (compile_stmt r st)"
  by (cases st) (auto simp: compile_stmt_def intro!: finishing)

end

section \<open>The compilers of every depth\<close>

lemma compiler_upto_at: "compiler_upto (compiler_at powf n) n"
proof (induction n)
  case 0
  then show ?case by unfold_locales auto
next
  case (Suc n)
  show ?case
    by unfold_locales (auto simp: Let_def intro: compiler_upto.exprs compiler_upto.calls compiler_upto.stmts Suc.IH)
qed

interpretation depth: compiler_upto "compiler_at powf n" n for powf n
  by (rule compiler_upto_at)

end
