(* ===== verification/CompEval.thy ===== *)
theory CompEval
  imports CompStmt
begin

text \<open>
  Rules that compute what the compiler does with a given program. The continuations of a computation
  stay as they are until their argument is known.
\<close>

named_theorems compiling \<open>equations that compute the compiler\<close>

lemma step_run [compiling]: "Chunk.step m f s = and_then (m s) (\<lambda>(x, s'). f x s')"
  by (simp add: Chunk.step_def)

lemma thn_run [compiling]: "thn m k s = and_then (m s) (\<lambda>(x, s'). k s')"
  by (simp add: thn_def Chunk.step_def case_prod_unfold)

lemma reading_run [compiling]: "reading f k s = k (f (st_ctx s)) s"
  by (simp add: reading_def)

lemma update_run [compiling]: "update g s = ok ((), s\<lparr>st_ctx := g (st_ctx s)\<rparr>)"
  by (simp add: update_def)

lemma upd_chunk_run [compiling]:
  "upd_chunk g s = ok ((), s\<lparr>st_ctx := (st_ctx s)\<lparr>cx_chunk := g (cx_chunk (st_ctx s))\<rparr>\<rparr>)"
  by (simp add: upd_chunk_def update_def)

lemma give_run [compiling]: "give x s = ok (x, s)"
  by (simp add: give_def)

lemma at_Suc [compiling]:
  "rc_expr (compiler_at powf (Suc n)) = compile_expr (compiler_at powf n)"
  "rc_call (compiler_at powf (Suc n)) = compile_call (compiler_at powf n)"
  "rc_stmt (compiler_at powf (Suc n)) = compile_stmt (compiler_at powf n)"
  by (simp_all add: Let_def)

lemma at_numeral [compiling]:
  "rc_expr (compiler_at powf (numeral k)) = compile_expr (compiler_at powf (pred_numeral k))"
  "rc_call (compiler_at powf (numeral k)) = compile_call (compiler_at powf (pred_numeral k))"
  "rc_stmt (compiler_at powf (numeral k)) = compile_stmt (compiler_at powf (pred_numeral k))"
  by (simp_all add: numeral_eq_Suc at_Suc del: compiler_at.simps)

lemma at_powf [compiling]: "rc_powf (compiler_at powf n) = powf"
  by (cases n) (simp_all add: Let_def)

lemma step_frozen: "Chunk.step m f = Chunk.step m f" ..
lemma thn_frozen: "thn m k = thn m k" ..
lemma reading_frozen: "reading f k = reading f k" ..
lemma and_then_frozen: "m = m' \<Longrightarrow> and_then m f = and_then m' f" by simp

lemmas frozen = step_frozen thn_frozen reading_frozen and_then_frozen

lemmas compiling_start [compiling] =
  compile_def comp_start_def ctx_new_def chunk_new_def global_env_new_def compile_function_to_chunk_def
  push_scope_def pop_scope_def finish_vararg_def needs_return_def close_at_end_def assemble_def env_name_def
  ascii_def Let_def

lemmas compiling_regs [compiling] =
  emit_def alloc_register_def reserve_reg_def reserve_regs_def raise_freereg_def check_def adjust_locals_def
  add8_def add16_def set_freereg_def free_reg_def free_regs_def dst_or_alloc_def alloc_to_def alloc_upto.simps NO_REG_def
  or_fail_def or_panic_def fail_def panic_def emit_into_def

lemmas compiling_jumps [compiling] =
  next_offset_def new_label_def set_label_def set_label_here_def add_patch_def emit_jump_instr_def emit_jump_def
  emit_unfilled_jmp_def ctrl_of_def set_instr_def assert_ctrl_predecessor_def downgrade_testsets_def patch_jmp_def
  patch_to_def no_live_target_def patch_to_here_def retarget_def patch_list_aux_def emit_test_jump_def
  flip_control_polarity_def codenot_def negate_cond_def jump_offset_def idx_def idx_set_def

lemmas compiling_names [compiling] =
  alloc_constant_def alloc_string_constant_def alloc_field_key_def alloc_ic_slot_def define_name_def mark_close_def
  resolve_local_def upvalue_index_def push_upvalue_def mark_captured_def resolve_or_capture_def resolve_env_upvalue_def
  env_upvalue_def use_as_value_def compile_global_read_def compile_free_name_def compile_expr_ident_def

lemmas compiling_descs [compiling] =
  plain_def from_reg_def from_numeral_def from_bool_def from_nil_def has_jumps_def pending_def take_pending_def
  absorb_head_def load_constant_def discharge_dst_def emit_tail_def resolve_jumps_def discharge_to_reg_def
  discharge_reg_def test_reg_def goiftrue_def goiffalse_def compile_to_reg_def

lemmas compiling_exprs [compiling] =
  compile_expr_def compile_expr_literal_def finish_call_def move_up_def compile_into_def compile_trailing_multires_def
  compile_call_args_def emit_func_call_setup_def emit_method_call_setup_def compile_expr_func_call_def
  compile_expr_method_call_def compile_call_def call_value_def resolve_vararg_base_def compile_expr_index_def
  compile_property_key_def try_property_key_constant_def compile_property_def compile_not_def
  compile_expr_prefix_op_def discharge_operands_def compile_arith_def compile_comparison_desc_def
  compile_logical_and_desc_def compile_logical_or_desc_def is_comparison_def compile_expr_binary_op_def

lemmas compiling_functions [compiling] =
  bind_param_def bind_vararg_def enter_function_def leave_function_def alloc_proto_def compile_nested_def
  compile_func_body_def compile_local_func_def

lemmas compiling_stmts [compiling] =
  compile_stmt_def scope_lexical_def scope_break_def scope_lexical_break_def compile_block_def compile_do_def
  settle_value_def expand_call_def is_multires_def compile_decl_value_def target_const_def compile_decl_def
  pad_nil.simps compile_return_def compile_return_generic_def compile_return_one_def compile_tail_call_def
  compile_goto_def compile_label_def name_label_def compile_stmt_expr_def compile_name_lvalue_def compile_lvalue_def
  target_local_reg_def reads_name_def any_reads_def emit_store_def emit_stores_def compile_assign_def is_const_def
  compile_global_lvalue_def compile_branch_cond_false_def compile_if_def compile_while_def break_label_def

section \<open>Programs\<close>

text \<open>\<open>local function f(a) return x.k end return f\<close>\<close>

definition nested_program :: "stmt list" where
  "nested_program = [
     SLocalFunc (ascii ''f'') (FuncBody [ascii ''a''] None
       [SReturn [EBinary OpProperty (EIdent (ascii ''x'')) (EIdent (ascii ''k''))]]),
     SReturn [EIdent (ascii ''f'')]]"

definition nested_child :: prototype where
  "nested_child = \<lparr>pr_code = [GETTABUP 1 0 0 0, GETFIELD 1 1 1 1, RETURN 1 2],
     pr_constants = [VStr (ascii ''x''), VStr (ascii ''k'')], pr_prototypes = [], pr_upvalue_desc = [ParentUpvalue 0],
     pr_num_params = 1, pr_is_vararg = False, pr_needs_vararg_table = False, pr_max_stack_size = 2,
     pr_ic_table = [ICEmpty, ICEmpty]\<rparr>"

definition nested_main :: prototype where
  "nested_main = \<lparr>pr_code = [VARARGPREP 0, CLOSURE 0 0, RETURN 0 2], pr_constants = [], pr_prototypes = [0],
     pr_upvalue_desc = [ParentLocal 0], pr_num_params = 0, pr_is_vararg = True, pr_needs_vararg_table = False,
     pr_max_stack_size = 1, pr_ic_table = []\<rparr>"

lemma nested_compiles: "compile powf nested_program = ok (nested_main, [nested_child])"
  by (simp add: nested_program_def nested_main_def nested_child_def compiling del: compiler_at.simps cong: frozen)

section \<open>Programs that come out wrong\<close>

text \<open>
  Programs the compiler does not treat as the language asks, computed in the kernel.
\<close>

abbreviation int_lit :: "i64 \<Rightarrow> expr" where "int_lit i \<equiv> ELiteral (LitInt i)"
abbreviation ident :: "string \<Rightarrow> expr" where "ident x \<equiv> EIdent (ascii x)"
abbreviation local_decl :: "string \<Rightarrow> expr list \<Rightarrow> stmt" where
  "local_decl x es \<equiv> SDecl [(ascii x, None)] es"

text \<open>
  \<open>local x = 1, 2; local y = 3; local z = y + 1; return y\<close>: the register of the extra value stays taken
  and is not counted among the active variables, so \<open>y\<close> lives in register 2 with two variables active, and
  the sum is computed into it. The program returns 4.
\<close>

lemma extra_value_clobbers_local:
  "map_option (map_sum id (pr_code \<circ> fst)) (compile powf
     [local_decl ''x'' [int_lit 1, int_lit 2], local_decl ''y'' [int_lit 3],
      local_decl ''z'' [EBinary OpAdd (ident ''y'') (int_lit 1)], SReturn [ident ''y'']])
   = ok [VARARGPREP 0, LOAD 0 0, LOAD 1 1, LOAD 2 2, LOAD 3 0, ADD 2 2 3, MOVE 3 2, RETURN 2 2]"
  by (simp add: compiling del: compiler_at.simps cong: frozen)

text \<open>\<open>x = 1, 2\<close>: an assignment with more values than targets panics.\<close>

lemma extra_assigned_value_panics: "compile powf [SAssign [ident ''x''] [int_lit 1, int_lit 2]] = None"
  by (simp add: compiling del: compiler_at.simps cong: frozen)

text \<open>\<open>local function g(a, ...args) end\<close>: a named vararg after a parameter panics.\<close>

lemma named_vararg_panics:
  "compile powf [SLocalFunc (ascii ''g'') (FuncBody [ascii ''a''] (Some (Some (ascii ''args''))) [])] = None"
  by (simp add: compiling del: compiler_at.simps cong: frozen)

text \<open>\<open>goto nowhere\<close>: no error, and a jump back to the start of the function, so the program never ends.\<close>

lemma unknown_label_accepted:
  "map_option (map_sum id (pr_code \<circ> fst)) (compile powf [SGoto (ascii ''nowhere'')])
   = ok [VARARGPREP 0, JMP (- 2), RETURN 0 1]"
  by (simp add: compiling del: compiler_at.simps cong: frozen)

text \<open>
  \<open>local a, b, c = f(); a = b + c\<close>: the registers of the results are taken without raising the peak, and
  the frame is declared one register wide.
\<close>

lemma frame_too_small:
  "map_option (map_sum id (\<lambda>r. (pr_code (fst r), pr_max_stack_size (fst r)))) (compile powf
     [SDecl [(ascii ''a'', None), (ascii ''b'', None), (ascii ''c'', None)] [ECall (ident ''f'') []],
      SAssign [ident ''a''] [EBinary OpAdd (ident ''b'') (ident ''c'')]])
   = ok ([VARARGPREP 0, GETTABUP 0 0 0 0, CALL 0 1 4, ADD 0 1 2, RETURN 0 1], 1)"
  by (simp add: compiling del: compiler_at.simps cong: frozen)

text \<open>
  \<open>x = t[x] and x\<close> for a local \<open>x\<close>: the left operand is compiled into \<open>x\<close> before the right one reads it, so
  the result is \<open>t[x]\<close>, never the old \<open>x\<close>.
\<close>

lemma hint_clobbers_operand:
  "map_option (map_sum id (pr_code \<circ> fst)) (compile powf
     [SDecl [(ascii ''t'', None), (ascii ''x'', None)] [int_lit 1, int_lit 2],
      SAssign [ident ''x''] [EBinary OpAnd (EIndex (ident ''t'') (ident ''x'')) (ident ''x'')]])
   = ok [VARARGPREP 0, LOAD 0 0, LOAD 1 1, GETTABLE 1 0 1, TEST 1 False, JMP 0, RETURN 0 1]"
  by (simp add: compiling del: compiler_at.simps cong: frozen)

end
