(* ===== verification/CompProps.thy ===== *)
theory CompProps
  imports CompTyped CompDepth CompEval HandlerLemmas
begin

text \<open>
  What holds of every compiled program: the code refers only to what is there.
\<close>

section \<open>The nesting depth\<close>

text \<open>
  The nesting depth is of the model, not of the code: it makes the recursion of the definitions well founded, and
  \<open>Unfinished\<close> is the result for using it up. The size of the program is depth enough, so \<open>compile\<close> never has that
  result. What it has can be a panic: see \<open>extra_assigned_value_panics\<close>.
\<close>

lemma compile_finishes: "compile powf stmts \<noteq> err Unfinished"
proof -
  have "finishes (compile_function_to_chunk (compiler_at powf (Suc (size_list size stmts))) stmts [] True None 0)"
    by (rule depth.function_to_chunk) simp
  then show ?thesis
    unfolding finishes_def compile_def and_then_def by (auto split: option.split sum.split)
qed

section \<open>Operands\<close>

text \<open>Every operand of an instruction that is no register refers to something the prototype has.\<close>

fun operand_ok :: "prototype \<Rightarrow> instruction \<Rightarrow> bool" where
  "operand_ok p (LOAD _ k) = (unat k < length (pr_constants p))"
| "operand_ok p (GETUPVAL _ i) = (unat i < length (pr_upvalue_desc p))"
| "operand_ok p (SETUPVAL _ i) = (unat i < length (pr_upvalue_desc p))"
| "operand_ok p (GETTABUP _ u _ k) = (unat u < length (pr_upvalue_desc p) \<and> unat k < length (pr_constants p))"
| "operand_ok p (SETTABUP _ u _ k) = (unat u < length (pr_upvalue_desc p) \<and> unat k < length (pr_constants p))"
| "operand_ok p (GETFIELD _ _ _ k) = (unat k < length (pr_constants p))"
| "operand_ok p (SETFIELD _ _ _ k) = (unat k < length (pr_constants p))"
| "operand_ok p (SELF _ _ k) = (unat k < length (pr_constants p))"
| "operand_ok p (CLOSURE _ i) = (unat i < length (pr_prototypes p))"
| "operand_ok p (ERRNNIL _ k) = (unat k < length (pr_constants p))"
| "operand_ok p _ = True"

text \<open>A nested function exists and captures only upvalues its parent has.\<close>

definition captures_ok :: "prototype list \<Rightarrow> prototype \<Rightarrow> bool" where
  "captures_ok ps p \<longleftrightarrow> (\<forall>a\<in>set (pr_prototypes p). a < length ps
     \<and> (\<forall>i. ParentUpvalue i \<in> set (pr_upvalue_desc (ps ! a)) \<longrightarrow> unat i < length (pr_upvalue_desc p)))"

lemma compile_ok:
  assumes "compile powf stmts = ok (p, ps)"
  shows "list_all (proto_ok ps) (p # ps)"
proof -
  let ?r = "compiler_at powf (Suc (size_list size stmts))"
  from assms obtain ch s where ch: "compile_function_to_chunk ?r stmts [] True None 0 comp_start = ok (ch, s)"
      and p: "assemble ch = Some p" and ps: "ps = st_protos s"
    by (auto simp: compile_def and_then_ok_iff split: option.splits)
  let ?w = "\<lparr>v_consts = [], v_keys = [], v_kids = 0, v_ups = Suc 0\<rparr>"
  have "state_ok [?w] comp_start"
    by (simp add: state_ok_def comp_start_def ctx_new_def chunk_new_def fits_def code_ok_def ic_limit_def)
  from soundD[OF safe_function_to_chunk[OF typed.stmt_safe, of "{}"] this _ ch] obtain v vs where
      "state_ok (v # vs) s"
    by (metis empty_iff)
  then have fit: "fits ps v (st_ctx s)" and protos: "list_all (proto_ok ps) ps"
    by (auto simp: state_ok_def ps)
  have "ch = (cx_chunk (st_ctx s))\<lparr>ck_upvalue_desc := map snd (cx_upvalues (st_ctx s))\<rparr>"
    using function_ends ch unfolding ends_in_chunk_def by blast
  from assemble_ok(1)[OF fit p[unfolded this]] protos show ?thesis by simp
qed

lemma proto_ok_view:
  assumes "proto_ok ps p"
  obtains v where "v_consts v = pr_constants p" "length (v_keys v) = length (pr_ic_table p)"
    "v_kids v = length (pr_prototypes p)" "v_ups v = length (pr_upvalue_desc p)"
    "\<And>ins f. ins \<in> set (pr_code p) \<Longrightarrow> f \<in> needs ins \<Longrightarrow> holds ps v f"
proof -
  from assms obtain keys where "length keys = length (pr_ic_table p)" "code_ok ps \<lparr>v_consts = pr_constants p,
      v_keys = keys, v_kids = length (pr_prototypes p), v_ups = length (pr_upvalue_desc p)\<rparr> (pr_code p)"
    unfolding proto_ok_def by blast
  then show ?thesis by (intro that) (auto simp: code_ok_def)
qed

lemma proto_ok_operand:
  assumes "proto_ok ps p" "ins \<in> set (pr_code p)"
  shows "operand_ok p ins"
proof -
  from assms(1) obtain v where v: "v_consts v = pr_constants p" "v_kids v = length (pr_prototypes p)"
      "v_ups v = length (pr_upvalue_desc p)"
      "\<And>ins f. ins \<in> set (pr_code p) \<Longrightarrow> f \<in> needs ins \<Longrightarrow> holds ps v f"
    by (rule proto_ok_view) blast
  from v(4)[OF assms(2)] have "\<forall>f\<in>needs ins. holds ps v f" by blast
  then show ?thesis using v(1-3) by (cases ins) simp_all
qed

lemma proto_ok_captures: "proto_ok ps p \<Longrightarrow> captures_ok ps p"
  unfolding proto_ok_def captures_ok_def list_all_iff child_ok_def by (metis desc_below.simps(2))

text \<open>
  C14. In every compiled program each constant, upvalue and nested prototype an instruction names is in
  range of its function's tables, whatever was cut to 8 or 16 bits on the way, and each nested function
  captures only upvalues that its parent has.
\<close>

theorem compiled_operands_in_range:
  assumes "compile powf stmts = ok (p, ps)" "q \<in> set (p # ps)"
  shows "list_all (operand_ok q) (pr_code q) \<and> captures_ok ps q"
proof -
  have q: "proto_ok ps q" using compile_ok[OF assms(1)] assms(2) by (auto simp: list_all_iff)
  then show ?thesis by (auto simp: list_all_iff intro: proto_ok_operand proto_ok_captures)
qed

theorem compiled_operands_in_range_witness:
  "list_all (operand_ok nested_child) (pr_code nested_child) \<and> captures_ok [nested_child] nested_child"
  using compiled_operands_in_range [OF nested_compiles [of "\<lambda>x _. x"], of nested_child] by simp

section \<open>Inline caches\<close>

lemma proto_ok_sites:
  assumes q: "proto_ok ps q" and few: "length (pr_ic_table q) < ic_limit"
  shows "sites_ok q"
proof -
  from q obtain v where v: "v_consts v = pr_constants q" "length (v_keys v) = length (pr_ic_table q)"
      and code: "\<And>ins f. ins \<in> set (pr_code q) \<Longrightarrow> f \<in> needs ins \<Longrightarrow> holds ps v f"
    by (rule proto_ok_view) blast
  have site: "FStr k \<in> needs ins \<and> FKey ic k \<in> needs ins" if "ic_site ins = Some (ic, k)" for ins ic k
    using that by (cases ins) (auto simp: ic_site_def)
  have key: "unat ic < length (pr_ic_table q)" "v_keys v ! unat ic = unat k"
      "\<exists>b. idx (pr_constants q) (unat k) = Some (VStr b)"
    if "ins \<in> set (pr_code q)" "ic_site ins = Some (ic, k)" for ins ic k
  proof -
    note h = code[OF that(1) conjunct1[OF site[OF that(2)]]] code[OF that(1) conjunct2[OF site[OF that(2)]]]
    show "unat ic < length (pr_ic_table q)" "v_keys v ! unat ic = unat k" using h(2) v few by auto
    show "\<exists>b. idx (pr_constants q) (unat k) = Some (VStr b)"
      using h(1) v(1) by (cases "v_consts v ! unat k") (auto simp: idx_def)
  qed
  then show ?thesis unfolding sites_ok_def by (metis word_unat_eq_iff)
qed

text \<open>
  C15. A compiled function with fewer than 65535 inline caches has what the interpreter's cached accesses
  rely on: every cache a site names exists, every site's key is a string constant, and two sites share a
  cache only if they have the same key.
\<close>

theorem compiled_sites_ok:
  assumes "compile powf stmts = ok (p, ps)" "q \<in> set (p # ps)" "length (pr_ic_table q) < 2 ^ 16 - 1"
  shows "sites_ok q"
proof -
  have "proto_ok ps q" using compile_ok[OF assms(1)] assms(2) by (auto simp: list_all_iff)
  then show ?thesis using assms(3) by (intro proto_ok_sites) (simp_all only: ic_limit_def)
qed

theorem compiled_sites_ok_witness: "sites_ok nested_child \<and> length (pr_ic_table nested_child) = 2"
  using compiled_sites_ok [OF nested_compiles [of "\<lambda>x _. x"], of nested_child] by (simp add: nested_child_def)

end
