(* ===== verification/CompScope.thy ===== *)
theory CompScope
  imports CompTyped
begin

text \<open>
  Upvalues against lexical scoping: the variable a name means where it is used, and the variable an
  upvalue refers to when its descriptors are followed outwards through the enclosing functions.
\<close>

section \<open>Lexical scoping\<close>

text \<open>
  A register of the function at a depth (0 is the main function), the value of a constant, and the
  environment the main function gets from outside.
\<close>

datatype binding = BReg nat u8 | BConst const_val | BEnv

fun lexical :: "name \<Rightarrow> ctx list \<Rightarrow> binding option" where
  "lexical x [] = (if x = env_name then Some BEnv else None)"
| "lexical x (c # cs) = (case resolve_local c x of
      None \<Rightarrow> lexical x cs
    | Some d \<Rightarrow> (case vd_kind d of
          VKGlobal \<Rightarrow> None
        | VKConst (Some v) \<Rightarrow> Some (BConst v)
        | _ \<Rightarrow> Some (BReg (length cs) (of_nat (vd_register d)))))"

text \<open>The variable that a descriptor refers to, for the functions around the one that holds it.\<close>

fun follow :: "ctx list \<Rightarrow> upvalue_descriptor \<Rightarrow> binding option" where
  "follow [] (ParentLocal _) = Some BEnv"
| "follow [] (ParentUpvalue _) = None"
| "follow (c # cs) (ParentLocal r) = Some (BReg (length cs) r)"
| "follow (c # cs) (ParentUpvalue i) =
     (if unat i < length (cx_upvalues c) then follow cs (snd (cx_upvalues c ! unat i)) else None)"

text \<open>Every upvalue is the variable its name means outside the function, and 8 bits number them.\<close>

definition upvalues_mean :: "(name \<times> upvalue_descriptor) list \<Rightarrow> ctx list \<Rightarrow> bool" where
  "upvalues_mean us cs \<longleftrightarrow> length us \<le> 2 ^ 8 \<and> (\<forall>(x, d)\<in>set us. lexical x cs \<noteq> None \<and> follow cs d = lexical x cs)"

fun names_ok :: "ctx list \<Rightarrow> bool" where
  "names_ok [] = True"
| "names_ok (c # cs) \<longleftrightarrow> upvalues_mean (cx_upvalues c) cs \<and> names_ok cs"

text \<open>The functions as they are after captures: the same scopes, the same upvalues and perhaps more.\<close>

definition extended :: "ctx \<Rightarrow> ctx \<Rightarrow> bool" where
  "extended c d \<longleftrightarrow> cx_scope d = cx_scope c \<and> prefix (cx_upvalues c) (cx_upvalues d)"

lemma extended_refl [simp]: "extended c c"
  by (simp add: extended_def)

lemma extended_lexical: "list_all2 extended cs ds \<Longrightarrow> lexical x ds = lexical x cs"
  by (induction rule: list_all2_induct)
    (auto simp: extended_def resolve_local_def list_all2_lengthD split: option.split var_kind.split)

lemma extended_follow: "list_all2 extended cs ds \<Longrightarrow> follow cs d = Some b \<Longrightarrow> follow ds d = Some b"
proof (induction arbitrary: d rule: list_all2_induct)
  case (Cons c cs c' ds)
  show ?case
  proof (cases d)
    case (ParentUpvalue i)
    then have i: "unat i < length (cx_upvalues c)" "follow cs (snd (cx_upvalues c ! unat i)) = Some b"
      using Cons.prems by (auto split: if_splits)
    then have "unat i < length (cx_upvalues c')" "cx_upvalues c' ! unat i = cx_upvalues c ! unat i"
      using Cons.hyps(1) prefix_nth by (auto simp: extended_def)
    then show ?thesis using Cons.IH[OF i(2)] ParentUpvalue by simp
  qed (use Cons list_all2_lengthD in fastforce)
qed simp

lemma upvalues_mean_extended:
  assumes "upvalues_mean us cs" "list_all2 extended cs ds"
  shows "upvalues_mean us ds"
  using assms extended_lexical[OF assms(2)] extended_follow[OF assms(2)]
  unfolding upvalues_mean_def by (fastforce simp: split_beta)

section \<open>Resolution\<close>

text \<open>What a resolution answers about a name.\<close>

fun answers :: "child_resolution option \<Rightarrow> name \<Rightarrow> ctx list \<Rightarrow> bool" where
  "answers None x cs = (lexical x cs = None)"
| "answers (Some (CRConst v)) x cs = (lexical x cs = Some (BConst v))"
| "answers (Some (CRUpvalue d)) x cs = (lexical x cs \<noteq> None \<and> follow cs d = lexical x cs)"

lemma mark_extended [simp]: "extended c (mark_captured k c)"
  by (simp add: extended_def mark_captured_def)

lemma push_extended [simp]: "extended c (push_upvalue x d c)" "cx_upvalues (push_upvalue x d c) = cx_upvalues c @ [(x, d)]"
  by (simp_all add: extended_def push_upvalue_def)

lemma small_index: "n < 2 ^ 8 \<Longrightarrow> unat (of_nat n :: u8) = n"
  by (simp add: unat_of_nat take_bit_nat_eq_self)

lemma upvalue_index_at: "upvalue_index c x = Some i \<Longrightarrow> i < length (cx_upvalues c) \<and> fst (cx_upvalues c ! i) = x"
  unfolding upvalue_index_def by (drule position_Some) auto

text \<open>The outermost function has the environment.\<close>

definition env_seeded :: "ctx list \<Rightarrow> bool" where
  "env_seeded cs \<longleftrightarrow> cs = [] \<or> upvalue_index (List.last cs) env_name \<noteq> None"

lemma upvalues_mean_push:
  assumes "upvalues_mean (cx_upvalues c) cs" "lexical x cs \<noteq> None" "follow cs d = lexical x cs"
    "length (cx_upvalues (push_upvalue x d c)) \<le> 2 ^ 8"
  shows "upvalues_mean (cx_upvalues (push_upvalue x d c)) cs"
  using assms by (auto simp: upvalues_mean_def push_upvalue_def)

lemma mean_at:
  assumes "upvalues_mean us cs" "i < length us"
  shows "follow cs (snd (us ! i)) = lexical (fst (us ! i)) cs" "lexical (fst (us ! i)) cs \<noteq> None"
  using assms nth_mem[OF assms(2)] by (auto simp: upvalues_mean_def split_beta)

lemma resolve_for_child_lexical:
  assumes "names_ok cs" "resolve_for_child x cs = (r, ds)" "\<forall>c\<in>set ds. length (cx_upvalues c) \<le> 2 ^ 8"
    "cs = [] \<longrightarrow> x \<noteq> env_name" "env_seeded cs"
  shows "answers r x ds \<and> list_all2 extended cs ds \<and> names_ok ds"
  using assms
proof (induction cs arbitrary: r ds)
  case (Cons c cs)
  have mean: "upvalues_mean (cx_upvalues c) cs" and names: "names_ok cs" using Cons.prems(1) by auto
  have refl: "list_all2 extended cs cs" by (simp add: list_all2_refl)
  show ?case
  proof (cases "resolve_local c x")
    case (Some d)
    have "resolve_local (mark_captured k c) x = Some d" "cx_upvalues (mark_captured k c) = cx_upvalues c" for k
      using Some by (simp_all add: resolve_local_def mark_captured_def)
    then show ?thesis
      using Cons.prems(2) Some mean names refl by (auto split: var_kind.splits option.splits)
  next
    case None
    show ?thesis
    proof (cases "upvalue_index c x")
      case (Some i)
      then have i: "i < length (cx_upvalues c)" "fst (cx_upvalues c ! i) = x" using upvalue_index_at by auto
      have res: "r = Some (CRUpvalue (ParentUpvalue (of_nat i)))" "ds = c # cs"
        using Cons.prems(2) Some None by auto
      have "unat (of_nat i :: u8) = i" using i(1) mean by (intro small_index) (simp add: upvalues_mean_def)
      then show ?thesis using mean_at[OF mean i(1)] i Cons.prems(1) refl None by (simp add: res)
    next
      case none: None
      obtain q es where q: "resolve_for_child x cs = (q, es)" by fastforce
      have ds: "set es \<subseteq> set ds" "\<exists>c'. ds = c' # es \<and> extended c c' \<and> cx_scope c' = cx_scope c"
        using Cons.prems(2) None none q
        by (auto simp: push_upvalue_def extended_def split: option.splits child_resolution.splits)
      have env: "cs = [] \<longrightarrow> x \<noteq> env_name" "env_seeded cs"
        using Cons.prems(5) none by (auto simp: env_seeded_def)
      have IH: "answers q x es" "list_all2 extended cs es" "names_ok es"
        using Cons.IH[OF names q _ env] Cons.prems(3) ds(1) by auto
      have mean': "upvalues_mean (cx_upvalues c) es" using mean IH(2) by (rule upvalues_mean_extended)
      show ?thesis
      proof (cases "\<exists>d. q = Some (CRUpvalue d)")
        case True
        then obtain d where d: "q = Some (CRUpvalue d)" by blast
        let ?n = "length (cx_upvalues c)"
        have res: "r = Some (CRUpvalue (ParentUpvalue (of_nat ?n)))" "ds = push_upvalue x d c # es"
          using Cons.prems(2) None none q d by auto
        have small: "length (cx_upvalues (push_upvalue x d c)) \<le> 2 ^ 8" using Cons.prems(3) res(2) by simp
        then have "unat (of_nat ?n :: u8) = ?n" by (intro small_index) (simp add: push_upvalue_def)
        moreover have "resolve_local (push_upvalue x d c) x = None" using None by (simp add: resolve_local_def push_upvalue_def)
        moreover have "upvalues_mean (cx_upvalues (push_upvalue x d c)) es"
          by (rule upvalues_mean_push[OF mean' _ _ small]) (use IH(1) d in auto)
        ultimately show ?thesis using IH d res by simp
      next
        case False
        then have "r = q" "ds = c # es"
          using Cons.prems(2) None none q by (auto split: option.splits child_resolution.splits)
        then show ?thesis using IH mean' None False
          by (cases q) (auto split: child_resolution.splits elim: answers.elims)
      qed
    qed
  qed
qed auto

section \<open>The compiler's resolution\<close>

fun name_answers :: "resolved_name option \<Rightarrow> name \<Rightarrow> comp_state \<Rightarrow> bool" where
  "name_answers None x s = (lexical x (st_parents s) = None)"
| "name_answers (Some (RNConst v)) x s = (lexical x (st_parents s) = Some (BConst v))"
| "name_answers (Some (RNUpvalue i)) x s \<longleftrightarrow> i < length (cx_upvalues (st_ctx s))
     \<and> follow (st_parents s) (snd (cx_upvalues (st_ctx s) ! i)) = lexical x (st_parents s)
     \<and> lexical x (st_parents s) \<noteq> None"

definition fun_stack :: "comp_state \<Rightarrow> ctx list" where
  "fun_stack s = st_ctx s # st_parents s"

text \<open>
  C17. Resolving a name that is not local agrees with lexical scoping: the result is a constant's value or
  an upvalue exactly when an enclosing function (or the environment) declares the name, and the upvalue's
  descriptors, followed outwards, end at the register of that declaration. Captures on the way extend the
  enclosing functions and keep this true of all their upvalues, while none has more than 256.
\<close>

theorem resolve_lexical:
  assumes names: "names_ok (fun_stack s)" and env: "env_seeded (fun_stack s)"
    and r: "resolve_or_capture x s = ok (r, s')"
    and few: "\<forall>c\<in>set (fun_stack s'). length (cx_upvalues c) \<le> 2 ^ 8"
  shows "name_answers r x s' \<and> list_all2 extended (fun_stack s) (fun_stack s') \<and> names_ok (fun_stack s')"
proof -
  let ?c = "st_ctx s" and ?cs = "st_parents s"
  have mean: "upvalues_mean (cx_upvalues ?c) ?cs" and outer: "names_ok ?cs" using names by (auto simp: fun_stack_def)
  show ?thesis
  proof (cases "upvalue_index ?c x")
    case (Some i)
    then have i: "i < length (cx_upvalues ?c)" "fst (cx_upvalues ?c ! i) = x" using upvalue_index_at by auto
    then have "as8 i = i" using mean by (simp add: upvalues_mean_def)
    then have "r = Some (RNUpvalue i)" "s' = s" using r Some by (auto simp: resolve_or_capture_def)
    then show ?thesis using mean_at[OF mean i(1)] i names by (simp add: list_all2_refl)
  next
    case None
    obtain q es where q: "resolve_for_child x ?cs = (q, es)" by fastforce
    have parents: "st_parents s' = es" using r None q
      by (auto simp: resolve_or_capture_def split: option.splits child_resolution.splits)
    have env': "?cs = [] \<longrightarrow> x \<noteq> env_name" "env_seeded ?cs" using env None by (auto simp: env_seeded_def fun_stack_def)
    have IH: "answers q x es" "list_all2 extended ?cs es" "names_ok es"
      using resolve_for_child_lexical[OF outer q _ env'] few by (auto simp: fun_stack_def parents)
    have mean': "upvalues_mean (cx_upvalues ?c) es" using mean IH(2) by (rule upvalues_mean_extended)
    show ?thesis
    proof (cases "\<exists>d. q = Some (CRUpvalue d)")
      case True
      then obtain d where d: "q = Some (CRUpvalue d)" by blast
      let ?n = "length (cx_upvalues ?c)"
      have res: "r = Some (RNUpvalue (as8 ?n))" "st_ctx s' = push_upvalue x d ?c"
        using r None q d by (auto simp: resolve_or_capture_def)
      have small: "length (cx_upvalues (push_upvalue x d ?c)) \<le> 2 ^ 8" using few res(2) by (simp add: fun_stack_def)
      then have n: "as8 ?n = ?n" by simp
      have "upvalues_mean (cx_upvalues (push_upvalue x d ?c)) es"
        by (rule upvalues_mean_push[OF mean' _ _ small]) (use IH(1) d in auto)
      then show ?thesis using IH d res n by (simp add: fun_stack_def parents)
    next
      case False
      then have "st_ctx s' = ?c" "r = (case q of Some (CRConst v) \<Rightarrow> Some (RNConst v) | _ \<Rightarrow> None)"
        using r None q by (auto simp: resolve_or_capture_def split: option.splits child_resolution.splits)
      then show ?thesis using IH mean' False
        by (auto simp: fun_stack_def parents split: option.splits child_resolution.splits)
    qed
  qed
qed

text \<open>The other operations on scopes and functions keep the invariant.\<close>

lemma names_ok_scopes:
  assumes "names_ok (fun_stack s)" "m s = ok (x, s')" "m \<in> {push_scope, define_name y r k, mark_close r}"
  shows "names_ok (fun_stack s') \<and> st_parents s' = st_parents s \<and> cx_upvalues (st_ctx s') = cx_upvalues (st_ctx s)"
  using assms by (auto simp: fun_stack_def push_scope_def define_name_def mark_close_def update_def reading_def fail_def
      split: list.splits)

lemma names_ok_enter:
  "names_ok (fun_stack s) \<Longrightarrow> enter_function (ctx_new v n [] g) s = ok (x, s') \<Longrightarrow> names_ok (fun_stack s')"
  by (auto simp: fun_stack_def enter_function_def ctx_new_def upvalues_mean_def)

lemma names_ok_leave: "names_ok (fun_stack s) \<Longrightarrow> leave_function s = ok (x, s') \<Longrightarrow> names_ok (fun_stack s')"
  by (auto simp: fun_stack_def leave_function_def split: list.splits)

lemma names_ok_start: "names_ok (fun_stack comp_start)" "env_seeded (fun_stack comp_start)"
  by (simp_all add: fun_stack_def comp_start_def ctx_new_def upvalues_mean_def env_seeded_def upvalue_index_def)

lemma names_ok_pop: "names_ok (fun_stack s) \<Longrightarrow> pop_scope s = ok (x, s') \<Longrightarrow> names_ok (fun_stack s')"
  by (auto simp: fun_stack_def pop_scope_def thn_def Chunk.step_def update_def reading_def fail_def give_def
      split: list.splits prod.splits)

text \<open>Two functions inside one that declares \<open>x\<close> in register 3.\<close>

definition scope_demo :: comp_state where
  "scope_demo = \<lparr>st_ctx = ctx_new False 0 [] global_env_new,
     st_parents = [ctx_new False 0 [] global_env_new,
       (ctx_new True 0 [(env_name, ParentLocal 0)] global_env_new)
         \<lparr>cx_scope := [[ascii ''x'' \<mapsto> \<lparr>vd_register = 3, vd_kind = VKReg\<rparr>]]\<rparr>],
     st_protos = []\<rparr>"

lemma scope_demo_resolves:
  "\<exists>s'. resolve_or_capture (ascii ''x'') scope_demo = ok (Some (RNUpvalue 0), s')
     \<and> (\<forall>c\<in>set (fun_stack s'). length (cx_upvalues c) \<le> 2 ^ 8)
     \<and> lexical (ascii ''x'') (st_parents s') = Some (BReg 0 3)"
  by (simp add: scope_demo_def resolve_or_capture_def upvalue_index_def resolve_local_def ctx_new_def push_upvalue_def
      mark_captured_def fun_stack_def env_name_def ascii_def)

theorem resolve_lexical_witness:
  "\<exists>s'. resolve_or_capture (ascii ''x'') scope_demo = ok (Some (RNUpvalue 0), s')
     \<and> follow (st_parents s') (snd (cx_upvalues (st_ctx s') ! 0)) = Some (BReg 0 3)"
proof -
  obtain s' where s': "resolve_or_capture (ascii ''x'') scope_demo = ok (Some (RNUpvalue 0), s')"
      "\<forall>c\<in>set (fun_stack s'). length (cx_upvalues c) \<le> 2 ^ 8" "lexical (ascii ''x'') (st_parents s') = Some (BReg 0 3)"
    using scope_demo_resolves by blast
  have "names_ok (fun_stack scope_demo)" "env_seeded (fun_stack scope_demo)"
    by (simp_all add: scope_demo_def fun_stack_def ctx_new_def upvalues_mean_def env_seeded_def upvalue_index_def)
  from resolve_lexical [OF this s'(1,2)] s' show ?thesis by auto
qed

end
