(* ===== verification/CompJumps.thy ===== *)
theory CompJumps
  imports CompExpr InterpProps CompEval
begin

text \<open>
  The compiler against the interpreter: after assembly a patched jump goes to the position its label was set to,
  and a folded operator gives what its instruction stores, but for \<open>~\<close> on floats.
\<close>

section \<open>Folding\<close>

text \<open>
  Constant folding against the interpreter: a folded operation has the value the instruction would have
  stored.
\<close>

lemma value_to_numeral_Some: "value_to_numeral v = Some n \<longleftrightarrow> v = numeral_to_value n"
  by (cases v; cases n) (auto simp: value_to_numeral_def getter_defs)

text \<open>What the folder computes with: the result of the operator, absent or a panic.\<close>

definition folded_value :: "(f64 \<Rightarrow> f64 \<Rightarrow> f64) \<Rightarrow> binary_operator \<Rightarrow> lua_value \<Rightarrow> lua_value \<Rightarrow> lua_value option option" where
  "folded_value powf opr a b = (case (arith_of opr, bit_of opr) of
      (Some ar, _) \<Rightarrow> Some (op_arith powf ar a b) | (_, Some bt) \<Rightarrow> op_bit bt a b | _ \<Rightarrow> Some None)"

lemma fold_value:
  assumes "try_fold_binop powf opr a b = Some (Some n)"
  shows "folded_value powf opr (numeral_to_value a) (numeral_to_value b) = Some (Some (numeral_to_value n))"
  using assms
  by (auto simp: try_fold_binop_def folded_value_def Let_def value_to_numeral_Some
      split: if_splits Option.bind_splits option.splits)

lemma op_bit_convertible:
  "numeral_is_int_convertible a \<Longrightarrow> numeral_is_int_convertible b \<Longrightarrow>
    op_bit bt (numeral_to_value a) (numeral_to_value b) \<noteq> None"
  by (cases a; cases b) (auto simp: op_bit_def bit_operand_def)

lemma fold_never_panics: "try_fold_binop powf opr a b \<noteq> None"
proof (cases "bit_of opr = None")
  case True
  then show ?thesis by (auto simp: try_fold_binop_def Let_def split: option.split Option.bind_splits)
next
  case False
  then have "arith_of opr = None" by (cases opr) auto
  then show ?thesis
    using False
    by (auto simp: try_fold_binop_def Let_def split: option.split Option.bind_splits)
      (use op_bit_convertible in blast)+
qed

lemma exec_binary:
  assumes "binary_instr opr = Some ins" "opr \<noteq> OpConcat"
  shows "\<exists>mm. exec rt (ins d l r) m = op_binop rt (folded_value (rt_powf rt) opr) mm d l r m"
  using assms
  by (cases opr) (auto simp: folded_value_def [abs_def] op_arith_handler_def op_bit_handler_def
      intro: exI [of _ "ascii _"])

lemma folds_not_concat: "try_fold_binop powf OpConcat a b \<noteq> Some (Some n)"
  by (auto simp: try_fold_binop_def Let_def)

text \<open>The instruction a prefix operator compiles to, on a register that holds the operand.\<close>

fun prefix_instr :: "prefix_operator \<Rightarrow> (u8 \<Rightarrow> u8 \<Rightarrow> instruction) option" where
  "prefix_instr PreNeg = Some UNM"
| "prefix_instr PreNot = Some LNOT"
| "prefix_instr PreLen = Some LEN"
| "prefix_instr PreBitNot = Some BNOT"
| "prefix_instr PreNone = None"

lemma falsy_constants:
  "\<not> is_falsy (numeral_to_value n)" "is_falsy (VBool b) \<longleftrightarrow> \<not> b" "is_falsy VNil"
  by (cases n) (auto simp: is_falsy_def getter_defs)

lemma exec_prefix:
  assumes "fold_prefix pre k = Some e" and "const_kind_to_value k = Some u" and "reg m s = Some u"
    and "prefix_instr pre = Some ins"
  shows "\<exists>v. const_kind_to_value (ed_kind e) = Some v \<and>
    exec rt (ins d s) m = (if pre = PreBitNot \<and> (\<exists>f. k = KNumeral (NFloat f)) then raise m else store_dispatch m d v)"
  using assms
  by (cases "(pre, k)" rule: fold_prefix.cases)
    (auto simp: op_unm_def op_not_def op_bnot_def from_numeral_def from_bool_def plain_def
      falsy_constants unary_meta_def unop_metamethod_def getter_defs)

text \<open>
  C20. Constant folding against the interpreter, for every operator that is folded. Folding a
  binary operator never panics, and what it folds to is what the instruction stores when it is
  executed on the same operands. A folded prefix operator (\<open>-\<close>, \<open>~\<close>, \<open>not\<close>) gives what its
  instruction stores, with one exception: \<open>~\<close> on a float is folded when the float has an exact
  integer value, while \<open>BNOT\<close> raises an error on every float.
\<close>

theorem folding_agrees:
  assumes "reg m l = Some (numeral_to_value a)" and "reg m r = Some (numeral_to_value b)"
    and "const_kind_to_value k = Some u" and "reg m s = Some u"
  shows "(binary_instr opr = Some ins \<longrightarrow> (case try_fold_binop (rt_powf rt) opr a b of
        None \<Rightarrow> False
      | Some None \<Rightarrow> True
      | Some (Some n) \<Rightarrow> exec rt (ins d l r) m = store_dispatch m d (numeral_to_value n)))
    \<and> (prefix_instr pre = Some pins \<longrightarrow> (case fold_prefix pre k of
        None \<Rightarrow> True
      | Some e \<Rightarrow> \<exists>v. const_kind_to_value (ed_kind e) = Some v \<and> exec rt (pins d s) m =
          (if pre = PreBitNot \<and> (\<exists>f. k = KNumeral (NFloat f)) then raise m else store_dispatch m d v)))"
proof -
  have "exec rt (ins d l r) m = store_dispatch m d (numeral_to_value n)"
    if "binary_instr opr = Some ins" and n: "try_fold_binop (rt_powf rt) opr a b = Some (Some n)" for n
  proof -
    have "opr \<noteq> OpConcat" using n folds_not_concat by metis
    from exec_binary [OF that(1) this] obtain mm where
      "exec rt (ins d l r) m = op_binop rt (folded_value (rt_powf rt) opr) mm d l r m"
      by blast
    then show ?thesis by (simp add: op_binop_def assms fold_value [OF n])
  qed
  moreover have "\<exists>v. const_kind_to_value (ed_kind e) = Some v \<and> exec rt (pins d s) m =
      (if pre = PreBitNot \<and> (\<exists>f. k = KNumeral (NFloat f)) then raise m else store_dispatch m d v)"
    if "prefix_instr pre = Some pins" "fold_prefix pre k = Some e" for e
    by (rule exec_prefix [OF that(2) assms(3,4) that(1)])
  ultimately show ?thesis
    using fold_never_panics [of "rt_powf rt" opr a b] by (auto split: option.split)
qed

theorem folding_agrees_witness:
  "exec demo_runtime (IDIV 0 0 1) (demo_machine [VInt 7, VInt 2] 0 0)
     = store_dispatch (demo_machine [VInt 7, VInt 2] 0 0) 0 (VInt 3)
   \<and> exec demo_runtime (BNOT 0 0) (demo_machine [VInt 7, VInt 2] 0 0)
     = store_dispatch (demo_machine [VInt 7, VInt 2] 0 0) 0 (VInt (- 8))"
proof -
  let ?m = "demo_machine [VInt 7, VInt 2] 0 0"
  have n: "try_fold_binop (rt_powf demo_runtime) OpIntDiv (NInt 7) (NInt 2) = Some (Some (NInt 3))"
    by code_simp
  have r: "reg ?m 0 = Some (numeral_to_value (NInt 7))" "reg ?m 1 = Some (numeral_to_value (NInt 2))"
    by (simp_all add: demo_defs reg_def reg_at_def idx_def)
  show ?thesis
    using folding_agrees [OF r, of "KNumeral (NInt 7)" "VInt 7" 0 OpIntDiv IDIV demo_runtime 0 PreBitNot BNOT] n r(1)
    by (simp add: from_numeral_def plain_def)
qed

fun offset_of :: "instruction \<Rightarrow> i32 option" where
  "offset_of (JMP d) = Some d"
| "offset_of (FORPREP _ d) = Some d"
| "offset_of (FORLOOP _ d) = Some d"
| "offset_of (TFORPREP _ d) = Some d"
| "offset_of (TFORLOOP _ d) = Some d"
| "offset_of _ = None"

lemma offset_of_with: "with_offset d ins = Some ins' \<Longrightarrow> offset_of ins' = Some d"
  by (cases ins) auto

lemma apply_patches_spec:
  assumes "apply_patches ls ps t = Some t'"
  shows "length t' = length t \<and> (\<forall>j. j \<notin> fst ` set ps \<longrightarrow> t' ! j = t ! j)
    \<and> (\<forall>(i, l)\<in>set ps. i < length t \<and> l < length ls)
    \<and> (\<forall>i l. (i, l) \<in> set ps \<longrightarrow> (\<forall>k. (i, k) \<in> set ps \<longrightarrow> k = l) \<longrightarrow> offset_of (t' ! i) = Some (jump_offset (ls ! l) i))"
  using assms
proof (induction ls ps t rule: apply_patches.induct)
  case (2 ls i l ps t)
  from 2(2) obtain target ins c where *: "idx ls l = Some target" "idx t i = Some ins"
      "with_offset (jump_offset target i) ins = Some c" "apply_patches ls ps (t[i := c]) = Some t'"
    by (auto split: Option.bind_splits)
  note IH = 2(1)[OF *]
  note IH4 = IH[THEN conjunct2, THEN conjunct2, THEN conjunct2, rule_format]
  have i: "i < length t" "l < length ls" "target = ls ! l" using *(1,2) by (auto simp: idx_def split: if_splits)
  have "offset_of (t' ! j) = Some (jump_offset (ls ! k) j)"
    if jk: "(j, k) \<in> set ((i, l) # ps)" "\<forall>k'. (j, k') \<in> set ((i, l) # ps) \<longrightarrow> k' = k" for j k
  proof (cases "j \<in> fst ` set ps")
    case True
    then obtain k0 where "(j, k0) \<in> set ps" by force
    moreover have same: "k' = k" if "(j, k') \<in> set ps" for k' using jk(2) that by simp
    ultimately have "(j, k) \<in> set ps" by blast
    then show ?thesis using same by (rule IH4)
  next
    case False
    then have "(j, k) \<notin> set ps" by force
    then have "j = i" "k = l" using jk(1) by auto
    moreover from this have "t' ! i = t[i := c] ! i" using IH[THEN conjunct2, THEN conjunct1] False by blast
    ultimately show ?thesis using i offset_of_with[OF *(3)] by simp
  qed
  moreover have "t' ! j = t ! j" if "j \<notin> fst ` set ((i, l) # ps)" for j
    using IH[THEN conjunct2, THEN conjunct1] that by simp
  moreover have "\<forall>(i, l)\<in>set ((i, l) # ps). i < length t \<and> l < length ls"
    using IH[THEN conjunct2, THEN conjunct2, THEN conjunct1] i by simp
  moreover have "length t' = length t" using IH[THEN conjunct1] by simp
  ultimately show ?case by blast
qed simp

lemma sint_jump_offset:
  assumes "target < 2 ^ 31" "i < 2 ^ 31"
  shows "sint (jump_offset target i) = int target - (int i + 1)"
  unfolding jump_offset_def sint_sbintrunc' using assms by (simp add: signed_take_bit_int_eq_self)

text \<open>
  C21. Assembly leaves every instruction without a patch as it is, and gives a patched jump the offset that
  takes the interpreter, which has advanced past the jump, to the position of the jump's label.
\<close>

theorem assembled_jumps_land:
  assumes "assemble c = Some p" "(i, l) \<in> set (ck_jump_patches c)" "\<forall>k. (i, k) \<in> set (ck_jump_patches c) \<longrightarrow> k = l"
    "length (ck_tape c) \<le> 2 ^ 31" "ck_labels c ! l < 2 ^ 31" "m_ip m = Suc i"
  shows "(\<exists>d. offset_of (pr_code p ! i) = Some d \<and> jump m (sint d) = Some (m\<lparr>m_ip := ck_labels c ! l\<rparr>))
    \<and> length (pr_code p) = length (ck_tape c)
    \<and> (\<forall>j. j \<notin> fst ` set (ck_jump_patches c) \<longrightarrow> pr_code p ! j = ck_tape c ! j)"
proof -
  from assms(1) have "apply_patches (ck_labels c) (ck_jump_patches c) (ck_tape c) = Some (pr_code p)"
    by (auto simp: assemble_def split: Option.bind_splits)
  note spec = apply_patches_spec[OF this]
  let ?t = "ck_labels c ! l"
  have d: "offset_of (pr_code p ! i) = Some (jump_offset ?t i)" 
    using spec[THEN conjunct2, THEN conjunct2, THEN conjunct2] assms(2,3) by blast
  have "i < length (ck_tape c)"
    using spec[THEN conjunct2, THEN conjunct2, THEN conjunct1] assms(2) by blast
  then have "i < 2 ^ 31" using assms(4) by simp
  then have "sint (jump_offset ?t i) = int ?t - (int i + 1)" using assms(5) by (rule sint_jump_offset [rotated])
  then have "jump m (sint (jump_offset ?t i)) = Some (m\<lparr>m_ip := ?t\<rparr>)" by (simp add: jump_def assms(6))
  then show ?thesis using d spec[THEN conjunct1] spec[THEN conjunct2, THEN conjunct1] by blast
qed

definition jump_demo :: chunk where
  "jump_demo = chunk_new\<lparr>ck_tape := [JMP 0, NOP, RETURN 0 1], ck_labels := [2], ck_jump_patches := [(0, 0)]\<rparr>"

theorem assembled_jumps_land_witness:
  "jump (demo_machine [] 0 0) 1 = Some ((demo_machine [] 0 0)\<lparr>m_ip := 2\<rparr>)"
proof -
  let ?m = "demo_machine [] 0 0"
  define p where "p = \<lparr>pr_code = [JMP 1, NOP, RETURN 0 1], pr_constants = [], pr_prototypes = [], pr_upvalue_desc = [],
    pr_num_params = 0, pr_is_vararg = False, pr_needs_vararg_table = False, pr_max_stack_size = 0, pr_ic_table = []\<rparr>"
  have p: "assemble jump_demo = Some p" "pr_code p = [JMP 1, NOP, RETURN 0 1]"
    by (simp_all add: p_def jump_demo_def assemble_def chunk_new_def idx_def jump_offset_def)
  have "m_ip ?m = Suc 0" by (simp add: demo_machine_def)
  then show ?thesis
    using assembled_jumps_land [OF p(1), of 0 0 ?m] p(2) by (simp add: jump_demo_def chunk_new_def)
qed

end
