(* ===== verification/TableSort.thy ===== *)
theory TableSort
  imports Outcome "HOL-Library.Multiset"
begin

text \<open>
  The quicksort of \<open>table.sort\<close> (\<open>sort_run\<close> in \<open>builtin/table.rs\<close>) over any state: \<open>cmp s x y\<close> compares
  the elements at two positions, and may change the state or fail; \<open>swap s x y\<close> exchanges them; \<open>invalid s\<close>
  is the error of an inconsistent comparator. Positions are \<open>usize\<close>: stepping one past its range
  panics, which is also why every loop ends.
\<close>

lemma and_then_cong [fundef_cong]:
  "r = r' \<Longrightarrow> (\<And>x. r' = ok x \<Longrightarrow> f x = g x) \<Longrightarrow> and_then r f = and_then r' g"
  by (auto simp: and_then_def split: option.split sum.split)

type_synonym ('s, 'e) comparison = "'s \<Rightarrow> nat \<Rightarrow> nat \<Rightarrow> ('e, 's \<times> bool) outcome"

section \<open>Partition\<close>

text \<open>Advance \<open>i\<close> past the elements less than the pivot; retreat \<open>j\<close> past the greater ones.\<close>

function advance :: "('s, 'e) comparison \<Rightarrow> ('s \<Rightarrow> 'e) \<Rightarrow> nat \<Rightarrow> nat \<Rightarrow> nat \<Rightarrow> 's \<Rightarrow> ('e, 's \<times> nat) outcome" where
  "advance cmp invalid up piv i s =
     (if 2 ^ 64 \<le> i + 1 then None
      else and_then (cmp s (i + 1) piv) (\<lambda>(s, lt).
        if \<not> lt then ok (s, i + 1)
        else if i + 1 = up - 1 then err (invalid s)
        else advance cmp invalid up piv (i + 1) s))"
  by pat_completeness auto
termination by (relation "measure (\<lambda>(cmp, invalid, up, piv, i, s). 2 ^ 64 - i)") auto

fun retreat :: "('s, 'e) comparison \<Rightarrow> ('s \<Rightarrow> 'e) \<Rightarrow> nat \<Rightarrow> nat \<Rightarrow> nat \<Rightarrow> 's \<Rightarrow> ('e, 's \<times> nat) outcome" where
  "retreat cmp invalid piv i 0 s = None"
| "retreat cmp invalid piv i (Suc j) s =
     and_then (cmp s piv j) (\<lambda>(s, lt).
       if \<not> lt then ok (s, j)
       else if j < i then err (invalid s)
       else retreat cmp invalid piv i j s)"

declare advance.simps [simp del]

lemma advance_okE:
  assumes "advance cmp invalid up piv i s = ok (s', i')"
  obtains "cmp s (i + 1) piv = ok (s', False)" "i' = i + 1" "i + 1 < 2 ^ 64"
  | s1 where "cmp s (i + 1) piv = ok (s1, True)" "i + 1 \<noteq> up - 1" "i + 1 < 2 ^ 64"
      "advance cmp invalid up piv (i + 1) s1 = ok (s', i')"
proof -
  let ?k = "\<lambda>(s, lt). if \<not> lt then ok (s, i + 1) else if i + 1 = up - 1 then err (invalid s)
      else advance cmp invalid up piv (i + 1) s"
  have r: "(if 2 ^ 64 \<le> i + 1 then None else and_then (cmp s (i + 1) piv) ?k) = ok (s', i')"
    using assms by (subst (asm) advance.simps)
  have b: "i + 1 < 2 ^ 64"
  proof (rule ccontr)
    assume "\<not> i + 1 < 2 ^ 64"
    then have "2 ^ 64 \<le> i + 1" by (rule leI)
    then show False using r by (simp only: if_True option.distinct)
  qed
  then have "\<not> 2 ^ 64 \<le> i + 1" by (simp only: not_le)
  then have "and_then (cmp s (i + 1) piv) ?k = ok (s', i')" using r by (simp only: if_False)
  then obtain s1 lt where c: "cmp s (i + 1) piv = ok (s1, lt)" and k: "?k (s1, lt) = ok (s', i')"
    by (rule and_then_pairE)
  show ?thesis
  proof (cases lt)
    case True
    then have "i + 1 \<noteq> up - 1 \<and> advance cmp invalid up piv (i + 1) s1 = ok (s', i')"
      using k by (simp split: if_splits)
    then show ?thesis using c b True by (intro that(2) [of s1]) simp_all
  next
    case False
    then have "s1 = s' \<and> i' = i + 1" using k by simp
    then show ?thesis using c b False by (intro that(1)) simp_all
  qed
qed

lemma advance_above: "advance cmp invalid up piv i s = ok (s', i') \<Longrightarrow> i < i' \<and> i' < 2 ^ 64"
proof (induction cmp invalid up piv i s rule: advance.induct)
  case (1 cmp invalid up piv i s)
  from "1.prems" show ?case
  proof (cases rule: advance_okE)
    case (2 s1)
    then show ?thesis using "1.IH" [of "(s1, True)" s1 True] by simp
  qed simp
qed

lemma advance_le:
  "advance cmp invalid up piv i s = ok (s', i') \<Longrightarrow> i < up - 1 \<Longrightarrow> i' \<le> up - 1"
proof (induction cmp invalid up piv i s rule: advance.induct)
  case (1 cmp invalid up piv i s)
  from "1.prems"(1) show ?case
  proof (cases rule: advance_okE)
    case (2 s1)
    then show ?thesis using "1.IH" [of "(s1, True)" s1 True] "1.prems"(2) by simp
  qed (use "1.prems"(2) in simp)
qed

lemma retreat_below: "retreat cmp invalid piv i j s = ok (s', j') \<Longrightarrow> j' < j"
proof (induction j arbitrary: s)
  case (Suc j)
  from Suc.prems obtain s1 b where "(if \<not> b then ok (s1, j) else if j < i then err (invalid s1)
      else retreat cmp invalid piv i j s1) = ok (s', j')"
    by (auto elim!: and_then_pairE)
  then show ?case using Suc.IH [of s1] by (auto split: if_splits)
qed simp

function part_loop :: "('s, 'e) comparison \<Rightarrow> ('s \<Rightarrow> nat \<Rightarrow> nat \<Rightarrow> 's option) \<Rightarrow> ('s \<Rightarrow> 'e) \<Rightarrow>
    nat \<Rightarrow> nat \<Rightarrow> nat \<Rightarrow> nat \<Rightarrow> 's \<Rightarrow> ('e, 's \<times> nat) outcome" where
  "part_loop cmp swap invalid up piv i j s =
     and_then (advance cmp invalid up piv i s) (\<lambda>(s, i).
       and_then (retreat cmp invalid piv i j s) (\<lambda>(s, j).
         if j < i then and_then (of_panic (swap s piv i)) (\<lambda>s. ok (s, i))
         else and_then (of_panic (swap s i j)) (\<lambda>s. part_loop cmp swap invalid up piv i j s)))"
  by pat_completeness auto
termination
  by (relation "measure (\<lambda>(cmp, swap, invalid, up, piv, i, j, s). 2 ^ 64 - i)")
    (auto dest: advance_above)

declare part_loop.simps [simp del]

lemma part_loop_range:
  "part_loop cmp swap invalid up piv i j s = ok (s', part) \<Longrightarrow> i < up - 1 \<Longrightarrow> j \<le> up - 1 \<Longrightarrow>
    i < part \<and> part \<le> up - 1"
proof (induction cmp swap invalid up piv i j s rule: part_loop.induct)
  case (1 cmp swap invalid up piv i j s)
  from "1.prems"(1) obtain s1 i1 s2 j1 where a: "advance cmp invalid up piv i s = ok (s1, i1)"
    and r: "retreat cmp invalid piv i1 j s1 = ok (s2, j1)"
    and c: "(if j1 < i1 then and_then (of_panic (swap s2 piv i1)) (\<lambda>s. ok (s, i1))
       else and_then (of_panic (swap s2 i1 j1)) (\<lambda>s. part_loop cmp swap invalid up piv i1 j1 s)) = ok (s', part)"
    by (subst (asm) part_loop.simps) (auto elim!: and_then_pairE)
  note b = advance_above [OF a] advance_le [OF a "1.prems"(2)] retreat_below [OF r]
  show ?case
  proof (cases "j1 < i1")
    case True
    then show ?thesis using b c by (auto elim!: and_then_panicE)
  next
    case False
    then have "and_then (of_panic (swap s2 i1 j1)) (\<lambda>s. part_loop cmp swap invalid up piv i1 j1 s) = ok (s', part)"
      using c by simp
    then obtain s3 where "part_loop cmp swap invalid up piv i1 j1 s3 = ok (s', part)"
      and "swap s2 i1 j1 = Some s3"
      by (rule and_then_panicE)
    with "1.IH" [OF a refl r refl False, of s3] have "i1 < up - 1 \<Longrightarrow> j1 \<le> up - 1 \<Longrightarrow> i1 < part \<and> part \<le> up - 1"
      by simp
    then show ?thesis using b False "1.prems"(3) by linarith
  qed
qed

section \<open>The work list\<close>

text \<open>Swap \<open>x\<close> and \<open>y\<close> when the element at \<open>a\<close> is less than the one at \<open>b\<close>; whether it did.\<close>

definition order_pair :: "('s, 'e) comparison \<Rightarrow> ('s \<Rightarrow> nat \<Rightarrow> nat \<Rightarrow> 's option) \<Rightarrow> nat \<Rightarrow> nat \<Rightarrow>
    nat \<Rightarrow> nat \<Rightarrow> 's \<Rightarrow> ('e, 's \<times> bool) outcome" where
  "order_pair cmp swap a b x y s =
     and_then (cmp s a b) (\<lambda>(s, lt).
       if lt then and_then (of_panic (swap s x y)) (\<lambda>s. ok (s, True)) else ok (s, False))"

text \<open>The median of three: the elements at \<open>lo\<close>, \<open>p\<close> and \<open>up\<close> put in order; then the pivot stashed at
  \<open>up - 1\<close> and the elements between partitioned.\<close>

definition median_of_3 :: "('s, 'e) comparison \<Rightarrow> ('s \<Rightarrow> nat \<Rightarrow> nat \<Rightarrow> 's option) \<Rightarrow> nat \<Rightarrow> nat \<Rightarrow> nat \<Rightarrow> 's \<Rightarrow>
    ('e, 's) outcome" where
  "median_of_3 cmp swap lo p up s =
     and_then (order_pair cmp swap p lo p lo s) (\<lambda>(s, swapped).
       if swapped then ok s else and_then (order_pair cmp swap up p p up s) (\<lambda>(s, _). ok s))"

definition partition_at :: "('s, 'e) comparison \<Rightarrow> ('s \<Rightarrow> nat \<Rightarrow> nat \<Rightarrow> 's option) \<Rightarrow> ('s \<Rightarrow> 'e) \<Rightarrow>
    nat \<Rightarrow> nat \<Rightarrow> nat \<Rightarrow> 's \<Rightarrow> ('e, 's \<times> nat) outcome" where
  "partition_at cmp swap invalid lo p up s =
     and_then (of_panic (swap s p (up - 1))) (\<lambda>s.
       part_loop cmp swap invalid up (up - 1) lo (up - 1) s)"

text \<open>One round of the inner loop on \<open>lo < up\<close>: the new position of the pivot, or nothing when the
  interval has been sorted.\<close>

definition sort_round :: "('s, 'e) comparison \<Rightarrow> ('s \<Rightarrow> nat \<Rightarrow> nat \<Rightarrow> 's option) \<Rightarrow> ('s \<Rightarrow> 'e) \<Rightarrow>
    nat \<Rightarrow> nat \<Rightarrow> 's \<Rightarrow> ('e, 's \<times> nat option) outcome" where
  "sort_round cmp swap invalid lo up s =
     and_then (order_pair cmp swap up lo lo up s) (\<lambda>(s, _).
       if up - lo = 1 then ok (s, None)
       else and_then (median_of_3 cmp swap lo ((lo + up) div 2) up s) (\<lambda>s.
         if up - lo = 2 then ok (s, None)
         else and_then (partition_at cmp swap invalid lo ((lo + up) div 2) up s) (\<lambda>(s, part).
           ok (s, Some part))))"

lemma sort_round_range:
  assumes "sort_round cmp swap invalid lo up s = ok (s', Some part)" and "lo < up"
  shows "lo < part \<and> part < up"
proof -
  obtain s1 where "part_loop cmp swap invalid up (up - 1) lo (up - 1) s1 = ok (s', part)"
    and "up - lo \<noteq> 1" "up - lo \<noteq> 2"
    using assms(1) by (auto simp: sort_round_def partition_at_def elim!: and_then_pairE and_then_okE
        and_then_panicE split: if_splits)
  from part_loop_range [OF this(1)] this(2,3) assms(2) show ?thesis by linarith
qed

definition work_size :: "(nat \<times> nat) list \<Rightarrow> nat" where
  "work_size work = (\<Sum>(lo, up) \<leftarrow> work. 2 * (Suc up - lo) + 1)"

lemma work_size_simps [simp]:
  "work_size [] = 0" "work_size ((lo, up) # work) = 2 * (Suc up - lo) + 1 + work_size work"
  by (simp_all add: work_size_def)

text \<open>The interval in hand is the first of the list, the stack of postponed ones is the rest.\<close>

function sort_run :: "('s, 'e) comparison \<Rightarrow> ('s \<Rightarrow> nat \<Rightarrow> nat \<Rightarrow> 's option) \<Rightarrow> ('s \<Rightarrow> 'e) \<Rightarrow>
    (nat \<times> nat) list \<Rightarrow> 's \<Rightarrow> ('e, 's) outcome" where
  "sort_run cmp swap invalid [] s = ok s"
| "sort_run cmp swap invalid ((lo, up) # work) s =
     (if lo < up then
        and_then (sort_round cmp swap invalid lo up s) (\<lambda>(s, r). case r of
            None \<Rightarrow> sort_run cmp swap invalid work s
          | Some part \<Rightarrow>
              if part - lo < up - part
              then sort_run cmp swap invalid ((part + 1, up) # (lo, part - 1) # work) s
              else sort_run cmp swap invalid ((lo, part - 1) # (part + 1, up) # work) s)
      else sort_run cmp swap invalid work s)"
  by pat_completeness auto
termination
proof (relation "measure (\<lambda>(cmp, swap, invalid, work, s). work_size work)", goal_cases)
  case (3 cmp swap invalid lo up work s x s' r part)
  then show ?case using sort_round_range [of cmp swap invalid lo up s s' part] by auto
next
  case (4 cmp swap invalid lo up work s x s' r part)
  then show ?case using sort_round_range [of cmp swap invalid lo up s s' part] by auto
qed auto

declare sort_run.simps(2) [simp del]

end
