(* ===== verification/TableLib.thy ===== *)
theory TableLib
  imports TableStore StringLib TableSort
begin

text \<open>
  \<open>builtin/table.rs\<close>: the functions of the table library over the raw reads and writes of theory
  Tables. The arguments of a call are the list of the values on its stack; the result is the heap and
  the returned values. \<open>fpowi\<close> is \<open>f64::powi\<close> in the coercion of numerals. \<open>call h f args\<close> is the call
  of a comparator or of an \<open>__lt\<close> handler by the executor, which may change the heap; an error of
  \<open>sort\<close> therefore carries the heap it leaves.
\<close>

type_synonym effect = "heap \<Rightarrow> lua_value list \<Rightarrow> (heap \<times> lua_value list) lib"
type_synonym callback = "heap \<Rightarrow> addr \<Rightarrow> lua_value list \<Rightarrow>
  (heap \<times> lib_error + heap \<times> lua_value list) option"

abbreviation int_key :: "int \<Rightarrow> lua_value" where
  "int_key k \<equiv> VInt (word_of_int k)"

definition check_table :: "lua_value \<Rightarrow> nat \<Rightarrow> addr lib" where
  "check_table v n = ok_or (TableExpected n) (get_table v)"

section \<open>Joining and creating\<close>

definition concat_item :: "lua_value \<Rightarrow> int \<Rightarrow> bytes lib" where
  "concat_item v k = (case v of
      VStr s \<Rightarrow> ok s
    | VInt n \<Rightarrow> ok (push_int [] n)
    | VFloat f \<Rightarrow> ok (push_float [] f)
    | _ \<Rightarrow> err (InvalidElement k v))"

text \<open>\<open>k += 1\<close> overflows, and panics, when the last index is the greatest integer.\<close>

function concat_loop :: "heap \<Rightarrow> addr \<Rightarrow> bytes \<Rightarrow> int \<Rightarrow> int \<Rightarrow> bytes \<Rightarrow> bytes lib" where
  "concat_loop h t sep k j out =
     (if k \<le> j then
        and_then (of_panic (raw_get h t (int_key k))) (\<lambda>v.
          and_then (concat_item v k) (\<lambda>b.
            if k = i64_max then None
            else concat_loop h t sep (k + 1) j (out @ b @ (if k \<noteq> j then sep else []))))
      else ok out)"
  by pat_completeness auto
termination by (relation "measure (\<lambda>(h, t, sep, k, j, out). nat (j + 1 - k))") auto

declare concat_loop.simps [simp del]

definition concat_sep :: "(lua_value \<Rightarrow> bytes) \<Rightarrow> lua_value \<Rightarrow> bytes lib" where
  "concat_sep address v =
     (if is_nil v then ok []
      else case get_string v of
        Some s \<Rightarrow> ok s
      | None \<Rightarrow> if get_integer v \<noteq> None \<or> get_float v \<noteq> None then ok (basic_tostring address v)
                else err (StringExpected 2))"

definition lua_concat :: "(f64 \<Rightarrow> int \<Rightarrow> f64) \<Rightarrow> (lua_value \<Rightarrow> bytes) \<Rightarrow> effect" where
  "lua_concat fpowi address h args =
     and_then (check_table (arg args 0) 1) (\<lambda>t.
       and_then (concat_sep address (arg args 1)) (\<lambda>sep.
         and_then (opt_integer fpowi (arg args 2) 3 1) (\<lambda>i.
           and_then (opt_integer fpowi (arg args 3) 4 (int (raw_len h t))) (\<lambda>j.
             and_then (concat_loop h t sep i j []) (\<lambda>out. ok (h, [VStr out]))))))"

definition lua_table_create :: "(f64 \<Rightarrow> int \<Rightarrow> f64) \<Rightarrow> effect" where
  "lua_table_create fpowi h args =
     and_then (check_integer fpowi (arg args 0) 1) (\<lambda>n.
       and_then (opt_integer fpowi (arg args 1) 2 0) (\<lambda>m.
         if sint n < 0 then err (OutOfRange 1)
         else if m < 0 then err (OutOfRange 2)
         else let (h', t) = table_new h in ok (h', [VTable t])))"

section \<open>Inserting, removing and moving\<close>

text \<open>One step of a shift: the element at \<open>src\<close> copied to \<open>dst\<close>.\<close>

definition copy_cell :: "heap \<Rightarrow> addr \<Rightarrow> int \<Rightarrow> addr \<Rightarrow> int \<Rightarrow> heap option" where
  "copy_cell h a src b dst =
     Option.bind (raw_get h a (int_key src)) (\<lambda>v. raw_set h b (int_key dst) v)"

function insert_loop :: "addr \<Rightarrow> int \<Rightarrow> int \<Rightarrow> heap \<Rightarrow> heap option" where
  "insert_loop t pos k h =
     (if pos \<le> k then
        (case copy_cell h t k t (k + 1) of
           None \<Rightarrow> None
         | Some h' \<Rightarrow> insert_loop t pos (k - 1) h')
      else Some h)"
  by pat_completeness auto
termination by (relation "measure (\<lambda>(t, pos, k, h). nat (k + 1 - pos))") auto

declare insert_loop.simps [simp del]

definition lua_insert :: "(f64 \<Rightarrow> int \<Rightarrow> f64) \<Rightarrow> effect" where
  "lua_insert fpowi h args =
     and_then (check_table (arg args 0) 1) (\<lambda>t.
       let n = int (raw_len h t) in
       if length args = 2 then
         and_then (of_panic (raw_set h t (int_key (n + 1)) (arg args 1))) (\<lambda>h. ok (h, []))
       else if length args = 3 then
         and_then (check_integer fpowi (arg args 1) 2) (\<lambda>p.
           let pos = sint p in
           if pos < 1 \<or> n + 1 < pos then err (OutOfBounds 2)
           else and_then (of_panic (insert_loop t pos n h)) (\<lambda>h.
             and_then (of_panic (raw_set h t (int_key pos) (arg args 2))) (\<lambda>h. ok (h, []))))
       else err WrongArgumentCount)"

function remove_loop :: "addr \<Rightarrow> int \<Rightarrow> int \<Rightarrow> heap \<Rightarrow> heap option" where
  "remove_loop t n k h =
     (if k < n then
        (case copy_cell h t (k + 1) t k of
           None \<Rightarrow> None
         | Some h' \<Rightarrow> remove_loop t n (k + 1) h')
      else Some h)"
  by pat_completeness auto
termination by (relation "measure (\<lambda>(t, n, k, h). nat (n - k))") auto

declare remove_loop.simps [simp del]

definition lua_remove :: "(f64 \<Rightarrow> int \<Rightarrow> f64) \<Rightarrow> effect" where
  "lua_remove fpowi h args =
     and_then (check_table (arg args 0) 1) (\<lambda>t.
       let n = int (raw_len h t) in
       and_then (opt_integer fpowi (arg args 1) 2 n) (\<lambda>pos.
         if pos \<noteq> n \<and> (pos < 1 \<or> n + 1 < pos) then err (OutOfBounds 2)
         else
           and_then (of_panic (raw_get h t (int_key pos))) (\<lambda>result.
             and_then (of_panic (remove_loop t n pos h)) (\<lambda>h.
               and_then (of_panic (raw_set h t (int_key (max pos n)) VNil)) (\<lambda>h.
                 ok (h, [result]))))))"

text \<open>The two directions of \<open>move\<close>.\<close>

function move_upwards :: "addr \<Rightarrow> int \<Rightarrow> addr \<Rightarrow> int \<Rightarrow> int \<Rightarrow> int \<Rightarrow> heap \<Rightarrow> heap option" where
  "move_upwards a1 f a2 t n i h =
     (if i < n then
        (case copy_cell h a1 (f + i) a2 (t + i) of
           None \<Rightarrow> None
         | Some h' \<Rightarrow> move_upwards a1 f a2 t n (i + 1) h')
      else Some h)"
  by pat_completeness auto
termination by (relation "measure (\<lambda>(a1, f, a2, t, n, i, h). nat (n - i))") auto

fun move_downwards :: "addr \<Rightarrow> int \<Rightarrow> addr \<Rightarrow> int \<Rightarrow> nat \<Rightarrow> heap \<Rightarrow> heap option" where
  "move_downwards a1 f a2 t i h =
     (case copy_cell h a1 (f + int i) a2 (t + int i) of
        None \<Rightarrow> None
      | Some h' \<Rightarrow> (case i of 0 \<Rightarrow> Some h' | Suc j \<Rightarrow> move_downwards a1 f a2 t j h'))"

declare move_upwards.simps [simp del] move_downwards.simps [simp del]

definition lua_move :: "(f64 \<Rightarrow> int \<Rightarrow> f64) \<Rightarrow> effect" where
  "lua_move fpowi h args =
     and_then (check_table (arg args 0) 1) (\<lambda>a1.
       and_then (check_integer fpowi (arg args 1) 2) (\<lambda>fw.
         and_then (check_integer fpowi (arg args 2) 3) (\<lambda>ew.
           and_then (check_integer fpowi (arg args 3) 4) (\<lambda>tw.
             and_then (if is_nil (arg args 4) then ok a1 else check_table (arg args 4) 1) (\<lambda>a2.
               let f = sint fw; e = sint ew; t = sint tw; n = e - f + 1 in
               if f \<le> e then
                 if \<not> (0 < f \<or> e < i64_max + f) then err (TooMany 3)
                 else if i64_max - n + 1 < t then err (WrapAround 4)
                 else and_then (of_panic
                     (if e < t \<or> t \<le> f \<or> a1 \<noteq> a2 then move_upwards a1 f a2 t n 0 h
                      else move_downwards a1 f a2 t (nat (n - 1)) h))
                   (\<lambda>h. ok (h, [VTable a2]))
               else ok (h, [VTable a2]))))))"

section \<open>Packing and unpacking\<close>

definition lua_pack :: effect where
  "lua_pack h args =
     (let (h, t) = table_new h in
      and_then (of_panic (set_sequence h t 1 args)) (\<lambda>h.
        and_then (of_panic (raw_set h t (VStr (ascii ''n'')) (VInt (word_of_nat (length args))))) (\<lambda>h.
          ok (h, [VTable t]))))"

function unpack_loop :: "heap \<Rightarrow> addr \<Rightarrow> int \<Rightarrow> int \<Rightarrow> lua_value list \<Rightarrow> lua_value list option" where
  "unpack_loop h t k j out =
     (case raw_get h t (int_key k) of
        None \<Rightarrow> None
      | Some v \<Rightarrow> if k < j then unpack_loop h t (k + 1) j (out @ [v]) else Some (out @ [v]))"
  by pat_completeness auto
termination by (relation "measure (\<lambda>(h, t, k, j, out). nat (j - k))") auto

declare unpack_loop.simps [simp del]

definition lua_unpack :: "(f64 \<Rightarrow> int \<Rightarrow> f64) \<Rightarrow> effect" where
  "lua_unpack fpowi h args =
     and_then (check_table (arg args 0) 1) (\<lambda>t.
       and_then (opt_integer fpowi (arg args 1) 2 1) (\<lambda>i.
         and_then (opt_integer fpowi (arg args 2) 3 (int (raw_len h t))) (\<lambda>j.
           if j < i then ok (h, [])
           else if 2 ^ 31 - 1 \<le> (j - i) mod 2 ^ 64 then err TooManyResults
           else and_then (of_panic (unpack_loop h t i j [])) (\<lambda>out. ok (h, out)))))"

section \<open>Sorting\<close>

definition sort_primitive :: "lua_value \<Rightarrow> lua_value \<Rightarrow> bool option" where
  "sort_primitive a b = (case (a, b) of
      (VInt x, VInt y) \<Rightarrow> Some (i64_lt x y)
    | (VFloat x, VFloat y) \<Rightarrow> Some (f64_lt x y)
    | (VInt x, VFloat y) \<Rightarrow> Some (f64_lt (f64_of_i64 x) y)
    | (VFloat x, VInt y) \<Rightarrow> Some (f64_lt x (f64_of_i64 y))
    | (VStr x, VStr y) \<Rightarrow> Some (bytes_less x y)
    | _ \<Rightarrow> None)"

definition lt_metamethod :: "heap \<Rightarrow> lua_value \<Rightarrow> lua_value \<Rightarrow> lua_value option" where
  "lt_metamethod h a b =
     Option.bind (case get_table a of Some t \<Rightarrow> get_metamethod h t (ascii ''__lt'') | None \<Rightarrow> Some VNil) (\<lambda>m.
       if \<not> is_nil m then Some m
       else case get_table b of Some t \<Rightarrow> get_metamethod h t (ascii ''__lt'') | None \<Rightarrow> Some VNil)"

text \<open>The comparison of two elements: the comparator if there is one, else the default order.\<close>

definition call_truthy :: "callback \<Rightarrow> heap \<Rightarrow> addr \<Rightarrow> lua_value \<Rightarrow> lua_value \<Rightarrow> (heap \<times> lib_error + heap \<times> bool) option" where
  "call_truthy call h f a b = and_then (call h f [a, b]) (\<lambda>(h, rs). ok (h, \<not> is_falsy (arg rs 0)))"

definition compare_elements :: "callback \<Rightarrow> addr option \<Rightarrow> heap \<Rightarrow> lua_value \<Rightarrow> lua_value \<Rightarrow>
    (heap \<times> lib_error + heap \<times> bool) option" where
  "compare_elements call cmpf h a b = (case cmpf of
      Some f \<Rightarrow> call_truthy call h f a b
    | None \<Rightarrow> (case sort_primitive a b of
        Some r \<Rightarrow> ok (h, r)
      | None \<Rightarrow> and_then (of_panic (lt_metamethod h a b)) (\<lambda>m.
          case get_function m of
            Some f \<Rightarrow> call_truthy call h f a b
          | None \<Rightarrow> err (h, Incomparable a b))))"

definition sort_less :: "callback \<Rightarrow> addr \<Rightarrow> addr option \<Rightarrow> (heap, heap \<times> lib_error) comparison" where
  "sort_less call t cmpf h xi yi =
     and_then (of_panic (raw_get h t (int_key (int xi)))) (\<lambda>a.
       and_then (of_panic (raw_get h t (int_key (int yi)))) (\<lambda>b.
         compare_elements call cmpf h a b))"

definition sort_swap :: "addr \<Rightarrow> heap \<Rightarrow> nat \<Rightarrow> nat \<Rightarrow> heap option" where
  "sort_swap t h x y =
     Option.bind (raw_get h t (int_key (int x))) (\<lambda>vx.
       Option.bind (raw_get h t (int_key (int y))) (\<lambda>vy.
         Option.bind (raw_set h t (int_key (int x)) vy) (\<lambda>h.
           raw_set h t (int_key (int y)) vx)))"

definition invalid_order :: "heap \<Rightarrow> heap \<times> lib_error" where
  "invalid_order h = (h, InvalidOrder)"

definition sort_comparator :: "lua_value \<Rightarrow> addr option lib" where
  "sort_comparator v =
     (if is_nil v then ok None
      else case get_function v of Some f \<Rightarrow> ok (Some f) | None \<Rightarrow> err (FunctionExpected 2))"

definition lua_sort :: "callback \<Rightarrow> heap \<Rightarrow> lua_value list \<Rightarrow> (heap \<times> lib_error + heap \<times> lua_value list) option" where
  "lua_sort call h args =
     and_then (map_err (Pair h) (check_table (arg args 0) 1)) (\<lambda>t.
       let n = raw_len h t in
       if n \<le> 1 then ok (h, [])
       else if 2 ^ 31 - 1 \<le> n then err (h, ArrayTooBig)
       else and_then (map_err (Pair h) (sort_comparator (arg args 1))) (\<lambda>cmpf.
         and_then (sort_run (sort_less call t cmpf) (sort_swap t) invalid_order [(1, n)] h) (\<lambda>h.
           ok (h, []))))"

end
