(* ===== verification/SortLaws.thy ===== *)
theory SortLaws
  imports TableSort
begin

text \<open>
  What the quicksort of theory TableSort guarantees over any array whose cells a comparison reads and
  a swap exchanges: it never panics, it permutes the cells, its only error is the one of an inconsistent
  comparator, and for a strict weak order it does not fail and leaves the cells in order (the locale
  \<open>array_sort\<close>); and with a comparison that may fail, panic or change other state it still permutes the
  cells (the locale \<open>array_permute\<close>).
\<close>

section \<open>Outcomes that satisfy a postcondition\<close>

definition runs :: "('e, 'a) outcome \<Rightarrow> ('a \<Rightarrow> bool) \<Rightarrow> ('e \<Rightarrow> bool) \<Rightarrow> bool" where
  "runs r Q E = (case r of None \<Rightarrow> False | Some (Inl e) \<Rightarrow> E e | Some (Inr x) \<Rightarrow> Q x)"

lemma runs_simps [simp]:
  "\<not> runs None Q E" "runs (err e) Q E = E e" "runs (ok x) Q E = Q x"
  by (simp_all add: runs_def)

lemma runs_and_then:
  assumes "runs r P E" and "\<And>x. P x \<Longrightarrow> runs (f x) Q E"
  shows "runs (and_then r f) Q E"
proof (cases r)
  case (Some v)
  then show ?thesis using assms by (cases v) simp_all
qed (use assms(1) in simp)

lemma runs_panic: "r = Some x \<Longrightarrow> P x \<Longrightarrow> runs (of_panic r) P E"
  by simp

lemma runs_mono:
  assumes "runs r P F" and "\<And>x. P x \<Longrightarrow> Q x" and "\<And>e. F e \<Longrightarrow> E e"
  shows "runs r Q E"
  using assms by (auto simp: runs_def split: option.splits sum.splits)

section \<open>Permutations of an interval\<close>

definition perm_on :: "nat \<Rightarrow> nat \<Rightarrow> (nat \<Rightarrow> 'v) \<Rightarrow> (nat \<Rightarrow> 'v) \<Rightarrow> bool" where
  "perm_on lo up A B \<longleftrightarrow> (\<exists>p. bij p \<and> (\<forall>x. x \<notin> {lo..up} \<longrightarrow> p x = x) \<and> B = A \<circ> p)"

definition exchange :: "nat \<Rightarrow> nat \<Rightarrow> (nat \<Rightarrow> 'v) \<Rightarrow> nat \<Rightarrow> 'v" where
  "exchange x y A = A(x := A y, y := A x)"

lemma perm_on_refl [simp]: "perm_on lo up A A"
  unfolding perm_on_def by (rule exI [of _ id]) simp

lemma perm_on_trans:
  assumes "perm_on lo up A B" and "perm_on lo up B C"
  shows "perm_on lo up A C"
proof -
  obtain p q where "bij p" "\<forall>x. x \<notin> {lo..up} \<longrightarrow> p x = x" "B = A \<circ> p"
    and "bij q" "\<forall>x. x \<notin> {lo..up} \<longrightarrow> q x = x" "C = B \<circ> q"
    using assms unfolding perm_on_def by blast
  then show ?thesis unfolding perm_on_def
    by (intro exI [of _ "p \<circ> q"]) (simp add: bij_comp comp_assoc)
qed

lemma perm_on_mono: "perm_on lo up A B \<Longrightarrow> lo' \<le> lo \<Longrightarrow> up \<le> up' \<Longrightarrow> perm_on lo' up' A B"
  unfolding perm_on_def by (elim exE, rule exI) (use le_trans in auto)

lemma perm_on_exchange:
  assumes "x \<in> {lo..up}" and "y \<in> {lo..up}"
  shows "perm_on lo up A (exchange x y A)"
proof -
  let ?p = "id(x := y, y := x)"
  have "?p \<circ> ?p = id" by auto
  then have "bij ?p" using o_bij by blast
  moreover have "exchange x y A = A \<circ> ?p" by (auto simp: exchange_def)
  ultimately show ?thesis using assms unfolding perm_on_def by (intro exI [of _ ?p]) auto
qed

lemma perm_on_outside: "perm_on lo up A B \<Longrightarrow> x \<notin> {lo..up} \<Longrightarrow> B x = A x"
  by (auto simp: perm_on_def)

lemma perm_image:
  assumes "bij p" and "\<forall>x. x \<notin> S \<longrightarrow> p x = x"
  shows "p ` S = S"
proof -
  have "p ` (- S) = - S" using assms(2) by force
  then show ?thesis using bij_image_Compl_eq [OF assms(1), of S] by blast
qed

lemma perm_on_inside:
  assumes "perm_on lo up A B" and "x \<in> {lo..up}"
  obtains x' where "x' \<in> {lo..up}" and "B x = A x'"
proof -
  obtain p where p: "bij p" "\<forall>x. x \<notin> {lo..up} \<longrightarrow> p x = x" "B = A \<circ> p"
    using assms(1) unfolding perm_on_def by blast
  have "p x \<in> {lo..up}" using perm_image [OF p(1,2)] assms(2) by blast
  then show ?thesis using that p(3) by simp
qed

lemma perm_on_mset:
  assumes "perm_on lo up A B"
  shows "mset (map B [lo..<Suc up]) = mset (map A [lo..<Suc up])"
proof -
  obtain p where p: "bij p" "\<forall>x. x \<notin> {lo..up} \<longrightarrow> p x = x" "B = A \<circ> p"
    using assms unfolding perm_on_def by blast
  have "inj_on p {lo..up}" using p(1) bij_is_inj inj_on_subset by blast
  then have "image_mset p (mset_set {lo..up}) = mset_set {lo..up}"
    using image_mset_mset_set [of p "{lo..up}"] perm_image [OF p(1,2)] by simp
  moreover have "mset (map f [lo..<Suc up]) = image_mset f (mset_set {lo..up})" for f :: "nat \<Rightarrow> 'a"
    by (simp only: mset_map mset_upt atLeastLessThanSuc_atLeastAtMost)
  ultimately show ?thesis
    by (metis p(3) image_mset.compositionality)
qed

section \<open>The array interface\<close>

definition strict_weak :: "'v set \<Rightarrow> ('v \<Rightarrow> 'v \<Rightarrow> bool) \<Rightarrow> bool" where
  "strict_weak V lt \<longleftrightarrow> (\<forall>a \<in> V. \<forall>b \<in> V. lt a b \<longrightarrow> \<not> lt b a)
     \<and> (\<forall>a \<in> V. \<forall>b \<in> V. \<forall>c \<in> V. \<not> lt b a \<longrightarrow> \<not> lt c b \<longrightarrow> \<not> lt c a)"

locale array_sort =
  fixes cmp :: "('s, 'e) comparison" and swap :: "'s \<Rightarrow> nat \<Rightarrow> nat \<Rightarrow> 's option" and invalid :: "'s \<Rightarrow> 'e"
    and inv :: "'s \<Rightarrow> bool" and cell :: "'s \<Rightarrow> nat \<Rightarrow> 'v" and n :: nat
    and V :: "'v set" and lt :: "'v \<Rightarrow> 'v \<Rightarrow> bool"
  assumes size: "inv s \<Longrightarrow> n + 1 < 2 ^ 64"
    and cell_in: "inv s \<Longrightarrow> x \<in> {1..n} \<Longrightarrow> cell s x \<in> V"
    and cmp_law: "inv s \<Longrightarrow> x \<in> {1..n} \<Longrightarrow> y \<in> {1..n} \<Longrightarrow> cmp s x y = ok (s, lt (cell s x) (cell s y))"
    and swap_law: "inv s \<Longrightarrow> x \<in> {1..n} \<Longrightarrow> y \<in> {1..n} \<Longrightarrow>
      \<exists>s'. swap s x y = Some s' \<and> inv s' \<and> cell s' = exchange x y (cell s)"
begin

abbreviation consistent :: bool where "consistent \<equiv> strict_weak V lt"

definition le :: "'s \<Rightarrow> nat \<Rightarrow> nat \<Rightarrow> bool" where
  "le s x y \<longleftrightarrow> \<not> lt (cell s y) (cell s x)"

lemma le_refl: "consistent \<Longrightarrow> inv s \<Longrightarrow> x \<in> {1..n} \<Longrightarrow> le s x x"
  using cell_in by (auto simp: strict_weak_def le_def)

lemma le_trans:
  "consistent \<Longrightarrow> inv s \<Longrightarrow> x \<in> {1..n} \<Longrightarrow> y \<in> {1..n} \<Longrightarrow> z \<in> {1..n} \<Longrightarrow> le s x y \<Longrightarrow> le s y z \<Longrightarrow> le s x z"
  using cell_in [of s] unfolding strict_weak_def le_def by blast

lemma lt_le:
  "consistent \<Longrightarrow> inv s \<Longrightarrow> x \<in> {1..n} \<Longrightarrow> y \<in> {1..n} \<Longrightarrow> lt (cell s x) (cell s y) \<Longrightarrow> le s x y"
  using cell_in [of s] unfolding strict_weak_def le_def by blast

lemma advance_runs:
  assumes "inv s" and "i < up - 1" and "up \<le> n" and "piv \<in> {1..n}"
  shows "runs (advance cmp invalid up piv i s)
    (\<lambda>(s', i'). s' = s \<and> i < i' \<and> i' \<le> up - 1 \<and> le s piv i' \<and> (\<forall>k. i < k \<and> k < i' \<longrightarrow> \<not> le s piv k))
    (\<lambda>e. e = invalid s \<and> \<not> le s piv (up - 1))"
  using assms(2)
proof (induction "up - i" arbitrary: i rule: less_induct)
  case less
  let ?Q = "\<lambda>i (s', i'). s' = s \<and> i < i' \<and> i' \<le> up - 1 \<and> le s piv i' \<and> (\<forall>k. i < k \<and> k < i' \<longrightarrow> \<not> le s piv k)"
  let ?E = "\<lambda>e. e = invalid s \<and> \<not> le s piv (up - 1)"
  have bound: "\<not> 2 ^ 64 \<le> i + 1" using size [OF assms(1)] less.prems assms(3) by linarith
  have c: "cmp s (i + 1) piv = ok (s, lt (cell s (i + 1)) (cell s piv))"
    using less.prems assms by (intro cmp_law) auto
  have eq: "advance cmp invalid up piv i s =
      (if le s piv (i + 1) then ok (s, i + 1) else if i + 1 = up - 1 then err (invalid s)
       else advance cmp invalid up piv (i + 1) s)"
    by (subst advance.simps) (simp only: bound c if_False and_then_simps prod.case le_def)
  show ?case
  proof (cases "le s piv (i + 1) \<or> i + 1 = up - 1")
    case True
    then show ?thesis using less.prems unfolding eq by auto
  next
    case False
    then have "runs (advance cmp invalid up piv (i + 1) s) (?Q (i + 1)) ?E"
      using less.prems by (intro less.hyps) auto
    then have "runs (advance cmp invalid up piv (i + 1) s) (?Q i) ?E"
    proof (rule runs_mono, goal_cases)
      case (1 x)
      then show ?case using False by (auto simp: less_Suc_eq_le Suc_le_eq) (metis Suc_lessI)
    qed
    then show ?thesis using False unfolding eq by simp
  qed
qed

lemma retreat_runs:
  assumes "inv s" and "2 \<le> i" and "2 \<le> j" and "j \<le> n + 1" and "piv \<in> {1..n}"
  shows "runs (retreat cmp invalid piv i j s)
    (\<lambda>(s', j'). s' = s \<and> 1 \<le> j' \<and> j' < j \<and> (i \<le> j' + 1 \<or> j' + 1 = j) \<and> le s j' piv
       \<and> (\<forall>k. j' < k \<and> k < j \<longrightarrow> \<not> le s k piv))
    (\<lambda>e. e = invalid s \<and> (\<exists>j'. 1 \<le> j' \<and> j' < i \<and> j' < j \<and> (i \<le> j' + 1 \<or> j' + 1 = j) \<and> \<not> le s j' piv))"
  using assms(3,4)
proof (induction j)
  case (Suc j)
  let ?Q = "\<lambda>j (s', j'). s' = s \<and> 1 \<le> j' \<and> j' < j \<and> (i \<le> j' + 1 \<or> j' + 1 = j) \<and> le s j' piv
       \<and> (\<forall>k. j' < k \<and> k < j \<longrightarrow> \<not> le s k piv)"
  let ?E = "\<lambda>j e. e = invalid s \<and> (\<exists>j'. 1 \<le> j' \<and> j' < i \<and> j' < j \<and> (i \<le> j' + 1 \<or> j' + 1 = j) \<and> \<not> le s j' piv)"
  have c: "cmp s piv j = ok (s, lt (cell s piv) (cell s j))"
    using Suc.prems assms by (intro cmp_law) auto
  have eq: "retreat cmp invalid piv i (Suc j) s =
      (if le s j piv then ok (s, j) else if j < i then err (invalid s) else retreat cmp invalid piv i j s)"
    by (simp add: c le_def)
  show ?case
  proof (cases "le s j piv \<or> j < i")
    case True
    then show ?thesis using Suc.prems unfolding eq by auto
  next
    case False
    then have ij: "i \<le> j" by simp
    have "runs (retreat cmp invalid piv i j s) (?Q j) (?E j)"
      using Suc.prems assms(2) ij by (intro Suc.IH) auto
    then have "runs (retreat cmp invalid piv i j s) (?Q (Suc j)) (?E (Suc j))"
    proof (rule runs_mono, goal_cases)
      case (1 x)
      then show ?case using False ij by (auto simp: less_Suc_eq)
    next
      case (2 e)
      then show ?case using ij by (auto intro: less_SucI)
    qed
    then show ?thesis using False unfolding eq by simp
  qed
qed simp

text \<open>Postconditions of a stretch of the sort on \<open>[lo, up]\<close>: the cells outside stay, those inside are
  permuted; an error is the one of an inconsistent order.\<close>

definition shuffled :: "nat \<Rightarrow> nat \<Rightarrow> 's \<Rightarrow> 's \<Rightarrow> bool" where
  "shuffled lo up s s' \<longleftrightarrow> inv s' \<and> perm_on lo up (cell s) (cell s')"

definition rejected :: "nat \<Rightarrow> nat \<Rightarrow> 's \<Rightarrow> 'e \<Rightarrow> bool" where
  "rejected lo up s e \<longleftrightarrow> \<not> consistent \<and> (\<exists>s'. e = invalid s' \<and> shuffled lo up s s')"

lemma shuffled_refl: "inv s \<Longrightarrow> shuffled lo up s s"
  by (simp add: shuffled_def)

lemma shuffled_trans: "shuffled lo up s s' \<Longrightarrow> shuffled lo up s' s'' \<Longrightarrow> shuffled lo up s s''"
  using perm_on_trans by (auto simp: shuffled_def)

lemma shuffled_mono: "shuffled lo up s s' \<Longrightarrow> lo' \<le> lo \<Longrightarrow> up \<le> up' \<Longrightarrow> shuffled lo' up' s s'"
  using perm_on_mono by (auto simp: shuffled_def)

lemma rejected_trans: "shuffled lo up s s' \<Longrightarrow> rejected lo up s' e \<Longrightarrow> rejected lo up s e"
  using shuffled_trans by (auto simp: rejected_def)

lemma rejected_mono: "rejected lo up s e \<Longrightarrow> lo' \<le> lo \<Longrightarrow> up \<le> up' \<Longrightarrow> rejected lo' up' s e"
  using shuffled_mono by (auto simp: rejected_def)

lemma swap_shuffled:
  assumes "inv s" and "x \<in> {1..n}" and "y \<in> {1..n}" and "x \<in> {lo..up}" and "y \<in> {lo..up}"
  obtains s' where "swap s x y = Some s'" and "shuffled lo up s s'" and "cell s' = exchange x y (cell s)"
  using swap_law [OF assms(1-3)] perm_on_exchange [OF assms(4,5)] by (auto simp: shuffled_def)

text \<open>The pivot \<open>P\<close> separates the cells up to \<open>i\<close> from those from \<open>j\<close> on.\<close>

definition split_by :: "'s \<Rightarrow> 'v \<Rightarrow> nat \<Rightarrow> nat \<Rightarrow> nat \<Rightarrow> nat \<Rightarrow> bool" where
  "split_by s P lo i j up \<longleftrightarrow>
     (\<forall>k. lo \<le> k \<and> k \<le> i \<longrightarrow> \<not> lt P (cell s k)) \<and> (\<forall>k. j \<le> k \<and> k \<le> up \<longrightarrow> \<not> lt (cell s k) P)"

lemma part_loop_runs:
  assumes "inv s" and "1 \<le> lo" and "up \<le> n" and "lo \<le> i" and "i < up - 1" and "i \<le> j" and "lo < j"
    and "j \<le> up - 1" and "consistent \<longrightarrow> split_by s (cell s (up - 1)) lo i j up"
  shows "runs (part_loop cmp swap invalid up (up - 1) i j s)
    (\<lambda>(s', part). shuffled lo up s s' \<and> lo < part \<and> part < up
       \<and> (consistent \<longrightarrow> split_by s' (cell s' part) lo part part up))
    (rejected lo up s)"
  using assms(1,4-9)
proof (induction "up - i" arbitrary: i j s rule: less_induct)
  case less
  let ?P = "cell s (up - 1)"
  let ?Q = "\<lambda>s (s', part). shuffled lo up s s' \<and> lo < part \<and> part < up
       \<and> (consistent \<longrightarrow> split_by s' (cell s' part) lo part part up)"
  have piv: "up - 1 \<in> {1..n}" using less.prems assms(2,3) by auto
  have left: "le s k (up - 1)" if "consistent" "lo \<le> k" "k \<le> i" for k
    using less.prems(7) that by (simp add: split_by_def le_def)
  have right: "le s (up - 1) k" if "consistent" "j \<le> k" "k \<le> up" for k
    using less.prems(7) that by (simp add: split_by_def le_def)
  let ?A = "\<lambda>(s', i'). s' = s \<and> i < i' \<and> i' \<le> up - 1 \<and> le s (up - 1) i' \<and> (\<forall>k. i < k \<and> k < i' \<longrightarrow> \<not> le s (up - 1) k)"
  have adv: "runs (advance cmp invalid up (up - 1) i s) ?A (rejected lo up s)"
    using le_refl [OF _ less.prems(1) piv] shuffled_refl [OF less.prems(1)]
    by (intro runs_mono [OF advance_runs [OF less.prems(1,3) assms(3) piv]]) (auto simp: rejected_def)
  have step: "runs (and_then (retreat cmp invalid (up - 1) i1 j s) (\<lambda>(s, j).
         if j < i1 then and_then (of_panic (swap s (up - 1) i1)) (\<lambda>s. ok (s, i1))
         else and_then (of_panic (swap s i1 j)) (\<lambda>s. part_loop cmp swap invalid up (up - 1) i1 j s)))
      (?Q s) (rejected lo up s)"
    if i1: "i < i1" "i1 \<le> up - 1" "le s (up - 1) i1" "\<forall>k. i < k \<and> k < i1 \<longrightarrow> \<not> le s (up - 1) k" for i1
  proof -
    have range: "i1 \<in> {1..n}" "i1 \<in> {lo..up}" "up - 1 \<in> {lo..up}" "2 \<le> i1" "2 \<le> j" "j \<le> n + 1"
      using i1 less.prems assms(2,3) by auto
    have small: "le s k (up - 1)" if "consistent" "lo \<le> k" "k < i1" for k
    proof (cases "k \<le> i")
      case False
      then have "lt (cell s k) (cell s (up - 1))" using i1(4) that by (simp add: le_def)
      then show ?thesis using that range assms(2) by (intro lt_le [OF _ less.prems(1) _ piv]) auto
    qed (use left that in simp)
    let ?R = "\<lambda>(s', j'). s' = s \<and> lo \<le> j' \<and> j' < j \<and> le s j' (up - 1) \<and> (\<forall>k. j' < k \<and> k < j \<longrightarrow> \<not> le s k (up - 1))"
    have ret: "runs (retreat cmp invalid (up - 1) i1 j s) ?R (rejected lo up s)"
    proof (rule runs_mono [OF retreat_runs [OF less.prems(1) range(4,5,6) piv]], goal_cases)
      case (1 x)
      then show ?case using i1(1) less.prems(2,5) by auto
    next
      case (2 e)
      then obtain j' where j': "e = invalid s" "j' < i1" "i1 \<le> j' + 1 \<or> j' + 1 = j" "\<not> le s j' (up - 1)"
        by blast
      then have "\<not> consistent" using small [of j'] i1(1) less.prems(2,5) by auto
      then show ?case using j'(1) shuffled_refl [OF less.prems(1)] by (auto simp: rejected_def)
    qed
    show ?thesis
    proof (rule runs_and_then [OF ret], clarify)
      fix j1
      assume j1: "lo \<le> j1" "j1 < j" "le s j1 (up - 1)" "\<forall>k. j1 < k \<and> k < j \<longrightarrow> \<not> le s k (up - 1)"
      have big: "le s (up - 1) k" if "consistent" "j1 < k" "k \<le> up" for k
      proof (cases "k < j")
        case True
        then have "lt (cell s (up - 1)) (cell s k)" using j1(4) that by (simp add: le_def)
        then show ?thesis using that True less.prems(6) assms(2,3) by (intro lt_le [OF _ less.prems(1) piv]) auto
      qed (use right that in simp)
      show "runs (if j1 < i1 then and_then (of_panic (swap s (up - 1) i1)) (\<lambda>s. ok (s, i1))
         else and_then (of_panic (swap s i1 j1)) (\<lambda>s. part_loop cmp swap invalid up (up - 1) i1 j1 s))
         (?Q s) (rejected lo up s)"
      proof (cases "j1 < i1")
        case True
        obtain s' where s': "swap s (up - 1) i1 = Some s'" "shuffled lo up s s'"
          "cell s' = exchange (up - 1) i1 (cell s)"
          by (rule swap_shuffled [OF less.prems(1) piv range(1,3,2)])
        have P: "cell s' i1 = ?P" by (simp add: s'(3) exchange_def)
        have "split_by s' ?P lo i1 i1 up" if con: "consistent"
          unfolding split_by_def
        proof (intro conjI allI impI)
          show "\<not> lt ?P (cell s' k)" if "lo \<le> k \<and> k \<le> i1" for k
            using small [OF con, of k] le_refl [OF con less.prems(1) piv] that i1(2)
            by (auto simp: s'(3) exchange_def le_def)
          show "\<not> lt (cell s' k) ?P" if "i1 \<le> k \<and> k \<le> up" for k
            using big [OF con, of k] le_refl [OF con less.prems(1) piv] i1(3) that True
            by (auto simp: s'(3) exchange_def le_def)
        qed
        then have "consistent \<longrightarrow> split_by s' (cell s' i1) lo i1 i1 up" using P by simp
        moreover have "lo < i1" "i1 < up" using i1(1,2) less.prems(2,3) by auto
        ultimately show ?thesis using True s'(1,2) by simp
      next
        case False
        have r: "j1 \<in> {1..n}" "j1 \<in> {lo..up}" using j1 less.prems(6) assms(2,3) by auto
        obtain s' where s': "swap s i1 j1 = Some s'" "shuffled lo up s s'"
          "cell s' = exchange i1 j1 (cell s)"
          by (rule swap_shuffled [OF less.prems(1) range(1) r(1) range(2) r(2)])
        have P: "cell s' (up - 1) = ?P" using False j1 less.prems(6) by (auto simp: s'(3) exchange_def)
        have "split_by s' ?P lo i1 j1 up" if con: "consistent"
          unfolding split_by_def
        proof (intro conjI allI impI)
          show "\<not> lt ?P (cell s' k)" if "lo \<le> k \<and> k \<le> i1" for k
            using small [OF con, of k] j1(3) that False by (auto simp: s'(3) exchange_def le_def)
          show "\<not> lt (cell s' k) ?P" if "j1 \<le> k \<and> k \<le> up" for k
            using big [OF con, of k] i1(3) that False by (auto simp: s'(3) exchange_def le_def)
        qed
        then have "runs (part_loop cmp swap invalid up (up - 1) i1 j1 s') (?Q s') (rejected lo up s')"
          using i1 j1 False less.prems s'(2) unfolding P
          by (intro less.hyps) (auto simp: P [simplified] shuffled_def)
        then have "runs (part_loop cmp swap invalid up (up - 1) i1 j1 s') (?Q s) (rejected lo up s)"
          by (rule runs_mono) (use shuffled_trans [OF s'(2)] rejected_trans [OF s'(2)] in auto)
        then show ?thesis using False s'(1) by simp
      qed
    qed
  qed
  show ?case
    by (subst part_loop.simps, rule runs_and_then [OF adv]) (use step in auto)
qed

section \<open>One round\<close>

lemma order_pair_runs:
  assumes "inv s" and "a \<in> {1..n}" and "b \<in> {1..n}" and "a \<in> {lo..up}" and "b \<in> {lo..up}"
    and "(x, y) = (a, b) \<or> (x, y) = (b, a)"
  shows "runs (order_pair cmp swap a b x y s)
    (\<lambda>(s', swapped). shuffled lo up s s' \<and> swapped = (\<not> le s b a)
      \<and> cell s' = (if swapped then exchange a b (cell s) else cell s)) (rejected lo up s)"
proof -
  have xy: "x \<in> {1..n}" "y \<in> {1..n}" "x \<in> {lo..up}" "y \<in> {lo..up}"
    and ex: "exchange x y (cell s) = exchange a b (cell s)" using assms(2-6) by (auto simp: exchange_def)
  obtain s' where "swap s x y = Some s'" "shuffled lo up s s'" "cell s' = exchange x y (cell s)"
    by (rule swap_shuffled [OF assms(1) xy])
  then show ?thesis using cmp_law [OF assms(1-3)] shuffled_refl [OF assms(1)]
    by (auto simp: order_pair_def le_def ex)
qed

text \<open>After a round the cells of the interval are in order, or the pivot separates them.\<close>

definition settled :: "'s \<Rightarrow> nat \<Rightarrow> nat \<Rightarrow> nat option \<Rightarrow> bool" where
  "settled s lo up r \<longleftrightarrow> (case r of
      None \<Rightarrow> \<forall>x y. lo \<le> x \<and> x < y \<and> y \<le> up \<longrightarrow> le s x y
    | Some part \<Rightarrow> split_by s (cell s part) lo part part up)"

lemma settled_2: "up - lo = 1 \<Longrightarrow> le s lo up \<Longrightarrow> settled s lo up None"
proof -
  assume "up - lo = 1" "le s lo up"
  moreover have "x = lo \<and> y = up" if "lo \<le> x" "x < y" "y \<le> up" for x y
    using that calculation(1) by linarith
  ultimately show ?thesis by (auto simp: settled_def)
qed

lemma settled_3:
  assumes "consistent" "inv s" "1 \<le> lo" "up \<le> n" and "up - lo = 2"
    and "le s lo ((lo + up) div 2)" "le s ((lo + up) div 2) up"
  shows "settled s lo up None"
proof -
  have up: "up = lo + 2" and p: "(lo + up) div 2 = lo + 1" using assms(5) by auto
  have "le s lo (lo + 2)"
    using assms le_trans [OF assms(1,2), of lo "lo + 1" "lo + 2"] unfolding p by (simp add: up)
  moreover have "(x, y) \<in> {(lo, lo + 1), (lo + 1, lo + 2), (lo, lo + 2)}"
    if "lo \<le> x" "x < y" "y \<le> lo + 2" for x y using that by auto
  ultimately show ?thesis using assms(6,7) unfolding settled_def p up by auto
qed

lemma median_runs:
  assumes inv: "inv s" and lo: "1 \<le> lo" "lo < p" and up: "p < up" "up \<le> n"
    and ends: "consistent \<longrightarrow> le s lo up"
  shows "runs (median_of_3 cmp swap lo p up s)
    (\<lambda>s'. shuffled lo up s s' \<and> (consistent \<longrightarrow> le s' lo p \<and> le s' p up)) (rejected lo up s)"
  unfolding median_of_3_def
proof -
  have r: "p \<in> {1..n}" "lo \<in> {1..n}" "up \<in> {1..n}" "p \<in> {lo..up}" "lo \<in> {lo..up}" "up \<in> {lo..up}"
    using lo up by auto
  show "runs (and_then (order_pair cmp swap p lo p lo s) (\<lambda>(s, swapped).
       if swapped then ok s else and_then (order_pair cmp swap up p p up s) (\<lambda>(s, _). ok s)))
    (\<lambda>s'. shuffled lo up s s' \<and> (consistent \<longrightarrow> le s' lo p \<and> le s' p up)) (rejected lo up s)"
  proof (rule runs_and_then [OF order_pair_runs [OF inv r(1,2,4,5)]], simp, clarify)
    fix s1
    assume s1: "shuffled lo up s s1" "cell s1 = (if \<not> le s lo p then exchange p lo (cell s) else cell s)"
    have inv1: "inv s1" using s1(1) by (simp add: shuffled_def)
    show "runs (if \<not> le s lo p then ok s1 else and_then (order_pair cmp swap up p p up s1) (\<lambda>(s, _). ok s))
      (\<lambda>s'. shuffled lo up s s' \<and> (consistent \<longrightarrow> le s' lo p \<and> le s' p up)) (rejected lo up s)"
    proof (cases "le s lo p")
      case False
      have "le s1 lo p \<and> le s1 p up" if con: "consistent"
        using lt_le [OF con inv r(1,2)] ends con False lo up s1(2) by (auto simp: le_def exchange_def)
      then show ?thesis using False s1(1) by simp
    next
      case True
      have "runs (and_then (order_pair cmp swap up p p up s1) (\<lambda>(s, _). ok s))
        (\<lambda>s'. shuffled lo up s1 s' \<and> (consistent \<longrightarrow> le s' lo p \<and> le s' p up)) (rejected lo up s1)"
      proof (rule runs_and_then [OF order_pair_runs [OF inv1 r(3,1,6,4)]], simp, clarify)
        fix s2
        assume s2: "shuffled lo up s1 s2" "cell s2 = (if \<not> le s1 p up then exchange up p (cell s1) else cell s1)"
        have "le s2 lo p \<and> le s2 p up" if con: "consistent"
          using lt_le [OF con inv1 r(3,1)] ends con True lo up s1(2) s2(2) by (auto simp: le_def exchange_def)
        then show "runs (ok s2) (\<lambda>s'. shuffled lo up s1 s' \<and> (consistent \<longrightarrow> le s' lo p \<and> le s' p up)) (rejected lo up s1)"
          using s2(1) by simp
      qed
      then have "runs (and_then (order_pair cmp swap up p p up s1) (\<lambda>(s, _). ok s))
        (\<lambda>s'. shuffled lo up s s' \<and> (consistent \<longrightarrow> le s' lo p \<and> le s' p up)) (rejected lo up s)"
        by (rule runs_mono) (use shuffled_trans [OF s1(1)] rejected_trans [OF s1(1)] in auto)
      then show ?thesis using True by simp
    qed
  qed
qed

lemma partition_runs:
  assumes inv: "inv s" and lo: "1 \<le> lo" "lo < p" and up: "p < up - 1" "up \<le> n"
    and mid: "consistent \<longrightarrow> le s lo p \<and> le s p up"
  shows "runs (partition_at cmp swap invalid lo p up s)
    (\<lambda>(s', part). shuffled lo up s s' \<and> lo < part \<and> part < up
       \<and> (consistent \<longrightarrow> split_by s' (cell s' part) lo part part up)) (rejected lo up s)"
proof -
  have r: "p \<in> {1..n}" "up - 1 \<in> {1..n}" "p \<in> {lo..up}" "up - 1 \<in> {lo..up}" using lo up by auto
  obtain s1 where s1: "swap s p (up - 1) = Some s1" "shuffled lo up s s1" "cell s1 = exchange p (up - 1) (cell s)"
    by (rule swap_shuffled [OF inv r])
  have inv1: "inv s1" using s1(2) by (simp add: shuffled_def)
  have "split_by s1 (cell s1 (up - 1)) lo lo (up - 1) up" if con: "consistent"
  proof -
    have "k = up - 1 \<or> k = up" if "up - 1 \<le> k" "k \<le> up" for k using that by auto
    moreover have "le s1 (up - 1) (up - 1)" using le_refl [OF con inv1 r(2)] .
    ultimately show ?thesis using mid con lo up by (auto simp: split_by_def le_def s1(3) exchange_def)
  qed
  then have "runs (part_loop cmp swap invalid up (up - 1) lo (up - 1) s1)
    (\<lambda>(s', part). shuffled lo up s1 s' \<and> lo < part \<and> part < up
      \<and> (consistent \<longrightarrow> split_by s' (cell s' part) lo part part up)) (rejected lo up s1)"
    using lo up by (intro part_loop_runs [OF inv1]) auto
  then have "runs (part_loop cmp swap invalid up (up - 1) lo (up - 1) s1)
    (\<lambda>(s', part). shuffled lo up s s' \<and> lo < part \<and> part < up
      \<and> (consistent \<longrightarrow> split_by s' (cell s' part) lo part part up)) (rejected lo up s)"
    by (rule runs_mono) (use shuffled_trans [OF s1(2)] rejected_trans [OF s1(2)] in auto)
  then show ?thesis using s1(1) by (simp add: partition_at_def)
qed

lemma sort_round_runs:
  assumes inv: "inv s" and lo: "1 \<le> lo" "lo < up" and up: "up \<le> n"
  shows "runs (sort_round cmp swap invalid lo up s)
    (\<lambda>(s', r). shuffled lo up s s' \<and> (\<forall>part. r = Some part \<longrightarrow> lo < part \<and> part < up)
      \<and> (consistent \<longrightarrow> settled s' lo up r)) (rejected lo up s)"
    (is "runs _ (?Q s) _")
proof -
  let ?p = "(lo + up) div 2"
  have ends: "up \<in> {1..n}" "lo \<in> {1..n}" "up \<in> {lo..up}" "lo \<in> {lo..up}" using lo up by auto
  show ?thesis
    unfolding sort_round_def
  proof (rule runs_and_then [OF order_pair_runs [OF inv ends, of lo up]], simp, clarify)
    fix s1
    assume s1: "shuffled lo up s s1" "cell s1 = (if \<not> le s lo up then exchange up lo (cell s) else cell s)"
    have inv1: "inv s1" using s1(1) by (simp add: shuffled_def)
    have le1: "consistent \<longrightarrow> le s1 lo up"
      using s1(2) lt_le [OF _ inv ends(1,2)] lo by (auto simp: le_def exchange_def)
    show "runs (if up - lo = 1 then ok (s1, None)
      else and_then (median_of_3 cmp swap lo ?p up s1) (\<lambda>s.
        if up - lo = 2 then ok (s, None)
        else and_then (partition_at cmp swap invalid lo ?p up s) (\<lambda>(s, part). ok (s, Some part))))
      (?Q s) (rejected lo up s)"
    proof (cases "up - lo = 1")
      case True
      then show ?thesis using s1(1) le1 settled_2 by simp
    next
      case False
      then have p: "lo < ?p" "?p < up" using lo(2) by auto
      have "runs (median_of_3 cmp swap lo ?p up s1)
        (\<lambda>s'. shuffled lo up s s' \<and> (consistent \<longrightarrow> le s' lo ?p \<and> le s' ?p up)) (rejected lo up s)"
        by (rule runs_mono [OF median_runs [OF inv1 lo(1) p up le1]])
          (use shuffled_trans [OF s1(1)] rejected_trans [OF s1(1)] in auto)
      then show ?thesis unfolding if_not_P [OF False]
      proof (rule runs_and_then, goal_cases)
        case (1 s2)
        then have s2: "shuffled lo up s s2" "inv s2" and mid: "consistent \<longrightarrow> le s2 lo ?p \<and> le s2 ?p up"
          by (auto simp: shuffled_def)
        show ?case
        proof (cases "up - lo = 2")
          case True
          then show ?thesis using s2 mid settled_3 [OF _ s2(2) lo(1) up True] by simp
        next
          case far: False
          then have "?p < up - 1" using False lo(2) by auto
          from partition_runs [OF s2(2) lo(1) p(1) this up mid]
          have "runs (and_then (partition_at cmp swap invalid lo ?p up s2) (\<lambda>(s, part). ok (s, Some part)))
            (?Q s2) (rejected lo up s2)"
            by (rule runs_and_then) (auto simp: settled_def)
          then have "runs (and_then (partition_at cmp swap invalid lo ?p up s2) (\<lambda>(s, part). ok (s, Some part)))
            (?Q s) (rejected lo up s)"
            by (rule runs_mono) (use shuffled_trans [OF s2(1)] rejected_trans [OF s2(1)] in auto)
          then show ?thesis using far by simp
        qed
      qed
    qed
  qed
qed

section \<open>The whole sort\<close>

text \<open>The pending intervals are disjoint pieces of the array; every pair of positions that no pending
  interval contains is in order.\<close>

definition pending_ok :: "(nat \<times> nat) list \<Rightarrow> bool" where
  "pending_ok work \<longleftrightarrow> (\<forall>(lo, up) \<in> set work. 1 \<le> lo \<and> lo \<le> up \<and> up \<le> n)
     \<and> sorted_wrt (\<lambda>(lo, up) (lo', up'). up < lo' \<or> up' < lo) work"

definition ordered_but :: "(nat \<times> nat) list \<Rightarrow> 's \<Rightarrow> bool" where
  "ordered_but work s \<longleftrightarrow> (\<forall>x y. 1 \<le> x \<longrightarrow> x < y \<longrightarrow> y \<le> n \<longrightarrow>
     (\<forall>(lo, up) \<in> set work. \<not> (lo \<le> x \<and> y \<le> up)) \<longrightarrow> le s x y)"

lemma pending_split:
  assumes "pending_ok ((lo, up) # work)" and "lo < part" and "part < up"
  shows "pending_ok ((part + 1, up) # (lo, part - 1) # work)" and "pending_ok ((lo, part - 1) # (part + 1, up) # work)"
  using assms by (auto simp: pending_ok_def)

lemma ordered_but_swap: "ordered_but (a # b # work) s = ordered_but (b # a # work) s"
  by (auto simp: ordered_but_def)

text \<open>Outside the interval of a round nothing moves, and across its border the order is kept, for the
  other pending intervals do not meet it.\<close>

lemma ordered_across:
  assumes "pending_ok ((lo, up) # work)" and "ordered_but ((lo, up) # work) s" and "shuffled lo up s s'"
    and "1 \<le> x" "x < y" "y \<le> n" and "x \<notin> {lo..up} \<or> y \<notin> {lo..up}"
    and free: "\<forall>(lo, up) \<in> set work. \<not> (lo \<le> x \<and> y \<le> up)"
  shows "le s' x y"
proof -
  have perm: "perm_on lo up (cell s) (cell s')" using assms(3) by (simp add: shuffled_def)
  have rng: "1 \<le> lo" "lo \<le> up" "up \<le> n" and apart: "\<And>l u. (l, u) \<in> set work \<Longrightarrow> up < l \<or> u < lo"
    using assms(1) by (auto simp: pending_ok_def)
  have old: "le s a b" if "1 \<le> a" "a < b" "b \<le> n" "\<not> (lo \<le> a \<and> b \<le> up)"
    "\<forall>(l, u) \<in> set work. \<not> (l \<le> a \<and> b \<le> u)" for a b
    using assms(2) that by (auto simp: ordered_but_def)
  consider "x \<in> {lo..up}" "up < y" | "y \<in> {lo..up}" "x < lo" | "x \<notin> {lo..up}" "y \<notin> {lo..up}"
    using assms(5,7) by fastforce
  then show ?thesis
  proof cases
    case 1
    then obtain a where a: "a \<in> {lo..up}" "cell s' x = cell s a" using perm_on_inside [OF perm] by blast
    have "\<forall>(l, u) \<in> set work. \<not> (l \<le> a \<and> y \<le> u)" using a(1) 1 apart by force
    then have "le s a y" using a(1) 1 rng assms(6) by (intro old) auto
    then show ?thesis using a(2) perm_on_outside [OF perm, of y] 1 by (simp add: le_def)
  next
    case 2
    then obtain b where b: "b \<in> {lo..up}" "cell s' y = cell s b" using perm_on_inside [OF perm] by blast
    have "\<forall>(l, u) \<in> set work. \<not> (l \<le> x \<and> b \<le> u)" using b(1) 2 apart by force
    then have "le s x b" using b(1) 2 rng assms(4) by (intro old) auto
    then show ?thesis using b(2) perm_on_outside [OF perm, of x] 2 by (simp add: le_def)
  next
    case 3
    then have "le s x y" using assms(4-6) free rng by (intro old) auto
    then show ?thesis using perm_on_outside [OF perm] 3 by (simp add: le_def)
  qed
qed

lemma ordered_done:
  assumes "pending_ok ((lo, up) # work)" and "ordered_but ((lo, up) # work) s" and "shuffled lo up s s'"
    and "settled s' lo up None"
  shows "ordered_but work s'"
  unfolding ordered_but_def
proof (intro allI impI)
  fix x y
  assume xy: "1 \<le> x" "x < y" "y \<le> n" "\<forall>(lo, up) \<in> set work. \<not> (lo \<le> x \<and> y \<le> up)"
  show "le s' x y"
  proof (cases "x \<in> {lo..up} \<and> y \<in> {lo..up}")
    case True
    then show ?thesis using assms(4) xy(2) by (simp add: settled_def)
  qed (use ordered_across [OF assms(1-3) xy(1-3) _ xy(4)] in blast)
qed

lemma ordered_split:
  assumes "pending_ok ((lo, up) # work)" and "ordered_but ((lo, up) # work) s" and "shuffled lo up s s'"
    and con: "consistent" and "settled s' lo up (Some part)" and part: "lo < part" "part < up"
  shows "ordered_but ((lo, part - 1) # (part + 1, up) # work) s'"
  unfolding ordered_but_def
proof (intro allI impI)
  fix x y
  assume xy: "1 \<le> x" "x < y" "y \<le> n"
    and free: "\<forall>(lo, up) \<in> set ((lo, part - 1) # (part + 1, up) # work). \<not> (lo \<le> x \<and> y \<le> up)"
  have inv: "inv s'" using assms(3) by (simp add: shuffled_def)
  show "le s' x y"
  proof (cases "x \<in> {lo..up} \<and> y \<in> {lo..up}")
    case True
    then have "x \<le> part \<and> part \<le> y" using free xy(2) by auto
    then have "le s' x part" "le s' part y" using assms(5) True by (auto simp: settled_def split_by_def le_def)
    moreover have "up \<le> n" using assms(1) by (simp add: pending_ok_def)
    then have "x \<in> {1..n}" "y \<in> {1..n}" "part \<in> {1..n}" using xy True part by auto
    ultimately show ?thesis using le_trans [OF con inv] by blast
  qed (use ordered_across [OF assms(1-3) xy] free in auto)
qed

lemma sort_run_runs:
  assumes "inv s" and "pending_ok work" and "consistent \<longrightarrow> ordered_but work s"
  shows "runs (sort_run cmp swap invalid work s)
    (\<lambda>s'. shuffled 1 n s s' \<and> (consistent \<longrightarrow> ordered_but [] s')) (rejected 1 n s)"
  using assms
proof (induction "work_size work" arbitrary: work s rule: less_induct)
  case less
  show ?case
  proof (cases work)
    case Nil
    then show ?thesis using less.prems shuffled_refl by simp
  next
    case (Cons lu rest)
    obtain lo up where lu: "lu = (lo, up)" by force
    note pend = less.prems(2) [unfolded Cons lu] and ord = less.prems(3) [unfolded Cons lu]
    have rng: "1 \<le> lo" "lo \<le> up" "up \<le> n" and rest: "pending_ok rest"
      using pend by (auto simp: pending_ok_def)
    have go: "runs (sort_run cmp swap invalid w s1)
        (\<lambda>s'. shuffled 1 n s s' \<and> (consistent \<longrightarrow> ordered_but [] s')) (rejected 1 n s)"
      if "shuffled lo up s s1" "work_size w < work_size work" "pending_ok w" "consistent \<longrightarrow> ordered_but w s1" for w s1
    proof -
      have sh: "shuffled 1 n s s1" using shuffled_mono [OF that(1)] rng by simp
      have "inv s1" using that(1) by (simp add: shuffled_def)
      from less.hyps [OF that(2) this that(3,4)] show ?thesis
        by (rule runs_mono) (use shuffled_trans [OF sh] rejected_trans [OF sh] in auto)
    qed
    show ?thesis
    proof (cases "lo < up")
      case False
      then have "ordered_but rest s" if "consistent"
        using ord that by (auto simp: ordered_but_def)
      then have "runs (sort_run cmp swap invalid rest s)
        (\<lambda>s'. shuffled 1 n s s' \<and> (consistent \<longrightarrow> ordered_but [] s')) (rejected 1 n s)"
        using rest by (intro go shuffled_refl less.prems(1)) (simp_all add: Cons lu)
      then show ?thesis using False by (simp add: Cons lu sort_run.simps(2))
    next
      case True
      have "runs (sort_round cmp swap invalid lo up s)
        (\<lambda>(s', r). shuffled lo up s s' \<and> (\<forall>part. r = Some part \<longrightarrow> lo < part \<and> part < up)
          \<and> (consistent \<longrightarrow> settled s' lo up r)) (rejected 1 n s)"
        by (rule runs_mono [OF sort_round_runs [OF less.prems(1) rng(1) True rng(3)]])
          (use rejected_mono rng in auto)
      then have "runs (and_then (sort_round cmp swap invalid lo up s) (\<lambda>(s, r). case r of
            None \<Rightarrow> sort_run cmp swap invalid rest s
          | Some part \<Rightarrow>
              if part - lo < up - part
              then sort_run cmp swap invalid ((part + 1, up) # (lo, part - 1) # rest) s
              else sort_run cmp swap invalid ((lo, part - 1) # (part + 1, up) # rest) s))
        (\<lambda>s'. shuffled 1 n s s' \<and> (consistent \<longrightarrow> ordered_but [] s')) (rejected 1 n s)"
      proof (rule runs_and_then, goal_cases)
        case (1 x)
        then obtain s1 r where x: "x = (s1, r)" and s1: "shuffled lo up s s1"
          "\<And>part. r = Some part \<Longrightarrow> lo < part \<and> part < up" "consistent \<longrightarrow> settled s1 lo up r" by auto
        show ?case
        proof (cases r)
          case None
          then show ?thesis using go [OF s1(1), of rest] rest s1(3) ordered_done [OF pend _ s1(1)] ord
            by (simp add: x Cons lu)
        next
          case (Some part)
          then have part: "lo < part" "part < up" using s1(2) by auto
          have "consistent \<longrightarrow> ordered_but ((lo, part - 1) # (part + 1, up) # rest) s1"
            using ordered_split [OF pend _ s1(1) _ _ part] ord s1(3) Some by blast
          moreover have "consistent \<longrightarrow> ordered_but ((part + 1, up) # (lo, part - 1) # rest) s1"
            using calculation ordered_but_swap by blast
          moreover have "work_size ((lo, part - 1) # (part + 1, up) # rest) < work_size work"
            "work_size ((part + 1, up) # (lo, part - 1) # rest) < work_size work"
            using part by (simp_all add: Cons lu)
          ultimately have "runs (sort_run cmp swap invalid ((lo, part - 1) # (part + 1, up) # rest) s1)
              (\<lambda>s'. shuffled 1 n s s' \<and> (consistent \<longrightarrow> ordered_but [] s')) (rejected 1 n s)"
            and "runs (sort_run cmp swap invalid ((part + 1, up) # (lo, part - 1) # rest) s1)
              (\<lambda>s'. shuffled 1 n s s' \<and> (consistent \<longrightarrow> ordered_but [] s')) (rejected 1 n s)"
            using go [OF s1(1)] pending_split [OF pend part] by blast+
          then show ?thesis by (simp only: x Some prod.case option.case split: if_split) blast
        qed
      qed
      then show ?thesis using True by (simp add: Cons lu sort_run.simps(2))
    qed
  qed
qed

lemma ordered_sorted:
  assumes "ordered_but [] s"
  shows "sorted_wrt (\<lambda>a b. \<not> lt b a) (map (cell s) [1..<Suc n])"
proof -
  have "sorted_wrt (\<lambda>x y. \<not> lt (cell s y) (cell s x)) [1..<Suc n]"
    using assms by (auto simp: sorted_wrt_iff_nth_less ordered_but_def le_def simp del: upt_Suc)
  then show ?thesis by (simp only: sorted_wrt_map)
qed

theorem sorts:
  assumes "inv s" and "1 \<le> n"
  shows "runs (sort_run cmp swap invalid [(1, n)] s)
    (\<lambda>s'. inv s' \<and> mset (map (cell s') [1..<Suc n]) = mset (map (cell s) [1..<Suc n])
       \<and> (consistent \<longrightarrow> sorted_wrt (\<lambda>a b. \<not> lt b a) (map (cell s') [1..<Suc n])))
    (\<lambda>e. \<not> consistent \<and> (\<exists>s'. e = invalid s' \<and> inv s'
       \<and> mset (map (cell s') [1..<Suc n]) = mset (map (cell s) [1..<Suc n])))"
proof (rule runs_mono [OF sort_run_runs [OF assms(1)]], goal_cases)
  case 1
  then show ?case using assms(2) by (simp add: pending_ok_def)
next
  case 2
  then show ?case by (simp add: ordered_but_def)
next
  case (3 s')
  then show ?case using perm_on_mset ordered_sorted by (auto simp: shuffled_def simp del: upt_Suc)
next
  case (4 e)
  then show ?case using perm_on_mset unfolding rejected_def shuffled_def by blast
qed

end

section \<open>Comparisons that fail or have effects\<close>

text \<open>
  An outcome whose panic is allowed only under \<open>N\<close>; and the sort over an array whose comparison may
  answer anything, change the rest of the state, raise an error or panic, as long as it leaves the
  cells alone. Such a sort permutes the cells, and when it ends with an error the state the error
  carries holds a permutation of them too.
\<close>

definition yields :: "bool \<Rightarrow> ('e, 'a) outcome \<Rightarrow> ('a \<Rightarrow> bool) \<Rightarrow> ('e \<Rightarrow> bool) \<Rightarrow> bool" where
  "yields N r Q E = (case r of None \<Rightarrow> N | Some (Inl e) \<Rightarrow> E e | Some (Inr x) \<Rightarrow> Q x)"

lemma yields_simps [simp]:
  "yields N None Q E = N" "yields N (err e) Q E = E e" "yields N (ok x) Q E = Q x"
  by (simp_all add: yields_def)

lemma yields_and_then:
  assumes "yields N r P E" and "\<And>x. P x \<Longrightarrow> yields N (f x) Q E"
  shows "yields N (and_then r f) Q E"
proof (cases r)
  case (Some v)
  then show ?thesis using assms by (cases v) simp_all
qed (use assms(1) in simp)

lemma yields_mono:
  assumes "yields N r P F" and "\<And>x. P x \<Longrightarrow> Q x" and "\<And>e. F e \<Longrightarrow> E e"
  shows "yields N r Q E"
  using assms by (auto simp: yields_def split: option.splits sum.splits)

locale array_permute =
  fixes cmp :: "('s, 'e) comparison" and swap :: "'s \<Rightarrow> nat \<Rightarrow> nat \<Rightarrow> 's option" and invalid :: "'s \<Rightarrow> 'e"
    and inv :: "'s \<Rightarrow> bool" and cell :: "'s \<Rightarrow> nat \<Rightarrow> 'v" and n :: nat
    and carried :: "'e \<Rightarrow> 's" and fails :: "'e \<Rightarrow> bool" and crash :: bool
  assumes size: "inv s \<Longrightarrow> n + 1 < 2 ^ 64"
    and cmp_law: "inv s \<Longrightarrow> x \<in> {1..n} \<Longrightarrow> y \<in> {1..n} \<Longrightarrow> yields crash (cmp s x y)
      (\<lambda>(s', _). inv s' \<and> cell s' = cell s) (\<lambda>e. fails e \<and> inv (carried e) \<and> cell (carried e) = cell s)"
    and swap_law: "inv s \<Longrightarrow> x \<in> {1..n} \<Longrightarrow> y \<in> {1..n} \<Longrightarrow>
      \<exists>s'. swap s x y = Some s' \<and> inv s' \<and> cell s' = exchange x y (cell s)"
    and invalid_law: "carried (invalid s) = s \<and> fails (invalid s)"
begin

definition mixed :: "'s \<Rightarrow> 's \<Rightarrow> bool" where
  "mixed s s' \<longleftrightarrow> inv s' \<and> perm_on 1 n (cell s) (cell s')"

definition broken :: "'s \<Rightarrow> 'e \<Rightarrow> bool" where
  "broken s e \<longleftrightarrow> fails e \<and> mixed s (carried e)"

lemma broken_invalid: "mixed s s' \<Longrightarrow> broken s (invalid s')"
  using invalid_law by (simp add: broken_def)

lemma cmp_yields:
  assumes "mixed s0 s" and "x \<in> {1..n}" and "y \<in> {1..n}"
  shows "yields crash (cmp s x y) (\<lambda>(s', _). mixed s0 s') (broken s0)"
  using assms unfolding mixed_def broken_def by (intro yields_mono [OF cmp_law [of s x y]]) auto

lemma swap_yields:
  assumes "mixed s0 s" and "x \<in> {1..n}" and "y \<in> {1..n}"
  shows "yields crash (of_panic (swap s x y)) (mixed s0) (broken s0)"
  using swap_law [of s x y] assms perm_on_trans [OF _ perm_on_exchange [OF assms(2,3)]]
  unfolding mixed_def by (metis of_panic_simps(2) yields_simps(3))

lemma advance_yields:
  assumes "mixed s0 s" and "i < up - 1" and "up \<le> n" and "piv \<in> {1..n}"
  shows "yields crash (advance cmp invalid up piv i s)
    (\<lambda>(s', i'). mixed s0 s' \<and> i < i' \<and> i' \<le> up - 1) (broken s0)"
  using assms(1,2)
proof (induction "up - i" arbitrary: i s rule: less_induct)
  case less
  let ?Q = "\<lambda>i (s', i'). mixed s0 s' \<and> i < i' \<and> i' \<le> up - 1"
  have bound: "\<not> 2 ^ 64 \<le> i + 1" using size less.prems assms(3) unfolding mixed_def by force
  have c: "yields crash (cmp s (i + 1) piv) (\<lambda>(s', _). mixed s0 s') (broken s0)"
    using less.prems assms by (intro cmp_yields) auto
  have "yields crash (if \<not> lt then ok (s', i + 1) else if i + 1 = up - 1 then err (invalid s')
      else advance cmp invalid up piv (i + 1) s') (?Q i) (broken s0)" if "mixed s0 s'" for s' lt
  proof (cases "\<not> lt \<or> i + 1 = up - 1")
    case True
    then show ?thesis using that less.prems(2) broken_invalid by auto
  next
    case False
    have "yields crash (advance cmp invalid up piv (i + 1) s') (?Q (i + 1)) (broken s0)"
      using False less.prems(2) by (intro less.hyps [OF _ that]) auto
    then have "yields crash (advance cmp invalid up piv (i + 1) s') (?Q i) (broken s0)"
      by (rule yields_mono) auto
    then show ?thesis using False by simp
  qed
  then have "yields crash (and_then (cmp s (i + 1) piv) (\<lambda>(s, lt). if \<not> lt then ok (s, i + 1)
      else if i + 1 = up - 1 then err (invalid s) else advance cmp invalid up piv (i + 1) s)) (?Q i) (broken s0)"
    by (intro yields_and_then [OF c]) auto
  then show ?case by (subst advance.simps) (simp only: bound if_False)
qed

lemma retreat_yields:
  assumes "mixed s0 s" and "2 \<le> i" and "2 \<le> j" and "j \<le> n + 1" and "piv \<in> {1..n}"
  shows "yields crash (retreat cmp invalid piv i j s)
    (\<lambda>(s', j'). mixed s0 s' \<and> 1 \<le> j' \<and> j' < j) (broken s0)"
  using assms(1,3,4)
proof (induction j arbitrary: s)
  case (Suc j)
  have c: "yields crash (cmp s piv j) (\<lambda>(s', _). mixed s0 s') (broken s0)"
    using Suc.prems assms by (intro cmp_yields) auto
  have "yields crash (if \<not> lt then ok (s', j) else if j < i then err (invalid s')
      else retreat cmp invalid piv i j s') (\<lambda>(s', j'). mixed s0 s' \<and> 1 \<le> j' \<and> j' < Suc j) (broken s0)"
    if "mixed s0 s'" for s' lt
  proof (cases "\<not> lt \<or> j < i")
    case True
    then show ?thesis using that Suc.prems(2) broken_invalid by auto
  next
    case False
    then have "yields crash (retreat cmp invalid piv i j s')
        (\<lambda>(s', j'). mixed s0 s' \<and> 1 \<le> j' \<and> j' < j) (broken s0)"
      using Suc.prems assms(2) by (intro Suc.IH [OF that]) auto
    then have "yields crash (retreat cmp invalid piv i j s')
        (\<lambda>(s', j'). mixed s0 s' \<and> 1 \<le> j' \<and> j' < Suc j) (broken s0)"
      by (rule yields_mono) auto
    then show ?thesis using False by simp
  qed
  then show ?case by (simp only: retreat.simps, intro yields_and_then [OF c]) auto
qed simp

lemma part_loop_yields:
  assumes "mixed s0 s" and "1 \<le> lo" and "up \<le> n" and "lo \<le> i" and "i < up - 1" and "i \<le> j" and "lo < j"
    and "j \<le> up - 1"
  shows "yields crash (part_loop cmp swap invalid up (up - 1) i j s)
    (\<lambda>(s', part). mixed s0 s' \<and> lo < part \<and> part < up) (broken s0)"
  using assms(1,4-8)
proof (induction "up - i" arbitrary: i j s rule: less_induct)
  case less
  let ?Q = "\<lambda>(s', part). mixed s0 s' \<and> lo < part \<and> part < up"
  have piv: "up - 1 \<in> {1..n}" using less.prems assms(2,3) by auto
  have finish: "yields crash (if j1 < i1 then and_then (of_panic (swap s2 (up - 1) i1)) (\<lambda>s. ok (s, i1))
      else and_then (of_panic (swap s2 i1 j1)) (\<lambda>s. part_loop cmp swap invalid up (up - 1) i1 j1 s)) ?Q (broken s0)"
    if s2: "mixed s0 s2" and i1: "i < i1" "i1 \<le> up - 1" and j1: "1 \<le> j1" "j1 < j" for i1 j1 s2
  proof (cases "j1 < i1")
    case True
    have i1n: "i1 \<in> {1..n}" "lo < i1" "i1 < up" using i1 less.prems assms(2,3) by auto
    have "yields crash (and_then (of_panic (swap s2 (up - 1) i1)) (\<lambda>s. ok (s, i1))) ?Q (broken s0)"
      using i1n by (intro yields_and_then [OF swap_yields [OF s2 piv i1n(1)]]) simp
    then show ?thesis using True by simp
  next
    case False
    have r: "i1 \<in> {1..n}" "j1 \<in> {1..n}" using i1 j1 less.prems assms(2,3) by auto
    have "yields crash (and_then (of_panic (swap s2 i1 j1)) (\<lambda>s. part_loop cmp swap invalid up (up - 1) i1 j1 s))
        ?Q (broken s0)"
      using i1 j1 False less.prems
      by (intro yields_and_then [OF swap_yields [OF s2 r]] less.hyps) auto
    then show ?thesis using False by simp
  qed
  have ret: "yields crash (and_then (retreat cmp invalid (up - 1) i1 j s1) (\<lambda>(s, j).
         if j < i1 then and_then (of_panic (swap s (up - 1) i1)) (\<lambda>s. ok (s, i1))
         else and_then (of_panic (swap s i1 j)) (\<lambda>s. part_loop cmp swap invalid up (up - 1) i1 j s))) ?Q (broken s0)"
    if s1: "mixed s0 s1" and i1: "i < i1" "i1 \<le> up - 1" for i1 s1
  proof -
    have "2 \<le> i1" "2 \<le> j" "j \<le> n + 1" using i1 less.prems assms(2,3) by auto
    then show ?thesis
      by (intro yields_and_then [OF retreat_yields [OF s1 _ _ _ piv]]) (use finish i1 in auto)
  qed
  show ?case
    by (subst part_loop.simps, rule yields_and_then [OF advance_yields [OF less.prems(1,3) assms(3) piv]])
      (use ret in auto)
qed

lemma order_pair_yields:
  assumes "mixed s0 s" and "a \<in> {1..n}" and "b \<in> {1..n}" and "x \<in> {1..n}" and "y \<in> {1..n}"
  shows "yields crash (order_pair cmp swap a b x y s) (\<lambda>(s', _). mixed s0 s') (broken s0)"
  unfolding order_pair_def
proof (rule yields_and_then [OF cmp_yields [OF assms(1-3)]], clarify)
  fix s' lt
  assume s': "mixed s0 s'"
  have "yields crash (and_then (of_panic (swap s' x y)) (\<lambda>s. ok (s, True))) (\<lambda>(s', _). mixed s0 s') (broken s0)"
    by (rule yields_and_then [OF swap_yields [OF s' assms(4,5)]]) simp
  then show "yields crash (if lt then and_then (of_panic (swap s' x y)) (\<lambda>s. ok (s, True)) else ok (s', False))
      (\<lambda>(s', _). mixed s0 s') (broken s0)"
    using s' by simp
qed

lemma sort_round_yields:
  assumes s: "mixed s0 s" and lo: "1 \<le> lo" "lo < up" and up: "up \<le> n"
  shows "yields crash (sort_round cmp swap invalid lo up s)
    (\<lambda>(s', r). mixed s0 s' \<and> (\<forall>part. r = Some part \<longrightarrow> lo < part \<and> part < up)) (broken s0)"
proof -
  let ?p = "(lo + up) div 2"
  have r: "up \<in> {1..n}" "lo \<in> {1..n}" "?p \<in> {1..n}" using lo up by auto
  have median: "yields crash (median_of_3 cmp swap lo ?p up s1) (mixed s0) (broken s0)" if s1: "mixed s0 s1" for s1
  proof -
    have "yields crash (and_then (order_pair cmp swap up ?p ?p up s2) (\<lambda>(s, _). ok s)) (mixed s0) (broken s0)"
      if "mixed s0 s2" for s2
      by (rule yields_and_then [OF order_pair_yields [OF that r(1,3,3,1)]]) auto
    then show ?thesis unfolding median_of_3_def
      by (intro yields_and_then [OF order_pair_yields [OF s1 r(3,2,3,2)]]) auto
  qed
  have part: "yields crash (and_then (partition_at cmp swap invalid lo ?p up s1) (\<lambda>(s, part). ok (s, Some part)))
      (\<lambda>(s', r). mixed s0 s' \<and> (\<forall>part. r = Some part \<longrightarrow> lo < part \<and> part < up)) (broken s0)"
    if s1: "mixed s0 s1" and far: "up - lo \<noteq> 1" "up - lo \<noteq> 2" for s1
  proof -
    have "up - 1 \<in> {1..n}" using r(1) lo by auto
    then have "yields crash (partition_at cmp swap invalid lo ?p up s1)
        (\<lambda>(s', part). mixed s0 s' \<and> lo < part \<and> part < up) (broken s0)"
      unfolding partition_at_def using far lo up
      by (intro yields_and_then [OF swap_yields [OF s1 r(3)]] part_loop_yields) auto
    then show ?thesis by (rule yields_and_then) auto
  qed
  show ?thesis
    unfolding sort_round_def
    by (intro yields_and_then [OF order_pair_yields [OF s r(1,2,2,1)]])
      (auto intro!: yields_and_then [OF median] part)
qed

lemma sort_run_yields:
  assumes "mixed s0 s" and "\<forall>(lo, up) \<in> set work. 1 \<le> lo \<and> up \<le> n"
  shows "yields crash (sort_run cmp swap invalid work s) (mixed s0) (broken s0)"
  using assms
proof (induction "work_size work" arbitrary: work s rule: less_induct)
  case less
  show ?case
  proof (cases work)
    case Nil
    then show ?thesis using less.prems by simp
  next
    case (Cons lu rest)
    obtain lo up where lu: "lu = (lo, up)" by force
    have rng: "1 \<le> lo" "up \<le> n" and rest: "\<forall>(lo, up) \<in> set rest. 1 \<le> lo \<and> up \<le> n"
      using less.prems(2) by (auto simp: Cons lu)
    show ?thesis
    proof (cases "lo < up")
      case False
      then show ?thesis using less.hyps [OF _ less.prems(1) rest] by (simp add: Cons lu sort_run.simps(2))
    next
      case True
      have "yields crash (case r of
            None \<Rightarrow> sort_run cmp swap invalid rest s1
          | Some part \<Rightarrow>
              if part - lo < up - part
              then sort_run cmp swap invalid ((part + 1, up) # (lo, part - 1) # rest) s1
              else sort_run cmp swap invalid ((lo, part - 1) # (part + 1, up) # rest) s1) (mixed s0) (broken s0)"
        if s1: "mixed s0 s1" and r: "\<forall>part. r = Some part \<longrightarrow> lo < part \<and> part < up" for s1 r
        using r rng rest
        by (cases r) (auto intro!: less.hyps [OF _ s1] simp: Cons lu)
      then have "yields crash (and_then (sort_round cmp swap invalid lo up s) (\<lambda>(s, r). case r of
            None \<Rightarrow> sort_run cmp swap invalid rest s
          | Some part \<Rightarrow>
              if part - lo < up - part
              then sort_run cmp swap invalid ((part + 1, up) # (lo, part - 1) # rest) s
              else sort_run cmp swap invalid ((lo, part - 1) # (part + 1, up) # rest) s)) (mixed s0) (broken s0)"
        by (intro yields_and_then [OF sort_round_yields [OF less.prems(1) rng(1) True rng(2)]]) auto
      then show ?thesis using True by (simp add: Cons lu sort_run.simps(2))
    qed
  qed
qed

theorem permutes:
  assumes "inv s"
  shows "yields crash (sort_run cmp swap invalid [(1, n)] s)
    (\<lambda>s'. inv s' \<and> mset (map (cell s') [1..<Suc n]) = mset (map (cell s) [1..<Suc n]))
    (\<lambda>e. fails e \<and> inv (carried e) \<and> mset (map (cell (carried e)) [1..<Suc n]) = mset (map (cell s) [1..<Suc n]))"
proof -
  have "mixed s s" using assms by (simp add: mixed_def)
  then show ?thesis
    by (rule yields_mono [OF sort_run_yields]) (use perm_on_mset in \<open>auto simp: broken_def mixed_def simp del: upt_Suc\<close>)
qed

end

end
