(* ===== verification/TableLibLemmas.thy ===== *)
theory TableLibLemmas
  imports TableLib SortLaws
begin

text \<open>
  The table library on the array part of a table: reads and writes of positions \<open>1..n\<close> are list
  operations, the shifts of \<open>insert\<close> and \<open>remove\<close> are list insertion and deletion, and the sort is the
  one of theory SortLaws, whose interface the tables implement.
\<close>

section \<open>The array part as a list\<close>

definition array_of :: "heap \<Rightarrow> addr \<Rightarrow> lua_value list" where
  "array_of h t = ts_array (h_tables h t)"

definition with_array :: "heap \<Rightarrow> addr \<Rightarrow> lua_value list \<Rightarrow> heap" where
  "with_array h t xs = upd_table h t (\<lambda>ts. ts\<lparr>ts_array := xs\<rparr>)"

lemma raw_len_array [simp]: "raw_len h t = length (array_of h t)"
  by (simp add: raw_len_def array_of_def)

lemma with_array_simps [simp]:
  "array_of (with_array h t xs) u = (if u = t then xs else array_of h u)"
  "with_array (with_array h t xs) t ys = with_array h t ys"
  "with_array h t (array_of h t) = h" "h_next_table (with_array h t xs) = h_next_table h"
  by (simp_all add: with_array_def array_of_def upd_table_def fun_upd_idem)

lemma array_index_int:
  assumes "1 \<le> k" and "k < 2 ^ 63"
  shows "array_index (int_key k) = Some (nat k)"
proof -
  have "sint (word_of_int k :: i64) = k" using assms by (intro sint_of_int_i64) auto
  then show ?thesis using assms(1) by (simp add: array_index_def)
qed

lemma raw_get_int:
  assumes "1 \<le> k" and "k < 2 ^ 63"
  shows "raw_get h t (int_key k) = Some (opt_value (get_at (array_of h t) (nat k - 1)))"
  by (simp add: raw_get_def array_index_int [OF assms] array_of_def get_string_def)

lemma raw_set_int:
  assumes "1 \<le> k" and "k \<le> int max_vec_len"
  shows "raw_set h t (int_key k) v =
    Some (with_array h t ((resize (array_of h t) (max (nat k) (length (array_of h t))) VNil)[nat k - 1 := v]))"
proof -
  have "k < 2 ^ 63" and "nat k \<le> max_vec_len" using assms(2) by (simp_all add: max_vec_len_def)
  then show ?thesis using assms(1)
    by (simp add: raw_set_def array_index_int array_of_def with_array_def get_string_def Let_def resize_def max_def)
qed

text \<open>Within the array, and one past its end.\<close>

lemma raw_get_cell:
  assumes "1 \<le> k" and "k \<le> length (array_of h t)" and "length (array_of h t) < 2 ^ 63"
  shows "raw_get h t (int_key (int k)) = Some (array_of h t ! (k - 1))"
proof -
  have "k - 1 < length (array_of h t)" using assms(1,2) by linarith
  then show ?thesis using raw_get_int [of "int k" h t] assms by (simp add: get_at_def opt_value_def)
qed

lemma raw_set_cell:
  assumes "1 \<le> k" and "k \<le> length (array_of h t)" and "length (array_of h t) \<le> max_vec_len"
  shows "raw_set h t (int_key (int k)) v = Some (with_array h t ((array_of h t)[k - 1 := v]))"
  using raw_set_int [of "int k" h t v] assms by (simp add: max_def resize_def)

lemma raw_set_append:
  assumes "k = length (array_of h t) + 1" and "k \<le> max_vec_len"
  shows "raw_set h t (int_key (int k)) v = Some (with_array h t (array_of h t @ [v]))"
proof -
  have "resize (array_of h t) (max k (length (array_of h t))) VNil = array_of h t @ [VNil]"
    using assms(1) by (simp add: max_def resize_def)
  then show ?thesis using raw_set_int [of "int k" h t v] assms by (simp del: of_nat_Suc)
qed

section \<open>Insertion and removal\<close>

lemma copy_cell_array:
  assumes "1 \<le> src" "src \<le> length (array_of h t)" "1 \<le> dst" "dst \<le> length (array_of h t)"
    and "length (array_of h t) \<le> max_vec_len"
  shows "copy_cell h t (int src) t (int dst)
    = Some (with_array h t ((array_of h t)[dst - 1 := array_of h t ! (src - 1)]))"
proof -
  have "length (array_of h t) < 2 ^ 63" using assms(5) by (simp add: max_vec_len_def)
  then show ?thesis
    using raw_get_cell [OF assms(1,2)] raw_set_cell [OF assms(3-5)] by (simp add: copy_cell_def)
qed

text \<open>Shifting \<open>xs ! (pos - 1) .. xs ! (k - 1)\<close> up by one, over the element at \<open>k\<close>.\<close>

definition shift_up :: "nat \<Rightarrow> nat \<Rightarrow> 'a list \<Rightarrow> 'a list" where
  "shift_up pos k xs = map (\<lambda>i. if pos \<le> i \<and> i \<le> k then xs ! (i - 1) else xs ! i) [0..<length xs]"

lemma insert_loop_array:
  assumes "1 \<le> pos" and "k < length (array_of h t)" and "length (array_of h t) \<le> max_vec_len"
  shows "insert_loop t (int pos) (int k) h = Some (with_array h t (shift_up pos k (array_of h t)))"
  using assms(2,3)
proof (induction k arbitrary: h)
  case 0
  have "shift_up pos 0 (array_of h t) = array_of h t"
    using assms(1) by (intro nth_equalityI) (auto simp: shift_up_def)
  then show ?case using assms(1) by (simp add: insert_loop.simps)
next
  case (Suc k)
  let ?xs = "array_of h t"
  show ?case
  proof (cases "pos \<le> Suc k")
    case True
    let ?ys = "?xs[Suc k := ?xs ! k]"
    have c: "copy_cell h t (int (Suc k)) t (int (Suc k) + 1) = Some (with_array h t ?ys)"
      using copy_cell_array [of "Suc k" h t "Suc (Suc k)"] Suc.prems by (simp add: add.commute)
    have "insert_loop t (int pos) (int k) (with_array h t ?ys)
      = Some (with_array h t (shift_up pos k ?ys))"
      using Suc.IH [of "with_array h t ?ys"] Suc.prems by simp
    moreover have "shift_up pos k ?ys = shift_up pos (Suc k) ?xs"
      using Suc.prems(1) True by (intro nth_equalityI) (auto simp: shift_up_def nth_list_update le_Suc_eq)
    ultimately show ?thesis using True c
      by (subst insert_loop.simps) simp
  next
    case False
    have "shift_up pos (Suc k) ?xs = ?xs" using False by (intro nth_equalityI) (auto simp: shift_up_def)
    then show ?thesis using False by (simp add: insert_loop.simps)
  qed
qed

lemma shift_up_take_drop:
  assumes "1 \<le> pos" and "pos \<le> n" and "length xs = n"
  shows "(shift_up pos (n - 1) (xs @ [xs ! (n - 1)]))[pos - 1 := v] = take (pos - 1) xs @ v # drop (pos - 1) xs"
proof (rule nth_equalityI, goal_cases)
  case 1
  then show ?case using assms by (simp add: shift_up_def)
next
  case (2 i)
  then have "i \<le> n" using assms by (simp add: shift_up_def)
  then show ?case using assms
    by (auto simp: shift_up_def nth_list_update nth_append nth_Cons' min_def)
qed

lemma insert_array:
  assumes "1 \<le> pos" and "pos \<le> n + 1" and "length (array_of h t) = n" and "n + 1 \<le> max_vec_len"
  obtains h1 where "insert_loop t (int pos) (int n) h = Some h1"
    and "raw_set h1 t (int_key (int pos)) v
      = Some (with_array h t (take (pos - 1) (array_of h t) @ v # drop (pos - 1) (array_of h t)))"
proof (cases "pos = n + 1")
  case True
  then have "insert_loop t (int pos) (int n) h = Some h" by (simp add: insert_loop.simps)
  moreover have "raw_set h t (int_key (int pos)) v = Some (with_array h t (array_of h t @ [v]))"
    using True assms by (intro raw_set_append) auto
  ultimately show ?thesis using that True assms(3) by simp
next
  case False
  let ?xs = "array_of h t"
  let ?ys = "?xs @ [?xs ! (n - 1)]"
  have pos: "pos \<le> n" "1 \<le> n" "n < 2 ^ 63" using False assms by (auto simp: max_vec_len_def)
  have "copy_cell h t (int n) t (int n + 1) = Some (with_array h t ?ys)"
    using raw_get_cell [of n h t] raw_set_append [of "n + 1" h t] pos assms
    by (simp add: copy_cell_def add.commute)
  moreover have "insert_loop t (int pos) (int (n - 1)) (with_array h t ?ys)
      = Some (with_array h t (shift_up pos (n - 1) ?ys))"
    using insert_loop_array [of pos "n - 1" "with_array h t ?ys" t] assms pos by simp
  ultimately have l: "insert_loop t (int pos) (int n) h = Some (with_array h t (shift_up pos (n - 1) ?ys))"
    using pos by (subst insert_loop.simps) (simp add: of_nat_diff)
  have "raw_set (with_array h t (shift_up pos (n - 1) ?ys)) t (int_key (int pos)) v
      = Some (with_array h t ((shift_up pos (n - 1) ?ys)[pos - 1 := v]))"
    using raw_set_cell [of pos "with_array h t (shift_up pos (n - 1) ?ys)" t v] assms pos
    by (simp add: shift_up_def)
  with l show ?thesis using that shift_up_take_drop [OF assms(1) pos(1) assms(3)] by simp
qed

text \<open>Shifting the elements after \<open>pos\<close> down by one.\<close>

definition shift_down :: "nat \<Rightarrow> 'a list \<Rightarrow> 'a list" where
  "shift_down pos xs = map (\<lambda>i. if pos \<le> Suc i \<and> Suc i < length xs then xs ! Suc i else xs ! i) [0..<length xs]"

lemma remove_loop_array:
  assumes "1 \<le> pos" and "length (array_of h t) = n" and "n \<le> max_vec_len"
  shows "remove_loop t (int n) (int pos) h = Some (with_array h t (shift_down pos (array_of h t)))"
  using assms
proof (induction "n - pos" arbitrary: pos h rule: less_induct)
  case less
  let ?xs = "array_of h t"
  show ?case
  proof (cases "pos < n")
    case True
    let ?ys = "?xs[pos - 1 := ?xs ! pos]"
    have c: "copy_cell h t (int pos + 1) t (int pos) = Some (with_array h t ?ys)"
      using copy_cell_array [of "pos + 1" h t pos] less.prems True by (simp add: add.commute)
    have "remove_loop t (int n) (int (pos + 1)) (with_array h t ?ys)
      = Some (with_array h t (shift_down (pos + 1) ?ys))"
      using less.hyps [of "pos + 1" "with_array h t ?ys"] less.prems True by simp
    moreover have "shift_down (pos + 1) ?ys = shift_down pos ?xs"
      using less.prems True by (intro nth_equalityI) (auto simp: shift_down_def nth_list_update)
    ultimately show ?thesis using True c by (subst remove_loop.simps) (simp add: add.commute)
  next
    case False
    have "shift_down pos ?xs = ?xs" using False less.prems by (intro nth_equalityI) (auto simp: shift_down_def)
    then show ?thesis using False by (simp add: remove_loop.simps)
  qed
qed

lemma remove_array:
  assumes "1 \<le> pos" and "pos \<le> n" and "length (array_of h t) = n" and "n \<le> max_vec_len"
  obtains h1 where "remove_loop t (int n) (int pos) h = Some h1"
    and "raw_set h1 t (int_key (int n)) VNil
      = Some (with_array h t (take (pos - 1) (array_of h t) @ drop pos (array_of h t) @ [VNil]))"
proof -
  let ?ys = "shift_down pos (array_of h t)"
  have "?ys[n - 1 := VNil] = take (pos - 1) (array_of h t) @ drop pos (array_of h t) @ [VNil]"
    using assms by (intro nth_equalityI)
      (auto simp: shift_down_def nth_list_update nth_append nth_Cons' min_def less_Suc_eq split: if_splits)
  moreover have "raw_set (with_array h t ?ys) t (int_key (int n)) VNil = Some (with_array h t (?ys[n - 1 := VNil]))"
    using raw_set_cell [of n "with_array h t ?ys" t VNil] assms by (simp add: shift_down_def)
  ultimately show ?thesis using that remove_loop_array [OF assms(1,3,4)] by simp
qed

section \<open>Sorting\<close>

text \<open>The state of the sort: the heap it started from, with another array of the same length and values.\<close>

definition array_cell :: "addr \<Rightarrow> heap \<Rightarrow> nat \<Rightarrow> lua_value" where
  "array_cell t h k = (if k = 0 then VNil else array_of h t ! (k - 1))"

definition decides :: "callback \<Rightarrow> addr option \<Rightarrow> lua_value set \<Rightarrow> (lua_value \<Rightarrow> lua_value \<Rightarrow> bool) \<Rightarrow> bool" where
  "decides call cmpf V lt \<longleftrightarrow> (\<forall>h. \<forall>a \<in> V. \<forall>b \<in> V. compare_elements call cmpf h a b = ok (h, lt a b))"

definition sort_state :: "callback \<Rightarrow> addr option \<Rightarrow> lua_value set \<Rightarrow> (lua_value \<Rightarrow> lua_value \<Rightarrow> bool) \<Rightarrow>
    addr \<Rightarrow> nat \<Rightarrow> heap \<Rightarrow> heap \<Rightarrow> bool" where
  "sort_state call cmpf V lt t n h0 h \<longleftrightarrow> decides call cmpf V lt \<and> n < 2 ^ 31
     \<and> (\<exists>xs. h = with_array h0 t xs \<and> length xs = n \<and> set xs \<subseteq> V)"

lemma map_array_cell: "map (array_cell t h) [1..<Suc (length (array_of h t))] = array_of h t"
  by (rule nth_equalityI) (simp_all add: array_cell_def del: upt_Suc)

interpretation table_sort: array_sort "sort_less call t cmpf" "sort_swap t" invalid_order
    "sort_state call cmpf V lt t n h0" "array_cell t" n V lt
  for call t cmpf V lt n h0
proof (unfold_locales, goal_cases)
  case (1 h)
  then show ?case by (simp add: sort_state_def)
next
  case (2 h x)
  then show ?case by (auto simp: sort_state_def array_cell_def subset_iff)
next
  case (3 h x y)
  then obtain xs where xs: "h = with_array h0 t xs" "length xs = n" "set xs \<subseteq> V" "n < 2 ^ 31"
    and dec: "decides call cmpf V lt" by (auto simp: sort_state_def)
  have "raw_get h t (int_key (int k)) = Some (xs ! (k - 1)) \<and> array_cell t h k = xs ! (k - 1) \<and> xs ! (k - 1) \<in> V"
    if "k \<in> {1..n}" for k
    using raw_get_cell [of k h t] that xs by (auto simp: array_cell_def subset_iff)
  then show ?case using 3(2,3) dec by (simp add: sort_less_def decides_def)
next
  case (4 h x y)
  then obtain xs where xs: "h = with_array h0 t xs" "length xs = n" "set xs \<subseteq> V" "n < 2 ^ 31"
    and dec: "decides call cmpf V lt" by (auto simp: sort_state_def)
  have g: "raw_get h t (int_key (int k)) = Some (xs ! (k - 1))" if "k \<in> {1..n}" for k
    using raw_get_cell [of k h t] that xs by auto
  have s: "raw_set (with_array h0 t ys) t (int_key (int k)) v = Some (with_array h0 t (ys[k - 1 := v]))"
    if "k \<in> {1..n}" "length ys = n" for k ys v
    using raw_set_cell [of k "with_array h0 t ys" t v] that xs by (auto simp: max_vec_len_def)
  let ?ys = "xs[x - 1 := xs ! (y - 1), y - 1 := xs ! (x - 1)]"
  have "sort_swap t h x y = Some (with_array h0 t ?ys)"
    using g 4(2,3) s xs(1,2) by (simp add: sort_swap_def)
  moreover have "sort_state call cmpf V lt t n h0 (with_array h0 t ?ys)"
    using dec xs(2-4) 4(2,3) by (auto simp: sort_state_def subset_iff dest!: set_update_subset_insert [THEN subsetD])
  moreover have "array_cell t (with_array h0 t ?ys) = exchange x y (array_cell t h)"
    using 4(2,3) xs(1,2) by (auto simp: array_cell_def exchange_def nth_list_update fun_eq_iff)
  ultimately show ?case by blast
qed

text \<open>
  A callback that leaves the array part of the table \<open>t\<close> as it is, whether it returns or raises an
  error; it may allocate, change anything else, answer anything, or panic.
\<close>

definition same_array :: "addr \<Rightarrow> heap \<Rightarrow> heap \<Rightarrow> bool" where
  "same_array t h h' \<longleftrightarrow> array_of h' t = array_of h t \<and> h_next_table h \<le> h_next_table h'"

definition keeps_array :: "callback \<Rightarrow> addr \<Rightarrow> bool" where
  "keeps_array call t \<longleftrightarrow> (\<forall>h f args. t < h_next_table h \<longrightarrow> (case call h f args of
      None \<Rightarrow> True
    | Some (Inl (h', e)) \<Rightarrow> same_array t h h'
    | Some (Inr (h', rs)) \<Rightarrow> same_array t h h'))"

lemma same_array_refl [simp]: "same_array t h h"
  by (simp add: same_array_def)

lemma keeps_array_cases:
  assumes "keeps_array call t" and "t < h_next_table h"
  shows "call h f args = err (h', e) \<Longrightarrow> same_array t h h'" and "call h f args = ok (h', rs) \<Longrightarrow> same_array t h h'"
  using assms unfolding keeps_array_def by (metis (no_types, lifting) case_prod_conv option.case(2) sum.case)+

lemma call_truthy_cases:
  assumes "keeps_array call t" and "t < h_next_table h"
  shows "call_truthy call h f a b = err (h', e) \<Longrightarrow> same_array t h h'"
    and "call_truthy call h f a b = ok (h', r) \<Longrightarrow> same_array t h h'"
  using keeps_array_cases [OF assms]
  by (auto simp: call_truthy_def and_then_def split: option.splits sum.splits)

lemma compare_elements_yields:
  assumes "keeps_array call t" and "t < h_next_table h"
  shows "yields (compare_elements call cmpf h a b = None) (compare_elements call cmpf h a b)
     (\<lambda>(h', _). same_array t h h') (\<lambda>(h', _). same_array t h h')"
proof (cases "compare_elements call cmpf h a b")
  case (Some r)
  have "same_array t h h'" if "compare_elements call cmpf h a b = err (h', e)" for h' e
    using that call_truthy_cases(1) [OF assms]
    by (auto simp: compare_elements_def and_then_def of_panic_def split: option.splits)
  moreover have "same_array t h h'" if "compare_elements call cmpf h a b = ok (h', x)" for h' x
    using that call_truthy_cases(2) [OF assms]
    by (auto simp: compare_elements_def and_then_def of_panic_def split: option.splits)
  ultimately show ?thesis using Some by (cases r) (auto simp: yields_def)
qed simp

lemma yields_self:
  assumes "yields (r = None) r Q E" and "r = None \<Longrightarrow> N"
  shows "yields N r Q (\<lambda>e. E e \<and> r = err e)"
  using assms by (auto simp: yields_def split: option.split sum.split)

text \<open>The state of such a sort: any heap in which the table has an array of the right length.\<close>

definition array_state :: "callback \<Rightarrow> addr \<Rightarrow> nat \<Rightarrow> heap \<Rightarrow> bool" where
  "array_state call t n h \<longleftrightarrow> keeps_array call t \<and> t < h_next_table h \<and> n < 2 ^ 31 \<and> length (array_of h t) = n"

lemma same_array_state:
  "same_array t h h' \<Longrightarrow> array_state call t n h \<Longrightarrow> array_state call t n h' \<and> array_cell t h' = array_cell t h"
  by (auto simp: array_cell_def fun_eq_iff array_state_def same_array_def)

interpretation table_permute: array_permute "sort_less call t cmpf" "sort_swap t" invalid_order
    "array_state call t n" "array_cell t" n fst
    "\<lambda>e. snd e = InvalidOrder \<or> (\<exists>h a b. compare_elements call cmpf h a b = err e)"
    "\<exists>h a b. compare_elements call cmpf h a b = None"
  for call t cmpf n
proof (unfold_locales, goal_cases)
  case (1 h)
  then show ?case by (simp add: array_state_def)
next
  case (2 h x y)
  then have keeps: "keeps_array call t" "t < h_next_table h" and n: "n < 2 ^ 31" "length (array_of h t) = n"
    by (auto simp: array_state_def)
  have "raw_get h t (int_key (int k)) = Some (array_of h t ! (k - 1))" if "k \<in> {1..n}" for k
    using raw_get_cell [of k h t] that n by auto
  then have less: "sort_less call t cmpf h x y
      = compare_elements call cmpf h (array_of h t ! (x - 1)) (array_of h t ! (y - 1))"
    using 2(2,3) by (simp add: sort_less_def)
  show ?case
    unfolding less
  proof (rule yields_mono [where N = "\<exists>h a b. compare_elements call cmpf h a b = None"])
    let ?r = "compare_elements call cmpf h (array_of h t ! (x - 1)) (array_of h t ! (y - 1))"
    show "yields (\<exists>h a b. compare_elements call cmpf h a b = None) ?r (\<lambda>(h', _). same_array t h h')
      (\<lambda>e. (case e of (h', _) \<Rightarrow> same_array t h h') \<and> ?r = err e)"
      by (rule yields_self [OF compare_elements_yields [OF keeps]]) (intro exI)
  next
    fix s' :: "heap \<times> bool"
    assume "case s' of (h', _) \<Rightarrow> same_array t h h'"
    then show "case s' of (s', _) \<Rightarrow> array_state call t n s' \<and> array_cell t s' = array_cell t h"
      using same_array_state [OF _ 2(1)] unfolding split_beta by blast
  next
    fix e
    assume "(case e of (h', _) \<Rightarrow> same_array t h h') \<and>
      compare_elements call cmpf h (array_of h t ! (x - 1)) (array_of h t ! (y - 1)) = err e"
    then show "(snd e = InvalidOrder \<or> (\<exists>h a b. compare_elements call cmpf h a b = err e))
        \<and> array_state call t n (fst e) \<and> array_cell t (fst e) = array_cell t h"
      using same_array_state [OF _ 2(1)] unfolding split_beta by blast
  qed
next
  case (3 h x y)
  then have n: "n < 2 ^ 31" "length (array_of h t) = n" by (auto simp: array_state_def)
  have g: "raw_get h t (int_key (int k)) = Some (array_of h t ! (k - 1))" if "k \<in> {1..n}" for k
    using raw_get_cell [of k h t] that n by auto
  have s: "raw_set (with_array h t ys) t (int_key (int k)) v = Some (with_array h t (ys[k - 1 := v]))"
    if "k \<in> {1..n}" "length ys = n" for k ys v
    using raw_set_cell [of k "with_array h t ys" t v] that n by (auto simp: max_vec_len_def)
  have s0: "raw_set h t (int_key (int x)) v = Some (with_array h t ((array_of h t)[x - 1 := v]))" for v
    using raw_set_cell [of x h t v] 3(2) n by (auto simp: max_vec_len_def)
  let ?ys = "(array_of h t)[x - 1 := array_of h t ! (y - 1), y - 1 := array_of h t ! (x - 1)]"
  have "sort_swap t h x y = Some (with_array h t ?ys)"
    using g 3(2,3) s s0 n(2) by (simp add: sort_swap_def)
  moreover have "array_state call t n (with_array h t ?ys)" using 3(1) by (simp add: array_state_def)
  moreover have "array_cell t (with_array h t ?ys) = exchange x y (array_cell t h)"
    using 3(2,3) n by (auto simp: array_cell_def exchange_def nth_list_update fun_eq_iff)
  ultimately show ?case by blast
next
  case (4 h)
  then show ?case by (simp add: invalid_order_def)
qed

end
