(* ===== verification/TableLibProps.thy ===== *)
theory TableLibProps
  imports TableLibLemmas TableProps Handlers
begin

text \<open>The properties of the table library.\<close>

section \<open>Sorting\<close>

text \<open>What a call of \<open>sort\<close> does, for a comparator that decides the elements without touching the heap.\<close>

lemma lua_sort_runs:
  assumes "length (array_of h t) < 2 ^ 31 - 1" and "sort_comparator c = ok cmpf"
    and "decides call cmpf (set (array_of h t)) lt" and "2 \<le> length (array_of h t)"
  shows "runs (lua_sort call h [VTable t, c])
    (\<lambda>(h', rs). rs = [] \<and> (\<exists>ys. h' = with_array h t ys \<and> mset ys = mset (array_of h t)
       \<and> (strict_weak (set (array_of h t)) lt \<longrightarrow> sorted_wrt (\<lambda>a b. \<not> lt b a) ys)))
    (\<lambda>e. \<not> strict_weak (set (array_of h t)) lt
       \<and> (\<exists>ys. e = (with_array h t ys, InvalidOrder) \<and> mset ys = mset (array_of h t)))"
proof -
  let ?xs = "array_of h t" and ?n = "length (array_of h t)"
  let ?inv = "sort_state call cmpf (set ?xs) lt t ?n h"
  have inv: "?inv h" using assms(1,3) unfolding sort_state_def by (auto intro!: exI [of _ ?xs])
  have arr: "\<exists>ys. h' = with_array h t ys \<and> map (array_cell t h') [1..<Suc ?n] = ys" if "?inv h'" for h'
  proof -
    obtain ys where ys: "h' = with_array h t ys" "length ys = ?n" using \<open>?inv h'\<close> by (auto simp: sort_state_def)
    then show ?thesis using map_array_cell [of t h'] by auto
  qed
  have m0: "map (array_cell t h) [1..<Suc ?n] = ?xs" by (rule map_array_cell)
  have eq: "lua_sort call h [VTable t, c]
      = and_then (sort_run (sort_less call t cmpf) (sort_swap t) invalid_order [(1, ?n)] h) (\<lambda>h. ok (h, []))"
    using assms by (simp add: lua_sort_def check_table_def ok_or_def)
  have "runs (sort_run (sort_less call t cmpf) (sort_swap t) invalid_order [(1, ?n)] h)
    (\<lambda>h'. \<exists>ys. h' = with_array h t ys \<and> mset ys = mset ?xs
       \<and> (strict_weak (set ?xs) lt \<longrightarrow> sorted_wrt (\<lambda>a b. \<not> lt b a) ys))
    (\<lambda>e. \<not> strict_weak (set ?xs) lt \<and> (\<exists>ys. e = (with_array h t ys, InvalidOrder) \<and> mset ys = mset ?xs))"
  proof (rule runs_mono [OF table_sort.sorts [OF inv]], goal_cases)
    case 1
    then show ?case using assms(4) by simp
  next
    case (2 h')
    then obtain ys where ys: "h' = with_array h t ys" "map (array_cell t h') [1..<Suc ?n] = ys"
      using arr by blast
    have "mset (map (array_cell t h') [1..<Suc ?n]) = mset (map (array_cell t h) [1..<Suc ?n])"
      and "strict_weak (set ?xs) lt \<longrightarrow> sorted_wrt (\<lambda>a b. \<not> lt b a) (map (array_cell t h') [1..<Suc ?n])"
      using 2 by blast+
    then show ?case using ys(1) unfolding ys(2) m0 by blast
  next
    case (3 e)
    then obtain h' where h': "e = invalid_order h'" "?inv h'"
        "mset (map (array_cell t h') [1..<Suc ?n]) = mset (map (array_cell t h) [1..<Suc ?n])"
      and ns: "\<not> strict_weak (set ?xs) lt" by blast
    obtain ys where ys: "h' = with_array h t ys" "map (array_cell t h') [1..<Suc ?n] = ys"
      using arr [OF h'(2)] by blast
    show ?case using h'(1,3) ns ys(1) unfolding ys(2) m0 invalid_order_def by blast
  qed
  then show ?thesis unfolding eq by (rule runs_and_then) auto
qed

lemma sorted_result:
  assumes "length (array_of h t) < 2 ^ 31 - 1" and "sort_comparator c = ok cmpf"
    and "decides call cmpf (set (array_of h t)) lt" and "strict_weak (set (array_of h t)) lt"
  shows "\<exists>ys. lua_sort call h [VTable t, c] = ok (with_array h t ys, [])
    \<and> mset ys = mset (array_of h t) \<and> sorted_wrt (\<lambda>a b. \<not> lt b a) ys"
proof (cases "2 \<le> length (array_of h t)")
  case True
  from lua_sort_runs [OF assms(1-3) True] assms(4) show ?thesis
    by (auto simp: runs_def split: option.splits sum.splits)
next
  case False
  then have "length (array_of h t) \<le> 1" by simp
  moreover from this have "sorted_wrt (\<lambda>a b. \<not> lt b a) (array_of h t)"
    by (cases "array_of h t") auto
  ultimately show ?thesis
    by (intro exI [of _ "array_of h t"]) (simp add: lua_sort_def check_table_def ok_or_def Let_def)
qed

text \<open>
  C30. For a comparator (or the default order) that decides the elements of the array and is a strict
  weak order on them, \<open>table.sort\<close> returns, and leaves the same elements in order; nothing but the
  array of the table has changed.
\<close>

theorem sort_sorts:
  assumes "length (array_of h t) < 2 ^ 31 - 1" and "sort_comparator c = ok cmpf"
    and "decides call cmpf (set (array_of h t)) lt" and "strict_weak (set (array_of h t)) lt"
  shows "\<exists>ys. lua_sort call h [VTable t, c] = ok (with_array h t ys, [])
    \<and> mset ys = mset (array_of h t) \<and> sorted_wrt (\<lambda>a b. \<not> lt b a) ys"
  by (rule sorted_result [OF assms])

text \<open>The default order on integers and on strings.\<close>

definition default_lt :: "lua_value \<Rightarrow> lua_value \<Rightarrow> bool" where
  "default_lt a b \<longleftrightarrow> sort_primitive a b = Some True"

lemma bytes_less_connex: "a = b \<or> bytes_less a b \<or> bytes_less b a"
proof (induction a b rule: bytes_less.induct)
  case (1 a)
  then show ?case by (cases a) auto
next
  case (3 x xs y ys)
  then show ?case by (cases "x = y") (auto simp: not_less_iff_gr_or_eq)
qed auto

lemma bytes_less_asym: "bytes_less a b \<Longrightarrow> \<not> bytes_less b a"
  using bytes_less_irrefl bytes_less_trans by blast

lemma default_lt_simps [simp]:
  "default_lt (VInt x) (VInt y) = i64_lt x y" "default_lt (VStr a) (VStr b) = bytes_less a b"
  by (simp_all add: default_lt_def sort_primitive_def)

lemma default_decides:
  assumes "V \<subseteq> range VInt \<or> V \<subseteq> range VStr"
  shows "decides call None V default_lt"
  unfolding decides_def
proof (intro allI ballI)
  fix h a b
  assume "a \<in> V" "b \<in> V"
  then have "(\<exists>x y. a = VInt x \<and> b = VInt y) \<or> (\<exists>x y. a = VStr x \<and> b = VStr y)" using assms by blast
  then show "compare_elements call None h a b = ok (h, default_lt a b)"
    by (auto simp: compare_elements_def sort_primitive_def)
qed

lemma strict_weak_subset: "strict_weak W lt \<Longrightarrow> V \<subseteq> W \<Longrightarrow> strict_weak V lt"
  unfolding strict_weak_def by blast

lemma default_strict_weak:
  assumes "V \<subseteq> range VInt \<or> V \<subseteq> range VStr"
  shows "strict_weak V default_lt"
proof -
  have "strict_weak (range VInt) default_lt"
    by (auto simp: strict_weak_def i64_lt_def)
  moreover have "strict_weak (range VStr) default_lt"
    unfolding strict_weak_def using bytes_less_asym
    by (simp only: ball_simps default_lt_simps) (metis bytes_less_connex bytes_less_trans)
  ultimately show ?thesis using assms strict_weak_subset by blast
qed

text \<open>
  With no comparator, an array of integers or of strings is sorted by \<open><\<close>, whatever the executor
  would do: no call is made.
\<close>

theorem default_sort_sorts:
  assumes "length (array_of h t) < 2 ^ 31 - 1"
    and "set (array_of h t) \<subseteq> range VInt \<or> set (array_of h t) \<subseteq> range VStr"
  shows "\<exists>ys. lua_sort call h [VTable t] = ok (with_array h t ys, [])
    \<and> mset ys = mset (array_of h t) \<and> sorted_wrt (\<lambda>a b. sort_primitive b a \<noteq> Some True) ys"
proof -
  have "arg [VTable t] i = arg [VTable t, VNil] i" for i by (auto simp: arg_def nth_Cons')
  then have "lua_sort call h [VTable t] = lua_sort call h [VTable t, VNil]" by (simp only: lua_sort_def)
  then show ?thesis
    using sorted_result [OF assms(1) _ default_decides [OF assms(2)] default_strict_weak [OF assms(2)], of VNil call]
    by (simp add: sort_comparator_def default_lt_def)
qed

text \<open>
  A comparator that answers and leaves the heap alone, consistent or not: the sort ends without a
  panic; it raises the error of an invalid order function only for a relation that is no strict weak
  order.
\<close>

theorem answered_sort_permutes:
  assumes "length (array_of h t) < 2 ^ 31 - 1" and "sort_comparator c = ok cmpf"
    and "decides call cmpf (set (array_of h t)) lt"
  shows "\<exists>ys. mset ys = mset (array_of h t) \<and> (lua_sort call h [VTable t, c] = ok (with_array h t ys, [])
    \<or> lua_sort call h [VTable t, c] = err (with_array h t ys, InvalidOrder)
      \<and> \<not> strict_weak (set (array_of h t)) lt)"
proof (cases "2 \<le> length (array_of h t)")
  case True
  from lua_sort_runs [OF assms True] show ?thesis
    by (auto simp: runs_def split: option.splits sum.splits)
next
  case False
  then show ?thesis
    by (intro exI [of _ "array_of h t"]) (simp add: lua_sort_def check_table_def ok_or_def Let_def)
qed

text \<open>
  C31. Whatever the comparator does, short of changing the array itself: it may answer without any
  consistency, answer differently for the same elements, change other tables, raise an error at some
  comparison, or panic. \<open>table.sort\<close> ends; when it returns and when it ends with an error, the array
  holds a permutation of what it held; the error is the one of an invalid order function or the one
  some comparison raised; and it panics only if a comparison does.
\<close>

theorem sort_permutes:
  assumes "length (array_of h t) < 2 ^ 31 - 1" and "t < h_next_table h" and "sort_comparator c = ok cmpf"
    and "keeps_array call t"
  shows "case lua_sort call h [VTable t, c] of
      None \<Rightarrow> \<exists>h' a b. compare_elements call cmpf h' a b = None
    | Some (Inl (h', e)) \<Rightarrow> mset (array_of h' t) = mset (array_of h t)
        \<and> (e = InvalidOrder \<or> (\<exists>h1 a b. compare_elements call cmpf h1 a b = err (h', e)))
    | Some (Inr (h', rs)) \<Rightarrow> rs = [] \<and> mset (array_of h' t) = mset (array_of h t)"
proof (cases "2 \<le> length (array_of h t)")
  case True
  let ?n = "length (array_of h t)"
  have st: "array_state call t ?n h" using assms(1,2,4) by (simp add: array_state_def)
  have arr: "map (array_cell t h') [1..<Suc ?n] = array_of h' t" if "array_state call t ?n h'" for h'
    using map_array_cell [of t h'] that by (simp only: array_state_def)
  have eq: "lua_sort call h [VTable t, c]
      = and_then (sort_run (sort_less call t cmpf) (sort_swap t) invalid_order [(1, ?n)] h) (\<lambda>h. ok (h, []))"
    using assms True by (simp add: lua_sort_def check_table_def ok_or_def)
  let ?N = "\<exists>h' a b. compare_elements call cmpf h' a b = None"
    and ?E = "\<lambda>(h', e). mset (array_of h' t) = mset (array_of h t)
        \<and> (e = InvalidOrder \<or> (\<exists>h1 a b. compare_elements call cmpf h1 a b = err (h', e)))"
  have "yields ?N (sort_run (sort_less call t cmpf) (sort_swap t) invalid_order [(1, ?n)] h)
    (\<lambda>h'. mset (array_of h' t) = mset (array_of h t)) ?E"
  proof (rule yields_mono [OF table_permute.permutes [OF st, of cmpf]])
    fix h'
    assume h': "array_state call t ?n h'
      \<and> mset (map (array_cell t h') [1..<Suc ?n]) = mset (map (array_cell t h) [1..<Suc ?n])"
    then show "mset (array_of h' t) = mset (array_of h t)"
      using arr [of h'] arr [OF st] by (simp only:)
  next
    fix e
    assume e: "(snd e = InvalidOrder \<or> (\<exists>h a b. compare_elements call cmpf h a b = err e))
      \<and> array_state call t ?n (fst e)
      \<and> mset (map (array_cell t (fst e)) [1..<Suc ?n]) = mset (map (array_cell t h) [1..<Suc ?n])"
    then have "mset (array_of (fst e) t) = mset (array_of h t)"
      using arr [of "fst e"] arr [OF st] by (simp only:)
    then show "?E e" using e by (cases e) auto
  qed
  then have "yields ?N (lua_sort call h [VTable t, c])
    (\<lambda>(h', rs). rs = [] \<and> mset (array_of h' t) = mset (array_of h t)) ?E"
    unfolding eq by (rule yields_and_then) simp
  then show ?thesis by (simp add: yields_def)
next
  case False
  then show ?thesis by (simp add: lua_sort_def check_table_def ok_or_def Let_def)
qed

text \<open>A heap whose only table is an array, for the witnesses.\<close>

abbreviation sample :: "lua_value list \<Rightarrow> heap" where
  "sample xs \<equiv> with_array (fst lua_new) 0 xs"

lemma default_sort_sorts_witness:
  "\<exists>ys. lua_sort (\<lambda>h f args. None) (sample [VInt 3, VInt 1, VInt 2]) [VTable 0] = ok (sample ys, [])
    \<and> mset ys = mset [VInt 3, VInt 1, VInt 2] \<and> sorted_wrt (\<lambda>a b. sort_primitive b a \<noteq> Some True) ys"
  using default_sort_sorts [of "sample [VInt 3, VInt 1, VInt 2]" 0] by auto

text \<open>A comparator that orders integers downwards, and one that always says yes.\<close>

definition downwards :: callback where
  "downwards h f args = ok (h, [VBool (default_lt (arg args 1) (arg args 0))])"

definition always :: callback where
  "always h f args = ok (h, [VBool True])"

lemma downwards_decides: "decides downwards (Some f) V (\<lambda>a b. default_lt b a)"
  by (simp add: decides_def compare_elements_def call_truthy_def downwards_def is_falsy_iff)

lemma always_decides: "decides always (Some f) V (\<lambda>a b. True)"
  by (simp add: decides_def compare_elements_def call_truthy_def always_def is_falsy_iff)

lemma sort_sorts_witness:
  "\<exists>ys. lua_sort downwards (sample [VInt 3, VInt 1, VInt 2]) [VTable 0, VFunc 5] = ok (sample ys, [])
    \<and> mset ys = mset [VInt 3, VInt 1, VInt 2] \<and> sorted_wrt (\<lambda>a b. \<not> default_lt b a) (rev ys)"
proof -
  have "strict_weak {VInt 3, VInt 1, VInt 2} (\<lambda>a b. default_lt b a)"
    by (auto simp: strict_weak_def i64_lt_def)
  then show ?thesis
    using sort_sorts [of "sample [VInt 3, VInt 1, VInt 2]" 0 "VFunc 5" "Some 5", OF _ _ downwards_decides]
    by (simp add: sort_comparator_def sorted_wrt_rev)
qed

lemma answered_sort_permutes_witness:
  "\<exists>ys. mset ys = mset [VInt 3, VInt 1]
    \<and> (lua_sort always (sample [VInt 3, VInt 1]) [VTable 0, VFunc 5] = ok (sample ys, [])
       \<or> lua_sort always (sample [VInt 3, VInt 1]) [VTable 0, VFunc 5] = err (sample ys, InvalidOrder))"
  using answered_sort_permutes [of "sample [VInt 3, VInt 1]" 0 "VFunc 5" "Some 5", OF _ _ always_decides]
  by (auto simp: sort_comparator_def)

text \<open>One that raises an error when it is asked about 3, after it allocated a table.\<close>

definition quits :: callback where
  "quits h f args = (if arg args 0 = VInt 3 then err (fst (table_new h), TooManyResults) else ok (h, [VBool True]))"

lemma quits_keeps: "keeps_array quits t"
  by (auto simp: keeps_array_def quits_def same_array_def array_of_def table_new_def Let_def)

lemma sort_permutes_witness:
  "case lua_sort quits (sample [VInt 1, VInt 3, VInt 2]) [VTable 0, VFunc 5] of
     None \<Rightarrow> False
   | Some (Inl (h', e)) \<Rightarrow> mset (array_of h' 0) = mset [VInt 1, VInt 3, VInt 2]
   | Some (Inr (h', rs)) \<Rightarrow> mset (array_of h' 0) = mset [VInt 1, VInt 3, VInt 2]"
proof -
  note quits_keeps
  moreover have "0 < h_next_table (sample [VInt 1, VInt 3, VInt 2])" using fresh(3) by simp
  moreover have "compare_elements quits (Some 5) h a b \<noteq> None" for h a b
    by (simp add: compare_elements_def call_truthy_def quits_def)
  ultimately show ?thesis
    using sort_permutes [of "sample [VInt 1, VInt 3, VInt 2]" 0 "VFunc 5" "Some 5" quits]
    by (auto simp: sort_comparator_def split: option.splits sum.splits prod.splits) (metis not_None_eq)
qed

text \<open>
  The order \<open>table.sort\<close> uses without a comparator is the one of the \<open><\<close> instruction: the same
  primitive comparisons, and for other operands the same handler.
\<close>

theorem sort_order_is_lt:
  "sort_primitive = lt_primitive \<and> lt_metamethod h a b = binop_metamethod h a b (ascii ''__lt'')"
proof
  show "sort_primitive = lt_primitive" by (simp add: fun_eq_iff sort_primitive_def lt_primitive_def)
  show "lt_metamethod h a b = binop_metamethod h a b (ascii ''__lt'')"
    by (simp add: lt_metamethod_def binop_metamethod_def)
qed

section \<open>Insertion and removal\<close>

text \<open>
  C34. \<open>table.insert(t, pos, v)\<close> with \<open>1 \<le> pos \<le> #t + 1\<close> puts \<open>v\<close> before the element at \<open>pos\<close>, and
  without a position appends it; the rest of the heap is as it was.
\<close>

theorem insert_inserts:
  assumes "length (array_of h t) < max_vec_len" and "1 \<le> pos" and "pos \<le> length (array_of h t) + 1"
  shows "lua_insert fpowi h [VTable t, int_key (int pos), v]
      = ok (with_array h t (take (pos - 1) (array_of h t) @ v # drop (pos - 1) (array_of h t)), [])
    \<and> lua_insert fpowi h [VTable t, v] = ok (with_array h t (array_of h t @ [v]), [])"
proof -
  let ?n = "length (array_of h t)"
  have s: "sint (word_of_int (int pos) :: i64) = int pos"
    using assms by (intro sint_of_int_i64) (auto simp: max_vec_len_def)
  obtain h1 where h1: "insert_loop t (int pos) (int ?n) h = Some h1"
    "raw_set h1 t (int_key (int pos)) v
      = Some (with_array h t (take (pos - 1) (array_of h t) @ v # drop (pos - 1) (array_of h t)))"
    using insert_array [OF assms(2,3) refl, of v] assms(1) by auto
  have "raw_set h t (int_key (int ?n + 1)) v = Some (with_array h t (array_of h t @ [v]))"
    using raw_set_append [of "?n + 1" h t v] assms(1) by (simp add: add.commute)
  then show ?thesis using h1 s assms(2,3)
    by (simp add: lua_insert_def check_table_def ok_or_def Let_def)
qed

lemma insert_inserts_witness:
  "lua_insert (\<lambda>b k. b) (sample [VInt 3, VInt 1]) [VTable 0, int_key (int 2), VInt 7]
     = ok (sample [VInt 3, VInt 7, VInt 1], [])"
  using insert_inserts [of "sample [VInt 3, VInt 1]" 0 2 "\<lambda>b k. b" "VInt 7"] by (simp add: max_vec_len_def)

text \<open>
  \<open>table.remove(t, pos)\<close> with \<open>1 \<le> pos \<le> #t\<close> returns the element at \<open>pos\<close> and shifts the later ones
  down, but the array keeps its length: its last element becomes nil and still counts, so \<open>#t\<close> does not
  decrease.
\<close>

theorem remove_keeps_length:
  assumes "length (array_of h t) \<le> max_vec_len" and "1 \<le> pos" and "pos \<le> length (array_of h t)"
  shows "\<exists>h'. lua_remove fpowi h [VTable t, int_key (int pos)] = ok (h', [array_of h t ! (pos - 1)])
    \<and> h' = with_array h t (take (pos - 1) (array_of h t) @ drop pos (array_of h t) @ [VNil])
    \<and> raw_len h' t = raw_len h t"
proof -
  let ?n = "length (array_of h t)"
  have s: "sint (word_of_int (int pos) :: i64) = int pos"
    using assms by (intro sint_of_int_i64) (auto simp: max_vec_len_def)
  have g: "raw_get h t (int_key (int pos)) = Some (array_of h t ! (pos - 1))"
    using assms by (intro raw_get_cell) (auto simp: max_vec_len_def)
  obtain h1 where "remove_loop t (int ?n) (int pos) h = Some h1"
    "raw_set h1 t (int_key (int ?n)) VNil
      = Some (with_array h t (take (pos - 1) (array_of h t) @ drop pos (array_of h t) @ [VNil]))"
    using remove_array [OF assms(2,3) refl assms(1)] by auto
  moreover have "max (int pos) (int ?n) = int ?n" using assms(3) by simp
  ultimately show ?thesis using s g assms(2,3)
    by (simp add: lua_remove_def check_table_def ok_or_def Let_def)
qed

lemma remove_keeps_length_witness:
  "\<exists>h'. lua_remove (\<lambda>b k. b) (sample [VInt 3, VInt 1]) [VTable 0, int_key (int 1)] = ok (h', [VInt 3])
    \<and> h' = sample [VInt 1, VNil] \<and> raw_len h' 0 = 2"
  using remove_keeps_length [of "sample [VInt 3, VInt 1]" 0 1 "\<lambda>b k. b"] by (simp add: max_vec_len_def)

section \<open>Packing and unpacking\<close>

text \<open>A write of a string key leaves every array part alone.\<close>

lemma array_of_bit [simp]: "array_of (maybe_update_mt_bit h t k v) u = array_of h u"
  using maybe_update_frame [of h t k v] by (simp add: array_of_def)

lemma array_of_upd: "(\<And>ts. ts_array (f ts) = ts_array ts) \<Longrightarrow> array_of (upd_table h t f) u = array_of h u"
  by (simp add: array_of_def)

lemma array_of_dict: "set_string_key_dict h t k v = Some h' \<Longrightarrow> array_of h' u = array_of h u"
  by (auto simp: set_string_key_dict_def array_of_upd split: option.splits)

lemma array_of_shapes: "h_tables h' = h_tables h \<Longrightarrow> array_of h' = array_of h"
  by (simp add: array_of_def fun_eq_iff)

lemma array_of_migrate:
  assumes "migrate_to_dict h t = Some h'"
  shows "array_of h' u = array_of h u"
proof -
  have "h_tables (fst (ensure_dict_sentinel h c)) = h_tables h" for c
    by (simp add: ensure_dict_sentinel_def dict_sentinel_def alloc_shape_def upd_mt_def Let_def split: option.split)
  then show ?thesis using assms
    by (auto simp: migrate_to_dict_def Let_def array_of_upd array_of_def split: option.splits prod.splits)
      (metis fst_conv)+
qed

lemma array_of_add_prop:
  "transition_add_prop h s k = (h1, s1) \<Longrightarrow> array_of h1 u = array_of h u"
  by (auto simp: array_of_def transition_add_prop_def alloc_shape_def upd_shape_def Let_def
      split: option.splits)

lemma array_of_string_set:
  assumes "raw_set h t (VStr k) v = Some h'"
  shows "array_of h' u = array_of h u"
proof -
  have s: "set_string_key h t k v = Some h'" using assms by (simp add: raw_set_def)
  have m: "array_of h' u = array_of h u"
    if "Option.bind (migrate_to_dict h t) (\<lambda>h1. set_string_key_dict h1 t k v) = Some h'"
    using that array_of_dict array_of_migrate by (fastforce simp: bind_eq_Some_conv)
  show ?thesis
  proof (cases "ts_dict (h_tables h t)")
    case (Some d)
    then show ?thesis using s array_of_dict by (simp add: set_string_key_def Let_def)
  next
    case None
    show ?thesis
    proof (cases "find_slot h (ts_shape (h_tables h t)) k")
      case (Some slot)
      show ?thesis
      proof (cases "is_nil v")
        case True
        then show ?thesis using m s None Some by (simp add: set_string_key_def Let_def)
      next
        case False
        then show ?thesis using s None Some
          by (auto simp: set_string_key_def Let_def bind_eq_Some_conv array_of_upd simp del: is_nil_iff)
      qed
    next
      case no: None
      obtain h1 s1 where t: "transition_add_prop h (ts_shape (h_tables h t)) k = (h1, s1)" by force
      show ?thesis
      proof (cases "max_properties_fast \<le> sd_slot_count (h_shapes h (ts_shape (h_tables h t)))")
        case True
        then show ?thesis using m s None no by (simp add: set_string_key_def Let_def)
      next
        case False
        then have "h' = maybe_update_mt_bit (upd_table h1 t (\<lambda>ts. ts\<lparr>ts_shape := s1,
            ts_properties := ts_properties ts @ [v]\<rparr>)) t (VStr k) v"
          using s None no by (simp add: set_string_key_def Let_def t)
        then show ?thesis using array_of_add_prop [OF t] by (simp add: array_of_upd)
      qed
    qed
  qed
qed

text \<open>Consecutive writes from the end of the array append.\<close>

lemma set_sequence_append:
  assumes "length (array_of h t) + length vs \<le> max_vec_len"
  shows "set_sequence h t (int (length (array_of h t)) + 1) vs = Some (with_array h t (array_of h t @ vs))"
  using assms
proof (induction vs arbitrary: h)
  case (Cons v vs)
  have "raw_set h t (int_key (int (length (array_of h t)) + 1)) v = Some (with_array h t (array_of h t @ [v]))"
    using raw_set_append [of "length (array_of h t) + 1" h t v] Cons.prems by (simp add: add.commute)
  then show ?case using Cons.IH [of "with_array h t (array_of h t @ [v])"] Cons.prems
    by (simp add: add.commute)
qed simp

lemma unpack_loop_array:
  assumes "i < length (array_of h t)" and "length (array_of h t) < 2 ^ 63"
  shows "unpack_loop h t (int i + 1) (int (length (array_of h t))) out = Some (out @ drop i (array_of h t))"
  using assms(1)
proof (induction "length (array_of h t) - i" arbitrary: i out rule: less_induct)
  case less
  have g: "raw_get h t (int_key (int i + 1)) = Some (array_of h t ! i)"
    using raw_get_cell [of "i + 1" h t] less.prems assms(2) by (simp add: add.commute)
  have d: "drop i (array_of h t) = array_of h t ! i # drop (i + 1) (array_of h t)"
    using less.prems by (simp add: Cons_nth_drop_Suc)
  show ?case
  proof (cases "i + 1 < length (array_of h t)")
    case True
    then show ?thesis using less.hyps [of "i + 1" "out @ [array_of h t ! i]"] g d
      by (subst unpack_loop.simps) (simp add: add.commute)
  next
    case False
    then show ?thesis using g d by (subst unpack_loop.simps) simp
  qed
qed

text \<open>
  C35. \<open>table.unpack(table.pack(...))\<close> gives back the arguments, nils among and after them included,
  as long as their count is below the limit of \<open>unpack\<close>.
\<close>

theorem unpack_pack:
  assumes "heap_inv h" and "length args < 2 ^ 31"
  shows "\<exists>h' t. lua_pack h args = ok (h', [VTable t]) \<and> lua_unpack fpowi h' [VTable t] = ok (h', args)"
proof -
  obtain h0 t where n: "table_new h = (h0, t)" by force
  have new: "heap_inv h0" "t < h_next_table h0" and arr: "array_of h0 t = []"
    using table_new_spec(1-3) [OF assms(1) n] n by (auto simp: table_new_def Let_def array_of_def new_table_state_def)
  have len: "length args \<le> max_vec_len" using assms(2) by (simp add: max_vec_len_def)
  let ?h1 = "with_array h0 t args"
  have seq: "set_sequence h0 t 1 args = Some ?h1"
    using set_sequence_append [of h0 t args] arr len by simp
  have "(1 :: int) \<le> 1" "1 + int (length args) - 1 \<le> int max_vec_len" using len by simp_all
  then obtain h1 where "set_sequence h0 t 1 args = Some h1" "heap_inv h1" "h_next_table h1 = h_next_table h0"
    by (rule set_sequence_spec [OF new])
  then have "heap_inv ?h1 \<and> t < h_next_table ?h1" using seq new(2) by simp
  then obtain h2 where h2: "raw_set ?h1 t (VStr (ascii ''n'')) (VInt (word_of_nat (length args))) = Some h2"
    using raw_set_spec [of ?h1 t "VStr (ascii ''n'')"] by (auto simp: settable_def array_index_def)
  have arr2: "array_of h2 t = args" using array_of_string_set [OF h2, of t] by simp
  have p: "lua_pack h args = ok (h2, [VTable t])" by (simp add: lua_pack_def n seq h2)
  have two: "arg [VTable t] 2 = VNil" by (simp add: arg_def)
  have "lua_unpack fpowi h2 [VTable t] = ok (h2, args)"
  proof (cases args)
    case Nil
    then show ?thesis using arr2 by (simp add: lua_unpack_def check_table_def ok_or_def two)
  next
    case (Cons a as)
    have "unpack_loop h2 t 1 (int (length args)) [] = Some args"
      using unpack_loop_array [of 0 h2 t "[]"] arr2 Cons assms(2) by simp
    moreover have "(int (length args) - 1) mod 2 ^ 64 < 2 ^ 31 - 1" using assms(2) Cons by simp
    ultimately show ?thesis using arr2 Cons
      by (simp add: lua_unpack_def check_table_def ok_or_def two)
  qed
  then show ?thesis using p by blast
qed

lemma unpack_pack_witness:
  "\<exists>h' t. lua_pack (fst lua_new) [VInt 1, VNil] = ok (h', [VTable t])
    \<and> lua_unpack (\<lambda>b k. b) h' [VTable t] = ok (h', [VInt 1, VNil])"
  using unpack_pack [OF fresh(1), of "[VInt 1, VNil]"] by simp

section \<open>Moving\<close>

text \<open>The element at an integer position, whichever part of the table holds it.\<close>

definition at :: "heap \<Rightarrow> addr \<Rightarrow> int \<Rightarrow> lua_value" where
  "at h t k = contents h t (key_class (int_key k))"

abbreviation int_range :: "int set" where "int_range \<equiv> {i64_min..i64_max}"

lemma int_key_inj: "j \<in> int_range \<Longrightarrow> k \<in> int_range \<Longrightarrow> key_class (int_key j) = key_class (int_key k) \<longleftrightarrow> j = k"
proof -
  assume "j \<in> int_range" "k \<in> int_range"
  then have s: "sint (word_of_int j :: i64) = j" "sint (word_of_int k :: i64) = k"
    by (auto intro!: sint_of_int_i64)
  have "(word_of_int j :: i64) = word_of_int k \<longleftrightarrow> j = k" using s by metis
  then show ?thesis using s by (auto simp: key_class_VInt)
qed

lemma copy_cell_at:
  assumes inv: "heap_inv h" and a: "a < h_next_table h" and b: "b < h_next_table h"
    and dst: "dst \<in> int_range" "dst \<le> int max_vec_len"
  obtains h' where "copy_cell h a src b dst = Some h'" and "heap_inv h'" and "h_next_table h' = h_next_table h"
    and "\<And>u k. u < h_next_table h \<Longrightarrow> k \<in> int_range \<Longrightarrow> at h' u k = (if u = b \<and> k = dst then at h a src else at h u k)"
proof -
  have "sint (word_of_int dst :: i64) = dst" using dst(1) by (intro sint_of_int_i64) auto
  then have "settable h b (int_key dst)" using dst(2) by (auto simp: settable_def array_index_def)
  from raw_set_spec [OF inv b this, of "at h a src"] obtain h' where
    h': "raw_set h b (int_key dst) (at h a src) = Some h'" "write_spec h b (key_class (int_key dst)) (at h a src) h'"
    by blast
  have c: "copy_cell h a src b dst = Some h'"
    using h'(1) raw_get_contents [OF inv a] by (simp add: copy_cell_def at_def)
  have "at h' u k = (if u = b \<and> k = dst then at h a src else at h u k)"
    if "u < h_next_table h" "k \<in> int_range" for u k
    using h'(2) that int_key_inj [OF that(2) dst(1)] by (auto simp: write_spec_def at_def)
  then show ?thesis using that c h'(2) by (auto simp: write_spec_def)
qed

text \<open>After the copies of the offsets in \<open>D\<close>.\<close>

definition moved :: "heap \<Rightarrow> addr \<Rightarrow> int \<Rightarrow> addr \<Rightarrow> int \<Rightarrow> int set \<Rightarrow> heap \<Rightarrow> bool" where
  "moved h0 a f b t D h \<longleftrightarrow> heap_inv h \<and> h_next_table h = h_next_table h0
     \<and> (\<forall>u < h_next_table h0. \<forall>k \<in> int_range.
          at h u k = (if u = b \<and> k - t \<in> D then at h0 a (f + (k - t)) else at h0 u k))"

lemma moved_step:
  assumes m: "moved h0 a f b t D h" and tabs: "a < h_next_table h0" "b < h_next_table h0"
    and rng: "f + i \<in> int_range" "t + i \<in> int_range" "t + i \<le> int max_vec_len"
    and fresh: "a = b \<longrightarrow> f + i - t \<notin> D"
  obtains h' where "copy_cell h a (f + i) b (t + i) = Some h'" and "moved h0 a f b t (insert i D) h'"
proof -
  have h: "heap_inv h" "h_next_table h = h_next_table h0" using m by (auto simp: moved_def)
  obtain h' where c: "copy_cell h a (f + i) b (t + i) = Some h'" "heap_inv h'" "h_next_table h' = h_next_table h"
    and l: "\<And>u k. u < h_next_table h \<Longrightarrow> k \<in> int_range \<Longrightarrow> at h' u k = (if u = b \<and> k = t + i then at h a (f + i) else at h u k)"
    using copy_cell_at [OF h(1), of a b "t + i" "f + i"] tabs rng(2,3) h(2) by auto
  have src: "at h a (f + i) = at h0 a (f + i)"
    using m tabs(1) rng(1) fresh by (auto simp: moved_def)
  have "at h' u k = (if u = b \<and> k - t \<in> insert i D then at h0 a (f + (k - t)) else at h0 u k)"
    if "u < h_next_table h0" "k \<in> int_range" for u k
    using l [of u k] that m h(2) src by (auto simp: moved_def)
  then show ?thesis using that c h by (auto simp: moved_def)
qed

lemma move_up_moves:
  assumes "moved h0 a f b t {0..<i} h" and "0 \<le> i" and "i \<le> n"
    and tabs: "a < h_next_table h0" "b < h_next_table h0"
    and rng: "\<And>k. 0 \<le> k \<Longrightarrow> k < n \<Longrightarrow> f + k \<in> int_range \<and> t + k \<in> int_range \<and> t + k \<le> int max_vec_len"
    and dir: "a = b \<longrightarrow> t \<le> f \<or> f + n \<le> t"
  shows "\<exists>h'. move_upwards a f b t n i h = Some h' \<and> moved h0 a f b t {0..<n} h'"
  using assms(1-3)
proof (induction "nat (n - i)" arbitrary: i h rule: less_induct)
  case less
  show ?case
  proof (cases "i < n")
    case True
    have "a = b \<longrightarrow> f + i - t \<notin> {0..<i}" using dir True by auto
    then obtain h' where h': "copy_cell h a (f + i) b (t + i) = Some h'" "moved h0 a f b t (insert i {0..<i}) h'"
      using moved_step [OF less.prems(1) tabs] rng less.prems(2) True by metis
    have "insert i {0..<i} = {0..<i + 1}" using less.prems(2) by auto
    then show ?thesis using less.hyps [of "i + 1" h'] h' True less.prems(2) by (simp add: move_upwards.simps)
  next
    case False
    then show ?thesis using less.prems by (simp add: move_upwards.simps)
  qed
qed

lemma move_down_moves:
  assumes "moved h0 a f b t {int i<..<n} h" and "int i < n"
    and tabs: "a < h_next_table h0" "b < h_next_table h0"
    and rng: "\<And>k. 0 \<le> k \<Longrightarrow> k < n \<Longrightarrow> f + k \<in> int_range \<and> t + k \<in> int_range \<and> t + k \<le> int max_vec_len"
    and dir: "f < t"
  shows "\<exists>h'. move_downwards a f b t i h = Some h' \<and> moved h0 a f b t {0..<n} h'"
  using assms(1,2)
proof (induction i arbitrary: h)
  case 0
  obtain h' where h': "copy_cell h a (f + 0) b (t + 0) = Some h'" "moved h0 a f b t (insert 0 {int 0<..<n}) h'"
    by (rule moved_step [OF 0(1) tabs, of 0]) (use rng [of 0] 0(2) dir in auto)
  moreover have "insert 0 {int 0<..<n} = {0..<n}" using 0(2) by auto
  ultimately show ?case by (simp add: move_downwards.simps)
next
  case (Suc i)
  obtain h' where h': "copy_cell h a (f + int (Suc i)) b (t + int (Suc i)) = Some h'"
      "moved h0 a f b t (insert (int (Suc i)) {int (Suc i)<..<n}) h'"
    by (rule moved_step [OF Suc.prems(1) tabs, of "int (Suc i)"]) (use rng [of "int (Suc i)"] Suc.prems(2) dir in auto)
  moreover have "insert (int (Suc i)) {int (Suc i)<..<n} = {int i<..<n}" using Suc.prems(2) by auto
  ultimately show ?case using Suc.IH [of h'] Suc.prems(2) by (subst move_downwards.simps) simp
qed

text \<open>
  C36. \<open>table.move(a1, f, e, t, a2)\<close> copies \<open>a1[f..e]\<close> onto \<open>a2[t..]\<close> as if all the reads came before the
  writes, for any overlap of the two ranges in one table, and changes nothing else; no intermediate
  index overflows.
\<close>

theorem move_copies:
  assumes "heap_inv h" and "a1 < h_next_table h" and "a2 < h_next_table h"
    and "f \<in> int_range" "e \<in> int_range" "t \<in> int_range" and "f \<le> e" and "0 < f \<or> e < i64_max + f"
    and "t + (e - f) \<le> int max_vec_len"
  shows "\<exists>h'. lua_move fpowi h [VTable a1, int_key f, int_key e, int_key t, VTable a2] = ok (h', [VTable a2])
    \<and> (\<forall>u < h_next_table h. \<forall>k \<in> int_range.
         at h' u k = (if u = a2 \<and> t \<le> k \<and> k \<le> t + (e - f) then at h a1 (f + (k - t)) else at h u k))"
proof -
  let ?n = "e - f + 1"
  have s: "sint (word_of_int f :: i64) = f" "sint (word_of_int e :: i64) = e" "sint (word_of_int t :: i64) = t"
    using assms(4-6) by (auto intro!: sint_of_int_i64)
  have rng: "f + k \<in> int_range \<and> t + k \<in> int_range \<and> t + k \<le> int max_vec_len" if "0 \<le> k" "k < ?n" for k
    using that assms(4-7,9) by (auto simp: max_vec_len_def)
  have m0: "moved h a1 f a2 t {} h" using assms(1) by (simp add: moved_def)
  define dir where "dir = (e < t \<or> t \<le> f \<or> a1 \<noteq> a2)"
  obtain h' where run: "(if dir then move_upwards a1 f a2 t ?n 0 h else move_downwards a1 f a2 t (nat (?n - 1)) h) = Some h'"
    and m: "moved h a1 f a2 t {0..<?n} h'"
  proof (cases dir)
    case True
    then show ?thesis using that move_up_moves [of h a1 f a2 t 0 h ?n] m0 assms(2,3,7) rng
      by (auto simp: dir_def)
  next
    case False
    have "{int (nat (?n - 1))<..<?n} = {}" using assms(7) by auto
    then show ?thesis using that False move_down_moves [of h a1 f a2 t "nat (?n - 1)" ?n h] m0 assms(2,3,7) rng
      by (auto simp: dir_def)
  qed
  have "\<not> i64_max - ?n + 1 < t" using assms(9) by (simp add: max_vec_len_def)
  then have "lua_move fpowi h [VTable a1, int_key f, int_key e, int_key t, VTable a2] = ok (h', [VTable a2])"
    using assms(7,8) run s
    by (cases dir) (auto simp: lua_move_def check_table_def ok_or_def Let_def dir_def arg_def)
  moreover have "k - t \<in> {0..<?n} \<longleftrightarrow> t \<le> k \<and> k \<le> t + (e - f)" for k by auto
  note m [unfolded moved_def this]
  ultimately show ?thesis by blast
qed

lemma move_copies_witness:
  "\<exists>h'. lua_move (\<lambda>b k. b) (fst lua_new) [VTable 0, int_key 1, int_key 3, int_key 2, VTable 0] = ok (h', [VTable 0])
    \<and> (\<forall>u < 1. \<forall>k \<in> int_range.
         at h' u k = (if u = 0 \<and> 2 \<le> k \<and> k \<le> 4 then at (fst lua_new) 0 (1 + (k - 2)) else at (fst lua_new) u k))"
  using move_copies [OF fresh(1), of 0 0 1 3 2 "\<lambda>b k. b"] fresh(3) by (simp add: max_vec_len_def)

section \<open>Joining\<close>

text \<open>The strings of a list with \<open>sep\<close> between them.\<close>

fun joined :: "bytes \<Rightarrow> bytes list \<Rightarrow> bytes" where
  "joined sep [] = []"
| "joined sep [b] = b"
| "joined sep (b # c # bs) = b @ sep @ joined sep (c # bs)"

lemma concat_loop_joined:
  assumes "array_of h t = map VStr bs" and "i \<le> length bs" and "length bs < 2 ^ 59"
  shows "concat_loop h t sep (int i + 1) (int (length bs)) out = ok (out @ joined sep (drop i bs))"
  using assms(2)
proof (induction "length bs - i" arbitrary: i out rule: less_induct)
  case less
  show ?case
  proof (cases "i < length bs")
    case False
    then show ?thesis using less.prems by (subst concat_loop.simps) simp
  next
    case True
    have "raw_get h t (int_key (int i + 1)) = Some (VStr (bs ! i))"
      using raw_get_cell [of "i + 1" h t] True assms by (simp add: add.commute)
    then have l: "concat_loop h t sep (int i + 1) (int (length bs)) out
      = concat_loop h t sep (int (i + 1) + 1) (int (length bs)) (out @ bs ! i @ (if i + 1 \<noteq> length bs then sep else []))"
      using True assms(3) by (subst concat_loop.simps) (auto simp: concat_item_def add.commute)
    have d: "drop i bs = bs ! i # drop (i + 1) bs" using True by (simp add: Cons_nth_drop_Suc)
    show ?thesis
    proof (cases "i + 1 = length bs")
      case True
      then show ?thesis unfolding l using less.hyps [of "i + 1"] less.prems d by simp
    next
      case False
      then obtain c cs where c: "drop (i + 1) bs = c # cs" using True by (cases "drop (i + 1) bs") auto
      show ?thesis unfolding l using less.hyps [of "i + 1"] True False d c by simp
    qed
  qed
qed

text \<open>\<open>table.concat(t, sep)\<close> of an array of strings is the strings joined by the separator.\<close>

theorem concat_joins:
  assumes "array_of h t = map VStr bs" and "length bs < 2 ^ 59"
  shows "lua_concat fpowi address h [VTable t, VStr sep] = ok (h, [VStr (joined sep bs)])"
proof -
  have a: "arg [VTable t, VStr sep] 2 = VNil" "arg [VTable t, VStr sep] 3 = VNil" by (simp_all add: arg_def)
  show ?thesis using concat_loop_joined [OF assms(1) _ assms(2), of 0 sep "[]"] assms(1)
    by (simp add: lua_concat_def check_table_def ok_or_def concat_sep_def a)
qed

lemma concat_joins_witness:
  "lua_concat (\<lambda>b k. b) (\<lambda>v. []) (sample [VStr [97], VStr [98, 99]]) [VTable 0, VStr [44]]
     = ok (sample [VStr [97], VStr [98, 99]], [VStr [97, 44, 98, 99]])"
  using concat_joins [of "sample [VStr [97], VStr [98, 99]]" 0 "[[97], [98, 99]]" "\<lambda>b k. b" "\<lambda>v. []" "[44]"] by simp

end
