(* ===== verification/Utf8.thy ===== *)
theory Utf8
  imports StringLib
begin

text \<open>
  \<open>builtin/utf8.rs\<close>: the UTF-8 library in Lua's extended form, with sequences of up to six bytes. The
  arguments and results of a call are lists of values, as in theory StringLib, which also has the
  same \<open>posrelat\<close>. Positions given by the script are one-based integers.
\<close>

section \<open>Codec\<close>

definition MAX_CODEPOINT :: int where "MAX_CODEPOINT = 0x7FFFFFFF"

text \<open>\<open>u8::leading_ones\<close>\<close>

definition leading_ones :: "u8 \<Rightarrow> nat" where
  "leading_ones c = length (takeWhile (\<lambda>i. bit c (7 - i)) [0..<8])"

definition LIMITS :: "u32 list" where
  "LIMITS = [0, 0x80, 0x800, 0x10000, 0x200000, 0x4000000]"

text \<open>The continuation bytes of a sequence.\<close>

fun decode_tail :: "bytes \<Rightarrow> nat \<Rightarrow> nat \<Rightarrow> u32 \<Rightarrow> u32 option" where
  "decode_tail b pos 0 code = Some code"
| "decode_tail b pos (Suc n) code =
     (case get_at b pos of
        None \<Rightarrow> None
      | Some cc \<Rightarrow> if cc AND 0xC0 \<noteq> 0x80 then None
                   else decode_tail b (pos + 1) n (push_bit 6 code OR ucast (cc AND 0x3F)))"

definition decode :: "bytes \<Rightarrow> nat \<Rightarrow> bool \<Rightarrow> (u32 \<times> nat) option" where
  "decode b pos strict =
     (case get_at b pos of
        None \<Rightarrow> None
      | Some c \<Rightarrow>
          let lead = leading_ones c in
          if lead = 0 then Some (ucast c, pos + 1)
          else if lead = 1 \<or> 6 < lead then None
          else case decode_tail b (pos + 1) (lead - 1) (ucast (c AND drop_bit (lead + 1) 0xFF)) of
            None \<Rightarrow> None
          | Some code \<Rightarrow>
              if code < LIMITS ! (lead - 1) then None
              else if strict \<and> (0x10FFFF < code \<or> 0xD800 \<le> code \<and> code \<le> 0xDFFF) then None
              else Some (code, pos + lead))"

text \<open>The loop of \<open>encode\<close>: the continuation bytes, last first, and the bits left for the first byte.\<close>

function encode_loop :: "u32 \<Rightarrow> u32 \<Rightarrow> bytes \<Rightarrow> u32 \<times> u32 \<times> bytes" where
  "encode_loop x mfb tail =
     (let tail = tail @ [0x80 OR ucast (x AND 0x3F)]; x = drop_bit 6 x; mfb = drop_bit 1 mfb
      in if x \<le> mfb then (x, mfb, tail) else encode_loop x mfb tail)"
  by pat_completeness auto
termination
proof (relation "measure (\<lambda>(x, mfb, tail). unat x)", goal_cases)
  case (2 x mfb tail tail' x' mfb')
  then have "unat (drop_bit 6 x) \<noteq> 0" by (auto simp: unat_eq_zero)
  then show ?case using 2(2) by (simp add: drop_bit_eq_div unat_div_distrib)
qed simp

declare encode_loop.simps [simp del]

definition encode :: "u32 \<Rightarrow> bytes" where
  "encode cp =
     (if cp < 0x80 then [ucast cp]
      else let (x, mfb, tail) = encode_loop cp 0x3F []
           in (ucast (push_bit 1 (NOT mfb)) OR ucast x) # rev tail)"

definition iscont :: "bytes \<Rightarrow> int \<Rightarrow> bool" where
  "iscont b i \<longleftrightarrow> 1 \<le> i \<and> nat (i - 1) < length b \<and> (b ! nat (i - 1)) AND 0xC0 = 0x80"

text \<open>A decoded sequence is not empty.\<close>

lemma decode_next: "decode b pos strict = Some (code, after) \<Longrightarrow> pos < after"
  by (auto simp: decode_def Let_def split: option.splits if_splits)

section \<open>Functions\<close>

text \<open>Numbers are not coerced to strings here.\<close>

definition utf8_check_str :: "lua_value \<Rightarrow> nat \<Rightarrow> bytes lib" where
  "utf8_check_str v n = ok_or (StringExpected n) (get_string v)"

fun utf8_char_loop :: "(f64 \<Rightarrow> int \<Rightarrow> f64) \<Rightarrow> nat \<Rightarrow> lua_value list \<Rightarrow> bytes \<Rightarrow> bytes lib" where
  "utf8_char_loop fpowi i [] out = ok out"
| "utf8_char_loop fpowi i (v # vs) out =
     and_then (check_integer fpowi v (i + 1)) (\<lambda>c.
       if 0 \<le> sint c \<and> sint c \<le> MAX_CODEPOINT then utf8_char_loop fpowi (i + 1) vs (out @ encode (ucast c))
       else err (ValueOutOfRange (i + 1)))"

definition utf8_char :: "(f64 \<Rightarrow> int \<Rightarrow> f64) \<Rightarrow> lua_value list \<Rightarrow> lua_value list lib" where
  "utf8_char fpowi args = and_then (utf8_char_loop fpowi 0 args []) (\<lambda>b. ok [VStr b])"

function codepoint_loop :: "bytes \<Rightarrow> bool \<Rightarrow> nat \<Rightarrow> nat \<Rightarrow> lua_value list \<Rightarrow> lua_value list lib" where
  "codepoint_loop b strict pos end_pos out =
     (if pos < end_pos then
        (case decode b pos strict of
           None \<Rightarrow> err InvalidUtf8
         | Some (code, after) \<Rightarrow> codepoint_loop b strict after end_pos (out @ [VInt (ucast code)]))
      else ok out)"
  by pat_completeness auto
termination
  by (relation "measure (\<lambda>(b, strict, pos, end_pos, out). end_pos - pos)") (auto dest!: decode_next)

declare codepoint_loop.simps [simp del]

definition utf8_codepoint :: "(f64 \<Rightarrow> int \<Rightarrow> f64) \<Rightarrow> lua_value list \<Rightarrow> lua_value list lib" where
  "utf8_codepoint fpowi args =
     and_then (utf8_check_str (arg args 0) 1) (\<lambda>b.
       and_then (opt_integer fpowi (arg args 1) 2 1) (\<lambda>i.
         and_then (opt_integer fpowi (arg args 2) 3 i) (\<lambda>j.
           let posi = posrelat i (length b); posj = posrelat j (length b) in
           if posi < 1 then err (OutOfBounds 2)
           else if int (length b) < posj then err (OutOfBounds 3)
           else codepoint_loop b (is_falsy (arg args 3)) (nat (posi - 1)) (nat posj) [])))"

text \<open>The count, or the position of the first malformed sequence.\<close>

function len_loop :: "bytes \<Rightarrow> bool \<Rightarrow> int \<Rightarrow> int \<Rightarrow> int \<Rightarrow> lua_value list" where
  "len_loop b strict posi posj count =
     (if posi \<le> posj then
        (case decode b (nat (posi - 1)) strict of
           None \<Rightarrow> [VNil, VInt (word_of_int posi)]
         | Some (_, after) \<Rightarrow> len_loop b strict (int after + 1) posj (count + 1))
      else [VInt (word_of_int count)])"
  by pat_completeness auto
termination
proof (relation "measure (\<lambda>(b, strict, posi, posj, count). nat (posj + 1 - posi))", goal_cases)
  case (2 b strict posi posj count x code after)
  then have "nat (posi - 1) < after" using decode_next by blast
  then show ?case using 2(1) by simp
qed simp

declare len_loop.simps [simp del]

definition utf8_len :: "(f64 \<Rightarrow> int \<Rightarrow> f64) \<Rightarrow> lua_value list \<Rightarrow> lua_value list lib" where
  "utf8_len fpowi args =
     and_then (utf8_check_str (arg args 0) 1) (\<lambda>b.
       and_then (opt_integer fpowi (arg args 1) 2 1) (\<lambda>i.
         and_then (opt_integer fpowi (arg args 2) 3 (- 1)) (\<lambda>j.
           let posi = posrelat i (length b); posj = posrelat j (length b) in
           if posi < 1 \<or> int (length b) + 1 < posi then err (OutOfBounds 2)
           else if int (length b) < posj then err (OutOfBounds 3)
           else ok (len_loop b (is_falsy (arg args 3)) posi posj 0))))"

text \<open>The steps of \<open>offset\<close>: back to the start of a character, to the start of the next one, and the
  last byte of one.\<close>

function back_to_start :: "bytes \<Rightarrow> int \<Rightarrow> int" where
  "back_to_start b posi = (if 1 < posi \<and> iscont b posi then back_to_start b (posi - 1) else posi)"
  by pat_completeness auto
termination by (relation "measure (\<lambda>(b, posi). nat posi)") auto

function skip_conts :: "bytes \<Rightarrow> int \<Rightarrow> int" where
  "skip_conts b posi = (if posi \<le> int (length b) \<and> iscont b posi then skip_conts b (posi + 1) else posi)"
  by pat_completeness auto
termination by (relation "measure (\<lambda>(b, posi). nat (int (length b) + 1 - posi))") auto

function last_byte :: "bytes \<Rightarrow> int \<Rightarrow> int" where
  "last_byte b e = (if e < int (length b) \<and> iscont b (e + 1) then last_byte b (e + 1) else e)"
  by pat_completeness auto
termination by (relation "measure (\<lambda>(b, e). nat (int (length b) - e))") auto

declare back_to_start.simps [simp del] skip_conts.simps [simp del] last_byte.simps [simp del]

lemma skip_conts_above: "posi \<le> skip_conts b posi"
proof (induction b posi rule: skip_conts.induct)
  case (1 b posi)
  then show ?case by (subst skip_conts.simps) auto
qed

function forward :: "bytes \<Rightarrow> int \<Rightarrow> int \<Rightarrow> int \<times> int" where
  "forward b n posi =
     (if 0 < n \<and> posi \<le> int (length b) then forward b (n - 1) (skip_conts b (posi + 1)) else (n, posi))"
  by pat_completeness auto
termination by (relation "measure (\<lambda>(b, n, posi). nat n)") auto

function backward :: "bytes \<Rightarrow> int \<Rightarrow> int \<Rightarrow> int \<times> int" where
  "backward b n posi =
     (if n < 0 \<and> 1 < posi then backward b (n + 1) (back_to_start b (posi - 1)) else (n, posi))"
  by pat_completeness auto
termination by (relation "measure (\<lambda>(b, n, posi). nat (- n))") auto

declare forward.simps [simp del] backward.simps [simp del]

definition offset_found :: "bytes \<Rightarrow> int \<Rightarrow> int \<Rightarrow> int option lib" where
  "offset_found b n posi =
     (if n = 0 then ok (Some (back_to_start b posi))
      else if posi \<le> int (length b) \<and> iscont b posi then err ContinuationPosition
      else if 0 < n then
        (let (n, posi) = forward b (n - 1) posi in ok (if 0 < n then None else Some posi))
      else
        (let (n, posi) = backward b n posi in ok (if n < 0 then None else Some posi)))"

definition utf8_offset :: "(f64 \<Rightarrow> int \<Rightarrow> f64) \<Rightarrow> lua_value list \<Rightarrow> lua_value list lib" where
  "utf8_offset fpowi args =
     and_then (utf8_check_str (arg args 0) 1) (\<lambda>b.
       and_then (check_integer fpowi (arg args 1) 2) (\<lambda>nw.
         let n = sint nw; len = int (length b) in
         and_then (opt_integer fpowi (arg args 2) 3 (if 0 \<le> n then 1 else len + 1)) (\<lambda>i.
           let posi = posrelat i (length b) in
           if posi < 1 \<or> len + 1 < posi then err (OutOfBounds 3)
           else and_then (offset_found b n posi) (\<lambda>found. case found of
               Some p \<Rightarrow> ok [VInt (word_of_int p),
                 VInt (word_of_int (if len < p then p else last_byte b p))]
             | None \<Rightarrow> ok [VNil]))))"

text \<open>\<open>iter\<close> is the iterator function that the call creates.\<close>

definition utf8_codes :: "lua_value \<Rightarrow> lua_value list \<Rightarrow> lua_value list lib" where
  "utf8_codes iter args =
     and_then (utf8_check_str (arg args 0) 1) (\<lambda>b. ok [iter, VStr b, VInt 0])"

text \<open>The position after the previous character: \<open>i - 1\<close> overflows for the least integer, and is read
  as an unsigned index.\<close>

definition codes_start :: "bytes \<Rightarrow> int \<Rightarrow> nat lib" where
  "codes_start b i =
     (if i = 0 then ok 0
      else if i = i64_min then None
      else case decode b (nat ((i - 1) mod 2 ^ 64)) True of
        Some (_, after) \<Rightarrow> ok after
      | None \<Rightarrow> err InvalidUtf8)"

definition codes_aux :: "lua_value list \<Rightarrow> lua_value list lib" where
  "codes_aux args =
     and_then (utf8_check_str (arg args 0) 1) (\<lambda>b.
       let i = (case get_integer (arg args 1) of Some i \<Rightarrow> sint i | None \<Rightarrow> 0) in
       and_then (codes_start b i) (\<lambda>pos.
         if length b \<le> pos then ok []
         else case decode b pos True of
           Some (code, _) \<Rightarrow> ok [VInt (word_of_nat (pos + 1)), VInt (ucast code)]
         | None \<Rightarrow> err InvalidUtf8))"

end
