(* ===== verification/Utf8Props.thy ===== *)
theory Utf8Props
  imports Utf8
begin

text \<open>
  The UTF-8 codec and library: \<open>encode\<close> in closed form, \<open>decode\<close> as its exact inverse (so that no
  overlong form is accepted), and the library functions built on them.
\<close>

section \<open>Single bytes\<close>

lemma byte_less: "unat (c :: u8) < 256"
  by (rule order.strict_trans2 [OF unsigned_less]) simp

lemma widen_byte [simp]: "unat (ucast (c :: u8) :: u32) = unat c"
  using byte_less [of c] by (simp add: unsigned_ucast_eq take_bit_nat_eq_self)

lemma narrow_byte: "unat (x :: u32) < 256 \<Longrightarrow> unat (ucast x :: u8) = unat x"
  by (simp add: unsigned_ucast_eq take_bit_nat_eq_self)

text \<open>A continuation byte is \<open>10xxxxxx\<close>, a first byte of \<open>m + 1\<close> has \<open>m + 1\<close> leading ones and a zero.\<close>

definition payload_mask :: "nat \<Rightarrow> u8" where
  "payload_mask m = [0x7F, 0x1F, 0x0F, 0x07, 0x03, 0x01] ! m"

definition first_byte :: "nat \<Rightarrow> u8 \<Rightarrow> u8" where
  "first_byte m x = [0, 0xC0, 0xE0, 0xF0, 0xF8, 0xFC] ! m OR x"

lemma leading_ones_bits:
  "leading_ones c = (if \<not> bit c 7 then 0 else if \<not> bit c 6 then 1 else if \<not> bit c 5 then 2
    else if \<not> bit c 4 then 3 else if \<not> bit c 3 then 4 else if \<not> bit c 2 then 5 else if \<not> bit c 1 then 6
    else if \<not> bit c 0 then 7 else 8)"
  by (simp add: leading_ones_def upt_rec)

lemma byte_eqI: "(\<And>n. n \<in> {0, 1, 2, 3, 4, 5, 6, 7} \<Longrightarrow> bit a n = bit b n) \<Longrightarrow> a = (b :: u8)"
proof (rule bit_word_eqI)
  fix n
  assume a: "\<And>n. n \<in> {0, 1, 2, 3, 4, 5, 6, 7} \<Longrightarrow> bit a n = bit b n" and "n < LENGTH(8)"
  then have "n \<in> {0, 1, 2, 3, 4, 5, 6, 7}" by (simp add: numeral_eq_Suc less_Suc_eq disj_ac)
  then show "bit a n = bit b n" by (rule a)
qed

lemma first_byte_shape:
  assumes "m \<in> {1, 2, 3, 4, 5}"
  shows "leading_ones (first_byte m (x AND payload_mask m)) = m + 1"
    and "first_byte m (x AND payload_mask m) AND payload_mask m = x AND payload_mask m"
    and "leading_ones x = m + 1 \<Longrightarrow> x = first_byte m (x AND payload_mask m)"
    and "drop_bit (m + 2) (0xFF :: u8) = payload_mask m"
proof -
  consider "m = 1" | "m = 2" | "m = 3" | "m = 4" | "m = 5" using assms by blast
  note cases = this
  show "leading_ones (first_byte m (x AND payload_mask m)) = m + 1"
    by (rule cases) (simp_all add: leading_ones_bits first_byte_def payload_mask_def bit_or_iff bit_and_iff)
  show "first_byte m (x AND payload_mask m) AND payload_mask m = x AND payload_mask m"
    by (rule cases; rule byte_eqI) (auto simp: first_byte_def payload_mask_def bit_or_iff bit_and_iff)
  show "x = first_byte m (x AND payload_mask m)" if "leading_ones x = m + 1"
    by (rule cases; rule byte_eqI)
      (use that in \<open>auto simp: first_byte_def payload_mask_def bit_or_iff bit_and_iff leading_ones_bits split: if_splits\<close>)
  show "drop_bit (m + 2) (0xFF :: u8) = payload_mask m"
    by (rule cases) (simp_all add: payload_mask_def)
qed

lemma cont_byte:
  "(0x80 OR (d AND 0x3F)) AND 0xC0 = (0x80 :: u8)" "(0x80 OR (d AND 0x3F)) AND 0x3F = d AND (0x3F :: u8)"
  "d AND 0xC0 = 0x80 \<Longrightarrow> d = 0x80 OR (d AND (0x3F :: u8))"
proof -
  show "(0x80 OR (d AND 0x3F)) AND 0xC0 = (0x80 :: u8)" "(0x80 OR (d AND 0x3F)) AND 0x3F = d AND (0x3F :: u8)"
    by (rule byte_eqI; auto simp: bit_or_iff bit_and_iff)+
  assume a: "d AND 0xC0 = 0x80"
  have "bit (d AND 0xC0) n = bit (0x80 :: u8) n" for n by (simp only: a)
  from this [of 6] this [of 7] show "d = 0x80 OR (d AND 0x3F)"
    by (intro byte_eqI) (auto simp: bit_or_iff bit_and_iff)
qed

lemma leading_zero: "leading_ones c = 0 \<longleftrightarrow> c < 0x80"
proof -
  have "bit c 7 \<longleftrightarrow> bit (unat c) 7" by (simp add: bit_unsigned_iff)
  also have "\<dots> \<longleftrightarrow> odd (unat c div 128)" by (simp add: bit_iff_odd)
  also have "unat c div 128 = (if unat c < 128 then 0 else 1)"
    using byte_less [of c] by (auto intro!: div_nat_eqI)
  also have "odd (if unat c < 128 then 0 else 1 :: nat) \<longleftrightarrow> 128 \<le> unat c" by simp
  finally have "bit c 7 \<longleftrightarrow> 128 \<le> unat c" .
  then show ?thesis by (simp add: leading_ones_bits word_less_nat_alt not_le)
qed

section \<open>Encoding in closed form\<close>

lemma mask_63: "x AND 0x3F = take_bit 6 (x :: 'a :: len word)"
  by (simp add: take_bit_eq_mask mask_eq_decr_exp)

lemma take_bit_word_id: "unat x < 2 ^ n \<Longrightarrow> take_bit n x = (x :: 'a :: len word)"
  by (simp add: word_unat_eq_iff unsigned_take_bit_eq take_bit_nat_eq_self)

definition cont :: "u32 \<Rightarrow> u8" where
  "cont x = 0x80 OR ucast (x AND 0x3F)"

lemma cont_simps: "cont x AND 0xC0 = 0x80" "(ucast (cont x AND 0x3F) :: u32) = x AND 0x3F"
proof -
  have c: "cont x = 0x80 OR (ucast x AND 0x3F)" by (simp add: cont_def unsigned_and_eq)
  show "cont x AND 0xC0 = 0x80" unfolding c by (rule cont_byte(1))
  have "cont x AND 0x3F = ucast x AND 0x3F" unfolding c by (rule cont_byte(2))
  then show "(ucast (cont x AND 0x3F) :: u32) = x AND 0x3F"
    by (intro bit_word_eqI) (auto simp: mask_63 bit_simps)
qed

lemma low_bits: "push_bit 6 (drop_bit 6 y) OR (y AND 0x3F) = (y :: u32)"
  by (intro bit_word_eqI) (auto simp: mask_63 bit_simps)

lemma high_bits:
  assumes "d AND 0x3F = d" and "unat code < 2 ^ 26"
  shows "drop_bit 6 (push_bit 6 code OR d) = (code :: u32)" and "(push_bit 6 code OR d) AND 0x3F = d"
proof -
  have d: "take_bit 6 d = d" using assms(1) by (simp add: mask_63)
  then have dn: "\<not> bit d n" if "6 \<le> n" for n using that by (metis bit_take_bit_iff not_le)
  have "take_bit 26 code = code" using assms(2) by (rule take_bit_word_id)
  then have cn: "\<not> bit code n" if "26 \<le> n" for n using that by (metis bit_take_bit_iff not_le)
  show "drop_bit 6 (push_bit 6 code OR d) = code"
    using dn cn by (intro bit_word_eqI) (auto simp: bit_simps; metis not_le)
  show "(push_bit 6 code OR d) AND 0x3F = d" unfolding mask_63
    by (subst d [symmetric], intro bit_word_eqI) (auto simp: bit_simps)
qed

text \<open>The sequence of \<open>m\<close> continuation bytes for a code point, and how many it needs.\<close>

definition tail_bytes :: "nat \<Rightarrow> u32 \<Rightarrow> bytes" where
  "tail_bytes m cp = map (\<lambda>k. cont (drop_bit (6 * (m - 1 - k)) cp)) [0..<m]"

definition conts :: "u32 \<Rightarrow> nat" where
  "conts cp = (let n = unat cp in
     if n < 2 ^ 7 then 0 else if n < 2 ^ 11 then 1 else if n < 2 ^ 16 then 2 else if n < 2 ^ 21 then 3
     else if n < 2 ^ 26 then 4 else 5)"

lemma tail_bytes_Suc: "tail_bytes (Suc m) cp = cont (drop_bit (6 * m) cp) # tail_bytes m cp"
proof -
  have "[0..<Suc m] = 0 # map Suc [0..<m]" by (simp only: upt_conv_Cons map_Suc_upt zero_less_Suc)
  then show ?thesis by (simp add: tail_bytes_def del: upt_Suc)
qed

lemma length_tail_bytes [simp]: "length (tail_bytes m cp) = m"
  by (simp add: tail_bytes_def)

lemma unat_drop: "unat (drop_bit k (x :: u32)) = unat x div 2 ^ k"
  by (subst unat_drop_bit_eq, subst drop_bit_eq_div) (rule refl)

lemma drop_le: "drop_bit k cp \<le> (w :: u32) \<longleftrightarrow> unat cp < (unat w + 1) * 2 ^ k"
proof -
  have "drop_bit k cp \<le> w \<longleftrightarrow> unat cp div 2 ^ k \<le> unat w"
    by (simp only: word_le_nat_alt unat_drop)
  also have "\<dots> \<longleftrightarrow> unat cp div 2 ^ k < unat w + 1" by linarith
  also have "\<dots> \<longleftrightarrow> unat cp < (unat w + 1) * 2 ^ k" by (simp add: div_less_iff_less_mult)
  finally show ?thesis .
qed

lemma encode_loop_step:
  "encode_loop x mfb tail =
    (if drop_bit 6 x \<le> drop_bit 1 mfb then (drop_bit 6 x, drop_bit 1 mfb, tail @ [cont x])
     else encode_loop (drop_bit 6 x) (drop_bit 1 mfb) (tail @ [cont x]))"
  by (subst encode_loop.simps) (simp add: cont_def Let_def)

lemma low_byte: "(4294967232 :: u8) = 0xC0" "(4294967264 :: u8) = 0xE0" "(4294967280 :: u8) = 0xF0"
  "(4294967288 :: u8) = 0xF8" "(4294967292 :: u8) = 0xFC"
  by (transfer, simp)+

lemma encode_closed:
  assumes "unat cp < 2 ^ 31" and m: "m = conts cp"
  shows "encode cp = (if m = 0 then [ucast cp] else first_byte m (ucast (drop_bit (6 * m) cp)) # tail_bytes m cp)"
proof (cases "unat cp < 2 ^ 7")
  case True
  then have "cp < 0x80" "m = 0" using m by (simp_all add: word_less_nat_alt conts_def)
  then show ?thesis by (simp add: encode_def)
next
  case False
  then have big: "\<not> cp < 0x80" by (simp add: word_less_nat_alt)
  have d: "drop_bit 6 cp \<le> 0x1F \<longleftrightarrow> unat cp < 2 ^ 11" "drop_bit 12 cp \<le> 0xF \<longleftrightarrow> unat cp < 2 ^ 16"
    "drop_bit 18 cp \<le> 0x7 \<longleftrightarrow> unat cp < 2 ^ 21" "drop_bit 24 cp \<le> 0x3 \<longleftrightarrow> unat cp < 2 ^ 26"
    "drop_bit 30 cp \<le> 0x1" using assms(1) by (simp_all add: drop_le)
  note step = encode_loop_step [of cp] encode_loop_step [of "drop_bit 6 cp"] encode_loop_step [of "drop_bit 12 cp"]
    encode_loop_step [of "drop_bit 18 cp"] encode_loop_step [of "drop_bit 24 cp"]
  consider "m = 1" "unat cp < 2 ^ 11" | "m = 2" "\<not> unat cp < 2 ^ 11" "unat cp < 2 ^ 16"
    | "m = 3" "\<not> unat cp < 2 ^ 11" "\<not> unat cp < 2 ^ 16" "unat cp < 2 ^ 21"
    | "m = 4" "\<not> unat cp < 2 ^ 11" "\<not> unat cp < 2 ^ 16" "\<not> unat cp < 2 ^ 21" "unat cp < 2 ^ 26"
    | "m = 5" "\<not> unat cp < 2 ^ 11" "\<not> unat cp < 2 ^ 16" "\<not> unat cp < 2 ^ 21" "\<not> unat cp < 2 ^ 26"
    using m False by (auto simp: conts_def Let_def split: if_splits)
  then show ?thesis
  proof cases
    case 1
    then have "encode_loop cp 0x3F [] = (drop_bit 6 cp, 0x1F, [cont cp])" using d by (simp add: step)
    then show ?thesis using big 1 by (simp add: encode_def tail_bytes_def first_byte_def low_byte)
  next
    case 2
    then have "encode_loop cp 0x3F [] = (drop_bit 12 cp, 0xF, [cont cp, cont (drop_bit 6 cp)])"
      using d by (simp add: step)
    then show ?thesis using big 2 by (simp add: encode_def tail_bytes_def first_byte_def upt_rec low_byte)
  next
    case 3
    then have "encode_loop cp 0x3F [] = (drop_bit 18 cp, 0x7, [cont cp, cont (drop_bit 6 cp), cont (drop_bit 12 cp)])"
      using d by (simp add: step)
    then show ?thesis using big 3 by (simp add: encode_def tail_bytes_def first_byte_def upt_rec low_byte)
  next
    case 4
    then have "encode_loop cp 0x3F [] = (drop_bit 24 cp, 0x3,
        [cont cp, cont (drop_bit 6 cp), cont (drop_bit 12 cp), cont (drop_bit 18 cp)])"
      using d by (simp add: step)
    then show ?thesis using big 4 by (simp add: encode_def tail_bytes_def first_byte_def upt_rec low_byte)
  next
    case 5
    then have "encode_loop cp 0x3F [] = (drop_bit 30 cp, 0x1,
        [cont cp, cont (drop_bit 6 cp), cont (drop_bit 12 cp), cont (drop_bit 18 cp), cont (drop_bit 24 cp)])"
      using d by (simp add: step)
    then show ?thesis using big 5 by (simp add: encode_def tail_bytes_def first_byte_def upt_rec low_byte)
  qed
qed

section \<open>Decoding\<close>

lemma decode_tail_conts:
  assumes "take m (drop pos b) = tail_bytes m cp"
  shows "decode_tail b pos m (drop_bit (6 * m) cp) = Some cp"
  using assms
proof (induction m arbitrary: pos)
  case (Suc m)
  have len: "pos < length b"
    using arg_cong [OF Suc.prems, of length] by simp
  have d: "drop pos b = b ! pos # drop (Suc pos) b" using len by (simp add: Cons_nth_drop_Suc)
  have hd: "b ! pos = cont (drop_bit (6 * m) cp)" and tl: "take m (drop (Suc pos) b) = tail_bytes m cp"
    using Suc.prems unfolding tail_bytes_Suc d by simp_all
  have "drop_bit (6 * Suc m) cp = drop_bit 6 (drop_bit (6 * m) cp)" by (simp add: add.commute)
  then have "push_bit 6 (drop_bit (6 * Suc m) cp) OR (drop_bit (6 * m) cp AND 0x3F) = drop_bit (6 * m) cp"
    by (simp only: low_bits)
  then show ?case using Suc.IH [OF tl] len hd by (simp add: get_at_def cont_simps)
qed simp

lemma decode_tail_inverse:
  assumes "decode_tail b pos m code = Some r" and "unat code * 2 ^ (6 * m) < 2 ^ 32" and "m \<le> 5"
  shows "drop_bit (6 * m) r = code \<and> take m (drop pos b) = tail_bytes m r \<and> pos + m \<le> max pos (length b)"
  using assms
proof (induction m arbitrary: pos code)
  case 0
  then show ?case by (simp add: tail_bytes_def)
next
  case (Suc m)
  from Suc.prems(1) obtain cc where len: "pos < length b" and cc: "cc = b ! pos" "cc AND 0xC0 = 0x80"
    and t: "decode_tail b (pos + 1) m (push_bit 6 code OR ucast (cc AND 0x3F)) = Some r"
    by (auto simp: get_at_def split: option.splits if_splits)
  let ?d = "ucast (cc AND 0x3F) :: u32" and ?code = "push_bit 6 code OR ucast (cc AND 0x3F) :: u32"
  have d: "?d AND 0x3F = ?d" by (intro bit_word_eqI) (auto simp: mask_63 bit_simps)
  have "unat code < 2 ^ 26"
  proof -
    have "unat code * 2 ^ 6 \<le> unat code * 2 ^ (6 * Suc m)" by (intro mult_le_mono2 power_increasing) auto
    from order.strict_trans1 [OF this Suc.prems(2)] show ?thesis by simp
  qed
  note hi = high_bits [OF d this]
  have un: "unat ?code div 64 = unat code" using arg_cong [OF hi(1), of unat] by (simp only: unat_drop) simp
  have "unat ?code < (unat code + 1) * 64" using un by (simp add: div_eq_dividend_iff)
  moreover have "(unat code + 1) * 2 ^ (6 * Suc m) \<le> 2 ^ 32"
  proof -
    have "(2 :: nat) ^ (6 * Suc m) dvd 2 ^ 32" using Suc.prems(3) by (intro le_imp_power_dvd) simp
    then obtain q :: nat where q: "2 ^ 32 = 2 ^ (6 * Suc m) * q" by (auto elim: dvdE)
    then have "unat code < q" using Suc.prems(2) by (metis mult.commute mult_less_cancel2)
    then have "2 ^ (6 * Suc m) * (unat code + 1) \<le> 2 ^ (6 * Suc m) * q" by (intro mult_le_mono2) simp
    then show ?thesis unfolding q by (simp only: mult.commute)
  qed
  ultimately have small: "unat ?code * 2 ^ (6 * m) < 2 ^ 32"
  proof -
    assume a: "unat ?code < (unat code + 1) * 64" and b: "(unat code + 1) * 2 ^ (6 * Suc m) \<le> 2 ^ 32"
    have "unat ?code * 2 ^ (6 * m) < (unat code + 1) * 64 * 2 ^ (6 * m)" using a by simp
    also have "(unat code + 1) * 64 * 2 ^ (6 * m) = (unat code + 1) * 2 ^ (6 * Suc m)"
      by (simp add: power_add algebra_simps)
    finally show ?thesis using b by linarith
  qed
  from Suc.IH [OF t small] Suc.prems(3) have ih: "drop_bit (6 * m) r = ?code"
    "take m (drop (Suc pos) b) = tail_bytes m r" "Suc pos + m \<le> max (Suc pos) (length b)" by auto
  have "drop_bit (6 * Suc m) r = drop_bit 6 (drop_bit (6 * m) r)" by (simp add: add.commute)
  then have 1: "drop_bit (6 * Suc m) r = code" by (simp only: ih(1) hi(1))
  have "cont (drop_bit (6 * m) r) = 0x80 OR ucast ?d" by (simp only: cont_def ih(1) hi(2))
  also have "(ucast ?d :: u8) = cc AND 0x3F" by (intro bit_word_eqI) (auto simp: bit_simps)
  also have "0x80 OR (cc AND 0x3F) = cc" using cont_byte(3) [OF cc(2)] by simp
  finally have 2: "cont (drop_bit (6 * m) r) = b ! pos" using cc(1) by simp
  have "drop pos b = b ! pos # drop (Suc pos) b" using len by (simp add: Cons_nth_drop_Suc)
  then have 3: "take (Suc m) (drop pos b) = tail_bytes (Suc m) r" using ih(2) 2 by (simp add: tail_bytes_Suc)
  show ?case using 1 3 ih(3) len by auto
qed

lemma conts_limits:
  assumes "1 \<le> m" and "m \<le> 5"
  shows "(LIMITS ! m \<le> cp \<and> unat cp < 2 ^ (5 * m + 6)) = (conts cp = m \<and> unat cp < 2 ^ 31)"
proof -
  consider "m = 1" | "m = 2" | "m = 3" | "m = 4" | "m = 5" using assms by linarith
  then show ?thesis
    by cases (auto simp: LIMITS_def conts_def word_le_nat_alt Let_def)
qed

lemma conts_le: "conts cp \<le> 5"
  by (simp add: conts_def Let_def)

lemma payload_fits:
  assumes "m \<in> {1, 2, 3, 4, 5}" and "unat x < 2 ^ (6 - m)"
  shows "x AND payload_mask m = x"
proof -
  have "payload_mask m = mask (6 - m)" using assms(1) by (auto simp: payload_mask_def mask_eq_decr_exp)
  then have "x AND payload_mask m = take_bit (6 - m) x" by (simp add: take_bit_eq_mask)
  then show ?thesis using take_bit_word_id [OF assms(2)] by simp
qed

lemma payload_bound: "m \<in> {1, 2, 3, 4, 5} \<Longrightarrow> unat (x AND payload_mask m) < 2 ^ (6 - m)"
proof -
  assume "m \<in> {1, 2, 3, 4, 5}"
  then have "payload_mask m = mask (6 - m)" by (auto simp: payload_mask_def mask_eq_decr_exp)
  then have "x AND payload_mask m = take_bit (6 - m) x" by (simp add: take_bit_eq_mask)
  then show ?thesis by (simp add: unsigned_take_bit_eq)
qed

text \<open>What \<open>strict\<close> refuses.\<close>

definition scalar :: "u32 \<Rightarrow> bool" where
  "scalar cp \<longleftrightarrow> cp \<le> 0x10FFFF \<and> \<not> (0xD800 \<le> cp \<and> cp \<le> 0xDFFF)"

definition decodable :: "bool \<Rightarrow> u32 \<Rightarrow> bool" where
  "decodable strict cp \<longleftrightarrow> unat cp < 2 ^ 31 \<and> (strict \<longrightarrow> scalar cp)"

lemma decode_encode:
  assumes "decodable strict cp" and e: "take (length (encode cp)) (drop pos b) = encode cp"
  shows "decode b pos strict = Some (cp, pos + length (encode cp))"
proof -
  let ?m = "conts cp"
  have small: "unat cp < 2 ^ 31" using assms(1) by (simp add: decodable_def)
  note c = encode_closed [OF small refl]
  have "encode cp \<noteq> []" using c by (simp split: if_splits)
  then have len: "pos < length b" using arg_cong [OF e, of length] by (cases "pos < length b") auto
  have d: "drop pos b = b ! pos # drop (Suc pos) b" using len by (simp add: Cons_nth_drop_Suc)
  show ?thesis
  proof (cases "?m = 0")
    case True
    then have lt: "unat cp < 128" by (simp add: conts_def Let_def split: if_splits)
    have b: "b ! pos = ucast cp" and l: "encode cp = [ucast cp]" using c True e d by simp_all
    have u: "unat (ucast cp :: u8) = unat cp" using lt by (simp add: unsigned_ucast_eq take_bit_nat_eq_self)
    then have "leading_ones (ucast cp) = 0" using lt by (simp add: leading_zero word_less_nat_alt)
    moreover have "ucast (ucast cp :: u8) = cp" using u by (simp add: word_unat_eq_iff unsigned_ucast_eq unsigned_take_bit_eq take_bit_nat_eq_self lt)
    ultimately show ?thesis using len b l by (simp add: decode_def get_at_def)
  next
    case False
    then have m: "?m \<in> {1, 2, 3, 4, 5}" using conts_le [of cp] by (auto simp: le_Suc_eq numeral_eq_Suc)
    let ?x = "ucast (drop_bit (6 * ?m) cp) :: u8"
    have l: "encode cp = first_byte ?m ?x # tail_bytes ?m cp" using c False by simp
    have b: "b ! pos = first_byte ?m ?x" and t: "take ?m (drop (Suc pos) b) = tail_bytes ?m cp"
      using e unfolding l d by simp_all
    have lim: "LIMITS ! ?m \<le> cp" "unat cp < 2 ^ (5 * ?m + 6)"
      using conts_limits [of ?m cp] m small by auto
    have dx: "unat (drop_bit (6 * ?m) cp) < 2 ^ (6 - ?m)"
    proof -
      have "unat cp < 2 ^ (6 - ?m) * 2 ^ (6 * ?m)"
        using lim(2) m by (auto simp flip: power_add)
      then show ?thesis by (simp add: unat_drop div_less_iff_less_mult)
    qed
    have "(2 :: nat) ^ (6 - ?m) \<le> 2 ^ 5" using m by (intro power_increasing) auto
    then have ux: "unat ?x = unat (drop_bit (6 * ?m) cp)"
      using dx by (simp add: unsigned_ucast_eq take_bit_nat_eq_self del: unat_drop_bit_eq)
    have fit: "?x AND payload_mask ?m = ?x" using payload_fits [OF m] dx ux by simp
    have shape: "leading_ones (first_byte ?m ?x) = ?m + 1" "first_byte ?m ?x AND payload_mask ?m = ?x"
      "drop_bit (?m + 2) (0xFF :: u8) = payload_mask ?m"
      using first_byte_shape(1,2) [OF m, of ?x] first_byte_shape(4) [OF m] fit by simp_all
    have widened: "ucast ?x = drop_bit (6 * ?m) cp"
      using ux by (simp add: word_unat_eq_iff unsigned_ucast_eq unsigned_take_bit_eq)
    have "decode_tail b (pos + 1) ?m (ucast (b ! pos AND payload_mask ?m)) = Some cp"
      using decode_tail_conts [of ?m "pos + 1" b cp] t by (simp add: b shape(2) widened)
    then show ?thesis
      using assms(1) len b shape lim(1) m
      by (auto simp: decode_def get_at_def Let_def l not_less decodable_def scalar_def)
  qed
qed

lemma decode_inverse:
  assumes "decode b pos strict = Some (cp, after)"
  shows "decodable strict cp \<and> after \<le> length b \<and> after = pos + length (encode cp)
    \<and> take (after - pos) (drop pos b) = encode cp"
proof -
  obtain c where len: "pos < length b" and c: "c = b ! pos"
    and r: "(if leading_ones c = 0 then Some (ucast c, pos + 1)
          else if leading_ones c = 1 \<or> 6 < leading_ones c then None
          else case decode_tail b (pos + 1) (leading_ones c - 1) (ucast (c AND drop_bit (leading_ones c + 1) 0xFF)) of
            None \<Rightarrow> None
          | Some code \<Rightarrow>
              if code < LIMITS ! (leading_ones c - 1) then None
              else if strict \<and> (0x10FFFF < code \<or> 0xD800 \<le> code \<and> code \<le> 0xDFFF) then None
              else Some (code, pos + leading_ones c)) = Some (cp, after)"
    using assms by (auto simp: decode_def get_at_def Let_def split: if_splits)
  have d: "drop pos b = b ! pos # drop (Suc pos) b" using len by (simp add: Cons_nth_drop_Suc)
  show ?thesis
  proof (cases "leading_ones c = 0")
    case True
    then have cp: "cp = ucast c" "after = pos + 1" using r by simp_all
    have lt: "unat c < 128" using True by (simp add: leading_zero word_less_nat_alt)
    have u: "unat cp = unat c" by (simp add: cp(1))
    then have m: "conts cp = 0" using lt by (simp add: conts_def)
    have "ucast cp = c" using u lt
      by (simp add: word_unat_eq_iff narrow_byte)
    then have "encode cp = [c]" using encode_closed [OF _ refl, of cp] u lt m by simp
    then show ?thesis using len cp c d u lt by (simp add: decodable_def scalar_def word_le_nat_alt)
  next
    case False
    define m where "m = leading_ones c - 1"
    have lead: "leading_ones c = m + 1" "m \<in> {1, 2, 3, 4, 5}"
      using False r by (auto simp: m_def split: if_splits)
    note shape = first_byte_shape(3) [OF lead(2,1)] first_byte_shape(4) [OF lead(2)]
    let ?x = "c AND payload_mask m"
    have conds: "(m + 1 = 0) = False" "(m + 1 = 1 \<or> 6 < m + 1) = False" "m + 1 - 1 = m" "m + 1 + 1 = m + 2"
      using lead(2) by auto
    note r1 = r [unfolded lead(1) conds if_False shape(2)]
    then obtain code where t: "decode_tail b (pos + 1) m (ucast ?x) = Some code"
      by (cases "decode_tail b (pos + 1) m (ucast ?x)") (simp_all only: option.case option.distinct)
    note r2 = r1 [unfolded t option.case]
    let ?bad = "strict \<and> (0x10FFFF < code \<or> 0xD800 \<le> code \<and> code \<le> 0xDFFF)"
    have nl: "\<not> code < LIMITS ! m"
    proof
      assume "code < LIMITS ! m"
      then show False using r2 by (simp only: if_True option.distinct)
    qed
    have nb: "\<not> ?bad"
    proof
      assume "?bad"
      then show False using r2 nl by (simp only: if_True if_False option.distinct simp_thms)
    qed
    have lim: "LIMITS ! m \<le> code" using nl by (simp only: not_less)
    have st: "strict \<longrightarrow> scalar code" using nb by (auto simp: scalar_def not_less)
    have "code = cp \<and> pos + (m + 1) = after" using r2 nl nb by (simp only: if_False option.inject prod.inject)
    then have res: "cp = code" "after = pos + 1 + m" by auto
    have xb: "unat ?x < 2 ^ (6 - m)" by (rule payload_bound [OF lead(2)])
    have wide: "unat (ucast ?x :: u32) = unat ?x" by (rule widen_byte)
    have pw: "(2 :: nat) ^ (6 - m) * 2 ^ (6 * m) = 2 ^ (5 * m + 6)" "(2 :: nat) ^ (5 * m + 6) \<le> 2 ^ 31"
      using lead(2) by (auto simp flip: power_add)
    have "unat ?x * 2 ^ (6 * m) < 2 ^ (6 - m) * 2 ^ (6 * m)" using xb by simp
    then have "unat (ucast ?x :: u32) * 2 ^ (6 * m) < 2 ^ 32" using pw wide by simp
    from decode_tail_inverse [OF t this] lead(2) have tail: "drop_bit (6 * m) code = ucast ?x"
      "take m (drop (Suc pos) b) = tail_bytes m code" "pos + 1 + m \<le> length b" using len by auto
    have "unat code div 2 ^ (6 * m) < 2 ^ (6 - m)"
      using arg_cong [OF tail(1), of unat] xb wide by (simp only: unat_drop)
    then have "unat code < 2 ^ (6 - m) * 2 ^ (6 * m)" by (simp add: div_less_iff_less_mult)
    then have cm: "conts cp = m" "unat cp < 2 ^ 31"
      using conts_limits [of m cp] lim lead(2) pw res by auto
    have "ucast (ucast ?x :: u32) = ?x"
      using narrow_byte [of "ucast ?x"] byte_less [of ?x] wide by (simp add: word_unat_eq_iff)
    then have "encode cp = c # tail_bytes m cp"
      using encode_closed [OF cm(2) refl] cm(1) lead(2) tail(1) shape(1) res by auto
    then show ?thesis using cm tail(2,3) d c res st by (simp add: decodable_def)
  qed
qed

lemma decode_eq:
  "decode b pos strict = Some (cp, after) \<longleftrightarrow> decodable strict cp
     \<and> after = pos + length (encode cp) \<and> take (length (encode cp)) (drop pos b) = encode cp"
  using decode_encode [of strict cp pos b] decode_inverse [of b pos strict cp after] by auto

section \<open>Properties\<close>

text \<open>
  C32. \<open>decode\<close> is exactly the inverse of \<open>encode\<close>: it yields a code point at a position precisely when
  the bytes there are that code point's encoding (so an overlong form, a stray continuation byte or a
  cut sequence is always refused), the code point is below \<open>2 ^ 31\<close> and, in strict mode, a Unicode
  scalar value; the position returned is the one after the encoding.
\<close>

theorem decode_iff_encoded:
  "decode b pos strict = Some (cp, after) \<longleftrightarrow> decodable strict cp
     \<and> after = pos + length (encode cp) \<and> take (length (encode cp)) (drop pos b) = encode cp"
  by (rule decode_eq)

definition encoded :: "i64 list \<Rightarrow> bytes" where
  "encoded cps = concat (map (\<lambda>c. encode (ucast c)) cps)"

definition valid_code :: "i64 \<Rightarrow> bool" where
  "valid_code c \<longleftrightarrow> 0 \<le> sint c \<and> sint c \<le> MAX_CODEPOINT"

lemma valid_code_narrow:
  assumes "valid_code c"
  shows "decodable False (ucast c)" and "(ucast (ucast c :: u32) :: i64) = c"
proof -
  have "uint c = sint c" using assms
    by (simp add: valid_code_def MAX_CODEPOINT_def uint_sint take_bit_int_eq_self)
  then have u: "unat c < 2 ^ 31" using assms
    by (simp add: valid_code_def MAX_CODEPOINT_def unat_eq_nat_uint nat_less_iff)
  then have n: "unat (ucast c :: u32) = unat c" by (simp add: unsigned_ucast_eq take_bit_nat_eq_self)
  show "decodable False (ucast c)" using u n by (simp add: decodable_def)
  show "(ucast (ucast c :: u32) :: i64) = c"
    using u n by (simp add: word_unat_eq_iff unsigned_ucast_eq unsigned_take_bit_eq take_bit_nat_eq_self)
qed

lemma char_loop_encoded:
  "\<forall>c \<in> set cps. valid_code c \<Longrightarrow> utf8_char_loop fpowi i (map VInt cps) out = ok (out @ encoded cps)"
  by (induction cps arbitrary: i out) (simp_all add: encoded_def valid_code_def)

lemma encode_nonempty: "encode cp \<noteq> []"
  by (simp add: encode_def Let_def split: prod.split)

lemma codepoint_loop_encoded:
  assumes "\<forall>c \<in> set cps. valid_code c" and "b = pre @ encoded cps"
  shows "codepoint_loop b False (length pre) (length b) out = ok (out @ map VInt cps)"
  using assms
proof (induction cps arbitrary: pre out)
  case Nil
  then show ?case by (simp add: encoded_def codepoint_loop.simps)
next
  case (Cons c cps)
  let ?e = "encode (ucast c)"
  have b: "b = (pre @ ?e) @ encoded cps" using Cons.prems(2) by (simp add: encoded_def)
  have "decode b (length pre) False = Some (ucast c, length (pre @ ?e))"
    using valid_code_narrow(1) [of c] Cons.prems(1) by (subst decode_eq) (simp add: b)
  moreover have "length pre < length b" using encode_nonempty [of "ucast c"] by (simp add: b)
  ultimately show ?case
    using Cons.IH [OF _ b, of "out @ [VInt c]"] valid_code_narrow(2) [of c] Cons.prems(1)
    by (subst codepoint_loop.simps) simp
qed

lemma len_loop_encoded:
  assumes "\<forall>c \<in> set cps. valid_code c" and "b = pre @ encoded cps"
  shows "len_loop b False (int (length pre) + 1) (int (length b)) count
    = [VInt (word_of_int (count + int (length cps)))]"
  using assms
proof (induction cps arbitrary: pre count)
  case Nil
  then show ?case by (simp add: encoded_def len_loop.simps)
next
  case (Cons c cps)
  let ?e = "encode (ucast c)"
  have b: "b = (pre @ ?e) @ encoded cps" using Cons.prems(2) by (simp add: encoded_def)
  have d: "decode b (length pre) False = Some (ucast c, length (pre @ ?e))"
    using valid_code_narrow(1) [of c] Cons.prems(1) by (subst decode_eq) (simp add: b)
  have l: "length pre < length b" using encode_nonempty [of "ucast c"] by (simp add: b)
  have "len_loop b False (int (length pre) + 1) (int (length b)) count
    = len_loop b False (int (length (pre @ ?e)) + 1) (int (length b)) (count + 1)"
    using d l by (subst len_loop.simps) (simp add: algebra_simps)
  also have "\<dots> = [VInt (word_of_int (count + 1 + int (length cps)))]"
    using Cons.IH [OF _ b, of "count + 1"] Cons.prems(1) by simp
  finally show ?case by (simp add: algebra_simps)
qed

text \<open>
  C33. \<open>utf8.codepoint(utf8.char(...), 1, -1, true)\<close> gives the code points back, and \<open>utf8.len\<close> counts
  them, for all code points up to \<open>0x7FFFFFFF\<close>, surrogates included.
\<close>

theorem codepoint_char:
  assumes "\<forall>c \<in> set cps. valid_code c"
  shows "\<exists>b. utf8_char fpowi (map VInt cps) = ok [VStr b]
    \<and> utf8_codepoint fpowi [VStr b, VInt 1, VInt (- 1), VBool True] = ok (map VInt cps)
    \<and> utf8_len fpowi [VStr b, VInt 1, VInt (- 1), VBool True] = ok [VInt (word_of_nat (length cps))]"
proof -
  let ?b = "encoded cps"
  have p: "posrelat 1 (length ?b) = 1" "posrelat (- 1) (length ?b) = int (length ?b)"
    by (simp_all add: posrelat_def)
  have f: "\<not> is_falsy (VBool True)" by (simp add: is_falsy_iff)
  have "utf8_char fpowi (map VInt cps) = ok [VStr ?b]"
    using char_loop_encoded [OF assms, of fpowi 0 "[]"] by (simp add: utf8_char_def)
  moreover have "utf8_codepoint fpowi [VStr ?b, VInt 1, VInt (- 1), VBool True] = ok (map VInt cps)"
    using codepoint_loop_encoded [OF assms, of ?b "[]" "[]"] p f
    by (simp add: utf8_codepoint_def utf8_check_str_def ok_or_def)
  moreover have "utf8_len fpowi [VStr ?b, VInt 1, VInt (- 1), VBool True] = ok [VInt (word_of_nat (length cps))]"
    using len_loop_encoded [OF assms, of ?b "[]" 0] p f
    by (simp add: utf8_len_def utf8_check_str_def ok_or_def)
  ultimately show ?thesis by blast
qed

lemma codepoint_char_witness:
  "\<exists>b. utf8_char (\<lambda>b k. b) (map VInt [0x48, 0x20AC, 0x7FFFFFFF]) = ok [VStr b]
    \<and> utf8_codepoint (\<lambda>b k. b) [VStr b, VInt 1, VInt (- 1), VBool True] = ok (map VInt [0x48, 0x20AC, 0x7FFFFFFF])
    \<and> utf8_len (\<lambda>b k. b) [VStr b, VInt 1, VInt (- 1), VBool True] = ok [VInt (word_of_nat 3)]"
  using codepoint_char [of "[0x48, 0x20AC, 0x7FFFFFFF]" "\<lambda>b k. b"]
  by (simp add: valid_code_def MAX_CODEPOINT_def)

text \<open>The iterator of \<open>codes\<close> called with the least integer: \<open>i - 1\<close> overflows.\<close>

lemma codes_aux_overflow: "codes_aux [VStr b, VInt (word_of_int i64_min)] = None"
proof -
  have "sint (word_of_int i64_min :: i64) = i64_min" by (rule sint_of_int_i64) simp_all
  then show ?thesis by (simp add: codes_aux_def utf8_check_str_def ok_or_def codes_start_def)
qed

end
