(* ===== verification/Lexer.thy ===== *)
theory Lexer
  imports Values
begin

text \<open>
  The hand-written part of the lexer in \<open>parser/kind.rs\<close>: the callbacks of comments and long strings. The automaton that
  calls them is generated, so a callback is a function of the input that remains (bytes of a UTF-8 text), and its
  result is how far it moves the lexer. \<open>None\<close> is a panic: a slice off a character boundary, a subtraction below zero, or
  \<open>unreachable!\<close>.

  The move itself is \<open>bump\<close> of the lexer library, which is not part of the repository: a parameter of \<open>skip_comment\<close>,
  with its documented behaviour as the hypothesis \<open>documented_bump\<close> (it panics past the end of the text or inside a
  character). The callbacks of long brackets move to the end of a slice they have just taken, where it does not panic.
\<close>

section \<open>Text\<close>

text \<open>\<open>is_char_boundary\<close>, slices and the indices of the characters, as the Rust library has them.\<close>

definition continuation :: "8 word \<Rightarrow> bool" where
  "continuation c \<longleftrightarrow> 0x80 \<le> c \<and> c < 0xC0"

definition is_char_boundary :: "bytes \<Rightarrow> nat \<Rightarrow> bool" where
  "is_char_boundary b i \<longleftrightarrow> i = 0 \<or> i = length b \<or> i < length b \<and> \<not> continuation (b ! i)"

definition text_slice :: "bytes \<Rightarrow> nat \<Rightarrow> nat \<Rightarrow> bytes option" where
  "text_slice b i j = (if i \<le> j \<and> j \<le> length b \<and> is_char_boundary b i \<and> is_char_boundary b j
     then Some (take (j - i) (drop i b)) else None)"

definition char_indices :: "bytes \<Rightarrow> nat list" where
  "char_indices b = filter (is_char_boundary b) [0..<length b]"

definition begins :: "bytes \<Rightarrow> bytes \<Rightarrow> bool" where
  "begins p b \<longleftrightarrow> take (length p) b = p"

section \<open>Long brackets\<close>

abbreviation OPEN :: "8 word" where "OPEN \<equiv> 0x5B"
abbreviation CLOSE :: "8 word" where "CLOSE \<equiv> 0x5D"
abbreviation EQUALS :: "8 word" where "EQUALS \<equiv> 0x3D"
abbreviation CR :: "8 word" where "CR \<equiv> 0x0D"
abbreviation LF :: "8 word" where "LF \<equiv> 0x0A"

definition is_long_delimiter :: "bytes \<Rightarrow> 8 word \<Rightarrow> bool" where
  "is_long_delimiter s delim \<longleftrightarrow>
     \<not> (length s < 2 \<or> hd s \<noteq> delim \<or> last s \<noteq> delim) \<and> length (filter ((=) EQUALS) s) + 2 = length s"

text \<open>The loop of \<open>long_string\<close> and \<open>skip_long_comment\<close> over the remaining character positions.\<close>

fun close_loop_at :: "nat list \<Rightarrow> bytes \<Rightarrow> nat \<Rightarrow> nat option" where
  "close_loop_at [] rem delim_len = None"
| "close_loop_at (i # is) rem delim_len =
     (case text_slice rem i (i + delim_len) of
        None \<Rightarrow> None
      | Some s \<Rightarrow> if is_long_delimiter s CLOSE then Some (i + delim_len) else close_loop_at is rem delim_len)"

definition long_string :: "nat \<Rightarrow> bytes \<Rightarrow> nat option" where
  "long_string delim_len rem = close_loop_at (char_indices rem) rem delim_len"

definition skip_long_comment :: "bytes \<Rightarrow> nat \<Rightarrow> nat option" where
  "skip_long_comment rem delim_len = close_loop_at (char_indices rem) rem delim_len"

text \<open>The outer option is the panic, the inner one the result.\<close>

fun open_loop :: "nat list \<Rightarrow> bytes \<Rightarrow> 8 word \<Rightarrow> nat option option" where
  "open_loop [] s delim = Some None"
| "open_loop (i # is) s delim =
     (case text_slice s 0 i of
        None \<Rightarrow> None
      | Some t \<Rightarrow> if is_long_delimiter t delim then Some (Some i) else open_loop is s delim)"

definition starts_with_long_delimiter :: "bytes \<Rightarrow> 8 word \<Rightarrow> nat option option" where
  "starts_with_long_delimiter s delim =
     (if \<not> begins [OPEN, OPEN] s \<and> \<not> begins [OPEN, EQUALS, CLOSE] s then Some None
      else open_loop (char_indices s) s delim)"

section \<open>Comments\<close>

text \<open>\<open>lexer.bump(n)\<close> on the remaining text: how far it moved, or its panic.\<close>

type_synonym bumping = "bytes \<Rightarrow> nat \<Rightarrow> nat option"

definition documented_bump :: "bumping \<Rightarrow> bool" where
  "documented_bump bump \<longleftrightarrow> (\<forall>b n. bump b n = (if is_char_boundary b n then Some n else None))"

fun line_loop :: "bumping \<Rightarrow> nat list \<Rightarrow> bytes \<Rightarrow> nat option" where
  "line_loop bump [] rem = None"
| "line_loop bump (i # is) rem =
     (case text_slice rem i (length rem) of
        None \<Rightarrow> None
      | Some now \<Rightarrow>
          if begins [CR, LF] now then (if i = 0 then None else bump rem (i - 1))
          else if begins [LF] now then bump rem i
          else line_loop bump is rem)"

text \<open>How far the lexer moves past the two dashes.\<close>

definition skip_comment :: "bumping \<Rightarrow> bytes \<Rightarrow> nat option" where
  "skip_comment bump rem = (case starts_with_long_delimiter rem OPEN of
      None \<Rightarrow> None
    | Some (Some delim_len) \<Rightarrow>
        (case bump rem delim_len of
           None \<Rightarrow> None
         | Some moved \<Rightarrow> map_option (\<lambda>n. moved + n) (skip_long_comment (drop moved rem) delim_len))
    | Some None \<Rightarrow> line_loop bump (char_indices rem) rem)"

section \<open>What the callbacks do\<close>

lemma char_indices_boundary: "set is \<subseteq> set (char_indices b) \<Longrightarrow> i \<in> set is \<Longrightarrow> i < length b \<and> is_char_boundary b i"
  by (auto simp: char_indices_def)

lemma text_slice_tail: "i < length b \<Longrightarrow> is_char_boundary b i \<Longrightarrow> text_slice b i (length b) = Some (drop i b)"
  by (simp add: text_slice_def is_char_boundary_def)

lemma text_slice_head: "i < length b \<Longrightarrow> is_char_boundary b i \<Longrightarrow> text_slice b 0 i = Some (take i b)"
  by (simp add: text_slice_def is_char_boundary_def)

text \<open>A long delimiter is the bracket twice with equals signs between.\<close>

lemma filter_all: "length (filter P xs) = length xs \<Longrightarrow> x \<in> set xs \<Longrightarrow> P x"
  by (rule ccontr) (drule (1) length_filter_less, simp)

lemma is_long_delimiter_iff:
  assumes "delim \<noteq> EQUALS"
  shows "is_long_delimiter s delim \<longleftrightarrow> (\<exists>n. s = delim # replicate n EQUALS @ [delim])"
proof
  assume d: "is_long_delimiter s delim"
  then have "2 \<le> length s" "hd s = delim" "last s = delim" by (simp_all add: is_long_delimiter_def)
  then obtain t where t: "s = delim # t" "t \<noteq> []" "last t = delim"
    by (cases s) (auto split: if_splits)
  then have s: "s = delim # butlast t @ [delim]" using append_butlast_last_id [OF t(2)] by simp
  then obtain m where s: "s = delim # m @ [delim]" by blast
  have "length (filter ((=) EQUALS) m) = length m" using d s assms by (simp add: is_long_delimiter_def)
  then have "\<forall>x \<in> set m. x = EQUALS" using filter_all [of "(=) EQUALS" m] by simp
  then have "m = replicate (length m) EQUALS" by (rule replicate_length_same [symmetric])
  then show "\<exists>n. s = delim # replicate n EQUALS @ [delim]" using s by blast
next
  assume "\<exists>n. s = delim # replicate n EQUALS @ [delim]"
  then show "is_long_delimiter s delim" using assms by (auto simp: is_long_delimiter_def)
qed

lemma open_loop_none:
  assumes "\<And>i. i \<in> set is \<Longrightarrow> i < length s \<and> is_char_boundary s i \<and> \<not> is_long_delimiter (take i s) delim"
  shows "open_loop is s delim = Some None"
  using assms by (induction "is") (simp_all add: text_slice_head)

text \<open>Only two plain brackets open a long comment: with equals signs the comment is taken for a short one.\<close>

lemma no_long_comment:
  assumes "\<not> begins [OPEN, OPEN] s"
  shows "starts_with_long_delimiter s OPEN = Some None"
proof (cases "begins [OPEN, EQUALS, CLOSE] s")
  case True
  have "\<not> is_long_delimiter (take i s) OPEN" for i
  proof
    assume "is_long_delimiter (take i s) OPEN"
    then obtain n where t: "take i s = OPEN # replicate n EQUALS @ [OPEN]" by (auto simp: is_long_delimiter_iff)
    have s: "take 3 s = [OPEN, EQUALS, CLOSE]" using True by (simp add: begins_def eval_nat_numeral)
    have l: "i \<ge> n + 2" using arg_cong [OF t, of length] by simp
    show False
    proof (cases n)
      case 0
      have "take 2 (take i s) = [OPEN, OPEN]" using t 0 by simp
      moreover have "take 2 (take i s) = take 2 (take 3 s)" using l by (simp add: min_def)
      ultimately show False using s by simp
    next
      case (Suc m)
      have "take i s ! 2 = (if m = 0 then OPEN else EQUALS)" using t Suc by (cases m) simp_all
      moreover have "take i s ! 2 = take 3 s ! 2" using l Suc by simp
      ultimately show False using s by (simp split: if_splits)
    qed
  qed
  then show ?thesis
    using assms True char_indices_boundary [OF subset_refl, of _ s]
    by (simp add: starts_with_long_delimiter_def open_loop_none)
qed (use assms in \<open>simp add: starts_with_long_delimiter_def\<close>)

lemma line_loop_skips:
  assumes "\<And>i. i \<in> set is \<Longrightarrow> i < length rem \<and> is_char_boundary rem i
      \<and> \<not> begins [CR, LF] (drop i rem) \<and> \<not> begins [LF] (drop i rem)"
  shows "line_loop bump (is @ js) rem = line_loop bump js rem"
  using assms by (induction "is") (simp_all add: text_slice_tail)

lemma char_indices_split:
  assumes "i < length b" and "is_char_boundary b i"
  shows "char_indices b = filter (is_char_boundary b) [0..<i] @ i # filter (is_char_boundary b) [Suc i..<length b]"
proof -
  have "[0..<length b] = [0..<i] @ i # [Suc i..<length b]"
    using upt_add_eq_append [of 0 i "length b - i"] upt_conv_Cons [of i "length b"] assms(1) by simp
  then show ?thesis using assms(2) by (simp add: char_indices_def)
qed

lemma begins_one: "begins [c] (drop i b) \<longleftrightarrow> i < length b \<and> b ! i = c"
  by (cases "i < length b") (simp_all add: begins_def Cons_nth_drop_Suc [symmetric])

lemma begins_two: "begins [c, d] (drop i b) \<longleftrightarrow> Suc i < length b \<and> b ! i = c \<and> b ! Suc i = d"
proof (cases "Suc i < length b")
  case True
  then have "drop i b = b ! i # b ! Suc i # drop (Suc (Suc i)) b" by (simp add: Cons_nth_drop_Suc)
  then show ?thesis using True by (simp add: begins_def)
next
  case False
  then have "length (drop i b) \<le> 1" by simp
  then show ?thesis using False by (cases "drop i b") (auto simp: begins_def)
qed

lemma line_loop_at:
  assumes "p < length rem" and "\<not> continuation (rem ! p)"
    and "\<And>i. i < p \<Longrightarrow> \<not> begins [CR, LF] (drop i rem) \<and> \<not> begins [LF] (drop i rem)"
  shows "line_loop bump (char_indices rem) rem = (if begins [CR, LF] (drop p rem) then (if p = 0 then None else bump rem (p - 1))
     else if begins [LF] (drop p rem) then bump rem p
     else line_loop bump (filter (is_char_boundary rem) [Suc p..<length rem]) rem)"
proof -
  have b: "is_char_boundary rem p" using assms by (simp add: is_char_boundary_def)
  have "line_loop bump (filter (is_char_boundary rem) [0..<p] @ js) rem = line_loop bump js rem" for js
    using assms by (intro line_loop_skips) auto
  then show ?thesis using b assms(1) by (simp add: char_indices_split text_slice_tail)
qed

lemma line_loop_crlf:
  "begins [CR, LF] (drop p rem) \<Longrightarrow> p < length rem \<Longrightarrow> \<not> continuation (rem ! p) \<Longrightarrow>
     (\<And>i. i < p \<Longrightarrow> \<not> begins [CR, LF] (drop i rem) \<and> \<not> begins [LF] (drop i rem)) \<Longrightarrow>
     line_loop bump (char_indices rem) rem = (if p = 0 then None else bump rem (p - 1))"
  by (subst line_loop_at [of p]) auto

lemma line_loop_lf:
  "\<not> begins [CR, LF] (drop p rem) \<Longrightarrow> begins [LF] (drop p rem) \<Longrightarrow> p < length rem \<Longrightarrow> \<not> continuation (rem ! p) \<Longrightarrow>
     (\<And>i. i < p \<Longrightarrow> \<not> begins [CR, LF] (drop i rem) \<and> \<not> begins [LF] (drop i rem)) \<Longrightarrow>
     line_loop bump (char_indices rem) rem = bump rem p"
  by (subst line_loop_at [of p]) auto

lemma no_lf:
  assumes "LF \<notin> set xs" and "i < length xs"
  shows "xs ! i \<noteq> LF"
proof
  assume "xs ! i = LF"
  then have "LF \<in> set xs" using nth_mem [OF assms(2)] by simp
  with assms(1) show False ..
qed

text \<open>
  Where a short comment ends: before a line feed; if a carriage return precedes it, one byte too early, which is a
  panic where no character ends.
\<close>

lemma line_loop_end:
  assumes "LF \<notin> set xs" and "documented_bump bump"
  shows "line_loop bump (char_indices (xs @ LF # rest)) (xs @ LF # rest) =
    (if xs \<noteq> [] \<and> last xs = CR
     then (if length xs = 1 \<or> \<not> is_char_boundary xs (length xs - 2) then None else Some (length xs - 2))
     else Some (length xs))"
proof (cases "xs \<noteq> [] \<and> last xs = CR")
  case True
  then obtain ys where xs: "xs = ys @ [CR]" by (metis append_butlast_last_id)
  let ?rem = "xs @ LF # rest"
  have no: "\<not> begins [CR, LF] (drop i ?rem) \<and> \<not> begins [LF] (drop i ?rem)" if "i < length ys" for i
  proof -
    have l: "i < length xs" "Suc i < length xs" using that by (simp_all add: xs)
    then have "xs ! i \<noteq> LF" "xs ! Suc i \<noteq> LF" using no_lf [OF assms(1)] by blast+
    then show ?thesis unfolding begins_one begins_two using l by (simp add: nth_append)
  qed
  have "begins [CR, LF] (drop (length ys) ?rem)" by (simp add: xs begins_def)
  moreover have "length ys < length ?rem" "\<not> continuation (?rem ! length ys)" by (simp_all add: xs continuation_def)
  ultimately have "line_loop bump (char_indices ?rem) ?rem = (if length ys = 0 then None else bump ?rem (length ys - 1))"
    using no by (intro line_loop_crlf)
  moreover have "bump ?rem (length ys - 1) = (if is_char_boundary xs (length ys - 1) then Some (length ys - 1) else None)"
    if "ys \<noteq> []"
  proof -
    have "length ys - 1 < length ys" using that by (cases ys) simp_all
    then have "is_char_boundary ?rem (length ys - 1) = is_char_boundary xs (length ys - 1)"
      by (auto simp: is_char_boundary_def xs nth_append)
    then show ?thesis using assms(2) by (simp add: documented_bump_def)
  qed
  ultimately show ?thesis using True by (simp add: xs)
next
  case False
  let ?rem = "xs @ LF # rest"
  have no: "\<not> begins [CR, LF] (drop i ?rem) \<and> \<not> begins [LF] (drop i ?rem)" if "i < length xs" for i
  proof -
    have "xs ! i \<noteq> LF" by (rule no_lf [OF assms(1) that])
    moreover have "Suc i < length xs \<Longrightarrow> xs ! Suc i \<noteq> LF" using assms(1) nth_mem by metis
    moreover have "xs ! i \<noteq> CR" if "\<not> Suc i < length xs"
    proof -
      have "i = length xs - 1" "xs \<noteq> []" using that \<open>i < length xs\<close> by auto
      then show ?thesis using False by (simp add: last_conv_nth)
    qed
    ultimately show ?thesis using that unfolding begins_one begins_two by (auto simp: nth_append)
  qed
  have "\<not> begins [CR, LF] (drop (length xs) ?rem)" "begins [LF] (drop (length xs) ?rem)" by (simp_all add: begins_def)
  moreover have "length xs < length ?rem" "\<not> continuation (?rem ! length xs)" by (simp_all add: continuation_def)
  ultimately have "line_loop bump (char_indices ?rem) ?rem = bump ?rem (length xs)"
    using no by (intro line_loop_lf)
  moreover have "is_char_boundary ?rem (length xs)" by (simp add: is_char_boundary_def continuation_def)
  then have "bump ?rem (length xs) = Some (length xs)" using assms(2) by (simp add: documented_bump_def)
  ultimately show ?thesis unfolding if_not_P [OF False] by simp
qed

lemma line_loop_no_end:
  assumes "LF \<notin> set xs"
  shows "line_loop bump (char_indices xs) xs = None"
proof -
  have "line_loop bump (char_indices xs @ []) xs = line_loop bump [] xs"
  proof (rule line_loop_skips)
    fix i
    assume "i \<in> set (char_indices xs)"
    then have i: "i < length xs \<and> is_char_boundary xs i" by (simp add: char_indices_def)
    then have "xs ! i \<noteq> LF" "Suc i < length xs \<Longrightarrow> xs ! Suc i \<noteq> LF" using no_lf [OF assms] by blast+
    then show "i < length xs \<and> is_char_boundary xs i \<and> \<not> begins [CR, LF] (drop i xs) \<and> \<not> begins [LF] (drop i xs)"
      using i by (simp add: begins_one begins_two)
  qed
  then show ?thesis by simp
qed

section \<open>Properties\<close>

text \<open>
  C28. A comment that does not start with two opening brackets (with equals signs it is no long comment either) ends just
  before the line feed, as it should; but before a carriage return and line feed it ends one byte too early, so the last
  byte of its text is left to be read as a token.
  That panics when the comment is empty, for the position is below zero, and when its last character is not ASCII, for
  the lexer is moved into the character. A comment at the end of the file panics too.
\<close>

theorem line_comment_ends:
  assumes "LF \<notin> set xs" and "documented_bump bump"
  shows "(\<not> begins [OPEN, OPEN] (xs @ LF # rest) \<longrightarrow> skip_comment bump (xs @ LF # rest) =
      (if xs \<noteq> [] \<and> last xs = CR
       then (if length xs = 1 \<or> \<not> is_char_boundary xs (length xs - 2) then None else Some (length xs - 2))
       else Some (length xs)))
    \<and> (\<not> begins [OPEN, OPEN] xs \<longrightarrow> skip_comment bump xs = None)"
  using assms by (simp add: skip_comment_def no_long_comment line_loop_end line_loop_no_end)

definition plain_bump :: bumping where
  "plain_bump b n = (if is_char_boundary b n then Some n else None)"

lemma line_comment_ends_witness:
  "skip_comment plain_bump [0x61, LF, 0x62] = Some 1 \<and> skip_comment plain_bump [0x61, CR, LF] = Some 0
   \<and> skip_comment plain_bump [0xC3, 0xA9, CR, LF] = None \<and> skip_comment plain_bump [0x61] = None"
proof -
  have b: "documented_bump plain_bump" by (simp add: documented_bump_def plain_bump_def)
  show ?thesis
    using line_comment_ends [OF _ b, of "[0x61]" "[0x62]"] line_comment_ends [OF _ b, of "[0x61, CR]" "[]"]
      line_comment_ends [OF _ b, of "[0xC3, 0xA9, CR]" "[]"]
    by (simp add: begins_def is_char_boundary_def continuation_def)
qed

text \<open>The first closing bracket from the start of \<open>rest\<close>.\<close>

definition closing :: "nat \<Rightarrow> bytes" where
  "closing n = CLOSE # replicate n EQUALS @ [CLOSE]"

lemma close_loop_skips:
  assumes "\<And>i. i \<in> set is \<Longrightarrow> \<exists>s. text_slice rem i (i + d) = Some s \<and> \<not> is_long_delimiter s CLOSE"
  shows "close_loop_at (is @ js) rem d = close_loop_at js rem d"
  using assms by (induction "is") fastforce+

lemma ascii_continuation: "c < 0x80 \<Longrightarrow> \<not> continuation c"
  by (simp add: continuation_def not_le)

lemma length_closing: "length (closing n) = n + 2"
  by (simp add: closing_def)

lemma closing_delimiter: "length s = n + 2 \<Longrightarrow> is_long_delimiter s CLOSE \<longleftrightarrow> s = closing n"
  by (auto simp: is_long_delimiter_iff closing_def)

text \<open>
  C29. In ASCII text a long string ends right after the first closing bracket with as many equals signs as the opening one.
\<close>

theorem long_string_ends:
  assumes "\<forall>c \<in> set (pre @ rest). c < 0x80"
    and "\<forall>i < length pre. \<not> begins (closing n) (drop i (pre @ closing n @ rest))"
  shows "long_string (n + 2) (pre @ closing n @ rest) = Some (length pre + (n + 2))"
proof -
  let ?b = "pre @ closing n @ rest"
  have "\<forall>c \<in> set (closing n). c < 0x80" by (simp add: closing_def)
  then have "\<forall>c \<in> set ?b. \<not> continuation c" using assms(1) ascii_continuation by fastforce
  then have "i < length ?b \<Longrightarrow> \<not> continuation (?b ! i)" for i using nth_mem [of i ?b] by blast
  then have b: "is_char_boundary ?b i" if "i \<le> length ?b" for i
    using that unfolding is_char_boundary_def by (cases "i = length ?b") simp_all
  have slice: "text_slice ?b i (i + (n + 2)) = Some (take (n + 2) (drop i ?b))" if "i \<le> length pre" for i
    using that b [of i] b [of "i + (n + 2)"] by (simp add: text_slice_def length_closing)
  have len: "length (take (n + 2) (drop i ?b)) = n + 2" if "i \<le> length pre" for i
    using that by (simp add: length_closing)
  have p: "length pre < length ?b" by (simp add: length_closing)
  have "char_indices ?b = [0..<length pre] @ length pre # [Suc (length pre)..<length ?b]"
    using char_indices_split [OF p b] p b by (simp add: filter_True)
  moreover have "close_loop_at ([0..<length pre] @ js) ?b (n + 2) = close_loop_at js ?b (n + 2)" for js
  proof (rule close_loop_skips)
    fix i
    assume "i \<in> set [0..<length pre]"
    then have i: "i < length pre" by simp
    then have "\<not> is_long_delimiter (take (n + 2) (drop i ?b)) CLOSE"
      using assms(2) closing_delimiter [OF len] unfolding begins_def length_closing by simp
    then show "\<exists>s. text_slice ?b i (i + (n + 2)) = Some s \<and> \<not> is_long_delimiter s CLOSE"
      using slice i by simp
  qed
  moreover have "take (n + 2) (drop (length pre) ?b) = closing n" by (simp add: length_closing)
  ultimately show ?thesis
    using slice [of "length pre"] closing_delimiter [OF length_closing, of n] by (simp add: long_string_def)
qed

lemma long_string_ends_witness: "long_string 2 [0x61, CLOSE, CLOSE, 0x62] = Some 3"
proof -
  have "long_string (0 + 2) ([0x61] @ closing 0 @ [0x62]) = Some (length [0x61 :: 8 word] + (0 + 2))"
    by (rule long_string_ends) (simp_all add: closing_def begins_def)
  then show ?thesis by (simp add: closing_def numeral_2_eq_2 numeral_3_eq_3)
qed

text \<open>Elsewhere the search slices inside a character: \<open>[[a\<close>, an e with an accent, \<open>]]\<close> panics.\<close>

lemma long_string_splits_character: "long_string 2 [0x61, 0xC3, 0xA9, CLOSE, CLOSE] = None"
  by (simp add: long_string_def char_indices_def is_char_boundary_def continuation_def text_slice_def upt_rec)

end
