(* ===== verification/Parser.thy ===== *)
theory Parser
  imports Outcome
begin

text \<open>
  \<open>parser/kind.rs\<close> (the token and node kinds) and \<open>parser/machinery.rs\<close>: the parser's state, markers
  and events, the binding powers, and the sink that turns events into calls of the tree builder. The
  tokens come from the generated lexer, so they are an argument. A panic is \<open>None\<close>; \<open>err ()\<close> is the
  result of a run that has not returned within the given number of steps. The texts of reports are
  the constructors of \<open>report\<close>.
\<close>

section \<open>Kinds\<close>

text \<open>The variants of \<open>SyntaxKind\<close>, in four groups: nodes, keywords, symbols, and tokens with a text. \<open>SkX\<close>
  is the variant \<open>X\<close>.\<close>

datatype node_kind =
    NdInvalid | NdTombstone | NdEof | NdRoot | NdBreakStmt | NdReturnStmt | NdDoStmt | NdWhileStmt
  | NdRepeatStmt | NdStmtList | NdIfStmt | NdElseChain | NdForNumStmt | NdForGenStmt | NdFuncStmt
  | NdFuncArgs | NdVarArgParam | NdExpr | NdVarArgExpr | NdBinOp | NdFuncCall | NdIndex | NdExprList
  | NdDeclStmt | NdDeclTarget | NdFuncExpr | NdPrefixOp | NdTableExpr | NdTableArrayElem
  | NdTableMapElem | NdTableGenericElem | NdAssignStmt | NdLiteralExpr | NdAssignList | NdLabel
  | NdMethodCall | NdGlobalStmt | NdGlobalTarget

datatype keyword_kind =
    KwLocal | KwGlobal | KwFunction | KwEnd | KwIn | KwThen | KwBreak | KwFor | KwDo | KwUntil | KwElse
  | KwWhile | KwElseIf | KwIf | KwRepeat | KwReturn | KwNot | KwOr | KwAnd | KwGoto | KwConst | KwClose
  | KwNil | KwTrue | KwFalse

datatype symbol_kind =
    SyPlus | SyMinus | SyStar | SySlash | SyPercent | SyCaret | SyHash | SyAmpersand | SyPipe | SyTilde
  | SyDLAngle | SyDRAngle | SyEq | SyNotEq | SyLEq | SyGEq | SyLAngle | SyRAngle | SyAssign | SyDSlash
  | SyDot | SyDDot | SyLParen | SyRParen | SyLCurly | SyRCurly | SyLBracket | SyRBracket | SyColon
  | SyDColon | SyComma | SyTDot | SySemicolon

datatype lexeme_kind =
    LxWhitespace | LxComment | LxString | LxLongString | LxInt | LxHexInt | LxFloat | LxHexFloat | LxIdent

datatype syntax_kind = Node node_kind | Keyword keyword_kind | Symbol symbol_kind | Lexeme lexeme_kind

abbreviation SkInvalid :: syntax_kind where "SkInvalid \<equiv> Node NdInvalid"
abbreviation SkTombstone :: syntax_kind where "SkTombstone \<equiv> Node NdTombstone"
abbreviation SkEof :: syntax_kind where "SkEof \<equiv> Node NdEof"
abbreviation SkRoot :: syntax_kind where "SkRoot \<equiv> Node NdRoot"
abbreviation SkBreakStmt :: syntax_kind where "SkBreakStmt \<equiv> Node NdBreakStmt"
abbreviation SkReturnStmt :: syntax_kind where "SkReturnStmt \<equiv> Node NdReturnStmt"
abbreviation SkDoStmt :: syntax_kind where "SkDoStmt \<equiv> Node NdDoStmt"
abbreviation SkWhileStmt :: syntax_kind where "SkWhileStmt \<equiv> Node NdWhileStmt"
abbreviation SkRepeatStmt :: syntax_kind where "SkRepeatStmt \<equiv> Node NdRepeatStmt"
abbreviation SkStmtList :: syntax_kind where "SkStmtList \<equiv> Node NdStmtList"
abbreviation SkIfStmt :: syntax_kind where "SkIfStmt \<equiv> Node NdIfStmt"
abbreviation SkElseChain :: syntax_kind where "SkElseChain \<equiv> Node NdElseChain"
abbreviation SkForNumStmt :: syntax_kind where "SkForNumStmt \<equiv> Node NdForNumStmt"
abbreviation SkForGenStmt :: syntax_kind where "SkForGenStmt \<equiv> Node NdForGenStmt"
abbreviation SkFuncStmt :: syntax_kind where "SkFuncStmt \<equiv> Node NdFuncStmt"
abbreviation SkFuncArgs :: syntax_kind where "SkFuncArgs \<equiv> Node NdFuncArgs"
abbreviation SkVarArgParam :: syntax_kind where "SkVarArgParam \<equiv> Node NdVarArgParam"
abbreviation SkExpr :: syntax_kind where "SkExpr \<equiv> Node NdExpr"
abbreviation SkVarArgExpr :: syntax_kind where "SkVarArgExpr \<equiv> Node NdVarArgExpr"
abbreviation SkBinOp :: syntax_kind where "SkBinOp \<equiv> Node NdBinOp"
abbreviation SkFuncCall :: syntax_kind where "SkFuncCall \<equiv> Node NdFuncCall"
abbreviation SkIndex :: syntax_kind where "SkIndex \<equiv> Node NdIndex"
abbreviation SkExprList :: syntax_kind where "SkExprList \<equiv> Node NdExprList"
abbreviation SkDeclStmt :: syntax_kind where "SkDeclStmt \<equiv> Node NdDeclStmt"
abbreviation SkDeclTarget :: syntax_kind where "SkDeclTarget \<equiv> Node NdDeclTarget"
abbreviation SkFuncExpr :: syntax_kind where "SkFuncExpr \<equiv> Node NdFuncExpr"
abbreviation SkPrefixOp :: syntax_kind where "SkPrefixOp \<equiv> Node NdPrefixOp"
abbreviation SkTableExpr :: syntax_kind where "SkTableExpr \<equiv> Node NdTableExpr"
abbreviation SkTableArrayElem :: syntax_kind where "SkTableArrayElem \<equiv> Node NdTableArrayElem"
abbreviation SkTableMapElem :: syntax_kind where "SkTableMapElem \<equiv> Node NdTableMapElem"
abbreviation SkTableGenericElem :: syntax_kind where "SkTableGenericElem \<equiv> Node NdTableGenericElem"
abbreviation SkAssignStmt :: syntax_kind where "SkAssignStmt \<equiv> Node NdAssignStmt"
abbreviation SkLiteralExpr :: syntax_kind where "SkLiteralExpr \<equiv> Node NdLiteralExpr"
abbreviation SkAssignList :: syntax_kind where "SkAssignList \<equiv> Node NdAssignList"
abbreviation SkLabel :: syntax_kind where "SkLabel \<equiv> Node NdLabel"
abbreviation SkMethodCall :: syntax_kind where "SkMethodCall \<equiv> Node NdMethodCall"
abbreviation SkGlobalStmt :: syntax_kind where "SkGlobalStmt \<equiv> Node NdGlobalStmt"
abbreviation SkGlobalTarget :: syntax_kind where "SkGlobalTarget \<equiv> Node NdGlobalTarget"
abbreviation SkLocal :: syntax_kind where "SkLocal \<equiv> Keyword KwLocal"
abbreviation SkGlobal :: syntax_kind where "SkGlobal \<equiv> Keyword KwGlobal"
abbreviation SkFunction :: syntax_kind where "SkFunction \<equiv> Keyword KwFunction"
abbreviation SkEnd :: syntax_kind where "SkEnd \<equiv> Keyword KwEnd"
abbreviation SkIn :: syntax_kind where "SkIn \<equiv> Keyword KwIn"
abbreviation SkThen :: syntax_kind where "SkThen \<equiv> Keyword KwThen"
abbreviation SkBreak :: syntax_kind where "SkBreak \<equiv> Keyword KwBreak"
abbreviation SkFor :: syntax_kind where "SkFor \<equiv> Keyword KwFor"
abbreviation SkDo :: syntax_kind where "SkDo \<equiv> Keyword KwDo"
abbreviation SkUntil :: syntax_kind where "SkUntil \<equiv> Keyword KwUntil"
abbreviation SkElse :: syntax_kind where "SkElse \<equiv> Keyword KwElse"
abbreviation SkWhile :: syntax_kind where "SkWhile \<equiv> Keyword KwWhile"
abbreviation SkElseIf :: syntax_kind where "SkElseIf \<equiv> Keyword KwElseIf"
abbreviation SkIf :: syntax_kind where "SkIf \<equiv> Keyword KwIf"
abbreviation SkRepeat :: syntax_kind where "SkRepeat \<equiv> Keyword KwRepeat"
abbreviation SkReturn :: syntax_kind where "SkReturn \<equiv> Keyword KwReturn"
abbreviation SkNot :: syntax_kind where "SkNot \<equiv> Keyword KwNot"
abbreviation SkOr :: syntax_kind where "SkOr \<equiv> Keyword KwOr"
abbreviation SkAnd :: syntax_kind where "SkAnd \<equiv> Keyword KwAnd"
abbreviation SkGoto :: syntax_kind where "SkGoto \<equiv> Keyword KwGoto"
abbreviation SkConst :: syntax_kind where "SkConst \<equiv> Keyword KwConst"
abbreviation SkClose :: syntax_kind where "SkClose \<equiv> Keyword KwClose"
abbreviation SkNil :: syntax_kind where "SkNil \<equiv> Keyword KwNil"
abbreviation SkTrue :: syntax_kind where "SkTrue \<equiv> Keyword KwTrue"
abbreviation SkFalse :: syntax_kind where "SkFalse \<equiv> Keyword KwFalse"
abbreviation SkPlus :: syntax_kind where "SkPlus \<equiv> Symbol SyPlus"
abbreviation SkMinus :: syntax_kind where "SkMinus \<equiv> Symbol SyMinus"
abbreviation SkStar :: syntax_kind where "SkStar \<equiv> Symbol SyStar"
abbreviation SkSlash :: syntax_kind where "SkSlash \<equiv> Symbol SySlash"
abbreviation SkPercent :: syntax_kind where "SkPercent \<equiv> Symbol SyPercent"
abbreviation SkCaret :: syntax_kind where "SkCaret \<equiv> Symbol SyCaret"
abbreviation SkHash :: syntax_kind where "SkHash \<equiv> Symbol SyHash"
abbreviation SkAmpersand :: syntax_kind where "SkAmpersand \<equiv> Symbol SyAmpersand"
abbreviation SkPipe :: syntax_kind where "SkPipe \<equiv> Symbol SyPipe"
abbreviation SkTilde :: syntax_kind where "SkTilde \<equiv> Symbol SyTilde"
abbreviation SkDLAngle :: syntax_kind where "SkDLAngle \<equiv> Symbol SyDLAngle"
abbreviation SkDRAngle :: syntax_kind where "SkDRAngle \<equiv> Symbol SyDRAngle"
abbreviation SkEq :: syntax_kind where "SkEq \<equiv> Symbol SyEq"
abbreviation SkNotEq :: syntax_kind where "SkNotEq \<equiv> Symbol SyNotEq"
abbreviation SkLEq :: syntax_kind where "SkLEq \<equiv> Symbol SyLEq"
abbreviation SkGEq :: syntax_kind where "SkGEq \<equiv> Symbol SyGEq"
abbreviation SkLAngle :: syntax_kind where "SkLAngle \<equiv> Symbol SyLAngle"
abbreviation SkRAngle :: syntax_kind where "SkRAngle \<equiv> Symbol SyRAngle"
abbreviation SkAssign :: syntax_kind where "SkAssign \<equiv> Symbol SyAssign"
abbreviation SkDSlash :: syntax_kind where "SkDSlash \<equiv> Symbol SyDSlash"
abbreviation SkDot :: syntax_kind where "SkDot \<equiv> Symbol SyDot"
abbreviation SkDDot :: syntax_kind where "SkDDot \<equiv> Symbol SyDDot"
abbreviation SkLParen :: syntax_kind where "SkLParen \<equiv> Symbol SyLParen"
abbreviation SkRParen :: syntax_kind where "SkRParen \<equiv> Symbol SyRParen"
abbreviation SkLCurly :: syntax_kind where "SkLCurly \<equiv> Symbol SyLCurly"
abbreviation SkRCurly :: syntax_kind where "SkRCurly \<equiv> Symbol SyRCurly"
abbreviation SkLBracket :: syntax_kind where "SkLBracket \<equiv> Symbol SyLBracket"
abbreviation SkRBracket :: syntax_kind where "SkRBracket \<equiv> Symbol SyRBracket"
abbreviation SkColon :: syntax_kind where "SkColon \<equiv> Symbol SyColon"
abbreviation SkDColon :: syntax_kind where "SkDColon \<equiv> Symbol SyDColon"
abbreviation SkComma :: syntax_kind where "SkComma \<equiv> Symbol SyComma"
abbreviation SkTDot :: syntax_kind where "SkTDot \<equiv> Symbol SyTDot"
abbreviation SkSemicolon :: syntax_kind where "SkSemicolon \<equiv> Symbol SySemicolon"
abbreviation SkWhitespace :: syntax_kind where "SkWhitespace \<equiv> Lexeme LxWhitespace"
abbreviation SkComment :: syntax_kind where "SkComment \<equiv> Lexeme LxComment"
abbreviation SkString :: syntax_kind where "SkString \<equiv> Lexeme LxString"
abbreviation SkLongString :: syntax_kind where "SkLongString \<equiv> Lexeme LxLongString"
abbreviation SkInt :: syntax_kind where "SkInt \<equiv> Lexeme LxInt"
abbreviation SkHexInt :: syntax_kind where "SkHexInt \<equiv> Lexeme LxHexInt"
abbreviation SkFloat :: syntax_kind where "SkFloat \<equiv> Lexeme LxFloat"
abbreviation SkHexFloat :: syntax_kind where "SkHexFloat \<equiv> Lexeme LxHexFloat"
abbreviation SkIdent :: syntax_kind where "SkIdent \<equiv> Lexeme LxIdent"

definition is_trivia :: "syntax_kind \<Rightarrow> bool" where
  "is_trivia k \<longleftrightarrow> k \<in> {SkWhitespace, SkComment}"

section \<open>State\<close>

type_synonym span = "nat \<times> nat"

datatype event = Enter syntax_kind nat | Exit | Token syntax_kind span

datatype report = Expected syntax_kind syntax_kind | ExpectedOneOf "syntax_kind list" syntax_kind
  | ExpectedStatement | NotACall | GlobalClose

record pstate =
  ps_tokens :: "(syntax_kind \<times> span) list"
  ps_cursor :: nat
  ps_events :: "event list"
  ps_reports :: "report list"

type_synonym 'a parse = "pstate \<Rightarrow> (unit, 'a \<times> pstate) outcome"

text \<open>A marker or completed marker: the position of its event and the kind of the node.\<close>

type_synonym marker = "nat \<times> syntax_kind"

definition pure :: "'a \<Rightarrow> 'a parse" where
  "pure x = (\<lambda>s. ok (x, s))"

definition bindp :: "'a parse \<Rightarrow> ('a \<Rightarrow> 'b parse) \<Rightarrow> 'b parse" where
  "bindp m f = (\<lambda>s. and_then (m s) (\<lambda>(x, s). f x s))"

abbreviation thenp :: "'a parse \<Rightarrow> 'b parse \<Rightarrow> 'b parse" where
  "thenp m n \<equiv> bindp m (\<lambda>_. n)"

text \<open>The operator \<open>?\<close> on an optional result.\<close>

definition tryp :: "'a option parse \<Rightarrow> ('a \<Rightarrow> 'b option parse) \<Rightarrow> 'b option parse" where
  "tryp m f = bindp m (\<lambda>r. case r of None \<Rightarrow> pure None | Some x \<Rightarrow> f x)"

definition unfinished_parse :: "'a parse" where
  "unfinished_parse = (\<lambda>s. err ())"

text \<open>A loop of at most \<open>n\<close> rounds: each goes on with \<open>Inl\<close> or ends with \<open>Inr\<close>.\<close>

fun repeat_loop :: "nat \<Rightarrow> ('a \<Rightarrow> ('a + 'b) parse) \<Rightarrow> 'a \<Rightarrow> 'b parse" where
  "repeat_loop 0 body x = unfinished_parse"
| "repeat_loop (Suc n) body x = bindp (body x) (\<lambda>r. case r of Inl y \<Rightarrow> repeat_loop n body y | Inr z \<Rightarrow> pure z)"

definition state_new :: "(syntax_kind \<times> span) list \<Rightarrow> pstate" where
  "state_new lexed = \<lparr>ps_tokens = lexed @ [(SkEof, 0, 0)], ps_cursor = 0, ps_events = [], ps_reports = []\<rparr>"

definition current :: "(syntax_kind \<times> span) parse" where
  "current = (\<lambda>s. case idx (ps_tokens s) (ps_cursor s) of None \<Rightarrow> None | Some t \<Rightarrow> ok (t, s))"

definition at_kind :: "syntax_kind parse" where
  "at_kind = bindp current (\<lambda>(k, _). pure k)"

text \<open>\<open>&self.tokens[self.cursor + 1..]\<close> panics when the cursor is past the last token.\<close>

definition peek :: "syntax_kind option parse" where
  "peek = (\<lambda>s.
     if length (ps_tokens s) < ps_cursor s + 1 then None
     else ok (find (\<lambda>k. \<not> is_trivia k) (map fst (drop (ps_cursor s + 1) (ps_tokens s))), s))"

definition push_event :: "event \<Rightarrow> unit parse" where
  "push_event e = (\<lambda>s. ok ((), s\<lparr>ps_events := ps_events s @ [e]\<rparr>))"

definition add_report :: "report \<Rightarrow> unit parse" where
  "add_report r = (\<lambda>s. ok ((), s\<lparr>ps_reports := ps_reports s @ [r]\<rparr>))"

definition bump :: "unit parse" where
  "bump = bindp current (\<lambda>(k, sp). thenp (push_event (Token k sp))
     (\<lambda>s. ok ((), s\<lparr>ps_cursor := ps_cursor s + 1\<rparr>)))"

definition expect :: "syntax_kind \<Rightarrow> bool parse" where
  "expect kind = bindp at_kind (\<lambda>k.
     if k = kind then thenp bump (pure True)
     else thenp (add_report (Expected kind k)) (pure False))"

section \<open>Markers\<close>

definition start :: "syntax_kind \<Rightarrow> marker parse" where
  "start kind = (\<lambda>s. ok ((length (ps_events s), kind), s\<lparr>ps_events := ps_events s @ [Enter kind 0]\<rparr>))"

definition complete :: "marker \<Rightarrow> marker parse" where
  "complete m = thenp (push_event Exit) (pure m)"

definition set_event :: "nat \<Rightarrow> event \<Rightarrow> unit parse" where
  "set_event i e = (\<lambda>s. ok ((), s\<lparr>ps_events := (ps_events s)[i := e]\<rparr>))"

definition event_at :: "nat \<Rightarrow> event parse" where
  "event_at i = (\<lambda>s. case idx (ps_events s) i of None \<Rightarrow> None | Some e \<Rightarrow> ok (e, s))"

text \<open>The debug assertion: the event is still the tombstone the marker was started with.\<close>

definition retype :: "marker \<Rightarrow> syntax_kind \<Rightarrow> marker parse" where
  "retype m kind = bindp (event_at (fst m)) (\<lambda>e.
     if e = Enter SkTombstone 0 then thenp (set_event (fst m) (Enter kind 0)) (pure m) else (\<lambda>s. None))"

definition abandon :: "marker \<Rightarrow> unit parse" where
  "abandon m = bindp (event_at (fst m)) (\<lambda>e. case e of
     Enter k 0 \<Rightarrow> thenp (set_event (fst m) (Enter SkTombstone 0))
       (\<lambda>s. ok ((), if fst m = length (ps_events s) - 1 then s\<lparr>ps_events := butlast (ps_events s)\<rparr> else s))
   | _ \<Rightarrow> (\<lambda>s. None))"

definition precede :: "marker \<Rightarrow> syntax_kind \<Rightarrow> marker parse" where
  "precede c kind = bindp (start kind) (\<lambda>m. bindp (event_at (fst c)) (\<lambda>e. case e of
     Enter k _ \<Rightarrow> thenp (set_event (fst c) (Enter k (fst m - fst c))) (pure m)
   | _ \<Rightarrow> (\<lambda>s. None)))"

section \<open>Recovery\<close>

text \<open>Bump up to one of the given kinds or the end; every bump moves the cursor, so the loop ends.\<close>

function eat_loop :: "syntax_kind list \<Rightarrow> unit parse" where
  "eat_loop one_of s =
     (case idx (ps_tokens s) (ps_cursor s) of
        None \<Rightarrow> None
      | Some (k, sp) \<Rightarrow>
          if k \<noteq> SkEof \<and> k \<notin> set one_of
          then eat_loop one_of (s\<lparr>ps_events := ps_events s @ [Token k sp], ps_cursor := ps_cursor s + 1\<rparr>)
          else ok ((), s))"
  by pat_completeness auto
termination
  by (relation "measure (\<lambda>(_, s). length (ps_tokens s) - ps_cursor s)") (auto simp: idx_eq_Some_iff)

declare eat_loop.simps [simp del]

definition error_eat_until :: "syntax_kind list \<Rightarrow> unit parse" where
  "error_eat_until one_of = bindp (start SkInvalid) (\<lambda>m.
     thenp (eat_loop one_of) (thenp (complete m) (pure ())))"

section \<open>Operators\<close>

definition INDEX_BINDING_POWER :: int where "INDEX_BINDING_POWER = 22"

definition CALL_BINDING_POWER :: int where "CALL_BINDING_POWER = 22"

definition token_is_unary_op :: "syntax_kind \<Rightarrow> bool" where
  "token_is_unary_op t \<longleftrightarrow> t \<in> {SkNot, SkPlus, SkMinus, SkHash, SkTilde}"

text \<open>\<open>None\<close> where the source has \<open>unreachable!\<close>.\<close>

definition prefix_binding_power :: "syntax_kind \<Rightarrow> int option" where
  "prefix_binding_power op = (if token_is_unary_op op then Some 21 else None)"

definition infix_binding_power :: "syntax_kind \<Rightarrow> (int \<times> int) option" where
  "infix_binding_power op = (case op of
      SkOr \<Rightarrow> Some (1, 2)
    | SkAnd \<Rightarrow> Some (3, 4)
    | SkLAngle \<Rightarrow> Some (5, 6) | SkRAngle \<Rightarrow> Some (5, 6) | SkLEq \<Rightarrow> Some (5, 6)
    | SkGEq \<Rightarrow> Some (5, 6) | SkNotEq \<Rightarrow> Some (5, 6) | SkEq \<Rightarrow> Some (5, 6)
    | SkPipe \<Rightarrow> Some (7, 8)
    | SkTilde \<Rightarrow> Some (9, 10)
    | SkAmpersand \<Rightarrow> Some (11, 12)
    | SkDLAngle \<Rightarrow> Some (13, 14) | SkDRAngle \<Rightarrow> Some (13, 14)
    | SkDDot \<Rightarrow> Some (16, 15)
    | SkPlus \<Rightarrow> Some (17, 18) | SkMinus \<Rightarrow> Some (17, 18)
    | SkStar \<Rightarrow> Some (19, 20) | SkSlash \<Rightarrow> Some (19, 20) | SkDSlash \<Rightarrow> Some (19, 20) | SkPercent \<Rightarrow> Some (19, 20)
    | SkCaret \<Rightarrow> Some (22, 21)
    | SkDot \<Rightarrow> Some (24, 23) | SkColon \<Rightarrow> Some (24, 23)
    | _ \<Rightarrow> None)"

definition token_is_literal :: "syntax_kind \<Rightarrow> bool" where
  "token_is_literal t \<longleftrightarrow> t \<in> {SkNil, SkFalse, SkTrue, SkInt, SkHexInt, SkFloat, SkHexFloat, SkString, SkLongString}"

definition token_is_expr_start :: "syntax_kind \<Rightarrow> bool" where
  "token_is_expr_start t \<longleftrightarrow> t = SkIdent \<or> t = SkLParen \<or> token_is_literal t \<or> token_is_unary_op t
     \<or> t = SkLCurly \<or> t = SkFunction \<or> t = SkTDot"

end
