(* ===== verification/ParseRules.thy ===== *)
theory ParseRules
  imports Parser
begin

text \<open>
  \<open>parser/rules.rs\<close>: one definition per rule of the recursive-descent parser, and \<open>parse\<close> of
  \<open>parser/mod.rs\<close>. The recursion between rules goes through the record \<open>rules\<close> (theory end: \<open>rules_at\<close>),
  whose depth, like the rounds of a loop, is bounded by the number of steps the run is given.
\<close>

record rules =
  rl_expr :: "int \<Rightarrow> marker option parse"
  rl_stmt :: "marker option parse"
  rl_if :: "syntax_kind \<Rightarrow> marker option parse"
  rl_fuel :: nat

definition STATEMENT_RECOVERY :: "syntax_kind list" where
  "STATEMENT_RECOVERY = [SkDo, SkWhile, SkRepeat, SkIf, SkFor, SkReturn, SkBreak, SkFunction, SkLocal, SkGlobal]"

text \<open>\<open>Some(marker.complete(self))\<close>; a loop \<open>while cond { body }\<close>; \<open>if at == k { expect(k); m }\<close>.\<close>

definition completed :: "marker \<Rightarrow> marker option parse" where
  "completed m = bindp (complete m) (\<lambda>c. pure (Some c))"

definition while_kind :: "nat \<Rightarrow> (syntax_kind \<Rightarrow> bool) \<Rightarrow> unit parse \<Rightarrow> unit parse" where
  "while_kind n cond body = repeat_loop n (\<lambda>_. bindp at_kind (\<lambda>t.
     if cond t then thenp body (pure (Inl ())) else pure (Inr ()))) ()"

definition when_kind :: "syntax_kind \<Rightarrow> unit parse \<Rightarrow> unit parse" where
  "when_kind k body = bindp at_kind (\<lambda>t. if t = k then thenp (expect k) body else pure ())"

abbreviation ignore :: "'a parse \<Rightarrow> unit parse" where
  "ignore m \<equiv> thenp m (pure ())"

section \<open>Leaves\<close>

definition leaf :: "syntax_kind \<Rightarrow> syntax_kind \<Rightarrow> marker option parse" where
  "leaf node tok = bindp (start node) (\<lambda>m. thenp (expect tok) (completed m))"

definition r_ident :: "marker option parse" where "r_ident = leaf SkIdent SkIdent"

definition r_vararg :: "marker option parse" where "r_vararg = leaf SkVarArgExpr SkTDot"

definition r_literal :: "marker option parse" where
  "r_literal = bindp (start SkLiteralExpr) (\<lambda>m. bindp at_kind (\<lambda>k. thenp (expect k) (completed m)))"

definition r_break :: "marker option parse" where "r_break = leaf SkBreakStmt SkBreak"

definition r_semicolon :: "marker option parse" where "r_semicolon = leaf SkSemicolon SkSemicolon"

definition r_label :: "marker option parse" where
  "r_label = bindp (start SkLabel) (\<lambda>m.
     thenp (expect SkDColon) (thenp r_ident (thenp (expect SkDColon) (completed m))))"

definition r_goto :: "marker option parse" where
  "r_goto = bindp (start SkGoto) (\<lambda>m. thenp (expect SkGoto) (thenp r_ident (completed m)))"

section \<open>Expressions\<close>

definition r_expr :: "rules \<Rightarrow> marker option parse" where
  "r_expr r = rl_expr r 0"

definition r_expr_list :: "rules \<Rightarrow> unit parse" where
  "r_expr_list r = bindp (start SkExprList) (\<lambda>m.
     thenp (repeat_loop (rl_fuel r) (\<lambda>_. bindp at_kind (\<lambda>t.
         if token_is_expr_start t then
           thenp (r_expr r) (bindp at_kind (\<lambda>t.
             if t \<noteq> SkComma then pure (Inr ()) else thenp (expect SkComma) (pure (Inl ()))))
         else pure (Inr ()))) ())
       (ignore (complete m)))"

definition r_func_call_args :: "rules \<Rightarrow> marker option parse" where
  "r_func_call_args r = bindp (start SkFuncArgs) (\<lambda>m.
     thenp (expect SkLParen) (
     thenp (repeat_loop (rl_fuel r) (\<lambda>_. bindp at_kind (\<lambda>t.
         if t = SkRParen then thenp (expect SkRParen) (pure (Inr ()))
         else thenp (r_expr r) (bindp at_kind (\<lambda>t.
           if t = SkComma then thenp (expect SkComma) (pure (Inl ()))
           else thenp (expect SkRParen) (pure (Inr ())))))) ())
       (completed m)))"

definition r_method_call :: "rules \<Rightarrow> marker \<Rightarrow> marker option parse" where
  "r_method_call r m = thenp (expect SkColon) (
     tryp r_ident (\<lambda>_. tryp (r_func_call_args r) (\<lambda>_. completed m)))"

definition r_paren :: "rules \<Rightarrow> marker option parse" where
  "r_paren r = bindp (start SkExpr) (\<lambda>m.
     thenp (expect SkLParen) (tryp (r_expr r) (\<lambda>_. thenp (expect SkRParen) (completed m))))"

definition r_expr_unary :: "rules \<Rightarrow> marker option parse" where
  "r_expr_unary r = bindp (start SkPrefixOp) (\<lambda>n. bindp at_kind (\<lambda>op.
     thenp (expect op) (case prefix_binding_power op of
         None \<Rightarrow> (\<lambda>s. None)
       | Some r_bp \<Rightarrow> thenp (rl_expr r r_bp) (completed n))))"

text \<open>The parts of a chain \<open>t[e]\<close> and \<open>f(...)\<close> after the expression \<open>lhs\<close>.\<close>

definition index_suffix :: "rules \<Rightarrow> marker \<Rightarrow> marker option parse" where
  "index_suffix r lhs = bindp (precede lhs SkIndex) (\<lambda>n.
     thenp (expect SkLBracket) (tryp (r_expr r) (\<lambda>_. thenp (expect SkRBracket) (completed n))))"

definition call_suffix :: "rules \<Rightarrow> marker \<Rightarrow> marker option parse" where
  "call_suffix r lhs = bindp (precede lhs SkFuncCall) (\<lambda>n. tryp (r_func_call_args r) (\<lambda>_. completed n))"

definition method_suffix :: "rules \<Rightarrow> marker \<Rightarrow> marker option parse" where
  "method_suffix r lhs = bindp (precede lhs SkMethodCall) (r_method_call r)"

definition infix_suffix :: "rules \<Rightarrow> marker \<Rightarrow> syntax_kind \<Rightarrow> int \<Rightarrow> marker option parse" where
  "infix_suffix r lhs t r_bp = bindp (precede lhs SkBinOp) (\<lambda>n.
     thenp (expect t) (tryp (if t = SkDot then r_ident else rl_expr r r_bp) (\<lambda>_. completed n)))"

text \<open>Go on with the longer expression, or end the rule without a result.\<close>

definition grow_expr :: "marker option parse \<Rightarrow> (marker + marker option) parse" where
  "grow_expr m = bindp m (\<lambda>c. pure (case c of None \<Rightarrow> Inr None | Some lhs \<Rightarrow> Inl lhs))"

definition expr_step :: "rules \<Rightarrow> int \<Rightarrow> marker \<Rightarrow> (marker + marker option) parse" where
  "expr_step r min_bp lhs = bindp at_kind (\<lambda>t.
     if t = SkColon then grow_expr (method_suffix r lhs)
     else if t = SkLParen \<and> min_bp \<le> CALL_BINDING_POWER then grow_expr (call_suffix r lhs)
     else if t = SkLBracket \<and> min_bp \<le> INDEX_BINDING_POWER then grow_expr (index_suffix r lhs)
     else case infix_binding_power t of
         Some (l_bp, r_bp) \<Rightarrow>
           if l_bp < min_bp then pure (Inr (Some lhs)) else grow_expr (infix_suffix r lhs t r_bp)
       | None \<Rightarrow> pure (Inr (Some lhs)))"

section \<open>Blocks and functions\<close>

definition r_block :: "rules \<Rightarrow> (syntax_kind \<Rightarrow> bool) \<Rightarrow> marker option parse" where
  "r_block r stop = bindp (start SkStmtList) (\<lambda>m.
     thenp (while_kind (rl_fuel r) (\<lambda>t. \<not> stop t) (ignore (rl_stmt r))) (completed m))"

definition r_do :: "rules \<Rightarrow> marker option parse" where
  "r_do r = bindp (start SkDoStmt) (\<lambda>m.
     thenp (expect SkDo) (thenp (r_block r (\<lambda>t. t = SkEnd)) (thenp (expect SkEnd) (completed m))))"

definition r_while :: "rules \<Rightarrow> marker option parse" where
  "r_while r = bindp (start SkWhileStmt) (\<lambda>m.
     thenp (expect SkWhile) (thenp (r_expr r) (thenp (r_do r) (completed m))))"

definition r_repeat :: "rules \<Rightarrow> marker option parse" where
  "r_repeat r = bindp (start SkRepeatStmt) (\<lambda>m.
     thenp (expect SkRepeat) (thenp (r_block r (\<lambda>t. t = SkUntil)) (
     thenp (expect SkUntil) (thenp (r_expr r) (completed m)))))"

definition r_else :: "rules \<Rightarrow> marker option parse" where
  "r_else r = bindp (start SkElseChain) (\<lambda>m. bindp at_kind (\<lambda>t.
     thenp
       (if t = SkElse then thenp (expect SkElse) (thenp (r_block r (\<lambda>t. t = SkEnd)) (ignore (expect SkEnd)))
        else if t = SkElseIf then ignore (rl_if r SkElseIf)
        else (\<lambda>s. None))
       (completed m)))"

definition r_if :: "rules \<Rightarrow> syntax_kind \<Rightarrow> marker option parse" where
  "r_if r if_kind = bindp (start SkIfStmt) (\<lambda>m.
     thenp (expect if_kind) (thenp (r_expr r) (thenp (expect SkThen) (
     thenp (r_block r (\<lambda>t. t \<in> {SkEnd, SkElseIf, SkElse})) (bindp at_kind (\<lambda>t.
       if t = SkEnd then thenp (expect SkEnd) (completed m)
       else if t = SkElseIf \<or> t = SkElse then thenp (r_else r) (completed m)
       else thenp (add_report (ExpectedOneOf [SkEnd, SkElseIf, SkElse] t)) (pure None)))))))"

definition r_num_for :: "rules \<Rightarrow> marker \<Rightarrow> marker option parse" where
  "r_num_for r m = thenp (expect SkAssign) (thenp (r_expr r) (thenp (expect SkComma) (thenp (r_expr r) (
     thenp (when_kind SkComma (ignore (r_expr r))) (thenp (r_do r) (
     bindp (retype m SkForNumStmt) completed))))))"

definition r_gen_for :: "rules \<Rightarrow> marker \<Rightarrow> marker \<Rightarrow> marker option parse" where
  "r_gen_for r m list_marker =
     thenp (while_kind (rl_fuel r) (\<lambda>t. t = SkComma) (thenp (expect SkComma) (ignore r_ident))) (
     thenp (complete list_marker) (thenp (expect SkIn) (thenp (r_expr_list r) (thenp (r_do r) (
     bindp (retype m SkForGenStmt) completed)))))"

definition r_for :: "rules \<Rightarrow> marker option parse" where
  "r_for r = bindp (start SkTombstone) (\<lambda>m. thenp (expect SkFor) (
     bindp (start SkAssignList) (\<lambda>lm. thenp r_ident (bindp at_kind (\<lambda>t.
       if t = SkAssign then thenp (abandon lm) (r_num_for r m) else r_gen_for r m lm)))))"

definition r_return :: "rules \<Rightarrow> marker option parse" where
  "r_return r = bindp (start SkReturnStmt) (\<lambda>m.
     thenp (expect SkReturn) (thenp (r_expr_list r) (completed m)))"

text \<open>One parameter and what follows it; \<open>None\<close> for the early return on an unexpected token.\<close>

definition param_step :: "unit \<Rightarrow> (unit + unit option) parse" where
  "param_step _ = bindp at_kind (\<lambda>t.
     if t = SkRParen then thenp (expect SkRParen) (pure (Inr (Some ())))
     else if t = SkTDot then
       bindp (start SkVarArgParam) (\<lambda>v. thenp (expect SkTDot) (
         thenp (bindp at_kind (\<lambda>t. if t = SkIdent then ignore r_ident else pure ())) (
         thenp (complete v) (thenp (expect SkRParen) (pure (Inr (Some ())))))))
     else if t = SkIdent then
       thenp r_ident (bindp at_kind (\<lambda>t.
         if t = SkComma then thenp (expect SkComma) (pure (Inl ()))
         else thenp (expect SkRParen) (pure (Inr (Some ())))))
     else thenp (add_report (ExpectedOneOf [SkRParen, SkTDot, SkIdent] t)) (pure (Inr None)))"

definition r_func_def_args :: "rules \<Rightarrow> marker option parse" where
  "r_func_def_args r = bindp (start SkFuncArgs) (\<lambda>m.
     thenp (expect SkLParen) (tryp (repeat_loop (rl_fuel r) param_step ()) (\<lambda>_. completed m)))"

text \<open>A variable, field or call chain; \<open>allow_call\<close> when calls may be part of it.\<close>

definition simple_step :: "rules \<Rightarrow> bool \<Rightarrow> marker \<Rightarrow> (marker + marker option) parse" where
  "simple_step r allow_call lhs = bindp at_kind (\<lambda>t.
     if t = SkLParen \<and> allow_call then grow_expr (call_suffix r lhs)
     else if t = SkLBracket then grow_expr (index_suffix r lhs)
     else if t = SkColon then grow_expr (method_suffix r lhs)
     else if t = SkDot then
       bindp (precede lhs SkBinOp) (\<lambda>n. thenp (expect t) (thenp r_ident (
         bindp (complete n) (\<lambda>c. pure (Inl c)))))
     else pure (Inr (Some lhs)))"

definition r_simple_expr :: "rules \<Rightarrow> bool \<Rightarrow> marker option parse" where
  "r_simple_expr r allow_call = bindp at_kind (\<lambda>t.
     if t = SkLParen then r_expr r
     else tryp r_ident (repeat_loop (rl_fuel r) (simple_step r allow_call)))"

definition r_func :: "rules \<Rightarrow> bool \<Rightarrow> marker option parse" where
  "r_func r is_expr = bindp (start (if is_expr then SkFuncExpr else SkFuncStmt)) (\<lambda>m.
     thenp (expect SkFunction) (
     thenp (if is_expr then pure () else ignore (r_simple_expr r False)) (
     thenp (r_func_def_args r) (thenp (r_block r (\<lambda>t. t = SkEnd)) (
     thenp (expect SkEnd) (completed m))))))"

section \<open>Tables\<close>

definition r_table_elem_array :: "rules \<Rightarrow> marker option parse" where
  "r_table_elem_array r = bindp (start SkTableArrayElem) (\<lambda>m. thenp (r_expr r) (completed m))"

definition r_table_elem_map :: "rules \<Rightarrow> marker option parse" where
  "r_table_elem_map r = bindp (start SkTableMapElem) (\<lambda>m.
     thenp r_ident (thenp (expect SkAssign) (thenp (r_expr r) (completed m))))"

definition r_table_elem_generic :: "rules \<Rightarrow> marker option parse" where
  "r_table_elem_generic r = bindp (start SkTableGenericElem) (\<lambda>m.
     thenp (expect SkLBracket) (thenp (r_expr r) (thenp (expect SkRBracket) (
     thenp (expect SkAssign) (thenp (r_expr r) (completed m))))))"

definition r_table_elem :: "rules \<Rightarrow> marker option parse" where
  "r_table_elem r = bindp at_kind (\<lambda>t. bindp (if t = SkIdent then peek else pure None) (\<lambda>p.
     if t = SkIdent \<and> p = Some SkAssign then r_table_elem_map r
     else if t = SkLBracket then r_table_elem_generic r
     else if token_is_expr_start t then r_table_elem_array r
     else thenp (add_report (ExpectedOneOf [SkIdent, SkLBracket, SkExpr] t)) (pure None)))"

definition r_table :: "rules \<Rightarrow> marker option parse" where
  "r_table r = bindp (start SkTableExpr) (\<lambda>m. thenp (expect SkLCurly) (
     thenp (repeat_loop (rl_fuel r) (\<lambda>_. bindp at_kind (\<lambda>t.
         if t = SkRCurly then thenp (expect SkRCurly) (pure (Inr ()))
         else thenp (r_table_elem r) (bindp at_kind (\<lambda>t.
           if t = SkComma \<or> t = SkSemicolon then thenp (expect t) (pure (Inl ()))
           else thenp (expect SkRCurly) (pure (Inr ())))))) ())
       (completed m)))"

definition r_expr_lhs :: "rules \<Rightarrow> marker option parse" where
  "r_expr_lhs r = bindp at_kind (\<lambda>t.
     if t = SkIdent then r_ident
     else if t = SkTDot then r_vararg
     else if t = SkLCurly then r_table r
     else if t = SkLParen then r_paren r
     else if t = SkFunction then r_func r True
     else if token_is_unary_op t then r_expr_unary r
     else if token_is_literal t then r_literal
     else pure None)"

definition r_expr_inner :: "rules \<Rightarrow> int \<Rightarrow> marker option parse" where
  "r_expr_inner r min_bp = tryp (r_expr_lhs r) (repeat_loop (rl_fuel r) (expr_step r min_bp))"

section \<open>Statements\<close>

definition r_assign :: "rules \<Rightarrow> marker \<Rightarrow> marker \<Rightarrow> marker option parse" where
  "r_assign r m list_marker =
     thenp (while_kind (rl_fuel r) (\<lambda>t. t = SkComma) (thenp (expect SkComma) (ignore (r_simple_expr r True)))) (
     thenp (complete list_marker) (thenp (expect SkAssign) (thenp (r_expr_list r) (completed m))))"

definition r_maybe_assign :: "rules \<Rightarrow> marker option parse" where
  "r_maybe_assign r = bindp (start SkAssignStmt) (\<lambda>am. bindp (start SkAssignList) (\<lambda>lm.
     bindp (r_simple_expr r True) (\<lambda>em. bindp at_kind (\<lambda>t.
       if t = SkAssign \<or> t = SkComma then r_assign r am lm
       else thenp (abandon lm) (thenp (abandon am) (
         thenp (case em of
             Some c \<Rightarrow> if snd c \<noteq> SkFuncCall \<and> snd c \<noteq> SkMethodCall then add_report NotACall else pure ()
           | None \<Rightarrow> pure ())
         (pure em)))))))"

definition r_attrib :: "unit parse" where
  "r_attrib = bindp at_kind (\<lambda>t. if t = SkConst \<or> t = SkClose then ignore (expect t) else pure ())"

definition r_decl_target :: "marker option parse" where
  "r_decl_target = bindp (start SkDeclTarget) (\<lambda>m. thenp r_ident (thenp r_attrib (completed m)))"

definition r_global_attrib :: "unit parse" where
  "r_global_attrib = bindp at_kind (\<lambda>t.
     if t = SkConst then ignore (expect t)
     else if t = SkClose then thenp (add_report GlobalClose) (ignore (expect t))
     else pure ())"

definition r_global_target :: "marker option parse" where
  "r_global_target = bindp (start SkGlobalTarget) (\<lambda>m. thenp r_ident (thenp r_global_attrib (completed m)))"

text \<open>A list of targets and the optional values, common to \<open>local\<close> and \<open>global\<close>.\<close>

definition declared_list :: "rules \<Rightarrow> marker option parse \<Rightarrow> unit parse" where
  "declared_list r target = bindp (start SkAssignList) (\<lambda>lm.
     thenp target (
     thenp (while_kind (rl_fuel r) (\<lambda>t. t = SkComma) (thenp (expect SkComma) (ignore target))) (
     thenp (complete lm) (when_kind SkAssign (r_expr_list r)))))"

definition r_decl :: "rules \<Rightarrow> marker option parse" where
  "r_decl r = bindp (start SkDeclStmt) (\<lambda>m. thenp (expect SkLocal) (bindp at_kind (\<lambda>t.
     thenp (if t = SkFunction then ignore (r_func r False) else declared_list r r_decl_target) (completed m))))"

definition r_global :: "rules \<Rightarrow> marker option parse" where
  "r_global r = bindp (start SkGlobalStmt) (\<lambda>m. thenp (expect SkGlobal) (bindp at_kind (\<lambda>t.
     thenp
       (if t = SkFunction then ignore (r_func r False)
        else thenp r_global_attrib (bindp at_kind (\<lambda>t.
          if t = SkStar then ignore (expect SkStar) else declared_list r r_global_target)))
       (completed m))))"

definition stmt_rule :: "rules \<Rightarrow> syntax_kind \<Rightarrow> marker option parse" where
  "stmt_rule r t = (case t of
      SkDo \<Rightarrow> r_do r
    | SkWhile \<Rightarrow> r_while r
    | SkRepeat \<Rightarrow> r_repeat r
    | SkIf \<Rightarrow> r_if r SkIf
    | SkFor \<Rightarrow> r_for r
    | SkReturn \<Rightarrow> r_return r
    | SkBreak \<Rightarrow> r_break
    | SkFunction \<Rightarrow> r_func r False
    | SkLocal \<Rightarrow> r_decl r
    | SkGlobal \<Rightarrow> r_global r
    | SkDColon \<Rightarrow> r_label
    | SkGoto \<Rightarrow> r_goto
    | SkIdent \<Rightarrow> r_maybe_assign r
    | SkLParen \<Rightarrow> r_maybe_assign r
    | SkSemicolon \<Rightarrow> r_semicolon
    | _ \<Rightarrow> pure None)"

definition r_stmt :: "rules \<Rightarrow> marker option parse" where
  "r_stmt r = bindp at_kind (\<lambda>t. bindp (stmt_rule r t) (\<lambda>c. case c of
      Some m \<Rightarrow> pure (Some m)
    | None \<Rightarrow> bindp at_kind (\<lambda>t.
        if t = SkEof then pure None
        else thenp (error_eat_until STATEMENT_RECOVERY) (thenp (add_report ExpectedStatement) (rl_stmt r)))))"

section \<open>The recursion and the entry point\<close>

fun rules_at :: "nat \<Rightarrow> rules" where
  "rules_at 0 = \<lparr>rl_expr = (\<lambda>_. unfinished_parse), rl_stmt = unfinished_parse,
     rl_if = (\<lambda>_. unfinished_parse), rl_fuel = 0\<rparr>"
| "rules_at (Suc n) = (let r = rules_at n in
     \<lparr>rl_expr = r_expr_inner r, rl_stmt = r_stmt r, rl_if = r_if r, rl_fuel = n\<rparr>)"

declare rules_at.simps [simp del]

definition r_items :: "rules \<Rightarrow> unit parse" where
  "r_items r = repeat_loop (rl_fuel r) (\<lambda>_. bindp at_kind (\<lambda>t.
     if t = SkEof then pure (Inr ())
     else bindp (rl_stmt r) (\<lambda>c. pure (if c = None then Inr () else Inl ())))) ()"

definition root :: "rules \<Rightarrow> unit parse" where
  "root r = bindp (start SkRoot) (\<lambda>m. thenp (r_items r) (ignore (complete m)))"

text \<open>The state after \<open>n\<close> steps at most, from the tokens of the lexer.\<close>

definition run_parser :: "nat \<Rightarrow> (syntax_kind \<times> span) list \<Rightarrow> (unit, pstate) outcome" where
  "run_parser n lexed = and_then (root (rules_at n) (state_new lexed)) (\<lambda>(_, s). ok s)"

end
