(* ===== verification/ParseFrame.thy ===== *)
theory ParseFrame
  imports ParseRules "HOL-Library.Sublist"
begin

text \<open>
  The invariant of the parser and the frame in which a rule runs: relative to the state it started
  from, a rule only adds events, keeps its own open markers as started, and emits every token it
  passes, once and in order. The Hoare rules here say it of the primitives of theory Parser.
\<close>

named_theorems frame_rules \<open>Hoare rules of the primitives and the rules of the grammar\<close>

section \<open>The invariant\<close>

fun toks :: "event list \<Rightarrow> (syntax_kind \<times> span) list" where
  "toks [] = []"
| "toks (Token k sp # es) = (k, sp) # toks es"
| "toks (_ # es) = toks es"

lemma toks_append [simp]: "toks (es @ fs) = toks es @ toks fs"
  by (induction es rule: toks.induct) simp_all

definition is_enter :: "event \<Rightarrow> bool" where
  "is_enter e \<longleftrightarrow> (\<exists>k n. e = Enter k n)"

lemma toks_update_enter: "i < length es \<Longrightarrow> is_enter (es ! i) \<Longrightarrow> toks (es[i := Enter k n]) = toks es"
proof (induction es arbitrary: i)
  case (Cons e es)
  then show ?case by (cases i; cases e) (auto simp: is_enter_def)
qed simp

text \<open>
  The links of preceded nodes: the event at \<open>t\<close> is the target of one; every target is an entered
  node. Of the markers that are abandoned, none is ever the target of a link.
\<close>

definition linked :: "event list \<Rightarrow> nat \<Rightarrow> bool" where
  "linked es t \<longleftrightarrow> (\<exists>i k p. i < length es \<and> es ! i = Enter k p \<and> p \<noteq> 0 \<and> i + p = t)"

definition links_ok :: "event list \<Rightarrow> bool" where
  "links_ok es \<longleftrightarrow> (\<forall>t. linked es t \<longrightarrow> t < length es \<and> is_enter (es ! t))"

definition abandonable :: "syntax_kind \<Rightarrow> bool" where
  "abandonable k \<longleftrightarrow> k = SkAssignList \<or> k = SkAssignStmt"

lemma links_ok_Nil [simp]: "links_ok []"
  by (simp add: links_ok_def linked_def)

lemma linkedE:
  assumes "linked es t"
  obtains i k p where "i < length es" and "es ! i = Enter k p" and "p \<noteq> 0" and "t = i + p"
  using assms unfolding linked_def by blast

lemma linkedI: "i < length es \<Longrightarrow> es ! i = Enter k p \<Longrightarrow> p \<noteq> 0 \<Longrightarrow> linked es (i + p)"
  unfolding linked_def by blast

lemma linked_append: "linked es t \<Longrightarrow> linked (es @ fs) t"
  by (erule linkedE) (use linkedI [of _ "es @ fs"] in \<open>simp add: nth_append\<close>)

lemma linked_forward:
  assumes "linked (es @ fs) t" and "t \<le> length es"
  shows "linked es t"
  using assms(1)
proof (rule linkedE)
  fix i k p
  assume i: "(es @ fs) ! i = Enter k p" "p \<noteq> 0" "t = i + p"
  then have "i < length es" using assms(2) by simp
  then show ?thesis using i linkedI [of i es] by (simp add: nth_append)
qed

lemma linked_push:
  assumes "linked (es @ [e]) t" and "e = Enter k 0 \<or> \<not> is_enter e"
  shows "linked es t"
  using assms(1)
proof (rule linkedE)
  fix i j p
  assume i: "i < length (es @ [e])" "(es @ [e]) ! i = Enter j p" "p \<noteq> 0" "t = i + p"
  have "i < length es"
  proof (rule ccontr)
    assume "\<not> i < length es"
    then have "e = Enter j p" using i(1,2) by (simp add: nth_append split: if_splits)
    then show False using assms(2) i(3) by (auto simp: is_enter_def)
  qed
  then show ?thesis using i linkedI [of i es] by (simp add: nth_append)
qed

lemma links_okD: "links_ok es \<Longrightarrow> linked es t \<Longrightarrow> t < length es \<and> is_enter (es ! t)"
  by (simp add: links_ok_def)

lemma links_ok_push:
  assumes "links_ok es" and "e = Enter k 0 \<or> \<not> is_enter e"
  shows "links_ok (es @ [e])"
  unfolding links_ok_def
proof (intro allI impI)
  fix t
  assume "linked (es @ [e]) t"
  then have "t < length es \<and> is_enter (es ! t)" using links_okD [OF assms(1) linked_push [OF _ assms(2)]] by blast
  then show "t < length (es @ [e]) \<and> is_enter ((es @ [e]) ! t)" by (simp add: nth_append)
qed

lemma links_ok_pushed [simp]:
  "links_ok es \<Longrightarrow> links_ok (es @ [Enter k 0])" "links_ok es \<Longrightarrow> links_ok (es @ [Token k sp])"
  "links_ok es \<Longrightarrow> links_ok (es @ [Exit])"
  by (rule links_ok_push; simp add: is_enter_def)+

lemma linked_update:
  assumes "linked (es[i := Enter k n]) t"
  shows "linked es t \<or> n \<noteq> 0 \<and> t = i + n"
  using assms
proof (rule linkedE)
  fix j k' p
  assume j: "j < length (es[i := Enter k n])" "es[i := Enter k n] ! j = Enter k' p" "p \<noteq> 0" "t = j + p"
  show ?thesis
  proof (cases "j = i")
    case True
    then show ?thesis using j by simp
  next
    case False
    then show ?thesis using j linkedI [of j es] by simp
  qed
qed

lemma links_ok_update:
  assumes "links_ok es" and "i < length es" and "n \<noteq> 0 \<Longrightarrow> i + n < length es \<and> is_enter (es ! (i + n))"
  shows "links_ok (es[i := Enter k n])"
  unfolding links_ok_def
proof (intro allI impI)
  fix t
  assume "linked (es[i := Enter k n]) t"
  then have "t < length es \<and> is_enter (es ! t)"
    using linked_update [of es i k n t] links_okD [OF assms(1)] assms(3) by blast
  then show "t < length (es[i := Enter k n]) \<and> is_enter (es[i := Enter k n] ! t)"
    by (cases "t = i") (simp_all add: is_enter_def)
qed

lemma links_ok_pop:
  assumes "links_ok (es @ [e])" and "\<not> linked (es @ [e]) (length es)"
  shows "links_ok es"
  unfolding links_ok_def
proof (intro allI impI)
  fix t
  assume "linked es t"
  then have l: "linked (es @ [e]) t" by (rule linked_append)
  then have "t < length (es @ [e])" "is_enter ((es @ [e]) ! t)" using links_okD [OF assms(1)] by blast+
  moreover have "t \<noteq> length es" using l assms(2) by blast
  ultimately show "t < length es \<and> is_enter (es ! t)" by (simp add: nth_append split: if_splits)
qed

definition ended :: "(syntax_kind \<times> span) list \<Rightarrow> bool" where
  "ended ts \<longleftrightarrow> ts \<noteq> [] \<and> fst (last ts) = SkEof"

definition pinv :: "pstate \<Rightarrow> bool" where
  "pinv s \<longleftrightarrow> ended (ps_tokens s) \<and> ps_cursor s < length (ps_tokens s)
     \<and> toks (ps_events s) = take (ps_cursor s) (ps_tokens s) \<and> links_ok (ps_events s)"

definition at_tok :: "pstate \<Rightarrow> syntax_kind" where
  "at_tok s = fst (ps_tokens s ! ps_cursor s)"

lemma not_eof_room: "pinv s \<Longrightarrow> at_tok s \<noteq> SkEof \<Longrightarrow> ps_cursor s + 1 < length (ps_tokens s)"
proof (rule ccontr)
  assume a: "pinv s" "at_tok s \<noteq> SkEof" "\<not> ps_cursor s + 1 < length (ps_tokens s)"
  from a(1) have l: "ps_tokens s \<noteq> []" "fst (last (ps_tokens s)) = SkEof" "ps_cursor s < length (ps_tokens s)"
    by (simp_all add: pinv_def ended_def)
  from l(3) a(3) have "ps_cursor s = length (ps_tokens s) - 1" by linarith
  then have "at_tok s = fst (last (ps_tokens s))" by (simp add: at_tok_def last_conv_nth [OF l(1)])
  with l(2) a(2) show False by simp
qed

section \<open>Frames\<close>

definition extends :: "pstate \<Rightarrow> pstate \<Rightarrow> bool" where
  "extends s s' \<longleftrightarrow> ps_tokens s' = ps_tokens s \<and> ps_cursor s \<le> ps_cursor s' \<and> prefix (ps_events s) (ps_events s')"

text \<open>The open markers, the latest first: positions and kinds of their untouched events.\<close>

definition opened :: "pstate \<Rightarrow> marker list \<Rightarrow> pstate \<Rightarrow> bool" where
  "opened s0 ms s \<longleftrightarrow> sorted_wrt (\<lambda>a b. fst b < fst a) ms
     \<and> (\<forall>(p, k) \<in> set ms. length (ps_events s0) \<le> p \<and> p < length (ps_events s) \<and> ps_events s ! p = Enter k 0
       \<and> (abandonable k \<longrightarrow> \<not> linked (ps_events s) p))"

definition fr :: "pstate \<Rightarrow> marker list \<Rightarrow> pstate \<Rightarrow> bool" where
  "fr s0 ms s \<longleftrightarrow> pinv s \<and> extends s0 s \<and> opened s0 ms s"

definition frk :: "pstate \<Rightarrow> marker list \<Rightarrow> syntax_kind \<Rightarrow> pstate \<Rightarrow> bool" where
  "frk s0 ms k s \<longleftrightarrow> fr s0 ms s \<and> at_tok s = k"

text \<open>The result \<open>c\<close> of a rule: a node that was entered after every open marker.\<close>

definition node :: "pstate \<Rightarrow> marker list \<Rightarrow> marker \<Rightarrow> pstate \<Rightarrow> bool" where
  "node s0 ms c s \<longleftrightarrow> length (ps_events s0) \<le> fst c \<and> (\<forall>m \<in> set ms. fst m < fst c)
     \<and> fst c < length (ps_events s) \<and> is_enter (ps_events s ! fst c)"

definition made :: "pstate \<Rightarrow> marker list \<Rightarrow> marker option \<Rightarrow> pstate \<Rightarrow> bool" where
  "made s0 ms c s \<longleftrightarrow> fr s0 ms s \<and> (\<forall>m. c = Some m \<longrightarrow> node s0 ms m s)"

lemma extends_refl [simp]: "extends s s"
  by (simp add: extends_def)

lemma extends_trans: "extends s s' \<Longrightarrow> extends s' s'' \<Longrightarrow> extends s s''"
  by (auto simp: extends_def intro: prefix_order.trans)

lemma prefix_nth_same: "prefix xs ys \<Longrightarrow> i < length xs \<Longrightarrow> ys ! i = xs ! i"
  by (auto simp: prefix_def nth_append)

lemma opened_extends:
  assumes "opened s0 ms s" and "extends s s'"
  shows "opened s0 ms s'"
proof -
  have p: "prefix (ps_events s) (ps_events s')" using assms(2) by (simp add: extends_def)
  have "linked (ps_events s) t" if "linked (ps_events s') t" "t < length (ps_events s)" for t
    using p that linked_forward [of "ps_events s"] by (auto simp: prefix_def)
  then show ?thesis using assms(1) prefix_nth_same [OF p] prefix_length_le [OF p]
    unfolding opened_def by (fastforce simp: case_prod_beta)
qed

lemma fr_self: "pinv s \<Longrightarrow> fr s [] s"
  by (simp add: fr_def opened_def)

lemma fr_call: "fr s0 ms s \<Longrightarrow> fr s [] s' \<Longrightarrow> fr s0 ms s'"
  using extends_trans opened_extends by (auto simp: fr_def)

lemma made_call:
  assumes "fr s0 ms s" and "made s [] c s'"
  shows "made s0 ms c s'"
proof -
  have f: "fr s0 ms s'" using assms fr_call by (simp add: made_def)
  have l: "length (ps_events s0) \<le> length (ps_events s)"
    using assms(1) by (auto simp: fr_def extends_def dest: prefix_length_le)
  have "\<forall>m \<in> set ms. fst m < length (ps_events s)" using assms(1) by (auto simp: fr_def opened_def)
  then show ?thesis using assms(2) f l by (fastforce simp: made_def node_def)
qed

section \<open>Hoare triples\<close>

definition hoare :: "(pstate \<Rightarrow> bool) \<Rightarrow> 'a parse \<Rightarrow> ('a \<Rightarrow> pstate \<Rightarrow> bool) \<Rightarrow> bool" where
  "hoare P m Q \<longleftrightarrow> (\<forall>s. P s \<longrightarrow> (case m s of None \<Rightarrow> False | Some (Inl _) \<Rightarrow> True | Some (Inr (x, s')) \<Rightarrow> Q x s'))"

lemma hoare_pre: "hoare P m Q \<Longrightarrow> (\<And>s. P' s \<Longrightarrow> P s) \<Longrightarrow> hoare P' m Q"
  by (simp add: hoare_def)

lemma hoare_post: "hoare P m Q \<Longrightarrow> (\<And>x s. Q x s \<Longrightarrow> Q' x s) \<Longrightarrow> hoare P m Q'"
  by (fastforce simp: hoare_def split: option.splits sum.splits)

lemma hoare_pure: "(\<And>s. P s \<Longrightarrow> Q x s) \<Longrightarrow> hoare P (pure x) Q"
  by (simp add: hoare_def pure_def)

lemma hoare_bind:
  assumes "hoare P m R" and "\<And>x. hoare (R x) (f x) Q"
  shows "hoare P (bindp m f) Q"
  unfolding hoare_def
proof (intro allI impI)
  fix s
  assume s: "P s"
  show "case bindp m f s of None \<Rightarrow> False | Some (Inl _) \<Rightarrow> True | Some (Inr (x, s')) \<Rightarrow> Q x s'"
  proof (cases "m s")
    case None
    then show ?thesis using assms(1) s by (auto simp: hoare_def)
  next
    case (Some r)
    then show ?thesis using assms s
      by (cases r) (fastforce simp: hoare_def bindp_def)+
  qed
qed

lemma hoare_try:
  assumes "hoare P m (\<lambda>c. R c)" and "\<And>x. hoare (R (Some x)) (f x) Q" and "\<And>s. R None s \<Longrightarrow> Q None s"
  shows "hoare P (tryp m f) Q"
  unfolding tryp_def by (rule hoare_bind [OF assms(1)]) (auto intro: assms hoare_pure split: option.split)

lemma hoare_loop:
  assumes "\<And>x. hoare (I x) (body x) (\<lambda>r s. case r of Inl y \<Rightarrow> I y s | Inr z \<Rightarrow> Q z s)"
  shows "hoare (I x) (repeat_loop n body x) Q"
proof (induction n arbitrary: x)
  case 0
  then show ?case by (simp add: hoare_def unfinished_parse_def)
next
  case (Suc n)
  show ?case unfolding repeat_loop.simps
    by (rule hoare_bind [OF assms]) (auto intro: Suc.IH hoare_pure split: sum.split)
qed

lemma hoare_if: "(b \<Longrightarrow> hoare P m Q) \<Longrightarrow> (\<not> b \<Longrightarrow> hoare P m' Q) \<Longrightarrow> hoare P (if b then m else m') Q"
  by simp

lemma frk_fr: "hoare (fr s0 ms) m Q \<Longrightarrow> hoare (frk s0 ms k) m Q"
  by (erule hoare_pre) (simp add: frk_def)

section \<open>Primitives\<close>

lemma fr_drop: "fr s0 (m # ms) s \<Longrightarrow> fr s0 ms s"
  by (auto simp: fr_def opened_def)

lemma fr_nil: "fr s0 ms s \<Longrightarrow> fr s0 [] s"
  by (simp add: fr_def opened_def)

lemma current_fr: "fr s0 ms s \<Longrightarrow> current s = ok (ps_tokens s ! ps_cursor s, s)"
  by (simp add: fr_def pinv_def current_def idx_Some)

lemma at_kind_fr: "fr s0 ms s \<Longrightarrow> at_kind s = ok (at_tok s, s)"
  by (simp add: at_kind_def bindp_def pure_def current_fr at_tok_def case_prod_beta)

lemma bind_at: "(\<And>k. hoare (frk s0 ms k) (f k) Q) \<Longrightarrow> hoare (fr s0 ms) (bindp at_kind f) Q"
  by (simp add: hoare_def bindp_def at_kind_fr frk_def)

lemma bind_at_known: "hoare (frk s0 ms k) (f k) Q \<Longrightarrow> hoare (frk s0 ms k) (bindp at_kind f) Q"
  by (auto simp: hoare_def bindp_def at_kind_fr frk_def)

lemma pushed:
  assumes "fr s0 ms s" and "ps_tokens s' = ps_tokens s" and "ps_events s' = ps_events s @ [e]"
    and "ps_cursor s \<le> ps_cursor s'" and "pinv s'"
  shows "fr s0 ms s'"
proof -
  have e: "extends s s'" using assms by (simp add: extends_def)
  then have "extends s0 s'" "opened s0 ms s'"
    using assms(1) extends_trans opened_extends by (auto simp: fr_def)
  then show ?thesis using assms(5) by (simp add: fr_def)
qed

lemma bump_fr:
  assumes "fr s0 ms s" and "at_tok s \<noteq> SkEof"
  obtains s' where "bump s = ok ((), s')" and "fr s0 ms s'"
proof -
  obtain k sp where t: "ps_tokens s ! ps_cursor s = (k, sp)" by (cases "ps_tokens s ! ps_cursor s")
  let ?s = "s\<lparr>ps_events := ps_events s @ [Token k sp], ps_cursor := ps_cursor s + 1\<rparr>"
  have p: "pinv s" using assms(1) by (simp add: fr_def)
  have "pinv ?s" using p not_eof_room [OF p assms(2)] t by (simp add: pinv_def take_Suc_conv_app_nth)
  then have "fr s0 ms ?s" by (intro pushed [OF assms(1)]) auto
  moreover have "bump s = ok ((), ?s)"
    using current_fr [OF assms(1)] t by (simp add: bump_def bindp_def push_event_def)
  ultimately show ?thesis using that by blast
qed

lemma report_fr: "fr s0 ms s \<Longrightarrow> fr s0 ms (s\<lparr>ps_reports := x\<rparr>)"
  by (auto simp: fr_def extends_def opened_def pinv_def)

lemma expect_fr: "kind \<noteq> SkEof \<Longrightarrow> hoare (fr s0 ms) (expect kind) (\<lambda>_. fr s0 ms)"
  unfolding hoare_def
proof (intro allI impI)
  fix s
  assume k: "kind \<noteq> SkEof" and s: "fr s0 ms s"
  show "case expect kind s of None \<Rightarrow> False | Some (Inl _) \<Rightarrow> True | Some (Inr (x, s')) \<Rightarrow> fr s0 ms s'"
  proof (cases "at_tok s = kind")
    case True
    then obtain s' where "bump s = ok ((), s')" "fr s0 ms s'" using bump_fr [OF s] k by auto
    then show ?thesis using True by (simp add: expect_def bindp_def at_kind_fr [OF s] pure_def)
  next
    case False
    then show ?thesis using report_fr [OF s]
      by (simp add: expect_def bindp_def at_kind_fr [OF s] pure_def add_report_def)
  qed
qed

section \<open>Rules and their calls\<close>

text \<open>A rule of the grammar keeps every frame it is called in, and a node it returns is its own.\<close>

definition rule_ok :: "marker option parse \<Rightarrow> bool" where
  "rule_ok m \<longleftrightarrow> (\<forall>s0 ms. hoare (fr s0 ms) m (made s0 ms))"

definition unit_ok :: "'a parse \<Rightarrow> bool" where
  "unit_ok m \<longleftrightarrow> (\<forall>s0 ms. hoare (fr s0 ms) m (\<lambda>_. fr s0 ms))"

text \<open>A rule that is only called at a token of kind \<open>k\<close>.\<close>

definition rule_at :: "syntax_kind \<Rightarrow> marker option parse \<Rightarrow> bool" where
  "rule_at k m \<longleftrightarrow> (\<forall>s0 ms. hoare (frk s0 ms k) m (made s0 ms))"

lemma hoare_call:
  assumes "\<And>s0. hoare (\<lambda>s. fr s0 [] s \<and> P s) m (Q s0)" and "\<And>s x s'. fr s0 ms s \<Longrightarrow> Q s x s' \<Longrightarrow> R x s'"
  shows "hoare (\<lambda>s. fr s0 ms s \<and> P s) m R"
  unfolding hoare_def
proof (intro allI impI)
  fix s
  assume s: "fr s0 ms s \<and> P s"
  have "fr s [] s" using s by (intro fr_self) (simp add: fr_def)
  then have "case m s of None \<Rightarrow> False | Some (Inl _) \<Rightarrow> True | Some (Inr (x, s')) \<Rightarrow> Q s x s'"
    using assms(1) [of s] s by (simp add: hoare_def)
  then show "case m s of None \<Rightarrow> False | Some (Inl _) \<Rightarrow> True | Some (Inr (x, s')) \<Rightarrow> R x s'"
    using assms(2) s by (auto split: option.splits sum.splits)
qed

lemma rule_okI: "(\<And>s0. hoare (fr s0 []) m (made s0 [])) \<Longrightarrow> rule_ok m"
  unfolding rule_ok_def
  using hoare_call [where P = "\<lambda>_. True" and Q = "\<lambda>s0. made s0 []"] made_call by auto

lemma rule_atI: "(\<And>s0. hoare (frk s0 [] k) m (made s0 [])) \<Longrightarrow> rule_at k m"
  unfolding rule_at_def frk_def
  using hoare_call [where P = "\<lambda>s. at_tok s = k" and Q = "\<lambda>s0. made s0 []"] made_call by auto

lemma unit_okI:
  assumes "\<And>s0. hoare (fr s0 []) m (\<lambda>_. fr s0 [])"
  shows "unit_ok m"
  unfolding unit_ok_def
proof (intro allI)
  fix s0 ms
  have "hoare (\<lambda>s. fr s0 ms s \<and> True) m (\<lambda>_. fr s0 ms)"
    by (rule hoare_call [where Q = "\<lambda>s0 _. fr s0 []"]) (simp_all add: assms fr_call)
  then show "hoare (fr s0 ms) m (\<lambda>_. fr s0 ms)" by simp
qed

lemma rule_unit: "rule_ok m \<Longrightarrow> unit_ok m"
  unfolding rule_ok_def unit_ok_def by (blast intro: hoare_post [of _ _ "made _ _"] elim: made_def [THEN iffD1, elim_format])

lemma rule_rule_at: "rule_ok m \<Longrightarrow> rule_at k m"
  by (simp add: rule_ok_def rule_at_def frk_fr)

text \<open>Units: pieces of rules that close the markers they open.\<close>

lemma unit_pure [frame_rules]: "unit_ok (pure x)"
  by (simp add: unit_ok_def hoare_def pure_def)

lemma unit_expect [frame_rules]: "kind \<noteq> SkEof \<Longrightarrow> unit_ok (expect kind)"
  by (simp add: unit_ok_def expect_fr)

lemma unit_at [frame_rules]: "unit_ok at_kind"
  by (simp add: unit_ok_def hoare_def at_kind_fr)

lemma unit_report [frame_rules]: "unit_ok (add_report x)"
  by (simp add: unit_ok_def hoare_def add_report_def report_fr)

lemma unit_peek [frame_rules]: "unit_ok peek"
  by (auto simp: unit_ok_def hoare_def peek_def fr_def pinv_def)

lemma unit_bind [frame_rules]: "unit_ok m \<Longrightarrow> (\<And>x. unit_ok (f x)) \<Longrightarrow> unit_ok (bindp m f)"
  unfolding unit_ok_def by (blast intro: hoare_bind)

lemma unit_if [frame_rules]: "(b \<Longrightarrow> unit_ok m) \<Longrightarrow> (\<not> b \<Longrightarrow> unit_ok m') \<Longrightarrow> unit_ok (if b then m else m')"
  by simp

lemma unit_loop [frame_rules]: "(\<And>x. unit_ok (body x)) \<Longrightarrow> unit_ok (repeat_loop n body x)"
  unfolding unit_ok_def
  by (intro allI, rule hoare_loop [where I = "\<lambda>_. fr _ _"]) (auto intro: hoare_post split: sum.splits)

lemma unit_while [frame_rules]: "unit_ok body \<Longrightarrow> unit_ok (while_kind n c body)"
  unfolding while_kind_def by (intro frame_rules)

lemma unit_when [frame_rules]: "k \<noteq> SkEof \<Longrightarrow> unit_ok body \<Longrightarrow> unit_ok (when_kind k body)"
  unfolding when_kind_def by (intro frame_rules)

text \<open>Triples: the pieces between the start of a marker and its completion.\<close>

lemma bind_unit:
  "unit_ok m \<Longrightarrow> (\<And>x. hoare (fr s0 ms) (f x) Q) \<Longrightarrow> hoare (fr s0 ms) (bindp m f) Q"
  unfolding unit_ok_def by (blast intro: hoare_bind)

lemma try_unit:
  assumes "unit_ok m" and "\<And>x. hoare (fr s0 ms) (f x) (made s0 [])"
  shows "hoare (fr s0 ms) (tryp m f) (made s0 [])"
proof (rule hoare_try)
  show "hoare (fr s0 ms) m (\<lambda>_. fr s0 ms)" using assms(1) by (simp add: unit_ok_def)
  show "fr s0 ms s \<Longrightarrow> made s0 [] None s" for s by (simp add: made_def fr_nil)
qed (rule assms(2))

lemma bind_start [frame_rules]:
  assumes "\<And>p. hoare (fr s0 ((p, k) # ms)) (f (p, k)) Q"
  shows "hoare (fr s0 ms) (bindp (start k) f) Q"
  unfolding hoare_def
proof (intro allI impI)
  fix s
  assume s: "fr s0 ms s"
  let ?s = "s\<lparr>ps_events := ps_events s @ [Enter k 0]\<rparr>" and ?p = "length (ps_events s)"
  have "pinv s" using s by (simp add: fr_def)
  then have "fr s0 ms ?s" by (intro pushed [OF s]) (auto simp: pinv_def)
  moreover have "length (ps_events s0) \<le> ?p" using s by (auto simp: fr_def extends_def dest: prefix_length_le)
  moreover have "\<forall>m \<in> set ms. fst m < ?p" using s by (auto simp: fr_def opened_def)
  moreover have "\<not> linked (ps_events ?s) ?p"
  proof
    assume "linked (ps_events ?s) ?p"
    then have "linked (ps_events s) ?p" using linked_push [of "ps_events s" "Enter k 0" ?p k] by simp
    moreover have "links_ok (ps_events s)" using s by (simp add: fr_def pinv_def)
    ultimately show False using links_okD by blast
  qed
  ultimately have "fr s0 ((?p, k) # ms) ?s" by (simp add: fr_def opened_def)
  then show "case bindp (start k) f s of None \<Rightarrow> False | Some (Inl _) \<Rightarrow> True | Some (Inr (x, s')) \<Rightarrow> Q x s'"
    using assms [of ?p] by (simp add: bindp_def start_def hoare_def)
qed


lemma set_event_fr:
  assumes "fr s0 ms s" and "length (ps_events s0) \<le> p" and "p < length (ps_events s)"
    and "is_enter (ps_events s ! p)" and "\<forall>m \<in> set ms. fst m \<noteq> p"
    and "n \<noteq> 0 \<Longrightarrow> p + n < length (ps_events s) \<and> is_enter (ps_events s ! (p + n))
      \<and> (\<forall>(q, k) \<in> set ms. q = p + n \<longrightarrow> \<not> abandonable k)"
  shows "fr s0 ms (s\<lparr>ps_events := (ps_events s)[p := Enter k n]\<rparr>)"
proof -
  let ?es = "(ps_events s)[p := Enter k n]"
  have "toks ?es = toks (ps_events s)" using assms(3,4) by (rule toks_update_enter)
  moreover have "links_ok ?es"
    using assms(1,3,6) by (intro links_ok_update) (auto simp: fr_def pinv_def)
  ultimately have i: "pinv (s\<lparr>ps_events := ?es\<rparr>)" using assms(1) by (simp add: fr_def pinv_def)
  have "prefix (ps_events s0) (ps_events s)" using assms(1) by (simp add: fr_def extends_def)
  then have "prefix (ps_events s0) ?es" using assms(2) by (auto simp: prefix_def list_update_append)
  then have e: "extends s0 (s\<lparr>ps_events := ?es\<rparr>)" using assms(1) by (simp add: fr_def extends_def)
  have o: "opened s0 ms s" using assms(1) by (simp add: fr_def)
  have "length (ps_events s0) \<le> q \<and> q < length ?es \<and> ?es ! q = Enter j 0 \<and> (abandonable j \<longrightarrow> \<not> linked ?es q)"
    if q: "(q, j) \<in> set ms" for q j
  proof -
    have "q \<noteq> p" using assms(5) q by force
    moreover have "length (ps_events s0) \<le> q" "q < length (ps_events s)" "ps_events s ! q = Enter j 0"
      "abandonable j \<Longrightarrow> \<not> linked (ps_events s) q"
      using o q unfolding opened_def by blast+
    moreover have "n \<noteq> 0 \<and> q = p + n \<Longrightarrow> \<not> abandonable j" using assms(6) q by blast
    ultimately show ?thesis using linked_update [of "ps_events s" p k n q] by auto
  qed
  then have "opened s0 ms (s\<lparr>ps_events := ?es\<rparr>)" using o by (auto simp: opened_def)
  with i e show ?thesis by (simp add: fr_def)
qed

lemma opened_head:
  assumes "fr s0 ((p, k) # ms) s"
  shows "length (ps_events s0) \<le> p" "p < length (ps_events s)" "ps_events s ! p = Enter k 0"
    "\<forall>m \<in> set ms. fst m < p" "fr s0 ms s" "abandonable k \<Longrightarrow> \<not> linked (ps_events s) p"
  using assms fr_drop [OF assms] by (auto simp: fr_def opened_def)

lemma exit_fr: "fr s0 ms s \<Longrightarrow> fr s0 ms (s\<lparr>ps_events := ps_events s @ [Exit]\<rparr>)"
  by (rule pushed) (auto simp: fr_def pinv_def)

lemma complete_made: "hoare (fr s0 ((p, k) # ms)) (complete (p, k')) (\<lambda>c. made s0 ms (Some c))"
  unfolding hoare_def
proof (intro allI impI)
  fix s
  assume s: "fr s0 ((p, k) # ms) s"
  let ?s = "s\<lparr>ps_events := ps_events s @ [Exit]\<rparr>"
  have "node s0 ms (p, k') ?s" using opened_head [OF s] by (simp add: node_def is_enter_def nth_append)
  then show "case complete (p, k') s of None \<Rightarrow> False | Some (Inl _) \<Rightarrow> True
     | Some (Inr (c, s')) \<Rightarrow> made s0 ms (Some c) s'"
    using exit_fr [OF opened_head(5) [OF s]]
    by (simp add: complete_def bindp_def push_event_def pure_def made_def)
qed

lemma completed_frame [frame_rules]: "hoare (fr s0 ((p, k) # ms)) (completed (p, k')) (made s0 ms)"
  unfolding completed_def by (rule hoare_bind [OF complete_made]) (simp add: hoare_pure)

lemma then_complete:
  assumes "hoare (fr s0 ms) n Q"
  shows "hoare (fr s0 (m # ms)) (thenp (complete m) n) Q"
proof (rule hoare_bind [OF _ assms])
  show "hoare (fr s0 (m # ms)) (complete m) (\<lambda>_. fr s0 ms)"
    using exit_fr [OF fr_drop] by (fastforce simp: hoare_def complete_def bindp_def push_event_def pure_def)
qed

lemma retype_completed:
  assumes "\<not> abandonable kind"
  shows "hoare (fr s0 ((p, SkTombstone) # ms)) (bindp (retype (p, SkTombstone) kind) completed) (made s0 ms)"
proof (rule hoare_bind)
  show "hoare (fr s0 ((p, SkTombstone) # ms)) (retype (p, SkTombstone) kind)
     (\<lambda>c s. c = (p, SkTombstone) \<and> fr s0 ((p, kind) # ms) s)"
    unfolding hoare_def
  proof (intro allI impI)
    fix s
    assume s: "fr s0 ((p, SkTombstone) # ms) s"
    let ?s = "s\<lparr>ps_events := (ps_events s)[p := Enter kind 0]\<rparr>"
    note h = opened_head [OF s]
    have f: "fr s0 ms ?s" using h by (intro set_event_fr) (auto simp: is_enter_def)
    then have "fr s0 ((p, kind) # ms) ?s" using h assms by (simp add: fr_def opened_def)
    then show "case retype (p, SkTombstone) kind s of None \<Rightarrow> False | Some (Inl _) \<Rightarrow> True
       | Some (Inr (c, s')) \<Rightarrow> c = (p, SkTombstone) \<and> fr s0 ((p, kind) # ms) s'"
      using h by (simp add: retype_def event_at_def set_event_def bindp_def pure_def idx_Some)
  qed
next
  show "hoare (\<lambda>s. c = (p, SkTombstone) \<and> fr s0 ((p, kind) # ms) s) (completed c) (made s0 ms)" for c
    using hoare_pre [OF completed_frame [of s0 p kind ms SkTombstone]]
    by (cases "c = (p, SkTombstone)") (simp_all add: hoare_def)
qed

lemma butlast_fr:
  assumes "fr s0 ms s" and "ps_events s \<noteq> []" and "is_enter (last (ps_events s))"
    and "length (ps_events s0) < length (ps_events s)" and "\<forall>m \<in> set ms. fst m < length (ps_events s) - 1"
    and "\<not> linked (ps_events s) (length (ps_events s) - 1)"
  shows "fr s0 ms (s\<lparr>ps_events := butlast (ps_events s)\<rparr>)"
proof -
  obtain es k n where e: "ps_events s = es @ [Enter k n]"
    using assms(2,3) by (metis append_butlast_last_id is_enter_def)
  have "prefix (ps_events s0) es" using assms(1,4) e by (auto simp: fr_def extends_def prefix_snoc)
  moreover have "linked (ps_events s) t" if "linked es t" for t
    using linked_append [OF that] e by simp
  then have "opened s0 ms (s\<lparr>ps_events := es\<rparr>)" using assms(1,5) e
    by (fastforce simp: fr_def opened_def nth_append)
  moreover have "links_ok es"
    using assms(1,6) e links_ok_pop [of es "Enter k n"] by (simp add: fr_def pinv_def)
  ultimately show ?thesis using assms(1) e by (auto simp: fr_def pinv_def extends_def)
qed

lemma abandon_made:
  assumes "abandonable (snd m)"
  shows "hoare (made s0 (m # ms) c) (abandon m) (\<lambda>_. made s0 ms c)"
  unfolding hoare_def
proof (intro allI impI)
  fix s
  assume s: "made s0 (m # ms) c s"
  obtain p k where m: "m = (p, k)" by (cases m)
  have "fr s0 ((p, k) # ms) s" using s by (simp add: made_def m)
  note h = opened_head [OF this]
  let ?es = "(ps_events s)[p := Enter SkTombstone 0]"
  let ?s = "s\<lparr>ps_events := ?es\<rparr>"
  let ?t = "if p = length ?es - 1 then ?s\<lparr>ps_events := butlast ?es\<rparr> else ?s"
  have f: "fr s0 ms ?s" using h by (intro set_event_fr) (auto simp: is_enter_def)
  have t: "fr s0 ms ?t"
  proof (cases "p = length ?es - 1")
    case True
    then have "last ?es = Enter SkTombstone 0" using h(2) by (metis last_list_update length_list_update list.size(3) not_less_zero)
    moreover have "\<not> linked ?es p" using h(6) assms linked_update [of "ps_events s" p SkTombstone 0 p] by (auto simp: m)
    ultimately have "fr s0 ms (?s\<lparr>ps_events := butlast (ps_events ?s)\<rparr>)"
      using True h by (intro butlast_fr [OF f]) (auto simp: is_enter_def)
    then show ?thesis using True by simp
  qed (simp add: f)
  moreover have "node s0 ms x ?t" if "c = Some x" for x
    using s that h unfolding made_def m by (auto simp: node_def)
  ultimately have "made s0 ms c ?t" by (simp add: made_def)
  moreover have "abandon m s = ok ((), ?t)"
    using h by (simp add: m abandon_def event_at_def set_event_def bindp_def idx_Some)
  ultimately show "case abandon m s of None \<Rightarrow> False | Some (Inl _) \<Rightarrow> True | Some (Inr (_, s')) \<Rightarrow> made s0 ms c s'"
    by (simp only: option.case sum.case prod.case)
qed

lemma bind_precede:
  assumes "\<And>p. hoare (fr s0 ((p, kind) # ms)) (f (p, kind)) Q" and "\<not> abandonable kind"
  shows "hoare (made s0 ms (Some c)) (bindp (precede c kind) f) Q"
  unfolding hoare_def
proof (intro allI impI)
  fix s
  assume s: "made s0 ms (Some c) s"
  let ?p = "length (ps_events s)"
  let ?s1 = "s\<lparr>ps_events := ps_events s @ [Enter kind 0]\<rparr>"
  have f: "fr s0 ms s" and n: "node s0 ms c s" using s by (simp_all add: made_def)
  have "hoare (fr s0 ms) (bindp (start kind) pure) (\<lambda>m s. fr s0 (m # ms) s)"
    by (rule bind_start) (simp add: hoare_def pure_def)
  then have f1: "fr s0 ((?p, kind) # ms) ?s1"
    using f by (auto simp: hoare_def bindp_def start_def pure_def)
  obtain k j where e: "ps_events s ! fst c = Enter k j" using n by (auto simp: node_def is_enter_def)
  have e1: "ps_events ?s1 ! fst c = Enter k j" using n e by (simp add: node_def nth_append)
  let ?s2 = "?s1\<lparr>ps_events := (ps_events ?s1)[fst c := Enter k (?p - fst c)]\<rparr>"
  have "fr s0 ((?p, kind) # ms) ?s2"
    using n e1 assms(2) f by (intro set_event_fr [OF f1]) (auto simp: node_def is_enter_def fr_def opened_def nth_append)
  moreover have "precede c kind s = ok ((?p, kind), ?s2)"
    using n e1 by (simp add: precede_def start_def bindp_def event_at_def set_event_def pure_def idx_Some node_def)
  ultimately show "case bindp (precede c kind) f s of None \<Rightarrow> False | Some (Inl _) \<Rightarrow> True | Some (Inr (x, s')) \<Rightarrow> Q x s'"
    using assms(1) [of ?p] by (simp add: bindp_def hoare_def)
qed

end
