(* ===== verification/ParseSound.thy ===== *)
theory ParseSound
  imports ParseFrame
begin

text \<open>
  Every rule of the grammar keeps the frame it is called in: it never panics, and it emits each token
  it passes once and in order. The rules that recurse are the assumptions of the locale
  \<open>sound_rules\<close>, which \<open>rules_at n\<close> satisfies for every number of steps.
\<close>

section \<open>Rules without recursion\<close>

declare abandonable_def [simp]

lemmas parts = bind_start then_complete retype_completed completed_frame bind_unit try_unit hoare_if

lemma pure_made [frame_rules]: "hoare (fr s0 ms) (pure None) (made s0 ms)"
  by (simp add: hoare_def pure_def made_def)

lemma pure_fr [frame_rules]: "hoare (fr s0 ms) (pure x) (\<lambda>_. fr s0 ms)"
  by (simp add: hoare_def pure_def)

lemma end_unit: "unit_ok m \<Longrightarrow> hoare (fr s0 ms) m (\<lambda>_. fr s0 ms)"
  by (simp add: unit_ok_def)

lemma rule_pure_None [frame_rules]: "rule_ok (pure None)"
  by (simp add: rule_ok_def pure_made)

lemma rule_if [frame_rules]: "(b \<Longrightarrow> rule_ok m) \<Longrightarrow> (\<not> b \<Longrightarrow> rule_ok m') \<Longrightarrow> rule_ok (if b then m else m')"
  by simp

lemma rule_bind_unit: "unit_ok m \<Longrightarrow> (\<And>x. rule_ok (f x)) \<Longrightarrow> rule_ok (bindp m f)"
  unfolding rule_ok_def by (blast intro: bind_unit)

lemma leaf_ok [frame_rules]: "tok \<noteq> SkEof \<Longrightarrow> rule_ok (leaf nd tok)"
  unfolding leaf_def by (rule rule_okI) (intro parts frame_rules)

lemma ident_ok [frame_rules]: "rule_ok r_ident"
  unfolding r_ident_def by (intro frame_rules) simp

lemmas ident_unit [frame_rules] = rule_unit [OF ident_ok]

lemma leaves_ok [frame_rules]: "rule_ok r_vararg" "rule_ok r_break" "rule_ok r_semicolon"
  by (simp_all add: r_vararg_def r_break_def r_semicolon_def leaf_ok)

lemma label_ok [frame_rules]: "rule_ok r_label"
  unfolding r_label_def by (rule rule_okI) (intro parts frame_rules; simp)

lemma goto_ok [frame_rules]: "rule_ok r_goto"
  unfolding r_goto_def by (rule rule_okI) (intro parts frame_rules; simp)

lemma param_step_ok [frame_rules]: "unit_ok (param_step x)"
  unfolding param_step_def by (rule unit_okI) (intro parts frame_rules; simp)

lemma attrib_ok [frame_rules]: "unit_ok r_attrib" "unit_ok r_global_attrib"
  unfolding r_attrib_def r_global_attrib_def by (intro frame_rules; auto)+

section \<open>Rules that look at the current token again\<close>

lemma start_known:
  assumes "\<And>p. hoare (frk s0 ((p, kind) # ms) k) (f (p, kind)) Q"
  shows "hoare (frk s0 ms k) (bindp (start kind) f) Q"
  unfolding hoare_def
proof (intro allI impI)
  fix s
  assume s: "frk s0 ms k s"
  let ?p = "length (ps_events s)" and ?s = "s\<lparr>ps_events := ps_events s @ [Enter kind 0]\<rparr>"
  have "hoare (fr s0 ms) (bindp (start kind) pure) (\<lambda>m s. fr s0 (m # ms) s)"
    by (rule bind_start) (simp add: hoare_def pure_def)
  then have "fr s0 ((?p, kind) # ms) ?s" using s by (auto simp: hoare_def bindp_def start_def pure_def frk_def)
  then have "frk s0 ((?p, kind) # ms) k ?s" using s by (simp add: frk_def at_tok_def)
  then show "case bindp (start kind) f s of None \<Rightarrow> False | Some (Inl _) \<Rightarrow> True | Some (Inr (x, s')) \<Rightarrow> Q x s'"
    using assms [of ?p] by (simp add: bindp_def start_def hoare_def)
qed

lemma rule_frk: "rule_at k m \<Longrightarrow> hoare (frk s0 ms k) m (made s0 ms)"
  by (simp add: rule_at_def)

lemma then_known:
  assumes "rule_at k m" and "hoare (fr s0 ms) n Q"
  shows "hoare (frk s0 ms k) (thenp m n) Q"
proof (rule hoare_bind [OF _ assms(2)])
  show "hoare (frk s0 ms k) m (\<lambda>_. fr s0 ms)"
    by (rule hoare_post [OF rule_frk [OF assms(1)]]) (simp add: made_def)
qed

lemma literal_ok: "k \<noteq> SkEof \<Longrightarrow> rule_at k r_literal"
  unfolding r_literal_def
  by (rule rule_atI, rule start_known, rule bind_at_known, rule frk_fr) (intro parts frame_rules)

lemma start_not_eof: "token_is_literal t \<Longrightarrow> t \<noteq> SkEof" "token_is_unary_op t \<Longrightarrow> t \<noteq> SkEof"
  by (auto simp: token_is_literal_def token_is_unary_op_def)

lemma infix_not_eof: "infix_binding_power t = Some p \<Longrightarrow> t \<noteq> SkEof"
  by (auto simp: infix_binding_power_def)

lemma eat_loop_ok: "unit_ok (eat_loop one_of)"
  unfolding unit_ok_def hoare_def
proof (intro allI impI)
  fix s0 ms s
  assume "fr s0 ms s"
  then show "case eat_loop one_of s of None \<Rightarrow> False | Some (Inl _) \<Rightarrow> True | Some (Inr (x, s')) \<Rightarrow> fr s0 ms s'"
  proof (induction one_of s rule: eat_loop.induct)
    case (1 one_of s)
    obtain k sp where t: "idx (ps_tokens s) (ps_cursor s) = Some (k, sp)" and k: "at_tok s = k"
      using "1.prems" by (cases "ps_tokens s ! ps_cursor s") (auto simp: fr_def pinv_def idx_Some at_tok_def)
    show ?case
    proof (cases "k \<noteq> SkEof \<and> k \<notin> set one_of")
      case True
      let ?s = "s\<lparr>ps_events := ps_events s @ [Token k sp], ps_cursor := ps_cursor s + 1\<rparr>"
      obtain s' where b: "bump s = ok ((), s')" "fr s0 ms s'"
        using bump_fr [OF "1.prems"] True k by auto
      have "s' = ?s" using b(1) t by (simp add: bump_def current_def bindp_def push_event_def)
      then have "fr s0 ms ?s" using b(2) by simp
      then show ?thesis using "1.IH" [OF t refl] True t by (subst eat_loop.simps) simp
    next
      case False
      then show ?thesis using t "1.prems" by (subst eat_loop.simps) auto
    qed
  qed
qed

lemma error_eat_until_ok [frame_rules]: "unit_ok (error_eat_until one_of)"
  unfolding error_eat_until_def
  by (rule unit_okI) (intro parts frame_rules eat_loop_ok)

lemma made_None: "made s0 ms None = fr s0 ms"
  by (rule ext) (simp add: made_def)

lemma then_abandon:
  "hoare (fr s0 ms) n Q \<Longrightarrow> abandonable (snd m) \<Longrightarrow> hoare (fr s0 (m # ms)) (thenp (abandon m) n) Q"
  using hoare_bind [OF abandon_made [of m s0 ms None]] by (simp add: made_None)

text \<open>A rule that ends without a result leaves its markers open.\<close>

lemma give_up: "hoare (fr s0 ms) (pure None) (made s0 [])"
  by (rule hoare_pure) (simp add: made_def fr_nil)

section \<open>Growing an expression\<close>

lemma bind_at_made:
  assumes "\<And>k. hoare (made s0 ms c) (f k) Q"
  shows "hoare (made s0 ms c) (bindp at_kind f) Q"
  using assms unfolding hoare_def made_def
  by (auto simp: bindp_def at_kind_fr [where ?s0.0 = s0 and ms = ms])

lemma made_fr: "hoare (fr s0 ms) m Q \<Longrightarrow> hoare (made s0 ms c) m Q"
  by (erule hoare_pre) (simp add: made_def)

abbreviation grown :: "pstate \<Rightarrow> marker + marker option \<Rightarrow> pstate \<Rightarrow> bool" where
  "grown s0 r s \<equiv> (case r of Inl y \<Rightarrow> made s0 [] (Some y) s | Inr z \<Rightarrow> made s0 [] z s)"

lemma grow_expr_ok: "hoare P m (made s0 []) \<Longrightarrow> hoare P (grow_expr m) (grown s0)"
  unfolding grow_expr_def by (erule hoare_bind) (auto intro: hoare_pure split: option.splits)

lemma stop_growing: "hoare (made s0 [] (Some lhs)) (pure (Inr (Some lhs))) (grown s0)"
  by (rule hoare_pure) simp

text \<open>A rule that goes on from the node \<open>lhs\<close>.\<close>

definition suffix_ok :: "(marker \<Rightarrow> marker option parse) \<Rightarrow> bool" where
  "suffix_ok f \<longleftrightarrow> (\<forall>s0 lhs. hoare (made s0 [] (Some lhs)) (f lhs) (made s0 []))"

lemma grow_suffix: "suffix_ok f \<Longrightarrow> hoare (made s0 [] (Some lhs)) (grow_expr (f lhs)) (grown s0)"
  unfolding suffix_ok_def by (blast intro: grow_expr_ok)

lemma growing_loop:
  assumes "rule_ok m" and "\<And>s0 x. hoare (made s0 [] (Some x)) (step x) (grown s0)"
  shows "rule_ok (tryp m (repeat_loop n step))"
proof (rule rule_okI, rule hoare_try)
  fix s0
  show "hoare (fr s0 []) m (made s0 [])" using assms(1) by (simp add: rule_ok_def)
  show "hoare (made s0 [] (Some x)) (repeat_loop n step x) (made s0 [])" for x
    by (rule hoare_loop [where I = "\<lambda>x. made s0 [] (Some x)"]) (rule assms(2))
qed

section \<open>The recursive rules\<close>

definition stmt_ok :: "marker option parse \<Rightarrow> bool" where
  "stmt_ok m \<longleftrightarrow> (\<forall>s0 ms. hoare (fr s0 ms) m (\<lambda>c s. made s0 ms c s \<and> (c = None \<longrightarrow> at_tok s = SkEof)))"

lemma stmt_rule_ok: "stmt_ok m \<Longrightarrow> rule_ok m"
  unfolding stmt_ok_def rule_ok_def by (blast intro: hoare_post)

locale sound_rules =
  fixes r :: rules
  assumes expr: "rule_ok (rl_expr r bp)"
    and stmt: "stmt_ok (rl_stmt r)"
    and nested_if: "k \<noteq> SkEof \<Longrightarrow> rule_ok (rl_if r k)"
begin

lemma expr_units [frame_rules]:
  "rule_ok (rl_expr r bp)" "unit_ok (rl_expr r bp)" "rule_ok (r_expr r)" "unit_ok (r_expr r)"
  "unit_ok (rl_stmt r)" "k \<noteq> SkEof \<Longrightarrow> unit_ok (rl_if r k)"
  using expr rule_unit [OF expr] rule_unit [OF stmt_rule_ok [OF stmt]] rule_unit [OF nested_if]
  by (simp_all add: r_expr_def)

lemma expr_list_ok [frame_rules]: "unit_ok (r_expr_list r)"
  unfolding r_expr_list_def by (rule unit_okI) (intro parts frame_rules; simp)

lemma call_args_ok [frame_rules]: "rule_ok (r_func_call_args r)" "unit_ok (r_func_call_args r)"
proof -
  show "rule_ok (r_func_call_args r)"
    unfolding r_func_call_args_def by (rule rule_okI) (intro parts frame_rules; simp)
  then show "unit_ok (r_func_call_args r)" by (rule rule_unit)
qed

lemma method_call_part: "hoare (fr s0 [(p, k)]) (r_method_call r (p, k')) (made s0 [])"
  unfolding r_method_call_def by (intro parts frame_rules) simp

lemma paren_ok [frame_rules]: "rule_ok (r_paren r)"
  unfolding r_paren_def by (rule rule_okI) (intro parts frame_rules; simp)

lemma unary_ok: "token_is_unary_op k \<Longrightarrow> rule_at k (r_expr_unary r)"
  unfolding r_expr_unary_def
  by (rule rule_atI, rule start_known, rule bind_at_known, rule frk_fr)
    (simp add: prefix_binding_power_def, intro parts frame_rules, simp add: start_not_eof)

lemma suffixes_ok:
  "suffix_ok (index_suffix r)" "suffix_ok (call_suffix r)" "suffix_ok (method_suffix r)"
  unfolding suffix_ok_def index_suffix_def call_suffix_def method_suffix_def
  by (intro allI bind_precede method_call_part parts frame_rules; simp)+

lemma infix_suffix_ok: "t \<noteq> SkEof \<Longrightarrow> suffix_ok (\<lambda>lhs. infix_suffix r lhs t bp)"
  unfolding suffix_ok_def infix_suffix_def
  by (intro allI bind_precede parts frame_rules) simp_all

lemma expr_step_ok: "hoare (made s0 [] (Some lhs)) (expr_step r min_bp lhs) (grown s0)"
  unfolding expr_step_def
  by (rule bind_at_made)
    (auto intro: grow_suffix suffixes_ok grow_suffix [OF infix_suffix_ok] stop_growing dest: infix_not_eof
      split: option.splits)

lemma block_ok [frame_rules]: "rule_ok (r_block r stop)" "unit_ok (r_block r stop)"
proof -
  show "rule_ok (r_block r stop)" unfolding r_block_def by (rule rule_okI) (intro parts frame_rules)
  then show "unit_ok (r_block r stop)" by (rule rule_unit)
qed

lemma do_ok [frame_rules]: "rule_ok (r_do r)" "unit_ok (r_do r)"
proof -
  show "rule_ok (r_do r)" unfolding r_do_def by (rule rule_okI) (intro parts frame_rules; simp)
  then show "unit_ok (r_do r)" by (rule rule_unit)
qed

lemma while_ok: "rule_ok (r_while r)"
  unfolding r_while_def by (rule rule_okI) (intro parts frame_rules; simp)

lemma repeat_ok: "rule_ok (r_repeat r)"
  unfolding r_repeat_def by (rule rule_okI) (intro parts frame_rules; simp)

lemma else_ok: "k = SkElse \<or> k = SkElseIf \<Longrightarrow> rule_at k (r_else r)"
  unfolding r_else_def
  by (rule rule_atI, rule start_known, rule bind_at_known, rule frk_fr) (auto intro!: parts frame_rules)

lemma if_end_ok:
  "hoare (fr s0 [(p, k')]) (bindp at_kind (\<lambda>t.
     if t = SkEnd then thenp (expect SkEnd) (completed (p, k'))
     else if t = SkElseIf \<or> t = SkElse then thenp (r_else r) (completed (p, k'))
     else thenp (add_report (x t)) (pure None))) (made s0 [])"
proof (rule bind_at, intro hoare_if, goal_cases)
  case (1 k)
  show ?case by (rule frk_fr) (intro parts frame_rules; simp)
next
  case (2 k)
  then show ?case by (intro then_known else_ok completed_frame) auto
next
  case (3 k)
  show ?case by (rule frk_fr) (intro parts frame_rules give_up)
qed

lemma if_ok: "k \<noteq> SkEof \<Longrightarrow> rule_ok (r_if r k)"
  unfolding r_if_def by (rule rule_okI) (rule if_end_ok parts frame_rules | simp)+

lemma num_for_part: "hoare (fr s0 [(p, SkTombstone)]) (r_num_for r (p, SkTombstone)) (made s0 [])"
  unfolding r_num_for_def by (intro parts frame_rules; simp)

lemma gen_for_part:
  "hoare (fr s0 [(q, k), (p, SkTombstone)]) (r_gen_for r (p, SkTombstone) (q, k)) (made s0 [])"
  unfolding r_gen_for_def by (intro parts frame_rules; simp)

lemma for_ok: "rule_ok (r_for r)"
  unfolding r_for_def
  by (rule rule_okI) (rule bind_start bind_unit hoare_if then_abandon num_for_part gen_for_part frame_rules | simp)+

lemma return_ok: "rule_ok (r_return r)"
  unfolding r_return_def by (rule rule_okI) (intro parts frame_rules; simp)

lemma func_def_args_ok [frame_rules]: "rule_ok (r_func_def_args r)" "unit_ok (r_func_def_args r)"
proof -
  show "rule_ok (r_func_def_args r)"
    unfolding r_func_def_args_def by (rule rule_okI) (intro parts frame_rules; simp)
  then show "unit_ok (r_func_def_args r)" by (rule rule_unit)
qed

lemma simple_step_ok: "hoare (made s0 [] (Some lhs)) (simple_step r allow_call lhs) (grown s0)"
  unfolding simple_step_def
proof (rule bind_at_made, intro hoare_if, goal_cases)
  case (4 k)
  show ?case
    by (intro bind_precede bind_unit frame_rules hoare_bind [OF complete_made] hoare_pure) (simp_all add: 4)
qed (intro grow_suffix suffixes_ok stop_growing)+

lemma simple_expr_ok [frame_rules]: "rule_ok (r_simple_expr r b)" "unit_ok (r_simple_expr r b)"
proof -
  show "rule_ok (r_simple_expr r b)"
    unfolding r_simple_expr_def by (intro rule_bind_unit growing_loop frame_rules simple_step_ok)
  then show "unit_ok (r_simple_expr r b)" by (rule rule_unit)
qed

lemma func_ok [frame_rules]: "rule_ok (r_func r b)" "unit_ok (r_func r b)"
proof -
  show "rule_ok (r_func r b)" unfolding r_func_def by (rule rule_okI) (intro parts frame_rules; simp)
  then show "unit_ok (r_func r b)" by (rule rule_unit)
qed

lemma table_elem_ok [frame_rules]: "rule_ok (r_table_elem r)" "unit_ok (r_table_elem r)"
proof -
  have "rule_ok (r_table_elem_array r)" "rule_ok (r_table_elem_map r)" "rule_ok (r_table_elem_generic r)"
    unfolding r_table_elem_array_def r_table_elem_map_def r_table_elem_generic_def
    by (rule rule_okI; (intro parts frame_rules; simp))+
  then show "rule_ok (r_table_elem r)"
    unfolding r_table_elem_def by (intro rule_bind_unit frame_rules)
  then show "unit_ok (r_table_elem r)" by (rule rule_unit)
qed

lemma table_ok: "rule_ok (r_table r)"
  unfolding r_table_def by (rule rule_okI) (intro parts frame_rules; auto)

lemma expr_lhs_ok: "rule_ok (r_expr_lhs r)"
proof (rule rule_okI)
  fix s0
  show "hoare (fr s0 []) (r_expr_lhs r) (made s0 [])"
    unfolding r_expr_lhs_def
    by (rule bind_at) (auto intro!: hoare_if rule_frk intro: literal_ok [OF start_not_eof(1)] unary_ok rule_rule_at
        table_ok frame_rules)
qed

lemma expr_inner_ok: "rule_ok (r_expr_inner r bp)"
  unfolding r_expr_inner_def by (intro growing_loop expr_lhs_ok expr_step_ok)

lemma assign_part: "hoare (fr s0 [(q, k), (p, k')]) (r_assign r (p, k') (q, k)) (made s0 [])"
  unfolding r_assign_def by (intro parts frame_rules; simp)

lemma maybe_assign_end:
  assumes "abandonable (snd m')" and "abandonable (snd m)"
  shows "hoare (made s0 [m', m] em) (thenp (abandon m') (thenp (abandon m)
     (thenp (case em of
         Some c \<Rightarrow> if snd c \<noteq> SkFuncCall \<and> snd c \<noteq> SkMethodCall then add_report NotACall else pure ()
       | None \<Rightarrow> pure ()) (pure em)))) (made s0 [])"
proof (intro hoare_bind [OF abandon_made [OF assms(1)]] hoare_bind [OF abandon_made [OF assms(2)]] hoare_bind)
  have "hoare (made s0 [] em) (add_report NotACall) (\<lambda>_. made s0 [] em)"
    by (auto simp: hoare_def add_report_def made_def node_def report_fr)
  moreover have "hoare (made s0 [] em) (pure ()) (\<lambda>_. made s0 [] em)" by (simp add: hoare_pure)
  ultimately show "hoare (made s0 [] em) (case em of
      Some c \<Rightarrow> if snd c \<noteq> SkFuncCall \<and> snd c \<noteq> SkMethodCall then add_report NotACall else pure ()
    | None \<Rightarrow> pure ()) (\<lambda>_. made s0 [] em)"
    by (cases em) simp_all
  show "hoare (made s0 [] em) (pure em) (made s0 [])" by (simp add: hoare_pure)
qed

lemma maybe_assign_ok: "rule_ok (r_maybe_assign r)"
  unfolding r_maybe_assign_def
proof (rule rule_okI, intro bind_start, rule hoare_bind)
  fix s0 p q
  show "hoare (fr s0 [(q, SkAssignList), (p, SkAssignStmt)]) (r_simple_expr r True)
     (made s0 [(q, SkAssignList), (p, SkAssignStmt)])"
    using simple_expr_ok(1) by (simp add: rule_ok_def)
next
  fix s0 p q em
  show "hoare (made s0 [(q, SkAssignList), (p, SkAssignStmt)] em) (bindp at_kind (\<lambda>t.
       if t = SkAssign \<or> t = SkComma then r_assign r (p, SkAssignStmt) (q, SkAssignList)
       else thenp (abandon (q, SkAssignList)) (thenp (abandon (p, SkAssignStmt)) (
         thenp (case em of
             Some c \<Rightarrow> if snd c \<noteq> SkFuncCall \<and> snd c \<noteq> SkMethodCall then add_report NotACall else pure ()
           | None \<Rightarrow> pure ())
         (pure em))))) (made s0 [])"
    by (intro bind_at_made hoare_if made_fr [OF assign_part] maybe_assign_end) simp_all
qed

lemma decl_target_ok [frame_rules]: "unit_ok r_decl_target" "unit_ok r_global_target"
  unfolding r_decl_target_def r_global_target_def
  by (rule rule_unit, rule rule_okI, (intro parts frame_rules; simp))+

lemma declared_list_ok [frame_rules]: "unit_ok target \<Longrightarrow> unit_ok (declared_list r target)"
  unfolding declared_list_def by (rule unit_okI) (intro parts end_unit frame_rules; simp)

lemma decl_ok: "rule_ok (r_decl r)"
  unfolding r_decl_def by (rule rule_okI) (intro parts frame_rules; simp)

lemma global_ok: "rule_ok (r_global r)"
  unfolding r_global_def by (rule rule_okI) (intro parts frame_rules; simp)

lemma stmt_rule_sound: "rule_ok (stmt_rule r t)"
  using do_ok(1) while_ok repeat_ok if_ok [of SkIf] for_ok return_ok leaves_ok func_ok(1) decl_ok global_ok
    label_ok goto_ok maybe_assign_ok rule_pure_None
  by (cases t) (simp_all add: stmt_rule_def split: node_kind.split keyword_kind.split symbol_kind.split lexeme_kind.split)

lemma stmt_sound: "stmt_ok (r_stmt r)"
  unfolding stmt_ok_def r_stmt_def
proof (intro allI, rule bind_unit [OF unit_at], rule hoare_bind)
  fix s0 ms t
  show "hoare (fr s0 ms) (stmt_rule r t) (made s0 ms)" using stmt_rule_sound by (simp add: rule_ok_def)
next
  fix s0 ms c
  let ?Q = "\<lambda>c s. made s0 ms c s \<and> (c = None \<longrightarrow> at_tok s = SkEof)"
  have s: "hoare (fr s0 ms) (rl_stmt r) ?Q" using stmt by (simp add: stmt_ok_def)
  have "hoare (frk s0 ms k) (if k = SkEof then pure None
      else thenp (error_eat_until STATEMENT_RECOVERY) (thenp (add_report ExpectedStatement) (rl_stmt r))) ?Q" for k
    by (intro hoare_if hoare_pure frk_fr bind_unit frame_rules s) (auto simp: frk_def made_def)
  then have "hoare (made s0 ms None) (bindp at_kind (\<lambda>t. if t = SkEof then pure None
      else thenp (error_eat_until STATEMENT_RECOVERY) (thenp (add_report ExpectedStatement) (rl_stmt r)))) ?Q"
    by (intro made_fr bind_at)
  then show "hoare (made s0 ms c) (case c of Some m \<Rightarrow> pure (Some m)
    | None \<Rightarrow> bindp at_kind (\<lambda>t. if t = SkEof then pure None
      else thenp (error_eat_until STATEMENT_RECOVERY) (thenp (add_report ExpectedStatement) (rl_stmt r)))) ?Q"
    by (cases c) (auto intro: hoare_pure)
qed

text \<open>The items of a file end at the end of the input.\<close>

lemma items_ok: "hoare (fr s0 ms) (r_items r) (\<lambda>_ s. fr s0 ms s \<and> at_tok s = SkEof)"
  unfolding r_items_def
proof (rule hoare_loop [where I = "\<lambda>_. fr s0 ms"], rule bind_at, rule hoare_if)
  let ?R = "\<lambda>r s. case r of Inl _ \<Rightarrow> fr s0 ms s | Inr _ \<Rightarrow> fr s0 ms s \<and> at_tok s = SkEof"
  show "hoare (frk s0 ms k) (pure (Inr ())) ?R" if "k = SkEof" for k
    using that by (intro hoare_pure) (simp add: frk_def)
  show "hoare (frk s0 ms k) (bindp (rl_stmt r) (\<lambda>c. pure (if c = None then Inr () else Inl ()))) ?R" for k
  proof (rule frk_fr, rule hoare_bind)
    show "hoare (fr s0 ms) (rl_stmt r) (\<lambda>c s. made s0 ms c s \<and> (c = None \<longrightarrow> at_tok s = SkEof))"
      using stmt by (simp add: stmt_ok_def)
  qed (auto intro: hoare_pure simp: made_def)
qed

lemma root_ok: "hoare (fr s0 []) (root r) (\<lambda>_ s. fr s0 [] s \<and> at_tok s = SkEof)"
  unfolding root_def
proof (rule bind_start, rule hoare_bind [OF items_ok])
  show "hoare (\<lambda>s. fr s0 [(p, SkRoot)] s \<and> at_tok s = SkEof) (ignore (complete (p, SkRoot)))
     (\<lambda>_ s. fr s0 [] s \<and> at_tok s = SkEof)" for p
    using exit_fr [OF fr_drop]
    by (fastforce simp: hoare_def complete_def bindp_def push_event_def pure_def at_tok_def)
qed

end

section \<open>Every number of steps\<close>

lemma unfinished_ok: "hoare P unfinished_parse Q"
  by (simp add: hoare_def unfinished_parse_def)

lemma sound_rules_at: "sound_rules (rules_at n)"
proof (induction n)
  case 0
  show ?case by unfold_locales (simp_all add: rules_at.simps rule_ok_def stmt_ok_def unfinished_ok)
next
  case (Suc n)
  show ?case
    by unfold_locales (simp_all add: rules_at.simps Let_def sound_rules.expr_inner_ok [OF Suc] sound_rules.stmt_sound [OF Suc]
        sound_rules.if_ok [OF Suc])
qed

interpretation parser: sound_rules "rules_at n" for n
  by (rule sound_rules_at)

end
