(* ===== verification/ParseEval.thy ===== *)
theory ParseEval
  imports ParseRules
begin

text \<open>
  Rules that compute what the parser does with a given token sequence. Continuations stay as they are
  until their argument is known.
\<close>

named_theorems parsing \<open>equations that compute the parser\<close>

lemma bindp_run [parsing]: "bindp m f s = and_then (m s) (\<lambda>(x, s'). f x s')"
  by (simp add: bindp_def)

lemma pure_run [parsing]: "pure x s = ok (x, s)"
  by (simp add: pure_def)

lemma rules_at_Suc [parsing]:
  "rl_expr (rules_at (Suc n)) = r_expr_inner (rules_at n)" "rl_stmt (rules_at (Suc n)) = r_stmt (rules_at n)"
  "rl_if (rules_at (Suc n)) = r_if (rules_at n)" "rl_fuel (rules_at (Suc n)) = n"
  by (simp_all add: rules_at.simps Let_def)

lemma rules_at_numeral [parsing]:
  "rl_expr (rules_at (numeral k)) = r_expr_inner (rules_at (pred_numeral k))"
  "rl_stmt (rules_at (numeral k)) = r_stmt (rules_at (pred_numeral k))"
  "rl_if (rules_at (numeral k)) = r_if (rules_at (pred_numeral k))"
  "rl_fuel (rules_at (numeral k)) = pred_numeral k"
  by (simp_all add: numeral_eq_Suc rules_at_Suc)

lemma loop_numeral [parsing]:
  "repeat_loop (numeral k) body x = bindp (body x)
     (\<lambda>r. case r of Inl y \<Rightarrow> repeat_loop (pred_numeral k) body y | Inr z \<Rightarrow> pure z)"
  by (simp add: numeral_eq_Suc)

lemma loop_Suc [parsing]:
  "repeat_loop (Suc n) body x = bindp (body x)
     (\<lambda>r. case r of Inl y \<Rightarrow> repeat_loop n body y | Inr z \<Rightarrow> pure z)"
  by simp

lemma bindp_frozen: "bindp m f = bindp m f" ..
lemma loop_frozen: "n = n' \<Longrightarrow> repeat_loop n body = repeat_loop n' body" by simp
lemma while_frozen: "n = n' \<Longrightarrow> while_kind n c body = while_kind n' c body" by simp
lemma outcome_frozen: "m = m' \<Longrightarrow> and_then m f = and_then m' f" by simp

lemmas parsing_frozen = bindp_frozen loop_frozen while_frozen outcome_frozen

lemmas parsing_state [parsing] =
  run_parser_def state_new_def current_def at_kind_def peek_def push_event_def add_report_def bump_def expect_def
  start_def complete_def set_event_def event_at_def retype_def abandon_def precede_def eat_loop.simps
  error_eat_until_def is_trivia_def idx_def

lemmas parsing_operators [parsing] =
  INDEX_BINDING_POWER_def CALL_BINDING_POWER_def token_is_unary_op_def prefix_binding_power_def
  infix_binding_power_def token_is_literal_def token_is_expr_start_def

lemmas parsing_rules [parsing] =
  STATEMENT_RECOVERY_def completed_def while_kind_def when_kind_def leaf_def r_ident_def r_vararg_def r_literal_def
  r_break_def r_semicolon_def r_label_def r_goto_def r_expr_def r_expr_list_def r_func_call_args_def
  r_method_call_def r_paren_def r_expr_unary_def index_suffix_def call_suffix_def method_suffix_def
  infix_suffix_def grow_expr_def expr_step_def r_block_def r_do_def r_while_def r_repeat_def r_else_def r_if_def
  r_num_for_def r_gen_for_def r_for_def r_return_def param_step_def r_func_def_args_def simple_step_def
  r_simple_expr_def r_func_def r_table_elem_array_def r_table_elem_map_def r_table_elem_generic_def
  r_table_elem_def r_table_def r_expr_lhs_def r_expr_inner_def r_assign_def r_maybe_assign_def r_attrib_def
  r_decl_target_def r_global_attrib_def r_global_target_def declared_list_def r_decl_def r_global_def
  stmt_rule_def r_stmt_def r_items_def root_def tryp_def

end
