(* ===== verification/Sink.thy ===== *)
theory Sink
  imports ParseFrame
begin

text \<open>
  The sink of \<open>parser/machinery.rs\<close>: it turns the events of the parser into the calls of the tree
  builder (a library), here the list of these calls. An event that has been taken is a tombstone.
\<close>

datatype build = StartNode syntax_kind | AddToken syntax_kind span | FinishNode | FinishTree

text \<open>
  The documentation of the builder asks for \<open>start_node\<close> and \<open>finish_node\<close> to be paired when the
  tree is finished. With \<open>d\<close> nodes open, the calls that are:
\<close>

fun paired :: "nat \<Rightarrow> build list \<Rightarrow> bool" where
  "paired d [] = False"
| "paired d (StartNode k # cs) = paired (Suc d) cs"
| "paired d (AddToken k sp # cs) = paired d cs"
| "paired d (FinishNode # cs) = (0 < d \<and> paired (d - 1) cs)"
| "paired d (FinishTree # cs) = (d = 0 \<and> cs = [])"

abbreviation tombstone :: event where "tombstone \<equiv> Enter SkTombstone 0"

text \<open>The loop over the nodes that precede the one entered at \<open>i\<close>: their kinds, innermost first.\<close>

function preceding :: "nat \<Rightarrow> nat \<Rightarrow> event list \<Rightarrow> syntax_kind list \<Rightarrow> (event list \<times> syntax_kind list) option" where
  "preceding i p es ks =
     (if p = 0 then Some (es, ks)
      else case idx es (i + p) of
        Some (Enter k q) \<Rightarrow>
          preceding (i + p) q (es[i + p := tombstone]) (if k \<noteq> SkTombstone then ks @ [k] else ks)
      | _ \<Rightarrow> None)"
  by pat_completeness auto
termination
  by (relation "measure (\<lambda>(i, p, es, ks). length es - i)") (auto simp: idx_eq_Some_iff)

declare preceding.simps [simp del]

lemma preceding_length: "preceding i p es ks = Some (es', ks') \<Longrightarrow> length es' = length es"
proof (induction i p es ks rule: preceding.induct)
  case (1 i p es ks)
  then show ?case
    by (simp add: preceding.simps [of i p es ks] split: if_splits option.splits event.splits)
qed

text \<open>The event at \<open>i\<close>, which is taken, and the loop over all events.\<close>

definition sink_event :: "nat \<Rightarrow> event list \<Rightarrow> (event list \<times> build list) option" where
  "sink_event i es =
     (let e = es ! i; es = es[i := tombstone] in
      if e = tombstone then Some (es, [])
      else case e of
        Enter k p \<Rightarrow> map_option (\<lambda>(es, ks). (es, map StartNode (rev ks))) (preceding i p es [k])
      | Exit \<Rightarrow> Some (es, [FinishNode])
      | Token k sp \<Rightarrow> Some (es, [AddToken k sp]))"

function sink_finish :: "nat \<Rightarrow> event list \<Rightarrow> build list \<Rightarrow> build list option" where
  "sink_finish i es out =
     (if i < length es then
        case sink_event i es of
          None \<Rightarrow> None
        | Some (es', calls) \<Rightarrow> sink_finish (i + 1) es' (out @ calls)
      else Some (out @ [FinishTree]))"
  by pat_completeness auto
termination
  by (relation "measure (\<lambda>(i, es, out). length es - i)")
    (auto simp: sink_event_def Let_def dest!: preceding_length split: if_splits event.splits)

declare sink_finish.simps [simp del]

section \<open>The sink never panics\<close>

text \<open>Every link leads to an entered node, and a node that has been taken is still one.\<close>

lemma tombstone_links: "links_ok es \<Longrightarrow> i < length es \<Longrightarrow> links_ok (es[i := tombstone])"
  by (rule links_ok_update) simp_all

lemma preceding_total:
  "links_ok es \<Longrightarrow> p \<noteq> 0 \<longrightarrow> i + p < length es \<and> is_enter (es ! (i + p)) \<Longrightarrow>
     \<exists>es' ks'. preceding i p es ks = Some (es', ks') \<and> links_ok es'"
proof (induction i p es ks rule: preceding.induct)
  case (1 i p es ks)
  show ?case
  proof (cases "p = 0")
    case True
    then show ?thesis using "1.prems"(1) by (simp add: preceding.simps)
  next
    case False
    then obtain k q where e: "idx es (i + p) = Some (Enter k q)" and l: "i + p < length es" "es ! (i + p) = Enter k q"
      using "1.prems"(2) by (auto simp: is_enter_def idx_Some)
    let ?es = "es[i + p := tombstone]"
    have "i + p + q < length ?es \<and> is_enter (?es ! (i + p + q))" if "q \<noteq> 0"
      using links_okD [OF "1.prems"(1) linkedI [OF l that]] that by simp
    then have "\<exists>es' ks'. preceding (i + p) q ?es (if k \<noteq> SkTombstone then ks @ [k] else ks) = Some (es', ks') \<and> links_ok es'"
      using "1.IH" [OF False e refl] tombstone_links [OF "1.prems"(1) l(1)] by blast
    then show ?thesis using False e by (simp add: preceding.simps [of i p es ks])
  qed
qed

lemma sink_event_total:
  assumes "links_ok es" and "i < length es"
  shows "\<exists>es' calls. sink_event i es = Some (es', calls) \<and> links_ok es'"
proof -
  let ?es = "es[i := tombstone]"
  have l: "links_ok ?es" by (rule tombstone_links [OF assms])
  show ?thesis
  proof (cases "es ! i")
    case (Enter k p)
    have "i + p < length ?es \<and> is_enter (?es ! (i + p))" if "p \<noteq> 0"
      using links_okD [OF assms(1) linkedI [OF assms(2) Enter that]] that by simp
    then obtain es' ks' where "preceding i p ?es [k] = Some (es', ks')" "links_ok es'"
      using preceding_total [OF l] by blast
    then show ?thesis using l Enter by (simp add: sink_event_def Let_def)
  qed (use l in \<open>simp_all add: sink_event_def Let_def\<close>)
qed

lemma sink_total: "links_ok es \<Longrightarrow> \<exists>cs. sink_finish i es out = Some cs"
proof (induction i es out rule: sink_finish.induct)
  case (1 i es out)
  show ?case
  proof (cases "i < length es")
    case True
    then obtain es' calls where e: "sink_event i es = Some (es', calls)" "links_ok es'"
      using sink_event_total [OF "1.prems"] by blast
    then show ?thesis using "1.IH" [OF True e(1) refl e(2)] True by (simp add: sink_finish.simps [of i es])
  next
    case False
    then show ?thesis by (simp add: sink_finish.simps)
  qed
qed

end
