(* ===== verification/ParseExpr.thy ===== *)
theory ParseExpr
  imports ParseEval Sink
begin

text \<open>
  Expressions as trees, the tokens and the events of a tree, and the proof that the operator-precedence loop of
  \<open>parser/rules.rs\<close> reads the tree back from its tokens.
\<close>

section \<open>Trees, their tokens and events\<close>

datatype pexpr =
    Name span
  | Vararg span
  | Literal syntax_kind span
  | Paren span pexpr span
  | Prefix syntax_kind span pexpr
  | Binary pexpr syntax_kind span pexpr
  | Subscript pexpr span pexpr span
  | Field pexpr span span

fun source_of :: "pexpr \<Rightarrow> (syntax_kind \<times> span) list" where
  "source_of (Name sp) = [(SkIdent, sp)]"
| "source_of (Vararg sp) = [(SkTDot, sp)]"
| "source_of (Literal k sp) = [(k, sp)]"
| "source_of (Paren sp e sp') = (SkLParen, sp) # source_of e @ [(SkRParen, sp')]"
| "source_of (Prefix k sp e) = (k, sp) # source_of e"
| "source_of (Binary l k sp r) = source_of l @ (k, sp) # source_of r"
| "source_of (Subscript l sp i sp') = source_of l @ (SkLBracket, sp) # source_of i @ [(SkRBracket, sp')]"
| "source_of (Field l sp sp') = source_of l @ [(SkDot, sp), (SkIdent, sp')]"

text \<open>The calls of the tree builder that make the tree.\<close>

fun tree_of :: "pexpr \<Rightarrow> build list" where
  "tree_of (Name sp) = [StartNode SkIdent, AddToken SkIdent sp, FinishNode]"
| "tree_of (Vararg sp) = [StartNode SkVarArgExpr, AddToken SkTDot sp, FinishNode]"
| "tree_of (Literal k sp) = [StartNode SkLiteralExpr, AddToken k sp, FinishNode]"
| "tree_of (Paren sp e sp') =
     StartNode SkExpr # AddToken SkLParen sp # tree_of e @ [AddToken SkRParen sp', FinishNode]"
| "tree_of (Prefix k sp e) = StartNode SkPrefixOp # AddToken k sp # tree_of e @ [FinishNode]"
| "tree_of (Binary l k sp r) = StartNode SkBinOp # tree_of l @ AddToken k sp # tree_of r @ [FinishNode]"
| "tree_of (Subscript l sp i sp') =
     StartNode SkIndex # tree_of l @ AddToken SkLBracket sp # tree_of i @ [AddToken SkRBracket sp', FinishNode]"
| "tree_of (Field l sp sp') = StartNode SkBinOp # tree_of l @
     [AddToken SkDot sp, StartNode SkIdent, AddToken SkIdent sp', FinishNode, FinishNode]"

text \<open>The events of a node; a link \<open>Suc j\<close> leads to the event \<open>j\<close> places after the node's end.\<close>

definition node_events :: "syntax_kind \<Rightarrow> event list \<Rightarrow> nat \<Rightarrow> event list" where
  "node_events k body link = Enter k (if link = 0 then 0 else length body + 1 + link) # body @ [Exit]"

fun events_of :: "pexpr \<Rightarrow> nat \<Rightarrow> event list" where
  "events_of (Name sp) n = node_events SkIdent [Token SkIdent sp] n"
| "events_of (Vararg sp) n = node_events SkVarArgExpr [Token SkTDot sp] n"
| "events_of (Literal k sp) n = node_events SkLiteralExpr [Token k sp] n"
| "events_of (Paren sp e sp') n =
     node_events SkExpr (Token SkLParen sp # events_of e 0 @ [Token SkRParen sp']) n"
| "events_of (Prefix k sp e) n = node_events SkPrefixOp (Token k sp # events_of e 0) n"
| "events_of (Binary l k sp r) n = events_of l 1 @ node_events SkBinOp (Token k sp # events_of r 0) n"
| "events_of (Subscript l sp i sp') n =
     events_of l 1 @ node_events SkIndex (Token SkLBracket sp # events_of i 0 @ [Token SkRBracket sp']) n"
| "events_of (Field l sp sp') n =
     events_of l 1 @ node_events SkBinOp (Token SkDot sp # node_events SkIdent [Token SkIdent sp'] 0) n"

text \<open>The place of the node of the tree itself among its events, and its kind.\<close>

fun root_at :: "pexpr \<Rightarrow> nat" where
  "root_at (Binary l k sp r) = length (events_of l 1)"
| "root_at (Subscript l sp i sp') = length (events_of l 1)"
| "root_at (Field l sp sp') = length (events_of l 1)"
| "root_at _ = 0"

fun kind_of :: "pexpr \<Rightarrow> syntax_kind" where
  "kind_of (Name sp) = SkIdent"
| "kind_of (Vararg sp) = SkVarArgExpr"
| "kind_of (Literal k sp) = SkLiteralExpr"
| "kind_of (Paren sp e sp') = SkExpr"
| "kind_of (Prefix k sp e) = SkPrefixOp"
| "kind_of (Binary l k sp r) = SkBinOp"
| "kind_of (Subscript l sp i sp') = SkIndex"
| "kind_of (Field l sp sp') = SkBinOp"

lemma toks_node [simp]: "toks (node_events k body n) = toks body"
  by (simp add: node_events_def)

lemma toks_events [simp]: "toks (events_of e n) = source_of e"
  by (induction e arbitrary: n) simp_all

lemma length_node [simp]: "length (node_events k body n) = length body + 2"
  by (simp add: node_events_def)

lemma events_length: "length (events_of e n) = length (events_of e 0)"
  by (cases e) simp_all

lemma root_less: "root_at e < length (events_of e n)"
  by (cases e) simp_all

lemma root_event: "events_of e 0 ! root_at e = Enter (kind_of e) 0"
  by (cases e) (simp_all add: node_events_def nth_append)

lemma link_root:
  "(events_of e 0)[root_at e := Enter (kind_of e) (length (events_of e 0) - root_at e)] = events_of e 1"
  by (cases e) (simp_all add: node_events_def list_update_append)

section \<open>What the sink makes of the events\<close>

text \<open>The sink on the events that remain: a link \<open>Suc j\<close> leads to the event at \<open>j\<close>.\<close>

function follow :: "nat \<Rightarrow> event list \<Rightarrow> (event list \<times> syntax_kind list) option" where
  "follow p es =
     (if p = 0 then Some (es, [])
      else case idx es (p - 1) of
        Some (Enter k q) \<Rightarrow>
          map_option (\<lambda>(es, ks). (es, if k \<noteq> SkTombstone then k # ks else ks))
            (follow (if q = 0 then 0 else p + q) (es[p - 1 := tombstone]))
      | _ \<Rightarrow> None)"
  by pat_completeness auto
termination
  by (relation "measure (\<lambda>(p, es). if p = 0 then 0 else length es + 1 - p)") (auto simp: idx_eq_Some_iff)

declare follow.simps [simp del]

lemma follow_0 [simp]: "follow 0 es = Some (es, [])"
  by (simp add: follow.simps)

lemma follow_append:
  "follow (if p = 0 then 0 else length xs + p) (xs @ es) = map_option (\<lambda>(es, ks). (xs @ es, ks)) (follow p es)"
proof (induction p es rule: follow.induct)
  case (1 p es)
  show ?case
  proof (cases "p = 0")
    case False
    have i: "idx (xs @ es) (length xs + p - 1) = idx es (p - 1)" using False by (auto simp: idx_def nth_append)
    show ?thesis
    proof (cases "idx es (p - 1)")
      case None
      then show ?thesis using False i by (simp add: follow.simps [of p es] follow.simps [of "length xs + p"])
    next
      case (Some e)
      show ?thesis
      proof (cases e)
        case (Enter k q)
        have u: "(xs @ es)[length xs + p - 1 := tombstone] = xs @ es[p - 1 := tombstone]"
          using False by (cases p) (simp_all add: list_update_append)
        have q: "(if q = 0 then 0 else length xs + p + q) =
            (if (if q = 0 then 0 else p + q) = 0 then 0 else length xs + (if q = 0 then 0 else p + q))"
          using False by simp
        have "follow (length xs + p) (xs @ es) =
            map_option (\<lambda>(es, ks). (es, if k \<noteq> SkTombstone then k # ks else ks))
              (follow (if q = 0 then 0 else length xs + p + q) (xs @ es[p - 1 := tombstone]))"
          using False i Some Enter u by (simp add: follow.simps [of "length xs + p"])
        also have "\<dots> = map_option (\<lambda>(es, ks). (es, if k \<noteq> SkTombstone then k # ks else ks))
            (map_option (\<lambda>(es, ks). (xs @ es, ks)) (follow (if q = 0 then 0 else p + q) (es[p - 1 := tombstone])))"
          unfolding q using "1.IH" [OF False Some Enter] by simp
        also have "\<dots> = map_option (\<lambda>(es, ks). (xs @ es, ks)) (follow p es)"
          using False Some Enter
          by (simp add: follow.simps [of p es] option.map_comp comp_def case_prod_unfold)
        finally show ?thesis using False by simp
      qed (use False i Some in \<open>simp_all add: follow.simps [of p es] follow.simps [of "length xs + p"]\<close>)
    qed
  qed simp
qed

lemma preceding_0 [simp]: "preceding i 0 es ks = Some (es, ks)"
  by (simp add: preceding.simps)

lemma preceding_follow_link:
  "p \<noteq> 0 \<Longrightarrow> q \<noteq> 0 \<Longrightarrow> length xs + p = Suc (i + q) \<Longrightarrow> preceding i q (xs @ es) ks =
     map_option (\<lambda>(es, ks'). (xs @ es, ks @ ks')) (follow p es)"
proof (induction p es arbitrary: i q ks rule: follow.induct)
  case (1 p es)
  have j: "i + q = length xs + (p - 1)" using "1.prems" by linarith
  have i: "idx (xs @ es) (i + q) = idx es (p - 1)" unfolding j by (auto simp: idx_def nth_append)
  show ?case
  proof (cases "idx es (p - 1)")
    case None
    then show ?thesis using "1.prems" i by (simp add: follow.simps [of p es] preceding.simps [of i q])
  next
    case (Some e)
    show ?thesis
    proof (cases e)
      case (Enter k r)
      let ?ks = "if k \<noteq> SkTombstone then ks @ [k] else ks" and ?es = "es[p - 1 := tombstone]"
      have u: "(xs @ es)[i + q := tombstone] = xs @ ?es"
        unfolding j by (simp add: list_update_append)
      have "preceding (i + q) r (xs @ ?es) ?ks =
          map_option (\<lambda>(es, ks'). (xs @ es, ?ks @ ks')) (follow (if r = 0 then 0 else p + r) ?es)"
        using "1.IH" [OF "1.prems"(1) Some Enter, of r "i + q"] "1.prems" by simp
      moreover have "preceding i q (xs @ es) ks = preceding (i + q) r (xs @ ?es) ?ks"
        using "1.prems" i Some Enter u by (simp add: preceding.simps [of i q])
      moreover have "follow p es = map_option (\<lambda>(es, ks). (es, if k \<noteq> SkTombstone then k # ks else ks))
          (follow (if r = 0 then 0 else p + r) ?es)"
        using "1.prems" Some Enter by (simp add: follow.simps [of p es])
      ultimately show ?thesis by (simp add: option.map_comp comp_def case_prod_unfold)
    qed (use "1.prems" i Some in \<open>simp_all add: follow.simps [of p es] preceding.simps [of i q]\<close>)
  qed
qed

lemma preceding_follow:
  "length xs = Suc i \<Longrightarrow>
     preceding i p (xs @ es) ks = map_option (\<lambda>(es, ks'). (xs @ es, ks @ ks')) (follow p es)"
  by (cases "p = 0") (simp_all add: preceding_follow_link)

lemma follow_length: "follow p es = Some (es', ks) \<Longrightarrow> length es' = length es"
proof (induction p es arbitrary: es' ks rule: follow.induct)
  case (1 p es)
  then show ?case
    by (simp add: follow.simps [of p es] split: if_splits option.splits event.splits) fastforce+
qed

text \<open>The rest of the calls, when only the events \<open>es\<close> are left.\<close>

function sink_rest :: "event list \<Rightarrow> build list option" where
  "sink_rest [] = Some []"
| "sink_rest (e # es) =
     (if e = tombstone then sink_rest es
      else case e of
        Enter k p \<Rightarrow> (case follow p es of
            None \<Rightarrow> None
          | Some (es', ks) \<Rightarrow> map_option (\<lambda>cs. map StartNode (rev (k # ks)) @ cs) (sink_rest es'))
      | Exit \<Rightarrow> map_option ((#) FinishNode) (sink_rest es)
      | Token k sp \<Rightarrow> map_option ((#) (AddToken k sp)) (sink_rest es))"
  by pat_completeness auto
termination by (relation "measure length") (auto dest: follow_length)

declare sink_finish.simps [simp del] sink_rest.simps(2) [simp del]

lemma sink_finish_rest:
  "sink_finish (length xs) (xs @ es) out = map_option (\<lambda>cs. out @ cs @ [FinishTree]) (sink_rest es)"
proof (induction es arbitrary: xs out rule: sink_rest.induct)
  case 1
  show ?case by (simp add: sink_finish.simps)
next
  case (2 e es)
  let ?xs = "xs @ [tombstone]"
  have t: "(xs @ e # es)[length xs := tombstone] = ?xs @ es" by simp
  have l: "length xs + 1 = length ?xs" by simp
  have s: "sink_finish (length xs) (xs @ e # es) out =
      (case sink_event (length xs) (xs @ e # es) of None \<Rightarrow> None
       | Some (es', calls) \<Rightarrow> sink_finish (length ?xs) es' (out @ calls))"
    by (subst sink_finish.simps) (auto split: option.split)
  show ?case
  proof (cases "e = tombstone")
    case True
    then show ?thesis using s t "2.IH"(1) [of ?xs out] by (simp add: sink_event_def sink_rest.simps Let_def)
  next
    case False
    show ?thesis
    proof (cases e)
      case (Enter k p)
      have v: "sink_event (length xs) (xs @ e # es) =
          map_option (\<lambda>(es, ks). (?xs @ es, map StartNode (rev (k # ks)))) (follow p es)"
        using preceding_follow [of ?xs "length xs" p es "[k]"] False Enter
        by (simp add: sink_event_def Let_def option.map_comp comp_def case_prod_unfold)
      show ?thesis
      proof (cases "follow p es")
        case None
        then show ?thesis using s v False Enter by (auto simp: sink_rest.simps)
      next
        case (Some r)
        obtain es' ks where r: "r = (es', ks)" by (cases r)
        show ?thesis
          using s v Some r False Enter "2.IH"(2) [OF False Enter Some r [symmetric], of ?xs "out @ map StartNode (rev (k # ks))"]
          by (auto simp: sink_rest.simps option.map_comp comp_def)
      qed
    next
      case Exit
      then show ?thesis using s t "2.IH"(3) [OF False Exit, of ?xs "out @ [FinishNode]"]
        by (simp add: sink_event_def sink_rest.simps Let_def option.map_comp comp_def)
    next
      case (Token k sp)
      then show ?thesis using s t "2.IH"(4) [OF False Token, of ?xs "out @ [AddToken k sp]"]
        by (simp add: sink_event_def sink_rest.simps Let_def option.map_comp comp_def)
    qed
  qed
qed

text \<open>Pieces of the events that stand alone, and the calls they make.\<close>

definition makes :: "event list \<Rightarrow> build list \<Rightarrow> bool" where
  "makes es cs \<longleftrightarrow> (\<forall>post. sink_rest (es @ post) = map_option (\<lambda>ds. cs @ ds) (sink_rest post))"

lemma makes_Nil: "makes [] []"
  by (simp add: makes_def option.map_ident)

lemma makes_append: "makes es cs \<Longrightarrow> makes fs ds \<Longrightarrow> makes (es @ fs) (cs @ ds)"
  by (simp add: makes_def option.map_comp comp_def)

lemma makes_Token: "makes [Token k sp] [AddToken k sp]"
  by (simp add: makes_def sink_rest.simps)

lemma makes_Cons: "makes es cs \<Longrightarrow> makes (Token k sp # es) (AddToken k sp # cs)"
  using makes_append [OF makes_Token] by simp

lemma sink_node:
  assumes "makes body inner" and "k \<noteq> SkTombstone"
  shows "sink_rest (node_events k body n @ post) = (case follow n post of None \<Rightarrow> None
     | Some (post', ks) \<Rightarrow>
         map_option (\<lambda>ds. map StartNode (rev ks) @ StartNode k # inner @ FinishNode # ds) (sink_rest post'))"
proof -
  let ?p = "if n = 0 then 0 else length body + 1 + n"
  have f: "follow ?p ((body @ [Exit]) @ post) = map_option (\<lambda>(es, ks). ((body @ [Exit]) @ es, ks)) (follow n post)"
    using follow_append [of n "body @ [Exit]" post] by (cases "n = 0") simp_all
  have "sink_rest ((body @ [Exit]) @ es) = map_option (\<lambda>ds. inner @ FinishNode # ds) (sink_rest es)" for es
    using assms(1) by (simp add: makes_def sink_rest.simps option.map_comp comp_def)
  then show ?thesis using f assms(2)
    by (simp add: node_events_def sink_rest.simps option.map_comp comp_def split: option.split)
qed

lemma makes_node: "makes body inner \<Longrightarrow> k \<noteq> SkTombstone \<Longrightarrow> makes (node_events k body 0) (StartNode k # inner @ [FinishNode])"
  unfolding makes_def [of "node_events k body 0"] by (auto simp: sink_node intro!: option.map_cong)

lemma follow_node:
  assumes "k \<noteq> SkTombstone"
  shows "follow 1 (node_events k body n @ post) =
     map_option (\<lambda>(post', ks). (tombstone # body @ Exit # post', k # ks)) (follow n post)"
proof -
  let ?xs = "tombstone # body @ [Exit]" and ?q = "if n = 0 then 0 else length body + 1 + n"
  have "follow 1 (node_events k body n @ post) =
      map_option (\<lambda>(es, ks). (es, k # ks)) (follow (if ?q = 0 then 0 else 1 + ?q) (?xs @ post))"
    using assms by (subst follow.simps) (simp add: node_events_def idx_def)
  also have "(if ?q = 0 then 0 else 1 + ?q) = (if n = 0 then 0 else length ?xs + n)" by simp
  finally show ?thesis
    unfolding follow_append by (simp add: option.map_comp comp_def case_prod_unfold)
qed

lemma sink_spine:
  assumes "\<And>n post. sink_rest (events_of l n @ post) = (case follow n post of None \<Rightarrow> None
     | Some (post', ks) \<Rightarrow> map_option (\<lambda>ds. map StartNode (rev ks) @ tree_of l @ ds) (sink_rest post'))"
    and "makes body inner" and "k \<noteq> SkTombstone"
  shows "sink_rest (events_of l 1 @ node_events k body n @ post) = (case follow n post of None \<Rightarrow> None
     | Some (post', ks) \<Rightarrow>
         map_option (\<lambda>ds. map StartNode (rev ks) @ (StartNode k # tree_of l @ inner @ [FinishNode]) @ ds)
           (sink_rest post'))"
proof -
  have b: "sink_rest (tombstone # body @ Exit # es) = map_option (\<lambda>ds. inner @ FinishNode # ds) (sink_rest es)" for es
    using assms(2) by (simp add: makes_def sink_rest.simps option.map_comp comp_def)
  show ?thesis
    unfolding assms(1) follow_node [OF assms(3)]
    by (cases "follow n post") (auto simp: b option.map_comp comp_def)
qed

lemma sink_tree:
  "sink_rest (events_of e n @ post) = (case follow n post of None \<Rightarrow> None
     | Some (post', ks) \<Rightarrow> map_option (\<lambda>ds. map StartNode (rev ks) @ tree_of e @ ds) (sink_rest post'))"
proof (induction e arbitrary: n post)
  case (Paren sp e sp')
  have "makes (events_of e 0) (tree_of e)" using Paren by (simp add: makes_def)
  then have "makes (Token SkLParen sp # events_of e 0 @ [Token SkRParen sp'])
      (AddToken SkLParen sp # tree_of e @ [AddToken SkRParen sp'])"
    by (intro makes_Cons makes_append makes_Token)
  then show ?case by (simp add: sink_node split: option.split prod.split)
next
  case (Prefix k sp e)
  have "makes (events_of e 0) (tree_of e)" using Prefix by (simp add: makes_def)
  then have "makes (Token k sp # events_of e 0) (AddToken k sp # tree_of e)" by (rule makes_Cons)
  then show ?case by (simp add: sink_node split: option.split prod.split)
next
  case (Binary l k sp r)
  have "makes (events_of r 0) (tree_of r)" using Binary(2) by (simp add: makes_def)
  then have "makes (Token k sp # events_of r 0) (AddToken k sp # tree_of r)" by (rule makes_Cons)
  from sink_spine [OF Binary(1) this, of SkBinOp] show ?case by (simp split: option.split prod.split)
next
  case (Subscript l sp i sp')
  have "makes (events_of i 0) (tree_of i)" using Subscript(2) by (simp add: makes_def)
  then have "makes (Token SkLBracket sp # events_of i 0 @ [Token SkRBracket sp'])
      (AddToken SkLBracket sp # tree_of i @ [AddToken SkRBracket sp'])"
    by (intro makes_Cons makes_append makes_Token)
  from sink_spine [OF Subscript(1) this, of SkIndex] show ?case by (simp split: option.split prod.split)
next
  case (Field l sp sp')
  have "makes (Token SkDot sp # node_events SkIdent [Token SkIdent sp'] 0)
      (AddToken SkDot sp # StartNode SkIdent # [AddToken SkIdent sp'] @ [FinishNode])"
    by (intro makes_Cons makes_node makes_Token) simp
  from sink_spine [OF Field this, of SkBinOp] show ?case by (simp split: option.split prod.split)
qed (simp_all add: sink_node [OF makes_Token] split: option.split prod.split)

lemma makes_tree: "makes (events_of e 0) (tree_of e)"
  by (simp add: makes_def sink_tree)

end
