(* ===== verification/ParseTree.thy ===== *)
theory ParseTree
  imports ParseExpr
begin

text \<open>
  The operator-precedence loop of \<open>parser/rules.rs\<close> on the tokens of a tree: which trees their tokens determine
  (\<open>fits\<close>), and that the rule for expressions makes exactly their events.
\<close>

section \<open>Trees that their tokens determine\<close>

text \<open>The loop with the binding power \<open>bp\<close> goes on at the token \<open>t\<close>.\<close>

definition goes_on :: "int \<Rightarrow> syntax_kind \<Rightarrow> bool" where
  "goes_on bp t \<longleftrightarrow> t = SkColon \<or> t = SkLParen \<and> bp \<le> CALL_BINDING_POWER
     \<or> t = SkLBracket \<and> bp \<le> INDEX_BINDING_POWER
     \<or> (case infix_binding_power t of None \<Rightarrow> False | Some (l_bp, r_bp) \<Rightarrow> bp \<le> l_bp)"

text \<open>An operand at the right end of the tree takes the token \<open>t\<close> that follows.\<close>

fun absorbs :: "pexpr \<Rightarrow> syntax_kind \<Rightarrow> bool" where
  "absorbs (Prefix k sp e) t \<longleftrightarrow>
     (case prefix_binding_power k of None \<Rightarrow> False | Some bp \<Rightarrow> goes_on bp t) \<or> absorbs e t"
| "absorbs (Binary l k sp r) t \<longleftrightarrow>
     (case infix_binding_power k of None \<Rightarrow> False | Some (l_bp, r_bp) \<Rightarrow> goes_on r_bp t) \<or> absorbs r t"
| "absorbs _ t \<longleftrightarrow> False"

fun fits :: "int \<Rightarrow> pexpr \<Rightarrow> bool" where
  "fits bp (Name sp) \<longleftrightarrow> True"
| "fits bp (Vararg sp) \<longleftrightarrow> True"
| "fits bp (Literal k sp) \<longleftrightarrow> token_is_literal k"
| "fits bp (Paren sp e sp') \<longleftrightarrow> fits 0 e"
| "fits bp (Prefix k sp e) \<longleftrightarrow> (case prefix_binding_power k of None \<Rightarrow> False | Some r_bp \<Rightarrow> fits r_bp e)"
| "fits bp (Binary l k sp r) \<longleftrightarrow> k \<notin> {SkDot, SkColon} \<and>
     (case infix_binding_power k of None \<Rightarrow> False
      | Some (l_bp, r_bp) \<Rightarrow> bp \<le> l_bp \<and> fits r_bp r) \<and> fits bp l \<and> \<not> absorbs l k"
| "fits bp (Subscript l sp i sp') \<longleftrightarrow>
     bp \<le> INDEX_BINDING_POWER \<and> fits 0 i \<and> fits bp l \<and> \<not> absorbs l SkLBracket"
| "fits bp (Field l sp sp') \<longleftrightarrow> bp \<le> 24 \<and> fits bp l \<and> \<not> absorbs l SkDot"

section \<open>Reading\<close>

definition reads :: "pstate \<Rightarrow> (syntax_kind \<times> span) list \<Rightarrow> bool" where
  "reads s ts \<longleftrightarrow> drop (ps_cursor s) (ps_tokens s) = ts"

definition emit :: "pstate \<Rightarrow> event list \<Rightarrow> pstate" where
  "emit s es = s\<lparr>ps_events := ps_events s @ es, ps_cursor := ps_cursor s + length (toks es)\<rparr>"

lemma emit_emit [simp]: "emit (emit s es) fs = emit s (es @ fs)"
  by (simp add: emit_def add.assoc)

lemma emit_Nil [simp]: "emit s [] = s"
  by (simp add: emit_def)

lemma emit_fields [simp]:
  "ps_events (emit s es) = ps_events s @ es" "ps_reports (emit s es) = ps_reports s" "ps_tokens (emit s es) = ps_tokens s"
  by (simp_all add: emit_def)

lemma reads_emit:
  assumes "reads s (toks es @ ts)"
  shows "reads (emit s es) ts"
proof -
  have e: "drop (ps_cursor s) (ps_tokens s) = toks es @ ts" using assms by (simp add: reads_def)
  have "drop (length (toks es)) (drop (ps_cursor s) (ps_tokens s)) = ts" unfolding e by simp
  then show ?thesis by (simp add: reads_def emit_def add.commute)
qed

lemma reads_idx:
  assumes "reads s (t # ts)"
  shows "idx (ps_tokens s) (ps_cursor s) = Some t"
proof -
  have "ps_cursor s < length (ps_tokens s)"
    using assms by (metis drop_eq_Nil2 list.distinct(1) not_le reads_def)
  then show ?thesis using assms by (simp add: reads_def idx_Some Cons_nth_drop_Suc [symmetric])
qed

lemma run_at: "reads s ((k, sp) # ts) \<Longrightarrow> at_kind s = ok (k, s)"
  by (simp add: at_kind_def current_def bindp_def pure_def reads_idx)

lemma run_bind_at: "reads s ((k, sp) # ts) \<Longrightarrow> bindp at_kind f s = f k s"
  by (simp add: bindp_def run_at)

lemma run_expect: "reads s ((k, sp) # ts) \<Longrightarrow> bindp (expect k) f s = f True (emit s [Token k sp])"
  by (simp add: bindp_def expect_def at_kind_def current_def pure_def bump_def push_event_def reads_idx emit_def)

lemma run_start: "bindp (start k) f s = f (length (ps_events s), k) (emit s [Enter k 0])"
  by (simp add: bindp_def start_def emit_def)

lemma run_completed: "completed m s = ok (Some m, emit s [Exit])"
  by (simp add: completed_def complete_def bindp_def push_event_def pure_def emit_def)

lemma run_bind: "m s = ok (x, s') \<Longrightarrow> bindp m f s = f x s'"
  by (simp add: bindp_def)

lemma run_try: "m s = ok (Some x, s') \<Longrightarrow> tryp m f s = f x s'"
  by (simp add: tryp_def bindp_def)

text \<open>The state after the tree \<open>e\<close>, and the marker of its node.\<close>

abbreviation past :: "pstate \<Rightarrow> pexpr \<Rightarrow> pstate" where
  "past s e \<equiv> emit s (events_of e 0)"

abbreviation mark :: "pstate \<Rightarrow> pexpr \<Rightarrow> marker" where
  "mark s e \<equiv> (length (ps_events s) + root_at e, kind_of e)"

lemma run_precede:
  "bindp (precede (mark s e) k) f (past s e) =
     f (length (ps_events s) + length (events_of e 0), k) (emit s (events_of e 1 @ [Enter k 0]))"
proof -
  let ?s = "emit s (events_of e 0 @ [Enter k 0])"
  have r: "root_at e < length (events_of e 0)" by (rule root_less)
  have n: "idx (ps_events ?s) (length (ps_events s) + root_at e) = Some (Enter (kind_of e) 0)"
    using r root_event by (simp add: idx_def nth_append)
  have u: "(ps_events ?s)[length (ps_events s) + root_at e :=
      Enter (kind_of e) (length (events_of e 0) - root_at e)] = ps_events s @ events_of e 1 @ [Enter k 0]"
    using r link_root [of e] by (simp add: list_update_append)
  have c: "s\<lparr>ps_cursor := c, ps_events := es\<rparr> = s\<lparr>ps_events := es, ps_cursor := c\<rparr>" for c es
    by (cases s) simp
  show ?thesis
    using n u by (simp add: bindp_def precede_def start_def event_at_def set_event_def pure_def emit_def c)
qed

section \<open>The loop reads the tree\<close>

lemma rl_fuel_Suc: "rl_fuel (rules_at (Suc n)) = n"
  by (simp add: rules_at.simps Let_def)

lemma rl_expr_Suc: "rl_expr (rules_at (Suc n)) = r_expr_inner (rules_at n)"
  by (simp add: rules_at.simps Let_def)

lemma rl_stmt_Suc: "rl_stmt (rules_at (Suc n)) = r_stmt (rules_at n)"
  by (simp add: rules_at.simps Let_def)

lemma run_loop_stop: "body x s = ok (Inr z, s') \<Longrightarrow> repeat_loop (Suc n) body x s = ok (z, s')"
  by (simp add: bindp_def pure_def)

lemma run_loop_on: "body x s = ok (Inl y, s') \<Longrightarrow> repeat_loop (Suc n) body x s = repeat_loop n body y s'"
  by (simp add: bindp_def)

lemma run_finish: "ignore (complete m) s = ok ((), emit s [Exit])"
  by (simp add: complete_def bindp_def push_event_def pure_def emit_def)

lemma run_leaf:
  "reads s ((tok, sp) # ts) \<Longrightarrow> leaf nd tok s = ok (Some (length (ps_events s), nd), emit s (node_events nd [Token tok sp] 0))"
  by (simp add: leaf_def run_start run_expect [OF reads_emit] run_completed node_events_def)

lemma run_ident: "reads s ((SkIdent, sp) # ts) \<Longrightarrow> r_ident s = ok (Some (length (ps_events s), SkIdent), emit s (node_events SkIdent [Token SkIdent sp] 0))"
  by (simp add: r_ident_def run_leaf)

fun spine :: "pexpr \<Rightarrow> nat" where
  "spine (Binary l k sp r) = Suc (spine l)"
| "spine (Subscript l sp i sp') = Suc (spine l)"
| "spine (Field l sp sp') = Suc (spine l)"
| "spine _ = 0"

lemma spine_size: "spine e \<le> size e"
  by (induction e) simp_all

text \<open>The loop reads the tree \<open>e\<close>, in one round for each node of its left spine.\<close>

definition loop_reads :: "nat \<Rightarrow> pexpr \<Rightarrow> bool" where
  "loop_reads n e \<longleftrightarrow> (\<forall>s bp t sp ts j. fits bp e \<longrightarrow> \<not> absorbs e t \<longrightarrow> reads s (source_of e @ (t, sp) # ts) \<longrightarrow>
     tryp (r_expr_lhs (rules_at n)) (repeat_loop (spine e + j) (expr_step (rules_at n) bp)) s =
     repeat_loop j (expr_step (rules_at n) bp) (mark s e) (past s e))"

lemma loop_readsD:
  "loop_reads n e \<Longrightarrow> fits bp e \<Longrightarrow> \<not> absorbs e t \<Longrightarrow> reads s (source_of e @ (t, sp) # ts) \<Longrightarrow>
     tryp (r_expr_lhs (rules_at n)) (repeat_loop (spine e + j) (expr_step (rules_at n) bp)) s =
     repeat_loop j (expr_step (rules_at n) bp) (mark s e) (past s e)"
  unfolding loop_reads_def by blast

lemma step_stops: "reads s ((t, sp) # ts) \<Longrightarrow> \<not> goes_on bp t \<Longrightarrow> expr_step r bp lhs s = ok (Inr (Some lhs), s)"
  by (auto simp: expr_step_def run_bind_at goes_on_def pure_def not_le split: option.splits)

lemma expr_reads:
  assumes "loop_reads n e" and "size e + 2 \<le> n" and "fits bp e" and "\<not> absorbs e t" and "\<not> goes_on bp t"
    and "reads s (source_of e @ (t, sp) # ts)"
  shows "rl_expr (rules_at (Suc n)) bp s = ok (Some (mark s e), past s e)"
proof -
  obtain m where n: "n = Suc m" using assms(2) by (cases n) simp_all
  obtain j where j: "m = spine e + Suc j"
    using assms(2) spine_size [of e] n by (intro that [of "m - spine e - 1"]) simp
  have "rl_expr (rules_at (Suc n)) bp s =
      repeat_loop (Suc j) (expr_step (rules_at n) bp) (mark s e) (past s e)"
    using loop_readsD [OF assms(1,3,4,6), of "Suc j"]
    by (simp only: rl_expr_Suc r_expr_inner_def rl_fuel_Suc n j)
  also have "\<dots> = ok (Some (mark s e), past s e)"
    using step_stops [OF _ assms(5), of "past s e" sp ts] reads_emit [of s "events_of e 0"] assms(6)
    by (simp add: bindp_def pure_def)
  finally show ?thesis .
qed

lemma closer: "(\<And>bp. \<not> goes_on bp t) \<Longrightarrow> \<not> absorbs e t"
  by (induction e) (auto split: option.splits)

lemma closers: "\<not> goes_on bp SkRParen" "\<not> goes_on bp SkRBracket" "\<not> goes_on bp SkEof"
  by (simp_all add: goes_on_def infix_binding_power_def)

lemma loop_starts:
  assumes "spine e = 0"
    and "\<And>s bp t sp ts. \<not> absorbs e t \<Longrightarrow> reads s (source_of e @ (t, sp) # ts) \<Longrightarrow> fits bp e \<Longrightarrow>
      r_expr_lhs (rules_at n) s = ok (Some (mark s e), past s e)"
  shows "loop_reads n e"
  unfolding loop_reads_def
proof (intro allI impI)
  fix s bp t sp ts j
  assume "fits bp e" "\<not> absorbs e t" "reads s (source_of e @ (t, sp) # ts)"
  then have "r_expr_lhs (rules_at n) s = ok (Some (mark s e), past s e)" by (intro assms(2))
  then show "tryp (r_expr_lhs (rules_at n)) (repeat_loop (spine e + j) (expr_step (rules_at n) bp)) s =
      repeat_loop j (expr_step (rules_at n) bp) (mark s e) (past s e)"
    using assms(1) by (simp add: run_try)
qed

lemma loop_grows:
  assumes "loop_reads n l" and "spine e = Suc (spine l)" and "\<And>bp. fits bp e \<Longrightarrow> fits bp l \<and> \<not> absorbs l k"
    and "source_of e = source_of l @ (k, sp) # rest"
    and "\<And>s bp t spt ts. fits bp e \<Longrightarrow> \<not> absorbs e t \<Longrightarrow> reads s (source_of e @ (t, spt) # ts) \<Longrightarrow>
      expr_step (rules_at n) bp (mark s l) (past s l) = ok (Inl (mark s e), past s e)"
  shows "loop_reads n e"
  unfolding loop_reads_def
proof (intro allI impI)
  fix s bp t spt ts j
  assume f: "fits bp e" and b: "\<not> absorbs e t" and r: "reads s (source_of e @ (t, spt) # ts)"
  have "reads s (source_of l @ (k, sp) # rest @ (t, spt) # ts)" using r assms(4) by simp
  then have "tryp (r_expr_lhs (rules_at n)) (repeat_loop (spine l + Suc j) (expr_step (rules_at n) bp)) s =
      repeat_loop (Suc j) (expr_step (rules_at n) bp) (mark s l) (past s l)"
    using loop_readsD [OF assms(1)] assms(3) [OF f] by blast
  then show "tryp (r_expr_lhs (rules_at n)) (repeat_loop (spine e + j) (expr_step (rules_at n) bp)) s =
      repeat_loop j (expr_step (rules_at n) bp) (mark s e) (past s e)"
    using assms(2) assms(5) [OF f b r] by (simp add: run_bind)
qed

lemma literal_lhs: "token_is_literal k \<Longrightarrow> \<not> token_is_unary_op k \<and> k \<notin> {SkIdent, SkTDot, SkLCurly, SkLParen, SkFunction}"
  by (auto simp: token_is_literal_def token_is_unary_op_def)

lemma unary_lhs: "prefix_binding_power k = Some bp \<Longrightarrow>
    token_is_unary_op k \<and> k \<notin> {SkIdent, SkTDot, SkLCurly, SkLParen, SkFunction}"
  by (auto simp: prefix_binding_power_def token_is_unary_op_def split: if_splits)

lemma infix_step: "infix_binding_power k = Some p \<Longrightarrow> k \<notin> {SkLParen, SkLBracket}"
  by (auto simp: infix_binding_power_def)

lemma run_grow: "m s = ok (Some x, s') \<Longrightarrow> grow_expr m s = ok (Inl x, s')"
  by (simp add: grow_expr_def bindp_def pure_def)

lemma loop_reads_tree: "size e + 2 \<le> n \<Longrightarrow> loop_reads n e"
proof (induction e arbitrary: n)
  case (Name sp)
  show ?case
    by (rule loop_starts) (simp_all add: r_expr_lhs_def run_bind_at run_ident)
next
  case (Vararg sp)
  show ?case
    by (rule loop_starts) (simp_all add: r_expr_lhs_def run_bind_at r_vararg_def run_leaf)
next
  case (Literal k sp)
  show ?case
  proof (rule loop_starts)
    fix s bp t spt ts
    assume r: "reads s (source_of (Literal k sp) @ (t, spt) # ts)" and "fits bp (Literal k sp)"
    then have k: "token_is_literal k" by simp
    have r': "reads (emit s [Enter SkLiteralExpr 0]) ((k, sp) # (t, spt) # ts)" using r by (intro reads_emit) simp
    have "r_literal s = ok (Some (mark s (Literal k sp)), past s (Literal k sp))"
      using r' by (simp add: r_literal_def run_start run_bind_at run_expect run_completed node_events_def)
    then show "r_expr_lhs (rules_at n) s = ok (Some (mark s (Literal k sp)), past s (Literal k sp))"
      using r k literal_lhs [OF k] by (simp add: r_expr_lhs_def run_bind_at)
  qed simp
next
  case (Paren sp e sp')
  obtain m where n: "n = Suc m" using Paren.prems by (cases n) simp_all
  show ?case
  proof (rule loop_starts)
    fix s bp t spt ts
    assume r: "reads s (source_of (Paren sp e sp') @ (t, spt) # ts)" and f: "fits bp (Paren sp e sp')"
    let ?s = "emit s [Enter SkExpr 0, Token SkLParen sp]"
    have r1: "reads (emit s [Enter SkExpr 0]) ((SkLParen, sp) # source_of e @ (SkRParen, sp') # (t, spt) # ts)"
      using r by (intro reads_emit) simp
    have r2: "reads ?s (source_of e @ (SkRParen, sp') # (t, spt) # ts)" using r by (intro reads_emit) simp
    have r3: "reads (past ?s e) ((SkRParen, sp') # (t, spt) # ts)" using r by (simp, intro reads_emit) simp
    have "rl_expr (rules_at n) 0 ?s = ok (Some (mark ?s e), past ?s e)"
      unfolding n using Paren n f closers closer r2 by (intro expr_reads) auto
    then have "r_paren (rules_at n) s = ok (Some (mark s (Paren sp e sp')), past s (Paren sp e sp'))"
      using r1 r3 by (simp add: r_paren_def run_start run_expect r_expr_def run_try run_completed node_events_def)
    then show "r_expr_lhs (rules_at n) s = ok (Some (mark s (Paren sp e sp')), past s (Paren sp e sp'))"
      using r by (simp add: r_expr_lhs_def run_bind_at)
  qed simp
next
  case (Prefix k sp e)
  obtain m where n: "n = Suc m" using Prefix.prems by (cases n) simp_all
  show ?case
  proof (rule loop_starts)
    fix s bp t spt ts
    assume b: "\<not> absorbs (Prefix k sp e) t"
      and r: "reads s (source_of (Prefix k sp e) @ (t, spt) # ts)" and f: "fits bp (Prefix k sp e)"
    obtain r_bp where p: "prefix_binding_power k = Some r_bp" and e: "fits r_bp e"
      using f by (auto split: option.splits)
    let ?s = "emit s [Enter SkPrefixOp 0, Token k sp]"
    have r1: "reads (emit s [Enter SkPrefixOp 0]) ((k, sp) # source_of e @ (t, spt) # ts)"
      using r by (intro reads_emit) simp
    have r2: "reads ?s (source_of e @ (t, spt) # ts)" using r by (intro reads_emit) simp
    have "rl_expr (rules_at n) r_bp ?s = ok (Some (mark ?s e), past ?s e)"
      unfolding n using Prefix n e b p r2 by (intro expr_reads) auto
    then have "r_expr_unary (rules_at n) s = ok (Some (mark s (Prefix k sp e)), past s (Prefix k sp e))"
      using r1 p by (simp add: r_expr_unary_def run_start run_bind_at run_expect run_bind run_completed node_events_def)
    then show "r_expr_lhs (rules_at n) s = ok (Some (mark s (Prefix k sp e)), past s (Prefix k sp e))"
      using r unary_lhs [OF p] by (simp add: r_expr_lhs_def run_bind_at)
  qed simp
next
  case (Binary l k sp r)
  obtain m where n: "n = Suc m" using Binary.prems by (cases n) simp_all
  show ?case
  proof (rule loop_grows)
    show "loop_reads n l" using Binary by simp
    fix s bp t spt ts
    assume f: "fits bp (Binary l k sp r)" and b: "\<not> absorbs (Binary l k sp r) t"
      and rd: "reads s (source_of (Binary l k sp r) @ (t, spt) # ts)"
    obtain l_bp r_bp where k: "infix_binding_power k = Some (l_bp, r_bp)" "bp \<le> l_bp" "fits r_bp r"
      using f by (auto split: option.splits)
    let ?n = "emit s (events_of l 1 @ [Enter SkBinOp 0])"
    let ?s = "emit s (events_of l 1 @ [Enter SkBinOp 0, Token k sp])"
    have r0: "reads (past s l) ((k, sp) # source_of r @ (t, spt) # ts)" using rd by (intro reads_emit) simp
    have r1: "reads ?n ((k, sp) # source_of r @ (t, spt) # ts)" using rd by (intro reads_emit) simp
    have r2: "reads ?s (source_of r @ (t, spt) # ts)" using rd by (intro reads_emit) simp
    have "rl_expr (rules_at n) r_bp ?s = ok (Some (mark ?s r), past ?s r)"
      unfolding n using Binary n b k r2 by (intro expr_reads) auto
    then have "infix_suffix (rules_at n) (mark s l) k r_bp (past s l) =
        ok (Some (mark s (Binary l k sp r)), past s (Binary l k sp r))"
      using r1 f by (simp add: infix_suffix_def run_precede run_expect run_try run_completed node_events_def
          events_length [of l "Suc 0"])
    then show "expr_step (rules_at n) bp (mark s l) (past s l) =
        ok (Inl (mark s (Binary l k sp r)), past s (Binary l k sp r))"
      using k f infix_step [OF k(1)] by (simp add: expr_step_def run_bind_at [OF r0] run_grow)
  qed (auto split: option.splits)
next
  case (Subscript l sp i sp')
  obtain m where n: "n = Suc m" using Subscript.prems by (cases n) simp_all
  show ?case
  proof (rule loop_grows)
    show "loop_reads n l" using Subscript by simp
    fix s bp t spt ts
    assume f: "fits bp (Subscript l sp i sp')"
      and rd: "reads s (source_of (Subscript l sp i sp') @ (t, spt) # ts)"
    let ?n = "emit s (events_of l 1 @ [Enter SkIndex 0])"
    let ?s = "emit s (events_of l 1 @ [Enter SkIndex 0, Token SkLBracket sp])"
    have r0: "reads (past s l) ((SkLBracket, sp) # source_of i @ (SkRBracket, sp') # (t, spt) # ts)"
      using rd by (intro reads_emit) simp
    have r1: "reads ?n ((SkLBracket, sp) # source_of i @ (SkRBracket, sp') # (t, spt) # ts)"
      using rd by (intro reads_emit) simp
    have r2: "reads ?s (source_of i @ (SkRBracket, sp') # (t, spt) # ts)" using rd by (intro reads_emit) simp
    have r3: "reads (past ?s i) ((SkRBracket, sp') # (t, spt) # ts)" using rd by (simp, intro reads_emit) simp
    have "rl_expr (rules_at n) 0 ?s = ok (Some (mark ?s i), past ?s i)"
      unfolding n using Subscript n f closers closer r2 by (intro expr_reads) auto
    then have "index_suffix (rules_at n) (mark s l) (past s l) =
        ok (Some (mark s (Subscript l sp i sp')), past s (Subscript l sp i sp'))"
      using r1 r3 by (simp add: index_suffix_def run_precede run_expect r_expr_def run_try run_completed node_events_def
          events_length [of l "Suc 0"])
    then show "expr_step (rules_at n) bp (mark s l) (past s l) =
        ok (Inl (mark s (Subscript l sp i sp')), past s (Subscript l sp i sp'))"
      using f by (simp add: expr_step_def run_bind_at [OF r0] run_grow)
  qed auto
next
  case (Field l sp sp')
  show ?case
  proof (rule loop_grows)
    show "loop_reads n l" using Field by simp
    fix s bp t spt ts
    assume f: "fits bp (Field l sp sp')"
      and rd: "reads s (source_of (Field l sp sp') @ (t, spt) # ts)"
    let ?n = "emit s (events_of l 1 @ [Enter SkBinOp 0])"
    let ?s = "emit s (events_of l 1 @ [Enter SkBinOp 0, Token SkDot sp])"
    have r0: "reads (past s l) ((SkDot, sp) # (SkIdent, sp') # (t, spt) # ts)" using rd by (intro reads_emit) simp
    have r1: "reads ?n ((SkDot, sp) # (SkIdent, sp') # (t, spt) # ts)" using rd by (intro reads_emit) simp
    have r2: "reads ?s ((SkIdent, sp') # (t, spt) # ts)" using rd by (intro reads_emit) simp
    have "infix_suffix (rules_at n) (mark s l) SkDot 23 (past s l) =
        ok (Some (mark s (Field l sp sp')), past s (Field l sp sp'))"
      using r1 run_ident [OF r2] by (simp add: infix_suffix_def run_precede run_expect run_try run_completed node_events_def
          events_length [of l "Suc 0"])
    then show "expr_step (rules_at n) bp (mark s l) (past s l) =
        ok (Inl (mark s (Field l sp sp')), past s (Field l sp sp'))"
      using f by (simp add: expr_step_def run_bind_at [OF r0] run_grow infix_binding_power_def)
  qed auto
qed

section \<open>A program that returns an expression\<close>

lemma expr_start: "fits bp e \<Longrightarrow> \<exists>k sp ts. source_of e = (k, sp) # ts \<and> token_is_expr_start k"
  by (induction e arbitrary: bp)
    (fastforce simp: token_is_expr_start_def prefix_binding_power_def split: option.splits if_splits)+

definition return_events :: "span \<Rightarrow> pexpr \<Rightarrow> event list" where
  "return_events sp e = [Enter SkRoot 0, Enter SkReturnStmt 0, Token SkReturn sp, Enter SkExprList 0]
     @ events_of e 0 @ [Exit, Exit, Exit]"

lemma expr_list_reads:
  assumes "size e + 2 \<le> m" and "fits 0 e" and "reads s (source_of e @ [(SkEof, sp)])"
  shows "r_expr_list (rules_at (Suc m)) s = ok ((), emit s (Enter SkExprList 0 # events_of e 0 @ [Exit]))"
proof -
  let ?s = "emit s [Enter SkExprList 0]"
  obtain j where m: "m = Suc j" using assms(1) by (cases m) simp_all
  obtain k spk ts where k: "source_of e = (k, spk) # ts" "token_is_expr_start k" using expr_start [OF assms(2)] by blast
  have r: "reads ?s (source_of e @ [(SkEof, sp)])" using assms(3) by (intro reads_emit) simp
  then have rk: "reads ?s ((k, spk) # ts @ [(SkEof, sp)])" by (simp add: k)
  have e: "reads (past ?s e) [(SkEof, sp)]" using assms(3) by (simp, intro reads_emit) simp
  have x: "rl_expr (rules_at (Suc m)) 0 ?s = ok (Some (mark ?s e), past ?s e)"
    using assms closers closer r by (intro expr_reads loop_reads_tree) auto
  let ?body = "\<lambda>_. bindp at_kind (\<lambda>t. if token_is_expr_start t then
        thenp (r_expr (rules_at (Suc m))) (bindp at_kind (\<lambda>t.
          if t \<noteq> SkComma then pure (Inr ()) else thenp (expect SkComma) (pure (Inl ()))))
      else pure (Inr ()))"
  have b: "?body () ?s = ok (Inr (), past ?s e)"
    using k(2) x by (simp add: run_bind_at [OF rk] r_expr_def run_bind run_bind_at [OF e [simplified]] pure_def)
  have "repeat_loop (rl_fuel (rules_at (Suc m))) ?body () ?s = ok ((), past ?s e)"
    using run_loop_stop [of ?body, OF b] by (simp only: rl_fuel_Suc m)
  note l = run_bind [of "repeat_loop (rl_fuel (rules_at (Suc m))) ?body ()", OF this]
  show ?thesis by (simp add: r_expr_list_def run_start run_finish l)
qed

lemma return_reads:
  assumes "size e + 4 \<le> n" and "fits 0 e"
  shows "\<exists>s. run_parser n ((SkReturn, sp) # source_of e) = ok s \<and> ps_reports s = [] \<and> ps_events s = return_events sp e"
proof -
  obtain m where n: "n = Suc (Suc m)" and m: "size e + 2 \<le> m"
    using assms(1) by (intro that [of "n - 2"]) simp_all
  let ?init = "state_new ((SkReturn, sp) # source_of e)"
  let ?s = "emit ?init [Enter SkRoot 0]" and ?r = "emit ?init [Enter SkRoot 0, Enter SkReturnStmt 0, Token SkReturn sp]"
  let ?t = "emit ?init ([Enter SkRoot 0, Enter SkReturnStmt 0, Token SkReturn sp, Enter SkExprList 0]
      @ events_of e 0 @ [Exit, Exit])"
  have r0: "reads ?init ((SkReturn, sp) # source_of e @ [(SkEof, 0, 0)])" by (simp add: reads_def state_new_def)
  then have rs: "reads ?s ((SkReturn, sp) # source_of e @ [(SkEof, 0, 0)])" by (intro reads_emit) simp
  have rm: "reads (emit ?s [Enter SkReturnStmt 0]) ((SkReturn, sp) # source_of e @ [(SkEof, 0, 0)])"
    using r0 by (simp, intro reads_emit) simp
  have rr: "reads ?r (source_of e @ [(SkEof, 0, 0)])" using r0 by (intro reads_emit) simp
  have rt: "reads ?t [(SkEof, 0, 0)]" using r0 by (intro reads_emit) simp
  have "r_return (rules_at (Suc m)) ?s = ok (Some (1, SkReturnStmt), ?t)"
    using rm expr_list_reads [OF m assms(2) rr]
    by (simp add: r_return_def run_start run_expect run_bind run_completed state_new_def)
  then have st: "rl_stmt (rules_at n) ?s = ok (Some (1, SkReturnStmt), ?t)"
    by (simp add: n rl_stmt_Suc r_stmt_def run_bind_at [OF rs] stmt_rule_def run_bind pure_def)
  let ?body = "\<lambda>_. bindp at_kind (\<lambda>t. if t = SkEof then pure (Inr ())
     else bindp (rl_stmt (rules_at n)) (\<lambda>c. pure (if c = None then Inr () else Inl ())))"
  have b: "?body () ?s = ok (Inl (), ?t)" using st by (simp add: run_bind_at [OF rs] run_bind pure_def)
  have b': "?body () ?t = ok (Inr (), ?t)" by (simp add: run_bind_at [OF rt [simplified]] pure_def)
  obtain j where j: "m = Suc j" using m by (cases m) simp_all
  have "r_items (rules_at n) ?s = ok ((), ?t)"
    using run_loop_on [of ?body, OF b] run_loop_stop [of ?body, OF b'] unfolding r_items_def
    by (simp only: n rl_fuel_Suc j)
  then have "root (rules_at n) ?init = ok ((), emit ?init (return_events sp e))"
    by (simp add: root_def run_start run_bind run_finish return_events_def)
  then show ?thesis by (simp add: run_parser_def state_new_def)
qed

lemma sink_return:
  "sink_finish 0 (return_events sp e) [] = Some ([StartNode SkRoot, StartNode SkReturnStmt, AddToken SkReturn sp,
     StartNode SkExprList] @ tree_of e @ [FinishNode, FinishNode, FinishNode, FinishTree])"
proof -
  have "sink_rest (return_events sp e) = Some ([StartNode SkRoot, StartNode SkReturnStmt, AddToken SkReturn sp,
     StartNode SkExprList] @ tree_of e @ [FinishNode, FinishNode, FinishNode])"
    using makes_tree [of e] by (simp add: return_events_def makes_def sink_rest.simps)
  then show ?thesis using sink_finish_rest [of "[]" "return_events sp e" "[]"] by simp
qed

end
