(* ===== verification/ParseBlocks.thy ===== *)
theory ParseBlocks
  imports ParseRules
begin

text \<open>
  What the rules do to the balance of opened and closed blocks. Tokens are given weights, positive for
  those that open a block, negative for those that close one; a rule that returns has not raised the
  weight of the tokens read so far, since the loop of a block ends only at the token that closes it.
\<close>

named_theorems block_rules \<open>what the primitives and the rules of the grammar cost\<close>

section \<open>The weight of what has been read\<close>

definition debt :: "(syntax_kind \<Rightarrow> int) \<Rightarrow> pstate \<Rightarrow> int" where
  "debt w s = (\<Sum>t \<leftarrow> take (ps_cursor s) (ps_tokens s). w (fst t))"

definition costs :: "(syntax_kind \<Rightarrow> int) \<Rightarrow> 'a parse \<Rightarrow> int \<Rightarrow> bool" where
  "costs w m c \<longleftrightarrow> (\<forall>s x s'. m s = ok (x, s') \<longrightarrow> ps_tokens s' = ps_tokens s \<and> debt w s' \<le> debt w s + c)"

text \<open>The same for a run that starts at a token of kind \<open>k\<close>.\<close>

definition costs_at :: "(syntax_kind \<Rightarrow> int) \<Rightarrow> syntax_kind \<Rightarrow> 'a parse \<Rightarrow> int \<Rightarrow> bool" where
  "costs_at w k m c \<longleftrightarrow> (\<forall>s x s'. at_kind s = ok (k, s) \<longrightarrow> m s = ok (x, s') \<longrightarrow>
     ps_tokens s' = ps_tokens s \<and> debt w s' \<le> debt w s + c)"

lemma costsD: "costs w m c \<Longrightarrow> m s = ok (x, s') \<Longrightarrow> ps_tokens s' = ps_tokens s \<and> debt w s' \<le> debt w s + c"
  by (simp add: costs_def)

lemma costs_atD:
  "costs_at w k m c \<Longrightarrow> at_kind s = ok (k, s) \<Longrightarrow> m s = ok (x, s') \<Longrightarrow>
     ps_tokens s' = ps_tokens s \<and> debt w s' \<le> debt w s + c"
  unfolding costs_at_def by blast

lemma costs_mono: "costs w m c \<Longrightarrow> c \<le> d \<Longrightarrow> costs w m d"
  unfolding costs_def by fastforce

lemma costs_costs_at: "costs w m c \<Longrightarrow> costs_at w k m c"
  by (simp add: costs_def costs_at_def)

text \<open>Primitives that do not move.\<close>

definition still :: "'a parse \<Rightarrow> bool" where
  "still m \<longleftrightarrow> (\<forall>s x s'. m s = ok (x, s') \<longrightarrow> ps_tokens s' = ps_tokens s \<and> ps_cursor s' = ps_cursor s)"

lemma still_costs: "still m \<Longrightarrow> costs w m 0"
  by (simp add: still_def costs_def debt_def)

lemma still_bind: "still m \<Longrightarrow> (\<And>x. still (f x)) \<Longrightarrow> still (bindp m f)"
  unfolding still_def bindp_def by (metis (no_types, lifting) and_then_pairE case_prod_conv)

lemma still_primitives:
  "still (pure x)" "still (start k)" "still (push_event e)" "still (set_event i e)" "still (event_at i)"
  "still current" "still peek" "still (add_report r)" "still (\<lambda>s. None)"
  by (auto simp: still_def pure_def start_def push_event_def set_event_def event_at_def current_def peek_def
      add_report_def split: option.splits if_splits)

lemma still_at_kind: "still at_kind"
  unfolding at_kind_def by (intro still_bind still_primitives) (auto intro: still_primitives)

lemma still_if: "still m \<Longrightarrow> still m' \<Longrightarrow> still (if b then m else m')"
  by simp

lemma still_markers:
  "still (complete m)" "still (retype m k)" "still (abandon m)" "still (precede m k)"
proof -
  have pop: "still (\<lambda>s. ok ((), if fst m = length (ps_events s) - 1 then s\<lparr>ps_events := butlast (ps_events s)\<rparr> else s))"
    by (auto simp: still_def)
  show "still (complete m)" unfolding complete_def by (intro still_bind still_primitives)
  show "still (retype m k)" unfolding retype_def by (intro still_bind still_if still_primitives)
  have "still (case e of Enter k 0 \<Rightarrow> thenp (set_event (fst m) (Enter SkTombstone 0))
       (\<lambda>s. ok ((), if fst m = length (ps_events s) - 1 then s\<lparr>ps_events := butlast (ps_events s)\<rparr> else s))
     | _ \<Rightarrow> (\<lambda>s. None))" for e
    using still_bind [OF still_primitives(4) pop] still_primitives(9) by (auto split: event.split nat.split)
  then show "still (abandon m)" unfolding abandon_def by (intro still_bind still_primitives)
  have "still (case e of Enter k _ \<Rightarrow> thenp (set_event (fst m) (Enter k (fst n - fst m))) (pure n)
     | _ \<Rightarrow> (\<lambda>s. None))" for e n
    using still_bind [OF still_primitives(4) still_primitives(1)] still_primitives(9) by (auto split: event.split)
  then show "still (precede m k)" unfolding precede_def by (intro still_bind still_primitives)
qed

lemma still_completed: "still (completed m)"
  unfolding completed_def by (intro still_bind still_markers still_primitives)

lemmas still_pass [block_rules] = still_primitives [THEN still_costs] still_at_kind [THEN still_costs]
  still_markers [THEN still_costs] still_completed [THEN still_costs]

text \<open>Sequences, branches and loops.\<close>

lemma bindp_okE:
  assumes "bindp m f s = ok (y, s')"
  obtains x s1 where "m s = ok (x, s1)" and "f x s1 = ok (y, s')"
  using assms by (auto simp: bindp_def elim: and_then_pairE)

lemma bindp_start: "bindp (start k) f s = f (length (ps_events s), k) (s\<lparr>ps_events := ps_events s @ [Enter k 0]\<rparr>)"
  by (simp add: bindp_def start_def)

lemma costs_bind:
  assumes "costs w m a" and "\<And>x. costs w (f x) b"
  shows "costs w (bindp m f) (a + b)"
  unfolding costs_def
proof (intro allI impI)
  fix s y s'
  assume "bindp m f s = ok (y, s')"
  then obtain x s1 where "m s = ok (x, s1)" "f x s1 = ok (y, s')" by (auto simp: bindp_def elim: and_then_pairE)
  then show "ps_tokens s' = ps_tokens s \<and> debt w s' \<le> debt w s + (a + b)"
    using costsD [OF assms(1)] costsD [OF assms(2)] by fastforce
qed

lemma costs_then: "costs w m c \<Longrightarrow> costs w n 0 \<Longrightarrow> costs w (thenp m n) c"
  using costs_bind [of w m c "\<lambda>_. n" 0] by simp

lemma pass_bind [block_rules]:
  assumes "costs w m 0" and "\<And>x. costs w (f x) c"
  shows "costs w (bindp m f) c"
  using costs_bind [OF assms] by simp

lemma costs_err [block_rules]: "costs w unfinished_parse c"
  by (simp add: costs_def unfinished_parse_def)

lemma costs_panic: "costs w (\<lambda>s. None) c"
  by (simp add: costs_def)

lemma costs_if [block_rules]: "(b \<Longrightarrow> costs w m c) \<Longrightarrow> (\<not> b \<Longrightarrow> costs w m' c) \<Longrightarrow> costs w (if b then m else m') c"
  by simp

lemma costs_option:
  "(o' = None \<Longrightarrow> costs w m c) \<Longrightarrow> (\<And>x. o' = Some x \<Longrightarrow> costs w (f x) c) \<Longrightarrow>
     costs w (case o' of None \<Rightarrow> m | Some x \<Rightarrow> f x) c"
  by (cases o') simp_all

lemma pass_try [block_rules]:
  assumes "costs w m 0" and "\<And>x. costs w (f x) 0"
  shows "costs w (tryp m f) 0"
  unfolding tryp_def using assms by (intro pass_bind costs_option still_pass)

lemma pass_loop [block_rules]:
  assumes "\<And>x. costs w (body x) 0"
  shows "costs w (repeat_loop n body x) 0"
proof (induction n arbitrary: x)
  case (Suc n)
  have "costs w (case r of Inl y \<Rightarrow> repeat_loop n body y | Inr z \<Rightarrow> pure z) 0" for r
    by (cases r) (simp_all add: Suc.IH still_pass)
  then show ?case by (simp only: repeat_loop.simps) (intro pass_bind assms)
qed (simp add: costs_err)

lemma costs_at_kind:
  assumes "\<And>k. costs_at w k (f k) c"
  shows "costs w (bindp at_kind f) c"
  unfolding costs_def
proof (intro allI impI)
  fix s y s'
  assume "bindp at_kind f s = ok (y, s')"
  then obtain k where "at_kind s = ok (k, s)" "f k s = ok (y, s')"
    by (auto simp: bindp_def at_kind_def current_def pure_def split: option.splits)
  then show "ps_tokens s' = ps_tokens s \<and> debt w s' \<le> debt w s + c" using costs_atD [OF assms] by blast
qed

lemma costs_at_again:
  assumes "costs_at w k (f k) c"
  shows "costs_at w k (bindp at_kind f) c"
  unfolding costs_at_def
proof (intro allI impI)
  fix s y s'
  assume k: "at_kind s = ok (k, s)" and "bindp at_kind f s = ok (y, s')"
  then have "f k s = ok (y, s')" by (simp add: bindp_def)
  then show "ps_tokens s' = ps_tokens s \<and> debt w s' \<le> debt w s + c" by (rule costs_atD [OF assms k])
qed

lemma at_kind_start: "at_kind (s :: pstate) = ok (k, s) \<Longrightarrow> at_kind (s\<lparr>ps_events := es\<rparr>) = ok (k, s\<lparr>ps_events := es\<rparr>)"
  by (auto simp: at_kind_def current_def bindp_def pure_def split: option.splits)

lemma costs_at_start:
  assumes "\<And>m. costs_at w k (f m) c"
  shows "costs_at w k (bindp (start kind) f) c"
  unfolding costs_at_def
proof (intro allI impI)
  fix s :: pstate and y s'
  let ?s = "s\<lparr>ps_events := ps_events s @ [Enter kind 0]\<rparr>"
  assume k: "at_kind s = ok (k, s)" and "bindp (start kind) f s = ok (y, s')"
  then have "f (length (ps_events s), kind) ?s = ok (y, s')" by (simp add: bindp_def start_def)
  then have "ps_tokens s' = ps_tokens ?s \<and> debt w s' \<le> debt w ?s + c"
    by (rule costs_atD [OF assms at_kind_start [OF k]])
  moreover have "ps_tokens ?s = ps_tokens s" "debt w ?s = debt w s" by (simp_all add: debt_def)
  ultimately show "ps_tokens s' = ps_tokens s \<and> debt w s' \<le> debt w s + c" by simp
qed

lemma costs_at_if: "(b \<Longrightarrow> costs_at w k m c) \<Longrightarrow> (\<not> b \<Longrightarrow> costs_at w k m' c) \<Longrightarrow> costs_at w k (if b then m else m') c"
  by simp

lemma costs_at_then:
  assumes "costs_at w k m a" and "costs w n b" and "a + b \<le> c"
  shows "costs_at w k (thenp m n) c"
  unfolding costs_at_def
proof (intro allI impI)
  fix s y s'
  assume k: "at_kind s = ok (k, s)" and "thenp m n s = ok (y, s')"
  then obtain x s1 where r: "m s = ok (x, s1)" "n s1 = ok (y, s')" by (auto simp: bindp_def elim: and_then_pairE)
  show "ps_tokens s' = ps_tokens s \<and> debt w s' \<le> debt w s + c"
    using assms(3) costs_atD [OF assms(1) k r(1)] costsD [OF assms(2) r(2)] by simp
qed

section \<open>Tokens\<close>

lemma expect_run:
  assumes "expect k s = ok (b, s')"
  obtains "at_kind s = ok (k, s)" and "ps_tokens s' = ps_tokens s" and "debt w s' = debt w s + w k"
  | k' where "at_kind s = ok (k', s)" and "k' \<noteq> k" and "ps_tokens s' = ps_tokens s" and "debt w s' = debt w s"
proof -
  obtain k' sp where t: "idx (ps_tokens s) (ps_cursor s) = Some (k', sp)"
    using assms by (auto simp: expect_def at_kind_def current_def bindp_def split: option.splits)
  then have a: "at_kind s = ok (k', s)" by (simp add: at_kind_def current_def bindp_def pure_def)
  show ?thesis
  proof (cases "k' = k")
    case True
    have "s' = s\<lparr>ps_events := ps_events s @ [Token k sp], ps_cursor := ps_cursor s + 1\<rparr>"
      using assms True t a by (simp add: expect_def bump_def current_def push_event_def bindp_def pure_def)
    moreover have "take (ps_cursor s + 1) (ps_tokens s) = take (ps_cursor s) (ps_tokens s) @ [(k, sp)]"
      using t True by (auto simp: idx_eq_Some_iff take_Suc_conv_app_nth)
    ultimately show ?thesis using that(1) a True by (simp add: debt_def)
  next
    case False
    then have "s' = s\<lparr>ps_reports := ps_reports s @ [Expected k k']\<rparr>"
      using assms a by (simp add: expect_def add_report_def bindp_def pure_def)
    then show ?thesis using that(2) [OF a False] by (simp add: debt_def)
  qed
qed

lemma expect_costs: "costs w (expect k) (max 0 (w k))"
  unfolding costs_def by (intro allI impI, erule expect_run [where w = w]) auto

lemma expect_at: "costs_at w k (expect k) (w k)"
  unfolding costs_at_def by (intro allI impI, erule expect_run [where w = w]) auto

abbreviation opening_kinds :: "syntax_kind set" where
  "opening_kinds \<equiv> {SkDo, SkFunction, SkIf, SkRepeat}"

locale block_weights =
  fixes w :: "syntax_kind \<Rightarrow> int"
  assumes plain: "k \<notin> opening_kinds \<Longrightarrow> w k \<le> 0"
    and opener: "k \<in> opening_kinds \<Longrightarrow> 0 \<le> w k"
    and closing: "k \<in> {SkDo, SkFunction, SkIf} \<Longrightarrow> w k + w SkEnd \<le> 0" "w SkRepeat + w SkUntil \<le> 0"
begin

lemma expect_plain [block_rules]: "k \<notin> opening_kinds \<Longrightarrow> costs w (expect k) 0"
  using expect_costs [of w k] plain [of k] by (simp add: max_def split: if_splits)

lemma expect_opening: "k \<in> opening_kinds \<Longrightarrow> costs w (expect k) (w k)"
  using expect_costs [of w k] opener [of k] by (simp add: max_def split: if_splits)

lemma while_pass [block_rules]: "costs w body 0 \<Longrightarrow> costs w (while_kind n c body) 0"
  unfolding while_kind_def by (intro block_rules)

lemma when_pass [block_rules]: "k \<notin> opening_kinds \<Longrightarrow> costs w body 0 \<Longrightarrow> costs w (when_kind k body) 0"
  unfolding when_kind_def by (intro block_rules)

lemma eat_loop_pass: "costs w (eat_loop STATEMENT_RECOVERY) 0"
  unfolding costs_def
proof (intro allI impI)
  fix s x s'
  assume "eat_loop STATEMENT_RECOVERY s = ok (x, s')"
  then show "ps_tokens s' = ps_tokens s \<and> debt w s' \<le> debt w s + 0"
  proof (induction STATEMENT_RECOVERY s rule: eat_loop.induct)
    case (1 s)
    obtain k sp where t: "idx (ps_tokens s) (ps_cursor s) = Some (k, sp)"
      using "1.prems" by (subst (asm) eat_loop.simps) (auto split: option.splits)
    show ?case
    proof (cases "k \<noteq> SkEof \<and> k \<notin> set STATEMENT_RECOVERY")
      case True
      let ?s = "s\<lparr>ps_events := ps_events s @ [Token k sp], ps_cursor := ps_cursor s + 1\<rparr>"
      have "eat_loop STATEMENT_RECOVERY ?s = ok (x, s')"
        using "1.prems" t True by (subst (asm) eat_loop.simps) simp
      then have "ps_tokens s' = ps_tokens ?s \<and> debt w s' \<le> debt w ?s + 0" using "1.hyps" [OF t refl] True by blast
      moreover have "take (ps_cursor s + 1) (ps_tokens s) = take (ps_cursor s) (ps_tokens s) @ [(k, sp)]"
        using t by (auto simp: idx_eq_Some_iff take_Suc_conv_app_nth)
      then have "debt w ?s = debt w s + w k" by (simp add: debt_def)
      moreover have "k \<notin> opening_kinds" using True by (auto simp: STATEMENT_RECOVERY_def)
      then have "w k \<le> 0" by (rule plain)
      ultimately show ?thesis by simp
    next
      case False
      then have "s' = s" using "1.prems" t by (subst (asm) eat_loop.simps) (auto split: if_splits)
      then show ?thesis by simp
    qed
  qed
qed

lemma eat_pass [block_rules]: "costs w (error_eat_until STATEMENT_RECOVERY) 0"
  unfolding error_eat_until_def by (intro block_rules eat_loop_pass)

end

section \<open>Rules without recursion\<close>

context block_weights begin

lemma leaf_pass [block_rules]: "tok \<notin> opening_kinds \<Longrightarrow> costs w (leaf nd tok) 0"
  unfolding leaf_def by (intro block_rules)

lemma leaves_pass [block_rules]:
  "costs w r_ident 0" "costs w r_vararg 0" "costs w r_break 0" "costs w r_semicolon 0"
  unfolding r_ident_def r_vararg_def r_break_def r_semicolon_def by (intro block_rules; simp)+

lemma label_pass [block_rules]: "costs w r_label 0" "costs w r_goto 0"
  unfolding r_label_def r_goto_def by (intro block_rules; simp)+

lemma param_step_pass [block_rules]: "costs w (param_step x) 0"
  unfolding param_step_def by (intro block_rules; simp)

lemma attrib_pass [block_rules]: "costs w r_attrib 0" "costs w r_global_attrib 0"
  unfolding r_attrib_def r_global_attrib_def by (intro block_rules; auto)+

lemma literal_at: "k \<notin> opening_kinds \<Longrightarrow> costs_at w k r_literal 0"
  unfolding r_literal_def
  by (intro costs_at_start costs_at_again costs_costs_at block_rules)

lemma not_opening:
  "token_is_literal t \<Longrightarrow> t \<notin> opening_kinds" "token_is_unary_op t \<Longrightarrow> t \<notin> opening_kinds"
  "infix_binding_power t = Some p \<Longrightarrow> t \<notin> opening_kinds"
  by (auto simp: token_is_literal_def token_is_unary_op_def infix_binding_power_def)

text \<open>The loop of a block ends only where its condition says so.\<close>

lemma while_stops:
  assumes "costs w body 0" and "while_kind n c body s = ok (x, s')"
  shows "\<exists>k. at_kind s' = ok (k, s') \<and> \<not> c k"
  using assms(2) unfolding while_kind_def
proof (induction n arbitrary: s)
  case (Suc n)
  then obtain k where k: "at_kind s = ok (k, s)"
    by (auto simp: bindp_def at_kind_def current_def pure_def split: option.splits)
  show ?case
  proof (cases "c k")
    case True
    then obtain y s1 where "body s = ok (y, s1)"
      "repeat_loop n (\<lambda>_. bindp at_kind (\<lambda>t. if c t then thenp body (pure (Inl ())) else pure (Inr ()))) () s1 = ok (x, s')"
      using Suc.prems k by (auto simp: bindp_def pure_def and_then_ok_iff)
    then show ?thesis using Suc.IH by blast
  next
    case False
    then show ?thesis using Suc.prems k by (auto simp: bindp_def pure_def)
  qed
qed (simp add: unfinished_parse_def)

lemma block_then:
  assumes "costs w (rl_stmt r) 0" and "\<And>k. stop k \<Longrightarrow> costs_at w k n c"
  shows "costs w (thenp (r_block r stop) n) c"
  unfolding costs_def
proof (intro allI impI)
  fix s y s'
  assume "thenp (r_block r stop) n s = ok (y, s')"
  then obtain m s1 where m: "r_block r stop s = ok (m, s1)" and n: "n s1 = ok (y, s')"
    by (auto simp: bindp_def elim: and_then_pairE)
  let ?w = "while_kind (rl_fuel r) (\<lambda>t. \<not> stop t) (ignore (rl_stmt r))"
  have body: "costs w (ignore (rl_stmt r)) 0" by (intro block_rules assms(1))
  let ?s2 = "s\<lparr>ps_events := ps_events s @ [Enter SkStmtList 0]\<rparr>"
  have "thenp ?w (completed (length (ps_events s), SkStmtList)) ?s2 = ok (m, s1)"
    using m by (simp only: r_block_def bindp_start)
  then obtain x s3 where w: "?w ?s2 = ok (x, s3)" and "completed (length (ps_events s), SkStmtList) s3 = ok (m, s1)"
    by (rule bindp_okE)
  then have s: "ps_tokens ?s2 = ps_tokens s" "debt w ?s2 = debt w s" "?w ?s2 = ok (x, s3)"
    "s1 = s3\<lparr>ps_events := ps_events s3 @ [Exit]\<rparr>"
    by (simp_all add: completed_def complete_def bindp_def push_event_def pure_def debt_def)
  obtain k where k: "at_kind s3 = ok (k, s3)" "stop k" using while_stops [OF body s(3)] by blast
  have "at_kind s1 = ok (k, s1)" unfolding s(4) by (rule at_kind_start [OF k(1)])
  then have "ps_tokens s' = ps_tokens s1 \<and> debt w s' \<le> debt w s1 + c" by (rule costs_atD [OF assms(2) [OF k(2)] _ n])
  moreover have "ps_tokens s3 = ps_tokens ?s2 \<and> debt w s3 \<le> debt w ?s2 + 0" by (rule costsD [OF while_pass [OF body] s(3)])
  moreover have "ps_tokens s1 = ps_tokens s3" "debt w s1 = debt w s3" by (simp_all add: s(4) debt_def)
  ultimately show "ps_tokens s' = ps_tokens s \<and> debt w s' \<le> debt w s + c" using s(1,2) by simp
qed

lemma closed_block:
  assumes "costs w (rl_stmt r) 0" and "costs w n 0"
  shows "costs w (thenp (r_block r (\<lambda>t. t = k)) (thenp (expect k) n)) (w k)"
  by (rule block_then [OF assms(1)], rule costs_at_then [OF _ assms(2)]) (use expect_at in auto)

lemma opening_then:
  assumes "k \<in> opening_kinds" and "costs w n c" and "w k + c \<le> 0"
  shows "costs w (thenp (expect k) n) 0"
  by (rule costs_mono [OF costs_bind [OF expect_opening [OF assms(1)] assms(2)] assms(3)])

end

section \<open>The rules of the grammar\<close>

locale closing_rules = block_weights +
  fixes r :: rules
  assumes expr: "costs w (rl_expr r bp) 0"
    and stmt: "costs w (rl_stmt r) 0"
    and nested_if: "costs w (rl_if r SkElseIf) (w SkEnd)"
begin

lemma expr_pass [block_rules]: "costs w (rl_expr r bp) 0" "costs w (rl_stmt r) 0" "costs w (r_expr r) 0"
  using expr stmt by (simp_all add: r_expr_def)

lemma expr_list_pass [block_rules]: "costs w (r_expr_list r) 0"
  unfolding r_expr_list_def by (intro block_rules; simp)

lemma call_args_pass [block_rules]: "costs w (r_func_call_args r) 0"
  unfolding r_func_call_args_def by (intro block_rules; simp)

lemma suffixes_pass [block_rules]:
  "costs w (r_method_call r m) 0" "costs w (r_paren r) 0" "costs w (index_suffix r lhs) 0"
  "costs w (call_suffix r lhs) 0"
  unfolding r_method_call_def r_paren_def index_suffix_def call_suffix_def by (intro block_rules; simp)+

lemma method_suffix_pass [block_rules]: "costs w (method_suffix r lhs) 0"
  unfolding method_suffix_def by (intro block_rules)

lemma infix_suffix_pass: "t \<notin> opening_kinds \<Longrightarrow> costs w (infix_suffix r lhs t bp) 0"
  unfolding infix_suffix_def by (intro block_rules)

lemma grow_pass [block_rules]: "costs w m 0 \<Longrightarrow> costs w (grow_expr m) 0"
  unfolding grow_expr_def by (intro block_rules)

lemma unary_at: "k \<notin> opening_kinds \<Longrightarrow> costs_at w k (r_expr_unary r) 0"
  unfolding r_expr_unary_def
  by (intro costs_at_start costs_at_again costs_costs_at block_rules costs_option costs_panic)

lemma expr_step_pass [block_rules]: "costs w (expr_step r min_bp lhs) 0"
  unfolding expr_step_def
  by (intro block_rules costs_option) (auto intro!: block_rules infix_suffix_pass dest: not_opening(3))

lemma do_pass [block_rules]: "costs w (r_do r) 0"
  unfolding r_do_def
  by (intro pass_bind still_pass opening_then [OF _ closed_block] block_rules) (use closing(1) [of SkDo] in auto)

lemma while_rule_pass: "costs w (r_while r) 0"
  unfolding r_while_def by (intro block_rules; simp)

lemma repeat_pass: "costs w (r_repeat r) 0"
  unfolding r_repeat_def
  by (intro pass_bind still_pass opening_then [OF _ closed_block] block_rules) (use closing(2) in auto)

lemma else_costs: "costs w (r_else r) (w SkEnd)"
proof -
  have "costs w (thenp (expect SkElse) (thenp (r_block r (\<lambda>t. t = SkEnd)) (ignore (expect SkEnd)))) (w SkEnd)"
    by (intro pass_bind [OF expect_plain] closed_block stmt still_pass) simp
  moreover have "costs w (ignore (rl_if r SkElseIf)) (w SkEnd)"
    by (intro costs_then nested_if still_pass)
  ultimately have "costs w
      (if t = SkElse then thenp (expect SkElse) (thenp (r_block r (\<lambda>t. t = SkEnd)) (ignore (expect SkEnd)))
       else if t = SkElseIf then ignore (rl_if r SkElseIf) else (\<lambda>s. None)) (w SkEnd)" for t
    by (simp add: costs_panic)
  then show ?thesis
    unfolding r_else_def
    by (intro pass_bind [OF still_costs [OF still_primitives(2)]] pass_bind [OF still_costs [OF still_at_kind]]
        costs_then still_costs [OF still_completed])
qed

lemma if_costs:
  assumes "costs w (expect k) c" and "c + w SkEnd \<le> d"
  shows "costs w (r_if r k) d"
proof -
  have "costs_at w t (bindp at_kind (\<lambda>t. if t = SkEnd then thenp (expect SkEnd) (completed m)
       else if t = SkElseIf \<or> t = SkElse then thenp (r_else r) (completed m)
       else thenp (add_report (ExpectedOneOf [SkEnd, SkElseIf, SkElse] t)) (pure None))) (w SkEnd)"
    if "t \<in> {SkEnd, SkElseIf, SkElse}" for t m
  proof (rule costs_at_again, cases "t = SkEnd")
    case True
    then show "costs_at w t (if t = SkEnd then thenp (expect SkEnd) (completed m)
       else if t = SkElseIf \<or> t = SkElse then thenp (r_else r) (completed m)
       else thenp (add_report (ExpectedOneOf [SkEnd, SkElseIf, SkElse] t)) (pure None)) (w SkEnd)"
      using costs_at_then [OF expect_at [of w SkEnd] still_costs [OF still_completed], of "w SkEnd" m] by simp
  next
    case False
    then show "costs_at w t (if t = SkEnd then thenp (expect SkEnd) (completed m)
       else if t = SkElseIf \<or> t = SkElse then thenp (r_else r) (completed m)
       else thenp (add_report (ExpectedOneOf [SkEnd, SkElseIf, SkElse] t)) (pure None)) (w SkEnd)"
      using that costs_costs_at [OF costs_then [OF else_costs still_costs [OF still_completed]], of t m] by auto
  qed
  then have "costs w (thenp (r_block r (\<lambda>t. t \<in> {SkEnd, SkElseIf, SkElse})) (bindp at_kind (\<lambda>t.
       if t = SkEnd then thenp (expect SkEnd) (completed m)
       else if t = SkElseIf \<or> t = SkElse then thenp (r_else r) (completed m)
       else thenp (add_report (ExpectedOneOf [SkEnd, SkElseIf, SkElse] t)) (pure None)))) (w SkEnd)" for m
    by (rule block_then [OF stmt])
  then have "costs w (thenp (r_expr r) (thenp (expect SkThen) (thenp (r_block r (\<lambda>t. t \<in> {SkEnd, SkElseIf, SkElse}))
      (bindp at_kind (\<lambda>t.
       if t = SkEnd then thenp (expect SkEnd) (completed m)
       else if t = SkElseIf \<or> t = SkElse then thenp (r_else r) (completed m)
       else thenp (add_report (ExpectedOneOf [SkEnd, SkElseIf, SkElse] t)) (pure None)))))) (w SkEnd)" for m
    by (intro pass_bind [OF expr_pass(3)] pass_bind [OF expect_plain]) simp_all
  from costs_bind [OF assms(1) this] show ?thesis
    unfolding r_if_def by (intro pass_bind [OF still_costs [OF still_primitives(2)]] costs_mono [OF _ assms(2)])
qed

lemma if_pass: "costs w (r_if r SkIf) 0" "costs w (r_if r SkElseIf) (w SkEnd)"
  by (rule if_costs [OF expect_opening], simp, use closing(1) [of SkIf] in simp)
    (rule if_costs [OF expect_plain], simp_all)

lemma for_pass: "costs w (r_for r) 0"
  unfolding r_for_def r_num_for_def r_gen_for_def by (intro block_rules; simp)

lemma return_pass: "costs w (r_return r) 0"
  unfolding r_return_def by (intro block_rules; simp)

lemma func_def_args_pass [block_rules]: "costs w (r_func_def_args r) 0"
  unfolding r_func_def_args_def by (intro block_rules; simp)

lemma simple_expr_pass [block_rules]: "costs w (r_simple_expr r b) 0"
  unfolding r_simple_expr_def simple_step_def by (intro block_rules; simp)

lemma func_pass [block_rules]: "costs w (r_func r b) 0"
  unfolding r_func_def
  by (intro pass_bind still_pass opening_then [where c = "w SkEnd"] closed_block block_rules)
    (use closing(1) [of SkFunction] in auto)

lemma table_elem_pass [block_rules]: "costs w (r_table_elem r) 0"
  unfolding r_table_elem_def r_table_elem_array_def r_table_elem_map_def r_table_elem_generic_def
  by (intro block_rules; simp)

lemma table_pass: "costs w (r_table r) 0"
  unfolding r_table_def by (intro block_rules; auto)

lemma expr_inner_pass: "costs w (r_expr_inner r bp) 0"
proof -
  have "costs w (r_expr_lhs r) 0"
    unfolding r_expr_lhs_def
    by (intro costs_at_kind costs_at_if)
      (auto intro: costs_costs_at literal_at [OF not_opening(1)] unary_at [OF not_opening(2)] table_pass block_rules)
  then show ?thesis unfolding r_expr_inner_def by (intro block_rules)
qed

lemma maybe_assign_pass: "costs w (r_maybe_assign r) 0"
  unfolding r_maybe_assign_def r_assign_def by (intro block_rules costs_option; simp)

lemma declared_list_pass [block_rules]: "costs w target 0 \<Longrightarrow> costs w (declared_list r target) 0"
  unfolding declared_list_def by (intro block_rules; simp)

lemma decl_pass: "costs w (r_decl r) 0" "costs w (r_global r) 0"
  unfolding r_decl_def r_global_def r_decl_target_def r_global_target_def by (intro block_rules; simp)+

lemma stmt_rule_pass: "costs w (stmt_rule r t) 0"
  using do_pass while_rule_pass repeat_pass if_pass(1) for_pass return_pass leaves_pass label_pass func_pass decl_pass
    maybe_assign_pass
  by (cases t) (simp_all add: stmt_rule_def still_pass split: node_kind.split keyword_kind.split symbol_kind.split lexeme_kind.split)

lemma stmt_pass: "costs w (r_stmt r) 0"
  unfolding r_stmt_def by (intro block_rules costs_option stmt_rule_pass)

lemma root_pass: "costs w (root r) 0"
  unfolding root_def r_items_def by (intro block_rules)

end

section \<open>Every number of steps\<close>

text \<open>The blocks that \<open>end\<close> closes, and those that \<open>until\<close> closes.\<close>

definition end_weight :: "syntax_kind \<Rightarrow> int" where
  "end_weight k = (if k \<in> {SkDo, SkFunction, SkIf} then 1 else if k = SkEnd then - 1 else 0)"

definition until_weight :: "syntax_kind \<Rightarrow> int" where
  "until_weight k = (if k = SkRepeat then 1 else if k = SkUntil then - 1 else 0)"

lemma closing_rules_at:
  assumes "block_weights w"
  shows "closing_rules w (rules_at n)"
proof (induction n)
  case 0
  show ?case using assms
    by (simp add: closing_rules_def closing_rules_axioms_def rules_at.simps costs_err)
next
  case (Suc n)
  then show ?case using assms
    by (simp add: closing_rules_def closing_rules_axioms_def rules_at.simps Let_def
        closing_rules.expr_inner_pass [OF Suc] closing_rules.stmt_pass [OF Suc] closing_rules.if_pass(2) [OF Suc])
qed

interpretation ends: closing_rules end_weight "rules_at n" for n
  by (rule closing_rules_at, unfold_locales) (auto simp: end_weight_def)

interpretation untils: closing_rules until_weight "rules_at n" for n
  by (rule closing_rules_at, unfold_locales) (auto simp: until_weight_def)

end
