(* ===== verification/ParseProps.thy ===== *)
theory ParseProps
  imports ParseSound ParseTree ParseBlocks
begin

text \<open>
  What holds of a whole run of the parser: it never panics and hands every token on, a source with a block that is
  never closed makes it loop for ever at the end of the input, and what it accepts without a report.
\<close>

section \<open>Tokens\<close>

lemma state_new_fr:
  "fr (state_new lexed) [] (state_new lexed)"
  by (rule fr_self) (simp add: pinv_def state_new_def ended_def)

lemma at_end_cursor:
  assumes "fr (state_new lexed) [] s" and "at_tok s = SkEof" and "SkEof \<notin> fst ` set lexed"
  shows "toks (ps_events s) = lexed"
proof -
  have t: "ps_tokens s = lexed @ [(SkEof, 0, 0)]" using assms(1) by (simp add: fr_def extends_def state_new_def)
  have c: "ps_cursor s < Suc (length lexed)" "toks (ps_events s) = take (ps_cursor s) (ps_tokens s)"
    using assms(1) t by (simp_all add: fr_def pinv_def)
  have "\<not> ps_cursor s < length lexed"
  proof
    assume l: "ps_cursor s < length lexed"
    then have "at_tok s = fst (lexed ! ps_cursor s)" by (simp add: at_tok_def t nth_append)
    then show False using assms(2,3) l nth_mem [OF l] by (metis imageI)
  qed
  then show ?thesis using c t by simp
qed

text \<open>The tokens a sequence of calls gives to the tree builder; the sink passes them all on.\<close>

fun added :: "build list \<Rightarrow> (syntax_kind \<times> span) list" where
  "added [] = []"
| "added (AddToken k sp # cs) = (k, sp) # added cs"
| "added (_ # cs) = added cs"

lemma added_append [simp]: "added (cs @ ds) = added cs @ added ds"
  by (induction cs rule: added.induct) simp_all

lemma added_starts [simp]: "added (map StartNode ks) = []"
  by (induction ks) simp_all

lemma follow_toks: "follow p es = Some (es', ks) \<Longrightarrow> toks es' = toks es"
proof (induction p es arbitrary: es' ks rule: follow.induct)
  case (1 p es)
  show ?case
  proof (cases "p = 0")
    case False
    then obtain k q where e: "idx es (p - 1) = Some (Enter k q)"
      using "1.prems" by (auto simp: follow.simps [of p es] split: option.splits event.splits)
    then obtain ks' where "follow (if q = 0 then 0 else p + q) (es[p - 1 := tombstone]) = Some (es', ks')"
      using "1.prems" False by (auto simp: follow.simps [of p es])
    then have "toks es' = toks (es[p - 1 := tombstone])" by (rule "1.IH" [OF False e refl])
    moreover have "p - 1 < length es" "is_enter (es ! (p - 1))"
      using e by (auto simp: is_enter_def idx_eq_Some_iff intro: exI dest: sym)
    ultimately show ?thesis by (simp add: toks_update_enter)
  qed (use "1.prems" in simp)
qed

lemma sink_rest_added: "sink_rest es = Some cs \<Longrightarrow> added cs = toks es"
proof (induction es arbitrary: cs rule: sink_rest.induct)
  case (2 e es)
  then show ?case
    by (cases e) (auto simp: sink_rest.simps(2) follow_toks split: if_splits option.splits)
qed simp

lemma sink_added: "sink_finish 0 es [] = Some cs \<Longrightarrow> added cs = toks es"
  using sink_finish_rest [of "[]" es "[]"] sink_rest_added [of es] by (cases "sink_rest es") auto

text \<open>A run does not panic; if it returns, the events hold the tokens and the sink passes them on.\<close>

lemma run_returns:
  assumes "SkEof \<notin> fst ` set lexed"
  shows "\<exists>r. run_parser n lexed = Some r \<and> (\<forall>s. r = Inr s \<longrightarrow> toks (ps_events s) = lexed \<and>
    (\<exists>cs. sink_finish 0 (ps_events s) [] = Some cs \<and> added cs = lexed))"
proof -
  have "hoare (fr (state_new lexed) []) (root (rules_at n)) (\<lambda>_ s. fr (state_new lexed) [] s \<and> at_tok s = SkEof)"
    by (rule parser.root_ok)
  then have h: "case root (rules_at n) (state_new lexed) of None \<Rightarrow> False | Some (Inl _) \<Rightarrow> True
     | Some (Inr (_, s)) \<Rightarrow> fr (state_new lexed) [] s \<and> at_tok s = SkEof"
    using state_new_fr unfolding hoare_def by blast
  show ?thesis
  proof (cases "root (rules_at n) (state_new lexed)")
    case None
    then show ?thesis using h by simp
  next
    case (Some r)
    have "\<exists>cs. sink_finish 0 (ps_events s) [] = Some cs \<and> added cs = lexed"
      if "fr (state_new lexed) [] s" "at_tok s = SkEof" for s
    proof -
      have "links_ok (ps_events s)" using that(1) by (simp add: fr_def pinv_def)
      then obtain cs where cs: "sink_finish 0 (ps_events s) [] = Some cs" using sink_total by blast
      then show ?thesis using sink_added [OF cs] at_end_cursor [OF that assms] by simp
    qed
    then show ?thesis using Some h at_end_cursor [OF _ _ assms] by (cases r) (auto simp: run_parser_def)
  qed
qed

text \<open>
  C24. For every token sequence of the lexer and however long it is run, the parser never panics; if it returns, its
  events hold every token exactly once and in the order of the source, whatever errors it recovered from. The sink then
  never panics either: every link of a preceded node leads to an entered node, and the calls it makes of the tree
  builder hand over every token once and in order. (Whether the builder accepts the calls is another matter: they need
  not be paired, see \<open>unfinished_operator\<close>.)
\<close>

theorem parser_emits_tokens:
  assumes "SkEof \<notin> fst ` set lexed"
  shows "\<exists>r. run_parser n lexed = Some r \<and> (\<forall>s. r = Inr s \<longrightarrow> toks (ps_events s) = lexed \<and>
    (\<exists>cs. sink_finish 0 (ps_events s) [] = Some cs \<and> added cs = lexed))"
  by (rule run_returns [OF assms])

section \<open>The end of the input\<close>

text \<open>The number of tokens of the given kinds.\<close>

definition count_kinds :: "syntax_kind set \<Rightarrow> (syntax_kind \<times> span) list \<Rightarrow> nat" where
  "count_kinds ks lexed = length (filter (\<lambda>t. fst t \<in> ks) lexed)"

lemma sum_weights:
  "(\<Sum>t \<leftarrow> lexed. end_weight (fst t)) = int (count_kinds {SkDo, SkFunction, SkIf} lexed) - int (count_kinds {SkEnd} lexed)"
  "(\<Sum>t \<leftarrow> lexed. until_weight (fst t)) = int (count_kinds {SkRepeat} lexed) - int (count_kinds {SkUntil} lexed)"
  by (induction lexed) (auto simp: count_kinds_def end_weight_def until_weight_def)

lemma returned_debt:
  assumes "costs w (root (rules_at n)) 0" and "SkEof \<notin> fst ` set lexed" and "w SkEof = 0"
    and "run_parser n lexed = ok s"
  shows "(\<Sum>t \<leftarrow> lexed. w (fst t)) \<le> 0"
proof -
  have root: "root (rules_at n) (state_new lexed) = ok ((), s)"
    using assms(4) by (auto simp: run_parser_def elim: and_then_pairE)
  then have d: "debt w s \<le> debt w (state_new lexed) + 0" using costsD [OF assms(1)] by blast
  have "fr (state_new lexed) [] s \<and> at_tok s = SkEof"
    using parser.root_ok [of "state_new lexed" n] state_new_fr root unfolding hoare_def by fastforce
  then have f: "fr (state_new lexed) [] s" "toks (ps_events s) = lexed"
    using at_end_cursor [OF _ _ assms(2)] by blast+
  then have "take (ps_cursor s) (ps_tokens s) = lexed" by (simp add: fr_def pinv_def)
  then show ?thesis using d by (simp add: debt_def state_new_def)
qed

text \<open>
  C27. The parser never returns on a source with a block that stays open: if it has fewer \<open>end\<close> than \<open>do\<close>, \<open>function\<close> and
  \<open>if\<close> tokens, or fewer \<open>until\<close> than \<open>repeat\<close>, whatever else it consists of, then no number of steps is enough. (The loop of a
  block ends only at its closing token, and at the end of the input a statement does not move.)
\<close>

theorem unclosed_block_hangs:
  assumes "SkEof \<notin> fst ` set lexed"
    and "count_kinds {SkEnd} lexed < count_kinds {SkDo, SkFunction, SkIf} lexed
      \<or> count_kinds {SkUntil} lexed < count_kinds {SkRepeat} lexed"
  shows "run_parser n lexed = err ()"
proof -
  have "run_parser n lexed \<noteq> ok s" for s
  proof
    assume r: "run_parser n lexed = ok s"
    have "(\<Sum>t \<leftarrow> lexed. end_weight (fst t)) \<le> 0"
      by (rule returned_debt [OF ends.root_pass assms(1) _ r]) (simp add: end_weight_def)
    moreover have "(\<Sum>t \<leftarrow> lexed. until_weight (fst t)) \<le> 0"
      by (rule returned_debt [OF untils.root_pass assms(1) _ r]) (simp add: until_weight_def)
    ultimately show False using assms(2) unfolding sum_weights by linarith
  qed
  moreover have "run_parser n lexed \<noteq> None" using run_returns [OF assms(1), of n] by auto
  ultimately show ?thesis by (cases "run_parser n lexed") (auto split: sum.splits, metis sumE unit.exhaust)
qed

lemma unclosed_block_hangs_witness:
  "\<forall>n. run_parser n [(SkWhile, 0, 5), (SkIdent, 6, 7), (SkDo, 8, 10), (SkIdent, 11, 12), (SkLParen, 12, 13), (SkRParen, 13, 14)]
     = err ()"
  by (intro allI unclosed_block_hangs) (simp_all add: count_kinds_def)

section \<open>Accepted without a report\<close>

text \<open>
  \<open>return a +\<close>: the missing operand is not reported, and the node of the operator is never closed, so the calls of the
  tree builder are not paired when the tree is finished.
\<close>

abbreviation unfinished :: "(syntax_kind \<times> span) list" where
  "unfinished \<equiv> [(SkReturn, 0, 6), (SkIdent, 7, 8), (SkPlus, 9, 10)]"

lemma unfinished_operator:
  "\<exists>s. run_parser 12 unfinished = ok s \<and> ps_reports s = [] \<and> ps_events s =
     [Enter SkRoot 0, Enter SkReturnStmt 0, Token SkReturn (0, 6), Enter SkExprList 0, Enter SkIdent 3,
      Token SkIdent (7, 8), Exit, Enter SkBinOp 0, Token SkPlus (9, 10), Exit, Exit, Exit] \<and>
     (\<exists>cs. sink_finish 0 (ps_events s) [] = Some cs \<and> \<not> paired 0 cs)"
proof -
  let ?es = "[Enter SkRoot 0, Enter SkReturnStmt 0, Token SkReturn (0, 6), Enter SkExprList 0, Enter SkIdent 3,
      Token SkIdent (7, 8), Exit, Enter SkBinOp 0, Token SkPlus (9, 10), Exit, Exit, Exit]"
  have "\<exists>s. run_parser 12 unfinished = ok s \<and> ps_reports s = [] \<and> ps_events s = ?es"
    by (simp add: parsing cong: parsing_frozen)
  moreover have "\<exists>cs. sink_finish 0 ?es [] = Some cs \<and> \<not> paired 0 cs"
    using sink_finish_rest [of "[]" ?es "[]"] by (simp add: sink_rest.simps follow.simps idx_def)
  ultimately show ?thesis by metis
qed

text \<open>\<open>x =\<close>: an assignment without a value.\<close>

lemma assignment_without_value:
  "\<exists>s. run_parser 12 [(SkIdent, 0, 1), (SkAssign, 2, 3)] = ok s \<and> ps_reports s = []"
  by (simp add: parsing cong: parsing_frozen)

lemma parser_emits_tokens_witness:
  "\<exists>s. run_parser 12 unfinished = ok s \<and> toks (ps_events s) = unfinished"
proof -
  have "SkEof \<notin> fst ` set unfinished" by simp
  from parser_emits_tokens [OF this, of 12] show ?thesis using unfinished_operator by fastforce
qed

section \<open>Expressions\<close>

lemma paired_tree [simp]: "paired d (tree_of e @ cs) = paired d cs"
  by (induction e arbitrary: d cs) simp_all

text \<open>
  C25. A program that returns an expression is parsed back to the tree whose tokens it is: the calls the sink makes of
  the parser's events build exactly that tree and are paired, no error is reported, and the steps needed are bounded by
  the size of the tree.
\<close>

theorem expression_reads_back:
  assumes "fits 0 e" and "size e + 4 \<le> n"
  shows "\<exists>s. run_parser n ((SkReturn, sp) # source_of e) = ok s \<and> ps_reports s = [] \<and>
     sink_finish 0 (ps_events s) [] = Some ([StartNode SkRoot, StartNode SkReturnStmt, AddToken SkReturn sp,
       StartNode SkExprList] @ tree_of e @ [FinishNode, FinishNode, FinishNode, FinishTree]) \<and>
     paired 0 ([StartNode SkRoot, StartNode SkReturnStmt, AddToken SkReturn sp,
       StartNode SkExprList] @ tree_of e @ [FinishNode, FinishNode, FinishNode, FinishTree])"
proof -
  obtain s where "run_parser n ((SkReturn, sp) # source_of e) = ok s" "ps_reports s = []"
      "ps_events s = return_events sp e"
    using return_reads [OF assms(2,1)] by blast
  then show ?thesis using sink_return by auto
qed

abbreviation demo_tree :: pexpr where
  "demo_tree \<equiv> Binary (Binary (Field (Name (7, 8)) (8, 9) (9, 10)) SkPlus (11, 12)
     (Binary (Literal SkInt (13, 14)) SkStar (15, 16) (Prefix SkMinus (17, 18)
       (Binary (Name (18, 19)) SkCaret (19, 20) (Name (20, 21)))))) SkEq (22, 24)
     (Subscript (Name (25, 26)) (26, 27) (Binary (Name (27, 28)) SkOr (29, 31) (Name (32, 33))) (33, 34))"

lemma expression_reads_back_witness:
  "fits 0 demo_tree \<and> (\<exists>s. run_parser 20 ((SkReturn, 0, 6) # source_of demo_tree) = ok s \<and> ps_reports s = [])"
proof -
  have f: "fits 0 demo_tree"
    by (simp add: infix_binding_power_def prefix_binding_power_def goes_on_def token_is_unary_op_def
        token_is_literal_def INDEX_BINDING_POWER_def)
  have "size demo_tree + 4 \<le> 20" by simp
  from expression_reads_back [OF f this] f show ?thesis by blast
qed

text \<open>The table of the manual (\<open>lua_manual.of\<close>, Precedence), from lower to higher priority.\<close>

definition manual_level :: "syntax_kind \<Rightarrow> nat option" where
  "manual_level op = (case op of
      SkOr \<Rightarrow> Some 1 | SkAnd \<Rightarrow> Some 2
    | SkLAngle \<Rightarrow> Some 3 | SkRAngle \<Rightarrow> Some 3 | SkLEq \<Rightarrow> Some 3 | SkGEq \<Rightarrow> Some 3 | SkNotEq \<Rightarrow> Some 3 | SkEq \<Rightarrow> Some 3
    | SkPipe \<Rightarrow> Some 4 | SkTilde \<Rightarrow> Some 5 | SkAmpersand \<Rightarrow> Some 6
    | SkDLAngle \<Rightarrow> Some 7 | SkDRAngle \<Rightarrow> Some 7 | SkDDot \<Rightarrow> Some 8
    | SkPlus \<Rightarrow> Some 9 | SkMinus \<Rightarrow> Some 9
    | SkStar \<Rightarrow> Some 10 | SkSlash \<Rightarrow> Some 10 | SkDSlash \<Rightarrow> Some 10 | SkPercent \<Rightarrow> Some 10
    | SkCaret \<Rightarrow> Some 12
    | _ \<Rightarrow> None)"

definition manual_unary_level :: nat where "manual_unary_level = 11"

definition right_associative :: "syntax_kind \<Rightarrow> bool" where
  "right_associative op \<longleftrightarrow> op \<in> {SkDDot, SkCaret}"

lemma manual_power:
  assumes "manual_level op = Some p"
  shows "infix_binding_power op = Some (if p = 8 then (16, 15) else if p = 12 then (22, 21)
      else (2 * int p - 1, 2 * int p))"
    and "p \<in> {1, 2, 3, 4, 5, 6, 7, 8, 9, 10, 12}" and "op \<notin> {SkColon, SkLParen, SkLBracket}"
    and "right_associative op \<longleftrightarrow> p = 8 \<or> p = 12"
  using assms by (simp_all add: manual_level_def infix_binding_power_def right_associative_def
      split: syntax_kind.splits node_kind.splits keyword_kind.splits symbol_kind.splits lexeme_kind.splits)

text \<open>
  C26. The binding powers are the precedences of the manual: the right operand of a binary operator goes on at another
  operator exactly when that one has the higher priority, or the same one and associates to the right; the operand
  of a unary operator goes on exactly at operators of higher priority.
\<close>

theorem operators_follow_manual:
  assumes "manual_level o1 = Some p1" and "manual_level o2 = Some p2"
  shows "(\<exists>l_bp r_bp. infix_binding_power o1 = Some (l_bp, r_bp) \<and>
      (goes_on r_bp o2 \<longleftrightarrow> p1 < p2 \<or> p1 = p2 \<and> right_associative o1)) \<and>
    (token_is_unary_op u \<longrightarrow> (\<exists>bp. prefix_binding_power u = Some bp \<and> (goes_on bp o2 \<longleftrightarrow> manual_unary_level < p2)))"
proof -
  note m1 = manual_power [OF assms(1)] and m2 = manual_power [OF assms(2)]
  let ?l = "\<lambda>p. if p = 8 then 16 else if p = 12 then 22 else 2 * int p - 1"
  let ?r = "\<lambda>p. if p = 8 then 15 else if p = 12 then 21 else 2 * int p"
  have i: "infix_binding_power o1 = Some (?l p1, ?r p1)" "infix_binding_power o2 = Some (?l p2, ?r p2)"
    using m1(1) m2(1) by simp_all
  have g: "goes_on bp o2 \<longleftrightarrow> bp \<le> ?l p2" for bp
    using m2(3) unfolding goes_on_def i(2) by simp
  have "?r p1 \<le> ?l p2 \<longleftrightarrow> p1 < p2 \<or> p1 = p2 \<and> (p1 = 8 \<or> p1 = 12)"
    using m1(2) m2(2) by (elim insertE emptyE; simp)
  moreover have "21 \<le> ?l p2 \<longleftrightarrow> manual_unary_level < p2"
    using m2(2) unfolding manual_unary_level_def by (elim insertE emptyE; simp)
  ultimately show ?thesis unfolding g i(1) m1(4) by (simp add: prefix_binding_power_def)
qed

lemma operators_follow_manual_witness:
  "infix_binding_power SkDDot = Some (16, 15) \<and> goes_on 15 SkDDot \<and> goes_on 15 SkPlus"
proof -
  have "manual_level SkDDot = Some 8" "manual_level SkPlus = Some 9" by (simp_all add: manual_level_def)
  from operators_follow_manual [OF this(1) this(1), of SkNot] operators_follow_manual [OF this, of SkNot]
  show ?thesis by (auto simp: infix_binding_power_def right_associative_def)
qed

end
