(* ===== verification/Spec2Isabelle.thy ===== *)
theory Spec2Isabelle
  imports GcProps CallProps NumProps StringProps ExecProps CompProps CompScope CompJumps CompEval TableLibProps Utf8Props Lexer ParseProps
begin

text \<open>
  A verification development for \<^emph>\<open>tcvm\<close>, a Lua 5.5 virtual machine in Rust (the crate under
  \<open>src/src\<close>).

  \<^bold>\<open>The program.\<close> Source text is lexed and parsed into a syntax tree (\<open>parser/\<close>), compiled
  to register bytecode (\<open>compiler/\<close>, \<open>instruction.rs\<close>) and run by a threaded
  interpreter (\<open>vm/interp.rs\<close>) on values, strings, tables, functions and threads
  (\<open>env/\<close>), all of them objects of a precise incremental garbage collector (\<open>dmm/\<close>).
  An executor (\<open>lua/executor.rs\<close>) schedules coroutines and native sequences; the standard
  library is \<open>builtin/\<close>.

  \<^bold>\<open>Conventions.\<close> A panic, an out-of-range unchecked access or an overflow that debug builds trap is
  the value \<open>None\<close> of the outermost option; errors the program handles are ordinary values (the
  outcome \<open>Raise\<close>, an inner \<open>None\<close>, a left injection). Machine integers are words of their width
  where overflow matters, indices and lengths are naturals. Collected objects live in stores from
  addresses to records. Library code outside the repository is a parameter: the native callbacks
  and \<open>powf\<close> are fields of the record \<open>runtime\<close>; the library functions take the call of a script function (\<open>call\<close>), the
  integer power (\<open>fpowi\<close>) and the iterator's value as arguments, and the parser takes the tokens of the generated lexer.

  \<^bold>\<open>Theories, in the order of the code.\<close>
  \<^item> Prelude: machine types, panicking primitives, bit lengths; F64: IEEE doubles as bit patterns
    with exact rationals behind every rounding, as the Rust standard library provides them.
  \<^item> Values, NumText, NumOps: \<open>env/value.rs\<close>, the number formatting and raw equality of
    \<open>builtin/util.rs\<close>, and \<open>vm/num.rs\<close>.
  \<^item> Shape, ShapeLemmas: \<open>env/shape/mod.rs\<close>, hidden classes, their transition tree and the
    metamethod caches; Tables, TableLemmas: \<open>env/table/mod.rs\<close> with the invariant
    \<open>heap_inv\<close> and the read-after-write law \<open>write_spec\<close> of every table operation; TableStore: the
    law as the interface \<open>keyed_store\<close> and the bulk writes built on it; Boot: the walk of
    a table along the transition tree and the heap \<open>Lua::new\<close> builds.
  \<^item> Interner: \<open>env/string.rs\<close>, with the interface \<open>identity_table\<close> that justifies strings
    being carried as their bytes.
  \<^item> Metachain: the \<open>__index\<close> and \<open>__newindex\<close> walks of \<open>vm/interp.rs\<close>, unrolled as
    the inductive relations \<open>index_walk\<close> and \<open>newindex_walk\<close>, and inline caches. HandlerLemmas states the rule of the
    reference manual (\<open>manual_access\<close>, \<open>answers\<close>), from which the walks differ in calling metavalues that are neither
    tables nor functions.
  \<^item> Machine, Calls, Handlers, CallHandlers, Interp: the interpreter: its state, the call protocol,
    one definition per \<open>op_*\<close> function, the dispatch loop. UpvalueLemmas, CallLemmas,
    HandlerLemmas: their invariants and effects.
  \<^item> TableProps, NumProps, InterpProps, CallProps: their properties, each with a witness on the heap of
    a fresh runtime or on a small machine.
  \<^item> Metrics, Gc, GcRun: \<open>dmm/metrics.rs\<close>, \<open>dmm/context.rs\<close>, \<open>dmm/arena.rs\<close>: boxes with colours, the
    mark queues, the sweep cursor and the collection loop; GcMutate, GcWorld: the operations of a program
    (allocation, barriers, weak pointers) and of the arena as the step relation \<open>gc_step\<close>; GcInv, GcMark,
    GcSweep: the tricolour invariant and what keeps it; GcProps: safety in every reachable state (through the
    interface \<open>transition_system\<close>), completeness and termination of a collection.
  \<^item> Outcome, Pattern, Coerce, StringLib, Gsub: \<open>builtin/string/pattern.rs\<close>, \<open>builtin/string/mod.rs\<close> and the
    coercions of \<open>builtin/util.rs\<close>; PatternSpec is the declarative relation \<open>pat_rule\<close> of patterns, and
    PatternRefine shows that the backtracking matcher finds its first match; StringLemmas, GsubLemmas (the
    interfaces \<open>replacement\<close> and \<open>copying\<close>), StringProps: the functions built on the matcher.
  \<^item> TableLib, TableSort: \<open>builtin/table.rs\<close>, its quicksort written over an abstract comparison and swap.
    SortLaws shows that it permutes whatever the comparisons do (interface \<open>array_permute\<close>, with effects and errors), and
    sorts when the comparison is a strict order (interface \<open>array_sort\<close>); TableLibLemmas interprets both on the sequences
    of the heap; TableLibProps: every function as an operation on
    lists.
  \<^item> Utf8, Utf8Props: \<open>builtin/utf8.rs\<close>: the codec is a bijection between code points and the sequences the
    decoder accepts, and what the library functions make of it.
  \<^item> Executor, Coroutines: \<open>lua/executor.rs\<close> and \<open>builtin/coroutine.rs\<close>: the driver, its actions, error
    unwinding, resumption and yields; ExecutorLemmas, ExecProps: what a resumer gets and where errors go.
  \<^item> Lexer: the callbacks of \<open>parser/kind.rs\<close> for comments and long strings; the lexer's \<open>bump\<close> (of the logos crate) is
    a parameter with its documented panic off a character boundary. Parser, ParseRules: \<open>parser/machinery.rs\<close> and
    \<open>parser/rules.rs\<close>: tokens, events, markers and one definition per rule; Sink: the events as calls of the tree
    builder, the final \<open>finish\<close> included, and when they are \<open>paired\<close>. ParseFrame, ParseSound (interface \<open>sound_rules\<close>): Hoare rules and the frame every rule keeps, with
    the links of preceded nodes; ParseBlocks (interfaces \<open>block_weights\<close>, \<open>closing_rules\<close>): what a rule that opens blocks
    has to close before it returns; ParseExpr,
    ParseTree: expression trees with their tokens and events, and the loop that reads them back; ParseEval, ParseProps: the
    properties, among them programs parsed in the kernel.
  \<^item> Chunk, CompCtx, CompExpr, CompStmt: \<open>parser/syntax.rs\<close> as a tree, \<open>compiler/defs.rs\<close> and
    \<open>compiler/rules.rs\<close>: registers, labels, jump lists, constants, scopes, upvalue resolution, expressions,
    statements and \<open>compile\<close>. CompFinish, CompDepth (interface \<open>compiler_upto\<close>): the nesting depth suffices;
    CompSound, CompSafe, CompTyped (interface \<open>sound_compiler\<close>): what operands refer to; CompProps, CompScope,
    CompJumps: the properties that tie the compiler to the interpreter; CompEval:
    programs compiled in the kernel, among them the ones that come out wrong.

  \<^bold>\<open>Bounds and fuel.\<close> The metatable walks recurse on the source's own bound \<open>MAX_TAG_LOOP\<close>, the matcher on
  its bound of 200 nested calls. The dispatch loop \<open>run_loop\<close> takes fuel, one unit per instruction, and
  says so in its result when it runs out. A numeric loop is followed from one FORLOOP to the next with any body between
  them, and its theorem gives the exact number of rounds. A collection runs for at most \<open>run_bound\<close> turns, six per box
  and ten more, a gmatch loop for two more calls than the subject has bytes, and both are theorems. The
  driver's turns are counted by the caller. The parser is given a number of steps, which bounds both the depth of the
  rules and the rounds of each loop; it panics for none of them, four more than the size of an expression are enough to read
  it, and for a source with a block that is never closed no number is. The quicksort runs on its own termination measure.
  The compiler's nesting depth, which is not in the code, is the size of the program, and the model's error \<open>Unfinished\<close>
  for using it up never occurs (\<open>compile_finishes\<close>); a panic does (\<open>extra_assigned_value_panics\<close>).

  \<^bold>\<open>Not modelled.\<close> The layout of hash tables and hash functions (maps stand for them), the text of
  runtime error messages, line numbers, operating-system effects (\<open>builtin/io.rs\<close>, \<open>builtin/os.rs\<close>), futures
  (\<open>vm/async_sequence.rs\<close>), the typed views of the syntax tree (\<open>parser/syntax.rs\<close>, whose node types theory Chunk has), the pointer
  casts and derive code of \<open>dmm\<close>, the token automaton that the
  logos crate generates, the disassembler, and the parts of the program named above that no theory covers.
\<close>

end
